(* ===== verification/Prelude.thy ===== *)
theory Prelude
  imports Main "HOL-Library.Word" "HOL-Library.Multiset"
begin

text \<open>
  Shared vocabulary of the development: the types that stand for the Rust standard
  library's (\<open>Instant\<close>, \<open>Duration\<close>, \<open>Result\<close>), the vector and iterator operations the
  components call, the lock-free update loop, and three interfaces stated as locales: a
  ledger of admission permits, an invariant of a step function and a compare-and-exchange
  update. Every locale is interpreted by the components that provide its operations.
\<close>

named_theorems ledger_defs \<open>definitions of reserve and release operations\<close>
named_theorems step_inv \<open>one-step preservation of a component's invariant\<close>

subsection \<open>Time, results, machine limits\<close>

text \<open>
  A monotonic \<open>Instant\<close> is a number of nanoseconds since an arbitrary origin and a
  \<open>Duration\<close> a number of nanoseconds. Adding a duration to an instant panics in Rust only
  past the end of the clock's range (centuries), which is outside the model.
\<close>

type_synonym instant = nat
type_synonym duration = nat
type_synonym bytes = "8 word list"

abbreviation from_millis :: "nat \<Rightarrow> duration" where
  "from_millis n \<equiv> n * 1000000"

abbreviation from_secs :: "nat \<Rightarrow> duration" where
  "from_secs n \<equiv> n * 1000000000"

text \<open>\<open>Result<T, E>\<close> is \<open>'e + 'a\<close>, \<open>Inl\<close> the error.\<close>

abbreviation is_ok :: "'e + 'a \<Rightarrow> bool" where
  "is_ok r \<equiv> \<not> isl r"

text \<open>\<open>Option::ok_or\<close> and the \<open>?\<close> operator on a result.\<close>

definition ok_or :: "'e \<Rightarrow> 'a option \<Rightarrow> 'e + 'a" where
  "ok_or e m = (case m of None \<Rightarrow> Inl e | Some x \<Rightarrow> Inr x)"

definition and_then :: "'e + 'a \<Rightarrow> ('a \<Rightarrow> 'e + 'b) \<Rightarrow> 'e + 'b" where
  "and_then m f = (case m of Inl e \<Rightarrow> Inl e | Inr x \<Rightarrow> f x)"

lemma ok_or_simps [simp]: "ok_or e None = Inl e" "ok_or e (Some x) = Inr x"
  by (simp_all add: ok_or_def)

lemma and_then_simps [simp]: "and_then (Inl e) f = Inl e" "and_then (Inr x) f = f x"
  by (simp_all add: and_then_def)

lemma ok_or_Inr [simp]: "ok_or e m = Inr x \<longleftrightarrow> m = Some x"
  by (cases m) simp_all

lemma and_then_Inr: "and_then m f = Inr y \<longleftrightarrow> (\<exists>x. m = Inr x \<and> f x = Inr y)"
  by (cases m) simp_all

lemma map_sum_Inr: "map_sum f g x = Inr y \<longleftrightarrow> (\<exists>z. x = Inr z \<and> g z = y)"
  by (cases x) auto

definition usize_max :: nat where
  "usize_max = 18446744073709551615"

definition u32_max :: nat where
  "u32_max = 4294967295"

definition u64_max :: nat where
  "u64_max = 18446744073709551615"

definition saturating_add :: "nat \<Rightarrow> nat \<Rightarrow> nat \<Rightarrow> nat" where
  "saturating_add lim a b = min lim (a + b)"

lemma saturating_add_bound: "saturating_add lim a b \<le> lim"
  by (simp add: saturating_add_def)

lemma saturating_add_exact: "a + b \<le> lim \<Longrightarrow> saturating_add lim a b = a + b"
  by (simp add: saturating_add_def)

subsection \<open>Vectors and iterators\<close>

text \<open>\<open>Iterator::position\<close>: the index of the first element that satisfies the predicate.\<close>

fun position :: "('a \<Rightarrow> bool) \<Rightarrow> 'a list \<Rightarrow> nat option" where
  "position p [] = None"
| "position p (x # xs) = (if p x then Some 0 else map_option Suc (position p xs))"

lemma position_None_iff: "position p xs = None \<longleftrightarrow> (\<forall>x \<in> set xs. \<not> p x)"
  by (induction xs) auto

lemma position_Some:
  assumes "position p xs = Some i"
  shows "i < length xs" and "p (xs ! i)" and "\<forall>j < i. \<not> p (xs ! j)"
proof -
  have "i < length xs \<and> p (xs ! i) \<and> (\<forall>j < i. \<not> p (xs ! j))"
    using assms
  proof (induction xs arbitrary: i)
    case Nil
    then show ?case by simp
  next
    case (Cons x xs)
    show ?case
    proof (cases "p x")
      case True
      with Cons.prems show ?thesis by simp
    next
      case False
      with Cons.prems obtain k where k: "position p xs = Some k" "i = Suc k"
        by auto
      with Cons.IH [OF k(1)] False show ?thesis
        by (auto simp: less_Suc_eq_0_disj)
    qed
  qed
  then show "i < length xs" "p (xs ! i)" "\<forall>j < i. \<not> p (xs ! j)" by auto
qed

text \<open>\<open>Vec::remove\<close> and \<open>VecDeque::remove\<close>: the later elements move down.\<close>

definition remove_at :: "nat \<Rightarrow> 'a list \<Rightarrow> 'a list" where
  "remove_at i xs = take i xs @ drop (Suc i) xs"

lemma length_remove_at [simp]: "i < length xs \<Longrightarrow> length (remove_at i xs) = length xs - 1"
  by (simp add: remove_at_def)

lemma remove_at_split:
  "i < length xs \<Longrightarrow> xs = take i xs @ xs ! i # drop (Suc i) xs"
  by (rule id_take_nth_drop)

lemma set_remove_at: "set (remove_at i xs) \<subseteq> set xs"
  by (auto simp: remove_at_def dest: in_set_takeD in_set_dropD)

lemma mset_remove_at:
  "i < length xs \<Longrightarrow> mset xs = add_mset (xs ! i) (mset (remove_at i xs))"
  by (subst remove_at_split [of i xs]) (auto simp: remove_at_def)

lemma sum_list_remove_at:
  fixes f :: "'a \<Rightarrow> nat"
  assumes "i < length xs"
  shows "(\<Sum>x\<leftarrow>xs. f x) = f (xs ! i) + (\<Sum>x\<leftarrow>remove_at i xs. f x)"
  by (subst remove_at_split [OF assms]) (simp add: remove_at_def)

text \<open>\<open>Vec::swap_remove\<close>: the last element takes the removed one's place.\<close>

definition swap_remove :: "nat \<Rightarrow> 'a list \<Rightarrow> 'a list" where
  "swap_remove i xs = butlast (xs[i := last xs])"

lemma length_swap_remove [simp]: "length (swap_remove i xs) = length xs - 1"
  by (simp add: swap_remove_def)

lemma mset_swap_remove:
  assumes "i < length xs"
  shows "mset xs = add_mset (xs ! i) (mset (swap_remove i xs))"
proof (cases xs rule: rev_cases)
  case Nil
  with assms show ?thesis by simp
next
  case (snoc ys y)
  show ?thesis
  proof (cases "i = length ys")
    case True
    with snoc show ?thesis by (simp add: swap_remove_def)
  next
    case False
    with assms snoc have i: "i < length ys" by simp
    with snoc have "swap_remove i xs = ys[i := y]"
      by (simp add: swap_remove_def list_update_append)
    moreover have "ys ! i \<in># mset ys" using i by simp
    ultimately show ?thesis
      using i snoc by (simp add: mset_update nth_append)
  qed
qed

text \<open>\<open>Iterator::find_map\<close>\<close>

fun find_map :: "('a \<Rightarrow> 'b option) \<Rightarrow> 'a list \<Rightarrow> 'b option" where
  "find_map f [] = None"
| "find_map f (x # xs) = (case f x of None \<Rightarrow> find_map f xs | Some y \<Rightarrow> Some y)"

lemma find_map_append: "find_map f (xs @ ys) = (case find_map f xs of None \<Rightarrow> find_map f ys | Some y \<Rightarrow> Some y)"
  by (induction xs) (auto split: option.split)

subsection \<open>Text\<close>

text \<open>
  A \<open>str\<close> is its UTF-8 bytes, a \<open>string\<close>. \<open>str::trim\<close> removes white space at both ends;
  the model removes the ASCII white space (the code points 9 to 13 and 32), the only white
  space in the inputs the components trim (configuration values and command output).
\<close>

definition is_space :: "char \<Rightarrow> bool" where
  "is_space c \<longleftrightarrow> (let n = of_char c :: nat in (9 \<le> n \<and> n \<le> 13) \<or> n = 32)"

definition trim :: "string \<Rightarrow> string" where
  "trim s = rev (dropWhile is_space (rev (dropWhile is_space s)))"

text \<open>\<open>char::is_control\<close> on ASCII: the code points below 32, and 127.\<close>

definition is_control :: "char \<Rightarrow> bool" where
  "is_control c \<longleftrightarrow> (let n = of_char c :: nat in n < 32 \<or> n = 127)"

definition to_lower :: "char \<Rightarrow> char" where
  "to_lower c =
     (let n = of_char c :: nat in if 65 \<le> n \<and> n \<le> 90 then char_of (n + 32) else c)"

definition to_ascii_lowercase :: "string \<Rightarrow> string" where
  "to_ascii_lowercase s = map to_lower s"

definition is_ascii_digit :: "char \<Rightarrow> bool" where
  "is_ascii_digit c \<longleftrightarrow> (let n = of_char c :: nat in 48 \<le> n \<and> n \<le> 57)"

definition is_ascii_alphabetic :: "char \<Rightarrow> bool" where
  "is_ascii_alphabetic c \<longleftrightarrow>
     (let n = of_char c :: nat in (65 \<le> n \<and> n \<le> 90) \<or> (97 \<le> n \<and> n \<le> 122))"

abbreviation is_ascii_alphanumeric :: "char \<Rightarrow> bool" where
  "is_ascii_alphanumeric c \<equiv> is_ascii_alphabetic c \<or> is_ascii_digit c"

definition is_ascii_hexdigit :: "char \<Rightarrow> bool" where
  "is_ascii_hexdigit c \<longleftrightarrow>
     is_ascii_digit c \<or>
     (let n = of_char c :: nat in (65 \<le> n \<and> n \<le> 70) \<or> (97 \<le> n \<and> n \<le> 102))"

text \<open>\<open>str::strip_prefix\<close>, and \<open>[String]::join\<close>.\<close>

fun strip_prefix :: "string \<Rightarrow> string \<Rightarrow> string option" where
  "strip_prefix [] s = Some s"
| "strip_prefix (p # ps) [] = None"
| "strip_prefix (p # ps) (c # s) = (if p = c then strip_prefix ps s else None)"

lemma strip_prefix_iff: "strip_prefix p s = Some r \<longleftrightarrow> s = p @ r"
  by (induction p s rule: strip_prefix.induct) auto

abbreviation starts_with :: "string \<Rightarrow> string \<Rightarrow> bool" where
  "starts_with s p \<equiv> strip_prefix p s \<noteq> None"

lemma starts_with_iff: "starts_with s p \<longleftrightarrow> (\<exists>r. s = p @ r)"
  using strip_prefix_iff by fastforce

fun join :: "string \<Rightarrow> string list \<Rightarrow> string" where
  "join sep [] = []"
| "join sep [x] = x"
| "join sep (x # y # xs) = x @ sep @ join sep (y # xs)"

text \<open>\<open>str::contains\<close>, \<open>str::lines\<close> (a line ends in a newline, with a carriage return before it
  or not; the last one may lack it) and \<open>str::trim_matches\<close>.\<close>

fun contains :: "string \<Rightarrow> string \<Rightarrow> bool" where
  "contains [] p = (p = [])"
| "contains (c # s) p = (starts_with (c # s) p \<or> contains s p)"

definition strip_return :: "string \<Rightarrow> string" where
  "strip_return l = (if l \<noteq> [] \<and> last l = CHR 0x0D then butlast l else l)"

fun lines_of :: "string \<Rightarrow> string \<Rightarrow> string list" where
  "lines_of acc [] = (if acc = [] then [] else [rev acc])"
| "lines_of acc (c # s) =
     (if c = CHR 0x0A then strip_return (rev acc) # lines_of [] s else lines_of (c # acc) s)"

definition lines :: "string \<Rightarrow> string list" where
  "lines s = lines_of [] s"

definition trim_matches :: "char \<Rightarrow> string \<Rightarrow> string" where
  "trim_matches q s = rev (dropWhile ((=) q) (rev (dropWhile ((=) q) s)))"

text \<open>The decimal numeral that formatting a number gives.\<close>

fun decimal :: "nat \<Rightarrow> string" where
  "decimal n =
     (if n < 10 then [char_of (48 + n)] else decimal (n div 10) @ [char_of (48 + n mod 10)])"

declare decimal.simps [simp del]

definition decimal_int :: "int \<Rightarrow> string" where
  "decimal_int i = (if i < 0 then ''-'' else []) @ decimal (nat \<bar>i\<bar>)"

subsection \<open>The compare-and-exchange loop\<close>

text \<open>
  \<open>loop { match a.compare_exchange_weak(s, next(s)) { Ok => return r(s), Err(c) => s = c } }\<close>:
  the thread starts from the value it loaded; each failed exchange (spurious or because
  another thread wrote) delivers the value now in memory. \<open>seen\<close> is the list of those
  values. The exchange that succeeds does so at the last value observed.
\<close>

fun cas_loop :: "('s \<Rightarrow> 's \<times> 'r) \<Rightarrow> 's \<Rightarrow> 's list \<Rightarrow> 's \<times> 'r" where
  "cas_loop f s [] = f s"
| "cas_loop f s (c # seen) = cas_loop f c seen"

lemma cas_loop_atomic: "cas_loop f s seen = f (last (s # seen))"
  by (induction seen arbitrary: s) auto

subsection \<open>Admission ledgers\<close>

text \<open>
  Several components hand out permits (RAII guards) and take them back when the guard is
  dropped. \<open>ledger_run\<close> replays any sequence of requests and drops; a drop names a permit
  that is outstanding, since Rust drops each guard once.
\<close>

datatype ('r, 'p) ledger_op = Reserve 'r | Release 'p

fun ledger_step ::
  "('r \<Rightarrow> 's \<Rightarrow> 'p option \<times> 's) \<Rightarrow> ('p \<Rightarrow> 's \<Rightarrow> 's) \<Rightarrow> ('r, 'p) ledger_op
    \<Rightarrow> 's \<times> 'p list \<Rightarrow> 's \<times> 'p list" where
  "ledger_step reserve release (Reserve r) (s, ps) =
     (case reserve r s of (None, s') \<Rightarrow> (s', ps) | (Some p, s') \<Rightarrow> (s', p # ps))"
| "ledger_step reserve release (Release p) (s, ps) =
     (if p \<in> set ps then (release p s, remove1 p ps) else (s, ps))"

definition ledger_run ::
  "('r \<Rightarrow> 's \<Rightarrow> 'p option \<times> 's) \<Rightarrow> ('p \<Rightarrow> 's \<Rightarrow> 's) \<Rightarrow> ('r, 'p) ledger_op list
    \<Rightarrow> 's \<times> 'p list \<Rightarrow> 's \<times> 'p list" where
  "ledger_run reserve release ops sp = fold (ledger_step reserve release) ops sp"

locale admission_ledger =
  fixes reserve :: "'r \<Rightarrow> 's \<Rightarrow> 'p option \<times> 's"
    and release :: "'p \<Rightarrow> 's \<Rightarrow> 's"
    and accounted :: "'s \<Rightarrow> 'p list \<Rightarrow> bool"
  assumes reserve_accounted:
      "accounted s ps \<Longrightarrow> reserve r s = (Some p, s') \<Longrightarrow> accounted s' (p # ps)"
    and refuse_accounted:
      "accounted s ps \<Longrightarrow> reserve r s = (None, s') \<Longrightarrow> accounted s' ps"
    and release_accounted:
      "accounted s ps \<Longrightarrow> p \<in> set ps \<Longrightarrow> accounted (release p s) (remove1 p ps)"
begin

lemma step_accounted:
  "accounted (fst sp) (snd sp) \<Longrightarrow>
   accounted (fst (ledger_step reserve release opn sp)) (snd (ledger_step reserve release opn sp))"
  by (cases sp; cases opn)
    (auto split: option.splits prod.splits
      dest: reserve_accounted refuse_accounted release_accounted)

lemma run_accounted:
  assumes "accounted (fst sp) (snd sp)"
  shows "accounted (fst (ledger_run reserve release ops sp))
    (snd (ledger_run reserve release ops sp))"
  using assms
  by (induction ops arbitrary: sp) (simp_all add: ledger_run_def step_accounted)

end

text \<open>A permit list after its owner dropped one guard: what \<open>remove1\<close> does to totals.\<close>

lemma sum_list_remove1:
  fixes f :: "'a \<Rightarrow> nat"
  assumes "p \<in> set ps"
  shows "(\<Sum>x\<leftarrow>ps. f x) = f p + (\<Sum>x\<leftarrow>remove1 p ps. f x)"
  using assms by (induction ps) auto

lemma length_remove1_less: "p \<in> set ps \<Longrightarrow> length ps = Suc (length (remove1 p ps))"
  by (induction ps) auto

subsection \<open>Invariants of event-driven components\<close>

text \<open>
  A component whose public methods are the events of a step function: whatever every method
  keeps, every sequence of calls keeps.
\<close>

definition run_events :: "('e \<Rightarrow> 's \<Rightarrow> 's) \<Rightarrow> 'e list \<Rightarrow> 's \<Rightarrow> 's" where
  "run_events step es s = fold step es s"

lemma run_events_simps [simp]:
  "run_events step [] s = s"
  "run_events step (e # es) s = run_events step es (step e s)"
  by (simp_all add: run_events_def)

lemma run_events_append:
  "run_events step (es @ fs) s = run_events step fs (run_events step es s)"
  by (simp add: run_events_def)

locale invariant_component =
  fixes step :: "'e \<Rightarrow> 's \<Rightarrow> 's"
    and initial :: 's
    and inv :: "'s \<Rightarrow> bool"
  assumes inv_initial: "inv initial"
    and inv_step: "inv s \<Longrightarrow> inv (step e s)"
begin

lemma inv_run_from: "inv s \<Longrightarrow> inv (run_events step es s)"
  by (induction es arbitrary: s) (auto simp: inv_step)

lemma inv_run: "inv (run_events step es initial)"
  by (rule inv_run_from [OF inv_initial])

lemma inv_prefix: "inv (run_events step (take n es) initial)"
  by (rule inv_run)

end

end
