(* ===== verification/Profile_Identity.thy ===== *)
theory Profile_Identity
  imports Prelude "HOL-Library.List_Lexorder"
begin

text \<open>
  \<open>src/profile_identity.rs\<close>: the persistent identity of an application profile, sixteen
  bytes with the all-zero value reserved for unsaved drafts; its printed form (\<open>Display\<close>,
  used by \<open>Serialize\<close>) and its parser (\<open>FromStr\<close>, used by \<open>Deserialize\<close>), which are inverse
  to each other on saved identities.
\<close>

subsection \<open>The identity\<close>

datatype profile_id = ProfileId (id_bytes: "8 word list")

definition UNSAVED :: profile_id where
  "UNSAVED = ProfileId (replicate 16 0)"

definition is_saved :: "profile_id \<Rightarrow> bool" where
  "is_saved i \<longleftrightarrow> i \<noteq> UNSAVED"

text \<open>The type is \<open>[u8; 16]\<close>: sixteen bytes.\<close>

definition wf_id :: "profile_id \<Rightarrow> bool" where
  "wf_id i \<longleftrightarrow> length (id_bytes i) = 16"

text \<open>\<open>derive(PartialOrd, Ord)\<close> on the byte array: lexicographic.\<close>

instantiation profile_id :: linorder
begin

definition less_eq_profile_id :: "profile_id \<Rightarrow> profile_id \<Rightarrow> bool" where
  "less_eq_profile_id a b \<longleftrightarrow> id_bytes a \<le> id_bytes b"

definition less_profile_id :: "profile_id \<Rightarrow> profile_id \<Rightarrow> bool" where
  "less_profile_id a b \<longleftrightarrow> id_bytes a < id_bytes b"

instance
  by standard
    (auto simp: less_eq_profile_id_def less_profile_id_def profile_id.expand)

end

text \<open>
  \<open>ProfileId::new\<close>: sixteen bytes of \<open>/dev/urandom\<close>, drawn again while they are all zero.
  Each read is the outcome of opening and reading the device (an I/O error, or the bytes);
  \<open>reads\<close> lists the outcomes in order. \<open>None\<close>: the outcomes given end before the loop does.
\<close>

fun profile_id_new :: "(string + 8 word list) list \<Rightarrow> (string + profile_id) option" where
  "profile_id_new [] = None"
| "profile_id_new (Inl e # reads) = Some (Inl e)"
| "profile_id_new (Inr bytes # reads) =
     (let i = ProfileId bytes in
      if i \<noteq> UNSAVED then Some (Inr i) else profile_id_new reads)"

subsection \<open>Printing and parsing\<close>

definition hex_digit :: "nat \<Rightarrow> char" where
  "hex_digit n = (if n < 10 then char_of (48 + n) else char_of (87 + n))"

text \<open>\<open>write!(f, "{byte:02x}")\<close>\<close>

definition show_byte :: "8 word \<Rightarrow> string" where
  "show_byte b = [hex_digit (unat b div 16), hex_digit (unat b mod 16)]"

definition profile_id_fmt :: "profile_id \<Rightarrow> string" where
  "profile_id_fmt i = concat (map show_byte (id_bytes i))"

text \<open>\<open>b.is_ascii_digit() || (b'a'..=b'f').contains(&b)\<close>\<close>

definition is_lower_hex :: "char \<Rightarrow> bool" where
  "is_lower_hex c \<longleftrightarrow>
     (let n = of_char c :: nat in (48 \<le> n \<and> n \<le> 57) \<or> (97 \<le> n \<and> n \<le> 102))"

text \<open>\<open>u8::from_str_radix(_, 16)\<close> on one digit; it also accepts upper case.\<close>

definition digit_value :: "char \<Rightarrow> nat option" where
  "digit_value c =
     (let n = of_char c :: nat in
      if 48 \<le> n \<and> n \<le> 57 then Some (n - 48)
      else if 97 \<le> n \<and> n \<le> 102 then Some (n - 87)
      else if 65 \<le> n \<and> n \<le> 70 then Some (n - 55)
      else None)"

definition parse_byte :: "char \<Rightarrow> char \<Rightarrow> 8 word option" where
  "parse_byte a b =
     (case (digit_value a, digit_value b) of
        (Some x, Some y) \<Rightarrow> Some (of_nat (16 * x + y))
      | _ \<Rightarrow> None)"

fun parse_bytes :: "string \<Rightarrow> 8 word list option" where
  "parse_bytes (a # b # rest) =
     (case parse_byte a b of
        None \<Rightarrow> None
      | Some w \<Rightarrow> map_option ((#) w) (parse_bytes rest))"
| "parse_bytes _ = Some []"

datatype id_error = NotHex32 | InvalidDigit | AllZeroReserved

definition profile_id_from_str :: "string \<Rightarrow> id_error + profile_id" where
  "profile_id_from_str value =
     (if length value \<noteq> 32 \<or> \<not> list_all is_lower_hex value then Inl NotHex32
      else case parse_bytes value of
             None \<Rightarrow> Inl InvalidDigit
           | Some bytes \<Rightarrow>
               (let i = ProfileId bytes in
                if \<not> is_saved i then Inl AllZeroReserved else Inr i))"

subsection \<open>Round trips\<close>

lemma of_char_hex_digit:
  "n < 16 \<Longrightarrow> (of_char (hex_digit n) :: nat) = (if n < 10 then 48 + n else 87 + n)"
  by (simp add: hex_digit_def)

lemma hex_digit_lower: "n < 16 \<Longrightarrow> is_lower_hex (hex_digit n)"
  by (simp add: is_lower_hex_def of_char_hex_digit)

lemma digit_value_hex_digit: "n < 16 \<Longrightarrow> digit_value (hex_digit n) = Some n"
  by (simp add: digit_value_def of_char_hex_digit)

lemma byte_halves:
  fixes b :: "8 word"
  shows "unat b div 16 < 16" and "unat b mod 16 < 16"
proof -
  have "unat b < 256" using unsigned_less [of b] by simp
  then show "unat b div 16 < 16" by (simp add: less_mult_imp_div_less)
qed simp

lemma parse_show_byte:
  "parse_byte (hex_digit (unat b div 16)) (hex_digit (unat b mod 16)) = Some (b :: 8 word)"
proof -
  have "16 * (unat b div 16) + unat b mod 16 = unat b" by simp
  then show ?thesis
    using byte_halves [of b] by (simp add: parse_byte_def digit_value_hex_digit)
qed

lemma parse_bytes_show: "parse_bytes (concat (map show_byte bs)) = Some bs"
  by (induction bs) (auto simp: show_byte_def parse_show_byte)

lemma length_show: "length (concat (map show_byte bs)) = 2 * length bs"
  by (induction bs) (auto simp: show_byte_def)

lemma show_lower_hex: "list_all is_lower_hex (concat (map show_byte bs))"
  by (induction bs) (auto simp: show_byte_def hex_digit_lower byte_halves)

text \<open>Every lower-case hexadecimal digit is printed back from its value.\<close>

lemma hex_digit_digit_value:
  assumes "is_lower_hex c" and "digit_value c = Some v"
  shows "hex_digit v = c" and "v < 16"
proof -
  let ?n = "of_char c :: nat"
  have c: "c = char_of ?n" by simp
  from assms have
    "(48 \<le> ?n \<and> ?n \<le> 57 \<and> v = ?n - 48) \<or> (97 \<le> ?n \<and> ?n \<le> 102 \<and> v = ?n - 87)"
    by (auto simp: is_lower_hex_def digit_value_def Let_def split: if_splits)
  then have "(48 + v = ?n \<and> v < 10) \<or> (87 + v = ?n \<and> 10 \<le> v \<and> v < 16)" by auto
  then show "hex_digit v = c" "v < 16" using c by (auto simp: hex_digit_def)
qed

lemma lower_hex_value: "is_lower_hex c \<Longrightarrow> \<exists>v. digit_value c = Some v"
  by (auto simp: is_lower_hex_def digit_value_def Let_def)

lemma show_parse_byte:
  assumes "is_lower_hex a" "is_lower_hex b" "parse_byte a b = Some w"
  shows "show_byte w = [a, b]"
proof -
  from assms obtain x y where xy: "digit_value a = Some x" "digit_value b = Some y"
      and w: "w = of_nat (16 * x + y)"
    by (auto simp: parse_byte_def split: option.splits)
  note x = hex_digit_digit_value [OF assms(1) xy(1)]
  note y = hex_digit_digit_value [OF assms(2) xy(2)]
  have "unat w = 16 * x + y"
    using x(2) y(2) unfolding w
    by (simp add: unsigned_of_nat take_bit_nat_eq_self del: of_nat_add of_nat_mult)
  with x y show ?thesis by (simp add: show_byte_def)
qed

lemma show_parse_bytes:
  "list_all is_lower_hex s \<Longrightarrow> even (length s) \<Longrightarrow> parse_bytes s = Some bs \<Longrightarrow>
   concat (map show_byte bs) = s"
proof (induction s arbitrary: bs rule: parse_bytes.induct)
  case (1 a b rest)
  then obtain w ws where w: "parse_byte a b = Some w" "parse_bytes rest = Some ws"
      "bs = w # ws"
    by (auto split: option.splits)
  with 1 have "concat (map show_byte ws) = rest" by auto
  with 1 w show ?case by (simp add: show_parse_byte)
qed auto

lemma parse_bytes_lower:
  "list_all is_lower_hex s \<Longrightarrow> \<exists>bs. parse_bytes s = Some bs \<and> length bs = length s div 2"
proof (induction s rule: parse_bytes.induct)
  case (1 a b rest)
  then obtain x y where "digit_value a = Some x" "digit_value b = Some y"
    using lower_hex_value by fastforce
  with 1 show ?case by (auto simp: parse_byte_def)
qed auto

text \<open>
  the printed form of every saved identity parses back to the same identity, so a
  stored profile keeps its identity over a save and a load.
\<close>

theorem profile_id_parse_print:
  assumes "wf_id i" and "is_saved i"
  shows "profile_id_from_str (profile_id_fmt i) = Inr i"
  using assms
  by (simp add: profile_id_from_str_def profile_id_fmt_def wf_id_def length_show
      show_lower_hex parse_bytes_show)

theorem profile_id_parse_print_witness:
  "wf_id (ProfileId (replicate 16 171)) \<and> is_saved (ProfileId (replicate 16 171))
   \<and> profile_id_from_str (profile_id_fmt (ProfileId (replicate 16 171)))
     = Inr (ProfileId (replicate 16 171))"
proof -
  let ?i = "ProfileId (replicate 16 171)"
  have w: "wf_id ?i" by (simp add: wf_id_def)
  have s: "is_saved ?i" by (simp add: is_saved_def UNSAVED_def)
  from profile_id_parse_print [OF w s] w s show ?thesis by simp
qed

text \<open>
  a string is accepted by the parser exactly when it is the printed form of some
  saved sixteen-byte identity; every other string (wrong length, upper case, the all-zero
  identity) is refused, and the digit error of the inner loop is unreachable.
\<close>

theorem profile_id_from_str_exact:
  "profile_id_from_str s = Inr i \<longleftrightarrow> wf_id i \<and> is_saved i \<and> s = profile_id_fmt i"
proof
  assume l: "profile_id_from_str s = Inr i"
  then have s: "length s = 32" "list_all is_lower_hex s"
    by (auto simp: profile_id_from_str_def split: if_splits)
  then obtain bs where bs: "parse_bytes s = Some bs" "length bs = 16"
    using parse_bytes_lower by fastforce
  with l s have "i = ProfileId bs" "is_saved i"
    by (auto simp: profile_id_from_str_def Let_def split: if_splits)
  moreover have "concat (map show_byte bs) = s"
    using show_parse_bytes [OF s(2) _ bs(1)] s(1) by simp
  ultimately show "wf_id i \<and> is_saved i \<and> s = profile_id_fmt i"
    using bs(2) by (simp add: wf_id_def profile_id_fmt_def)
next
  assume "wf_id i \<and> is_saved i \<and> s = profile_id_fmt i"
  then show "profile_id_from_str s = Inr i"
    by (simp add: profile_id_from_str_def profile_id_fmt_def wf_id_def length_show
        show_lower_hex parse_bytes_show)
qed

lemma from_str_no_digit_error: "profile_id_from_str s \<noteq> Inl InvalidDigit"
  using parse_bytes_lower [of s]
  by (auto simp: profile_id_from_str_def Let_def split: option.splits if_splits)

text \<open>The generator returns a saved identity, or the device's error, at the first read that is not all zero.\<close>

lemma profile_id_new_saved:
  "profile_id_new reads = Some (Inr i) \<Longrightarrow> is_saved i"
  by (induction reads rule: profile_id_new.induct) (auto simp: is_saved_def Let_def split: if_splits)

lemma profile_id_new_returns:
  "r \<in> set reads \<Longrightarrow> r \<noteq> Inr (replicate 16 0) \<Longrightarrow> \<exists>x. profile_id_new reads = Some x"
  by (induction reads rule: profile_id_new.induct) (auto simp: UNSAVED_def Let_def)

end
