(* ===== verification/Cleanup_Queue.thy ===== *)
theory Cleanup_Queue
  imports Profile_Identity
begin

text \<open>
  \<open>src/lifecycle.rs\<close>: the bounded cleanup queue. A job owns live resources (processes,
  leases, directories); at most two cleanup workers run at a time, a failed job is retried
  with a growing delay and keeps its resources, a successful one is destroyed by the
  background reaper, and the identity of a job stays busy until its destruction has been
  acknowledged. A queue that is dropped with work left is handed to the reaper.

  The environment is explicit: the clock and the thread spawner answer their \<open>n\<close>-th call
  with arbitrary values, worker threads finish at any moment with any outcome, and the
  reaper is a further thread.
\<close>

subsection \<open>Data\<close>

type_synonym outcome = "string + unit"

datatype key = Session profile_id string | Display string | Abandoned

text \<open>A job, \<open>Arc<Mutex<Box<dyn Work>>>\<close>, is known by a number.\<close>

record entry =
  e_key :: key
  e_job :: nat
  e_failures :: nat
  e_last_error :: "string option"
  e_ready_at :: instant

record running_job =
  r_entry :: entry
  r_receiver :: nat

record disposal =
  d_key :: key
  d_receiver :: nat

datatype waker = UiWaker | ReaperWaker

record queue_state =
  pending :: "entry list"
  running :: "running_job list"
  disposing :: "disposal list"
  wake :: waker

datatype retired = RetiredJob nat nat waker | RetiredQueue queue_state

text \<open>What \<open>try_recv\<close> finds on a channel.\<close>

datatype 'a recv = Empty | Got 'a | Disconnected

text \<open>
  The rest of the process as the queue sees it: the clock and the spawner with the number of
  calls made, the worker channels (\<open>results\<close>) and the disposal channels (\<open>acks\<close>), the live
  worker threads with the job each holds, the jobs destroyed, the completion callbacks and
  wakes issued, and the reaper's inbox. \<open>cleaned\<close> records, for the statements below, the
  jobs whose cleanup has returned \<open>Ok\<close>.
\<close>

record world =
  clock :: "nat \<Rightarrow> instant"
  reads :: nat
  spawn_error :: "nat \<Rightarrow> string option"
  spawns :: nat
  results :: "nat \<Rightarrow> outcome recv"
  acks :: "nat \<Rightarrow> unit recv"
  next_chan :: nat
  working :: "nat \<rightharpoonup> nat \<times> waker"
  disposed :: "nat list"
  cleaned :: "nat list"
  completions :: "(nat \<times> outcome) list"
  wakes :: "waker list"
  inbox :: "retired list"
  started :: bool

definition read_clock :: "world \<Rightarrow> instant \<times> world" where
  "read_clock w = (clock w (reads w), w\<lparr>reads := Suc (reads w)\<rparr>)"

definition spawn :: "world \<Rightarrow> string option \<times> world" where
  "spawn w = (spawn_error w (spawns w), w\<lparr>spawns := Suc (spawns w)\<rparr>)"

text \<open>A panicking callback is caught, so a completion is one call and nothing else.\<close>

definition notify_completion :: "nat \<Rightarrow> outcome \<Rightarrow> world \<Rightarrow> world" where
  "notify_completion j r w = w\<lparr>completions := completions w @ [(j, r)]\<rparr>"

definition dispose :: "nat \<Rightarrow> world \<Rightarrow> world" where
  "dispose j w = w\<lparr>disposed := disposed w @ [j]\<rparr>"

definition call_wake :: "waker \<Rightarrow> world \<Rightarrow> world" where
  "call_wake k w = w\<lparr>wakes := wakes w @ [k]\<rparr>"

subsection \<open>The queue\<close>

definition cleanup_queue_new :: queue_state where
  "cleanup_queue_new = \<lparr>pending = [], running = [], disposing = [], wake = UiWaker\<rparr>"

definition queue_empty :: "queue_state \<Rightarrow> bool" where
  "queue_empty q \<longleftrightarrow> pending q = [] \<and> running q = [] \<and> disposing q = []"

definition keys :: "queue_state \<Rightarrow> key list" where
  "keys q = map e_key (pending q) @ map (\<lambda>r. e_key (r_entry r)) (running q) @ map d_key (disposing q)"

fun key_session :: "profile_id \<Rightarrow> key \<Rightarrow> bool" where
  "key_session i (Session j _) = (j = i)"
| "key_session i _ = False"

fun key_display :: "string \<Rightarrow> key \<Rightarrow> bool" where
  "key_display slot (Session _ display) = (display = slot)"
| "key_display slot (Display display) = (display = slot)"
| "key_display slot Abandoned = False"

definition session_busy :: "profile_id \<Rightarrow> queue_state \<Rightarrow> bool" where
  "session_busy i q = list_ex (key_session i) (keys q)"

definition display_busy :: "string \<Rightarrow> queue_state \<Rightarrow> bool" where
  "display_busy slot q = list_ex (key_display slot) (keys q)"

definition next_wakeup :: "queue_state \<Rightarrow> instant option" where
  "next_wakeup q =
     (if length (running q) < 2 \<and> pending q \<noteq> []
      then Some (Min (set (map e_ready_at (pending q)))) else None)"

text \<open>\<open>Duration::from_millis(100).saturating_mul(1 << failures.saturating_sub(1).min(8))\<close>\<close>

definition backoff :: "nat \<Rightarrow> duration" where
  "backoff failures = from_millis 100 * 2 ^ min (failures - 1) 8"

definition retry :: "entry \<Rightarrow> string \<Rightarrow> bool \<Rightarrow> queue_state \<Rightarrow> world \<Rightarrow> queue_state \<times> world" where
  "retry e error notify q w =
     (let w1 = (if notify \<and> e_last_error e \<noteq> Some error
                then notify_completion (e_job e) (Inl error) w else w);
          failures = saturating_add u32_max (e_failures e) 1;
          (now, w2) = read_clock w1;
          e' = e\<lparr>e_last_error := Some error, e_failures := failures,
                 e_ready_at := now + backoff failures\<rparr>
      in (q\<lparr>pending := pending q @ [e']\<rparr>, w2))"

text \<open>A worker thread starts: it holds the job and the sending half of a new channel.\<close>

definition start_worker :: "entry \<Rightarrow> queue_state \<Rightarrow> world \<Rightarrow> queue_state \<times> world" where
  "start_worker e q w =
     (q\<lparr>running := running q @ [\<lparr>r_entry = e, r_receiver = next_chan w\<rparr>]\<rparr>,
      w\<lparr>working := (working w)(next_chan w \<mapsto> (e_job e, wake q)), next_chan := Suc (next_chan w)\<rparr>)"

function pump :: "queue_state \<Rightarrow> world \<Rightarrow> queue_state \<times> world" where
  "pump q w =
     (if length (running q) < 2 then
        (let (now, w1) = read_clock w in
         (case position (\<lambda>e. e_ready_at e \<le> now) (pending q) of
            None \<Rightarrow> (q, w1)
          | Some i \<Rightarrow>
              (let e = pending q ! i;
                   q1 = q\<lparr>pending := remove_at i (pending q)\<rparr>;
                   (error, w2) = spawn w1
               in (case error of
                     None \<Rightarrow> pump (fst (start_worker e q1 w2)) (snd (start_worker e q1 w2))
                   | Some msg \<Rightarrow> retry e (''could not start cleanup worker: '' @ msg) False q1 w2))))
      else (q, w))"
  by pat_completeness auto

termination
  by (relation "measure (\<lambda>(q, w). 2 - length (running q))") (auto simp: start_worker_def)

declare pump.simps [simp del]

definition enqueue :: "key \<Rightarrow> nat \<Rightarrow> queue_state \<Rightarrow> world \<Rightarrow> queue_state \<times> world" where
  "enqueue k j q w =
     (let (now, w1) = read_clock w;
          e = \<lparr>e_key = k, e_job = j, e_failures = 0, e_last_error = None, e_ready_at = now\<rparr>
      in pump (q\<lparr>pending := pending q @ [e]\<rparr>) w1)"

text \<open>
  \<open>retire\<close>: the item is in the process-lifetime inbox before the reaper thread is started; a
  failed start leaves it there.
\<close>

definition retire :: "retired \<Rightarrow> world \<Rightarrow> world" where
  "retire item w =
     (let w1 = w\<lparr>inbox := inbox w @ [item]\<rparr> in
      if started w1 then w1
      else case spawn (w1\<lparr>started := True\<rparr>) of
             (None, w2) \<Rightarrow> w2
           | (Some _, w2) \<Rightarrow> w2\<lparr>started := False\<rparr>)"

definition poll_disposing :: "queue_state \<Rightarrow> world \<Rightarrow> queue_state" where
  "poll_disposing q w =
     q\<lparr>disposing := filter (\<lambda>d. case acks w (d_receiver d) of
         Got _ \<Rightarrow> False | Empty \<Rightarrow> True | Disconnected \<Rightarrow> True) (disposing q)\<rparr>"

definition settle :: "bool \<Rightarrow> entry \<Rightarrow> outcome \<Rightarrow> queue_state \<Rightarrow> world \<Rightarrow> queue_state \<times> world" where
  "settle notify e r q w =
     (case r of
        Inr _ \<Rightarrow>
          if notify then
            (q\<lparr>disposing := disposing q @ [\<lparr>d_key = e_key e, d_receiver = next_chan w\<rparr>]\<rparr>,
             retire (RetiredJob (e_job e) (next_chan w) (wake q))
               ((notify_completion (e_job e) (Inr ()) w)\<lparr>next_chan := Suc (next_chan w)\<rparr>))
          else (q, dispose (e_job e) w)
      | Inl error \<Rightarrow> retry e error notify q w)"

fun received :: "outcome recv \<Rightarrow> outcome option" where
  "received Empty = None"
| "received (Got r) = Some r"
| "received Disconnected = Some (Inl ''cleanup worker disconnected'')"

lemma settle_running [simp]: "running (fst (settle notify e r q w)) = running q"
  by (auto simp: settle_def retry_def read_clock_def Let_def split: sum.splits)

function poll_running :: "bool \<Rightarrow> nat \<Rightarrow> queue_state \<Rightarrow> world \<Rightarrow> queue_state \<times> world" where
  "poll_running notify i q w =
     (if i < length (running q) then
        case received (results w (r_receiver (running q ! i))) of
          None \<Rightarrow> poll_running notify (Suc i) q w
        | Some r \<Rightarrow>
            let q1 = q\<lparr>running := swap_remove i (running q)\<rparr>;
                s = settle notify (r_entry (running q ! i)) r q1 w
            in poll_running notify i (fst s) (snd s)
      else (q, w))"
  by pat_completeness auto

termination
  by (relation "measure (\<lambda>(notify, i, q, w). length (running q) - i)") (auto simp: split_beta)

declare poll_running.simps [simp del]

definition poll :: "bool \<Rightarrow> queue_state \<Rightarrow> world \<Rightarrow> queue_state \<times> world" where
  "poll notify q w =
     (let (q1, w1) = poll_running notify 0 (poll_disposing q w) w in pump q1 w1)"

text \<open>
  \<open>finish\<close>: each element of \<open>sleeps\<close> is what the other threads do during one sleep. \<open>None\<close>
  as the answer: the loop is still running after the sleeps given.
\<close>

fun finish_loop :: "instant \<Rightarrow> (world \<Rightarrow> world) list \<Rightarrow> queue_state \<Rightarrow> world
    \<Rightarrow> bool option \<times> queue_state \<times> world" where
  "finish_loop deadline sleeps q w =
     (let (q1, w1) = poll True q w in
      if queue_empty q1 then (Some True, q1, w1)
      else let (now, w2) = read_clock w1 in
        if now \<ge> deadline then (Some False, q1, w2)
        else case sleeps of
               [] \<Rightarrow> (None, q1, w2)
             | f # fs \<Rightarrow> finish_loop deadline fs q1 (f w2))"

definition finish :: "duration \<Rightarrow> (world \<Rightarrow> world) list \<Rightarrow> queue_state \<Rightarrow> world
    \<Rightarrow> bool option \<times> queue_state \<times> world" where
  "finish timeout sleeps q w =
     (let (now, w1) = read_clock w in finish_loop (now + timeout) sleeps q w1)"

text \<open>\<open>CleanupQueue::drop\<close>\<close>

definition cleanup_queue_drop :: "queue_state \<Rightarrow> world \<Rightarrow> world" where
  "cleanup_queue_drop q w =
     (if queue_empty q then w else retire (RetiredQueue (q\<lparr>wake := ReaperWaker\<rparr>)) w)"

subsection \<open>Workers and the reaper\<close>

datatype work_result = Returned outcome | Panicked

fun worker_outcome :: "work_result \<Rightarrow> outcome" where
  "worker_outcome (Returned r) = r"
| "worker_outcome Panicked = Inl ''cleanup worker panicked''"

text \<open>The end of a worker thread: its copy of the job is gone, the outcome sent, a wake issued.\<close>

definition worker_done :: "nat \<Rightarrow> work_result \<Rightarrow> world \<Rightarrow> world" where
  "worker_done c result w =
     (case working w c of
        None \<Rightarrow> w
      | Some (j, k) \<Rightarrow>
          call_wake k (w\<lparr>working := (working w)(c := None),
            results := (results w)(c := Got (worker_outcome result)),
            cleaned := (if is_ok (worker_outcome result) then j # cleaned w else cleaned w)\<rparr>))"

text \<open>A worker that ends without an answer.\<close>

definition worker_lost :: "nat \<Rightarrow> world \<Rightarrow> world" where
  "worker_lost c w =
     (case working w c of
        None \<Rightarrow> w
      | Some _ \<Rightarrow> w\<lparr>working := (working w)(c := None), results := (results w)(c := Disconnected)\<rparr>)"

fun reap_item :: "retired \<Rightarrow> queue_state list \<times> world \<Rightarrow> queue_state list \<times> world" where
  "reap_item (RetiredJob j c k) (qs, w) =
     (qs, call_wake k ((dispose j w)\<lparr>acks := (acks w)(c := Got ())\<rparr>))"
| "reap_item (RetiredQueue q) (qs, w) = (qs @ [q], w)"

fun reap_queues :: "queue_state list \<Rightarrow> world \<Rightarrow> queue_state list \<times> world" where
  "reap_queues [] w = ([], w)"
| "reap_queues (q # qs) w =
     (let (q1, w1) = poll False q w;
          (rest, w2) = reap_queues qs w1
      in (if queue_empty q1 then rest else q1 # rest, w2))"

text \<open>One turn of the loop of \<open>reap\<close> up to its wait.\<close>

definition reap_turn :: "queue_state list \<Rightarrow> world \<Rightarrow> queue_state list \<times> world" where
  "reap_turn queues w =
     (let (qs, w1) = fold reap_item (inbox w) (queues, w\<lparr>inbox := []\<rparr>)
      in reap_queues qs w1)"

text \<open>
  How long the reaper then waits: \<open>None\<close>, not at all, since the inbox is filled again;
  \<open>Some None\<close>, until it is notified; \<open>Some (Some d)\<close>, at most \<open>d\<close>.
\<close>

definition reap_delay :: "queue_state list \<Rightarrow> world \<Rightarrow> duration option option" where
  "reap_delay queues w =
     (if inbox w \<noteq> [] then None
      else if list_ex (\<lambda>q. running q \<noteq> [] \<or> disposing q \<noteq> []) queues
        then Some (Some (from_millis 50))
      else case List.map_filter next_wakeup queues of
             [] \<Rightarrow> Some None
           | d # ds \<Rightarrow> Some (Some (Min (set (d # ds)) - fst (read_clock w))))"

subsection \<open>The process\<close>

text \<open>
  The queue of the event loop, the reaper's queues and the world. \<open>job_key\<close> records, for the
  statements, the key under which the event loop enqueued a job. \<open>rollbacks\<close> are the
  temporary queues of background producers (\<open>rollback_disconnected_owned\<close>): one job is
  enqueued, the queue is polled for a while by \<open>finish\<close> and then dropped.
\<close>

record life =
  cleanup :: "queue_state option"
  rollbacks :: "queue_state list"
  reaping :: "queue_state list"
  world :: world
  next_job :: nat
  job_key :: "nat \<rightharpoonup> key"

datatype life_event =
  Enqueue key | Poll | DropQueue | Rollback key | RollbackPoll nat | RollbackDrop nat
  | WorkerDone nat work_result | WorkerLost nat | ReapTurn

fun life_step :: "life_event \<Rightarrow> life \<Rightarrow> life" where
  "life_step (Enqueue k) s =
     (case cleanup s of
        None \<Rightarrow> s
      | Some q \<Rightarrow>
          (case enqueue k (next_job s) q (world s) of
             (q', w') \<Rightarrow> s\<lparr>cleanup := Some q', world := w', next_job := Suc (next_job s),
                          job_key := (job_key s)(next_job s \<mapsto> k)\<rparr>))"
| "life_step Poll s =
     (case cleanup s of
        None \<Rightarrow> s
      | Some q \<Rightarrow> (case poll True q (world s) of (q', w') \<Rightarrow> s\<lparr>cleanup := Some q', world := w'\<rparr>))"
| "life_step DropQueue s =
     (case cleanup s of
        None \<Rightarrow> s
      | Some q \<Rightarrow> s\<lparr>cleanup := None, world := cleanup_queue_drop q (world s)\<rparr>)"
| "life_step (Rollback k) s =
     (case enqueue k (next_job s) cleanup_queue_new (world s) of
        (q, w) \<Rightarrow> s\<lparr>rollbacks := rollbacks s @ [q], world := w, next_job := Suc (next_job s)\<rparr>)"
| "life_step (RollbackPoll i) s =
     (if i < length (rollbacks s)
      then (case poll True (rollbacks s ! i) (world s) of
              (q, w) \<Rightarrow> s\<lparr>rollbacks := (rollbacks s)[i := q], world := w\<rparr>)
      else s)"
| "life_step (RollbackDrop i) s =
     (if i < length (rollbacks s)
      then s\<lparr>rollbacks := remove_at i (rollbacks s),
             world := cleanup_queue_drop (rollbacks s ! i) (world s)\<rparr>
      else s)"
| "life_step (WorkerDone c r) s = s\<lparr>world := worker_done c r (world s)\<rparr>"
| "life_step (WorkerLost c) s = s\<lparr>world := worker_lost c (world s)\<rparr>"
| "life_step ReapTurn s =
     (if started (world s)
      then (case reap_turn (reaping s) (world s) of (qs, w) \<Rightarrow> s\<lparr>reaping := qs, world := w\<rparr>)
      else s)"

definition world_init :: "(nat \<Rightarrow> instant) \<Rightarrow> (nat \<Rightarrow> string option) \<Rightarrow> world" where
  "world_init time spawner =
     \<lparr>clock = time, reads = 0, spawn_error = spawner, spawns = 0, results = (\<lambda>_. Empty),
      acks = (\<lambda>_. Empty), next_chan = 0, working = Map.empty, disposed = [], cleaned = [],
      completions = [], wakes = [], inbox = [], started = False\<rparr>"

definition life_init :: "(nat \<Rightarrow> instant) \<Rightarrow> (nat \<Rightarrow> string option) \<Rightarrow> life" where
  "life_init time spawner =
     \<lparr>cleanup = Some cleanup_queue_new, rollbacks = [], reaping = [], world = world_init time spawner,
      next_job = 0, job_key = Map.empty\<rparr>"

subsection \<open>Invariants of a queue\<close>

text \<open>
  What the atomic actions of \<open>pump\<close> and \<open>poll\<close> keep, the loops keep: the interface between
  the loops and the invariants below.
\<close>

locale pump_invariant =
  fixes P :: "queue_state \<Rightarrow> world \<Rightarrow> bool"
  assumes clock_step: "P q w \<Longrightarrow> P q (snd (read_clock w))"
    and start_step:
      "P q w \<Longrightarrow> length (running q) < 2 \<Longrightarrow> i < length (pending q) \<Longrightarrow>
       P (fst (start_worker (pending q ! i) (q\<lparr>pending := remove_at i (pending q)\<rparr>) (snd (spawn w))))
         (snd (start_worker (pending q ! i) (q\<lparr>pending := remove_at i (pending q)\<rparr>) (snd (spawn w))))"
    and retry_step:
      "P q w \<Longrightarrow> i < length (pending q) \<Longrightarrow>
       P (fst (retry (pending q ! i) m False (q\<lparr>pending := remove_at i (pending q)\<rparr>) (snd (spawn w))))
         (snd (retry (pending q ! i) m False (q\<lparr>pending := remove_at i (pending q)\<rparr>) (snd (spawn w))))"
begin

lemma pump_inv: "P q w \<Longrightarrow> P (fst (pump q w)) (snd (pump q w))"
proof (induction q w rule: pump.induct)
  case (1 q w)
  show ?case
  proof (cases "length (running q) < 2")
    case False
    with "1.prems" show ?thesis by (simp add: pump.simps [of q w])
  next
    case True
    let ?w1 = "snd (read_clock w)" and ?p = "position (\<lambda>e. e_ready_at e \<le> fst (read_clock w)) (pending q)"
    have w1: "P q ?w1" using "1.prems" by (rule clock_step)
    show ?thesis
    proof (cases ?p)
      case None
      with w1 True show ?thesis by (simp add: pump.simps [of q w] split_beta)
    next
      case (Some i)
      note i = position_Some(1) [OF Some]
      let ?q1 = "q\<lparr>pending := remove_at i (pending q)\<rparr>" and ?e = "pending q ! i"
      show ?thesis
      proof (cases "fst (spawn ?w1)")
        case None
        have "P (fst (start_worker ?e ?q1 (snd (spawn ?w1)))) (snd (start_worker ?e ?q1 (snd (spawn ?w1))))"
          by (rule start_step [OF w1 True i])
        from "1.IH" [OF True refl prod.collapse Some refl refl refl prod.collapse None this] None Some True show ?thesis
          by (simp add: pump.simps [of q w] split_beta Let_def)
      next
        case (Some m)
        with retry_step [OF w1 i] \<open>?p = Some i\<close> True show ?thesis
          by (simp add: pump.simps [of q w] split_beta Let_def)
      qed
    qed
  qed
qed

end

locale queue_invariant = pump_invariant +
  assumes settle_step:
      "P q w \<Longrightarrow> i < length (running q) \<Longrightarrow>
       received (results w (r_receiver (running q ! i))) = Some r \<Longrightarrow>
       P (fst (settle n (r_entry (running q ! i)) r (q\<lparr>running := swap_remove i (running q)\<rparr>) w))
         (snd (settle n (r_entry (running q ! i)) r (q\<lparr>running := swap_remove i (running q)\<rparr>) w))"
    and disposing_step: "P q w \<Longrightarrow> P (poll_disposing q w) w"
begin

lemma poll_running_inv:
  "P q w \<Longrightarrow> P (fst (poll_running n i q w)) (snd (poll_running n i q w))"
proof (induction n i q w rule: poll_running.induct)
  case (1 n i q w)
  show ?case
  proof (cases "i < length (running q)")
    case False
    with "1.prems" show ?thesis by (simp add: poll_running.simps [of n i q w])
  next
    case True
    show ?thesis
    proof (cases "received (results w (r_receiver (running q ! i)))")
      case None
      with "1.IH"(1) [OF True None] "1.prems" True show ?thesis
        by (simp add: poll_running.simps [of n i q w])
    next
      case (Some r)
      from "1.IH"(2) [OF True Some _ _ settle_step [OF "1.prems" True Some]] True Some
      show ?thesis by (simp add: poll_running.simps [of n i q w] Let_def)
    qed
  qed
qed

lemma poll_inv: "P q w \<Longrightarrow> P (fst (poll n q w)) (snd (poll n q w))"
  by (simp add: poll_def split_beta pump_inv poll_running_inv disposing_step)

end

lemmas queue_ops =
  read_clock_def spawn_def notify_completion_def dispose_def call_wake_def retry_def
  start_worker_def retire_def settle_def poll_disposing_def

subsubsection \<open>Every job has one owner\<close>

definition jobs_of :: "queue_state \<Rightarrow> nat multiset" where
  "jobs_of q = mset (map e_job (pending q)) + mset (map (\<lambda>r. e_job (r_entry r)) (running q))"

fun item_jobs :: "retired \<Rightarrow> nat multiset" where
  "item_jobs (RetiredJob j _ _) = {#j#}"
| "item_jobs (RetiredQueue q) = jobs_of q"

definition held :: "world \<Rightarrow> nat multiset" where
  "held w = sum_list (map item_jobs (inbox w)) + mset (disposed w)"

lemma retry_jobs:
  "jobs_of (fst (retry e m n q w)) + held (snd (retry e m n q w)) = add_mset (e_job e) (jobs_of q + held w)"
  by (auto simp: queue_ops jobs_of_def held_def Let_def)

lemma retire_held: "held (retire x w) = item_jobs x + held w"
  by (auto simp: retire_def held_def spawn_def Let_def split: option.splits)

lemma settle_jobs:
  "jobs_of (fst (settle n e r q w)) + held (snd (settle n e r q w)) = add_mset (e_job e) (jobs_of q + held w)"
proof (cases r)
  case (Inl m)
  then show ?thesis using retry_jobs by (simp add: settle_def)
next
  case (Inr u)
  then show ?thesis
    by (simp add: settle_def retire_held) (simp add: jobs_of_def held_def dispose_def notify_completion_def)
qed

lemma jobs_pending:
  "i < length (pending q) \<Longrightarrow>
   jobs_of q = add_mset (e_job (pending q ! i)) (jobs_of (q\<lparr>pending := remove_at i (pending q)\<rparr>))"
  using arg_cong [where f = "image_mset e_job", OF mset_remove_at [of i "pending q"]]
  by (simp add: jobs_of_def)

lemma jobs_running:
  "i < length (running q) \<Longrightarrow>
   jobs_of q = add_mset (e_job (r_entry (running q ! i)))
     (jobs_of (q\<lparr>running := swap_remove i (running q)\<rparr>))"
  using arg_cong [where f = "image_mset (\<lambda>r. e_job (r_entry r))", OF mset_swap_remove [of i "running q"]]
  by (simp add: jobs_of_def)

interpretation owned: queue_invariant "\<lambda>q w. jobs_of q + held w = m" for m
proof (unfold_locales, goal_cases)
  case (1 q w)
  then show ?case by (simp add: read_clock_def held_def)
next
  case (2 q w i)
  then show ?case using jobs_pending [OF 2(3)]
    by (auto simp: start_worker_def spawn_def jobs_of_def held_def)
next
  case (3 q w i e)
  then show ?case using jobs_pending [OF 3(2)] by (simp add: retry_jobs) (simp add: held_def spawn_def)
next
  case (4 q w i r n)
  then show ?case using jobs_running [OF 4(2)] by (simp add: settle_jobs)
next
  case (5 q w)
  then show ?case by (simp add: poll_disposing_def jobs_of_def)
qed

subsubsection \<open>Only cleaned jobs are destroyed, and two workers run at most\<close>

definition world_ok :: "world \<Rightarrow> bool" where
  "world_ok w \<longleftrightarrow>
     (\<forall>c \<ge> next_chan w. results w c = Empty \<and> acks w c = Empty \<and> working w c = None)
     \<and> set (disposed w) \<subseteq> set (cleaned w)"

definition runner_ok :: "world \<Rightarrow> running_job \<Rightarrow> bool" where
  "runner_ok w r \<longleftrightarrow>
     r_receiver r < next_chan w
     \<and> (case results w (r_receiver r) of
          Empty \<Rightarrow> (\<exists>k. working w (r_receiver r) = Some (e_job (r_entry r), k))
        | Got out \<Rightarrow> working w (r_receiver r) = None \<and> (is_ok out \<longrightarrow> e_job (r_entry r) \<in> set (cleaned w))
        | Disconnected \<Rightarrow> working w (r_receiver r) = None)"

definition queue_ok :: "world \<Rightarrow> queue_state \<Rightarrow> bool" where
  "queue_ok w q \<longleftrightarrow> length (running q) \<le> 2 \<and> (\<forall>r \<in> set (running q). runner_ok w r)"

fun item_ok :: "world \<Rightarrow> retired \<Rightarrow> bool" where
  "item_ok w (RetiredJob j c _) \<longleftrightarrow> j \<in> set (cleaned w) \<and> c < next_chan w"
| "item_ok w (RetiredQueue q) \<longleftrightarrow> queue_ok w q"

definition inbox_ok :: "world \<Rightarrow> bool" where
  "inbox_ok w \<longleftrightarrow> (\<forall>x \<in> set (inbox w). item_ok w x)"

text \<open>Nothing that other queues rely on changes.\<close>

definition extends :: "world \<Rightarrow> world \<Rightarrow> bool" where
  "extends w w' \<longleftrightarrow>
     next_chan w \<le> next_chan w' \<and> cleaned w' = cleaned w
     \<and> (\<forall>c < next_chan w. results w' c = results w c \<and> working w' c = working w c)"

lemma extends_refl [simp]: "extends w w"
  by (simp add: extends_def)

lemma extends_trans: "extends w w' \<Longrightarrow> extends w' w'' \<Longrightarrow> extends w w''"
  by (auto simp: extends_def)

lemma runner_ok_extends: "runner_ok w r \<Longrightarrow> extends w w' \<Longrightarrow> runner_ok w' r"
  by (auto simp: runner_ok_def extends_def split: recv.splits)

lemma queue_ok_extends: "queue_ok w q \<Longrightarrow> extends w w' \<Longrightarrow> queue_ok w' q"
  by (auto simp: queue_ok_def runner_ok_extends)

lemma item_ok_extends: "item_ok w x \<Longrightarrow> extends w w' \<Longrightarrow> item_ok w' x"
  by (cases x) (auto simp: queue_ok_extends, simp_all add: extends_def)

definition good :: "world \<Rightarrow> queue_state \<Rightarrow> world \<Rightarrow> bool" where
  "good w0 q w \<longleftrightarrow> world_ok w \<and> inbox_ok w \<and> queue_ok w q \<and> extends w0 w"

lemma inbox_ok_extends:
  "inbox_ok w \<Longrightarrow> extends w w' \<Longrightarrow> set (inbox w') \<subseteq> insert x (set (inbox w)) \<Longrightarrow> item_ok w' x
    \<Longrightarrow> inbox_ok w'"
  by (auto simp: inbox_ok_def dest: item_ok_extends)

lemma good_world:
  assumes "good w0 q w" "extends w w'" "world_ok w'" "inbox w' = inbox w"
  shows "good w0 q w'"
  using assms by (auto simp: good_def inbox_ok_def dest: extends_trans queue_ok_extends item_ok_extends)

lemma good_queue: "good w0 q w \<Longrightarrow> queue_ok w q' \<Longrightarrow> good w0 q' w"
  by (simp add: good_def)

lemma retire_extends [simp]: "extends w (retire x w)" "world_ok (retire x w) = world_ok w"
    "inbox (retire x w) = inbox w @ [x]"
  by (auto simp: retire_def spawn_def Let_def extends_def world_ok_def split: option.splits)

lemma good_retry:
  assumes "good w0 q w"
  shows "good w0 (fst (retry e m n q w)) (snd (retry e m n q w))"
proof -
  have "good w0 q (snd (retry e m n q w))"
    using assms by (rule good_world)
      (use assms in \<open>auto simp: queue_ops Let_def extends_def good_def world_ok_def\<close>)
  then show ?thesis
    by (rule good_queue) (use \<open>good w0 q (snd (retry e m n q w))\<close> in
        \<open>auto simp: good_def queue_ok_def retry_def Let_def split_beta\<close>)
qed

lemma good_settle:
  assumes "good w0 q w" and "is_ok r \<Longrightarrow> e_job e \<in> set (cleaned w)"
  shows "good w0 (fst (settle n e r q w)) (snd (settle n e r q w))"
proof (cases r)
  case (Inl m)
  with good_retry [OF assms(1)] show ?thesis by (simp add: settle_def)
next
  case (Inr u)
  with assms(2) have e: "e_job e \<in> set (cleaned w)" by simp
  show ?thesis
  proof (cases n)
    case False
    have "good w0 q (dispose (e_job e) w)"
      using assms(1) by (rule good_world)
        (use assms(1) e in \<open>auto simp: dispose_def extends_def good_def world_ok_def\<close>)
    with Inr False show ?thesis by (simp add: settle_def)
  next
    case True
    let ?w1 = "(notify_completion (e_job e) (Inr ()) w)\<lparr>next_chan := Suc (next_chan w)\<rparr>"
    let ?x = "RetiredJob (e_job e) (next_chan w) (wake q)"
    have w1: "good w0 q ?w1"
      using assms(1) by (rule good_world)
        (use assms(1) in \<open>auto simp: notify_completion_def extends_def good_def world_ok_def\<close>)
    have "item_ok (retire ?x ?w1) ?x"
      using e item_ok_extends [OF _ retire_extends(1), of ?w1 ?x ?x] by (simp add: notify_completion_def)
    then have "inbox_ok (retire ?x ?w1)"
      using w1 by (intro inbox_ok_extends [OF _ retire_extends(1), of ?w1 ?x ?x]) (auto simp: good_def)
    then have "good w0 q (retire ?x ?w1)"
      using w1 extends_trans [OF _ retire_extends(1)] queue_ok_extends [OF _ retire_extends(1)]
      by (auto simp: good_def)
    then have "good w0 (fst (settle n e r q w)) (retire ?x ?w1)"
      by (rule good_queue) (use Inr True \<open>good w0 q (retire ?x ?w1)\<close> in
          \<open>auto simp: settle_def good_def queue_ok_def\<close>)
    with Inr True show ?thesis by (simp add: settle_def)
  qed
qed

lemma good_start:
  assumes "good w0 q w" "length (running q) < 2"
  shows "good w0 (fst (start_worker e q w)) (snd (start_worker e q w))"
proof -
  have ex: "extends w (snd (start_worker e q w))" by (auto simp: start_worker_def extends_def)
  have g: "good w0 q (snd (start_worker e q w))"
    using assms(1) ex by (rule good_world)
      (use assms(1) in \<open>auto simp: start_worker_def good_def world_ok_def\<close>)
  have "results w (next_chan w) = Empty" using assms(1) by (simp add: good_def world_ok_def)
  then have "runner_ok (snd (start_worker e q w)) \<lparr>r_entry = e, r_receiver = next_chan w\<rparr>"
    by (simp add: runner_ok_def start_worker_def)
  then have "queue_ok (snd (start_worker e q w)) (fst (start_worker e q w))"
    using g assms(2) by (auto simp: start_worker_def good_def queue_ok_def)
  with g show ?thesis by (rule good_queue)
qed

lemma received_ok:
  "runner_ok w r \<Longrightarrow> received (results w (r_receiver r)) = Some x \<Longrightarrow> is_ok x
    \<Longrightarrow> e_job (r_entry r) \<in> set (cleaned w)"
  by (auto simp: runner_ok_def split: recv.splits)

lemma good_spawn:
  assumes "good w0 q w"
  shows "good w0 q (snd (spawn w))"
  using assms by (rule good_world)
    (use assms in \<open>auto simp: spawn_def extends_def good_def world_ok_def\<close>)

lemma good_pending: "good w0 q w \<Longrightarrow> good w0 (q\<lparr>pending := ps\<rparr>) w"
  by (simp add: good_def queue_ok_def)

interpretation good: queue_invariant "good w0" for w0
proof (unfold_locales, goal_cases)
  case (1 q w)
  then show ?case
    by (rule good_world) (use 1 in \<open>auto simp: read_clock_def extends_def good_def world_ok_def\<close>)
next
  case (2 q w i)
  then show ?case by (intro good_start good_pending good_spawn) auto
next
  case (3 q w i m)
  then show ?case by (intro good_retry good_pending good_spawn)
next
  case (4 q w i r n)
  then have run: "runner_ok w (running q ! i)" by (simp add: good_def queue_ok_def)
  have "set (swap_remove i (running q)) \<subseteq> set (running q)"
    using mset_swap_remove [OF 4(2)] by (metis set_mset_add_mset_insert set_mset_mset subset_insertI)
  then have "good w0 (q\<lparr>running := swap_remove i (running q)\<rparr>) w"
    using 4(1) by (auto simp: good_def queue_ok_def)
  then show ?case by (rule good_settle) (rule received_ok [OF run 4(3)])
next
  case (5 q w)
  then show ?case by (simp add: good_def queue_ok_def poll_disposing_def)
qed

subsubsection \<open>Identities stay busy\<close>

text \<open>
  A job of the event loop is in its queue under its key, or in the reaper's inbox with an
  unacknowledged disposal under its key, or destroyed.
\<close>

definition entry_of :: "nat \<Rightarrow> key \<Rightarrow> queue_state \<Rightarrow> bool" where
  "entry_of j k q \<longleftrightarrow>
     (j, k) \<in> (\<lambda>e. (e_job e, e_key e)) ` (set (pending q) \<union> r_entry ` set (running q))"

definition tracked :: "nat \<Rightarrow> key \<Rightarrow> queue_state \<Rightarrow> world \<Rightarrow> bool" where
  "tracked j k q w \<longleftrightarrow>
     entry_of j k q
     \<or> (\<exists>c kw. RetiredJob j c kw \<in> set (inbox w) \<and> \<lparr>d_key = k, d_receiver = c\<rparr> \<in> set (disposing q)
            \<and> acks w c = Empty)
     \<or> j \<in> set (disposed w)"

definition fresh_acks :: "world \<Rightarrow> bool" where
  "fresh_acks w \<longleftrightarrow> (\<forall>c \<ge> next_chan w. acks w c = Empty)"

lemma entry_of_running:
  assumes "i < length (running q)"
  shows "entry_of j k q \<longleftrightarrow>
    (j, k) = (e_job (r_entry (running q ! i)), e_key (r_entry (running q ! i)))
    \<or> entry_of j k (q\<lparr>running := swap_remove i (running q)\<rparr>)"
proof -
  have "set (running q) = insert (running q ! i) (set (swap_remove i (running q)))"
    using mset_swap_remove [OF assms] by (metis set_mset_add_mset_insert set_mset_mset)
  then show ?thesis by (auto simp: entry_of_def)
qed

lemma entry_of_pending:
  assumes "i < length (pending q)"
  shows "entry_of j k q \<longleftrightarrow>
    (j, k) = (e_job (pending q ! i), e_key (pending q ! i))
    \<or> entry_of j k (q\<lparr>pending := remove_at i (pending q)\<rparr>)"
proof -
  have "set (pending q) = insert (pending q ! i) (set (remove_at i (pending q)))"
    using mset_remove_at [OF assms] by (metis set_mset_add_mset_insert set_mset_mset)
  then show ?thesis by (auto simp: entry_of_def)
qed

lemma tracked_retry:
  assumes "tracked j k q w \<or> (j, k) = (e_job e, e_key e)"
  shows "tracked j k (fst (retry e m n q w)) (snd (retry e m n q w))"
  using assms by (auto simp: tracked_def entry_of_def queue_ops Let_def)

lemma retire_fields [simp]:
  "acks (retire x w) = acks w" "disposed (retire x w) = disposed w" "next_chan (retire x w) = next_chan w"
  by (auto simp: retire_def spawn_def Let_def split: option.splits)

lemma tracked_settle:
  assumes "tracked j k q w \<or> (j, k) = (e_job e, e_key e)" "fresh_acks w"
  shows "tracked j k (fst (settle n e r q w)) (snd (settle n e r q w))"
proof (cases r)
  case (Inl m)
  with tracked_retry [OF assms(1)] show ?thesis by (simp add: settle_def)
next
  case (Inr u)
  with assms show ?thesis
    by (auto simp: settle_def tracked_def entry_of_def fresh_acks_def notify_completion_def dispose_def)
qed

lemma fresh_acks_retry [simp]:
  "fresh_acks (snd (retry e m n q w)) = fresh_acks w" "fresh_acks (snd (spawn w)) = fresh_acks w"
  by (simp_all add: fresh_acks_def retry_def read_clock_def notify_completion_def spawn_def Let_def)

lemma fresh_acks_settle: "fresh_acks w \<Longrightarrow> fresh_acks (snd (settle n e r q w))"
  by (auto simp: settle_def fresh_acks_def notify_completion_def dispose_def retry_def read_clock_def
      Let_def split: sum.splits)

interpretation tracked: queue_invariant "\<lambda>q w. tracked j k q w \<and> fresh_acks w" for j k
proof (unfold_locales, goal_cases)
  case (1 q w)
  then show ?case by (simp add: tracked_def fresh_acks_def read_clock_def)
next
  case (2 q w i)
  then show ?case using entry_of_pending [OF 2(3), of j k]
    by (auto simp: tracked_def fresh_acks_def start_worker_def spawn_def entry_of_def)
next
  case (3 q w i m)
  then have "tracked j k (q\<lparr>pending := remove_at i (pending q)\<rparr>) (snd (spawn w))
      \<or> (j, k) = (e_job (pending q ! i), e_key (pending q ! i))"
    using entry_of_pending [OF 3(2), of j k] by (auto simp: tracked_def spawn_def)
  from tracked_retry [OF this] 3(1) show ?case by simp
next
  case (4 q w i r n)
  then have "tracked j k (q\<lparr>running := swap_remove i (running q)\<rparr>) w
      \<or> (j, k) = (e_job (r_entry (running q ! i)), e_key (r_entry (running q ! i)))"
    using entry_of_running [OF 4(2), of j k] by (auto simp: tracked_def)
  with 4(1) show ?case by (simp add: tracked_settle fresh_acks_settle)
next
  case (5 q w)
  then show ?case by (auto simp: tracked_def poll_disposing_def entry_of_def)
qed

text \<open>What is tracked in one queue is not disturbed by another.\<close>

interpretation beside: queue_invariant "\<lambda>_ w. tracked j k p w" for j k p
proof (unfold_locales, goal_cases)
  case (4 q w i r n)
  then show ?case
    by (auto simp: tracked_def settle_def notify_completion_def dispose_def retry_def read_clock_def
        Let_def split: sum.splits)
qed (auto simp: tracked_def queue_ops Let_def)

text \<open>What has been destroyed stays destroyed.\<close>

interpretation gone: queue_invariant "\<lambda>q w. j \<in> set (disposed w) \<and> fresh_acks w" for j
proof (unfold_locales, goal_cases)
  case (4 q w i r n)
  then show ?case
    by (auto simp: fresh_acks_settle)
      (auto simp: settle_def notify_completion_def dispose_def retry_def read_clock_def Let_def
        split: sum.splits)
qed (auto simp: fresh_acks_def queue_ops Let_def)

subsection \<open>Invariants of the process\<close>

definition live_queues :: "life \<Rightarrow> queue_state list" where
  "live_queues s =
     (case cleanup s of None \<Rightarrow> [] | Some q \<Rightarrow> [q]) @ rollbacks s @ reaping s"

definition total_jobs :: "queue_state list \<Rightarrow> nat multiset" where
  "total_jobs qs = sum_list (map jobs_of qs)"

lemma total_jobs_simps [simp]:
  "total_jobs [] = {#}" "total_jobs (q # qs) = jobs_of q + total_jobs qs"
  "total_jobs (qs @ rs) = total_jobs qs + total_jobs rs"
  by (simp_all add: total_jobs_def)

lemma total_jobs_at:
  "i < length qs \<Longrightarrow> total_jobs qs = jobs_of (qs ! i) + total_jobs (remove_at i qs)"
  "i < length qs \<Longrightarrow> total_jobs (qs[i := q]) = jobs_of q + total_jobs (remove_at i qs)"
proof -
  assume i: "i < length qs"
  show "total_jobs qs = jobs_of (qs ! i) + total_jobs (remove_at i qs)"
    by (subst id_take_nth_drop [OF i]) (simp add: remove_at_def ac_simps)
  show "total_jobs (qs[i := q]) = jobs_of q + total_jobs (remove_at i qs)"
    by (subst upd_conv_take_nth_drop [OF i]) (simp add: remove_at_def ac_simps)
qed

lemma empty_jobs [simp]: "queue_empty q \<Longrightarrow> jobs_of q = {#}"
  by (simp add: queue_empty_def jobs_of_def)

lemma new_queue_jobs [simp]: "jobs_of cleanup_queue_new = {#}"
  by (simp add: cleanup_queue_new_def jobs_of_def)

lemma wake_jobs [simp]: "jobs_of (q\<lparr>wake := k\<rparr>) = jobs_of q" "queue_ok w (q\<lparr>wake := k\<rparr>) = queue_ok w q"
  by (simp_all add: jobs_of_def queue_ok_def)

definition counted :: "life \<Rightarrow> bool" where
  "counted s \<longleftrightarrow> total_jobs (live_queues s) + held (world s) = mset [0..<next_job s]"

definition safe :: "world \<Rightarrow> queue_state list \<Rightarrow> bool" where
  "safe w qs \<longleftrightarrow> world_ok w \<and> inbox_ok w \<and> (\<forall>q \<in> set qs. queue_ok w q)"

definition busy :: "life \<Rightarrow> bool" where
  "busy s \<longleftrightarrow>
     (\<forall>q j k. cleanup s = Some q \<longrightarrow> job_key s j = Some k \<longrightarrow> tracked j k q (world s))"

definition life_inv :: "life \<Rightarrow> bool" where
  "life_inv s \<longleftrightarrow> counted s \<and> safe (world s) (live_queues s) \<and> busy s"

lemma world_ok_fresh: "world_ok w \<Longrightarrow> fresh_acks w"
  by (simp add: world_ok_def fresh_acks_def)

text \<open>Operations on one queue beside others.\<close>

lemma poll_safe:
  assumes "safe w (q # qs)"
  shows "safe (snd (poll n q w)) (fst (poll n q w) # qs)"
proof -
  have "good w (fst (poll n q w)) (snd (poll n q w))"
    using assms by (intro good.poll_inv) (simp add: safe_def good_def)
  with assms show ?thesis by (auto simp: safe_def good_def dest: queue_ok_extends)
qed

lemma poll_jobs:
  "jobs_of (fst (poll n q w)) + held (snd (poll n q w)) = jobs_of q + held w"
  by (rule owned.poll_inv) simp

lemma enqueue_jobs:
  "jobs_of (fst (enqueue k j q w)) + held (snd (enqueue k j q w)) = add_mset j (jobs_of q + held w)"
proof -
  let ?q = "q\<lparr>pending := pending q @ [\<lparr>e_key = k, e_job = j, e_failures = 0, e_last_error = None,
      e_ready_at = fst (read_clock w)\<rparr>]\<rparr>"
  have "jobs_of ?q + held (snd (read_clock w)) = add_mset j (jobs_of q + held w)"
    by (simp add: jobs_of_def held_def read_clock_def)
  from owned.pump_inv [OF this] show ?thesis by (simp add: enqueue_def split_beta Let_def)
qed

lemma enqueue_safe:
  assumes "safe w (q # qs)"
  shows "safe (snd (enqueue k j q w)) (fst (enqueue k j q w) # qs)"
proof -
  have "good w q w" using assms by (simp add: safe_def good_def)
  then have "good w (fst (enqueue k j q w)) (snd (enqueue k j q w))"
    by (simp add: enqueue_def split_beta Let_def good.pump_inv good_pending good.clock_step)
  with assms show ?thesis by (auto simp: safe_def good_def dest: queue_ok_extends)
qed

lemma enqueue_tracked:
  assumes "tracked j' k' q w \<or> (j', k') = (j, k)" "fresh_acks w"
  shows "tracked j' k' (fst (enqueue k j q w)) (snd (enqueue k j q w))"
proof -
  let ?q = "q\<lparr>pending := pending q @ [\<lparr>e_key = k, e_job = j, e_failures = 0, e_last_error = None,
      e_ready_at = fst (read_clock w)\<rparr>]\<rparr>"
  have "tracked j' k' ?q (snd (read_clock w)) \<and> fresh_acks (snd (read_clock w))"
    using assms by (auto simp: tracked_def entry_of_def read_clock_def fresh_acks_def)
  from tracked.pump_inv [OF this] show ?thesis by (simp add: enqueue_def split_beta Let_def)
qed

lemma drop_jobs: "held (cleanup_queue_drop q w) = jobs_of q + held w"
  by (simp add: cleanup_queue_drop_def retire_held)

lemma drop_safe:
  assumes "safe w (q # qs)"
  shows "safe (cleanup_queue_drop q w) qs"
proof (cases "queue_empty q")
  case True
  with assms show ?thesis by (simp add: cleanup_queue_drop_def safe_def)
next
  case False
  let ?x = "RetiredQueue (q\<lparr>wake := ReaperWaker\<rparr>)"
  have "item_ok (retire ?x w) ?x"
    using assms queue_ok_extends [OF _ retire_extends(1)] by (simp add: safe_def)
  then have "inbox_ok (retire ?x w)"
    using assms by (intro inbox_ok_extends [OF _ retire_extends(1), of w ?x ?x]) (auto simp: safe_def)
  with assms False queue_ok_extends [OF _ retire_extends(1)] show ?thesis
    by (auto simp: cleanup_queue_drop_def safe_def)
qed

lemma drop_tracked: "tracked j k q w \<Longrightarrow> tracked j k q (cleanup_queue_drop q' w)"
  by (auto simp: cleanup_queue_drop_def tracked_def)

text \<open>The reaper.\<close>

lemma reap_items_jobs:
  "total_jobs (fst (fold reap_item xs (qs, w))) + held (snd (fold reap_item xs (qs, w)))
     = sum_list (map item_jobs xs) + total_jobs qs + held w"
proof (induction xs arbitrary: qs w)
  case (Cons x xs)
  then show ?case
    by (cases x) (simp_all add: held_def dispose_def call_wake_def)
qed simp

lemma reap_items_safe:
  assumes "world_ok w" "inbox w = []" "\<forall>x \<in> set xs. item_ok w x" "\<forall>q \<in> set qs. queue_ok w q"
  shows "extends w (snd (fold reap_item xs (qs, w)))
    \<and> safe (snd (fold reap_item xs (qs, w))) (fst (fold reap_item xs (qs, w)))
    \<and> (\<forall>j c k. RetiredJob j c k \<in> set xs \<longrightarrow> j \<in> set (disposed (snd (fold reap_item xs (qs, w)))))
    \<and> set (disposed w) \<subseteq> set (disposed (snd (fold reap_item xs (qs, w))))"
  using assms
proof (induction xs arbitrary: qs w)
  case Nil
  then show ?case by (simp add: safe_def inbox_ok_def)
next
  case (Cons x xs)
  show ?case
  proof (cases x)
    case (RetiredJob j c k)
    let ?w = "call_wake k ((dispose j w)\<lparr>acks := (acks w)(c := Got ())\<rparr>)"
    have ex: "extends w ?w" by (simp add: extends_def call_wake_def dispose_def)
    have "world_ok ?w" using Cons.prems RetiredJob
      by (auto simp: world_ok_def call_wake_def dispose_def)
    moreover have "inbox ?w = []" using Cons.prems by (simp add: call_wake_def dispose_def)
    moreover have "\<forall>x \<in> set xs. item_ok ?w x" using Cons.prems item_ok_extends [OF _ ex] by auto
    moreover have "\<forall>q \<in> set qs. queue_ok ?w q" using Cons.prems queue_ok_extends [OF _ ex] by auto
    moreover have "set (disposed ?w) = insert j (set (disposed w))" by (simp add: call_wake_def dispose_def)
    ultimately show ?thesis using Cons.IH [of ?w qs] RetiredJob extends_trans [OF ex] by auto
  next
    case (RetiredQueue q)
    with Cons.prems have "\<forall>p \<in> set (qs @ [q]). queue_ok w p" by auto
    with Cons.IH [of w "qs @ [q]"] Cons.prems RetiredQueue show ?thesis by auto
  qed
qed

lemma reap_queues_jobs:
  "total_jobs (fst (reap_queues qs w)) + held (snd (reap_queues qs w)) = total_jobs qs + held w"
proof (induction qs arbitrary: w)
  case (Cons q qs)
  then show ?case using poll_jobs [of False q w] empty_jobs [of "fst (poll False q w)"]
    by (auto simp: split_beta Let_def union_assoc)
qed simp

lemma reap_queues_safe:
  assumes "safe w (qs @ rs)"
  shows "safe (snd (reap_queues qs w)) (fst (reap_queues qs w) @ rs)
    \<and> set (disposed w) \<subseteq> set (disposed (snd (reap_queues qs w)))"
  using assms
proof (induction qs arbitrary: w rs)
  case (Cons q qs)
  let ?q = "fst (poll False q w)" and ?w = "snd (poll False q w)"
  have s: "safe ?w (?q # qs @ rs)" using poll_safe Cons.prems by simp
  have d: "set (disposed w) \<subseteq> set (disposed ?w)"
    using gone.poll_inv [where q = q and n = False and w = w] Cons.prems world_ok_fresh by (auto simp: safe_def)
  have "safe ?w (qs @ ?q # rs)" using s by (auto simp: safe_def)
  from Cons.IH [OF this] d show ?case by (auto simp: split_beta Let_def safe_def)
qed simp

lemma reap_turn_jobs:
  "total_jobs (fst (reap_turn qs w)) + held (snd (reap_turn qs w)) = total_jobs qs + held w"
proof -
  let ?r = "fold reap_item (inbox w) (qs, w\<lparr>inbox := []\<rparr>)"
  have "total_jobs (fst ?r) + held (snd ?r) = total_jobs qs + held w"
    by (simp add: reap_items_jobs) (simp add: held_def)
  then show ?thesis by (simp add: reap_turn_def split_beta Let_def reap_queues_jobs)
qed

lemma reap_turn_safe:
  assumes "safe w (qs @ rs)"
  shows "safe (snd (reap_turn qs w)) (fst (reap_turn qs w) @ rs)"
    and "tracked j k q w \<Longrightarrow> tracked j k q (snd (reap_turn qs w))"
proof -
  let ?w0 = "w\<lparr>inbox := []\<rparr>"
  let ?r = "fold reap_item (inbox w) (qs, ?w0)"
  have ex: "extends w ?w0" "extends ?w0 w" by (simp_all add: extends_def)
  have w0: "world_ok ?w0" "\<forall>x \<in> set (inbox w). item_ok ?w0 x" "\<forall>q \<in> set (qs @ rs). queue_ok ?w0 q"
    using assms item_ok_extends [OF _ ex(1)] queue_ok_extends [OF _ ex(1)]
    by (auto simp: safe_def inbox_ok_def) (simp add: world_ok_def)
  then have r: "extends ?w0 (snd ?r)" "safe (snd ?r) (fst ?r)"
      "\<forall>j c k. RetiredJob j c k \<in> set (inbox w) \<longrightarrow> j \<in> set (disposed (snd ?r))"
      "set (disposed w) \<subseteq> set (disposed (snd ?r))"
    using reap_items_safe [of ?w0 "inbox w" qs] by auto
  then have "safe (snd ?r) (fst ?r @ rs)"
    using w0(3) queue_ok_extends [OF _ r(1)] by (auto simp: safe_def)
  from reap_queues_safe [OF this]
  have safe': "safe (snd (reap_turn qs w)) (fst (reap_turn qs w) @ rs)"
    and gone: "set (disposed (snd ?r)) \<subseteq> set (disposed (snd (reap_turn qs w)))"
    by (simp_all add: reap_turn_def split_beta Let_def)
  show "safe (snd (reap_turn qs w)) (fst (reap_turn qs w) @ rs)" by (rule safe')
  assume "tracked j k q w"
  then have "entry_of j k q \<or> j \<in> set (disposed (snd ?r))"
    unfolding tracked_def using r(3,4) by blast
  with gone show "tracked j k q (snd (reap_turn qs w))" by (auto simp: tracked_def)
qed

text \<open>Worker threads.\<close>

lemma worker_world:
  "held (worker_done c r w) = held w" "held (worker_lost c w) = held w"
  "tracked j k q (worker_done c r w) = tracked j k q w"
  "tracked j k q (worker_lost c w) = tracked j k q w"
  by (auto simp: worker_done_def worker_lost_def call_wake_def held_def tracked_def
      split: option.splits prod.splits)

lemma worker_done_runner: "runner_ok w r \<Longrightarrow> runner_ok (worker_done c x w) r"
  by (auto simp: runner_ok_def worker_done_def call_wake_def
      split: option.splits prod.splits recv.splits)

lemma worker_lost_runner: "runner_ok w r \<Longrightarrow> runner_ok (worker_lost c w) r"
  by (auto simp: runner_ok_def worker_lost_def split: option.splits prod.splits recv.splits)

lemma worker_world_ok:
  assumes "world_ok w"
  shows "world_ok (worker_done c x w)" "world_ok (worker_lost c w)"
proof -
  have "working w c \<noteq> None \<Longrightarrow> c < next_chan w"
    using assms unfolding world_ok_def by (metis linorder_not_less)
  with assms show "world_ok (worker_done c x w)" "world_ok (worker_lost c w)"
    by (auto simp: worker_done_def worker_lost_def call_wake_def world_ok_def split: option.splits)
qed

lemma worker_item:
  "item_ok w y \<Longrightarrow> item_ok (worker_done c x w) y"
  "item_ok w y \<Longrightarrow> item_ok (worker_lost c w) y"
  using worker_done_runner worker_lost_runner
  by (cases y; auto simp: queue_ok_def; auto simp: worker_done_def worker_lost_def call_wake_def
      split: option.splits)+

lemma worker_safe: "safe w qs \<Longrightarrow> safe (worker_done c x w) qs" "safe w qs \<Longrightarrow> safe (worker_lost c w) qs"
proof -
  have "inbox (worker_done c x w) = inbox w" "inbox (worker_lost c w) = inbox w"
    by (auto simp: worker_done_def worker_lost_def call_wake_def split: option.splits)
  then show "safe w qs \<Longrightarrow> safe (worker_done c x w) qs" "safe w qs \<Longrightarrow> safe (worker_lost c w) qs"
    using worker_done_runner worker_lost_runner worker_item worker_world_ok
    by (auto simp: safe_def inbox_ok_def queue_ok_def)
qed

text \<open>One lemma for each invariant over the events.\<close>

lemma swap_jobs:
  fixes a b :: "nat multiset"
  assumes "a + b = x + (a' + b')" "a' + r + b' = m"
  shows "a + r + b = x + m"
proof -
  have "a + r + b = (a + b) + r" by (simp add: ac_simps)
  also have "\<dots> = x + (a' + r + b')" using assms(1) by (simp add: ac_simps)
  finally show ?thesis using assms(2) by simp
qed

definition others :: "life \<Rightarrow> nat multiset" where
  "others s = total_jobs (case cleanup s of None \<Rightarrow> [] | Some q \<Rightarrow> [q])"

lemma counted_iff:
  "counted s \<longleftrightarrow>
     others s + total_jobs (rollbacks s) + total_jobs (reaping s) + held (world s) = mset [0..<next_job s]"
  by (simp add: counted_def live_queues_def others_def union_assoc)

lemma life_counted:
  assumes "counted s"
  shows "counted (life_step e s)"
proof (cases e)
  case (Enqueue k)
  show ?thesis
  proof (cases "cleanup s")
    case None
    with assms Enqueue show ?thesis by simp
  next
    case (Some q)
    from swap_jobs [of _ _ "{#next_job s#}" "jobs_of q" _ "total_jobs (rollbacks s) + total_jobs (reaping s)"]
      enqueue_jobs [of k "next_job s" q "world s"] assms Enqueue Some
    show ?thesis by (simp add: counted_iff others_def split_beta union_assoc)
  qed
next
  case Poll
  show ?thesis
  proof (cases "cleanup s")
    case None
    with assms Poll show ?thesis by simp
  next
    case (Some q)
    let ?p = "poll True q (world s)" and ?r = "total_jobs (rollbacks s) + total_jobs (reaping s)"
    have eq: "jobs_of q + ?r + held (world s) = mset [0..<next_job s]"
      using assms Some by (simp add: counted_iff others_def union_assoc)
    have "jobs_of (fst ?p) + ?r + held (snd ?p) = {#} + mset [0..<next_job s]"
      by (rule swap_jobs [OF _ eq]) (simp only: poll_jobs add_0)
    with Poll Some show ?thesis by (simp add: counted_iff others_def split_beta union_assoc)
  qed
next
  case DropQueue
  with assms show ?thesis
    by (cases "cleanup s") (simp_all add: counted_iff others_def drop_jobs ac_simps)
next
  case (Rollback k)
  let ?p = "enqueue k (next_job s) cleanup_queue_new (world s)"
  let ?r = "others s + total_jobs (rollbacks s) + total_jobs (reaping s)"
  have eq: "{#} + ?r + held (world s) = mset [0..<next_job s]"
    using assms [unfolded counted_iff] by (simp only: add_0)
  have "jobs_of (fst ?p) + ?r + held (snd ?p) = {#next_job s#} + mset [0..<next_job s]"
    by (rule swap_jobs [OF _ eq]) (simp add: enqueue_jobs)
  moreover have "others (life_step e s) = others s"
    using Rollback by (simp add: others_def split_beta)
  ultimately show ?thesis
    unfolding counted_iff using Rollback by (simp add: split_beta union_assoc union_lcomm)
next
  case (RollbackPoll i)
  show ?thesis
  proof (cases "i < length (rollbacks s)")
    case True
    let ?p = "poll True (rollbacks s ! i) (world s)"
    let ?r = "others s + total_jobs (remove_at i (rollbacks s)) + total_jobs (reaping s)"
    have eq: "jobs_of (rollbacks s ! i) + ?r + held (world s) = mset [0..<next_job s]"
      using assms [unfolded counted_iff total_jobs_at(1) [OF True]] by (simp only: ac_simps)
    have "jobs_of (fst ?p) + ?r + held (snd ?p) = {#} + mset [0..<next_job s]"
      by (rule swap_jobs [OF _ eq]) (simp only: poll_jobs add_0)
    moreover have "others (life_step e s) = others s"
      using RollbackPoll True by (simp add: others_def split_beta)
    ultimately show ?thesis
      unfolding counted_iff using RollbackPoll True
      by (simp add: split_beta total_jobs_at(2) [OF True] union_assoc union_lcomm)
  next
    case False
    with assms RollbackPoll show ?thesis by simp
  qed
next
  case (RollbackDrop i)
  with assms show ?thesis
    by (cases "i < length (rollbacks s)")
      (simp_all add: counted_iff others_def drop_jobs total_jobs_at(1) [of i "rollbacks s"] ac_simps)
next
  case ReapTurn
  with assms reap_turn_jobs [of "reaping s" "world s"] show ?thesis
    by (simp add: counted_iff others_def split_beta union_assoc)
qed (use assms in \<open>simp_all add: counted_iff others_def worker_world\<close>)

lemma safe_mono: "safe w qs \<Longrightarrow> set rs \<subseteq> set qs \<Longrightarrow> safe w rs"
  by (auto simp: safe_def)

lemma rollbacks_live: "i < length (rollbacks s) \<Longrightarrow> rollbacks s ! i \<in> set (live_queues s)"
  by (simp add: live_queues_def)

lemma life_safe:
  assumes "safe (world s) (live_queues s)"
  shows "safe (world (life_step e s)) (live_queues (life_step e s))"
proof (cases e)
  case (Enqueue k)
  then show ?thesis using enqueue_safe assms
    by (auto simp: live_queues_def split_beta split: option.splits)
next
  case Poll
  then show ?thesis using poll_safe assms
    by (auto simp: live_queues_def split_beta split: option.splits)
next
  case DropQueue
  then show ?thesis using drop_safe assms by (auto simp: live_queues_def split: option.splits)
next
  case (Rollback k)
  have "safe (world s) (cleanup_queue_new # live_queues s)"
    using assms by (simp add: safe_def cleanup_queue_new_def queue_ok_def)
  from enqueue_safe [OF this, of k "next_job s"] Rollback show ?thesis
    by (auto simp: live_queues_def split_beta elim: safe_mono)
next
  case (RollbackPoll i)
  show ?thesis
  proof (cases "i < length (rollbacks s)")
    case True
    have "safe (world s) (rollbacks s ! i # live_queues s)"
      using assms rollbacks_live [OF True] by (auto elim: safe_mono)
    from poll_safe [OF this, of True] RollbackPoll True show ?thesis
      by (auto simp: live_queues_def split_beta elim!: safe_mono dest!: subsetD [OF set_update_subset_insert])
  qed (use assms RollbackPoll in simp)
next
  case (RollbackDrop i)
  show ?thesis
  proof (cases "i < length (rollbacks s)")
    case True
    have "safe (world s) (rollbacks s ! i # live_queues s)"
      using assms rollbacks_live [OF True] by (auto elim: safe_mono)
    from drop_safe [OF this] RollbackDrop True show ?thesis
      by (auto simp: live_queues_def elim!: safe_mono dest!: subsetD [OF set_remove_at])
  qed (use assms RollbackDrop in simp)
next
  case ReapTurn
  define rs where "rs = (case cleanup s of None \<Rightarrow> [] | Some q \<Rightarrow> [q]) @ rollbacks s"
  have live: "live_queues (s\<lparr>reaping := qs, world := w\<rparr>) = rs @ qs" for qs w
    by (simp add: live_queues_def rs_def)
  have "safe (world s) (reaping s @ rs)"
    using assms by (rule safe_mono) (auto simp: live_queues_def rs_def)
  from reap_turn_safe(1) [OF this] have
    "safe (snd (reap_turn (reaping s) (world s))) (rs @ fst (reap_turn (reaping s) (world s)))"
    by (rule safe_mono) auto
  then show ?thesis using assms ReapTurn by (simp add: split_beta live)
qed (use assms in \<open>simp_all add: live_queues_def worker_safe\<close>)

lemma life_busy:
  assumes "busy s" "safe (world s) (live_queues s)"
  shows "busy (life_step e s)"
proof (cases "cleanup s")
  case None
  then show ?thesis by (cases e) (simp_all add: busy_def split_beta)
next
  case (Some q)
  have t: "tracked j k q (world s)" if "job_key s j = Some k" for j k
    using assms(1) Some that by (simp add: busy_def)
  have f: "fresh_acks (world s)" using assms(2) by (simp add: safe_def world_ok_fresh)
  show ?thesis
  proof (cases e)
    case (Enqueue k)
    with Some t f show ?thesis by (auto simp: busy_def split_beta intro!: enqueue_tracked split: if_splits)
  next
    case Poll
    with Some t f tracked.poll_inv [where q = q and w = "world s" and n = True] show ?thesis
      by (auto simp: busy_def split_beta)
  next
    case DropQueue
    with Some show ?thesis by (simp add: busy_def)
  next
    case (Rollback k)
    let ?r = "enqueue k (next_job s) cleanup_queue_new (world s)"
    have "tracked j k' q (snd ?r)" if "job_key s j = Some k'" for j k'
      using beside.pump_inv [where j = j and k = k' and p = q] t [OF that]
      by (simp add: enqueue_def split_beta Let_def) (simp add: read_clock_def tracked_def)
    with Rollback Some show ?thesis by (auto simp: busy_def split_beta)
  next
    case (RollbackPoll i)
    with Some t beside.poll_inv [where p = q and w = "world s" and n = True] show ?thesis
      by (cases "i < length (rollbacks s)") (auto simp: busy_def split_beta)
  next
    case (RollbackDrop i)
    with Some t show ?thesis
      by (cases "i < length (rollbacks s)") (auto simp: busy_def drop_tracked)
  next
    case ReapTurn
    have "safe (world s) (reaping s @ [q])"
      using assms(2) by (rule safe_mono) (auto simp: Some live_queues_def)
    from reap_turn_safe(2) [OF this] ReapTurn Some t show ?thesis by (auto simp: busy_def split_beta)
  qed (use Some t in \<open>auto simp: busy_def worker_world\<close>)
qed

interpretation life: invariant_component life_step "life_init time spawner" life_inv for time spawner
proof (unfold_locales, goal_cases)
  case 1
  show ?case
    by (simp add: life_inv_def life_init_def world_init_def counted_def safe_def busy_def live_queues_def
        held_def world_ok_def inbox_ok_def queue_ok_def)
      (simp add: cleanup_queue_new_def)
next
  case (2 s e)
  then show ?case by (simp add: life_inv_def life_counted life_safe life_busy)
qed

text \<open>
  C28: ownership of cleanup jobs. Whatever the clock, the spawner, the workers and the reaper
  do, every job ever enqueued is held exactly once (in a queue, in the reaper's inbox, or
  destroyed), only a job whose cleanup returned success has been destroyed, and no queue runs
  more than two workers.
\<close>

theorem cleanup_ownership:
  "total_jobs (live_queues (run_events life_step es (life_init time spawner)))
      + held (world (run_events life_step es (life_init time spawner)))
      = mset [0..<next_job (run_events life_step es (life_init time spawner))]
    \<and> set (disposed (world (run_events life_step es (life_init time spawner))))
        \<subseteq> set (cleaned (world (run_events life_step es (life_init time spawner))))
    \<and> list_all (\<lambda>q. length (running q) \<le> 2)
        (live_queues (run_events life_step es (life_init time spawner)))"
  using life.inv_run [of es time spawner]
  by (simp add: life_inv_def counted_def safe_def world_ok_def queue_ok_def list_all_iff)

lemma entry_of_keys: "entry_of j k q \<Longrightarrow> k \<in> set (keys q)"
  by (auto simp: entry_of_def keys_def)

lemma disposing_keys: "\<lparr>d_key = k, d_receiver = c\<rparr> \<in> set (disposing q) \<Longrightarrow> k \<in> set (keys q)"
  by (auto simp: keys_def intro: rev_image_eqI)

text \<open>
  an identity stays busy until its resources are gone: as long as a job enqueued for a
  session has not been destroyed, the queue of the event loop reports the session and its
  display slot busy.
\<close>

theorem identity_busy_until_disposed:
  assumes "s = run_events life_step es (life_init time spawner)"
    and "cleanup s = Some q" and "job_key s j = Some (Session i slot)"
    and "j \<notin> set (disposed (world s))"
  shows "session_busy i q \<and> display_busy slot q"
proof -
  have "tracked j (Session i slot) q (world s)"
    using life.inv_run [of es time spawner] assms(1-3) by (simp add: life_inv_def busy_def)
  with assms(4) have "Session i slot \<in> set (keys q)"
    unfolding tracked_def by (blast intro: entry_of_keys disposing_keys)
  moreover have "key_session i (Session i slot)" "key_display slot (Session i slot)" by simp_all
  ultimately show ?thesis unfolding session_busy_def display_busy_def list_ex_iff by blast
qed

theorem identity_busy_until_disposed_witness:
  "session_busy (ProfileId (replicate 16 7))
     (the (cleanup (run_events life_step [Enqueue (Session (ProfileId (replicate 16 7)) ''d''),
        WorkerDone 0 (Returned (Inr ())), Poll] (life_init (\<lambda>_. 0) (\<lambda>_. None)))))"
proof -
  let ?i = "ProfileId (replicate 16 7)"
  let ?s = "run_events life_step [Enqueue (Session ?i ''d''), WorkerDone 0 (Returned (Inr ())), Poll]
      (life_init (\<lambda>_. 0) (\<lambda>_. None))"
  have c: "cleanup ?s \<noteq> None" by code_simp
  then have q: "cleanup ?s = Some (the (cleanup ?s))" by simp
  have k: "job_key ?s 0 = Some (Session ?i ''d'')" by code_simp
  have d: "0 \<notin> set (disposed (world ?s))" by code_simp
  from identity_busy_until_disposed [OF refl q k d] show ?thesis by simp
qed

text \<open>\<open>finish\<close>: the clock is read at least once in each turn of the loop.\<close>

lemma reading_ops [simp]:
  "clock (snd (retry e m n q w)) = clock w" "reads (snd (retry e m n q w)) = Suc (reads w)"
  "clock (retire x w) = clock w" "reads (retire x w) = reads w"
  by (simp_all add: retry_def read_clock_def notify_completion_def retire_def spawn_def Let_def
      split: option.splits)

interpretation reading: queue_invariant "\<lambda>_ w. clock w = c \<and> n \<le> reads w" for c n
proof (unfold_locales, goal_cases)
  case (4 q w i r n')
  then show ?case
    by (cases r) (simp_all add: settle_def notify_completion_def dispose_def)
qed (simp_all add: read_clock_def start_worker_def spawn_def)

lemma finish_loop_returns:
  assumes "\<forall>n \<ge> N. deadline \<le> clock w n"
    and "\<forall>f \<in> set sleeps. \<forall>v. clock (f v) = clock v \<and> reads v \<le> reads (f v)"
    and "N \<le> reads w + length sleeps"
  shows "\<exists>b q' w'. finish_loop deadline sleeps q w = (Some b, q', w') \<and> b = queue_empty q'"
  using assms
proof (induction sleeps arbitrary: q w)
  case Nil
  have "clock (snd (poll True q w)) = clock w \<and> reads w \<le> reads (snd (poll True q w))"
    using reading.poll_inv [of w "clock w" "reads w"] by simp
  with Nil show ?case by (cases "poll True q w") (auto simp: read_clock_def)
next
  case (Cons f fs)
  let ?w1 = "snd (poll True q w)" and ?q1 = "fst (poll True q w)"
  let ?w2 = "snd (read_clock ?w1)"
  have p: "clock ?w1 = clock w \<and> reads w \<le> reads ?w1"
    using reading.poll_inv [of w "clock w" "reads w"] by simp
  have f: "clock (f ?w2) = clock w" "Suc (reads w) \<le> reads (f ?w2)"
    using Cons.prems(2) [rule_format, of f ?w2] p by (simp_all add: read_clock_def)
  have "\<exists>b q' w'. finish_loop deadline fs ?q1 (f ?w2) = (Some b, q', w') \<and> b = queue_empty q'"
    using Cons.prems f by (intro Cons.IH) auto
  then show ?case by (cases "poll True q w") (auto simp: split_beta)
qed

text \<open>
  C29: \<open>finish\<close> returns: if the clock passes the deadline within as many readings as the loop
  may sleep, it answers, and the answer is whether the queue has been drained.
\<close>

theorem finish_terminates:
  assumes "\<forall>n \<ge> N. clock w (reads w) + timeout \<le> clock w n"
    and "\<forall>f \<in> set sleeps. \<forall>v. clock (f v) = clock v \<and> reads v \<le> reads (f v)"
    and "N \<le> reads w + length sleeps"
  shows "\<exists>b q' w'. finish timeout sleeps q w = (Some b, q', w') \<and> b = queue_empty q'"
  using finish_loop_returns [of N "clock w (reads w) + timeout" "snd (read_clock w)" sleeps q] assms
  by (simp add: finish_def read_clock_def)

theorem finish_terminates_witness:
  "\<exists>b q' w'. finish 5 [worker_lost 0, id, id, id, id, id]
      (cleanup_queue_new\<lparr>disposing := [\<lparr>d_key = Abandoned, d_receiver = 3\<rparr>]\<rparr>)
      (world_init (\<lambda>n. n) (\<lambda>_. None)) = (Some b, q', w') \<and> b = queue_empty q'"
proof -
  have l: "\<forall>f \<in> set [worker_lost 0, id, id, id, id, id].
      \<forall>v. clock (f v) = clock v \<and> reads v \<le> reads (f v)"
    by (auto simp: worker_lost_def split: option.splits)
  show ?thesis
    by (rule finish_terminates [of 5, OF _ l]) (auto simp: world_init_def)
qed

text \<open>Starting workers and queueing keep every identity busy.\<close>

interpretation keys_kept: pump_invariant "\<lambda>q w. set (keys q) = K" for K
proof (unfold_locales, goal_cases)
  case (2 q w i)
  then have "set (pending q) = insert (pending q ! i) (set (remove_at i (pending q)))"
    using mset_remove_at [OF 2(3)] by (metis set_mset_add_mset_insert set_mset_mset)
  with 2 show ?case by (auto simp: keys_def start_worker_def)
next
  case (3 q w i m)
  then have "set (pending q) = insert (pending q ! i) (set (remove_at i (pending q)))"
    using mset_remove_at [OF 3(2)] by (metis set_mset_add_mset_insert set_mset_mset)
  with 3 show ?case by (auto simp: keys_def retry_def read_clock_def Let_def)
qed

lemma enqueue_keys: "set (keys (fst (enqueue k j q w))) = insert k (set (keys q))"
proof -
  let ?q = "q\<lparr>pending := pending q @ [\<lparr>e_key = k, e_job = j, e_failures = 0, e_last_error = None,
      e_ready_at = fst (read_clock w)\<rparr>]\<rparr>"
  have "set (keys ?q) = insert k (set (keys q))" by (simp add: keys_def)
  from keys_kept.pump_inv [OF this] show ?thesis by (simp add: enqueue_def split_beta Let_def)
qed

end
