(* ===== verification/Action_Targets.thy ===== *)
theory Action_Targets
  imports Prelude
begin

text \<open>
  \<open>src/container_mode/action_targets.rs\<close>: what a destructive command may name. A Docker
  endpoint is captured once and must be a local Unix socket; a container is addressed by its
  full immutable identifier; every command pins the endpoint on its command line and removes
  the environment variables that could redirect it. A \<open>std::process::Command\<close> is the record
  of what the builder collected.
\<close>

subsection \<open>Commands\<close>

record command =
  program :: string
  args :: "string list"
  env_removed :: "string list"
  env_set :: "(string \<times> string) list"

definition command_new :: "string \<Rightarrow> command" where
  "command_new p = \<lparr>program = p, args = [], env_removed = [], env_set = []\<rparr>"

definition add_args :: "string list \<Rightarrow> command \<Rightarrow> command" where
  "add_args as c = c\<lparr>args := args c @ as\<rparr>"

definition env :: "string \<Rightarrow> string \<Rightarrow> command \<Rightarrow> command" where
  "env k v c = c\<lparr>env_set := env_set c @ [(k, v)]\<rparr>"

text \<open>\<open>Path::is_absolute\<close> on Unix.\<close>

definition is_absolute :: "string \<Rightarrow> bool" where
  "is_absolute p = starts_with p ''/''"

subsection \<open>Docker endpoints\<close>

datatype docker_endpoint = DockerEndpoint (host: string)

definition endpoint_local :: "string \<Rightarrow> string + docker_endpoint" where
  "endpoint_local h =
     (case strip_prefix ''unix://'' h of
        None \<Rightarrow> Inl ''Delete requires a captured local Unix Docker endpoint; remote/TLS endpoints are not supported for deletion.''
      | Some socket \<Rightarrow>
          if \<not> is_absolute socket \<or> list_ex is_control h
          then Inl ''Docker endpoint must name an absolute Unix socket.''
          else Inr (DockerEndpoint h))"

definition PINNED :: "string list" where
  "PINNED = [''DOCKER_CONTEXT'', ''DOCKER_HOST'', ''DOCKER_TLS'', ''DOCKER_TLS_VERIFY'', ''DOCKER_CERT_PATH'']"

definition pin_environment :: "command \<Rightarrow> command" where
  "pin_environment c =
     c\<lparr>env_removed := env_removed c @ PINNED,
       env_set := filter (\<lambda>(k, _). k \<notin> set PINNED) (env_set c)\<rparr>"

text \<open>
  \<open>capture_docker_endpoint\<close>: \<open>probe\<close> runs the Docker client on some arguments, in a world that
  it may change.
\<close>

definition capture_docker_endpoint ::
  "string option \<Rightarrow> string option \<Rightarrow> (string list \<Rightarrow> 'w \<Rightarrow> (string + string) \<times> 'w) \<Rightarrow> 'w
    \<Rightarrow> (string + docker_endpoint) \<times> 'w" where
  "capture_docker_endpoint context_override host_override probe w =
     (let ctx = (if context_override = Some [] then None else context_override);
          host = (if host_override = Some [] then None else host_override)
      in case (ctx, host) of
           (None, Some h) \<Rightarrow> (endpoint_local h, w)
         | _ \<Rightarrow>
             (case (case ctx of
                      Some c \<Rightarrow> (Inr c, w)
                    | None \<Rightarrow>
                        (case probe [''context'', ''show''] w of
                           (r, w') \<Rightarrow> (map_sum id trim r, w'))) of
                (Inl e, w1) \<Rightarrow> (Inl e, w1)
              | (Inr context, w1) \<Rightarrow>
                  if context = [] \<or> starts_with context ''-'' \<or> list_ex is_control context
                  then (Inl ''Docker context identity is unavailable.'', w1)
                  else
                    (case probe [''context'', ''inspect'', ''--format'',
                                 ''{{.Endpoints.docker.Host}}'', context] w1 of
                       (Inl e, w2) \<Rightarrow> (Inl e, w2)
                     | (Inr h, w2) \<Rightarrow> (endpoint_local (trim h), w2))))"

definition unpinned_resource_delete_error :: "string \<Rightarrow> string option" where
  "unpinned_resource_delete_error runtime =
     (if to_ascii_lowercase (trim runtime) \<in> {''docker'', ''orb'', ''orbstack''}
      then Some ''Docker image and volume deletion is disabled because no endpoint-bound resource identity was captured. Verify the endpoint and resource in Docker's own tools; Cocoa-Way will not delete through the mutable current context.''
      else None)"

subsection \<open>Captured deletion targets\<close>

record docker_delete_target =
  t_executable :: string
  t_endpoint :: docker_endpoint
  t_id :: string

definition is_full_id :: "string \<Rightarrow> bool" where
  "is_full_id i \<longleftrightarrow> length i = 64 \<and> list_all is_ascii_hexdigit i"

definition target_capture :: "string \<Rightarrow> docker_endpoint \<Rightarrow> string \<Rightarrow> string + docker_delete_target" where
  "target_capture executable endpoint i =
     (if \<not> is_absolute executable
      then Inl ''Delete requires a captured absolute Docker executable.''
      else if \<not> is_full_id i
      then Inl ''Delete requires the full immutable Docker container ID.''
      else Inr \<lparr>t_executable = executable, t_endpoint = endpoint, t_id = i\<rparr>)"

definition operation_command :: "string \<Rightarrow> docker_delete_target \<Rightarrow> string + command" where
  "operation_command operation t =
     (let c = add_args [''--host'', host (t_endpoint t)]
                (pin_environment (command_new (t_executable t)))
      in if operation = ''delete'' then Inr (add_args [''rm'', ''--force'', ''--'', t_id t] c)
         else if operation \<in> {''start'', ''stop'', ''restart''}
         then Inr (add_args [operation, ''--'', t_id t] c)
         else Inl ''Unsupported captured Docker operation.'')"

record 'i stoppable_profile =
  sp_id :: 'i
  sp_name :: string
  sp_runtime :: string
  sp_pending :: bool

definition resolve_owned_stop :: "'i \<Rightarrow> 'i stoppable_profile list \<Rightarrow> 'i stoppable_profile option" where
  "resolve_owned_stop i owned = find (\<lambda>p. sp_id p = i) owned"

subsection \<open>Properties\<close>

definition local_endpoint :: "docker_endpoint \<Rightarrow> bool" where
  "local_endpoint e \<longleftrightarrow>
     (\<exists>path. host e = ''unix:///'' @ path) \<and> \<not> list_ex is_control (host e)"

lemma endpoint_local_ok:
  assumes "endpoint_local h = Inr e"
  shows "host e = h" and "local_endpoint e"
proof -
  obtain socket where s: "strip_prefix ''unix://'' h = Some socket" "is_absolute socket"
      "\<not> list_ex is_control h" "e = DockerEndpoint h"
    using assms by (auto simp: endpoint_local_def split: option.splits if_splits)
  from s(2) obtain path where "socket = ''/'' @ path"
    unfolding is_absolute_def starts_with_iff by blast
  with s(1) have "h = ''unix://'' @ ''/'' @ path" by (simp only: strip_prefix_iff)
  then have "h = ''unix:///'' @ path" by simp
  with s show "host e = h" "local_endpoint e" by (auto simp: local_endpoint_def)
qed

lemma capture_endpoint_local:
  "fst (capture_docker_endpoint ctx h probe w) = Inr e \<Longrightarrow> local_endpoint e"
  by (auto simp: capture_docker_endpoint_def Let_def endpoint_local_ok
      split: option.splits sum.splits prod.splits if_splits)

lemma operation_verb:
  assumes "operation_command operation t = Inr c"
  shows "\<exists>verb \<in> {[''rm'', ''--force''], [''start''], [''stop''], [''restart'']}.
    c = add_args (verb @ [''--'', t_id t])
      (add_args [''--host'', host (t_endpoint t)] (pin_environment (command_new (t_executable t))))"
  using assms unfolding operation_command_def Let_def by (auto split: if_splits)



end
