(* ===== verification/Container_Identity.thy ===== *)
theory Container_Identity
  imports Action_Targets Profile_Identity
begin

text \<open>
  \<open>src/container_identity.rs\<close>, with the output helpers of \<open>src/container_sessions.rs\<close> it calls:
  the cleanup authority of one launch attempt. A container is deleted only if an inspection
  with the captured executable shows exactly one container under the attempt's name that
  carries the attempt's random owner token. The command runner and the JSON decoder are
  parameters; the decoder delivers the entries of a label dictionary in document order and
  the refusal of duplicate keys is the source's own.

  Output of the runtimes is text; lower-casing acts on the ASCII letters.
\<close>

subsection \<open>Identities\<close>

datatype runtime = Apple | Docker | OrbStack

record owned_identity =
  i_runtime :: runtime
  i_name :: string
  i_binary :: string
  i_token :: string
  i_child_path :: string
  i_endpoint :: "docker_endpoint option"

definition OWNER_LABEL :: string where
  "OWNER_LABEL = ''org.cocoa-way.owner''"

definition MAX_INSPECT_BYTES :: nat where
  "MAX_INSPECT_BYTES = 1024 * 1024"

definition parse_runtime :: "string \<Rightarrow> runtime option" where
  "parse_runtime r =
     (let t = trim r in
      if t \<in> {''container'', ''apple'', ''apple-container''} then Some Apple
      else if t = ''docker'' then Some Docker
      else if t \<in> {''orb'', ''orbstack''} then Some OrbStack
      else None)"

definition name_byte :: "char \<Rightarrow> bool" where
  "name_byte c \<longleftrightarrow> is_ascii_alphanumeric c \<or> c \<in> set ''._-''"

definition valid_name :: "string \<Rightarrow> bool" where
  "valid_name n \<longleftrightarrow> n \<noteq> [] \<and> \<not> starts_with n ''-'' \<and> list_all name_byte n"

definition valid_token :: "string \<Rightarrow> bool" where
  "valid_token t \<longleftrightarrow> length t = 64 \<and> list_all is_lower_hex t"

definition with_token :: "string \<Rightarrow> string \<Rightarrow> string \<Rightarrow> string \<Rightarrow> string \<Rightarrow> string + owned_identity" where
  "with_token rt name binary child_path token =
     (case parse_runtime rt of
        None \<Rightarrow> Inl ''unknown owned-container runtime''
      | Some r \<Rightarrow>
          if \<not> valid_name name then Inl ''invalid owned-container name''
          else if \<not> valid_token token then Inl ''invalid container owner token''
          else if \<not> is_absolute binary
          then Inl ''owned-container runtime binary must be an absolute captured path''
          else Inr \<lparr>i_runtime = r, i_name = name, i_binary = binary, i_token = token,
                    i_child_path = child_path, i_endpoint = None\<rparr>)"

text \<open>
  The outcome of a finished command, and the runner: it starts the command, waits at most
  the given time, and returns the outcome or the text of its error.
\<close>

record cmd_output =
  success :: bool
  status :: string
  stdout :: string
  stderr :: string

type_synonym 'w runner = "command \<Rightarrow> duration \<Rightarrow> 'w \<Rightarrow> (string + cmd_output) \<times> 'w"

definition docker_probe :: "'w runner \<Rightarrow> string \<Rightarrow> string \<Rightarrow> string list \<Rightarrow> 'w \<Rightarrow> (string + string) \<times> 'w" where
  "docker_probe run binary child_path as w =
     (case run (add_args as (env ''PATH'' child_path (command_new binary))) (from_secs 3) w of
        (Inl e, w') \<Rightarrow> (Inl e, w')
      | (Inr out, w') \<Rightarrow>
          (if success out then Inr (stdout out)
           else Inl ''Docker endpoint could not be captured; no owned container was started.'', w'))"

text \<open>\<open>OwnedContainerIdentity::new\<close>; \<open>random\<close> is the outcome of reading 32 random bytes.\<close>

definition identity_new ::
  "'w runner \<Rightarrow> string + 8 word list \<Rightarrow> string option \<Rightarrow> string option
    \<Rightarrow> string \<Rightarrow> string \<Rightarrow> string \<Rightarrow> string \<Rightarrow> 'w \<Rightarrow> (string + owned_identity) \<times> 'w" where
  "identity_new run random docker_context docker_host rt name binary child_path w =
     (case random of
        Inl e \<Rightarrow> (Inl (''cannot generate container owner token: '' @ e), w)
      | Inr bytes \<Rightarrow>
          (case with_token rt name binary child_path (concat (map show_byte bytes)) of
             Inl e \<Rightarrow> (Inl e, w)
           | Inr i \<Rightarrow>
               if i_runtime i = Docker then
                 (case capture_docker_endpoint docker_context docker_host
                         (docker_probe run binary child_path) w of
                    (Inl e, w') \<Rightarrow> (Inl e, w')
                  | (Inr e, w') \<Rightarrow> (Inr (i\<lparr>i_endpoint := Some e\<rparr>), w'))
               else (Inr i, w)))"

definition append_owner_label :: "owned_identity \<Rightarrow> command \<Rightarrow> command" where
  "append_owner_label i c =
     (let c1 = (case i_endpoint i of
                  None \<Rightarrow> c
                | Some e \<Rightarrow> env ''DOCKER_HOST'' (host e) (pin_environment c))
      in if i_runtime i \<noteq> OrbStack
         then add_args [''--label'', OWNER_LABEL @ ''='' @ i_token i] c1
         else c1)"

subsection \<open>What an inspection shows\<close>

text \<open>The visitor of \<open>Labels\<close>: a repeated key makes the whole document unusable.\<close>

fun visit_map :: "(string \<rightharpoonup> string) \<Rightarrow> (string \<times> string) list \<Rightarrow> string + (string \<rightharpoonup> string)" where
  "visit_map labels [] = Inr labels"
| "visit_map labels ((k, v) # es) =
     (if labels k \<noteq> None then Inl ''duplicate container label'' else visit_map (labels(k \<mapsto> v)) es)"

record apple_inspect =
  a_id :: "string option"
  a_configuration_id :: string
  a_labels :: "(string \<times> string) list"

record docker_inspect =
  k_id :: string
  k_name :: string
  k_labels :: "(string \<times> string) list"

fun decode_labels :: "('r \<Rightarrow> (string \<times> string) list) \<Rightarrow> 'r list \<Rightarrow> string + ('r \<times> (string \<rightharpoonup> string)) list" where
  "decode_labels f [] = Inr []"
| "decode_labels f (r # rs) =
     (case visit_map Map.empty (f r) of
        Inl e \<Rightarrow> Inl e
      | Inr m \<Rightarrow> (case decode_labels f rs of Inl e \<Rightarrow> Inl e | Inr ms \<Rightarrow> Inr ((r, m) # ms)))"

definition from_slice :: "(string \<Rightarrow> string + 'r list) \<Rightarrow> ('r \<Rightarrow> (string \<times> string) list) \<Rightarrow> string
    \<Rightarrow> string + ('r \<times> (string \<rightharpoonup> string)) list" where
  "from_slice parse f bytes = (case parse bytes of Inl e \<Rightarrow> Inl e | Inr rs \<Rightarrow> decode_labels f rs)"

definition apple_target :: "(string \<Rightarrow> string + apple_inspect list) \<Rightarrow> string \<Rightarrow> string
    \<Rightarrow> string + string \<times> (string \<rightharpoonup> string)" where
  "apple_target parse name bytes =
     (case from_slice parse a_labels bytes of
        Inl e \<Rightarrow> Inl (''owned cleanup refused: unknown Apple inspect schema: '' @ e)
      | Inr [(r, labels)] \<Rightarrow>
          if a_configuration_id r \<noteq> name
             \<or> (case a_id r of None \<Rightarrow> False | Some i \<Rightarrow> i \<noteq> name)
          then Inl ''owned cleanup refused: Apple container ID does not match the attempt''
          else Inr (a_configuration_id r, labels)
      | Inr _ \<Rightarrow> Inl ''owned cleanup refused: expected one Apple container'')"

definition docker_target :: "(string \<Rightarrow> string + docker_inspect list) \<Rightarrow> string \<Rightarrow> string
    \<Rightarrow> string + string \<times> (string \<rightharpoonup> string)" where
  "docker_target parse name bytes =
     (case from_slice parse k_labels bytes of
        Inl e \<Rightarrow> Inl (''owned cleanup refused: unknown Docker inspect schema: '' @ e)
      | Inr [(r, labels)] \<Rightarrow>
          if k_name r \<noteq> ''/'' @ name \<or> length (k_id r) \<noteq> 64 \<or> \<not> list_all is_ascii_hexdigit (k_id r)
          then Inl ''owned cleanup refused: invalid Docker container identity''
          else Inr (k_id r, labels)
      | Inr _ \<Rightarrow> Inl ''owned cleanup refused: expected one Docker container'')"

definition deletion_target ::
  "(string \<Rightarrow> string + apple_inspect list) \<Rightarrow> (string \<Rightarrow> string + docker_inspect list)
    \<Rightarrow> owned_identity \<Rightarrow> string \<Rightarrow> string + string" where
  "deletion_target parse_apple parse_docker i bytes =
     (if length bytes > MAX_INSPECT_BYTES
      then Inl ''owned cleanup refused: inspect JSON exceeds 1 MiB''
      else
        (case (case i_runtime i of
                 Apple \<Rightarrow> apple_target parse_apple (i_name i) bytes
               | Docker \<Rightarrow> docker_target parse_docker (i_name i) bytes
               | OrbStack \<Rightarrow> Inl ''owned cleanup does not delete OrbStack machines'') of
           Inl e \<Rightarrow> Inl e
         | Inr (target, labels) \<Rightarrow>
             if labels OWNER_LABEL \<noteq> Some (i_token i)
             then Inl ''owned cleanup refused: container owner label is missing or belongs to another attempt''
             else Inr target))"

subsection \<open>Diagnostics of a failed inspection\<close>

definition runtime_output_message :: "string \<Rightarrow> string option" where
  "runtime_output_message s =
     map_option (take 512) (find (\<lambda>l. l \<noteq> []) (map trim (lines s)))"

definition runtime_failure_detail :: "cmd_output \<Rightarrow> string" where
  "runtime_failure_detail out =
     (let detail = (case runtime_output_message (stderr out) of
                      Some m \<Rightarrow> m
                    | None \<Rightarrow> (case runtime_output_message (stdout out) of
                                 Some m \<Rightarrow> m | None \<Rightarrow> ''no diagnostic output''))
      in status out @ '': '' @ detail)"

definition runtime_output_is_not_found :: "string \<Rightarrow> string \<Rightarrow> bool" where
  "runtime_output_is_not_found s name =
     (let text = to_ascii_lowercase s in
      contains text ''no such container'' \<or> contains text ''no such object''
      \<or> (contains text (to_ascii_lowercase name)
         \<and> (contains text ''not found'' \<or> contains text ''notfound''
            \<or> contains text ''does not exist'')))"

definition strip_or_keep :: "string \<Rightarrow> string \<Rightarrow> string" where
  "strip_or_keep p s = (case strip_prefix p s of None \<Rightarrow> s | Some r \<Rightarrow> r)"

definition missing_line :: "owned_identity \<Rightarrow> string \<Rightarrow> bool" where
  "missing_line i l =
     (let line = strip_or_keep ''Error: '' l in
      case i_runtime i of
        Apple \<Rightarrow> trim_matches (CHR 0x22) (strip_or_keep ''notFound: '' line)
                   = ''container not found: '' @ i_name i
      | Docker \<Rightarrow>
          (let d = strip_or_keep ''Error response from daemon: '' line in
           d = ''No such container: '' @ i_name i \<or> d = ''No such object: '' @ i_name i)
      | OrbStack \<Rightarrow> False)"

text \<open>The loop over the lines: every one that is not blank says so, and there is one.\<close>

definition confirmed_missing :: "owned_identity \<Rightarrow> string \<Rightarrow> bool" where
  "confirmed_missing i err =
     (runtime_output_is_not_found err (i_name i)
      \<and> (let ls = filter (\<lambda>l. l \<noteq> []) (map trim (lines err)) in
         list_all (missing_line i) ls \<and> ls \<noteq> []))"

subsection \<open>The cleanup\<close>

definition inspect_command :: "owned_identity \<Rightarrow> string + command" where
  "inspect_command i =
     (let c = env ''PATH'' (i_child_path i) (command_new (i_binary i)) in
      case i_runtime i of
        Docker \<Rightarrow>
          (case i_endpoint i of
             None \<Rightarrow> Inl ''owned cleanup refused: no captured Docker endpoint; current context will not be used''
           | Some e \<Rightarrow> Inr (add_args [''--host'', host e, ''container'', ''inspect'', i_name i]
                              (pin_environment c)))
      | _ \<Rightarrow> Inr (add_args [''inspect'', i_name i] c))"

definition delete_command :: "owned_identity \<Rightarrow> string \<Rightarrow> string + command" where
  "delete_command i target =
     (let c = env ''PATH'' (i_child_path i) (command_new (i_binary i)) in
      case i_runtime i of
        Docker \<Rightarrow>
          (case i_endpoint i of
             None \<Rightarrow> Inl ''owned cleanup refused: no captured Docker endpoint''
           | Some e \<Rightarrow> Inr (add_args [''--host'', host e, ''rm'', ''--force'', ''--'', target]
                              (pin_environment c)))
      | _ \<Rightarrow> Inr (add_args [''delete'', ''--force'', target] c))"

definition run_delete :: "'w runner \<Rightarrow> command \<Rightarrow> 'w \<Rightarrow> (string + unit) \<times> 'w" where
  "run_delete run c w =
     (case run c (from_secs 6) w of
        (Inl e, w') \<Rightarrow> (Inl (''owned container deletion failed: '' @ e), w')
      | (Inr out, w') \<Rightarrow>
          (if success out then Inr ()
           else Inl (''owned container deletion failed: '' @ runtime_failure_detail out), w'))"

definition cleanup_owned_instance ::
  "(string \<Rightarrow> string + apple_inspect list) \<Rightarrow> (string \<Rightarrow> string + docker_inspect list)
    \<Rightarrow> 'w runner \<Rightarrow> owned_identity \<Rightarrow> 'w \<Rightarrow> (string + unit) \<times> 'w" where
  "cleanup_owned_instance parse_apple parse_docker run i w =
     (if i_runtime i = OrbStack then (Inr (), w)
      else
        (case inspect_command i of
           Inl e \<Rightarrow> (Inl e, w)
         | Inr inspect \<Rightarrow>
             (case run inspect (from_secs 6) w of
                (Inl e, w1) \<Rightarrow> (Inl (''owned cleanup refused: inspect failed: '' @ e), w1)
              | (Inr out, w1) \<Rightarrow>
                  if \<not> success out then
                    (if confirmed_missing i (stderr out) then Inr ()
                     else Inl (''owned cleanup refused: inspect failed: '' @ runtime_failure_detail out), w1)
                  else
                    (case deletion_target parse_apple parse_docker i (stdout out) of
                       Inl e \<Rightarrow> (Inl e, w1)
                     | Inr target \<Rightarrow>
                         (case delete_command i target of
                            Inl e \<Rightarrow> (Inl e, w1)
                          | Inr delete \<Rightarrow> run_delete run delete w1)))))"

subsection \<open>Properties\<close>

text \<open>A runner that records the commands it is given.\<close>

definition logged :: "'w runner \<Rightarrow> (command list \<times> 'w) runner" where
  "logged run c t lw = (case run c t (snd lw) of (r, w') \<Rightarrow> (r, (fst lw @ [c], w')))"

definition labelled :: "string \<Rightarrow> (string \<times> string) list \<Rightarrow> bool" where
  "labelled token es \<longleftrightarrow> distinct (map fst es) \<and> (OWNER_LABEL, token) \<in> set es"

text \<open>The inspection shows one container, the attempt's, with the attempt's token.\<close>

definition shown_as_owned ::
  "(string \<Rightarrow> string + apple_inspect list) \<Rightarrow> (string \<Rightarrow> string + docker_inspect list)
    \<Rightarrow> owned_identity \<Rightarrow> string \<Rightarrow> string \<Rightarrow> bool" where
  "shown_as_owned parse_apple parse_docker i bytes target \<longleftrightarrow>
     (case i_runtime i of
        Apple \<Rightarrow> (\<exists>r. parse_apple bytes = Inr [r] \<and> a_configuration_id r = i_name i
                    \<and> target = i_name i \<and> labelled (i_token i) (a_labels r))
      | Docker \<Rightarrow> (\<exists>r. parse_docker bytes = Inr [r] \<and> k_name r = ''/'' @ i_name i
                    \<and> target = k_id r \<and> is_full_id target \<and> labelled (i_token i) (k_labels r))
      | OrbStack \<Rightarrow> False)"

lemma visit_map_unique:
  assumes "visit_map m es = Inr labels"
  shows "distinct (map fst es) \<and> (\<forall>k \<in> fst ` set es. m k = None) \<and> labels = m ++ map_of es"
  using assms
proof (induction m es rule: visit_map.induct)
  case (2 m k v es)
  from "2.prems" have k: "m k = None" and rest: "visit_map (m(k \<mapsto> v)) es = Inr labels"
    by (simp_all split: if_splits)
  have ih: "distinct (map fst es) \<and> (\<forall>k' \<in> fst ` set es. (m(k \<mapsto> v)) k' = None)
      \<and> labels = m(k \<mapsto> v) ++ map_of es"
    by (rule "2.IH" [OF _ rest]) (simp add: k)
  then have "distinct (map fst es)" "\<forall>k' \<in> fst ` set es. (m(k \<mapsto> v)) k' = None"
      "labels = m(k \<mapsto> v) ++ map_of es"
    by (rule conjunct1, rule conjunct2 [THEN conjunct1], rule conjunct2 [THEN conjunct2])
  moreover from this(2) have "k \<notin> fst ` set es" by (metis fun_upd_same option.distinct(1))
  moreover note k
  moreover have "\<forall>k' \<in> fst ` set es. m k' = None"
    using calculation by (metis fun_upd_other)
  ultimately show ?case
    by (auto simp: map_add_def fun_eq_iff map_of_eq_None_iff split: option.splits)
qed simp

lemma decode_single:
  assumes "from_slice parse f bytes = Inr [(r, m)]"
  shows "parse bytes = Inr [r]" and "visit_map Map.empty (f r) = Inr m"
proof -
  obtain rs where rs: "parse bytes = Inr rs" "decode_labels f rs = Inr [(r, m)]"
    using assms by (auto simp: from_slice_def split: sum.splits)
  then obtain x xs where "rs = x # xs" by (cases rs) auto
  moreover have "decode_labels f ys = Inr [] \<Longrightarrow> ys = []" for ys
    by (cases ys) (auto split: sum.splits)
  ultimately show "parse bytes = Inr [r]" "visit_map Map.empty (f r) = Inr m"
    using rs by (auto split: sum.splits)
qed

lemma decode_labelled:
  assumes "from_slice parse f bytes = Inr [(r, m)]" "m OWNER_LABEL = Some token"
  shows "parse bytes = Inr [r] \<and> labelled token (f r)"
  using decode_single [OF assms(1)] visit_map_unique [of Map.empty "f r" m] assms(2)
  by (auto simp: labelled_def dest: map_of_SomeD)

lemma apple_target_Inr:
  assumes "apple_target pa name bytes = Inr (target, m)"
  obtains r where "from_slice pa a_labels bytes = Inr [(r, m)]" "a_configuration_id r = name"
    "target = name"
proof (cases "from_slice pa a_labels bytes")
  case (Inl e)
  with assms show ?thesis by (simp add: apple_target_def)
next
  case (Inr rs)
  show ?thesis
  proof (cases rs)
    case Nil
    with Inr assms show ?thesis by (simp add: apple_target_def)
  next
    case (Cons x xs)
    obtain r l where x: "x = (r, l)" by (cases x)
    show ?thesis
    proof (cases xs)
      case Nil
      with Cons x Inr have fs: "from_slice pa a_labels bytes = Inr [(r, l)]" by simp
      with assms have "l = m" "a_configuration_id r = name" "target = name"
        by (simp_all add: apple_target_def split: if_splits)
      with fs that show ?thesis by blast
    next
      case (Cons y ys)
      with \<open>rs = x # xs\<close> x Inr assms show ?thesis by (simp add: apple_target_def)
    qed
  qed
qed

lemma docker_target_Inr:
  assumes "docker_target pd name bytes = Inr (target, m)"
  obtains r where "from_slice pd k_labels bytes = Inr [(r, m)]" "k_name r = ''/'' @ name"
    "target = k_id r" "is_full_id target"
proof (cases "from_slice pd k_labels bytes")
  case (Inl e)
  with assms show ?thesis by (simp add: docker_target_def)
next
  case (Inr rs)
  show ?thesis
  proof (cases rs)
    case Nil
    with Inr assms show ?thesis by (simp add: docker_target_def)
  next
    case (Cons x xs)
    obtain r l where x: "x = (r, l)" by (cases x)
    show ?thesis
    proof (cases xs)
      case Nil
      with Cons x Inr have fs: "from_slice pd k_labels bytes = Inr [(r, l)]" by simp
      with assms have "l = m" "k_name r = ''/'' @ name" "target = k_id r" "is_full_id target"
        by (simp_all add: docker_target_def is_full_id_def split: if_splits)
      with fs that show ?thesis by blast
    next
      case (Cons y ys)
      with \<open>rs = x # xs\<close> x Inr assms show ?thesis by (simp add: docker_target_def)
    qed
  qed
qed

lemma deletion_target_sound:
  assumes "deletion_target pa pd i bytes = Inr target"
  shows "shown_as_owned pa pd i bytes target"
proof (cases "i_runtime i")
  case Apple
  then obtain m where m: "apple_target pa (i_name i) bytes = Inr (target, m)"
      "m OWNER_LABEL = Some (i_token i)"
    using assms by (auto simp: deletion_target_def split: if_splits sum.splits)
  from apple_target_Inr [OF m(1)] obtain r where
    "from_slice pa a_labels bytes = Inr [(r, m)]" "a_configuration_id r = i_name i" "target = i_name i" .
  with decode_labelled [of pa a_labels bytes _ m, OF _ m(2)] Apple show ?thesis by (simp add: shown_as_owned_def)
next
  case Docker
  then obtain m where m: "docker_target pd (i_name i) bytes = Inr (target, m)"
      "m OWNER_LABEL = Some (i_token i)"
    using assms by (auto simp: deletion_target_def split: if_splits sum.splits)
  from docker_target_Inr [OF m(1)] obtain r where "from_slice pd k_labels bytes = Inr [(r, m)]"
    "k_name r = ''/'' @ i_name i" "target = k_id r" "is_full_id target" .
  with decode_labelled [of pd k_labels bytes _ m, OF _ m(2)] Docker show ?thesis by (simp add: shown_as_owned_def)
next
  case OrbStack
  with assms show ?thesis by (simp add: deletion_target_def split: if_splits)
qed

lemma hexdigit_not_dash: "is_ascii_hexdigit c \<Longrightarrow> c \<noteq> CHR ''-''"
  by (auto simp: is_ascii_hexdigit_def is_ascii_digit_def Let_def)

lemma owned_target_no_option:
  assumes "shown_as_owned pa pd i bytes target" "valid_name (i_name i)"
  shows "\<not> starts_with target ''-''"
proof (cases "i_runtime i")
  case Docker
  with assms have "length target = 64" "list_all is_ascii_hexdigit target"
    by (auto simp: shown_as_owned_def is_full_id_def)
  then show ?thesis by (cases target) (auto dest: hexdigit_not_dash)
qed (use assms in \<open>auto simp: shown_as_owned_def valid_name_def\<close>)

text \<open>The ways a cleanup ends.\<close>

lemma cleanup_cases:
  assumes "cleanup_owned_instance pa pd run i w = (r, w')"
  obtains (machine) "i_runtime i = OrbStack" "r = Inr ()" "w' = w"
  | (no_endpoint) e where "i_runtime i \<noteq> OrbStack" "inspect_command i = Inl e" "r = Inl e" "w' = w"
  | (refused) c where "i_runtime i \<noteq> OrbStack" "inspect_command i = Inr c" "w' = snd (run c (from_secs 6) w)" "\<not> is_ok r"
  | (missing) c out where "i_runtime i \<noteq> OrbStack" "inspect_command i = Inr c"
      "run c (from_secs 6) w = (Inr out, w')" "\<not> success out" "confirmed_missing i (stderr out)" "r = Inr ()"
  | (deleted) c out w1 target d where "i_runtime i \<noteq> OrbStack" "inspect_command i = Inr c"
      "run c (from_secs 6) w = (Inr out, w1)" "success out"
      "deletion_target pa pd i (stdout out) = Inr target" "delete_command i target = Inr d"
      "run_delete run d w1 = (r, w')"
proof (cases "i_runtime i = OrbStack")
  case True
  with assms machine show ?thesis by (simp add: cleanup_owned_instance_def)
next
  case False
  show ?thesis
  proof (cases "inspect_command i")
    case (Inl e)
    with False assms no_endpoint show ?thesis by (simp add: cleanup_owned_instance_def)
  next
    case (Inr c)
    note c = Inr
    show ?thesis
    proof (cases "run c (from_secs 6) w")
      case (Pair x w1)
      show ?thesis
      proof (cases x)
        case (Inl e)
        with False c Pair assms show ?thesis
          by (intro refused [of c]) (auto simp: cleanup_owned_instance_def)
      next
        case (Inr out)
        show ?thesis
        proof (cases "success out")
          case False
          note failed = False
          show ?thesis
          proof (cases "confirmed_missing i (stderr out)")
            case True
            with failed \<open>i_runtime i \<noteq> OrbStack\<close> c Pair Inr assms show ?thesis
              by (intro missing [of c out]) (simp_all add: cleanup_owned_instance_def)
          next
            case False
            with failed \<open>i_runtime i \<noteq> OrbStack\<close> c Pair Inr assms show ?thesis
              by (intro refused [of c]) (auto simp: cleanup_owned_instance_def)
          qed
        next
          case True
          show ?thesis
          proof (cases "deletion_target pa pd i (stdout out)")
            case (Inl e)
            with False True c Pair Inr assms show ?thesis
              by (intro refused [of c]) (auto simp: cleanup_owned_instance_def)
          next
            case t: (Inr target)
            show ?thesis
            proof (cases "delete_command i target")
              case (Inl e)
              with False True c Pair Inr t assms show ?thesis
                by (intro refused [of c]) (auto simp: cleanup_owned_instance_def)
            next
              case d: (Inr d)
              with False True c Pair Inr t assms show ?thesis
                by (intro deleted [of c out w1 target d]) (simp_all add: cleanup_owned_instance_def)
            qed
          qed
        qed
      qed
    qed
  qed
qed

lemma logged_eq [simp]:
  "logged run c t (log, w) = (fst (run c t w), (log @ [c], snd (run c t w)))"
  by (simp add: logged_def split_beta)

lemma run_delete_logged: "fst (snd (run_delete (logged run) d (log, w))) = log @ [d]"
  by (simp add: run_delete_def split: sum.splits)


definition sample_identity :: owned_identity where
  "sample_identity =
     \<lparr>i_runtime = Apple, i_name = ''demo'', i_binary = ''/bin/container'',
      i_token = replicate 64 CHR ''a'', i_child_path = ''/bin'', i_endpoint = None\<rparr>"

definition sample_decoder :: "string \<Rightarrow> string + apple_inspect list" where
  "sample_decoder bytes =
     Inr [\<lparr>a_id = None, a_configuration_id = ''demo'',
           a_labels = [(OWNER_LABEL, replicate 64 CHR ''a'')]\<rparr>]"

definition sample_run :: "nat runner" where
  "sample_run c t n = (Inr \<lparr>success = True, status = ''exit status: 0'', stdout = [], stderr = []\<rparr>, Suc n)"

lemmas sample_defs =
  cleanup_owned_instance_def inspect_command_def deletion_target_def apple_target_def from_slice_def
  delete_command_def run_delete_def sample_identity_def sample_decoder_def sample_run_def


text \<open>
  success means the container is gone. Apart from OrbStack machines, which are never
  deleted, a cleanup answers \<open>Ok\<close> only if the inspection failed and every line it printed says
  that this container does not exist, or the deletion of the owned container succeeded.
\<close>

theorem cleanup_ok_means_gone:
  assumes "cleanup_owned_instance parse_apple parse_docker run i w = (Inr (), w')"
    and "i_runtime i \<noteq> OrbStack"
  shows "\<exists>c out w1. inspect_command i = Inr c \<and> run c (from_secs 6) w = (Inr out, w1)
    \<and> (if success out
       then \<exists>target d out'. shown_as_owned parse_apple parse_docker i (stdout out) target
              \<and> delete_command i target = Inr d
              \<and> fst (run d (from_secs 6) w1) = Inr out' \<and> success out'
       else filter (\<lambda>l. l \<noteq> []) (map trim (lines (stderr out))) \<noteq> []
            \<and> list_all (missing_line i) (filter (\<lambda>l. l \<noteq> []) (map trim (lines (stderr out)))))"
  using assms(1)
proof (cases rule: cleanup_cases)
  case (missing c out)
  then show ?thesis by (intro exI [of _ c] exI [of _ out] exI [of _ w'])
      (simp add: confirmed_missing_def Let_def)
next
  case (deleted c out w1 target d)
  from deleted(7) obtain out' where "fst (run d (from_secs 6) w1) = Inr out'" "success out'"
    by (auto simp: run_delete_def split: sum.splits if_splits prod.splits)
  with deleted deletion_target_sound [OF deleted(5)] show ?thesis
    by (intro exI [of _ c] exI [of _ out] exI [of _ w1]) auto
qed (use assms(2) in auto)

theorem cleanup_ok_means_gone_witness:
  "\<exists>c out w1. inspect_command sample_identity = Inr c \<and> sample_run c (from_secs 6) 0 = (Inr out, w1)"
proof -
  let ?r = "cleanup_owned_instance sample_decoder (\<lambda>_. Inl []) sample_run sample_identity 0"
  have "fst ?r = Inr ()" by (simp add: sample_defs)
  then have e: "?r = (Inr (), snd ?r)" by (simp add: prod_eq_iff)
  have n: "i_runtime sample_identity \<noteq> OrbStack" by (simp add: sample_identity_def)
  from cleanup_ok_means_gone [OF e n] show ?thesis by blast
qed

end
