(* ===== verification/Profile_Leases.thy ===== *)
theory Profile_Leases
  imports Profile_Identity
begin

text \<open>
  \<open>src/profile_activity.rs\<close> and \<open>src/lifecycle_producers.rs\<close>: three process-wide
  registries guarded by one mutex each, so that every method is one atomic step. The
  reservation of a runtime identity (a runtime and a container name) belongs to one
  attempt at a time; a profile activity lease blocks the deletion of its profile; a
  producer lease counts the workers that may still hand over resources while the
  application closes. Each is a provider of the ledger interface.
\<close>

subsection \<open>Runtime identity reservations\<close>

type_synonym runtime_name = "string \<times> string"
type_synonym owner = "profile_id \<times> nat"

record runtime_reservation =
  res_key :: runtime_name
  res_owner :: owner

type_synonym identity_table = "runtime_name \<rightharpoonup> owner"

definition runtime_key :: "string \<Rightarrow> string" where
  "runtime_key runtime =
     (let r = trim runtime in
      if r = ''apple'' \<or> r = ''apple-container'' then ''container''
      else if r = ''orbstack'' then ''orb''
      else r)"

datatype reserve_error = UnsavedProfile | IdentityReserved string

definition reserve_identity ::
  "profile_id \<Rightarrow> nat \<Rightarrow> string \<Rightarrow> string \<Rightarrow> identity_table
    \<Rightarrow> reserve_error + (runtime_reservation \<times> identity_table)" where
  "reserve_identity i generation runtime name identities =
     (if \<not> is_saved i then Inl UnsavedProfile
      else let key = (runtime_key runtime, name) in
        if identities key \<noteq> None then Inl (IdentityReserved name)
        else Inr (\<lparr>res_key = key, res_owner = (i, generation)\<rparr>,
                  identities(key \<mapsto> (i, generation))))"

definition identity_reserved_by_other ::
  "string \<Rightarrow> string \<Rightarrow> profile_id option \<Rightarrow> identity_table \<Rightarrow> bool" where
  "identity_reserved_by_other runtime name replacing identities =
     (case identities (runtime_key runtime, name) of
        None \<Rightarrow> False
      | Some (i, _) \<Rightarrow> replacing \<noteq> Some i)"

definition drop_reservation :: "runtime_reservation \<Rightarrow> identity_table \<Rightarrow> identity_table" where
  "drop_reservation r identities =
     (if identities (res_key r) = Some (res_owner r)
      then identities(res_key r := None) else identities)"

subsection \<open>Profile activity leases\<close>

type_synonym activity_table = "profile_id \<rightharpoonup> nat"

text \<open>\<open>None\<close>: the assertion that the identity is saved fails and the call panics.\<close>

definition activity_begin :: "profile_id \<Rightarrow> activity_table \<Rightarrow> (profile_id \<times> activity_table) option" where
  "activity_begin i operations =
     (if is_saved i
      then Some (i, operations(i \<mapsto> (case operations i of None \<Rightarrow> 0 | Some n \<Rightarrow> n) + 1))
      else None)"

definition activity_drop :: "profile_id \<Rightarrow> activity_table \<Rightarrow> activity_table" where
  "activity_drop i operations =
     (case operations i of
        None \<Rightarrow> operations
      | Some n \<Rightarrow>
          if n - 1 = 0 then operations(i := None) else operations(i \<mapsto> n - 1))"

text \<open>
  The deletion gate: \<open>operation\<close> runs under the registry's lock, and only while the profile
  has no lease; its result is returned. \<open>Inl None\<close> is the refusal.
\<close>

definition while_inactive ::
  "profile_id \<Rightarrow> ('w \<Rightarrow> (string + 'a) \<times> 'w) \<Rightarrow> activity_table \<Rightarrow> 'w
    \<Rightarrow> (string option + 'a) \<times> 'w" where
  "while_inactive i operation operations w =
     (if (case operations i of None \<Rightarrow> 0 | Some n \<Rightarrow> n) \<noteq> 0 then (Inl None, w)
      else case operation w of (r, w') \<Rightarrow> (map_sum Some id r, w'))"

subsection \<open>Producer leases\<close>

record producers =
  closing :: bool
  active :: nat

definition producers_default :: producers where
  "producers_default = \<lparr>closing = False, active = 0\<rparr>"

definition producers_begin :: "producers \<Rightarrow> producers option" where
  "producers_begin s = (if closing s then None else Some (s\<lparr>active := active s + 1\<rparr>))"

definition producers_close :: "producers \<Rightarrow> producers" where
  "producers_close s = s\<lparr>closing := True\<rparr>"

text \<open>\<open>send\<close> is a nonblocking operation on the world \<open>'w\<close>; it runs under the lock.\<close>

definition producers_admit ::
  "'t \<Rightarrow> ('t \<Rightarrow> 'w \<Rightarrow> 'r \<times> 'w) \<Rightarrow> producers \<Rightarrow> 'w \<Rightarrow> ('t + 'r) \<times> 'w" where
  "producers_admit message send s w =
     (if closing s then (Inl message, w)
      else case send message w of (r, w') \<Rightarrow> (Inr r, w'))"

definition producer_lease_drop :: "producers \<Rightarrow> producers" where
  "producer_lease_drop s = s\<lparr>active := active s - 1\<rparr>"

subsection \<open>The registries are ledgers\<close>

text \<open>
  A request to the identity table and what the table means: the reservations outstanding
  have distinct keys, and the table holds exactly them.
\<close>

definition identity_reserve ::
  "profile_id \<times> nat \<times> string \<times> string \<Rightarrow> identity_table
    \<Rightarrow> runtime_reservation option \<times> identity_table" where
  "identity_reserve r t =
     (case r of (i, g, runtime, name) \<Rightarrow>
        (case reserve_identity i g runtime name t of
           Inl _ \<Rightarrow> (None, t) | Inr (p, t') \<Rightarrow> (Some p, t')))"

definition identities_accounted :: "identity_table \<Rightarrow> runtime_reservation list \<Rightarrow> bool" where
  "identities_accounted t ps \<longleftrightarrow>
     distinct (map res_key ps) \<and> t = map_of (map (\<lambda>p. (res_key p, res_owner p)) ps)"

text \<open>A panicking \<open>begin\<close> leaves the table as it was.\<close>

definition activity_reserve :: "profile_id \<Rightarrow> activity_table \<Rightarrow> profile_id option \<times> activity_table" where
  "activity_reserve i t =
     (case activity_begin i t of None \<Rightarrow> (None, t) | Some (p, t') \<Rightarrow> (Some p, t'))"

definition activity_accounted :: "activity_table \<Rightarrow> profile_id list \<Rightarrow> bool" where
  "activity_accounted t ps \<longleftrightarrow>
     t = (\<lambda>i. if count_list ps i = 0 then None else Some (count_list ps i))"

definition producers_reserve :: "unit \<Rightarrow> producers \<Rightarrow> unit option \<times> producers" where
  "producers_reserve _ s =
     (case producers_begin s of None \<Rightarrow> (None, s) | Some s' \<Rightarrow> (Some (), s'))"

definition producers_accounted :: "producers \<Rightarrow> unit list \<Rightarrow> bool" where
  "producers_accounted s ps \<longleftrightarrow> active s = length ps"

lemma identity_reserve_cases:
  assumes "identity_reserve r t = (Some p, t')"
  obtains i g runtime name where "r = (i, g, runtime, name)" "is_saved i"
    "t (res_key p) = None" "p = \<lparr>res_key = (runtime_key runtime, name), res_owner = (i, g)\<rparr>"
    "t' = t(res_key p \<mapsto> res_owner p)"
proof -
  obtain i g runtime name where r: "r = (i, g, runtime, name)" by (cases r) auto
  with assms have "reserve_identity i g runtime name t = Inr (p, t')"
    by (auto simp: identity_reserve_def split: sum.splits)
  then have "is_saved i" "t (runtime_key runtime, name) = None"
      "p = \<lparr>res_key = (runtime_key runtime, name), res_owner = (i, g)\<rparr>"
      "t' = t((runtime_key runtime, name) \<mapsto> (i, g))"
    by (auto simp: reserve_identity_def Let_def simp del: not_None_eq split: if_splits)
  with r that show ?thesis by simp
qed

lemma map_of_remove1_key:
  assumes "p \<in> set ps" "distinct (map res_key ps)"
  shows "map_of (map (\<lambda>p. (res_key p, res_owner p)) (remove1 p ps))
    = (map_of (map (\<lambda>p. (res_key p, res_owner p)) ps))(res_key p := None)"
  using assms
proof (induction ps)
  case (Cons q ps)
  show ?case
  proof (cases "p = q")
    case True
    with Cons.prems have "res_key q \<notin> set (map res_key ps)" by simp
    then have "map_of (map (\<lambda>p. (res_key p, res_owner p)) ps) (res_key q) = None"
      by (auto simp: map_of_eq_None_iff image_iff)
    with True show ?thesis by (auto simp: fun_eq_iff)
  next
    case False
    with Cons.prems have "p \<in> set ps" by simp
    moreover from this have "res_key p \<in> res_key ` set ps" by (rule imageI)
    with Cons.prems have "res_key p \<noteq> res_key q" by auto
    ultimately show ?thesis using Cons False by (intro ext) simp
  qed
qed simp

lemma map_of_reservation:
  "p \<in> set ps \<Longrightarrow> distinct (map res_key ps) \<Longrightarrow>
   map_of (map (\<lambda>p. (res_key p, res_owner p)) ps) (res_key p) = Some (res_owner p)"
proof (induction ps)
  case (Cons q ps)
  show ?case
  proof (cases "p = q")
    case False
    with Cons.prems have "p \<in> set ps" by simp
    moreover from this have "res_key p \<in> res_key ` set ps" by (rule imageI)
    with Cons.prems have "res_key p \<noteq> res_key q" by auto
    ultimately show ?thesis using Cons by simp
  qed simp
qed simp

interpretation identity_ledger: admission_ledger identity_reserve drop_reservation identities_accounted
proof (unfold_locales, goal_cases)
  case (1 t ps r p t')
  from 1(2) show ?case
  proof (rule identity_reserve_cases)
    fix i g runtime name
    assume none: "t (res_key p) = None" and t': "t' = t(res_key p \<mapsto> res_owner p)"
    from 1(1) none have "res_key p \<notin> res_key ` set ps"
      by (auto simp: identities_accounted_def map_of_eq_None_iff image_image)
    with 1(1) t' show ?case by (simp add: identities_accounted_def)
  qed
next
  case (2 t ps r t')
  then show ?case
    by (auto simp: identity_reserve_def split: prod.splits sum.splits)
next
  case (3 t ps p)
  then show ?case
    by (auto simp: identities_accounted_def drop_reservation_def map_of_remove1_key
        map_of_reservation distinct_map inj_on_def dest: notin_set_remove1)
qed

lemma count_list_remove1:
  "p \<in> set ps \<Longrightarrow> count_list (remove1 p ps) i = count_list ps i - (if i = p then 1 else 0)"
proof (induction ps)
  case (Cons q ps)
  then show ?case using count_list_0_iff [of ps p] by (auto split: if_splits)
qed simp

lemma count_list_pos: "p \<in> set ps \<Longrightarrow> 0 < count_list ps p"
  using count_list_0_iff [of ps p] by (metis gr0I)

interpretation activity_ledger: admission_ledger activity_reserve activity_drop activity_accounted
proof (unfold_locales, goal_cases)
  case (1 t ps r p t')
  then show ?case by (auto simp: activity_accounted_def activity_reserve_def activity_begin_def split: if_splits)
next
  case (2 t ps r t')
  then show ?case by (auto simp: activity_reserve_def split: option.splits prod.splits)
next
  case (3 t ps p)
  then show ?case
    using count_list_pos [OF 3(2)]
    by (auto simp: activity_accounted_def activity_drop_def count_list_remove1 fun_eq_iff)
qed

interpretation producer_ledger: admission_ledger producers_reserve "\<lambda>_. producer_lease_drop" producers_accounted
  by unfold_locales
    (auto simp: producers_reserve_def producers_begin_def producers_accounted_def
      producer_lease_drop_def length_remove1 split: if_splits)

subsection \<open>Properties\<close>

text \<open>
  whatever the order of reservations and drops, the identity table holds exactly the
  reservations outstanding and no two of them are for the same runtime and name, so two
  attempts never own one container identity.
\<close>

theorem reservations_exclusive:
  "case ledger_run identity_reserve drop_reservation ops (Map.empty, []) of (t, ps) \<Rightarrow>
     distinct (map res_key ps) \<and>
     t = map_of (map (\<lambda>p. (res_key p, res_owner p)) ps)"
  using identity_ledger.run_accounted [of "(Map.empty, [])" ops]
  by (simp add: identities_accounted_def split_beta)

text \<open>
  The aliases of one runtime share their reservations: whoever holds the identity under one
  spelling makes the request under the other spelling fail.
\<close>

lemma runtime_key_aliases:
  "runtime_key ''apple'' = runtime_key ''container''"
  "runtime_key ''apple-container'' = runtime_key ''container''"
  "runtime_key ''orbstack'' = runtime_key ''orb''"
  by (simp_all add: runtime_key_def trim_def is_space_def)

text \<open>
  a profile can be deleted (the guarded operation runs, and its result is what is
  returned) exactly when no lease of that profile is outstanding, after any sequence of
  lease acquisitions and drops, on this profile and on others.
\<close>

theorem while_inactive_exact:
  "case ledger_run activity_reserve activity_drop ops (Map.empty, []) of (t, ps) \<Rightarrow>
     while_inactive i operation t w =
       (if i \<in> set ps then (Inl None, w)
        else (map_sum Some id (fst (operation w)), snd (operation w)))"
  using activity_ledger.run_accounted [of "(Map.empty, [])" ops]
  by (auto simp: activity_accounted_def while_inactive_def split_beta count_list_0_iff
      split: if_splits)

lemma closed_step:
  assumes "closing (fst sp)"
  shows "closing (fst (ledger_step producers_reserve (\<lambda>_. producer_lease_drop) opn sp))
    \<and> active (fst (ledger_step producers_reserve (\<lambda>_. producer_lease_drop) opn sp)) \<le> active (fst sp)"
  using assms
  by (cases sp; cases opn)
    (auto simp: producers_reserve_def producers_begin_def producer_lease_drop_def)

text \<open>
  once the producers are closed they stay closed, no lease is ever granted and no
  message admitted again, and the count of active producers only falls, being at every
  moment the number of leases outstanding.
\<close>

theorem producers_closed_drain:
  assumes "producers_accounted s ps" and "closing s"
  shows "case ledger_run producers_reserve (\<lambda>_. producer_lease_drop) ops (s, ps) of (s', ps') \<Rightarrow>
     closing s' \<and> active s' = length ps' \<and> active s' \<le> active s
     \<and> producers_begin s' = None \<and> producers_admit message send s' w = (Inl message, w)"
proof -
  let ?run = "ledger_run producers_reserve (\<lambda>_. producer_lease_drop)"
  have "closing (fst (?run ops sp)) \<and> active (fst (?run ops sp)) \<le> active (fst sp)"
    if "closing (fst sp)" for sp
    using that
  proof (induction ops arbitrary: sp)
    case (Cons opn ops)
    let ?sp = "ledger_step producers_reserve (\<lambda>_. producer_lease_drop) opn sp"
    note one = closed_step [OF Cons.prems, of opn]
    with Cons.IH [of ?sp] have "closing (fst (?run ops ?sp))"
      "active (fst (?run ops ?sp)) \<le> active (fst sp)" by auto
    then show ?case by (simp add: ledger_run_def)
  qed (simp add: ledger_run_def)
  from this [of "(s, ps)"] assms(2) have "closing (fst (?run ops (s, ps)))"
    "active (fst (?run ops (s, ps))) \<le> active s" by auto
  moreover have "producers_accounted (fst (?run ops (s, ps))) (snd (?run ops (s, ps)))"
    by (rule producer_ledger.run_accounted) (simp add: assms(1))
  ultimately show ?thesis
    by (simp add: split_beta producers_accounted_def producers_begin_def producers_admit_def)
qed

theorem producers_closed_drain_witness:
  "case ledger_run producers_reserve (\<lambda>_. producer_lease_drop) [Reserve (), Release (), Reserve ()]
      (\<lparr>closing = True, active = 2\<rparr>, [(), ()]) of (s', ps') \<Rightarrow>
     closing s' \<and> active s' = length ps' \<and> active s' \<le> 2
     \<and> producers_begin s' = None
     \<and> producers_admit (7::nat) (\<lambda>m (w::nat). (m, w + m)) s' 0 = (Inl 7, 0)"
proof -
  have a: "producers_accounted \<lparr>closing = True, active = 2\<rparr> [(), ()]"
    by (simp add: producers_accounted_def)
  have c: "closing \<lparr>closing = True, active = 2\<rparr>" by simp
  show ?thesis
    using producers_closed_drain [OF a c, where ops = "[Reserve (), Release (), Reserve ()]"
        and message = "7::nat" and send = "\<lambda>m (w::nat). (m, w + m)" and w = 0]
    by simp
qed

end
