(* ===== verification/Event_Loop.thy ===== *)
theory Event_Loop
  imports Prelude
begin

text \<open>
  \<open>src/event_loop_signal.rs\<close> and \<open>src/event_turn.rs\<close>: the queue that background workers
  and native callbacks use to reach the event loop, and the budget that decides how much
  of it one native turn may consume. Every atomic access of the source is one operation
  here; the step relation \<open>signal_step\<close> interleaves the senders, the event loop and the
  shutdown of the receiver at that granularity.
\<close>

subsection \<open>The channel\<close>

text \<open>
  \<open>queue\<close> is the contents of the \<open>mpsc\<close> channel and \<open>receiver_alive\<close> whether its receiver
  exists; \<open>messages\<close>, \<open>notification\<close> and \<open>disconnected\<close> are the fields of \<open>PendingWake\<close>;
  \<open>wakes\<close> counts the calls of the wake callback.
\<close>

record 'm channel =
  queue :: "'m list"
  receiver_alive :: bool
  messages :: nat
  notification :: bool
  disconnected :: bool
  wakes :: nat

definition MAX_PENDING_WORKER_MESSAGES :: nat where
  "MAX_PENDING_WORKER_MESSAGES = 256"

definition channel_with_waker :: "'m channel" where
  "channel_with_waker =
     \<lparr>queue = [], receiver_alive = True, messages = 0, notification = False,
      disconnected = False, wakes = 0\<rparr>"

text \<open>\<open>Receiver::drop\<close> publishes the flag; the fields, and with them the queue, go afterwards.\<close>

definition receiver_drop_flag :: "'m channel \<Rightarrow> 'm channel" where
  "receiver_drop_flag c = c\<lparr>disconnected := True\<rparr>"

definition receiver_drop_fields :: "'m channel \<Rightarrow> 'm channel" where
  "receiver_drop_fields c = c\<lparr>receiver_alive := False, queue := []\<rparr>"

definition try_recv :: "'m channel \<Rightarrow> 'm option \<times> 'm channel" where
  "try_recv c = (case queue c of [] \<Rightarrow> (None, c) | m # ms \<Rightarrow> (Some m, c\<lparr>queue := ms\<rparr>))"

text \<open>\<open>None\<close>: the call panics, there is no pending message.\<close>

definition message_received :: "'m channel \<Rightarrow> 'm channel option" where
  "message_received c = (if messages c = 0 then None else Some (c\<lparr>messages := messages c - 1\<rparr>))"

definition finish_turn :: "'m channel \<Rightarrow> bool \<times> 'm channel" where
  "finish_turn c = (messages c \<noteq> 0, c\<lparr>notification := False\<rparr>)"

text \<open>
  \<open>send_reserved\<close> runs after the message has been counted. Its three atomic accesses: the
  push (or the failure of the push, which gives the count back), and the swap of the
  notification flag that decides the wake.
\<close>

definition push_message :: "'m \<Rightarrow> 'm channel \<Rightarrow> 'm channel option" where
  "push_message m c = (if receiver_alive c then Some (c\<lparr>queue := queue c @ [m]\<rparr>) else None)"

definition notify_once :: "'m channel \<Rightarrow> 'm channel" where
  "notify_once c =
     (if notification c then c else c\<lparr>notification := True, wakes := wakes c + 1\<rparr>)"

definition send_reserved :: "'m \<Rightarrow> 'm channel \<Rightarrow> ('m + unit) \<times> 'm channel option" where
  "send_reserved m c =
     (case push_message m c of
        None \<Rightarrow> (Inl m, message_received c)
      | Some c' \<Rightarrow> (Inr (), Some (notify_once c')))"

definition count_message :: "'m channel \<Rightarrow> 'm channel" where
  "count_message c = c\<lparr>messages := messages c + 1\<rparr>"

subsection \<open>Admission of worker messages\<close>

datatype 'm send_timeout_error = Timeout 'm | Disconnected 'm

datatype 'm admission = Refused "'m send_timeout_error" | Admitted | Waiting

text \<open>
  One pass of the loop of \<open>send_admitted\<close>, under the admission lock: the channel as it is,
  the time since the call started at the deadline test and at the wait.
\<close>

definition admission_pass ::
  "'m \<Rightarrow> duration option \<Rightarrow> duration \<Rightarrow> duration \<Rightarrow> 'm channel \<Rightarrow> 'm admission \<times> 'm channel" where
  "admission_pass m timeout elapsed elapsed' c =
     (if disconnected c then (Refused (Disconnected m), c)
      else if (case timeout of None \<Rightarrow> False | Some t \<Rightarrow> t \<noteq> 0 \<and> elapsed \<ge> t)
        then (Refused (Timeout m), c)
      else if messages c < MAX_PENDING_WORKER_MESSAGES then (Admitted, count_message c)
      else if (case timeout of None \<Rightarrow> False | Some t \<Rightarrow> t < elapsed')
        then (Refused (Timeout m), c)
      else (Waiting, c))"

text \<open>
  The loop: each element of \<open>passes\<close> is what one pass finds when it holds the lock, the
  first at the call and each later one after the condition variable wakes. \<open>Waiting\<close> with
  no pass left: the sender is still asleep.
\<close>

fun send_admitted ::
  "'m \<Rightarrow> duration option \<Rightarrow> (duration \<times> duration \<times> 'm channel) list
    \<Rightarrow> 'm admission \<times> 'm channel option" where
  "send_admitted m timeout [] = (Waiting, None)"
| "send_admitted m timeout ((e, e', c) # passes) =
     (case admission_pass m timeout e e' c of
        (Waiting, _) \<Rightarrow> send_admitted m timeout passes
      | (a, c') \<Rightarrow> (a, Some c'))"

text \<open>
  \<open>send_timeout\<close>, \<open>try_send\<close> and \<open>send\<close>. The outcome \<open>None\<close> is a sender still asleep after the
  passes given. The reserved send follows its admission at once here; the step relation
  below lets other threads act in between.
\<close>

definition finish_admitted ::
  "'m \<Rightarrow> 'm admission \<times> 'm channel option \<Rightarrow> ('m send_timeout_error + unit) option \<times> 'm channel option" where
  "finish_admitted m r =
     (case r of
        (Admitted, Some c) \<Rightarrow>
          (case send_reserved m c of
             (Inl m', c') \<Rightarrow> (Some (Inl (Disconnected m')), c')
           | (Inr _, c') \<Rightarrow> (Some (Inr ()), c'))
      | (Refused e, c) \<Rightarrow> (Some (Inl e), c)
      | (_, c) \<Rightarrow> (None, c))"

definition send_timeout ::
  "'m \<Rightarrow> duration \<Rightarrow> (duration \<times> duration \<times> 'm channel) list
    \<Rightarrow> ('m send_timeout_error + unit) option \<times> 'm channel option" where
  "send_timeout m timeout passes = finish_admitted m (send_admitted m (Some timeout) passes)"

datatype 'm try_send_error = Full 'm | TryDisconnected 'm

fun try_send_error_of :: "'m send_timeout_error \<Rightarrow> 'm try_send_error" where
  "try_send_error_of (Timeout m) = Full m"
| "try_send_error_of (Disconnected m) = TryDisconnected m"

definition try_send ::
  "'m \<Rightarrow> (duration \<times> duration \<times> 'm channel) list
    \<Rightarrow> ('m try_send_error + unit) option \<times> 'm channel option" where
  "try_send m passes =
     (case send_timeout m 0 passes of
        (r, c) \<Rightarrow> (map_option (map_sum try_send_error_of id) r, c))"

text \<open>
  \<open>send\<close>: the UI thread (and a sender with no UI thread) takes the lossless lane, which
  counts the message without a bound; any other thread is admitted with no deadline.
  \<open>Some (Inl None)\<close> would be the \<open>unreachable!\<close> branch.
\<close>

definition send ::
  "bool \<Rightarrow> 'm \<Rightarrow> (duration \<times> duration \<times> 'm channel) list \<Rightarrow> 'm channel
    \<Rightarrow> ('m option + unit) option \<times> 'm channel option" where
  "send other_thread m passes c =
     (if other_thread then
        (case finish_admitted m (send_admitted m None passes) of
           (r, c') \<Rightarrow>
             (map_option (map_sum (\<lambda>e. case e of Disconnected m' \<Rightarrow> Some m' | Timeout _ \<Rightarrow> None) id) r,
              c'))
      else
        (case send_reserved m (count_message c) of
           (r, c') \<Rightarrow> (Some (map_sum Some id r), c')))"

text \<open>The condition under which \<open>wait_for_capacity\<close> keeps waiting.\<close>

definition wait_for_capacity_waits :: "'m channel \<Rightarrow> bool" where
  "wait_for_capacity_waits c \<longleftrightarrow>
     \<not> disconnected c \<and> messages c \<ge> MAX_PENDING_WORKER_MESSAGES"

subsection \<open>Interleavings\<close>

text \<open>
  The channel together with the positions of the threads inside its operations:
  \<open>reserved\<close> messages have been counted and not pushed, \<open>unnotified\<close> senders have pushed
  and not swapped the flag, \<open>unreleased\<close> is the number of counts whose \<open>message_received\<close> is
  still to come (after a receive, or after a failed push). \<open>continuation\<close> is the last
  answer of \<open>finish_turn\<close>, on which the event loop sets a deadline for the next turn;
  \<open>woken\<close> tells whether a wake was issued since then. \<open>lost\<close> counts messages freed with
  the receiver and \<open>ui_sends\<close> the messages the UI lane has sent.
\<close>

record 'm signal =
  chan :: "'m channel"
  reserved :: "'m list"
  unnotified :: nat
  unreleased :: nat
  continuation :: bool
  woken :: bool
  lost :: nat
  ui_sends :: nat

definition signal_init :: "'m signal" where
  "signal_init =
     \<lparr>chan = channel_with_waker, reserved = [], unnotified = 0, unreleased = 0,
      continuation = False, woken = False, lost = 0, ui_sends = 0\<rparr>"

inductive signal_step :: "'m signal \<Rightarrow> 'm signal \<Rightarrow> bool" where
  ui_count:
    "signal_step s (s\<lparr>chan := count_message (chan s), reserved := m # reserved s,
                     ui_sends := ui_sends s + 1\<rparr>)"
| worker_admitted:
    "admission_pass m timeout e e' (chan s) = (Admitted, c) \<Longrightarrow>
     signal_step s (s\<lparr>chan := c, reserved := m # reserved s\<rparr>)"
| push:
    "m \<in> set (reserved s) \<Longrightarrow> push_message m (chan s) = Some c \<Longrightarrow>
     signal_step s (s\<lparr>chan := c, reserved := remove1 m (reserved s),
                     unnotified := unnotified s + 1\<rparr>)"
| push_fails:
    "m \<in> set (reserved s) \<Longrightarrow> push_message m (chan s) = None \<Longrightarrow>
     signal_step s (s\<lparr>reserved := remove1 m (reserved s), unreleased := unreleased s + 1\<rparr>)"
| notify:
    "0 < unnotified s \<Longrightarrow>
     signal_step s (s\<lparr>chan := notify_once (chan s), unnotified := unnotified s - 1,
                     woken := woken s \<or> \<not> notification (chan s)\<rparr>)"
| receive:
    "try_recv (chan s) = (Some m, c) \<Longrightarrow>
     signal_step s (s\<lparr>chan := c, unreleased := unreleased s + 1\<rparr>)"
| release:
    "0 < unreleased s \<Longrightarrow> message_received (chan s) = Some c \<Longrightarrow>
     signal_step s (s\<lparr>chan := c, unreleased := unreleased s - 1\<rparr>)"
| turn:
    "finish_turn (chan s) = (b, c) \<Longrightarrow>
     signal_step s (s\<lparr>chan := c, continuation := b, woken := False\<rparr>)"
| drop_flag:
    "signal_step s (s\<lparr>chan := receiver_drop_flag (chan s)\<rparr>)"
| drop_fields:
    "disconnected (chan s) \<Longrightarrow>
     signal_step s (s\<lparr>chan := receiver_drop_fields (chan s),
                     lost := lost s + length (queue (chan s))\<rparr>)"

inductive signal_reachable :: "'m signal \<Rightarrow> bool" where
  start: "signal_reachable signal_init"
| step: "signal_reachable s \<Longrightarrow> signal_step s t \<Longrightarrow> signal_reachable t"

lemmas signal_ops_defs =
  count_message_def admission_pass_def push_message_def notify_once_def try_recv_def
  message_received_def finish_turn_def receiver_drop_flag_def receiver_drop_fields_def

definition signal_inv :: "'m signal \<Rightarrow> bool" where
  "signal_inv s \<longleftrightarrow>
     messages (chan s)
       = length (queue (chan s)) + length (reserved s) + unreleased s + lost s
     \<and> (queue (chan s) \<noteq> [] \<longrightarrow>
          notification (chan s) \<or> continuation s \<or> 0 < unnotified s)
     \<and> notification (chan s) = woken s
     \<and> messages (chan s) \<le> MAX_PENDING_WORKER_MESSAGES + ui_sends s
     \<and> (\<not> receiver_alive (chan s) \<longrightarrow> queue (chan s) = [])"

lemma admission_pass_Admitted:
  "admission_pass m timeout e e' c = (Admitted, c') \<Longrightarrow>
   c' = count_message c \<and> messages c < MAX_PENDING_WORKER_MESSAGES \<and> \<not> disconnected c"
  by (auto simp: admission_pass_def split: if_splits)

lemma signal_step_inv [step_inv]: "signal_step s t \<Longrightarrow> signal_inv s \<Longrightarrow> signal_inv t"
proof (induction rule: signal_step.induct)
  case (worker_admitted m timeout e e' s c)
  then show ?case
    by (auto simp: signal_inv_def count_message_def dest: admission_pass_Admitted)
next
  case (push m s c)
  then show ?case
    using length_remove1_less [OF push(1)]
    by (auto simp: signal_inv_def push_message_def split: if_splits)
next
  case (push_fails m s)
  then show ?case
    using length_remove1_less [OF push_fails(1)] by (auto simp: signal_inv_def)
qed (auto simp: signal_inv_def signal_ops_defs split: list.splits if_splits)

lemma signal_reachable_inv: "signal_reachable s \<Longrightarrow> signal_inv s"
  by (induction rule: signal_reachable.induct)
    (auto simp: signal_inv_def signal_init_def channel_with_waker_def dest: signal_step_inv)

subsection \<open>Properties of the channel\<close>


definition sample_signal :: "nat signal" where
  "sample_signal = \<lparr>chan = \<lparr>queue = [7], receiver_alive = True, messages = 1,
     notification = True, disconnected = False, wakes = 1\<rparr>, reserved = [], unnotified = 0,
     unreleased = 0, continuation = False, woken = True, lost = 0, ui_sends = 1\<rparr>"

lemma sample_signal_reachable: "signal_reachable sample_signal"
proof -
  let ?s1 = "signal_init\<lparr>chan := count_message (chan signal_init), reserved := [7::nat],
      ui_sends := 1\<rparr>"
  have s1: "signal_reachable ?s1"
    using signal_reachable.step [OF signal_reachable.start signal_step.ui_count [of _ "7::nat"]]
    by (simp add: signal_init_def)
  let ?s2 = "?s1\<lparr>chan := (chan ?s1)\<lparr>queue := [7]\<rparr>, reserved := [], unnotified := 1\<rparr>"
  have s2: "signal_reachable ?s2"
    using signal_reachable.step [OF s1 signal_step.push [of 7 ?s1 "(chan ?s1)\<lparr>queue := [7]\<rparr>"]]
    by (simp add: push_message_def signal_init_def channel_with_waker_def count_message_def)
  show ?thesis
    using signal_reachable.step [OF s2 signal_step.notify [of ?s2]]
    by (simp add: sample_signal_def notify_once_def signal_init_def channel_with_waker_def
        count_message_def)
qed


text \<open>
  the pending count is exact (the queued messages, those between their count and their
  push, those received whose release is still to come, and those freed with the receiver),
  so that \<open>message_received\<close> never panics when it is due; and workers never take the count
  past 256 beyond what the UI lane itself has sent.
\<close>

theorem pending_count_exact:
  assumes "signal_reachable s"
  shows "messages (chan s)
      = length (queue (chan s)) + length (reserved s) + unreleased s + lost s
    \<and> (0 < unreleased s \<longrightarrow> message_received (chan s) \<noteq> None)
    \<and> messages (chan s) \<le> 256 + ui_sends s"
  using signal_reachable_inv [OF assms]
  by (auto simp: signal_inv_def message_received_def MAX_PENDING_WORKER_MESSAGES_def)

theorem pending_count_exact_witness:
  "messages (chan sample_signal) = 1 \<and> messages (chan sample_signal) \<le> 256 + ui_sends sample_signal"
  using pending_count_exact [OF sample_signal_reachable] by (simp add: sample_signal_def)

text \<open>
  a worker's send decides without losing the message: the loop ends in admission only
  below 256 pending messages and with the receiver present, and in every other ending the
  original message is handed back, as a disconnection or as a timeout.
\<close>

theorem send_admitted_lossless:
  "send_admitted m timeout passes = (a, r) \<Longrightarrow>
   (a = Waiting \<and> r = None)
   \<or> (\<exists>e e' c. (e, e', c) \<in> set passes \<and>
        ((a = Admitted \<and> r = Some (count_message c) \<and> messages c < 256 \<and> \<not> disconnected c)
         \<or> (a = Refused (Disconnected m) \<and> r = Some c \<and> disconnected c)
         \<or> (a = Refused (Timeout m) \<and> r = Some c \<and> timeout \<noteq> None)))"
proof (induction m timeout passes rule: send_admitted.induct)
  case (2 m timeout e e' c passes)
  show ?case
  proof (cases "fst (admission_pass m timeout e e' c) = Waiting")
    case True
    then have "send_admitted m timeout ((e, e', c) # passes) = send_admitted m timeout passes"
      by (auto split: prod.splits)
    with 2 True show ?thesis by (cases "admission_pass m timeout e e' c") fastforce
  next
    case False
    then have "(a, r) = (fst (admission_pass m timeout e e' c),
        Some (snd (admission_pass m timeout e e' c)))"
      using "2.prems" by (cases "admission_pass m timeout e e' c") (auto split: admission.splits)
    with False show ?thesis
      by (auto simp: admission_pass_def MAX_PENDING_WORKER_MESSAGES_def
          split: if_splits option.splits)
  qed
qed auto

theorem send_admitted_lossless_witness:
  "send_admitted (5::nat) None [(0, 0, channel_with_waker)]
     = (Admitted, Some (count_message channel_with_waker))
   \<and> messages (channel_with_waker :: nat channel) < 256"
proof -
  have e: "send_admitted (5::nat) None [(0, 0, channel_with_waker)]
      = (Admitted, Some (count_message channel_with_waker))"
    by (simp add: admission_pass_def channel_with_waker_def MAX_PENDING_WORKER_MESSAGES_def)
  from send_admitted_lossless [OF e] e show ?thesis by auto
qed

text \<open>A send with no deadline never times out: the \<open>unreachable!\<close> of \<open>send\<close> is unreachable.\<close>

lemma send_without_deadline_never_times_out:
  "fst (send_admitted m None passes) \<noteq> Refused (Timeout m')"
  by (induction m "None :: duration option" passes rule: send_admitted.induct)
    (auto simp: admission_pass_def split: prod.splits admission.splits if_splits)

lemma finish_admitted_Timeout:
  assumes "fst (finish_admitted m r) = Some (Inl (Timeout m'))"
  shows "fst r = Refused (Timeout m')"
proof -
  obtain a c where r: "r = (a, c)" by (cases r)
  show ?thesis
  proof (cases a)
    case (Refused e)
    with assms r show ?thesis by (simp add: finish_admitted_def)
  next
    case Admitted
    show ?thesis
    proof (cases c)
      case None
      with assms r Admitted show ?thesis by (simp add: finish_admitted_def)
    next
      case (Some d)
      with assms r Admitted show ?thesis
        by (cases "push_message m d") (simp_all add: finish_admitted_def send_reserved_def)
    qed
  next
    case Waiting
    with assms r show ?thesis by (cases c) (simp_all add: finish_admitted_def)
  qed
qed

lemma send_unreachable_branch: "fst (send other m passes c) \<noteq> Some (Inl None)"
proof
  assume *: "fst (send other m passes c) = Some (Inl None)"
  show False
  proof (cases other)
    case True
    obtain r c' where fa: "finish_admitted m (send_admitted m None passes) = (r, c')"
      by fastforce
    from * True fa obtain m' where "r = Some (Inl (Timeout m'))"
      by (cases r; cases "the r")
        (auto simp: send_def split: send_timeout_error.splits)
    with fa finish_admitted_Timeout [of m "send_admitted m None passes" m'] show False
      by (simp add: send_without_deadline_never_times_out)
  next
    case False
    with * show False
      by (cases "fst (send_reserved m (count_message c))") (auto simp: send_def split_beta)
  qed
qed

subsection \<open>The budget of a native turn\<close>

record control_work_budget =
  input_turn :: bool
  deadline :: instant
  admitted :: nat

definition control_work_budget_new :: "bool \<Rightarrow> instant \<Rightarrow> control_work_budget" where
  "control_work_budget_new inp now =
     \<lparr>input_turn = inp, deadline = now + from_millis 2, admitted = 0\<rparr>"

definition admit :: "instant \<Rightarrow> control_work_budget \<Rightarrow> bool \<times> control_work_budget" where
  "admit now b =
     (if input_turn b \<or> admitted b = 64 \<or> now \<ge> deadline b then (False, b)
      else (True, b\<lparr>admitted := admitted b + 1\<rparr>))"

text \<open>The loop \<open>while budget.admit(now()) { handle }\<close>, at the given instants: how many run.\<close>

fun admitted_count :: "instant list \<Rightarrow> control_work_budget \<Rightarrow> nat" where
  "admitted_count [] b = 0"
| "admitted_count (now # nows) b =
     (case admit now b of (False, _) \<Rightarrow> 0 | (True, b') \<Rightarrow> Suc (admitted_count nows b'))"

lemma admitted_count_room: "admitted b \<le> 64 \<Longrightarrow> admitted_count nows b \<le> 64 - admitted b"
proof (induction nows arbitrary: b)
  case (Cons now nows)
  show ?case
  proof (cases "input_turn b \<or> admitted b = 64 \<or> now \<ge> deadline b")
    case False
    with Cons.prems have "admitted_count nows (b\<lparr>admitted := admitted b + 1\<rparr>) \<le> 63 - admitted b"
      using Cons.IH [of "b\<lparr>admitted := admitted b + 1\<rparr>"] by simp
    moreover from False Cons.prems have "admitted b < 64" by simp
    ultimately show ?thesis using False by (simp add: admit_def)
  qed (simp add: admit_def)
qed simp

lemma admitted_count_times: "admitted_count nows b \<le> length (takeWhile (\<lambda>t. t < deadline b) nows)"
proof (induction nows arbitrary: b)
  case (Cons now nows)
  show ?case
  proof (cases "input_turn b \<or> admitted b = 64 \<or> now \<ge> deadline b")
    case False
    with Cons.IH [of "b\<lparr>admitted := admitted b + 1\<rparr>"] show ?thesis by (simp add: admit_def)
  qed (simp add: admit_def)
qed simp

text \<open>
  one native turn starts at most 64 handlers and none once its two milliseconds are
  over, and a turn that carries input starts none.
\<close>

theorem control_work_bounded:
  "admitted_count nows (control_work_budget_new inp start)
     \<le> min (if inp then 0 else 64) (length (takeWhile (\<lambda>t. t < start + 2000000) nows))"
  using admitted_count_room [of "control_work_budget_new inp start" nows]
    admitted_count_times [of nows "control_work_budget_new inp start"]
  by (cases nows) (auto simp: control_work_budget_new_def admit_def)

end
