(* ===== verification/Session_Lifecycle.thy ===== *)
theory Session_Lifecycle
  imports Cleanup_Queue Container_Identity Profile_Leases Event_Loop
begin

text \<open>
  \<open>src/session_lifecycle.rs\<close> and \<open>src/shutdown.rs\<close>: what owns the processes of a running
  application. The event loop only polls and signals; every wait, inspection, deletion and
  directory removal is a bundle in the cleanup queue that keeps all its resources across
  failures. At shutdown the replies of late workers are drained into the same queue.

  The operating system is explicit: the \<open>n\<close>-th call may fail, and any child may have ended by
  then. User-interface records are a list of events.
\<close>

subsection \<open>Processes and directories\<close>

datatype proc = Alive | Exited string

datatype os_error = Esrch | NotFound | OsError string

fun show_os_error :: "os_error \<Rightarrow> string" where
  "show_os_error Esrch = ''No such process (os error 3)''"
| "show_os_error NotFound = ''No such file or directory (os error 2)''"
| "show_os_error (OsError e) = e"

record os =
  procs :: "nat \<Rightarrow> proc"
  dirs :: "string \<Rightarrow> bool"
  faults :: "nat \<Rightarrow> os_error option"
  exits :: "nat \<Rightarrow> (nat \<times> string) list"
  calls :: nat
  signalled :: "nat list"

definition exited :: "os \<Rightarrow> nat \<Rightarrow> bool" where
  "exited s c \<longleftrightarrow> procs s c \<noteq> Alive"

definition end_proc :: "nat \<Rightarrow> string \<Rightarrow> (nat \<Rightarrow> proc) \<Rightarrow> nat \<Rightarrow> proc" where
  "end_proc c st ps = ps(c := (case ps c of Alive \<Rightarrow> Exited st | Exited s \<Rightarrow> Exited s))"

definition os_call :: "os \<Rightarrow> os_error option \<times> os" where
  "os_call s =
     (faults s (calls s),
      s\<lparr>procs := fold (\<lambda>(c, st). end_proc c st) (exits s (calls s)) (procs s), calls := Suc (calls s)\<rparr>)"

definition try_wait :: "nat \<Rightarrow> os \<Rightarrow> (os_error + string option) \<times> os" where
  "try_wait c s =
     (case os_call s of
        (Some e, s') \<Rightarrow> (Inl e, s')
      | (None, s') \<Rightarrow> (Inr (case procs s' c of Alive \<Rightarrow> None | Exited st \<Rightarrow> Some st), s'))"

text \<open>\<open>SIGKILL\<close> cannot be refused; the exit is there at the latest when \<open>wait\<close> returns.\<close>

definition child_kill :: "nat \<Rightarrow> os \<Rightarrow> (os_error + unit) \<times> os" where
  "child_kill c s =
     (case os_call s of
        (Some e, s') \<Rightarrow> (Inl e, s')
      | (None, s') \<Rightarrow> (Inr (), s'\<lparr>signalled := signalled s' @ [c]\<rparr>))"

definition child_wait :: "nat \<Rightarrow> os \<Rightarrow> (os_error + unit) \<times> os" where
  "child_wait c s =
     (case os_call s of
        (Some e, s') \<Rightarrow> (Inl e, s')
      | (None, s') \<Rightarrow> (Inr (), s'\<lparr>procs := end_proc c ''signal: 9 (SIGKILL)'' (procs s')\<rparr>))"

definition terminate_child :: "nat \<Rightarrow> os \<Rightarrow> (string + unit) \<times> os" where
  "terminate_child c s =
     (case try_wait c s of
        (Inl e, s1) \<Rightarrow> (Inl (show_os_error e), s1)
      | (Inr (Some _), s1) \<Rightarrow> (Inr (), s1)
      | (Inr None, s1) \<Rightarrow>
          (case child_kill c s1 of
             (Inl e, s2) \<Rightarrow>
               (case try_wait c s2 of
                  (Inr (Some _), s3) \<Rightarrow> (Inr (), s3)
                | (_, s3) \<Rightarrow> (Inl (show_os_error e), s3))
           | (Inr _, s2) \<Rightarrow>
               (case child_wait c s2 of
                  (Inl e, s3) \<Rightarrow> (Inl (show_os_error e), s3)
                | (Inr _, s3) \<Rightarrow> (Inr (), s3))))"

definition request_child_exit :: "nat \<Rightarrow> os \<Rightarrow> (string + unit) \<times> os" where
  "request_child_exit c s =
     (case try_wait c s of
        (Inl e, s1) \<Rightarrow> (Inl (show_os_error e), s1)
      | (Inr (Some _), s1) \<Rightarrow> (Inr (), s1)
      | (Inr None, s1) \<Rightarrow>
          (case os_call s1 of
             (None, s2) \<Rightarrow> (Inr (), s2\<lparr>signalled := signalled s2 @ [c]\<rparr>)
           | (Some Esrch, s2) \<Rightarrow> (Inr (), s2)
           | (Some e, s2) \<Rightarrow> (Inl (show_os_error e), s2)))"

definition observed_exit :: "nat \<Rightarrow> string \<Rightarrow> os \<Rightarrow> (string \<times> string) option \<times> os" where
  "observed_exit c process s =
     (case try_wait c s of
        (Inr (Some st), s') \<Rightarrow> (Some (process, st), s')
      | (Inr None, s') \<Rightarrow> (None, s')
      | (Inl e, s') \<Rightarrow> (Some (process, ''monitor error: '' @ show_os_error e), s'))"

text \<open>\<open>remove_dir_all\<close>; a directory that is not there counts as removed.\<close>

definition remove_runtime_directory :: "string \<Rightarrow> os \<Rightarrow> (string + unit) \<times> os" where
  "remove_runtime_directory path s =
     (if path = [] then (Inl ''Refusing to remove an empty runtime directory path'', s)
      else
        (case os_call s of
           (fault, s') \<Rightarrow>
             (case (if \<not> dirs s' path then Some NotFound else fault) of
                None \<Rightarrow> (Inr (), s'\<lparr>dirs := (dirs s')(path := False)\<rparr>)
              | Some NotFound \<Rightarrow> (Inr (), s'\<lparr>dirs := (dirs s')(path := False)\<rparr>)
              | Some e \<Rightarrow> (Inl (show_os_error e), s'))))"

subsection \<open>Resource bundles\<close>

record display_worker =
  w_child :: nat
  w_runtime_dir :: string

definition terminate_display_worker :: "display_worker \<Rightarrow> os \<Rightarrow> (string + unit) \<times> os" where
  "terminate_display_worker d s =
     (case terminate_child (w_child d) s of
        (Inl e, s') \<Rightarrow> (Inl e, s')
      | (Inr _, s') \<Rightarrow> remove_runtime_directory (w_runtime_dir d) s')"

record audio_worker =
  a_stop :: bool
  a_joined :: bool

definition audio_request_stop :: "audio_worker \<Rightarrow> audio_worker" where
  "audio_request_stop a = a\<lparr>a_stop := True\<rparr>"

definition audio_stop :: "audio_worker \<Rightarrow> audio_worker" where
  "audio_stop a = (audio_request_stop a)\<lparr>a_joined := True\<rparr>"

record active_session =
  s_profile :: profile_id
  s_identity :: owned_identity
  s_container :: "nat option"
  s_waypipe :: nat
  s_audio :: "audio_worker option"
  s_slot :: string
  s_display :: "display_worker option"
  s_stopping :: "instant option"
  s_force_offered :: bool

definition collect_error :: "string \<Rightarrow> string + unit \<Rightarrow> string list \<Rightarrow> string list" where
  "collect_error resource result errors =
     (case result of Inl e \<Rightarrow> errors @ [resource @ '': '' @ e] | Inr _ \<Rightarrow> errors)"

definition cleanup_result :: "string list \<Rightarrow> string + unit" where
  "cleanup_result errors = (if errors = [] then Inr () else Inl (join ''; '' errors))"

text \<open>One resource of a bundle, absent or present.\<close>

definition collect :: "string \<Rightarrow> (os \<Rightarrow> (string + unit) \<times> os) option \<Rightarrow> string list \<times> os \<Rightarrow> string list \<times> os" where
  "collect resource action es =
     (case action of
        None \<Rightarrow> es
      | Some f \<Rightarrow> (case f (snd es) of (r, s') \<Rightarrow> (collect_error resource r (fst es), s')))"

text \<open>\<open>owned\<close> is \<open>cleanup_owned_container_session\<close>: the cleanup of the container plus a log line.\<close>

definition cleanup_session_resources ::
  "(owned_identity \<Rightarrow> os \<Rightarrow> (string + unit) \<times> os) \<Rightarrow> active_session \<Rightarrow> os
    \<Rightarrow> (string + unit) \<times> active_session \<times> os" where
  "cleanup_session_resources owned x s =
     (let x1 = x\<lparr>s_audio := map_option audio_request_stop (s_audio x)\<rparr>;
          e1 = collect ''Waypipe'' (Some (terminate_child (s_waypipe x))) ([], s);
          e2 = collect ''container process'' (map_option terminate_child (s_container x)) e1;
          e3 = collect ''dedicated display'' (map_option terminate_display_worker (s_display x)) e2;
          e4 = collect ''owned container'' (Some (owned (s_identity x))) e3;
          x2 = x1\<lparr>s_audio := map_option audio_stop (s_audio x1)\<rparr>
      in (cleanup_result (fst e4), x2, snd e4))"

record launch_report =
  l_identity :: owned_identity
  l_container :: "nat option"
  l_waypipe :: nat

definition cleanup_launch_report ::
  "(owned_identity \<Rightarrow> os \<Rightarrow> (string + unit) \<times> os) \<Rightarrow> launch_report \<Rightarrow> os \<Rightarrow> (string + unit) \<times> os" where
  "cleanup_launch_report owned l s =
     (let e1 = collect ''Waypipe'' (Some (terminate_child (l_waypipe l))) ([], s);
          e2 = collect ''container process'' (map_option terminate_child (l_container l)) e1;
          e3 = collect ''owned container'' (Some (owned (l_identity l))) e2
      in (cleanup_result (fst e3), snd e3))"

definition cleanup_launch_resources ::
  "(owned_identity \<Rightarrow> os \<Rightarrow> (string + unit) \<times> os) \<Rightarrow> launch_report option \<Rightarrow> display_worker option \<Rightarrow> os
    \<Rightarrow> (string + unit) \<times> os" where
  "cleanup_launch_resources owned report worker s =
     (let e1 = (case report of
                  None \<Rightarrow> ([], s)
                | Some l \<Rightarrow>
                    (case cleanup_launch_report owned l s of
                       (Inl e, s') \<Rightarrow> ([e], s') | (Inr _, s') \<Rightarrow> ([], s')));
          e2 = collect ''dedicated display'' (map_option terminate_display_worker worker) e1
      in (cleanup_result (fst e2), snd e2))"

text \<open>A launch or a stop that is under way (\<open>PendingProfileOperation\<close> in \<open>src/main.rs\<close>).\<close>

record operation =
  o_generation :: nat
  o_session_id :: profile_id
  o_launch_requested :: bool
  o_cancelled :: bool

datatype owned_bundle =
  ClassicChild nat
| RuntimeDir string
| SessionBundle active_session string string
| DisplayBundle display_worker string "string option" "profile_id option"
| LaunchBundle profile_id "launch_report option" "display_worker option" "operation option"
| Remainders "display_worker list"

datatype ui =
  SessionLog profile_id string string
| StopFailure profile_id string
| StopProgress profile_id string string
| StopSuccess profile_id
| ProcessExit profile_id string string
| ForceStopAvailable profile_id
| LaunchCancelled profile_id string
| ManagedDisplayExit string string
| ManagedDisplayFailure string string

text \<open>
  The cleanup function of a bundle, as the worker thread runs it: the outcome and the bundle,
  which it keeps. \<open>producers\<close> is the number of producer leases at that moment.
\<close>

definition cleanup_remainders :: "nat \<Rightarrow> display_worker list \<Rightarrow> os \<Rightarrow> (string + unit) \<times> os" where
  "cleanup_remainders producers ws s =
     (if producers \<noteq> 0
      then (Inl ''Launch workers are still rolling back; retaining their identity leases'', s)
      else
        (case fold (\<lambda>d es. case terminate_display_worker d (snd es) of
                      (Inl e, s') \<Rightarrow> (fst es @ [e], s') | (Inr _, s') \<Rightarrow> (fst es, s')) ws ([], s) of
           (errors, s') \<Rightarrow> (cleanup_result errors, s')))"

fun bundle_cleanup ::
  "(owned_identity \<Rightarrow> os \<Rightarrow> (string + unit) \<times> os) \<Rightarrow> nat \<Rightarrow> owned_bundle \<Rightarrow> os
    \<Rightarrow> (string + unit) \<times> owned_bundle \<times> os" where
  "bundle_cleanup owned n (ClassicChild c) s =
     (case terminate_child c s of (r, s') \<Rightarrow> (r, ClassicChild c, s'))"
| "bundle_cleanup owned n (RuntimeDir p) s =
     (case remove_runtime_directory p s of (r, s') \<Rightarrow> (r, RuntimeDir p, s'))"
| "bundle_cleanup owned n (SessionBundle x process st) s =
     (case cleanup_session_resources owned x s of (r, x', s') \<Rightarrow> (r, SessionBundle x' process st, s'))"
| "bundle_cleanup owned n (DisplayBundle d slot reason failed) s =
     (case terminate_display_worker d s of (r, s') \<Rightarrow> (r, DisplayBundle d slot reason failed, s'))"
| "bundle_cleanup owned n (LaunchBundle i report worker op) s =
     (case cleanup_launch_resources owned report worker s of
        (r, s') \<Rightarrow> (r, LaunchBundle i report worker op, s'))"
| "bundle_cleanup owned n (Remainders ws) s =
     (case cleanup_remainders n ws s of (r, s') \<Rightarrow> (r, Remainders ws, s'))"

definition finish_reaped_container_session ::
  "profile_id \<Rightarrow> string \<Rightarrow> string \<Rightarrow> bool \<Rightarrow> bool \<Rightarrow> string + unit \<Rightarrow> ui list" where
  "finish_reaped_container_session i process st requested_stop had_display result =
     (case result of
        Inl e \<Rightarrow>
          [SessionLog i ''cleanup'' e,
           StopFailure i (''Owned resource cleanup failed; resources remain reserved for retry: '' @ e)]
      | Inr _ \<Rightarrow>
          if requested_stop then
            [StopProgress i ''Stop Waypipe worker''
               ''Waypipe worker exited and no longer owns the application transport'']
            @ (if had_display
               then [StopProgress i ''Release display'' ''Dedicated display resources were released'']
               else [])
            @ [StopProgress i ''Stop container''
                 ''Container process exited and named runtime resources were cleaned up'',
               StopProgress i ''Mark instance exited'' ''Application instance is no longer running'',
               StopSuccess i]
          else [ProcessExit i process st])"

definition complete_display_cleanup ::
  "string \<Rightarrow> string option \<Rightarrow> profile_id option \<Rightarrow> string + unit \<Rightarrow> ui list" where
  "complete_display_cleanup slot reason failed result =
     (case result of
        Inr _ \<Rightarrow> (case reason of None \<Rightarrow> [] | Some r \<Rightarrow> [ManagedDisplayExit slot r])
      | Inl e \<Rightarrow>
          (case failed of
             Some i \<Rightarrow>
               [StopFailure i (''Dedicated display cleanup failed; resources remain reserved for retry: '' @ e)]
           | None \<Rightarrow> if reason \<noteq> None then [ManagedDisplayFailure slot e] else []))"

definition complete_launch_cleanup ::
  "profile_id \<Rightarrow> operation option \<Rightarrow> string + unit \<Rightarrow> ui list" where
  "complete_launch_cleanup i op result =
     (case op of
        None \<Rightarrow> []
      | Some x \<Rightarrow>
          (case result of
             Inr _ \<Rightarrow>
               if o_cancelled x
               then [LaunchCancelled i ''Launch cancelled; owned runtime and display resources were released.'']
               else []
           | Inl e \<Rightarrow>
               [StopFailure i (''Launch rollback failed; resources remain reserved for retry: '' @ e)]))"

text \<open>The completion callbacks; those that only write a log line record nothing.\<close>

fun bundle_complete :: "owned_bundle \<Rightarrow> string + unit \<Rightarrow> ui list" where
  "bundle_complete (SessionBundle x process st) r =
     finish_reaped_container_session (s_profile x) process st (s_stopping x \<noteq> None) (s_display x \<noteq> None) r"
| "bundle_complete (DisplayBundle d slot reason failed) r = complete_display_cleanup slot reason failed r"
| "bundle_complete (LaunchBundle i report worker op) r = complete_launch_cleanup i op r"
| "bundle_complete _ r = []"

subsection \<open>The event loop's view\<close>

record managed_display =
  m_slot :: string
  m_worker :: display_worker

record sl =
  sl_active :: "active_session list"
  sl_displays :: "managed_display list"
  sl_life :: life
  sl_bundles :: "nat \<rightharpoonup> owned_bundle"
  sl_os :: os
  sl_ui :: "ui list"
  sl_activities :: activity_table

definition enqueue_bundle :: "key \<Rightarrow> owned_bundle \<Rightarrow> sl \<Rightarrow> sl" where
  "enqueue_bundle k b s =
     s\<lparr>sl_life := life_step (Enqueue k) (sl_life s),
       sl_bundles := (sl_bundles s)(next_job (sl_life s) \<mapsto> b)\<rparr>"

definition sl_now :: "sl \<Rightarrow> instant \<times> sl" where
  "sl_now s =
     (case read_clock (world (sl_life s)) of
        (t, w) \<Rightarrow> (t, s\<lparr>sl_life := (sl_life s)\<lparr>world := w\<rparr>\<rparr>))"

definition queue_classic_child :: "nat \<Rightarrow> sl \<Rightarrow> sl" where
  "queue_classic_child c s =
     enqueue_bundle Abandoned (ClassicChild c) (s\<lparr>sl_os := snd (request_child_exit c (sl_os s))\<rparr>)"

definition queue_runtime_directory_cleanup :: "string \<Rightarrow> sl \<Rightarrow> sl" where
  "queue_runtime_directory_cleanup path s = enqueue_bundle Abandoned (RuntimeDir path) s"

definition queue_session_cleanup :: "active_session \<Rightarrow> string \<Rightarrow> string \<Rightarrow> sl \<Rightarrow> sl" where
  "queue_session_cleanup x process st s =
     enqueue_bundle (Session (s_profile x) (s_slot x))
       (SessionBundle (x\<lparr>s_audio := map_option audio_request_stop (s_audio x)\<rparr>) process st) s"

definition enqueue_display_cleanup ::
  "display_worker \<Rightarrow> string \<Rightarrow> string option \<Rightarrow> profile_id option \<Rightarrow> sl \<Rightarrow> sl" where
  "enqueue_display_cleanup d slot reason failed s =
     enqueue_bundle (case failed of Some i \<Rightarrow> Session i slot | None \<Rightarrow> Display slot)
       (DisplayBundle d slot reason failed) s"

definition queue_display_cleanup :: "display_worker \<Rightarrow> string \<Rightarrow> bool \<Rightarrow> sl \<Rightarrow> sl" where
  "queue_display_cleanup d slot note s =
     enqueue_display_cleanup d slot (if note then Some ''closed by user'' else None) None s"

definition queue_failed_launch_display_cleanup :: "profile_id \<Rightarrow> string \<Rightarrow> display_worker \<Rightarrow> sl \<Rightarrow> sl" where
  "queue_failed_launch_display_cleanup i slot d s = enqueue_display_cleanup d slot None (Some i) s"

text \<open>\<open>None\<close>: the lease of an unsaved profile panics.\<close>

definition queue_launch_cleanup ::
  "profile_id \<Rightarrow> string \<Rightarrow> launch_report option \<Rightarrow> display_worker option \<Rightarrow> operation option \<Rightarrow> sl
    \<Rightarrow> sl option" where
  "queue_launch_cleanup i slot report worker op s =
     (case activity_begin i (sl_activities s) of
        None \<Rightarrow> None
      | Some (_, t) \<Rightarrow>
          Some (enqueue_bundle (Session i slot) (LaunchBundle i report worker op)
                  (s\<lparr>sl_activities := t\<rparr>)))"

definition request_graceful_container_stop :: "profile_id \<Rightarrow> sl \<Rightarrow> (string + unit) \<times> sl" where
  "request_graceful_container_stop i s =
     (case position (\<lambda>x. s_profile x = i) (sl_active s) of
        None \<Rightarrow> (Inl ''No active instance is tracked for this profile'', s)
      | Some p \<Rightarrow>
          (let x = sl_active s ! p in
           if s_stopping x \<noteq> None then (Inr (), s)
           else
             (let (now, s1) = sl_now s;
                  x' = x\<lparr>s_audio := map_option audio_request_stop (s_audio x),
                         s_stopping := Some now, s_force_offered := False\<rparr>;
                  e1 = collect ''Waypipe exit request'' (Some (request_child_exit (s_waypipe x)))
                         ([], sl_os s1);
                  e2 = collect ''container exit request'' (map_option request_child_exit (s_container x)) e1
              in (cleanup_result (fst e2),
                  s1\<lparr>sl_active := (sl_active s1)[p := x'], sl_os := snd e2\<rparr>))))"

definition stop_active_container_session :: "profile_id \<Rightarrow> sl \<Rightarrow> (string + unit) \<times> sl" where
  "stop_active_container_session i s =
     (case position (\<lambda>x. s_profile x = i) (sl_active s) of
        None \<Rightarrow> (Inl ''No active process is tracked for this session'', s)
      | Some p \<Rightarrow>
          (let x = sl_active s ! p;
               s1 = s\<lparr>sl_active := remove_at p (sl_active s)\<rparr>;
               (since, s2) = (case s_stopping x of Some t \<Rightarrow> (t, s1) | None \<Rightarrow> sl_now s1)
           in (Inr (), queue_session_cleanup (x\<lparr>s_stopping := Some since\<rparr>) ''application'' ''force stopped'' s2)))"

subsection \<open>Reaping\<close>

definition session_exit :: "active_session \<Rightarrow> os \<Rightarrow> (string \<times> string) option \<times> os" where
  "session_exit x s =
     (let (e1, s1) = (case s_display x of
                        None \<Rightarrow> (None, s) | Some d \<Rightarrow> observed_exit (w_child d) ''dedicated display'' s);
          (e2, s2) = (case (e1, s_container x) of
                        (None, Some c) \<Rightarrow> observed_exit c ''container'' s1 | _ \<Rightarrow> (e1, s1))
      in (case e2 of None \<Rightarrow> observed_exit (s_waypipe x) ''waypipe'' s2 | Some _ \<Rightarrow> (e2, s2)))"

definition offer_force_stop :: "active_session \<Rightarrow> sl \<Rightarrow> active_session \<times> sl" where
  "offer_force_stop x s =
     (case s_stopping x of
        None \<Rightarrow> (x, s)
      | Some since \<Rightarrow>
          (let (now, s1) = sl_now s in
           if from_secs 4 \<le> now - since \<and> \<not> s_force_offered x
           then (x\<lparr>s_force_offered := True\<rparr>, s1\<lparr>sl_ui := sl_ui s1 @ [ForceStopAvailable (s_profile x)]\<rparr>)
           else (x, s1)))"

text \<open>The loop over the active sessions: those kept, in order.\<close>

fun reap_sessions :: "active_session list \<Rightarrow> sl \<Rightarrow> active_session list \<times> sl" where
  "reap_sessions [] s = ([], s)"
| "reap_sessions (x # xs) s =
     (case session_exit x (sl_os s) of
        (Some (process, st), p) \<Rightarrow> reap_sessions xs (queue_session_cleanup x process st (s\<lparr>sl_os := p\<rparr>))
      | (None, p) \<Rightarrow>
          (let (x', s1) = offer_force_stop x (s\<lparr>sl_os := p\<rparr>);
               (kept, s2) = reap_sessions xs s1
           in (x' # kept, s2)))"

definition reap_exited_container_sessions :: "sl \<Rightarrow> sl" where
  "reap_exited_container_sessions s =
     (case reap_sessions (sl_active s) s of (kept, s') \<Rightarrow> s'\<lparr>sl_active := kept\<rparr>)"

definition stop_all :: "profile_id list \<Rightarrow> sl \<Rightarrow> sl" where
  "stop_all is s = fold (\<lambda>i s. snd (stop_active_container_session i s)) is s"

definition reap_display :: "managed_display \<Rightarrow> string \<Rightarrow> sl \<Rightarrow> sl" where
  "reap_display d reason s =
     (let affected = map s_profile (filter (\<lambda>x. s_slot x = m_slot d) (sl_active s))
      in enqueue_display_cleanup (m_worker d) (m_slot d) (Some reason) None (stop_all affected s))"

fun reap_displays :: "managed_display list \<Rightarrow> sl \<Rightarrow> managed_display list \<times> sl" where
  "reap_displays [] s = ([], s)"
| "reap_displays (d # ds) s =
     (case try_wait (w_child (m_worker d)) (sl_os s) of
        (Inr None, p) \<Rightarrow>
          (let (kept, s') = reap_displays ds (s\<lparr>sl_os := p\<rparr>) in (d # kept, s'))
      | (Inr (Some st), p) \<Rightarrow> reap_displays ds (reap_display d st (s\<lparr>sl_os := p\<rparr>))
      | (Inl e, p) \<Rightarrow>
          reap_displays ds (reap_display d (''monitor error: '' @ show_os_error e) (s\<lparr>sl_os := p\<rparr>)))"

definition reap_exited_managed_displays :: "sl \<Rightarrow> sl" where
  "reap_exited_managed_displays s =
     (case reap_displays (sl_displays s) s of (kept, s') \<Rightarrow> s'\<lparr>sl_displays := kept\<rparr>)"

subsection \<open>Shutdown\<close>

text \<open>The messages that own processes; every other one is \<open>OtherMessage\<close>.\<close>

datatype compositor_message =
  DedicatedDisplayStarted profile_id nat string display_worker
| ManagedDisplayStarted string display_worker
| ContainerSessionLaunchFinished profile_id nat string "string + launch_report"
| OtherMessage

type_synonym operations = "profile_id \<rightharpoonup> operation"

definition current_operation :: "operations \<Rightarrow> profile_id \<Rightarrow> nat \<Rightarrow> bool" where
  "current_operation ops i generation =
     (case ops i of None \<Rightarrow> False | Some x \<Rightarrow> o_session_id x = i \<and> o_generation x = generation)"

definition take_attempt :: "operations \<Rightarrow> profile_id \<Rightarrow> nat \<Rightarrow> operation option \<times> operations" where
  "take_attempt ops i generation =
     (if current_operation ops i generation then (ops i, ops(i := None)) else (None, ops))"

record drain =
  dr_channel :: "compositor_message channel"
  dr_operations :: operations
  dr_workers :: "profile_id \<rightharpoonup> display_worker"
  dr_sl :: sl

fun drain_message :: "compositor_message \<Rightarrow> drain \<Rightarrow> drain option" where
  "drain_message (DedicatedDisplayStarted i generation slot worker) d =
     (case take_attempt (dr_operations d) i generation of
        (op, ops) \<Rightarrow>
          map_option (\<lambda>s. d\<lparr>dr_operations := ops, dr_sl := s\<rparr>)
            (queue_launch_cleanup i slot None (Some worker) op (dr_sl d)))"
| "drain_message (ManagedDisplayStarted slot worker) d =
     Some (d\<lparr>dr_sl := queue_display_cleanup worker slot False (dr_sl d)\<rparr>)"
| "drain_message (ContainerSessionLaunchFinished i generation slot result) d =
     (case take_attempt (dr_operations d) i generation of
        (op, ops) \<Rightarrow>
          (let worker = (if op = None then None else dr_workers d i);
               workers = (if op = None then dr_workers d else (dr_workers d)(i := None));
               report = (case result of Inl _ \<Rightarrow> None | Inr l \<Rightarrow> Some l)
           in map_option (\<lambda>s. d\<lparr>dr_operations := ops, dr_workers := workers, dr_sl := s\<rparr>)
                (queue_launch_cleanup i slot report worker op (dr_sl d))))"
| "drain_message OtherMessage d = Some d"

text \<open>At most \<open>n\<close> messages; \<open>None\<close> is a panic, of \<open>message_received\<close> or of the lease.\<close>

fun drain_loop :: "nat \<Rightarrow> drain \<Rightarrow> (nat \<times> drain) option" where
  "drain_loop 0 d = Some (0, d)"
| "drain_loop (Suc n) d =
     (case try_recv (dr_channel d) of
        (None, _) \<Rightarrow> Some (0, d)
      | (Some m, c1) \<Rightarrow>
          (case message_received c1 of
             None \<Rightarrow> None
           | Some c2 \<Rightarrow>
               (case drain_message m (d\<lparr>dr_channel := c2\<rparr>) of
                  None \<Rightarrow> None
                | Some d' \<Rightarrow> map_option (apfst Suc) (drain_loop n d'))))"

definition drain_owned_results :: "drain \<Rightarrow> (nat \<times> drain) option" where
  "drain_owned_results d = drain_loop 256 d"

definition retain_remainders :: "display_worker list \<Rightarrow> sl \<Rightarrow> sl" where
  "retain_remainders workers s = enqueue_bundle Abandoned (Remainders workers) s"

subsection \<open>What a successful cleanup has released\<close>

fun bundle_children :: "owned_bundle \<Rightarrow> nat list" where
  "bundle_children (ClassicChild c) = [c]"
| "bundle_children (RuntimeDir p) = []"
| "bundle_children (SessionBundle x _ _) =
     s_waypipe x # (case s_container x of None \<Rightarrow> [] | Some c \<Rightarrow> [c])
       @ (case s_display x of None \<Rightarrow> [] | Some d \<Rightarrow> [w_child d])"
| "bundle_children (DisplayBundle d _ _ _) = [w_child d]"
| "bundle_children (LaunchBundle _ report worker _) =
     (case report of None \<Rightarrow> []
      | Some l \<Rightarrow> l_waypipe l # (case l_container l of None \<Rightarrow> [] | Some c \<Rightarrow> [c]))
       @ (case worker of None \<Rightarrow> [] | Some d \<Rightarrow> [w_child d])"
| "bundle_children (Remainders ws) = map w_child ws"

fun bundle_dirs :: "owned_bundle \<Rightarrow> string list" where
  "bundle_dirs (ClassicChild c) = []"
| "bundle_dirs (RuntimeDir p) = [p]"
| "bundle_dirs (SessionBundle x _ _) = (case s_display x of None \<Rightarrow> [] | Some d \<Rightarrow> [w_runtime_dir d])"
| "bundle_dirs (DisplayBundle d _ _ _) = [w_runtime_dir d]"
| "bundle_dirs (LaunchBundle _ _ worker _) = (case worker of None \<Rightarrow> [] | Some d \<Rightarrow> [w_runtime_dir d])"
| "bundle_dirs (Remainders ws) = map w_runtime_dir ws"

text \<open>What has ended stays ended.\<close>

definition later :: "os \<Rightarrow> os \<Rightarrow> bool" where
  "later s s' \<longleftrightarrow> (\<forall>c. exited s c \<longrightarrow> exited s' c) \<and> (\<forall>d. dirs s' d \<longrightarrow> dirs s d)"

lemma later_refl [simp]: "later s s"
  by (simp add: later_def)

lemma later_trans: "later s s' \<Longrightarrow> later s' s'' \<Longrightarrow> later s s''"
  by (auto simp: later_def)

lemma exited_end_proc: "ps c \<noteq> Alive \<Longrightarrow> end_proc c' st ps c \<noteq> Alive"
  by (simp add: end_proc_def split: proc.splits)

lemma end_proc_exited: "end_proc c st ps c \<noteq> Alive"
  by (simp add: end_proc_def split: proc.splits)

lemma exited_fold: "ps c \<noteq> Alive \<Longrightarrow> fold (\<lambda>(c, st). end_proc c st) es ps c \<noteq> Alive"
proof (induction es arbitrary: ps)
  case (Cons e es)
  then show ?case by (cases e) (simp add: exited_end_proc)
qed simp

lemma os_call_later: "later s (snd (os_call s))"
  by (simp add: os_call_def later_def exited_def exited_fold)

lemma try_wait_os: "snd (try_wait c s) = snd (os_call s)"
  by (cases "os_call s") (simp add: try_wait_def split: option.splits)

lemma try_wait_exited: "fst (try_wait c s) = Inr (Some st) \<Longrightarrow> exited (snd (try_wait c s)) c"
  by (cases "os_call s") (simp add: try_wait_def exited_def split: option.splits proc.splits)

lemma child_kill_later: "later s (snd (child_kill c s))"
  using os_call_later [of s]
  by (cases "os_call s") (simp add: child_kill_def later_def exited_def split: option.splits)

lemma child_wait_later: "later s (snd (child_wait c s))"
  using os_call_later [of s]
  by (cases "os_call s") (simp add: child_wait_def later_def exited_def exited_end_proc split: option.splits)

lemma child_wait_exited: "is_ok (fst (child_wait c s)) \<Longrightarrow> exited (snd (child_wait c s)) c"
  by (cases "os_call s") (simp add: child_wait_def exited_def end_proc_exited split: option.splits)

lemma terminate_child_later: "later s (snd (terminate_child c s))"
  and terminate_child_exited: "is_ok (fst (terminate_child c s)) \<Longrightarrow> exited (snd (terminate_child c s)) c"
proof -
  obtain r1 s1 where t1: "try_wait c s = (r1, s1)" by (cases "try_wait c s")
  have l1: "later s s1" using try_wait_os [of c s] os_call_later [of s] t1 by simp
  obtain r2 s2 where k: "child_kill c s1 = (r2, s2)" by (cases "child_kill c s1")
  have l2: "later s s2" using child_kill_later [of s1 c] k later_trans [OF l1] by simp
  obtain r3 s3 where t3: "try_wait c s2 = (r3, s3)" by (cases "try_wait c s2")
  have l3: "later s s3" using try_wait_os [of c s2] os_call_later [of s2] t3 later_trans [OF l2] by simp
  obtain r4 s4 where w: "child_wait c s2 = (r4, s4)" by (cases "child_wait c s2")
  have l4: "later s s4" using child_wait_later [of s2 c] w later_trans [OF l2] by simp
  note simps = terminate_child_def t1 k t3 w
  show "later s (snd (terminate_child c s))"
    using l1 l3 l4 by (simp add: simps split: sum.splits option.splits)
  show "is_ok (fst (terminate_child c s)) \<Longrightarrow> exited (snd (terminate_child c s)) c"
    using try_wait_exited [of c s] try_wait_exited [of c s2] child_wait_exited [of c s2]
    by (simp add: simps split: sum.splits option.splits)
qed

lemma remove_directory_later: "later s (snd (remove_runtime_directory p s))"
  and remove_directory_gone: "is_ok (fst (remove_runtime_directory p s)) \<Longrightarrow> \<not> dirs (snd (remove_runtime_directory p s)) p"
  using os_call_later [of s]
  by (cases "os_call s"; simp add: remove_runtime_directory_def later_def exited_def
      split: option.splits os_error.splits if_splits)+

lemma terminate_display_later: "later s (snd (terminate_display_worker d s))"
  and terminate_display_gone: "is_ok (fst (terminate_display_worker d s)) \<Longrightarrow>
    exited (snd (terminate_display_worker d s)) (w_child d)
    \<and> \<not> dirs (snd (terminate_display_worker d s)) (w_runtime_dir d)"
proof -
  obtain r s1 where t: "terminate_child (w_child d) s = (r, s1)" by (cases "terminate_child (w_child d) s")
  have l: "later s s1" using terminate_child_later [of s "w_child d"] t by simp
  have l2: "later s1 (snd (remove_runtime_directory (w_runtime_dir d) s1))" by (rule remove_directory_later)
  show "later s (snd (terminate_display_worker d s))"
    using later_trans [OF l l2] l by (simp add: terminate_display_worker_def t split: sum.splits)
  assume ok: "is_ok (fst (terminate_display_worker d s))"
  then have r: "is_ok r" by (auto simp: terminate_display_worker_def t split: sum.splits)
  with ok have e: "terminate_display_worker d s = remove_runtime_directory (w_runtime_dir d) s1"
    by (auto simp: terminate_display_worker_def t split: sum.splits)
  have "exited s1 (w_child d)" using terminate_child_exited [of "w_child d" s] t r by simp
  with l2 ok e remove_directory_gone show "exited (snd (terminate_display_worker d s)) (w_child d)
      \<and> \<not> dirs (snd (terminate_display_worker d s)) (w_runtime_dir d)"
    by (simp add: later_def)
qed

text \<open>An action on the system that ends nothing's end.\<close>

definition ending :: "(os \<Rightarrow> (string + unit) \<times> os) \<Rightarrow> (os \<Rightarrow> bool) \<Rightarrow> bool" where
  "ending f P \<longleftrightarrow> (\<forall>s. later s (snd (f s)) \<and> (is_ok (fst (f s)) \<longrightarrow> P (snd (f s))))"

definition lasting :: "(os \<Rightarrow> bool) \<Rightarrow> bool" where
  "lasting P \<longleftrightarrow> (\<forall>s s'. P s \<longrightarrow> later s s' \<longrightarrow> P s')"

lemma lasting_rules [simp]:
  "lasting (\<lambda>s. True)" "lasting (\<lambda>s. exited s c)" "lasting (\<lambda>s. \<not> dirs s p)"
  "lasting P \<Longrightarrow> lasting Q \<Longrightarrow> lasting (\<lambda>s. P s \<and> Q s)"
  by (auto simp: lasting_def later_def)

lemma ending_terminate [simp]: "ending (terminate_child c) (\<lambda>s. exited s c)"
  by (simp add: ending_def terminate_child_later terminate_child_exited)

lemma ending_display [simp]:
  "ending (terminate_display_worker d) (\<lambda>s. exited s (w_child d) \<and> \<not> dirs s (w_runtime_dir d))"
  using terminate_display_gone by (simp add: ending_def terminate_display_later)

text \<open>
  \<open>collect\<close> runs its action whatever happened before; an empty error list at the end means that
  every action succeeded.
\<close>

definition progress :: "os \<Rightarrow> string list \<times> os \<Rightarrow> (os \<Rightarrow> bool) \<Rightarrow> bool" where
  "progress s0 es P \<longleftrightarrow> later s0 (snd es) \<and> (fst es = [] \<longrightarrow> P (snd es))"

lemma progress_start: "progress s ([], s) (\<lambda>_. True)"
  by (simp add: progress_def)

lemma collect_Some:
  assumes "progress s0 es P" "lasting P" "ending f Q"
  shows "progress s0 (collect resource (Some f) es) (\<lambda>s. P s \<and> Q s)"
proof -
  obtain r s' where f: "f (snd es) = (r, s')" by (cases "f (snd es)")
  with assms(3) have "later (snd es) s'" "is_ok r \<Longrightarrow> Q s'" by (metis ending_def fst_conv snd_conv)+
  with assms(1,2) f later_trans [of s0 "snd es" s'] show ?thesis
    by (auto simp: progress_def collect_def collect_error_def lasting_def split: sum.splits)
qed

lemma collect_option:
  assumes "progress s0 es P" "lasting P" "\<And>z. ending (f z) (Q z)"
  shows "progress s0 (collect resource (map_option f v) es) (\<lambda>s. P s \<and> (\<forall>z. v = Some z \<longrightarrow> Q z s))"
proof (cases v)
  case None
  with assms(1) show ?thesis by (simp add: collect_def progress_def)
next
  case (Some z)
  with collect_Some [OF assms(1,2), of "f z" "Q z"] assms(3) show ?thesis by simp
qed

lemma lasting_option [simp]: "(\<And>z. lasting (Q z)) \<Longrightarrow> lasting (\<lambda>s. \<forall>z. v = Some z \<longrightarrow> Q z s)"
  by (auto simp: lasting_def)

lemma ending_progress:
  "(\<And>s. progress s (fst (g s), snd (g s)) Q) \<Longrightarrow> ending (\<lambda>s. (cleanup_result (fst (g s)), snd (g s))) Q"
  by (simp add: ending_def progress_def cleanup_result_def)

lemma cleanup_result_ok: "cleanup_result errors = Inr u \<longleftrightarrow> errors = []"
  by (simp add: cleanup_result_def)

definition display_gone :: "display_worker \<Rightarrow> os \<Rightarrow> bool" where
  "display_gone d s \<longleftrightarrow> exited s (w_child d) \<and> \<not> dirs s (w_runtime_dir d)"

lemma display_gone_rules [simp]: "lasting (display_gone d)" "ending (terminate_display_worker d) (display_gone d)"
  unfolding display_gone_def by simp_all

lemma session_cleanup_released:
  assumes "\<And>i. ending (owned i) (\<lambda>_. True)"
    and "cleanup_session_resources owned x s = (r, x', s')"
  shows "later s s' \<and> (is_ok r \<longrightarrow> exited s' (s_waypipe x) \<and> (\<forall>c. s_container x = Some c \<longrightarrow> exited s' c)
    \<and> (\<forall>d. s_display x = Some d \<longrightarrow> display_gone d s'))"
proof -
  have "progress s (collect ''owned container'' (Some (owned (s_identity x)))
      (collect ''dedicated display'' (map_option terminate_display_worker (s_display x))
        (collect ''container process'' (map_option terminate_child (s_container x))
          (collect ''Waypipe'' (Some (terminate_child (s_waypipe x))) ([], s)))))
      (\<lambda>s. (((True \<and> exited s (s_waypipe x)) \<and> (\<forall>c. s_container x = Some c \<longrightarrow> exited s c))
        \<and> (\<forall>d. s_display x = Some d \<longrightarrow> display_gone d s)) \<and> True)"
    by (intro collect_Some collect_option progress_start) (simp_all add: assms(1))
  with assms(2) show ?thesis
    by (auto simp: cleanup_session_resources_def Let_def cleanup_result_def progress_def)
qed

lemma launch_report_released:
  assumes "\<And>i. ending (owned i) (\<lambda>_. True)"
  shows "ending (cleanup_launch_report owned l)
    (\<lambda>s. exited s (l_waypipe l) \<and> (\<forall>c. l_container l = Some c \<longrightarrow> exited s c))"
proof -
  have "progress s (collect ''owned container'' (Some (owned (l_identity l)))
      (collect ''container process'' (map_option terminate_child (l_container l))
        (collect ''Waypipe'' (Some (terminate_child (l_waypipe l))) ([], s))))
      (\<lambda>s. ((True \<and> exited s (l_waypipe l)) \<and> (\<forall>c. l_container l = Some c \<longrightarrow> exited s c)) \<and> True)" for s
    by (intro collect_Some collect_option progress_start) (simp_all add: assms)
  then show ?thesis
    by (auto simp: ending_def cleanup_launch_report_def Let_def cleanup_result_def progress_def)
qed

lemma launch_resources_released:
  assumes "\<And>i. ending (owned i) (\<lambda>_. True)"
  shows "ending (cleanup_launch_resources owned report worker)
    (\<lambda>s. (\<forall>l. report = Some l \<longrightarrow> exited s (l_waypipe l) \<and> (\<forall>c. l_container l = Some c \<longrightarrow> exited s c))
      \<and> (\<forall>d. worker = Some d \<longrightarrow> display_gone d s))"
proof -
  let ?P = "\<lambda>s. \<forall>l. report = Some l \<longrightarrow> exited s (l_waypipe l) \<and> (\<forall>c. l_container l = Some c \<longrightarrow> exited s c)"
  let ?e = "\<lambda>s. case report of
      None \<Rightarrow> ([], s)
    | Some l \<Rightarrow> (case cleanup_launch_report owned l s of (Inl e, s') \<Rightarrow> ([e], s') | (Inr _, s') \<Rightarrow> ([], s'))"
  have "progress s (?e s) ?P" for s
  proof (cases report)
    case (Some l)
    then show ?thesis using launch_report_released [of owned l, OF assms]
      by (cases "cleanup_launch_report owned l s")
        (auto simp: progress_def ending_def split: sum.splits; metis fst_conv snd_conv sum.disc(2))
  qed (simp add: progress_def)
  then have "progress s (collect ''dedicated display'' (map_option terminate_display_worker worker) (?e s))
      (\<lambda>s. ?P s \<and> (\<forall>d. worker = Some d \<longrightarrow> display_gone d s))" for s
    by (intro collect_option) (simp_all add: lasting_def later_def)
  then show ?thesis
    unfolding ending_def cleanup_launch_resources_def Let_def by (auto simp: cleanup_result_def progress_def)
qed

lemma remainders_released:
  "ending (cleanup_remainders n ws) (\<lambda>s. \<forall>d \<in> set ws. display_gone d s)"
proof -
  let ?f = "\<lambda>d es. case terminate_display_worker d (snd es) of
      (Inl e, s') \<Rightarrow> (fst es @ [e], s') | (Inr _, s') \<Rightarrow> (fst es, s')"
  have step: "progress s0 (?f d es) (\<lambda>s. P s \<and> display_gone d s)"
    if "progress s0 es P" "lasting P" for s0 es d P
  proof -
    obtain r s' where f: "terminate_display_worker d (snd es) = (r, s')"
      by (cases "terminate_display_worker d (snd es)")
    with display_gone_rules(2) [of d] have "later (snd es) s'" "is_ok r \<Longrightarrow> display_gone d s'"
      by (metis ending_def fst_conv snd_conv)+
    with that f later_trans [of s0 "snd es" s'] show ?thesis
      by (auto simp: progress_def lasting_def split: sum.splits)
  qed
  have "progress s0 (fold ?f ws es) (\<lambda>s. P s \<and> (\<forall>d \<in> set ws. display_gone d s))"
    if "progress s0 es P" "lasting P" for s0 es P
    using that
  proof (induction ws arbitrary: es P)
    case (Cons d ws)
    have "progress s0 (fold ?f ws (?f d es)) (\<lambda>s. (P s \<and> display_gone d s) \<and> (\<forall>d \<in> set ws. display_gone d s))"
      by (rule Cons.IH [OF step [OF Cons.prems]]) (simp add: Cons.prems)
    then show ?case by (simp add: conj_assoc)
  qed simp
  from this [OF progress_start] show ?thesis
    by (auto simp: ending_def cleanup_remainders_def cleanup_result_def progress_def split_beta)
qed

lemma cleanup_owned_later:
  assumes "\<And>c t s. later s (snd (run c t s))"
  shows "ending (cleanup_owned_instance pa pd run i) (\<lambda>_. True)"
proof -
  have del: "later s (snd (run_delete run d s))" for d s
    using assms [of s d "from_secs 6"] by (simp add: run_delete_def split_beta split: sum.splits prod.splits)
  have "later s w'" if "cleanup_owned_instance pa pd run i s = (r, w')" for s r w'
    using that
  proof (cases rule: cleanup_cases)
    case (deleted c out w1 target d)
    then show ?thesis using del [of w1 d] assms [of s c "from_secs 6"] later_trans by auto
  next
    case (missing c out)
    then show ?thesis using assms [of s c "from_secs 6"] by simp
  qed (use assms in auto)
  then show ?thesis by (simp add: ending_def) (metis prod.collapse)
qed

text \<open>
  a cleanup that reports success has released everything: every process of the bundle
  has ended and every runtime directory is gone, and the bundle still names the same
  resources. A worker does not stop at the first failure: each resource is tried. The command
  runner is assumed to leave ended processes and removed directories as they are.
\<close>

theorem cleanup_ok_released:
  assumes "bundle_cleanup (cleanup_owned_instance parse_apple parse_docker run) n b s = (Inr (), b', s')"
    and "\<And>c t v. later v (snd (run c t v))"
  shows "list_all (exited s') (bundle_children b) \<and> list_all (\<lambda>d. \<not> dirs s' d) (bundle_dirs b)
    \<and> bundle_children b' = bundle_children b \<and> bundle_dirs b' = bundle_dirs b"
proof -
  let ?owned = "cleanup_owned_instance parse_apple parse_docker run"
  note own = cleanup_owned_later [OF assms(2), where pa = parse_apple and pd = parse_docker]
  show ?thesis
  proof (cases b)
    case (ClassicChild c)
    with assms(1) terminate_child_exited [of c s] show ?thesis by (auto simp: split_beta)
  next
    case (RuntimeDir d)
    with assms(1) remove_directory_gone [of d s] show ?thesis by (auto simp: split_beta)
  next
    case (SessionBundle x p q)
    with assms(1) obtain x' where x: "cleanup_session_resources ?owned x s = (Inr (), x', s')"
        "b' = SessionBundle x' p q" by (auto split: prod.splits)
    then have "s_waypipe x' = s_waypipe x" "s_container x' = s_container x" "s_display x' = s_display x"
      by (auto simp: cleanup_session_resources_def Let_def)
    with session_cleanup_released [OF own x(1)] x(2) SessionBundle show ?thesis
      by (auto simp: display_gone_def split: option.splits)
  next
    case (DisplayBundle d slot reason failed)
    with assms(1) terminate_display_gone [of d s] show ?thesis by (auto simp: split_beta)
  next
    case (LaunchBundle i report worker op)
    with assms(1) have r: "cleanup_launch_resources ?owned report worker s = (Inr (), s')" "b' = b"
      by (auto simp: split_beta prod_eq_iff)
    from launch_resources_released [where owned = ?owned and report = report and worker = worker, OF own,
        unfolded ending_def, rule_format, of s] r
    show ?thesis using LaunchBundle by (auto simp: display_gone_def split: option.splits)
  next
    case (Remainders ws)
    with assms(1) have r: "cleanup_remainders n ws s = (Inr (), s')" "b' = b"
      by (auto simp: split_beta prod_eq_iff)
    from remainders_released [of n ws, unfolded ending_def, rule_format, of s] r
    show ?thesis using Remainders by (auto simp: display_gone_def list_all_iff)
  qed
qed

definition sample_os :: os where
  "sample_os = \<lparr>procs = (\<lambda>_. Alive), dirs = (\<lambda>_. True), faults = (\<lambda>_. None), exits = (\<lambda>_. []),
     calls = 0, signalled = []\<rparr>"

theorem cleanup_ok_released_witness:
  "exited (snd (snd (bundle_cleanup (cleanup_owned_instance (\<lambda>_. Inl []) (\<lambda>_. Inl []) (\<lambda>_ _ v. (Inl [], v))) 0
      (DisplayBundle \<lparr>w_child = 4, w_runtime_dir = ''/run/x''\<rparr> ''s'' None None) sample_os))) 4"
proof -
  let ?b = "DisplayBundle \<lparr>w_child = 4, w_runtime_dir = ''/run/x''\<rparr> ''s'' None None"
  let ?r = "bundle_cleanup (cleanup_owned_instance (\<lambda>_. Inl []) (\<lambda>_. Inl []) (\<lambda>_ _ v. (Inl [], v))) 0 ?b sample_os"
  have "fst ?r = Inr ()"
    by (simp add: terminate_display_worker_def terminate_child_def try_wait_def child_kill_def child_wait_def
        os_call_def remove_runtime_directory_def sample_os_def end_proc_def)
  then have e: "?r = (Inr (), fst (snd ?r), snd (snd ?r))" by (simp add: prod_eq_iff)
  from cleanup_ok_released [OF e] show ?thesis by simp
qed

subsection \<open>No session is lost\<close>

lemma enqueue_life:
  assumes "cleanup l = Some q"
  shows "\<exists>q'. cleanup (life_step (Enqueue k) l) = Some q' \<and> set (keys q') = insert k (set (keys q))
    \<and> next_job (life_step (Enqueue k) l) = Suc (next_job l)"
  using assms enqueue_keys [of k "next_job l" q "world l"] by (auto simp: split_beta)

text \<open>The identities the queue of the event loop holds.\<close>

definition queue_keys :: "sl \<Rightarrow> key set" where
  "queue_keys s = (case cleanup (sl_life s) of None \<Rightarrow> {} | Some q \<Rightarrow> set (keys q))"

definition open_queue :: "sl \<Rightarrow> bool" where
  "open_queue s \<longleftrightarrow> cleanup (sl_life s) \<noteq> None"

lemma enqueue_bundle_keys:
  assumes "open_queue s"
  shows "queue_keys (enqueue_bundle k b s) = insert k (queue_keys s)" "open_queue (enqueue_bundle k b s)"
    "next_job (sl_life (enqueue_bundle k b s)) = Suc (next_job (sl_life s))"
    "sl_bundles (enqueue_bundle k b s) = (sl_bundles s)(next_job (sl_life s) \<mapsto> b)"
    "sl_active (enqueue_bundle k b s) = sl_active s"
proof -
  obtain q where q: "cleanup (sl_life s) = Some q" using assms by (auto simp: open_queue_def)
  from enqueue_life [OF q, of k] obtain q' where q': "cleanup (life_step (Enqueue k) (sl_life s)) = Some q'"
      "set (keys q') = insert k (set (keys q))"
      "next_job (life_step (Enqueue k) (sl_life s)) = Suc (next_job (sl_life s))" by blast
  show "queue_keys (enqueue_bundle k b s) = insert k (queue_keys s)" "open_queue (enqueue_bundle k b s)"
    "next_job (sl_life (enqueue_bundle k b s)) = Suc (next_job (sl_life s))"
    using q q' by (simp_all add: enqueue_bundle_def queue_keys_def open_queue_def del: life_step.simps)
  show "sl_bundles (enqueue_bundle k b s) = (sl_bundles s)(next_job (sl_life s) \<mapsto> b)"
    "sl_active (enqueue_bundle k b s) = sl_active s"
    by (simp_all add: enqueue_bundle_def)
qed

lemma sl_now_fields [simp]:
  "queue_keys (snd (sl_now s)) = queue_keys s" "open_queue (snd (sl_now s)) = open_queue s"
  "sl_active (snd (sl_now s)) = sl_active s" "sl_bundles (snd (sl_now s)) = sl_bundles s"
  by (simp_all add: sl_now_def read_clock_def queue_keys_def open_queue_def)

lemma other_fields [simp]:
  "queue_keys (s\<lparr>sl_os := p\<rparr>) = queue_keys s" "open_queue (s\<lparr>sl_os := p\<rparr>) = open_queue s"
  "queue_keys (s\<lparr>sl_ui := u\<rparr>) = queue_keys s" "open_queue (s\<lparr>sl_ui := u\<rparr>) = open_queue s"
  "queue_keys (s\<lparr>sl_active := a\<rparr>) = queue_keys s" "open_queue (s\<lparr>sl_active := a\<rparr>) = open_queue s"
  "queue_keys (s\<lparr>sl_displays := d\<rparr>) = queue_keys s" "open_queue (s\<lparr>sl_displays := d\<rparr>) = open_queue s"
  "queue_keys (s\<lparr>sl_activities := t\<rparr>) = queue_keys s" "open_queue (s\<lparr>sl_activities := t\<rparr>) = open_queue s"
  by (simp_all add: queue_keys_def open_queue_def)

lemma offer_fields:
  "queue_keys (snd (offer_force_stop x s)) = queue_keys s"
  "open_queue (snd (offer_force_stop x s)) = open_queue s"
  "s_profile (fst (offer_force_stop x s)) = s_profile x"
  "sl_active (snd (offer_force_stop x s)) = sl_active s"
  by (simp_all add: offer_force_stop_def split_beta Let_def split: option.split)

lemma session_cleanup_keys:
  assumes "open_queue s"
  shows "queue_keys (queue_session_cleanup x process st s) = insert (Session (s_profile x) (s_slot x)) (queue_keys s)"
    "open_queue (queue_session_cleanup x process st s)"
    "sl_active (queue_session_cleanup x process st s) = sl_active s"
  using enqueue_bundle_keys [OF assms] by (simp_all add: queue_session_cleanup_def)

text \<open>
  From one state of the event loop to a later one: no identity leaves the queue, and a session
  that is no longer active is in the queue under its identity.
\<close>

definition sid :: "active_session \<Rightarrow> profile_id \<times> string" where
  "sid x = (s_profile x, s_slot x)"

definition retained :: "active_session list \<Rightarrow> sl \<Rightarrow> active_session list \<Rightarrow> sl \<Rightarrow> bool" where
  "retained xs s ys s' \<longleftrightarrow>
     open_queue s' \<and> queue_keys s \<subseteq> queue_keys s'
     \<and> (\<forall>x \<in> set xs. sid x \<in> sid ` set ys \<or> Session (s_profile x) (s_slot x) \<in> queue_keys s')"

lemma retained_trans:
  assumes "retained xs s ys s'" "retained ys s' zs s''"
  shows "retained xs s zs s''"
proof -
  have "sid x \<in> sid ` set zs \<or> Session (s_profile x) (s_slot x) \<in> queue_keys s''" if x: "x \<in> set xs" for x
  proof (cases "Session (s_profile x) (s_slot x) \<in> queue_keys s'")
    case True
    with assms(2) show ?thesis by (auto simp: retained_def)
  next
    case False
    with assms(1) x obtain y where y: "y \<in> set ys" "sid y = sid x" by (force simp: retained_def)
    from assms(2) y(1) have "sid y \<in> sid ` set zs \<or> Session (s_profile y) (s_slot y) \<in> queue_keys s''"
      unfolding retained_def by blast
    with y(2) show ?thesis by (simp add: sid_def)
  qed
  with assms show ?thesis by (auto simp: retained_def)
qed

lemma offer_sid [simp]: "sid (fst (offer_force_stop x s)) = sid x"
  by (simp add: offer_force_stop_def sid_def split_beta Let_def split: option.split)

lemma reap_sessions_retained:
  assumes "open_queue s"
  shows "retained xs s (fst (reap_sessions xs s)) (snd (reap_sessions xs s))"
  using assms
proof (induction xs arbitrary: s)
  case Nil
  then show ?case by (simp add: retained_def)
next
  case (Cons x xs)
  obtain r p where e: "session_exit x (sl_os s) = (r, p)" by (cases "session_exit x (sl_os s)")
  show ?case
  proof (cases r)
    case (Some y)
    obtain process st where y: "y = (process, st)" by (cases y)
    have o: "open_queue (s\<lparr>sl_os := p\<rparr>)" using Cons.prems by simp
    let ?s1 = "queue_session_cleanup x process st (s\<lparr>sl_os := p\<rparr>)"
    have k: "queue_keys ?s1 = insert (Session (s_profile x) (s_slot x)) (queue_keys s)" "open_queue ?s1"
      using session_cleanup_keys [OF o] by simp_all
    from Cons.IH [OF k(2)] k(1) e Some y show ?thesis by (auto simp: retained_def)
  next
    case None
    let ?s1 = "snd (offer_force_stop x (s\<lparr>sl_os := p\<rparr>))"
    have f: "queue_keys ?s1 = queue_keys s" "open_queue ?s1" using Cons.prems by (simp_all add: offer_fields)
    from Cons.IH [OF f(2)] f(1) e None show ?thesis by (auto simp: retained_def split_beta)
  qed
qed

lemma stop_retained:
  assumes "open_queue s"
  shows "retained (sl_active s) s (sl_active (snd (stop_active_container_session i s)))
    (snd (stop_active_container_session i s))"
proof (cases "position (\<lambda>x. s_profile x = i) (sl_active s)")
  case None
  with assms show ?thesis by (simp add: stop_active_container_session_def retained_def)
next
  case (Some p)
  note p = position_Some(1) [OF Some]
  let ?x = "sl_active s ! p" and ?s1 = "s\<lparr>sl_active := remove_at p (sl_active s)\<rparr>"
  obtain t s2 where s2: "(case s_stopping ?x of Some t \<Rightarrow> (t, ?s1) | None \<Rightarrow> sl_now ?s1) = (t, s2)"
    by (cases "case s_stopping ?x of Some t \<Rightarrow> (t, ?s1) | None \<Rightarrow> sl_now ?s1")
  have "s2 = ?s1 \<or> s2 = snd (sl_now ?s1)" using s2 by (auto split: option.splits)
  then have f: "queue_keys s2 = queue_keys s" "open_queue s2" "sl_active s2 = remove_at p (sl_active s)"
    using assms by auto
  have e: "snd (stop_active_container_session i s)
      = queue_session_cleanup (?x\<lparr>s_stopping := Some t\<rparr>) ''application'' ''force stopped'' s2"
    by (simp add: stop_active_container_session_def Some Let_def s2)
  have "set (sl_active s) = insert ?x (set (remove_at p (sl_active s)))"
    using mset_remove_at [OF p] by (metis set_mset_add_mset_insert set_mset_mset)
  with f show ?thesis unfolding e retained_def
    by (simp add: session_cleanup_keys [OF f(2)]) blast
qed

lemma stop_all_retained:
  "open_queue s \<Longrightarrow> retained (sl_active s) s (sl_active (stop_all is s)) (stop_all is s)"
proof (induction "is" arbitrary: s)
  case Nil
  then show ?case by (simp add: stop_all_def retained_def)
next
  case (Cons i "is")
  have r: "retained (sl_active s) s (sl_active (snd (stop_active_container_session i s)))
      (snd (stop_active_container_session i s))" by (rule stop_retained [OF Cons.prems])
  then have "open_queue (snd (stop_active_container_session i s))" by (simp add: retained_def)
  from retained_trans [OF r Cons.IH [OF this]] show ?case by (simp add: stop_all_def)
qed

lemma reap_display_retained:
  assumes "open_queue s"
  shows "retained (sl_active s) s (sl_active (reap_display d reason s)) (reap_display d reason s)"
    "Display (m_slot d) \<in> queue_keys (reap_display d reason s)"
proof -
  let ?s1 = "stop_all (map s_profile (filter (\<lambda>x. s_slot x = m_slot d) (sl_active s))) s"
  have r: "retained (sl_active s) s (sl_active ?s1) ?s1" by (rule stop_all_retained [OF assms])
  then have o: "open_queue ?s1" by (simp add: retained_def)
  note k = enqueue_bundle_keys [OF o, of "Display (m_slot d)" "DisplayBundle (m_worker d) (m_slot d) (Some reason) None"]
  have e: "reap_display d reason s
      = enqueue_bundle (Display (m_slot d)) (DisplayBundle (m_worker d) (m_slot d) (Some reason) None) ?s1"
    by (simp add: reap_display_def enqueue_display_cleanup_def)
  show "retained (sl_active s) s (sl_active (reap_display d reason s)) (reap_display d reason s)"
    using r k unfolding e by (auto simp: retained_def)
  show "Display (m_slot d) \<in> queue_keys (reap_display d reason s)" using k unfolding e by simp
qed

lemma reap_displays_retained:
  assumes "open_queue s"
  shows "retained (sl_active s) s (sl_active (snd (reap_displays ds s))) (snd (reap_displays ds s))
    \<and> (\<forall>d \<in> set ds. d \<in> set (fst (reap_displays ds s)) \<or> Display (m_slot d) \<in> queue_keys (snd (reap_displays ds s)))"
  using assms
proof (induction ds arbitrary: s)
  case Nil
  then show ?case by (simp add: retained_def)
next
  case (Cons d ds)
  obtain r p where e: "try_wait (w_child (m_worker d)) (sl_os s) = (r, p)"
    by (cases "try_wait (w_child (m_worker d)) (sl_os s)")
  let ?s0 = "s\<lparr>sl_os := p\<rparr>"
  have o: "open_queue ?s0" using Cons.prems by simp
  have s0: "retained (sl_active s) s (sl_active ?s0) ?s0" using o by (simp add: retained_def)
  show ?case
  proof (cases "r = Inr None")
    case True
    with Cons.IH [OF o] retained_trans [OF s0] e show ?thesis by (auto simp: split_beta)
  next
    case False
    obtain reason where n: "reap_displays (d # ds) s = reap_displays ds (reap_display d reason ?s0)"
      using False e by (cases r) (auto split: option.splits)
    let ?s1 = "reap_display d reason ?s0"
    note r1 = reap_display_retained [OF o, of d reason]
    then have o1: "open_queue ?s1" by (simp add: retained_def)
    from Cons.IH [OF o1] r1(2) have "Display (m_slot d) \<in> queue_keys (snd (reap_displays ds ?s1))"
      by (auto simp: retained_def)
    with Cons.IH [OF o1] n retained_trans [OF s0 retained_trans [OF r1(1)]] show ?thesis by auto
  qed
qed

lemma queue_keys_busy:
  assumes "cleanup (sl_life s) = Some q" "Session i slot \<in> queue_keys s"
  shows "session_busy i q \<and> display_busy slot q"
proof -
  have "Session i slot \<in> set (keys q)" using assms by (simp add: queue_keys_def)
  moreover have "key_session i (Session i slot)" "key_display slot (Session i slot)" by simp_all
  ultimately show ?thesis unfolding session_busy_def display_busy_def list_ex_iff by blast
qed

text \<open>
  no running application is forgotten. Whatever the operating system answers, after the
  event loop has reaped exited sessions, reaped exited displays or force-stopped a session,
  every session that was active is still active under the same identity and display, or its
  resources are in the cleanup queue, which reports both its identity and its display busy.
\<close>

theorem sessions_never_lost:
  assumes "cleanup (sl_life s) = Some q" and "x \<in> set (sl_active s)"
    and "s' \<in> {reap_exited_container_sessions s, reap_exited_managed_displays s,
      snd (stop_active_container_session i s)}"
  shows "\<exists>q'. cleanup (sl_life s') = Some q' \<and>
    ((\<exists>y \<in> set (sl_active s'). s_profile y = s_profile x \<and> s_slot y = s_slot x)
     \<or> (session_busy (s_profile x) q' \<and> display_busy (s_slot x) q'))"
proof -
  have o: "open_queue s" using assms(1) by (simp add: open_queue_def)
  have "retained (sl_active s) s (sl_active s') s'"
    using assms(3) reap_sessions_retained [OF o, of "sl_active s"] reap_displays_retained [OF o, of "sl_displays s"]
      stop_retained [OF o, of i]
    by (auto simp: reap_exited_container_sessions_def reap_exited_managed_displays_def split_beta retained_def)
  then obtain q' where q': "cleanup (sl_life s') = Some q'"
      "sid x \<in> sid ` set (sl_active s') \<or> Session (s_profile x) (s_slot x) \<in> queue_keys s'"
    using assms(2) by (auto simp: retained_def open_queue_def)
  then show ?thesis using queue_keys_busy [OF q'(1)] by (auto simp: sid_def image_iff)
qed

definition sample_session :: active_session where
  "sample_session =
     \<lparr>s_profile = ProfileId (replicate 16 7), s_identity = sample_identity, s_container = None,
      s_waypipe = 9, s_audio = None, s_slot = ''default'', s_display = None, s_stopping = None,
      s_force_offered = False\<rparr>"

definition sample_sl :: sl where
  "sample_sl = \<lparr>sl_active = [sample_session], sl_displays = [],
     sl_life = life_init (\<lambda>_. 0) (\<lambda>_. None), sl_bundles = Map.empty,
     sl_os = sample_os\<lparr>exits := (\<lambda>_. [(9, ''exit status: 0'')])\<rparr>, sl_ui = [], sl_activities = Map.empty\<rparr>"

theorem sessions_never_lost_witness:
  "\<exists>q'. cleanup (sl_life (reap_exited_container_sessions sample_sl)) = Some q' \<and>
    ((\<exists>y \<in> set (sl_active (reap_exited_container_sessions sample_sl)).
        s_profile y = s_profile sample_session \<and> s_slot y = ''default'')
     \<or> (session_busy (s_profile sample_session) q' \<and> display_busy ''default'' q'))"
proof -
  have c: "cleanup (sl_life sample_sl) = Some cleanup_queue_new" by (simp add: sample_sl_def life_init_def)
  have x: "sample_session \<in> set (sl_active sample_sl)" by (simp add: sample_sl_def)
  from sessions_never_lost [OF c x, of "reap_exited_container_sessions sample_sl" UNSAVED] show ?thesis
    by (simp add: sample_session_def)
qed

subsection \<open>Nothing is leaked at shutdown\<close>

fun message_children :: "compositor_message \<Rightarrow> nat list" where
  "message_children (DedicatedDisplayStarted _ _ _ d) = [w_child d]"
| "message_children (ManagedDisplayStarted _ d) = [w_child d]"
| "message_children (ContainerSessionLaunchFinished _ _ _ (Inr l)) =
     l_waypipe l # (case l_container l of None \<Rightarrow> [] | Some c \<Rightarrow> [c])"
| "message_children _ = []"

fun message_saved :: "compositor_message \<Rightarrow> bool" where
  "message_saved (DedicatedDisplayStarted i _ _ _) = is_saved i"
| "message_saved (ContainerSessionLaunchFinished i _ _ _) = is_saved i"
| "message_saved _ = True"

definition owned_children :: "sl \<Rightarrow> nat set" where
  "owned_children s = (\<Union>b \<in> ran (sl_bundles s). set (bundle_children b))"

text \<open>Job numbers are handed out once.\<close>

definition fresh_jobs :: "sl \<Rightarrow> bool" where
  "fresh_jobs s \<longleftrightarrow> open_queue s \<and> (\<forall>j \<in> dom (sl_bundles s). j < next_job (sl_life s))"

lemma enqueue_bundle_owned:
  assumes "fresh_jobs s"
  shows "fresh_jobs (enqueue_bundle k b s)"
    "owned_children (enqueue_bundle k b s) = owned_children s \<union> set (bundle_children b)"
proof -
  have o: "open_queue s" and fresh: "sl_bundles s (next_job (sl_life s)) = None"
    using assms by (auto simp: fresh_jobs_def)
  show "fresh_jobs (enqueue_bundle k b s)"
    using assms enqueue_bundle_keys [OF o, of k b] by (auto simp: fresh_jobs_def less_SucI)
  show "owned_children (enqueue_bundle k b s) = owned_children s \<union> set (bundle_children b)"
    using enqueue_bundle_keys(4) [OF o, of k b] fresh by (auto simp: owned_children_def)
qed

lemma activities_owned [simp]:
  "fresh_jobs (s\<lparr>sl_activities := t\<rparr>) = fresh_jobs s" "owned_children (s\<lparr>sl_activities := t\<rparr>) = owned_children s"
  by (simp_all add: fresh_jobs_def owned_children_def)

lemma queue_launch_owned:
  assumes "fresh_jobs s" "is_saved i"
  shows "\<exists>s'. queue_launch_cleanup i slot report worker op s = Some s' \<and> fresh_jobs s'
    \<and> owned_children s' = owned_children s \<union> set (bundle_children (LaunchBundle i report worker op))"
  using assms enqueue_bundle_owned [of "s\<lparr>sl_activities := _\<rparr>" "Session i slot" "LaunchBundle i report worker op"]
  by (auto simp: queue_launch_cleanup_def activity_begin_def)

lemma drain_message_owned:
  assumes "fresh_jobs (dr_sl d)" "message_saved m"
  shows "\<exists>d'. drain_message m d = Some d' \<and> fresh_jobs (dr_sl d') \<and> dr_channel d' = dr_channel d
    \<and> owned_children (dr_sl d) \<union> set (message_children m) \<subseteq> owned_children (dr_sl d')"
proof (cases m)
  case (DedicatedDisplayStarted i g slot w)
  obtain op ops where t: "take_attempt (dr_operations d) i g = (op, ops)"
    by (cases "take_attempt (dr_operations d) i g")
  obtain s' where "queue_launch_cleanup i slot None (Some w) op (dr_sl d) = Some s'" "fresh_jobs s'"
      "owned_children s' = owned_children (dr_sl d) \<union> set (bundle_children (LaunchBundle i None (Some w) op))"
    using queue_launch_owned [OF assms(1), of i slot None "Some w" op] assms(2) DedicatedDisplayStarted
    by (auto simp del: bundle_children.simps)
  with DedicatedDisplayStarted t show ?thesis by auto
next
  case (ManagedDisplayStarted slot w)
  with assms enqueue_bundle_owned [OF assms(1)] show ?thesis
    by (auto simp: queue_display_cleanup_def enqueue_display_cleanup_def)
next
  case (ContainerSessionLaunchFinished i g slot r)
  obtain op ops where t: "take_attempt (dr_operations d) i g = (op, ops)"
    by (cases "take_attempt (dr_operations d) i g")
  let ?w = "if op = None then None else dr_workers d i"
  let ?l = "case r of Inl _ \<Rightarrow> None | Inr l \<Rightarrow> Some l"
  obtain s' where "queue_launch_cleanup i slot ?l ?w op (dr_sl d) = Some s'" "fresh_jobs s'"
      "owned_children s' = owned_children (dr_sl d) \<union> set (bundle_children (LaunchBundle i ?l ?w op))"
    using queue_launch_owned [OF assms(1), of i slot ?l ?w op] assms(2) ContainerSessionLaunchFinished
    by (auto simp del: bundle_children.simps)
  with ContainerSessionLaunchFinished t show ?thesis by (cases r) (auto simp: Let_def)
qed (use assms in simp)

lemma drain_loop_owned:
  assumes "fresh_jobs (dr_sl d)" "list_all message_saved (queue (dr_channel d))"
    and "length (queue (dr_channel d)) \<le> messages (dr_channel d)"
  shows "\<exists>d'. drain_loop n d = Some (min n (length (queue (dr_channel d))), d')
    \<and> owned_children (dr_sl d) \<union> (\<Union>m \<in> set (take n (queue (dr_channel d))). set (message_children m))
        \<subseteq> owned_children (dr_sl d')
    \<and> queue (dr_channel d') = drop n (queue (dr_channel d))"
  using assms
proof (induction n arbitrary: d)
  case (Suc n)
  show ?case
  proof (cases "queue (dr_channel d)")
    case Nil
    then show ?thesis by (simp add: try_recv_def)
  next
    case (Cons m ms)
    let ?c1 = "(dr_channel d)\<lparr>queue := ms\<rparr>" and ?c2 = "(dr_channel d)\<lparr>queue := ms, messages := messages (dr_channel d) - 1\<rparr>"
    have c: "try_recv (dr_channel d) = (Some m, ?c1)" "message_received ?c1 = Some ?c2"
      using Cons Suc.prems by (simp_all add: try_recv_def message_received_def)
    have "fresh_jobs (dr_sl (d\<lparr>dr_channel := ?c2\<rparr>))" "message_saved m" using Suc.prems Cons by simp_all
    from drain_message_owned [OF this] obtain d1 where d1: "drain_message m (d\<lparr>dr_channel := ?c2\<rparr>) = Some d1"
        "fresh_jobs (dr_sl d1)" "dr_channel d1 = ?c2"
        "owned_children (dr_sl d) \<union> set (message_children m) \<subseteq> owned_children (dr_sl d1)" by auto
    have "list_all message_saved (queue (dr_channel d1))" "length (queue (dr_channel d1)) \<le> messages (dr_channel d1)"
      using Suc.prems Cons d1(3) by simp_all
    from Suc.IH [OF d1(2) this] obtain d' where
      "drain_loop n d1 = Some (min n (length ms), d')" "queue (dr_channel d') = drop n ms"
      "owned_children (dr_sl d1) \<union> (\<Union>m \<in> set (take n ms). set (message_children m)) \<subseteq> owned_children (dr_sl d')"
      using d1(3) by auto
    with c d1 Cons show ?thesis by auto
  qed
qed simp

text \<open>
  C32: shutdown leaks no process. When every queued message has been counted and its profile
  is saved, draining the late worker replies does not panic, consumes the first 256 messages
  (or all), and every process that a consumed message carries is afterwards owned by a bundle
  of the cleanup queue, as is every process that was owned before.
\<close>

theorem drain_leaks_nothing:
  assumes "fresh_jobs (dr_sl d)" "list_all message_saved (queue (dr_channel d))"
    and "length (queue (dr_channel d)) \<le> messages (dr_channel d)"
  shows "\<exists>d'. drain_owned_results d = Some (min 256 (length (queue (dr_channel d))), d')
    \<and> owned_children (dr_sl d) \<union> (\<Union>m \<in> set (take 256 (queue (dr_channel d))). set (message_children m))
        \<subseteq> owned_children (dr_sl d')
    \<and> queue (dr_channel d') = drop 256 (queue (dr_channel d))"
  unfolding drain_owned_results_def by (rule drain_loop_owned [OF assms])

definition sample_drain :: drain where
  "sample_drain = \<lparr>dr_channel = \<lparr>queue = [OtherMessage, ManagedDisplayStarted ''s'' \<lparr>w_child = 4, w_runtime_dir = ''/r''\<rparr>],
      receiver_alive = True, messages = 2, notification = True, disconnected = False, wakes = 1\<rparr>,
     dr_operations = Map.empty, dr_workers = Map.empty, dr_sl = sample_sl\<rparr>"

theorem drain_leaks_nothing_witness:
  "\<exists>d'. drain_owned_results sample_drain = Some (2, d') \<and> 4 \<in> owned_children (dr_sl d')"
proof -
  have 1: "fresh_jobs (dr_sl sample_drain)"
    by (simp add: sample_drain_def sample_sl_def fresh_jobs_def open_queue_def life_init_def)
  have 2: "list_all message_saved (queue (dr_channel sample_drain))"
      "length (queue (dr_channel sample_drain)) \<le> messages (dr_channel sample_drain)"
    by (simp_all add: sample_drain_def)
  from drain_leaks_nothing [OF 1 2] show ?thesis by (auto simp: sample_drain_def)
qed

end
