(* ===== verification/Frame_Clock.thy ===== *)
theory Frame_Clock
  imports Prelude
begin

text \<open>
  \<open>src/frame_clock.rs\<close>: demand-driven frame pacing, one clock for each native window. The
  clock only answers when the next frame is due; the lemmas show that its deadlines lie on
  the phase grid of the first frame and that a caller who respects them never exceeds the
  display's refresh rate.
\<close>

subsection \<open>The clock\<close>

definition DEFAULT_REFRESH_MILLIHERTZ :: nat where
  "DEFAULT_REFRESH_MILLIHERTZ = 60000"

record frame_clock =
  refresh_millihertz :: nat
  phase_anchor :: "instant option"
  last_frame_started :: "instant option"

definition set_refresh_millihertz :: "nat option \<Rightarrow> frame_clock \<Rightarrow> frame_clock" where
  "set_refresh_millihertz rate c =
     (let refresh =
        (case rate of
           None \<Rightarrow> DEFAULT_REFRESH_MILLIHERTZ
         | Some r \<Rightarrow> if 1000 \<le> r \<and> r \<le> 1000000 then r else DEFAULT_REFRESH_MILLIHERTZ)
      in if refresh \<noteq> refresh_millihertz c
         then c\<lparr>phase_anchor := last_frame_started c, refresh_millihertz := refresh\<rparr>
         else c)"

definition frame_clock_new :: "nat option \<Rightarrow> frame_clock" where
  "frame_clock_new rate =
     set_refresh_millihertz rate
       \<lparr>refresh_millihertz = DEFAULT_REFRESH_MILLIHERTZ, phase_anchor = None,
        last_frame_started = None\<rparr>"

text \<open>\<open>1_000_000_000_000_u64.div_ceil(refresh)\<close>, the period in nanoseconds rounded up.\<close>

definition period_ns :: "nat \<Rightarrow> nat" where
  "period_ns rate = (1000000000000 + rate - 1) div rate"

text \<open>\<open>last.duration_since(anchor)\<close> saturates at zero, as the subtraction of naturals does.\<close>

definition next_due :: "instant \<Rightarrow> bool \<Rightarrow> frame_clock \<Rightarrow> instant option" where
  "next_due now has_work c =
     (if \<not> has_work then None
      else let due =
        (case (phase_anchor c, last_frame_started c) of
           (Some anchor, Some started) \<Rightarrow>
             (let period = period_ns (refresh_millihertz c);
                  offset = (started - anchor) mod period
              in started + (period - offset))
         | _ \<Rightarrow> now)
      in Some (max due now))"

definition record_frame_started :: "instant \<Rightarrow> frame_clock \<Rightarrow> frame_clock" where
  "record_frame_started started c =
     c\<lparr>phase_anchor := Some (case phase_anchor c of None \<Rightarrow> started | Some a \<Rightarrow> a),
       last_frame_started :=
         Some (case last_frame_started c of None \<Rightarrow> started | Some l \<Rightarrow> max l started)\<rparr>"

definition record_submission :: "instant \<Rightarrow> frame_clock \<Rightarrow> frame_clock" where
  "record_submission submitted c =
     (if last_frame_started c = None then record_frame_started submitted c else c)"

subsection \<open>The invariant of the clock\<close>

datatype clock_event = SetRate "nat option" | FrameStarted instant | Submitted instant

fun clock_step :: "clock_event \<Rightarrow> frame_clock \<Rightarrow> frame_clock" where
  "clock_step (SetRate r) c = set_refresh_millihertz r c"
| "clock_step (FrameStarted t) c = record_frame_started t c"
| "clock_step (Submitted t) c = record_submission t c"

definition clock_inv :: "frame_clock \<Rightarrow> bool" where
  "clock_inv c \<longleftrightarrow>
     1000 \<le> refresh_millihertz c \<and> refresh_millihertz c \<le> 1000000 \<and>
     (case (phase_anchor c, last_frame_started c) of
        (None, None) \<Rightarrow> True
      | (Some a, Some l) \<Rightarrow> a \<le> l
      | _ \<Rightarrow> False)"

lemma clock_inv_set:
  "clock_inv c \<Longrightarrow> clock_inv (set_refresh_millihertz r c)"
  by (auto simp: clock_inv_def set_refresh_millihertz_def DEFAULT_REFRESH_MILLIHERTZ_def Let_def
      split: option.splits)

lemma clock_inv_started: "clock_inv c \<Longrightarrow> clock_inv (record_frame_started t c)"
  by (auto simp: clock_inv_def record_frame_started_def max_def split: option.splits)

lemma clock_inv_submission: "clock_inv c \<Longrightarrow> clock_inv (record_submission t c)"
  by (simp add: record_submission_def clock_inv_started)

lemma clock_inv_new: "clock_inv (frame_clock_new r)"
  unfolding frame_clock_new_def
  by (rule clock_inv_set) (simp add: clock_inv_def DEFAULT_REFRESH_MILLIHERTZ_def)

interpretation window_clock: invariant_component clock_step "frame_clock_new r" clock_inv for r
proof (unfold_locales, goal_cases)
  case 1
  show ?case by (rule clock_inv_new)
next
  case (2 c e)
  then show ?case
    by (cases e) (auto simp: clock_inv_set clock_inv_started clock_inv_submission)
qed

subsection \<open>Deadlines\<close>

lemma period_covers_rate: "0 < rate \<Longrightarrow> 1000000000000 \<le> rate * period_ns rate"
proof -
  assume r: "0 < rate"
  have "1000000000000 + rate - 1 < rate * ((1000000000000 + rate - 1) div rate) + rate"
    using r by (metis div_mult_mod_eq mod_less_divisor mult.commute nat_add_left_cancel_less)
  then show ?thesis by (simp add: period_ns_def)
qed

lemma period_pos: "clock_inv c \<Longrightarrow> 0 < period_ns (refresh_millihertz c)"
  using period_covers_rate [of "refresh_millihertz c"]
  by (auto simp: clock_inv_def intro: gr0I)

lemma next_slot:
  fixes a l p :: nat
  assumes "a \<le> l" "0 < p"
  shows "l + (p - (l - a) mod p) = a + ((l - a) div p + 1) * p"
proof -
  define q m where "q = (l - a) div p * p" and "m = (l - a) mod p"
  have "m < p" using assms(2) by (simp add: m_def)
  moreover have "l = a + q + m"
    using assms(1) div_mult_mod_eq [of "l - a" p] by (simp add: q_def m_def)
  ultimately have "l + (p - m) = a + (q + p)" by simp
  then show ?thesis by (simp add: q_def m_def add.commute)
qed

lemma next_due_eq:
  assumes "clock_inv c" "phase_anchor c = Some a" "last_frame_started c = Some l"
  shows "next_due now True c =
    Some (max (a + ((l - a) div period_ns (refresh_millihertz c) + 1)
                 * period_ns (refresh_millihertz c)) now)"
  using assms next_slot [OF _ period_pos [OF assms(1)], of a l]
  by (simp add: next_due_def clock_inv_def Let_def)

text \<open>
  after any sequence of rate changes, frame starts and submissions, a clock with no
  work has no deadline; with work, its deadline is never in the past, and once a frame has
  started it is the current time or the first boundary of the phase grid after the last
  start, at most one period later.
\<close>

theorem next_due_on_grid:
  assumes "c = run_events clock_step es (frame_clock_new r)"
  shows "next_due now False c = None
    \<and> (\<exists>d. next_due now True c = Some d \<and> now \<le> d
        \<and> (last_frame_started c = None \<longrightarrow> d = now)
        \<and> (\<forall>l. last_frame_started c = Some l \<longrightarrow>
             (\<exists>a k. phase_anchor c = Some a
                \<and> d = max now (a + k * period_ns (refresh_millihertz c))
                \<and> l < a + k * period_ns (refresh_millihertz c)
                \<and> a + k * period_ns (refresh_millihertz c)
                    \<le> l + period_ns (refresh_millihertz c))))"
proof -
  have inv: "clock_inv c" unfolding assms by (rule window_clock.inv_run)
  let ?p = "period_ns (refresh_millihertz c)"
  show ?thesis
  proof (cases "last_frame_started c")
    case None
    with inv have "phase_anchor c = None" by (auto simp: clock_inv_def split: option.splits)
    with None show ?thesis by (simp add: next_due_def)
  next
    case (Some l)
    with inv obtain a where a: "phase_anchor c = Some a" "a \<le> l"
      by (auto simp: clock_inv_def split: option.splits)
    define k where "k = (l - a) div ?p + 1"
    let ?d = "a + k * ?p"
    have eq: "l + (?p - (l - a) mod ?p) = ?d"
      unfolding k_def by (rule next_slot [OF a(2) period_pos [OF inv]])
    have "(l - a) mod ?p < ?p" using period_pos [OF inv] by simp
    then have "l < ?d" "?d \<le> l + ?p" unfolding eq [symmetric] by simp_all
    moreover have "next_due now True c = Some (max ?d now)"
      unfolding k_def by (rule next_due_eq [OF inv a(1) Some])
    moreover have "next_due now False c = None" by (simp add: next_due_def)
    ultimately show ?thesis using a Some by (auto simp: max.commute)
  qed
qed

theorem next_due_on_grid_witness:
  "next_due 20000000 False (run_events clock_step [FrameStarted 5] (frame_clock_new None)) = None"
  using next_due_on_grid [of "run_events clock_step [FrameStarted 5] (frame_clock_new None)"
      "[FrameStarted 5]" None 20000000]
  by simp

subsection \<open>Rate\<close>

text \<open>
  A caller that starts a frame only when it is due: \<open>paced c ts\<close> holds when each instant of
  \<open>ts\<close> is due at that instant, the frame is recorded, and so on.
\<close>

fun paced :: "frame_clock \<Rightarrow> instant list \<Rightarrow> bool" where
  "paced c [] = True"
| "paced c (t # ts) \<longleftrightarrow> next_due t True c = Some t \<and> paced (record_frame_started t c) ts"

lemma paced_step:
  assumes "clock_inv c" "phase_anchor c = Some a" "last_frame_started c = Some l"
    and "a + k * period_ns (refresh_millihertz c) \<le> l"
    and "next_due t True c = Some t"
  shows "a + (k + 1) * period_ns (refresh_millihertz c) \<le> t"
proof -
  let ?p = "period_ns (refresh_millihertz c)"
  have "k \<le> (l - a) div ?p"
    using assms(4) period_pos [OF assms(1)] by (simp add: less_eq_div_iff_mult_less_eq)
  then have "(k + 1) * ?p \<le> ((l - a) div ?p + 1) * ?p" by simp
  moreover have "a + ((l - a) div ?p + 1) * ?p \<le> t"
    using next_due_eq [OF assms(1-3), of t] assms(5) by simp
  ultimately show ?thesis by linarith
qed

lemma paced_spacing:
  assumes "clock_inv c" "phase_anchor c = Some a" "last_frame_started c = Some l"
    and "a + k * period_ns (refresh_millihertz c) \<le> l" "paced c ts" "j < length ts"
  shows "a + (k + j + 1) * period_ns (refresh_millihertz c) \<le> ts ! j"
  using assms
proof (induction ts arbitrary: c l k j)
  case (Cons t ts)
  let ?c = "record_frame_started t c"
  from Cons.prems have due: "next_due t True c = Some t" and rest: "paced ?c ts" by simp_all
  note first = paced_step [OF Cons.prems(1-4) due]
  show ?case
  proof (cases j)
    case 0
    with first show ?thesis by simp
  next
    case (Suc i)
    have c: "phase_anchor ?c = Some a" "last_frame_started ?c = Some (max l t)"
        "refresh_millihertz ?c = refresh_millihertz c"
      using Cons.prems(2,3) by (simp_all add: record_frame_started_def)
    have "a + (k + 1) * period_ns (refresh_millihertz ?c) \<le> max l t"
      using first c(3) by simp
    from Cons.IH [OF clock_inv_started [OF Cons.prems(1)] c(1) c(2) this rest, of i]
    show ?thesis using Suc Cons.prems(6) c(3) by (simp add: algebra_simps)
  qed
qed simp

text \<open>
  a window that renders only when its clock says so never exceeds the refresh rate:
  the frame started after \<open>j\<close> others comes at least \<open>j\<close> rounded-up periods after the
  first, which is at least \<open>j\<close> exact periods of the rate in millihertz.
\<close>

theorem paced_never_exceeds_rate:
  assumes "paced (frame_clock_new r) (t # ts)" and "j < length (t # ts)"
  shows "t + j * period_ns (refresh_millihertz (frame_clock_new r)) \<le> (t # ts) ! j
    \<and> j * 1000000000000 \<le> ((t # ts) ! j - t) * refresh_millihertz (frame_clock_new r)"
proof -
  let ?c = "frame_clock_new r" and ?c1 = "record_frame_started t (frame_clock_new r)"
  let ?p = "period_ns (refresh_millihertz ?c)"
  have fresh: "phase_anchor ?c = None" "last_frame_started ?c = None"
    by (simp_all add: frame_clock_new_def set_refresh_millihertz_def Let_def)
  have c1: "phase_anchor ?c1 = Some t" "last_frame_started ?c1 = Some t"
      "refresh_millihertz ?c1 = refresh_millihertz ?c"
    by (simp_all add: record_frame_started_def fresh)
  have spaced: "t + j * ?p \<le> (t # ts) ! j"
  proof (cases j)
    case (Suc i)
    with assms have "paced ?c1 ts" "i < length ts" by simp_all
    from paced_spacing [OF clock_inv_started [OF clock_inv_new] c1(1,2) _ this(1) this(2), of 0]
    show ?thesis using Suc c1(3) by simp
  qed simp
  have "0 < refresh_millihertz ?c" using clock_inv_new [of r] by (simp add: clock_inv_def)
  then have "j * 1000000000000 \<le> j * (refresh_millihertz ?c * ?p)"
    using period_covers_rate by (simp add: mult_le_mono2)
  also have "\<dots> = (j * ?p) * refresh_millihertz ?c" by (simp add: algebra_simps)
  also have "\<dots> \<le> ((t # ts) ! j - t) * refresh_millihertz ?c"
    using spaced by (intro mult_le_mono1) simp
  finally show ?thesis using spaced by simp
qed

theorem paced_never_exceeds_rate_witness:
  "paced (frame_clock_new None) [100, 16666767, 40000000]
   \<and> 100 + 2 * period_ns 60000 \<le> (40000000 :: nat)"
proof -
  have n: "refresh_millihertz (frame_clock_new None) = 60000"
    by (simp add: frame_clock_new_def set_refresh_millihertz_def DEFAULT_REFRESH_MILLIHERTZ_def)
  have p: "paced (frame_clock_new None) (100 # [16666767, 40000000])"
    by (simp add: frame_clock_new_def set_refresh_millihertz_def DEFAULT_REFRESH_MILLIHERTZ_def
        next_due_def record_frame_started_def period_ns_def Let_def)
  have j: "2 < length (100 # [16666767, 40000000 :: nat])" by simp
  from paced_never_exceeds_rate [OF p j] p n show ?thesis by simp
qed

end
