(* ===== verification/Frame_Gate.thy ===== *)
theory Frame_Gate
  imports Prelude
begin

unbundle bit_operations_syntax

text \<open>
  \<open>FrameGate\<close> of \<open>src/texture_lifetime.rs\<close>: one atomic machine word holds the number of
  frames in flight (low 62 bits), the draining flag (bit 62) and the deferred redraw flag
  (bit 63). The word operations are kept at their width and refine an abstract gate of a
  number and two flags; the properties of the gate are proved once on the abstract one.
\<close>

subsection \<open>The word\<close>

type_synonym usize = "64 word"

definition MAX_FRAMES :: nat where
  "MAX_FRAMES = 3"

definition REDRAW_WAITING :: usize where
  "REDRAW_WAITING = push_bit 63 1"

definition DRAINING :: usize where
  "DRAINING = drop_bit 1 REDRAW_WAITING"

definition FRAME_COUNT :: usize where
  "FRAME_COUNT = NOT (REDRAW_WAITING OR DRAINING)"

definition defer_redraw :: "usize \<Rightarrow> usize" where
  "defer_redraw state = state OR REDRAW_WAITING"

definition defer_until_idle :: "usize \<Rightarrow> usize" where
  "defer_until_idle state = state OR (DRAINING OR REDRAW_WAITING)"

text \<open>One pass of the loop of \<open>admit\<close>: the next word and the answer.\<close>

definition admit_pass :: "bool \<Rightarrow> usize \<Rightarrow> usize \<times> bool" where
  "admit_pass reserve state =
     (let count = state AND FRAME_COUNT;
          ready = count < of_nat MAX_FRAMES \<and> (state AND DRAINING = 0 \<or> count = 0);
          next = (if ready then (state AND NOT DRAINING) + (if reserve then 1 else 0)
                  else state OR REDRAW_WAITING)
      in (next, ready))"

definition gate_admit :: "bool \<Rightarrow> usize \<Rightarrow> usize list \<Rightarrow> usize \<times> bool" where
  "gate_admit reserve loaded seen = cas_loop (admit_pass reserve) loaded seen"

definition gate_ready :: "usize \<Rightarrow> usize list \<Rightarrow> usize \<times> bool" where
  "gate_ready = gate_admit False"

definition release_pass :: "usize \<Rightarrow> usize \<times> bool" where
  "release_pass state =
     (let draining = (state AND DRAINING \<noteq> 0 \<and> (state AND FRAME_COUNT) > 1);
          next = (if draining then state - 1 else (state - 1) AND NOT REDRAW_WAITING)
      in (next, \<not> draining \<and> state AND REDRAW_WAITING \<noteq> 0))"

definition gate_release :: "usize \<Rightarrow> usize list \<Rightarrow> usize \<times> bool" where
  "gate_release loaded seen = cas_loop release_pass loaded seen"

subsection \<open>The abstract gate\<close>

record gate =
  in_flight :: nat
  drain :: bool
  redraw :: bool

definition gate_init :: gate where
  "gate_init = \<lparr>in_flight = 0, drain = False, redraw = False\<rparr>"

definition encode :: "gate \<Rightarrow> usize" where
  "encode g = of_nat (in_flight g) OR (if drain g then DRAINING else 0)
     OR (if redraw g then REDRAW_WAITING else 0)"

definition spec_ready :: "gate \<Rightarrow> bool" where
  "spec_ready g \<longleftrightarrow> in_flight g < 3 \<and> (\<not> drain g \<or> in_flight g = 0)"

definition spec_admit :: "bool \<Rightarrow> gate \<Rightarrow> gate \<times> bool" where
  "spec_admit reserve g =
     (if spec_ready g
      then (g\<lparr>drain := False, in_flight := in_flight g + (if reserve then 1 else 0)\<rparr>, True)
      else (g\<lparr>redraw := True\<rparr>, False))"

definition spec_release :: "gate \<Rightarrow> gate \<times> bool" where
  "spec_release g =
     (if drain g \<and> in_flight g > 1 then (g\<lparr>in_flight := in_flight g - 1\<rparr>, False)
      else (g\<lparr>in_flight := in_flight g - 1, redraw := False\<rparr>, redraw g))"

lemmas gate_word_defs =
  REDRAW_WAITING_def DRAINING_def FRAME_COUNT_def encode_def MAX_FRAMES_def

lemma small_cases: "n \<le> 3 \<longleftrightarrow> n = 0 \<or> n = 1 \<or> n = 2 \<or> n = (3::nat)"
  by arith

lemma frame_count_words:
  "REDRAW_WAITING = 9223372036854775808" "DRAINING = 4611686018427387904"
  "FRAME_COUNT = 4611686018427387903"
  by (simp_all add: REDRAW_WAITING_def DRAINING_def FRAME_COUNT_def)

lemma admit_refines:
  assumes "in_flight g \<le> 3"
  shows "admit_pass reserve (encode g) = map_prod encode id (spec_admit reserve g)"
  using assms
  by (cases g; cases "drain g"; cases "redraw g"; cases reserve)
    (auto simp: small_cases admit_pass_def encode_def spec_admit_def spec_ready_def
      frame_count_words MAX_FRAMES_def Let_def)

lemma release_refines:
  assumes "in_flight g \<le> 3" and "0 < in_flight g"
  shows "release_pass (encode g) = map_prod encode id (spec_release g)"
  using assms
  by (cases g; cases "drain g"; cases "redraw g")
    (auto simp: small_cases release_pass_def encode_def spec_release_def
      frame_count_words Let_def)

lemma defer_redraw_refines:
  "in_flight g \<le> 3 \<Longrightarrow> defer_redraw (encode g) = encode (g\<lparr>redraw := True\<rparr>)"
  by (simp add: defer_redraw_def encode_def or.assoc)

lemma defer_until_idle_refines:
  "in_flight g \<le> 3 \<Longrightarrow>
   defer_until_idle (encode g) = encode (g\<lparr>drain := True, redraw := True\<rparr>)"
  by (cases "drain g"; cases "redraw g")
    (simp_all add: defer_until_idle_def encode_def ac_simps)

subsection \<open>Runs of the gate\<close>

text \<open>
  The operations of the renderer and of the completion handlers, in the order in which
  their exchanges succeed. The answer of \<open>ready\<close> and \<open>begin\<close> is the admission, the answer
  of a release is the request to redraw; the other operations answer nothing (\<open>False\<close>).
\<close>

datatype gate_event = GReady | GBegin | GDeferRedraw | GDeferUntilIdle | GRelease

fun word_step :: "gate_event \<Rightarrow> usize \<Rightarrow> usize \<times> bool" where
  "word_step GReady s = admit_pass False s"
| "word_step GBegin s = admit_pass True s"
| "word_step GDeferRedraw s = (defer_redraw s, False)"
| "word_step GDeferUntilIdle s = (defer_until_idle s, False)"
| "word_step GRelease s = release_pass s"

fun spec_step :: "gate_event \<Rightarrow> gate \<Rightarrow> gate \<times> bool" where
  "spec_step GReady g = spec_admit False g"
| "spec_step GBegin g = spec_admit True g"
| "spec_step GDeferRedraw g = (g\<lparr>redraw := True\<rparr>, False)"
| "spec_step GDeferUntilIdle g = (g\<lparr>drain := True, redraw := True\<rparr>, False)"
| "spec_step GRelease g = spec_release g"

fun run_outputs :: "('e \<Rightarrow> 's \<Rightarrow> 's \<times> 'o) \<Rightarrow> 'e list \<Rightarrow> 's \<Rightarrow> 's \<times> 'o list" where
  "run_outputs f [] s = (s, [])"
| "run_outputs f (e # es) s =
     (case f e s of (s', b) \<Rightarrow> case run_outputs f es s' of (t, bs) \<Rightarrow> (t, b # bs))"

text \<open>A frame is released only while it is in flight.\<close>

fun legal :: "gate_event list \<Rightarrow> gate \<Rightarrow> bool" where
  "legal [] g = True"
| "legal (e # es) g \<longleftrightarrow> (e = GRelease \<longrightarrow> 0 < in_flight g) \<and> legal es (fst (spec_step e g))"

lemma spec_step_bound: "in_flight g \<le> 3 \<Longrightarrow> in_flight (fst (spec_step e g)) \<le> 3"
  by (cases e) (auto simp: spec_admit_def spec_ready_def spec_release_def)

lemma step_refines:
  assumes "in_flight g \<le> 3" and "e = GRelease \<longrightarrow> 0 < in_flight g"
  shows "word_step e (encode g) = map_prod encode id (spec_step e g)"
  using assms
  by (cases e)
    (simp_all add: admit_refines release_refines defer_redraw_refines defer_until_idle_refines)

lemma run_refines:
  assumes "in_flight g \<le> 3" and "legal es g"
  shows "run_outputs word_step es (encode g) = map_prod encode id (run_outputs spec_step es g)
    \<and> in_flight (fst (run_outputs spec_step es g)) \<le> 3"
  using assms
proof (induction es arbitrary: g)
  case (Cons e es)
  let ?g = "fst (spec_step e g)"
  have "word_step e (encode g) = (encode ?g, snd (spec_step e g))"
    using step_refines [of g e] Cons.prems by (simp add: map_prod_def split_beta)
  moreover have "in_flight ?g \<le> 3" using spec_step_bound Cons.prems by simp
  ultimately show ?case
    using Cons.IH [of ?g] Cons.prems by (auto simp: split_beta map_prod_def)
qed simp

lemma encode_init: "encode gate_init = 0"
  by (simp add: encode_def gate_init_def)

text \<open>
  C2: the atomic word implements the abstract gate. For every sequence of gate operations
  in which only frames in flight are released, the word is the encoding of the abstract
  state, every answer is the abstract one, and at most three frames are in flight; and an
  exchange loop has the effect of one operation at the value it last saw.
\<close>

theorem frame_gate_refines:
  assumes "legal es gate_init"
  shows "run_outputs word_step es 0 = map_prod encode id (run_outputs spec_step es gate_init)
    \<and> in_flight (fst (run_outputs spec_step es gate_init)) \<le> 3
    \<and> gate_admit reserve loaded seen = admit_pass reserve (last (loaded # seen))
    \<and> gate_release loaded seen = release_pass (last (loaded # seen))"
proof -
  have "in_flight gate_init \<le> 3" by (simp add: gate_init_def)
  from run_refines [OF this assms] show ?thesis
    by (simp add: encode_init gate_admit_def gate_release_def cas_loop_atomic)
qed

theorem frame_gate_refines_witness:
  "legal [GBegin, GBegin, GBegin, GBegin, GRelease] gate_init
   \<and> snd (run_outputs word_step [GBegin, GBegin, GBegin, GBegin, GRelease] 0)
     = [True, True, True, False, True]"
proof -
  let ?es = "[GBegin, GBegin, GBegin, GBegin, GRelease]"
  have l: "legal ?es gate_init"
    by (simp add: gate_init_def spec_admit_def spec_ready_def)
  from frame_gate_refines [OF l] l show ?thesis
    by (simp add: gate_init_def spec_admit_def spec_ready_def spec_release_def)
qed

subsection \<open>Deferred redraws\<close>

text \<open>A release of the run asked for a redraw.\<close>

definition redraw_requested :: "gate_event list \<Rightarrow> bool list \<Rightarrow> bool" where
  "redraw_requested es bs = list_ex (\<lambda>(e, b). e = GRelease \<and> b) (zip es bs)"

lemma demand_pending:
  assumes "redraw g" "0 < in_flight g" "legal es g"
    and "\<not> redraw_requested es (snd (run_outputs spec_step es g))"
  shows "redraw (fst (run_outputs spec_step es g)) \<and> 0 < in_flight (fst (run_outputs spec_step es g))"
  using assms
proof (induction es arbitrary: g)
  case (Cons e es)
  let ?g = "fst (spec_step e g)"
  have quiet: "\<not> (e = GRelease \<and> snd (spec_step e g))"
      "\<not> redraw_requested es (snd (run_outputs spec_step es ?g))"
    using Cons.prems(4) by (auto simp: redraw_requested_def split_beta)
  have "redraw ?g \<and> 0 < in_flight ?g"
    using Cons.prems(1,2) quiet(1)
    by (cases e) (auto simp: spec_admit_def spec_release_def split: if_splits)
  with Cons.IH [of ?g] Cons.prems(3) quiet(2) show ?case by (simp add: split_beta)
qed simp

lemma refused_demand:
  assumes "spec_step e g = (g', False)" and "e = GBegin \<or> e = GReady"
    and "legal es g'" and "in_flight (fst (run_outputs spec_step es g')) = 0"
  shows "redraw_requested es (snd (run_outputs spec_step es g'))"
proof -
  have "redraw g' \<and> 0 < in_flight g'"
    using assms(1,2) by (auto simp: spec_admit_def spec_ready_def split: if_splits)
  with demand_pending [of g' es] assms(3,4) show ?thesis by auto
qed

lemma legal_append: "legal (es @ fs) g \<longleftrightarrow> legal es g \<and> legal fs (fst (run_outputs spec_step es g))"
  by (induction es arbitrary: g) (auto simp: split_beta)

lemma encode_count:
  assumes "in_flight g \<le> 3"
  shows "encode g AND FRAME_COUNT = of_nat (in_flight g)"
  using assms
  by (cases g; cases "drain g"; cases "redraw g")
    (auto simp: small_cases encode_def frame_count_words)

text \<open>
  a refused frame is redrawn. After any history of the gate, when \<open>ready\<close> or \<open>begin\<close>
  answers no, then whatever happens next, by the time the word counts no frame in flight a
  completion has asked for the redraw.
\<close>

theorem refused_frame_redrawn:
  assumes "legal (before @ e # es) gate_init"
    and "word_step e (fst (run_outputs word_step before 0)) = (w, False)"
    and "e = GBegin \<or> e = GReady"
    and "fst (run_outputs word_step es w) AND FRAME_COUNT = 0"
  shows "redraw_requested es (snd (run_outputs word_step es w))"
proof -
  let ?g = "fst (run_outputs spec_step before gate_init)" and ?s = "spec_step e"
  have i3: "in_flight gate_init \<le> 3" by (simp add: gate_init_def)
  have legal: "legal before gate_init" "e = GRelease \<longrightarrow> 0 < in_flight ?g" "legal es (fst (?s ?g))"
    using assms(1) by (simp_all add: legal_append)
  note r0 = run_refines [OF i3 legal(1), unfolded encode_init]
  then have g3: "in_flight ?g \<le> 3" and w0: "fst (run_outputs word_step before 0) = encode ?g"
    by (simp_all add: map_prod_def split_beta)
  from step_refines [OF g3 legal(2)] assms(2) w0
  have w: "w = encode (fst (?s ?g))" and no: "?s ?g = (fst (?s ?g), False)"
    by (simp_all add: map_prod_def split_beta prod_eq_iff)
  have s3: "in_flight (fst (?s ?g)) \<le> 3" by (rule spec_step_bound [OF g3])
  note r1 = run_refines [OF s3 legal(3), folded w]
  let ?f = "fst (run_outputs spec_step es (fst (?s ?g)))"
  from r1 assms(4) have "(of_nat (in_flight ?f) :: usize) = 0"
    using encode_count [of ?f] by (simp add: map_prod_def split_beta)
  with r1 have "in_flight ?f = 0" by (auto simp: small_cases)
  from refused_demand [OF no assms(3) legal(3) this] r1 show ?thesis
    by (simp add: map_prod_def split_beta)
qed

theorem refused_frame_redrawn_witness:
  "legal ([GBegin, GBegin, GBegin] @ GBegin # [GRelease, GRelease, GRelease]) gate_init
   \<and> redraw_requested [GRelease, GRelease, GRelease]
     (snd (run_outputs word_step [GRelease, GRelease, GRelease] (3 OR REDRAW_WAITING)))"
proof -
  have l: "legal ([GBegin, GBegin, GBegin] @ GBegin # [GRelease, GRelease, GRelease]) gate_init"
    by (simp add: gate_init_def spec_admit_def spec_ready_def spec_release_def)
  have w: "word_step GBegin (fst (run_outputs word_step [GBegin, GBegin, GBegin] 0))
      = (3 OR REDRAW_WAITING, False)"
    by (simp add: admit_pass_def frame_count_words MAX_FRAMES_def)
  have z: "fst (run_outputs word_step [GRelease, GRelease, GRelease] (3 OR REDRAW_WAITING))
      AND FRAME_COUNT = 0"
    by (simp add: release_pass_def frame_count_words)
  from refused_frame_redrawn [OF l w _ z] l show ?thesis by simp
qed

end
