(* ===== verification/Render_Budget.thy ===== *)
theory Render_Budget
  imports Prelude
begin

text \<open>
  \<open>src/render_budget.rs\<close>: process-wide admission of texture storage. One budget is shared by
  all renderers (\<open>TextureBudget::shared\<close>); each renderer is a client with a share of its own
  and a wake callback. The objects behind \<open>Arc\<close> and \<open>Weak\<close> live in a heap: a reservation or
  a client that is gone is absent from it, and a weak reference is an index.
\<close>

subsection \<open>State\<close>

record budget_wake =
  waiting :: bool
  w_bytes :: nat
  w_allocations :: nat
  w_oversized_bytes :: nat
  w_oversized_allocations :: nat
  notified :: nat

definition budget_wake_new :: budget_wake where
  "budget_wake_new =
     \<lparr>waiting = False, w_bytes = 0, w_allocations = 0, w_oversized_bytes = 0,
      w_oversized_allocations = 0, notified = 0\<rparr>"

record texture_reservation =
  r_client :: nat
  r_bytes :: nat
  r_oversized :: bool
  r_retired :: bool
  r_readers :: nat

datatype budget_error = TooLarge | Pressure

text \<open>The limits of a budget, its counters (\<open>BudgetState\<close>) and the heap it accounts for.\<close>

record budget_limits =
  max_bytes :: nat
  max_allocations :: nat
  max_client_bytes :: nat
  max_client_allocations :: nat

record texture_budget = budget_limits +
  bytes :: nat
  allocations :: nat
  waiters :: "nat list"
  reservations :: "nat list"
  clients :: "nat \<rightharpoonup> budget_wake"
  heap :: "nat \<rightharpoonup> texture_reservation"
  next_id :: nat
  notifying :: "nat list"

definition MAX_TEXTURE_BYTES :: nat where
  "MAX_TEXTURE_BYTES = 256 * 1024 * 1024"

definition MAX_TEXTURE_ALLOCATIONS :: nat where
  "MAX_TEXTURE_ALLOCATIONS = 4096"

definition MAX_RENDERER_TEXTURE_BYTES :: nat where
  "MAX_RENDERER_TEXTURE_BYTES = 64 * 1024 * 1024"

definition MAX_RENDERER_TEXTURE_ALLOCATIONS :: nat where
  "MAX_RENDERER_TEXTURE_ALLOCATIONS = 1024"

definition with_client_limits :: "nat \<Rightarrow> nat \<Rightarrow> nat \<Rightarrow> nat \<Rightarrow> texture_budget" where
  "with_client_limits mb ma mcb mca =
     \<lparr>max_bytes = mb, max_allocations = ma, max_client_bytes = mcb,
      max_client_allocations = mca, bytes = 0, allocations = 0, waiters = [],
      reservations = [], clients = Map.empty, heap = Map.empty, next_id = 0,
      notifying = []\<rparr>"

definition shared :: texture_budget where
  "shared = with_client_limits MAX_TEXTURE_BYTES MAX_TEXTURE_ALLOCATIONS
     MAX_RENDERER_TEXTURE_BYTES MAX_RENDERER_TEXTURE_ALLOCATIONS"

text \<open>A renderer registers its wake callback (\<open>BudgetWake::new\<close>).\<close>

definition add_client :: "nat \<Rightarrow> texture_budget \<Rightarrow> texture_budget" where
  "add_client w b = (if clients b w = None then b\<lparr>clients := (clients b)(w \<mapsto> budget_wake_new)\<rparr> else b)"

subsection \<open>Reservations\<close>

definition is_retired :: "texture_reservation \<Rightarrow> bool" where
  "is_retired r = r_retired r"

definition has_readers :: "texture_reservation \<Rightarrow> bool" where
  "has_readers r \<longleftrightarrow> r_readers r \<noteq> 0"

definition upd_reservation ::
  "nat \<Rightarrow> (texture_reservation \<Rightarrow> texture_reservation) \<Rightarrow> texture_budget \<Rightarrow> texture_budget" where
  "upd_reservation p f b = b\<lparr>heap := (heap b)(p := map_option f (heap b p))\<rparr>"

definition set_retired :: "nat \<Rightarrow> bool \<Rightarrow> texture_budget \<Rightarrow> texture_budget" where
  "set_retired p flag b = upd_reservation p (\<lambda>r. r\<lparr>r_retired := flag\<rparr>) b"

definition begin_read :: "nat \<Rightarrow> texture_budget \<Rightarrow> texture_budget" where
  "begin_read p b = upd_reservation p (\<lambda>r. r\<lparr>r_readers := r_readers r + 1\<rparr>) b"

text \<open>\<open>fetch_sub\<close> wraps below zero; the debug assertion says it does not get there.\<close>

definition end_read :: "nat \<Rightarrow> texture_budget \<Rightarrow> texture_budget" where
  "end_read p b =
     upd_reservation p
       (\<lambda>r. r\<lparr>r_readers := (if r_readers r = 0 then usize_max else r_readers r - 1)\<rparr>) b"

subsection \<open>Waiting and waking\<close>

definition wait :: "nat \<Rightarrow> texture_budget \<Rightarrow> texture_budget" where
  "wait w b =
     (case clients b w of
        None \<Rightarrow> b
      | Some k \<Rightarrow>
          if waiting k then b
          else b\<lparr>clients := (clients b)(w \<mapsto> k\<lparr>waiting := True\<rparr>),
                 waiters := filter (\<lambda>x. clients b x \<noteq> None) (waiters b) @ [w]\<rparr>)"

definition defer_wake :: "nat \<Rightarrow> texture_budget \<Rightarrow> texture_budget" where
  "defer_wake w b = wait w b"

text \<open>
  \<open>std::mem::take(&mut waiters)\<close> under the lock, then one \<open>notify_waiters\<close> iteration for
  each client taken, outside it: \<open>notifying\<close> holds the clients taken and not yet reached.
\<close>

definition take_waiters :: "texture_budget \<Rightarrow> texture_budget" where
  "take_waiters b = b\<lparr>notifying := notifying b @ waiters b, waiters := []\<rparr>"

definition notify_waiter :: "nat \<Rightarrow> texture_budget \<Rightarrow> texture_budget" where
  "notify_waiter w b =
     (case clients b w of
        None \<Rightarrow> b
      | Some k \<Rightarrow>
          if waiting k
          then b\<lparr>clients := (clients b)(w \<mapsto> k\<lparr>waiting := False, notified := notified k + 1\<rparr>)\<rparr>
          else b)"

definition notify_next :: "texture_budget \<Rightarrow> texture_budget" where
  "notify_next b =
     (case notifying b of
        [] \<Rightarrow> b
      | w # ws \<Rightarrow> notify_waiter w (b\<lparr>notifying := ws\<rparr>))"

definition notify_waiters :: "texture_budget \<Rightarrow> texture_budget" where
  "notify_waiters b = (notify_next ^^ length (notifying b)) b"

definition wake_waiters :: "texture_budget \<Rightarrow> texture_budget" where
  "wake_waiters b = notify_waiters (take_waiters b)"

subsection \<open>Admission\<close>

text \<open>The credit for an exclusively selected idle reservation of the same client.\<close>

definition replacing_credit :: "nat \<Rightarrow> nat option \<Rightarrow> texture_budget \<Rightarrow> texture_reservation option" where
  "replacing_credit w idle b =
     (case Option.bind idle (heap b) of
        None \<Rightarrow> None
      | Some r \<Rightarrow> if r_client r = w \<and> \<not> has_readers r then Some r else None)"

definition local_usage :: "budget_wake \<Rightarrow> texture_reservation option \<Rightarrow> nat \<times> nat \<times> nat" where
  "local_usage k credit =
     (w_bytes k - w_oversized_bytes k
        - (case credit of None \<Rightarrow> 0 | Some r \<Rightarrow> if r_oversized r then 0 else r_bytes r),
      w_oversized_allocations k
        - (case credit of None \<Rightarrow> 0 | Some r \<Rightarrow> if r_oversized r then 1 else 0),
      w_allocations k - (if credit = None then 0 else 1))"

text \<open>The reservation itself: the charges and the new heap object.\<close>

definition charge :: "nat \<Rightarrow> nat \<Rightarrow> budget_wake \<Rightarrow> texture_budget \<Rightarrow> texture_budget" where
  "charge n w k b =
     (let oversized = n > max_client_bytes b in
      b\<lparr>bytes := bytes b + n,
        allocations := allocations b + 1,
        clients := (clients b)(w \<mapsto> k\<lparr>
          w_bytes := w_bytes k + n,
          w_allocations := w_allocations k + 1,
          w_oversized_bytes := w_oversized_bytes k + (if oversized then n else 0),
          w_oversized_allocations := w_oversized_allocations k + (if oversized then 1 else 0)\<rparr>),
        heap := (heap b)(next_id b \<mapsto>
          \<lparr>r_client = w, r_bytes = n, r_oversized = oversized, r_retired = False, r_readers = 0\<rparr>),
        reservations := filter (\<lambda>p. heap b p \<noteq> None) (reservations b) @ [next_id b],
        next_id := next_id b + 1\<rparr>)"

definition try_reserve_replacing ::
  "nat \<Rightarrow> nat \<Rightarrow> nat option \<Rightarrow> texture_budget \<Rightarrow> (budget_error + nat) \<times> texture_budget" where
  "try_reserve_replacing n w idle b =
     (if n = 0 \<or> n > max_bytes b then (Inl TooLarge, b)
      else case clients b w of
        None \<Rightarrow> (Inl Pressure, b)
      | Some k \<Rightarrow>
          let (normal_bytes, oversized_allocations, local_allocations) =
                local_usage k (replacing_credit w idle b);
              oversized = n > max_client_bytes b
          in if n > max_bytes b - bytes b
                \<or> allocations b \<ge> max_allocations b
                \<or> (oversized \<and> oversized_allocations \<noteq> 0)
                \<or> (\<not> oversized \<and> n > max_client_bytes b - normal_bytes)
                \<or> local_allocations \<ge> max_client_allocations b
             then (Inl Pressure, wait w b)
             else (Inr (next_id b), charge n w k b))"

text \<open>\<open>TextureReservation::drop\<close>: the charges go back and every waiter is taken to be notified.\<close>

definition release_charges :: "nat \<Rightarrow> texture_budget \<Rightarrow> texture_budget" where
  "release_charges p b =
     (case heap b p of
        None \<Rightarrow> b
      | Some r \<Rightarrow>
          take_waiters (b\<lparr>
            bytes := bytes b - r_bytes r,
            allocations := allocations b - 1,
            clients := (case clients b (r_client r) of
               None \<Rightarrow> clients b
             | Some k \<Rightarrow> (clients b)(r_client r \<mapsto> k\<lparr>
                 w_bytes := w_bytes k - r_bytes r,
                 w_allocations := w_allocations k - 1,
                 w_oversized_bytes := w_oversized_bytes k - (if r_oversized r then r_bytes r else 0),
                 w_oversized_allocations :=
                   w_oversized_allocations k - (if r_oversized r then 1 else 0)\<rparr>)),
            heap := (heap b)(p := None)\<rparr>))"

definition texture_reservation_drop :: "nat \<Rightarrow> texture_budget \<Rightarrow> texture_budget" where
  "texture_reservation_drop p b = notify_waiters (release_charges p b)"

definition has_reclaimable_readers :: "texture_budget \<Rightarrow> bool" where
  "has_reclaimable_readers b =
     list_ex (\<lambda>p. case heap b p of None \<Rightarrow> False | Some r \<Rightarrow> is_retired r \<and> r_readers r \<noteq> 0)
       (reservations b)"

text \<open>
  \<open>notify_reclaimable\<close> on the reservations of a completed frame: whether one of them is
  retired, and one wake of the budget if one is also idle.
\<close>

definition notify_reclaimable :: "nat list \<Rightarrow> texture_budget \<Rightarrow> bool \<times> texture_budget" where
  "notify_reclaimable ps b =
     (let rs = List.map_filter (heap b) ps;
          reclaim = list_ex is_retired rs;
          budgets = list_ex (\<lambda>r. is_retired r \<and> \<not> has_readers r) rs
      in (reclaim, if budgets then wake_waiters b else b))"

subsection \<open>Accounting\<close>

text \<open>The sum of a measure over the live reservations of one client.\<close>

definition usage ::
  "(texture_reservation \<Rightarrow> nat) \<Rightarrow> (nat \<rightharpoonup> texture_reservation) \<Rightarrow> nat \<Rightarrow> nat list \<Rightarrow> nat" where
  "usage f h w ps =
     (\<Sum>p\<leftarrow>ps. case h p of None \<Rightarrow> 0 | Some r \<Rightarrow> if r_client r = w then f r else 0)"

definition total :: "(texture_reservation \<Rightarrow> nat) \<Rightarrow> (nat \<rightharpoonup> texture_reservation) \<Rightarrow> nat list \<Rightarrow> nat" where
  "total f h ps = (\<Sum>p\<leftarrow>ps. case h p of None \<Rightarrow> 0 | Some r \<Rightarrow> f r)"

definition over_bytes :: "texture_reservation \<Rightarrow> nat" where
  "over_bytes r = (if r_oversized r then r_bytes r else 0)"

definition over_one :: "texture_reservation \<Rightarrow> nat" where
  "over_one r = (if r_oversized r then 1 else 0)"

definition normal_bytes :: "texture_reservation \<Rightarrow> nat" where
  "normal_bytes r = (if r_oversized r then 0 else r_bytes r)"

definition one :: "texture_reservation \<Rightarrow> nat" where
  "one r = 1"

definition counters :: "budget_wake \<Rightarrow> nat \<times> nat \<times> nat \<times> nat" where
  "counters k = (w_bytes k, w_allocations k, w_oversized_bytes k, w_oversized_allocations k)"

definition expected :: "(nat \<rightharpoonup> texture_reservation) \<Rightarrow> nat list \<Rightarrow> nat \<Rightarrow> nat \<times> nat \<times> nat \<times> nat" where
  "expected h ps w =
     (usage r_bytes h w ps, usage one h w ps, usage over_bytes h w ps, usage over_one h w ps)"

definition heap_ok :: "texture_budget \<Rightarrow> nat list \<Rightarrow> bool" where
  "heap_ok b ps \<longleftrightarrow>
     distinct ps \<and> dom (heap b) = set ps \<and> (\<forall>p \<in> set ps. p < next_id b)
     \<and> (\<forall>p r. heap b p = Some r \<longrightarrow> clients b (r_client r) \<noteq> None
              \<and> r_oversized r = (r_bytes r > max_client_bytes b))"

definition global_ok :: "texture_budget \<Rightarrow> nat list \<Rightarrow> bool" where
  "global_ok b ps \<longleftrightarrow>
     bytes b = total r_bytes (heap b) ps \<and> allocations b = length ps
     \<and> bytes b \<le> max_bytes b \<and> allocations b \<le> max_allocations b"

definition clients_ok :: "texture_budget \<Rightarrow> nat list \<Rightarrow> bool" where
  "clients_ok b ps \<longleftrightarrow>
     (\<forall>w k. clients b w = Some k \<longrightarrow> counters k = expected (heap b) ps w)"

definition shares_ok :: "texture_budget \<Rightarrow> nat list \<Rightarrow> bool" where
  "shares_ok b ps \<longleftrightarrow>
     (\<forall>w. usage normal_bytes (heap b) w ps \<le> 2 * max_client_bytes b
        \<and> usage over_one (heap b) w ps \<le> 2
        \<and> usage one (heap b) w ps \<le> max_client_allocations b + 1)"

definition budget_accounted :: "budget_limits \<Rightarrow> texture_budget \<Rightarrow> nat list \<Rightarrow> bool" where
  "budget_accounted lim b ps \<longleftrightarrow>
     budget_limits.truncate b = lim
     \<and> heap_ok b ps \<and> global_ok b ps \<and> clients_ok b ps \<and> shares_ok b ps"

lemmas accounted_defs =
  budget_accounted_def heap_ok_def global_ok_def clients_ok_def shares_ok_def

lemma usage_upd_fresh [simp]: "p \<notin> set ps \<Longrightarrow> usage f (h(p := x)) w ps = usage f h w ps"
  unfolding usage_def by (rule arg_cong [where f = sum_list], rule map_cong) auto

lemma total_upd_fresh [simp]: "p \<notin> set ps \<Longrightarrow> total f (h(p := x)) ps = total f h ps"
  unfolding total_def by (rule arg_cong [where f = sum_list], rule map_cong) auto

lemma usage_Cons [simp]:
  "usage f h w (p # ps)
     = (case h p of None \<Rightarrow> 0 | Some r \<Rightarrow> if r_client r = w then f r else 0) + usage f h w ps"
  by (simp add: usage_def)

lemma total_Cons [simp]:
  "total f h (p # ps) = (case h p of None \<Rightarrow> 0 | Some r \<Rightarrow> f r) + total f h ps"
  by (simp add: total_def)

lemma usage_remove1:
  assumes "p \<in> set ps" "h p = Some r"
  shows "usage f h w ps = (if r_client r = w then f r else 0) + usage f h w (remove1 p ps)"
  using sum_list_remove1 [OF assms(1)] assms(2) unfolding usage_def by fastforce

lemma total_remove1:
  assumes "p \<in> set ps" "h p = Some r"
  shows "total f h ps = f r + total f h (remove1 p ps)"
  using sum_list_remove1 [OF assms(1)] assms(2) unfolding total_def by fastforce

lemma usage_remove1_le: "usage f h w (remove1 p ps) \<le> usage f h w ps"
  by (induction ps) auto

lemma usage_split: "usage r_bytes h w ps = usage over_bytes h w ps + usage normal_bytes h w ps"
  by (induction ps)
    (auto simp: over_bytes_def normal_bytes_def split: option.splits,
     simp_all add: usage_def)

text \<open>Waiting and notification move no charge.\<close>

definition same_charges :: "texture_budget \<Rightarrow> texture_budget \<Rightarrow> bool" where
  "same_charges b b' \<longleftrightarrow>
     budget_limits.truncate b' = budget_limits.truncate b \<and> bytes b' = bytes b
     \<and> allocations b' = allocations b \<and> heap b' = heap b \<and> next_id b' = next_id b
     \<and> (\<forall>w. map_option counters (clients b' w) = map_option counters (clients b w))"

lemma same_charges_refl: "same_charges b b"
  by (simp add: same_charges_def)

lemma same_charges_trans: "same_charges a b \<Longrightarrow> same_charges b c \<Longrightarrow> same_charges a c"
  by (simp add: same_charges_def)

lemma same_charges_accounted:
  assumes "same_charges b b'" and "budget_accounted lim b ps"
  shows "budget_accounted lim b' ps"
proof -
  have lim: "max_bytes b' = max_bytes b" "max_allocations b' = max_allocations b"
      "max_client_bytes b' = max_client_bytes b"
      "max_client_allocations b' = max_client_allocations b"
    using assms(1) by (auto simp: same_charges_def budget_limits.truncate_def)
  have mo: "map_option counters (clients b' w) = map_option counters (clients b w)" for w
    using assms(1) by (simp add: same_charges_def)
  have cl: "clients b' w = None \<longleftrightarrow> clients b w = None" for w
    using mo [of w] by (cases "clients b w"; cases "clients b' w") simp_all
  have co: "counters k = expected (heap b') ps w" if "clients b' w = Some k" for w k
  proof -
    from mo [of w] that have "map_option counters (clients b w) = Some (counters k)" by simp
    then obtain k' where "clients b w = Some k'" "counters k' = counters k" by auto
    with assms(2) have "counters k = expected (heap b) ps w"
      by (simp add: budget_accounted_def clients_ok_def)
    with assms(1) show ?thesis by (simp add: same_charges_def)
  qed
  have rest: "heap b' = heap b" "bytes b' = bytes b" "allocations b' = allocations b"
      "next_id b' = next_id b" "budget_limits.truncate b' = budget_limits.truncate b"
    using assms(1) by (simp_all add: same_charges_def)
  from assms(2) have "heap_ok b' ps" "global_ok b' ps" "shares_ok b' ps"
    by (simp_all add: budget_accounted_def heap_ok_def global_ok_def shares_ok_def rest lim cl)
  moreover from co have "clients_ok b' ps" by (simp add: clients_ok_def)
  ultimately show ?thesis using assms(2) rest(5) by (simp add: budget_accounted_def)
qed

lemma wait_same: "same_charges b (wait w b)"
  by (auto simp: same_charges_def wait_def counters_def budget_limits.truncate_def
      split: option.splits)

lemma take_waiters_same: "same_charges b (take_waiters b)"
  by (simp add: same_charges_def take_waiters_def budget_limits.truncate_def)

lemma notify_waiter_same: "same_charges b (notify_waiter w b)"
  by (auto simp: same_charges_def notify_waiter_def counters_def budget_limits.truncate_def
      split: option.splits)

lemma notify_next_same: "same_charges b (notify_next b)"
proof (cases "notifying b")
  case (Cons w ws)
  have "same_charges b (b\<lparr>notifying := ws\<rparr>)"
    by (simp add: same_charges_def budget_limits.truncate_def)
  from same_charges_trans [OF this notify_waiter_same [of _ w]] Cons show ?thesis
    by (simp add: notify_next_def)
qed (simp add: notify_next_def same_charges_refl)

lemma notify_waiters_same: "same_charges b (notify_waiters b)"
proof -
  have "same_charges b ((notify_next ^^ n) b)" for n
  proof (induction n)
    case (Suc n)
    then show ?case using same_charges_trans [OF Suc notify_next_same] by simp
  qed (simp add: same_charges_refl)
  then show ?thesis by (simp add: notify_waiters_def)
qed

text \<open>Granting a reservation.\<close>

lemma credit_cases:
  assumes "replacing_credit w idle b = Some r"
  obtains p where "heap b p = Some r" "r_client r = w"
  using assms
  by (cases idle) (auto simp: replacing_credit_def split: option.splits if_splits)

lemma usage_member: "p \<in> set ps \<Longrightarrow> h p = Some r \<Longrightarrow> r_client r = w \<Longrightarrow> f r \<le> usage f h w ps"
  using usage_remove1 [of p ps h r f w] by simp

lemma reserve_granted:
  assumes "try_reserve_replacing n w idle b = (Inr p, b')"
  obtains k where "clients b w = Some k" "p = next_id b" "b' = charge n w k b"
    "0 < n" "n \<le> max_bytes b - bytes b" "allocations b < max_allocations b"
    "n > max_client_bytes b \<longrightarrow> fst (snd (local_usage k (replacing_credit w idle b))) = 0"
    "n \<le> max_client_bytes b \<longrightarrow>
       n \<le> max_client_bytes b - fst (local_usage k (replacing_credit w idle b))"
    "snd (snd (local_usage k (replacing_credit w idle b))) < max_client_allocations b"
proof -
  obtain k where k: "clients b w = Some k"
    using assms by (auto simp: try_reserve_replacing_def split: if_splits option.splits)
  obtain nb oa la where lu: "local_usage k (replacing_credit w idle b) = (nb, oa, la)"
    by (cases "local_usage k (replacing_credit w idle b)")
  from assms k lu have
    "\<not> (n = 0 \<or> n > max_bytes b)"
    "\<not> (n > max_bytes b - bytes b \<or> allocations b \<ge> max_allocations b
       \<or> (n > max_client_bytes b \<and> oa \<noteq> 0)
       \<or> (\<not> n > max_client_bytes b \<and> n > max_client_bytes b - nb)
       \<or> la \<ge> max_client_allocations b)"
    "p = next_id b" "b' = charge n w k b"
    by (auto simp: try_reserve_replacing_def Let_def split: if_splits)
  then show ?thesis using that [of k] k lu by auto
qed

lemma shares_after_charge:
  assumes acc: "budget_accounted lim b ps" and k: "clients b w = Some k"
    and n: "0 < n"
    and over: "n > max_client_bytes b \<longrightarrow> fst (snd (local_usage k (replacing_credit w idle b))) = 0"
    and normal: "n \<le> max_client_bytes b \<longrightarrow>
       n \<le> max_client_bytes b - fst (local_usage k (replacing_credit w idle b))"
    and allocs: "snd (snd (local_usage k (replacing_credit w idle b))) < max_client_allocations b"
  shows "usage normal_bytes (heap b) w ps + (if n > max_client_bytes b then 0 else n)
      \<le> 2 * max_client_bytes b"
    and "usage over_one (heap b) w ps + (if n > max_client_bytes b then 1 else 0) \<le> 2"
    and "usage one (heap b) w ps + 1 \<le> max_client_allocations b + 1"
proof -
  have cnt: "w_bytes k = usage r_bytes (heap b) w ps" "w_allocations k = usage one (heap b) w ps"
      "w_oversized_bytes k = usage over_bytes (heap b) w ps"
      "w_oversized_allocations k = usage over_one (heap b) w ps"
    using acc k by (auto simp: budget_accounted_def clients_ok_def counters_def expected_def)
  have share: "usage normal_bytes (heap b) w ps \<le> 2 * max_client_bytes b"
      "usage over_one (heap b) w ps \<le> 2"
    using acc by (auto simp: budget_accounted_def shares_ok_def)
  let ?cr = "replacing_credit w idle b"
  have credit: "normal_bytes r \<le> max_client_bytes b" if "?cr = Some r" for r
    using that acc
    by (elim credit_cases) (auto simp: budget_accounted_def heap_ok_def normal_bytes_def)
  have n1: "fst (local_usage k ?cr) + max_client_bytes b \<ge> usage normal_bytes (heap b) w ps"
    using credit usage_split [of "heap b" w ps]
    by (cases ?cr) (auto simp: local_usage_def cnt normal_bytes_def split: if_splits)
  show "usage normal_bytes (heap b) w ps + (if n > max_client_bytes b then 0 else n)
      \<le> 2 * max_client_bytes b"
    using n1 normal share n by (auto split: if_splits)
  show "usage over_one (heap b) w ps + (if n > max_client_bytes b then 1 else 0) \<le> 2"
    using over share by (auto simp: local_usage_def cnt split: option.splits if_splits)
  show "usage one (heap b) w ps + 1 \<le> max_client_allocations b + 1"
    using allocs by (auto simp: local_usage_def cnt split: if_splits)
qed

lemma charge_fields [simp]:
  "budget_limits.truncate (charge n w k b) = budget_limits.truncate b"
  "max_bytes (charge n w k b) = max_bytes b"
  "max_allocations (charge n w k b) = max_allocations b"
  "max_client_bytes (charge n w k b) = max_client_bytes b"
  "max_client_allocations (charge n w k b) = max_client_allocations b"
  "bytes (charge n w k b) = bytes b + n"
  "allocations (charge n w k b) = allocations b + 1"
  "next_id (charge n w k b) = next_id b + 1"
  "heap (charge n w k b) = (heap b)(next_id b \<mapsto> \<lparr>r_client = w, r_bytes = n,
     r_oversized = (n > max_client_bytes b), r_retired = False, r_readers = 0\<rparr>)"
  "clients (charge n w k b) = (clients b)(w \<mapsto> k\<lparr>w_bytes := w_bytes k + n,
     w_allocations := w_allocations k + 1,
     w_oversized_bytes := w_oversized_bytes k + (if n > max_client_bytes b then n else 0),
     w_oversized_allocations := w_oversized_allocations k + (if n > max_client_bytes b then 1 else 0)\<rparr>)"
  by (simp_all add: charge_def Let_def budget_limits.truncate_def)

lemma reserve_accounted_some:
  assumes acc: "budget_accounted lim b ps"
    and res: "try_reserve_replacing n w idle b = (Inr p, b')"
  shows "budget_accounted lim b' (p # ps)"
  using res
proof (rule reserve_granted)
  fix k
  assume k: "clients b w = Some k" and p: "p = next_id b" and b': "b' = charge n w k b"
    and n: "0 < n" "n \<le> max_bytes b - bytes b" and al: "allocations b < max_allocations b"
    and ov: "n > max_client_bytes b \<longrightarrow> fst (snd (local_usage k (replacing_credit w idle b))) = 0"
    and no: "n \<le> max_client_bytes b \<longrightarrow>
       n \<le> max_client_bytes b - fst (local_usage k (replacing_credit w idle b))"
    and la: "snd (snd (local_usage k (replacing_credit w idle b))) < max_client_allocations b"
  note share = shares_after_charge [OF acc k n(1) ov no la]
  have heap: "heap_ok b ps" and glob: "global_ok b ps" and cl: "clients_ok b ps"
      and sh: "shares_ok b ps" and lim: "budget_limits.truncate b = lim"
    using acc by (auto simp: budget_accounted_def)
  have fresh: "p \<notin> set ps" using heap p by (auto simp: heap_ok_def)
  have "heap_ok b' (p # ps)"
    using heap fresh k by (auto simp: heap_ok_def b' p less_Suc_eq)
  moreover have "global_ok b' (p # ps)"
    using glob n al fresh by (auto simp: global_ok_def b' p)
  moreover have "clients_ok b' (p # ps)"
    using cl k fresh
    by (auto simp: clients_ok_def b' p counters_def expected_def one_def over_bytes_def over_one_def)
  moreover have "shares_ok b' (p # ps)"
    using sh share fresh
    by (auto simp: shares_ok_def b' p one_def over_one_def normal_bytes_def)
  ultimately show ?thesis using lim by (simp add: budget_accounted_def b')
qed

lemma reserve_accounted_none:
  "budget_accounted lim b ps \<Longrightarrow> try_reserve_replacing n w idle b = (Inl e, b') \<Longrightarrow>
   budget_accounted lim b' ps"
  by (auto simp: try_reserve_replacing_def Let_def split: if_splits option.splits prod.splits
      intro: same_charges_accounted [OF wait_same])

text \<open>Dropping a reservation.\<close>

definition uncharge :: "nat \<Rightarrow> texture_reservation \<Rightarrow> budget_wake \<Rightarrow> texture_budget \<Rightarrow> texture_budget" where
  "uncharge p r k b = b\<lparr>
     bytes := bytes b - r_bytes r, allocations := allocations b - 1,
     clients := (clients b)(r_client r \<mapsto> k\<lparr>
        w_bytes := w_bytes k - r_bytes r, w_allocations := w_allocations k - 1,
        w_oversized_bytes := w_oversized_bytes k - (if r_oversized r then r_bytes r else 0),
        w_oversized_allocations := w_oversized_allocations k - (if r_oversized r then 1 else 0)\<rparr>),
     heap := (heap b)(p := None)\<rparr>"

lemma uncharge_accounted:
  assumes acc: "budget_accounted lim b ps" and p: "p \<in> set ps" "heap b p = Some r"
    and k: "clients b (r_client r) = Some k"
  shows "budget_accounted lim (uncharge p r k b) (remove1 p ps)"
proof -
  have heap: "heap_ok b ps" and glob: "global_ok b ps" and cl: "clients_ok b ps"
      and sh: "shares_ok b ps" and lim: "budget_limits.truncate b = lim"
    using acc by (auto simp: budget_accounted_def)
  have dist: "distinct ps" using heap by (simp add: heap_ok_def)
  then have gone: "p \<notin> set (remove1 p ps)" by simp
  note ur = usage_remove1 [where h = "heap b", OF p] total_remove1 [where h = "heap b", OF p]
  let ?b = "uncharge p r k b"
  have "heap_ok ?b (remove1 p ps)"
    using heap dist k by (auto simp: heap_ok_def uncharge_def split: if_splits)
  moreover have "global_ok ?b (remove1 p ps)"
    using glob gone ur length_remove1_less [OF p(1)]
    by (auto simp: global_ok_def uncharge_def)
  moreover have "clients_ok ?b (remove1 p ps)"
    using cl k gone
    by (auto simp: clients_ok_def uncharge_def counters_def expected_def ur one_def
        over_bytes_def over_one_def)
  moreover have "shares_ok ?b (remove1 p ps)"
    using sh gone by (auto simp: shares_ok_def uncharge_def intro: le_trans [OF usage_remove1_le])
  ultimately show ?thesis
    using lim by (simp add: budget_accounted_def uncharge_def budget_limits.truncate_def)
qed

lemma release_charges_accounted:
  assumes acc: "budget_accounted lim b ps" and p: "p \<in> set ps"
  shows "budget_accounted lim (release_charges p b) (remove1 p ps)"
proof -
  obtain r k where r: "heap b p = Some r" "clients b (r_client r) = Some k"
    using acc p by (auto simp: budget_accounted_def heap_ok_def dom_def) blast
  have "release_charges p b = take_waiters (uncharge p r k b)"
    using r by (simp add: release_charges_def uncharge_def)
  then show ?thesis
    using same_charges_accounted [OF take_waiters_same uncharge_accounted [OF acc p r]] by simp
qed

text \<open>The budget provides the ledger interface, for every choice of limits.\<close>

definition budget_reserve :: "nat \<times> nat \<times> nat option \<Rightarrow> texture_budget \<Rightarrow> nat option \<times> texture_budget" where
  "budget_reserve req b =
     (case req of (n, w, idle) \<Rightarrow>
        (case try_reserve_replacing n w idle b of
           (Inl _, b') \<Rightarrow> (None, b') | (Inr p, b') \<Rightarrow> (Some p, b')))"

interpretation texture_ledger:
  admission_ledger budget_reserve texture_reservation_drop "budget_accounted lim" for lim
proof (unfold_locales, goal_cases)
  case (1 b ps r p b')
  then show ?case
    by (auto simp: budget_reserve_def split: prod.splits sum.splits intro: reserve_accounted_some)
next
  case (2 b ps r b')
  then show ?case
    by (auto simp: budget_reserve_def split: prod.splits sum.splits intro: reserve_accounted_none)
next
  case (3 b ps p)
  then show ?case
    unfolding texture_reservation_drop_def
    by (intro same_charges_accounted [OF notify_waiters_same] release_charges_accounted)
qed

lemma add_client_accounted:
  assumes "budget_accounted lim b ps"
  shows "budget_accounted lim (add_client w b) ps"
proof (cases "clients b w")
  case None
  have no: "r_client r \<noteq> w" if "heap b p = Some r" for p r
    using assms that None unfolding budget_accounted_def heap_ok_def by metis
  have "usage f (heap b) w ps = 0" for f
    unfolding usage_def using no by (auto simp: sum_list_eq_0_iff split: option.splits)
  then have "counters budget_wake_new = expected (heap b) ps w"
    by (simp add: counters_def budget_wake_new_def expected_def)
  with assms None show ?thesis
    by (auto simp: accounted_defs add_client_def budget_limits.truncate_def)
qed (use assms in \<open>simp add: add_client_def\<close>)

lemma shared_accounted: "budget_accounted (budget_limits.truncate shared) shared []"
  by (auto simp: accounted_defs shared_def with_client_limits_def usage_def total_def)

lemma clients_accounted:
  "budget_accounted (budget_limits.truncate shared) (fold add_client ws shared) []"
proof -
  have "budget_accounted lim (fold add_client ws b) ps" if "budget_accounted lim b ps" for lim b ps
    using that by (induction ws arbitrary: b) (auto intro: add_client_accounted)
  then show ?thesis using shared_accounted by blast
qed

text \<open>
  C3: whatever renderers ask for and drop, and however their requests interleave, the
  process is charged for exactly the live reservations and never for more than 256 MiB or
  4096 allocations.
\<close>

theorem texture_budget_global:
  "case ledger_run budget_reserve texture_reservation_drop ops (fold add_client ws shared, []) of
     (b, ps) \<Rightarrow>
       bytes b = total r_bytes (heap b) ps \<and> dom (heap b) = set ps \<and> distinct ps
       \<and> allocations b = length ps
       \<and> bytes b \<le> 256 * 1024 * 1024 \<and> length ps \<le> 4096"
proof -
  let ?run = "ledger_run budget_reserve texture_reservation_drop ops (fold add_client ws shared, [])"
  have acc: "budget_accounted (budget_limits.truncate shared) (fst ?run) (snd ?run)"
    by (rule texture_ledger.run_accounted) (simp add: clients_accounted)
  then have "max_bytes (fst ?run) = 256 * 1024 * 1024" "max_allocations (fst ?run) = 4096"
    by (auto simp: budget_accounted_def budget_limits.truncate_def shared_def
        with_client_limits_def MAX_TEXTURE_BYTES_def MAX_TEXTURE_ALLOCATIONS_def)
  with acc show ?thesis
    by (auto simp: split_beta budget_accounted_def global_ok_def heap_ok_def)
qed

text \<open>
  the share of one renderer. Its counters are the sums over its own reservations; its
  ordinary textures stay within twice its 64 MiB base share and its allocations within one
  more than 1024, the excess being the single idle texture a replacement was credited for,
  and it holds at most two oversized textures, the second replacing the first.
\<close>

theorem texture_budget_share:
  "case ledger_run budget_reserve texture_reservation_drop ops (fold add_client ws shared, []) of
     (b, ps) \<Rightarrow> \<forall>w k. clients b w = Some k \<longrightarrow>
       w_bytes k = usage r_bytes (heap b) w ps
       \<and> w_allocations k = usage one (heap b) w ps \<and> w_allocations k \<le> 1024 + 1
       \<and> w_oversized_allocations k = usage over_one (heap b) w ps \<and> w_oversized_allocations k \<le> 2
       \<and> w_bytes k - w_oversized_bytes k = usage normal_bytes (heap b) w ps
       \<and> w_bytes k - w_oversized_bytes k \<le> 2 * (64 * 1024 * 1024)"
proof -
  let ?run = "ledger_run budget_reserve texture_reservation_drop ops (fold add_client ws shared, [])"
  have acc: "budget_accounted (budget_limits.truncate shared) (fst ?run) (snd ?run)"
    by (rule texture_ledger.run_accounted) (simp add: clients_accounted)
  then have lim: "max_client_bytes (fst ?run) = 64 * 1024 * 1024"
      "max_client_allocations (fst ?run) = 1024"
    by (auto simp: budget_accounted_def budget_limits.truncate_def shared_def
        with_client_limits_def MAX_RENDERER_TEXTURE_BYTES_def MAX_RENDERER_TEXTURE_ALLOCATIONS_def)
  have cnt: "counters k = expected (heap (fst ?run)) (snd ?run) w"
    if "clients (fst ?run) w = Some k" for w k
    using acc that by (simp add: budget_accounted_def clients_ok_def)
  have sh: "usage normal_bytes (heap (fst ?run)) w (snd ?run) \<le> 2 * (64 * 1024 * 1024)
      \<and> usage over_one (heap (fst ?run)) w (snd ?run) \<le> 2
      \<and> usage one (heap (fst ?run)) w (snd ?run) \<le> 1024 + 1" for w
    using acc lim by (simp add: budget_accounted_def shares_ok_def)
  show ?thesis
    using cnt sh usage_split [of "heap (fst ?run)" _ "snd ?run"]
    by (auto simp: split_beta counters_def expected_def)
qed

theorem texture_budget_share_witness:
  "\<exists>k. clients (fst (ledger_run budget_reserve texture_reservation_drop [Reserve (1000, 3, None)]
       (fold add_client [3] shared, []))) 3 = Some k
     \<and> w_bytes k = 1000 \<and> w_bytes k - w_oversized_bytes k \<le> 2 * (64 * 1024 * 1024)"
proof -
  let ?run = "ledger_run budget_reserve texture_reservation_drop [Reserve (1000, 3, None)]
       (fold add_client [3] shared, [])"
  obtain k where k: "clients (fst ?run) 3 = Some k" "w_bytes k = 1000"
    by (simp add: ledger_run_def budget_reserve_def try_reserve_replacing_def add_client_def
        shared_def with_client_limits_def budget_wake_new_def replacing_credit_def
        local_usage_def charge_def MAX_TEXTURE_BYTES_def MAX_TEXTURE_ALLOCATIONS_def
        MAX_RENDERER_TEXTURE_BYTES_def MAX_RENDERER_TEXTURE_ALLOCATIONS_def)
  then show ?thesis
    using texture_budget_share [of "[Reserve (1000, 3, None)]" "[3]"]
    by (auto simp: split_beta)
qed

subsection \<open>Wake-ups\<close>

text \<open>
  The steps that the renderers and the completion handlers interleave: requests, deferred
  demand, drops (which take the waiters) and single notifications.
\<close>

datatype budget_event =
    ReserveEvent nat nat "nat option"
  | DeferEvent nat
  | DropEvent nat
  | TakeEvent
  | NotifyEvent
  | ClientEvent nat

fun budget_step :: "budget_event \<Rightarrow> texture_budget \<Rightarrow> texture_budget" where
  "budget_step (ReserveEvent n w idle) b = snd (try_reserve_replacing n w idle b)"
| "budget_step (DeferEvent w) b = defer_wake w b"
| "budget_step (DropEvent p) b = release_charges p b"
| "budget_step TakeEvent b = take_waiters b"
| "budget_step NotifyEvent b = notify_next b"
| "budget_step (ClientEvent w) b = add_client w b"

definition waiters_inv :: "texture_budget \<Rightarrow> bool" where
  "waiters_inv b \<longleftrightarrow>
     (\<forall>w k. clients b w = Some k \<longrightarrow> waiting k \<longrightarrow> w \<in> set (waiters b) \<union> set (notifying b))"

lemma waiters_inv_wait: "waiters_inv b \<Longrightarrow> waiters_inv (wait w b)"
  by (auto simp: waiters_inv_def wait_def split: option.splits)

lemma waiters_inv_charge:
  "clients b w = Some k \<Longrightarrow> waiters_inv b \<Longrightarrow> waiters_inv (charge n w k b)"
  by (auto simp: waiters_inv_def charge_def Let_def)

lemma waiters_inv_take: "waiters_inv b \<Longrightarrow> waiters_inv (take_waiters b)"
  by (auto simp: waiters_inv_def take_waiters_def)

lemma waiters_inv_release: "waiters_inv b \<Longrightarrow> waiters_inv (release_charges p b)"
  by (auto simp: release_charges_def waiters_inv_def take_waiters_def split: option.splits if_splits)

lemma waiters_inv_notify: "waiters_inv b \<Longrightarrow> waiters_inv (notify_next b)"
  unfolding waiters_inv_def notify_next_def notify_waiter_def
  by (auto split: list.split option.split; fastforce)

lemma waiters_inv_client: "waiters_inv b \<Longrightarrow> waiters_inv (add_client w b)"
  by (auto simp: add_client_def waiters_inv_def budget_wake_new_def split: if_splits)

lemma waiters_inv_reserve: "waiters_inv b \<Longrightarrow> waiters_inv (snd (try_reserve_replacing n w idle b))"
  by (auto simp: try_reserve_replacing_def Let_def waiters_inv_wait waiters_inv_charge
      split: option.splits prod.splits)

interpretation budget_waiters: invariant_component budget_step shared waiters_inv
proof (unfold_locales, goal_cases)
  case 1
  show ?case by (simp add: waiters_inv_def shared_def with_client_limits_def)
next
  case (2 b e)
  then show ?case
    by (cases e)
      (auto simp: waiters_inv_reserve waiters_inv_wait defer_wake_def waiters_inv_release
        waiters_inv_take waiters_inv_notify waiters_inv_client)
qed

lemma refused_registers:
  "clients b w \<noteq> None \<Longrightarrow> try_reserve_replacing n w idle b = (Inl Pressure, b') \<Longrightarrow>
   \<exists>k. clients b' w = Some k \<and> waiting k"
  by (auto simp: try_reserve_replacing_def Let_def wait_def split: if_splits option.splits prod.splits)

text \<open>
  a renderer refused for lack of room is never forgotten. In every interleaving its
  request leaves it waiting, and a waiting renderer is in the list that the next drop takes
  or among the clients already taken whose notification is on its way.
\<close>

theorem pressure_never_forgotten:
  assumes "b = run_events budget_step es shared" and "clients b w \<noteq> None"
    and "try_reserve_replacing n w idle b = (Inl Pressure, b')"
  shows "w \<in> set (waiters b') \<union> set (notifying b')"
proof -
  have "waiters_inv b" unfolding assms(1) by (rule budget_waiters.inv_run)
  then have "waiters_inv b'" using waiters_inv_reserve [of b n w idle] assms(3) by simp
  moreover obtain k where "clients b' w = Some k" "waiting k"
    using refused_registers [OF assms(2,3)] by auto
  ultimately show ?thesis by (auto simp: waiters_inv_def)
qed

theorem pressure_never_forgotten_witness:
  "5 \<in> set (waiters (snd (try_reserve_replacing 10 5 None
       (run_events budget_step [ClientEvent 5, ReserveEvent 268435456 5 None] shared))))"
proof -
  let ?es = "[ClientEvent 5, ReserveEvent 268435456 5 None]"
  let ?b = "run_events budget_step ?es shared"
  note defs = add_client_def shared_def with_client_limits_def budget_wake_new_def
    try_reserve_replacing_def replacing_credit_def local_usage_def charge_def wait_def
    MAX_TEXTURE_BYTES_def MAX_TEXTURE_ALLOCATIONS_def MAX_RENDERER_TEXTURE_BYTES_def
    MAX_RENDERER_TEXTURE_ALLOCATIONS_def
  have c: "clients ?b 5 \<noteq> None" by (simp add: defs)
  obtain b' where r: "try_reserve_replacing 10 5 None ?b = (Inl Pressure, b')" "notifying b' = []"
    by (simp add: defs)
  from pressure_never_forgotten [OF refl c r(1)] r show ?thesis by simp
qed

end
