(* ===== verification/Frame_Lifetime.thy ===== *)
theory Frame_Lifetime
  imports Frame_Gate Render_Budget
begin

text \<open>
  \<open>FrameLifetime\<close> of \<open>src/texture_lifetime.rs\<close>: a frame holds a slot of the gate from
  \<open>begin\<close> until its completion and counts as a reader of every texture reservation it
  retains. The renderer's state joins the gate's word, the frames and the texture budget.
\<close>

subsection \<open>State and operations\<close>

record frame_lifetime =
  completion_started :: bool
  completed :: bool
  f_reservations :: "nat list"

record render =
  gate_word :: usize
  frames :: "nat \<rightharpoonup> frame_lifetime"
  next_frame :: nat
  budget :: texture_budget

definition render_init :: render where
  "render_init = \<lparr>gate_word = 0, frames = Map.empty, next_frame = 0, budget = shared\<rparr>"

definition frame_begin :: "render \<Rightarrow> nat option \<times> render" where
  "frame_begin s =
     (case admit_pass True (gate_word s) of
        (w, False) \<Rightarrow> (None, s\<lparr>gate_word := w\<rparr>)
      | (w, True) \<Rightarrow>
          (Some (next_frame s),
           s\<lparr>gate_word := w,
             frames := (frames s)(next_frame s \<mapsto>
               \<lparr>completion_started = False, completed = False, f_reservations = []\<rparr>),
             next_frame := next_frame s + 1\<rparr>))"

text \<open>\<open>prepared\<close> is a weak reference to the frame a texture upload was admitted for.\<close>

definition accepts_preflight :: "nat \<Rightarrow> nat \<Rightarrow> render \<Rightarrow> bool" where
  "accepts_preflight f prepared s \<longleftrightarrow>
     prepared = f \<and> (case frames s f of None \<Rightarrow> False | Some fr \<Rightarrow> \<not> completion_started fr)"

definition retain_reservation :: "nat \<Rightarrow> nat \<Rightarrow> render \<Rightarrow> render" where
  "retain_reservation f p s =
     (case frames s f of
        None \<Rightarrow> s
      | Some fr \<Rightarrow>
          if \<not> completion_started fr \<and> p \<notin> set (f_reservations fr)
          then s\<lparr>budget := begin_read p (budget s),
                 frames := (frames s)(f \<mapsto> fr\<lparr>f_reservations := f_reservations fr @ [p]\<rparr>)\<rparr>
          else s)"

definition frame_complete :: "nat \<Rightarrow> render \<Rightarrow> bool \<times> render" where
  "frame_complete f s =
     (case frames s f of
        None \<Rightarrow> (False, s)
      | Some fr \<Rightarrow>
          if completion_started fr then (False, s)
          else
            let ps = f_reservations fr;
                s1 = s\<lparr>budget := fold end_read ps (budget s),
                       frames := (frames s)(f \<mapsto>
                         \<lparr>completion_started = True, completed = True, f_reservations = []\<rparr>)\<rparr>;
                (reclaim, b) = notify_reclaimable ps (budget s1);
                (w, wake) = release_pass (gate_word s1)
            in (wake \<or> reclaim, s1\<lparr>budget := b, gate_word := w\<rparr>))"

text \<open>\<open>FrameLifetime::drop\<close> completes a frame that never was.\<close>

definition frame_drop :: "nat \<Rightarrow> render \<Rightarrow> render" where
  "frame_drop f s =
     (let s' = snd (frame_complete f s) in s'\<lparr>frames := (frames s')(f := None)\<rparr>)"

definition reads :: "render \<Rightarrow> nat \<Rightarrow> nat \<Rightarrow> bool" where
  "reads s f p \<longleftrightarrow> (\<exists>fr. frames s f = Some fr \<and> p \<in> set (f_reservations fr))"

definition active_frame :: "render \<Rightarrow> nat \<Rightarrow> bool" where
  "active_frame s f \<longleftrightarrow> (\<exists>fr. frames s f = Some fr \<and> \<not> completion_started fr)"

subsection \<open>Steps\<close>

text \<open>
  What the render thread and the GPU's completion handlers do, in any order. A reservation
  is retained while the caller holds it (it is live) and dropped only when no frame holds
  it, as the reference counts of \<open>Arc\<close> ensure.
\<close>

inductive render_step :: "render \<Rightarrow> render \<Rightarrow> bool" where
  begin_frame: "render_step s (snd (frame_begin s))"
| check_ready: "render_step s (s\<lparr>gate_word := fst (admit_pass False (gate_word s))\<rparr>)"
| defer_demand: "render_step s (s\<lparr>gate_word := defer_redraw (gate_word s)\<rparr>)"
| defer_idle: "render_step s (s\<lparr>gate_word := defer_until_idle (gate_word s)\<rparr>)"
| retain: "heap (budget s) p \<noteq> None \<Longrightarrow> render_step s (retain_reservation f p s)"
| complete: "render_step s (snd (frame_complete f s))"
| drop_frame: "render_step s (frame_drop f s)"
| reserve: "render_step s (s\<lparr>budget := snd (try_reserve_replacing n w idle (budget s))\<rparr>)"
| retire: "render_step s (s\<lparr>budget := set_retired p flag (budget s)\<rparr>)"
| drop_texture: "(\<forall>f. \<not> reads s f p) \<Longrightarrow>
     render_step s (s\<lparr>budget := texture_reservation_drop p (budget s)\<rparr>)"
| add_renderer: "render_step s (s\<lparr>budget := add_client w (budget s)\<rparr>)"

inductive render_reachable :: "render \<Rightarrow> bool" where
  start: "render_reachable render_init"
| step: "render_reachable s \<Longrightarrow> render_step s t \<Longrightarrow> render_reachable t"

subsection \<open>Invariant\<close>

definition gate_inv :: "render \<Rightarrow> bool" where
  "gate_inv s \<longleftrightarrow>
     (\<exists>g. gate_word s = encode g \<and> in_flight g \<le> 3 \<and> in_flight g = card (Collect (active_frame s)))"

definition frames_inv :: "render \<Rightarrow> bool" where
  "frames_inv s \<longleftrightarrow>
     finite (dom (frames s))
     \<and> (\<forall>f fr. frames s f = Some fr \<longrightarrow>
          f < next_frame s \<and> distinct (f_reservations fr)
          \<and> (completion_started fr \<longrightarrow> f_reservations fr = [])
          \<and> set (f_reservations fr) \<subseteq> dom (heap (budget s)))
     \<and> (\<forall>p \<in> dom (heap (budget s)). p < next_id (budget s))"

definition readers_inv :: "render \<Rightarrow> bool" where
  "readers_inv s \<longleftrightarrow>
     (\<forall>p r. heap (budget s) p = Some r \<longrightarrow> r_readers r = card {f. reads s f p})"

definition render_inv :: "render \<Rightarrow> bool" where
  "render_inv s \<longleftrightarrow> gate_inv s \<and> frames_inv s \<and> readers_inv s"

lemma active_finite: "frames_inv s \<Longrightarrow> finite (Collect (active_frame s))"
  by (rule finite_subset [of _ "dom (frames s)"]) (auto simp: active_frame_def frames_inv_def)

lemma reads_finite: "frames_inv s \<Longrightarrow> finite {f. reads s f p}"
  by (rule finite_subset [of _ "dom (frames s)"]) (auto simp: reads_def frames_inv_def)

text \<open>Budget operations that leave the heap alone, and those that touch it.\<close>

lemma same_charges_heap: "same_charges b b' \<Longrightarrow> heap b' = heap b \<and> next_id b' = next_id b"
  by (simp add: same_charges_def)

lemma notify_reclaimable_same: "same_charges b (snd (notify_reclaimable ps b))"
  using same_charges_trans [OF take_waiters_same notify_waiters_same]
  by (simp add: notify_reclaimable_def wake_waiters_def Let_def same_charges_refl)

lemma heap_fold_end_read:
  assumes "distinct ps"
  shows "heap (fold end_read ps b) p
    = map_option (\<lambda>r. if p \<in> set ps
        then r\<lparr>r_readers := (if r_readers r = 0 then usize_max else r_readers r - 1)\<rparr> else r)
      (heap b p) \<and> next_id (fold end_read ps b) = next_id b"
  using assms
proof (induction ps arbitrary: b)
  case (Cons q ps)
  then show ?case
    by (cases "heap b p") (auto simp: end_read_def upd_reservation_def)
qed (simp add: option.map_ident)

lemma heap_end_read_dom:
  "dom (heap (fold end_read ps b)) = dom (heap b) \<and> next_id (fold end_read ps b) = next_id b"
proof (induction ps arbitrary: b)
  case (Cons q ps)
  then show ?case by (auto simp: end_read_def upd_reservation_def dom_def split: if_splits)
qed simp

lemma release_charges_heap:
  "heap (release_charges p b) = (heap b)(p := None) \<and> next_id (release_charges p b) = next_id b"
  by (auto simp: release_charges_def take_waiters_def fun_eq_iff split: option.splits)

lemma drop_heap:
  "heap (texture_reservation_drop p b) = (heap b)(p := None)
   \<and> next_id (texture_reservation_drop p b) = next_id b"
  using same_charges_heap [OF notify_waiters_same [of "release_charges p b"]]
  by (simp add: texture_reservation_drop_def release_charges_heap)

lemma reserve_heap:
  "(heap (snd (try_reserve_replacing n w idle b)) = heap b
     \<and> next_id (snd (try_reserve_replacing n w idle b)) = next_id b)
   \<or> (\<exists>r. r_readers r = 0 \<and> heap (snd (try_reserve_replacing n w idle b)) = (heap b)(next_id b \<mapsto> r)
     \<and> next_id (snd (try_reserve_replacing n w idle b)) = next_id b + 1)"
proof (cases "try_reserve_replacing n w idle b")
  case (Pair x b')
  show ?thesis
  proof (cases x)
    case (Inl e)
    with Pair have "b' = b \<or> b' = wait w b"
      by (auto simp: try_reserve_replacing_def Let_def split: if_splits option.splits prod.splits)
    with Pair same_charges_heap [OF wait_same] show ?thesis by auto
  next
    case (Inr p)
    with Pair obtain k where "b' = charge n w k b" by (auto elim: reserve_granted)
    with Pair show ?thesis
      by (intro disjI2 exI [of _ "\<lparr>r_client = w, r_bytes = n,
          r_oversized = n > max_client_bytes b, r_retired = False, r_readers = 0\<rparr>"]) simp
  qed
qed

lemma frames_view [simp]:
  "active_frame (s\<lparr>gate_word := w\<rparr>) = active_frame s"
  "active_frame (s\<lparr>budget := b\<rparr>) = active_frame s"
  "reads (s\<lparr>gate_word := w\<rparr>) = reads s"
  "reads (s\<lparr>budget := b\<rparr>) = reads s"
  by (auto simp: active_frame_def reads_def fun_eq_iff)

text \<open>Changes of the gate word alone: the frames in flight are the same.\<close>

lemma gate_only:
  assumes "render_inv s" "gate_word s = encode g" "encode g' = w"
    "in_flight g' = in_flight g" "in_flight g \<le> 3" "in_flight g = card (Collect (active_frame s))"
  shows "render_inv (s\<lparr>gate_word := w\<rparr>)"
proof -
  have "gate_inv (s\<lparr>gate_word := w\<rparr>)"
    using assms(3-6) unfolding gate_inv_def by (intro exI [of _ g']) simp
  with assms(1) show ?thesis by (simp add: render_inv_def frames_inv_def readers_inv_def)
qed

lemma gate_obtain:
  assumes "render_inv s"
  obtains g where "gate_word s = encode g" "in_flight g \<le> 3"
    "in_flight g = card (Collect (active_frame s))"
  using assms by (auto simp: render_inv_def gate_inv_def)

lemma gate_events_inv:
  assumes "render_inv s"
  shows "render_inv (s\<lparr>gate_word := fst (admit_pass False (gate_word s))\<rparr>)"
    and "render_inv (s\<lparr>gate_word := defer_redraw (gate_word s)\<rparr>)"
    and "render_inv (s\<lparr>gate_word := defer_until_idle (gate_word s)\<rparr>)"
proof -
  obtain g where g: "gate_word s = encode g" "in_flight g \<le> 3"
      "in_flight g = card (Collect (active_frame s))"
    using gate_obtain [OF assms] .
  show "render_inv (s\<lparr>gate_word := fst (admit_pass False (gate_word s))\<rparr>)"
    by (rule gate_only [OF assms g(1), of "fst (spec_admit False g)"])
      (use g in \<open>simp_all add: admit_refines map_prod_def split_beta, auto simp: spec_admit_def\<close>)
  show "render_inv (s\<lparr>gate_word := defer_redraw (gate_word s)\<rparr>)"
    by (rule gate_only [OF assms g(1), of "g\<lparr>redraw := True\<rparr>"])
      (use g in \<open>simp_all add: defer_redraw_refines\<close>)
  show "render_inv (s\<lparr>gate_word := defer_until_idle (gate_word s)\<rparr>)"
    by (rule gate_only [OF assms g(1), of "g\<lparr>drain := True, redraw := True\<rparr>"])
      (use g in \<open>simp_all add: defer_until_idle_refines\<close>)
qed

lemma begin_inv:
  assumes inv: "render_inv s"
  shows "render_inv (snd (frame_begin s))"
proof -
  obtain g where g: "gate_word s = encode g" "in_flight g \<le> 3"
      "in_flight g = card (Collect (active_frame s))"
    using gate_obtain [OF inv] .
  have adm: "admit_pass True (gate_word s) = (encode (fst (spec_admit True g)), snd (spec_admit True g))"
    using g by (simp add: admit_refines map_prod_def split_beta)
  have fin: "finite (Collect (active_frame s))"
    using inv by (simp add: render_inv_def active_finite)
  show ?thesis
  proof (cases "spec_ready g")
    case False
    then show ?thesis
      using gate_only [OF inv g(1), of "fst (spec_admit True g)"] g adm
      by (simp add: frame_begin_def spec_admit_def)
  next
    case True
    let ?n = "next_frame s" and ?t = "snd (frame_begin s)"
    have t: "?t = s\<lparr>gate_word := encode (g\<lparr>drain := False, in_flight := in_flight g + 1\<rparr>),
        frames := (frames s)(?n \<mapsto>
          \<lparr>completion_started = False, completed = False, f_reservations = []\<rparr>),
        next_frame := ?n + 1\<rparr>"
      using True adm by (simp add: frame_begin_def spec_admit_def)
    have fresh: "frames s ?n = None"
    proof (rule ccontr)
      assume "frames s ?n \<noteq> None"
      then obtain fr where "frames s ?n = Some fr" by auto
      with inv have "?n < ?n" unfolding render_inv_def frames_inv_def by blast
      then show False by simp
    qed
    have "Collect (active_frame ?t) = insert ?n (Collect (active_frame s))"
      by (auto simp: t active_frame_def)
    moreover have "?n \<notin> Collect (active_frame s)" using fresh by (simp add: active_frame_def)
    ultimately have card: "card (Collect (active_frame ?t)) = in_flight g + 1"
      using fin g(3) by simp
    have "gate_inv ?t"
      unfolding gate_inv_def
      by (rule exI [of _ "g\<lparr>drain := False, in_flight := in_flight g + 1\<rparr>"])
        (use True card in \<open>simp add: t spec_ready_def\<close>)
    moreover have "frames_inv ?t"
      using inv by (auto simp: render_inv_def frames_inv_def t less_SucI)
    moreover have "reads ?t f p = reads s f p" for f p
      using fresh by (auto simp: t reads_def)
    then have "readers_inv ?t" using inv by (simp add: render_inv_def readers_inv_def t)
    ultimately show ?thesis by (simp add: render_inv_def)
  qed
qed

text \<open>Budget steps that keep the readers of every reservation.\<close>

lemma budget_only:
  assumes inv: "render_inv s"
    and heap: "\<And>p r. heap b p = Some r \<Longrightarrow>
      (\<exists>r0. heap (budget s) p = Some r0 \<and> r_readers r = r_readers r0)
      \<or> (r_readers r = 0 \<and> p = next_id (budget s) \<and> next_id b = next_id (budget s) + 1)"
    and kept: "\<And>p. (\<exists>f. reads s f p) \<Longrightarrow> heap b p \<noteq> None"
    and nid: "next_id (budget s) \<le> next_id b"
  shows "render_inv (s\<lparr>budget := b\<rparr>)"
proof -
  let ?t = "s\<lparr>budget := b\<rparr>"
  have fi: "frames_inv s" and ri: "readers_inv s" using inv by (auto simp: render_inv_def)
  have "gate_inv ?t" using inv by (simp add: render_inv_def gate_inv_def)
  moreover have "p < next_id b" if hp: "heap b p = Some r" for p r
    using heap [OF hp] fi nid by (force simp: frames_inv_def dom_def)
  then have "frames_inv ?t"
    using fi kept by (fastforce simp: frames_inv_def reads_def)
  moreover have "r_readers r = card {f. reads s f p}" if hp: "heap b p = Some r" for p r
    using heap [OF hp]
  proof
    assume "\<exists>r0. heap (budget s) p = Some r0 \<and> r_readers r = r_readers r0"
    with ri show ?thesis by (auto simp: readers_inv_def)
  next
    assume new: "r_readers r = 0 \<and> p = next_id (budget s) \<and> next_id b = next_id (budget s) + 1"
    then have "{f. reads s f p} = {}"
      using fi unfolding frames_inv_def reads_def by fastforce
    with new show ?thesis by simp
  qed
  then have "readers_inv ?t" by (simp add: readers_inv_def)
  ultimately show ?thesis by (simp add: render_inv_def)
qed

lemma reads_live: "render_inv s \<Longrightarrow> reads s f p \<Longrightarrow> \<exists>y. heap (budget s) p = Some y"
  unfolding render_inv_def frames_inv_def reads_def by blast

lemma retain_inv:
  assumes inv: "render_inv s" and live: "heap (budget s) p = Some rv"
    and fr: "frames s f = Some fr" "\<not> completion_started fr" "p \<notin> set (f_reservations fr)"
  shows "render_inv (retain_reservation f p s)"
proof -
  let ?t = "retain_reservation f p s"
  have t: "?t = s\<lparr>budget := begin_read p (budget s),
      frames := (frames s)(f \<mapsto> fr\<lparr>f_reservations := f_reservations fr @ [p]\<rparr>)\<rparr>"
    using fr by (simp add: retain_reservation_def)
  have fi: "frames_inv s" and ri: "readers_inv s" using inv by (auto simp: render_inv_def)
  have heap: "heap (budget ?t) = (heap (budget s))(p \<mapsto> rv\<lparr>r_readers := r_readers rv + 1\<rparr>)"
      "next_id (budget ?t) = next_id (budget s)"
    using live by (auto simp: t begin_read_def upd_reservation_def fun_eq_iff)
  have "active_frame ?t = active_frame s"
    using fr by (auto simp: active_frame_def t fun_eq_iff)
  then have "gate_inv ?t" using inv by (simp add: render_inv_def gate_inv_def t)
  moreover have "frames_inv ?t"
    using fi fr live unfolding frames_inv_def heap
    by (auto simp: t)
  moreover have "readers_inv ?t"
    unfolding readers_inv_def heap
  proof (intro allI impI)
    fix q r
    assume q: "((heap (budget s))(p \<mapsto> rv\<lparr>r_readers := r_readers rv + 1\<rparr>)) q = Some r"
    show "r_readers r = card {x. reads ?t x q}"
    proof (cases "q = p")
      case True
      have "{x. reads ?t x p} = insert f {x. reads s x p}"
        using fr by (auto simp: reads_def t)
      moreover have "f \<notin> {x. reads s x p}" using fr by (simp add: reads_def)
      ultimately have "card {x. reads ?t x p} = Suc (card {x. reads s x p})"
        using reads_finite [OF fi] by simp
      moreover have "r_readers rv = card {x. reads s x p}"
        using ri live by (simp add: readers_inv_def)
      ultimately show ?thesis using True q by auto
    next
      case False
      then have "{x. reads ?t x q} = {x. reads s x q}" using fr by (auto simp: reads_def t)
      with False q ri show ?thesis by (simp add: readers_inv_def)
    qed
  qed
  ultimately show ?thesis by (simp add: render_inv_def)
qed

lemma retain_any_inv:
  "render_inv s \<Longrightarrow> heap (budget s) p \<noteq> None \<Longrightarrow> render_inv (retain_reservation f p s)"
proof -
  assume inv: "render_inv s" and live: "heap (budget s) p \<noteq> None"
  show ?thesis
  proof (cases "\<exists>fr. frames s f = Some fr \<and> \<not> completion_started fr \<and> p \<notin> set (f_reservations fr)")
    case True
    with live inv show ?thesis by (auto intro: retain_inv)
  next
    case False
    then have "retain_reservation f p s = s"
      by (auto simp: retain_reservation_def split: option.splits)
    with inv show ?thesis by simp
  qed
qed

lemma spec_release_count: "in_flight (fst (spec_release g)) = in_flight g - 1"
  by (simp add: spec_release_def)

lemma complete_state:
  assumes fr: "frames s f = Some fr" "\<not> completion_started fr"
  obtains b where "same_charges (fold end_read (f_reservations fr) (budget s)) b"
    and "snd (frame_complete f s) = s\<lparr>budget := b, frames := (frames s)(f \<mapsto>
        \<lparr>completion_started = True, completed = True, f_reservations = []\<rparr>),
      gate_word := fst (release_pass (gate_word s))\<rparr>"
proof -
  let ?b = "snd (notify_reclaimable (f_reservations fr) (fold end_read (f_reservations fr) (budget s)))"
  have "snd (frame_complete f s) = s\<lparr>budget := ?b, frames := (frames s)(f \<mapsto>
        \<lparr>completion_started = True, completed = True, f_reservations = []\<rparr>),
      gate_word := fst (release_pass (gate_word s))\<rparr>"
    using fr by (simp add: frame_complete_def Let_def split_beta)
  with that notify_reclaimable_same show ?thesis by blast
qed

lemma complete_inv:
  assumes inv: "render_inv s" and fr: "frames s f = Some fr" "\<not> completion_started fr"
  shows "render_inv (snd (frame_complete f s))"
proof (rule complete_state [OF fr])
  fix b
  let ?ps = "f_reservations fr"
  assume same: "same_charges (fold end_read ?ps (budget s)) b"
    and eq: "snd (frame_complete f s) = s\<lparr>budget := b, frames := (frames s)(f \<mapsto>
        \<lparr>completion_started = True, completed = True, f_reservations = []\<rparr>),
      gate_word := fst (release_pass (gate_word s))\<rparr>"
  let ?t = "snd (frame_complete f s)"
  have fi: "frames_inv s" and ri: "readers_inv s" using inv by (auto simp: render_inv_def)
  have dist: "distinct ?ps" using fi fr(1) by (auto simp: frames_inv_def)
  have heap: "heap b q = heap (fold end_read ?ps (budget s)) q"
      and dom: "dom (heap b) = dom (heap (budget s))" and nid: "next_id b = next_id (budget s)" for q
    using same_charges_heap [OF same] heap_end_read_dom [of ?ps "budget s"] by simp_all
  obtain g where g: "gate_word s = encode g" "in_flight g \<le> 3"
      "in_flight g = card (Collect (active_frame s))"
    using gate_obtain [OF inv] .
  have mem: "f \<in> Collect (active_frame s)" using fr by (simp add: active_frame_def)
  then have pos: "0 < in_flight g"
    using g(3) active_finite [OF fi] card_gt_0_iff by fastforce
  have "Collect (active_frame ?t) = Collect (active_frame s) - {f}"
    by (auto simp: eq active_frame_def split: if_splits)
  then have "card (Collect (active_frame ?t)) = in_flight g - 1"
    using mem g(3) by simp
  then have "gate_inv ?t"
    unfolding gate_inv_def using g pos
    by (intro exI [of _ "fst (spec_release g)"])
      (simp add: eq release_refines map_prod_def split_beta spec_release_count)
  moreover have "frames_inv ?t"
    using fi dom nid fr(1) by (auto simp: frames_inv_def eq)
  moreover have "readers_inv ?t"
    unfolding readers_inv_def
  proof (intro allI impI)
    fix q r
    assume "heap (budget ?t) q = Some r"
    then have hq: "heap (fold end_read ?ps (budget s)) q = Some r" by (simp add: eq heap)
    then obtain r0 where r0: "heap (budget s) q = Some r0"
        and r: "r = (if q \<in> set ?ps
          then r0\<lparr>r_readers := (if r_readers r0 = 0 then usize_max else r_readers r0 - 1)\<rparr> else r0)"
      using heap_fold_end_read [OF dist, of "budget s" q] by auto
    have old: "r_readers r0 = card {x. reads s x q}" using ri r0 by (simp add: readers_inv_def)
    show "r_readers r = card {x. reads ?t x q}"
    proof (cases "q \<in> set ?ps")
      case True
      have "{x. reads ?t x q} = {x. reads s x q} - {f}"
        by (auto simp: reads_def eq split: if_splits)
      moreover have f: "f \<in> {x. reads s x q}" using True fr by (simp add: reads_def)
      moreover have "0 < card {x. reads s x q}"
        using f reads_finite [OF fi] card_gt_0_iff by fastforce
      ultimately show ?thesis using True r old by simp
    next
      case False
      then have "{x. reads ?t x q} = {x. reads s x q}" using fr by (auto simp: reads_def eq)
      with False r old show ?thesis by simp
    qed
  qed
  ultimately show "render_inv ?t" by (simp add: render_inv_def)
qed

lemma complete_idle:
  "\<not> active_frame s f \<Longrightarrow> frame_complete f s = (False, s)"
  by (auto simp: frame_complete_def active_frame_def split: option.splits)

lemma complete_any_inv: "render_inv s \<Longrightarrow> render_inv (snd (frame_complete f s))"
  by (cases "active_frame s f") (auto simp: complete_idle active_frame_def intro: complete_inv)

lemma complete_ends: "\<not> active_frame (snd (frame_complete f s)) f"
  by (auto simp: frame_complete_def active_frame_def Let_def split_beta split: option.splits)

lemma drop_frame_inv:
  assumes "render_inv s"
  shows "render_inv (frame_drop f s)"
proof -
  let ?s = "snd (frame_complete f s)"
  let ?t = "?s\<lparr>frames := (frames ?s)(f := None)\<rparr>"
  have inv: "render_inv ?s" by (rule complete_any_inv [OF assms])
  have idle: "\<not> active_frame ?s f" by (rule complete_ends)
  have empty: "f_reservations fr = []" if "frames ?s f = Some fr" for fr
    using that inv idle by (auto simp: render_inv_def frames_inv_def active_frame_def)
  have "active_frame ?t = active_frame ?s" using idle by (auto simp: active_frame_def fun_eq_iff)
  moreover have "reads ?t = reads ?s" using empty by (auto simp: reads_def fun_eq_iff)
  moreover have "frames_inv ?t" using inv by (auto simp: render_inv_def frames_inv_def)
  ultimately have "render_inv ?t"
    using inv by (auto simp: render_inv_def gate_inv_def readers_inv_def)
  then show ?thesis by (simp add: frame_drop_def Let_def)
qed

lemma render_step_inv [step_inv]: "render_step s t \<Longrightarrow> render_inv s \<Longrightarrow> render_inv t"
proof (induction rule: render_step.induct)
  case (reserve s n w idle)
  note live = reads_live [OF reserve.prems]
  have nid: "\<And>p r. heap (budget s) p = Some r \<Longrightarrow> p < next_id (budget s)"
    using reserve.prems by (auto simp: render_inv_def frames_inv_def dom_def)
  show ?case
    using reserve_heap [of n w idle "budget s"]
    by (intro budget_only [OF reserve.prems]) (auto dest: live split: if_splits)
next
  case (retire s p flag)
  note live = reads_live [OF retire.prems]
  show ?case
    by (intro budget_only [OF retire.prems])
      (auto simp: set_retired_def upd_reservation_def dest: live split: if_splits)
next
  case (drop_texture s p)
  note live = reads_live [OF drop_texture.prems]
  show ?case
    using drop_texture.hyps
    by (intro budget_only [OF drop_texture.prems]) (auto simp: drop_heap dest: live split: if_splits)
next
  case (add_renderer s w)
  note live = reads_live [OF add_renderer.prems]
  have "heap (add_client w (budget s)) = heap (budget s)
      \<and> next_id (add_client w (budget s)) = next_id (budget s)"
    by (simp add: add_client_def)
  then show ?case by (intro budget_only [OF add_renderer.prems]) (auto dest: live)
qed (simp_all add: begin_inv gate_events_inv retain_any_inv complete_any_inv drop_frame_inv)

lemma render_init_inv: "render_inv render_init"
proof -
  have no_frames: "Collect (active_frame render_init) = {}"
    by (simp add: active_frame_def render_init_def)
  have "gate_inv render_init"
    unfolding gate_inv_def
    by (rule exI [of _ gate_init]) (simp add: encode_init no_frames, simp add: gate_init_def render_init_def)
  then show ?thesis
    by (simp add: render_inv_def frames_inv_def readers_inv_def render_init_def shared_def
        with_client_limits_def)
qed

lemma render_reachable_inv: "render_reachable s \<Longrightarrow> render_inv s"
  by (induction rule: render_reachable.induct) (auto intro: render_init_inv render_step_inv)


definition sample_render :: render where
  "sample_render = snd (frame_begin render_init)"


text \<open>
  the completion of a frame takes effect exactly once. Whatever the state, after
  \<open>complete\<close> the frame is complete, and completing or dropping it again answers no and
  changes neither the gate, the readers nor the budget.
\<close>

theorem frame_complete_once:
  "frame_complete f (snd (frame_complete f s)) = (False, snd (frame_complete f s))
   \<and> gate_word (frame_drop f (snd (frame_complete f s))) = gate_word (snd (frame_complete f s))
   \<and> budget (frame_drop f (snd (frame_complete f s))) = budget (snd (frame_complete f s))"
  by (simp add: frame_drop_def complete_idle complete_ends Let_def)

end
