(* ===== verification/Texture_Versions.thy ===== *)
theory Texture_Versions
  imports Frame_Lifetime
begin

text \<open>
  \<open>TextureVersions\<close> of \<open>src/texture_lifetime.rs\<close>: up to three versions of one surface's
  texture, one of them current. A version read by an incomplete frame must not be written
  or discarded. \<open>live f\<close> says that frame \<open>f\<close> still exists and has not completed
  (\<open>live_reader\<close> for the renderer's state); \<open>writable\<close> prunes the readers that are not, as
  the source does at every visit.
\<close>

subsection \<open>Versions\<close>

record 'a version =
  resource :: 'a
  readers :: "nat list"

record 'a texture_versions =
  versions :: "'a version list"
  current :: nat

datatype update_error = Busy | Rejected

datatype 'e prepare_error = PrepareBusy | Allocation 'e

definition MAX_VERSIONS :: nat where
  "MAX_VERSIONS = MAX_FRAMES"

definition live_reader :: "render \<Rightarrow> nat \<Rightarrow> bool" where
  "live_reader s f \<longleftrightarrow> (case frames s f of None \<Rightarrow> False | Some fr \<Rightarrow> \<not> completed fr)"

definition prune :: "(nat \<Rightarrow> bool) \<Rightarrow> 'a version \<Rightarrow> 'a version" where
  "prune live v = v\<lparr>readers := filter live (readers v)\<rparr>"

text \<open>\<open>Version::writable\<close>: the answer; the version becomes \<open>prune live v\<close>.\<close>

definition writable :: "(nat \<Rightarrow> bool) \<Rightarrow> 'a version \<Rightarrow> bool" where
  "writable live v \<longleftrightarrow> readers (prune live v) = []"

definition texture_versions_new :: "'a texture_versions" where
  "texture_versions_new = \<lparr>versions = [], current = 0\<rparr>"

definition get :: "nat \<Rightarrow> 'a list \<Rightarrow> 'a option" where
  "get i xs = (if i < length xs then Some (xs ! i) else None)"

definition current_resource :: "'a texture_versions \<Rightarrow> 'a option" where
  "current_resource t = map_option resource (get (current t) (versions t))"

definition prune_at :: "(nat \<Rightarrow> bool) \<Rightarrow> nat \<Rightarrow> 'a version list \<Rightarrow> 'a version list" where
  "prune_at live i vs = (if i < length vs then vs[i := prune live (vs ! i)] else vs)"

definition current_busy :: "(nat \<Rightarrow> bool) \<Rightarrow> 'a texture_versions \<Rightarrow> bool \<times> 'a texture_versions" where
  "current_busy live t =
     ((case get (current t) (versions t) of None \<Rightarrow> False | Some v \<Rightarrow> \<not> writable live v),
      t\<lparr>versions := prune_at live (current t) (versions t)\<rparr>)"

text \<open>\<open>None\<close>: indexing an empty cache panics.\<close>

definition mark_read :: "(nat \<Rightarrow> bool) \<Rightarrow> nat \<Rightarrow> 'a texture_versions \<Rightarrow> 'a texture_versions option" where
  "mark_read live f t =
     (case get (current t) (versions t) of
        None \<Rightarrow> None
      | Some v \<Rightarrow>
          let v' = prune live v;
              v'' = (if f \<in> set (readers v') then v' else v'\<lparr>readers := readers v' @ [f]\<rparr>)
          in Some (t\<lparr>versions := (versions t)[current t := v'']\<rparr>))"

definition has_alternates :: "'a texture_versions \<Rightarrow> bool" where
  "has_alternates t \<longleftrightarrow> length (versions t) > 1"

subsection \<open>Pruning\<close>

text \<open>
  \<open>retain_mut\<close> with the index, the shifted current index and the spare flag threaded
  through; the index of the current version is the old one during the whole pass, and the
  current version's readers are not visited (\<open>index == self.current ||\<close> stops there).
\<close>

fun retain_pass ::
  "(nat \<Rightarrow> bool) \<Rightarrow> ('a \<Rightarrow> bool) \<Rightarrow> nat \<Rightarrow> 'a version list \<Rightarrow> nat \<Rightarrow> nat \<Rightarrow> bool
    \<Rightarrow> 'a version list \<times> nat" where
  "retain_pass live compatible cur [] index current' spare = ([], current')"
| "retain_pass live compatible cur (v # vs) index current' spare =
     (if index = cur then
        (case retain_pass live compatible cur vs (Suc index) current' spare of
           (kept, c) \<Rightarrow> (v # kept, c))
      else if \<not> writable live v then
        (case retain_pass live compatible cur vs (Suc index) current' spare of
           (kept, c) \<Rightarrow> (prune live v # kept, c))
      else if \<not> spare \<and> compatible (resource v) then
        (case retain_pass live compatible cur vs (Suc index) current' True of
           (kept, c) \<Rightarrow> (prune live v # kept, c))
      else
        retain_pass live compatible cur vs (Suc index)
          (if index < cur then current' - 1 else current') spare)"

definition retain_idle_spare ::
  "(nat \<Rightarrow> bool) \<Rightarrow> ('a \<Rightarrow> bool) \<Rightarrow> 'a texture_versions \<Rightarrow> nat \<times> 'a texture_versions" where
  "retain_idle_spare live compatible t =
     (case retain_pass live compatible (current t) (versions t) 0 (current t) False of
        (kept, c) \<Rightarrow> (length (versions t) - length kept, \<lparr>versions = kept, current = c\<rparr>))"

definition prune_idle :: "(nat \<Rightarrow> bool) \<Rightarrow> 'a texture_versions \<Rightarrow> nat \<times> 'a texture_versions" where
  "prune_idle live t = retain_idle_spare live (\<lambda>_. False) t"

subsection \<open>Updates\<close>

text \<open>\<open>iter_mut().position(|v| v.writable() && ok(v))\<close> prunes what it visits.\<close>

fun find_writable ::
  "(nat \<Rightarrow> bool) \<Rightarrow> ('a \<Rightarrow> bool) \<Rightarrow> 'a version list \<Rightarrow> nat option \<times> 'a version list" where
  "find_writable live ok [] = (None, [])"
| "find_writable live ok (v # vs) =
     (if writable live v \<and> ok (resource v) then (Some 0, prune live v # vs)
      else case find_writable live ok vs of
        (i, vs') \<Rightarrow> (map_option Suc i, prune live v # vs'))"

definition current_ok :: "(nat \<Rightarrow> bool) \<Rightarrow> ('a \<Rightarrow> bool) \<Rightarrow> nat \<Rightarrow> 'a version list \<Rightarrow> bool" where
  "current_ok live ok c vs =
     (case get c vs of None \<Rightarrow> False | Some v \<Rightarrow> writable live v \<and> ok (resource v))"

definition update_target ::
  "(nat \<Rightarrow> bool) \<Rightarrow> ('a \<Rightarrow> bool) \<Rightarrow> 'a texture_versions
    \<Rightarrow> (update_error + nat) \<times> 'a texture_versions" where
  "update_target live compatible t =
     (let c = current t; vs0 = versions t; vs1 = prune_at live c vs0 in
      if current_ok live compatible c vs0 then (Inr c, t\<lparr>versions := vs1\<rparr>)
      else (case find_writable live compatible vs1 of
        (Some i, vs2) \<Rightarrow> (Inr i, t\<lparr>versions := vs2\<rparr>)
      | (None, vs2) \<Rightarrow>
          (let vs3 = prune_at live c vs2 in
           if current_ok live (\<lambda>_. True) c vs2 then (Inr c, t\<lparr>versions := vs3\<rparr>)
           else (case find_writable live (\<lambda>_. True) vs3 of
             (Some i, vs4) \<Rightarrow> (Inr i, t\<lparr>versions := vs4\<rparr>)
           | (None, vs4) \<Rightarrow>
               if length vs4 < MAX_VERSIONS then (Inr (length vs4), t\<lparr>versions := vs4\<rparr>)
               else (Inl Busy, t\<lparr>versions := vs4\<rparr>)))))"

definition writable_matching ::
  "(nat \<Rightarrow> bool) \<Rightarrow> ('a \<Rightarrow> bool) \<Rightarrow> 'a texture_versions
    \<Rightarrow> (update_error + 'a option) \<times> 'a texture_versions" where
  "writable_matching live compatible t =
     (case update_target live compatible t of
        (Inl e, t') \<Rightarrow> (Inl e, t')
      | (Inr i, t') \<Rightarrow> (Inr (map_option resource (get i (versions t'))), t'))"

definition prepare_matching ::
  "(nat \<Rightarrow> bool) \<Rightarrow> ('a \<Rightarrow> bool) \<Rightarrow> ('a option \<Rightarrow> 'e + 'a) \<Rightarrow> 'a texture_versions
    \<Rightarrow> ('e prepare_error + 'a option) \<times> 'a texture_versions" where
  "prepare_matching live compatible allocate t =
     (case writable_matching live compatible t of
        (Inl _, t') \<Rightarrow> (Inl PrepareBusy, t')
      | (Inr idle, t') \<Rightarrow>
          if (case idle of None \<Rightarrow> False | Some r \<Rightarrow> compatible r) then (Inr None, t')
          else (map_sum Allocation Some (allocate idle), t'))"

definition update_matching ::
  "(nat \<Rightarrow> bool) \<Rightarrow> ('a \<Rightarrow> bool) \<Rightarrow> ('a option \<Rightarrow> bool \<Rightarrow> 'a option) \<Rightarrow> 'a texture_versions
    \<Rightarrow> (update_error + unit) \<times> 'a texture_versions" where
  "update_matching live compatible upload t =
     (case update_target live compatible t of
        (Inl e, t') \<Rightarrow> (Inl e, t')
      | (Inr target, t') \<Rightarrow>
          (let existing = map_option resource (get target (versions t')) in
          (case upload existing (existing \<noteq> None \<and> target = current t') of
            None \<Rightarrow> (Inl Rejected, t')
          | Some r \<Rightarrow>
              (Inr (),
               t'\<lparr>versions :=
                    (if target < length (versions t')
                     then (versions t')[target := (versions t' ! target)\<lparr>resource := r\<rparr>]
                     else versions t' @ [\<lparr>resource = r, readers = []\<rparr>]),
                  current := target\<rparr>))))"

definition update ::
  "(nat \<Rightarrow> bool) \<Rightarrow> ('a option \<Rightarrow> bool \<Rightarrow> 'a option) \<Rightarrow> 'a texture_versions
    \<Rightarrow> (update_error + unit) \<times> 'a texture_versions" where
  "update live upload t = update_matching live (\<lambda>_. True) upload t"

subsection \<open>Pruned copies\<close>

text \<open>
  Two version lists that differ only in readers that are no longer live: what every search
  leaves behind.
\<close>

definition pruned :: "(nat \<Rightarrow> bool) \<Rightarrow> 'a version list \<Rightarrow> 'a version list \<Rightarrow> bool" where
  "pruned live vs vs' \<longleftrightarrow>
     map resource vs' = map resource vs
     \<and> map (\<lambda>v. filter live (readers v)) vs' = map (\<lambda>v. filter live (readers v)) vs"

lemma pruned_refl: "pruned live vs vs"
  by (simp add: pruned_def)

lemma pruned_trans: "pruned live a b \<Longrightarrow> pruned live b c \<Longrightarrow> pruned live a c"
  by (simp add: pruned_def)

lemma pruned_length: "pruned live vs vs' \<Longrightarrow> length vs' = length vs"
  unfolding pruned_def by (metis length_map)

lemma pruned_nth:
  assumes "pruned live vs vs'" "i < length vs"
  shows "resource (vs' ! i) = resource (vs ! i)"
    and "filter live (readers (vs' ! i)) = filter live (readers (vs ! i))"
    and "writable live (vs' ! i) = writable live (vs ! i)"
proof -
  have len: "length vs' = length vs" by (rule pruned_length [OF assms(1)])
  from assms(1) have "map resource vs' ! i = map resource vs ! i"
      "map (\<lambda>v. filter live (readers v)) vs' ! i = map (\<lambda>v. filter live (readers v)) vs ! i"
    by (simp_all add: pruned_def)
  then show "resource (vs' ! i) = resource (vs ! i)"
      "filter live (readers (vs' ! i)) = filter live (readers (vs ! i))"
      "writable live (vs' ! i) = writable live (vs ! i)"
    using assms(2) len by (simp_all add: writable_def prune_def)
qed

lemma prune_at_pruned: "pruned live vs (prune_at live i vs)"
  by (auto simp: pruned_def prune_at_def prune_def map_update intro!: nth_equalityI
      simp: nth_list_update)

lemma find_writable_pruned: "pruned live vs (snd (find_writable live ok vs))"
  by (induction vs) (auto simp: pruned_def prune_def split_beta)

lemma find_writable_Some:
  "fst (find_writable live ok vs) = Some i \<Longrightarrow>
   i < length vs \<and> writable live (vs ! i) \<and> ok (resource (vs ! i))"
  by (induction vs arbitrary: i) (auto simp: split_beta split: if_splits)

lemma find_writable_None:
  "fst (find_writable live ok vs) = None \<Longrightarrow> i < length vs \<Longrightarrow>
   \<not> (writable live (vs ! i) \<and> ok (resource (vs ! i)))"
  by (induction vs arbitrary: i) (auto simp: split_beta less_Suc_eq_0_disj split: if_splits)

lemma current_ok_iff:
  "current_ok live ok c vs \<longleftrightarrow> c < length vs \<and> writable live (vs ! c) \<and> ok (resource (vs ! c))"
  by (simp add: current_ok_def get_def)

lemma update_target_cases:
  assumes "update_target live compatible t = (r, t')"
  shows "current t' = current t \<and> pruned live (versions t) (versions t')
    \<and> (case r of
         Inr i \<Rightarrow> (i < length (versions t) \<and> writable live (versions t ! i)
             \<and> (compatible (resource (versions t ! i))
                \<or> (\<forall>j < length (versions t). writable live (versions t ! j) \<longrightarrow>
                      \<not> compatible (resource (versions t ! j)))))
           \<or> (i = length (versions t) \<and> i < MAX_VERSIONS
              \<and> (\<forall>j < length (versions t). \<not> writable live (versions t ! j)))
       | Inl e \<Rightarrow> e = Busy \<and> MAX_VERSIONS \<le> length (versions t)
           \<and> (\<forall>j < length (versions t). \<not> writable live (versions t ! j)))"
proof -
  define c vs0 where "c = current t" and "vs0 = versions t"
  define vs1 where "vs1 = prune_at live c vs0"
  define vs2 where "vs2 = snd (find_writable live compatible vs1)"
  define vs3 where "vs3 = prune_at live c vs2"
  define vs4 where "vs4 = snd (find_writable live (\<lambda>_. True) vs3)"
  have p1: "pruned live vs0 vs1" unfolding vs1_def by (rule prune_at_pruned)
  have p2: "pruned live vs0 vs2"
    unfolding vs2_def by (rule pruned_trans [OF p1 find_writable_pruned])
  have p3: "pruned live vs0 vs3" unfolding vs3_def by (rule pruned_trans [OF p2 prune_at_pruned])
  have p4: "pruned live vs0 vs4"
    unfolding vs4_def by (rule pruned_trans [OF p3 find_writable_pruned])
  note len = p1 [THEN pruned_length] p2 [THEN pruned_length] p3 [THEN pruned_length]
    p4 [THEN pruned_length]
  note nth1 = pruned_nth [OF p1] and nth2 = pruned_nth [OF p2] and nth3 = pruned_nth [OF p3]
  show ?thesis
  proof (cases "current_ok live compatible c vs0")
    case True
    with assms have "r = Inr c" "t' = t\<lparr>versions := vs1\<rparr>"
      by (simp_all add: update_target_def Let_def c_def vs0_def vs1_def)
    with True p1 show ?thesis by (auto simp: current_ok_iff vs0_def)
  next
    case no1: False
    show ?thesis
    proof (cases "fst (find_writable live compatible vs1)")
      case (Some i)
      with assms no1 have "r = Inr i" "t' = t\<lparr>versions := vs2\<rparr>"
        by (simp_all add: update_target_def Let_def c_def vs0_def vs1_def vs2_def split_beta)
      with find_writable_Some [OF Some] p2 nth1 len show ?thesis by (auto simp: vs0_def)
    next
      case no2: None
      have incompatible: "\<forall>j < length vs0. writable live (vs0 ! j) \<longrightarrow> \<not> compatible (resource (vs0 ! j))"
        using find_writable_None [OF no2] nth1 len by auto
      show ?thesis
      proof (cases "current_ok live (\<lambda>_. True) c vs2")
        case True
        with assms no1 no2 have "r = Inr c" "t' = t\<lparr>versions := vs3\<rparr>"
          by (simp_all add: update_target_def Let_def c_def vs0_def vs1_def vs2_def vs3_def split_beta)
        with True p3 nth2 len incompatible show ?thesis by (auto simp: current_ok_iff vs0_def)
      next
        case no3: False
        show ?thesis
        proof (cases "fst (find_writable live (\<lambda>_. True) vs3)")
          case (Some i)
          with assms no1 no2 no3 have "r = Inr i" "t' = t\<lparr>versions := vs4\<rparr>"
            by (simp_all add: update_target_def Let_def c_def vs0_def vs1_def vs2_def vs3_def vs4_def
                split_beta)
          with find_writable_Some [OF Some] p4 nth3 len incompatible show ?thesis
            by (auto simp: vs0_def)
        next
          case None
          have busy: "\<forall>j < length vs0. \<not> writable live (vs0 ! j)"
            using find_writable_None [OF None] nth3 len by auto
          from assms no1 no2 no3 None
          have "t' = t\<lparr>versions := vs4\<rparr>"
              "r = (if length vs4 < MAX_VERSIONS then Inr (length vs4) else Inl Busy)"
            by (simp_all add: update_target_def Let_def c_def vs0_def vs1_def vs2_def vs3_def vs4_def
                split_beta split: if_splits)
          with busy p4 len show ?thesis by (auto simp: vs0_def)
        qed
      qed
    qed
  qed
qed

definition versions_wf :: "'a texture_versions \<Rightarrow> bool" where
  "versions_wf t \<longleftrightarrow>
     length (versions t) \<le> MAX_VERSIONS \<and> (versions t \<noteq> [] \<longrightarrow> current t < length (versions t))"

lemma update_target_wf:
  "versions_wf t \<Longrightarrow> update_target live compatible t = (r, t') \<Longrightarrow> versions_wf t'"
  using update_target_cases [of live compatible t r t'] pruned_length [of live "versions t" "versions t'"]
  by (auto simp: versions_wf_def)

lemma update_matching_cases:
  assumes "update_matching live compatible upload t = (r, t')"
  obtains (busy) "r = Inl Busy" "update_target live compatible t = (Inl Busy, t')"
  | (rejected) i where "r = Inl Rejected" "update_target live compatible t = (Inr i, t')"
  | (written) i s x where "r = Inr ()" "update_target live compatible t = (Inr i, s)"
      "upload (map_option resource (get i (versions s)))
         (map_option resource (get i (versions s)) \<noteq> None \<and> i = current s) = Some x"
      "t' = s\<lparr>versions := (if i < length (versions s)
           then (versions s)[i := (versions s ! i)\<lparr>resource := x\<rparr>]
           else versions s @ [\<lparr>resource = x, readers = []\<rparr>]), current := i\<rparr>"
proof (cases "update_target live compatible t")
  case (Pair a s)
  show ?thesis
  proof (cases a)
    case (Inl e)
    moreover from this Pair update_target_cases [OF Pair] have "e = Busy" by simp
    ultimately show ?thesis using assms Pair busy by (simp add: update_matching_def)
  next
    case (Inr i)
    show ?thesis
    proof (cases "upload (map_option resource (get i (versions s)))
         (map_option resource (get i (versions s)) \<noteq> None \<and> i = current s)")
      case None
      with assms Pair Inr rejected show ?thesis by (simp add: update_matching_def Let_def)
    next
      case (Some x)
      with assms Pair Inr written show ?thesis by (simp add: update_matching_def Let_def)
    qed
  qed
qed



text \<open>
  an update is refused as busy exactly when three versions exist and every one of them
  is being read, and the cache never holds more than three versions.
\<close>

theorem update_busy_iff:
  assumes "versions_wf t"
  shows "(fst (update_matching live compatible upload t) = Inl Busy
      \<longleftrightarrow> length (versions t) = 3 \<and> (\<forall>v \<in> set (versions t). \<not> writable live v))
    \<and> versions_wf (snd (update_matching live compatible upload t))"
proof -
  obtain r t' where u: "update_matching live compatible upload t = (r, t')"
    by (cases "update_matching live compatible upload t")
  from u show ?thesis
  proof (cases rule: update_matching_cases)
    case busy
    with update_target_cases [OF busy(2)] update_target_wf [OF assms busy(2)] assms u show ?thesis
      by (auto simp: versions_wf_def MAX_VERSIONS_def MAX_FRAMES_def in_set_conv_nth)
  next
    case (rejected i)
    have "\<not> (length (versions t) = 3 \<and> (\<forall>v \<in> set (versions t). \<not> writable live v))"
      using update_target_cases [OF rejected(2)] by (auto simp: MAX_VERSIONS_def MAX_FRAMES_def)
    with rejected update_target_wf [OF assms rejected(2)] u show ?thesis by simp
  next
    case (written i s x)
    have no: "\<not> (length (versions t) = 3 \<and> (\<forall>v \<in> set (versions t). \<not> writable live v))"
      using update_target_cases [OF written(2)] by (auto simp: MAX_VERSIONS_def MAX_FRAMES_def)
    have "versions_wf t'"
      using update_target_cases [OF written(2)] update_target_wf [OF assms written(2)] written(4)
        pruned_length [of live "versions t" "versions s"]
      by (auto simp: versions_wf_def)
    with no written u show ?thesis by simp
  qed
qed

theorem update_busy_iff_witness:
  "fst (update_matching (\<lambda>_. True) (\<lambda>_. True) (\<lambda>_ _. Some (1::nat))
     \<lparr>versions = replicate 3 \<lparr>resource = 0, readers = [7]\<rparr>, current = 1\<rparr>) = Inl Busy"
proof -
  let ?t = "\<lparr>versions = replicate 3 \<lparr>resource = 0::nat, readers = [7]\<rparr>, current = 1\<rparr>"
  have w: "versions_wf ?t" by (simp add: versions_wf_def MAX_VERSIONS_def MAX_FRAMES_def)
  have "length (versions ?t) = 3 \<and> (\<forall>v \<in> set (versions ?t). \<not> writable (\<lambda>_. True) v)"
    by (simp add: writable_def prune_def)
  with update_busy_iff [OF w, of "\<lambda>_. True" "\<lambda>_. True" "\<lambda>_ _. Some 1"] show ?thesis by simp
qed

text \<open>
  a prepared upload never allocates at publication. If \<open>prepare_matching\<close> answered
  that a compatible idle version exists, then after any completions (which only remove live
  readers) the update of the same cache writes into a version that is compatible.
\<close>

theorem prepared_update_reuses:
  assumes "prepare_matching live compatible allocate t = (Inr None, t')"
    and "\<And>f. live' f \<Longrightarrow> live f"
    and "update_target live' compatible t' = (r, t'')"
  shows "\<exists>i. r = Inr i \<and> i < length (versions t'') \<and> compatible (resource (versions t'' ! i))"
proof -
  obtain i where i: "update_target live compatible t = (Inr i, t')"
      and c: "i < length (versions t')" "compatible (resource (versions t' ! i))"
    using assms(1)
    by (cases "update_target live compatible t"; cases "fst (update_target live compatible t)";
        cases "allocate (map_option resource (get (projr (fst (update_target live compatible t))) (versions t')))")
      (auto simp: prepare_matching_def writable_matching_def get_def split: if_splits option.splits)
  have p: "pruned live (versions t) (versions t')" using update_target_cases [OF i] by simp
  have "writable live (versions t ! i)"
    using update_target_cases [OF i] c(1) pruned_length [OF p] by auto
  then have "writable live (versions t' ! i)"
    using pruned_nth(3) [OF p] c(1) pruned_length [OF p] by simp
  then have w: "writable live' (versions t' ! i)"
    using assms(2) by (auto simp: writable_def prune_def filter_empty_conv)
  note u = update_target_cases [OF assms(3)]
  from w c u obtain j where j: "r = Inr j" "j < length (versions t')"
      "compatible (resource (versions t' ! j))"
    by (cases r) auto
  with u show ?thesis using pruned_nth(1) pruned_length by (metis)
qed

theorem prepared_update_reuses_witness:
  "\<exists>i. fst (update_target (\<lambda>_. False) ((=) 4)
     \<lparr>versions = [\<lparr>resource = 4::nat, readers = []\<rparr>], current = 0\<rparr>) = Inr i \<and> i < 1"
proof -
  let ?t = "\<lparr>versions = [\<lparr>resource = 4::nat, readers = [3]\<rparr>], current = 0\<rparr>"
  let ?t' = "\<lparr>versions = [\<lparr>resource = 4::nat, readers = []\<rparr>], current = 0\<rparr>"
  have p: "prepare_matching (\<lambda>_. False) ((=) 4) (\<lambda>_. Inl ()) ?t = (Inr None, ?t')"
    by (simp add: prepare_matching_def writable_matching_def update_target_def current_ok_def
        get_def writable_def prune_def prune_at_def Let_def)
  obtain r t'' where u: "update_target (\<lambda>_. False) ((=) 4) ?t' = (r, t'')" "length (versions t'') = 1"
    by (simp add: update_target_def current_ok_def get_def writable_def prune_def prune_at_def Let_def)
  from prepared_update_reuses [OF p _ u(1)] u show ?thesis by auto
qed

subsection \<open>Reclaiming\<close>

definition view :: "(nat \<Rightarrow> bool) \<Rightarrow> 'a version \<Rightarrow> 'a \<times> nat list" where
  "view live v = (resource v, filter live (readers v))"

lemma prune_view [simp]: "view live (prune live v) = view live v"
  by (simp add: view_def prune_def)

lemma prune_writable [simp]: "writable live (prune live v) = writable live v"
  by (simp add: writable_def prune_def)

lemma retain_pass_busy:
  "map (view live) (filter (\<lambda>v. \<not> writable live v) (fst (retain_pass live cmpt cur vs index c spare)))
     = map (view live) (filter (\<lambda>v. \<not> writable live v) vs)"
  by (induction live cmpt cur vs index c spare rule: retain_pass.induct) (auto simp: split_beta)

lemma retain_pass_spares:
  "length (filter (writable live) (fst (retain_pass live cmpt cur vs index c spare)))
     \<le> (if index \<le> cur \<and> cur < index + length vs then 1 else 0) + (if spare then 0 else 1)"
proof (induction live cmpt cur vs index c spare rule: retain_pass.induct)
  case (2 live cmpt cur v vs index c spare)
  then show ?case by (cases "writable live v"; cases spare) (auto simp: split_beta)
qed simp

lemma retain_pass_after: "cur < index \<Longrightarrow> snd (retain_pass live cmpt cur vs index c spare) = c"
  by (induction live cmpt cur vs index c spare rule: retain_pass.induct) (auto simp: split_beta)

lemma retain_pass_current:
  assumes "index \<le> cur" "cur - index < length vs" "c = k + (cur - index)"
  shows "k \<le> snd (retain_pass live cmpt cur vs index c spare)
    \<and> snd (retain_pass live cmpt cur vs index c spare) - k
        < length (fst (retain_pass live cmpt cur vs index c spare))
    \<and> fst (retain_pass live cmpt cur vs index c spare)
        ! (snd (retain_pass live cmpt cur vs index c spare) - k) = vs ! (cur - index)"
  using assms
proof (induction live cmpt cur vs index c spare arbitrary: k rule: retain_pass.induct)
  case (2 live cmpt cur v vs index c spare)
  show ?case
  proof (cases "index = cur")
    case True
    with "2.prems" show ?thesis by (simp add: split_beta retain_pass_after)
  next
    case False
    then have lt: "index < cur" "cur - index = Suc (cur - Suc index)" using "2.prems" by auto
    have pre: "Suc index \<le> cur" "cur - Suc index < length vs" using "2.prems" lt by auto
    consider (busy) "\<not> writable live v" | (spare) "writable live v" "\<not> spare \<and> cmpt (resource v)"
      | (gone) "writable live v" "\<not> (\<not> spare \<and> cmpt (resource v))" by blast
    then show ?thesis
    proof cases
      case busy
      let ?r = "retain_pass live cmpt cur vs (Suc index) c spare"
      have "Suc k \<le> snd ?r \<and> snd ?r - Suc k < length (fst ?r)
          \<and> fst ?r ! (snd ?r - Suc k) = vs ! (cur - Suc index)"
        using "2.IH"(2) [OF False busy pre, of "Suc k"] "2.prems" lt by simp
      moreover from this have "snd ?r - k = Suc (snd ?r - Suc k)" by (auto simp: Suc_diff_le Suc_le_eq Suc_diff_Suc)
      ultimately show ?thesis using False busy lt by (simp add: split_beta)
    next
      case spare
      let ?r = "retain_pass live cmpt cur vs (Suc index) c True"
      have "Suc k \<le> snd ?r \<and> snd ?r - Suc k < length (fst ?r)
          \<and> fst ?r ! (snd ?r - Suc k) = vs ! (cur - Suc index)"
        using "2.IH"(3) [OF False _ spare(2) pre, of "Suc k"] spare(1) "2.prems" lt by simp
      moreover from this have "snd ?r - k = Suc (snd ?r - Suc k)" by (auto simp: Suc_diff_le Suc_le_eq Suc_diff_Suc)
      ultimately show ?thesis using False spare lt by (simp add: split_beta)
    next
      case gone
      let ?r = "retain_pass live cmpt cur vs (Suc index) (c - 1) spare"
      have "k \<le> snd ?r \<and> snd ?r - k < length (fst ?r)
          \<and> fst ?r ! (snd ?r - k) = vs ! (cur - Suc index)"
        using "2.IH"(4) [OF False _ gone(2) pre, of k] gone(1) "2.prems" lt by simp
      then show ?thesis using False gone lt by (auto simp: split_beta)
    qed
  qed
qed simp

lemma retain_pass_length: "length (fst (retain_pass live cmpt cur vs index c spare)) \<le> length vs"
  by (induction live cmpt cur vs index c spare rule: retain_pass.induct)
    (auto simp: split_beta le_SucI)

text \<open>
  reclaiming idle versions keeps what matters: the current image stays current, every
  version an incomplete frame reads survives with its readers, at most one idle alternate
  is kept beside the current one, and the answer is the number of versions dropped.
\<close>

theorem retain_idle_spare_safe:
  assumes "versions_wf t" and "retain_idle_spare live compatible t = (n, t')"
  shows "current_resource t' = current_resource t
    \<and> map (view live) (filter (\<lambda>v. \<not> writable live v) (versions t'))
        = map (view live) (filter (\<lambda>v. \<not> writable live v) (versions t))
    \<and> length (filter (writable live) (versions t')) \<le> 2
    \<and> n + length (versions t') = length (versions t) \<and> versions_wf t'"
proof -
  let ?r = "retain_pass live compatible (current t) (versions t) 0 (current t) False"
  have t': "t' = \<lparr>versions = fst ?r, current = snd ?r\<rparr>" "n = length (versions t) - length (fst ?r)"
    using assms(2) by (simp_all add: retain_idle_spare_def split_beta)
  have le: "length (fst ?r) \<le> length (versions t)" by (rule retain_pass_length)
  have spares: "length (filter (writable live) (fst ?r)) \<le> 2"
    using retain_pass_spares [of live compatible "current t" "versions t" 0 "current t" False]
    by (auto split: if_splits)
  show ?thesis
  proof (cases "versions t = []")
    case True
    with t' show ?thesis by (simp add: current_resource_def get_def versions_wf_def)
  next
    case False
    with assms(1) have "current t < length (versions t)" by (simp add: versions_wf_def)
    then have "snd ?r < length (fst ?r)" "fst ?r ! snd ?r = versions t ! current t"
      using retain_pass_current [of 0 "current t" "versions t" "current t" 0] by auto
    with \<open>current t < length (versions t)\<close> t' le spares assms(1) show ?thesis
      by (auto simp: current_resource_def get_def versions_wf_def retain_pass_busy)
  qed
qed

theorem retain_idle_spare_safe_witness:
  "current_resource (snd (retain_idle_spare (\<lambda>f. f = 1) (\<lambda>_. False)
     \<lparr>versions = [\<lparr>resource = 5::nat, readers = []\<rparr>, \<lparr>resource = 6, readers = []\<rparr>,
        \<lparr>resource = 7, readers = [1]\<rparr>], current = 1\<rparr>)) = Some 6"
proof -
  let ?t = "\<lparr>versions = [\<lparr>resource = 5::nat, readers = []\<rparr>, \<lparr>resource = 6, readers = []\<rparr>,
        \<lparr>resource = 7, readers = [1]\<rparr>], current = 1\<rparr>"
  let ?r = "retain_idle_spare (\<lambda>f. f = 1) (\<lambda>_. False) ?t"
  have w: "versions_wf ?t" by (simp add: versions_wf_def MAX_VERSIONS_def MAX_FRAMES_def)
  have e: "?r = (fst ?r, snd ?r)" by simp
  from retain_idle_spare_safe [OF w e] show ?thesis by (simp add: current_resource_def get_def)
qed

end
