(* ===== verification/Input_Policy.thy ===== *)
theory Input_Policy
  imports Prelude
begin

text \<open>
  \<open>src/input_policy.rs\<close>: which key transitions reach the Wayland keyboard. The reducer
  follows one native window at a time and remembers the keys it has forwarded as pressed;
  the lemmas show that no window is ever left with a key held down. A \<open>BTreeSet<u32>\<close> is the
  sorted list of its elements.
\<close>

subsection \<open>Policy\<close>

datatype key_transition = Pressed | Released

definition requests_clipboard_refresh ::
  "nat \<Rightarrow> key_transition \<Rightarrow> bool \<Rightarrow> bool \<Rightarrow> bool \<Rightarrow> bool \<Rightarrow> bool" where
  "requests_clipboard_refresh evdev_key transition is_repeat ctrl logo shift \<longleftrightarrow>
     transition = Pressed \<and> \<not> is_repeat
     \<and> ((evdev_key = 47 \<and> (ctrl \<or> logo)) \<or> (evdev_key = 110 \<and> shift))"

record 'o reducer =
  owner :: "'o option"
  held_keys :: "nat list"

definition reducer_default :: "'o reducer" where
  "reducer_default = \<lparr>owner = None, held_keys = []\<rparr>"

definition set_owner :: "'o option \<Rightarrow> 'o reducer \<Rightarrow> nat list \<times> 'o reducer" where
  "set_owner new r = (if owner r = new then ([], r) else (held_keys r, \<lparr>owner = new, held_keys = []\<rparr>))"

definition focus_lost :: "'o \<Rightarrow> 'o reducer \<Rightarrow> nat list \<times> 'o reducer" where
  "focus_lost w r = (if owner r \<noteq> Some w then ([], r) else set_owner None r)"

text \<open>\<open>BTreeSet::insert\<close> and \<open>remove\<close> answer whether the set changed.\<close>

definition set_insert :: "nat \<Rightarrow> nat list \<Rightarrow> bool \<times> nat list" where
  "set_insert k ks = (k \<notin> set ks, insort_insert k ks)"

definition set_remove :: "nat \<Rightarrow> nat list \<Rightarrow> bool \<times> nat list" where
  "set_remove k ks = (k \<in> set ks, filter ((\<noteq>) k) ks)"

definition key :: "'o \<Rightarrow> nat \<Rightarrow> key_transition \<Rightarrow> bool \<Rightarrow> 'o reducer \<Rightarrow> bool \<times> 'o reducer" where
  "key w k transition is_repeat r =
     (if owner r \<noteq> Some w then (False, r)
      else
        (case transition of
           Pressed \<Rightarrow>
             if is_repeat then (False, r)
             else (case set_insert k (held_keys r) of (b, ks) \<Rightarrow> (b, r\<lparr>held_keys := ks\<rparr>))
         | Released \<Rightarrow>
             (case set_remove k (held_keys r) of (b, ks) \<Rightarrow> (b, r\<lparr>held_keys := ks\<rparr>))))"

definition key_with_focus ::
  "'o \<Rightarrow> nat \<Rightarrow> key_transition \<Rightarrow> bool \<Rightarrow> bool \<Rightarrow> 'o reducer \<Rightarrow> bool \<times> 'o reducer" where
  "key_with_focus w k transition is_repeat has_focus r =
     (if \<not> has_focus \<and> transition = Pressed then (False, r) else key w k transition is_repeat r)"

definition resume_focus :: "bool \<Rightarrow> ('f \<Rightarrow> bool) \<Rightarrow> 'f option \<Rightarrow> 'f option \<times> 'f option" where
  "resume_focus already_focused live saved =
     (if already_focused then None
      else (case saved of None \<Rightarrow> None | Some f \<Rightarrow> if live f then Some f else None), None)"

record lock_eligibility =
  le_focused :: bool
  le_in_region :: bool
  le_live :: bool
  le_native_acquired :: bool

definition can_activate :: "lock_eligibility \<Rightarrow> bool" where
  "can_activate e \<longleftrightarrow> le_focused e \<and> le_in_region e \<and> le_live e \<and> le_native_acquired e"

subsection \<open>No key is left held down\<close>

text \<open>
  The keyboard a window sees: a transition that the reducer accepts is forwarded to the owner,
  and drained keys are released to the previous owner (the contract of the two drains).
\<close>

datatype 'o key_event =
  SetOwner "'o option" | FocusLost 'o | Key 'o nat key_transition bool bool

type_synonym 'o forwarded = "('o \<times> nat \<times> key_transition) list"

fun key_step :: "'o key_event \<Rightarrow> 'o reducer \<times> 'o forwarded \<Rightarrow> 'o reducer \<times> 'o forwarded" where
  "key_step (SetOwner new) (r, log) =
     (case set_owner new r of
        (ks, r') \<Rightarrow> (r', case owner r of None \<Rightarrow> log | Some w \<Rightarrow> log @ map (\<lambda>k. (w, k, Released)) ks))"
| "key_step (FocusLost w) (r, log) =
     (case focus_lost w r of (ks, r') \<Rightarrow> (r', log @ map (\<lambda>k. (w, k, Released)) ks))"
| "key_step (Key w k transition is_repeat has_focus) (r, log) =
     (case key_with_focus w k transition is_repeat has_focus r of
        (b, r') \<Rightarrow> (r', if b then log @ [(w, k, transition)] else log))"

text \<open>The keys a window has seen pressed and not released.\<close>

definition pressed_after :: "'o forwarded \<Rightarrow> 'o \<Rightarrow> nat set" where
  "pressed_after log w =
     fold (\<lambda>(w', k, t) ks. if w' = w then (case t of Pressed \<Rightarrow> insert k ks | Released \<Rightarrow> ks - {k}) else ks)
       log {}"

lemma pressed_after_simps [simp]:
  "pressed_after [] w = {}"
  "pressed_after (log @ [(w', k, t)]) w =
     (if w' = w then (case t of Pressed \<Rightarrow> insert k (pressed_after log w) | Released \<Rightarrow> pressed_after log w - {k})
      else pressed_after log w)"
  by (simp_all add: pressed_after_def split: key_transition.split)

lemma pressed_after_releases:
  "pressed_after (log @ map (\<lambda>k. (w', k, Released)) ks) w =
     (if w' = w then pressed_after log w - set ks else pressed_after log w)"
proof (induction ks arbitrary: log)
  case (Cons k ks)
  from Cons.IH [of "log @ [(w', k, Released)]"] show ?case by (cases "w' = w") auto
qed simp

definition keys_inv :: "'o reducer \<times> 'o forwarded \<Rightarrow> bool" where
  "keys_inv s \<longleftrightarrow>
     sorted (held_keys (fst s)) \<and> distinct (held_keys (fst s))
     \<and> (\<forall>w. pressed_after (snd s) w = (if owner (fst s) = Some w then set (held_keys (fst s)) else {}))
     \<and> (owner (fst s) = None \<longrightarrow> held_keys (fst s) = [])"

lemma set_owner_inv: "keys_inv (r, log) \<Longrightarrow> keys_inv (key_step (SetOwner new) (r, log))"
  by (cases "owner r") (auto simp: keys_inv_def set_owner_def pressed_after_releases)

lemma focus_lost_inv: "keys_inv (r, log) \<Longrightarrow> keys_inv (key_step (FocusLost w) (r, log))"
  by (auto simp: keys_inv_def focus_lost_def set_owner_def pressed_after_releases)

lemma set_insert_inv:
  assumes "sorted ks" "distinct ks" "set_insert k ks = (b, ks')"
  shows "sorted ks'" "distinct ks'" "set ks' = insert k (set ks)" "b \<longleftrightarrow> k \<notin> set ks"
  using assms by (auto simp: set_insert_def set_insort_insert sorted_insort_insert distinct_insort_insert)

lemma set_remove_inv:
  assumes "sorted ks" "distinct ks" "set_remove k ks = (b, ks')"
  shows "sorted ks'" "distinct ks'" "set ks' = set ks - {k}" "b \<longleftrightarrow> k \<in> set ks"
  using assms sorted_filter [of "\<lambda>x. x" ks "(\<noteq>) k"] by (auto simp: set_remove_def)

lemma key_inv:
  assumes "keys_inv (r, log)"
  shows "keys_inv (key_step (Key w k t rep foc) (r, log))"
proof (cases "owner r = Some w \<and> (foc \<or> t = Released) \<and> \<not> (t = Pressed \<and> rep)")
  case False
  with assms show ?thesis by (cases t) (auto simp: key_with_focus_def key_def)
next
  case True
  have s: "sorted (held_keys r)" "distinct (held_keys r)" using assms by (simp_all add: keys_inv_def)
  have p: "pressed_after log w' = (if w' = w then set (held_keys r) else {})" for w'
    using assms True by (auto simp: keys_inv_def)
  show ?thesis
  proof (cases t)
    case Pressed
    obtain b ks where e: "set_insert k (held_keys r) = (b, ks)" by (cases "set_insert k (held_keys r)")
    note i = set_insert_inv [OF s e]
    with Pressed True e p show ?thesis
      by (auto simp: keys_inv_def key_with_focus_def key_def)
  next
    case Released
    obtain b ks where e: "set_remove k (held_keys r) = (b, ks)" by (cases "set_remove k (held_keys r)")
    note i = set_remove_inv [OF s e]
    with Released True e p show ?thesis
      by (auto simp: keys_inv_def key_with_focus_def key_def)
  qed
qed

interpretation keyboard: invariant_component key_step "(reducer_default, [])" keys_inv
proof (unfold_locales, goal_cases)
  case 1
  show ?case by (simp add: keys_inv_def reducer_default_def)
next
  case (2 s e)
  obtain r log where s: "s = (r, log)" by (cases s)
  show ?case
  proof (cases e)
    case (SetOwner new)
    with 2 s show ?thesis using set_owner_inv by (simp only:)
  next
    case (FocusLost w)
    with 2 s show ?thesis using focus_lost_inv by (simp only:)
  next
    case (Key w k t rep foc)
    with 2 s show ?thesis using key_inv by (simp only:)
  qed
qed

text \<open>
  C33: no key is left held down. After any sequence of focus changes and key transitions, the
  keys a window has seen pressed and not released are exactly the keys the reducer holds if
  the window is the owner, and none otherwise.
\<close>

theorem keys_never_stuck:
  "pressed_after (snd (run_events key_step es (reducer_default, []))) w
     = (if owner (fst (run_events key_step es (reducer_default, []))) = Some w
        then set (held_keys (fst (run_events key_step es (reducer_default, [])))) else {})"
  using keyboard.inv_run [of es] by (simp add: keys_inv_def)

end
