(* ===== verification/Pointer_Input.thy ===== *)
theory Pointer_Input
  imports Input_Policy
begin

text \<open>
  \<open>src/pointer_input.rs\<close> and \<open>reconcile_pointer_lock\<close> of \<open>src/main.rs\<close>: pointer focus and the
  native pointer lock. The application may own the native cursor grab while the Wayland
  client that asked for it has gone; ownership is kept until the release succeeds. Owners
  (native windows) are \<open>'o\<close>, surfaces \<open>'s\<close>; the origin of a surface is \<open>'c\<close>, a pair of
  floating-point numbers that is only compared.
\<close>

subsection \<open>The pointer\<close>

record ('o, 's, 'c) pointer_focus =
  f_owner :: 'o
  f_surface :: 's
  f_origin :: 'c

datatype constraint_kind = KNone | KLocked | KConfined

record constraint_snapshot =
  kind :: constraint_kind
  active :: bool
  live :: bool
  in_region :: bool

datatype lock_action = ANone | Acquire | Release | AConfinementUnsupported

datatype lock_status = Idle | Locked | ConfinementUnsupported | AcquisitionFailed | ReleaseFailed

record ('o, 's, 'c) pointer_input =
  focus :: "('o, 's, 'c) pointer_focus option"
  native_grab :: "('o, 's, 'c) pointer_focus option"
  pending :: bool
  status :: lock_status
  unsupported_confinement_requests :: nat
  held_buttons :: "nat list"

definition pointer_input_default :: "('o, 's, 'c) pointer_input" where
  "pointer_input_default =
     \<lparr>focus = None, native_grab = None, pending = False, status = Idle,
      unsupported_confinement_requests = 0, held_buttons = []\<rparr>"

definition set_status :: "lock_status \<Rightarrow> ('o, 's, 'c) pointer_input \<Rightarrow> bool \<times> ('o, 's, 'c) pointer_input" where
  "set_status st p = (status p \<noteq> st, p\<lparr>status := st\<rparr>)"

definition request_reconcile :: "('o, 's, 'c) pointer_input \<Rightarrow> ('o, 's, 'c) pointer_input" where
  "request_reconcile p = p\<lparr>pending := True\<rparr>"

definition constraint_created :: "constraint_kind \<Rightarrow> ('o, 's, 'c) pointer_input \<Rightarrow> ('o, 's, 'c) pointer_input" where
  "constraint_created k p =
     (let p1 = request_reconcile p in
      if k = KConfined
      then p1\<lparr>unsupported_confinement_requests :=
                saturating_add u64_max (unsupported_confinement_requests p1) 1\<rparr>
      else p1)"

definition record_motion ::
  "'o \<Rightarrow> ('s \<times> 'c) option \<Rightarrow> 's option \<Rightarrow> ('o, 's, 'c) pointer_input \<Rightarrow> ('o, 's, 'c) pointer_input" where
  "record_motion w candidate actual p =
     (let p1 = request_reconcile p in
      case candidate of
        Some (surface, origin) \<Rightarrow>
          if actual = Some surface
          then p1\<lparr>focus := Some \<lparr>f_owner = w, f_surface = surface, f_origin = origin\<rparr>\<rparr>
          else if map_option f_surface (focus p1) \<noteq> actual then p1\<lparr>focus := None\<rparr> else p1
      | None \<Rightarrow> if map_option f_surface (focus p1) \<noteq> actual then p1\<lparr>focus := None\<rparr> else p1)"

definition clear_focus :: "('o, 's, 'c) pointer_input \<Rightarrow> ('o, 's, 'c) pointer_input" where
  "clear_focus p = request_reconcile (p\<lparr>focus := None\<rparr>)"

definition needs_focus_reset :: "'o \<Rightarrow> ('o, 's, 'c) pointer_input \<Rightarrow> bool" where
  "needs_focus_reset next_owner p \<longleftrightarrow>
     (case focus p of None \<Rightarrow> False | Some f \<Rightarrow> f_owner f \<noteq> next_owner)
     \<or> (case native_grab p of None \<Rightarrow> False | Some g \<Rightarrow> f_owner g \<noteq> next_owner)"

definition forget_surface :: "'s \<Rightarrow> ('o, 's, 'c) pointer_input \<Rightarrow> ('o, 's, 'c) pointer_input" where
  "forget_surface s p =
     (case focus p of Some f \<Rightarrow> if f_surface f = s then clear_focus p else p | None \<Rightarrow> p)"

definition forget_window :: "'o \<Rightarrow> ('o, 's, 'c) pointer_input \<Rightarrow> ('o, 's, 'c) pointer_input" where
  "forget_window w p =
     (case focus p of Some f \<Rightarrow> if f_owner f = w then clear_focus p else p | None \<Rightarrow> p)"

definition eligible ::
  "'o option \<Rightarrow> 's option \<Rightarrow> constraint_snapshot \<Rightarrow> ('o, 's, 'c) pointer_input \<Rightarrow> bool" where
  "eligible focused_owner actual c p \<longleftrightarrow>
     (case focus p of
        None \<Rightarrow> False
      | Some f \<Rightarrow> focused_owner = Some (f_owner f) \<and> actual = Some (f_surface f) \<and> live c \<and> in_region c)"

definition action ::
  "'o option \<Rightarrow> 's option \<Rightarrow> constraint_snapshot \<Rightarrow> ('o, 's, 'c) pointer_input \<Rightarrow> lock_action" where
  "action focused_owner actual c p =
     (case native_grab p of
        Some grab \<Rightarrow>
          if eligible focused_owner actual c p \<and> focus p = Some grab \<and> kind c = KLocked \<and> active c
             \<and> status p \<noteq> ReleaseFailed
          then ANone else Release
      | None \<Rightarrow>
          (case kind c of
             KConfined \<Rightarrow> AConfinementUnsupported
           | KLocked \<Rightarrow>
               if eligible focused_owner actual c p \<and> (pending p \<or> status p \<noteq> AcquisitionFailed)
               then Acquire else ANone
           | KNone \<Rightarrow> ANone))"

definition native_acquired ::
  "('o, 's, 'c) pointer_focus \<Rightarrow> ('o, 's, 'c) pointer_input \<Rightarrow> ('o, 's, 'c) pointer_input" where
  "native_acquired f p = p\<lparr>native_grab := Some f, pending := False, status := Idle\<rparr>"

definition activated :: "('o, 's, 'c) pointer_input \<Rightarrow> ('o, 's, 'c) pointer_input" where
  "activated p = p\<lparr>status := Locked\<rparr>"

definition acquisition_failed :: "('o, 's, 'c) pointer_input \<Rightarrow> ('o, 's, 'c) pointer_input" where
  "acquisition_failed p = p\<lparr>pending := False, status := AcquisitionFailed\<rparr>"

definition released :: "bool \<Rightarrow> ('o, 's, 'c) pointer_input \<Rightarrow> ('o, 's, 'c) pointer_input" where
  "released succeeded p =
     (if succeeded then p\<lparr>native_grab := None, pending := True, status := Idle\<rparr>
      else p\<lparr>status := ReleaseFailed\<rparr>)"

definition freezes_absolute :: "('o, 's, 'c) pointer_input \<Rightarrow> bool" where
  "freezes_absolute p \<longleftrightarrow> native_grab p \<noteq> None"

definition relative_focus ::
  "'o option \<Rightarrow> 's option \<Rightarrow> ('o, 's, 'c) pointer_input \<Rightarrow> ('o, 's, 'c) pointer_focus option" where
  "relative_focus focused_owner actual p =
     (case focus p of
        None \<Rightarrow> None
      | Some f \<Rightarrow>
          if focused_owner = Some (f_owner f) \<and> actual = Some (f_surface f)
             \<and> (native_grab p = None \<or> status p = Locked)
          then Some f else None)"

definition button :: "nat \<Rightarrow> bool \<Rightarrow> ('o, 's, 'c) pointer_input \<Rightarrow> ('o, 's, 'c) pointer_input" where
  "button b pressed p =
     p\<lparr>held_buttons := snd (if pressed then set_insert b (held_buttons p) else set_remove b (held_buttons p))\<rparr>"

definition take_buttons :: "('o, 's, 'c) pointer_input \<Rightarrow> nat list \<times> ('o, 's, 'c) pointer_input" where
  "take_buttons p = (held_buttons p, p\<lparr>held_buttons := []\<rparr>)"

subsection \<open>Reconciliation\<close>

text \<open>
  What \<open>reconcile_pointer_lock\<close> finds and changes outside the pointer state: the Wayland
  constraints by surface (kind and whether active), the native cursor grab, and the answers
  of the window system to successive grab requests.
\<close>

record ('o, 's, 'c) seat =
  input :: "('o, 's, 'c) pointer_input"
  constraints :: "'s \<rightharpoonup> constraint_kind \<times> bool"
  grabbed :: bool
  grab_ok :: "nat \<Rightarrow> bool"
  grab_calls :: nat

text \<open>
  The surroundings during one call: the surface under the pointer, the window with keyboard
  focus, the windows that exist (with whether they have focus), and the geometry tests of the
  source: whether the surface and window are live and the position lies in the region of
  the surface and of the constraint.
\<close>

record ('o, 's, 'c) surroundings =
  actual :: "'s option"
  focused_owner :: "'o option"
  windows :: "'o \<rightharpoonup> bool"
  is_live :: "('o, 's, 'c) pointer_focus \<Rightarrow> bool"
  region_contains :: "('o, 's, 'c) pointer_focus \<Rightarrow> bool"

definition set_cursor_grab :: "bool \<Rightarrow> ('o, 's, 'c) seat \<Rightarrow> bool \<times> ('o, 's, 'c) seat" where
  "set_cursor_grab lock s =
     (let ok = grab_ok s (grab_calls s);
          s1 = s\<lparr>grab_calls := Suc (grab_calls s)\<rparr>
      in (ok, if ok then s1\<lparr>grabbed := lock\<rparr> else s1))"

definition deactivate :: "'s \<Rightarrow> ('o, 's, 'c) seat \<Rightarrow> ('o, 's, 'c) seat" where
  "deactivate x s =
     s\<lparr>constraints := (constraints s)(x := map_option (\<lambda>(k, _). (k, False)) (constraints s x))\<rparr>"

definition release_pointer_lock :: "('o, 's, 'c) seat \<Rightarrow> bool \<times> ('o, 's, 'c) seat" where
  "release_pointer_lock s =
     (case native_grab (input s) of
        None \<Rightarrow> (True, s)
      | Some grab \<Rightarrow>
          (case set_cursor_grab False (deactivate (f_surface grab) s) of
             (ok, s1) \<Rightarrow> (ok, s1\<lparr>input := released ok (input s1)\<rparr>)))"

definition snapshot :: "('o, 's, 'c) surroundings \<Rightarrow> ('o, 's, 'c) seat \<Rightarrow> constraint_snapshot" where
  "snapshot e s =
     (let (k, act) = (case Option.bind (actual e) (constraints s) of None \<Rightarrow> (KNone, False) | Some c \<Rightarrow> c)
      in case focus (input s) of
           Some f \<Rightarrow>
             if actual e = Some (f_surface f) \<and> windows e (f_owner f) \<noteq> None
             then \<lparr>kind = k, active = act, live = is_live e f, in_region = region_contains e f\<rparr>
             else \<lparr>kind = k, active = act, live = False, in_region = False\<rparr>
         | None \<Rightarrow> \<lparr>kind = k, active = act, live = False, in_region = False\<rparr>)"

definition eligible_owner :: "('o, 's, 'c) surroundings \<Rightarrow> ('o, 's, 'c) seat \<Rightarrow> 'o option" where
  "eligible_owner e s =
     (case (focused_owner e, focus (input s)) of
        (Some w, Some f) \<Rightarrow> if f_owner f = w \<and> windows e w = Some True then Some w else None
      | _ \<Rightarrow> None)"

text \<open>Activation: only a lock that still exists on the surface.\<close>

definition activate_constraint :: "'s \<Rightarrow> ('o, 's, 'c) seat \<Rightarrow> bool \<times> ('o, 's, 'c) seat" where
  "activate_constraint x s =
     (case constraints s x of
        Some (KLocked, _) \<Rightarrow> (True, s\<lparr>constraints := (constraints s)(x \<mapsto> (KLocked, True))\<rparr>)
      | _ \<Rightarrow> (False, s))"

definition acquire_lock ::
  "('o, 's, 'c) pointer_focus \<Rightarrow> 'o option \<Rightarrow> constraint_snapshot \<Rightarrow> ('o, 's, 'c) seat \<Rightarrow> ('o, 's, 'c) seat" where
  "acquire_lock f owner_now c s =
     (case set_cursor_grab True s of
        (ok, s1) \<Rightarrow>
          if \<not> can_activate \<lparr>le_focused = (owner_now = Some (f_owner f)), le_in_region = in_region c,
                             le_live = live c, le_native_acquired = ok\<rparr>
          then s1\<lparr>input := acquisition_failed (input s1)\<rparr>
          else
            (let s2 = s1\<lparr>input := native_acquired f (input s1)\<rparr> in
             case activate_constraint (f_surface f) s2 of
               (True, s3) \<Rightarrow> s3\<lparr>input := activated (input s3)\<rparr>
             | (False, s3) \<Rightarrow> snd (release_pointer_lock s3)))"

definition deactivate_actual ::
  "constraint_snapshot \<Rightarrow> ('o, 's, 'c) surroundings \<Rightarrow> ('o, 's, 'c) seat \<Rightarrow> ('o, 's, 'c) seat" where
  "deactivate_actual c e s =
     (case actual e of Some x \<Rightarrow> if active c then deactivate x s else s | None \<Rightarrow> s)"

text \<open>One pass of the loop; the answer tells whether the loop goes on.\<close>

definition reconcile_pass :: "('o, 's, 'c) surroundings \<Rightarrow> ('o, 's, 'c) seat \<Rightarrow> bool \<times> ('o, 's, 'c) seat" where
  "reconcile_pass e s =
     (let c = snapshot e s; owner_now = eligible_owner e s in
      if kind c = KNone \<and> native_grab (input s) = None
      then (False, s\<lparr>input := snd (set_status Idle (input s))\<rparr>)
      else
        (case action owner_now (actual e) c (input s) of
           Release \<Rightarrow> release_pointer_lock s
         | AConfinementUnsupported \<Rightarrow>
             (False, (deactivate_actual c e s)\<lparr>input := snd (set_status ConfinementUnsupported (input s))\<rparr>)
         | Acquire \<Rightarrow>
             (case focus (input s) of
                None \<Rightarrow> (False, s)
              | Some f \<Rightarrow> (False, acquire_lock f owner_now c s))
         | ANone \<Rightarrow>
             (False,
              if native_grab (input s) = None
              then (let s1 = deactivate_actual c e s in
                    if kind c = KNone then s1\<lparr>input := snd (set_status Idle (input s1))\<rparr> else s1)
              else s)))"

definition reconcile_pointer_lock :: "('o, 's, 'c) surroundings \<Rightarrow> ('o, 's, 'c) seat \<Rightarrow> ('o, 's, 'c) seat" where
  "reconcile_pointer_lock e s =
     (case reconcile_pass e s of (True, s1) \<Rightarrow> snd (reconcile_pass e s1) | (False, s1) \<Rightarrow> s1)"

subsection \<open>The native grab is never lost\<close>

datatype ('o, 's, 'c) seat_event =
  Motion 'o "('s \<times> 'c) option" "'s option" | ClearFocus | ForgetSurface 's | ForgetWindow 'o
  | ConstraintCreated 's constraint_kind | ConstraintGone 's | Button nat bool | TakeButtons
  | ReleaseLock | Reconcile "('o, 's, 'c) surroundings"

fun seat_step :: "('o, 's, 'c) seat_event \<Rightarrow> ('o, 's, 'c) seat \<Rightarrow> ('o, 's, 'c) seat" where
  "seat_step (Motion w cand act) s = s\<lparr>input := record_motion w cand act (input s)\<rparr>"
| "seat_step ClearFocus s = s\<lparr>input := clear_focus (input s)\<rparr>"
| "seat_step (ForgetSurface x) s = s\<lparr>input := forget_surface x (input s)\<rparr>"
| "seat_step (ForgetWindow w) s = s\<lparr>input := forget_window w (input s)\<rparr>"
| "seat_step (ConstraintCreated x k) s =
     s\<lparr>input := constraint_created k (input s), constraints := (constraints s)(x \<mapsto> (k, False))\<rparr>"
| "seat_step (ConstraintGone x) s =
     s\<lparr>input := request_reconcile (input s), constraints := (constraints s)(x := None)\<rparr>"
| "seat_step (Button b pr) s = s\<lparr>input := button b pr (input s)\<rparr>"
| "seat_step TakeButtons s = s\<lparr>input := snd (take_buttons (input s))\<rparr>"
| "seat_step ReleaseLock s = snd (release_pointer_lock s)"
| "seat_step (Reconcile e) s = reconcile_pointer_lock e s"

definition seat_init :: "(nat \<Rightarrow> bool) \<Rightarrow> ('o, 's, 'c) seat" where
  "seat_init answers =
     \<lparr>input = pointer_input_default, constraints = Map.empty, grabbed = False, grab_ok = answers, grab_calls = 0\<rparr>"

definition seat_inv :: "('o, 's, 'c) seat \<Rightarrow> bool" where
  "seat_inv s \<longleftrightarrow>
     (grabbed s \<longrightarrow> native_grab (input s) \<noteq> None)
     \<and> (native_grab (input s) \<noteq> None \<longrightarrow>
          status (input s) = ReleaseFailed \<or> (status (input s) = Locked \<and> grabbed s))"

text \<open>What the pointer operations leave alone.\<close>

lemma input_ops_lock [simp]:
  "native_grab (record_motion w cand act p) = native_grab p" "status (record_motion w cand act p) = status p"
  "native_grab (clear_focus p) = native_grab p" "status (clear_focus p) = status p"
  "native_grab (forget_surface x p) = native_grab p" "status (forget_surface x p) = status p"
  "native_grab (forget_window w p) = native_grab p" "status (forget_window w p) = status p"
  "native_grab (constraint_created k p) = native_grab p" "status (constraint_created k p) = status p"
  "native_grab (request_reconcile p) = native_grab p" "status (request_reconcile p) = status p"
  "native_grab (button b pr p) = native_grab p" "status (button b pr p) = status p"
  "native_grab (snd (take_buttons p)) = native_grab p" "status (snd (take_buttons p)) = status p"
  by (simp_all add: record_motion_def clear_focus_def forget_surface_def forget_window_def
      constraint_created_def request_reconcile_def button_def take_buttons_def Let_def
      split: option.splits)

lemma deactivate_fields [simp]:
  "input (deactivate x s) = input s" "grabbed (deactivate x s) = grabbed s"
  "grab_ok (deactivate x s) = grab_ok s" "grab_calls (deactivate x s) = grab_calls s"
  "input (deactivate_actual c e s) = input s" "grabbed (deactivate_actual c e s) = grabbed s"
  by (simp_all add: deactivate_def deactivate_actual_def split: option.splits)

lemma release_cases:
  assumes "release_pointer_lock s = (ok, s')" "native_grab (input s) \<noteq> None"
  shows "grabbed s' = (if ok then False else grabbed s)"
    "native_grab (input s') = (if ok then None else native_grab (input s))"
    "status (input s') = (if ok then Idle else ReleaseFailed)"
    "focus (input s') = focus (input s)"
  using assms
  by (auto simp: release_pointer_lock_def set_cursor_grab_def released_def Let_def split: option.splits if_splits)

lemma release_inv: "seat_inv s \<Longrightarrow> seat_inv (snd (release_pointer_lock s))"
proof (cases "native_grab (input s) = None")
  case False
  obtain ok s' where r: "release_pointer_lock s = (ok, s')" by (cases "release_pointer_lock s")
  from release_cases [OF r False] show "seat_inv s \<Longrightarrow> ?thesis" by (auto simp: seat_inv_def r)
qed (simp add: release_pointer_lock_def)

text \<open>
  Acquisition starts only with everything in place, so a grab that succeeds is recorded, and
  ends with the lock active, or with the grab given back, or with the failure to give it back.
\<close>

definition justified :: "('o, 's, 'c) surroundings \<Rightarrow> ('o, 's, 'c) seat \<Rightarrow> ('o, 's, 'c) pointer_focus \<Rightarrow> bool" where
  "justified e s f \<longleftrightarrow>
     native_grab (input s) = Some f \<and> focus (input s) = Some f \<and> status (input s) = Locked \<and> grabbed s
     \<and> focused_owner e = Some (f_owner f) \<and> windows e (f_owner f) = Some True
     \<and> actual e = Some (f_surface f) \<and> is_live e f \<and> region_contains e f
     \<and> constraints s (f_surface f) = Some (KLocked, True)"

lemma eligible_owner_Some:
  "eligible_owner e s = Some w \<Longrightarrow> focused_owner e = Some w \<and> windows e w = Some True"
  by (auto simp: eligible_owner_def split: option.splits if_splits)

lemma eligible_ready:
  assumes "eligible (eligible_owner e s) (actual e) (snapshot e s) (input s)"
  shows "\<exists>f. focus (input s) = Some f \<and> eligible_owner e s = Some (f_owner f) \<and> live (snapshot e s)
    \<and> in_region (snapshot e s) \<and> focused_owner e = Some (f_owner f) \<and> windows e (f_owner f) = Some True
    \<and> actual e = Some (f_surface f) \<and> is_live e f \<and> region_contains e f"
proof -
  obtain f where f: "focus (input s) = Some f" "eligible_owner e s = Some (f_owner f)"
      "actual e = Some (f_surface f)" "live (snapshot e s)" "in_region (snapshot e s)"
    using assms by (auto simp: eligible_def split: option.splits)
  have "focused_owner e = Some (f_owner f)" "windows e (f_owner f) = Some True"
    using eligible_owner_Some [OF f(2)] by blast+
  moreover have "is_live e f" "region_contains e f"
    using f(1,3,4,5) by (simp_all add: snapshot_def Let_def split_beta split: if_splits)
  ultimately show ?thesis using f by blast
qed

lemma acquire_cases:
  assumes "focus (input s) = Some f" "native_grab (input s) = None" "\<not> grabbed s"
    and "owner_now = Some (f_owner f)" "live c" "in_region c"
  shows "let s' = acquire_lock f owner_now c s in
    (native_grab (input s') = None \<and> \<not> grabbed s')
    \<or> (native_grab (input s') \<noteq> None \<and> status (input s') = ReleaseFailed)
    \<or> (native_grab (input s') = Some f \<and> focus (input s') = Some f \<and> status (input s') = Locked \<and> grabbed s'
       \<and> constraints s' (f_surface f) = Some (KLocked, True))"
proof -
  obtain ok s1 where g: "set_cursor_grab True s = (ok, s1)" by (cases "set_cursor_grab True s")
  then have s1: "input s1 = input s" "grabbed s1 = ok" using assms(3)
    by (auto simp: set_cursor_grab_def Let_def split: if_splits)
  show ?thesis
  proof (cases ok)
    case False
    with g s1 assms show ?thesis by (simp add: acquire_lock_def can_activate_def acquisition_failed_def Let_def)
  next
    case True
    let ?s2 = "s1\<lparr>input := native_acquired f (input s1)\<rparr>"
    obtain b s3 where a: "activate_constraint (f_surface f) ?s2 = (b, s3)"
      by (cases "activate_constraint (f_surface f) ?s2")
    have s3: "input s3 = native_acquired f (input s)" "grabbed s3"
        "b \<longrightarrow> constraints s3 (f_surface f) = Some (KLocked, True)"
      using a s1 True by (auto simp: activate_constraint_def split: option.splits prod.splits constraint_kind.splits)
    have e: "acquire_lock f owner_now c s
        = (if b then s3\<lparr>input := activated (input s3)\<rparr> else snd (release_pointer_lock s3))"
      using g True assms a by (simp add: acquire_lock_def can_activate_def Let_def split: bool.split)
    show ?thesis
    proof (cases b)
      case True
      with e s3 assms(1) show ?thesis by (simp add: activated_def native_acquired_def Let_def)
    next
      case False
      obtain ok' s' where r: "release_pointer_lock s3 = (ok', s')" by (cases "release_pointer_lock s3")
      have n: "native_grab (input s3) \<noteq> None" using s3 by (simp add: native_acquired_def)
      from release_cases [OF r n] False e r n show ?thesis by (simp add: Let_def)
    qed
  qed
qed

text \<open>One pass: it goes on only with the grab released.\<close>

lemma pass_cases:
  assumes "seat_inv s" "reconcile_pass e s = (go, s')"
  shows "(native_grab (input s') = None \<and> \<not> grabbed s')
    \<or> (\<not> go \<and> native_grab (input s') \<noteq> None \<and> status (input s') = ReleaseFailed)
    \<or> (\<not> go \<and> (\<exists>f. justified e s' f))"
proof (cases "native_grab (input s)")
  case None
  then have ng: "\<not> grabbed s" using assms(1) by (auto simp: seat_inv_def)
  let ?c = "snapshot e s" and ?o = "eligible_owner e s"
  show ?thesis
  proof (cases "action ?o (actual e) ?c (input s)")
    case Acquire
    then have el: "eligible ?o (actual e) ?c (input s)" "kind ?c = KLocked"
      using None by (auto simp: action_def split: constraint_kind.splits if_splits)
    from eligible_ready [OF el(1)] obtain f where f: "focus (input s) = Some f" "?o = Some (f_owner f)"
        "live ?c" "in_region ?c" "focused_owner e = Some (f_owner f)" "windows e (f_owner f) = Some True"
        "actual e = Some (f_surface f)" "is_live e f" "region_contains e f" by blast
    have "go = False" "s' = acquire_lock f ?o ?c s"
      using assms(2) Acquire el(2) f(1) None by (simp_all add: reconcile_pass_def Let_def)
    with acquire_cases [OF f(1) None ng f(2,3,4)] f show ?thesis
      by (auto simp: Let_def justified_def)
  next
    case Release
    with None show ?thesis by (auto simp: action_def split: constraint_kind.splits if_splits)
  qed (use assms(2) None ng in \<open>auto simp: reconcile_pass_def set_status_def Let_def split: if_splits\<close>)
next
  case (Some g)
  let ?c = "snapshot e s" and ?o = "eligible_owner e s"
  show ?thesis
  proof (cases "action ?o (actual e) ?c (input s) = ANone")
    case True
    then have a: "eligible ?o (actual e) ?c (input s)" "focus (input s) = Some g" "kind ?c = KLocked"
        "active ?c" "status (input s) \<noteq> ReleaseFailed"
      using Some by (auto simp: action_def split: if_splits)
    from eligible_ready [OF a(1)] a(2) have f: "focused_owner e = Some (f_owner g)"
        "windows e (f_owner g) = Some True" "actual e = Some (f_surface g)" "is_live e g" "region_contains e g"
      by auto
    have "constraints s (f_surface g) = Some (KLocked, True)"
      using a(3,4) f(3) by (auto simp: snapshot_def Let_def split: option.splits prod.splits if_splits)
    with f a Some assms(1) have "justified e s g" by (auto simp: justified_def seat_inv_def)
    moreover have "go = False" "s' = s" using assms(2) True Some by (auto simp: reconcile_pass_def Let_def)
    ultimately show ?thesis by blast
  next
    case False
    then have "action ?o (actual e) ?c (input s) = Release"
      using Some by (auto simp: action_def split: if_splits)
    then have r: "release_pointer_lock s = (go, s')"
      using assms(2) Some by (auto simp: reconcile_pass_def Let_def)
    from release_cases [OF r] Some show ?thesis by (cases go) auto
  qed
qed

lemma pass_inv: "seat_inv s \<Longrightarrow> seat_inv (snd (reconcile_pass e s))"
proof -
  assume "seat_inv s"
  from pass_cases [OF this, of e "fst (reconcile_pass e s)" "snd (reconcile_pass e s)"] show ?thesis
    by (auto simp: seat_inv_def justified_def)
qed

lemma reconcile_inv: "seat_inv s \<Longrightarrow> seat_inv (reconcile_pointer_lock e s)"
  using pass_inv [of s e] pass_inv [of "snd (reconcile_pass e s)" e]
  by (cases "reconcile_pass e s"; cases "fst (reconcile_pass e s)") (simp_all add: reconcile_pointer_lock_def)

interpretation seat: invariant_component seat_step "seat_init answers" seat_inv for answers
proof (unfold_locales, goal_cases)
  case 1
  show ?case by (simp add: seat_inv_def seat_init_def pointer_input_default_def)
next
  case (2 s e)
  then show ?case by (cases e) (simp_all add: reconcile_inv release_inv, simp_all add: seat_inv_def)
qed

text \<open>
  the native cursor grab is never lost. Whatever windows, clients and the window system
  do, whenever the cursor is grabbed the application still records the grab (and freezes
  absolute motion), and a recorded grab is either active or one whose release has failed
  and is tried again.
\<close>

theorem native_grab_never_lost:
  "(grabbed (run_events seat_step es (seat_init answers)) \<longrightarrow>
      freezes_absolute (input (run_events seat_step es (seat_init answers))))
   \<and> (freezes_absolute (input (run_events seat_step es (seat_init answers))) \<longrightarrow>
      status (input (run_events seat_step es (seat_init answers))) = ReleaseFailed
      \<or> status (input (run_events seat_step es (seat_init answers))) = Locked
        \<and> grabbed (run_events seat_step es (seat_init answers)))"
  using seat.inv_run [of es answers] by (simp add: seat_inv_def freezes_absolute_def)

theorem native_grab_never_lost_witness:
  "\<not> grabbed (run_events seat_step [Motion (1::nat) (Some (2::nat, 3::nat)) (Some 2)] (seat_init (\<lambda>_. True)))"
  using native_grab_never_lost [of "[Motion (1::nat) (Some (2::nat, 3::nat)) (Some 2)]" "\<lambda>_. True"]
  by (simp add: seat_init_def)

text \<open>
  a lock that survives a reconciliation is justified: the cursor is either free, or its
  release has failed, or it is locked for the focus recorded from an accepted motion, whose
  window has the keyboard focus, whose surface is under the pointer, live and contains the
  pointer, and whose lock constraint is active.
\<close>

theorem reconciled_lock_justified:
  assumes "seat_inv s"
  shows "(native_grab (input (reconcile_pointer_lock e s)) = None \<and> \<not> grabbed (reconcile_pointer_lock e s))
    \<or> status (input (reconcile_pointer_lock e s)) = ReleaseFailed
    \<or> (\<exists>f. justified e (reconcile_pointer_lock e s) f)"
proof -
  obtain go s1 where p: "reconcile_pass e s = (go, s1)" by (cases "reconcile_pass e s")
  have i1: "seat_inv s1" using pass_inv [OF assms, of e] p by simp
  obtain go2 s2 where p2: "reconcile_pass e s1 = (go2, s2)" by (cases "reconcile_pass e s1")
  have "reconcile_pointer_lock e s = (if go then s2 else s1)"
    by (simp add: reconcile_pointer_lock_def p p2 split: bool.split)
  with pass_cases [OF assms p] pass_cases [OF i1 p2] show ?thesis by auto
qed

theorem reconciled_lock_justified_witness:
  "\<exists>f. justified \<lparr>actual = Some (2::nat), focused_owner = Some (1::nat), windows = (\<lambda>_. Some True),
      is_live = (\<lambda>_. True), region_contains = (\<lambda>_. True)\<rparr>
    (reconcile_pointer_lock \<lparr>actual = Some 2, focused_owner = Some 1, windows = (\<lambda>_. Some True),
      is_live = (\<lambda>_. True), region_contains = (\<lambda>_. True)\<rparr>
      (run_events seat_step [Motion 1 (Some (2, 3::nat)) (Some 2), ConstraintCreated 2 KLocked]
        (seat_init (\<lambda>_. True)))) f"
proof -
  let ?e = "\<lparr>actual = Some (2::nat), focused_owner = Some (1::nat), windows = (\<lambda>_. Some True),
      is_live = (\<lambda>_ :: (nat, nat, nat) pointer_focus. True), region_contains = (\<lambda>_. True)\<rparr>"
  let ?s = "run_events seat_step [Motion 1 (Some (2, 3::nat)) (Some 2), ConstraintCreated 2 KLocked]
        (seat_init (\<lambda>_. True))"
  have g: "native_grab (input (reconcile_pointer_lock ?e ?s)) \<noteq> None" by code_simp
  have st: "status (input (reconcile_pointer_lock ?e ?s)) = Locked" by code_simp
  have i: "seat_inv ?s" by (rule seat.inv_run)
  have "status (input (reconcile_pointer_lock ?e ?s)) \<noteq> ReleaseFailed" unfolding st by simp
  with reconciled_lock_justified [OF i, of ?e] g show ?thesis by blast
qed

end
