(* ===== verification/Clipboard_Transfer.thy ===== *)
theory Clipboard_Transfer
  imports Prelude
begin

text \<open>
  \<open>src/clipboard_transfer.rs\<close>: the bounded workers of the clipboard. A host image token names
  one snapshot of the macOS pasteboard; the image worker converts at most one TIFF at a time
  and keeps only the latest one waiting; descriptors of clients that asked for an image before
  it was converted wait in a bounded list; outgoing transfers are admitted by two atomic
  counters. The admission is also modelled at the granularity of its atomic operations, with
  any interleaving of reserving and finishing threads.
\<close>

subsection \<open>Tokens and contents\<close>

record image_token =
  tk_generation :: "64 word"
  tk_change_count :: int

definition source_is_current :: "image_token \<Rightarrow> 64 word \<Rightarrow> int \<Rightarrow> bool" where
  "source_is_current t generation live_count \<longleftrightarrow>
     tk_generation t = generation \<and> tk_change_count t = live_count"

definition is_current :: "image_token \<Rightarrow> 64 word \<Rightarrow> int \<Rightarrow> int \<Rightarrow> bool" where
  "is_current t generation cached_count live_count \<longleftrightarrow>
     source_is_current t generation live_count \<and> tk_change_count t = cached_count"

type_synonym image_result = "string + bytes option"

record image_completion =
  c_token :: image_token
  c_result :: image_result

record host_contents =
  hc_text :: "string option"
  hc_image_png :: "bytes option"
  hc_text_only :: bool

definition contents_default :: host_contents where
  "contents_default = \<lparr>hc_text = None, hc_image_png = None, hc_text_only = False\<rparr>"

definition from_snapshot :: "string option \<Rightarrow> bytes option \<Rightarrow> bool \<Rightarrow> host_contents" where
  "from_snapshot text image_png image_unresolved =
     \<lparr>hc_text = text, hc_image_png = image_png,
      hc_text_only = (image_png = None \<and> \<not> image_unresolved)\<rparr>"

definition matches_text_only :: "host_contents \<Rightarrow> string \<Rightarrow> bool" where
  "matches_text_only c text \<longleftrightarrow>
     hc_text_only c \<and> hc_image_png c = None \<and> hc_text c = Some text"

definition merge_image ::
  "image_completion \<Rightarrow> 64 word \<Rightarrow> int \<Rightarrow> int \<Rightarrow> host_contents
    \<Rightarrow> (string + bool) \<times> host_contents" where
  "merge_image completion generation cached_count live_count c =
     (if \<not> is_current (c_token completion) generation cached_count live_count then (Inr False, c)
      else (case c_result completion of
          Inl e \<Rightarrow> (Inl e, c)
        | Inr png \<Rightarrow> (Inr (hc_image_png c \<noteq> png), c\<lparr>hc_image_png := png\<rparr>)))"

lemma merge_image_text: "hc_text (snd (merge_image completion g cc lc c)) = hc_text c"
  by (simp add: merge_image_def split: sum.split)

lemma merge_image_stale:
  "\<not> is_current (c_token completion) g cc lc \<Longrightarrow> merge_image completion g cc lc c = (Inr False, c)"
  by (simp add: merge_image_def)

subsection \<open>The image worker\<close>

text \<open>
  The worker thread receives tasks from a channel of capacity one and answers on another one.
  \<open>ch_running\<close> is the task it is executing, \<open>ch_alive\<close> whether the thread still exists; a task
  carries whether a waker was installed when it was sent.
\<close>

record image_job =
  j_token :: image_token
  j_tiff :: bytes

record image_channels =
  ch_jobs :: "(image_job \<times> bool) list"
  ch_running :: "(image_job \<times> bool) option"
  ch_results :: "image_completion list"
  ch_alive :: bool

record image_worker =
  w_pending :: "image_job option"
  w_in_flight :: "image_token option"
  w_worker :: "image_channels option"
  w_wake :: bool

definition worker_default :: image_worker where
  "worker_default = \<lparr>w_pending = None, w_in_flight = None, w_worker = None, w_wake = False\<rparr>"

definition set_waker :: "image_worker \<Rightarrow> image_worker" where
  "set_waker w = w\<lparr>w_wake := True\<rparr>"

definition replace_pending :: "(image_token \<times> bytes) option \<Rightarrow> image_worker \<Rightarrow> image_worker" where
  "replace_pending snapshot w =
     w\<lparr>w_pending := map_option (\<lambda>(token, tiff). \<lparr>j_token = token, j_tiff = tiff\<rparr>) snapshot\<rparr>"

definition has_work :: "image_worker \<Rightarrow> bool" where
  "has_work w \<longleftrightarrow> w_pending w \<noteq> None \<or> w_in_flight w \<noteq> None"

definition pending_token :: "image_worker \<Rightarrow> image_token option" where
  "pending_token w = map_option j_token (w_pending w)"

definition new_channels :: image_channels where
  "new_channels = \<lparr>ch_jobs = [], ch_running = None, ch_results = [], ch_alive = True\<rparr>"

text \<open>\<open>SyncSender::try_send\<close> on a channel of capacity one.\<close>

definition channel_try_send :: "image_job \<times> bool \<Rightarrow> image_channels \<Rightarrow> image_channels option" where
  "channel_try_send task ch =
     (if ch_alive ch \<and> length (ch_jobs ch) < 1
      then Some (ch\<lparr>ch_jobs := ch_jobs ch @ [task]\<rparr>) else None)"

definition unavailable :: string where
  "unavailable = ''macOS clipboard image worker unavailable''"

definition start_pending :: "string option \<Rightarrow> image_worker \<Rightarrow> (string + unit) \<times> image_worker" where
  "start_pending spawn_error w =
     (if w_in_flight w \<noteq> None then (Inr (), w)
      else case w_pending w of
        None \<Rightarrow> (Inr (), w)
      | Some job \<Rightarrow>
          (case (w_worker w, spawn_error) of
             (None, Some e) \<Rightarrow> (Inl e, w\<lparr>w_pending := None\<rparr>)
           | (channels, _) \<Rightarrow>
               (let ch = (case channels of None \<Rightarrow> new_channels | Some ch \<Rightarrow> ch)
                in (case channel_try_send (job, w_wake w) ch of
                      None \<Rightarrow> (Inl unavailable, w\<lparr>w_pending := None, w_worker := None\<rparr>)
                    | Some ch' \<Rightarrow>
                        (Inr (), w\<lparr>w_pending := None, w_worker := Some ch',
                           w_in_flight := Some (j_token job)\<rparr>)))))"

definition exited_without_result :: string where
  "exited_without_result = ''macOS clipboard image worker exited without a result''"

definition poll_image :: "image_worker \<Rightarrow> image_completion option \<times> image_worker" where
  "poll_image w =
     (case w_in_flight w of
        None \<Rightarrow> (None, w)
      | Some token \<Rightarrow>
          (case w_worker w of
             None \<Rightarrow> (None, w)
           | Some ch \<Rightarrow>
               (case ch_results ch of
                  completion # rest \<Rightarrow>
                    (Some completion,
                     w\<lparr>w_worker := Some (ch\<lparr>ch_results := rest\<rparr>), w_in_flight := None\<rparr>)
                | [] \<Rightarrow>
                    if ch_alive ch then (None, w)
                    else (Some \<lparr>c_token = token, c_result = Inl exited_without_result\<rparr>,
                          w\<lparr>w_worker := None, w_in_flight := None\<rparr>))))"

text \<open>
  The loop of the thread: receive a task, run it (a panic of the conversion, \<open>None\<close>, becomes
  an error), send the completion (the thread waits while the channel is full), wake the event
  loop. The thread ends when the event loop has dropped its channels or, in a fault outside
  the conversion, on its own.
\<close>

definition panicked :: string where
  "panicked = ''macOS clipboard image worker panicked''"

definition run_task :: "(bytes \<Rightarrow> image_result option) \<Rightarrow> image_job \<Rightarrow> image_completion" where
  "run_task convert job =
     \<lparr>c_token = j_token job,
      c_result = (case convert (j_tiff job) of None \<Rightarrow> Inl panicked | Some r \<Rightarrow> r)\<rparr>"

definition thread_receive :: "image_channels \<Rightarrow> image_channels" where
  "thread_receive ch =
     (case (ch_running ch, ch_jobs ch) of
        (None, task # rest) \<Rightarrow>
          if ch_alive ch then ch\<lparr>ch_running := Some task, ch_jobs := rest\<rparr> else ch
      | _ \<Rightarrow> ch)"

definition thread_complete ::
  "(bytes \<Rightarrow> image_result option) \<Rightarrow> image_channels \<Rightarrow> bool \<times> image_channels" where
  "thread_complete convert ch =
     (case ch_running ch of
        Some (job, wake) \<Rightarrow>
          if ch_alive ch \<and> length (ch_results ch) < 1
          then (wake, ch\<lparr>ch_results := ch_results ch @ [run_task convert job], ch_running := None\<rparr>)
          else (False, ch)
      | None \<Rightarrow> (False, ch))"

definition thread_exit :: "image_channels \<Rightarrow> image_channels" where
  "thread_exit ch = ch\<lparr>ch_alive := False, ch_running := None, ch_jobs := []\<rparr>"

definition with_channels ::
  "(image_channels \<Rightarrow> image_channels) \<Rightarrow> image_worker \<Rightarrow> image_worker" where
  "with_channels f w = w\<lparr>w_worker := map_option f (w_worker w)\<rparr>"

subsection \<open>Descriptors that wait for an image\<close>

definition MAX_TRANSFERS :: nat where
  "MAX_TRANSFERS = 8"

definition MAX_TRANSFER_BYTES :: nat where
  "MAX_TRANSFER_BYTES = 64 * 1024 * 1024"

definition MAX_TOTAL_BYTES :: nat where
  "MAX_TOTAL_BYTES = 128 * 1024 * 1024"

record 'fd image_requests =
  rq_token :: "image_token option"
  rq_fds :: "'fd list"

definition requests_default :: "'fd image_requests" where
  "requests_default = \<lparr>rq_token = None, rq_fds = []\<rparr>"

definition requests_reset :: "image_token option \<Rightarrow> 'fd image_requests \<Rightarrow> 'fd image_requests" where
  "requests_reset token r = \<lparr>rq_token = token, rq_fds = []\<rparr>"

datatype io_error = WouldBlock string | InvalidInput string | OtherError string

definition requests_retain ::
  "image_token \<Rightarrow> 'fd \<Rightarrow> 'fd image_requests \<Rightarrow> (io_error + unit) \<times> 'fd image_requests" where
  "requests_retain token fd r =
     (if rq_token r \<noteq> Some token
      then (Inl (OtherError ''clipboard image snapshot is no longer pending''), r)
      else if MAX_TRANSFERS \<le> length (rq_fds r)
      then (Inl (WouldBlock ''pending clipboard image FD limit reached''), r)
      else (Inr (), r\<lparr>rq_fds := rq_fds r @ [fd]\<rparr>))"

definition requests_take ::
  "image_token \<Rightarrow> 'fd image_requests \<Rightarrow> 'fd list \<times> 'fd image_requests" where
  "requests_take token r =
     (if rq_token r \<noteq> Some token then ([], r)
      else (rq_fds r, \<lparr>rq_token = None, rq_fds = []\<rparr>))"

subsection \<open>Outgoing transfers\<close>

text \<open>
  The loop of \<open>try_add\<close>: \<open>used\<close> is the value the thread loaded, \<open>seen\<close> the values that failed
  exchanges delivered to it, \<open>counter\<close> the value in memory at the exchange that decides.
\<close>

definition fits :: "nat \<Rightarrow> nat \<Rightarrow> nat \<Rightarrow> bool" where
  "fits amount limit used \<longleftrightarrow> used + amount \<le> usize_max \<and> used + amount \<le> limit"

fun try_add :: "nat \<Rightarrow> nat \<Rightarrow> nat \<Rightarrow> nat list \<Rightarrow> nat \<Rightarrow> bool \<times> nat" where
  "try_add amount limit used [] counter =
     (if \<not> fits amount limit used then (False, counter)
      else if used = counter then (True, used + amount)
      else if fits amount limit counter then (True, counter + amount)
      else (False, counter))"
| "try_add amount limit used (current # seen) counter =
     (if \<not> fits amount limit used then (False, counter)
      else try_add amount limit current seen counter)"

text \<open>\<open>AtomicUsize::fetch_sub\<close> wraps around.\<close>

definition fetch_sub :: "nat \<Rightarrow> nat \<Rightarrow> nat" where
  "fetch_sub counter amount = (counter + (usize_max + 1) - amount) mod (usize_max + 1)"

record transfer_budget =
  tb_active :: nat
  tb_bytes :: nat

definition budget_default :: transfer_budget where
  "budget_default = \<lparr>tb_active = 0, tb_bytes = 0\<rparr>"

text \<open>What a thread that reserves or holds a permit has done so far.\<close>

datatype transfer_phase =
    Admitted nat
  | Refused
  | Permit nat
  | Finishing

definition reserve_active ::
  "nat \<Rightarrow> nat \<Rightarrow> nat list \<Rightarrow> transfer_budget \<Rightarrow> (io_error + transfer_phase) \<times> transfer_budget" where
  "reserve_active bytes used seen b =
     (if MAX_TRANSFER_BYTES < bytes
      then (Inl (InvalidInput ''clipboard payload exceeds the 64 MiB transfer limit''), b)
      else (case try_add 1 MAX_TRANSFERS used seen (tb_active b) of
          (False, active) \<Rightarrow> (Inl (WouldBlock ''clipboard worker limit reached''), b\<lparr>tb_active := active\<rparr>)
        | (True, active) \<Rightarrow> (Inr (Admitted bytes), b\<lparr>tb_active := active\<rparr>)))"

definition reserve_bytes ::
  "nat \<Rightarrow> nat \<Rightarrow> nat list \<Rightarrow> transfer_budget \<Rightarrow> transfer_phase \<times> transfer_budget" where
  "reserve_bytes bytes used seen b =
     (case try_add bytes MAX_TOTAL_BYTES used seen (tb_bytes b) of
        (False, reserved) \<Rightarrow> (Refused, b\<lparr>tb_bytes := reserved\<rparr>)
      | (True, reserved) \<Rightarrow> (Permit bytes, b\<lparr>tb_bytes := reserved\<rparr>))"

definition give_back_active :: "transfer_budget \<Rightarrow> transfer_budget" where
  "give_back_active b = b\<lparr>tb_active := fetch_sub (tb_active b) 1\<rparr>"

definition give_back_bytes :: "nat \<Rightarrow> transfer_budget \<Rightarrow> transfer_budget" where
  "give_back_bytes bytes b = b\<lparr>tb_bytes := fetch_sub (tb_bytes b) bytes\<rparr>"

text \<open>\<open>reserve\<close>, \<open>spawn_with\<close> and the drop of a permit when no other thread runs in between.\<close>

definition transfer_reserve ::
  "nat \<Rightarrow> transfer_budget \<Rightarrow> (io_error + nat) \<times> transfer_budget" where
  "transfer_reserve bytes b =
     (case reserve_active bytes (tb_active b) [] b of
        (Inl e, b1) \<Rightarrow> (Inl e, b1)
      | (Inr _, b1) \<Rightarrow>
          (case reserve_bytes bytes (tb_bytes b1) [] b1 of
             (Permit n, b2) \<Rightarrow> (Inr n, b2)
           | (_, b2) \<Rightarrow>
               (Inl (WouldBlock ''clipboard byte budget exhausted''), give_back_active b2)))"

definition permit_drop :: "nat \<Rightarrow> transfer_budget \<Rightarrow> transfer_budget" where
  "permit_drop bytes b = give_back_active (give_back_bytes bytes b)"

text \<open>The thread owns the permit; if it cannot be spawned its closure is dropped.\<close>

definition spawn_with ::
  "io_error option \<Rightarrow> nat \<Rightarrow> transfer_budget \<Rightarrow> (io_error + nat) \<times> transfer_budget" where
  "spawn_with spawn_error bytes b =
     (case transfer_reserve bytes b of
        (Inl e, b1) \<Rightarrow> (Inl e, b1)
      | (Inr permit, b1) \<Rightarrow>
          (case spawn_error of
             None \<Rightarrow> (Inr permit, b1)
           | Some e \<Rightarrow> (Inl e, permit_drop permit b1)))"

subsection \<open>Every interleaving of the transfers\<close>

text \<open>
  One event is one atomic operation of one thread: the two admissions of \<open>reserve\<close>, giving the
  slot back after a refusal, and the two subtractions of the drop of a permit.
\<close>

datatype transfer_event =
    TryActive nat nat "nat list"
  | TryBytes nat nat "nat list"
  | GiveUp nat
  | DropBytes nat
  | DropActive nat

type_synonym transfers = "transfer_budget \<times> transfer_phase list"

fun transfer_step :: "transfer_event \<Rightarrow> transfers \<Rightarrow> transfers" where
  "transfer_step (TryActive bytes used seen) (b, ts) =
     (case reserve_active bytes used seen b of
        (Inl _, b') \<Rightarrow> (b', ts)
      | (Inr t, b') \<Rightarrow> (b', ts @ [t]))"
| "transfer_step (TryBytes i used seen) (b, ts) =
     (if i < length ts then
        (case ts ! i of
           Admitted bytes \<Rightarrow> (case reserve_bytes bytes used seen b of (t, b') \<Rightarrow> (b', ts[i := t]))
         | _ \<Rightarrow> (b, ts))
      else (b, ts))"
| "transfer_step (GiveUp i) (b, ts) =
     (if i < length ts \<and> ts ! i = Refused then (give_back_active b, remove_at i ts) else (b, ts))"
| "transfer_step (DropBytes i) (b, ts) =
     (if i < length ts then
        (case ts ! i of
           Permit bytes \<Rightarrow> (give_back_bytes bytes b, ts[i := Finishing])
         | _ \<Rightarrow> (b, ts))
      else (b, ts))"
| "transfer_step (DropActive i) (b, ts) =
     (if i < length ts \<and> ts ! i = Finishing then (give_back_active b, remove_at i ts) else (b, ts))"

fun phase_bytes :: "transfer_phase \<Rightarrow> nat" where
  "phase_bytes (Permit n) = n"
| "phase_bytes _ = 0"

fun phase_ok :: "transfer_phase \<Rightarrow> bool" where
  "phase_ok (Admitted n) = (n \<le> MAX_TRANSFER_BYTES)"
| "phase_ok (Permit n) = (n \<le> MAX_TRANSFER_BYTES)"
| "phase_ok _ = True"

definition transfers_ok :: "transfers \<Rightarrow> bool" where
  "transfers_ok bt \<longleftrightarrow>
     tb_active (fst bt) = length (snd bt) \<and> tb_active (fst bt) \<le> MAX_TRANSFERS \<and>
     tb_bytes (fst bt) = (\<Sum>t\<leftarrow>snd bt. phase_bytes t) \<and> tb_bytes (fst bt) \<le> MAX_TOTAL_BYTES \<and>
     list_all phase_ok (snd bt)"

lemma try_add_cases:
  assumes "try_add amount limit used seen counter = (ok, counter')"
  shows "(\<not> ok \<and> counter' = counter) \<or>
         (ok \<and> counter' = counter + amount \<and> counter + amount \<le> limit)"
  using assms
  by (induction amount limit used seen counter rule: try_add.induct)
    (auto simp: fits_def split: if_splits)

lemma try_add_alone:
  "try_add amount limit counter [] counter =
     (if fits amount limit counter then (True, counter + amount) else (False, counter))"
  by simp

lemma fetch_sub_exact: "amount \<le> counter \<Longrightarrow> counter \<le> usize_max \<Longrightarrow> fetch_sub counter amount = counter - amount"
proof -
  assume a: "amount \<le> counter" "counter \<le> usize_max"
  have "counter + (usize_max + 1) - amount = (counter - amount) + (usize_max + 1)"
    using a by simp
  moreover have "counter - amount < usize_max + 1" using a by simp
  ultimately show ?thesis unfolding fetch_sub_def by (metis mod_add_self2 mod_less)
qed

lemma transfer_limits: "MAX_TRANSFERS \<le> usize_max" "MAX_TOTAL_BYTES \<le> usize_max"
  by (simp_all add: MAX_TRANSFERS_def MAX_TOTAL_BYTES_def usize_max_def)

lemma phase_sum_update:
  assumes "i < length ts"
  shows "(\<Sum>t\<leftarrow>ts[i := t']. phase_bytes t) + phase_bytes (ts ! i) = (\<Sum>t\<leftarrow>ts. phase_bytes t) + phase_bytes t'"
  using assms
proof (induction ts arbitrary: i)
  case (Cons a ts)
  then show ?case by (cases i) auto
qed simp

lemma phase_sum_remove:
  "i < length ts \<Longrightarrow> (\<Sum>t\<leftarrow>ts. phase_bytes t) = phase_bytes (ts ! i) + (\<Sum>t\<leftarrow>remove_at i ts. phase_bytes t)"
  by (rule sum_list_remove_at)

lemma list_all_update: "list_all P ts \<Longrightarrow> P t \<Longrightarrow> list_all P (ts[i := t])"
  using set_update_subset_insert by (fastforce simp: list_all_iff)

lemma list_all_remove_at: "list_all P ts \<Longrightarrow> list_all P (remove_at i ts)"
  using set_remove_at by (fastforce simp: list_all_iff)

lemma active_given_back:
  assumes "transfers_ok (b, ts)" and "i < length ts" and "phase_bytes (ts ! i) = 0"
  shows "transfers_ok (give_back_active b, remove_at i ts)"
proof -
  have "fetch_sub (tb_active b) 1 = tb_active b - 1"
    using assms transfer_limits by (intro fetch_sub_exact) (auto simp: transfers_ok_def)
  with assms phase_sum_remove [OF assms(2)] show ?thesis
    by (auto simp: transfers_ok_def give_back_active_def list_all_remove_at)
qed

lemma transfer_step_ok [step_inv]:
  assumes ok: "transfers_ok bt"
  shows "transfers_ok (transfer_step e bt)"
proof (cases bt)
  case (Pair b ts)
  show ?thesis
  proof (cases e)
    case (TryActive n used seen)
    with ok Pair show ?thesis
      by (auto simp: transfers_ok_def reserve_active_def split: prod.splits bool.splits sum.splits
          dest!: try_add_cases)
  next
    case (TryBytes i used seen)
    show ?thesis
    proof (cases "i < length ts \<and> (\<exists>n. ts ! i = Admitted n)")
      case False
      with ok Pair TryBytes show ?thesis by (auto split: transfer_phase.splits)
    next
      case True
      then obtain n where i: "i < length ts" and n: "ts ! i = Admitted n" by auto
      obtain added reserved where t: "try_add n MAX_TOTAL_BYTES used seen (tb_bytes b) = (added, reserved)"
        by (cases "try_add n MAX_TOTAL_BYTES used seen (tb_bytes b)")
      have "phase_ok (Admitted n)" using ok Pair i n by (metis list_all_length snd_conv transfers_ok_def)
      with ok Pair TryBytes i n t try_add_cases [OF t] phase_sum_update [OF i, of Refused]
        phase_sum_update [OF i, of "Permit n"] show ?thesis
        by (auto simp: transfers_ok_def reserve_bytes_def list_all_update split: bool.splits)
    qed
  next
    case (GiveUp i)
    with ok Pair show ?thesis by (auto intro!: active_given_back)
  next
    case (DropBytes i)
    show ?thesis
    proof (cases "i < length ts \<and> (\<exists>n. ts ! i = Permit n)")
      case False
      with ok Pair DropBytes show ?thesis by (auto split: transfer_phase.splits)
    next
      case True
      then obtain n where i: "i < length ts" and n: "ts ! i = Permit n" by auto
      have sum: "(\<Sum>t\<leftarrow>ts[i := Finishing]. phase_bytes t) + n = tb_bytes b"
        using phase_sum_update [OF i, of Finishing] n ok Pair by (simp add: transfers_ok_def)
      have "fetch_sub (tb_bytes b) n = tb_bytes b - n"
        using sum ok Pair transfer_limits by (intro fetch_sub_exact) (auto simp: transfers_ok_def)
      with sum ok Pair DropBytes i n show ?thesis
        by (auto simp: transfers_ok_def give_back_bytes_def list_all_update)
    qed
  next
    case (DropActive i)
    with ok Pair show ?thesis by (auto intro!: active_given_back)
  qed
qed

interpretation tr: invariant_component transfer_step "(budget_default, [])" transfers_ok
proof unfold_locales
  show "transfers_ok (budget_default, [])" by (simp add: transfers_ok_def budget_default_def)
qed (rule transfer_step_ok)

text \<open>
  Whatever the interleaving of the atomic operations of threads that reserve and finish
  clipboard transfers, the counter of active transfers is the number of threads that hold a
  slot and never exceeds 8, the byte counter is the sum of the bytes of the permits held and
  never exceeds 128 MiB, no permit is for more than 64 MiB (so no subtraction wraps around);
  and when every thread has finished both counters are zero.
\<close>
theorem transfer_budget_interleaved:
  "case run_events transfer_step es (budget_default, []) of (b, ts) \<Rightarrow>
     tb_active b = length ts \<and> tb_active b \<le> 8 \<and>
     tb_bytes b = (\<Sum>t\<leftarrow>ts. phase_bytes t) \<and> tb_bytes b \<le> 128 * 1024 * 1024 \<and>
     list_all (\<lambda>t. phase_bytes t \<le> 64 * 1024 * 1024) ts"
proof -
  obtain b ts where r: "run_events transfer_step es (budget_default, []) = (b, ts)"
    by (cases "run_events transfer_step es (budget_default, [])")
  have ok: "transfers_ok (b, ts)" using tr.inv_run [of es] r by simp
  have bound: "phase_ok t \<Longrightarrow> phase_bytes t \<le> 64 * 1024 * 1024" for t
    by (cases t) (simp_all add: MAX_TRANSFER_BYTES_def)
  have "list_all (\<lambda>t. phase_bytes t \<le> 64 * 1024 * 1024) ts"
    using ok bound unfolding transfers_ok_def list_all_iff by auto
  with ok r show ?thesis by (simp add: transfers_ok_def MAX_TRANSFERS_def MAX_TOTAL_BYTES_def)
qed

text \<open>Without interference the operations of the event loop are the composed steps.\<close>

lemma transfer_reserve_ok:
  assumes "tb_active b = length ps" and "tb_active b \<le> MAX_TRANSFERS"
    and "tb_bytes b = sum_list ps" and "tb_bytes b \<le> MAX_TOTAL_BYTES"
  shows "transfer_reserve n b =
    (if MAX_TRANSFER_BYTES < n then (Inl (InvalidInput ''clipboard payload exceeds the 64 MiB transfer limit''), b)
     else if length ps = MAX_TRANSFERS then (Inl (WouldBlock ''clipboard worker limit reached''), b)
     else if MAX_TOTAL_BYTES < sum_list ps + n then (Inl (WouldBlock ''clipboard byte budget exhausted''), b)
     else (Inr n, \<lparr>tb_active = Suc (length ps), tb_bytes = sum_list ps + n\<rparr>))"
proof -
  have f1: "fits 1 MAX_TRANSFERS (length ps) \<longleftrightarrow> length ps \<noteq> MAX_TRANSFERS"
    using assms(1,2) by (auto simp: fits_def MAX_TRANSFERS_def usize_max_def)
  have f2: "fits n MAX_TOTAL_BYTES (sum_list ps) \<longleftrightarrow> sum_list ps + n \<le> MAX_TOTAL_BYTES"
    by (auto simp: fits_def MAX_TOTAL_BYTES_def usize_max_def)
  have f3: "fetch_sub (Suc (length ps)) (Suc 0) = length ps" if "length ps \<noteq> MAX_TRANSFERS"
    using that assms(1,2) fetch_sub_exact [of 1 "Suc (length ps)"]
    by (auto simp: MAX_TRANSFERS_def usize_max_def)
  show ?thesis
    using assms f1 f2 f3
    by (cases b) (auto simp: transfer_reserve_def reserve_active_def reserve_bytes_def give_back_active_def)
qed

subsection \<open>One conversion at a time\<close>

datatype worker_event =
    ReplacePending "(image_token \<times> bytes) option"
  | StartPending "string option"
  | PollImage
  | ThreadReceive
  | ThreadComplete
  | ThreadExit

fun worker_step ::
  "(bytes \<Rightarrow> image_result option) \<Rightarrow> worker_event \<Rightarrow> image_worker \<Rightarrow> image_worker" where
  "worker_step convert (ReplacePending snapshot) w = replace_pending snapshot w"
| "worker_step convert (StartPending spawn_error) w = snd (start_pending spawn_error w)"
| "worker_step convert PollImage w = snd (poll_image w)"
| "worker_step convert ThreadReceive w = with_channels thread_receive w"
| "worker_step convert ThreadComplete w = with_channels (snd \<circ> thread_complete convert) w"
| "worker_step convert ThreadExit w = with_channels thread_exit w"

definition channel_tokens :: "image_channels \<Rightarrow> image_token list" where
  "channel_tokens ch =
     map (j_token \<circ> fst) (ch_jobs ch) @
     (case ch_running ch of None \<Rightarrow> [] | Some (job, _) \<Rightarrow> [j_token job]) @
     map c_token (ch_results ch)"

definition slot_ok :: "image_worker \<Rightarrow> bool" where
  "slot_ok w \<longleftrightarrow>
     (case w_worker w of
        None \<Rightarrow> w_in_flight w = None
      | Some ch \<Rightarrow>
          (case w_in_flight w of
             None \<Rightarrow> channel_tokens ch = []
           | Some t \<Rightarrow> channel_tokens ch = [t] \<or> (\<not> ch_alive ch \<and> channel_tokens ch = [])))"

lemma slot_default: "slot_ok worker_default"
  by (simp add: slot_ok_def worker_default_def)

lemma slot_replace [step_inv]: "slot_ok w \<Longrightarrow> slot_ok (replace_pending snapshot w)"
  by (auto simp: slot_ok_def replace_pending_def split: option.splits)

lemma slot_start [step_inv]: "slot_ok w \<Longrightarrow> slot_ok (snd (start_pending spawn_error w))"
  by (auto simp: slot_ok_def start_pending_def channel_try_send_def new_channels_def channel_tokens_def
      split: option.splits)

lemma slot_poll [step_inv]: "slot_ok w \<Longrightarrow> slot_ok (snd (poll_image w))"
  by (auto simp: slot_ok_def poll_image_def channel_tokens_def append_eq_Cons_conv
      split: option.splits list.splits)

lemma slot_receive [step_inv]: "slot_ok w \<Longrightarrow> slot_ok (with_channels thread_receive w)"
  by (auto simp: slot_ok_def with_channels_def thread_receive_def channel_tokens_def
      split: option.splits list.splits)

lemma slot_complete [step_inv]:
  "slot_ok w \<Longrightarrow> slot_ok (with_channels (snd \<circ> thread_complete convert) w)"
  by (auto simp: slot_ok_def with_channels_def thread_complete_def channel_tokens_def run_task_def
      Cons_eq_append_conv append_eq_Cons_conv split: option.splits list.splits)

lemma slot_exit [step_inv]: "slot_ok w \<Longrightarrow> slot_ok (with_channels thread_exit w)"
  by (auto simp: slot_ok_def with_channels_def thread_exit_def channel_tokens_def
      Cons_eq_append_conv append_eq_Cons_conv split: option.splits list.splits)

interpretation wk: invariant_component "worker_step convert" worker_default slot_ok
  for convert
proof unfold_locales
  show "slot_ok worker_default" by (rule slot_default)
  show "slot_ok (worker_step convert e w)" if "slot_ok w" for e w
    using that by (cases e) (simp_all only: worker_step.simps step_inv)
qed

lemma poll_token:
  assumes "slot_ok w" and "poll_image w = (Some completion, w')"
  shows "w_in_flight w = Some (c_token completion) \<and> w_in_flight w' = None"
  using assms by (auto simp: slot_ok_def poll_image_def channel_tokens_def append_eq_Cons_conv
      split: option.splits list.splits if_splits)

lemma in_flight_completes:
  assumes ok: "slot_ok w" and fl: "w_in_flight w = Some t"
  shows "\<exists>r. fst (poll_image (worker_step convert ThreadComplete (worker_step convert ThreadReceive w)))
    = Some \<lparr>c_token = t, c_result = r\<rparr>"
proof -
  let ?w = "worker_step convert ThreadComplete (worker_step convert ThreadReceive w)"
  obtain ch where ch: "w_worker w = Some ch" using ok fl by (auto simp: slot_ok_def split: option.splits)
  have ok': "slot_ok ?w" using ok by (simp only: worker_step.simps step_inv)
  have fl': "w_in_flight ?w = Some t" using fl by (simp add: with_channels_def)
  have "fst (poll_image ?w) \<noteq> None"
    using ok fl ch
    by (auto simp: slot_ok_def poll_image_def with_channels_def thread_receive_def thread_complete_def
        channel_tokens_def append_eq_Cons_conv split: option.splits list.splits if_splits)
  then obtain c where c: "poll_image ?w = (Some c, snd (poll_image ?w))" by (metis option.exhaust prod.collapse)
  have "c_token c = t" using poll_token [OF ok' c] fl' by simp
  then have "c = \<lparr>c_token = t, c_result = c_result c\<rparr>" by (cases c) simp
  with c show ?thesis by (metis fst_conv)
qed

text \<open>
  After any sequence of snapshots, starts, polls and steps of the worker thread
  (including its death), at most one conversion is queued, running or answered; and whenever a
  conversion is in flight, one round of the thread and one poll of the event loop deliver a
  completion for exactly that token, even if the thread has died, so that the conversion slot
  is never blocked.
\<close>
theorem conversion_slot_never_stuck:
  assumes w: "w = run_events (worker_step convert) es worker_default"
  shows "(case w_worker w of None \<Rightarrow> True | Some ch \<Rightarrow> length (channel_tokens ch) \<le> 1) \<and>
    (\<forall>t. w_in_flight w = Some t \<longrightarrow>
       (\<exists>r. fst (poll_image (run_events (worker_step convert) [ThreadReceive, ThreadComplete] w))
          = Some \<lparr>c_token = t, c_result = r\<rparr>))"
proof -
  have ok: "slot_ok w" unfolding w by (rule wk.inv_run)
  then have "case w_worker w of None \<Rightarrow> True | Some ch \<Rightarrow> length (channel_tokens ch) \<le> 1"
    by (auto simp: slot_ok_def split: option.splits)
  with ok show ?thesis using in_flight_completes by simp
qed

definition demo_token :: image_token where
  "demo_token = \<lparr>tk_generation = 1, tk_change_count = 5\<rparr>"

theorem conversion_slot_never_stuck_witness:
  "fst (poll_image (run_events (worker_step (\<lambda>_. None))
     [ReplacePending (Some (demo_token, [1, 2])), StartPending None, ThreadReceive, ThreadComplete]
     worker_default)) = Some \<lparr>c_token = demo_token, c_result = Inl panicked\<rparr>"
proof -
  let ?w = "run_events (worker_step (\<lambda>_. None))
    [ReplacePending (Some (demo_token, [1, 2])), StartPending None] worker_default"
  have "w_in_flight ?w = Some demo_token"
    by (simp add: replace_pending_def start_pending_def channel_try_send_def worker_default_def new_channels_def)
  then obtain r where "fst (poll_image (run_events (worker_step (\<lambda>_. None)) [ThreadReceive, ThreadComplete] ?w))
      = Some \<lparr>c_token = demo_token, c_result = r\<rparr>"
    using conversion_slot_never_stuck [of ?w "\<lambda>_. None"] by blast
  then show ?thesis
    by (simp add: replace_pending_def start_pending_def channel_try_send_def worker_default_def new_channels_def
        with_channels_def thread_receive_def thread_complete_def run_task_def poll_image_def)
qed

end
