(* ===== verification/Clipboard_Image.thy ===== *)
theory Clipboard_Image
  imports Clipboard_Transfer
begin

text \<open>
  The clipboard formats of \<open>src/state.rs\<close>: the MIME types offered and accepted, the checks of
  PNG and TIFF data before an image is decoded, and the conversion of a TIFF. AppKit's decoder
  and encoder are parameters: \<open>dimensions\<close> answers the pixel dimensions of the image it decodes,
  \<open>to_png\<close> its PNG representation.
\<close>

subsection \<open>MIME types\<close>

definition CLIPBOARD_IMAGE_MIME :: string where
  "CLIPBOARD_IMAGE_MIME = ''image/png''"

definition eq_ignore_ascii_case :: "string \<Rightarrow> string \<Rightarrow> bool" where
  "eq_ignore_ascii_case a b \<longleftrightarrow> to_ascii_lowercase a = to_ascii_lowercase b"

definition is_clipboard_image_mime :: "string \<Rightarrow> bool" where
  "is_clipboard_image_mime mime \<longleftrightarrow> eq_ignore_ascii_case (trim mime) CLIPBOARD_IMAGE_MIME"

definition is_clipboard_text_mime :: "string \<Rightarrow> bool" where
  "is_clipboard_text_mime mime \<longleftrightarrow>
     (let normalized = to_ascii_lowercase (trim mime)
      in normalized = ''utf8_string'' \<or> normalized = ''text'' \<or> normalized = ''string'' \<or>
         normalized = ''text/plain'' \<or> starts_with normalized ''text/plain;'')"

definition clipboard_text_mime_types :: "string list" where
  "clipboard_text_mime_types =
     [''text/plain;charset=utf-8'', ''text/plain'', ''UTF8_STRING'', ''TEXT'', ''STRING'']"

definition clipboard_mime_types :: "bool \<Rightarrow> bool \<Rightarrow> string list" where
  "clipboard_mime_types has_text has_image_png =
     (if has_image_png then [CLIPBOARD_IMAGE_MIME] else []) @
     (if has_text then clipboard_text_mime_types else [])"

definition PRIORITIES :: "string list" where
  "PRIORITIES = [''text/plain;charset=utf-8'', ''text/plain'', ''utf8_string'', ''text'', ''string'']"

definition preferred_clipboard_text_mime :: "string list \<Rightarrow> string option" where
  "preferred_clipboard_text_mime mime_types =
     (case find_map (\<lambda>preferred. find (\<lambda>mime. eq_ignore_ascii_case (trim mime) preferred) mime_types)
             PRIORITIES of
        Some mime \<Rightarrow> Some mime
      | None \<Rightarrow> find is_clipboard_text_mime mime_types)"

definition preferred_clipboard_mime :: "string list \<Rightarrow> string option" where
  "preferred_clipboard_mime mime_types =
     (case find is_clipboard_image_mime mime_types of
        Some mime \<Rightarrow> Some mime
      | None \<Rightarrow> preferred_clipboard_text_mime mime_types)"

subsection \<open>Limits\<close>

definition MAX_CLIPBOARD_IMAGE_BYTES :: nat where
  "MAX_CLIPBOARD_IMAGE_BYTES = 64 * 1024 * 1024"

definition MAX_CLIPBOARD_IMAGE_SOURCE_BYTES :: nat where
  "MAX_CLIPBOARD_IMAGE_SOURCE_BYTES = 128 * 1024 * 1024"

definition MAX_CLIPBOARD_IMAGE_PIXELS :: nat where
  "MAX_CLIPBOARD_IMAGE_PIXELS = 32 * 1024 * 1024"

definition div_ceil :: "nat \<Rightarrow> nat \<Rightarrow> nat" where
  "div_ceil a b = (a + b - 1) div b"

definition validate_clipboard_source_size :: "nat \<Rightarrow> string + unit" where
  "validate_clipboard_source_size len =
     (if MAX_CLIPBOARD_IMAGE_SOURCE_BYTES < len
      then Inl (''macOS clipboard source image is larger than the 128 MiB decode limit ('' @
        decimal (div_ceil len (1024 * 1024)) @ '' MiB)'')
      else Inr ())"

definition validate_clipboard_image_dimensions :: "int \<Rightarrow> int \<Rightarrow> string + unit" where
  "validate_clipboard_image_dimensions width height =
     (let size = decimal_int width @ ''x'' @ decimal_int height
      in if width \<le> 0 \<or> height \<le> 0
         then Inl (''macOS clipboard image has invalid dimensions '' @ size)
         else if usize_max < nat width * nat height
         then Inl ''macOS clipboard image dimensions overflow''
         else if MAX_CLIPBOARD_IMAGE_PIXELS < nat width * nat height
         then Inl (''macOS clipboard image exceeds the 32-megapixel safety limit ('' @ size @ '')'')
         else Inr ())"

lemma validate_dimensions_iff:
  "validate_clipboard_image_dimensions (int w) (int h) = Inr () \<longleftrightarrow>
     0 < w \<and> 0 < h \<and> w * h \<le> MAX_CLIPBOARD_IMAGE_PIXELS"
  by (auto simp: validate_clipboard_image_dimensions_def Let_def MAX_CLIPBOARD_IMAGE_PIXELS_def usize_max_def)

subsection \<open>Bytes\<close>

definition be :: "bytes \<Rightarrow> nat" where
  "be bs = foldl (\<lambda>acc b. acc * 256 + unat b) 0 bs"

text \<open>\<open>bytes.get(offset..offset + n)\<close> with the checked addition of the offset.\<close>

definition get_range :: "bytes \<Rightarrow> nat \<Rightarrow> nat \<Rightarrow> bytes option" where
  "get_range bs offset n =
     (if offset + n \<le> usize_max \<and> offset + n \<le> length bs
      then Some (take n (drop offset bs)) else None)"

definition number_at :: "nat \<Rightarrow> bool \<Rightarrow> bytes \<Rightarrow> nat \<Rightarrow> nat option" where
  "number_at n little bs offset =
     map_option (\<lambda>v. be (if little then rev v else v)) (get_range bs offset n)"

abbreviation u16_at :: "bool \<Rightarrow> bytes \<Rightarrow> nat \<Rightarrow> nat option" where
  "u16_at \<equiv> number_at 2"

abbreviation u32_at :: "bool \<Rightarrow> bytes \<Rightarrow> nat \<Rightarrow> nat option" where
  "u32_at \<equiv> number_at 4"

definition checked_add :: "nat \<Rightarrow> nat \<Rightarrow> nat option" where
  "checked_add a b = (if a + b \<le> usize_max then Some (a + b) else None)"

subsection \<open>PNG\<close>

definition PNG_SIGNATURE :: bytes where
  "PNG_SIGNATURE = [0x89, 0x50, 0x4E, 0x47, 0x0D, 0x0A, 0x1A, 0x0A]"

definition png_dimensions :: "bytes \<Rightarrow> (nat \<times> nat) option" where
  "png_dimensions bs =
     (if length bs < 24 \<or> take 8 bs \<noteq> PNG_SIGNATURE \<or> take 4 (drop 12 bs) \<noteq> [0x49, 0x48, 0x44, 0x52]
      then None
      else Some (be (take 4 (drop 16 bs)), be (take 4 (drop 20 bs))))"

definition too_large :: "nat \<Rightarrow> string" where
  "too_large len =
     ''macOS clipboard image is larger than the 64 MiB transfer limit ('' @
       decimal (div_ceil len (1024 * 1024)) @ '' MiB)''"

definition shared_png_bytes :: "bytes \<Rightarrow> string + bytes option" where
  "shared_png_bytes bs =
     (if bs = [] then Inr None
      else if MAX_CLIPBOARD_IMAGE_BYTES < length bs then Inl (too_large (length bs))
      else and_then (ok_or ''macOS clipboard advertised malformed PNG data'' (png_dimensions bs))
        (\<lambda>(width, height).
          and_then (validate_clipboard_image_dimensions (int width) (int height)) (\<lambda>_. Inr (Some bs))))"

definition shared_png_data :: "bytes \<Rightarrow> string + bytes option" where
  "shared_png_data bs =
     (if MAX_CLIPBOARD_IMAGE_BYTES < length bs then Inl (too_large (length bs))
      else shared_png_bytes bs)"

subsection \<open>TIFF\<close>

definition malformed :: string where
  "malformed = ''macOS clipboard TIFF has malformed or unsupported metadata''"

definition byte_order :: "bytes \<Rightarrow> bool option" where
  "byte_order bs =
     (case get_range bs 0 4 of
        None \<Rightarrow> None
      | Some h \<Rightarrow> if h = [0x49, 0x49, 0x2A, 0] then Some True
                else if h = [0x4D, 0x4D, 0, 0x2A] then Some False else None)"

text \<open>The bounds of the entries of the first directory, and that no other directory follows.\<close>

definition tiff_directory :: "bool \<Rightarrow> bytes \<Rightarrow> string + nat list" where
  "tiff_directory little bs =
     and_then (ok_or malformed (u32_at little bs 4)) (\<lambda>ifd.
       if ifd < 8 then Inl malformed
       else and_then (ok_or malformed (u16_at little bs ifd)) (\<lambda>n.
         and_then (ok_or malformed (checked_add ifd 2)) (\<lambda>start.
           and_then (ok_or malformed (if n * 12 \<le> usize_max then Some (n * 12) else None)) (\<lambda>size.
             and_then (ok_or malformed (checked_add start size)) (\<lambda>finish.
               and_then (ok_or malformed (u32_at little bs finish)) (\<lambda>following.
                 if following \<noteq> 0
                 then Inl ''macOS clipboard multi-image TIFF is not supported''
                 else Inr (map (\<lambda>k. start + 12 * k) [0..<n])))))))"

fun tiff_read :: "bool \<Rightarrow> bytes \<Rightarrow> nat \<Rightarrow> nat \<Rightarrow> nat list \<Rightarrow> string + nat list" where
  "tiff_read little bs sz offset [] = Inr []"
| "tiff_read little bs sz offset (index # rest) =
     and_then (ok_or malformed (checked_add offset (index * sz))) (\<lambda>at.
       and_then (ok_or malformed (number_at sz little bs at)) (\<lambda>v.
         and_then (tiff_read little bs sz offset rest) (\<lambda>vs. Inr (v # vs))))"

text \<open>The values of an entry the checks look at.\<close>

definition tiff_values :: "bool \<Rightarrow> bytes \<Rightarrow> nat \<Rightarrow> nat \<Rightarrow> string + nat list" where
  "tiff_values little bs tag entry =
     and_then (ok_or malformed (u16_at little bs (entry + 2))) (\<lambda>ty.
       and_then (ok_or malformed (if ty = 3 then Some 2 else if ty = 4 then Some 4 else None)) (\<lambda>size.
         and_then (ok_or malformed (u32_at little bs (entry + 4))) (\<lambda>len.
           if len = 0 \<or> 4 < len \<or> (tag \<noteq> 258 \<and> len \<noteq> 1) then Inl malformed
           else and_then
             (if len * size \<le> 4 then Inr (entry + 8)
              else ok_or malformed (u32_at little bs (entry + 8))) (\<lambda>offset.
               tiff_read little bs size offset [0..<len]))))"

record tiff_meta =
  t_width :: "nat option"
  t_height :: "nat option"
  t_samples :: "nat option"
  t_depths :: "nat list option"

definition tiff_record :: "nat \<Rightarrow> nat list \<Rightarrow> tiff_meta \<Rightarrow> string + tiff_meta" where
  "tiff_record tag values m =
     (if tag = 256 then
        (if t_width m \<noteq> None then Inl malformed else Inr (m\<lparr>t_width := Some (hd values)\<rparr>))
      else if tag = 257 then
        (if t_height m \<noteq> None then Inl malformed else Inr (m\<lparr>t_height := Some (hd values)\<rparr>))
      else if tag = 258 then
        (if t_depths m \<noteq> None then Inl malformed else Inr (m\<lparr>t_depths := Some values\<rparr>))
      else
        (if t_samples m \<noteq> None then Inl malformed else Inr (m\<lparr>t_samples := Some (hd values)\<rparr>)))"

definition tiff_entry :: "bool \<Rightarrow> bytes \<Rightarrow> nat \<Rightarrow> tiff_meta \<Rightarrow> string + tiff_meta" where
  "tiff_entry little bs entry m =
     and_then (ok_or malformed (u16_at little bs entry)) (\<lambda>tag.
       if tag = 330 then Inl ''macOS clipboard TIFF sub-images are not supported''
       else if tag \<noteq> 256 \<and> tag \<noteq> 257 \<and> tag \<noteq> 258 \<and> tag \<noteq> 277 then Inr m
       else and_then (tiff_values little bs tag entry) (\<lambda>values. tiff_record tag values m))"

fun tiff_entries :: "bool \<Rightarrow> bytes \<Rightarrow> nat list \<Rightarrow> tiff_meta \<Rightarrow> string + tiff_meta" where
  "tiff_entries little bs [] m = Inr m"
| "tiff_entries little bs (entry # es) m =
     and_then (tiff_entry little bs entry m) (tiff_entries little bs es)"

definition tiff_finish :: "tiff_meta \<Rightarrow> string + unit" where
  "tiff_finish m =
     (let samples = (case t_samples m of None \<Rightarrow> 1 | Some s \<Rightarrow> s)
      in if samples = 0 \<or> 4 < samples \<or>
            (case t_depths m of
               None \<Rightarrow> False
             | Some depths \<Rightarrow>
                 (length depths \<noteq> 1 \<and> length depths \<noteq> samples) \<or>
                 list_ex (\<lambda>bits. bits = 0 \<or> 16 < bits) depths)
         then Inl ''macOS clipboard TIFF exceeds the 4-channel, 16-bit decode limit''
         else and_then (ok_or malformed (t_width m)) (\<lambda>width.
           and_then (ok_or malformed (t_height m)) (\<lambda>height.
             validate_clipboard_image_dimensions (int width) (int height))))"

definition no_meta :: tiff_meta where
  "no_meta = \<lparr>t_width = None, t_height = None, t_samples = None, t_depths = None\<rparr>"

definition validate_clipboard_tiff :: "bytes \<Rightarrow> string + unit" where
  "validate_clipboard_tiff bs =
     and_then (ok_or malformed (byte_order bs)) (\<lambda>little.
       and_then (tiff_directory little bs) (\<lambda>entries.
         and_then (tiff_entries little bs entries no_meta) tiff_finish))"

definition convert_host_clipboard_tiff ::
  "(bytes \<Rightarrow> (int \<times> int) option) \<Rightarrow> (bytes \<Rightarrow> bytes option) \<Rightarrow> bytes \<Rightarrow> string + bytes option" where
  "convert_host_clipboard_tiff dimensions to_png tiff =
     and_then (validate_clipboard_source_size (length tiff)) (\<lambda>_.
       and_then (validate_clipboard_tiff tiff) (\<lambda>_.
         and_then (ok_or ''macOS clipboard TIFF image could not be decoded'' (dimensions tiff)) (\<lambda>(width, height).
           and_then (validate_clipboard_image_dimensions width height) (\<lambda>_.
             and_then (ok_or ''macOS clipboard TIFF image could not be converted to PNG'' (to_png tiff)) (\<lambda>png.
               and_then (shared_png_data png) (\<lambda>shared.
                 and_then (ok_or ''macOS clipboard TIFF conversion produced an empty PNG'' shared) (\<lambda>data.
                   Inr (Some data))))))))"

subsection \<open>What validated images satisfy\<close>

lemma shared_png_bytes_ok:
  assumes "shared_png_bytes bs = Inr (Some out)"
  shows "out = bs \<and> length bs \<le> MAX_CLIPBOARD_IMAGE_BYTES \<and>
    (\<exists>w h. png_dimensions bs = Some (w, h) \<and> 0 < w \<and> 0 < h \<and> w * h \<le> MAX_CLIPBOARD_IMAGE_PIXELS)"
  using assms
  by (auto simp: shared_png_bytes_def and_then_Inr validate_dimensions_iff split: if_splits)

text \<open>The values of the entries with a given tag, in the order of the directory.\<close>

definition tiff_field :: "bool \<Rightarrow> bytes \<Rightarrow> nat \<Rightarrow> nat list \<Rightarrow> (string + nat list) list" where
  "tiff_field little bs tag es =
     map (tiff_values little bs tag) (filter (\<lambda>e. u16_at little bs e = Some tag) es)"

text \<open>A cell that was written at most once, with the values given.\<close>

definition absorbed :: "'a option \<Rightarrow> 'a option \<Rightarrow> 'a list \<Rightarrow> bool" where
  "absorbed old new vs \<longleftrightarrow> (new = old \<and> vs = []) \<or> (old = None \<and> (\<exists>v. new = Some v \<and> vs = [v]))"

lemma absorbed_trans: "absorbed a b vs \<Longrightarrow> absorbed b c ws \<Longrightarrow> absorbed a c (vs @ ws)"
  by (auto simp: absorbed_def)

abbreviation single :: "nat option \<Rightarrow> (string + nat list) option" where
  "single \<equiv> map_option (\<lambda>v. Inr [v])"

lemma tiff_read_length: "tiff_read little bs sz offset is = Inr vs \<Longrightarrow> length vs = length is"
  by (induction "is" arbitrary: vs) (auto simp: and_then_Inr)

lemma tiff_values_single:
  assumes "tiff_values little bs tag entry = Inr vs" and "tag \<noteq> 258"
  shows "vs = [hd vs]"
proof -
  have "length vs = 1"
    using assms by (auto simp: tiff_values_def and_then_Inr split: if_splits dest!: tiff_read_length)
  then show ?thesis by (cases vs) auto
qed

definition meta_step :: "bool \<Rightarrow> bytes \<Rightarrow> nat list \<Rightarrow> tiff_meta \<Rightarrow> tiff_meta \<Rightarrow> bool" where
  "meta_step little bs es m m' \<longleftrightarrow>
     absorbed (single (t_width m)) (single (t_width m')) (tiff_field little bs 256 es) \<and>
     absorbed (single (t_height m)) (single (t_height m')) (tiff_field little bs 257 es) \<and>
     absorbed (single (t_samples m)) (single (t_samples m')) (tiff_field little bs 277 es) \<and>
     absorbed (map_option Inr (t_depths m)) (map_option Inr (t_depths m')) (tiff_field little bs 258 es) \<and>
     list_all (\<lambda>e. u16_at little bs e \<noteq> Some 330) es"

lemma tiff_entry_step:
  assumes "tiff_entry little bs e m = Inr m'"
  shows "meta_step little bs [e] m m'"
proof -
  obtain tag where tag: "u16_at little bs e = Some tag" "tag \<noteq> 330"
    using assms by (auto simp: tiff_entry_def and_then_Inr split: if_splits)
  show ?thesis
  proof (cases "tag = 256 \<or> tag = 257 \<or> tag = 258 \<or> tag = 277")
    case False
    then have "m' = m" using assms tag by (auto simp: tiff_entry_def)
    with False tag show ?thesis by (auto simp: meta_step_def tiff_field_def absorbed_def)
  next
    case True
    then obtain vs where vs: "tiff_values little bs tag e = Inr vs" "tiff_record tag vs m = Inr m'"
      using assms tag by (auto simp: tiff_entry_def and_then_Inr)
    show ?thesis
      using True vs tag tiff_values_single [OF vs(1)]
      by (auto simp: meta_step_def tiff_field_def absorbed_def tiff_record_def split: if_splits)
  qed
qed

lemma meta_step_trans:
  "meta_step little bs es a b \<Longrightarrow> meta_step little bs fs b c \<Longrightarrow> meta_step little bs (es @ fs) a c"
  by (auto simp: meta_step_def tiff_field_def intro: absorbed_trans)

lemma tiff_entries_step:
  "tiff_entries little bs es m = Inr m' \<Longrightarrow> meta_step little bs es m m'"
proof (induction es arbitrary: m)
  case Nil
  then show ?case by (simp add: meta_step_def tiff_field_def absorbed_def)
next
  case (Cons e es)
  then obtain m1 where "tiff_entry little bs e m = Inr m1" "tiff_entries little bs es m1 = Inr m'"
    by (auto simp: and_then_Inr)
  with Cons.IH meta_step_trans [of little bs "[e]" m m1 es m'] tiff_entry_step show ?case
    by fastforce
qed

lemma number_at_bound: "number_at n little bs offset = Some v \<Longrightarrow> offset + n \<le> length bs"
  by (auto simp: number_at_def get_range_def split: if_splits)

lemma tiff_directory_bounds:
  assumes "tiff_directory little bs = Inr es"
  shows "list_all (\<lambda>e. e + 12 \<le> length bs) es"
proof -
  obtain ifd n where "u32_at little bs (ifd + 2 + n * 12) = Some 0" "es = map (\<lambda>k. ifd + 2 + 12 * k) [0..<n]"
    using assms by (auto simp: tiff_directory_def and_then_Inr checked_add_def split: if_splits)
  with number_at_bound show ?thesis by (fastforce simp: list_all_iff)
qed

lemma tiff_finish_ok:
  assumes "tiff_finish m = Inr ()"
  shows "\<exists>w h. t_width m = Some w \<and> t_height m = Some h \<and> 0 < w \<and> 0 < h \<and>
    w * h \<le> MAX_CLIPBOARD_IMAGE_PIXELS"
    and "\<exists>s. 1 \<le> s \<and> s \<le> 4 \<and> (t_samples m = Some s \<or> t_samples m = None \<and> s = 1)"
    and "t_depths m = Some ds \<Longrightarrow> list_all (\<lambda>d. 1 \<le> d \<and> d \<le> 16) ds"
  using assms
  by (auto simp: tiff_finish_def Let_def and_then_Inr validate_dimensions_iff list_all_iff list_ex_iff
      Suc_le_eq not_less split: if_splits option.splits)

text \<open>
  A TIFF that passes the check of the clipboard has one directory, whose entries lie
  inside the data; it declares exactly one width and one height, both positive and with at most
  32 Mi pixels, at most four samples per pixel, every bit depth it declares is between 1 and
  16, and no sub-images; so the decoded bitmap takes at most 256 MiB.
\<close>
theorem validated_tiff_bounded:
  assumes "validate_clipboard_tiff bs = Inr ()"
  shows "\<exists>little es w h s.
    byte_order bs = Some little \<and> tiff_directory little bs = Inr es \<and>
    list_all (\<lambda>e. e + 12 \<le> length bs \<and> u16_at little bs e \<noteq> Some 330) es \<and>
    tiff_field little bs 256 es = [Inr [w]] \<and> tiff_field little bs 257 es = [Inr [h]] \<and>
    (tiff_field little bs 277 es = [Inr [s]] \<or> tiff_field little bs 277 es = [] \<and> s = 1) \<and>
    (tiff_field little bs 258 es = [] \<or>
     (\<exists>ds. tiff_field little bs 258 es = [Inr ds] \<and> list_all (\<lambda>d. 1 \<le> d \<and> d \<le> 16) ds)) \<and>
    0 < w \<and> 0 < h \<and> w * h \<le> 32 * 1024 * 1024 \<and> 1 \<le> s \<and> s \<le> 4 \<and>
    w * h * s * 2 \<le> 256 * 1024 * 1024"
proof -
  obtain little es m where little: "byte_order bs = Some little"
    and es: "tiff_directory little bs = Inr es" and m: "tiff_entries little bs es no_meta = Inr m"
    and fin: "tiff_finish m = Inr ()"
    using assms by (auto simp: validate_clipboard_tiff_def and_then_Inr)
  obtain w h where wh: "t_width m = Some w" "t_height m = Some h" "0 < w" "0 < h"
      "w * h \<le> MAX_CLIPBOARD_IMAGE_PIXELS" using tiff_finish_ok(1) [OF fin] by auto
  obtain s where s: "1 \<le> s" "s \<le> 4" "t_samples m = Some s \<or> t_samples m = None \<and> s = 1"
    using tiff_finish_ok(2) [OF fin] by auto
  have st: "meta_step little bs es no_meta m" by (rule tiff_entries_step [OF m])
  have "w * h * s * 2 \<le> MAX_CLIPBOARD_IMAGE_PIXELS * 4 * 2"
    using wh(5) s(2) by (intro mult_le_mono) auto
  moreover have "list_all (\<lambda>e. e + 12 \<le> length bs \<and> u16_at little bs e \<noteq> Some 330) es"
    using st tiff_directory_bounds [OF es] by (auto simp: meta_step_def list_all_iff)
  moreover have "tiff_field little bs 256 es = [Inr [w]]" "tiff_field little bs 257 es = [Inr [h]]"
    using st wh by (auto simp: meta_step_def absorbed_def no_meta_def)
  moreover have "tiff_field little bs 277 es = [Inr [s]] \<or> tiff_field little bs 277 es = [] \<and> s = 1"
    using st s(3) by (auto simp: meta_step_def absorbed_def no_meta_def)
  moreover have "tiff_field little bs 258 es = [] \<or>
     (\<exists>ds. tiff_field little bs 258 es = [Inr ds] \<and> list_all (\<lambda>d. 1 \<le> d \<and> d \<le> 16) ds)"
    using st tiff_finish_ok(3) [OF fin] by (auto simp: meta_step_def absorbed_def no_meta_def)
  ultimately show ?thesis
    using little es wh(3-5) s(1,2) by (intro exI [of _ little] exI [of _ es] exI [of _ w] exI [of _ h] exI [of _ s])
      (simp add: MAX_CLIPBOARD_IMAGE_PIXELS_def)
qed

text \<open>A little-endian TIFF of 3 by 2 pixels.\<close>

definition demo_tiff :: bytes where
  "demo_tiff =
     [0x49, 0x49, 0x2A, 0, 8, 0, 0, 0, 2, 0,
      0, 1, 3, 0, 1, 0, 0, 0, 3, 0, 0, 0,
      1, 1, 3, 0, 1, 0, 0, 0, 2, 0, 0, 0,
      0, 0, 0, 0]"

lemmas tiff_eval =
  demo_tiff_def number_at_def get_range_def be_def usize_max_def checked_add_def

lemma demo_tiff_directory: "byte_order demo_tiff = Some True" "tiff_directory True demo_tiff = Inr [10, 22]"
  by (simp_all add: byte_order_def tiff_directory_def upt_rec tiff_eval)

lemma demo_tiff_width: "tiff_entry True demo_tiff 10 no_meta = Inr (no_meta\<lparr>t_width := Some 3\<rparr>)"
  by (simp add: tiff_entry_def tiff_values_def tiff_record_def no_meta_def tiff_eval)

lemma demo_tiff_height:
  "tiff_entry True demo_tiff 22 (no_meta\<lparr>t_width := Some 3\<rparr>) =
   Inr (no_meta\<lparr>t_width := Some 3, t_height := Some 2\<rparr>)"
  by (simp add: tiff_entry_def tiff_values_def tiff_record_def no_meta_def tiff_eval)

lemma demo_tiff_finish: "tiff_finish (no_meta\<lparr>t_width := Some 3, t_height := Some 2\<rparr>) = Inr ()"
  using validate_dimensions_iff [of 3 2]
  by (simp add: tiff_finish_def no_meta_def MAX_CLIPBOARD_IMAGE_PIXELS_def)

lemma demo_tiff_valid: "validate_clipboard_tiff demo_tiff = Inr ()"
  by (simp add: validate_clipboard_tiff_def demo_tiff_directory demo_tiff_width demo_tiff_height
      demo_tiff_finish)

theorem validated_tiff_bounded_witness:
  "validate_clipboard_tiff demo_tiff = Inr () \<and>
   (\<exists>little es w h. tiff_directory little demo_tiff = Inr es \<and>
      tiff_field little demo_tiff 256 es = [Inr [w]] \<and> tiff_field little demo_tiff 257 es = [Inr [h]] \<and>
      w * h \<le> 32 * 1024 * 1024)"
  using validated_tiff_bounded [OF demo_tiff_valid] demo_tiff_valid by blast

end
