(* ===== verification/Clipboard_Pipes.thy ===== *)
theory Clipboard_Pipes
  imports Clipboard_Image
begin

text \<open>
  The two transfer loops of \<open>src/state.rs\<close>: \<open>write_clipboard_payload\<close> sends clipboard contents to a
  client, \<open>read_guest_clipboard\<close> receives a client's selection. Each pass of a loop reads the
  clock and makes one system call; the loops are recursions over the list of what the passes
  observe. \<open>None\<close> means that the loop has consumed the observations and still waits.
\<close>

subsection \<open>Payloads\<close>

datatype payload = Text string | Image bytes

definition bytes_of_text :: "string \<Rightarrow> bytes" where
  "bytes_of_text t = map (\<lambda>c. word_of_nat (of_char c)) t"

definition text_of_bytes :: "bytes \<Rightarrow> string" where
  "text_of_bytes bs = map (\<lambda>b. char_of (unat b)) bs"

fun payload_bytes :: "payload \<Rightarrow> bytes" where
  "payload_bytes (Text t) = bytes_of_text t"
| "payload_bytes (Image b) = b"

lemma bytes_text_roundtrip: "bytes_of_text (text_of_bytes bs) = bs"
proof -
  have "word_of_nat (of_char (char_of (unat b))) = b" for b :: "8 word"
    using unsigned_less [of b, where 'a = nat] by simp
  then show ?thesis by (simp add: bytes_of_text_def text_of_bytes_def map_idI)
qed

text \<open>\<open>String::from_utf8\<close>: the well-formed byte sequences of the Unicode standard.\<close>

definition continuation :: "8 word \<Rightarrow> bool" where
  "continuation b \<longleftrightarrow> 0x80 \<le> b \<and> b \<le> 0xBF"

text \<open>The number of continuation bytes after a leading byte, when they are there.\<close>

definition utf8_tail :: "8 word \<Rightarrow> bytes \<Rightarrow> nat option" where
  "utf8_tail b bs =
     (if b < 0x80 then Some 0
      else case bs of
        [] \<Rightarrow> None
      | c # cs \<Rightarrow>
          if 0xC2 \<le> b \<and> b \<le> 0xDF then (if continuation c then Some 1 else None)
          else if 0xE0 \<le> b \<and> b \<le> 0xEF then
            (if continuation c \<and> (b = 0xE0 \<longrightarrow> 0xA0 \<le> c) \<and> (b = 0xED \<longrightarrow> c \<le> 0x9F) \<and>
                1 \<le> length cs \<and> list_all continuation (take 1 cs) then Some 2 else None)
          else if 0xF0 \<le> b \<and> b \<le> 0xF4 then
            (if continuation c \<and> (b = 0xF0 \<longrightarrow> 0x90 \<le> c) \<and> (b = 0xF4 \<longrightarrow> c \<le> 0x8F) \<and>
                2 \<le> length cs \<and> list_all continuation (take 2 cs) then Some 3 else None)
          else None)"

fun utf8_valid :: "bytes \<Rightarrow> bool" where
  "utf8_valid [] = True"
| "utf8_valid (b # bs) =
     (case utf8_tail b bs of None \<Rightarrow> False | Some n \<Rightarrow> utf8_valid (drop n bs))"

subsection \<open>Sending\<close>

datatype poll_answer = PollReady | PollInterrupted | PollFailed string

datatype write_answer = Wrote nat | WriteInterrupted | WriteWouldBlock poll_answer | WriteFailed string

text \<open>
  \<open>out\<close> collects the bytes the receiver was given. \<open>Wrote n\<close> means that the system call took \<open>n\<close>
  bytes of the buffer, never more than it holds.
\<close>

fun write_loop ::
  "instant \<Rightarrow> bytes \<Rightarrow> (instant \<times> write_answer) list \<Rightarrow> bytes \<Rightarrow> (string + unit) option \<times> bytes" where
  "write_loop deadline [] obs out = (Some (Inr ()), out)"
| "write_loop deadline (b # bs) [] out = (None, out)"
| "write_loop deadline (b # bs) ((now, answer) # obs) out =
     (if deadline \<le> now then (Some (Inl ''clipboard transfer exceeded 10 seconds''), out)
      else case answer of
        Wrote n \<Rightarrow>
          if n = 0 then (Some (Inl ''clipboard receiver stopped reading''), out)
          else write_loop deadline (drop n (b # bs)) obs (out @ take n (b # bs))
      | WriteInterrupted \<Rightarrow> write_loop deadline (b # bs) obs out
      | WriteWouldBlock (PollFailed e) \<Rightarrow> (Some (Inl e), out)
      | WriteWouldBlock _ \<Rightarrow> write_loop deadline (b # bs) obs out
      | WriteFailed e \<Rightarrow> (Some (Inl e), out))"

definition write_clipboard_payload ::
  "string option \<Rightarrow> instant \<Rightarrow> bytes \<Rightarrow> (instant \<times> write_answer) list \<Rightarrow> (string + unit) option \<times> bytes" where
  "write_clipboard_payload configure_error now bs obs =
     (case configure_error of
        Some e \<Rightarrow> (Some (Inl e), [])
      | None \<Rightarrow> write_loop (now + from_secs 10) bs obs [])"

definition sent_prefix :: "bytes \<Rightarrow> bytes \<Rightarrow> (string + unit) option \<times> bytes \<Rightarrow> bool" where
  "sent_prefix out bs res \<longleftrightarrow>
     (\<exists>k. snd res = out @ take k bs) \<and> (fst res = Some (Inr ()) \<longrightarrow> snd res = out @ bs)"

lemma sent_prefix_stop: "r \<noteq> Some (Inr ()) \<Longrightarrow> sent_prefix out bs (r, out)"
  by (auto simp: sent_prefix_def intro: exI [of _ 0])

lemma sent_prefix_more:
  assumes "sent_prefix (out @ take n bs) (drop n bs) res"
  shows "sent_prefix out bs res"
proof -
  obtain k where "snd res = (out @ take n bs) @ take k (drop n bs)"
    using assms by (auto simp: sent_prefix_def)
  moreover have "take n bs @ take k (drop n bs) = take (n + k) bs" by (simp add: take_add)
  ultimately have "snd res = out @ take (n + k) bs" by (metis append.assoc)
  with assms show ?thesis by (auto simp: sent_prefix_def)
qed

lemma write_loop_prefix: "sent_prefix out bs (write_loop deadline bs obs out)"
proof (induction deadline bs obs out rule: write_loop.induct)
  case (1 deadline obs out)
  then show ?case by (simp add: sent_prefix_def)
next
  case (2 deadline b bs out)
  then show ?case by (simp add: sent_prefix_stop)
next
  case (3 deadline b bs now answer obs out)
  show ?case
  proof (cases "deadline \<le> now")
    case True
    then show ?thesis by (simp add: sent_prefix_stop)
  next
    case False
    show ?thesis
    proof (cases answer)
      case (Wrote n)
      show ?thesis
      proof (cases "n = 0")
        case True
        with Wrote False show ?thesis by (simp add: sent_prefix_stop)
      next
        case pos: False
        with Wrote False 3(1) show ?thesis by (auto intro: sent_prefix_more)
      qed
    next
      case WriteInterrupted
      with False 3(2) show ?thesis by simp
    next
      case (WriteWouldBlock a)
      with False 3(3,4) show ?thesis by (cases a) (simp_all add: sent_prefix_stop)
    next
      case (WriteFailed e)
      with False show ?thesis by (simp add: sent_prefix_stop)
    qed
  qed
qed

lemma write_loop_ends:
  assumes "bs = [] \<or> list_ex (\<lambda>(now, _). deadline \<le> now) obs"
  shows "fst (write_loop deadline bs obs out) \<noteq> None"
  using assms
  by (induction deadline bs obs out rule: write_loop.induct)
    (auto split: write_answer.splits poll_answer.splits)

text \<open>
  Sending clipboard contents gives the receiver a prefix of the contents, in order and
  without gaps, whatever the system calls answer (short writes, interruptions, back pressure,
  errors); it reports success only if the receiver was given all of it; and it ends: once the
  clock has passed ten seconds at some pass, it has returned.
\<close>
theorem payload_written_whole:
  assumes "write_clipboard_payload None now bs obs = (r, out)"
  shows "(\<exists>k. out = take k bs) \<and> (r = Some (Inr ()) \<longrightarrow> out = bs) \<and>
    (list_ex (\<lambda>(t, _). now + from_secs 10 \<le> t) obs \<longrightarrow> r \<noteq> None)"
proof -
  have w: "write_loop (now + from_secs 10) bs obs [] = (r, out)"
    using assms by (simp add: write_clipboard_payload_def)
  have "\<exists>k. out = take k bs" "r = Some (Inr ()) \<longrightarrow> out = bs"
    using write_loop_prefix [of "[]" bs "now + from_secs 10" obs] unfolding w by (simp_all add: sent_prefix_def)
  moreover have "list_ex (\<lambda>(t, _). now + from_secs 10 \<le> t) obs \<longrightarrow> r \<noteq> None"
    using write_loop_ends [of bs "now + from_secs 10" obs "[]"] w by auto
  ultimately show ?thesis by blast
qed

definition demo_writes :: "(instant \<times> write_answer) list" where
  "demo_writes = [(0, Wrote 2), (1, WriteWouldBlock PollReady), (2, WriteInterrupted), (3, Wrote 1)]"

lemma demo_writes_run: "write_clipboard_payload None 0 [1, 2, 3] demo_writes = (Some (Inr ()), [1, 2, 3])"
  by (simp add: write_clipboard_payload_def demo_writes_def)

theorem payload_written_whole_witness:
  "write_clipboard_payload None 0 [1, 2, 3] demo_writes = (Some (Inr ()), [1, 2, 3]) \<and>
   (\<exists>k. [1, 2, 3] = take k [1, 2, 3 :: 8 word])"
  using payload_written_whole [OF demo_writes_run] demo_writes_run by blast

subsection \<open>Receiving\<close>

datatype read_answer = Read bytes | ReadInterrupted | ReadWouldBlock poll_answer | ReadFailed string

record read_pass =
  rp_generation :: "64 word"
  rp_now :: instant
  rp_answer :: read_answer

definition transfer_limit_error :: "nat \<Rightarrow> string" where
  "transfer_limit_error limit =
     ''Wayland clipboard exceeds the '' @ decimal (limit div 1024 div 1024) @ '' MiB transfer limit''"

text \<open>\<open>Inr None\<close>: cancelled by a newer selection; \<open>Inr (Some bytes)\<close>: end of file after these bytes.\<close>

fun read_loop ::
  "nat \<Rightarrow> 64 word \<Rightarrow> instant \<Rightarrow> bytes \<Rightarrow> read_pass list \<Rightarrow> (string + bytes option) option" where
  "read_loop limit generation deadline acc [] = None"
| "read_loop limit generation deadline acc (p # ps) =
     (if rp_generation p \<noteq> generation then Some (Inr None)
      else if deadline \<le> rp_now p
      then Some (Inl ''Wayland clipboard transfer timed out after 10 seconds'')
      else case rp_answer p of
        Read chunk \<Rightarrow>
          if chunk = [] then Some (Inr (Some acc))
          else if limit < length acc + length chunk then Some (Inl (transfer_limit_error limit))
          else read_loop limit generation deadline (acc @ chunk) ps
      | ReadInterrupted \<Rightarrow> read_loop limit generation deadline acc ps
      | ReadWouldBlock (PollFailed e) \<Rightarrow> Some (Inl (''Clipboard pipe poll failed: '' @ e))
      | ReadWouldBlock _ \<Rightarrow> read_loop limit generation deadline acc ps
      | ReadFailed e \<Rightarrow> Some (Inl (''Failed to read Wayland clipboard: '' @ e)))"

definition read_limit :: "string \<Rightarrow> nat" where
  "read_limit mime = (if is_clipboard_image_mime mime then MAX_CLIPBOARD_IMAGE_BYTES else 8 * 1024 * 1024)"

text \<open>What the reader makes of the complete data.\<close>

definition decode_selection ::
  "(bytes \<Rightarrow> (int \<times> int) option) \<Rightarrow> string \<Rightarrow> bytes \<Rightarrow> string + payload option" where
  "decode_selection dimensions mime bs =
     (if bs = [] then Inr None
      else if is_clipboard_image_mime mime then
        and_then (shared_png_bytes bs) (\<lambda>shared.
          and_then (ok_or ''Empty Wayland PNG'' shared) (\<lambda>png.
            and_then (ok_or ''Wayland clipboard PNG could not be decoded'' (dimensions png)) (\<lambda>(width, height).
              and_then (validate_clipboard_image_dimensions width height) (\<lambda>_. Inr (Some (Image png))))))
      else if utf8_valid bs then Inr (Some (Text (text_of_bytes bs)))
      else Inl ''Wayland clipboard text is not UTF-8'')"

definition read_guest_clipboard ::
  "(bytes \<Rightarrow> (int \<times> int) option) \<Rightarrow> bool \<Rightarrow> string \<Rightarrow> 64 word \<Rightarrow> instant \<Rightarrow> read_pass list
    \<Rightarrow> (string + payload option) option" where
  "read_guest_clipboard dimensions configured mime generation now ps =
     (if \<not> configured then Some (Inl ''Could not configure clipboard pipe'')
      else case read_loop (read_limit mime) generation (now + from_secs 10) [] ps of
        None \<Rightarrow> None
      | Some (Inl e) \<Rightarrow> Some (Inl e)
      | Some (Inr None) \<Rightarrow> Some (Inr None)
      | Some (Inr (Some bs)) \<Rightarrow> Some (decode_selection dimensions mime bs))"

text \<open>The bytes the passes read before the end of the file.\<close>

fun pass_bytes :: "read_pass \<Rightarrow> bytes" where
  "pass_bytes p = (case rp_answer p of Read chunk \<Rightarrow> chunk | _ \<Rightarrow> [])"

definition at_eof :: "read_pass \<Rightarrow> bool" where
  "at_eof p \<longleftrightarrow> rp_answer p = Read []"

definition before_eof :: "read_pass list \<Rightarrow> read_pass list" where
  "before_eof ps = takeWhile (\<lambda>p. \<not> at_eof p) ps"

definition read_exactly :: "nat \<Rightarrow> 64 word \<Rightarrow> instant \<Rightarrow> bytes \<Rightarrow> read_pass list \<Rightarrow> bytes \<Rightarrow> bool" where
  "read_exactly limit generation deadline acc ps bs \<longleftrightarrow>
     bs = acc @ concat (map pass_bytes (before_eof ps)) \<and> length bs \<le> limit \<and>
     list_all (\<lambda>p. rp_generation p = generation \<and> rp_now p < deadline) (before_eof ps)"

lemma read_exactly_pass:
  assumes "read_exactly limit generation deadline (acc @ pass_bytes p) ps bs"
    and "\<not> at_eof p" and "rp_generation p = generation" and "\<not> deadline \<le> rp_now p"
  shows "read_exactly limit generation deadline acc (p # ps) bs"
  using assms by (auto simp: read_exactly_def before_eof_def)

lemma read_loop_eof:
  assumes "read_loop limit generation deadline acc ps = Some (Inr (Some bs))" and "length acc \<le> limit"
  shows "read_exactly limit generation deadline acc ps bs"
  using assms
proof (induction ps arbitrary: acc)
  case Nil
  then show ?case by simp
next
  case (Cons p ps)
  have cur: "rp_generation p = generation" "\<not> deadline \<le> rp_now p"
    using Cons.prems(1) by (simp_all split: if_splits)
  show ?case
  proof (cases "rp_answer p")
    case (Read chunk)
    show ?thesis
    proof (cases "chunk = []")
      case True
      with Cons.prems Read cur show ?thesis by (simp add: read_exactly_def before_eof_def at_eof_def)
    next
      case False
      with Cons.prems(1) Read cur
      have "read_loop limit generation deadline (acc @ chunk) ps = Some (Inr (Some bs))"
        and "length (acc @ chunk) \<le> limit" by (simp_all split: if_splits)
      from Cons.IH [OF this] Read False cur show ?thesis
        by (intro read_exactly_pass) (simp_all add: at_eof_def)
    qed
  next
    case ReadInterrupted
    with Cons cur show ?thesis by (intro read_exactly_pass) (simp_all add: at_eof_def)
  next
    case (ReadWouldBlock a)
    with Cons cur show ?thesis by (cases a) (auto intro!: read_exactly_pass simp: at_eof_def)
  next
    case (ReadFailed e)
    with Cons.prems cur show ?thesis by simp
  qed
qed

lemma decode_selection_bytes:
  assumes "decode_selection dimensions mime bs = Inr (Some p)"
  shows "payload_bytes p = bs"
    and "p = Image png \<Longrightarrow> \<exists>w h. png_dimensions png = Some (w, h) \<and> 0 < w \<and> 0 < h \<and> w * h \<le> MAX_CLIPBOARD_IMAGE_PIXELS"
    and "p = Text t \<Longrightarrow> utf8_valid bs"
  using assms
  by (auto simp: decode_selection_def and_then_Inr bytes_text_roundtrip split: if_splits
      dest!: shared_png_bytes_ok)

text \<open>
  When the reader of a Wayland client's selection answers a payload, the payload is exactly
  the concatenation of the chunks read up to the end of the file, it is within the limit for its
  type, at every pass the selection was still the current one and the deadline had not passed,
  a text is well-formed UTF-8, and an image is a PNG whose header declares a positive size of at
  most 32 Mi pixels.
\<close>
theorem guest_selection_exact:
  assumes r: "read_guest_clipboard dimensions configured mime generation now ps = Some (Inr (Some p))"
  shows "payload_bytes p = concat (map pass_bytes (before_eof ps)) \<and>
    length (payload_bytes p) \<le> read_limit mime \<and>
    list_all (\<lambda>q. rp_generation q = generation \<and> rp_now q < now + from_secs 10) (before_eof ps) \<and>
    (case p of
       Text t \<Rightarrow> utf8_valid (payload_bytes p)
     | Image png \<Rightarrow> (\<exists>w h. png_dimensions png = Some (w, h) \<and> 0 < w \<and> 0 < h \<and> w * h \<le> 32 * 1024 * 1024))"
proof -
  obtain bs where l: "read_loop (read_limit mime) generation (now + from_secs 10) [] ps = Some (Inr (Some bs))"
    and d: "decode_selection dimensions mime bs = Inr (Some p)"
    using r by (auto simp: read_guest_clipboard_def split: if_splits option.splits sum.splits)
  note decoded = decode_selection_bytes [OF d]
  have "case p of
       Text t \<Rightarrow> utf8_valid (payload_bytes p)
     | Image png \<Rightarrow> (\<exists>w h. png_dimensions png = Some (w, h) \<and> 0 < w \<and> 0 < h \<and> w * h \<le> 32 * 1024 * 1024)"
    using decoded by (cases p) (auto simp: MAX_CLIPBOARD_IMAGE_PIXELS_def)
  with read_loop_eof [OF l] decoded(1) show ?thesis by (auto simp: read_exactly_def)
qed

definition demo_passes :: "read_pass list" where
  "demo_passes =
     [\<lparr>rp_generation = 4, rp_now = 1, rp_answer = Read [0x68]\<rparr>,
      \<lparr>rp_generation = 4, rp_now = 2, rp_answer = ReadWouldBlock PollReady\<rparr>,
      \<lparr>rp_generation = 4, rp_now = 3, rp_answer = Read [0x69]\<rparr>,
      \<lparr>rp_generation = 4, rp_now = 4, rp_answer = Read []\<rparr>]"

lemma demo_chars: "char_of (104 :: nat) = CHR ''h''" "char_of (105 :: nat) = CHR ''i''"
  by code_simp+

lemma demo_passes_run:
  "read_guest_clipboard (\<lambda>_. None) True ''text/plain'' 4 0 demo_passes = Some (Inr (Some (Text ''hi'')))"
  by (simp add: read_guest_clipboard_def demo_passes_def decode_selection_def text_of_bytes_def utf8_tail_def demo_chars
      read_limit_def is_clipboard_image_mime_def eq_ignore_ascii_case_def trim_def is_space_def Let_def
      CLIPBOARD_IMAGE_MIME_def to_ascii_lowercase_def to_lower_def)

theorem guest_selection_exact_witness:
  "read_guest_clipboard (\<lambda>_. None) True ''text/plain'' 4 0 demo_passes = Some (Inr (Some (Text ''hi''))) \<and>
   bytes_of_text ''hi'' = concat (map pass_bytes (before_eof demo_passes))"
  using guest_selection_exact [OF demo_passes_run] demo_passes_run by simp

end
