(* ===== verification/Clipboard_Bridge.thy ===== *)
theory Clipboard_Bridge
  imports Clipboard_Pipes
begin

text \<open>
  The clipboard of \<open>AppState\<close> (\<open>src/state.rs\<close>): the bridge between the macOS pasteboard and the
  selection of the Wayland seat. The event loop copies a changed pasteboard, publishes it as a
  selection, converts its TIFF in the background, answers clients that paste, and installs the
  selections of clients on the pasteboard. What the pasteboard, the thread spawner, the pipes
  and the window system answer are arguments of the operations. Diagnostics and log lines are
  not recorded.

  The fields after \<open>b_selection\<close> are the environment's view: the permits held by running
  transfers, the readers of client selections, every token published so far, what the
  pasteboard held under each generation, and every transfer started.
\<close>

subsection \<open>The pasteboard\<close>

datatype copied_image = CopiedPng bytes | CopiedTiff bytes

text \<open>What one look at the pasteboard reads, and the change count before and after.\<close>

record pasteboard =
  p_count :: int
  p_text :: "string option"
  p_png :: "bytes option"
  p_tiff :: "bytes option"
  p_recount :: int

record host_snapshot =
  s_change_count :: int
  s_text :: "string option"
  s_image_png :: "bytes option"
  s_image_tiff :: "bytes option"
  s_image_error :: "string option"

definition copy_pasteboard_image :: "pasteboard \<Rightarrow> string + copied_image option" where
  "copy_pasteboard_image p =
     (case p_png p of
        Some png \<Rightarrow> and_then (shared_png_data png) (\<lambda>shared. Inr (map_option CopiedPng shared))
      | None \<Rightarrow>
          (case p_tiff p of
             None \<Rightarrow> Inr None
           | Some tiff \<Rightarrow>
               and_then (validate_clipboard_source_size (length tiff)) (\<lambda>_. Inr (Some (CopiedTiff tiff)))))"

definition pasteboard_snapshot_if_changed :: "int \<Rightarrow> pasteboard \<Rightarrow> host_snapshot option" where
  "pasteboard_snapshot_if_changed previous_change_count p =
     (if p_count p = previous_change_count then None
      else
        (let (png, tiff, e) =
               (case copy_pasteboard_image p of
                  Inr (Some (CopiedPng b)) \<Rightarrow> (Some b, None, None)
                | Inr (Some (CopiedTiff b)) \<Rightarrow> (None, Some b, None)
                | Inr None \<Rightarrow> (None, None, None)
                | Inl e \<Rightarrow> (None, None, Some e))
         in if p_recount p \<noteq> p_count p then None
            else Some \<lparr>s_change_count = p_count p, s_text = p_text p, s_image_png = png,
                       s_image_tiff = tiff, s_image_error = e\<rparr>))"

subsection \<open>The state\<close>

record host_copy =
  h_text :: "string option"
  h_png :: "bytes option"
  h_tiff :: "bytes option"

record delivery =
  d_fd :: nat
  d_token :: image_token
  d_live :: int
  d_payload :: payload

record bridge =
  b_generation :: "64 word"
  b_change_count :: int
  b_last_poll :: instant
  b_contents :: host_contents
  b_images :: image_worker
  b_requests :: "nat image_requests"
  b_guest_mime :: "string option"
  b_budget :: transfer_budget
  b_selection :: "(string list \<times> image_token) option"
  b_permits :: "nat list"
  b_readers :: "image_token list"
  b_published :: "image_token list"
  b_host :: "64 word \<Rightarrow> host_copy option"
  b_sent :: "delivery list"

definition bridge_new :: "int \<Rightarrow> instant \<Rightarrow> bridge" where
  "bridge_new change_count now =
     \<lparr>b_generation = 0, b_change_count = change_count, b_last_poll = now,
      b_contents = contents_default, b_images = worker_default, b_requests = requests_default,
      b_guest_mime = None, b_budget = budget_default, b_selection = None, b_permits = [],
      b_readers = [], b_published = [], b_host = Map.empty, b_sent = []\<rparr>"

definition current_token :: "bridge \<Rightarrow> image_token" where
  "current_token s = \<lparr>tk_generation = b_generation s, tk_change_count = b_change_count s\<rparr>"

text \<open>\<open>token.is_current(generation, self.pasteboard_change_count, live_count)\<close>.\<close>

abbreviation token_current :: "bridge \<Rightarrow> int \<Rightarrow> image_token \<Rightarrow> bool" where
  "token_current s live t \<equiv> is_current t (b_generation s) (b_change_count s) live"

subsection \<open>Publishing and sending\<close>

definition record_host_clipboard_change :: "bridge \<Rightarrow> string list" where
  "record_host_clipboard_change s =
     clipboard_mime_types (hc_text (b_contents s) \<noteq> None)
       (hc_image_png (b_contents s) \<noteq> None \<or> rq_token (b_requests s) \<noteq> None)"

definition set_selection :: "string list \<Rightarrow> image_token \<Rightarrow> bridge \<Rightarrow> bridge" where
  "set_selection mime_types token s =
     s\<lparr>b_selection := Some (mime_types, token), b_published := token # b_published s\<rparr>"

definition publish_host_clipboard :: "bridge \<Rightarrow> bridge" where
  "publish_host_clipboard s =
     (let mime_types = record_host_clipboard_change s
      in if mime_types = [] then s\<lparr>b_selection := None\<rparr>
         else set_selection mime_types (current_token s) s)"

text \<open>The token and the live count only enter the record of the transfer.\<close>

definition send_host_clipboard_payload ::
  "io_error option \<Rightarrow> int \<Rightarrow> image_token \<Rightarrow> nat \<Rightarrow> payload \<Rightarrow> bridge \<Rightarrow> bridge" where
  "send_host_clipboard_payload spawn_error live token fd p s =
     (case spawn_with spawn_error (length (payload_bytes p)) (b_budget s) of
        (Inl e, b) \<Rightarrow> s\<lparr>b_budget := b\<rparr>
      | (Inr permit, b) \<Rightarrow>
          s\<lparr>b_budget := b, b_permits := permit # b_permits s,
            b_sent := b_sent s @ [\<lparr>d_fd = fd, d_token = token, d_live = live, d_payload = p\<rparr>]\<rparr>)"

subsection \<open>The host side\<close>

text \<open>What a poll observes: the live change count, and the answers of the thread spawner.\<close>

record poll_env =
  pe_live :: int
  pe_spawn :: "nat \<Rightarrow> io_error option"
  pe_thread :: "string option"

definition drop_stale_requests :: "int \<Rightarrow> bridge \<Rightarrow> bridge" where
  "drop_stale_requests live s =
     (case rq_token (b_requests s) of
        Some t \<Rightarrow> if token_current s live t then s
                 else s\<lparr>b_requests := requests_reset None (b_requests s)\<rparr>
      | None \<Rightarrow> s)"

definition handle_completion :: "poll_env \<Rightarrow> image_completion \<Rightarrow> bridge \<Rightarrow> bridge" where
  "handle_completion env completion s =
     (let token = c_token completion;
          current = token_current s (pe_live env) token;
          (fds, requests) = requests_take token (b_requests s);
          has_image = (case c_result completion of Inr (Some _) \<Rightarrow> True | _ \<Rightarrow> False);
          contents = snd (merge_image completion (b_generation s) (b_change_count s) (pe_live env)
                            (b_contents s));
          s1 = s\<lparr>b_requests := requests, b_contents := contents\<rparr>
      in if \<not> current then s1
         else if has_image then
           (case hc_image_png contents of
              Some b \<Rightarrow>
                fold (\<lambda>fd. send_host_clipboard_payload (pe_spawn env fd) (pe_live env) token fd (Image b)) fds s1
            | None \<Rightarrow> s1)
         else publish_host_clipboard s1)"

definition start_conversion :: "poll_env \<Rightarrow> bridge \<Rightarrow> bridge" where
  "start_conversion env s =
     (case pending_token (b_images s) of
        None \<Rightarrow> s
      | Some token \<Rightarrow>
          if \<not> token_current s (pe_live env) token
          then s\<lparr>b_images := replace_pending None (b_images s)\<rparr>
          else (case start_pending (pe_thread env) (b_images s) of
              (Inr _, w) \<Rightarrow> s\<lparr>b_images := w\<rparr>
            | (Inl _, w) \<Rightarrow>
                publish_host_clipboard
                  (s\<lparr>b_images := w, b_requests := snd (requests_take token (b_requests s))\<rparr>)))"

definition poll_host_clipboard_results :: "poll_env \<Rightarrow> bridge \<Rightarrow> bridge" where
  "poll_host_clipboard_results env s =
     (if \<not> has_work (b_images s) then s
      else
        (let s1 = drop_stale_requests (pe_live env) s;
             (completion, w) = poll_image (b_images s1);
             s2 = s1\<lparr>b_images := w\<rparr>;
             s3 = (case completion of None \<Rightarrow> s2 | Some c \<Rightarrow> handle_completion env c s2)
         in start_conversion env s3))"

definition install_snapshot :: "host_snapshot \<Rightarrow> bridge \<Rightarrow> bridge" where
  "install_snapshot snap s =
     (let generation = b_generation s + 1;
          token = \<lparr>tk_generation = generation, tk_change_count = s_change_count snap\<rparr>
      in s\<lparr>b_generation := generation, b_guest_mime := None, b_change_count := s_change_count snap,
           b_contents := from_snapshot (s_text snap) (s_image_png snap)
             (s_image_tiff snap \<noteq> None \<or> s_image_error snap \<noteq> None),
           b_requests := requests_reset (map_option (\<lambda>_. token) (s_image_tiff snap)) (b_requests s),
           b_images := replace_pending (map_option (\<lambda>tiff. (token, tiff)) (s_image_tiff snap)) (b_images s),
           b_host := (b_host s)(generation \<mapsto>
             \<lparr>h_text = s_text snap, h_png = s_image_png snap, h_tiff = s_image_tiff snap\<rparr>)\<rparr>)"

definition refresh_host_clipboard :: "instant \<Rightarrow> pasteboard \<Rightarrow> poll_env \<Rightarrow> bridge \<Rightarrow> bridge" where
  "refresh_host_clipboard now p env s =
     (let s1 = s\<lparr>b_last_poll := now\<rparr>
      in (case pasteboard_snapshot_if_changed (b_change_count s1) p of
            None \<Rightarrow> poll_host_clipboard_results env s1
          | Some snap \<Rightarrow>
              poll_host_clipboard_results env (publish_host_clipboard (install_snapshot snap s1))))"

definition poll_host_clipboard ::
  "poll_env \<Rightarrow> instant \<Rightarrow> pasteboard \<Rightarrow> poll_env \<Rightarrow> bridge \<Rightarrow> bridge" where
  "poll_host_clipboard env now p env' s =
     (let s1 = poll_host_clipboard_results env s
      in if now - b_last_poll s1 < from_millis 100 then s1
         else refresh_host_clipboard now p env' s1)"

subsection \<open>The guest side\<close>

definition new_selection :: "bool \<Rightarrow> string list option \<Rightarrow> bridge \<Rightarrow> bridge" where
  "new_selection clipboard source s =
     (if \<not> clipboard then s
      else
        (let s1 = s\<lparr>b_generation := b_generation s + 1,
                    b_images := replace_pending None (b_images s),
                    b_requests := requests_reset None (b_requests s)\<rparr>
         in s1\<lparr>b_guest_mime := Option.bind source preferred_clipboard_mime\<rparr>))"

text \<open>
  \<open>pipe_ok\<close>, \<open>request_ok\<close> and \<open>spawn_ok\<close>: whether the pipe was created, the client could be asked and
  the reader thread was spawned. The reader remembers the generation and the change count.
\<close>

definition request_pending_guest_clipboard :: "bool \<Rightarrow> bool \<Rightarrow> int \<Rightarrow> bool \<Rightarrow> bridge \<Rightarrow> bridge" where
  "request_pending_guest_clipboard pipe_ok request_ok live spawn_ok s =
     (case b_guest_mime s of
        None \<Rightarrow> s
      | Some mime \<Rightarrow>
          (let s1 = s\<lparr>b_guest_mime := None\<rparr>
           in if \<not> pipe_ok \<or> \<not> request_ok \<or> \<not> spawn_ok then s1
              else s1\<lparr>b_readers := \<lparr>tk_generation = b_generation s, tk_change_count = live\<rparr> # b_readers s\<rparr>))"

text \<open>\<open>accepted\<close>: whether AppKit took the PNG; \<open>written\<close>: the change count after the payload was written.\<close>

definition host_of_payload :: "payload \<Rightarrow> host_copy" where
  "host_of_payload p =
     (case p of
        Text t \<Rightarrow> \<lparr>h_text = Some t, h_png = None, h_tiff = None\<rparr>
      | Image b \<Rightarrow> \<lparr>h_text = None, h_png = Some b, h_tiff = None\<rparr>)"

definition payload_installed :: "payload \<Rightarrow> host_contents \<Rightarrow> bool" where
  "payload_installed p c =
     (case p of
        Text t \<Rightarrow> matches_text_only c t
      | Image b \<Rightarrow> hc_image_png c = Some b \<and> hc_text c = None)"

definition contents_of_payload :: "payload \<Rightarrow> host_contents" where
  "contents_of_payload p =
     (case p of
        Text t \<Rightarrow> from_snapshot (Some t) None False
      | Image b \<Rightarrow> from_snapshot None (Some b) False)"

definition install_guest_clipboard ::
  "image_token \<Rightarrow> payload \<Rightarrow> int \<Rightarrow> bool \<Rightarrow> int \<Rightarrow> bridge \<Rightarrow> bridge" where
  "install_guest_clipboard source p live accepted written s =
     (if \<not> source_is_current source (b_generation s) live then s
      else
        (let s1 = s\<lparr>b_images := replace_pending None (b_images s),
                    b_requests := requests_reset None (b_requests s)\<rparr>
         in if payload_installed p (b_contents s1) then s1
            else if (case p of Text _ \<Rightarrow> False | Image _ \<Rightarrow> \<not> accepted) then s1
            else
              (let s2 = s1\<lparr>b_change_count := written, b_contents := contents_of_payload p,
                           b_host := (b_host s1)(b_generation s \<mapsto> host_of_payload p)\<rparr>
               in set_selection
                    (clipboard_mime_types (hc_text (b_contents s2) \<noteq> None)
                       (hc_image_png (b_contents s2) \<noteq> None))
                    \<lparr>tk_generation = tk_generation source, tk_change_count = written\<rparr> s2)))"

definition send_selection ::
  "bool \<Rightarrow> string \<Rightarrow> nat \<Rightarrow> image_token \<Rightarrow> int \<Rightarrow> io_error option \<Rightarrow> bridge \<Rightarrow> bridge" where
  "send_selection clipboard mime fd user_data live spawn_error s =
     (if \<not> clipboard then s
      else if \<not> token_current s live user_data then s
      else if is_clipboard_image_mime mime \<and> hc_image_png (b_contents s) = None \<and>
              rq_token (b_requests s) = Some user_data
      then s\<lparr>b_requests := snd (requests_retain user_data fd (b_requests s))\<rparr>
      else
        (let p = (if is_clipboard_image_mime mime then map_option Image (hc_image_png (b_contents s))
                  else if is_clipboard_text_mime mime then map_option Text (hc_text (b_contents s))
                  else None)
         in (case p of
               None \<Rightarrow> s
             | Some q \<Rightarrow> send_host_clipboard_payload spawn_error live user_data fd q s)))"

subsection \<open>Runs\<close>

text \<open>
  The operations in the order in which the event loop, the window system and the threads
  perform them. A paste names a token that was published before; a reader delivers its payload
  at most once; a transfer drops its permit once.
\<close>

datatype bridge_event =
    PollHost poll_env instant pasteboard poll_env
  | Refresh instant pasteboard poll_env
  | PollResults poll_env
  | NewSelection bool "string list option"
  | RequestGuest bool bool int bool
  | GuestReply nat "payload option" int bool int
  | SendSelection bool string nat nat int "io_error option"
  | TransferDone nat
  | ImageThread worker_event

fun thread_event :: "worker_event \<Rightarrow> bool" where
  "thread_event ThreadReceive = True"
| "thread_event ThreadComplete = True"
| "thread_event ThreadExit = True"
| "thread_event _ = False"

fun bridge_step ::
  "(bytes \<Rightarrow> image_result option) \<Rightarrow> bridge_event \<Rightarrow> bridge \<Rightarrow> bridge" where
  "bridge_step convert (PollHost env now p env') s = poll_host_clipboard env now p env' s"
| "bridge_step convert (Refresh now p env) s = refresh_host_clipboard now p env s"
| "bridge_step convert (PollResults env) s = poll_host_clipboard_results env s"
| "bridge_step convert (NewSelection clipboard source) s = new_selection clipboard source s"
| "bridge_step convert (RequestGuest a b live c) s = request_pending_guest_clipboard a b live c s"
| "bridge_step convert (GuestReply i reply live accepted written) s =
     (if i < length (b_readers s)
      then (let s1 = s\<lparr>b_readers := remove_at i (b_readers s)\<rparr>
            in (case reply of
                  None \<Rightarrow> s1
                | Some p \<Rightarrow> install_guest_clipboard (b_readers s ! i) p live accepted written s1))
      else s)"
| "bridge_step convert (SendSelection clipboard mime fd i live spawn_error) s =
     (if i < length (b_published s)
      then send_selection clipboard mime fd (b_published s ! i) live spawn_error s
      else s)"
| "bridge_step convert (TransferDone i) s =
     (if i < length (b_permits s)
      then s\<lparr>b_budget := permit_drop (b_permits s ! i) (b_budget s), b_permits := remove_at i (b_permits s)\<rparr>
      else s)"
| "bridge_step convert (ImageThread e) s =
     (if thread_event e then s\<lparr>b_images := worker_step convert e (b_images s)\<rparr> else s)"

subsection \<open>Where contents come from\<close>

text \<open>A payload that the pasteboard held in this copy, or that was converted from its TIFF.\<close>

definition payload_from :: "(bytes \<Rightarrow> image_result option) \<Rightarrow> host_copy \<Rightarrow> payload \<Rightarrow> bool" where
  "payload_from convert h p =
     (case p of
        Text t \<Rightarrow> h_text h = Some t
      | Image b \<Rightarrow> h_png h = Some b \<or>
          (case h_tiff h of None \<Rightarrow> False | Some tiff \<Rightarrow> convert tiff = Some (Inr (Some b))))"

definition tiff_known :: "(64 word \<Rightarrow> host_copy option) \<Rightarrow> image_token \<Rightarrow> bytes \<Rightarrow> bool" where
  "tiff_known H t tiff \<longleftrightarrow> (\<exists>h. H (tk_generation t) = Some h \<and> h_tiff h = Some tiff)"

definition result_known ::
  "(bytes \<Rightarrow> image_result option) \<Rightarrow> (64 word \<Rightarrow> host_copy option) \<Rightarrow> image_completion \<Rightarrow> bool" where
  "result_known convert H c \<longleftrightarrow>
     H (tk_generation (c_token c)) \<noteq> None \<and>
     (\<forall>png. c_result c = Inr (Some png) \<longrightarrow>
        (\<exists>tiff. tiff_known H (c_token c) tiff \<and> convert tiff = Some (Inr (Some png))))"

definition job_known :: "(64 word \<Rightarrow> host_copy option) \<Rightarrow> image_job \<Rightarrow> bool" where
  "job_known H job \<longleftrightarrow> tiff_known H (j_token job) (j_tiff job)"

definition channels_known ::
  "(bytes \<Rightarrow> image_result option) \<Rightarrow> (64 word \<Rightarrow> host_copy option) \<Rightarrow> image_channels \<Rightarrow> bool" where
  "channels_known convert H ch \<longleftrightarrow>
     (\<forall>task \<in> set (ch_jobs ch). job_known H (fst task)) \<and>
     (\<forall>task \<in> set_option (ch_running ch). job_known H (fst task)) \<and>
     (\<forall>c \<in> set (ch_results ch). result_known convert H c)"

definition worker_known ::
  "(bytes \<Rightarrow> image_result option) \<Rightarrow> (64 word \<Rightarrow> host_copy option) \<Rightarrow> image_worker \<Rightarrow> bool" where
  "worker_known convert H w \<longleftrightarrow>
     (\<forall>job \<in> set_option (w_pending w). job_known H job) \<and>
     (\<forall>t \<in> set_option (w_in_flight w). H (tk_generation t) \<noteq> None) \<and>
     (\<forall>ch \<in> set_option (w_worker w). channels_known convert H ch)"

lemma job_known_defined: "job_known H job \<Longrightarrow> H (tk_generation (j_token job)) \<noteq> None"
  by (auto simp: job_known_def tiff_known_def)

lemma tiff_known_mono: "tiff_known H t tiff \<Longrightarrow> H \<subseteq>\<^sub>m H' \<Longrightarrow> tiff_known H' t tiff"
  by (auto simp: tiff_known_def map_le_def dom_def)

lemma job_known_mono: "job_known H job \<Longrightarrow> H \<subseteq>\<^sub>m H' \<Longrightarrow> job_known H' job"
  unfolding job_known_def by (rule tiff_known_mono)

lemma defined_mono: "H g \<noteq> None \<Longrightarrow> H \<subseteq>\<^sub>m H' \<Longrightarrow> H' g \<noteq> None"
  by (auto simp: map_le_def dom_def)

lemma result_known_mono: "result_known convert H c \<Longrightarrow> H \<subseteq>\<^sub>m H' \<Longrightarrow> result_known convert H' c"
  unfolding result_known_def using tiff_known_mono defined_mono by metis

lemma channels_known_mono: "channels_known convert H ch \<Longrightarrow> H \<subseteq>\<^sub>m H' \<Longrightarrow> channels_known convert H' ch"
  unfolding channels_known_def using job_known_mono result_known_mono by blast

lemma worker_known_mono: "worker_known convert H w \<Longrightarrow> H \<subseteq>\<^sub>m H' \<Longrightarrow> worker_known convert H' w"
  unfolding worker_known_def using job_known_mono channels_known_mono defined_mono by metis

lemma worker_known_default: "worker_known convert H worker_default"
  by (simp add: worker_known_def worker_default_def)

lemma worker_known_replace:
  "worker_known convert H w \<Longrightarrow> (\<And>t tiff. snapshot = Some (t, tiff) \<Longrightarrow> tiff_known H t tiff) \<Longrightarrow>
   worker_known convert H (replace_pending snapshot w)"
  by (auto simp: worker_known_def replace_pending_def job_known_def)

lemma worker_known_start:
  "worker_known convert H w \<Longrightarrow> worker_known convert H (snd (start_pending e w))"
  by (auto simp: worker_known_def start_pending_def channel_try_send_def new_channels_def channels_known_def
      Let_def split: option.splits dest: job_known_defined)

lemma result_known_failed:
  "H (tk_generation t) \<noteq> None \<Longrightarrow> result_known convert H \<lparr>c_token = t, c_result = Inl e\<rparr>"
  by (simp add: result_known_def)

lemma worker_known_poll:
  assumes "worker_known convert H w" and "poll_image w = (c, w')"
  shows "worker_known convert H w' \<and> (\<forall>completion \<in> set_option c. result_known convert H completion)"
  using assms
  by (auto simp: worker_known_def poll_image_def channels_known_def intro!: result_known_failed
      split: option.splits list.splits if_splits) force

lemma run_task_known: "job_known H job \<Longrightarrow> result_known convert H (run_task convert job)"
  by (auto simp: result_known_def run_task_def job_known_def tiff_known_def split: option.splits)

lemma channels_known_thread:
  assumes "channels_known convert H ch"
  shows "channels_known convert H (thread_receive ch)"
    and "channels_known convert H (snd (thread_complete convert ch))"
    and "channels_known convert H (thread_exit ch)"
  using assms run_task_known [of H _ convert]
  by (auto simp: channels_known_def thread_receive_def thread_complete_def thread_exit_def
      split: option.splits list.splits prod.splits)

lemma worker_known_thread:
  "thread_event e \<Longrightarrow> worker_known convert H w \<Longrightarrow> worker_known convert H (worker_step convert e w)"
  by (cases e) (auto simp: worker_known_def with_channels_def channels_known_thread)

subsection \<open>The invariant\<close>

definition contents_from ::
  "(bytes \<Rightarrow> image_result option) \<Rightarrow> host_copy \<Rightarrow> host_contents \<Rightarrow> bool" where
  "contents_from convert h c \<longleftrightarrow>
     hc_text c = h_text h \<and> (\<forall>b \<in> set_option (hc_image_png c). payload_from convert h (Image b))"

definition delivery_ok ::
  "(bytes \<Rightarrow> image_result option) \<Rightarrow> (64 word \<Rightarrow> host_copy option) \<Rightarrow> delivery \<Rightarrow> bool" where
  "delivery_ok convert H d \<longleftrightarrow>
     tk_change_count (d_token d) = d_live d \<and>
     (case H (tk_generation (d_token d)) of
        None \<Rightarrow> False
      | Some h \<Rightarrow> payload_from convert h (d_payload d))"

text \<open>Selections of the current generation that a client may still deliver.\<close>

definition guest_claims :: "bridge \<Rightarrow> nat" where
  "guest_claims s =
     (if b_guest_mime s = None then 0 else 1) +
     length (filter (\<lambda>r. tk_generation r = b_generation s) (b_readers s))"

definition bridge_known :: "(bytes \<Rightarrow> image_result option) \<Rightarrow> bridge \<Rightarrow> bool" where
  "bridge_known convert s \<longleftrightarrow>
     (\<forall>g \<in> dom (b_host s). g \<le> b_generation s) \<and>
     (\<forall>r \<in> set (b_readers s). tk_generation r \<le> b_generation s) \<and>
     guest_claims s \<le> 1 \<and> (guest_claims s = 1 \<longrightarrow> b_host s (b_generation s) = None) \<and>
     (\<forall>h \<in> set_option (b_host s (b_generation s)). contents_from convert h (b_contents s)) \<and>
     worker_known convert (b_host s) (b_images s) \<and>
     (\<forall>t \<in> set (b_published s). b_host s (tk_generation t) \<noteq> None) \<and>
     (\<forall>d \<in> set (b_sent s). delivery_ok convert (b_host s) d)"

lemma delivery_ok_mono: "delivery_ok convert H d \<Longrightarrow> H \<subseteq>\<^sub>m H' \<Longrightarrow> delivery_ok convert H' d"
  by (auto simp: delivery_ok_def map_le_def dom_def split: option.splits)

lemma known_new: "bridge_known convert (bridge_new n now)"
  by (simp add: bridge_known_def bridge_new_def guest_claims_def worker_known_default)

text \<open>Operations that only touch the selection, the requests or the budget.\<close>

lemma known_publish:
  assumes "bridge_known convert s" and "b_host s (b_generation s) \<noteq> None"
  shows "bridge_known convert (publish_host_clipboard s)"
  using assms
  by (auto simp: publish_host_clipboard_def Let_def set_selection_def bridge_known_def guest_claims_def
      current_token_def)

lemma known_requests: "bridge_known convert (s\<lparr>b_requests := r\<rparr>) = bridge_known convert s"
  by (simp add: bridge_known_def guest_claims_def)

lemma known_images:
  "bridge_known convert s \<Longrightarrow> worker_known convert (b_host s) w \<Longrightarrow> bridge_known convert (s\<lparr>b_images := w\<rparr>)"
  by (simp add: bridge_known_def guest_claims_def)

lemma send_unchanged [simp]:
  "b_host (send_host_clipboard_payload e live t fd p s) = b_host s"
  "b_generation (send_host_clipboard_payload e live t fd p s) = b_generation s"
  "b_contents (send_host_clipboard_payload e live t fd p s) = b_contents s"
  "b_change_count (send_host_clipboard_payload e live t fd p s) = b_change_count s"
  by (auto simp: send_host_clipboard_payload_def split: sum.split prod.split)

lemma known_send:
  assumes "bridge_known convert s"
    and "delivery_ok convert (b_host s) \<lparr>d_fd = fd, d_token = t, d_live = live, d_payload = p\<rparr>"
  shows "bridge_known convert (send_host_clipboard_payload e live t fd p s)"
  using assms
  by (auto simp: send_host_clipboard_payload_def bridge_known_def guest_claims_def split: sum.split prod.split)

lemma known_send_all:
  assumes "bridge_known convert s"
    and "\<And>fd. delivery_ok convert (b_host s) \<lparr>d_fd = fd, d_token = t, d_live = live, d_payload = p\<rparr>"
  shows "bridge_known convert (fold (\<lambda>fd. send_host_clipboard_payload (e fd) live t fd p) fds s)"
  using assms
  by (induction fds arbitrary: s) (simp_all add: known_send)

lemma current_delivery:
  assumes k: "bridge_known convert s" and t: "token_current s live t"
    and h: "b_host s (tk_generation t) \<noteq> None"
    and p: "p = Text x \<and> hc_text (b_contents s) = Some x \<or> p = Image b \<and> hc_image_png (b_contents s) = Some b"
  shows "delivery_ok convert (b_host s) \<lparr>d_fd = fd, d_token = t, d_live = live, d_payload = p\<rparr>"
proof -
  have t': "tk_generation t = b_generation s" "tk_change_count t = live"
    using t by (auto simp: is_current_def source_is_current_def)
  obtain c where c: "b_host s (b_generation s) = Some c" using h t' by auto
  with k have "contents_from convert c (b_contents s)" by (simp add: bridge_known_def)
  with p c t' show ?thesis by (auto simp: delivery_ok_def contents_from_def payload_from_def)
qed

text \<open>Polling.\<close>

lemma known_drop_stale: "bridge_known convert s \<Longrightarrow> bridge_known convert (drop_stale_requests live s)"
  by (auto simp: drop_stale_requests_def known_requests split: option.split)

lemma merge_known:
  assumes "result_known convert H c" and "H (tk_generation (c_token c)) = Some h"
    and "contents_from convert h k"
  shows "contents_from convert h (snd (merge_image c g cc lc k))"
  using assms
  by (auto simp: merge_image_def contents_from_def result_known_def tiff_known_def payload_from_def
      split: sum.split)

lemma merge_stale_known:
  assumes "tk_generation (c_token c) \<noteq> g"
  shows "snd (merge_image c g cc lc k) = k"
  using assms by (simp add: merge_image_def is_current_def source_is_current_def)

lemma known_merged:
  assumes k: "bridge_known convert s" and c: "result_known convert (b_host s) c"
  shows "bridge_known convert (s\<lparr>b_requests := r,
    b_contents := snd (merge_image c (b_generation s) (b_change_count s) live (b_contents s))\<rparr>)"
proof -
  let ?m = "snd (merge_image c (b_generation s) (b_change_count s) live (b_contents s))"
  have "contents_from convert h ?m" if "b_host s (b_generation s) = Some h" for h
  proof (cases "tk_generation (c_token c) = b_generation s")
    case True
    with that k show ?thesis by (intro merge_known [OF c]) (auto simp: bridge_known_def)
  next
    case False
    with that k show ?thesis by (simp add: merge_stale_known bridge_known_def)
  qed
  with k show ?thesis by (simp add: bridge_known_def guest_claims_def)
qed

lemma known_completion:
  assumes k: "bridge_known convert s" and c: "result_known convert (b_host s) c"
  shows "bridge_known convert (handle_completion env c s)"
proof -
  obtain fds r where take: "requests_take (c_token c) (b_requests s) = (fds, r)" by fastforce
  define s1 where "s1 = s\<lparr>b_requests := r,
    b_contents := snd (merge_image c (b_generation s) (b_change_count s) (pe_live env) (b_contents s))\<rparr>"
  have k1: "bridge_known convert s1" unfolding s1_def by (rule known_merged [OF k c])
  have host: "b_host s1 (tk_generation (c_token c)) \<noteq> None"
    using c by (simp add: s1_def result_known_def)
  show ?thesis
  proof (cases "token_current s (pe_live env) (c_token c)")
    case False
    with k1 take show ?thesis by (simp add: handle_completion_def s1_def)
  next
    case True
    then have gen: "tk_generation (c_token c) = b_generation s1" and cur: "token_current s1 (pe_live env) (c_token c)"
      by (simp_all add: s1_def is_current_def source_is_current_def)
    have sent: "bridge_known convert
        (fold (\<lambda>fd. send_host_clipboard_payload (pe_spawn env fd) (pe_live env) (c_token c) fd (Image b)) fds s1)"
      if "hc_image_png (b_contents s1) = Some b" for b
      by (rule known_send_all [OF k1]) (rule current_delivery [OF k1 cur host], simp add: that)
    have pub: "bridge_known convert (publish_host_clipboard s1)"
      using known_publish [OF k1] host gen by simp
    show ?thesis
      using True take sent pub k1
      by (auto simp: handle_completion_def s1_def [symmetric] Let_def split: option.split sum.split)
        (auto simp: s1_def split: option.split)
  qed
qed

lemma known_start:
  assumes k: "bridge_known convert s"
  shows "bridge_known convert (start_conversion env s)"
proof (cases "w_pending (b_images s)")
  case None
  with k show ?thesis by (simp add: start_conversion_def pending_token_def)
next
  case (Some job)
  obtain r w where st: "start_pending (pe_thread env) (b_images s) = (r, w)" by fastforce
  have w: "worker_known convert (b_host s) w"
    using k worker_known_start [of convert "b_host s" "b_images s" "pe_thread env"] st
    by (simp add: bridge_known_def)
  have host: "b_host s (tk_generation (j_token job)) \<noteq> None"
    using k Some job_known_defined by (simp add: bridge_known_def worker_known_def)
  have none: "worker_known convert (b_host s) (replace_pending None (b_images s))"
    using k by (intro worker_known_replace) (simp_all add: bridge_known_def)
  have pub: "bridge_known convert (publish_host_clipboard (s\<lparr>b_images := w, b_requests := q\<rparr>))"
    if "token_current s (pe_live env) (j_token job)" for q
    using that host k w
    by (intro known_publish) (simp_all add: known_requests known_images is_current_def source_is_current_def)
  show ?thesis
    using Some st k w none pub
    by (auto simp: start_conversion_def pending_token_def known_images split: sum.split)
qed

lemma known_poll_results:
  assumes k: "bridge_known convert s"
  shows "bridge_known convert (poll_host_clipboard_results env s)"
proof (cases "has_work (b_images s)")
  case False
  with k show ?thesis by (simp add: poll_host_clipboard_results_def)
next
  case True
  define s1 where "s1 = drop_stale_requests (pe_live env) s"
  have k1: "bridge_known convert s1" unfolding s1_def by (rule known_drop_stale [OF k])
  obtain c w where poll: "poll_image (b_images s1) = (c, w)" by fastforce
  have p: "worker_known convert (b_host s1) w" "\<forall>x \<in> set_option c. result_known convert (b_host s1) x"
    using worker_known_poll [OF _ poll, of convert "b_host s1"] k1 by (simp_all add: bridge_known_def)
  have "bridge_known convert (case c of None \<Rightarrow> s1\<lparr>b_images := w\<rparr>
      | Some x \<Rightarrow> handle_completion env x (s1\<lparr>b_images := w\<rparr>))"
    using known_images [OF k1 p(1)] p(2) by (auto split: option.split intro: known_completion)
  then show ?thesis
    using True poll by (simp add: poll_host_clipboard_results_def s1_def [symmetric] Let_def known_start)
qed

text \<open>No poll changes the generation.\<close>

lemma publish_generation [simp]: "b_generation (publish_host_clipboard s) = b_generation s"
  by (simp add: publish_host_clipboard_def Let_def set_selection_def)

lemma fold_send_generation [simp]:
  "b_generation (fold (\<lambda>fd. send_host_clipboard_payload (e fd) live t fd p) fds s) = b_generation s"
  by (induction fds arbitrary: s) simp_all

lemma completion_generation [simp]: "b_generation (handle_completion env c s) = b_generation s"
  by (auto simp: handle_completion_def Let_def split: option.split prod.split)

lemma start_generation [simp]: "b_generation (start_conversion env s) = b_generation s"
  by (auto simp: start_conversion_def split: option.split sum.split prod.split)

lemma poll_generation [simp]: "b_generation (poll_host_clipboard_results env s) = b_generation s"
  by (auto simp: poll_host_clipboard_results_def drop_stale_requests_def Let_def split: option.split prod.split)

text \<open>A new generation of host contents.\<close>

lemma new_generation:
  fixes g :: "64 word"
  assumes "Suc (unat g) < 2 ^ 64"
  shows "g < g + 1" "unat (g + 1) = Suc (unat g)" "\<And>k. k \<le> g \<Longrightarrow> k < g + 1"
proof -
  show u: "unat (g + 1) = Suc (unat g)"
    using assms by (simp add: unat_word_ariths(1))
  then show "g < g + 1" by (simp add: word_less_nat_alt)
  show "k < g + 1" if "k \<le> g" for k using that u by (simp add: word_less_nat_alt word_le_nat_alt)
qed

lemma extend_le: "H g = None \<Longrightarrow> H \<subseteq>\<^sub>m H(g \<mapsto> h)"
  by (auto simp: map_le_def)

text \<open>
  Moving to a fresh generation, or giving the current generation its contents: what has to be
  shown of the new parts of the state.
\<close>

lemma known_extend:
  assumes k: "bridge_known convert s" and g: "b_host s g = None" "g \<le> b_generation s'"
    and host: "b_host s' = (b_host s)(g \<mapsto> h)" and gen: "b_generation s \<le> b_generation s'" "b_generation s' = g"
    and contents: "contents_from convert h (b_contents s')"
    and worker: "worker_known convert (b_host s') (b_images s')"
    and readers: "set (b_readers s') \<subseteq> set (b_readers s)" and claims: "guest_claims s' = 0"
    and pub: "set (b_published s') \<subseteq> insert t (set (b_published s))" "tk_generation t = g"
    and sent: "b_sent s' = b_sent s"
  shows "bridge_known convert s'"
proof -
  note le = extend_le [of "b_host s" g h, OF g(1)]
  have "\<forall>x \<in> dom (b_host s'). x \<le> b_generation s'"
    using k gen host by (auto simp: bridge_known_def intro: order_trans)
  moreover have "\<forall>r \<in> set (b_readers s'). tk_generation r \<le> b_generation s'"
    using k readers gen(1) by (auto simp: bridge_known_def intro: order_trans)
  moreover have "\<forall>x \<in> set (b_published s'). b_host s' (tk_generation x) \<noteq> None"
    using k pub host by (auto simp: bridge_known_def)
  moreover have "\<forall>d \<in> set (b_sent s'). delivery_ok convert (b_host s') d"
    using k sent delivery_ok_mono [OF _ le] host by (simp add: bridge_known_def)
  ultimately show ?thesis
    using claims contents worker host gen(2) by (simp add: bridge_known_def)
qed

lemma no_old_claims:
  assumes "bridge_known convert s" and "Suc (unat (b_generation s)) < 2 ^ 64"
  shows "filter (\<lambda>r. tk_generation r = b_generation s + 1) (b_readers s) = []"
    and "b_host s (b_generation s + 1) = None"
proof -
  have le: "x \<noteq> b_generation s + 1" if "x \<le> b_generation s" for x
    using new_generation(3) [OF assms(2) that] by auto
  show "filter (\<lambda>r. tk_generation r = b_generation s + 1) (b_readers s) = []"
    using assms(1) le by (auto simp: bridge_known_def filter_empty_conv)
  have "b_generation s + 1 \<notin> dom (b_host s)"
    using assms(1) le unfolding bridge_known_def by blast
  then show "b_host s (b_generation s + 1) = None" by (simp add: domIff)
qed

lemma known_snapshot:
  assumes k: "bridge_known convert s" and n: "Suc (unat (b_generation s)) < 2 ^ 64"
  shows "bridge_known convert (install_snapshot snap s)"
    and "b_host (install_snapshot snap s) (b_generation (install_snapshot snap s)) \<noteq> None"
    and "b_generation (install_snapshot snap s) = b_generation s + 1"
proof -
  let ?g = "b_generation s + 1"
  let ?h = "\<lparr>h_text = s_text snap, h_png = s_image_png snap, h_tiff = s_image_tiff snap\<rparr>"
  let ?s = "install_snapshot snap s"
  note fresh = no_old_claims [OF k n]
  have host: "b_host ?s = (b_host s)(?g \<mapsto> ?h)" and gen: "b_generation ?s = ?g"
    and img: "b_images ?s = replace_pending (map_option (\<lambda>tiff.
      (\<lparr>tk_generation = ?g, tk_change_count = s_change_count snap\<rparr>, tiff)) (s_image_tiff snap)) (b_images s)"
    by (simp_all add: install_snapshot_def Let_def)
  have "worker_known convert (b_host ?s) (b_images s)"
    using k extend_le [of "b_host s" ?g ?h, OF fresh(2)] host by (auto simp: bridge_known_def intro: worker_known_mono)
  then have w: "worker_known convert (b_host ?s) (b_images ?s)"
    unfolding img by (rule worker_known_replace) (auto simp: host tiff_known_def)
  show "bridge_known convert ?s"
  proof (rule known_extend [OF k fresh(2) _ host _ gen _ w])
    show "b_generation s \<le> b_generation ?s" unfolding gen using new_generation(1) [OF n] by simp
    show "contents_from convert ?h (b_contents ?s)"
      by (simp add: install_snapshot_def Let_def contents_from_def from_snapshot_def payload_from_def)
    show "guest_claims ?s = 0" using fresh(1) by (simp add: guest_claims_def install_snapshot_def Let_def)
    show "set (b_published ?s) \<subseteq> insert \<lparr>tk_generation = ?g, tk_change_count = 0\<rparr> (set (b_published s))"
      by (auto simp: install_snapshot_def Let_def)
  qed (simp_all add: gen install_snapshot_def Let_def)
  show "b_host ?s (b_generation ?s) \<noteq> None" "b_generation ?s = ?g" using host gen by simp_all
qed

lemma known_refresh:
  assumes k: "bridge_known convert s" and n: "Suc (unat (b_generation s)) < 2 ^ 64"
  shows "bridge_known convert (refresh_host_clipboard now p env s)"
    and "unat (b_generation (refresh_host_clipboard now p env s)) \<le> Suc (unat (b_generation s))"
proof -
  let ?s = "s\<lparr>b_last_poll := now\<rparr>"
  have k': "bridge_known convert ?s" using k by (simp add: bridge_known_def guest_claims_def)
  have n': "Suc (unat (b_generation ?s)) < 2 ^ 64" using n by simp
  note snap = known_snapshot [OF k' n']
  show "bridge_known convert (refresh_host_clipboard now p env s)"
    using k' snap by (auto simp: refresh_host_clipboard_def Let_def
        intro!: known_poll_results known_publish split: option.split)
  show "unat (b_generation (refresh_host_clipboard now p env s)) \<le> Suc (unat (b_generation s))"
    using snap(3) new_generation(2) [OF n] by (auto simp: refresh_host_clipboard_def Let_def split: option.split)
qed

lemma known_new_selection:
  assumes k: "bridge_known convert s" and n: "Suc (unat (b_generation s)) < 2 ^ 64"
  shows "bridge_known convert (new_selection clipboard source s)"
    and "unat (b_generation (new_selection clipboard source s)) \<le> Suc (unat (b_generation s))"
proof -
  note fresh = no_old_claims [OF k n] and up = new_generation [OF n]
  have le: "x \<le> b_generation s + 1" if "x \<le> b_generation s" for x using up(3) [OF that] by simp
  have "worker_known convert (b_host s) (replace_pending None (b_images s))"
    using k by (intro worker_known_replace) (simp_all add: bridge_known_def)
  then show "bridge_known convert (new_selection clipboard source s)"
    using k fresh le by (auto simp: new_selection_def Let_def bridge_known_def guest_claims_def)
  show "unat (b_generation (new_selection clipboard source s)) \<le> Suc (unat (b_generation s))"
    using up(2) by (simp add: new_selection_def Let_def)
qed

lemma known_request: "bridge_known convert s \<Longrightarrow> bridge_known convert (request_pending_guest_clipboard a b live c s)"
  by (auto simp: request_pending_guest_clipboard_def Let_def bridge_known_def guest_claims_def split: option.splits)

lemma filter_remove_at:
  "i < length xs \<Longrightarrow> length (filter P xs) = (if P (xs ! i) then 1 else 0) + length (filter P (remove_at i xs))"
  by (subst remove_at_split [of i xs]) (simp_all add: remove_at_def)

lemma known_reader_done:
  assumes k: "bridge_known convert s" and i: "i < length (b_readers s)"
  shows "bridge_known convert (s\<lparr>b_readers := remove_at i (b_readers s)\<rparr>)"
    and "tk_generation (b_readers s ! i) = b_generation s \<Longrightarrow>
      b_host s (b_generation s) = None \<and> guest_claims (s\<lparr>b_readers := remove_at i (b_readers s)\<rparr>) = 0"
proof -
  let ?s = "s\<lparr>b_readers := remove_at i (b_readers s)\<rparr>"
  have claims: "guest_claims s = guest_claims ?s + (if tk_generation (b_readers s ! i) = b_generation s then 1 else 0)"
    using filter_remove_at [OF i] by (simp add: guest_claims_def)
  then show "bridge_known convert ?s"
    using k set_remove_at [of i "b_readers s"] by (auto simp: bridge_known_def split: if_splits)
  show "b_host s (b_generation s) = None \<and> guest_claims ?s = 0"
    if "tk_generation (b_readers s ! i) = b_generation s"
    using that k claims by (simp add: bridge_known_def)
qed

lemma known_install:
  assumes k: "bridge_known convert s"
    and free: "tk_generation source = b_generation s \<Longrightarrow> b_host s (b_generation s) = None \<and> guest_claims s = 0"
  shows "bridge_known convert (install_guest_clipboard source p live accepted written s)"
proof (cases "source_is_current source (b_generation s) live")
  case False
  with k show ?thesis by (simp add: install_guest_clipboard_def)
next
  case True
  then have g: "tk_generation source = b_generation s" by (simp add: source_is_current_def)
  define s1 where "s1 = s\<lparr>b_images := replace_pending None (b_images s), b_requests := requests_reset None (b_requests s)\<rparr>"
  have w: "worker_known convert (b_host s) (replace_pending None (b_images s))"
    using k by (intro worker_known_replace) (simp_all add: bridge_known_def)
  then have k1: "bridge_known convert s1" unfolding s1_def by (simp add: known_requests known_images k)
  define s2 where "s2 = s1\<lparr>b_change_count := written, b_contents := contents_of_payload p,
    b_host := (b_host s1)(b_generation s \<mapsto> host_of_payload p)\<rparr>"
  have "bridge_known convert (set_selection mimes \<lparr>tk_generation = tk_generation source, tk_change_count = written\<rparr> s2)"
    (is "bridge_known convert ?s") for mimes
  proof (rule known_extend [OF k1, where g = "b_generation s" and h = "host_of_payload p"
        and t = "\<lparr>tk_generation = tk_generation source, tk_change_count = written\<rparr>"])
    show "b_host s1 (b_generation s) = None" using free [OF g] by (simp add: s1_def)
    show "guest_claims ?s = 0" using free [OF g]
      by (simp add: set_selection_def s1_def s2_def guest_claims_def)
    show "contents_from convert (host_of_payload p) (b_contents ?s)"
      by (cases p) (simp_all add: set_selection_def s2_def contents_from_def contents_of_payload_def
          host_of_payload_def from_snapshot_def payload_from_def)
    have "b_host s \<subseteq>\<^sub>m b_host ?s"
      using extend_le [of "b_host s" "b_generation s" "host_of_payload p"] free [OF g]
      by (simp add: set_selection_def s1_def s2_def)
    with w show "worker_known convert (b_host ?s) (b_images ?s)"
      by (simp add: set_selection_def s1_def s2_def worker_known_mono)
  qed (auto simp: set_selection_def s1_def s2_def g)
  with True k1 show ?thesis
    by (simp add: install_guest_clipboard_def s1_def [symmetric] s2_def [symmetric] Let_def)
qed

lemma known_send_selection:
  assumes k: "bridge_known convert s" and t: "b_host s (tk_generation t) \<noteq> None"
  shows "bridge_known convert (send_selection clipboard mime fd t live e s)"
proof -
  have "bridge_known convert (send_host_clipboard_payload e live t fd (Image b) s)"
    if "token_current s live t" "hc_image_png (b_contents s) = Some b" for b
    using that current_delivery [OF k that(1) t] by (intro known_send [OF k]) simp
  moreover have "bridge_known convert (send_host_clipboard_payload e live t fd (Text x) s)"
    if "token_current s live t" "hc_text (b_contents s) = Some x" for x
    using that current_delivery [OF k that(1) t] by (intro known_send [OF k]) simp
  ultimately show ?thesis
    using k by (auto simp: send_selection_def known_requests Let_def split: option.split)
qed

lemma step_known:
  assumes k: "bridge_known convert s" and n: "Suc (unat (b_generation s)) < 2 ^ 64"
  shows "bridge_known convert (bridge_step convert e s) \<and>
    unat (b_generation (bridge_step convert e s)) \<le> Suc (unat (b_generation s))"
proof (cases e)
  case (PollHost env now p env')
  have "Suc (unat (b_generation (poll_host_clipboard_results env s))) < 2 ^ 64" using n by simp
  from known_refresh [OF known_poll_results [OF k] this] known_poll_results [OF k] PollHost show ?thesis
    by (simp add: poll_host_clipboard_def Let_def)
next
  case (GuestReply i reply live accepted written)
  note gone = known_reader_done [OF k, of i]
  have "b_generation (install_guest_clipboard src q live accepted written x) = b_generation x" for src q x
    by (simp add: install_guest_clipboard_def set_selection_def Let_def)
  moreover have "bridge_known convert (install_guest_clipboard (b_readers s ! i) q live accepted written
      (s\<lparr>b_readers := remove_at i (b_readers s)\<rparr>))" if "i < length (b_readers s)" for q
    using gone that by (intro known_install) simp_all
  ultimately show ?thesis using GuestReply gone k by (auto simp: Let_def split: option.split)
next
  case (SendSelection clipboard mime fd i live spawn)
  have "b_generation (send_selection clipboard mime fd t live spawn s) = b_generation s" for t
    by (simp add: send_selection_def Let_def split: option.split)
  moreover have "bridge_known convert (send_selection clipboard mime fd (b_published s ! i) live spawn s)"
    if "i < length (b_published s)"
    using that k by (intro known_send_selection) (simp_all add: bridge_known_def)
  ultimately show ?thesis using SendSelection k by simp
next
  case (TransferDone i)
  with k show ?thesis by (simp add: bridge_known_def guest_claims_def)
next
  case (ImageThread t)
  moreover have "worker_known convert (b_host s) (worker_step convert t (b_images s))" if "thread_event t"
    using that k worker_known_thread by (simp add: bridge_known_def)
  ultimately show ?thesis using k by (simp add: known_images)
next
  case (RequestGuest a b live c)
  moreover have "b_generation (request_pending_guest_clipboard a b live c s) = b_generation s"
    by (simp add: request_pending_guest_clipboard_def Let_def split: option.split)
  ultimately show ?thesis using k by (simp add: known_request)
qed (use k n in \<open>simp_all add: known_refresh known_new_selection known_poll_results\<close>)

lemma run_known:
  assumes "length es < 2 ^ 64"
  shows "bridge_known convert (run_events (bridge_step convert) es (bridge_new count0 now)) \<and>
    unat (b_generation (run_events (bridge_step convert) es (bridge_new count0 now))) \<le> length es"
  using assms
proof (induction es rule: rev_induct)
  case Nil
  then show ?case by (simp add: known_new) (simp add: bridge_new_def)
next
  case (snoc e es)
  then show ?case
    using step_known [of convert "run_events (bridge_step convert) es (bridge_new count0 now)" e]
    by (auto simp: run_events_append)
qed


text \<open>
  A copied TIFF, published at once; the client pastes before the conversion has finished and
  receives the converted image afterwards.
\<close>

definition demo_env :: poll_env where
  "demo_env = \<lparr>pe_live = 7, pe_spawn = (\<lambda>_. None), pe_thread = None\<rparr>"

definition demo_pasteboard :: pasteboard where
  "demo_pasteboard = \<lparr>p_count = 7, p_text = None, p_png = None, p_tiff = Some [1, 2], p_recount = 7\<rparr>"

definition demo_convert :: "bytes \<Rightarrow> image_result option" where
  "demo_convert tiff = Some (Inr (Some (rev tiff)))"

definition demo_events :: "bridge_event list" where
  "demo_events =
     [Refresh 0 demo_pasteboard demo_env, SendSelection True ''image/png'' 3 0 7 None,
      ImageThread ThreadReceive, ImageThread ThreadComplete, PollResults demo_env]"

definition demo_delivery :: delivery where
  "demo_delivery = \<lparr>d_fd = 3, d_token = \<lparr>tk_generation = 1, tk_change_count = 7\<rparr>, d_live = 7, d_payload = Image [2, 1]\<rparr>"

lemma demo_mime: "is_clipboard_image_mime ''image/png''"
  by code_simp

definition demo_token1 :: image_token where
  "demo_token1 = \<lparr>tk_generation = 1, tk_change_count = 7\<rparr>"

text \<open>The state after the refresh, with the conversion queued, and its later images and requests.\<close>

definition demo_state :: "image_channels \<Rightarrow> nat list \<Rightarrow> bridge" where
  "demo_state ch fds =
     \<lparr>b_generation = 1, b_change_count = 7, b_last_poll = 0, b_contents = from_snapshot None None True,
      b_images = \<lparr>w_pending = None, w_in_flight = Some demo_token1, w_worker = Some ch, w_wake = False\<rparr>,
      b_requests = \<lparr>rq_token = Some demo_token1, rq_fds = fds\<rparr>, b_guest_mime = None,
      b_budget = budget_default, b_selection = Some ([CLIPBOARD_IMAGE_MIME], demo_token1), b_permits = [],
      b_readers = [], b_published = [demo_token1],
      b_host = [1 \<mapsto> \<lparr>h_text = None, h_png = None, h_tiff = Some [1, 2]\<rparr>], b_sent = []\<rparr>"

definition demo_job :: "image_job \<times> bool" where
  "demo_job = (\<lparr>j_token = demo_token1, j_tiff = [1, 2]\<rparr>, False)"

definition demo_result :: image_completion where
  "demo_result = \<lparr>c_token = demo_token1, c_result = Inr (Some [2, 1])\<rparr>"

lemma demo_snapshot:
  "pasteboard_snapshot_if_changed 0 demo_pasteboard =
   Some \<lparr>s_change_count = 7, s_text = None, s_image_png = None, s_image_tiff = Some [1, 2], s_image_error = None\<rparr>"
  by (simp add: pasteboard_snapshot_if_changed_def copy_pasteboard_image_def demo_pasteboard_def
      validate_clipboard_source_size_def MAX_CLIPBOARD_IMAGE_SOURCE_BYTES_def)

lemma demo_published:
  "publish_host_clipboard (install_snapshot
     \<lparr>s_change_count = 7, s_text = None, s_image_png = None, s_image_tiff = Some [1, 2], s_image_error = None\<rparr>
     (bridge_new 0 0)) =
   (demo_state new_channels [])\<lparr>b_images := \<lparr>w_pending = Some (fst demo_job), w_in_flight = None,
      w_worker = None, w_wake = False\<rparr>\<rparr>"
  by (simp add: bridge_new_def install_snapshot_def publish_host_clipboard_def
      record_host_clipboard_change_def clipboard_mime_types_def set_selection_def current_token_def
      replace_pending_def requests_reset_def worker_default_def demo_job_def demo_state_def demo_token1_def
      from_snapshot_def Let_def)

lemma demo_current: "is_current demo_token1 1 7 7"
  by (simp add: Clipboard_Transfer.is_current_def source_is_current_def demo_token1_def)

lemma demo_started:
  "poll_host_clipboard_results demo_env ((demo_state new_channels [])\<lparr>b_images := \<lparr>w_pending = Some (fst demo_job),
      w_in_flight = None, w_worker = None, w_wake = False\<rparr>\<rparr>) =
   demo_state (new_channels\<lparr>ch_jobs := [demo_job]\<rparr>) []"
  by (simp add: poll_host_clipboard_results_def drop_stale_requests_def start_conversion_def has_work_def
      pending_token_def poll_image_def start_pending_def channel_try_send_def new_channels_def demo_state_def
      demo_job_def demo_env_def demo_current)

lemma demo_refreshed:
  "bridge_step demo_convert (Refresh 0 demo_pasteboard demo_env) (bridge_new 0 0) =
   demo_state (new_channels\<lparr>ch_jobs := [demo_job]\<rparr>) []"
proof -
  have "bridge_new 0 0\<lparr>b_last_poll := 0\<rparr> = bridge_new 0 0" "b_change_count (bridge_new 0 0) = 0"
    by (simp_all add: bridge_new_def)
  then show ?thesis by (simp add: refresh_host_clipboard_def demo_snapshot demo_published demo_started)
qed

lemma demo_pasted:
  "bridge_step demo_convert (SendSelection True ''image/png'' 3 0 7 None) (demo_state ch []) = demo_state ch [3]"
  by (simp add: demo_state_def send_selection_def demo_current demo_mime from_snapshot_def requests_retain_def
      MAX_TRANSFERS_def)

lemma demo_converted:
  "bridge_step demo_convert (ImageThread ThreadComplete) (bridge_step demo_convert (ImageThread ThreadReceive)
     (demo_state (new_channels\<lparr>ch_jobs := [demo_job]\<rparr>) fds)) = demo_state (new_channels\<lparr>ch_results := [demo_result]\<rparr>) fds"
  by (simp add: demo_state_def with_channels_def thread_receive_def thread_complete_def new_channels_def
      demo_job_def run_task_def demo_convert_def demo_result_def)

lemma demo_spawn: "spawn_with None (Suc (Suc 0)) budget_default = (Inr 2, \<lparr>tb_active = 1, tb_bytes = 2\<rparr>)"
  by (simp add: spawn_with_def transfer_reserve_def reserve_active_def reserve_bytes_def fits_def usize_max_def
      MAX_TRANSFER_BYTES_def MAX_TOTAL_BYTES_def MAX_TRANSFERS_def budget_default_def)

lemma demo_delivered:
  "b_sent (poll_host_clipboard_results demo_env (demo_state (new_channels\<lparr>ch_results := [demo_result]\<rparr>) [3])) =
   [demo_delivery]"
proof -
  have polled: "poll_image (b_images (demo_state (new_channels\<lparr>ch_results := [demo_result]\<rparr>) [3])) =
    (Some demo_result, \<lparr>w_pending = None, w_in_flight = None, w_worker = Some new_channels, w_wake = False\<rparr>)"
    by (simp add: demo_state_def poll_image_def new_channels_def)
  have same: "drop_stale_requests 7 (demo_state ch [3]) = demo_state ch [3]" for ch
    by (simp add: drop_stale_requests_def demo_state_def demo_current)
  have work: "has_work (b_images (demo_state ch [3]))" for ch
    by (simp add: has_work_def demo_state_def)
  have sent: "b_sent (handle_completion demo_env demo_result (demo_state ch [3]\<lparr>b_images := w\<rparr>)) = [demo_delivery]"
    for ch w
    by (simp add: handle_completion_def demo_state_def demo_env_def demo_current demo_result_def requests_take_def
        merge_image_def from_snapshot_def send_host_clipboard_payload_def demo_spawn demo_delivery_def demo_token1_def
        [symmetric])
  have idle: "w_pending (b_images (handle_completion demo_env demo_result (demo_state ch [3]\<lparr>b_images := w\<rparr>))) = w_pending w"
    for ch w
    by (simp add: handle_completion_def demo_state_def demo_env_def demo_current demo_result_def requests_take_def
        merge_image_def from_snapshot_def send_host_clipboard_payload_def demo_spawn)
  have live: "pe_live demo_env = 7" by (simp add: demo_env_def)
  show ?thesis
    by (simp add: poll_host_clipboard_results_def live same work polled start_conversion_def pending_token_def sent idle)
qed

lemma demo_run: "b_sent (run_events (bridge_step demo_convert) demo_events (bridge_new 0 0)) = [demo_delivery]"
  unfolding demo_events_def run_events_simps demo_refreshed demo_pasted demo_converted
  by (simp add: demo_delivered)


end
