(* ===== verification/Process_Output.thy ===== *)
theory Process_Output
  imports Redaction
begin

text \<open>
  \<open>src/process_output.rs\<close>: reading the output of child processes line by line with bounded memory,
  and the budget of log lines queued for the event loop. A reader is the list of what
  \<open>fill_buf\<close> answers; a chunk that was consumed in part stays at the head. An empty chunk is the
  end of the file.
\<close>

definition MAX_LINE_BYTES :: nat where
  "MAX_LINE_BYTES = 16 * 1024"

definition MAX_QUEUED_LINES :: nat where
  "MAX_QUEUED_LINES = 256"

definition MAX_QUEUED_BYTES :: nat where
  "MAX_QUEUED_BYTES = 4 * 1024 * 1024"

subsection \<open>Bounded lines\<close>

datatype fill = Available bytes | FillInterrupted | FillError string

datatype raw_line = EndOfInput | FillFailed string | RawLine bytes bool

definition LF :: "8 word" where
  "LF = 0x0A"

text \<open>The loop of \<open>BoundedLines::next\<close>: \<open>None\<close> while it waits for more answers.\<close>

fun read_line :: "bytes \<Rightarrow> bool \<Rightarrow> fill list \<Rightarrow> (raw_line \<times> fill list) option" where
  "read_line acc truncated [] = None"
| "read_line acc truncated (FillInterrupted # st) = read_line acc truncated st"
| "read_line acc truncated (FillError e # st) = Some (FillFailed e, st)"
| "read_line acc truncated (Available available # st) =
     (if available = []
      then Some (if acc = [] \<and> \<not> truncated then EndOfInput else RawLine acc truncated, Available [] # st)
      else
        (let newline = position (\<lambda>b. b = LF) available;
             len = (case newline of None \<Rightarrow> length available | Some n \<Rightarrow> n);
             copied = min len (MAX_LINE_BYTES - length acc);
             acc' = acc @ take copied available;
             truncated' = (truncated \<or> copied \<noteq> len)
         in (case newline of
               None \<Rightarrow> read_line acc' truncated' st
             | Some n \<Rightarrow>
                 (let rest = drop (Suc n) available
                  in Some (RawLine acc' truncated', if rest = [] then st else Available rest # st)))))"

definition strip_cr :: "bytes \<Rightarrow> bytes" where
  "strip_cr bs = (if bs \<noteq> [] \<and> last bs = 0x0D then butlast bs else bs)"

text \<open>
  \<open>redact\<close> is the reader's redactor: its flag and a line give the text and the next flag.
  \<open>Some (Some r, _, _)\<close> is an item, \<open>Some (None, _, _)\<close> the end of the iteration.
\<close>

definition next_line ::
  "(bool \<Rightarrow> string \<Rightarrow> string \<times> bool) \<Rightarrow> bool \<times> fill list
    \<Rightarrow> ((string + string) option \<times> bool \<times> fill list) option" where
  "next_line redact_line reader =
     (case reader of (pem, st) \<Rightarrow>
        (case read_line [] False st of
           None \<Rightarrow> None
         | Some (EndOfInput, st') \<Rightarrow> Some (None, pem, st')
         | Some (FillFailed e, st') \<Rightarrow> Some (Some (Inl e), pem, st')
         | Some (RawLine bs truncated, st') \<Rightarrow>
             (case redact_line pem (text_of_bytes (utf8_lossy (strip_cr bs))) of
                (line, pem') \<Rightarrow>
                  Some (Some (Inr (if truncated then ''[output truncated]'' else line)), pem', st'))))"

subsection \<open>Lines do not depend on chunks\<close>

text \<open>The bytes a reader delivers before the end of the file.\<close>

fun flat :: "fill list \<Rightarrow> bytes" where
  "flat [] = []"
| "flat (Available bs # st) = (if bs = [] then [] else bs @ flat st)"
| "flat (_ # st) = flat st"

definition complete :: "fill list \<Rightarrow> bool" where
  "complete st \<longleftrightarrow> Available [] \<in> set st \<and> list_all (\<lambda>f. case f of FillError _ \<Rightarrow> False | _ \<Rightarrow> True) st"

definition first_line :: "bytes \<Rightarrow> bytes" where
  "first_line bs = takeWhile (\<lambda>b. b \<noteq> LF) bs"

lemma position_newline:
  "position (\<lambda>b. b = LF) bs = None \<Longrightarrow> first_line (bs @ cs) = bs @ first_line cs"
  "position (\<lambda>b. b = LF) bs = Some n \<Longrightarrow> first_line (bs @ cs) = take n bs \<and> n < length bs"
proof (induction bs arbitrary: n)
  case (Cons b bs)
  { case 1 then show ?case using Cons.IH(1) by (auto simp: first_line_def split: if_splits) }
  { case 2 then show ?case using Cons.IH(2) by (auto simp: first_line_def split: if_splits) }
qed (simp_all add: first_line_def)

lemma copied_bytes:
  assumes "length acc \<le> MAX_LINE_BYTES"
  shows "acc @ take (min n (MAX_LINE_BYTES - length acc)) bs = take MAX_LINE_BYTES (acc @ take n bs)"
  using assms by (simp add: min.commute)

lemma take_take_append: "take n (take n ys @ zs) = take n (ys @ zs)"
  by (cases "length ys \<le> n") simp_all

lemma read_line_flat:
  assumes "complete st" and "length acc \<le> MAX_LINE_BYTES" and "flat st \<noteq> [] \<or> acc \<noteq> [] \<or> truncated"
  shows "\<exists>st'. read_line acc truncated st =
      Some (RawLine (take MAX_LINE_BYTES (acc @ first_line (flat st)))
              (truncated \<or> MAX_LINE_BYTES < length acc + length (first_line (flat st))), st') \<and>
    complete st' \<and> flat st' = drop (Suc (length (first_line (flat st)))) (flat st)"
  using assms
proof (induction st arbitrary: acc truncated)
  case Nil
  then show ?case by (simp add: complete_def)
next
  case (Cons f st)
  show ?case
  proof (cases f)
    case FillInterrupted
    with Cons show ?thesis by (simp add: complete_def)
  next
    case (FillError e)
    with Cons.prems show ?thesis by (simp add: complete_def)
  next
    case avail: (Available available)
    show ?thesis
    proof (cases "available = []")
      case True
      with avail Cons.prems show ?thesis by (auto simp: first_line_def)
    next
      case False
      with avail Cons.prems(1) have st: "complete st" by (simp add: complete_def)
      show ?thesis
      proof (cases "position (\<lambda>b. b = LF) available")
        case (Some n)
        note line = position_newline(2) [OF Some, of "flat st"]
        let ?rest = "drop (Suc n) available"
        let ?st = "if ?rest = [] then st else Available ?rest # st"
        have "complete ?st" "flat ?st = ?rest @ flat st" using st by (auto simp: complete_def)
        with avail False Some line Cons.prems(2) copied_bytes [OF Cons.prems(2), of n available] show ?thesis
          by (intro exI [of _ ?st]) (auto simp: Let_def)
      next
        case None
        note line = position_newline(1) [OF None, of "flat st"]
        let ?n = "min (length available) (MAX_LINE_BYTES - length acc)"
        let ?acc = "acc @ take ?n available" and ?tr = "truncated \<or> ?n \<noteq> length available"
        have acc: "?acc = take MAX_LINE_BYTES (acc @ available)"
          using copied_bytes [OF Cons.prems(2), of "length available" available] by simp
        have len: "length ?acc \<le> MAX_LINE_BYTES" unfolding acc by simp
        have some: "flat st \<noteq> [] \<or> ?acc \<noteq> [] \<or> ?tr"
          using False by (cases "MAX_LINE_BYTES - length acc") auto
        from Cons.IH [OF st len some] obtain st' where
          r: "read_line ?acc ?tr st = Some (RawLine (take MAX_LINE_BYTES (?acc @ first_line (flat st)))
                (?tr \<or> MAX_LINE_BYTES < length ?acc + length (first_line (flat st))), st')"
          and st': "complete st'" "flat st' = drop (Suc (length (first_line (flat st)))) (flat st)"
          by auto
        have bytes: "take MAX_LINE_BYTES (?acc @ first_line (flat st)) =
            take MAX_LINE_BYTES (acc @ available @ first_line (flat st))"
          using take_take_append [of MAX_LINE_BYTES "acc @ available"] unfolding acc by simp
        have tr: "(?tr \<or> MAX_LINE_BYTES < length ?acc + length (first_line (flat st))) =
            (truncated \<or> MAX_LINE_BYTES < length acc + length (available @ first_line (flat st)))"
          using Cons.prems(2) by (auto simp: min_def)
        show ?thesis
          using avail False None r st' line bytes tr by (intro exI [of _ st']) (simp add: Let_def)
      qed
    qed
  qed
qed

text \<open>
  Reading the output of a child line by line does not depend on how the operating system
  cuts it into chunks or interrupts the reads: from any chunking of the same bytes the next line
  is the bytes up to the first line feed, cut at 16 KiB and marked truncated exactly when it
  is longer, and the reader goes on after that line feed; at most 16 KiB are held.
\<close>
theorem lines_independent_of_chunks:
  assumes "complete st" and "complete st2" and "flat st = flat st2" and "flat st \<noteq> []"
  shows "\<exists>st' st2' line truncated.
    read_line [] False st = Some (RawLine line truncated, st') \<and>
    read_line [] False st2 = Some (RawLine line truncated, st2') \<and>
    line = take MAX_LINE_BYTES (first_line (flat st)) \<and>
    truncated = (16 * 1024 < length (first_line (flat st))) \<and>
    length line \<le> 16 * 1024 \<and> complete st' \<and> complete st2' \<and>
    flat st' = drop (Suc (length (first_line (flat st)))) (flat st) \<and> flat st2' = flat st'"
  using read_line_flat [of st "[]" False] read_line_flat [of st2 "[]" False] assms
  by (auto simp: MAX_LINE_BYTES_def)

definition demo_fills :: "fill list" where
  "demo_fills = [Available [0x61], FillInterrupted, Available [0x62, 0x0A, 0x63], Available []]"

theorem lines_independent_of_chunks_witness:
  "complete demo_fills \<and> complete [Available [0x61, 0x62, 0x0A, 0x63], Available []] \<and>
   (\<exists>st'. read_line [] False demo_fills = Some (RawLine (take MAX_LINE_BYTES [0x61, 0x62]) False, st'))"
proof -
  have c: "complete demo_fills" "complete [Available [0x61, 0x62, 0x0A, 0x63], Available []]"
    "flat demo_fills = flat [Available [0x61, 0x62, 0x0A, 0x63], Available []]" "flat demo_fills \<noteq> []"
    "first_line (flat demo_fills) = [0x61, 0x62]"
    by (simp_all add: complete_def demo_fills_def first_line_def LF_def)
  from lines_independent_of_chunks [OF c(1-4)] show ?thesis using c by auto
qed

subsection \<open>Queued log lines\<close>

record log_usage =
  lu_lines :: nat
  lu_bytes :: nat

definition usage_default :: log_usage where
  "usage_default = \<lparr>lu_lines = 0, lu_bytes = 0\<rparr>"

definition log_reserve :: "nat \<Rightarrow> log_usage \<Rightarrow> nat option \<times> log_usage" where
  "log_reserve bytes u =
     (if MAX_QUEUED_LINES \<le> lu_lines u \<or> MAX_QUEUED_BYTES - lu_bytes u < bytes then (None, u)
      else (Some bytes, \<lparr>lu_lines = lu_lines u + 1, lu_bytes = lu_bytes u + bytes\<rparr>))"

definition log_permit_drop :: "nat \<Rightarrow> log_usage \<Rightarrow> log_usage" where
  "log_permit_drop bytes u = \<lparr>lu_lines = lu_lines u - 1, lu_bytes = lu_bytes u - bytes\<rparr>"

definition log_accounted :: "log_usage \<Rightarrow> nat list \<Rightarrow> bool" where
  "log_accounted u ps \<longleftrightarrow>
     lu_lines u = length ps \<and> lu_bytes u = sum_list ps \<and>
     lu_lines u \<le> MAX_QUEUED_LINES \<and> lu_bytes u \<le> MAX_QUEUED_BYTES"

interpretation log_ledger: admission_ledger log_reserve log_permit_drop log_accounted
proof unfold_locales
  show "log_accounted u' (p # ps)" if "log_accounted u ps" "log_reserve r u = (Some p, u')" for u ps r p u'
    using that by (auto simp: log_accounted_def log_reserve_def split: if_splits)
  show "log_accounted u' ps" if "log_accounted u ps" "log_reserve r u = (None, u')" for u ps r u'
    using that by (auto simp: log_reserve_def split: if_splits)
  show "log_accounted (log_permit_drop p u) (remove1 p ps)" if "log_accounted u ps" "p \<in> set ps" for u ps p
    using that sum_list_remove1 [of p ps "\<lambda>x. x"] length_remove1_less [OF that(2)]
    by (auto simp: log_accounted_def log_permit_drop_def)
qed

text \<open>
  The messages the lossy channel knows; \<open>Control\<close> stands for every other message. \<open>cap\<close> is the
  capacity of a string, \<open>message_size\<close> the size of a message.
\<close>

datatype log_message =
    SessionLog string string
  | PullLog string string string
  | VolumeDeleteLog string string string
  | VolumeCreateLog string string string
  | ContainerActionLog string string string string
  | SystemActionLog string string string
  | Control nat

fun redact_log :: "(string \<Rightarrow> string) \<Rightarrow> log_message \<Rightarrow> log_message" where
  "redact_log r (SessionLog source line) = SessionLog (r source) (r line)"
| "redact_log r (PullLog a b line) = PullLog a b (r line)"
| "redact_log r (VolumeDeleteLog a b line) = VolumeDeleteLog a b (r line)"
| "redact_log r (VolumeCreateLog a b line) = VolumeCreateLog a b (r line)"
| "redact_log r (ContainerActionLog a b c line) = ContainerActionLog a b c (r line)"
| "redact_log r (SystemActionLog a b line) = SystemActionLog a b (r line)"
| "redact_log r (Control n) = Control n"

fun log_strings :: "log_message \<Rightarrow> string list" where
  "log_strings (SessionLog source line) = [source, line]"
| "log_strings (PullLog a b line) = [a, b, line]"
| "log_strings (VolumeDeleteLog a b line) = [a, b, line]"
| "log_strings (VolumeCreateLog a b line) = [a, b, line]"
| "log_strings (ContainerActionLog a b c line) = [a, b, c, line]"
| "log_strings (SystemActionLog a b line) = [a, b, line]"
| "log_strings (Control n) = []"

datatype send_effect = Sent log_message | TrySent log_message nat | Discarded

definition send_log ::
  "(string \<Rightarrow> string) \<Rightarrow> (string \<Rightarrow> nat) \<Rightarrow> nat \<Rightarrow> nat \<Rightarrow> log_message \<Rightarrow> log_usage \<Rightarrow> send_effect \<times> log_usage" where
  "send_log r cap message_size line_bytes m u =
     (case m of
        Control n \<Rightarrow> (Sent m, u)
      | _ \<Rightarrow>
          (let m' = redact_log r m;
               total = foldl (saturating_add usize_max) 0 (map cap (log_strings m'));
               charged = max (saturating_add usize_max total message_size) line_bytes
           in (case log_reserve charged u of
                 (Some permit, u') \<Rightarrow> (TrySent m' permit, u')
               | (None, u') \<Rightarrow> (Discarded, u'))))"

text \<open>
  The budget of queued log lines is exact and within its limits after any sequence of log
  messages and of permits dropped when the event loop has taken them.
\<close>

lemma log_budget_bounded:
  "log_accounted (fst (ledger_run log_reserve log_permit_drop ops (usage_default, [])))
     (snd (ledger_run log_reserve log_permit_drop ops (usage_default, [])))"
  by (rule log_ledger.run_accounted) (simp add: log_accounted_def usage_default_def)

lemma control_never_discarded: "fst (send_log r cap n k m u) = Discarded \<Longrightarrow> \<forall>i. m \<noteq> Control i"
  by (auto simp: send_log_def)

end
