(* ===== verification/Runtime_Commands.thy ===== *)
theory Runtime_Commands
  imports Clipboard_Transfer
begin

text \<open>
  \<open>src/runtime_commands.rs\<close>: running a container runtime's command with bounded input, bounded
  output and a deadline. The loop of \<open>capture_child_inner\<close> is a recursion over what its passes
  observe (the exit status of the child, the clock, the poll, one write and two reads). The
  child is owned: unless its exit status was collected, leaving the function kills its process
  group and the child itself.
\<close>

definition MAX_OUTPUT_BYTES :: nat where
  "MAX_OUTPUT_BYTES = 8 * 1024 * 1024"

definition MAX_INPUT_BYTES :: nat where
  "MAX_INPUT_BYTES = 1024 * 1024"

datatype command_error = Io string | TimedOut

record captured_output =
  co_status :: int
  co_stdout :: bytes
  co_stderr :: bytes

subsection \<open>One pipe\<close>

text \<open>An answer of \<open>read\<close>: bytes (none at the end of the file), an error worth a retry, or another error.\<close>

datatype pipe_read = Got bytes | ReadRetry | ReadError string

definition read_pipe :: "pipe_read \<Rightarrow> bool \<times> bytes \<Rightarrow> string + bool \<times> bytes" where
  "read_pipe answer pipe =
     (case pipe of (opened, data) \<Rightarrow>
        if \<not> opened then Inr (opened, data)
        else (case answer of
            Got chunk \<Rightarrow>
              if chunk = [] then Inr (False, data)
              else if MAX_OUTPUT_BYTES - length data < length chunk
              then Inl ''runtime output exceeds 8 MiB''
              else Inr (True, data @ chunk)
          | ReadRetry \<Rightarrow> Inr (opened, data)
          | ReadError e \<Rightarrow> Inl e))"

subsection \<open>The loop\<close>

datatype pipe_write = Put nat | WriteRetry | WriteError string

record revents =
  rv_invalid :: bool
  rv_stdin :: bool
  rv_stdout :: bool
  rv_stderr :: bool

datatype poll_outcome = PollError string | PollEintr | Polled revents

record capture_obs =
  ob_wait :: "string + int option"
  ob_now :: instant
  ob_poll :: poll_outcome
  ob_write :: pipe_write
  ob_out :: pipe_read
  ob_err :: pipe_read

record capture =
  cs_stdin :: bool
  cs_written :: nat
  cs_stdout :: "bool \<times> bytes"
  cs_stderr :: "bool \<times> bytes"

definition write_input :: "bytes \<Rightarrow> pipe_write \<Rightarrow> capture \<Rightarrow> command_error + capture" where
  "write_input input answer c =
     (if \<not> cs_stdin c then Inr c
      else (case answer of
          Put n \<Rightarrow>
            if n = 0 then Inl (Io ''write zero'')
            else Inr (c\<lparr>cs_written := cs_written c + n,
                        cs_stdin := (cs_written c + n \<noteq> length input)\<rparr>)
        | WriteRetry \<Rightarrow> Inr c
        | WriteError e \<Rightarrow> Inl (Io e)))"

definition io_result :: "string + 'a \<Rightarrow> command_error + 'a" where
  "io_result r = map_sum Io id r"

text \<open>The three descriptors after the poll: write, then read both outputs.\<close>

definition serve_pipes :: "bytes \<Rightarrow> revents \<Rightarrow> capture_obs \<Rightarrow> capture \<Rightarrow> command_error + capture" where
  "serve_pipes input rv ob c =
     (if rv_invalid rv then Inl (Io ''invalid input'')
      else and_then (if rv_stdin rv then write_input input (ob_write ob) c else Inr c) (\<lambda>c1.
        and_then (if rv_stdout rv then io_result (read_pipe (ob_out ob) (cs_stdout c1)) else Inr (cs_stdout c1))
          (\<lambda>out.
            and_then (if rv_stderr rv then io_result (read_pipe (ob_err ob) (cs_stderr c1)) else Inr (cs_stderr c1))
              (\<lambda>err. Inr (c1\<lparr>cs_stdout := out, cs_stderr := err\<rparr>)))))"

definition pipes_closed :: "capture \<Rightarrow> bool" where
  "pipes_closed c \<longleftrightarrow> \<not> cs_stdin c \<and> \<not> fst (cs_stdout c) \<and> \<not> fst (cs_stderr c)"

text \<open>One pass: a result (\<open>Inl\<close>) or the state of the next pass.\<close>

definition capture_pass ::
  "instant \<Rightarrow> bytes \<Rightarrow> capture_obs \<Rightarrow> capture \<Rightarrow> (command_error + captured_output) + capture" where
  "capture_pass deadline input ob c =
     (case (if pipes_closed c then ob_wait ob else Inr None) of
        Inl e \<Rightarrow> Inl (Inl (Io e))
      | Inr (Some status) \<Rightarrow>
          Inl (Inr \<lparr>co_status = status, co_stdout = snd (cs_stdout c), co_stderr = snd (cs_stderr c)\<rparr>)
      | Inr None \<Rightarrow>
          if deadline \<le> ob_now ob then Inl (Inl TimedOut)
          else if pipes_closed c then Inr c
          else (case ob_poll ob of
              PollEintr \<Rightarrow> Inr c
            | PollError e \<Rightarrow> Inl (Inl (Io e))
            | Polled rv \<Rightarrow>
                (case serve_pipes input rv ob c of Inl e \<Rightarrow> Inl (Inl e) | Inr c' \<Rightarrow> Inr c')))"

fun capture_loop ::
  "instant \<Rightarrow> bytes \<Rightarrow> capture_obs list \<Rightarrow> capture \<Rightarrow> (command_error + captured_output) option" where
  "capture_loop deadline input [] c = None"
| "capture_loop deadline input (ob # obs) c =
     (case capture_pass deadline input ob c of
        Inl r \<Rightarrow> Some r
      | Inr c' \<Rightarrow> capture_loop deadline input obs c')"

subsection \<open>The owned child\<close>

datatype signal = KillGroup nat | KillChild

text \<open>What became of the child when the function has returned.\<close>

datatype child_fate =
    Collected
  | Signalled "signal list"

definition drop_owned :: "bool \<Rightarrow> nat option \<Rightarrow> child_fate" where
  "drop_owned finished grp =
     (if finished then Collected
      else Signalled ((case grp of None \<Rightarrow> [] | Some g \<Rightarrow> [KillGroup g]) @ [KillChild]))"

text \<open>
  The wait of the destructor for the killed child: at most until \<open>reap_until\<close>; then a detached
  thread collects it. The answer is whether the child was handed to that thread.
\<close>

fun drop_wait :: "instant \<Rightarrow> (instant \<times> (string + int option)) list \<Rightarrow> bool option" where
  "drop_wait reap_until [] = None"
| "drop_wait reap_until ((now, answer) # obs) =
     (if reap_until \<le> now then Some True
      else (case answer of
          Inr (Some _) \<Rightarrow> Some False
        | Inr None \<Rightarrow> drop_wait reap_until obs
        | Inl _ \<Rightarrow> Some False))"

record spawned =
  sp_pid :: nat
  sp_pgid :: nat
  sp_stdin :: bool
  sp_stdout :: bool
  sp_stderr :: bool
  sp_nonblocking_error :: "string option"

definition capture_child_inner ::
  "spawned \<Rightarrow> bytes \<Rightarrow> instant \<Rightarrow> duration \<Rightarrow> capture_obs list
    \<Rightarrow> ((command_error + captured_output) \<times> child_fate) option" where
  "capture_child_inner child input now timeout obs =
     (let grp = (if sp_pgid child = sp_pid child then Some (sp_pid child) else None);
          failed = (\<lambda>e. Some (Inl (Io e), drop_owned False grp))
      in if \<not> sp_stdout child then failed ''runtime stdout must be piped''
         else if \<not> sp_stderr child then failed ''runtime stderr must be piped''
         else if input \<noteq> [] \<and> \<not> sp_stdin child then failed ''runtime stdin must be piped''
         else (case sp_nonblocking_error child of
             Some e \<Rightarrow> failed e
           | None \<Rightarrow>
               (case capture_loop (now + timeout) input obs
                       \<lparr>cs_stdin = (input \<noteq> []), cs_written = 0, cs_stdout = (True, []), cs_stderr = (True, [])\<rparr> of
                  None \<Rightarrow> None
                | Some r \<Rightarrow> Some (r, drop_owned (is_ok r) grp))))"

definition run_capture ::
  "(string + spawned) \<Rightarrow> bytes \<Rightarrow> instant \<Rightarrow> duration \<Rightarrow> capture_obs list
    \<Rightarrow> ((command_error + captured_output) \<times> child_fate option) option" where
  "run_capture spawn_result input now timeout obs =
     (if timeout = 0 then Some (Inl TimedOut, None)
      else if MAX_INPUT_BYTES < length input then Some (Inl (Io ''runtime input exceeds 1 MiB''), None)
      else (case spawn_result of
          Inl e \<Rightarrow> Some (Inl (Io e), None)
        | Inr child \<Rightarrow> map_option (map_prod id Some) (capture_child_inner child input now timeout obs)))"

subsection \<open>What a capture returns\<close>

fun until_eof :: "pipe_read list \<Rightarrow> bytes" where
  "until_eof [] = []"
| "until_eof (Got chunk # rs) = (if chunk = [] then [] else chunk @ until_eof rs)"
| "until_eof (_ # rs) = until_eof rs"

definition reads :: "(revents \<Rightarrow> bool) \<Rightarrow> (capture_obs \<Rightarrow> pipe_read) \<Rightarrow> capture_obs list \<Rightarrow> pipe_read list" where
  "reads ready answer obs =
     map (\<lambda>ob. case ob_poll ob of Polled rv \<Rightarrow> if ready rv then answer ob else ReadRetry | _ \<Rightarrow> ReadRetry) obs"

definition pipe_ok :: "pipe_read list \<Rightarrow> bool \<times> bytes \<Rightarrow> bool" where
  "pipe_ok rs pipe \<longleftrightarrow>
     snd pipe = until_eof rs \<and> length (snd pipe) \<le> MAX_OUTPUT_BYTES \<and> (Got [] \<in> set rs \<longleftrightarrow> \<not> fst pipe)"

lemma until_eof_append:
  "until_eof (rs @ qs) = (if Got [] \<in> set rs then until_eof rs else until_eof rs @ until_eof qs)"
  by (induction rs rule: until_eof.induct) auto

lemma read_pipe_ok:
  assumes ok: "pipe_ok rs pipe" and r: "read_pipe answer pipe = Inr pipe'"
  shows "pipe_ok (rs @ [answer]) pipe'"
proof (cases "fst pipe")
  case False
  with r have "pipe' = pipe" by (cases pipe) (simp add: read_pipe_def)
  with ok False show ?thesis by (auto simp: pipe_ok_def until_eof_append)
next
  case True
  with ok r show ?thesis
    by (cases pipe; cases answer) (auto simp: read_pipe_def pipe_ok_def until_eof_append split: if_splits)
qed

lemma pipe_ok_skip: "pipe_ok rs pipe \<Longrightarrow> pipe_ok (rs @ [ReadRetry]) pipe"
  by (auto simp: pipe_ok_def until_eof_append)

definition capture_ok :: "bytes \<Rightarrow> capture_obs list \<Rightarrow> capture \<Rightarrow> bool" where
  "capture_ok input past c \<longleftrightarrow>
     (cs_stdin c \<or> cs_written c = length input) \<and>
     pipe_ok (reads rv_stdout ob_out past) (cs_stdout c) \<and>
     pipe_ok (reads rv_stderr ob_err past) (cs_stderr c)"

lemma write_input_ok:
  "write_input input answer c = Inr c' \<Longrightarrow> cs_stdin c \<or> cs_written c = length input \<Longrightarrow>
   (cs_stdin c' \<or> cs_written c' = length input) \<and> cs_stdout c' = cs_stdout c \<and> cs_stderr c' = cs_stderr c"
  by (auto simp: write_input_def split: if_splits pipe_write.splits)

lemma served_pipe_ok:
  assumes "pipe_ok (reads ready answer past) pipe" and "ob_poll ob = Polled rv"
    and "(if ready rv then io_result (read_pipe (answer ob) pipe) else Inr pipe) = Inr pipe'"
  shows "pipe_ok (reads ready answer (past @ [ob])) pipe'"
  using assms
  by (cases "read_pipe (answer ob) pipe")
    (auto simp: reads_def io_result_def pipe_ok_skip intro: read_pipe_ok split: if_splits)

lemma pipe_ok_idle:
  assumes "pipe_ok (reads ready answer past) pipe" and "\<not> fst pipe \<or> ob_poll ob = PollEintr"
  shows "pipe_ok (reads ready answer (past @ [ob])) pipe"
  using assms by (auto simp: reads_def pipe_ok_def until_eof_append split: poll_outcome.split)

lemma pass_ok:
  assumes ok: "capture_ok input past c" and p: "capture_pass deadline input ob c = Inr c'"
  shows "capture_ok input (past @ [ob]) c'"
proof (cases "c' = c \<and> (pipes_closed c \<or> ob_poll ob = PollEintr)")
  case True
  with ok show ?thesis by (auto simp: capture_ok_def pipes_closed_def intro!: pipe_ok_idle)
next
  case False
  then obtain rv where rv: "ob_poll ob = Polled rv" and s: "serve_pipes input rv ob c = Inr c'"
    using p by (auto simp: capture_pass_def split: if_splits sum.splits option.splits poll_outcome.splits)
  obtain c1 out err where
    c1: "(if rv_stdin rv then write_input input (ob_write ob) c else Inr c) = Inr c1"
    and out: "(if rv_stdout rv then io_result (read_pipe (ob_out ob) (cs_stdout c1)) else Inr (cs_stdout c1)) = Inr out"
    and err: "(if rv_stderr rv then io_result (read_pipe (ob_err ob) (cs_stderr c1)) else Inr (cs_stderr c1)) = Inr err"
    and c': "c' = c1\<lparr>cs_stdout := out, cs_stderr := err\<rparr>"
    using s
    by (cases "rv_invalid rv"; simp only: serve_pipes_def if_True if_False and_then_Inr sum.distinct sum.inject; blast)
  have w: "(cs_stdin c1 \<or> cs_written c1 = length input) \<and> cs_stdout c1 = cs_stdout c \<and> cs_stderr c1 = cs_stderr c"
    using c1 ok write_input_ok [of input "ob_write ob" c c1] by (auto simp: capture_ok_def split: if_splits)
  have "pipe_ok (reads rv_stdout ob_out (past @ [ob])) out" "pipe_ok (reads rv_stderr ob_err (past @ [ob])) err"
    using served_pipe_ok [where ready = rv_stdout and answer = ob_out, OF _ rv out]
      served_pipe_ok [where ready = rv_stderr and answer = ob_err, OF _ rv err] ok w
    by (simp_all add: capture_ok_def)
  with w c' show ?thesis by (simp add: capture_ok_def)
qed

lemma loop_ok:
  assumes "capture_ok input past c" and "capture_loop deadline input obs c = Some (Inr o')"
  shows "\<exists>k < length obs. \<exists>ob c'. ob = obs ! k \<and> capture_ok input (past @ take k obs) c' \<and> pipes_closed c' \<and>
    ob_wait ob = Inr (Some (co_status o')) \<and>
    co_stdout o' = snd (cs_stdout c') \<and> co_stderr o' = snd (cs_stderr c')"
  using assms
proof (induction obs arbitrary: past c)
  case Nil
  then show ?case by simp
next
  case (Cons ob obs)
  show ?case
  proof (cases "capture_pass deadline input ob c")
    case (Inl r)
    with Cons.prems(2) have "pipes_closed c \<and> ob_wait ob = Inr (Some (co_status o')) \<and>
        co_stdout o' = snd (cs_stdout c) \<and> co_stderr o' = snd (cs_stderr c)"
      by (auto simp: capture_pass_def split: if_splits sum.splits option.splits poll_outcome.splits)
    with Cons.prems(1) show ?thesis by (intro exI [of _ 0]) auto
  next
    case (Inr c1)
    with Cons.prems(2) have "capture_loop deadline input obs c1 = Some (Inr o')" by simp
    from Cons.IH [OF pass_ok [OF Cons.prems(1) Inr] this] show ?thesis
      by (elim exE conjE) (rule_tac x = "Suc k" in exI, auto)
  qed
qed

lemma loop_ends:
  "list_ex (\<lambda>ob. deadline \<le> ob_now ob) obs \<Longrightarrow> capture_loop deadline input obs c \<noteq> None"
proof (induction obs arbitrary: c)
  case (Cons ob obs)
  show ?case
  proof (cases "capture_pass deadline input ob c")
    case (Inr c1)
    then have "\<not> deadline \<le> ob_now ob"
      by (auto simp: capture_pass_def split: if_splits sum.splits option.splits poll_outcome.splits)
    with Cons Inr show ?thesis by simp
  qed simp
qed simp

text \<open>
  A capture that succeeds has collected the child's exit status, written all of the input,
  and returns exactly the bytes both output pipes delivered up to their end of file, at most
  8 MiB each. A capture that fails after the child was spawned has killed the child, and its
  process group when the child leads one. The capture ends: once the clock has passed the
  deadline at some pass it has returned.
\<close>
theorem capture_exact_and_owned:
  assumes child: "sp_stdout child" "sp_stderr child" "input = [] \<or> sp_stdin child"
    "sp_nonblocking_error child = None"
  shows "case capture_child_inner child input now timeout obs of
      None \<Rightarrow> list_all (\<lambda>ob. ob_now ob < now + timeout) obs
    | Some (Inr o', fate) \<Rightarrow> fate = Collected \<and>
        (\<exists>k < length obs. ob_wait (obs ! k) = Inr (Some (co_status o')) \<and>
          co_stdout o' = until_eof (reads rv_stdout ob_out (take k obs)) \<and>
          Got [] \<in> set (reads rv_stdout ob_out (take k obs)) \<and>
          co_stderr o' = until_eof (reads rv_stderr ob_err (take k obs)) \<and>
          Got [] \<in> set (reads rv_stderr ob_err (take k obs))) \<and>
        length (co_stdout o') \<le> 8 * 1024 * 1024 \<and> length (co_stderr o') \<le> 8 * 1024 * 1024
    | Some (Inl e, fate) \<Rightarrow>
        fate = Signalled ((if sp_pgid child = sp_pid child then [KillGroup (sp_pid child)] else []) @ [KillChild])"
proof -
  let ?c = "\<lparr>cs_stdin = (input \<noteq> []), cs_written = 0, cs_stdout = (True, []), cs_stderr = (True, [])\<rparr>"
  let ?l = "capture_loop (now + timeout) input obs ?c"
  have run: "capture_child_inner child input now timeout obs =
      map_option (\<lambda>r. (r, drop_owned (is_ok r) (if sp_pgid child = sp_pid child then Some (sp_pid child) else None))) ?l"
    using child by (auto simp: capture_child_inner_def Let_def split: option.split)
  have ok: "capture_ok input [] ?c" by (simp add: capture_ok_def pipe_ok_def reads_def)
  show ?thesis
  proof (cases ?l)
    case None
    then have "\<not> list_ex (\<lambda>ob. now + timeout \<le> ob_now ob) obs"
      using loop_ends [of "now + timeout" obs input ?c] by blast
    with None run show ?thesis by (simp add: list_all_iff list_ex_iff not_le)
  next
    case (Some r)
    show ?thesis
    proof (cases r)
      case (Inl e)
      with Some run show ?thesis by (simp add: drop_owned_def)
    next
      case (Inr o')
      with Some loop_ok [OF ok, of "now + timeout" obs o'] obtain k c' where
        k: "k < length obs" "capture_ok input (take k obs) c'" "pipes_closed c'"
          "ob_wait (obs ! k) = Inr (Some (co_status o'))"
          "co_stdout o' = snd (cs_stdout c')" "co_stderr o' = snd (cs_stderr c')"
        by auto
      then have "length (co_stdout o') \<le> 8 * 1024 * 1024" "length (co_stderr o') \<le> 8 * 1024 * 1024"
        by (auto simp: capture_ok_def pipe_ok_def MAX_OUTPUT_BYTES_def)
      with k Some Inr run show ?thesis
        by (auto simp: drop_owned_def capture_ok_def pipe_ok_def pipes_closed_def)
    qed
  qed
qed

text \<open>A command that prints two bytes, closes its pipes and exits.\<close>

definition demo_child :: spawned where
  "demo_child = \<lparr>sp_pid = 40, sp_pgid = 40, sp_stdin = False, sp_stdout = True, sp_stderr = True,
     sp_nonblocking_error = None\<rparr>"

definition demo_obs :: "pipe_read \<Rightarrow> pipe_read \<Rightarrow> capture_obs" where
  "demo_obs out err = \<lparr>ob_wait = Inr (Some 0), ob_now = 1,
     ob_poll = Polled \<lparr>rv_invalid = False, rv_stdin = False, rv_stdout = True, rv_stderr = True\<rparr>,
     ob_write = WriteRetry, ob_out = out, ob_err = err\<rparr>"

definition demo_observations :: "capture_obs list" where
  "demo_observations =
     [demo_obs (Got [7, 8]) ReadRetry, demo_obs (Got []) (Got []), demo_obs ReadRetry ReadRetry]"

lemma demo_capture:
  "capture_child_inner demo_child [] 0 10 demo_observations =
   Some (Inr \<lparr>co_status = 0, co_stdout = [7, 8], co_stderr = []\<rparr>, Collected)"
  by (simp add: capture_child_inner_def demo_child_def demo_observations_def demo_obs_def capture_pass_def
      pipes_closed_def serve_pipes_def read_pipe_def io_result_def MAX_OUTPUT_BYTES_def drop_owned_def Let_def)

theorem capture_exact_and_owned_witness:
  "sp_stdout demo_child \<and>
   (\<exists>k < length demo_observations.
      [7, 8] = until_eof (reads rv_stdout ob_out (take k demo_observations)))"
  using capture_exact_and_owned [of demo_child "[]" 0 10 demo_observations] demo_capture
  by (auto simp: demo_child_def)

end
