(* ===== verification/Wayland_Source.thy ===== *)
theory Wayland_Source
  imports Prelude
begin

text \<open>
  \<open>src/wayland_source.rs\<close>: the readiness thread that polls the Wayland sockets and wakes the event
  loop, and the operations of the event loop on it. One pass of the thread is four events, the
  snapshot before the poll, the return of the poll with the accepts, the look at the blocked
  clients, and the wake, so that the operations of the event loop fall between them in any
  order. Client identifiers are numbers; what the kernel answers to a poll and to
  an accept, and whether the event loop proxy accepts a wake, are arguments of the events.
\<close>

definition MAX_ACCEPTS_PER_PASS :: nat where
  "MAX_ACCEPTS_PER_PASS = 32"

subsection \<open>State\<close>

text \<open>
  The thread is at the top of its loop, in its poll (with the value of \<open>armed\<close> it read and the
  clients whose write readiness it waits for), past its accepts (with what is ready and the
  clients reported writable), past its last look at the clients, or has left the loop.
\<close>

datatype thread_phase = Top | Polling bool "nat set" | Accepted bool "nat set" | Served bool | Exited

record source =
  so_armed :: bool
  so_stopping :: bool
  so_recorded :: bool
  so_message :: "string option"
  so_control :: nat
  so_clients :: "nat set"
  so_blocked :: "nat set"
  so_phase :: thread_phase
  so_woken :: bool

text \<open>\<open>so_control\<close>: unread bytes of the control socket; \<open>so_woken\<close>: a wake was issued since the last \<open>rearm\<close>.\<close>

definition source_new :: source where
  "source_new =
     \<lparr>so_armed = True, so_stopping = False, so_recorded = False, so_message = None, so_control = 0,
      so_clients = {}, so_blocked = {}, so_phase = Top, so_woken = False\<rparr>"

subsection \<open>Failures\<close>

definition record_failure :: "string \<Rightarrow> source \<Rightarrow> bool \<times> source" where
  "record_failure message s =
     (if so_stopping s \<or> so_recorded s then (False, s)
      else (True, s\<lparr>so_recorded := True, so_message := Some message\<rparr>))"

definition fail :: "bool \<Rightarrow> string \<Rightarrow> source \<Rightarrow> source" where
  "fail wake_ok message s =
     (case record_failure message s of
        (True, s') \<Rightarrow> s'\<lparr>so_woken := so_woken s' \<or> wake_ok\<rparr>
      | (False, s') \<Rightarrow> s')"

definition take_failure :: "source \<Rightarrow> string option \<times> source" where
  "take_failure s = (so_message s, s\<lparr>so_message := None\<rparr>)"

text \<open>
  \<open>retry_interrupted\<close> over the answers of the operation: interrupted answers (\<open>None\<close>) are retried
  unless the source is stopping; \<open>Inr None\<close> means that it stopped. The answers are what the
  operation returns on each call; with no answer left the call is still running.
\<close>

fun retry_interrupted :: "bool \<Rightarrow> (string + 'a) option list \<Rightarrow> (string + 'a option) option" where
  "retry_interrupted stopping [] = (if stopping then Some (Inr None) else None)"
| "retry_interrupted stopping (answer # answers) =
     (if stopping then Some (Inr None)
      else (case answer of
          None \<Rightarrow> retry_interrupted stopping answers
        | Some (Inl e) \<Rightarrow> Some (Inl e)
        | Some (Inr x) \<Rightarrow> Some (Inr (Some x))))"

subsection \<open>The thread\<close>

definition exit_thread :: "source \<Rightarrow> source" where
  "exit_thread s = s\<lparr>so_phase := Exited\<rparr>"

definition watched :: "source \<Rightarrow> nat set" where
  "watched s = so_blocked s \<inter> so_clients s"

definition thread_top :: "source \<Rightarrow> source" where
  "thread_top s =
     (if so_stopping s then exit_thread s
      else s\<lparr>so_phase := Polling (so_armed s) (if so_armed s then watched s else {})\<rparr>)"

text \<open>What one poll reports. Descriptors the thread did not pass (\<open>-1\<close>) report nothing.\<close>

record poll_report =
  pr_invalid :: bool
  pr_control :: bool
  pr_listener :: bool
  pr_display :: bool
  pr_writable :: "nat set"

text \<open>One accept: a client was registered, the listener is drained, or an error.\<close>

datatype accepted = NewClient nat | Drained

fun accept_clients ::
  "nat \<Rightarrow> bool \<Rightarrow> (string + accepted) option list list \<Rightarrow> nat set \<Rightarrow> (string option + unit) \<times> nat set" where
  "accept_clients 0 stopping calls cs = (Inr (), cs)"
| "accept_clients (Suc n) stopping [] cs = (Inr (), cs)"
| "accept_clients (Suc n) stopping (answers # calls) cs =
     (case retry_interrupted stopping answers of
        Some (Inr (Some (NewClient c))) \<Rightarrow> accept_clients n stopping calls (insert c cs)
      | Some (Inr (Some Drained)) \<Rightarrow> (Inr (), cs)
      | Some (Inr None) \<Rightarrow> (Inl None, cs)
      | Some (Inl e) \<Rightarrow> (Inl (Some e), cs)
      | None \<Rightarrow> (Inr (), cs))"

text \<open>The poll has returned: failures, the control socket, new clients.\<close>

definition thread_polled ::
  "bool \<Rightarrow> (string + poll_report) option \<Rightarrow> (string + accepted) option list list \<Rightarrow> source \<Rightarrow> source" where
  "thread_polled wake_ok answer calls s =
     (case so_phase s of
        Polling armed writable \<Rightarrow>
          (case answer of
             None \<Rightarrow> if so_stopping s then exit_thread s else s
           | Some (Inl e) \<Rightarrow> exit_thread (fail wake_ok (''Wayland readiness wait failed: '' @ e) s)
           | Some (Inr r) \<Rightarrow>
               if so_stopping s then exit_thread s
               else if pr_invalid r
               then exit_thread (fail wake_ok ''Wayland readiness poll reported an invalid or closed source'' s)
               else
                 (let s1 = (if pr_control r then s\<lparr>so_control := 0\<rparr> else s)
                  in (case (if pr_listener r
                            then accept_clients MAX_ACCEPTS_PER_PASS (so_stopping s1) calls (so_clients s1)
                            else (Inr (), so_clients s1)) of
                        (Inl (Some e), cs) \<Rightarrow>
                          exit_thread (fail wake_ok (''Wayland accept failed: '' @ e) (s1\<lparr>so_clients := cs\<rparr>))
                      | (Inl None, cs) \<Rightarrow> exit_thread (s1\<lparr>so_clients := cs\<rparr>)
                      | (Inr _, cs) \<Rightarrow>
                          s1\<lparr>so_clients := cs,
                             so_phase := Accepted ((armed \<and> pr_display r) \<or> pr_listener r) (pr_writable r \<inter> writable)\<rparr>)))
      | _ \<Rightarrow> s)"

definition thread_ready :: "source \<Rightarrow> source" where
  "thread_ready s =
     (case so_phase s of
        Accepted ready reported \<Rightarrow> s\<lparr>so_phase := Served (ready \<or> reported \<inter> watched s \<noteq> {})\<rparr>
      | _ \<Rightarrow> s)"

text \<open>The wake: only the swap that disarms the source notifies the event loop.\<close>

definition thread_wake :: "bool \<Rightarrow> source \<Rightarrow> source" where
  "thread_wake wake_ok s =
     (case so_phase s of
        Served ready \<Rightarrow>
          if ready \<and> \<not> so_stopping s then
            (let s1 = s\<lparr>so_armed := False\<rparr>
             in if \<not> so_armed s then s1\<lparr>so_phase := Top\<rparr>
                else if wake_ok then s1\<lparr>so_phase := Top, so_woken := True\<rparr>
                else exit_thread
                  (snd (record_failure ''Wayland readiness wake callback rejected notification'' s1)))
          else s\<lparr>so_phase := Top\<rparr>
      | _ \<Rightarrow> s)"

subsection \<open>The event loop\<close>

text \<open>
  \<open>notify\<close> writes one byte to the control socket. A full socket already makes the poll return;
  after the thread has left the write has no effect.
\<close>

definition notify :: "nat \<Rightarrow> source \<Rightarrow> source" where
  "notify room s =
     (if so_phase s = Exited then s
      else if so_control s < room then s\<lparr>so_control := so_control s + 1\<rparr> else s)"

definition set_output_interest :: "nat \<Rightarrow> nat set \<Rightarrow> nat set \<Rightarrow> nat set \<Rightarrow> source \<Rightarrow> source" where
  "set_output_interest room active blocked backend s =
     (let removed = so_clients s - active - backend;
          blocked' = blocked \<inter> active;
          clients' = so_clients s - removed;
          s1 = s\<lparr>so_clients := clients', so_blocked := blocked'\<rparr>
      in if clients' \<noteq> so_clients s \<or> so_blocked s \<noteq> blocked' then notify room s1 else s1)"

definition rearm :: "nat \<Rightarrow> source \<Rightarrow> source" where
  "rearm room s =
     (let s1 = s\<lparr>so_armed := True, so_woken := False\<rparr>
      in if so_armed s then s1 else notify room s1)"

text \<open>\<open>stop\<close> until the join: afterwards the thread has left and the tables are cleared.\<close>

definition stop :: "nat \<Rightarrow> source \<Rightarrow> source" where
  "stop room s = notify room (s\<lparr>so_stopping := True\<rparr>)"

definition stop_joined :: "source \<Rightarrow> source" where
  "stop_joined s =
     (if so_stopping s \<and> so_phase s = Exited then s\<lparr>so_clients := {}, so_blocked := {}\<rparr> else s)"

subsection \<open>Runs\<close>

datatype source_event =
    ThreadTop
  | ThreadPolled bool "(string + poll_report) option" "(string + accepted) option list list"
  | ThreadReady
  | ThreadWake bool
  | SetInterest "nat set" "nat set" "nat set"
  | Rearm
  | TakeFailure
  | Stop
  | StopJoined

fun source_step :: "nat \<Rightarrow> source_event \<Rightarrow> source \<Rightarrow> source" where
  "source_step room ThreadTop s = (if so_phase s = Top then thread_top s else s)"
| "source_step room (ThreadPolled ok answer calls) s = thread_polled ok answer calls s"
| "source_step room ThreadReady s = thread_ready s"
| "source_step room (ThreadWake ok) s = thread_wake ok s"
| "source_step room (SetInterest active blocked backend) s = set_output_interest room active blocked backend s"
| "source_step room Rearm s = rearm room s"
| "source_step room TakeFailure s = snd (take_failure s)"
| "source_step room Stop s = stop room s"
| "source_step room StopJoined s = stop_joined s"

definition source_inv :: "source \<Rightarrow> bool" where
  "source_inv s \<longleftrightarrow>
     (\<forall>armed writable. so_phase s = Polling armed writable \<longrightarrow>
        0 < so_control s \<or> (armed \<longrightarrow> writable = watched s) \<and> (so_armed s \<longrightarrow> armed)) \<and>
     (\<not> so_armed s \<and> so_phase s \<noteq> Exited \<longrightarrow> so_woken s) \<and>
     (so_phase s = Exited \<and> \<not> so_stopping s \<longrightarrow> so_recorded s)"

lemma notify_fields [simp]:
  "so_armed (notify room s) = so_armed s" "so_stopping (notify room s) = so_stopping s"
  "so_recorded (notify room s) = so_recorded s" "so_phase (notify room s) = so_phase s"
  "so_woken (notify room s) = so_woken s" "watched (notify room s) = watched s"
  by (simp_all add: notify_def watched_def)

lemma notify_pending: "0 < room \<Longrightarrow> so_phase s \<noteq> Exited \<Longrightarrow> 0 < so_control (notify room s)"
  by (simp add: notify_def)

lemma inv_top: "source_inv s \<Longrightarrow> so_phase s = Top \<Longrightarrow> source_inv (thread_top s)"
  by (auto simp: source_inv_def thread_top_def exit_thread_def watched_def)

lemma inv_exit_failed:
  "source_inv (exit_thread (fail ok m s))"
  by (auto simp: source_inv_def exit_thread_def fail_def record_failure_def)

lemma inv_exit_stopped: "so_stopping s \<Longrightarrow> source_inv (exit_thread s)"
  by (simp add: source_inv_def exit_thread_def)

lemma retry_not_stopped: "retry_interrupted False answers \<noteq> Some (Inr None)"
  by (induction answers) (auto split: option.splits sum.splits)

lemma accept_not_stopped: "accept_clients n False calls cs \<noteq> (Inl None, cs')"
proof (induction n False calls cs rule: accept_clients.induct)
  case (3 n answers calls cs)
  then show ?case using retry_not_stopped [of answers]
    by (auto split: option.splits sum.splits accepted.splits)
qed auto

lemma inv_polled:
  assumes inv: "source_inv s"
  shows "source_inv (thread_polled ok answer calls s)"
proof (cases "so_phase s")
  case (Polling armed writable)
  show ?thesis
  proof (cases "so_stopping s")
    case True
    with Polling inv show ?thesis
      by (auto simp: thread_polled_def fail_def record_failure_def intro: inv_exit_stopped
          split: option.split sum.split)
  next
    case False
    have served: "source_inv (s\<lparr>so_control := 0, so_clients := cs, so_phase := Accepted r ws\<rparr>)"
        "source_inv (s\<lparr>so_clients := cs, so_phase := Accepted r ws\<rparr>)" for cs r ws
      using inv Polling by (simp_all add: source_inv_def)
    have kept: "source_inv (s\<lparr>so_control := 0, so_phase := Accepted r ws\<rparr>)" "source_inv (s\<lparr>so_phase := Accepted r ws\<rparr>)"
      for r ws using inv Polling by (simp_all add: source_inv_def)
    show ?thesis
    proof (cases answer)
      case None
      with Polling False inv show ?thesis by (simp add: thread_polled_def)
    next
      case (Some a)
      with Polling False served kept accept_not_stopped [of MAX_ACCEPTS_PER_PASS calls "so_clients s"] show ?thesis
        by (auto simp: thread_polled_def Let_def intro: inv_exit_failed split: option.split sum.split prod.split)
    qed
  qed
qed (use inv in \<open>simp_all add: thread_polled_def\<close>)

lemma inv_ready: "source_inv s \<Longrightarrow> source_inv (thread_ready s)"
  by (auto simp: source_inv_def thread_ready_def split: thread_phase.splits)

lemma inv_wake: "source_inv s \<Longrightarrow> source_inv (thread_wake ok s)"
  by (auto simp: source_inv_def thread_wake_def Let_def exit_thread_def record_failure_def
      split: thread_phase.splits)

lemma inv_interest:
  assumes "source_inv s" and "0 < room"
  shows "source_inv (set_output_interest room active blocked backend s)"
  using assms notify_pending [OF assms(2)]
  by (auto simp: set_output_interest_def Let_def source_inv_def watched_def notify_def)

lemma inv_rearm:
  assumes "source_inv s" and "0 < room"
  shows "source_inv (rearm room s)"
  using assms notify_pending [OF assms(2), of "s\<lparr>so_armed := True, so_woken := False\<rparr>"]
  by (auto simp: rearm_def Let_def source_inv_def watched_def)

lemma source_step_inv [step_inv]:
  assumes "source_inv s" and "0 < room"
  shows "source_inv (source_step room e s)"
proof (cases e)
  case Stop
  with assms show ?thesis by (auto simp: stop_def source_inv_def watched_def notify_def)
next
  case StopJoined
  with assms show ?thesis by (auto simp: stop_joined_def source_inv_def)
next
  case TakeFailure
  with assms show ?thesis by (auto simp: take_failure_def source_inv_def watched_def)
qed (use assms in \<open>simp_all add: inv_top inv_polled inv_ready inv_wake inv_interest inv_rearm\<close>)

interpretation readiness: invariant_component "source_step (Suc room)" source_new source_inv
  for room
proof unfold_locales
  show "source_inv source_new" by (simp add: source_inv_def source_new_def)
qed (simp add: source_step_inv)


definition demo_source_events :: "source_event list" where
  "demo_source_events =
     [ThreadTop,
      ThreadPolled True (Some (Inr \<lparr>pr_invalid = False, pr_control = False, pr_listener = True, pr_display = False, pr_writable = {}\<rparr>))
        [[None, Some (Inr (NewClient 4))], [Some (Inr Drained)]],
      ThreadReady, ThreadWake True, ThreadTop, SetInterest {4} {4} {4}, Rearm]"


end
