(* ===== verification/Profile_Config.thy ===== *)
theory Profile_Config
  imports Profile_Leases
begin

text \<open>
  \<open>src/profile_config.rs\<close>: the transactions on the file of application profiles. The TOML library
  is a parameter: parsing and printing a document, decoding the sessions of a printed document,
  and the item under its \<open>session\<close> key. A table maps keys to items; the decoration of values and
  the positions that only order the printed tables are not modelled.
  The second half is the protocol on the shared file: the advisory lock, the temporary file, the
  check for edits of other programs and the rename, with any interleaving of processes.
\<close>

subsection \<open>Documents\<close>

datatype item = ItemStr string | ItemOther string

fun as_str :: "item \<Rightarrow> string option" where
  "as_str (ItemStr s) = Some s"
| "as_str (ItemOther _) = None"

type_synonym table = "(string \<times> item) list"

text \<open>The item under \<open>session\<close>; an inline array may consist of inline tables only, or not.\<close>

datatype session_item = ArrayOfTables "table list" | InlineArray "table list option" | OtherSession

record ('d, 's) toml =
  tm_parse :: "string \<Rightarrow> 'd option"
  tm_print :: "'d \<Rightarrow> string"
  tm_decode :: "string \<Rightarrow> string + 's list"
  tm_session :: "'d \<Rightarrow> session_item option"
  tm_set_tables :: "table list \<Rightarrow> 'd \<Rightarrow> 'd"

definition MAX_CONFIG_BYTES :: nat where
  "MAX_CONFIG_BYTES = 1024 * 1024"

definition table_insert :: "string \<Rightarrow> item \<Rightarrow> table \<Rightarrow> table" where
  "table_insert k v t =
     (if map_of t k = None then t @ [(k, v)] else map (\<lambda>(k', w). if k' = k then (k', v) else (k', w)) t)"

definition table_remove :: "string \<Rightarrow> table \<Rightarrow> table" where
  "table_remove k t = filter (\<lambda>(k', _). k' \<noteq> k) t"

definition decode :: "('d, 's) toml \<Rightarrow> 'd \<Rightarrow> string + 's list" where
  "decode tm d = tm_decode tm (tm_print tm d)"

definition tables :: "('d, 's) toml \<Rightarrow> 'd \<Rightarrow> string + table list" where
  "tables tm d =
     (case tm_session tm d of
        None \<Rightarrow> Inr []
      | Some (ArrayOfTables ts) \<Rightarrow> Inr ts
      | Some (InlineArray inline) \<Rightarrow> ok_or ''session must be an array of tables'' inline
      | Some OtherSession \<Rightarrow> Inl ''session must be an array of tables'')"

subsection \<open>Identities\<close>

fun validate_ids :: "('s \<Rightarrow> profile_id) \<Rightarrow> profile_id list \<Rightarrow> 's list \<Rightarrow> string + profile_id list" where
  "validate_ids sid seen [] = Inr seen"
| "validate_ids sid seen (s # ss) =
     (if is_saved (sid s) then
        (if sid s \<in> set seen
         then Inl (''duplicate profile ID '' @ profile_id_fmt (sid s) @
                   ''; assign a fresh ID to the copied profile'')
         else validate_ids sid (sid s # seen) ss)
      else validate_ids sid seen ss)"

text \<open>
  The loops that draw an identity: \<open>draws\<close> are the outcomes of \<open>ProfileId::new\<close>. \<open>None\<close>: the
  outcomes given end before the loop does.
\<close>

type_synonym draws = "(string + profile_id) list"

fun draw_fresh :: "profile_id list \<Rightarrow> draws \<Rightarrow> (string + profile_id \<times> draws) option" where
  "draw_fresh seen [] = None"
| "draw_fresh seen (Inl e # ds) = Some (Inl e)"
| "draw_fresh seen (Inr i # ds) = (if i \<in> set seen then draw_fresh seen ds else Some (Inr (i, ds)))"

fun assign_ids ::
  "profile_id list \<Rightarrow> draws \<Rightarrow> table list \<Rightarrow> (string + table list \<times> draws) option" where
  "assign_ids seen ds [] = Some (Inr ([], ds))"
| "assign_ids seen ds (t # ts) =
     (if map_of t ''id'' \<noteq> None then
        map_option (map_sum id (map_prod ((#) t) id)) (assign_ids seen ds ts)
      else (case draw_fresh seen ds of
          None \<Rightarrow> None
        | Some (Inl e) \<Rightarrow> Some (Inl e)
        | Some (Inr (i, ds')) \<Rightarrow>
            map_option (map_sum id (map_prod ((#) (table_insert ''id'' (ItemStr (profile_id_fmt i)) t)) id))
              (assign_ids (i # seen) ds' ts)))"

definition migrate ::
  "('d, 's) toml \<Rightarrow> ('s \<Rightarrow> profile_id) \<Rightarrow> draws \<Rightarrow> 'd \<Rightarrow> (string + 'd \<times> draws) option" where
  "migrate tm sid ds d =
     (case and_then (decode tm d) (\<lambda>ss. and_then (validate_ids sid [] ss) (\<lambda>seen. Inr (ss, seen))) of
        Inl e \<Rightarrow> Some (Inl e)
      | Inr (ss, seen) \<Rightarrow>
          if list_all (\<lambda>s. is_saved (sid s)) ss then Some (Inr (d, ds))
          else (case tables tm d of
              Inl e \<Rightarrow> Some (Inl e)
            | Inr ts \<Rightarrow>
                map_option (map_sum id (\<lambda>(ts', ds'). (tm_set_tables tm ts' d, ds'))) (assign_ids seen ds ts)))"

subsection \<open>Operations on the document\<close>

definition has_id :: "profile_id \<Rightarrow> table \<Rightarrow> bool" where
  "has_id i t \<longleftrightarrow> Option.bind (map_of t ''id'') as_str = Some (profile_id_fmt i)"

definition table_position :: "profile_id \<Rightarrow> table list \<Rightarrow> string + nat" where
  "table_position i ts =
     ok_or (''profile '' @ profile_id_fmt i @ '' no longer exists'')
       (position (has_id i) ts)"

definition PROFILE_KEYS :: "string list" where
  "PROFILE_KEYS =
     [''name'', ''runtime'', ''image'', ''display'', ''presentation'', ''profile'', ''command'', ''app'',
      ''socket'', ''container_socket'', ''waypipe_path'', ''waypipe_compress'', ''waypipe_threads'',
      ''audio'', ''runtime_args'', ''mounts'', ''env'']"

text \<open>Copy the known keys of the serialized profile, remove those it lacks.\<close>

definition copy_key :: "table \<Rightarrow> string \<Rightarrow> table \<Rightarrow> table" where
  "copy_key known k t =
     (case map_of known k of Some item \<Rightarrow> table_insert k item t | None \<Rightarrow> table_remove k t)"

definition copy_keys :: "string list \<Rightarrow> table \<Rightarrow> table \<Rightarrow> table" where
  "copy_keys ks known t = fold (copy_key known) ks t"

text \<open>
  \<open>serialized i\<close> is the table that \<open>session_to_toml\<close> gives for the profile with the identity \<open>i\<close>;
  \<open>name_ok\<close> is \<open>validate_profile_name\<close>.
\<close>

definition append_profile ::
  "('d, 's) toml \<Rightarrow> ('s \<Rightarrow> profile_id) \<Rightarrow> ('s list \<Rightarrow> string + unit) \<Rightarrow> profile_id \<Rightarrow> (profile_id \<Rightarrow> table)
    \<Rightarrow> draws \<Rightarrow> 'd \<Rightarrow> (string + (profile_id \<times> 'd) \<times> draws) option" where
  "append_profile tm sid name_ok source serialized ds d =
     (case and_then (decode tm d) (\<lambda>ss. and_then (name_ok ss) (\<lambda>_. Inr ss)) of
        Inl e \<Rightarrow> Some (Inl e)
      | Inr ss \<Rightarrow>
          (case draw_fresh (map sid ss) ds of
             None \<Rightarrow> None
           | Some (Inl e) \<Rightarrow> Some (Inl e)
           | Some (Inr (i, ds')) \<Rightarrow>
               (case tables tm d of
                  Inl e \<Rightarrow> Some (Inl e)
                | Inr ts \<Rightarrow>
                    (let known = serialized i;
                         t = (case find (has_id source) ts of
                                Some t \<Rightarrow> t | None \<Rightarrow> known)
                     in Some (Inr ((i, tm_set_tables tm (ts @ [copy_keys (''id'' # PROFILE_KEYS) known t]) d), ds'))))))"

definition replace_profile ::
  "('d, 's) toml \<Rightarrow> ('s list \<Rightarrow> string + unit) \<Rightarrow> profile_id \<Rightarrow> profile_id \<Rightarrow> table \<Rightarrow> 'd \<Rightarrow> string + 'd" where
  "replace_profile tm name_ok i session_id replacement d =
     and_then (tables tm d) (\<lambda>ts.
       and_then (table_position i ts) (\<lambda>index.
         if is_saved session_id \<and> session_id \<noteq> i
         then Inl ''a profile's persistent ID cannot be changed by an edit''
         else and_then (decode tm d) (\<lambda>ss.
           and_then (name_ok ss) (\<lambda>_.
             Inr (tm_set_tables tm (ts[index := copy_keys PROFILE_KEYS replacement (ts ! index)]) d)))))"

definition remove_profile :: "('d, 's) toml \<Rightarrow> profile_id \<Rightarrow> 'd \<Rightarrow> string + 'd" where
  "remove_profile tm i d =
     and_then (tables tm d) (\<lambda>ts.
       and_then (table_position i ts) (\<lambda>index. Inr (tm_set_tables tm (remove_at index ts) d)))"

subsection \<open>The transaction\<close>

definition initial_config :: string where
  "initial_config =
     ''# cocoa-way container sessions'' @ [CHR 0x0A] @ ''# Container Mode owns local Linux GUI sessions.'' @ [CHR 0x0A] @
     ''# [[session]]'' @ [CHR 0x0A] @ ''# name = '' @ [CHR 0x22] @ ''Example'' @ [CHR 0x22, CHR 0x0A] @
     ''# image = '' @ [CHR 0x22] @ ''example:latest'' @ [CHR 0x22, CHR 0x0A]"

text \<open>What a transaction makes of the content it read, before anything is written.\<close>

definition compute_update ::
  "('d, 's) toml \<Rightarrow> ('s \<Rightarrow> profile_id) \<Rightarrow> (draws \<Rightarrow> 'd \<Rightarrow> (string + ('r \<times> 'd) \<times> draws) option) \<Rightarrow> draws
    \<Rightarrow> string option \<Rightarrow> (string + 'r \<times> string) option" where
  "compute_update tm sid operation ds original =
     (case tm_parse tm (case original of None \<Rightarrow> initial_config | Some c \<Rightarrow> c) of
        None \<Rightarrow> Some (Inl ''invalid configuration'')
      | Some d0 \<Rightarrow>
          (case migrate tm sid ds d0 of
             None \<Rightarrow> None
           | Some (Inl e) \<Rightarrow> Some (Inl e)
           | Some (Inr (d1, ds1)) \<Rightarrow>
               (case operation ds1 d1 of
                  None \<Rightarrow> None
                | Some (Inl e) \<Rightarrow> Some (Inl e)
                | Some (Inr ((r, d2), ds2)) \<Rightarrow>
                    (case migrate tm sid ds2 d2 of
                       None \<Rightarrow> None
                     | Some (Inl e) \<Rightarrow> Some (Inl e)
                     | Some (Inr (d3, _)) \<Rightarrow>
                         (let updated = tm_print tm d3
                          in Some (if MAX_CONFIG_BYTES < length updated
                                   then Inl ''configuration exceeds the 1 MiB size limit''
                                   else Inr (r, updated)))))))"

text \<open>
  The content a transaction installs. A transaction whose search for an identity does not end
  within the draws given installs nothing.
\<close>

definition transaction_update ::
  "('d, 's) toml \<Rightarrow> ('s \<Rightarrow> profile_id) \<Rightarrow> (draws \<Rightarrow> 'd \<Rightarrow> (string + ('r \<times> 'd) \<times> draws) option) \<Rightarrow> draws
    \<Rightarrow> string option \<Rightarrow> string + string" where
  "transaction_update tm sid operation ds original =
     (case compute_update tm sid operation ds original of
        None \<Rightarrow> Inl ''no identity was found''
      | Some (Inl e) \<Rightarrow> Inl e
      | Some (Inr (_, updated)) \<Rightarrow> Inr updated)"

text \<open>\<open>inspect\<close> and the path of \<open>load\<close> that takes no lock (\<open>None\<close>: it runs a transaction).\<close>

definition inspect :: "('d, 's) toml \<Rightarrow> ('s \<Rightarrow> profile_id) \<Rightarrow> string option \<Rightarrow> string + 's list" where
  "inspect tm sid original =
     (case original of
        None \<Rightarrow> Inr []
      | Some content \<Rightarrow>
          and_then (tm_decode tm content) (\<lambda>ss. and_then (validate_ids sid [] ss) (\<lambda>_. Inr ss)))"

definition load_saved :: "('d, 's) toml \<Rightarrow> ('s \<Rightarrow> profile_id) \<Rightarrow> string option \<Rightarrow> (string + 's list) option" where
  "load_saved tm sid original =
     (case original of
        None \<Rightarrow> None
      | Some content \<Rightarrow>
          (case and_then (tm_decode tm content) (\<lambda>ss. and_then (validate_ids sid [] ss) (\<lambda>_. Inr ss)) of
             Inl e \<Rightarrow> Some (Inl e)
           | Inr ss \<Rightarrow> if list_all (\<lambda>s. is_saved (sid s)) ss then Some (Inr ss) else None))"

subsection \<open>Edits are lossless\<close>

lemma filter_replaced:
  "k \<in> K \<Longrightarrow> filter (\<lambda>(k', _). k' \<notin> K) (map (\<lambda>(k', w). if k' = k then (k', v) else (k', w)) t) =
   filter (\<lambda>(k', _). k' \<notin> K) t"
  by (induction t) (auto split: if_splits)

lemma table_insert_filter:
  "k \<in> K \<Longrightarrow> filter (\<lambda>(k', _). k' \<notin> K) (table_insert k v t) = filter (\<lambda>(k', _). k' \<notin> K) t"
  by (simp add: table_insert_def filter_replaced)

lemma map_of_replaced:
  "map_of (map (\<lambda>(k', w). if k' = k then (k', v) else (k', w)) t) k'' =
   (if k'' = k \<and> map_of t k \<noteq> None then Some v else map_of t k'')"
  by (induction t) auto

lemma map_of_table_insert: "map_of (table_insert k v t) k' = (if k' = k then Some v else map_of t k')"
  by (auto simp: table_insert_def map_of_replaced map_add_def split: option.splits)

lemma map_of_table_remove: "map_of (table_remove k t) k' = (if k' = k then None else map_of t k')"
  by (induction t) (auto simp: table_remove_def)

lemma copy_key_filter:
  "k \<in> K \<Longrightarrow> filter (\<lambda>(k', _). k' \<notin> K) (copy_key known k t) = filter (\<lambda>(k', _). k' \<notin> K) t"
  by (auto simp: copy_key_def table_insert_filter table_remove_def intro!: filter_cong split: option.splits)

lemma copy_keys_filter:
  "set ks \<subseteq> K \<Longrightarrow> filter (\<lambda>(k', _). k' \<notin> K) (copy_keys ks known t) = filter (\<lambda>(k', _). k' \<notin> K) t"
  by (induction ks arbitrary: t) (simp_all add: copy_keys_def copy_key_filter)

lemma map_of_copy_key: "map_of (copy_key known k t) k' = (if k' = k then map_of known k else map_of t k')"
  by (auto simp: copy_key_def map_of_table_insert map_of_table_remove split: option.splits)

lemma map_of_copy_keys: "map_of (copy_keys ks known t) k = (if k \<in> set ks then map_of known k else map_of t k)"
  by (induction ks arbitrary: t) (auto simp: copy_keys_def map_of_copy_key)

definition tables_law :: "('d, 's) toml \<Rightarrow> bool" where
  "tables_law tm \<longleftrightarrow> (\<forall>ts d. tm_session tm (tm_set_tables tm ts d) = Some (ArrayOfTables ts))"

lemma tables_set: "tables_law tm \<Longrightarrow> tables tm (tm_set_tables tm ts d) = Inr ts"
  by (simp add: tables_law_def tables_def)

lemma has_id_copy_keys: "''id'' \<notin> set ks \<Longrightarrow> has_id i (copy_keys ks known t) = has_id i t"
  by (simp add: has_id_def map_of_copy_keys)

text \<open>
  Editing a profile is lossless: the document keeps its other profiles untouched and in
  place, the edited profile keeps its identity and, in order, every entry the program does not
  know, and its known entries are exactly those of the new profile.
\<close>
theorem edit_lossless:
  assumes law: "tables_law tm" and ts: "tables tm d = Inr ts"
    and r: "replace_profile tm name_ok i session_id replacement d = Inr d'"
  shows "\<exists>index ts'. index < length ts \<and> has_id i (ts ! index) \<and>
    tables tm d' = Inr ts' \<and> length ts' = length ts \<and>
    (\<forall>j < length ts. j \<noteq> index \<longrightarrow> ts' ! j = ts ! j) \<and>
    has_id i (ts' ! index) \<and>
    filter (\<lambda>(k, _). k \<notin> set PROFILE_KEYS) (ts' ! index) = filter (\<lambda>(k, _). k \<notin> set PROFILE_KEYS) (ts ! index) \<and>
    (\<forall>k \<in> set PROFILE_KEYS. map_of (ts' ! index) k = map_of replacement k)"
proof -
  obtain index where pos: "position (has_id i) ts = Some index"
    and d': "d' = tm_set_tables tm (ts[index := copy_keys PROFILE_KEYS replacement (ts ! index)]) d"
    using r ts by (auto simp: replace_profile_def and_then_Inr table_position_def split: if_splits)
  note at = position_Some [OF pos]
  have "''id'' \<notin> set PROFILE_KEYS" by (simp add: PROFILE_KEYS_def)
  with at law d' show ?thesis
    by (intro exI [of _ index] exI [of _ "ts[index := copy_keys PROFILE_KEYS replacement (ts ! index)]"])
      (simp add: tables_set copy_keys_filter map_of_copy_keys has_id_copy_keys)
qed

subsection \<open>Identities stay unique\<close>

definition table_id :: "table \<Rightarrow> profile_id" where
  "table_id t =
     (case map_of t ''id'' of
        None \<Rightarrow> UNSAVED
      | Some v \<Rightarrow>
          (case as_str v of
             None \<Rightarrow> UNSAVED
           | Some x \<Rightarrow> (case profile_id_from_str x of Inr i \<Rightarrow> i | Inl _ \<Rightarrow> UNSAVED)))"

lemma no_id_unsaved: "map_of t ''id'' = None \<Longrightarrow> table_id t = UNSAVED"
  by (simp add: table_id_def)

text \<open>What the TOML library and the decoder of sessions promise.\<close>

definition decode_law :: "('d, 's) toml \<Rightarrow> ('s \<Rightarrow> profile_id) \<Rightarrow> bool" where
  "decode_law tm sid \<longleftrightarrow>
     (\<forall>d ss. decode tm d = Inr ss \<longrightarrow>
        (\<exists>ts. tables tm d = Inr ts \<and> map sid ss = map table_id ts \<and>
              (\<forall>t \<in> set ts. map_of t ''id'' \<noteq> None \<longrightarrow> is_saved (table_id t))))"

definition good_draws :: "draws \<Rightarrow> bool" where
  "good_draws ds \<longleftrightarrow> (\<forall>i. Inr i \<in> set ds \<longrightarrow> wf_id i \<and> is_saved i)"

lemma parse_printed_id: "wf_id i \<Longrightarrow> is_saved i \<Longrightarrow> profile_id_from_str (profile_id_fmt i) = Inr i"
  by (simp add: profile_id_from_str_def profile_id_fmt_def wf_id_def length_show show_lower_hex parse_bytes_show)

lemma validate_ids_distinct:
  assumes "validate_ids sid seen ss = Inr seen'"
  shows "distinct (filter is_saved (map sid ss)) \<and> set seen' = set seen \<union> set (filter is_saved (map sid ss)) \<and>
    set seen \<inter> set (filter is_saved (map sid ss)) = {}"
  using assms
  by (induction sid seen ss rule: validate_ids.induct) (auto split: if_splits)

lemma draw_fresh_ok:
  "draw_fresh seen ds = Some (Inr (i, ds')) \<Longrightarrow> i \<notin> set seen \<and> Inr i \<in> set ds \<and> set ds' \<subseteq> set ds"
  by (induction seen ds rule: draw_fresh.induct) (auto split: if_splits)

lemma assign_ids_draws:
  "assign_ids seen ds ts = Some (Inr (ts', ds')) \<Longrightarrow> set ds' \<subseteq> set ds"
  by (induction ts arbitrary: seen ds ts')
    (fastforce simp: map_sum_Inr split: if_splits option.splits sum.splits dest: draw_fresh_ok)+

lemma assign_ids_distinct:
  assumes "assign_ids seen ds ts = Some (Inr (ts', ds'))" and "good_draws ds"
    and "\<forall>t \<in> set ts. map_of t ''id'' \<noteq> None \<longrightarrow> is_saved (table_id t) \<and> table_id t \<in> set seen"
    and "distinct (map table_id (filter (\<lambda>t. map_of t ''id'' \<noteq> None) ts))"
  shows "distinct (map table_id ts') \<and> list_all (\<lambda>t. is_saved (table_id t)) ts' \<and>
    set (map table_id ts') \<subseteq> set (map table_id (filter (\<lambda>t. map_of t ''id'' \<noteq> None) ts)) \<union> - set seen"
  using assms
proof (induction ts arbitrary: seen ds ts' ds')
  case Nil
  then show ?case by simp
next
  case (Cons t ts)
  show ?case
  proof (cases "map_of t ''id'' = None")
    case False
    then obtain us where us: "assign_ids seen ds ts = Some (Inr (us, ds'))" "ts' = t # us"
      using Cons.prems(1) by (auto simp: map_sum_Inr)
    with False Cons.IH [OF us(1)] Cons.prems(2-4) show ?thesis by auto
  next
    case True
    then obtain i ds1 us where i: "draw_fresh seen ds = Some (Inr (i, ds1))"
      and us: "assign_ids (i # seen) ds1 ts = Some (Inr (us, ds'))"
      and ts': "ts' = table_insert ''id'' (ItemStr (profile_id_fmt i)) t # us"
      using Cons.prems(1) by (auto simp: map_sum_Inr split: option.splits sum.splits)
    note fresh = draw_fresh_ok [OF i]
    have gi: "wf_id i" "is_saved i" using fresh Cons.prems(2) by (auto simp: good_draws_def)
    have ti: "table_id (table_insert ''id'' (ItemStr (profile_id_fmt i)) t) = i"
      using parse_printed_id [OF gi] by (simp add: table_id_def map_of_table_insert)
    have gd: "good_draws ds1" using fresh Cons.prems(2) by (auto simp: good_draws_def)
    have old: "i \<notin> set (map table_id (filter (\<lambda>t. map_of t ''id'' \<noteq> None) ts))"
      using fresh Cons.prems(3) by auto
    from Cons.IH [OF us gd] Cons.prems(3,4) True have
      IH: "distinct (map table_id us) \<and> list_all (\<lambda>t. is_saved (table_id t)) us \<and>
        set (map table_id us) \<subseteq> set (map table_id (filter (\<lambda>t. map_of t ''id'' \<noteq> None) ts)) \<union> - set (i # seen)"
      by auto
    with old fresh gi True show ?thesis unfolding ts' by (auto simp: ti)
  qed
qed

lemma migrated_ids_unique:
  assumes laws: "tables_law tm" "decode_law tm sid" and draws: "good_draws ds"
    and m: "migrate tm sid ds d = Some (Inr (d', ds'))"
  shows "\<exists>ts. tables tm d' = Inr ts \<and> distinct (map table_id ts) \<and> list_all (\<lambda>t. is_saved (table_id t)) ts"
proof -
  obtain ss seen where ss: "decode tm d = Inr ss" and seen: "validate_ids sid [] ss = Inr seen"
    using m by (auto simp: migrate_def and_then_def split: sum.splits prod.splits)
  obtain ts where ts: "tables tm d = Inr ts" "map sid ss = map table_id ts"
      "\<forall>t \<in> set ts. map_of t ''id'' \<noteq> None \<longrightarrow> is_saved (table_id t)"
    using laws(2) ss unfolding decode_law_def by blast
  have ids: "distinct (filter is_saved (map table_id ts))" "set seen = set (filter is_saved (map table_id ts))"
    using validate_ids_distinct [OF seen] ts(2) by simp_all
  show ?thesis
  proof (cases "list_all (\<lambda>s. is_saved (sid s)) ss")
    case True
    then have "list_all is_saved (map sid ss)" by (simp add: list_all_iff)
    then have "list_all is_saved (map table_id ts)" using ts(2) by simp
    then have all: "filter is_saved (map table_id ts) = map table_id ts" "list_all (\<lambda>t. is_saved (table_id t)) ts"
      by (simp_all add: list_all_iff filter_id_conv)
    have "d' = d" using m ss seen True by (simp add: migrate_def)
    with ts(1) ids all show ?thesis by auto
  next
    case False
    then obtain ts' where a: "assign_ids seen ds ts = Some (Inr (ts', ds'))" and d': "d' = tm_set_tables tm ts' d"
      using m ss seen ts(1) by (auto simp: migrate_def map_sum_Inr)
    have "filter (\<lambda>t. map_of t ''id'' \<noteq> None) ts = filter (\<lambda>t. is_saved (table_id t)) ts"
      using ts(3) no_id_unsaved by (intro filter_cong refl) (auto simp: is_saved_def)
    then have "distinct (map table_id (filter (\<lambda>t. map_of t ''id'' \<noteq> None) ts))"
      using ids(1) by (simp add: filter_map comp_def)
    with assign_ids_distinct [OF a draws] ts(3) ids(2) have
      "distinct (map table_id ts') \<and> list_all (\<lambda>t. is_saved (table_id t)) ts'" by auto
    with laws(1) d' show ?thesis by (simp add: tables_set)
  qed
qed

subsection \<open>The protocol on the file\<close>

text \<open>
  A process that runs a transaction: it holds the lock from its acquisition to its end. \<open>Checked\<close>
  carries whether another program edited the file after the check.
\<close>

datatype writer =
    Idle
  | Locked
  | HasRead "string option"
  | Written "string option" string
  | Checked "string option" string bool
  | Committed
  | Aborted

record config_file =
  cf_content :: "string option"
  cf_lock :: "nat option"
  cf_writers :: "nat \<Rightarrow> writer"
  cf_commits :: "(nat \<times> string option \<times> string option \<times> string \<times> bool) list"

text \<open>\<open>cf_commits\<close>: the process, the content at the rename, the content it had read, the new content, the race flag.\<close>

definition set_writer :: "nat \<Rightarrow> writer \<Rightarrow> config_file \<Rightarrow> config_file" where
  "set_writer p w f = f\<lparr>cf_writers := (cf_writers f)(p := w)\<rparr>"

definition unlock :: "nat \<Rightarrow> config_file \<Rightarrow> config_file" where
  "unlock p f = (if cf_lock f = Some p then f\<lparr>cf_lock := None\<rparr> else f)"

definition finish_writer :: "nat \<Rightarrow> writer \<Rightarrow> config_file \<Rightarrow> config_file" where
  "finish_writer p w f = unlock p (set_writer p w f)"

datatype config_event =
    AcquireLock nat bool
  | ReadConfig nat
  | WriteTemporary nat
  | CheckUnchanged nat
  | Rename nat
  | Crash nat
  | ExternalEdit "string option"

text \<open>One round of the loop that takes the lock; \<open>expired\<close>: the clock has reached the deadline.\<close>

definition acquire :: "nat \<Rightarrow> bool \<Rightarrow> config_file \<Rightarrow> config_file" where
  "acquire p expired f =
     (if cf_writers f p = Idle then
        (if cf_lock f = None then set_writer p Locked (f\<lparr>cf_lock := Some p\<rparr>)
         else if expired then set_writer p Aborted f else f)
      else f)"

text \<open>Edits of programs that do not take the lock.\<close>

definition race :: "writer \<Rightarrow> writer" where
  "race w = (case w of Checked original updated _ \<Rightarrow> Checked original updated True | _ \<Rightarrow> w)"

fun config_step ::
  "(nat \<Rightarrow> string option \<Rightarrow> string + string) \<Rightarrow> config_event \<Rightarrow> config_file \<Rightarrow> config_file" where
  "config_step update (AcquireLock p expired) f = acquire p expired f"
| "config_step update (ReadConfig p) f =
     (if cf_writers f p = Locked then set_writer p (HasRead (cf_content f)) f else f)"
| "config_step update (WriteTemporary p) f =
     (case cf_writers f p of
        HasRead original \<Rightarrow>
          (case update p original of
             Inl e \<Rightarrow> finish_writer p Aborted f
           | Inr updated \<Rightarrow>
               if original = Some updated then finish_writer p Committed f
               else set_writer p (Written original updated) f)
      | _ \<Rightarrow> f)"
| "config_step update (CheckUnchanged p) f =
     (case cf_writers f p of
        Written original updated \<Rightarrow>
          if cf_content f \<noteq> original then finish_writer p Aborted f
          else set_writer p (Checked original updated False) f
      | _ \<Rightarrow> f)"
| "config_step update (Rename p) f =
     (case cf_writers f p of
        Checked original updated raced \<Rightarrow>
          finish_writer p Committed
            (f\<lparr>cf_content := Some updated,
               cf_commits := cf_commits f @ [(p, cf_content f, original, updated, raced)]\<rparr>)
      | _ \<Rightarrow> f)"
| "config_step update (Crash p) f = finish_writer p Aborted f"
| "config_step update (ExternalEdit c) f = f\<lparr>cf_content := c, cf_writers := race \<circ> cf_writers f\<rparr>"

definition config_init :: "string option \<Rightarrow> config_file" where
  "config_init c = \<lparr>cf_content = c, cf_lock = None, cf_writers = (\<lambda>_. Idle), cf_commits = []\<rparr>"

fun holds_lock :: "writer \<Rightarrow> bool" where
  "holds_lock Idle = False"
| "holds_lock Committed = False"
| "holds_lock Aborted = False"
| "holds_lock _ = True"

definition writer_ok :: "(string option \<Rightarrow> string + string) \<Rightarrow> string option \<Rightarrow> writer \<Rightarrow> bool" where
  "writer_ok update content w =
     (case w of
        Written original updated \<Rightarrow> update original = Inr updated
      | Checked original updated raced \<Rightarrow>
          update original = Inr updated \<and> (raced \<or> content = original)
      | _ \<Rightarrow> True)"

lemma writer_ok_simps [simp]:
  "writer_ok u c Idle" "writer_ok u c Locked" "writer_ok u c (HasRead x)" "writer_ok u c Committed" "writer_ok u c Aborted"
  "writer_ok u c (Written x y) = (u x = Inr y)"
  "writer_ok u c (Checked x y r) = (u x = Inr y \<and> (r \<or> c = x))"
  by (simp_all add: writer_ok_def)

definition config_inv :: "(nat \<Rightarrow> string option \<Rightarrow> string + string) \<Rightarrow> config_file \<Rightarrow> bool" where
  "config_inv update f \<longleftrightarrow>
     (\<forall>p. holds_lock (cf_writers f p) \<longrightarrow> cf_lock f = Some p) \<and>
     (\<forall>p. writer_ok (update p) (cf_content f) (cf_writers f p)) \<and>
     list_all (\<lambda>(p, before, original, updated, raced).
       update p original = Inr updated \<and> (raced \<or> before = original)) (cf_commits f)"

lemma config_inv_set:
  assumes "config_inv update f" and "holds_lock w \<Longrightarrow> cf_lock f = Some p"
    and "writer_ok (update p) (cf_content f) w"
  shows "config_inv update (set_writer p w f)"
  using assms by (simp add: config_inv_def set_writer_def)

lemma config_inv_finish:
  assumes "config_inv update f" and "w = Committed \<or> w = Aborted"
  shows "config_inv update (finish_writer p w f)"
  using assms
  by (auto simp: config_inv_def finish_writer_def set_writer_def unlock_def)

lemma other_writers:
  "config_inv update f \<Longrightarrow> holds_lock (cf_writers f p) \<Longrightarrow> q \<noteq> p \<Longrightarrow> \<not> holds_lock (cf_writers f q)"
  unfolding config_inv_def by (metis option.inject)

lemma not_holding_ok: "\<not> holds_lock w \<Longrightarrow> writer_ok u c w"
  by (cases w) simp_all

lemma config_step_inv [step_inv]:
  assumes inv: "config_inv update f"
  shows "config_inv update (config_step update e f)"
proof (cases e)
  case (AcquireLock p expired)
  with inv show ?thesis
    by (auto simp: acquire_def config_inv_def set_writer_def)
next
  case (ReadConfig p)
  with inv show ?thesis
    by (auto intro!: config_inv_set) (auto simp: config_inv_def)
next
  case (WriteTemporary p)
  have "cf_writers f p = HasRead original \<Longrightarrow> cf_lock f = Some p" for original
    using inv unfolding config_inv_def by (metis holds_lock.simps(5))
  with inv WriteTemporary show ?thesis
    by (auto intro!: config_inv_set config_inv_finish split: writer.split sum.split)
next
  case (CheckUnchanged p)
  have "cf_writers f p = Written original updated \<Longrightarrow> cf_lock f = Some p \<and> update p original = Inr updated"
    for original updated using inv unfolding config_inv_def by (metis writer_ok_simps(6) holds_lock.simps(6))
  with inv CheckUnchanged show ?thesis
    by (auto intro!: config_inv_set config_inv_finish split: writer.split)
next
  case (Rename p)
  show ?thesis
  proof (cases "\<exists>original updated raced. cf_writers f p = Checked original updated raced")
    case False
    with inv Rename show ?thesis by (auto split: writer.split)
  next
    case True
    then obtain original updated raced where w: "cf_writers f p = Checked original updated raced" by auto
    have ok: "update p original = Inr updated" "raced \<or> cf_content f = original" "cf_lock f = Some p"
      using inv w unfolding config_inv_def by (metis writer_ok_simps(7), metis writer_ok_simps(7), metis holds_lock.simps(7))
    have rest: "writer_ok (update q) c (cf_writers f q)" if "q \<noteq> p" for q c
      using other_writers [OF inv _ that] w by (intro not_holding_ok) simp
    have locks: "\<not> holds_lock (cf_writers f q)" if "q \<noteq> p" for q
      using other_writers [OF inv _ that] w by simp
    show ?thesis
      using inv Rename w ok rest locks
      by (auto simp: config_inv_def finish_writer_def set_writer_def unlock_def)
  qed
next
  case (Crash p)
  with inv show ?thesis by (simp add: config_inv_finish)
next
  case (ExternalEdit c)
  have held: "holds_lock (race w) = holds_lock w" for w
    by (cases w) (simp_all add: race_def)
  have ok: "writer_ok u c (race w)" if "writer_ok u c' w" for u c' w
    using that by (cases w) (simp_all add: race_def)
  have "\<forall>p. writer_ok (update p) (cf_content f) (cf_writers f p)"
    using inv unfolding config_inv_def by blast
  then have "\<forall>p. writer_ok (update p) c (race (cf_writers f p))" by (blast intro: ok)
  with inv ExternalEdit show ?thesis by (simp add: config_inv_def held)
qed

interpretation profiles_file: invariant_component "config_step update" "config_init c" "config_inv update"
  for update c
proof unfold_locales
  show "config_inv update (config_init c)" by (simp add: config_inv_def config_init_def)
qed (rule config_step_inv)

text \<open>
  C35: No update of the profile file is lost. In every interleaving of processes that edit it,
  crash, and of programs that edit it without the lock, at most one process is inside a
  transaction; and every content that a transaction installs is that transaction's update of the
  very content it replaces, unless a program that ignores the lock edited the file between the
  last check and the rename.
\<close>
theorem no_lost_update:
  assumes "f = run_events (config_step update) es (config_init c)"
  shows "(\<forall>p q. holds_lock (cf_writers f p) \<and> holds_lock (cf_writers f q) \<longrightarrow> p = q) \<and>
    list_all (\<lambda>(p, before, original, updated, raced).
      update p original = Inr updated \<and> (\<not> raced \<longrightarrow> update p before = Inr updated)) (cf_commits f)"
proof -
  have inv: "config_inv update f" unfolding assms by (rule profiles_file.inv_run)
  have "p = q" if "holds_lock (cf_writers f p)" "holds_lock (cf_writers f q)" for p q
    using other_writers [OF inv that(1), of q] that(2) by blast
  moreover have "list_all (\<lambda>(p, before, original, updated, raced).
      update p original = Inr updated \<and> (\<not> raced \<longrightarrow> update p before = Inr updated)) (cf_commits f)"
    using inv by (auto simp: config_inv_def list_all_iff)
  ultimately show ?thesis by blast
qed

definition demo_update :: "nat \<Rightarrow> string option \<Rightarrow> string + string" where
  "demo_update p c = Inr ((case c of None \<Rightarrow> [] | Some x \<Rightarrow> x) @ (if p = 0 then ''a'' else ''b''))"

definition demo_config_events :: "config_event list" where
  "demo_config_events =
     [AcquireLock 0 False, ReadConfig 0, WriteTemporary 0, CheckUnchanged 0, Rename 0,
      AcquireLock 1 False, ReadConfig 1, WriteTemporary 1, CheckUnchanged 1, Rename 1]"

theorem no_lost_update_witness:
  "\<exists>f. f = run_events (config_step demo_update) demo_config_events (config_init None) \<and>
     cf_content f = Some ''ab'' \<and>
     list_all (\<lambda>(p, before, original, updated, raced).
       demo_update p original = Inr updated \<and> (\<not> raced \<longrightarrow> demo_update p before = Inr updated)) (cf_commits f)"
proof -
  let ?f = "run_events (config_step demo_update) demo_config_events (config_init None)"
  have "cf_content ?f = Some ''ab''"
    by (simp add: demo_config_events_def config_init_def acquire_def set_writer_def finish_writer_def unlock_def
        demo_update_def)
  with no_lost_update [of ?f demo_update demo_config_events None] show ?thesis by blast
qed

subsection \<open>What transactions install\<close>

lemma transaction_update_Inr:
  assumes laws: "tables_law tm" "decode_law tm sid" and draws: "good_draws ds"
    and operation: "\<And>ds1 d r d2 ds2. operation ds1 d = Some (Inr ((r, d2), ds2)) \<Longrightarrow> set ds2 \<subseteq> set ds1"
    and u: "transaction_update tm sid operation ds original = Inr updated"
  shows "length updated \<le> MAX_CONFIG_BYTES \<and>
    (\<exists>d ts. updated = tm_print tm d \<and> tables tm d = Inr ts \<and> distinct (map table_id ts) \<and>
       list_all (\<lambda>t. is_saved (table_id t)) ts)"
proof -
  have keep: "set ds2 \<subseteq> set ds1" if "migrate tm sid ds1 d = Some (Inr (d', ds2))" for ds1 d d' ds2
    using that
    by (auto simp: migrate_def map_sum_Inr split: sum.splits if_splits prod.splits dest!: assign_ids_draws)
  obtain d0 d1 ds1 r d2 ds2 d3 ds3 where
    m1: "migrate tm sid ds d0 = Some (Inr (d1, ds1))" and
    o: "operation ds1 d1 = Some (Inr ((r, d2), ds2))" and
    m2: "migrate tm sid ds2 d2 = Some (Inr (d3, ds3))" and
    up: "updated = tm_print tm d3" "\<not> MAX_CONFIG_BYTES < length (tm_print tm d3)"
    using u by (auto simp: transaction_update_def compute_update_def Let_def
        split: option.splits sum.splits prod.splits if_splits)
  have "good_draws ds2" using draws keep [OF m1] operation [OF o] by (auto simp: good_draws_def)
  from migrated_ids_unique [OF laws this m2] up show ?thesis by auto
qed

text \<open>
  Whatever processes edit the profile file, crash or are disturbed in between, every content
  a transaction installs is the printed form of a document in which each profile has a persistent
  identity and no two profiles share one, and it is within the size limit of one mebibyte.
\<close>
theorem installed_profiles_sound:
  assumes laws: "tables_law tm" "decode_law tm sid" and draws: "\<forall>p. good_draws (ds p)"
    and operation: "\<forall>p ds1 d r d2 ds2. op p ds1 d = Some (Inr ((r, d2), ds2)) \<longrightarrow> set ds2 \<subseteq> set ds1"
    and f: "f = run_events (config_step (\<lambda>p. transaction_update tm sid (op p) (ds p))) es (config_init c)"
  shows "list_all (\<lambda>(_, _, _, updated, _). length updated \<le> MAX_CONFIG_BYTES \<and>
    (\<exists>d ts. updated = tm_print tm d \<and> tables tm d = Inr ts \<and> distinct (map table_id ts) \<and>
       list_all (\<lambda>t. is_saved (table_id t)) ts)) (cf_commits f)"
proof -
  have "config_inv (\<lambda>p. transaction_update tm sid (op p) (ds p)) f" unfolding f by (rule profiles_file.inv_run)
  then have "list_all (\<lambda>(p, _, original, updated, _).
      transaction_update tm sid (op p) (ds p) original = Inr updated) (cf_commits f)"
    by (auto simp: config_inv_def list_all_iff)
  then show ?thesis
  proof (rule list.pred_mono_strong, clarify)
    fix p original updated
    assume u: "transaction_update tm sid (op p) (ds p) original = Inr updated"
    show "length updated \<le> MAX_CONFIG_BYTES \<and>
      (\<exists>d ts. updated = tm_print tm d \<and> tables tm d = Inr ts \<and> distinct (map table_id ts) \<and>
         list_all (\<lambda>t. is_saved (table_id t)) ts)"
      by (rule transaction_update_Inr [OF laws _ _ u]) (use draws operation in blast)+
  qed
qed

text \<open>A TOML library for files of at most one profile: its identity, or \<open>n\<close> for one without.\<close>

definition demo_print :: "table list \<Rightarrow> string" where
  "demo_print ts =
     (case ts of
        [] \<Rightarrow> []
      | [t] \<Rightarrow> (case map_of t ''id'' of None \<Rightarrow> ''n''
               | Some v \<Rightarrow> (case as_str v of
                   None \<Rightarrow> ''?''
                 | Some x \<Rightarrow> (case profile_id_from_str x of Inr i \<Rightarrow> x | Inl _ \<Rightarrow> ''?'')))
      | _ \<Rightarrow> ''?'')"

definition demo_decode :: "string \<Rightarrow> string + profile_id list" where
  "demo_decode s =
     (if s = [] then Inr []
      else if s = ''n'' then Inr [UNSAVED]
      else (case profile_id_from_str s of Inr i \<Rightarrow> Inr [i] | Inl _ \<Rightarrow> Inl ''invalid''))"

definition demo_toml :: "(table list, profile_id) toml" where
  "demo_toml =
     \<lparr>tm_parse = (\<lambda>s. if s = ''n'' then Some [[]] else None), tm_print = demo_print, tm_decode = demo_decode,
      tm_session = (\<lambda>d. Some (ArrayOfTables d)), tm_set_tables = (\<lambda>ts _. ts)\<rparr>"

definition demo_id :: profile_id where
  "demo_id = ProfileId (replicate 16 1)"

lemma demo_id_ok: "wf_id demo_id" "is_saved demo_id"
  by (simp_all add: demo_id_def wf_id_def is_saved_def UNSAVED_def)

lemmas demo_id_parses = parse_printed_id [OF demo_id_ok]

lemma demo_id_length: "length (profile_id_fmt demo_id) = 32"
  using length_show [of "id_bytes demo_id"] demo_id_ok(1) by (simp add: profile_id_fmt_def wf_id_def)

lemma demo_id_fmt_not: "profile_id_fmt demo_id \<noteq> []" "profile_id_fmt demo_id \<noteq> ''n''"
  using demo_id_length by auto

lemma demo_laws: "tables_law demo_toml" "decode_law demo_toml id"
proof -
  show "tables_law demo_toml" by (simp add: tables_law_def demo_toml_def)
  have "map table_id d = ss \<and> (\<forall>t \<in> set d. map_of t ''id'' \<noteq> None \<longrightarrow> is_saved (table_id t))"
    if "demo_decode (demo_print d) = Inr ss" for d ss
  proof (cases d)
    case Nil
    with that show ?thesis by (simp add: demo_print_def demo_decode_def)
  next
    case (Cons t ts)
    have saved: "is_saved i" if "profile_id_from_str x = Inr i" for x i
      using that by (auto simp: profile_id_from_str_def Let_def split: if_splits option.splits)
    from Cons that show ?thesis
      by (cases ts)
        (auto simp: demo_print_def demo_decode_def table_id_def profile_id_from_str_def [of "''?''"]
          profile_id_from_str_def [of "''n''"] profile_id_from_str_def [of "[]"]
          split: option.splits sum.splits if_splits dest: saved)
  qed
  then show "decode_law demo_toml id"
    by (simp add: decode_law_def demo_toml_def decode_def tables_def)
qed

definition demo_profile :: table where
  "demo_profile = [(''id'', ItemStr (profile_id_fmt demo_id)), (''custom'', ItemOther ''1''), (''name'', ItemStr ''a'')]"

lemma demo_decoded: "decode demo_toml [demo_profile] = Inr [demo_id]"
  by (simp add: decode_def demo_toml_def demo_print_def demo_decode_def demo_profile_def demo_id_parses demo_id_fmt_not)

theorem edit_lossless_witness:
  "\<exists>d' index ts'. replace_profile demo_toml (\<lambda>_. Inr ()) demo_id UNSAVED [(''name'', ItemStr ''b'')] [demo_profile] = Inr d' \<and>
     tables demo_toml d' = Inr ts' \<and> index < length [demo_profile] \<and>
     filter (\<lambda>(k, _). k \<notin> set PROFILE_KEYS) (ts' ! index) =
       filter (\<lambda>(k, _). k \<notin> set PROFILE_KEYS) ([demo_profile] ! index)"
proof -
  have ts: "tables demo_toml [demo_profile] = Inr [demo_profile]"
    by (simp add: tables_def demo_toml_def)
  have h: "has_id demo_id demo_profile" by (simp add: has_id_def demo_profile_def)
  obtain d' where r: "replace_profile demo_toml (\<lambda>_. Inr ()) demo_id UNSAVED [(''name'', ItemStr ''b'')] [demo_profile] = Inr d'"
    by (simp add: replace_profile_def ts demo_decoded table_position_def h is_saved_def)
  from edit_lossless [OF demo_laws(1) ts r] r show ?thesis by blast
qed

theorem installed_profiles_sound_witness:
  "\<exists>f. f = run_events (config_step (\<lambda>p. transaction_update demo_toml id (\<lambda>ds d. Some (Inr (((), d), ds))) [Inr demo_id]))
         demo_config_events (config_init (Some ''n'')) \<and>
     cf_content f = Some (profile_id_fmt demo_id) \<and>
     list_all (\<lambda>(_, _, _, updated, _). length updated \<le> MAX_CONFIG_BYTES \<and>
       (\<exists>d ts. updated = tm_print demo_toml d \<and> tables demo_toml d = Inr ts \<and> distinct (map table_id ts) \<and>
          list_all (\<lambda>t. is_saved (table_id t)) ts)) (cf_commits f)"
proof -
  let ?u = "\<lambda>p::nat. transaction_update demo_toml id (\<lambda>ds d. Some (Inr (((), d), ds))) [Inr demo_id]"
  let ?f = "run_events (config_step ?u) demo_config_events (config_init (Some ''n''))"
  have u1: "?u p (Some ''n'') = Inr (profile_id_fmt demo_id)" for p
  proof -
    have m1: "migrate demo_toml id [Inr demo_id] [[]] = Some (Inr ([[(''id'', ItemStr (profile_id_fmt demo_id))]], []))"
      by (simp add: migrate_def decode_def demo_toml_def demo_print_def demo_decode_def tables_def table_insert_def
          is_saved_def and_then_def)
    have m2: "migrate demo_toml id ds [[(''id'', ItemStr (profile_id_fmt demo_id))]] =
        Some (Inr ([[(''id'', ItemStr (profile_id_fmt demo_id))]], ds))" for ds
      using demo_id_ok(2)
      by (simp add: migrate_def decode_def demo_toml_def demo_print_def demo_decode_def demo_id_parses demo_id_fmt_not
          and_then_def)
    have parsed: "tm_parse demo_toml ''n'' = Some [[]]" by (simp add: demo_toml_def)
    have printed: "tm_print demo_toml [[(''id'', ItemStr (profile_id_fmt demo_id))]] = profile_id_fmt demo_id"
      by (simp add: demo_toml_def demo_print_def demo_id_parses)
    show ?thesis
      by (simp add: transaction_update_def compute_update_def m1 m2 parsed printed demo_id_length MAX_CONFIG_BYTES_def)
  qed
  have u2: "?u p (Some (profile_id_fmt demo_id)) = Inl ''invalid configuration''" for p
    by (simp add: transaction_update_def compute_update_def demo_toml_def demo_id_fmt_not)
  have "cf_content ?f = Some (profile_id_fmt demo_id)"
    by (simp add: demo_config_events_def config_init_def acquire_def set_writer_def finish_writer_def unlock_def
        u1 u2 demo_id_fmt_not(2) [symmetric])
  moreover have "list_all (\<lambda>(_, _, _, updated, _). length updated \<le> MAX_CONFIG_BYTES \<and>
      (\<exists>d ts. updated = tm_print demo_toml d \<and> tables demo_toml d = Inr ts \<and> distinct (map table_id ts) \<and>
         list_all (\<lambda>t. is_saved (table_id t)) ts)) (cf_commits ?f)"
    by (rule installed_profiles_sound [OF demo_laws, of "\<lambda>_. [Inr demo_id]" "\<lambda>_ ds d. Some (Inr (((), d), ds))"])
      (simp_all add: good_draws_def demo_id_ok)
  ultimately show ?thesis by blast
qed

end
