(* ===== verification/Research_Policy.thy ===== *)
theory Research_Policy
  imports Redaction Profile_Identity Action_Targets
begin

text \<open>
  \<open>src/research_mcp/policy.rs\<close>: what the research launcher may do. Its command line, the paths it
  accepts, the three fixed helper programs, the arguments of its tools and the manifest with
  the digests of the helpers. JSON values are those of the redaction theory; the JSON parser is
  a parameter of the manifest.
\<close>

definition GPU_DEFAULT_TTL :: nat where "GPU_DEFAULT_TTL = 60"
definition GPU_MAX_TTL :: nat where "GPU_MAX_TTL = 180"
definition GUI_DEFAULT_TTL :: nat where "GUI_DEFAULT_TTL = 600"
definition GUI_MAX_TTL :: nat where "GUI_MAX_TTL = 3600"
definition GUI_STOP_GRACE_MS :: nat where "GUI_STOP_GRACE_MS = 2000"
definition MAX_CHILDREN :: nat where "MAX_CHILDREN = 3"
definition MAX_MANIFEST :: nat where "MAX_MANIFEST = 8192"
definition MAX_HELPER :: nat where "MAX_HELPER = 128 * 1024 * 1024"

lemmas research_limits =
  GPU_DEFAULT_TTL_def GPU_MAX_TTL_def GUI_DEFAULT_TTL_def GUI_MAX_TTL_def GUI_STOP_GRACE_MS_def
  MAX_CHILDREN_def MAX_MANIFEST_def MAX_HELPER_def

subsection \<open>Paths and the command line\<close>

fun split_at :: "'a \<Rightarrow> 'a list \<Rightarrow> 'a list list" where
  "split_at d [] = [[]]"
| "split_at d (c # s) =
     (if c = d then [] # split_at d s
      else (case split_at d s of [] \<Rightarrow> [[c]] | p # ps \<Rightarrow> (c # p) # ps))"

text \<open>
  \<open>Path::components\<close> of an absolute path: empty and \<open>.\<close> parts vanish, \<open>..\<close> is a parent, every
  other part is normal.
\<close>

definition normal_part :: "string \<Rightarrow> bool" where
  "normal_part p \<longleftrightarrow> p \<noteq> [] \<and> p \<noteq> ''.'' \<and> p \<noteq> ''..''"

definition valid_root :: "string \<Rightarrow> bool" where
  "valid_root path \<longleftrightarrow>
     (let parts = split_at CHR ''/'' path
      in is_absolute path \<and> list_ex normal_part parts \<and> list_all (\<lambda>p. p \<noteq> ''..'') parts \<and>
         CHR 0x00 \<notin> set path \<and> list_all (\<lambda>p. p \<noteq> ''.'') parts)"

record research_config =
  allow_experiments :: bool
  kit_root :: "string option"

definition research_config_default :: research_config where
  "research_config_default = \<lparr>allow_experiments = False, kit_root = None\<rparr>"

text \<open>An argument that is not UTF-8 is \<open>None\<close>; the value of \<open>--root\<close> may be any bytes.\<close>

type_synonym os_string = "string \<times> bool"

definition research_usage :: string where
  "research_usage = ''usage: cocoa-way-research-mcp [--root ABSOLUTE_KIT] [--allow-experiments]''"

fun parse_args :: "os_string list \<Rightarrow> research_config \<Rightarrow> string + research_config" where
  "parse_args [] c = Inr c"
| "parse_args ((arg, utf8) # more_args) c =
     (if utf8 \<and> arg = ''--allow-experiments'' \<and> \<not> allow_experiments c
      then parse_args more_args (c\<lparr>allow_experiments := True\<rparr>)
      else if utf8 \<and> arg = ''--root'' \<and> kit_root c = None
      then (case more_args of
          [] \<Rightarrow> Inl ''missing_root''
        | (r, _) # rest \<Rightarrow>
            if \<not> valid_root r then Inl ''root_must_be_absolute_without_dot_components''
            else parse_args rest (c\<lparr>kit_root := Some r\<rparr>))
      else Inl research_usage)"

definition research_config_parse :: "os_string list \<Rightarrow> string + research_config" where
  "research_config_parse os_args =
     and_then (parse_args os_args research_config_default) (\<lambda>c.
       if allow_experiments c \<and> kit_root c = None then Inl ''allow_experiments_requires_root'' else Inr c)"

definition experiments_enabled :: "research_config \<Rightarrow> bool" where
  "experiments_enabled c \<longleftrightarrow> allow_experiments c \<and> kit_root c \<noteq> None"

subsection \<open>The fixed helpers\<close>

datatype research_profile = SeamlessHost | SeamlessClient | GpuSelftest

definition ALL_PROFILES :: "research_profile list" where
  "ALL_PROFILES = [SeamlessHost, SeamlessClient, GpuSelftest]"

fun research_id :: "research_profile \<Rightarrow> string" where
  "research_id SeamlessHost = ''seamless_host''"
| "research_id SeamlessClient = ''seamless_client''"
| "research_id GpuSelftest = ''gpu_selftest''"

definition research_profile_parse :: "string \<Rightarrow> string + research_profile" where
  "research_profile_parse i = ok_or ''unknown_profile'' (find (\<lambda>p. research_id p = i) ALL_PROFILES)"

fun helper_path :: "research_profile \<Rightarrow> string" where
  "helper_path SeamlessHost = ''SeamlessHost.app/Contents/MacOS/SeamlessHost''"
| "helper_path SeamlessClient = ''SeamlessClient.app/Contents/MacOS/SeamlessClient''"
| "helper_path GpuSelftest = ''gpu-vz-probe''"

fun helper_argv :: "research_profile \<Rightarrow> string list" where
  "helper_argv GpuSelftest = [''selftest'']"
| "helper_argv _ = []"

definition is_gui :: "research_profile \<Rightarrow> bool" where
  "is_gui p \<longleftrightarrow> p \<noteq> GpuSelftest"

definition ttl_limits :: "research_profile \<Rightarrow> nat \<times> nat" where
  "ttl_limits p = (if is_gui p then (GUI_DEFAULT_TTL, GUI_MAX_TTL) else (GPU_DEFAULT_TTL, GPU_MAX_TTL))"

datatype stop_decision = CleanupGroup | RequestAppKit | WaitMore

definition stop_action :: "research_profile \<Rightarrow> bool \<Rightarrow> bool \<Rightarrow> bool option \<Rightarrow> stop_decision" where
  "stop_action p exited grace_expired appkit_result =
     (if exited \<or> \<not> is_gui p \<or> grace_expired then CleanupGroup
      else if appkit_result = None then RequestAppKit
      else WaitMore)"

datatype research_host = MacOs nat | Unsupported

fun host_check :: "research_host \<Rightarrow> string + unit" where
  "host_check (MacOs major) = (if 27 \<le> major then Inr () else Inl ''requires_macos_27'')"
| "host_check Unsupported = Inl ''unsupported_platform_or_os_version''"

lemma research_parse_id [simp]: "research_profile_parse (research_id p) = Inr p"
  by (cases p) (simp_all add: research_profile_parse_def ALL_PROFILES_def)

lemma research_parse_Inr: "research_profile_parse i = Inr p \<longleftrightarrow> i = research_id p"
  by (cases p) (auto simp: research_profile_parse_def ALL_PROFILES_def split: if_splits)

lemma all_profiles: "p \<in> set ALL_PROFILES"
  by (cases p) (simp_all add: ALL_PROFILES_def)

subsection \<open>Values of requests\<close>

text \<open>
  The accessors of \<open>serde_json::Value\<close>. A number is its text: an unsigned integer when all of it
  is digits and it fits 64 bits, a signed one with a minus sign before it. The fields of an
  object have distinct names.
\<close>

fun as_object :: "json \<Rightarrow> (string \<times> json) list option" where
  "as_object (JObject fs) = Some fs"
| "as_object _ = None"

fun json_str :: "json \<Rightarrow> string option" where
  "json_str (JString s) = Some s"
| "json_str _ = None"

definition nat_of_digits :: "string \<Rightarrow> nat" where
  "nat_of_digits s = foldl (\<lambda>n c. 10 * n + (of_char c - 48)) 0 s"

fun as_u64 :: "json \<Rightarrow> nat option" where
  "as_u64 (JNumber t) =
     (if t \<noteq> [] \<and> list_all is_ascii_digit t \<and> nat_of_digits t \<le> u64_max then Some (nat_of_digits t) else None)"
| "as_u64 _ = None"

fun is_i64 :: "json \<Rightarrow> bool" where
  "is_i64 (JNumber t) =
     (case t of
        [] \<Rightarrow> False
      | c # r \<Rightarrow>
          if c = CHR ''-'' then r \<noteq> [] \<and> list_all is_ascii_digit r \<and> nat_of_digits r \<in> {1..2 ^ 63}
          else list_all is_ascii_digit t \<and> nat_of_digits t < 2 ^ 63)"
| "is_i64 _ = False"

definition object_with_keys :: "json \<Rightarrow> string list \<Rightarrow> string + (string \<times> json) list" where
  "object_with_keys v ks =
     (case as_object v of
        None \<Rightarrow> Inl ''expected_object''
      | Some fs \<Rightarrow> if list_ex (\<lambda>(k, _). k \<notin> set ks) fs then Inl ''unexpected_field'' else Inr fs)"

definition profile_argument :: "(string \<times> json) list \<Rightarrow> string + research_profile" where
  "profile_argument fs =
     and_then (ok_or ''profile_required'' (Option.bind (map_of fs ''profile'') json_str)) research_profile_parse"

definition ttl_error :: string where
  "ttl_error = ''ttl_must_be_integer_within_profile_limit''"

definition launch_arguments :: "json \<Rightarrow> string + research_profile \<times> nat" where
  "launch_arguments arguments =
     and_then (object_with_keys arguments [''profile'', ''ttl_seconds'']) (\<lambda>fs.
       and_then (profile_argument fs) (\<lambda>p.
         and_then (case map_of fs ''ttl_seconds'' of
             None \<Rightarrow> Inr (fst (ttl_limits p))
           | Some v \<Rightarrow> ok_or ttl_error (as_u64 v)) (\<lambda>ttl.
           if 1 \<le> ttl \<and> ttl \<le> snd (ttl_limits p) then Inr (p, ttl) else Inl ttl_error)))"

definition stop_arguments :: "json \<Rightarrow> string + research_profile" where
  "stop_arguments arguments = and_then (object_with_keys arguments [''profile'']) profile_argument"

lemma launch_arguments_Inr:
  "launch_arguments v = Inr (p, ttl) \<Longrightarrow> 1 \<le> ttl \<and> ttl \<le> snd (ttl_limits p)"
  by (auto simp: launch_arguments_def and_then_Inr split: if_splits)

subsection \<open>The manifest\<close>

type_synonym digest = "8 word list"
type_synonym manifest = "research_profile \<Rightarrow> digest option"

definition hex_value :: "char \<Rightarrow> 8 word" where
  "hex_value c = (let b = of_nat (of_char c) in if is_ascii_digit c then b - 48 else b - 97 + 10)"

fun hex_pairs :: "string \<Rightarrow> digest" where
  "hex_pairs (a # b # s) = (hex_value a * 16 + hex_value b) # hex_pairs s"
| "hex_pairs _ = []"

definition manifest_hash :: "json \<Rightarrow> string + digest" where
  "manifest_hash v =
     and_then (ok_or ''invalid_sha256'' (json_str v)) (\<lambda>hex.
       if length hex \<noteq> 64 \<or> \<not> list_all is_lower_hex hex then Inl ''invalid_sha256'' else Inr (hex_pairs hex))"

fun manifest_profiles :: "(string \<times> json) list \<Rightarrow> manifest \<Rightarrow> string + manifest" where
  "manifest_profiles [] m = Inr m"
| "manifest_profiles ((i, v) # fs) m =
     and_then (research_profile_parse i) (\<lambda>p.
       and_then (manifest_hash v) (\<lambda>h. manifest_profiles fs (m(p := Some h))))"

definition manifest_parse :: "(bytes \<Rightarrow> json option) \<Rightarrow> bytes \<Rightarrow> string + manifest" where
  "manifest_parse from_json bs =
     (if MAX_MANIFEST < length bs then Inl ''manifest_too_large''
      else and_then (ok_or ''invalid_manifest_json'' (from_json bs)) (\<lambda>v.
        and_then (object_with_keys v [''version'', ''profiles'']) (\<lambda>fs.
          if Option.bind (map_of fs ''version'') as_u64 \<noteq> Some 1 then Inl ''unsupported_manifest_version''
          else and_then (ok_or ''manifest_profiles_required'' (Option.bind (map_of fs ''profiles'') as_object))
            (\<lambda>ps. manifest_profiles ps (\<lambda>_. None)))))"

lemma hex_value_digit:
  assumes "is_lower_hex c"
  shows "\<exists>v. digit_value c = Some v \<and> hex_value c = of_nat v"
  using assms
  by (auto simp: is_lower_hex_def digit_value_def hex_value_def is_ascii_digit_def Let_def of_nat_diff)

lemma hex_pairs_parse: "list_all is_lower_hex s \<Longrightarrow> parse_bytes s = Some (hex_pairs s)"
proof (induction s rule: hex_pairs.induct)
  case (1 a b s)
  then obtain x y where "digit_value a = Some x" "hex_value a = of_nat x"
      "digit_value b = Some y" "hex_value b = of_nat y"
    using hex_value_digit [of a] hex_value_digit [of b] by auto
  with 1 show ?case by (simp add: parse_byte_def algebra_simps)
qed simp_all

text \<open>A digest of the manifest is the one its hexadecimal text denotes.\<close>

lemma manifest_hash_exact:
  assumes "manifest_hash v = Inr h"
  shows "v = JString (concat (map show_byte h)) \<and> length h = 32"
proof -
  obtain hex where v: "v = JString hex" "length hex = 64" "list_all is_lower_hex hex" "h = hex_pairs hex"
    using assms by (cases v) (auto simp: manifest_hash_def and_then_Inr split: if_splits)
  then have p: "parse_bytes hex = Some h" by (simp add: hex_pairs_parse)
  with v have "concat (map show_byte h) = hex" by (auto intro: show_parse_bytes)
  moreover have "length h = 32" using parse_bytes_lower [OF v(3)] p v(2) by auto
  ultimately show ?thesis using v(1) by simp
qed

lemma manifest_profiles_exact:
  "manifest_profiles fs m = Inr m' \<Longrightarrow> m' p = Some h \<Longrightarrow>
   m p = Some h \<or> (research_id p, JString (concat (map show_byte h))) \<in> set fs"
proof (induction fs m arbitrary: m' rule: manifest_profiles.induct)
  case (2 i v fs m)
  then obtain q g where q: "i = research_id q" "manifest_hash v = Inr g"
      "manifest_profiles fs (m(q := Some g)) = Inr m'"
    by (auto simp: and_then_Inr research_parse_Inr)
  with "2.IH" [OF q(3)] "2.prems"(2) manifest_hash_exact [OF q(2)] show ?case
    by (auto split: if_splits)
qed simp

end
