(* ===== verification/Research_Children.thy ===== *)
theory Research_Children
  imports Research_Policy "HOL-Library.State_Monad"
begin

text \<open>
  \<open>src/research_mcp/children.rs\<close> and \<open>src/research_mcp/kit.rs\<close>: the helper processes of the
  research launcher and the inspection of the kit they come from. The code threads its state
  through many system calls, so its functions are actions of the state monad. The kernel is a
  parameter: the n-th system call receives the n-th answer, of the kind the call asks for. A
  call that was interrupted and repeated is one call. The kernel answers that it has no such
  child for every process that is not an unreaped child, and gives no process identifier that
  is still in use. The trace records what was done to processes, the newest entry first.
\<close>

subsection \<open>The kernel\<close>

datatype wait_answer = WaitExited | WaitRunning | WaitNoChild | WaitFailed

record stamp =
  st_dev :: nat
  st_ino :: nat
  st_uid :: nat
  st_mode :: "32 word"
  st_len :: nat
  st_mtime :: "int \<times> int"
  st_ctime :: "int \<times> int"
  st_is_dir :: bool
  st_is_file :: bool

record kernel =
  ro_clock :: "nat \<Rightarrow> instant"
  ro_wait :: "nat \<Rightarrow> wait_answer"
  ro_kill :: "nat \<Rightarrow> nat option"
  ro_members :: "nat \<Rightarrow> int \<times> nat list"
  ro_reap :: "nat \<Rightarrow> string + int option"
  ro_terminate :: "nat \<Rightarrow> bool option"
  ro_output :: "nat \<Rightarrow> nat list \<times> nat list"
  ro_spawn :: "nat \<Rightarrow> nat option"
  ro_pipes :: "nat \<Rightarrow> bool"
  ro_host :: "nat \<Rightarrow> research_host"
  ro_shutdown :: "nat \<Rightarrow> bool"
  ro_unprivileged :: "nat \<Rightarrow> bool"
  ro_euid :: "nat \<Rightarrow> nat"
  ro_open :: "nat \<Rightarrow> bool"
  ro_stamp :: "nat \<Rightarrow> stamp option"
  ro_read :: "nat \<Rightarrow> bytes option"

text \<open>Effects on processes; a spawn names the helper, its arguments and the digest it was checked against.\<close>

datatype effect =
    Spawned nat research_profile "string list" digest
  | GroupKilled nat
  | LeaderKilled nat
  | Terminated nat
  | Reaped nat
  | LostChild nat
  | ReapFailed nat

fun owned_pids :: "effect list \<Rightarrow> nat set" where
  "owned_pids [] = {}"
| "owned_pids (Spawned pid _ _ _ # t) = insert pid (owned_pids t)"
| "owned_pids (Reaped pid # t) = owned_pids t - {pid}"
| "owned_pids (LostChild pid # t) = owned_pids t - {pid}"
| "owned_pids (_ # t) = owned_pids t"

subsection \<open>State\<close>

record output_count =
  oc_bytes :: nat
  oc_capped :: bool

record summary =
  sm_state :: string
  sm_stdout :: output_count
  sm_stderr :: output_count
  sm_exit_code :: "int option"
  sm_appkit :: "bool option"
  sm_reaped :: bool
  sm_forced :: bool
  sm_cleanup :: string
  sm_errno :: "nat option"
  sm_membership :: string

record owned =
  ow_pid :: nat
  ow_deadline :: instant
  ow_stopping :: "(string \<times> instant) option"

record launcher =
  lc_calls :: nat
  lc_trace :: "effect list"
  lc_summary :: "research_profile \<Rightarrow> summary"
  lc_active :: "research_profile \<Rightarrow> owned option"

definition OUTPUT_CAP :: nat where
  "OUTPUT_CAP = 64 * 1024"

definition output_default :: output_count where
  "output_default = \<lparr>oc_bytes = 0, oc_capped = False\<rparr>"

definition observe :: "nat \<Rightarrow> output_count \<Rightarrow> output_count" where
  "observe n c =
     \<lparr>oc_bytes = min (saturating_add usize_max (oc_bytes c) n) OUTPUT_CAP,
      oc_capped = (oc_capped c \<or> OUTPUT_CAP - oc_bytes c < n)\<rparr>"

definition summary_default :: summary where
  "summary_default =
     \<lparr>sm_state = ''never_started'', sm_stdout = output_default, sm_stderr = output_default,
      sm_exit_code = None, sm_appkit = None, sm_reaped = False, sm_forced = False,
      sm_cleanup = ''not_requested'', sm_errno = None, sm_membership = ''not_checked''\<rparr>"

definition launcher_default :: launcher where
  "launcher_default =
     \<lparr>lc_calls = 0, lc_trace = [], lc_summary = (\<lambda>_. summary_default), lc_active = (\<lambda>_. None)\<rparr>"

subsection \<open>Actions\<close>

type_synonym 'a action = "(launcher, 'a) state"

definition ask :: "(nat \<Rightarrow> 'a) \<Rightarrow> 'a action" where
  "ask f = State (\<lambda>s. (f (lc_calls s), s\<lparr>lc_calls := Suc (lc_calls s)\<rparr>))"

definition emit :: "effect \<Rightarrow> unit action" where
  "emit e = State (\<lambda>s. ((), s\<lparr>lc_trace := e # lc_trace s\<rparr>))"

definition set_active :: "research_profile \<Rightarrow> owned option \<Rightarrow> unit action" where
  "set_active p x = State (\<lambda>s. ((), s\<lparr>lc_active := (lc_active s)(p := x)\<rparr>))"

definition get_active :: "research_profile \<Rightarrow> owned option action" where
  "get_active p = State (\<lambda>s. (lc_active s p, s))"

definition get_summary :: "research_profile \<Rightarrow> summary action" where
  "get_summary p = State (\<lambda>s. (lc_summary s p, s))"

definition edit_summary :: "research_profile \<Rightarrow> (summary \<Rightarrow> summary) \<Rightarrow> unit action" where
  "edit_summary p f = State (\<lambda>s. ((), s\<lparr>lc_summary := (lc_summary s)(p := f (lc_summary s p))\<rparr>))"

definition is_owned :: "nat \<Rightarrow> bool action" where
  "is_owned pid = State (\<lambda>s. (pid \<in> owned_pids (lc_trace s), s))"

fun for_each :: "('a \<Rightarrow> unit action) \<Rightarrow> 'a list \<Rightarrow> unit action" where
  "for_each f [] = State_Monad.return ()"
| "for_each f (x # xs) = do { f x; for_each f xs }"

text \<open>The \<open>?\<close> operator in an action.\<close>

definition try_ok :: "(string + 'a) action \<Rightarrow> ('a \<Rightarrow> (string + 'b) action) \<Rightarrow> (string + 'b) action" where
  "try_ok m f = do { r \<leftarrow> m; (case r of Inl e \<Rightarrow> State_Monad.return (Inl e) | Inr x \<Rightarrow> f x) }"

definition check :: "string \<Rightarrow> bool \<Rightarrow> (string + unit) action" where
  "check e b = State_Monad.return (if b then Inr () else Inl e)"

lemmas action_defs =
  ask_def emit_def set_active_def get_active_def get_summary_def edit_summary_def is_owned_def
  try_ok_def check_def

subsection \<open>One child\<close>

text \<open>\<open>waitid\<close> without reaping; \<open>None\<close> when the process is no child of the launcher any more.\<close>

definition waitable :: "kernel \<Rightarrow> nat \<Rightarrow> bool option action" where
  "waitable os pid = do {
     a \<leftarrow> ask (ro_wait os);
     ours \<leftarrow> is_owned pid;
     (if \<not> ours then State_Monad.return None
      else if a = WaitNoChild then do { emit (LostChild pid); State_Monad.return None }
      else State_Monad.return (Some (a = WaitExited))) }"

definition drain_fd :: "nat list \<Rightarrow> output_count \<Rightarrow> output_count" where
  "drain_fd counts c = fold observe (take 4 (takeWhile (\<lambda>n. 0 < n) counts)) c"

definition drain :: "kernel \<Rightarrow> research_profile \<Rightarrow> unit action" where
  "drain os p = do {
     n \<leftarrow> ask (ro_output os);
     edit_summary p (\<lambda>m. m\<lparr>sm_stdout := drain_fd (fst n) (sm_stdout m), sm_stderr := drain_fd (snd n) (sm_stderr m)\<rparr>) }"

definition EPERM :: nat where "EPERM = 1"
definition ESRCH :: nat where "ESRCH = 3"

definition only_exited_leader :: "nat \<Rightarrow> nat list \<Rightarrow> int \<Rightarrow> bool" where
  "only_exited_leader pid members bytes \<longleftrightarrow> bytes = 4 \<and> 1 < length members \<and> members ! 0 = pid"

definition cleanup_group :: "kernel \<Rightarrow> nat \<Rightarrow> bool \<Rightarrow> (string \<times> nat option \<times> string) action" where
  "cleanup_group os pid exited = do {
     errno \<leftarrow> ask (ro_kill os);
     emit (GroupKilled pid);
     (if errno = None then State_Monad.return (''signalled'', errno, ''not_checked'')
      else if errno = Some ESRCH then State_Monad.return (''already_absent'', errno, ''not_checked'')
      else if errno = Some EPERM \<and> exited then do {
        again \<leftarrow> waitable os pid;
        (if again = Some True then do {
           l \<leftarrow> ask (ro_members os);
           (if only_exited_leader pid (take 256 (snd l @ replicate 256 0)) (fst l)
            then State_Monad.return (''no_live_members'', errno, ''exited_owned_leader_only'')
            else State_Monad.return (''failed'', errno, ''additional_or_unverified_members'')) }
         else State_Monad.return (''failed'', errno, ''not_checked'')) }
      else State_Monad.return (''failed'', errno, ''not_checked'')) }"

definition kill_leader :: "bool \<Rightarrow> nat \<Rightarrow> unit action" where
  "kill_leader exited pid = (if exited then State_Monad.return () else emit (LeaderKilled pid))"

text \<open>\<open>Child::wait\<close>: a process that is not our child cannot be waited for.\<close>

definition reap_child :: "kernel \<Rightarrow> nat \<Rightarrow> (string + int option) action" where
  "reap_child os pid = do {
     a \<leftarrow> ask (ro_reap os);
     ours \<leftarrow> is_owned pid;
     (if ours \<and> is_ok a then do { emit (Reaped pid); State_Monad.return a }
      else do { emit (ReapFailed pid); State_Monad.return (Inl ''wait failed'') }) }"

definition finish_state :: "string \<Rightarrow> summary \<Rightarrow> summary" where
  "finish_state reason m =
     m\<lparr>sm_state :=
         (if \<not> sm_reaped m then ''reap_failed''
          else if sm_cleanup m = ''failed'' then ''cleanup_failed'' else reason)\<rparr>"

definition finish_child :: "kernel \<Rightarrow> research_profile \<Rightarrow> string \<Rightarrow> unit action" where
  "finish_child os p reason = do {
     o' \<leftarrow> get_active p;
     (case o' of
        None \<Rightarrow> State_Monad.return ()
      | Some o1 \<Rightarrow> do {
          set_active p None;
          w \<leftarrow> waitable os (ow_pid o1);
          (case w of
             None \<Rightarrow> edit_summary p (\<lambda>m. m\<lparr>sm_state := ''ownership_lost''\<rparr>)
           | Some exited \<Rightarrow> do {
               c \<leftarrow> cleanup_group os (ow_pid o1) exited;
               edit_summary p (\<lambda>m. m\<lparr>sm_cleanup := fst c, sm_errno := fst (snd c), sm_membership := snd (snd c),
                                     sm_forced := \<not> exited\<rparr>);
               kill_leader exited (ow_pid o1);
               status \<leftarrow> reap_child os (ow_pid o1);
               edit_summary p (\<lambda>m. m\<lparr>sm_reaped := is_ok status,
                                     sm_exit_code := (case status of Inr c \<Rightarrow> c | Inl _ \<Rightarrow> None)\<rparr>);
               drain os p;
               edit_summary p (finish_state reason) }) }) }"

definition terminate_app :: "kernel \<Rightarrow> nat \<Rightarrow> bool option action" where
  "terminate_app os pid = do {
     w \<leftarrow> waitable os pid;
     (if w \<noteq> Some False then State_Monad.return None
      else do {
        a \<leftarrow> ask (ro_terminate os);
        (if a = None then State_Monad.return None else do { emit (Terminated pid); State_Monad.return a }) }) }"

definition progress_stop :: "kernel \<Rightarrow> research_profile \<Rightarrow> unit action" where
  "progress_stop os p = do {
     o' \<leftarrow> get_active p;
     (case Option.bind o' (\<lambda>x. map_option (\<lambda>stop. (ow_pid x, stop)) (ow_stopping x)) of
        None \<Rightarrow> State_Monad.return ()
      | Some (pid, reason, deadline) \<Rightarrow> do {
          w \<leftarrow> waitable os pid;
          (case w of
             None \<Rightarrow> finish_child os p ''ownership_lost''
           | Some exited \<Rightarrow> do {
               now \<leftarrow> ask (ro_clock os);
               m \<leftarrow> get_summary p;
               (case stop_action p exited (deadline \<le> now) (sm_appkit m) of
                  CleanupGroup \<Rightarrow> finish_child os p reason
                | RequestAppKit \<Rightarrow> do {
                    a \<leftarrow> terminate_app os pid;
                    edit_summary p (\<lambda>m. m\<lparr>sm_appkit := a\<rparr>) }
                | WaitMore \<Rightarrow> State_Monad.return ()) }) }) }"

definition request_stop :: "kernel \<Rightarrow> research_profile \<Rightarrow> string \<Rightarrow> unit action" where
  "request_stop os p reason = do {
     o' \<leftarrow> get_active p;
     (case o' of
        None \<Rightarrow> State_Monad.return ()
      | Some o1 \<Rightarrow> do {
          (if ow_stopping o1 = None then do {
             now \<leftarrow> ask (ro_clock os);
             set_active p (Some (o1\<lparr>ow_stopping := Some (reason, now + from_millis GUI_STOP_GRACE_MS)\<rparr>));
             edit_summary p (\<lambda>m. m\<lparr>sm_state := ''stopping''\<rparr>) }
           else State_Monad.return ());
          progress_stop os p }) }"

definition tick_turn :: "kernel \<Rightarrow> research_profile \<Rightarrow> owned \<Rightarrow> bool option \<Rightarrow> unit action" where
  "tick_turn os p x w =
     (case w of
        None \<Rightarrow> finish_child os p ''ownership_lost''
      | Some True \<Rightarrow> finish_child os p (case ow_stopping x of Some (reason, _) \<Rightarrow> reason | None \<Rightarrow> ''exited'')
      | Some False \<Rightarrow>
          if ow_stopping x \<noteq> None then progress_stop os p
          else do {
            now \<leftarrow> ask (ro_clock os);
            (if ow_deadline x \<le> now then request_stop os p ''ttl_expired'' else State_Monad.return ()) })"

definition tick_profile :: "kernel \<Rightarrow> research_profile \<Rightarrow> unit action" where
  "tick_profile os p = do {
     o' \<leftarrow> get_active p;
     (case o' of
        None \<Rightarrow> State_Monad.return ()
      | Some x \<Rightarrow> do { drain os p; w \<leftarrow> waitable os (ow_pid x); tick_turn os p x w }) }"

definition tick :: "kernel \<Rightarrow> unit action" where
  "tick os = for_each (tick_profile os) ALL_PROFILES"

definition stop_child :: "kernel \<Rightarrow> research_profile \<Rightarrow> unit action" where
  "stop_child os p = request_stop os p ''stopped''"

definition shutdown_children :: "kernel \<Rightarrow> unit action" where
  "shutdown_children os = for_each (\<lambda>p. request_stop os p ''server_shutdown'') ALL_PROFILES"

definition has_active :: "launcher \<Rightarrow> bool" where
  "has_active s \<longleftrightarrow> list_ex (\<lambda>p. lc_active s p \<noteq> None) ALL_PROFILES"

subsection \<open>The kit\<close>

text \<open>An open file is not represented; every request for its metadata gets the next answer.\<close>

definition open_at :: "kernel \<Rightarrow> (string + unit) action" where
  "open_at os = do { ok \<leftarrow> ask (ro_open os); check ''missing_or_unsafe_kit_asset'' ok }"

definition owned_file :: "kernel \<Rightarrow> bool \<Rightarrow> bool \<Rightarrow> (string + stamp) action" where
  "owned_file os directory executable = do {
     m \<leftarrow> ask (ro_stamp os);
     (case m of
        None \<Rightarrow> State_Monad.return (Inl ''asset_metadata_unavailable'')
      | Some st \<Rightarrow> do {
          euid \<leftarrow> ask (ro_euid os);
          State_Monad.return
            (if st_uid st \<noteq> euid \<or> and (st_mode st) 0xC12 \<noteq> 0 \<or>
                (if directory then \<not> st_is_dir st else \<not> st_is_file st) \<or>
                (executable \<and> and (st_mode st) 0x40 = 0)
             then Inl ''asset_requires_current_uid_no_group_other_write_and_safe_type''
             else Inr st) }) }"

definition unchanged :: "stamp \<Rightarrow> stamp \<Rightarrow> bool" where
  "unchanged a b \<longleftrightarrow>
     st_dev a = st_dev b \<and> st_ino a = st_ino b \<and> st_uid a = st_uid b \<and> st_mode a = st_mode b \<and>
     st_len a = st_len b \<and> st_mtime a = st_mtime b \<and> st_ctime a = st_ctime b"

fun open_parts :: "kernel \<Rightarrow> string list \<Rightarrow> (string + unit) action" where
  "open_parts os [] = State_Monad.return (Inr ())"
| "open_parts os (part # parts) =
     (if normal_part part then try_ok (open_at os) (\<lambda>_. open_parts os parts) else open_parts os parts)"

definition open_root :: "kernel \<Rightarrow> string \<Rightarrow> (string + unit) action" where
  "open_root os path = do {
     same \<leftarrow> ask (ro_unprivileged os);
     try_ok (check ''unsafe_root_or_elevated_launcher'' (valid_root path \<and> same)) (\<lambda>_. do {
       slash \<leftarrow> ask (ro_open os);
       try_ok (check ''root_unavailable'' slash) (\<lambda>_.
         try_ok (open_parts os (split_at CHR ''/'' path)) (\<lambda>_.
           try_ok (owned_file os True False) (\<lambda>_. State_Monad.return (Inr ())))) }) }"

record kit =
  kt_path :: string
  kt_stamp :: stamp
  kt_manifest :: manifest

definition MANIFEST_NAME :: string where
  "MANIFEST_NAME = ''research-manifest.json''"

definition kit_open :: "(bytes \<Rightarrow> json option) \<Rightarrow> kernel \<Rightarrow> string \<Rightarrow> (string + kit) action" where
  "kit_open from_json os path =
     try_ok (open_root os path) (\<lambda>_.
     try_ok (open_at os) (\<lambda>_.
     try_ok (owned_file os False False) (\<lambda>st.
     try_ok (check ''manifest_too_large'' (st_len st \<le> MAX_MANIFEST)) (\<lambda>_. do {
       bs \<leftarrow> ask (ro_read os);
       try_ok (State_Monad.return (ok_or ''manifest_read_failed'' (map_option (take (MAX_MANIFEST + 1)) bs))) (\<lambda>bs.
       try_ok (State_Monad.return (manifest_parse from_json bs)) (\<lambda>m.
       try_ok (owned_file os False False) (\<lambda>st'.
       try_ok (check ''manifest_changed'' (unchanged st st')) (\<lambda>_.
         State_Monad.return (Inr \<lparr>kt_path = path, kt_stamp = st, kt_manifest = m\<rparr>))))) }))))"

fun helper_parts :: "kernel \<Rightarrow> string list \<Rightarrow> (string + stamp) action" where
  "helper_parts os [] = State_Monad.return (Inl ''invalid_fixed_profile_path'')"
| "helper_parts os (part # parts) =
     (if \<not> normal_part part then State_Monad.return (Inl ''invalid_fixed_profile_path'')
      else try_ok (open_at os) (\<lambda>_.
        try_ok (owned_file os (parts \<noteq> []) (parts = [])) (\<lambda>st.
          if parts = []
          then State_Monad.return
            (if st_len st = 0 \<or> MAX_HELPER < st_len st then Inl ''helper_size_out_of_bounds'' else Inr st)
          else helper_parts os parts)))"

definition kit_helper :: "kernel \<Rightarrow> kit \<Rightarrow> research_profile \<Rightarrow> (string + stamp) action" where
  "kit_helper os k p =
     try_ok (check ''profile_hash_missing'' (kt_manifest k p \<noteq> None)) (\<lambda>_. do {
       clone \<leftarrow> ask (ro_open os);
       try_ok (check ''root_unavailable'' clone) (\<lambda>_. helper_parts os (split_at CHR ''/'' (helper_path p))) })"

definition kit_inspect :: "kernel \<Rightarrow> kit \<Rightarrow> research_profile \<Rightarrow> (string + unit) action" where
  "kit_inspect os k p = try_ok (kit_helper os k p) (\<lambda>_. State_Monad.return (Inr ()))"

definition metadata_of_root :: "kernel \<Rightarrow> (string + stamp) action" where
  "metadata_of_root os = do { m \<leftarrow> ask (ro_stamp os); State_Monad.return (ok_or ''root_unavailable'' m) }"

text \<open>The disjunction of the source stops at the first file that changed.\<close>

definition recheck_file :: "stamp \<Rightarrow> (string + stamp) action \<Rightarrow> (string + unit) action" where
  "recheck_file st m = try_ok m (\<lambda>st'. check ''kit_changed_during_verification'' (unchanged st st'))"

definition kit_recheck :: "kernel \<Rightarrow> kit \<Rightarrow> research_profile \<Rightarrow> stamp \<Rightarrow> (string + unit) action" where
  "kit_recheck os k p helper =
     try_ok (open_root os (kt_path k)) (\<lambda>_.
     try_ok (metadata_of_root os) (\<lambda>original.
     try_ok (metadata_of_root os) (\<lambda>current.
     try_ok (check ''root_changed'' (st_dev original = st_dev current \<and> st_ino original = st_ino current)) (\<lambda>_.
     try_ok (open_at os) (\<lambda>_.
     try_ok (recheck_file (kt_stamp k) (owned_file os False False)) (\<lambda>_.
     try_ok (recheck_file (kt_stamp k) (owned_file os False False)) (\<lambda>_.
     try_ok (recheck_file helper (owned_file os False True)) (\<lambda>_.
       recheck_file helper (kit_helper os k p)))))))))"

lemma digest_decreases:
  "chunk \<noteq> [] \<Longrightarrow> \<not> lim < a + length chunk \<Longrightarrow> lim - (a + length chunk) < lim - a"
  by (cases chunk) auto

text \<open>
  The loop of \<open>verify\<close>: the upkeep runs before every read. \<open>acc\<close> are the bytes given to the digest;
  the loop ends because every read but the last is not empty and their total is bounded.
\<close>

function digest_loop :: "kernel \<Rightarrow> unit action \<Rightarrow> bytes \<Rightarrow> launcher \<Rightarrow> (string + bytes) \<times> launcher" where
  "digest_loop os upkeep acc s =
     (case run_state (do { upkeep; stopping \<leftarrow> ask (ro_shutdown os);
             (if stopping then State_Monad.return (Inl ''server_shutting_down'')
              else do { r \<leftarrow> ask (ro_read os); State_Monad.return (ok_or ''helper_read_failed'' r) }) }) s of
        (Inl e, s') \<Rightarrow> (Inl e, s')
      | (Inr chunk, s') \<Rightarrow>
          if chunk = [] then (Inr acc, s')
          else if MAX_HELPER < length acc + length chunk then (Inl ''helper_size_out_of_bounds'', s')
          else digest_loop os upkeep (acc @ chunk) s')"
  by pat_completeness auto
termination
proof (relation "measure (\<lambda>(os, upkeep, acc, s). MAX_HELPER - length acc)")
qed (simp, simp only: in_measure prod.case length_append, rule digest_decreases, assumption+)

declare digest_loop.simps [simp del]

definition kit_verify ::
  "(bytes \<Rightarrow> digest) \<Rightarrow> kernel \<Rightarrow> kit \<Rightarrow> research_profile \<Rightarrow> unit action \<Rightarrow> (string + stamp \<times> digest) action" where
  "kit_verify sha256 os k p upkeep =
     try_ok (kit_helper os k p) (\<lambda>helper.
     try_ok (State (digest_loop os upkeep [])) (\<lambda>contents.
     try_ok (check ''sha256_mismatch'' (Some (sha256 contents) = kt_manifest k p)) (\<lambda>_.
     try_ok (kit_recheck os k p helper) (\<lambda>_. State_Monad.return (Inr (helper, sha256 contents))))))"

subsection \<open>Launching\<close>

definition spawn_helper :: "kernel \<Rightarrow> research_profile \<Rightarrow> digest \<Rightarrow> (string + nat) action" where
  "spawn_helper os p d = do {
     a \<leftarrow> ask (ro_spawn os);
     (case a of
        None \<Rightarrow> State_Monad.return (Inl ''helper_spawn_failed'')
      | Some pid \<Rightarrow> do {
          used \<leftarrow> is_owned pid;
          (if used then State_Monad.return (Inl ''helper_spawn_failed'')
           else do { emit (Spawned pid p (helper_argv p) d); State_Monad.return (Inr pid) }) }) }"

definition active_count :: "launcher \<Rightarrow> nat" where
  "active_count s = length (filter (\<lambda>p. lc_active s p \<noteq> None) ALL_PROFILES)"

definition adopt :: "kernel \<Rightarrow> research_profile \<Rightarrow> nat \<Rightarrow> nat \<Rightarrow> (string + unit) action" where
  "adopt os p ttl pid = do {
     now \<leftarrow> ask (ro_clock os);
     set_active p (Some \<lparr>ow_pid = pid, ow_deadline = now + from_secs ttl, ow_stopping = None\<rparr>);
     edit_summary p (\<lambda>_. summary_default\<lparr>sm_state := ''running''\<rparr>);
     ok \<leftarrow> ask (ro_pipes os);
     (if ok then State_Monad.return (Inr ())
      else do { request_stop os p ''pipe_setup_failed''; State_Monad.return (Inl ''pipe_setup_failed'') }) }"

definition launch_verified ::
  "(bytes \<Rightarrow> json option) \<Rightarrow> (bytes \<Rightarrow> digest) \<Rightarrow> kernel \<Rightarrow> string \<Rightarrow> research_profile \<Rightarrow> nat \<Rightarrow> (string + unit) action" where
  "launch_verified from_json sha256 os root p ttl = do {
     host \<leftarrow> ask (ro_host os);
     try_ok (State_Monad.return (host_check host)) (\<lambda>_.
     try_ok (kit_open from_json os root) (\<lambda>k.
     try_ok (kit_verify sha256 os k p (tick os)) (\<lambda>helper. do {
       stopping \<leftarrow> ask (ro_shutdown os);
       try_ok (check ''server_shutting_down'' (\<not> stopping)) (\<lambda>_.
       try_ok (kit_recheck os k p (fst helper)) (\<lambda>_.
       try_ok (spawn_helper os p (snd helper)) (adopt os p ttl))) }))) }"

definition launch_child ::
  "(bytes \<Rightarrow> json option) \<Rightarrow> (bytes \<Rightarrow> digest) \<Rightarrow> kernel \<Rightarrow> string \<Rightarrow> research_profile \<Rightarrow> nat \<Rightarrow> (string + unit) action" where
  "launch_child from_json sha256 os root p ttl =
     try_ok (check ''invalid_profile_ttl'' (1 \<le> ttl \<and> ttl \<le> snd (ttl_limits p))) (\<lambda>_. do {
       tick os;
       s \<leftarrow> State_Monad.get;
       try_ok (check ''profile_already_running'' (lc_active s p = None)) (\<lambda>_.
       try_ok (check ''child_limit_reached'' (active_count s < MAX_CHILDREN)) (\<lambda>_.
         launch_verified from_json sha256 os root p ttl)) })"

subsection \<open>Destruction\<close>

text \<open>The loop of \<open>drop\<close>; each pass sleeps. The answer is whether the loop has ended.\<close>

fun drop_loop :: "kernel \<Rightarrow> nat \<Rightarrow> launcher \<Rightarrow> bool \<times> launcher" where
  "drop_loop os 0 s = (\<not> has_active s, s)"
| "drop_loop os (Suc n) s = (if has_active s then drop_loop os n (snd (run_state (tick os) s)) else (True, s))"

definition drop_children :: "kernel \<Rightarrow> nat \<Rightarrow> launcher \<Rightarrow> bool \<times> launcher" where
  "drop_children os n s = drop_loop os n (snd (run_state (shutdown_children os) s))"

subsection \<open>Invariants of actions\<close>

definition keeps :: "(launcher \<Rightarrow> bool) \<Rightarrow> 'a action \<Rightarrow> bool" where
  "keeps I m \<longleftrightarrow> (\<forall>s. I s \<longrightarrow> I (snd (run_state m s)))"

named_theorems keeps_rules \<open>actions that keep an invariant\<close>

lemma keepsI: "(\<And>s. I s \<Longrightarrow> I (snd (run_state m s))) \<Longrightarrow> keeps I m"
  by (simp add: keeps_def)

lemma keepsD: "keeps I m \<Longrightarrow> I s \<Longrightarrow> I (snd (run_state m s))"
  by (simp add: keeps_def)

lemma keeps_return [keeps_rules]: "keeps I (State_Monad.return x)"
  by (simp add: keeps_def)

lemma keeps_bind [keeps_rules]:
  "keeps I m \<Longrightarrow> (\<And>x. keeps I (f x)) \<Longrightarrow> keeps I (State_Monad.bind m f)"
  by (auto simp: keeps_def split: prod.splits)

lemma keeps_try_ok [keeps_rules]: "keeps I m \<Longrightarrow> (\<And>x. keeps I (f x)) \<Longrightarrow> keeps I (try_ok m f)"
  unfolding try_ok_def by (intro keeps_bind) (auto simp: keeps_return split: sum.split)

lemma keeps_if [keeps_rules]: "keeps I m \<Longrightarrow> keeps I n \<Longrightarrow> keeps I (if b then m else n)"
  by simp

lemma keeps_option [keeps_rules]:
  "keeps I m \<Longrightarrow> (\<And>x. keeps I (f x)) \<Longrightarrow> keeps I (case x of None \<Rightarrow> m | Some y \<Rightarrow> f y)"
  by (cases x) simp_all

lemma keeps_for_each [keeps_rules]: "(\<And>x. keeps I (f x)) \<Longrightarrow> keeps I (for_each f xs)"
  by (induction xs) (simp_all add: keeps_rules)

lemma keeps_check [keeps_rules]: "keeps I (check e b)"
  by (simp add: check_def keeps_return)

lemma keeps_get [keeps_rules]: "keeps I State_Monad.get"
  by (simp add: keeps_def)

lemma digest_loop_keeps:
  assumes "keeps I upkeep" "keeps I (ask (ro_shutdown os))" "keeps I (ask (ro_read os))"
  shows "I s \<Longrightarrow> I (snd (digest_loop os upkeep acc s))"
  using assms
proof (induction os upkeep acc s rule: digest_loop.induct)
  case (1 os upkeep acc s)
  let ?m = "do { upkeep; stopping \<leftarrow> ask (ro_shutdown os);
      (if stopping then State_Monad.return (Inl ''server_shutting_down'')
       else do { r \<leftarrow> ask (ro_read os); State_Monad.return (ok_or ''helper_read_failed'' r) }) }"
  have k: "keeps I ?m" using "1.prems"(2-4) by (intro keeps_rules)
  obtain r s' where m: "run_state ?m s = (r, s')" by fastforce
  then have s': "I s'" using keepsD [OF k "1.prems"(1)] by simp
  show ?case
  proof (cases r)
    case (Inl e)
    with m s' show ?thesis by (simp only: digest_loop.simps [of os upkeep acc s] prod.case sum.case snd_conv)
  next
    case (Inr chunk)
    note step = digest_loop.simps [of os upkeep acc s, unfolded m [unfolded Inr], unfolded prod.case sum.case]
    show ?thesis
    proof (cases "chunk = [] \<or> MAX_HELPER < length acc + length chunk")
      case True
      with s' show ?thesis unfolding step by auto
    next
      case False
      with "1.IH" [OF m [symmetric] Inr _ _ s'] "1.prems"(2-4) show ?thesis unfolding step by auto
    qed
  qed
qed

text \<open>
  What a property of the launcher must satisfy so that all of its housekeeping keeps it: it
  does not look at the count of calls or at the summaries, and it survives the end of a child,
  a look at one, the request to a graphical child and the mark of a stop.
\<close>

locale action_invariant =
  fixes I :: "launcher \<Rightarrow> bool" and os :: kernel
  assumes calls: "I s \<Longrightarrow> I (s\<lparr>lc_calls := Suc (lc_calls s)\<rparr>)"
    and summaries: "I s \<Longrightarrow> I (s\<lparr>lc_summary := f\<rparr>)"
    and finishes: "keeps I (finish_child os p reason)"
    and waits: "keeps I (waitable os pid)"
    and terminates: "keeps I (terminate_app os pid)"
    and marks: "I s \<Longrightarrow> lc_active s p = Some x \<Longrightarrow> ow_stopping x = None \<Longrightarrow>
      I (s\<lparr>lc_active := (lc_active s)(p := Some (x\<lparr>ow_stopping := Some stop\<rparr>))\<rparr>)"
begin

lemma keeps_ask [keeps_rules]: "keeps I (ask f)"
  by (simp add: keeps_def ask_def calls)

lemma keeps_edit [keeps_rules]: "keeps I (edit_summary p f)"
  by (simp add: keeps_def edit_summary_def summaries)

lemma keeps_reads [keeps_rules]: "keeps I (get_active p)" "keeps I (get_summary p)" "keeps I (is_owned pid)"
  by (simp_all add: keeps_def get_active_def get_summary_def is_owned_def)

lemma keeps_drain: "keeps I (drain os p)"
  unfolding drain_def by (intro keeps_rules)

lemma keeps_progress: "keeps I (progress_stop os p)"
  unfolding progress_stop_def
  by (intro keeps_rules waits)
    (auto intro!: keeps_rules waits finishes terminates split: prod.split option.split stop_decision.split)

lemma keeps_request: "keeps I (request_stop os p reason)"
proof (rule keepsI)
  fix s assume s: "I s"
  show "I (snd (run_state (request_stop os p reason) s))"
  proof (cases "lc_active s p")
    case None
    with s show ?thesis by (simp add: request_stop_def get_active_def)
  next
    case (Some x)
    have I': "I (if ow_stopping x = None
        then s\<lparr>lc_calls := Suc (lc_calls s),
          lc_active := (lc_active s)(p := Some (x\<lparr>ow_stopping := Some (reason, ro_clock os (lc_calls s) + from_millis GUI_STOP_GRACE_MS)\<rparr>)),
          lc_summary := (lc_summary s)(p := (lc_summary s p)\<lparr>sm_state := ''stopping''\<rparr>)\<rparr>
        else s)"
      using s marks [OF calls [OF s], where p = p and x = x] Some by (auto intro: summaries)
    show ?thesis
      using keepsD [OF keeps_progress I', of p] Some
      by (cases "ow_stopping x") (simp_all add: request_stop_def get_active_def ask_def set_active_def edit_summary_def)
  qed
qed

lemma keeps_turn: "keeps I (tick_turn os p x w)"
  unfolding tick_turn_def
  by (intro keeps_rules) (auto intro!: keeps_rules keeps_progress keeps_request finishes split: bool.split)

lemma keeps_tick_profile: "keeps I (tick_profile os p)"
  unfolding tick_profile_def by (intro keeps_rules keeps_drain waits keeps_turn)

lemma keeps_tick: "keeps I (tick os)"
  unfolding tick_def by (intro keeps_rules keeps_tick_profile)

lemma keeps_shutdown: "keeps I (shutdown_children os)"
  unfolding shutdown_children_def by (intro keeps_rules keeps_request)

lemma keeps_owned_file [keeps_rules]: "keeps I (owned_file os d x)"
  unfolding owned_file_def by (intro keeps_rules)

lemma keeps_open_at [keeps_rules]: "keeps I (open_at os)"
  unfolding open_at_def by (intro keeps_rules)

lemma keeps_open_parts [keeps_rules]: "keeps I (open_parts os parts)"
  by (induction parts) (auto intro!: keeps_rules)

lemma keeps_open_root [keeps_rules]: "keeps I (open_root os path)"
  unfolding open_root_def by (intro keeps_rules)

lemma keeps_kit_open [keeps_rules]: "keeps I (kit_open from_json os path)"
  unfolding kit_open_def by (intro keeps_rules)

lemma keeps_helper_parts [keeps_rules]: "keeps I (helper_parts os parts)"
  by (induction parts) (auto intro!: keeps_rules)

lemma keeps_kit_helper [keeps_rules]: "keeps I (kit_helper os k p)"
  unfolding kit_helper_def by (intro keeps_rules)

lemma keeps_recheck [keeps_rules]: "keeps I (kit_recheck os k p h)"
  unfolding kit_recheck_def recheck_file_def metadata_of_root_def by (intro keeps_rules)

lemma keeps_verify: "keeps I (kit_verify sha256 os k p (tick os))"
proof -
  have "keeps I (State (digest_loop os (tick os) []))"
    using digest_loop_keeps [OF keeps_tick keeps_ask keeps_ask] by (simp add: keeps_def)
  then show ?thesis unfolding kit_verify_def by (intro keeps_rules)
qed

end

text \<open>
  Launching adds a child to an empty slot: a property that also survives that survives every
  operation. That a slot is empty is itself kept by the housekeeping, and so the check before the
  inspection of the kit still holds at the spawn.
\<close>

lemma finish_active: "lc_active (snd (run_state (finish_child os p reason) s)) = (lc_active s)(p := None)"
  by (auto simp: finish_child_def waitable_def cleanup_group_def kill_leader_def reap_child_def drain_def action_defs
      split: option.split)

lemma wait_active:
  "lc_active (snd (run_state (waitable os pid) s)) = lc_active s"
  "lc_active (snd (run_state (terminate_app os pid) s)) = lc_active s"
  by (auto simp: waitable_def terminate_app_def action_defs)

lemma empty_slot: "action_invariant (\<lambda>s. lc_active s q = None) os"
proof unfold_locales
  show "keeps (\<lambda>s. lc_active s q = None) (finish_child os p reason)" for p reason
    by (simp add: keeps_def finish_active)
qed (auto simp: keeps_def wait_active)

lemma invariant_conj:
  "action_invariant I os \<Longrightarrow> action_invariant J os \<Longrightarrow> action_invariant (\<lambda>s. I s \<and> J s) os"
  by (simp add: action_invariant_def keeps_def)

definition leads :: "(launcher \<Rightarrow> bool) \<Rightarrow> (launcher \<Rightarrow> bool) \<Rightarrow> 'a action \<Rightarrow> bool" where
  "leads P Q m \<longleftrightarrow> (\<forall>s. P s \<longrightarrow> Q (snd (run_state m s)))"

lemma leads_bind: "keeps P m \<Longrightarrow> (\<And>x. leads P Q (f x)) \<Longrightarrow> leads P Q (State_Monad.bind m f)"
  by (auto simp: keeps_def leads_def split: prod.splits)

lemma leads_try_ok:
  assumes "keeps P m" "\<And>x s s'. run_state m s = (Inr x, s') \<Longrightarrow> leads P Q (f x)" "\<And>s. P s \<Longrightarrow> Q s"
  shows "leads P Q (try_ok m f)"
  unfolding leads_def
proof (intro allI impI)
  fix s assume s: "P s"
  obtain r s' where m: "run_state m s = (r, s')" by fastforce
  then have "P s'" using keepsD [OF assms(1) s] by simp
  with m assms(2) [of s _ s'] assms(3) show "Q (snd (run_state (try_ok m f) s))"
    by (cases r) (auto simp: try_ok_def leads_def)
qed

text \<open>A digest was checked: it is the digest of some contents, and a manifest names it for the helper.\<close>

definition checked_digest ::
  "(bytes \<Rightarrow> json option) \<Rightarrow> (bytes \<Rightarrow> digest) \<Rightarrow> research_profile \<Rightarrow> digest \<Rightarrow> bool" where
  "checked_digest from_json sha256 p d \<longleftrightarrow>
     (\<exists>contents bs m. d = sha256 contents \<and> manifest_parse from_json bs = Inr m \<and> m p = Some d)"

lemma try_ok_Inr:
  "run_state (try_ok m f) s = (Inr y, s') \<longleftrightarrow> (\<exists>x s1. run_state m s = (Inr x, s1) \<and> run_state (f x) s1 = (Inr y, s'))"
  by (auto simp: try_ok_def split: prod.splits sum.splits)

lemma kit_open_manifest:
  "run_state (kit_open from_json os path) s = (Inr k, s') \<Longrightarrow> \<exists>bs. manifest_parse from_json bs = Inr (kt_manifest k)"
  by (auto simp: kit_open_def try_ok_Inr ask_def)

lemma kit_verify_digest:
  "run_state (kit_verify sha256 os k p upkeep) s = (Inr h, s') \<Longrightarrow>
   \<exists>contents. snd h = sha256 contents \<and> kt_manifest k p = Some (snd h)"
  by (auto simp: kit_verify_def try_ok_Inr check_def split: if_splits)

locale launch_invariant = action_invariant +
  fixes from_json :: "bytes \<Rightarrow> json option" and sha256 :: "bytes \<Rightarrow> digest"
  assumes spawns: "checked_digest from_json sha256 p d \<Longrightarrow>
    leads (\<lambda>s. I s \<and> lc_active s p = None) I (try_ok (spawn_helper os p d) (adopt os p ttl))"
begin

lemma leads_verified:
  "leads (\<lambda>s. I s \<and> lc_active s p = None) I (launch_verified from_json sha256 os root p ttl)"
proof -
  note both = invariant_conj [OF action_invariant_axioms empty_slot [of p os]]
  note rules = action_invariant.keeps_ask [OF both] action_invariant.keeps_kit_open [OF both]
    action_invariant.keeps_verify [OF both] action_invariant.keeps_recheck [OF both] keeps_return keeps_check
  show ?thesis
    unfolding launch_verified_def
    by (intro leads_bind leads_try_ok rules spawns)
      (auto simp: checked_digest_def dest!: kit_open_manifest kit_verify_digest)
qed

lemma keeps_launch: "keeps I (launch_child from_json sha256 os root p ttl)"
proof (rule keepsI)
  fix s assume s: "I s"
  obtain s1 where t: "run_state (tick os) s = ((), s1)" by (cases "run_state (tick os) s") auto
  have s1: "I s1" using keepsD [OF keeps_tick s] t by simp
  have "I (snd (run_state (launch_verified from_json sha256 os root p ttl) s1))" if "lc_active s1 p = None"
    using leads_verified that s1 unfolding leads_def by blast
  with s s1 show "I (snd (run_state (launch_child from_json sha256 os root p ttl) s))"
    by (simp add: launch_child_def try_ok_def check_def t)
qed

end

subsection \<open>Processes are owned\<close>

fun signalled_pids :: "effect list \<Rightarrow> nat set" where
  "signalled_pids [] = {}"
| "signalled_pids (Spawned pid _ _ _ # t) = signalled_pids t - {pid}"
| "signalled_pids (GroupKilled pid # t) = insert pid (signalled_pids t)"
| "signalled_pids (_ # t) = signalled_pids t"

text \<open>
  Every signal goes to an unreaped child; a child is reaped only after its group was killed; no
  process is spawned under the identifier of an unreaped child.
\<close>

fun effect_ok :: "effect list \<Rightarrow> effect \<Rightarrow> bool" where
  "effect_ok t (Spawned pid p a d) = (pid \<notin> owned_pids t \<and> a = helper_argv p)"
| "effect_ok t (GroupKilled pid) = (pid \<in> owned_pids t)"
| "effect_ok t (LeaderKilled pid) = (pid \<in> owned_pids t)"
| "effect_ok t (Terminated pid) = (pid \<in> owned_pids t)"
| "effect_ok t (Reaped pid) = (pid \<in> owned_pids t \<and> pid \<in> signalled_pids t)"
| "effect_ok t (LostChild pid) = (pid \<in> owned_pids t)"
| "effect_ok t (ReapFailed pid) = (pid \<in> signalled_pids t)"

fun trace_ok :: "effect list \<Rightarrow> bool" where
  "trace_ok [] = True"
| "trace_ok (e # t) = (effect_ok t e \<and> trace_ok t)"

definition sheltered :: "nat set \<Rightarrow> launcher \<Rightarrow> bool" where
  "sheltered X s \<longleftrightarrow> trace_ok (lc_trace s) \<and>
     (\<forall>pid \<in> owned_pids (lc_trace s). pid \<in> X \<or> (\<exists>p x. lc_active s p = Some x \<and> ow_pid x = pid) \<or>
        ReapFailed pid \<in> set (lc_trace s))"

lemma sheltered_fields:
  "sheltered X s \<Longrightarrow> lc_trace s' = lc_trace s \<Longrightarrow> lc_active s' = lc_active s \<Longrightarrow> sheltered X s'"
  by (simp add: sheltered_def)

lemma waitable_spec:
  assumes "run_state (waitable os pid) s = (w, s')" and "sheltered X s"
  shows "sheltered X s' \<and> lc_active s' = lc_active s \<and>
    (if w = None then pid \<notin> owned_pids (lc_trace s') else lc_trace s' = lc_trace s \<and> pid \<in> owned_pids (lc_trace s)) \<and>
    signalled_pids (lc_trace s') = signalled_pids (lc_trace s)"
  using assms
  by (auto simp: waitable_def ask_def is_owned_def emit_def sheltered_def split: if_splits)

lemma cleanup_group_spec:
  assumes "run_state (cleanup_group os pid exited) s = (c, s')" and "sheltered X s" and "pid \<in> owned_pids (lc_trace s)"
  shows "sheltered X s' \<and> lc_active s' = lc_active s \<and> pid \<in> signalled_pids (lc_trace s') \<and>
    (\<not> exited \<longrightarrow> pid \<in> owned_pids (lc_trace s'))"
proof -
  let ?s1 = "s\<lparr>lc_calls := Suc (lc_calls s), lc_trace := GroupKilled pid # lc_trace s\<rparr>"
  have s1: "sheltered X ?s1" using assms(2,3) by (auto simp: sheltered_def)
  obtain w s2 where w: "run_state (waitable os pid) ?s1 = (w, s2)" by fastforce
  note spec = waitable_spec [OF w s1]
  have "sheltered X (s2\<lparr>lc_calls := n\<rparr>)" for n
    using spec by (auto intro: sheltered_fields)
  with assms(1,3) s1 w spec show ?thesis
    by (auto simp: cleanup_group_def ask_def emit_def split: if_splits)
qed

lemma reap_child_spec:
  assumes "run_state (reap_child os pid) s = (r, s')" and "sheltered (insert pid X) s" and "pid \<in> signalled_pids (lc_trace s)"
  shows "sheltered X s' \<and> lc_active s' = lc_active s"
  using assms
  by (auto simp: reap_child_def ask_def is_owned_def emit_def sheltered_def split: if_splits)

lemma kill_leader_spec:
  assumes "sheltered X s" and "\<not> exited \<longrightarrow> pid \<in> owned_pids (lc_trace s)"
  shows "sheltered X (snd (run_state (kill_leader exited pid) s))"
    "lc_active (snd (run_state (kill_leader exited pid) s)) = lc_active s"
    "signalled_pids (lc_trace (snd (run_state (kill_leader exited pid) s))) = signalled_pids (lc_trace s)"
  using assms by (auto simp: kill_leader_def emit_def sheltered_def)

lemma sheltered_drop: "sheltered (insert pid X) s \<Longrightarrow> pid \<notin> owned_pids (lc_trace s) \<Longrightarrow> sheltered X s"
  unfolding sheltered_def by (metis insertE)

lemma finish_sheltered:
  assumes "sheltered X s"
  shows "sheltered X (snd (run_state (finish_child os p reason) s))"
proof (cases "lc_active s p")
  case None
  with assms show ?thesis by (simp add: finish_child_def get_active_def)
next
  case (Some x)
  let ?pid = "ow_pid x" and ?s1 = "s\<lparr>lc_active := (lc_active s)(p := None)\<rparr>"
  have s1: "sheltered (insert ?pid X) ?s1"
    using assms Some unfolding sheltered_def by (auto split: if_splits) (metis option.inject)
  obtain w s2 where w: "run_state (waitable os ?pid) ?s1 = (w, s2)" by fastforce
  note w_spec = waitable_spec [OF w s1]
  show ?thesis
  proof (cases w)
    case None
    then have "sheltered X s2" using w_spec by (auto intro: sheltered_drop)
    with Some None w show ?thesis
      by (auto simp: finish_child_def get_active_def set_active_def edit_summary_def intro: sheltered_fields)
  next
    case exited: (Some exited)
    obtain c s3 where c: "run_state (cleanup_group os ?pid exited) s2 = (c, s3)" by fastforce
    have c_spec: "sheltered (insert ?pid X) s3 \<and> lc_active s3 = lc_active s2 \<and> ?pid \<in> signalled_pids (lc_trace s3) \<and>
        (\<not> exited \<longrightarrow> ?pid \<in> owned_pids (lc_trace s3))"
      using cleanup_group_spec [OF c] w_spec exited by auto
    define s4 where "s4 = s3\<lparr>lc_summary := (lc_summary s3)(p := (lc_summary s3 p)\<lparr>sm_cleanup := fst c, sm_errno := fst (snd c),
        sm_membership := snd (snd c), sm_forced := \<not> exited\<rparr>)\<rparr>"
    define s5 where "s5 = snd (run_state (kill_leader exited ?pid) s4)"
    have s4: "sheltered (insert ?pid X) s4" "\<not> exited \<longrightarrow> ?pid \<in> owned_pids (lc_trace s4)"
        "?pid \<in> signalled_pids (lc_trace s4)"
      using c_spec by (auto simp: s4_def intro: sheltered_fields)
    note s5 = kill_leader_spec [OF s4(1,2), folded s5_def]
    obtain r s6 where r: "run_state (reap_child os ?pid) s5 = (r, s6)" by fastforce
    have s6: "sheltered X s6" using reap_child_spec [OF r s5(1)] s5(3) s4(3) by simp
    have kl: "run_state (kill_leader exited ?pid) s4 = ((), s5)" by (simp add: s5_def prod_eq_iff)
    show ?thesis
      using Some exited w c r s6 kl
      by (simp add: finish_child_def get_active_def set_active_def edit_summary_def drain_def ask_def s4_def [symmetric] sheltered_def)
  qed
qed

interpretation children: action_invariant "sheltered {}" os
  for os
proof unfold_locales
  show "keeps (sheltered {}) (finish_child os p reason)" for p reason
    by (simp add: keeps_def finish_sheltered)
  show w: "keeps (sheltered {}) (waitable os pid)" for pid
    unfolding keeps_def using waitable_spec by (metis prod.collapse)
  show "keeps (sheltered {}) (terminate_app os pid)" for pid
  proof (rule keepsI)
    fix s assume s: "sheltered {} s"
    obtain w s1 where r: "run_state (waitable os pid) s = (w, s1)" by fastforce
    have "sheltered {} (s1\<lparr>lc_calls := n, lc_trace := Terminated pid # lc_trace s1\<rparr>)" if "w = Some False" for n
      using waitable_spec [OF r s] that by (auto simp: sheltered_def)
    moreover have "sheltered {} (s1\<lparr>lc_calls := n\<rparr>)" for n
      using waitable_spec [OF r s] by (auto intro: sheltered_fields)
    moreover have "sheltered {} s1" using waitable_spec [OF r s] by blast
    ultimately show "sheltered {} (snd (run_state (terminate_app os pid) s))"
      by (simp add: terminate_app_def r ask_def emit_def split: option.split)
  qed
  show "sheltered {} (s\<lparr>lc_active := (lc_active s)(p := Some (x\<lparr>ow_stopping := Some stop\<rparr>))\<rparr>)"
    if "sheltered {} s" "lc_active s p = Some x" for s p x stop
    using that unfolding sheltered_def by (auto split: if_splits) (metis option.inject owned.select_convs(1) owned.update_convs(3))
qed (simp_all add: sheltered_def)

lemma spawn_sheltered:
  "leads (\<lambda>s. sheltered {} s \<and> lc_active s p = None) (sheltered {}) (try_ok (spawn_helper os p d) (adopt os p ttl))"
proof -
  have adopted: "sheltered {} (snd (run_state (adopt os p ttl pid) s))"
    if "sheltered {pid} s" "lc_active s p = None" for pid s
  proof -
    let ?s = "s\<lparr>lc_calls := Suc (lc_calls s),
      lc_active := (lc_active s)(p := Some \<lparr>ow_pid = pid, ow_deadline = ro_clock os (lc_calls s) + from_secs ttl, ow_stopping = None\<rparr>),
      lc_summary := (lc_summary s)(p := summary_default\<lparr>sm_state := ''running''\<rparr>)\<rparr>"
    have "sheltered {} (?s\<lparr>lc_calls := Suc (lc_calls ?s)\<rparr>)"
      using that unfolding sheltered_def by (auto split: if_splits) (metis option.distinct(1))
    then show ?thesis
      using keepsD [OF children.keeps_request, of "?s\<lparr>lc_calls := Suc (lc_calls ?s)\<rparr>" os p "''pipe_setup_failed''"]
      by (simp add: adopt_def ask_def set_active_def edit_summary_def split_beta)
  qed
  show ?thesis
    unfolding leads_def
  proof (intro allI impI)
    fix s assume s: "sheltered {} s \<and> lc_active s p = None"
    let ?s = "\<lambda>pid. s\<lparr>lc_calls := Suc (lc_calls s), lc_trace := Spawned pid p (helper_argv p) d # lc_trace s\<rparr>"
    have "sheltered {pid} (?s pid)" if "pid \<notin> owned_pids (lc_trace s)" for pid
      using s that by (auto simp: sheltered_def)
    with adopted [of _ "?s _"] s
    show "sheltered {} (snd (run_state (try_ok (spawn_helper os p d) (adopt os p ttl)) s))"
      by (auto simp: try_ok_def spawn_helper_def ask_def is_owned_def emit_def split: option.split intro: sheltered_fields)
  qed
qed

definition all_checked :: "(bytes \<Rightarrow> json option) \<Rightarrow> (bytes \<Rightarrow> digest) \<Rightarrow> effect list \<Rightarrow> bool" where
  "all_checked from_json sha256 t \<longleftrightarrow>
     list_all (\<lambda>e. case e of Spawned pid p a d \<Rightarrow> checked_digest from_json sha256 p d | _ \<Rightarrow> True) t"

lemma all_checked_Cons:
  "all_checked from_json sha256 (e # t) \<longleftrightarrow>
     (case e of Spawned pid p a d \<Rightarrow> checked_digest from_json sha256 p d | _ \<Rightarrow> True) \<and> all_checked from_json sha256 t"
  by (simp add: all_checked_def)

interpretation checks: action_invariant "\<lambda>s. all_checked from_json sha256 (lc_trace s)" os
  for from_json sha256 os
  by unfold_locales
    (auto simp: keeps_def finish_child_def waitable_def cleanup_group_def kill_leader_def reap_child_def drain_def
      terminate_app_def action_defs all_checked_Cons split: option.split)

lemma spawn_checked:
  assumes "checked_digest from_json sha256 p d"
  shows "keeps (\<lambda>s. all_checked from_json sha256 (lc_trace s)) (try_ok (spawn_helper os p d) (adopt os p ttl))"
proof -
  have "keeps (\<lambda>s. all_checked from_json sha256 (lc_trace s)) (spawn_helper os p d)"
    using assms by (auto simp: keeps_def spawn_helper_def action_defs all_checked_Cons split: option.split)
  moreover have "keeps (\<lambda>s. all_checked from_json sha256 (lc_trace s)) (set_active p x)" for x
    by (simp add: keeps_def set_active_def)
  ultimately show ?thesis
    unfolding adopt_def by (intro keeps_rules checks.keeps_ask checks.keeps_edit checks.keeps_request)
qed

definition children_ok :: "(bytes \<Rightarrow> json option) \<Rightarrow> (bytes \<Rightarrow> digest) \<Rightarrow> launcher \<Rightarrow> bool" where
  "children_ok from_json sha256 s \<longleftrightarrow> sheltered {} s \<and> all_checked from_json sha256 (lc_trace s)"

interpretation helpers: launch_invariant "children_ok from_json sha256" os from_json sha256
  for from_json sha256 os
proof (intro launch_invariant.intro launch_invariant_axioms.intro)
  show "action_invariant (children_ok from_json sha256) os"
    using invariant_conj [OF children.action_invariant_axioms checks.action_invariant_axioms]
    unfolding children_ok_def .
  show "leads (\<lambda>s. children_ok from_json sha256 s \<and> lc_active s p = None) (children_ok from_json sha256)
      (try_ok (spawn_helper os p d) (adopt os p ttl))" if "checked_digest from_json sha256 p d" for p d ttl
    using spawn_sheltered spawn_checked [OF that]
    unfolding leads_def keeps_def children_ok_def by blast
qed

subsection \<open>Every child ends\<close>

text \<open>Properties of one slot: when its child is asked to stop, and by when it is.\<close>

definition slot_deadline :: "research_profile \<Rightarrow> instant \<Rightarrow> launcher \<Rightarrow> bool" where
  "slot_deadline q T s \<longleftrightarrow> (\<forall>x. lc_active s q = Some x \<longrightarrow> ow_deadline x \<le> T)"

definition slot_stopping :: "research_profile \<Rightarrow> launcher \<Rightarrow> bool" where
  "slot_stopping q s \<longleftrightarrow> (\<forall>x. lc_active s q = Some x \<longrightarrow> ow_stopping x \<noteq> None)"

definition slot_stops :: "research_profile \<Rightarrow> instant \<Rightarrow> launcher \<Rightarrow> bool" where
  "slot_stops q D s \<longleftrightarrow> (\<forall>x. lc_active s q = Some x \<longrightarrow> (\<exists>r d. ow_stopping x = Some (r, d) \<and> d \<le> D))"

lemmas slot_defs = slot_deadline_def slot_stopping_def slot_stops_def

interpretation deadline: action_invariant "slot_deadline q T" os
  for q T os by unfold_locales (auto simp: keeps_def slot_defs finish_active wait_active)

interpretation stopping: action_invariant "slot_stopping q" os
  for q os by unfold_locales (auto simp: keeps_def slot_defs finish_active wait_active)

interpretation stops: action_invariant "slot_stops q D" os
  for q D os by unfold_locales (auto simp: keeps_def slot_defs finish_active wait_active)

interpretation clock: action_invariant "\<lambda>s. n \<le> lc_calls s" os
  for n os
proof unfold_locales
  have w: "n \<le> lc_calls (snd (run_state (waitable os pid) s))" if "n \<le> lc_calls s" for s pid
    using that by (auto simp: waitable_def action_defs)
  show "keeps (\<lambda>s. n \<le> lc_calls s) (waitable os pid)" for pid using w by (simp add: keeps_def)
  show "keeps (\<lambda>s. n \<le> lc_calls s) (terminate_app os pid)" for pid
    by (auto simp: keeps_def terminate_app_def waitable_def action_defs)
  show "keeps (\<lambda>s. n \<le> lc_calls s) (finish_child os p reason)" for p reason
    by (auto simp: keeps_def finish_child_def waitable_def cleanup_group_def kill_leader_def reap_child_def drain_def
        action_defs split: option.split)
qed auto

abbreviation ticked :: "kernel \<Rightarrow> launcher \<Rightarrow> launcher" where
  "ticked os s \<equiv> snd (run_state (tick os) s)"

abbreviation ticked_profile :: "kernel \<Rightarrow> research_profile \<Rightarrow> launcher \<Rightarrow> launcher" where
  "ticked_profile os p s \<equiv> snd (run_state (tick_profile os p) s)"

lemma ticked_three:
  "ticked os s = ticked_profile os GpuSelftest (ticked_profile os SeamlessClient (ticked_profile os SeamlessHost s))"
  by (simp add: tick_def ALL_PROFILES_def split_beta)

text \<open>The turn of one child, after the look at its output and the wait.\<close>

lemma tick_profile_cases:
  assumes "lc_active s p = Some x"
  obtains w s1 where "lc_active s1 = lc_active s" "lc_calls s < lc_calls s1"
    "ticked_profile os p s = snd (run_state (tick_turn os p x w) s1)"
proof -
  obtain s0 where d: "run_state (drain os p) s = ((), s0)" "lc_active s0 = lc_active s" "lc_calls s0 = Suc (lc_calls s)"
    by (simp add: drain_def ask_def edit_summary_def)
  obtain w s1 where w: "run_state (waitable os (ow_pid x)) s0 = (w, s1)" by fastforce
  have "lc_active s1 = lc_active s" using wait_active(1) [of os "ow_pid x" s0] w d by simp
  moreover have "lc_calls s < lc_calls s1"
    using keepsD [OF clock.waits, of "Suc (lc_calls s)" s0 os "ow_pid x"] w d by simp
  moreover have "ticked_profile os p s = snd (run_state (tick_turn os p x w) s1)"
    by (simp add: tick_profile_def get_active_def assms d w)
  ultimately show ?thesis using that by blast
qed

lemma progress_finishes:
  assumes x: "lc_active s p = Some x" "ow_stopping x = Some (r, d)"
    and late: "\<forall>i \<ge> lc_calls s. d \<le> ro_clock os i"
  shows "lc_active (snd (run_state (progress_stop os p) s)) p = None"
proof -
  obtain w s1 where w: "run_state (waitable os (ow_pid x)) s = (w, s1)" by fastforce
  have "lc_calls s \<le> lc_calls s1" using keepsD [OF clock.waits, of "lc_calls s" s os "ow_pid x"] w by simp
  with late have "d \<le> ro_clock os (lc_calls s1)" by blast
  with x w show ?thesis
    by (cases w) (simp_all add: progress_stop_def get_active_def get_summary_def ask_def finish_active stop_action_def)
qed

lemma tick_profile_stops:
  assumes "slot_stops p D s" and late: "\<forall>i \<ge> lc_calls s. D \<le> ro_clock os i"
  shows "lc_active (ticked_profile os p s) p = None"
proof (cases "lc_active s p")
  case None
  then show ?thesis by (simp add: tick_profile_def get_active_def)
next
  case (Some x)
  then obtain r d where x: "ow_stopping x = Some (r, d)" "d \<le> D" using assms(1) by (auto simp: slot_stops_def)
  obtain w s1 where s1: "lc_active s1 = lc_active s" "lc_calls s < lc_calls s1" and
    t: "ticked_profile os p s = snd (run_state (tick_turn os p x w) s1)"
    using tick_profile_cases [OF Some] by blast
  have "\<forall>i \<ge> lc_calls s1. d \<le> ro_clock os i" using late x(2) s1(2) by (meson le_trans less_imp_le)
  then have "lc_active (snd (run_state (progress_stop os p) s1)) p = None"
    using progress_finishes [of s1 p x r d os] Some x s1(1) by simp
  then show ?thesis unfolding t tick_turn_def using x by (auto simp: finish_active split: option.split bool.split)
qed

lemma request_stops: "slot_stopping p (snd (run_state (request_stop os p reason) s))"
proof (cases "lc_active s p")
  case None
  then show ?thesis by (simp add: request_stop_def get_active_def slot_stopping_def)
next
  case (Some x)
  let ?s = "if ow_stopping x = None
    then s\<lparr>lc_calls := Suc (lc_calls s),
      lc_active := (lc_active s)(p := Some (x\<lparr>ow_stopping := Some (reason, ro_clock os (lc_calls s) + from_millis GUI_STOP_GRACE_MS)\<rparr>)),
      lc_summary := (lc_summary s)(p := (lc_summary s p)\<lparr>sm_state := ''stopping''\<rparr>)\<rparr>
    else s"
  have "slot_stopping p ?s" using Some by (simp add: slot_stopping_def)
  from keepsD [OF stopping.keeps_progress this, of os p] Some show ?thesis
    by (cases "ow_stopping x") (simp_all add: request_stop_def get_active_def ask_def set_active_def edit_summary_def)
qed

lemma tick_profile_expires:
  assumes "slot_deadline p T s" and late: "\<forall>i \<ge> lc_calls s. T \<le> ro_clock os i"
  shows "slot_stopping p (ticked_profile os p s)"
proof (cases "lc_active s p")
  case None
  then show ?thesis by (simp add: tick_profile_def get_active_def slot_stopping_def)
next
  case (Some x)
  show ?thesis
  proof (cases "ow_stopping x = None")
    case False
    with Some have "slot_stopping p s" by (simp add: slot_stopping_def)
    then show ?thesis by (rule keepsD [OF stopping.keeps_tick_profile])
  next
    case True
    obtain w s1 where s1: "lc_active s1 = lc_active s" "lc_calls s < lc_calls s1" and
      t: "ticked_profile os p s = snd (run_state (tick_turn os p x w) s1)"
      using tick_profile_cases [OF Some] by blast
    have "ow_deadline x \<le> T" using assms(1) Some by (simp add: slot_deadline_def)
    then have "ow_deadline x \<le> ro_clock os (lc_calls s1)" using late s1(2) by (meson le_trans less_imp_le)
    moreover have "slot_stopping p (snd (run_state (finish_child os p reason) s1))" for reason
      by (simp add: slot_stopping_def finish_active)
    ultimately show ?thesis unfolding t tick_turn_def using True
      by (auto simp: ask_def request_stops split: option.split bool.split)
  qed
qed

text \<open>A turn that concerns one slot keeps what the turns of the others keep.\<close>

lemma ticked_slot:
  assumes "\<And>s p. I s \<Longrightarrow> I (ticked_profile os p s)" "\<And>s p. J s \<Longrightarrow> J (ticked_profile os p s)"
    and "\<And>s. I s \<Longrightarrow> J (ticked_profile os q s)" and "I s"
  shows "J (ticked os s)"
  unfolding ticked_three using assms by (cases q) simp_all

definition clock_advances :: "kernel \<Rightarrow> bool" where
  "clock_advances os \<longleftrightarrow> (\<forall>T. \<exists>N. \<forall>i \<ge> N. T \<le> ro_clock os i)"

lemma ticked_stops:
  assumes "slot_stops q D s" and "\<forall>i \<ge> lc_calls s. D \<le> ro_clock os i"
  shows "lc_active (ticked os s) q = None"
proof (rule ticked_slot [where I = "\<lambda>s'. slot_stops q D s' \<and> lc_calls s \<le> lc_calls s'" and q = q])
  show "slot_stops q D (ticked_profile os p s') \<and> lc_calls s \<le> lc_calls (ticked_profile os p s')"
    if "slot_stops q D s' \<and> lc_calls s \<le> lc_calls s'" for s' p
    using that keepsD [OF stops.keeps_tick_profile] keepsD [OF clock.keeps_tick_profile] by blast
  show "lc_active (ticked_profile os p s') q = None" if "lc_active s' q = None" for s' p
    using keepsD [OF action_invariant.keeps_tick_profile [OF empty_slot] that] .
  show "lc_active (ticked_profile os q s') q = None" if "slot_stops q D s' \<and> lc_calls s \<le> lc_calls s'" for s'
    using tick_profile_stops [of q D s' os] that assms(2) by (meson le_trans)
qed (use assms in simp)

lemma ticked_expires:
  assumes "slot_deadline q T s" and "\<forall>i \<ge> lc_calls s. T \<le> ro_clock os i"
  shows "slot_stopping q (ticked os s)"
proof (rule ticked_slot [where I = "\<lambda>s'. slot_deadline q T s' \<and> lc_calls s \<le> lc_calls s'" and q = q])
  show "slot_deadline q T (ticked_profile os p s') \<and> lc_calls s \<le> lc_calls (ticked_profile os p s')"
    if "slot_deadline q T s' \<and> lc_calls s \<le> lc_calls s'" for s' p
    using that keepsD [OF deadline.keeps_tick_profile] keepsD [OF clock.keeps_tick_profile] by blast
  show "slot_stopping q (ticked_profile os p s')" if "slot_stopping q s'" for s' p
    using keepsD [OF stopping.keeps_tick_profile that] .
  show "slot_stopping q (ticked_profile os q s')" if "slot_deadline q T s' \<and> lc_calls s \<le> lc_calls s'" for s'
    using tick_profile_expires [of q T s' os] that assms(2) by (meson le_trans)
qed (use assms in simp)

lemma ticked_profile_idle: "lc_active s p = None \<Longrightarrow> ticked_profile os p s = s"
  by (simp add: tick_profile_def get_active_def)

lemma ticked_profile_calls: "lc_active s p = Some x \<Longrightarrow> lc_calls s < lc_calls (ticked_profile os p s)"
  by (elim tick_profile_cases [of s p x os]) (metis Suc_le_eq clock.keeps_turn keepsD)

lemma ticked_idle: "\<not> has_active s \<Longrightarrow> ticked os s = s"
  unfolding ticked_three by (simp add: has_active_def ALL_PROFILES_def ticked_profile_idle)

lemma ticked_calls:
  assumes "lc_active s q = Some x"
  shows "lc_calls s < lc_calls (ticked os s)"
proof -
  note mono = keepsD [OF clock.keeps_tick_profile]
  have grown: "Suc (lc_calls s) \<le> lc_calls (ticked_profile os p s)" if "lc_active s p \<noteq> None" for p
    using ticked_profile_calls that by (auto simp: Suc_le_eq)
  have "Suc (lc_calls s) \<le> lc_calls (ticked os s)"
  proof (cases "lc_active s SeamlessHost = None")
    case False
    then show ?thesis unfolding ticked_three by (intro mono grown)
  next
    case host: True
    show ?thesis
    proof (cases "lc_active s SeamlessClient = None")
      case False
      with host show ?thesis unfolding ticked_three by (simp add: ticked_profile_idle mono grown)
    next
      case True
      with host assms have "lc_active s GpuSelftest \<noteq> None" by (cases q) auto
      with host True show ?thesis unfolding ticked_three by (simp add: ticked_profile_idle grown)
    qed
  qed
  then show ?thesis by simp
qed

lemma eventually_ticked:
  assumes "clock_advances os" and keep: "\<And>s. I s \<Longrightarrow> I (ticked os s)"
    and late: "\<And>s. I s \<Longrightarrow> \<forall>i \<ge> lc_calls s. T \<le> ro_clock os i \<Longrightarrow> J (ticked os s)"
    and idle: "\<And>s. lc_active s q = None \<Longrightarrow> J s" and "I s"
  shows "\<exists>n. J ((ticked os ^^ n) s)"
proof -
  obtain N where N: "\<forall>i \<ge> N. T \<le> ro_clock os i" using assms(1) unfolding clock_advances_def by blast
  show ?thesis
    using \<open>I s\<close>
  proof (induction "N - lc_calls s" arbitrary: s rule: less_induct)
    case less
    show ?case
    proof (cases "lc_active s q")
      case None
      then show ?thesis using idle [of s] by (intro exI [of _ 0]) simp
    next
      case (Some x)
      show ?thesis
      proof (cases "N \<le> lc_calls s")
        case True
        then show ?thesis using late [OF less.prems] N by (intro exI [of _ 1]) simp
      next
        case False
        with less.hyps [OF _ keep [OF less.prems]] ticked_calls [OF Some, of os] obtain n where
          "J ((ticked os ^^ n) (ticked os s))" by (metis diff_less_mono2 not_le)
        then show ?thesis by (intro exI [of _ "Suc n"]) (simp add: funpow_Suc_right del: funpow.simps)
      qed
    qed
  qed
qed

lemma eventually_empty:
  assumes "clock_advances os"
  shows "\<exists>n. lc_active ((ticked os ^^ n) s) q = None"
proof -
  obtain T where T: "slot_deadline q T s"
    by (cases "lc_active s q") (auto simp: slot_deadline_def)
  have "\<exists>n. slot_stopping q ((ticked os ^^ n) s)"
  proof (rule eventually_ticked [where I = "slot_deadline q T" and T = T and q = q, OF assms])
    show "slot_deadline q T (ticked os s)" if "slot_deadline q T s" for s
      by (rule keepsD [OF deadline.keeps_tick that])
  qed (rule ticked_expires, assumption+, simp add: slot_stopping_def, rule T)
  then obtain n where n: "slot_stopping q ((ticked os ^^ n) s)" by blast
  let ?s = "(ticked os ^^ n) s"
  obtain D where "slot_stops q D ?s"
    using n by (cases "lc_active ?s q") (auto simp: slot_stopping_def slot_stops_def)
  then have "\<exists>m. lc_active ((ticked os ^^ m) ?s) q = None"
  proof (intro eventually_ticked [where I = "slot_stops q D" and J = "\<lambda>s. lc_active s q = None" and T = D and q = q, OF assms])
    show "slot_stops q D (ticked os s)" if "slot_stops q D s" for s
      by (rule keepsD [OF stops.keeps_tick that])
  qed (auto simp: ticked_stops)
  then obtain m where "lc_active ((ticked os ^^ m) ?s) q = None" by blast
  then show ?thesis by (metis funpow_add comp_apply)
qed

subsection \<open>The launcher\<close>

datatype launcher_event = LaunchHelper string research_profile nat | StopHelper research_profile | Tick | Shutdown

fun launcher_step ::
  "(bytes \<Rightarrow> json option) \<Rightarrow> (bytes \<Rightarrow> digest) \<Rightarrow> kernel \<Rightarrow> launcher_event \<Rightarrow> launcher \<Rightarrow> launcher" where
  "launcher_step from_json sha256 os (LaunchHelper root p ttl) s = snd (run_state (launch_child from_json sha256 os root p ttl) s)"
| "launcher_step from_json sha256 os (StopHelper p) s = snd (run_state (stop_child os p) s)"
| "launcher_step from_json sha256 os Tick s = ticked os s"
| "launcher_step from_json sha256 os Shutdown s = snd (run_state (shutdown_children os) s)"

interpretation launcher_run: invariant_component
  "launcher_step from_json sha256 os" launcher_default "children_ok from_json sha256"
  for from_json sha256 os
proof unfold_locales
  show "children_ok from_json sha256 launcher_default"
    by (simp add: children_ok_def sheltered_def launcher_default_def all_checked_def)
  show "children_ok from_json sha256 (launcher_step from_json sha256 os e s)" if "children_ok from_json sha256 s" for s e
    using keepsD [OF helpers.keeps_launch that] keepsD [OF helpers.keeps_request that] keepsD [OF helpers.keeps_tick that]
      keepsD [OF helpers.keeps_shutdown that]
    by (cases e) (simp_all add: stop_child_def)
qed

text \<open>
  Whatever the research launcher is asked to do and whatever the kernel answers, it sends
  signals only to processes it spawned and has not reaped, so never to a process that merely
  reuses an identifier; it reaps a helper only after it killed the helper's process group; every
  helper runs with its fixed arguments and with a digest that a manifest names for it; and every
  helper that is neither reaped nor lost is in a slot, unless waiting for it failed.
\<close>
theorem helpers_contained:
  assumes "s = run_events (launcher_step from_json sha256 os) es launcher_default"
  shows "trace_ok (lc_trace s) \<and> all_checked from_json sha256 (lc_trace s) \<and>
    (\<forall>pid \<in> owned_pids (lc_trace s).
       (\<exists>p x. lc_active s p = Some x \<and> ow_pid x = pid) \<or> ReapFailed pid \<in> set (lc_trace s))"
  using launcher_run.inv_run [of from_json sha256 os es]
  unfolding assms children_ok_def sheltered_def by simp

lemma drop_loop_ticked: "drop_loop os n s = (\<not> has_active ((ticked os ^^ n) s), (ticked os ^^ n) s)"
proof (induction n arbitrary: s)
  case (Suc n)
  have "(ticked os ^^ m) s = s" if "\<not> has_active s" for m
    using that by (induction m) (simp_all add: ticked_idle)
  with Suc show ?case by (cases "has_active s") (simp_all add: ticked_idle funpow_Suc_right del: funpow.simps(2))
qed simp

lemma empty_stays: "lc_active s q = None \<Longrightarrow> lc_active ((ticked os ^^ n) s) q = None"
  by (induction n) (simp_all add: keepsD [OF action_invariant.keeps_tick [OF empty_slot]])

lemma drop_loop_ends:
  assumes "clock_advances os"
  shows "\<exists>n. fst (drop_loop os n s)"
proof -
  obtain a where a: "lc_active ((ticked os ^^ a) s) SeamlessHost = None"
    using eventually_empty [OF assms] by blast
  obtain b where b: "lc_active ((ticked os ^^ b) ((ticked os ^^ a) s)) SeamlessClient = None"
    using eventually_empty [OF assms] by blast
  obtain c where c: "lc_active ((ticked os ^^ c) ((ticked os ^^ b) ((ticked os ^^ a) s))) GpuSelftest = None"
    using eventually_empty [OF assms] by blast
  have "\<not> has_active ((ticked os ^^ c) ((ticked os ^^ b) ((ticked os ^^ a) s)))"
    using c empty_stays [OF b] empty_stays [OF empty_stays [OF a]] by (simp add: has_active_def ALL_PROFILES_def)
  moreover have "(ticked os ^^ c) ((ticked os ^^ b) ((ticked os ^^ a) s)) = (ticked os ^^ (c + b + a)) s"
    by (simp add: funpow_add)
  ultimately show ?thesis by (metis drop_loop_ticked fst_conv)
qed

text \<open>
  The launcher cleans up when it goes away. If the clock advances, the loop of its destructor
  ends; then no helper is left in a slot, and each helper it ever spawned was reaped after its
  group was killed, or was lost to another reaper, or waiting for it failed.
\<close>
theorem drop_leaves_no_helper:
  assumes "clock_advances os" and "s = run_events (launcher_step from_json sha256 os) es launcher_default"
  shows "\<exists>n s'. drop_children os n s = (True, s') \<and> (\<forall>p. lc_active s' p = None) \<and> trace_ok (lc_trace s') \<and>
    (\<forall>pid \<in> owned_pids (lc_trace s'). ReapFailed pid \<in> set (lc_trace s'))"
proof -
  let ?s = "snd (run_state (shutdown_children os) s)"
  have "children_ok from_json sha256 s" unfolding assms(2) by (rule launcher_run.inv_run)
  then have ok: "children_ok from_json sha256 ?s" by (rule keepsD [OF helpers.keeps_shutdown])
  have okn: "children_ok from_json sha256 ((ticked os ^^ n) ?s)" for n
    by (induction n) (simp_all add: ok keepsD [OF helpers.keeps_tick])
  obtain n where n: "\<not> has_active ((ticked os ^^ n) ?s)"
    using drop_loop_ends [OF assms(1), of ?s] by (auto simp: drop_loop_ticked)
  let ?s' = "(ticked os ^^ n) ?s"
  have "lc_active ?s' p = None" for p using n by (cases p) (simp_all add: has_active_def ALL_PROFILES_def)
  with okn [of n] n show ?thesis
    by (intro exI [of _ n] exI [of _ ?s']) (simp add: drop_children_def drop_loop_ticked children_ok_def sheltered_def)
qed

text \<open>
  No helper outlives its time to live: from any state, if the clock advances, some number of
  turns of the server loop empties a helper's slot, also when the helper ignores the request to
  end, and whatever the kernel answers.
\<close>
theorem ttl_enforced:
  assumes "clock_advances os"
  shows "\<exists>n. lc_active ((ticked os ^^ n) s) p = None"
  by (rule eventually_empty [OF assms])

subsection \<open>A kernel on which a helper runs\<close>

definition demo_stamp :: stamp where
  "demo_stamp =
     \<lparr>st_dev = 1, st_ino = 2, st_uid = 5, st_mode = 0x1C0, st_len = 10, st_mtime = (0, 0), st_ctime = (0, 0),
      st_is_dir = True, st_is_file = True\<rparr>"

definition demo_kernel :: kernel where
  "demo_kernel =
     \<lparr>ro_clock = (\<lambda>i. i), ro_wait = (\<lambda>_. WaitRunning), ro_kill = (\<lambda>_. None), ro_members = (\<lambda>_. (0, [])),
      ro_reap = (\<lambda>_. Inr (Some 0)), ro_terminate = (\<lambda>_. Some True), ro_output = (\<lambda>_. ([], [])),
      ro_spawn = (\<lambda>_. Some 7), ro_pipes = (\<lambda>_. True), ro_host = (\<lambda>_. MacOs 27), ro_shutdown = (\<lambda>_. False),
      ro_unprivileged = (\<lambda>_. True), ro_euid = (\<lambda>_. 5), ro_open = (\<lambda>_. True), ro_stamp = (\<lambda>_. Some demo_stamp),
      ro_read = (\<lambda>_. Some [])\<rparr>"

definition demo_manifest :: "bytes \<Rightarrow> json option" where
  "demo_manifest _ =
     Some (JObject [(''version'', JNumber ''1''),
                    (''profiles'', JObject [(''gpu_selftest'', JString (replicate 64 CHR ''0''))])])"

definition demo_sha :: "bytes \<Rightarrow> digest" where
  "demo_sha _ = replicate 32 0"

lemma demo_clock: "clock_advances demo_kernel"
  by (auto simp: clock_advances_def demo_kernel_def)

lemma demo_asks [simp]:
  "run_state (ask (ro_open demo_kernel)) s = (True, s\<lparr>lc_calls := Suc (lc_calls s)\<rparr>)"
  "run_state (ask (ro_stamp demo_kernel)) s = (Some demo_stamp, s\<lparr>lc_calls := Suc (lc_calls s)\<rparr>)"
  "run_state (ask (ro_euid demo_kernel)) s = (5, s\<lparr>lc_calls := Suc (lc_calls s)\<rparr>)"
  "run_state (ask (ro_unprivileged demo_kernel)) s = (True, s\<lparr>lc_calls := Suc (lc_calls s)\<rparr>)"
  "run_state (ask (ro_read demo_kernel)) s = (Some [], s\<lparr>lc_calls := Suc (lc_calls s)\<rparr>)"
  "run_state (ask (ro_shutdown demo_kernel)) s = (False, s\<lparr>lc_calls := Suc (lc_calls s)\<rparr>)"
  "run_state (ask (ro_host demo_kernel)) s = (MacOs 27, s\<lparr>lc_calls := Suc (lc_calls s)\<rparr>)"
  "run_state (ask (ro_spawn demo_kernel)) s = (Some 7, s\<lparr>lc_calls := Suc (lc_calls s)\<rparr>)"
  "run_state (ask (ro_pipes demo_kernel)) s = (True, s\<lparr>lc_calls := Suc (lc_calls s)\<rparr>)"
  "run_state (ask (ro_clock demo_kernel)) s = (lc_calls s, s\<lparr>lc_calls := Suc (lc_calls s)\<rparr>)"
  "run_state (ask (ro_wait demo_kernel)) s = (WaitRunning, s\<lparr>lc_calls := Suc (lc_calls s)\<rparr>)"
  "run_state (ask (ro_kill demo_kernel)) s = (None, s\<lparr>lc_calls := Suc (lc_calls s)\<rparr>)"
  "run_state (ask (ro_reap demo_kernel)) s = (Inr (Some 0), s\<lparr>lc_calls := Suc (lc_calls s)\<rparr>)"
  "run_state (ask (ro_output demo_kernel)) s = (([], []), s\<lparr>lc_calls := Suc (lc_calls s)\<rparr>)"
  by (simp_all add: ask_def demo_kernel_def)

lemma demo_owned_file [simp]:
  "run_state (owned_file demo_kernel d x) s = (Inr demo_stamp, s\<lparr>lc_calls := Suc (Suc (lc_calls s))\<rparr>)"
  by (simp add: owned_file_def) (simp add: demo_stamp_def)

lemma demo_open_root [simp]:
  "run_state (open_root demo_kernel ''/k'') s =
     (Inr (), s\<lparr>lc_calls := lc_calls s + 5\<rparr>)"
  by (simp add: open_root_def valid_root_def is_absolute_def normal_part_def try_ok_def check_def open_at_def)

lemma demo_manifest_parse: "\<exists>m. manifest_parse demo_manifest [] = Inr m \<and> m GpuSelftest = Some (replicate 32 0)"
proof -
  have "manifest_hash (JString (replicate 64 CHR ''0'')) = Inr (replicate 32 0)"
    by (simp add: manifest_hash_def is_lower_hex_def hex_value_def is_ascii_digit_def numeral_eq_Suc Let_def)
  moreover have "as_u64 (JNumber ''1'') = Some 1"
    by (simp add: nat_of_digits_def is_ascii_digit_def u64_max_def)
  moreover have "research_profile_parse ''gpu_selftest'' = Inr GpuSelftest"
    using research_parse_id [of GpuSelftest] by simp
  ultimately show ?thesis
    by (simp add: manifest_parse_def demo_manifest_def object_with_keys_def)
qed

lemma demo_kit_open:
  obtains m where "m GpuSelftest = Some (replicate 32 0)"
    "\<And>s. run_state (kit_open demo_manifest demo_kernel ''/k'') s =
       (Inr \<lparr>kt_path = ''/k'', kt_stamp = demo_stamp, kt_manifest = m\<rparr>, s\<lparr>lc_calls := lc_calls s + 11\<rparr>)"
proof -
  obtain m where m: "manifest_parse demo_manifest [] = Inr m" "m GpuSelftest = Some (replicate 32 0)"
    using demo_manifest_parse by blast
  have "st_len demo_stamp \<le> MAX_MANIFEST" by (simp add: demo_stamp_def MAX_MANIFEST_def)
  then have "run_state (kit_open demo_manifest demo_kernel ''/k'') s =
      (Inr \<lparr>kt_path = ''/k'', kt_stamp = demo_stamp, kt_manifest = m\<rparr>, s\<lparr>lc_calls := lc_calls s + 11\<rparr>)" for s
    by (simp add: kit_open_def try_ok_def check_def open_at_def m(1) unchanged_def)
  with m(2) that show ?thesis by blast
qed

lemma demo_kit_helper [simp]:
  "kt_manifest k GpuSelftest \<noteq> None \<Longrightarrow>
   run_state (kit_helper demo_kernel k GpuSelftest) s = (Inr demo_stamp, s\<lparr>lc_calls := lc_calls s + 4\<rparr>)"
  by (simp add: kit_helper_def try_ok_def check_def open_at_def normal_part_def)
    (simp add: demo_stamp_def MAX_HELPER_def)

lemma demo_recheck [simp]:
  "kt_manifest k GpuSelftest \<noteq> None \<Longrightarrow> kt_path k = ''/k'' \<Longrightarrow> kt_stamp k = demo_stamp \<Longrightarrow>
   run_state (kit_recheck demo_kernel k GpuSelftest demo_stamp) s = (Inr (), s\<lparr>lc_calls := lc_calls s + 18\<rparr>)"
  by (simp add: kit_recheck_def recheck_file_def metadata_of_root_def try_ok_def check_def open_at_def unchanged_def)

lemma demo_idle_tick:
  "\<not> has_active s \<Longrightarrow> run_state (tick demo_kernel) s = ((), s)"
  using ticked_idle [of s demo_kernel] by (simp add: prod_eq_iff)

lemma demo_verify:
  assumes "kt_manifest k GpuSelftest = Some (replicate 32 0)" "kt_path k = ''/k''" "kt_stamp k = demo_stamp" "\<not> has_active s"
  shows "run_state (kit_verify demo_sha demo_kernel k GpuSelftest (tick demo_kernel)) s =
    (Inr (demo_stamp, replicate 32 0), s\<lparr>lc_calls := lc_calls s + 24\<rparr>)"
proof -
  have idle: "\<not> has_active (s\<lparr>lc_calls := n\<rparr>)" for n using assms(4) by (simp add: has_active_def)
  have "digest_loop demo_kernel (tick demo_kernel) [] (s\<lparr>lc_calls := n\<rparr>) = (Inr [], s\<lparr>lc_calls := n + 2\<rparr>)" for n
    by (simp add: digest_loop.simps [of demo_kernel _ "[]"] demo_idle_tick [OF idle])
  with assms show ?thesis
    by (simp add: kit_verify_def try_ok_def check_def demo_sha_def)
qed

lemma demo_launch:
  "lc_trace (snd (run_state (launch_child demo_manifest demo_sha demo_kernel ''/k'' GpuSelftest 60) launcher_default)) =
     [Spawned 7 GpuSelftest [''selftest''] (replicate 32 0)] \<and>
   (\<exists>d. lc_active (snd (run_state (launch_child demo_manifest demo_sha demo_kernel ''/k'' GpuSelftest 60) launcher_default)) =
     [GpuSelftest \<mapsto> \<lparr>ow_pid = 7, ow_deadline = d, ow_stopping = None\<rparr>])"
proof -
  obtain m where m: "m GpuSelftest = Some (replicate 32 0)"
    "\<And>s. run_state (kit_open demo_manifest demo_kernel ''/k'') s =
       (Inr \<lparr>kt_path = ''/k'', kt_stamp = demo_stamp, kt_manifest = m\<rparr>, s\<lparr>lc_calls := lc_calls s + 11\<rparr>)"
    using demo_kit_open by blast
  have idle: "\<not> has_active (launcher_default\<lparr>lc_calls := n\<rparr>)" "\<not> has_active launcher_default" for n
    by (simp_all add: has_active_def launcher_default_def ALL_PROFILES_def)
  have fields: "lc_active launcher_default = Map.empty" "lc_trace launcher_default = []" "active_count launcher_default = 0"
    by (simp_all add: launcher_default_def active_count_def ALL_PROFILES_def)
  have v: "run_state (kit_verify demo_sha demo_kernel \<lparr>kt_path = ''/k'', kt_stamp = demo_stamp, kt_manifest = m\<rparr> GpuSelftest (tick demo_kernel))
      (launcher_default\<lparr>lc_calls := n\<rparr>) = (Inr (demo_stamp, replicate 32 0), launcher_default\<lparr>lc_calls := n + 24\<rparr>)" for n
    using demo_verify [of "\<lparr>kt_path = ''/k'', kt_stamp = demo_stamp, kt_manifest = m\<rparr>" "launcher_default\<lparr>lc_calls := n\<rparr>"] m idle
    by simp
  show ?thesis
    by (simp add: launch_child_def launch_verified_def try_ok_def check_def ttl_limits_def is_gui_def GPU_MAX_TTL_def
        demo_idle_tick [OF idle(2)] fields MAX_CHILDREN_def m v spawn_helper_def is_owned_def emit_def adopt_def
        set_active_def edit_summary_def) blast
qed

abbreviation demo_launched :: launcher where
  "demo_launched \<equiv> run_events (launcher_step demo_manifest demo_sha demo_kernel) [LaunchHelper ''/k'' GpuSelftest 60] launcher_default"

theorem helpers_contained_witness:
  "lc_trace demo_launched = [Spawned 7 GpuSelftest [''selftest''] (replicate 32 0)] \<and> trace_ok (lc_trace demo_launched) \<and>
   all_checked demo_manifest demo_sha (lc_trace demo_launched) \<and>
   (\<exists>p x. lc_active demo_launched p = Some x \<and> ow_pid x = 7)"
  using helpers_contained [of demo_launched demo_manifest demo_sha demo_kernel "[LaunchHelper ''/k'' GpuSelftest 60]", OF refl]
    demo_launch by auto

theorem drop_leaves_no_helper_witness:
  "lc_active demo_launched GpuSelftest \<noteq> None \<and>
   (\<exists>n s'. drop_children demo_kernel n demo_launched = (True, s') \<and> (\<forall>p. lc_active s' p = None) \<and> trace_ok (lc_trace s') \<and>
     owned_pids (lc_trace s') \<subseteq> {pid. ReapFailed pid \<in> set (lc_trace s')})"
  using drop_leaves_no_helper [OF demo_clock, of demo_launched demo_manifest demo_sha "[LaunchHelper ''/k'' GpuSelftest 60]", OF refl]
    demo_launch by (auto simp: subset_iff)

theorem ttl_enforced_witness:
  "lc_active demo_launched GpuSelftest \<noteq> None \<and> (\<exists>n. lc_active ((ticked demo_kernel ^^ n) demo_launched) GpuSelftest = None)"
  using ttl_enforced [OF demo_clock, of demo_launched GpuSelftest] demo_launch by auto

end
