(* ===== verification/Research_Server.thy ===== *)
theory Research_Server
  imports Research_Children
begin

text \<open>
  \<open>src/research_mcp/mod.rs\<close> and \<open>src/research_mcp/transport.rs\<close>: the request handler of the research
  launcher and its single loop over standard input and output. Responses are values of a datatype
  that keeps what a client can decide on; their descriptive texts and their encoding as JSON
  (\<open>encode\<close>) are not modelled. The JSON parser and the digest are parameters.
\<close>

subsection \<open>Requests\<close>

definition PROTOCOLS :: "string list" where
  "PROTOCOLS = [''2025-11-25'', ''2025-06-18'', ''2025-03-26'', ''2024-11-05'']"

definition STATUS :: string where "STATUS = ''cocoa_way_research_status''"
definition LAUNCH :: string where "LAUNCH = ''cocoa_way_research_launch''"
definition STOP :: string where "STOP = ''cocoa_way_research_stop''"

lemmas tool_names = STATUS_def LAUNCH_def STOP_def

record research_server =
  rs_config :: research_config
  rs_host :: research_host
  rs_initialized :: bool
  rs_initialize_seen :: bool
  rs_closing :: bool
  rs_children :: launcher

definition server_new :: "research_config \<Rightarrow> research_host \<Rightarrow> research_server" where
  "server_new config hst =
     \<lparr>rs_config = config, rs_host = hst, rs_initialized = False, rs_initialize_seen = False, rs_closing = False,
      rs_children = launcher_default\<rparr>"

datatype tool_reply =
    StatusReply "(research_profile \<times> (string + unit) \<times> summary) list"
  | LaunchReply research_profile nat "string + unit"
  | StopReply research_profile bool summary

datatype rpc_result =
    InitializeResult string bool
  | PingResult
  | ToolsResult "string list"
  | CallResult tool_reply

datatype rpc_response = RpcResult json rpc_result | RpcError json int string

definition catalog :: "bool \<Rightarrow> string list" where
  "catalog enabled = STATUS # (if enabled then [LAUNCH, STOP] else [])"

definition on_children :: "'a action \<Rightarrow> research_server \<Rightarrow> 'a \<times> research_server" where
  "on_children m srv = (case run_state m (rs_children srv) of (x, c) \<Rightarrow> (x, srv\<lparr>rs_children := c\<rparr>))"

fun inspect_all :: "kernel \<Rightarrow> string + kit \<Rightarrow> research_profile list
    \<Rightarrow> (research_profile \<times> (string + unit) \<times> summary) list action" where
  "inspect_all os k [] = State_Monad.return []"
| "inspect_all os k (p # ps) = do {
     e \<leftarrow> (case k of Inl reason \<Rightarrow> State_Monad.return (Inl reason) | Inr k' \<Rightarrow> kit_inspect os k' p);
     m \<leftarrow> get_summary p;
     rest \<leftarrow> inspect_all os k ps;
     State_Monad.return ((p, e, m) # rest) }"

definition status ::
  "(bytes \<Rightarrow> json option) \<Rightarrow> kernel \<Rightarrow> research_host \<Rightarrow> string option
    \<Rightarrow> (research_profile \<times> (string + unit) \<times> summary) list action" where
  "status from_json os hst root = do {
     k \<leftarrow> try_ok (State_Monad.return (host_check hst)) (\<lambda>_.
            try_ok (State_Monad.return (ok_or ''kit_not_configured'' root)) (kit_open from_json os));
     inspect_all os k ALL_PROFILES }"

definition stop_completed :: "launcher \<Rightarrow> research_profile \<Rightarrow> bool" where
  "stop_completed c p \<longleftrightarrow>
     lc_active c p = None \<and>
     (sm_state (lc_summary c p) = ''never_started'' \<or>
      (sm_reaped (lc_summary c p) \<and> sm_cleanup (lc_summary c p) \<noteq> ''failed''))"

text \<open>The name and the arguments of the tool; the gate of the process comes before the arguments.\<close>

definition requested_tool :: "bool \<Rightarrow> json \<Rightarrow> string + string \<times> json" where
  "requested_tool enabled params =
     and_then (object_with_keys params [''name'', ''arguments'']) (\<lambda>fs.
       and_then (ok_or ''tool_name_required'' (Option.bind (map_of fs ''name'') json_str)) (\<lambda>name.
         if (name = LAUNCH \<or> name = STOP) \<and> \<not> enabled
         then Inl ''experiments_disabled_by_process_configuration''
         else Inr (name, case map_of fs ''arguments'' of None \<Rightarrow> JObject [] | Some v \<Rightarrow> v)))"

definition call_tool ::
  "(bytes \<Rightarrow> json option) \<Rightarrow> (bytes \<Rightarrow> digest) \<Rightarrow> kernel \<Rightarrow> json \<Rightarrow> research_server \<Rightarrow> (string + tool_reply) \<times> research_server" where
  "call_tool from_json sha256 os params srv =
     (case requested_tool (experiments_enabled (rs_config srv)) params of
        Inl e \<Rightarrow> (Inl e, srv)
      | Inr (name, arguments) \<Rightarrow>
          if name = STATUS then
            (case object_with_keys arguments [] of
               Inl e \<Rightarrow> (Inl e, srv)
             | Inr _ \<Rightarrow>
                 (case on_children (do { tick os; status from_json os (rs_host srv) (kit_root (rs_config srv)) }) srv of
                    (r, srv') \<Rightarrow> (Inr (StatusReply r), srv')))
          else if name = LAUNCH then
            (case launch_arguments arguments of
               Inl e \<Rightarrow> (Inl e, srv)
             | Inr (p, ttl) \<Rightarrow>
                 (case (if rs_closing srv then Inl ''server_shutting_down''
                        else and_then (host_check (rs_host srv)) (\<lambda>_. ok_or ''kit_not_configured'' (kit_root (rs_config srv)))) of
                    Inl e \<Rightarrow> (Inr (LaunchReply p ttl (Inl e)), srv)
                  | Inr root \<Rightarrow>
                      (case on_children (launch_child from_json sha256 os root p ttl) srv of
                         (r, srv') \<Rightarrow> (Inr (LaunchReply p ttl r), srv'))))
          else if name = STOP then
            (case stop_arguments arguments of
               Inl e \<Rightarrow> (Inl e, srv)
             | Inr p \<Rightarrow>
                 (case on_children (stop_child os p) srv of
                    (_, srv') \<Rightarrow>
                      (Inr (StopReply p (stop_completed (rs_children srv') p) (lc_summary (rs_children srv') p)), srv')))
          else (Inl ''unknown_tool'', srv))"

definition valid_request_id :: "json option \<Rightarrow> bool" where
  "valid_request_id i \<longleftrightarrow>
     (case i of
        None \<Rightarrow> True
      | Some v \<Rightarrow> is_i64 v \<or> as_u64 v \<noteq> None \<or> (case json_str v of Some s \<Rightarrow> length s \<le> 256 | None \<Rightarrow> False))"

definition requested_protocol :: "json \<Rightarrow> string" where
  "requested_protocol params =
     (let requested = (case Option.bind (Option.bind (as_object params) (\<lambda>fs. map_of fs ''protocolVersion'')) json_str of
                         None \<Rightarrow> hd PROTOCOLS | Some s \<Rightarrow> s)
      in if requested \<in> set PROTOCOLS then requested else hd PROTOCOLS)"

text \<open>A request with an identifier.\<close>

definition handle_method ::
  "(bytes \<Rightarrow> json option) \<Rightarrow> (bytes \<Rightarrow> digest) \<Rightarrow> kernel \<Rightarrow> json \<Rightarrow> string \<Rightarrow> json \<Rightarrow> research_server
    \<Rightarrow> rpc_response \<times> research_server" where
  "handle_method from_json sha256 os i method params srv =
     (if method = ''initialize'' then
        (RpcResult i (InitializeResult (requested_protocol params) (experiments_enabled (rs_config srv))),
         srv\<lparr>rs_initialize_seen := True, rs_initialized := False\<rparr>)
      else if method = ''ping'' then (RpcResult i PingResult, srv)
      else if (method = ''tools/list'' \<or> method = ''tools/call'') \<and> \<not> rs_initialized srv then
        (RpcError i (- 32002) ''Server is not initialized'', srv)
      else if method = ''tools/list'' then
        (if isl (object_with_keys params []) then (RpcError i (- 32602) ''No list parameters supported'', srv)
         else (RpcResult i (ToolsResult (catalog (experiments_enabled (rs_config srv)))), srv))
      else if method = ''tools/call'' then
        (case call_tool from_json sha256 os params srv of
           (Inl reason, srv') \<Rightarrow> (RpcError i (- 32602) reason, srv')
         | (Inr r, srv') \<Rightarrow> (RpcResult i (CallResult r), srv'))
      else (RpcError i (- 32601) ''Method not found'', srv))"

definition handle ::
  "(bytes \<Rightarrow> json option) \<Rightarrow> (bytes \<Rightarrow> digest) \<Rightarrow> kernel \<Rightarrow> bytes \<Rightarrow> research_server
    \<Rightarrow> rpc_response option \<times> research_server" where
  "handle from_json sha256 os frame srv =
     (if list_all (\<lambda>b. b \<in> set [32, 9, 10, 12, 13]) frame then (None, srv)
      else (case from_json frame of
          None \<Rightarrow> (Some (RpcError JNull (- 32700) ''Parse error''), srv)
        | Some v \<Rightarrow>
            (case as_object v of
               None \<Rightarrow> (Some (RpcError JNull (- 32600) ''Invalid Request''), srv)
             | Some fs \<Rightarrow>
                 (let i = map_of fs ''id''; method = Option.bind (map_of fs ''method'') json_str
                  in if \<not> valid_request_id i \<or> Option.bind (map_of fs ''jsonrpc'') json_str \<noteq> Some ''2.0'' \<or> method = None
                     then (Some (RpcError (if valid_request_id i then (case i of None \<Rightarrow> JNull | Some v \<Rightarrow> v) else JNull)
                             (- 32600) ''Invalid Request''), srv)
                     else (case i of
                         None \<Rightarrow>
                           (None, if method = Some ''notifications/initialized'' \<and> rs_initialize_seen srv
                                  then srv\<lparr>rs_initialized := True\<rparr> else srv)
                       | Some i' \<Rightarrow>
                           (case handle_method from_json sha256 os i' (the method)
                                   (case map_of fs ''params'' of None \<Rightarrow> JObject [] | Some p \<Rightarrow> p) srv of
                              (r, srv') \<Rightarrow> (Some r, srv')))))))"

subsection \<open>Frames\<close>

definition MAX_FRAME :: nat where "MAX_FRAME = 64 * 1024"
definition MAX_RESPONSE :: nat where "MAX_RESPONSE = 128 * 1024"

record frames =
  fr_bytes :: bytes
  fr_eof :: bool

definition NEWLINE :: "8 word" where "NEWLINE = 0x0A"

definition remaining :: "frames \<Rightarrow> nat" where
  "remaining f = MAX_FRAME + 1 - length (fr_bytes f)"

definition frames_push :: "bytes \<Rightarrow> frames \<Rightarrow> string + frames" where
  "frames_push bs f =
     (if remaining f < length bs then Inl ''stdin_frame_limit_exceeded'' else Inr (f\<lparr>fr_bytes := fr_bytes f @ bs\<rparr>))"

definition frames_ready :: "frames \<Rightarrow> bool" where
  "frames_ready f \<longleftrightarrow> NEWLINE \<in> set (fr_bytes f) \<or> fr_eof f \<or> remaining f = 0"

definition frame_length :: "frames \<Rightarrow> string + nat option" where
  "frame_length f =
     (case position (\<lambda>b. b = NEWLINE) (fr_bytes f) of
        Some i \<Rightarrow> Inr (Some i)
      | None \<Rightarrow>
          if MAX_FRAME < length (fr_bytes f) then Inl ''stdin_frame_limit_exceeded''
          else if fr_eof f \<and> fr_bytes f \<noteq> [] then Inr (Some (length (fr_bytes f)))
          else Inr None)"

definition next_frame :: "frames \<Rightarrow> (string + bytes option) \<times> frames" where
  "next_frame f =
     (case frame_length f of
        Inl e \<Rightarrow> (Inl e, f)
      | Inr None \<Rightarrow> (Inr None, f)
      | Inr (Some n) \<Rightarrow>
          if MAX_FRAME < n then (Inl ''stdin_frame_limit_exceeded'', f)
          else (Inr (Some (take n (fr_bytes f))),
                f\<lparr>fr_bytes := drop (min (n + 1) (length (fr_bytes f))) (fr_bytes f)\<rparr>))"

subsection \<open>The loop\<close>

record serving =
  sv_server :: research_server
  sv_frames :: frames
  sv_pending :: bytes
  sv_written :: nat
  sv_eof_deadline :: "instant option"

text \<open>
  What one pass observes: the shutdown flag and the clock, the poll (its error, invalid
  descriptors, the closed output, whether input and output are ready), one read and one write. A
  read answers bytes (none at the end of the input), a retry or an error; so does a write with
  the number of bytes it took, at most those it was given.
\<close>

datatype stdio_poll = StdioInterrupted | StdioFailed | StdioReady bool bool bool bool

datatype stdio_read = Input bytes | InputRetry | InputError

datatype stdio_write = Output nat | OutputRetry | OutputError

record pass_obs =
  po_shutdown :: bool
  po_now :: instant
  po_poll :: stdio_poll
  po_read :: stdio_read
  po_write :: stdio_write
  po_eof_now :: instant

definition serve_requests ::
  "(rpc_response \<Rightarrow> bytes) \<Rightarrow> (bytes \<Rightarrow> json option) \<Rightarrow> (bytes \<Rightarrow> digest) \<Rightarrow> kernel \<Rightarrow> serving
    \<Rightarrow> (string + unit) + serving" where
  "serve_requests encode from_json sha256 os sv =
     (if sv_pending sv \<noteq> [] then Inr sv
      else (case next_frame (sv_frames sv) of
          (Inl e, f) \<Rightarrow> Inl (Inl e)
        | (Inr None, f) \<Rightarrow>
            if fr_eof f \<and> \<not> has_active (rs_children (sv_server sv)) then Inl (Inr ()) else Inr sv
        | (Inr (Some frame), f) \<Rightarrow>
            (case handle from_json sha256 os frame (sv_server sv) of
               (None, srv) \<Rightarrow> Inr (sv\<lparr>sv_frames := f, sv_server := srv\<rparr>)
             | (Some response, srv) \<Rightarrow>
                 (let bs = encode response
                  in if MAX_RESPONSE \<le> length bs then Inl (Inl ''response_limit_exceeded'')
                     else Inr (sv\<lparr>sv_frames := f, sv_server := srv, sv_pending := bs @ [NEWLINE], sv_written := 0\<rparr>)))))"

definition serve_read :: "kernel \<Rightarrow> pass_obs \<Rightarrow> serving \<Rightarrow> string + serving" where
  "serve_read os ob sv =
     (if remaining (sv_frames sv) = 0 then Inl ''stdin_buffer_limit_exceeded''
      else (case po_read ob of
          Input bs \<Rightarrow>
            if bs = [] then
              Inr (sv\<lparr>sv_frames := (sv_frames sv)\<lparr>fr_eof := True\<rparr>,
                      sv_server := snd (on_children (shutdown_children os) ((sv_server sv)\<lparr>rs_closing := True\<rparr>)),
                      sv_eof_deadline := Some (po_eof_now ob + from_millis (GUI_STOP_GRACE_MS + 500))\<rparr>)
            else map_sum id (\<lambda>f. sv\<lparr>sv_frames := f\<rparr>) (frames_push bs (sv_frames sv))
        | InputRetry \<Rightarrow> Inr sv
        | InputError \<Rightarrow> Inl ''stdin_read_failed''))"

definition serve_write :: "pass_obs \<Rightarrow> serving \<Rightarrow> string + bytes \<times> serving" where
  "serve_write ob sv =
     (case po_write ob of
        Output n \<Rightarrow>
          if n = 0 then Inl ''stdout_write_failed''
          else (let k = min n (length (sv_pending sv) - sv_written sv); w = sv_written sv + k
                in Inr (take k (drop (sv_written sv) (sv_pending sv)),
                        sv\<lparr>sv_written := w, sv_pending := (if w = length (sv_pending sv) then [] else sv_pending sv)\<rparr>))
      | OutputRetry \<Rightarrow> Inr ([], sv)
      | OutputError \<Rightarrow> Inl ''stdout_write_failed'')"

text \<open>
  One pass: \<open>Inl\<close> is the result of \<open>serve\<close>; otherwise the bytes put on the output and the next
  state. The input descriptor is polled while the input is open, for reading only while the
  buffer has room; the output descriptor reports room only while a response is pending.
\<close>

definition serve_pass ::
  "(rpc_response \<Rightarrow> bytes) \<Rightarrow> (bytes \<Rightarrow> json option) \<Rightarrow> (bytes \<Rightarrow> digest) \<Rightarrow> kernel \<Rightarrow> pass_obs \<Rightarrow> serving
    \<Rightarrow> (string + unit) + bytes \<times> serving" where
  "serve_pass encode from_json sha256 os ob sv =
     (let sv0 = sv\<lparr>sv_server := snd (on_children (tick os) (sv_server sv))\<rparr>
      in if po_shutdown ob \<or> (case sv_eof_deadline sv0 of None \<Rightarrow> False | Some d \<Rightarrow> d \<le> po_now ob) then Inl (Inr ())
         else (case serve_requests encode from_json sha256 os sv0 of
             Inl r \<Rightarrow> Inl r
           | Inr sv1 \<Rightarrow>
               (case po_poll ob of
                  StdioInterrupted \<Rightarrow> Inr ([], sv1)
                | StdioFailed \<Rightarrow> Inl (Inl ''stdio_poll_failed'')
                | StdioReady invalid gone readable writable \<Rightarrow>
                    if invalid then Inl (Inl ''stdio_closed'')
                    else if gone then Inl (Inr ())
                    else (case (if readable \<and> \<not> fr_eof (sv_frames sv1) then serve_read os ob sv1 else Inr sv1) of
                        Inl e \<Rightarrow> Inl (Inl e)
                      | Inr sv2 \<Rightarrow>
                          (case (if sv_pending sv2 \<noteq> [] \<and> writable then serve_write ob sv2 else Inr ([], sv2)) of
                             Inl e \<Rightarrow> Inl (Inl e)
                           | Inr r \<Rightarrow> Inr r)))))"

fun serve_loop ::
  "(rpc_response \<Rightarrow> bytes) \<Rightarrow> (bytes \<Rightarrow> json option) \<Rightarrow> (bytes \<Rightarrow> digest) \<Rightarrow> kernel \<Rightarrow> pass_obs list \<Rightarrow> serving
    \<Rightarrow> bytes \<times> ((string + unit) + serving)" where
  "serve_loop encode from_json sha256 os [] sv = ([], Inr sv)"
| "serve_loop encode from_json sha256 os (ob # obs) sv =
     (case serve_pass encode from_json sha256 os ob sv of
        Inl r \<Rightarrow> ([], Inl r)
      | Inr (bs, sv') \<Rightarrow> map_prod ((@) bs) id (serve_loop encode from_json sha256 os obs sv'))"

definition serving_init :: "research_config \<Rightarrow> research_host \<Rightarrow> serving" where
  "serving_init config hst =
     \<lparr>sv_server = server_new config hst, sv_frames = \<lparr>fr_bytes = [], fr_eof = False\<rparr>, sv_pending = [], sv_written = 0,
      sv_eof_deadline = None\<rparr>"

subsection \<open>The opt-in\<close>

definition quiet :: "launcher \<Rightarrow> bool" where
  "quiet c \<longleftrightarrow> lc_trace c = [] \<and> (\<forall>p. lc_active c p = None)"

interpretation quiet: action_invariant quiet os
  for os
  by unfold_locales
    (auto simp: keeps_def quiet_def finish_child_def waitable_def terminate_app_def action_defs)

lemma keeps_quiet_inspect: "keeps quiet (inspect_all os k ps)"
  by (induction ps)
    (auto intro!: keeps_rules quiet.keeps_reads quiet.keeps_kit_helper simp: kit_inspect_def split: sum.split)

lemma keeps_quiet_status: "keeps quiet (status from_json os hst root)"
  unfolding status_def by (intro keeps_rules keeps_quiet_inspect quiet.keeps_kit_open)

definition idle_server :: "research_config \<Rightarrow> research_server \<Rightarrow> bool" where
  "idle_server config srv \<longleftrightarrow> rs_config srv = config \<and> quiet (rs_children srv)"

lemma on_children_idle:
  "keeps quiet m \<Longrightarrow> idle_server config srv \<Longrightarrow> on_children m srv = (x, srv') \<Longrightarrow> idle_server config srv'"
  by (auto simp: on_children_def idle_server_def keeps_def split: prod.splits)

lemma call_tool_idle:
  assumes "\<not> experiments_enabled config" and "idle_server config srv"
    and "call_tool from_json sha256 os params srv = (r, srv')"
  shows "idle_server config srv'"
proof -
  have k: "keeps quiet (do { tick os; status from_json os (rs_host srv) (kit_root config) })"
    by (intro keeps_rules quiet.keeps_tick keeps_quiet_status)
  have c: "rs_config srv = config" using assms(2) by (simp add: idle_server_def)
  show ?thesis
  proof (cases "requested_tool False params")
    case (Inl e)
    with assms c show ?thesis by (auto simp: call_tool_def)
  next
    case (Inr t)
    then have "fst t \<noteq> LAUNCH" "fst t \<noteq> STOP"
      by (auto simp: requested_tool_def and_then_Inr split: if_splits)
    with Inr assms c on_children_idle [OF k assms(2)] show ?thesis
      by (auto simp: call_tool_def split: sum.splits if_splits prod.splits)
  qed
qed

lemma handle_idle:
  assumes "\<not> experiments_enabled config" and "idle_server config srv"
    and "handle from_json sha256 os frame srv = (r, srv')"
  shows "idle_server config srv'"
  using assms
  by (auto simp: handle_def handle_method_def Let_def split: option.splits if_splits prod.splits sum.splits
      dest: call_tool_idle) (auto simp: idle_server_def)

lemma serve_pass_idle:
  assumes "\<not> experiments_enabled config" and "idle_server config (sv_server sv)"
    and "serve_pass encode from_json sha256 os ob sv = Inr (bs, sv')"
  shows "idle_server config (sv_server sv')"
proof -
  let ?sv0 = "sv\<lparr>sv_server := snd (on_children (tick os) (sv_server sv))\<rparr>"
  have sv0: "idle_server config (sv_server ?sv0)"
    using on_children_idle [OF quiet.keeps_tick assms(2)] by (simp add: prod_eq_iff)
  have shut: "idle_server config (snd (on_children (shutdown_children os) (srv\<lparr>rs_closing := True\<rparr>)))"
    if "idle_server config srv" for srv
    using on_children_idle [OF quiet.keeps_shutdown, of config "srv\<lparr>rs_closing := True\<rparr>"] that
    by (metis (no_types, lifting) idle_server_def prod.collapse research_server.select_convs(1,6)
        research_server.surjective research_server.update_convs(5))
  have req: "idle_server config (sv_server sv1)" if "serve_requests encode from_json sha256 os ?sv0 = Inr sv1" for sv1
    using that sv0 handle_idle [OF assms(1) sv0]
    by (auto simp: serve_requests_def Let_def split: if_splits prod.splits sum.splits option.splits)
  have rd: "idle_server config (sv_server sv2)" if "serve_read os ob sv1 = Inr sv2" "idle_server config (sv_server sv1)" for sv1 sv2
    using that shut by (auto simp: serve_read_def map_sum_Inr split: if_splits stdio_read.splits)
  have wr: "sv_server (snd r) = sv_server sv2" if "serve_write ob sv2 = Inr r" for sv2 r
    using that by (auto simp: serve_write_def Let_def split: if_splits stdio_write.splits)
  show ?thesis
    using assms(3) req rd wr
    by (auto simp: serve_pass_def Let_def split: if_splits sum.splits stdio_poll.splits)
qed

text \<open>
  Without the opt-in on its command line the research launcher only reads: whatever requests a
  client sends and however they arrive, no process is spawned, signalled or adopted, and the
  configuration stays as it was parsed.
\<close>
theorem opt_in_required:
  assumes "\<not> experiments_enabled config"
    and "serve_loop encode from_json sha256 os obs (serving_init config hst) = (out, Inr sv)"
  shows "lc_trace (rs_children (sv_server sv)) = [] \<and> (\<forall>p. lc_active (rs_children (sv_server sv)) p = None) \<and>
    rs_config (sv_server sv) = config"
proof -
  have "idle_server config (sv_server sv)"
    if "idle_server config (sv_server sv0)" "serve_loop encode from_json sha256 os obs sv0 = (out, Inr sv)" for sv0
    using that
  proof (induction obs arbitrary: sv0 out)
    case (Cons ob obs)
    then obtain bs sv1 out1 where p: "serve_pass encode from_json sha256 os ob sv0 = Inr (bs, sv1)"
      and l: "serve_loop encode from_json sha256 os obs sv1 = (out1, Inr sv)"
      by (auto simp: map_prod_def split: sum.splits prod.splits)
    show ?case by (rule Cons.IH [OF serve_pass_idle [OF assms(1) Cons.prems(1) p] l])
  qed simp
  moreover have "idle_server config (sv_server (serving_init config hst))"
    by (simp add: idle_server_def serving_init_def server_new_def quiet_def launcher_default_def)
  ultimately show ?thesis using assms(2) by (auto simp: idle_server_def quiet_def)
qed

definition demo_passes :: "pass_obs list" where
  "demo_passes =
     [\<lparr>po_shutdown = False, po_now = 0, po_poll = StdioReady False False True False, po_read = Input [0x78, 0x0A],
       po_write = OutputRetry, po_eof_now = 0\<rparr>,
      \<lparr>po_shutdown = False, po_now = 1, po_poll = StdioReady False False False True, po_read = InputRetry,
       po_write = Output 1, po_eof_now = 1\<rparr>]"

lemma demo_serve:
  obtains sv where "serve_loop (\<lambda>_. [0x21]) (\<lambda>_. None) demo_sha demo_kernel demo_passes
      (serving_init research_config_default (MacOs 27)) = ([0x21], Inr sv)"
proof -
  have idle: "run_state (tick demo_kernel) launcher_default = ((), launcher_default)"
    by (rule demo_idle_tick) (simp add: has_active_def launcher_default_def ALL_PROFILES_def)
  show ?thesis
    by (rule that) (simp add: demo_passes_def serve_pass_def serving_init_def server_new_def on_children_def idle
        serve_requests_def next_frame_def frame_length_def serve_read_def frames_push_def remaining_def MAX_FRAME_def
        NEWLINE_def handle_def MAX_RESPONSE_def serve_write_def)
qed

theorem opt_in_required_witness:
  "\<exists>out sv. serve_loop (\<lambda>_. [0x21]) (\<lambda>_. None) demo_sha demo_kernel demo_passes
       (serving_init research_config_default (MacOs 27)) = (out, Inr sv) \<and>
     out = [0x21] \<and> lc_trace (rs_children (sv_server sv)) = []"
proof -
  have disabled: "\<not> experiments_enabled research_config_default"
    by (simp add: experiments_enabled_def research_config_default_def)
  obtain sv where r: "serve_loop (\<lambda>_. [0x21]) (\<lambda>_. None) demo_sha demo_kernel demo_passes
      (serving_init research_config_default (MacOs 27)) = ([0x21], Inr sv)" using demo_serve by blast
  from opt_in_required [OF disabled r] r show ?thesis by blast
qed

subsection \<open>Input and output\<close>

datatype frame_op = Push bytes | Next

text \<open>Replays pushes and reads; collects the accepted bytes and the frames.\<close>

fun frames_step :: "frame_op \<Rightarrow> bytes \<times> bytes list \<times> frames \<Rightarrow> bytes \<times> bytes list \<times> frames" where
  "frames_step (Push bs) (input, out, f) =
     (case frames_push bs f of Inl _ \<Rightarrow> (input, out, f) | Inr f' \<Rightarrow> (input @ bs, out, f'))"
| "frames_step Next (input, out, f) =
     (case next_frame f of (Inr (Some x), f') \<Rightarrow> (input, out @ [x], f') | (_, f') \<Rightarrow> (input, out, f'))"

definition framed :: "bytes \<times> bytes list \<times> frames \<Rightarrow> bool" where
  "framed st \<longleftrightarrow>
     (case st of (input, out, f) \<Rightarrow>
        input = concat (map (\<lambda>x. x @ [NEWLINE]) out) @ fr_bytes f \<and>
        list_all (\<lambda>x. NEWLINE \<notin> set x \<and> length x \<le> MAX_FRAME) out \<and>
        length (fr_bytes f) \<le> MAX_FRAME + 1 \<and> \<not> fr_eof f)"

lemma frame_split:
  assumes "position (\<lambda>b. b = NEWLINE) bs = Some n"
  shows "bs = take n bs @ [NEWLINE] @ drop (n + 1) bs" and "NEWLINE \<notin> set (take n bs)"
proof -
  note at = position_Some [OF assms]
  show "bs = take n bs @ [NEWLINE] @ drop (n + 1) bs" using at by (metis Suc_eq_plus1 append_Cons append_Nil id_take_nth_drop)
  show "NEWLINE \<notin> set (take n bs)" using at(1,3) by (auto simp: in_set_conv_nth)
qed

lemma next_framed:
  assumes "framed (input, out, f)"
  shows "framed (frames_step Next (input, out, f))"
proof (cases "position (\<lambda>b. b = NEWLINE) (fr_bytes f)")
  case None
  with assms show ?thesis by (auto simp: framed_def next_frame_def frame_length_def)
next
  case (Some n)
  note sp = frame_split [OF Some]
  have "n < length (fr_bytes f)" using position_Some(1) [OF Some] .
  then have "min (n + 1) (length (fr_bytes f)) = n + 1" by simp
  with Some sp assms show ?thesis
    by (auto simp: framed_def next_frame_def frame_length_def)
qed

interpretation framing: invariant_component frames_step "([], [], \<lparr>fr_bytes = [], fr_eof = False\<rparr>)" framed
proof unfold_locales
  show "framed ([], [], \<lparr>fr_bytes = [], fr_eof = False\<rparr>)" by (simp add: framed_def)
  show "framed (frames_step e st)" if "framed st" for st e
  proof (cases e)
    case Next
    with that next_framed show ?thesis by (cases st) auto
  next
    case (Push bs)
    with that show ?thesis
      by (cases st) (auto simp: framed_def frames_push_def remaining_def)
  qed
qed

text \<open>
  The framing of requests is exact and bounded: whatever the sizes of the reads and whenever
  frames are taken out, the accepted input is the frames taken so far, each followed by its line
  feed, and then the buffered rest; no frame holds a line feed or is longer than 64 KiB, and
  the buffer never holds more than one byte beyond that.
\<close>
theorem frames_exact:
  assumes "run_events frames_step ops ([], [], \<lparr>fr_bytes = [], fr_eof = False\<rparr>) = (input, out, f)"
  shows "input = concat (map (\<lambda>x. x @ [NEWLINE]) out) @ fr_bytes f \<and>
    list_all (\<lambda>x. NEWLINE \<notin> set x \<and> length x \<le> 64 * 1024) out \<and> length (fr_bytes f) \<le> 64 * 1024 + 1"
  using framing.inv_run [of ops] unfolding assms by (simp add: framed_def MAX_FRAME_def)

definition demo_frame_ops :: "frame_op list" where
  "demo_frame_ops = [Push [0x61], Next, Push [0x62, 0x0A, 0x63], Next, Next]"

theorem frames_exact_witness:
  "run_events frames_step demo_frame_ops ([], [], \<lparr>fr_bytes = [], fr_eof = False\<rparr>) =
     ([0x61, 0x62, 0x0A, 0x63], [[0x61, 0x62]], \<lparr>fr_bytes = [0x63], fr_eof = False\<rparr>) \<and>
   [0x61, 0x62, 0x0A, 0x63] = concat (map (\<lambda>x. x @ [NEWLINE]) [[0x61, 0x62]]) @ [0x63]"
proof -
  have r: "run_events frames_step demo_frame_ops ([], [], \<lparr>fr_bytes = [], fr_eof = False\<rparr>) =
      ([0x61, 0x62, 0x0A, 0x63], [[0x61, 0x62]], \<lparr>fr_bytes = [0x63], fr_eof = False\<rparr>)"
    by (simp add: demo_frame_ops_def frames_push_def remaining_def next_frame_def frame_length_def NEWLINE_def MAX_FRAME_def)
  from frames_exact [OF r] r show ?thesis by simp
qed

text \<open>What is on its way to the output: the unwritten part of the pending response.\<close>

definition unsent :: "serving \<Rightarrow> bytes" where
  "unsent sv = drop (sv_written sv) (sv_pending sv)"

definition serving_ok :: "serving \<Rightarrow> bool" where
  "serving_ok sv \<longleftrightarrow>
     (sv_pending sv \<noteq> [] \<longrightarrow> sv_written sv < length (sv_pending sv)) \<and> length (sv_pending sv) \<le> MAX_RESPONSE \<and>
     length (fr_bytes (sv_frames sv)) \<le> MAX_FRAME + 1"

lemma serve_requests_output:
  assumes "serve_requests encode from_json sha256 os sv = Inr sv'" and "serving_ok sv"
  shows "serving_ok sv' \<and> (unsent sv' = unsent sv \<or> unsent sv = [] \<and> (\<exists>r. unsent sv' = encode r @ [NEWLINE]))"
  using assms
  by (auto simp: serve_requests_def serving_ok_def unsent_def next_frame_def Let_def
      split: if_splits prod.splits sum.splits option.splits)

lemma serve_read_output:
  assumes "serve_read os ob sv = Inr sv'" and "serving_ok sv"
  shows "serving_ok sv' \<and> unsent sv' = unsent sv \<and> sv_pending sv' = sv_pending sv"
  using assms
  by (auto simp: serve_read_def serving_ok_def unsent_def map_sum_Inr frames_push_def remaining_def
      split: if_splits stdio_read.splits)

lemma take_drop_rest: "take k (drop w xs) @ drop (w + k) xs = drop w xs"
  by (metis append_take_drop_id drop_drop add.commute)

lemma serve_write_output:
  assumes w: "serve_write ob sv = Inr (bs, sv')" and ok: "serving_ok sv" and p: "sv_pending sv \<noteq> []"
  shows "serving_ok sv' \<and> bs @ unsent sv' = unsent sv"
proof (cases "po_write ob")
  case (Output n)
  define k where "k = min n (length (sv_pending sv) - sv_written sv)"
  have lt: "sv_written sv < length (sv_pending sv)" using ok p by (simp add: serving_ok_def)
  have r: "n \<noteq> 0" "bs = take k (drop (sv_written sv) (sv_pending sv))"
      "sv' = sv\<lparr>sv_written := sv_written sv + k,
        sv_pending := (if sv_written sv + k = length (sv_pending sv) then [] else sv_pending sv)\<rparr>"
    using w Output by (auto simp: serve_write_def k_def Let_def split: if_splits)
  have "sv_written sv + k \<le> length (sv_pending sv)" using lt by (simp add: k_def)
  with r ok lt take_drop_rest [of k "sv_written sv" "sv_pending sv"] show ?thesis
    by (auto simp: serving_ok_def unsent_def)
qed (use w ok in \<open>auto simp: serve_write_def\<close>)

lemma serve_pass_output:
  assumes "serve_pass encode from_json sha256 os ob sv = Inr (bs, sv')" and ok: "serving_ok sv"
  shows "serving_ok sv' \<and>
    (bs @ unsent sv' = unsent sv \<or> unsent sv = [] \<and> (\<exists>r. bs @ unsent sv' = encode r @ [NEWLINE]))"
proof -
  let ?sv0 = "sv\<lparr>sv_server := snd (on_children (tick os) (sv_server sv))\<rparr>"
  have ok0: "serving_ok ?sv0" "unsent ?sv0 = unsent sv" using ok by (simp_all add: serving_ok_def unsent_def)
  obtain sv1 where sv1: "serve_requests encode from_json sha256 os ?sv0 = Inr sv1"
    using assms(1) by (auto simp: serve_pass_def Let_def split: if_splits sum.splits)
  note req = serve_requests_output [OF sv1 ok0(1), unfolded ok0(2)]
  show ?thesis
  proof (cases "po_poll ob")
    case (StdioReady invalid gone readable writable)
    then obtain sv2 where sv2: "(if readable \<and> \<not> fr_eof (sv_frames sv1) then serve_read os ob sv1 else Inr sv1) = Inr sv2"
      and w: "(if sv_pending sv2 \<noteq> [] \<and> writable then serve_write ob sv2 else Inr ([], sv2)) = Inr (bs, sv')"
      using assms(1) sv1 by (auto simp: serve_pass_def Let_def split: if_splits sum.splits)
    have "serving_ok sv2 \<and> unsent sv2 = unsent sv1"
      using sv2 req serve_read_output by (auto split: if_splits)
    moreover from this w have "serving_ok sv' \<and> bs @ unsent sv' = unsent sv2"
      using serve_write_output by (auto split: if_splits)
    ultimately show ?thesis using req by auto
  qed (use assms(1) sv1 req in \<open>auto simp: serve_pass_def Let_def split: if_splits\<close>)
qed

text \<open>
  Standard output carries whole responses only: after any passes of the loop, what was written
  so far followed by the unwritten rest of the pending response is a sequence of encoded responses,
  each followed by a line feed, however the writes were cut; at most 128 KiB of response and
  64 KiB and one byte of input are held.
\<close>
theorem output_whole_responses:
  assumes "serve_loop encode from_json sha256 os obs (serving_init config hst) = (out, Inr sv)"
  shows "\<exists>rs. out @ drop (sv_written sv) (sv_pending sv) = concat (map (\<lambda>r. encode r @ [NEWLINE]) rs) \<and>
    length (sv_pending sv) \<le> 128 * 1024 \<and> length (fr_bytes (sv_frames sv)) \<le> 64 * 1024 + 1"
proof -
  have "serving_ok sv \<and> (\<exists>rs. out @ unsent sv = unsent sv0 @ concat (map (\<lambda>r. encode r @ [NEWLINE]) rs))"
    if "serving_ok sv0" "serve_loop encode from_json sha256 os obs sv0 = (out, Inr sv)" for sv0
    using that
  proof (induction obs arbitrary: sv0 out)
    case Nil
    then show ?case by (auto intro: exI [of _ "[]"])
  next
    case (Cons ob obs)
    then obtain bs sv1 out1 where p: "serve_pass encode from_json sha256 os ob sv0 = Inr (bs, sv1)"
      and l: "serve_loop encode from_json sha256 os obs sv1 = (out1, Inr sv)" and out: "out = bs @ out1"
      by (auto simp: map_prod_def split: sum.splits prod.splits)
    note step = serve_pass_output [OF p Cons.prems(1)]
    then obtain rs where rs: "serving_ok sv" "out1 @ unsent sv = unsent sv1 @ concat (map (\<lambda>r. encode r @ [NEWLINE]) rs)"
      using Cons.IH [OF _ l] by blast
    from step show ?case
    proof (elim conjE disjE exE)
      assume "bs @ unsent sv1 = unsent sv0"
      then have "out @ unsent sv = unsent sv0 @ concat (map (\<lambda>r. encode r @ [NEWLINE]) rs)"
        using rs(2) out by (metis append_assoc)
      with rs(1) show ?thesis by blast
    next
      fix r assume r: "unsent sv0 = []" "bs @ unsent sv1 = encode r @ [NEWLINE]"
      have "out @ unsent sv = (bs @ unsent sv1) @ concat (map (\<lambda>r. encode r @ [NEWLINE]) rs)"
        using rs(2) out by simp
      also have "\<dots> = unsent sv0 @ concat (map (\<lambda>r. encode r @ [NEWLINE]) (r # rs))" unfolding r by simp
      finally have "out @ unsent sv = unsent sv0 @ concat (map (\<lambda>r. encode r @ [NEWLINE]) (r # rs))" .
      with rs(1) show ?thesis by blast
    qed
  qed
  moreover have "serving_ok (serving_init config hst)" "unsent (serving_init config hst) = []"
    by (simp_all add: serving_ok_def serving_init_def unsent_def)
  ultimately show ?thesis using assms by (fastforce simp: serving_ok_def unsent_def MAX_RESPONSE_def MAX_FRAME_def)
qed

theorem output_whole_responses_witness:
  "\<exists>sv rs. serve_loop (\<lambda>_. [0x21]) (\<lambda>_. None) demo_sha demo_kernel demo_passes
       (serving_init research_config_default (MacOs 27)) = ([0x21], Inr sv) \<and>
     [0x21] @ drop (sv_written sv) (sv_pending sv) = concat (map (\<lambda>r::rpc_response. [0x21] @ [NEWLINE]) rs)"
proof -
  obtain sv where r: "serve_loop (\<lambda>_. [0x21]) (\<lambda>_. None) demo_sha demo_kernel demo_passes
      (serving_init research_config_default (MacOs 27)) = ([0x21], Inr sv)" using demo_serve by blast
  from output_whole_responses [OF r] r show ?thesis by blast
qed

end
