(* ===== verification/Session_Profile.thy ===== *)
theory Session_Profile
  imports Profile_Leases Container_Identity "HOL-Library.Word"
begin

text \<open>
  \<open>src/container_sessions.rs\<close>: a configured session, its TOML text, the names and socket paths
  derived from it, and its validation. The text is the signature by which a menu entry or a
  control command names the profile it was made for (\<open>ProfileActionTarget\<close>); the container name
  is what the runtime, the reservations and the cleanup know the session by.
\<close>

unbundle bit_operations_syntax

subsection \<open>Sessions\<close>

record container_session =
  cs_id :: profile_id
  cs_name :: string
  cs_image :: string
  cs_runtime :: string
  cs_display :: "string option"
  cs_presentation :: "string option"
  cs_profile :: "string option"
  cs_app :: "string option"
  cs_command :: "string option"
  cs_socket :: "string option"
  cs_container_socket :: "string option"
  cs_waypipe_path :: "string option"
  cs_waypipe_compress :: "string option"
  cs_waypipe_threads :: "nat option"
  cs_audio :: bool
  cs_runtime_args :: "string list"
  cs_mounts :: "string list"
  cs_env :: "string list"

datatype launch_error =
    InvalidSession string string
  | MissingCommand string string
  | InvalidSocketPath string
  | CreateSocketDir string string
  | StartContainer string string
  | RuntimeNotReady string string
  | ImageUnavailable string string string
  | ImageNotGuiReady string string string
  | ContainerAlreadyRunning string string string
  | UnsupportedDisplay string string
  | SocketTimeout string
  | StartWaypipe string
  | ProcessExited string string string

subsection \<open>The TOML text of a session\<close>

definition escape_char :: "char \<Rightarrow> string" where
  "escape_char c =
     (if c = CHR 0x5C then [CHR 0x5C, CHR 0x5C]
      else if c = CHR 0x22 then [CHR 0x5C, CHR 0x22]
      else if c = CHR 0x0A then [CHR 0x5C, CHR ''n'']
      else if c = CHR 0x0D then [CHR 0x5C, CHR ''r'']
      else if c = CHR 0x09 then [CHR 0x5C, CHR ''t'']
      else [c])"

definition toml_escape :: "string \<Rightarrow> string" where
  "toml_escape v = concat (map escape_char v)"

text \<open>\<open>format!("\\"{}\\"", ...)\<close> and \<open>format!("key = {}\\n", ...)\<close>\<close>

definition quoted :: "string \<Rightarrow> string" where
  "quoted v = [CHR 0x22] @ toml_escape v @ [CHR 0x22]"

definition toml_string_list :: "string list \<Rightarrow> string" where
  "toml_string_list vs = join '', '' (map quoted vs)"

definition toml_line :: "string \<Rightarrow> string \<Rightarrow> string" where
  "toml_line k v = k @ '' = '' @ v @ [CHR 0x0A]"

definition non_empty :: "string option \<Rightarrow> string option" where
  "non_empty v = (if v = Some [] then None else v)"

definition optional_line :: "string \<Rightarrow> string option \<Rightarrow> string" where
  "optional_line k v = (case non_empty v of None \<Rightarrow> [] | Some x \<Rightarrow> toml_line k (quoted x))"

definition list_line :: "string \<Rightarrow> string list \<Rightarrow> string" where
  "list_line k vs = (if vs = [] then [] else toml_line k (''['' @ toml_string_list vs @ '']''))"

definition show_bool :: "bool \<Rightarrow> string" where
  "show_bool b = (if b then ''true'' else ''false'')"

definition session_to_toml :: "container_session \<Rightarrow> string" where
  "session_to_toml s =
     ''[[session]]'' @ [CHR 0x0A]
     @ (if is_saved (cs_id s)
        then toml_line ''id'' ([CHR 0x22] @ profile_id_fmt (cs_id s) @ [CHR 0x22]) else [])
     @ toml_line ''name'' (quoted (cs_name s))
     @ toml_line ''runtime'' (quoted (cs_runtime s))
     @ toml_line ''image'' (quoted (cs_image s))
     @ optional_line ''display'' (cs_display s)
     @ optional_line ''presentation'' (cs_presentation s)
     @ optional_line ''profile'' (cs_profile s)
     @ optional_line ''command'' (cs_command s)
     @ optional_line ''app'' (cs_app s)
     @ optional_line ''socket'' (cs_socket s)
     @ optional_line ''container_socket'' (cs_container_socket s)
     @ optional_line ''waypipe_path'' (cs_waypipe_path s)
     @ optional_line ''waypipe_compress'' (cs_waypipe_compress s)
     @ (case cs_waypipe_threads s of
          None \<Rightarrow> [] | Some n \<Rightarrow> toml_line ''waypipe_threads'' (decimal n))
     @ toml_line ''audio'' (show_bool (cs_audio s))
     @ list_line ''runtime_args'' (cs_runtime_args s)
     @ list_line ''mounts'' (cs_mounts s)
     @ list_line ''env'' (cs_env s)"

record profile_action_target =
  pt_id :: profile_id
  pt_signature :: string

definition capture_target :: "container_session \<Rightarrow> profile_action_target" where
  "capture_target s = \<lparr>pt_id = cs_id s, pt_signature = session_to_toml s\<rparr>"

definition resolve_target ::
  "profile_action_target \<Rightarrow> container_session list \<Rightarrow> container_session option" where
  "resolve_target t ss =
     find (\<lambda>s. cs_id s = pt_id t \<and> session_to_toml s = pt_signature t) ss"

subsection \<open>Names derived from a session\<close>

definition slug_push :: "char \<Rightarrow> string \<Rightarrow> string" where
  "slug_push c slug =
     (if is_ascii_alphanumeric c then slug @ [to_lower c]
      else if slug = [] \<or> last slug \<noteq> CHR ''-'' then slug @ ''-''
      else slug)"

definition slugify :: "string \<Rightarrow> string" where
  "slugify name =
     (let slug = trim_matches (CHR ''-'') (fold slug_push name [])
      in if slug = [] then ''container'' else slug)"

definition container_name :: "container_session \<Rightarrow> string" where
  "container_name s = ''cocoa-way-'' @ slugify (cs_name s)"

definition normalize_container_runtime :: "string \<Rightarrow> runtime" where
  "normalize_container_runtime r =
     (let t = trim r in
      if t = ''docker'' then Docker
      else if t = ''orb'' \<or> t = ''orbstack'' then OrbStack
      else Apple)"

definition runtime_binary_name :: "string \<Rightarrow> string" where
  "runtime_binary_name r =
     (let t = trim r in
      if t = ''docker'' then ''docker''
      else if t = ''orb'' \<or> t = ''orbstack'' then ''orb''
      else ''container'')"

definition runtime_label :: "string \<Rightarrow> string" where
  "runtime_label r =
     (let t = trim r in
      if t = ''docker'' then ''Docker''
      else if t = ''orb'' \<or> t = ''orbstack'' then ''OrbStack''
      else ''Apple Container'')"

definition is_apple_container_session :: "container_session \<Rightarrow> bool" where
  "is_apple_container_session s \<longleftrightarrow>
     trim (cs_runtime s) \<in> {''container'', ''apple'', ''apple-container''}"

definition same_container :: "container_session \<Rightarrow> container_session \<Rightarrow> bool" where
  "same_container s t \<longleftrightarrow>
     runtime_binary_name (cs_runtime s) = runtime_binary_name (cs_runtime t)
     \<and> container_name s = container_name t"

definition validate_profile_name ::
  "identity_table \<Rightarrow> container_session \<Rightarrow> container_session list \<Rightarrow> profile_id option \<Rightarrow> string + unit" where
  "validate_profile_name identities s ss replaced =
     (let name = container_name s in
      case find (\<lambda>e. Some (cs_id e) \<noteq> replaced \<and> same_container e s) ss of
        Some e \<Rightarrow> Inl (''Profile name conflicts with '' @ [CHR 0x27] @ cs_name e @ [CHR 0x27]
                       @ '': both resolve to container '' @ [CHR 0x27] @ name @ [CHR 0x27]
                       @ ''. Choose a distinct name.'')
      | None \<Rightarrow>
          if identity_reserved_by_other (cs_runtime s) name replaced identities
          then Inl (''Container identity '' @ [CHR 0x27] @ name @ [CHR 0x27]
                    @ '' is reserved by another pending or running profile. Wait for its cleanup or choose a distinct name.'')
          else Inr ())"

subsection \<open>Socket paths\<close>

definition UNIX_SOCKET_PATH_BYTES :: nat where "UNIX_SOCKET_PATH_BYTES = 103"

definition WAYPIPE_CLIENT_SUFFIX_RESERVE :: nat where "WAYPIPE_CLIENT_SUFFIX_RESERVE = 28"

definition short_host_socket_root :: "nat \<Rightarrow> nat \<Rightarrow> string" where
  "short_host_socket_root uid pid = ''/tmp/cw-'' @ decimal uid @ ''-'' @ decimal pid"

definition stable_name_hash :: "string \<Rightarrow> 64 word" where
  "stable_name_hash v =
     fold (\<lambda>c h. (h XOR of_nat (of_char c)) * 0x100000001b3) v 0xcbf29ce484222325"

text \<open>\<open>{:08x}\<close> of a 32-bit number\<close>

definition show_hex8 :: "32 word \<Rightarrow> string" where
  "show_hex8 w = map (\<lambda>i. hex_digit (unat w div 16 ^ i mod 16)) (rev [0..<8])"

definition default_container_socket :: "nat \<Rightarrow> nat \<Rightarrow> string \<Rightarrow> string" where
  "default_container_socket uid pid name =
     short_host_socket_root uid pid @ ''/'' @ take 24 (slugify name) @ ''-''
     @ show_hex8 (ucast (stable_name_hash name)) @ ''.sock''"

definition default_container_socket_path :: "string \<Rightarrow> runtime \<Rightarrow> string" where
  "default_container_socket_path host_socket r =
     (case r of Apple \<Rightarrow> ''/tmp/cocoa-way/waypipe.sock'' | _ \<Rightarrow> host_socket)"

subsection \<open>The command of a session\<close>

text \<open>\<open>str::split_whitespace\<close>, and \<open>Path::file_name\<close> on Unix.\<close>

fun words_of :: "string \<Rightarrow> string \<Rightarrow> string list" where
  "words_of acc [] = (if acc = [] then [] else [rev acc])"
| "words_of acc (c # s) =
     (if is_space c then (if acc = [] then words_of [] s else rev acc # words_of [] s)
      else words_of (c # acc) s)"

definition split_whitespace :: "string \<Rightarrow> string list" where
  "split_whitespace s = words_of [] s"

fun split_slash :: "string \<Rightarrow> string \<Rightarrow> string list" where
  "split_slash acc [] = [rev acc]"
| "split_slash acc (c # s) =
     (if c = CHR ''/'' then rev acc # split_slash [] s else split_slash (c # acc) s)"

definition file_name :: "string \<Rightarrow> string option" where
  "file_name p =
     (let cs = filter (\<lambda>c. c \<noteq> [] \<and> c \<noteq> ''.'') (split_slash [] p)
      in if cs = [] \<or> last cs = ''..'' then None else Some (last cs))"

definition session_command :: "container_session \<Rightarrow> string" where
  "session_command s =
     (case cs_command s of
        Some c \<Rightarrow> c
      | None \<Rightarrow>
          if cs_profile s = Some ''niri'' then ''niri''
          else if cs_profile s = Some ''shell'' then ''sh''
          else (case cs_app s of Some a \<Rightarrow> a | None \<Rightarrow> ''weston-terminal''))"

definition is_quote :: "char \<Rightarrow> bool" where
  "is_quote c \<longleftrightarrow> c = CHR 0x22 \<or> c = CHR 0x27"

definition trim_quotes :: "string \<Rightarrow> string" where
  "trim_quotes s = rev (dropWhile is_quote (rev (dropWhile is_quote s)))"

definition session_command_binary :: "container_session \<Rightarrow> string option" where
  "session_command_binary s =
     (case split_whitespace (session_command s) of
        [] \<Rightarrow> None
      | word # _ \<Rightarrow>
          (let first = trim_quotes word in
           if first = [] \<or> CHR ''='' \<in> set first then None
           else if first \<in> {''exec'', ''env'', ''sh'', ''bash''} then None
           else Some first))"

definition NESTED_COMPOSITORS :: "string list" where
  "NESTED_COMPOSITORS = [''niri'', ''hyprland'', ''sway'', ''wayfire'', ''weston'']"

definition uses_nested_wayland_compositor :: "container_session \<Rightarrow> bool" where
  "uses_nested_wayland_compositor s \<longleftrightarrow>
     to_ascii_lowercase (case cs_profile s of None \<Rightarrow> [] | Some p \<Rightarrow> p) \<in> set NESTED_COMPOSITORS
     \<or> (case Option.bind (session_command_binary s) file_name of
           None \<Rightarrow> False
         | Some c \<Rightarrow> to_ascii_lowercase c \<in> set NESTED_COMPOSITORS)"

definition is_rootless :: "string option \<Rightarrow> bool" where
  "is_rootless p \<longleftrightarrow> map_option (to_ascii_lowercase \<circ> trim) p = Some ''rootless''"

subsection \<open>Validation\<close>

definition validate_display_slot :: "container_session \<Rightarrow> launch_error + unit" where
  "validate_display_slot s =
     (let display = (case non_empty (map_option trim (cs_display s)) of None \<Rightarrow> ''auto'' | Some d \<Rightarrow> d)
      in if list_ex is_control display
         then Inl (UnsupportedDisplay display ''Display names cannot contain control characters.'')
         else Inr ())"

definition validate_presentation_command :: "container_session \<Rightarrow> launch_error + unit" where
  "validate_presentation_command s =
     (if \<not> is_rootless (cs_presentation s) then Inr ()
      else case session_command_binary s of
        None \<Rightarrow> Inr ()
      | Some command \<Rightarrow>
          (let binary = to_ascii_lowercase (case file_name command of Some n \<Rightarrow> n | None \<Rightarrow> command)
           in if binary = ''xterm''
              then Inl (UnsupportedDisplay ''rootless'' ''xterm is an X11 application, but Cocoa-Way rootless currently accepts native Wayland applications. Use foot for validation, or use desktop mode until Xwayland integration is available.'')
              else if binary \<in> {''niri'', ''hyprland''}
              then Inl (UnsupportedDisplay ''rootless'' (command @ '' is a desktop compositor. Select desktop presentation for compositor sessions; rootless presentation is for individual native Wayland applications.''))
              else Inr ()))"

text \<open>A socket path that the code accepts: absolute, without a NUL, and short enough.\<close>

definition socket_path_ok :: "nat \<Rightarrow> string option \<Rightarrow> bool" where
  "socket_path_ok reserve p =
     (case p of
        None \<Rightarrow> True
      | Some socket \<Rightarrow>
          is_absolute socket \<and> CHR 0x00 \<notin> set socket
          \<and> length socket + reserve \<le> UNIX_SOCKET_PATH_BYTES)"

definition validate_session :: "container_session \<Rightarrow> launch_error + unit" where
  "validate_session s =
     (let invalid = InvalidSession (cs_name s) in
      if trim (cs_runtime s) \<notin> {''container'', ''apple'', ''apple-container'', ''docker'', ''orb'', ''orbstack''}
      then Inl (invalid (''Unknown runtime '' @ [CHR 0x27] @ cs_runtime s @ [CHR 0x27] @ ''. Set runtime to container, docker, or orbstack in container-sessions.toml. SSH connections belong in connections.toml.''))
      else if trim (cs_name s) = [] \<or> list_ex is_control (cs_name s)
      then Inl (invalid ''Set a nonempty name without control characters in container-sessions.toml.'')
      else if trim (cs_image s) = [] \<or> list_ex (\<lambda>c. is_space c \<or> is_control c) (cs_image s)
              \<or> starts_with (cs_image s) ''-''
      then Inl (invalid (''Set image to a nonempty local image reference without whitespace or a leading '' @ [CHR 0x27] @ ''-'' @ [CHR 0x27] @ '' in container-sessions.toml.''))
      else if trim (session_command s) = [] \<or> CHR 0x00 \<in> set (session_command s)
      then Inl (invalid ''Set command/app to a nonempty GUI command without NUL bytes in container-sessions.toml.'')
      else if cs_waypipe_threads s = Some 0
      then Inl (invalid ''Set waypipe_threads to a positive integer, or remove it to use Waypipe's default.'')
      else if \<not> socket_path_ok WAYPIPE_CLIENT_SUFFIX_RESERVE (cs_socket s)
      then Inl (invalid ''Set socket to a short absolute host socket path, or remove it to use the default.'')
      else if \<not> socket_path_ok 0 (cs_container_socket s)
      then Inl (invalid ''Set container_socket to a short absolute guest socket path, or remove it to use the default.'')
      else and_then (validate_display_slot s) (\<lambda>_. validate_presentation_command s))"

subsection \<open>The text determines the session\<close>

text \<open>
  Encodings that can be told apart when something follows them; a sequence of them, also with
  separators, has one reading.
\<close>

locale prefix_code =
  fixes enc :: "'a \<Rightarrow> string" and ok :: "'a \<Rightarrow> bool"
  assumes unique: "ok x \<Longrightarrow> ok y \<Longrightarrow> enc x @ r = enc y @ s \<Longrightarrow> x = y \<and> r = s"
    and enc_non_empty: "enc x \<noteq> []"
begin

lemma concat_unique:
  "list_all ok xs \<Longrightarrow> list_all ok ys \<Longrightarrow> concat (map enc xs) = concat (map enc ys) \<Longrightarrow> xs = ys"
proof (induction xs arbitrary: ys)
  case Nil
  then show ?case by (cases ys) (auto simp: enc_non_empty)
next
  case (Cons x xs)
  from Cons.prems obtain y ys' where "ys = y # ys'" by (cases ys) (auto simp: enc_non_empty)
  moreover from this Cons.prems have "x = y \<and> concat (map enc xs) = concat (map enc ys')"
    by (intro unique) simp_all
  ultimately show ?case using Cons.IH [of ys'] Cons.prems by simp
qed

lemma join_non_empty: "join sep (map enc (x # xs)) \<noteq> []"
  by (cases xs) (auto simp: enc_non_empty)

lemma join_unique:
  "list_all ok xs \<Longrightarrow> list_all ok ys \<Longrightarrow> join sep (map enc xs) = join sep (map enc ys) \<Longrightarrow> xs = ys"
proof (induction xs arbitrary: ys)
  case Nil
  then show ?case using join_non_empty [of sep] by (cases ys) (simp, metis join.simps(1) list.simps(8))
next
  case (Cons x xs)
  from Cons.prems obtain y ys' where ys: "ys = y # ys'" using join_non_empty [of sep x xs] by (cases ys) auto
  have split: "join sep (map enc (z # zs)) = enc z @ (if zs = [] then [] else sep @ join sep (map enc zs))" for z zs
    by (cases zs) auto
  have "x = y \<and> (if xs = [] then [] else sep @ join sep (map enc xs)) = (if ys' = [] then [] else sep @ join sep (map enc ys'))"
    using Cons.prems unfolding ys by (intro unique) (simp_all add: split [symmetric])
  then have x: "x = y"
    and rest: "(if xs = [] then [] else sep @ join sep (map enc xs)) = (if ys' = [] then [] else sep @ join sep (map enc ys'))"
    by blast+
  have "sep @ join sep (map enc zs) \<noteq> []" if "zs \<noteq> []" for zs
    using that join_non_empty by (cases zs) auto
  with rest have "join sep (map enc xs) = join sep (map enc ys')" by (auto split: if_splits)
  with Cons.IH [of ys'] Cons.prems x ys show ?case by simp
qed

end

lemma escape_unique:
  "toml_escape v @ CHR 0x22 # r = toml_escape w @ CHR 0x22 # s \<Longrightarrow> v = w \<and> r = s"
proof (induction v arbitrary: w)
  case Nil
  then show ?case by (cases w) (auto simp: toml_escape_def escape_char_def split: if_splits)
next
  case (Cons c v)
  then show ?case
    by (cases w) (auto simp: toml_escape_def escape_char_def split: if_splits)
qed

interpretation quoted_code: prefix_code quoted "\<lambda>_. True"
  by unfold_locales (auto simp: quoted_def dest: escape_unique)

lemma line_unique:
  assumes "CHR 0x20 \<notin> set k" "CHR 0x20 \<notin> set k'" "CHR 0x0A \<notin> set v" "CHR 0x0A \<notin> set v'"
    and "toml_line k v @ r = toml_line k' v' @ s"
  shows "k = k' \<and> v = v' \<and> r = s"
proof -
  have before: "takeWhile ((\<noteq>) c) (xs @ c # ys) = xs \<and> dropWhile ((\<noteq>) c) (xs @ c # ys) = c # ys"
    if "c \<notin> set xs" for c and xs ys :: string
    using that by (induction xs) auto
  from assms(5) have "k @ CHR 0x20 # ''= '' @ v @ CHR 0x0A # r = k' @ CHR 0x20 # ''= '' @ v' @ CHR 0x0A # s"
    by (simp add: toml_line_def)
  with before [OF assms(1)] before [OF assms(2)]
  have k: "k = k'" and "v @ CHR 0x0A # r = v' @ CHR 0x0A # s" by (metis append_Cons append_Nil list.inject)+
  with before [OF assms(3)] before [OF assms(4)] show ?thesis by (metis list.inject)
qed

interpretation line_code: prefix_code "\<lambda>(k, v). toml_line k v" "\<lambda>(k, v). CHR 0x20 \<notin> set k \<and> CHR 0x0A \<notin> set v"
proof unfold_locales
  fix x y :: "string \<times> string" and r s
  assume "case x of (k, v) \<Rightarrow> CHR 0x20 \<notin> set k \<and> CHR 0x0A \<notin> set v"
    and "case y of (k, v) \<Rightarrow> CHR 0x20 \<notin> set k \<and> CHR 0x0A \<notin> set v"
    and "(case x of (k, v) \<Rightarrow> toml_line k v) @ r = (case y of (k, v) \<Rightarrow> toml_line k v) @ s"
  then show "x = y \<and> r = s"
    using line_unique [of "fst x" "fst y" "snd x" "snd y" r s] by (simp add: case_prod_unfold prod_eq_iff)
next
  show "(case x of (k, v) \<Rightarrow> toml_line k v) \<noteq> []" for x
    by (cases x) (simp add: toml_line_def)
qed

lemma profile_id_fmt_inject: "profile_id_fmt i = profile_id_fmt j \<longleftrightarrow> i = j"
  using parse_bytes_show by (metis profile_id.expand profile_id_fmt_def option.inject)

text \<open>The keys of the text in its order, with the value of each line, if it has one.\<close>

definition entries :: "(string \<times> string option) list \<Rightarrow> (string \<times> string) list" where
  "entries fs = concat (map (\<lambda>(k, v). case v of None \<Rightarrow> [] | Some x \<Rightarrow> [(k, x)]) fs)"

lemma entries_simps [simp]:
  "entries [] = []"
  "entries ((k, None) # fs) = entries fs"
  "entries ((k, Some x) # fs) = (k, x) # entries fs"
  by (simp_all add: entries_def)

lemma entries_keys: "(k, x) \<in> set (entries fs) \<Longrightarrow> k \<in> fst ` set fs"
  by (force simp: entries_def split: option.splits)

lemma entries_unique:
  "map fst fs = map fst gs \<Longrightarrow> distinct (map fst fs) \<Longrightarrow> entries fs = entries gs \<Longrightarrow> fs = gs"
proof (induction fs arbitrary: gs)
  case (Cons f fs)
  obtain k v where kv: "f = (k, v)" by (cases f)
  from Cons.prems(1) kv obtain w gs' where gs: "gs = (k, w) # gs'" and keys: "map fst fs = map fst gs'"
    by (cases gs) auto
  note f = kv gs keys
  have "k \<notin> fst ` set fs" "k \<notin> fst ` set gs'"
    using Cons.prems(2) kv arg_cong [OF keys, of set] by auto
  then have "(k, x) \<notin> set (entries fs)" "(k, x) \<notin> set (entries gs')" for x
    using entries_keys by blast+
  then have fresh: "entries fs \<noteq> (k, x) # es" "(k, x) # es \<noteq> entries gs'" for x es
    by (metis list.set_intros(1))+
  have "v = w \<and> entries fs = entries gs'"
    using Cons.prems(3) fresh unfolding f by (cases v; cases w) simp_all
  with Cons.IH [of gs'] Cons.prems(2) f show ?case by simp
qed simp

definition listed :: "string list \<Rightarrow> string option" where
  "listed vs = (if vs = [] then None else Some (''['' @ toml_string_list vs @ '']''))"

definition fields :: "container_session \<Rightarrow> (string \<times> string option) list" where
  "fields s =
     [(''id'', if is_saved (cs_id s) then Some ([CHR 0x22] @ profile_id_fmt (cs_id s) @ [CHR 0x22]) else None),
      (''name'', Some (quoted (cs_name s))), (''runtime'', Some (quoted (cs_runtime s))),
      (''image'', Some (quoted (cs_image s))),
      (''display'', map_option quoted (non_empty (cs_display s))),
      (''presentation'', map_option quoted (non_empty (cs_presentation s))),
      (''profile'', map_option quoted (non_empty (cs_profile s))),
      (''command'', map_option quoted (non_empty (cs_command s))),
      (''app'', map_option quoted (non_empty (cs_app s))),
      (''socket'', map_option quoted (non_empty (cs_socket s))),
      (''container_socket'', map_option quoted (non_empty (cs_container_socket s))),
      (''waypipe_path'', map_option quoted (non_empty (cs_waypipe_path s))),
      (''waypipe_compress'', map_option quoted (non_empty (cs_waypipe_compress s))),
      (''waypipe_threads'', map_option decimal (cs_waypipe_threads s)),
      (''audio'', Some (show_bool (cs_audio s))),
      (''runtime_args'', listed (cs_runtime_args s)), (''mounts'', listed (cs_mounts s)),
      (''env'', listed (cs_env s))]"

lemma entries_lines:
  "concat (map (\<lambda>(k, v). toml_line k v) (entries fs)) =
   concat (map (\<lambda>(k, v). case v of None \<Rightarrow> [] | Some x \<Rightarrow> toml_line k x) fs)"
  by (induction fs) (auto split: option.splits simp: entries_def)

lemma field_lines:
  "optional_line k v = (case map_option quoted (non_empty v) of None \<Rightarrow> [] | Some x \<Rightarrow> toml_line k x)"
  "list_line k vs = (case listed vs of None \<Rightarrow> [] | Some x \<Rightarrow> toml_line k x)"
  "(case n of None \<Rightarrow> [] | Some n \<Rightarrow> toml_line k (decimal n)) =
   (case map_option decimal n of None \<Rightarrow> [] | Some x \<Rightarrow> toml_line k x)"
  "(if b then toml_line k x else []) =
   (case if b then Some x else None of None \<Rightarrow> [] | Some x \<Rightarrow> toml_line k x)"
  by (simp_all add: optional_line_def list_line_def listed_def split: option.split)

lemma session_to_toml_fields:
  "session_to_toml s =
   ''[[session]]'' @ [CHR 0x0A] @ concat (map (\<lambda>(k, v). toml_line k v) (entries (fields s)))"
  unfolding entries_lines session_to_toml_def field_lines fields_def
  by (simp only: list.map concat.simps prod.case option.case append_assoc append_Nil2)

lemma hex_not_newline: "is_lower_hex c \<Longrightarrow> c \<noteq> CHR 0x0A"
  by (auto simp: is_lower_hex_def)

lemma escape_no_newline: "CHR 0x0A \<notin> set (toml_escape v)"
  by (induction v) (auto simp: toml_escape_def escape_char_def)

lemma quoted_no_newline: "CHR 0x0A \<notin> set (quoted v)"
  by (simp add: quoted_def escape_no_newline)

lemma join_no_newline:
  "CHR 0x0A \<notin> set sep \<Longrightarrow> list_all (\<lambda>x. CHR 0x0A \<notin> set x) xs \<Longrightarrow> CHR 0x0A \<notin> set (join sep xs)"
  by (induction sep xs rule: join.induct) auto

lemma listed_no_newline: "listed vs = Some x \<Longrightarrow> CHR 0x0A \<notin> set x"
  using join_no_newline [of "'', ''" "map quoted vs"]
  by (auto simp: listed_def toml_string_list_def list_all_iff quoted_no_newline split: if_splits)

lemma decimal_digits: "c \<in> set (decimal n) \<Longrightarrow> is_ascii_digit c"
proof (induction n rule: decimal.induct)
  case (1 n)
  then show ?case by (cases "n < 10") (auto simp: decimal.simps [of n] is_ascii_digit_def)
qed

lemma fields_ok: "list_all (\<lambda>(k, v). CHR 0x20 \<notin> set k \<and> CHR 0x0A \<notin> set v) (entries (fields s))"
proof -
  have "list_all (\<lambda>(k, v). CHR 0x20 \<notin> set k \<and> (\<forall>x. v = Some x \<longrightarrow> CHR 0x0A \<notin> set x)) (fields s)"
    using show_lower_hex [of "id_bytes (cs_id s)"] decimal_digits [of "CHR 0x0A"]
    by (auto simp: fields_def quoted_no_newline listed_no_newline list_all_iff show_bool_def profile_id_fmt_def
        is_ascii_digit_def dest: hex_not_newline)
  then show ?thesis by (auto simp: entries_def list_all_iff split: option.splits)
qed

lemma listed_inject: "listed vs = listed ws \<longleftrightarrow> vs = ws"
  using quoted_code.join_unique [of vs ws "'', ''"]
  by (auto simp: listed_def toml_string_list_def list_all_iff split: if_splits)

lemma quoted_inject: "quoted v = quoted w \<longleftrightarrow> v = w"
  using quoted_code.unique [where x = v and y = w and r = "[]" and s = "[]"] by auto

lemma quoted_option_inject: "map_option quoted v = map_option quoted w \<longleftrightarrow> v = w"
  by (cases v; cases w) (simp_all add: quoted_inject)

lemma decimal_inject: "decimal m = decimal n \<longleftrightarrow> m = n"
proof
  show "decimal m = decimal n \<Longrightarrow> m = n"
  proof (induction m arbitrary: n rule: decimal.induct)
    case (1 m)
    have digit: "char_of (48 + a) = (char_of (48 + b) :: char) \<longleftrightarrow> a = b" if "a < 10" "b < 10" for a b :: nat
      using that by (simp add: char_of_eq_iff take_bit_nat_def flip: take_bit_eq_mod)
    have ne: "decimal k \<noteq> []" for k by (simp add: decimal.simps [of k])
    show ?case
    proof (cases "m < 10")
      case True
      with "1.prems" ne [of "n div 10"] digit show ?thesis
        by (cases "n < 10") (auto simp: decimal.simps [of m] decimal.simps [of n])
    next
      case False
      with "1.prems" ne [of "m div 10"] have n: "\<not> n < 10"
        by (auto simp: decimal.simps [of m] decimal.simps [of n])
      with False "1.prems" have "decimal (m div 10) = decimal (n div 10)" and "m mod 10 = n mod 10"
        using digit [of "m mod 10" "n mod 10"] by (auto simp: decimal.simps [of m] decimal.simps [of n])
      with "1.IH" [OF False] have "m div 10 = n div 10" "m mod 10 = n mod 10" by auto
      then show ?thesis by (metis div_mult_mod_eq)
    qed
  qed
qed simp

definition normal :: "container_session \<Rightarrow> container_session" where
  "normal s =
     s\<lparr>cs_display := non_empty (cs_display s), cs_presentation := non_empty (cs_presentation s),
       cs_profile := non_empty (cs_profile s), cs_app := non_empty (cs_app s),
       cs_command := non_empty (cs_command s), cs_socket := non_empty (cs_socket s),
       cs_container_socket := non_empty (cs_container_socket s),
       cs_waypipe_path := non_empty (cs_waypipe_path s),
       cs_waypipe_compress := non_empty (cs_waypipe_compress s)\<rparr>"

lemma normal_eq_iff:
  "normal s = normal t \<longleftrightarrow>
     cs_id s = cs_id t \<and> cs_name s = cs_name t \<and> cs_image s = cs_image t \<and> cs_runtime s = cs_runtime t
     \<and> non_empty (cs_display s) = non_empty (cs_display t)
     \<and> non_empty (cs_presentation s) = non_empty (cs_presentation t)
     \<and> non_empty (cs_profile s) = non_empty (cs_profile t) \<and> non_empty (cs_app s) = non_empty (cs_app t)
     \<and> non_empty (cs_command s) = non_empty (cs_command t) \<and> non_empty (cs_socket s) = non_empty (cs_socket t)
     \<and> non_empty (cs_container_socket s) = non_empty (cs_container_socket t)
     \<and> non_empty (cs_waypipe_path s) = non_empty (cs_waypipe_path t)
     \<and> non_empty (cs_waypipe_compress s) = non_empty (cs_waypipe_compress t)
     \<and> cs_waypipe_threads s = cs_waypipe_threads t \<and> cs_audio s = cs_audio t
     \<and> cs_runtime_args s = cs_runtime_args t \<and> cs_mounts s = cs_mounts t \<and> cs_env s = cs_env t"
  by (cases s, cases t) (simp add: normal_def)

lemma id_field_inject:
  "(if is_saved i then Some ([CHR 0x22] @ profile_id_fmt i @ [CHR 0x22]) else None) =
   (if is_saved j then Some ([CHR 0x22] @ profile_id_fmt j @ [CHR 0x22]) else None) \<longleftrightarrow> i = j"
  by (auto simp: profile_id_fmt_inject is_saved_def)

lemma decimal_option_inject: "map_option decimal v = map_option decimal w \<longleftrightarrow> v = w"
  by (cases v; cases w) (simp_all add: decimal_inject)

lemma show_bool_inject: "show_bool b = show_bool c \<longleftrightarrow> b = c"
  by (simp add: show_bool_def)

lemma fields_inject: "fields s = fields t \<longleftrightarrow> normal s = normal t"
  unfolding fields_def normal_eq_iff
  by (simp only: list.inject prod.inject option.inject id_field_inject quoted_inject quoted_option_inject
      listed_inject decimal_option_inject show_bool_inject simp_thms conj_ac)

lemma signature_inject: "session_to_toml s = session_to_toml t \<longleftrightarrow> normal s = normal t"
proof
  assume "session_to_toml s = session_to_toml t"
  then have "entries (fields s) = entries (fields t)"
    using line_code.concat_unique [OF fields_ok fields_ok] by (simp add: session_to_toml_fields)
  then have "fields s = fields t" by (intro entries_unique) (simp_all add: fields_def)
  then show "normal s = normal t" by (simp add: fields_inject)
next
  assume "normal s = normal t"
  then show "session_to_toml s = session_to_toml t" by (simp add: session_to_toml_fields flip: fields_inject)
qed

text \<open>
  A captured action target resolves, in whatever list of sessions is current, to the first
  session with the same identity, name, image, runtime, command, environment and every other
  field as the one it was captured from (an empty optional field is the same as an absent one),
  and to nothing if there is none: a list that was edited or reordered cannot retarget it.
\<close>

theorem target_never_retargeted:
  "resolve_target (capture_target s) ss = find (\<lambda>t. normal t = normal s) ss"
proof -
  have "(cs_id t = cs_id s \<and> session_to_toml t = session_to_toml s) = (normal t = normal s)" for t
    unfolding signature_inject by (auto simp: normal_eq_iff)
  then show ?thesis by (simp add: resolve_target_def capture_target_def)
qed

subsection \<open>Container names\<close>

definition slug_char :: "char \<Rightarrow> bool" where
  "slug_char c \<longleftrightarrow> is_ascii_alphanumeric c \<and> to_lower c = c \<or> c = CHR ''-''"

definition no_dash_pair :: "string \<Rightarrow> bool" where
  "no_dash_pair s \<longleftrightarrow> successively (\<lambda>a b. a \<noteq> CHR ''-'' \<or> b \<noteq> CHR ''-'') s"

definition slug_form :: "string \<Rightarrow> bool" where
  "slug_form s \<longleftrightarrow>
     s \<noteq> [] \<and> list_all slug_char s \<and> hd s \<noteq> CHR ''-'' \<and> last s \<noteq> CHR ''-'' \<and> no_dash_pair s"

lemma to_lower_alphanumeric:
  "is_ascii_alphanumeric c \<Longrightarrow> is_ascii_alphanumeric (to_lower c) \<and> to_lower (to_lower c) = to_lower c"
  by (auto simp: is_ascii_alphabetic_def is_ascii_digit_def to_lower_def Let_def)

lemma dash_not_alphanumeric:
  "\<not> is_ascii_alphabetic (CHR ''-'')" "\<not> is_ascii_digit (CHR ''-'')" "to_lower (CHR ''-'') = CHR ''-''"
  by (simp_all add: is_ascii_alphabetic_def is_ascii_digit_def to_lower_def)

lemma no_dash_pair_append:
  "no_dash_pair (xs @ ys) \<longleftrightarrow>
     no_dash_pair xs \<and> no_dash_pair ys \<and> (xs = [] \<or> ys = [] \<or> last xs \<noteq> CHR ''-'' \<or> hd ys \<noteq> CHR ''-'')"
  by (auto simp: no_dash_pair_def successively_append_iff)

lemma no_dash_pair_simps [simp]: "no_dash_pair []" "no_dash_pair [c]"
  by (simp_all add: no_dash_pair_def)

lemma slug_push_form:
  "list_all slug_char slug \<and> no_dash_pair slug \<Longrightarrow>
   list_all slug_char (slug_push c slug) \<and> no_dash_pair (slug_push c slug)"
  using to_lower_alphanumeric [of c]
  by (auto simp: slug_push_def slug_char_def no_dash_pair_append dash_not_alphanumeric)

lemma fold_slug_form:
  "list_all slug_char slug \<and> no_dash_pair slug \<Longrightarrow>
   list_all slug_char (fold slug_push n slug) \<and> no_dash_pair (fold slug_push n slug)"
proof (induction n arbitrary: slug)
  case (Cons c n)
  show ?case using Cons.IH [of "slug_push c slug"] slug_push_form [OF Cons.prems, of c] by simp
qed simp

lemma trim_matches_infix: "\<exists>a b. s = a @ trim_matches q s @ b"
proof -
  have "s = takeWhile ((=) q) s @ dropWhile ((=) q) s" by simp
  moreover have "dropWhile ((=) q) s =
      trim_matches q s @ rev (takeWhile ((=) q) (rev (dropWhile ((=) q) s)))"
    unfolding trim_matches_def by (metis rev_append rev_rev_ident takeWhile_dropWhile_id)
  ultimately show ?thesis by metis
qed

lemma trim_matches_ends:
  assumes "trim_matches q s \<noteq> []"
  shows "hd (trim_matches q s) \<noteq> q" and "last (trim_matches q s) \<noteq> q"
proof -
  let ?u = "dropWhile ((=) q) s"
  from assms have v: "dropWhile ((=) q) (rev ?u) \<noteq> []" by (simp add: trim_matches_def)
  then show "last (trim_matches q s) \<noteq> q"
    using hd_dropWhile [of "(=) q" "rev ?u"] by (auto simp: trim_matches_def last_rev)
  from v have "?u \<noteq> []" by (metis dropWhile.simps(1) rev.simps(1))
  then have hd_u: "hd ?u \<noteq> q" using hd_dropWhile [of "(=) q" s] by auto
  have "rev (dropWhile ((=) q) (rev ?u)) @ rev (takeWhile ((=) q) (rev ?u)) = ?u"
    by (metis rev_append rev_rev_ident takeWhile_dropWhile_id)
  with v have "hd (rev (dropWhile ((=) q) (rev ?u))) = hd ?u" by (metis hd_append2 rev_is_Nil_conv)
  with hd_u show "hd (trim_matches q s) \<noteq> q" by (simp add: trim_matches_def)
qed

lemma trim_matches_id:
  assumes "s \<noteq> []" "hd s \<noteq> q" "last s \<noteq> q"
  shows "trim_matches q s = s"
proof -
  have "dropWhile ((=) q) s = s" using assms by (cases s) auto
  moreover have "dropWhile ((=) q) (rev s) = rev s" using assms by (cases s rule: rev_cases) auto
  ultimately show ?thesis by (simp add: trim_matches_def)
qed

lemma fold_slug_id:
  "list_all slug_char n \<Longrightarrow> no_dash_pair (slug @ n) \<Longrightarrow> fold slug_push n slug = slug @ n"
proof (induction n arbitrary: slug)
  case (Cons c n)
  from Cons.prems have "slug_push c slug = slug @ [c]"
    using no_dash_pair_append [of slug "c # n"]
    by (auto simp: slug_push_def slug_char_def dash_not_alphanumeric)
  with Cons.IH [of "slug @ [c]"] Cons.prems show ?case by simp
qed simp

lemma slugify_form: "slug_form (slugify n)"
proof -
  let ?s = "fold slug_push n []"
  have s: "list_all slug_char ?s" "no_dash_pair ?s" using fold_slug_form [of "[]" n] by auto
  obtain a b where "?s = a @ trim_matches (CHR ''-'') ?s @ b" using trim_matches_infix by blast
  with s have "list_all slug_char (trim_matches (CHR ''-'') ?s)" "no_dash_pair (trim_matches (CHR ''-'') ?s)"
    by (metis list_all_append, metis no_dash_pair_append)
  moreover have "slug_form ''container''"
    by (simp add: slug_form_def slug_char_def is_ascii_alphabetic_def to_lower_def no_dash_pair_def)
  ultimately show ?thesis
    using trim_matches_ends [of "CHR ''-''" ?s] by (auto simp: slugify_def slug_form_def Let_def)
qed

lemma slugify_id: "slug_form n \<Longrightarrow> slugify n = n"
  using fold_slug_id [of n "[]"] by (simp add: slug_form_def slugify_def trim_matches_id Let_def)

text \<open>
  The slug of any name is a non-empty word of lower-case letters, digits and single inner
  dashes, the words of this form are exactly the names that are their own slug, and so the
  container name of every session, however it is named, is one that an owned identity accepts.
\<close>

theorem container_name_canonical:
  "slug_form (slugify n) \<and> (slugify n = n \<longleftrightarrow> slug_form n) \<and> valid_name (container_name s)"
proof -
  have "list_all name_byte (slugify m)" for m
    using slugify_form [of m] by (auto simp: slug_form_def list_all_iff slug_char_def name_byte_def)
  then have "valid_name (container_name s)"
    by (simp add: valid_name_def container_name_def name_byte_def is_ascii_alphabetic_def)
  with slugify_form slugify_id show ?thesis by metis
qed

end
