(* ===== verification/Runtime_Paths.thy ===== *)
theory Runtime_Paths
  imports Session_Profile
begin

text \<open>
  \<open>src/runtime_paths.rs\<close>: quoting for the shell, the search path of child processes and the
  search for a command in it. What the file system holds is a function from paths; the log
  of the paths that were tried is left out.
\<close>

subsection \<open>Quoting\<close>

definition quote_char :: "char \<Rightarrow> string" where
  "quote_char c = (if c = CHR 0x27 then [CHR 0x27, CHR 0x5C, CHR 0x27, CHR 0x27] else [c])"

definition shell_single_quote :: "string \<Rightarrow> string" where
  "shell_single_quote v = [CHR 0x27] @ concat (map quote_char v) @ [CHR 0x27]"

definition shell_args :: "string list \<Rightarrow> string" where
  "shell_args as = (if as = [] then [] else '' '' @ join '' '' (map shell_single_quote as))"

definition terminal_command :: "container_session \<Rightarrow> string" where
  "terminal_command s =
     runtime_binary_name (cs_runtime s) @ '' exec -it '' @ shell_single_quote (container_name s)
     @ '' sh -lc '' @ shell_single_quote ''exec ${SHELL:-/bin/sh}''"

text \<open>
  What a POSIX shell makes of a command line: words are separated by blanks, a single quote
  preserves everything up to the next one, a backslash preserves the next character. A line
  that uses another construct (\<open>None\<close>) is outside this reading.
\<close>

definition plain_char :: "char \<Rightarrow> bool" where
  "plain_char c \<longleftrightarrow> is_ascii_alphanumeric c \<or> c \<in> set ''-_./:=''"

fun shell_read :: "bool \<Rightarrow> string option \<Rightarrow> string \<Rightarrow> string list option" where
  "shell_read True w [] = None"
| "shell_read True w (c # s) =
     (if c = CHR 0x27 then shell_read False w s
      else shell_read True (map_option (\<lambda>w. w @ [c]) w) s)"
| "shell_read False w [] = Some (case w of None \<Rightarrow> [] | Some x \<Rightarrow> [x])"
| "shell_read False w (c # s) =
     (let word = (case w of None \<Rightarrow> [] | Some x \<Rightarrow> x) in
      if c = CHR 0x20 then
        map_option (\<lambda>ws. (case w of None \<Rightarrow> ws | Some x \<Rightarrow> x # ws)) (shell_read False None s)
      else if c = CHR 0x27 then shell_read True (Some word) s
      else if c = CHR 0x5C then
        (case s of [] \<Rightarrow> None | d # s' \<Rightarrow> shell_read False (Some (word @ [d])) s')
      else if plain_char c then shell_read False (Some (word @ [c])) s
      else None)"

definition shell_words :: "string \<Rightarrow> string list option" where
  "shell_words s = shell_read False None s"

subsection \<open>Paths\<close>

text \<open>\<open>Path::join\<close>, and the components by which paths are compared.\<close>

definition path_join :: "string \<Rightarrow> string \<Rightarrow> string" where
  "path_join dir name =
     (if is_absolute name then name
      else if dir = [] \<or> last dir = CHR ''/'' then dir @ name
      else dir @ ''/'' @ name)"

definition components :: "string \<Rightarrow> bool \<times> string list" where
  "components p =
     (let cs = split_slash [] p in
      (is_absolute p,
       (if \<not> is_absolute p \<and> hd cs = ''.'' then [''.''] else [])
       @ filter (\<lambda>c. c \<noteq> [] \<and> c \<noteq> ''.'') cs))"

fun split_colon :: "string \<Rightarrow> string \<Rightarrow> string list" where
  "split_colon acc [] = [rev acc]"
| "split_colon acc (c # s) =
     (if c = CHR '':'' then rev acc # split_colon [] s else split_colon (c # acc) s)"

definition split_paths :: "string \<Rightarrow> string list" where
  "split_paths p = split_colon [] p"

text \<open>\<open>std::env::join_paths\<close> refuses a path with a colon.\<close>

definition join_paths :: "string list \<Rightarrow> string option" where
  "join_paths ps = (if list_ex (\<lambda>p. CHR '':'' \<in> set p) ps then None else Some (join '':'' ps))"

subsection \<open>The search path of child processes\<close>

definition push_unique_path :: "string \<Rightarrow> string list \<Rightarrow> string list" where
  "push_unique_path p ps = (if components p \<in> components ` set ps then ps else ps @ [p])"

definition STANDARD_DIRS :: "string list" where
  "STANDARD_DIRS =
     [''/opt/homebrew/bin'', ''/opt/homebrew/sbin'', ''/usr/local/bin'', ''/usr/local/sbin'',
      ''/opt/orbstack/bin'', ''/Applications/OrbStack.app/Contents/MacOS/bin'',
      ''/Applications/Docker.app/Contents/Resources/bin'', ''/opt/local/bin'', ''/opt/local/sbin'',
      ''/nix/var/nix/profiles/default/bin'', ''/run/current-system/sw/bin'',
      ''/usr/bin'', ''/bin'', ''/usr/sbin'', ''/sbin'']"

definition child_dirs :: "string option \<Rightarrow> string list" where
  "child_dirs path_var =
     fold push_unique_path STANDARD_DIRS
       (fold push_unique_path (case path_var of None \<Rightarrow> [] | Some p \<Rightarrow> split_paths p) [])"

definition build_child_path :: "string option \<Rightarrow> string" where
  "build_child_path path_var = (case join_paths (child_dirs path_var) of None \<Rightarrow> [] | Some p \<Rightarrow> p)"

subsection \<open>The search for a command\<close>

text \<open>What \<open>std::fs::metadata\<close> says of a path: the text of an error, or whether it is a regular
  file and its mode.\<close>

type_synonym file_system = "string \<Rightarrow> string + (bool \<times> nat)"

definition executable_mode :: "nat \<Rightarrow> bool" where
  "executable_mode mode \<longleftrightarrow> mode AND 73 \<noteq> 0"

definition is_executable_file :: "file_system \<Rightarrow> string \<Rightarrow> bool" where
  "is_executable_file fs p =
     (case fs p of Inl e \<Rightarrow> False | Inr (is_file, mode) \<Rightarrow> is_file \<and> executable_mode mode)"

definition find_executable_in_path :: "file_system \<Rightarrow> string \<Rightarrow> string option \<Rightarrow> string option" where
  "find_executable_in_path fs name path_var =
     (case path_var of
        None \<Rightarrow> None
      | Some p \<Rightarrow> find (is_executable_file fs) (map (\<lambda>d. path_join d name) (split_paths p)))"

definition find_command_path :: "file_system \<Rightarrow> string option \<Rightarrow> string \<Rightarrow> string \<Rightarrow> string option" where
  "find_command_path fs path_var name child_path =
     (case find_executable_in_path fs name path_var of
        Some p \<Rightarrow> Some p
      | None \<Rightarrow> find_executable_in_path fs name (Some child_path))"

definition expand_home :: "string option \<Rightarrow> string \<Rightarrow> string" where
  "expand_home home p =
     (case (strip_prefix ''~/'' p, home) of
        (Some rest, Some h) \<Rightarrow> path_join h rest
      | _ \<Rightarrow> p)"

definition resolve_command_path ::
  "file_system \<Rightarrow> string option \<Rightarrow> string option \<Rightarrow> string \<Rightarrow> string option \<Rightarrow> string \<Rightarrow> string option" where
  "resolve_command_path fs path_var home name configured child_path =
     (case configured of
        Some c \<Rightarrow>
          if trim c \<noteq> [] then
            (let p = expand_home home (trim c) in if is_executable_file fs p then Some p else None)
          else find_command_path fs path_var name child_path
      | None \<Rightarrow> find_command_path fs path_var name child_path)"

definition apple_data_root :: "string option \<Rightarrow> string option \<Rightarrow> string" where
  "apple_data_root remembered home =
     (case remembered of
        Some p \<Rightarrow> p
      | None \<Rightarrow> path_join (case home of None \<Rightarrow> ''/Users'' | Some h \<Rightarrow> h)
                  ''Library/Application Support/com.apple.container'')"

subsection \<open>Quoting is exact\<close>

lemma read_quoted:
  "shell_read True (Some w) (concat (map quote_char v) @ CHR 0x27 # r) = shell_read False (Some (w @ v)) r"
  by (induction v arbitrary: w) (simp_all add: quote_char_def)

lemma read_single_quoted:
  "shell_read False None (shell_single_quote v @ r) = shell_read False (Some v) r"
  by (simp add: shell_single_quote_def read_quoted)

lemma read_joined: "shell_read False None (join '' '' (map shell_single_quote as)) = Some as"
proof (induction as)
  case (Cons a as)
  then show ?case
    using read_single_quoted [of a "[]"]
    by (cases as) (simp_all add: read_single_quoted)
qed simp

lemma read_plain:
  "list_all plain_char v \<Longrightarrow> shell_read False (Some w) (v @ r) = shell_read False (Some (w @ v)) r"
proof (induction v arbitrary: w)
  case (Cons c v)
  then have "c \<noteq> CHR 0x20" "c \<noteq> CHR 0x27" "c \<noteq> CHR 0x5C"
    by (auto simp: plain_char_def is_ascii_alphabetic_def is_ascii_digit_def)
  with Cons show ?case by simp
qed simp

lemma read_word:
  assumes "v \<noteq> []" "list_all plain_char v"
  shows "shell_read False None (v @ r) = shell_read False (Some v) r"
proof -
  obtain c v' where v: "v = c # v'" using assms by (cases v) auto
  with assms have "c \<noteq> CHR 0x20" "c \<noteq> CHR 0x27" "c \<noteq> CHR 0x5C"
    by (auto simp: plain_char_def is_ascii_alphabetic_def is_ascii_digit_def)
  with v assms read_plain [of v' "[c]" r] show ?thesis by simp
qed

lemma read_blank: "shell_read False (Some w) (CHR 0x20 # r) = map_option ((#) w) (shell_read False None r)"
  by simp

lemma runtime_binary_name_plain:
  "runtime_binary_name r \<noteq> [] \<and> list_all plain_char (runtime_binary_name r)"
  by (simp add: runtime_binary_name_def plain_char_def is_ascii_alphabetic_def Let_def)

text \<open>
  A shell reads the arguments that were quoted for it as exactly these arguments, whatever
  characters they hold, and the command line offered for a terminal as the runtime with its
  fixed words and the one container name.
\<close>

theorem shell_words_exact:
  "shell_words (shell_args as) = Some as
   \<and> shell_words (terminal_command s) =
       Some [runtime_binary_name (cs_runtime s), ''exec'', ''-it'', container_name s, ''sh'', ''-lc'',
             ''exec ${SHELL:-/bin/sh}'']"
proof
  show "shell_words (shell_args as) = Some as"
    using read_joined [of as] by (simp add: shell_words_def shell_args_def)
next
  have plain: "list_all plain_char ''exec''" "list_all plain_char ''-it''" "list_all plain_char ''sh''" "list_all plain_char ''-lc''"
    by (simp_all add: plain_char_def is_ascii_alphabetic_def)
  have "terminal_command s =
      runtime_binary_name (cs_runtime s) @ CHR 0x20 # ''exec'' @ CHR 0x20 # ''-it'' @ CHR 0x20 #
      shell_single_quote (container_name s) @ CHR 0x20 # ''sh'' @ CHR 0x20 # ''-lc'' @ CHR 0x20 #
      shell_single_quote ''exec ${SHELL:-/bin/sh}'' @ []"
    by (simp add: terminal_command_def)
  then show "shell_words (terminal_command s) =
       Some [runtime_binary_name (cs_runtime s), ''exec'', ''-it'', container_name s, ''sh'', ''-lc'',
             ''exec ${SHELL:-/bin/sh}'']"
    unfolding shell_words_def
    by (simp only: read_word runtime_binary_name_plain plain read_single_quoted read_blank list.distinct
        not_Cons_self shell_read.simps(3) option.case option.map not_False_eq_True)
qed

subsection \<open>The search path is closed\<close>

lemma split_colon_plain: "p \<in> set (split_colon acc s) \<Longrightarrow> CHR '':'' \<notin> set acc \<Longrightarrow> CHR '':'' \<notin> set p"
  by (induction acc s rule: split_colon.induct) (auto split: if_splits)

lemma split_colon_append:
  "CHR '':'' \<notin> set p \<Longrightarrow> split_colon acc (p @ CHR '':'' # s) = (rev acc @ p) # split_colon [] s"
  by (induction p arbitrary: acc) auto

lemma split_colon_last: "CHR '':'' \<notin> set p \<Longrightarrow> split_colon acc p = [rev acc @ p]"
  by (induction p arbitrary: acc) auto

lemma split_join:
  "ps \<noteq> [] \<Longrightarrow> list_all (\<lambda>p. CHR '':'' \<notin> set p) ps \<Longrightarrow> split_paths (join '':'' ps) = ps"
proof (induction ps)
  case (Cons p ps)
  then show ?case
    by (cases ps) (simp_all add: split_paths_def split_colon_last split_colon_append)
qed simp

lemma fold_push_set:
  "components ` set (fold push_unique_path xs ps) = components ` (set ps \<union> set xs)"
proof (induction xs arbitrary: ps)
  case (Cons x xs)
  have "components ` set (push_unique_path x ps) = insert (components x) (components ` set ps)"
    by (auto simp: push_unique_path_def)
  with Cons.IH [of "push_unique_path x ps"] show ?case by auto
qed simp

lemma fold_push_distinct:
  "distinct (map components ps) \<Longrightarrow> distinct (map components (fold push_unique_path xs ps))"
  by (induction xs arbitrary: ps) (simp_all add: push_unique_path_def)

lemma fold_push_members: "set (fold push_unique_path xs ps) \<subseteq> set ps \<union> set xs"
proof (induction xs arbitrary: ps)
  case (Cons x xs)
  have "set (push_unique_path x ps) \<subseteq> insert x (set ps)" by (auto simp: push_unique_path_def)
  with Cons.IH [of "push_unique_path x ps"] show ?case by auto
qed simp

lemma fold_push_new:
  "distinct (map components (ps @ xs)) \<Longrightarrow> fold push_unique_path xs ps = ps @ xs"
proof (induction xs arbitrary: ps)
  case (Cons x xs)
  then have "push_unique_path x ps = ps @ [x]" by (auto simp: push_unique_path_def)
  with Cons.IH [of "ps @ [x]"] Cons.prems show ?case by simp
qed simp

lemma fold_push_known:
  "components ` set xs \<subseteq> components ` set ps \<Longrightarrow> fold push_unique_path xs ps = ps"
  by (induction xs) (simp_all add: push_unique_path_def)

lemma fold_push_prefix: "\<exists>rest. fold push_unique_path xs ps = ps @ rest"
  by (induction xs arbitrary: ps) (auto simp: push_unique_path_def, metis append_assoc)

lemma child_dirs_set:
  "components ` set (child_dirs pv) =
   components ` (set (case pv of None \<Rightarrow> [] | Some p \<Rightarrow> split_paths p) \<union> set STANDARD_DIRS)"
  unfolding child_dirs_def fold_push_set by (simp add: fold_push_set image_Un)

lemma child_dirs_plain: "list_all (\<lambda>p. CHR '':'' \<notin> set p) (child_dirs pv)"
proof -
  have "set (child_dirs pv) \<subseteq> set (case pv of None \<Rightarrow> [] | Some p \<Rightarrow> split_paths p) \<union> set STANDARD_DIRS"
    unfolding child_dirs_def
    using fold_push_members [of "case pv of None \<Rightarrow> [] | Some p \<Rightarrow> split_paths p" "[]"]
    by (intro order_trans [OF fold_push_members]) auto
  moreover have "list_all (\<lambda>p. CHR '':'' \<notin> set p) STANDARD_DIRS" by (simp add: STANDARD_DIRS_def)
  moreover have "CHR '':'' \<notin> set p"
    if "p \<in> set (case pv of None \<Rightarrow> [] | Some p \<Rightarrow> split_paths p)" for p
    using that by (auto simp: split_paths_def dest: split_colon_plain split: option.splits)
  ultimately show ?thesis unfolding list_all_iff by blast
qed

lemma child_dirs_non_empty: "child_dirs pv \<noteq> []"
proof
  assume "child_dirs pv = []"
  with child_dirs_set [of pv] show False by (simp add: STANDARD_DIRS_def)
qed

lemma split_child_path: "split_paths (build_child_path pv) = child_dirs pv"
  using split_join [OF child_dirs_non_empty child_dirs_plain] child_dirs_plain [of pv]
  by (simp add: build_child_path_def join_paths_def list_ex_iff list_all_iff)

text \<open>
  The search path of child processes lists every directory of \<open>PATH\<close> and every standard one
  exactly once, up to the spelling of the path, with those of \<open>PATH\<close> first in their order; a
  child that builds its own path from it gets the same one.
\<close>

theorem child_path_closed:
  "split_paths (build_child_path pv) = child_dirs pv
   \<and> distinct (map components (child_dirs pv))
   \<and> components ` set (child_dirs pv) =
       components ` (set (case pv of None \<Rightarrow> [] | Some p \<Rightarrow> split_paths p) \<union> set STANDARD_DIRS)
   \<and> (\<exists>rest. child_dirs pv = fold push_unique_path (case pv of None \<Rightarrow> [] | Some p \<Rightarrow> split_paths p) [] @ rest)
   \<and> build_child_path (Some (build_child_path pv)) = build_child_path pv"
proof (intro conjI)
  show d: "distinct (map components (child_dirs pv))"
    unfolding child_dirs_def by (intro fold_push_distinct) simp
  show "\<exists>rest. child_dirs pv = fold push_unique_path (case pv of None \<Rightarrow> [] | Some p \<Rightarrow> split_paths p) [] @ rest"
    unfolding child_dirs_def by (rule fold_push_prefix)
  have "child_dirs (Some (build_child_path pv)) = child_dirs pv"
    unfolding child_dirs_def [of "Some (build_child_path pv)"]
    using fold_push_new [of "[]" "child_dirs pv"] d child_dirs_set [of pv]
    by (simp add: split_child_path fold_push_known image_Un)
  then show "build_child_path (Some (build_child_path pv)) = build_child_path pv"
    by (simp add: build_child_path_def)
qed (rule split_child_path child_dirs_set)+

subsection \<open>What is found can be executed\<close>

lemma found_executable: "find_executable_in_path fs name pv = Some p \<Longrightarrow> is_executable_file fs p"
  by (auto simp: find_executable_in_path_def find_Some_iff split: option.splits)

lemma resolved_executable:
  "resolve_command_path fs pv home name configured child_path = Some p \<Longrightarrow> is_executable_file fs p"
  by (auto simp: resolve_command_path_def find_command_path_def Let_def
      split: option.splits if_splits dest: found_executable)

end
