(* ===== verification/Session_Check.thy ===== *)
theory Session_Check
  imports Runtime_Paths
begin

text \<open>
  \<open>src/container_sessions.rs\<close>: the check of a session before a launch, \<open>check_session\<close>. Every
  command goes through a runner; the file system, the environment variables and the source of
  randomness are the record \<open>host_env\<close>. JSON is decoded outside this repository.
\<close>

subsection \<open>The host\<close>

record host_env =
  he_path :: "string option"
  he_home :: "string option"
  he_files :: file_system
  he_pid :: nat
  he_uid :: nat
  he_random :: "string + 8 word list"
  he_docker_context :: "string option"
  he_docker_host :: "string option"
  he_probe_sequence :: nat
  he_probe_admitted :: bool
  he_status_json :: "string \<Rightarrow> string option option"
  he_apple_inspect :: "string \<Rightarrow> string + apple_inspect list"
  he_docker_inspect :: "string \<Rightarrow> string + docker_inspect list"

text \<open>
  \<open>he_probe_admitted\<close>: the wait for the lock of the image probe ended with the lock, not with
  its deadline. \<open>he_status_json\<close>: \<open>None\<close> if the text is not JSON, else the member \<open>status\<close> if it
  is a string. The \<open>?\<close> operator on a step that may run commands:
\<close>

definition try_then ::
  "('w \<Rightarrow> ('e + 'a) \<times> 'w) \<Rightarrow> ('a \<Rightarrow> 'w \<Rightarrow> ('e + 'b) \<times> 'w) \<Rightarrow> 'w \<Rightarrow> ('e + 'b) \<times> 'w" where
  "try_then m f w = (case m w of (Inl e, w') \<Rightarrow> (Inl e, w') | (Inr x, w') \<Rightarrow> f x w')"

definition child_command :: "string \<Rightarrow> string \<Rightarrow> string list \<Rightarrow> command" where
  "child_command binary child_path as = add_args as (env ''PATH'' child_path (command_new binary))"

subsection \<open>Executables\<close>

definition require_executable :: "file_system \<Rightarrow> string \<Rightarrow> string \<Rightarrow> string \<Rightarrow> launch_error + unit" where
  "require_executable fs path name remediation =
     (let problem =
        (case fs path of
           Inl e \<Rightarrow> Some e
         | Inr (is_file, mode) \<Rightarrow>
             if \<not> is_file then Some ''not a regular file''
             else if \<not> executable_mode mode
             then Some ''executable permission is missing; restore it only if you trust/own this binary, or reinstall it''
             else None)
      in case problem of
           None \<Rightarrow> Inr ()
         | Some p \<Rightarrow> Inl (MissingCommand name (''Path '' @ [CHR 0x27] @ path @ [CHR 0x27] @ '': '' @ p @ ''. '' @ remediation)))"

definition require_session_command ::
  "host_env \<Rightarrow> string \<Rightarrow> string option \<Rightarrow> string \<Rightarrow> string \<Rightarrow> launch_error + string" where
  "require_session_command h name configured child_path remediation =
     (case resolve_command_path (he_files h) (he_path h) (he_home h) name configured child_path of
        Some path \<Rightarrow> and_then (require_executable (he_files h) path name remediation) (\<lambda>_. Inr path)
      | None \<Rightarrow>
          (let candidate =
             (case configured of
                Some c \<Rightarrow>
                  if trim c \<noteq> [] then Some (expand_home (he_home h) (trim c))
                  else find (\<lambda>p. is_ok (he_files h p)) (map (\<lambda>d. path_join d name) (split_paths child_path))
              | None \<Rightarrow> find (\<lambda>p. is_ok (he_files h p)) (map (\<lambda>d. path_join d name) (split_paths child_path)))
           in and_then
                (case candidate of
                   Some path \<Rightarrow> require_executable (he_files h) path name remediation
                 | None \<Rightarrow> Inr ())
                (\<lambda>_. Inl (MissingCommand name (''Not found in Cocoa-Way's child PATH. '' @ remediation)))))"

subsection \<open>The runtime\<close>

definition waypipe_failure :: "string \<Rightarrow> string \<Rightarrow> launch_error" where
  "waypipe_failure binary detail =
     MissingCommand ''waypipe''
       (''Found at '' @ [CHR 0x27] @ binary @ [CHR 0x27] @ '', but its native version check failed: '' @ detail
        @ ''. Check this binary's Mac architecture, native libraries, and macOS security approval. Install a working waypipe-darwin build or correct waypipe_path, then retry. Use compatible host and guest Waypipe builds if a protocol/version mismatch is reported.'')"

definition preflight_waypipe ::
  "'w runner \<Rightarrow> string \<Rightarrow> string \<Rightarrow> 'w \<Rightarrow> (launch_error + string) \<times> 'w" where
  "preflight_waypipe run binary child_path w =
     (case run (child_command binary child_path [''--version'']) (from_secs 3) w of
        (Inl e, w') \<Rightarrow> (Inl (waypipe_failure binary e), w')
      | (Inr out, w') \<Rightarrow>
          (if success out then
             Inr (case runtime_output_message (stdout out) of
                    Some m \<Rightarrow> m
                  | None \<Rightarrow> (case runtime_output_message (stderr out) of
                               Some m \<Rightarrow> m | None \<Rightarrow> ''unknown (version not reported)''))
           else Inl (waypipe_failure binary (runtime_failure_detail out)), w'))"

definition apple_container_list_has_running :: "string \<Rightarrow> string \<Rightarrow> bool" where
  "apple_container_list_has_running out name =
     list_ex (\<lambda>l. case split_whitespace l of
                    [] \<Rightarrow> False
                  | i # columns \<Rightarrow> i = name \<and> ''running'' \<in> set columns)
       (lines out)"

definition runtime_container_is_running ::
  "'w runner \<Rightarrow> runtime \<Rightarrow> string \<Rightarrow> string \<Rightarrow> string \<Rightarrow> 'w \<Rightarrow> (launch_error + bool) \<times> 'w" where
  "runtime_container_is_running run kind binary child_path name w =
     (if kind = OrbStack then (Inr False, w)
      else
        (let (label, as) =
           (if kind = Apple then (''Apple Container'', [''list'', ''--all''])
            else (''Docker'', [''inspect'', ''-f'', ''{{.State.Running}}'', name]))
         in case run (child_command binary child_path as) (from_secs 6) w of
              (Inl e, w') \<Rightarrow>
                (Inl (RuntimeNotReady label (''Container state check failed: '' @ e @ ''. Check the runtime service and retry; container state is unknown.'')), w')
            | (Inr out, w') \<Rightarrow>
                (if \<not> success out then
                   (if kind = Docker \<and> runtime_output_is_not_found (stderr out) name then Inr False
                    else Inl (RuntimeNotReady label (''Container state check failed ('' @ runtime_failure_detail out @ ''). Check the runtime service and retry; container state is unknown.'')))
                 else if kind = Apple then Inr (apple_container_list_has_running (stdout out) name)
                 else if trim (stdout out) = ''true'' then Inr True
                 else if trim (stdout out) = ''false'' then Inr False
                 else Inl (RuntimeNotReady label ''Container state check returned an unrecognized result. Check the Docker CLI/context and retry; container state is unknown.''), w')))"

definition START_HINT :: string where
  "START_HINT = ''Use Container > Apple Container > Start System (or `container system start`) and wait until the service reports running. For older CLIs such as 1.0.0, install the latest supported official Apple Container release first.''"

definition is_apple_container_running_status :: "string \<Rightarrow> bool" where
  "is_apple_container_running_status l =
     (case split_whitespace l of a # b # _ \<Rightarrow> a = ''status'' \<and> b = ''running'' | _ \<Rightarrow> False)"

definition preflight_apple_container ::
  "'w runner \<Rightarrow> host_env \<Rightarrow> string \<Rightarrow> string \<Rightarrow> 'w \<Rightarrow> (launch_error + unit) \<times> 'w" where
  "preflight_apple_container run h binary child_path w =
     (let not_ready = (\<lambda>hint. RuntimeNotReady ''Apple Container'' (hint @ START_HINT)) in
      case run (child_command binary child_path [''system'', ''status'', ''--format'', ''json'']) (from_secs 6) w of
        (Inl e, w1) \<Rightarrow> (Inl (not_ready (''System status check failed: '' @ e @ ''. '')), w1)
      | (Inr out, w1) \<Rightarrow>
          (case he_status_json h (stdout out) of
             Some st \<Rightarrow>
               (if success out \<and> st = Some ''running'' then Inr ()
                else Inl (not_ready (''System status was not running ('' @ runtime_failure_detail out @ ''). '')), w1)
           | None \<Rightarrow>
               (case run (child_command binary child_path [''system'', ''status'']) (from_secs 6) w1 of
                  (Inl e, w2) \<Rightarrow> (Inl (not_ready (''System status check failed: '' @ e @ ''. '')), w2)
                | (Inr out2, w2) \<Rightarrow>
                    (if \<not> success out2
                     then Inl (not_ready (''System status check failed ('' @ runtime_failure_detail out2 @ ''). ''))
                     else if \<not> list_ex is_apple_container_running_status (lines (stdout out2))
                     then Inl (not_ready (''System status did not report running ('' @ runtime_failure_detail out2 @ ''). ''))
                     else Inr (), w2))))"

subsection \<open>The image\<close>

definition image_missing :: "string \<Rightarrow> cmd_output \<Rightarrow> bool" where
  "image_missing img out =
     (let text = to_ascii_lowercase (stderr out @ [CHR 0x0A] @ stdout out) in
      contains text ''no such image'' \<or> contains text ''image not found''
      \<or> (contains text (to_ascii_lowercase img)
         \<and> (contains text ''not found'' \<or> contains text ''notfound'')
         \<and> \<not> contains text ''socket''))"

definition inspect_image ::
  "'w runner \<Rightarrow> string \<Rightarrow> string \<Rightarrow> string list \<Rightarrow> string \<Rightarrow> string \<Rightarrow> string \<Rightarrow> 'w \<Rightarrow> (launch_error + unit) \<times> 'w" where
  "inspect_image run binary child_path as label img hint w =
     (case run (child_command binary child_path as) (from_secs 6) w of
        (Inl e, w') \<Rightarrow>
          (Inl (RuntimeNotReady label (''Image inspection failed: '' @ e @ ''. Check the runtime service and retry.'')), w')
      | (Inr out, w') \<Rightarrow>
          (if success out then Inr ()
           else if image_missing img out
           then Inl (ImageUnavailable label img (runtime_failure_detail out @ '' '' @ hint))
           else Inl (RuntimeNotReady label (''Image inspection failed ('' @ runtime_failure_detail out @ ''). Check the runtime service/context and permissions; image availability is unknown. Do not rebuild or pull solely because this check failed.'')), w'))"

definition append_guest_command :: "string \<Rightarrow> string \<Rightarrow> command \<Rightarrow> command" where
  "append_guest_command img prog c = add_args [''--entrypoint'', prog, img] c"

definition PROBE_STARTED :: string where "PROBE_STARTED = ''COCOA_WAY_IMAGE_PROBE_STARTED''"

definition AUDIO_READY :: string where "AUDIO_READY = ''COCOA_WAY_AUDIO_TOOLS_READY''"

definition MISSING_TOOL :: string where "MISSING_TOOL = ''COCOA_WAY_MISSING_TOOL: ''"

text \<open>\<open>printf '%s\\n' WORDS\<close>\<close>

definition printf_line :: "string \<Rightarrow> string" where
  "printf_line words = ''printf '' @ [CHR 0x27] @ ''%s'' @ [CHR 0x5C] @ ''n'' @ [CHR 0x27] @ '' '' @ words"

definition tool_probe :: "string \<Rightarrow> string" where
  "tool_probe tool =
     ''{ command -v '' @ shell_single_quote tool @ '' >/dev/null || { ''
     @ printf_line (shell_single_quote (MISSING_TOOL @ tool)) @ '' >&2; exit 1; }; }''"

definition AUDIO_TOOLS :: "string list" where
  "AUDIO_TOOLS = [''cocoa-way-audio-relay'', ''pipewire'', ''pipewire-pulse'', ''wireplumber'', ''pactl'', ''parec'']"

definition audio_probe_script :: string where
  "audio_probe_script =
     ''if '' @ join '' && '' (map (\<lambda>t. ''command -v '' @ t @ '' >/dev/null'') AUDIO_TOOLS)
     @ ''; then '' @ printf_line AUDIO_READY @ ''; fi''"

definition audio_probe :: "runtime \<Rightarrow> container_session \<Rightarrow> bool" where
  "audio_probe r s \<longleftrightarrow> r = Apple \<and> cs_audio s"

definition required_probes :: "runtime \<Rightarrow> container_session \<Rightarrow> string list" where
  "required_probes r s =
     map tool_probe
       ([''waypipe''] @ (if r = Apple then [''perl''] else [])
        @ (case session_command_binary s of None \<Rightarrow> [] | Some b \<Rightarrow> [b]))
     @ (if audio_probe r s then [audio_probe_script] else [])"

definition user_args :: "container_session \<Rightarrow> string list" where
  "user_args s =
     concat (map (\<lambda>e. [''--env'', e]) (cs_env s)) @ concat (map (\<lambda>m. [''--mount'', m]) (cs_mounts s))
     @ cs_runtime_args s"

definition probe_name :: "host_env \<Rightarrow> string" where
  "probe_name h = ''cocoa-way-check-'' @ decimal (he_pid h) @ ''-'' @ decimal (he_probe_sequence h)"

definition probe_command ::
  "container_session \<Rightarrow> runtime \<Rightarrow> owned_identity \<Rightarrow> string \<Rightarrow> string \<Rightarrow> string list \<Rightarrow> command" where
  "probe_command s r i binary child_path probes =
     add_args [''-lc'', printf_line PROBE_STARTED @ ''; '' @ join '' && '' probes]
       (append_guest_command (cs_image s) ''sh''
         (append_owner_label i
           (add_args (if r = Docker then [''--pull=never''] else [])
             (add_args (user_args s)
               (child_command binary child_path [''run'', ''--rm'', ''--name'', i_name i])))))"

definition run_probes ::
  "'w runner \<Rightarrow> host_env \<Rightarrow> container_session \<Rightarrow> runtime \<Rightarrow> string \<Rightarrow> string \<Rightarrow> string list
    \<Rightarrow> 'w \<Rightarrow> (string + cmd_output) \<times> 'w" where
  "run_probes run h s r binary child_path probes w =
     (case identity_new run (he_random h) (he_docker_context h) (he_docker_host h)
             (cs_runtime s) (probe_name h) binary child_path w of
        (Inl e, w1) \<Rightarrow> (Inl e, w1)
      | (Inr i, w1) \<Rightarrow>
          (case run (probe_command s r i binary child_path probes) (from_secs 60) w1 of
             (Inl e, w2) \<Rightarrow>
               (Inl e, snd (cleanup_owned_instance (he_apple_inspect h) (he_docker_inspect h) run i w2))
           | (Inr out, w2) \<Rightarrow> (Inr out, w2)))"

definition image_probe_failure :: "string \<Rightarrow> string \<Rightarrow> cmd_output \<Rightarrow> launch_error" where
  "image_probe_failure label img out =
     (let guest_started = PROBE_STARTED \<in> set (lines (stdout out));
          missing = map_option (take 256)
            (case find (\<lambda>l. starts_with l MISSING_TOOL) (lines (stderr out)) of
               None \<Rightarrow> None | Some l \<Rightarrow> strip_prefix MISSING_TOOL l)
      in case missing of
           Some tool \<Rightarrow>
             if guest_started then
               ImageNotGuiReady label img
                 (''Required guest command '' @ [CHR 0x27] @ tool @ [CHR 0x27] @ '' was not found ('' @ status out
                  @ ''). Install it in the image, then rebuild/tag it for Cocoa-Way. Audio tools are optional.'')
             else RuntimeNotReady label
               (''Image '' @ [CHR 0x27] @ img @ [CHR 0x27] @ '' did not complete its dependency check: '' @ runtime_failure_detail out
                @ ''. Check runtime status, resource limits, and initial kernel/init-image setup before rebuilding the image.'')
         | None \<Rightarrow> RuntimeNotReady label
             (''Image '' @ [CHR 0x27] @ img @ [CHR 0x27] @ '' did not complete its dependency check: '' @ runtime_failure_detail out
              @ ''. Check runtime status, resource limits, and initial kernel/init-image setup before rebuilding the image.''))"

definition verify_gui_tools_in_image ::
  "'w runner \<Rightarrow> host_env \<Rightarrow> container_session \<Rightarrow> string \<Rightarrow> string \<Rightarrow> runtime \<Rightarrow> string
    \<Rightarrow> 'w \<Rightarrow> (launch_error + string list) \<times> 'w" where
  "verify_gui_tools_in_image run h s binary child_path r label w =
     (if \<not> he_probe_admitted h then
        (Inl (RuntimeNotReady label ''Another image dependency check is still running. Wait for it to finish and retry; this image was not checked.''), w)
      else
        (case run_probes run h s r binary child_path (required_probes r s) w of
           (Inl e, w') \<Rightarrow>
             (Inl (RuntimeNotReady label (''Image '' @ [CHR 0x27] @ cs_image s @ [CHR 0x27] @ '' dependency check failed: '' @ e
                @ ''. Check runtime status and initial kernel/init-image downloads, then retry before rebuilding the image.'')), w')
         | (Inr out, w') \<Rightarrow>
             (if success out \<and> PROBE_STARTED \<in> set (lines (stdout out)) then
                Inr (if audio_probe r s \<and> AUDIO_READY \<notin> set (lines (stdout out))
                     then [''Apple Container image '' @ [CHR 0x27] @ cs_image s @ [CHR 0x27] @ '' has no complete Cocoa-Way audio stack. Audio is optional; GUI launch can continue with audio unavailable or degraded. Install the Cocoa-Way audio relay/PipeWire tools in the image to enable audio.'']
                     else [])
              else Inl (image_probe_failure label (cs_image s) out), w')))"

subsection \<open>The check\<close>

definition image_hint :: "string \<Rightarrow> string" where
  "image_hint img =
     (if starts_with img ''localhost/''
      then ''This localhost/ image is machine-local; it is not bundled with Cocoa-Way or copied to another Mac automatically. Build it on this Mac, import a trusted image archive, or select an installed GUI-ready image in the profile. Do not assume a registry pull can supply this local image.''
      else ''Build/tag the image locally, import a trusted image archive, or select an installed GUI-ready image in the profile. Pull it only if the image is available from a registry you trust.'')"

definition preflight_session ::
  "'w runner \<Rightarrow> host_env \<Rightarrow> container_session \<Rightarrow> runtime \<Rightarrow> string \<Rightarrow> string
    \<Rightarrow> 'w \<Rightarrow> (launch_error + string list) \<times> 'w" where
  "preflight_session run h s r binary child_path w =
     (let inspected = (\<lambda>label. inspect_image run binary child_path [''image'', ''inspect'', cs_image s]
                                 label (cs_image s) (image_hint (cs_image s)));
          verified = verify_gui_tools_in_image run h s binary child_path r
      in case validate_session s of
           Inl e \<Rightarrow> (Inl e, w)
         | Inr _ \<Rightarrow>
             (case r of
                Apple \<Rightarrow>
                  try_then (preflight_apple_container run h binary child_path) (\<lambda>_.
                    try_then (inspected ''Apple Container'') (\<lambda>_. verified ''Apple Container'')) w
              | Docker \<Rightarrow> try_then (inspected ''Docker'') (\<lambda>_. verified ''Docker'') w
              | OrbStack \<Rightarrow> (Inr [''OrbStack service, image, guest tools, and running-container state were not checked, to avoid waking OrbStack. Start it explicitly and verify this profile there before launch.''], w)))"

record check_report =
  ck_runtime :: string
  ck_image :: string
  ck_command :: string
  ck_waypipe :: string
  ck_waypipe_version :: string
  ck_runtime_binary :: string
  ck_container_name :: string
  ck_running :: bool
  ck_warnings :: "string list"

definition check_session ::
  "'w runner \<Rightarrow> host_env \<Rightarrow> container_session \<Rightarrow> 'w \<Rightarrow> (launch_error + check_report) \<times> 'w" where
  "check_session run h s w =
     (let child_path = build_child_path (he_path h);
          kind = normalize_container_runtime (cs_runtime s)
      in case and_then (validate_session s) (\<lambda>_.
                and_then (require_session_command h ''waypipe'' (cs_waypipe_path s) child_path
                            ''Install Waypipe or correct waypipe_path in container-sessions.toml.'') (\<lambda>waypipe.
                  and_then (require_session_command h (runtime_binary_name (cs_runtime s)) None child_path
                              (''Install '' @ runtime_label (cs_runtime s) @ '' or choose another runtime for this session.''))
                    (\<lambda>binary. Inr (waypipe, binary)))) of
           Inl e \<Rightarrow> (Inl e, w)
         | Inr (waypipe, binary) \<Rightarrow>
             try_then (preflight_waypipe run waypipe child_path) (\<lambda>version.
               try_then (preflight_session run h s kind binary child_path) (\<lambda>warnings.
                 try_then (runtime_container_is_running run kind binary child_path (container_name s)) (\<lambda>running w'.
                   (Inr \<lparr>ck_runtime = runtime_label (cs_runtime s), ck_image = cs_image s,
                         ck_command = session_command s, ck_waypipe = waypipe,
                         ck_waypipe_version = version, ck_runtime_binary = binary,
                         ck_container_name = container_name s, ck_running = running,
                         ck_warnings = warnings\<rparr>, w')))) w)"

subsection \<open>Which commands a step runs\<close>

definition endpoint_args :: "string list \<Rightarrow> bool" where
  "endpoint_args as \<longleftrightarrow>
     as = [''context'', ''show'']
     \<or> (\<exists>c. as = [''context'', ''inspect'', ''--format'', ''{{.Endpoints.docker.Host}}'', c])"

text \<open>
  A policy says which commands may be run; asking Docker for its endpoint is always among them.
  \<open>obeys Q f\<close>: \<open>f\<close> adds only allowed commands to the log, and its result satisfies \<open>Q\<close>.
\<close>

locale command_policy =
  fixes allowed :: "command \<Rightarrow> bool"
  assumes endpoint_allowed: "endpoint_args (args c) \<Longrightarrow> allowed c"
begin

definition obeys :: "('r \<Rightarrow> bool) \<Rightarrow> (command list \<times> 'w \<Rightarrow> 'r \<times> command list \<times> 'w) \<Rightarrow> bool" where
  "obeys Q f \<longleftrightarrow>
     (\<forall>l w. list_all allowed l \<longrightarrow> list_all allowed (fst (snd (f (l, w)))) \<and> Q (fst (f (l, w))))"

lemma obeysD:
  assumes "obeys Q f" "f (l, w) = (r, l', w')" "list_all allowed l"
  shows "list_all allowed l'" and "Q r"
  using assms unfolding obeys_def by (metis fst_conv snd_conv)+

lemma obeysI:
  assumes "\<And>l w r l' w'. f (l, w) = (r, l', w') \<Longrightarrow> list_all allowed l \<Longrightarrow> list_all allowed l' \<and> Q r"
  shows "obeys Q f"
  using assms unfolding obeys_def by (metis prod.collapse)

lemma obeys_run: "allowed c \<Longrightarrow> obeys (\<lambda>_. True) (logged run c t)"
  by (simp add: obeys_def)

lemma obeys_return: "Q r \<Longrightarrow> obeys Q (\<lambda>w. (r, w))"
  by (simp add: obeys_def)

lemma obeys_weaken: "obeys Q f \<Longrightarrow> (\<And>r. Q r \<Longrightarrow> R r) \<Longrightarrow> obeys R f"
  by (simp add: obeys_def)

lemma obeys_bind:
  assumes m: "obeys Q m"
    and g: "\<And>e. Q (Inl e) \<Longrightarrow> obeys R (g e)"
    and f: "\<And>x. Q (Inr x) \<Longrightarrow> obeys R (f x)"
  shows "obeys R (\<lambda>w. case m w of (Inl e, w') \<Rightarrow> g e w' | (Inr x, w') \<Rightarrow> f x w')"
proof (rule obeysI)
  fix l w r l' w'
  assume run: "(case m (l, w) of (Inl e, w') \<Rightarrow> g e w' | (Inr x, w') \<Rightarrow> f x w') = (r, l', w')"
    and l: "list_all allowed l"
  obtain q l1 w1 where mq: "m (l, w) = (q, l1, w1)" by (metis prod_cases3)
  note q = obeysD [OF m mq l]
  show "list_all allowed l' \<and> R r"
  proof (cases q)
    case (Inl e)
    with run mq have "g e (l1, w1) = (r, l', w')" by simp
    with Inl q g [of e] show ?thesis by (blast dest: obeysD)
  next
    case (Inr x)
    with run mq have "f x (l1, w1) = (r, l', w')" by simp
    with Inr q f [of x] show ?thesis by (blast dest: obeysD)
  qed
qed

lemma obeys_try_then:
  assumes "obeys Q m" and "\<And>e. Q (Inl e) \<Longrightarrow> R (Inl e)" and "\<And>x. Q (Inr x) \<Longrightarrow> obeys R (f x)"
  shows "obeys R (try_then m f)"
  unfolding try_then_def by (rule obeys_bind [OF assms(1)]) (auto intro: obeys_return assms)

lemma obeys_answer:
  "allowed c \<Longrightarrow>
   obeys (\<lambda>_. True) (\<lambda>w. case logged run c t w of (Inl e, w') \<Rightarrow> (g e, w') | (Inr x, w') \<Rightarrow> (f x, w'))"
  by (rule obeys_bind [OF obeys_run]) (auto intro: obeys_return)

lemma obeys_running:
  assumes "allowed (child_command b cp [''list'', ''--all''])"
    and "allowed (child_command b cp [''inspect'', ''-f'', ''{{.State.Running}}'', name])"
  shows "obeys (\<lambda>_. True) (runtime_container_is_running (logged run) k b cp name)"
proof (cases "k = OrbStack")
  case True
  then show ?thesis by (simp add: runtime_container_is_running_def obeys_def)
next
  case False
  then show ?thesis
    unfolding runtime_container_is_running_def
    by (cases "k = Apple") (auto intro!: obeys_answer assms)
qed

lemma obeys_docker_probe:
  assumes "endpoint_args as" shows "obeys (\<lambda>_. True) (docker_probe (logged run) binary cp as)"
proof -
  let ?c = "add_args as (env ''PATH'' cp (command_new binary))"
  have "allowed ?c" using assms by (intro endpoint_allowed) (simp add: add_args_def env_def command_new_def)
  then show ?thesis
    unfolding docker_probe_def by (intro obeys_bind [OF obeys_run] obeys_return) simp_all
qed

lemma obeys_capture:
  "obeys (\<lambda>_. True) (capture_docker_endpoint ctx hst (docker_probe (logged run) binary cp))"
proof (rule obeysI)
  fix l w r l' w'
  assume run: "capture_docker_endpoint ctx hst (docker_probe (logged run) binary cp) (l, w) = (r, l', w')"
    and l: "list_all allowed l"
  have show_ctx: "list_all allowed l2"
    if "docker_probe (logged run) binary cp [''context'', ''show''] (l1, w1) = (q, l2, w2)" "list_all allowed l1"
    for l1 w1 q l2 w2
    using obeysD [OF obeys_docker_probe that] by (simp add: endpoint_args_def)
  have inspect: "list_all allowed l2"
    if "docker_probe (logged run) binary cp
          [''context'', ''inspect'', ''--format'', ''{{.Endpoints.docker.Host}}'', c] (l1, w1) = (q, l2, w2)"
       "list_all allowed l1"
    for l1 w1 q l2 w2 c
    using obeysD [OF obeys_docker_probe that] by (simp add: endpoint_args_def)
  from run l show "list_all allowed l' \<and> True"
    unfolding capture_docker_endpoint_def Let_def
    by (auto split: option.splits prod.splits sum.splits if_splits dest: show_ctx inspect)
qed

lemma obeys_identity_new:
  "obeys (\<lambda>r. \<forall>i. r = Inr i \<longrightarrow>
            i_name i = name \<and> parse_runtime rt = Some (i_runtime i)
            \<and> (\<exists>bs. random = Inr bs \<and> i_token i = concat (map show_byte bs)))
     (identity_new (logged run) random ctx hst rt name binary cp)"
proof (rule obeysI, intro conjI allI impI)
  fix l w r l' w'
  assume run: "identity_new (logged run) random ctx hst rt name binary cp (l, w) = (r, l', w')"
    and l: "list_all allowed l"
  show "list_all allowed l'"
    using run l obeys_capture [of ctx hst run binary cp]
    by (auto simp: identity_new_def split: sum.splits if_splits prod.splits dest: obeysD)
  fix i
  assume "r = Inr i"
  with run obtain bs j where bs: "random = Inr bs"
    and j: "with_token rt name binary cp (concat (map show_byte bs)) = Inr j"
    and i: "i_name i = i_name j" "i_runtime i = i_runtime j" "i_token i = i_token j"
    by (auto simp: identity_new_def split: sum.splits if_splits prod.splits)
  from j have "i_name j = name" "parse_runtime rt = Some (i_runtime j)" "i_token j = concat (map show_byte bs)"
    by (auto simp: with_token_def split: option.splits if_splits)
  with i bs show "i_name i = name" "parse_runtime rt = Some (i_runtime i)"
    "\<exists>bs. random = Inr bs \<and> i_token i = concat (map show_byte bs)" by auto
qed

lemma obeys_cleanup:
  assumes "\<And>c. inspect_command i = Inr c \<Longrightarrow> allowed c" "\<And>c t. delete_command i t = Inr c \<Longrightarrow> allowed c"
  shows "obeys (\<lambda>_. True) (cleanup_owned_instance pa pd (logged run) i)"
proof (rule obeysI)
  fix l w r l' w'
  assume run: "cleanup_owned_instance pa pd (logged run) i (l, w) = (r, l', w')" and l: "list_all allowed l"
  have "fst (snd (run_delete (logged run) d (l1, w1))) = l1 @ [d]" for d l1 w1 by (rule run_delete_logged)
  then have del: "l2 = l1 @ [d]" if "run_delete (logged run) d (l1, w1) = (q, l2, w2)" for d l1 w1 q l2 w2
    using that by (metis fst_conv snd_conv)
  from run l assms show "list_all allowed l' \<and> True"
    by (auto simp: cleanup_owned_instance_def split: if_splits sum.splits prod.splits dest!: del)
qed

end

subsection \<open>A check is passive\<close>

definition queries :: "container_session \<Rightarrow> string list list" where
  "queries s =
     [[''--version''], [''system'', ''status'', ''--format'', ''json''], [''system'', ''status''],
      [''image'', ''inspect'', cs_image s], [''list'', ''--all''],
      [''inspect'', ''-f'', ''{{.State.Running}}'', container_name s]]"

definition probe_identity :: "host_env \<Rightarrow> owned_identity \<Rightarrow> bool" where
  "probe_identity h i \<longleftrightarrow>
     i_name i = probe_name h \<and> (\<exists>bs. he_random h = Inr bs \<and> i_token i = concat (map show_byte bs))"

text \<open>The arguments of the container that looks for the tools in an image.\<close>

definition probe_args :: "container_session \<Rightarrow> owned_identity \<Rightarrow> string \<Rightarrow> string list" where
  "probe_args s i script =
     [''run'', ''--rm'', ''--name'', i_name i] @ user_args s
     @ (if normalize_container_runtime (cs_runtime s) = Docker then [''--pull=never''] else [])
     @ [''--label'', OWNER_LABEL @ ''='' @ i_token i, ''--entrypoint'', ''sh'', cs_image s, ''-lc'', script]"

definition check_command :: "host_env \<Rightarrow> container_session \<Rightarrow> command \<Rightarrow> bool" where
  "check_command h s c \<longleftrightarrow>
     args c \<in> set (queries s) \<or> endpoint_args (args c)
     \<or> (\<exists>i. probe_identity h i
           \<and> ((\<exists>script. args c = probe_args s i script)
              \<or> inspect_command i = Inr c \<or> (\<exists>t. delete_command i t = Inr c)))"

interpretation check: command_policy "check_command h s" for h s
  by unfold_locales (simp add: check_command_def)

lemma args_child_command [simp]: "args (child_command b cp as) = as"
  by (simp add: child_command_def add_args_def env_def command_new_def)

lemma args_simps [simp]:
  "args (add_args as c) = args c @ as" "args (env k v c) = args c" "args (pin_environment c) = args c"
  by (simp_all add: add_args_def env_def pin_environment_def)

lemma check_query: "as \<in> set (queries s) \<Longrightarrow> check_command h s (child_command b cp as)"
  by (simp add: check_command_def)

lemma normalize_parsed: "parse_runtime r = Some k \<Longrightarrow> normalize_container_runtime r = k"
  by (auto simp: parse_runtime_def normalize_container_runtime_def Let_def split: if_splits)

lemma args_owner_label:
  "args (append_owner_label i c) =
   args c @ (if i_runtime i \<noteq> OrbStack then [''--label'', OWNER_LABEL @ ''='' @ i_token i] else [])"
  by (simp add: append_owner_label_def Let_def split: option.split)

lemma args_probe_command:
  assumes "i_runtime i = k" "normalize_container_runtime (cs_runtime s) = k" "k \<noteq> OrbStack"
  shows "args (probe_command s k i b cp probes) = probe_args s i (printf_line PROBE_STARTED @ ''; '' @ join '' && '' probes)"
  using assms by (simp add: probe_command_def probe_args_def append_guest_command_def args_owner_label)

lemma obeys_run_probes:
  assumes "normalize_container_runtime (cs_runtime s) = k" "k \<noteq> OrbStack"
  shows "check.obeys h s (\<lambda>_. True) (run_probes (logged run) h s k b cp probes)"
  unfolding run_probes_def
proof (rule check.obeys_bind [OF check.obeys_identity_new], goal_cases)
  case (1 e)
  show ?case by (rule check.obeys_return) simp
next
  case (2 i)
  then have i: "probe_identity h i" and k: "i_runtime i = k"
    using normalize_parsed assms by (auto simp: probe_identity_def)
  then have "check_command h s (probe_command s k i b cp probes)"
    using args_probe_command [OF k assms] by (auto simp: check_command_def)
  then show ?case
  proof (rule check.obeys_bind [OF check.obeys_run], goal_cases)
    case (1 e)
    have "check.obeys h s (\<lambda>_. True) (cleanup_owned_instance (he_apple_inspect h) (he_docker_inspect h) (logged run) i)"
      using i by (intro check.obeys_cleanup) (auto simp: check_command_def)
    then show ?case by (simp add: check.obeys_def)
  qed (rule check.obeys_return, simp)
qed

lemma obeys_verify:
  assumes "normalize_container_runtime (cs_runtime s) = k" "k \<noteq> OrbStack"
  shows "check.obeys h s (\<lambda>_. True) (verify_gui_tools_in_image (logged run) h s b cp k label)"
  unfolding verify_gui_tools_in_image_def
  by (cases "he_probe_admitted h")
    (auto intro!: check.obeys_bind [OF obeys_run_probes [OF assms]] check.obeys_return)

lemma obeys_inspect_image:
  "check.obeys h s (\<lambda>_. True)
     (inspect_image (logged run) b cp [''image'', ''inspect'', cs_image s] label img hint)"
  unfolding inspect_image_def by (rule check.obeys_answer) (simp add: check_query queries_def)

lemma obeys_preflight_waypipe: "check.obeys h s (\<lambda>_. True) (preflight_waypipe (logged run) b cp)"
  unfolding preflight_waypipe_def by (rule check.obeys_answer) (simp add: check_query queries_def)

lemma obeys_check_running:
  "check.obeys h s (\<lambda>_. True) (runtime_container_is_running (logged run) k b cp (container_name s))"
  by (rule check.obeys_running) (simp_all add: check_query queries_def)

lemma obeys_preflight_apple:
  "check.obeys h s (\<lambda>_. True) (preflight_apple_container (logged run) h b cp)"
  unfolding preflight_apple_container_def Let_def
proof (rule check.obeys_bind [OF check.obeys_run [OF check_query]], goal_cases)
  case (3 out)
  have "check.obeys h s (\<lambda>_. True)
     (\<lambda>w. case logged run (child_command b cp [''system'', ''status'']) (from_secs 6) w of
            (Inl e, w') \<Rightarrow> (g e, w') | (Inr x, w') \<Rightarrow> (f x, w'))" for f g
    by (rule check.obeys_answer) (simp add: check_query queries_def)
  then show ?case by (cases "he_status_json h (stdout out)") (auto intro!: check.obeys_return)
qed (auto simp: queries_def intro: check.obeys_return)

lemma obeys_preflight_session:
  assumes "normalize_container_runtime (cs_runtime s) = k"
  shows "check.obeys h s (\<lambda>_. True) (preflight_session (logged run) h s k b cp)"
proof (cases "validate_session s")
  case (Inl e)
  then show ?thesis by (simp add: preflight_session_def check.obeys_def)
next
  case (Inr u)
  note steps = check.obeys_try_then [OF obeys_preflight_apple] check.obeys_try_then [OF obeys_inspect_image]
  show ?thesis
    unfolding preflight_session_def Let_def Inr using assms
    by (cases k) (auto intro!: steps obeys_verify assms check.obeys_return)
qed

lemma required_executable:
  "require_executable fs p name hint = Inr u \<Longrightarrow> is_executable_file fs p"
  by (auto simp: require_executable_def is_executable_file_def Let_def split: sum.splits if_splits)

lemma required_session_executable:
  "require_session_command h name configured cp hint = Inr p \<Longrightarrow> is_executable_file (he_files h) p"
  by (auto simp: require_session_command_def and_then_def Let_def
      split: option.splits sum.splits dest: required_executable)

text \<open>What the result of a check says: the session is valid and both programs can be executed.\<close>

definition report_ok :: "host_env \<Rightarrow> container_session \<Rightarrow> launch_error + check_report \<Rightarrow> bool" where
  "report_ok h s r =
     (case r of
        Inl e \<Rightarrow> True
      | Inr ck \<Rightarrow>
          validate_session s = Inr () \<and> is_executable_file (he_files h) (ck_waypipe ck)
          \<and> is_executable_file (he_files h) (ck_runtime_binary ck)
          \<and> ck_container_name ck = container_name s)"

lemma check_obeys: "check.obeys h s (report_ok h s) (check_session (logged run) h s)"
proof -
  let ?cp = "build_child_path (he_path h)" and ?k = "normalize_container_runtime (cs_runtime s)"
  let ?found = "and_then (validate_session s) (\<lambda>_.
        and_then (require_session_command h ''waypipe'' (cs_waypipe_path s) ?cp
                    ''Install Waypipe or correct waypipe_path in container-sessions.toml.'') (\<lambda>waypipe.
          and_then (require_session_command h (runtime_binary_name (cs_runtime s)) None ?cp
                      (''Install '' @ runtime_label (cs_runtime s) @ '' or choose another runtime for this session.''))
            (\<lambda>binary. Inr (waypipe, binary))))"
  show ?thesis
  proof (cases ?found)
    case (Inl e)
    then show ?thesis by (simp add: check_session_def Let_def check.obeys_def report_ok_def)
  next
    case (Inr wb)
    obtain wp b where wb: "wb = (wp, b)" by (cases wb)
    have ok: "validate_session s = Inr ()" "is_executable_file (he_files h) wp" "is_executable_file (he_files h) b"
      using Inr wb by (auto simp: and_then_def split: sum.splits dest: required_session_executable)
    note steps = check.obeys_try_then [OF obeys_preflight_waypipe]
      check.obeys_try_then [OF obeys_preflight_session [OF refl]] check.obeys_try_then [OF obeys_check_running]
    show ?thesis
      unfolding check_session_def Let_def Inr wb sum.case prod.case
      by (intro steps check.obeys_return) (simp_all add: report_ok_def ok)
  qed
qed

lemma try_then_silent: "(\<And>x w'. snd (f x w') = w') \<Longrightarrow> snd (try_then m f w) = snd (m w)"
  by (simp add: try_then_def split: prod.split sum.split)

lemma logged_waypipe:
  "snd (preflight_waypipe (logged run) b cp (l, w)) =
   (l @ [child_command b cp [''--version'']], snd (run (child_command b cp [''--version'']) (from_secs 3) w))"
  by (simp add: preflight_waypipe_def split: sum.split)

lemma logged_orbstack:
  assumes "normalize_container_runtime (cs_runtime s) = OrbStack"
  shows "set (map args (fst (snd (check_session (logged run) h s ([], w))))) \<subseteq> {[''--version'']}"
proof -
  have silent: "snd (preflight_session (logged run) h s OrbStack b cp lw) = lw"
    "snd (runtime_container_is_running (logged run) OrbStack b cp n lw) = lw" for b cp n lw
    by (simp_all add: preflight_session_def runtime_container_is_running_def Let_def split: sum.split)
  show ?thesis
    unfolding check_session_def Let_def assms
    by (auto simp: try_then_silent silent logged_waypipe split: sum.split)
qed


end
