(* ===== verification/Session_Launch.thy ===== *)
theory Session_Launch
  imports Session_Check
begin

text \<open>
  \<open>src/container_sessions.rs\<close>: the launch of a checked session, \<open>launch_checked_session\<close>. The two
  processes it may start are a trace of spawns and of kills followed by a wait. What the operating
  system answers to a spawn, to the creation of a directory and to the polls of the Waypipe client
  is in the record \<open>launch_env\<close>.
\<close>

subsection \<open>Arguments of Waypipe and of the guest\<close>

definition waypipe_tuning_args :: "container_session \<Rightarrow> runtime \<Rightarrow> string list" where
  "waypipe_tuning_args s r =
     (let compress = (case non_empty (map_option trim (cs_waypipe_compress s)) of
                        Some c \<Rightarrow> Some c
                      | None \<Rightarrow> if r = Apple then Some ''none'' else None)
      in (case compress of None \<Rightarrow> [] | Some c \<Rightarrow> [''--compress'', c])
         @ (case cs_waypipe_threads s of None \<Rightarrow> [] | Some n \<Rightarrow> [''--threads'', decimal n]))"

definition has_env_key :: "string list \<Rightarrow> string \<Rightarrow> bool" where
  "has_env_key vs k = list_ex (\<lambda>v. CHR ''='' \<in> set v \<and> takeWhile ((\<noteq>) (CHR ''='')) v = k) vs"

definition default_guest_runtime_dir :: string where
  "default_guest_runtime_dir = ''/tmp/cocoa-way-runtime''"

definition build_server_command :: "string \<Rightarrow> string \<Rightarrow> string list \<Rightarrow> string" where
  "build_server_command container_socket cmd waypipe_args =
     (let socket = shell_single_quote container_socket in
      ''export XDG_RUNTIME_DIR=${XDG_RUNTIME_DIR:-'' @ shell_single_quote default_guest_runtime_dir
      @ ''} && mkdir -p '' @ [CHR 0x22] @ ''$XDG_RUNTIME_DIR'' @ [CHR 0x22] @ '' $(dirname '' @ socket
      @ '') && exec waypipe'' @ shell_args waypipe_args @ '' --socket '' @ socket @ '' server sh -lc ''
      @ shell_single_quote (''sleep 0.35; exec '' @ cmd))"

text \<open>\<open>relay\<close> is the text of the included script \<open>cocoa-way-clipboard-relay\<close>.\<close>

definition apple_remote_gui_command :: "string \<Rightarrow> string \<Rightarrow> bool \<Rightarrow> string" where
  "apple_remote_gui_command relay cmd bridge_nested_clipboard =
     (let dq = [CHR 0x22]; sq = [CHR 0x27];
          launch =
            (if bridge_nested_clipboard then
               ''if command -v wl-paste >/dev/null 2>&1 && command -v wl-copy >/dev/null 2>&1 && command -v timeout >/dev/null 2>&1; then helper=$(mktemp ''
               @ dq @ ''${XDG_RUNTIME_DIR:-/tmp}/cocoa-way-clipboard-relay.XXXXXX'' @ dq @ '') && printf ''
               @ sq @ ''%s'' @ sq @ '' '' @ shell_single_quote relay @ '' > '' @ dq @ ''$helper'' @ dq
               @ '' && chmod 700 '' @ dq @ ''$helper'' @ dq @ '' && exec '' @ dq @ ''$helper'' @ dq @ '' sh -lc ''
               @ shell_single_quote cmd @ ''; exit 1; else printf '' @ sq @ ''%s'' @ [CHR 0x5C] @ ''n'' @ sq @ '' ''
               @ sq @ ''cocoa-way: nested clipboard needs wl-clipboard and coreutils timeout'' @ sq
               @ '' >&2; exec '' @ cmd @ ''; fi''
             else ''exec '' @ cmd)
      in ''sleep 0.35; if [ -n '' @ dq @ ''${COCOA_WAY_AUDIO_SOCKET:-}'' @ dq
         @ '' ] && [ -e /tmp/cocoa-way-audio.ready ]; then export PULSE_SERVER='' @ dq
         @ ''unix:${XDG_RUNTIME_DIR:-/tmp/cocoa-way}/pulse/native'' @ dq
         @ '' PULSE_SINK=cocoa_way; fi; export MOZ_ENABLE_WAYLAND=${MOZ_ENABLE_WAYLAND:-1}; '' @ launch)"

subsection \<open>Sockets\<close>

text \<open>\<open>Path::parent\<close> on Unix: trailing separators and \<open>.\<close> components do not count.\<close>

fun trim_rev :: "string \<Rightarrow> string" where
  "trim_rev [] = []"
| "trim_rev (c # s) =
     (if c = CHR ''/'' \<and> s \<noteq> [] then trim_rev s
      else if c = CHR ''.'' \<and> s \<noteq> [] \<and> hd s = CHR ''/'' then trim_rev s
      else c # s)"

definition parent :: "string \<Rightarrow> string option" where
  "parent p =
     (let q = trim_rev (rev p) in
      if q = [] \<or> q = ''/'' then None
      else Some (rev (trim_rev (dropWhile ((\<noteq>) (CHR ''/'')) q))))"

definition prepare_host_socket :: "(string \<Rightarrow> string + unit) \<Rightarrow> string \<Rightarrow> launch_error + unit" where
  "prepare_host_socket create_private_dir host_socket =
     (if UNIX_SOCKET_PATH_BYTES < length host_socket + WAYPIPE_CLIENT_SUFFIX_RESERVE
      then Inl (InvalidSocketPath host_socket)
      else case parent host_socket of
             None \<Rightarrow> Inl (InvalidSocketPath host_socket)
           | Some dir \<Rightarrow>
               (case create_private_dir dir of
                  Inl e \<Rightarrow> Inl (CreateSocketDir dir e)
                | Inr _ \<Rightarrow> Inr ()))"

text \<open>\<open>{:016x}\<close> of a 64-bit number\<close>

definition show_hex16 :: "64 word \<Rightarrow> string" where
  "show_hex16 w = map (\<lambda>i. hex_digit (unat w div 16 ^ i mod 16)) (rev [0..<16])"

definition relay_aux_host_socket :: "(string \<Rightarrow> string + unit) \<Rightarrow> string \<Rightarrow> string \<Rightarrow> string + string" where
  "relay_aux_host_socket create_private_dir local_socket kind =
     (case parent local_socket of
        None \<Rightarrow> Inl (''session socket `'' @ local_socket @ ''` has no parent directory'')
      | Some dir \<Rightarrow>
          (case create_private_dir dir of
             Inl e \<Rightarrow> Inl (''failed to create transport directory: '' @ e)
           | Inr _ \<Rightarrow>
               (let socket = path_join dir (kind @ ''-'' @ show_hex16 (stable_name_hash local_socket) @ ''.sock'') in
                if UNIX_SOCKET_PATH_BYTES \<le> length socket
                then Inl (''auxiliary socket path is too long: `'' @ socket @ ''`'')
                else Inr socket)))"

definition relay_transport_host_socket :: "(string \<Rightarrow> string + unit) \<Rightarrow> string \<Rightarrow> string + string" where
  "relay_transport_host_socket create_private_dir local_socket =
     relay_aux_host_socket create_private_dir local_socket ''v2''"

definition relay_audio_host_socket :: "(string \<Rightarrow> string + unit) \<Rightarrow> string \<Rightarrow> string + string" where
  "relay_audio_host_socket create_private_dir local_socket =
     relay_aux_host_socket create_private_dir local_socket ''audio''"

subsection \<open>Processes\<close>

datatype process_event =
    Spawned nat command
  | KilledAndWaited nat
  | ProgressWaypipe
  | ProgressCommand

text \<open>
  One pass of \<open>wait_for_socket\<close>: the answer of \<open>try_wait\<close> (an error, or the exit status with the
  standard error of the client, if it has exited), whether the path is a socket, and the time.
\<close>

record socket_pass =
  sp_exit :: "string + (string \<times> string) option"
  sp_is_socket :: bool
  sp_now :: instant

fun wait_for_socket :: "string \<Rightarrow> instant \<Rightarrow> socket_pass list \<Rightarrow> (launch_error + unit) option" where
  "wait_for_socket host_socket deadline [] = None"
| "wait_for_socket host_socket deadline (p # ps) =
     (case sp_exit p of
        Inl e \<Rightarrow> Some (Inl (StartWaypipe e))
      | Inr (Some (st, err)) \<Rightarrow>
          Some (Inl (ProcessExited ''Waypipe client'' st
            ((case runtime_output_message err of Some m \<Rightarrow> m | None \<Rightarrow> ''No stderr was captured.'')
             @ '' Check Waypipe compatibility, the selected Wayland display, and socket directory permissions, then retry.'')))
      | Inr None \<Rightarrow>
          if sp_is_socket p then Some (Inr ())
          else if deadline \<le> sp_now p then Some (Inl (SocketTimeout host_socket))
          else wait_for_socket host_socket deadline ps)"

record launch_env =
  le_host :: host_env
  le_runtime_dir :: string
  le_display :: string
  le_current_exe :: "string + string"
  le_clipboard_relay :: string
  le_create_private_dir :: "string \<Rightarrow> string + unit"
  le_spawn :: "command \<Rightarrow> string + nat"
  le_started :: instant
  le_passes :: "socket_pass list"

record launch_report =
  lr_identity :: owned_identity
  lr_container_child :: "nat option"
  lr_waypipe_child :: nat
  lr_runtime :: string
  lr_container_name :: string
  lr_host_socket :: string
  lr_container_socket :: string
  lr_audio_host_socket :: "string option"
  lr_command :: string

definition spawn_waypipe_client :: "launch_env \<Rightarrow> string \<Rightarrow> string \<Rightarrow> string \<Rightarrow> string list \<Rightarrow> command" where
  "spawn_waypipe_client e waypipe child_path socket waypipe_args =
     add_args (waypipe_args @ [''--socket'', socket, ''client''])
       (env ''WAYLAND_DISPLAY'' (le_display e)
         (env ''XDG_RUNTIME_DIR'' (le_runtime_dir e)
           (env ''PATH'' child_path (command_new waypipe))))"

definition docker_run_command ::
  "container_session \<Rightarrow> owned_identity \<Rightarrow> string \<Rightarrow> string \<Rightarrow> string \<Rightarrow> string \<Rightarrow> command" where
  "docker_run_command s i binary child_path socket_parent server_command =
     add_args [''-lc'', server_command]
       (append_guest_command (cs_image s) ''sh''
         (append_owner_label i
           (add_args [''-v'', socket_parent @ '':'' @ socket_parent]
             (add_args (user_args s)
               (add_args (if has_env_key (cs_env s) ''XDG_RUNTIME_DIR'' then []
                          else [''--env'', ''XDG_RUNTIME_DIR='' @ default_guest_runtime_dir])
                 (child_command binary child_path [''run'', ''--rm'', ''--name'', container_name s]))))))"

text \<open>\<open>spawn_apple_container_waypipe_ssh\<close>: the command; the helper is this program again.\<close>

definition apple_waypipe_command ::
  "launch_env \<Rightarrow> container_session \<Rightarrow> owned_identity \<Rightarrow> string \<Rightarrow> string \<Rightarrow> string \<Rightarrow> string \<Rightarrow> string \<Rightarrow> string
    \<Rightarrow> string option \<Rightarrow> command" where
  "apple_waypipe_command e s i waypipe child_path host_socket container_socket cmd helper audio =
     (let nl = [CHR 0x0A];
          c1 = env ''PATH'' child_path (command_new waypipe);
          c2 = env ''WAYLAND_DISPLAY'' (le_display e) (env ''XDG_RUNTIME_DIR'' (le_runtime_dir e) c1);
          c3 = env ''COCOA_WAY_RELAY_IMAGE'' (cs_image s) (env ''COCOA_WAY_CONTAINER_RELAY'' ''1'' c2);
          c4 = env ''COCOA_WAY_RELAY_OWNER_TOKEN'' (i_token i) (env ''COCOA_WAY_RELAY_CONTAINER_NAME'' (i_name i) c3);
          c5 = env ''COCOA_WAY_RELAY_ENV'' (join nl (cs_env s)) (env ''COCOA_WAY_RELAY_RUNTIME_BINARY'' (i_binary i) c4);
          c6 = env ''COCOA_WAY_RELAY_RUNTIME_ARGS'' (join nl (cs_runtime_args s))
                 (env ''COCOA_WAY_RELAY_MOUNTS'' (join nl (cs_mounts s)) c5);
          c7 = (if cs_audio s then
                  (case audio of
                     None \<Rightarrow> env ''COCOA_WAY_RELAY_AUDIO'' ''1'' c6
                   | Some a \<Rightarrow> env ''COCOA_WAY_RELAY_AUDIO_HOST'' a (env ''COCOA_WAY_RELAY_AUDIO'' ''1'' c6))
                else c6)
      in add_args (waypipe_tuning_args s Apple
           @ [''--socket'', host_socket, ''--remote-socket'', container_socket, ''--ssh-bin'', helper,
              ''--remote-bin'', ''waypipe'', ''ssh'', ''apple-container'', ''sh'', ''-lc'',
              apple_remote_gui_command (le_clipboard_relay e) cmd (uses_nested_wayland_compositor s)]) c7)"

definition start_apple ::
  "launch_env \<Rightarrow> container_session \<Rightarrow> owned_identity \<Rightarrow> string \<Rightarrow> string \<Rightarrow> string \<Rightarrow> string \<Rightarrow> string option
    \<Rightarrow> (launch_error + nat option \<times> nat) option \<times> process_event list" where
  "start_apple e s i waypipe child_path host_socket container_socket audio =
     (case le_current_exe e of
        Inl err \<Rightarrow> (Some (Inl (StartWaypipe err)), [ProgressWaypipe])
      | Inr helper \<Rightarrow>
          (let c = apple_waypipe_command e s i waypipe child_path host_socket container_socket
                     (session_command s) helper audio
           in case le_spawn e c of
                Inl err \<Rightarrow> (Some (Inl (StartWaypipe err)), [ProgressWaypipe])
              | Inr p \<Rightarrow> (Some (Inr (None, p)), [ProgressWaypipe, Spawned p c, ProgressCommand])))"

definition start_docker ::
  "launch_env \<Rightarrow> container_session \<Rightarrow> runtime \<Rightarrow> command \<Rightarrow> string \<Rightarrow> string \<Rightarrow> string
    \<Rightarrow> (launch_error + nat option \<times> nat) option \<times> process_event list" where
  "start_docker e s kind container waypipe child_path host_socket =
     (let c = spawn_waypipe_client e waypipe child_path host_socket (waypipe_tuning_args s kind) in
      case le_spawn e c of
        Inl err \<Rightarrow> (Some (Inl (StartWaypipe err)), [ProgressWaypipe])
      | Inr p \<Rightarrow>
          (case wait_for_socket host_socket (le_started e + from_secs 8) (le_passes e) of
             None \<Rightarrow> (None, [ProgressWaypipe, Spawned p c])
           | Some (Inl err) \<Rightarrow> (Some (Inl err), [ProgressWaypipe, Spawned p c, KilledAndWaited p])
           | Some (Inr _) \<Rightarrow>
               (case le_spawn e container of
                  Inl err \<Rightarrow>
                    (Some (Inl (StartContainer (cs_name s) err)), [ProgressWaypipe, Spawned p c, KilledAndWaited p])
                | Inr q \<Rightarrow>
                    (Some (Inr (Some q, p)), [ProgressWaypipe, Spawned p c, Spawned q container, ProgressCommand]))))"

definition session_sockets :: "host_env \<Rightarrow> container_session \<Rightarrow> string \<times> string" where
  "session_sockets h s =
     (let host_socket = (case cs_socket s of Some p \<Rightarrow> p | None \<Rightarrow> default_container_socket (he_uid h) (he_pid h) (cs_name s));
          container_socket = (case cs_container_socket s of
            Some p \<Rightarrow> p
          | None \<Rightarrow> default_container_socket_path host_socket (normalize_container_runtime (cs_runtime s)))
      in (host_socket, container_socket))"

text \<open>From the prepared socket to the two processes; \<open>None\<close>: the observations end during the wait.\<close>

definition start_session ::
  "launch_env \<Rightarrow> container_session \<Rightarrow> owned_identity \<Rightarrow> check_report
    \<Rightarrow> (launch_error + launch_report) option \<times> process_event list" where
  "start_session e s i ck =
     (let child_path = build_child_path (he_path (le_host e));
          kind = normalize_container_runtime (cs_runtime s);
          (host_socket, container_socket) = session_sockets (le_host e) s;
          report = (\<lambda>audio (container, waypipe).
            \<lparr>lr_identity = i, lr_container_child = container, lr_waypipe_child = waypipe,
             lr_runtime = runtime_label (cs_runtime s), lr_container_name = container_name s,
             lr_host_socket = host_socket, lr_container_socket = container_socket,
             lr_audio_host_socket = audio, lr_command = session_command s\<rparr>)
      in case and_then (prepare_host_socket (le_create_private_dir e) host_socket) (\<lambda>_.
                ok_or (InvalidSocketPath host_socket) (parent host_socket)) of
           Inl err \<Rightarrow> (Some (Inl err), [])
         | Inr socket_parent \<Rightarrow>
             if kind = Apple then
               (case (if cs_audio s
                      then map_sum (\<lambda>_. InvalidSocketPath host_socket) Some
                             (relay_audio_host_socket (le_create_private_dir e) host_socket)
                      else Inr None) of
                  Inl err \<Rightarrow> (Some (Inl err), [])
                | Inr audio \<Rightarrow>
                    (case start_apple e s i (ck_waypipe ck) child_path host_socket container_socket audio of
                       (r, events) \<Rightarrow> (map_option (map_sum id (report audio)) r, events)))
             else
               (let container = docker_run_command s i (ck_runtime_binary ck) child_path socket_parent
                      (build_server_command container_socket (session_command s) (waypipe_tuning_args s kind))
                in case start_docker e s kind container (ck_waypipe ck) child_path host_socket of
                     (r, events) \<Rightarrow> (map_option (map_sum id (report None)) r, events)))"

definition launch_checked_session ::
  "'w runner \<Rightarrow> launch_env \<Rightarrow> container_session \<Rightarrow> check_report \<Rightarrow> 'w
    \<Rightarrow> ((launch_error + launch_report) option \<times> process_event list) \<times> 'w" where
  "launch_checked_session run e s ck w =
     (let h = le_host e;
          child_path = build_child_path (he_path h);
          kind = normalize_container_runtime (cs_runtime s);
          binary = ck_runtime_binary ck
      in case and_then (validate_session s) (\<lambda>_.
                and_then (require_executable (he_files h) (ck_waypipe ck) ''waypipe''
                            ''Correct waypipe_path or reinstall Waypipe, then validate the profile again.'') (\<lambda>_.
                  require_executable (he_files h) binary (runtime_binary_name (cs_runtime s))
                    ''Restore the captured runtime executable and validate the profile again.'')) of
           Inl err \<Rightarrow> ((Some (Inl err), []), w)
         | Inr _ \<Rightarrow>
             (case identity_new run (he_random h) (he_docker_context h) (he_docker_host h)
                     (cs_runtime s) (container_name s) binary child_path w of
                (Inl hint, w1) \<Rightarrow> ((Some (Inl (InvalidSession (cs_name s) hint)), []), w1)
              | (Inr i, w1) \<Rightarrow>
                  (case runtime_container_is_running run kind binary child_path (container_name s) w1 of
                     (Inl err, w2) \<Rightarrow> ((Some (Inl err), []), w2)
                   | (Inr running, w2) \<Rightarrow>
                       if running then
                         ((Some (Inl (ContainerAlreadyRunning (runtime_label (cs_runtime s)) (container_name s)
                            ''A container with this name is already running. Stop it explicitly or choose a different profile name; Cocoa-Way will not automatically delete an untracked container.'')), []), w2)
                       else (start_session e s i ck, w2))))"

subsection \<open>Socket paths fit\<close>

lemma decimal_length: "0 < k \<Longrightarrow> n < 10 ^ k \<Longrightarrow> length (decimal n) \<le> k"
proof (induction n arbitrary: k rule: decimal.induct)
  case (1 n)
  show ?case
  proof (cases "n < 10")
    case True
    with "1.prems" show ?thesis by (simp add: decimal.simps [of n])
  next
    case False
    with "1.prems" obtain j where k: "k = Suc j" "0 < j" by (cases k; cases "k - 1") auto
    with "1.prems" have "n div 10 < 10 ^ j" by (simp add: div_less_iff_less_mult mult.commute)
    with "1.IH" [OF False k(2)] k False show ?thesis by (simp add: decimal.simps [of n])
  qed
qed

lemma default_socket_length:
  assumes "uid < 2 ^ 32" "pid < 2 ^ 32"
  shows "length (default_container_socket uid pid name) \<le> 68"
proof -
  have "length (decimal uid) \<le> 10" "length (decimal pid) \<le> 10"
    using assms by (auto intro!: decimal_length)
  then show ?thesis
    by (simp add: default_container_socket_def short_host_socket_root_def show_hex8_def)
qed

lemma trim_rev_suffix: "\<exists>pre. s = pre @ trim_rev s"
proof (induction s rule: trim_rev.induct)
  case (2 c s)
  then show ?case
    by (auto intro: exI [of _ "[]"]) (metis append_Cons)+
qed simp

lemma trim_rev_length: "length (trim_rev s) \<le> length s"
  using trim_rev_suffix [of s] by (metis length_append le_add2)

lemma trim_rev_slash: "trim_rev s = CHR ''/'' # t \<Longrightarrow> t = []"
  by (induction s rule: trim_rev.induct) (auto split: if_splits)

lemma parent_join_length:
  assumes "parent p = Some d" "\<not> is_absolute name"
  shows "length (path_join d name) < length p + length name"
proof -
  let ?q = "trim_rev (rev p)" and ?r = "dropWhile ((\<noteq>) (CHR ''/'')) (trim_rev (rev p))"
  from assms have q: "?q \<noteq> []" "?q \<noteq> ''/''" and d: "d = rev (trim_rev ?r)"
    by (auto simp: parent_def Let_def split: if_splits)
  obtain c t where ct: "?q = c # t" using q by (cases ?q) auto
  with q trim_rev_slash [of "rev p" t] have c: "c \<noteq> CHR ''/''" by auto
  have r: "length ?r \<le> length t" using ct c by (simp add: length_dropWhile_le)
  have lp: "Suc (length t) \<le> length p" using trim_rev_length [of "rev p"] ct by simp
  show ?thesis
  proof (cases "d = [] \<or> last d = CHR ''/''")
    case True
    have "length d \<le> length t" using d r trim_rev_length [of ?r] by simp
    with True assms(2) lp show ?thesis by (simp add: path_join_def)
  next
    case False
    then have "?r \<noteq> []" using d by (metis rev.simps(1) trim_rev.simps(1))
    then have "hd ?r = CHR ''/''" using hd_dropWhile [of "(\<noteq>) (CHR ''/'')" ?q] by argo
    with \<open>?r \<noteq> []\<close> obtain u where u: "?r = CHR ''/'' # u" by (cases ?r) auto
    have "u \<noteq> []" using False d u by (auto simp: trim_rev.simps)
    then have "trim_rev ?r = trim_rev u" using u by simp
    then have "length d \<le> length u" using d trim_rev_length [of u] by simp
    with False assms(2) r lp u show ?thesis by (simp add: path_join_def)
  qed
qed

lemma aux_socket_ok:
  assumes "length p + WAYPIPE_CLIENT_SUFFIX_RESERVE \<le> UNIX_SOCKET_PATH_BYTES" "parent p = Some d"
    and "create d = Inr ()" "length kind \<le> 5" "\<not> is_absolute kind" "kind \<noteq> []"
  shows "is_ok (relay_aux_host_socket create p kind)"
proof -
  let ?name = "kind @ ''-'' @ show_hex16 (stable_name_hash p) @ ''.sock''"
  have "\<not> is_absolute ?name" using assms(5,6) by (cases kind) (auto simp: is_absolute_def)
  moreover have "length ?name \<le> 27" using assms(4) by (simp add: show_hex16_def)
  ultimately have "length (path_join d ?name) < UNIX_SOCKET_PATH_BYTES"
    using parent_join_length [OF assms(2), of ?name] assms(1)
    unfolding UNIX_SOCKET_PATH_BYTES_def WAYPIPE_CLIENT_SUFFIX_RESERVE_def by linarith
  with assms show ?thesis by (simp add: relay_aux_host_socket_def Let_def)
qed

lemma valid_socket_length:
  assumes "validate_session s = Inr ()" "he_uid h < 2 ^ 32" "he_pid h < 2 ^ 32"
  shows "length (fst (session_sockets h s)) + WAYPIPE_CLIENT_SUFFIX_RESERVE \<le> UNIX_SOCKET_PATH_BYTES"
proof (cases "cs_socket s")
  case None
  then show ?thesis
    using default_socket_length [OF assms(2,3), of "cs_name s"]
    by (simp add: session_sockets_def Let_def UNIX_SOCKET_PATH_BYTES_def WAYPIPE_CLIENT_SUFFIX_RESERVE_def)
next
  case (Some p)
  with assms(1) have "socket_path_ok WAYPIPE_CLIENT_SUFFIX_RESERVE (Some p)"
    by (auto simp: validate_session_def Let_def split: if_splits)
  with Some show ?thesis by (simp add: session_sockets_def Let_def socket_path_ok_def)
qed

lemma default_socket_parent: "parent (default_container_socket uid pid name) \<noteq> None"
proof -
  obtain x where "rev (default_container_socket uid pid name) = CHR ''k'' # x"
    by (simp add: default_container_socket_def)
  then show ?thesis by (simp add: parent_def Let_def)
qed

text \<open>
  For every session that passed validation, on a host with 32-bit user and process
  identifiers that can create the directory, the host socket is short enough for Waypipe's
  derived sockets and the sockets placed beside it for the transport and for audio are never too
  long. The only path refused is a configured one that has no parent directory.
\<close>

theorem session_sockets_fit:
  assumes "validate_session s = Inr ()" and "he_uid h < 2 ^ 32" and "he_pid h < 2 ^ 32"
    and "create = (\<lambda>_. Inr ())" and "p = fst (session_sockets h s)"
  shows "case parent p of
           None \<Rightarrow> cs_socket s = Some p \<and> prepare_host_socket create p = Inl (InvalidSocketPath p)
         | Some d \<Rightarrow> prepare_host_socket create p = Inr ()
             \<and> is_ok (relay_audio_host_socket create p) \<and> is_ok (relay_transport_host_socket create p)"
proof (cases "parent p")
  case None
  have "cs_socket s = Some p"
    using None default_socket_parent [of "he_uid h" "he_pid h" "cs_name s"] assms(5)
    by (auto simp: session_sockets_def Let_def split: option.splits)
  with None show ?thesis by (simp add: prepare_host_socket_def)
next
  case (Some d)
  note fits = valid_socket_length [OF assms(1-3), folded assms(5)]
  have "prepare_host_socket create p = Inr ()" using fits Some assms(4) by (simp add: prepare_host_socket_def)
  moreover have "is_ok (relay_audio_host_socket create p)" "is_ok (relay_transport_host_socket create p)"
    unfolding relay_audio_host_socket_def relay_transport_host_socket_def
    by (rule aux_socket_ok [OF fits Some], simp_all add: is_absolute_def assms(4))+
  ultimately show ?thesis using Some by simp
qed

definition demo_session :: container_session where
  "demo_session =
     \<lparr>cs_id = ProfileId [1], cs_name = ''My Editor'', cs_image = ''localhost/gui:latest'', cs_runtime = ''docker'',
      cs_display = None, cs_presentation = None, cs_profile = None, cs_app = Some ''foot'', cs_command = None,
      cs_socket = None, cs_container_socket = None, cs_waypipe_path = None, cs_waypipe_compress = None,
      cs_waypipe_threads = None, cs_audio = False, cs_runtime_args = [], cs_mounts = [], cs_env = []\<rparr>"

definition demo_host :: host_env where
  "demo_host =
     \<lparr>he_path = Some ''/bin'', he_home = None, he_files = (\<lambda>_. Inr (True, 493)), he_pid = 77, he_uid = 501,
      he_random = Inr (replicate 32 7), he_docker_context = None, he_docker_host = Some ''unix:///var/run/docker.sock'',
      he_probe_sequence = 0, he_probe_admitted = True, he_status_json = (\<lambda>_. None),
      he_apple_inspect = (\<lambda>_. Inl []), he_docker_inspect = (\<lambda>_. Inl [])\<rparr>"

lemma demo_session_valid: "validate_session demo_session = Inr ()"
  by (simp add: validate_session_def demo_session_def validate_display_slot_def validate_presentation_command_def
      session_command_def socket_path_ok_def is_rootless_def non_empty_def trim_def is_space_def is_control_def)

theorem session_sockets_fit_witness:
  "\<exists>d. parent (fst (session_sockets demo_host demo_session)) = Some d
     \<and> prepare_host_socket (\<lambda>_. Inr ()) (fst (session_sockets demo_host demo_session)) = Inr ()"
proof -
  have "cs_socket demo_session = None" by (simp add: demo_session_def)
  then show ?thesis
    using session_sockets_fit [OF demo_session_valid _ _ refl refl, of demo_host]
    by (cases "parent (fst (session_sockets demo_host demo_session))") (simp_all add: demo_host_def)
qed

subsection \<open>What a launch leaves behind\<close>

text \<open>The processes that were spawned and not killed, in order.\<close>

fun live :: "process_event list \<Rightarrow> nat list" where
  "live [] = []"
| "live (Spawned p c # es) = (if KilledAndWaited p \<in> set es then live es else p # live es)"
| "live (_ # es) = live es"

definition run_args :: "container_session \<Rightarrow> string \<Rightarrow> string \<Rightarrow> string \<Rightarrow> string list" where
  "run_args s dir token server =
     [''run'', ''--rm'', ''--name'', container_name s]
     @ (if has_env_key (cs_env s) ''XDG_RUNTIME_DIR'' then []
        else [''--env'', ''XDG_RUNTIME_DIR=/tmp/cocoa-way-runtime''])
     @ user_args s @ [''-v'', dir @ '':'' @ dir]
     @ (if normalize_container_runtime (cs_runtime s) = Docker
        then [''--label'', OWNER_LABEL @ ''='' @ token] else [])
     @ [''--entrypoint'', ''sh'', cs_image s, ''-lc'', server]"

text \<open>
  The processes a launch may spawn: the checked Waypipe, and, unless the runtime is Apple
  Container, one container run by the checked runtime.
\<close>

fun launch_process :: "container_session \<Rightarrow> check_report \<Rightarrow> owned_identity \<Rightarrow> process_event \<Rightarrow> bool" where
  "launch_process s ck i (Spawned p c) =
     (program c = ck_waypipe ck
      \<or> normalize_container_runtime (cs_runtime s) \<noteq> Apple \<and> program c = ck_runtime_binary ck
        \<and> (\<exists>dir server. args c = run_args s dir (i_token i) server))"
| "launch_process s ck i _ = True"

lemma program_simps [simp]:
  "program (add_args as c) = program c" "program (env k v c) = program c" "program (command_new b) = b"
  "program (pin_environment c) = program c" "program (child_command b cp as) = b"
  by (simp_all add: add_args_def env_def command_new_def pin_environment_def child_command_def)

lemma program_owner_label [simp]: "program (append_owner_label i c) = program c"
  by (simp add: append_owner_label_def Let_def split: option.split)

lemma docker_run_ok:
  assumes "normalize_container_runtime (cs_runtime s) = i_runtime i" "i_runtime i \<noteq> Apple"
  shows "launch_process s ck i (Spawned p (docker_run_command s i (ck_runtime_binary ck) cp dir server))"
  using assms
  by (cases "i_runtime i")
    (auto simp: docker_run_command_def append_guest_command_def run_args_def args_owner_label
      default_guest_runtime_dir_def)

lemma apple_waypipe_program [simp]:
  "program (apple_waypipe_command e s i waypipe cp hs cks cmd helper audio) = waypipe"
  by (simp add: apple_waypipe_command_def Let_def split: option.split)

lemma wait_none: "wait_for_socket hs d ps = None \<Longrightarrow> list_all (\<lambda>p. sp_now p < d) ps"
  by (induction ps) (auto split: sum.splits option.splits prod.splits if_splits)

text \<open>How the processes of a launch relate to its outcome.\<close>

definition owned_outcome :: "launch_env \<Rightarrow> (launch_error + nat option \<times> nat) option \<Rightarrow> process_event list \<Rightarrow> bool" where
  "owned_outcome e r events =
     (case r of
        None \<Rightarrow> length (live events) = 1 \<and> list_all (\<lambda>p. sp_now p < le_started e + from_secs 8) (le_passes e)
      | Some (Inl err) \<Rightarrow> live events = []
      | Some (Inr (container, waypipe)) \<Rightarrow>
          live events = waypipe # (case container of None \<Rightarrow> [] | Some q \<Rightarrow> [q]))"

lemma start_apple_owned:
  "start_apple e s i (ck_waypipe ck) cp hs cks audio = (r, events) \<Longrightarrow>
   owned_outcome e r events \<and> list_all (launch_process s ck i) events"
  by (auto simp: start_apple_def owned_outcome_def Let_def split: sum.splits)

lemma start_docker_owned:
  assumes "start_docker e s k container (ck_waypipe ck) cp hs = (r, events)"
    and "\<And>q. launch_process s ck i (Spawned q container)"
  shows "owned_outcome e r events \<and> list_all (launch_process s ck i) events"
proof -
  let ?c = "spawn_waypipe_client e (ck_waypipe ck) cp hs (waypipe_tuning_args s k)"
  have "launch_process s ck i (Spawned p ?c)" for p by (simp add: spawn_waypipe_client_def)
  with assms wait_none [of hs "le_started e + from_secs 8" "le_passes e"] show ?thesis
    by (auto simp: start_docker_def owned_outcome_def Let_def simp del: launch_process.simps(1)
        split: sum.splits option.splits)
qed

definition children :: "launch_report \<Rightarrow> nat option \<times> nat" where
  "children r = (lr_container_child r, lr_waypipe_child r)"

lemma children_outcome:
  assumes "\<And>y. children (f y) = y"
  shows "map_option (map_sum id children) (map_option (map_sum id f) q) = q"
proof (cases q)
  case (Some x)
  then show ?thesis using assms by (cases x) simp_all
qed simp

definition launched :: "launch_env \<Rightarrow> container_session \<Rightarrow> owned_identity \<Rightarrow> check_report
    \<Rightarrow> (launch_error + launch_report) option \<times> process_event list \<Rightarrow> bool" where
  "launched e s i ck out =
     (case out of (r, events) \<Rightarrow>
        owned_outcome e (map_option (map_sum id children) r) events \<and> list_all (launch_process s ck i) events
        \<and> (case r of Some (Inr x) \<Rightarrow> lr_identity x = i \<and> lr_container_name x = container_name s | _ \<Rightarrow> True))"

lemma launched_failed: "launched e s i ck (Some (Inl err), [])"
  by (simp add: launched_def owned_outcome_def)

lemma launched_mapped:
  assumes "owned_outcome e q events \<and> list_all (launch_process s ck i) events"
    and "\<And>y. children (f y) = y \<and> lr_identity (f y) = i \<and> lr_container_name (f y) = container_name s"
  shows "launched e s i ck (map_option (map_sum id f) q, events)"
proof -
  have "map_option (map_sum id children) (map_option (map_sum id f) q) = q"
    using assms(2) by (intro children_outcome) blast
  moreover have "case map_option (map_sum id f) q of
      Some (Inr x) \<Rightarrow> lr_identity x = i \<and> lr_container_name x = container_name s | _ \<Rightarrow> True"
    using assms(2) by (cases q; cases "the q") simp_all
  ultimately show ?thesis using assms(1) by (simp add: launched_def)
qed

lemma start_session_owned:
  assumes "normalize_container_runtime (cs_runtime s) = i_runtime i"
  shows "launched e s i ck (start_session e s i ck)"
proof -
  obtain hs gs where sockets: "session_sockets (le_host e) s = (hs, gs)" by (cases "session_sockets (le_host e) s")
  show ?thesis
  proof (cases "and_then (prepare_host_socket (le_create_private_dir e) hs) (\<lambda>_. ok_or (InvalidSocketPath hs) (parent hs))")
    case (Inl err)
    then show ?thesis by (simp add: start_session_def sockets launched_failed)
  next
    case prepared: (Inr dir)
    show ?thesis
    proof (cases "normalize_container_runtime (cs_runtime s) = Apple")
      case True
      show ?thesis
        unfolding start_session_def sockets Let_def prod.case prepared sum.case
        using True
        by (auto intro!: launched_mapped launched_failed dest: start_apple_owned simp: children_def split: sum.split prod.split)
    next
      case False
      show ?thesis
        unfolding start_session_def sockets Let_def prod.case prepared sum.case
        using False docker_run_ok assms
        by (auto intro!: launched_mapped launched_failed dest!: start_docker_owned simp: children_def simp del: launch_process.simps split: sum.split prod.split)
    qed
  qed
qed

subsection \<open>A launch asks before it starts\<close>

definition launch_query :: "container_session \<Rightarrow> command \<Rightarrow> bool" where
  "launch_query s c \<longleftrightarrow>
     endpoint_args (args c)
     \<or> args c \<in> {[''list'', ''--all''], [''inspect'', ''-f'', ''{{.State.Running}}'', container_name s]}"

interpretation launch: command_policy "launch_query s" for s
  by unfold_locales (simp add: launch_query_def)

lemma launch_obeys_running:
  "launch.obeys s (\<lambda>_. True) (runtime_container_is_running (logged run) k b cp (container_name s))"
  by (rule launch.obeys_running) (simp_all add: launch_query_def)

definition launch_owned ::
  "launch_env \<Rightarrow> container_session \<Rightarrow> check_report \<Rightarrow> (launch_error + launch_report) option \<times> process_event list \<Rightarrow> bool" where
  "launch_owned e s ck out \<longleftrightarrow>
     (\<exists>i. launched e s i ck out \<and> i_name i = container_name s
        \<and> (snd out = []
           \<or> validate_session s = Inr ()
             \<and> (\<exists>bs. he_random (le_host e) = Inr bs \<and> i_token i = concat (map show_byte bs))))"

lemma launch_owned_failed: "launch_owned e s ck (Some (Inl err), [])"
  unfolding launch_owned_def by (intro exI [of _ "undefined\<lparr>i_name := container_name s\<rparr>"]) (simp add: launched_failed)

lemma launch_obeys: "launch.obeys s (launch_owned e s ck) (launch_checked_session (logged run) e s ck)"
proof -
  let ?h = "le_host e" and ?b = "ck_runtime_binary ck"
  let ?pre = "and_then (validate_session s) (\<lambda>_.
                and_then (require_executable (he_files ?h) (ck_waypipe ck) ''waypipe''
                            ''Correct waypipe_path or reinstall Waypipe, then validate the profile again.'') (\<lambda>_.
                  require_executable (he_files ?h) ?b (runtime_binary_name (cs_runtime s))
                    ''Restore the captured runtime executable and validate the profile again.''))"
  show ?thesis
  proof (cases ?pre)
    case (Inl err)
    then show ?thesis by (simp add: launch_checked_session_def Let_def launch.obeys_def launch_owned_failed)
  next
    case (Inr u)
    then have valid: "validate_session s = Inr ()" by (auto simp: and_then_def split: sum.splits)
    show ?thesis
      unfolding launch_checked_session_def Let_def Inr sum.case
    proof (rule launch.obeys_bind [OF launch.obeys_identity_new], goal_cases)
      case (1 hint)
      show ?case by (rule launch.obeys_return) (rule launch_owned_failed)
    next
      case (2 i)
      then have i: "i_name i = container_name s" "normalize_container_runtime (cs_runtime s) = i_runtime i"
        and token: "\<exists>bs. he_random ?h = Inr bs \<and> i_token i = concat (map show_byte bs)"
        using normalize_parsed by auto
      have started: "launch_owned e s ck (start_session e s i ck)"
        unfolding launch_owned_def using start_session_owned [OF i(2), of e ck] i(1) token valid by blast
      show ?case
        by (rule launch.obeys_bind [OF launch_obeys_running])
          (auto simp: launch.obeys_def launch_owned_failed started)
    qed
  qed
qed

lemma launch_orbstack_silent:
  assumes "normalize_container_runtime (cs_runtime s) = OrbStack"
  shows "fst (snd (launch_checked_session (logged run) e s ck ([], w))) = []"
proof -
  have "snd (identity_new (logged run) random ctx hst (cs_runtime s) n b cp lw) = lw" for random ctx hst n b cp lw
    using assms normalize_parsed [of "cs_runtime s"]
    by (auto simp: identity_new_def with_token_def split: sum.split option.split)
  then have id: "lw' = lw" if "identity_new (logged run) random ctx hst (cs_runtime s) n b cp lw = (x, lw')"
    for random ctx hst n b cp lw x lw'
    using that by (metis snd_conv)
  show ?thesis
    unfolding launch_checked_session_def Let_def assms runtime_container_is_running_def
    by (auto split: sum.splits prod.splits dest!: id)
qed


end
