(* ===== verification/Relay_Transport.thy ===== *)
theory Relay_Transport
  imports Prelude "HOL-Library.Sublist"
begin

text \<open>
  \<open>src/apple_container_transport.rs\<close>: the relay that multiplexes the Wayland connections of a
  guest over one byte stream (OPEN, DATA and CLOSE frames with a nine-byte header), in a single
  loop without blocking and with bounded queues. The bytes that arrive on the transport are a
  stream of which each read takes a part; what the kernel answers to reads, writes, connects and
  polls is an observation. The fields \<open>r_sent\<close>, \<open>r_streams\<close>, \<open>r_in\<close>, \<open>r_partial\<close> and \<open>r_out\<close> record what
  the outside has seen: bytes written to the transport, bytes exchanged with each local
  connection, and the frames in both directions. The program does not look at them.
\<close>

unbundle bit_operations_syntax

subsection \<open>Limits and frames\<close>

definition HEADER :: nat where "HEADER = 9"
definition OPEN :: "8 word" where "OPEN = 1"
definition DATA :: "8 word" where "DATA = 2"
definition CLOSE :: "8 word" where "CLOSE = 3"
definition MAX_FRAME :: nat where "MAX_FRAME = 16 * 1024 * 1024"
definition CHUNK :: nat where "CHUNK = 64 * 1024"

record limits =
  l_peers :: nat
  l_peer_bytes :: nat
  l_transport_bytes :: nat
  l_chunks :: nat
  l_deadline :: duration

definition limits_default :: limits where
  "limits_default =
     \<lparr>l_peers = 128, l_peer_bytes = 256 * 1024, l_transport_bytes = 256 * 1024, l_chunks = 256,
      l_deadline = from_secs 10\<rparr>"

definition to_be_bytes :: "32 word \<Rightarrow> bytes" where
  "to_be_bytes w = map (\<lambda>i. ucast (drop_bit (8 * i) w)) [3, 2, 1, 0]"

definition from_be_bytes :: "bytes \<Rightarrow> 32 word" where
  "from_be_bytes bs = fold (\<lambda>b acc. push_bit 8 acc OR ucast b) bs 0"

definition encoded :: "8 word \<Rightarrow> 32 word \<Rightarrow> bytes \<Rightarrow> bytes" where
  "encoded kind i data = [kind] @ to_be_bytes i @ to_be_bytes (of_nat (length data)) @ data"

definition frame_kind :: "bytes \<Rightarrow> 8 word" where "frame_kind h = h ! 0"

definition frame_id :: "bytes \<Rightarrow> 32 word" where "frame_id h = from_be_bytes (take 4 (drop 1 h))"

definition frame_length :: "bytes \<Rightarrow> nat" where "frame_length h = unat (from_be_bytes (take 4 (drop 5 h)))"

subsection \<open>Queues\<close>

record chunk =
  ch_bytes :: bytes
  ch_offset :: nat
  ch_queued :: instant

record byte_queue =
  q_chunks :: "chunk list"
  q_bytes :: nat
  q_limit :: nat
  q_chunk_limit :: nat

definition queue_new :: "nat \<Rightarrow> nat \<Rightarrow> byte_queue" where
  "queue_new limit chunk_limit = \<lparr>q_chunks = [], q_bytes = 0, q_limit = limit, q_chunk_limit = chunk_limit\<rparr>"

definition room :: "byte_queue \<Rightarrow> nat" where
  "room q = (if q_chunk_limit q \<le> length (q_chunks q) then 0 else q_limit q - q_bytes q)"

text \<open>\<open>None\<close>: the assertion fails and the relay panics.\<close>

definition push :: "instant \<Rightarrow> bytes \<Rightarrow> byte_queue \<Rightarrow> byte_queue option" where
  "push now bs q =
     (if room q < length bs then None
      else if bs = [] then Some q
      else Some (q\<lparr>q_bytes := q_bytes q + length bs,
                   q_chunks := q_chunks q @ [\<lparr>ch_bytes = bs, ch_offset = 0, ch_queued = now\<rparr>]\<rparr>))"

text \<open>The answer to a write: how many bytes were taken (never more than were offered), an error
  that asks for a retry, or another error.\<close>

datatype write_answer = Took nat | WriteAgain | WriteFails string

definition queue_write :: "write_answer \<Rightarrow> byte_queue \<Rightarrow> string + bytes \<times> byte_queue" where
  "queue_write ans q =
     (case q_chunks q of
        [] \<Rightarrow> Inr ([], q)
      | c # cs \<Rightarrow>
          (case ans of
             WriteFails e \<Rightarrow> Inl e
           | WriteAgain \<Rightarrow> Inr ([], q)
           | Took k \<Rightarrow>
               (let rest = drop (ch_offset c) (ch_bytes c); n = min k (length rest) in
                if n = 0 then Inl ''write zero''
                else Inr (take n rest,
                  if ch_offset c + n = length (ch_bytes c)
                  then q\<lparr>q_bytes := q_bytes q - length (ch_bytes c), q_chunks := cs\<rparr>
                  else q\<lparr>q_chunks := c\<lparr>ch_offset := ch_offset c + n\<rparr> # cs\<rparr>))))"

definition expired :: "duration \<Rightarrow> instant \<Rightarrow> byte_queue \<Rightarrow> bool" where
  "expired deadline now q = (case q_chunks q of [] \<Rightarrow> False | c # _ \<Rightarrow> ch_queued c + deadline \<le> now)"

definition queue_empty :: "byte_queue \<Rightarrow> bool" where
  "queue_empty q \<longleftrightarrow> q_chunks q = []"

subsection \<open>The relay\<close>

record peer =
  p_serial :: nat
  p_input :: byte_queue
  p_connecting :: bool
  p_retry_at :: "instant option"
  p_opened :: instant
  p_host_eof :: bool
  p_guest_closed :: bool

record input =
  in_header :: bytes
  in_remaining :: "nat option"
  in_started :: "instant option"
  in_rejected :: bool

definition input_default :: input where
  "input_default = \<lparr>in_header = [], in_remaining = None, in_started = None, in_rejected = False\<rparr>"

record stream =
  st_delivered :: bytes
  st_read :: bytes

type_synonym peers = "(32 word \<times> peer) list"

record relay =
  r_peers :: peers
  r_output :: byte_queue
  r_input :: input
  r_eof :: bool
  r_rotation :: "64 word"
  r_incoming :: bytes
  r_sent :: bytes
  r_streams :: "stream list"
  r_in :: "(bytes \<times> (nat option \<times> bytes) list) list"
  r_partial :: "(nat option \<times> bytes) list"
  r_out :: "(nat option \<times> 8 word \<times> 32 word \<times> bytes) list"

datatype relay_error = Panic | RelayError string

text \<open>The map of peers is ordered by identifier.\<close>

fun peer_insert :: "32 word \<Rightarrow> peer \<Rightarrow> peers \<Rightarrow> peers" where
  "peer_insert i p [] = [(i, p)]"
| "peer_insert i p ((j, q) # ps) = (if i < j then (i, p) # (j, q) # ps else (j, q) # peer_insert i p ps)"

definition peer_set :: "32 word \<Rightarrow> peer \<Rightarrow> peers \<Rightarrow> peers" where
  "peer_set i p ps = map (\<lambda>(j, q). (j, if j = i then p else q)) ps"

definition peer_remove :: "32 word \<Rightarrow> peers \<Rightarrow> peers" where
  "peer_remove i ps = filter (\<lambda>(j, _). j \<noteq> i) ps"

text \<open>How a nonblocking connect to the local socket ends.\<close>

datatype connect_answer = Connected | InProgress | NotYet | ConnectFails string

definition connect_state :: "instant \<Rightarrow> connect_answer \<Rightarrow> string + bool \<times> instant option" where
  "connect_state now a =
     (case a of
        Connected \<Rightarrow> Inr (False, None)
      | InProgress \<Rightarrow> Inr (True, None)
      | NotYet \<Rightarrow> Inr (False, Some (now + 50000000))
      | ConnectFails e \<Rightarrow> Inl e)"

definition connect :: "limits \<Rightarrow> instant \<Rightarrow> nat \<Rightarrow> connect_answer \<Rightarrow> string + peer" where
  "connect l now serial a =
     and_then (connect_state now a) (\<lambda>(connecting, retry_at).
       Inr \<lparr>p_serial = serial, p_input = queue_new (l_peer_bytes l) (l_chunks l), p_connecting = connecting,
            p_retry_at = retry_at, p_opened = now, p_host_eof = False, p_guest_closed = False\<rparr>)"

subsection \<open>Receiving frames\<close>

text \<open>
  The answer to a read: it gives one byte and at most so many more, an error that asks for a
  retry, or another error. A stream that is used up gives no byte, which is the end of the file.
\<close>

datatype read_answer = Gives nat | ReadAgain | ReadFails string

definition read_bytes :: "nat \<Rightarrow> nat \<Rightarrow> bytes \<Rightarrow> bytes" where
  "read_bytes n k src = take (min n (Suc k)) src"

definition readable :: "peers \<Rightarrow> byte_queue \<Rightarrow> input \<Rightarrow> bool" where
  "readable ps out inp =
     (if length (in_header inp) < HEADER then True
      else if frame_kind (in_header inp) = DATA then
        (case map_of ps (frame_id (in_header inp)) of
           None \<Rightarrow> True
         | Some p \<Rightarrow> p_guest_closed p \<or> 0 < room (p_input p))
      else if frame_kind (in_header inp) = OPEN then \<not> in_rejected inp \<or> HEADER \<le> room out
      else True)"

text \<open>The first half of \<open>Input::read\<close>; \<open>Some b\<close>: it returns \<open>b\<close>.\<close>

definition read_header :: "instant \<Rightarrow> read_answer \<Rightarrow> relay \<Rightarrow> relay_error + bool option \<times> relay" where
  "read_header now a r =
     (let inp = r_input r; h = in_header inp in
      if HEADER \<le> length h then Inr (None, r)
      else case a of
        ReadFails e \<Rightarrow> Inl (RelayError e)
      | ReadAgain \<Rightarrow> Inr (Some True, r)
      | Gives k \<Rightarrow>
          (let bs = read_bytes (HEADER - length h) k (r_incoming r) in
           if bs = [] then (if h = [] then Inr (Some False, r) else Inl (RelayError ''unexpected end of file''))
           else
             Inr (if length (h @ bs) < HEADER then Some True else None,
                  r\<lparr>r_incoming := drop (length bs) (r_incoming r),
                    r_input := inp\<lparr>in_header := h @ bs,
                      in_started := (case in_started inp of None \<Rightarrow> Some now | Some t \<Rightarrow> Some t)\<rparr>\<rparr>)))"

definition reset :: "relay \<Rightarrow> relay" where
  "reset r =
     r\<lparr>r_input := input_default, r_in := r_in r @ [(in_header (r_input r), r_partial r)], r_partial := []\<rparr>"

definition push_output ::
  "instant \<Rightarrow> nat option \<Rightarrow> 8 word \<Rightarrow> 32 word \<Rightarrow> bytes \<Rightarrow> relay \<Rightarrow> relay_error + relay" where
  "push_output now serial kind i data r =
     (case push now (encoded kind i data) (r_output r) of
        None \<Rightarrow> Inl Panic
      | Some q \<Rightarrow> Inr (r\<lparr>r_output := q, r_out := r_out r @ [(serial, kind, i, data)]\<rparr>))"

definition read_open :: "limits \<Rightarrow> instant \<Rightarrow> connect_answer \<Rightarrow> relay \<Rightarrow> relay_error + relay" where
  "read_open l now conn r =
     (let inp = r_input r; i = frame_id (in_header inp);
          rejected = (\<lambda>r. if room (r_output r) < HEADER then Inr r
                          else and_then (push_output now None CLOSE i [] r) (\<lambda>r. Inr (reset r)))
      in if in_rejected inp then rejected r
         else if map_of (r_peers r) i \<noteq> None then Inl (RelayError ''duplicate relay stream id'')
         else if length (r_peers r) < l_peers l then
           (case connect l now (length (r_streams r)) conn of
              Inr p \<Rightarrow> Inr (reset (r\<lparr>r_peers := peer_insert i p (r_peers r),
                                     r_streams := r_streams r @ [\<lparr>st_delivered = [], st_read = []\<rparr>]\<rparr>))
            | Inl e \<Rightarrow> rejected (r\<lparr>r_input := inp\<lparr>in_rejected := True\<rparr>\<rparr>))
         else rejected (r\<lparr>r_input := inp\<lparr>in_rejected := True\<rparr>\<rparr>))"

definition read_close :: "relay \<Rightarrow> relay" where
  "read_close r =
     (let i = frame_id (in_header (r_input r)) in
      reset (case map_of (r_peers r) i of
               None \<Rightarrow> r
             | Some p \<Rightarrow> r\<lparr>r_peers := peer_set i (p\<lparr>p_guest_closed := True\<rparr>) (r_peers r)\<rparr>))"

definition open_peer :: "relay \<Rightarrow> peer option" where
  "open_peer r =
     (case map_of (r_peers r) (frame_id (in_header (r_input r))) of
        None \<Rightarrow> None
      | Some p \<Rightarrow> if p_guest_closed p then None else Some p)"

definition read_data :: "instant \<Rightarrow> read_answer \<Rightarrow> nat \<Rightarrow> relay \<Rightarrow> relay_error + relay" where
  "read_data now a remaining r =
     (let inp = r_input r; i = frame_id (in_header inp);
          space = (case open_peer r of None \<Rightarrow> CHUNK | Some p \<Rightarrow> room (p_input p))
      in if remaining = 0 then Inr (reset r)
         else if space = 0 then Inr r
         else case a of
           ReadFails e \<Rightarrow> Inl (RelayError e)
         | ReadAgain \<Rightarrow> Inr r
         | Gives k \<Rightarrow>
             (let bs = read_bytes (min (min remaining CHUNK) space) k (r_incoming r) in
              if bs = [] then Inl (RelayError ''unexpected end of file'')
              else
                and_then
                  (case open_peer r of
                     None \<Rightarrow> Inr (r\<lparr>r_partial := r_partial r @ [(None, bs)]\<rparr>)
                   | Some p \<Rightarrow>
                       (case push now bs (p_input p) of
                          None \<Rightarrow> Inl Panic
                        | Some q \<Rightarrow> Inr (r\<lparr>r_peers := peer_set i (p\<lparr>p_input := q\<rparr>) (r_peers r),
                                          r_partial := r_partial r @ [(Some (p_serial p), bs)]\<rparr>)))
                  (\<lambda>r. let r = r\<lparr>r_incoming := drop (length bs) (r_incoming r),
                                 r_input := inp\<lparr>in_remaining := Some (remaining - length bs)\<rparr>\<rparr>
                       in Inr (if remaining = length bs then reset r else r))))"

text \<open>The second half of \<open>Input::read\<close>, once the header is complete.\<close>

definition read_frame :: "limits \<Rightarrow> instant \<Rightarrow> read_answer \<Rightarrow> connect_answer \<Rightarrow> relay \<Rightarrow> relay_error + relay" where
  "read_frame l now a conn r0 =
     (let h = in_header (r_input r0); kind = frame_kind h;
          remaining = (case in_remaining (r_input r0) of None \<Rightarrow> frame_length h | Some n \<Rightarrow> n);
          r = r0\<lparr>r_input := (r_input r0)\<lparr>in_remaining := Some remaining\<rparr>\<rparr>
      in if MAX_FRAME < remaining \<or> kind \<notin> {OPEN, DATA, CLOSE} \<or> (kind \<noteq> DATA \<and> remaining \<noteq> 0)
         then Inl (RelayError ''invalid container relay frame header'')
         else if kind = OPEN then read_open l now conn r
         else if kind = CLOSE then Inr (read_close r)
         else read_data now a remaining r)"

definition input_read ::
  "limits \<Rightarrow> instant \<Rightarrow> read_answer \<Rightarrow> read_answer \<Rightarrow> connect_answer \<Rightarrow> relay \<Rightarrow> relay_error + bool \<times> relay" where
  "input_read l now a1 a2 conn r =
     and_then (read_header now a1 r) (\<lambda>(b, r1).
       case b of
         Some b \<Rightarrow> Inr (b, r1)
       | None \<Rightarrow> and_then (read_frame l now a2 conn r1) (\<lambda>r2. Inr (True, r2)))"

subsection \<open>The loop\<close>

text \<open>
  What one pass of the loop observes: the clock at its start and after the poll, the outcomes of
  connects, reads and writes, and the events that poll reports. Poll reports an event only on a
  descriptor it was given, and readiness only if it was asked for. A read that gives no byte is
  the end of the file.
\<close>

datatype peer_read = PeerGives bytes | PeerAgain | PeerFails string

record peer_obs =
  po_in :: bool
  po_out :: bool
  po_err :: bool
  po_hup :: bool
  po_error :: "string option"
  po_write :: write_answer
  po_read :: peer_read

datatype poll_answer = PollFails string | PollInterrupted | PollInvalid | Polled

record pass_obs =
  ob_now :: instant
  ob_later :: instant
  ob_retry :: "32 word \<Rightarrow> connect_answer"
  ob_waiting_read :: read_answer
  ob_waiting_connect :: connect_answer
  ob_poll :: poll_answer
  ob_transport :: bool
  ob_read1 :: read_answer
  ob_read2 :: read_answer
  ob_connect :: connect_answer
  ob_writer_broken :: bool
  ob_writer :: bool
  ob_write :: write_answer
  ob_peer :: "32 word \<Rightarrow> peer_obs"

fun retry_peers :: "instant \<Rightarrow> (32 word \<Rightarrow> connect_answer) \<Rightarrow> peers \<Rightarrow> string + peers" where
  "retry_peers now conns [] = Inr []"
| "retry_peers now conns ((i, p) # ps) =
     and_then
       (case p_retry_at p of
          None \<Rightarrow> Inr p
        | Some t \<Rightarrow>
            if t \<le> now then
              and_then (connect_state now (conns i)) (\<lambda>(connecting, retry_at).
                Inr (p\<lparr>p_connecting := connecting, p_retry_at := retry_at\<rparr>))
            else Inr p)
       (\<lambda>p. and_then (retry_peers now conns ps) (\<lambda>ps. Inr ((i, p) # ps)))"

definition peer_expired :: "duration \<Rightarrow> instant \<Rightarrow> peer \<Rightarrow> bool" where
  "peer_expired deadline now p \<longleftrightarrow>
     expired deadline now (p_input p)
     \<or> (p_connecting p \<or> p_retry_at p \<noteq> None) \<and> p_opened p + deadline \<le> now"

definition timed_out :: "limits \<Rightarrow> instant \<Rightarrow> relay \<Rightarrow> bool" where
  "timed_out l now r \<longleftrightarrow>
     expired (l_deadline l) now (r_output r)
     \<or> (case in_started (r_input r) of None \<Rightarrow> False | Some t \<Rightarrow> t + l_deadline l \<le> now)
     \<or> list_ex (\<lambda>(_, p). peer_expired (l_deadline l) now p) (r_peers r)"

definition retired :: "peers \<Rightarrow> 32 word list" where
  "retired ps = map fst (filter (\<lambda>(_, p). queue_empty (p_input p) \<and> (p_guest_closed p \<or> p_host_eof p)) ps)"

fun retire :: "instant \<Rightarrow> 32 word list \<Rightarrow> relay \<Rightarrow> relay_error + relay" where
  "retire now [] r = Inr r"
| "retire now (i # is) r =
     (case map_of (r_peers r) i of
        None \<Rightarrow> Inl Panic
      | Some p \<Rightarrow>
          if p_guest_closed p then retire now is (r\<lparr>r_peers := peer_remove i (r_peers r)\<rparr>)
          else if room (r_output r) < HEADER then Inr r
          else and_then (push_output now (Some (p_serial p)) CLOSE i [] r) (\<lambda>r.
                 retire now is (r\<lparr>r_peers := peer_remove i (r_peers r)\<rparr>)))"

definition drained :: "relay \<Rightarrow> bool" where
  "drained r \<longleftrightarrow>
     r_eof r \<and> queue_empty (r_output r) \<and> list_all (\<lambda>(_, p). queue_empty (p_input p)) (r_peers r)"

definition rotated_ids :: "relay \<Rightarrow> 32 word list" where
  "rotated_ids r =
     (let ids = map fst (r_peers r)
      in if ids = [] then [] else rotate (unat (r_rotation r) mod length ids) ids)"

definition wants_write :: "peer \<Rightarrow> bool" where
  "wants_write p \<longleftrightarrow> p_retry_at p = None \<and> (p_connecting p \<or> \<not> queue_empty (p_input p))"

definition wants_read :: "relay \<Rightarrow> peer \<Rightarrow> bool" where
  "wants_read r p \<longleftrightarrow>
     \<not> r_eof r \<and> \<not> p_connecting p \<and> p_retry_at p = None \<and> \<not> p_host_eof p \<and> \<not> p_guest_closed p
     \<and> HEADER < room (r_output r)"

text \<open>What poll can report for a peer, given the events it was asked for.\<close>

definition reported :: "relay \<Rightarrow> peer_obs \<Rightarrow> 32 word \<Rightarrow> peer_obs" where
  "reported r ob i =
     (case map_of (r_peers r) i of
        None \<Rightarrow> ob\<lparr>po_in := False, po_out := False, po_err := False, po_hup := False\<rparr>
      | Some p \<Rightarrow>
          if \<not> wants_write p \<and> \<not> wants_read r p
          then ob\<lparr>po_in := False, po_out := False, po_err := False, po_hup := False\<rparr>
          else ob\<lparr>po_in := po_in ob \<and> wants_read r p, po_out := po_out ob \<and> wants_write p\<rparr>)"

text \<open>Each deadline that a pass would act on; the poll sleeps until the first of them.\<close>

definition peer_deadlines :: "duration \<Rightarrow> peer \<Rightarrow> instant list" where
  "peer_deadlines deadline p =
     (case q_chunks (p_input p) of [] \<Rightarrow> [] | c # _ \<Rightarrow> [ch_queued c + deadline])
     @ (if p_connecting p \<or> p_retry_at p \<noteq> None then [p_opened p + deadline] else [])
     @ (case p_retry_at p of None \<Rightarrow> [] | Some t \<Rightarrow> [t])"

definition next_deadline :: "limits \<Rightarrow> relay \<Rightarrow> instant option" where
  "next_deadline l r =
     (let ts = (case in_started (r_input r) of None \<Rightarrow> [] | Some t \<Rightarrow> [t + l_deadline l])
               @ (case q_chunks (r_output r) of [] \<Rightarrow> [] | c # _ \<Rightarrow> [ch_queued c + l_deadline l])
               @ concat (map (\<lambda>(_, p). peer_deadlines (l_deadline l) p) (r_peers r))
      in case ts of [] \<Rightarrow> None | t # ts \<Rightarrow> Some (fold min ts t))"

definition deliver :: "write_answer \<Rightarrow> 32 word \<Rightarrow> peer \<Rightarrow> relay \<Rightarrow> relay_error + relay" where
  "deliver ans i p r =
     (case queue_write ans (p_input p) of
        Inl e \<Rightarrow> Inl (RelayError e)
      | Inr (bs, q) \<Rightarrow>
          (let st = r_streams r ! p_serial p in
           Inr (r\<lparr>r_peers := peer_set i (p\<lparr>p_input := q\<rparr>) (r_peers r),
                  r_streams := (r_streams r)[p_serial p := st\<lparr>st_delivered := st_delivered st @ bs\<rparr>]\<rparr>)))"

definition collect :: "instant \<Rightarrow> peer_read \<Rightarrow> 32 word \<Rightarrow> peer \<Rightarrow> relay \<Rightarrow> relay_error + relay" where
  "collect now ans i p r =
     (case ans of
        PeerFails e \<Rightarrow> Inl (RelayError e)
      | PeerAgain \<Rightarrow> Inr r
      | PeerGives bs \<Rightarrow>
          (let data = take (min CHUNK (room (r_output r) - HEADER)) bs;
               st = r_streams r ! p_serial p
           in if data = [] then Inr (r\<lparr>r_peers := peer_set i (p\<lparr>p_host_eof := True\<rparr>) (r_peers r)\<rparr>)
              else push_output now (Some (p_serial p)) DATA i data
                (r\<lparr>r_streams := (r_streams r)[p_serial p := st\<lparr>st_read := st_read st @ data\<rparr>]\<rparr>)))"

definition service_peer :: "instant \<Rightarrow> peer_obs \<Rightarrow> 32 word \<Rightarrow> relay \<Rightarrow> relay_error + relay" where
  "service_peer now ob i r =
     (case map_of (r_peers r) i of
        None \<Rightarrow> Inr r
      | Some p \<Rightarrow>
          if p_connecting p then
            (if po_out ob \<or> po_err ob \<or> po_hup ob then
               (case po_error ob of
                  Some e \<Rightarrow> Inl (RelayError e)
                | None \<Rightarrow> Inr (r\<lparr>r_peers := peer_set i (p\<lparr>p_connecting := False\<rparr>) (r_peers r)\<rparr>))
             else Inr r)
          else if po_err ob \<or> po_hup ob \<and> \<not> queue_empty (p_input p) then Inl (RelayError ''broken pipe'')
          else
            and_then (if po_out ob then deliver (po_write ob) i p r else Inr r) (\<lambda>r.
              case map_of (r_peers r) i of
                None \<Rightarrow> Inr r
              | Some p \<Rightarrow>
                  if (po_in ob \<or> po_hup ob \<or> po_err ob) \<and> \<not> r_eof r \<and> \<not> p_host_eof p \<and> \<not> p_guest_closed p
                     \<and> HEADER < room (r_output r)
                  then collect now (po_read ob) i p r else Inr r))"

fun service_peers :: "instant \<Rightarrow> (32 word \<times> peer_obs) list \<Rightarrow> relay \<Rightarrow> relay_error + relay" where
  "service_peers now [] r = Inr r"
| "service_peers now ((i, ob) # is) r = and_then (service_peer now ob i r) (service_peers now is)"

text \<open>The part of a pass before the poll; \<open>True\<close>: the relay is done.\<close>

definition before_poll :: "limits \<Rightarrow> pass_obs \<Rightarrow> relay \<Rightarrow> relay_error + bool \<times> relay" where
  "before_poll l ob r =
     and_then (map_sum RelayError id (retry_peers (ob_now ob) (ob_retry ob) (r_peers r))) (\<lambda>ps.
       let r = r\<lparr>r_peers := ps\<rparr> in
       and_then
         (if \<not> r_eof r \<and> length (in_header (r_input r)) = HEADER \<and> readable (r_peers r) (r_output r) (r_input r)
          then and_then (input_read l (ob_now ob) ReadAgain (ob_waiting_read ob) (ob_waiting_connect ob) r) (\<lambda>(_, r). Inr r)
          else Inr r)
         (\<lambda>r. if timed_out l (ob_now ob) r then Inl (RelayError ''relay channel exceeded its queue/frame deadline'')
              else and_then (retire (ob_now ob) (retired (r_peers r)) r) (\<lambda>r. Inr (drained r, r))))"

text \<open>The part after the poll: \<open>r0\<close> is the state the descriptors were collected from.\<close>

definition after_poll :: "limits \<Rightarrow> pass_obs \<Rightarrow> relay \<Rightarrow> relay_error + relay" where
  "after_poll l ob r0 =
     (let ids = rotated_ids r0;
          r = r0\<lparr>r_rotation := (if ids = [] then r_rotation r0 else r_rotation r0 + 1)\<rparr>;
          can_read = readable (r_peers r0) (r_output r0) (r_input r0);
          transport = ob_transport ob \<and> \<not> r_eof r0;
          writer_broken = ob_writer_broken ob \<and> \<not> (r_eof r0 \<and> queue_empty (r_output r0));
          writer = ob_writer ob \<and> \<not> queue_empty (r_output r0)
      in case ob_poll ob of
           PollInterrupted \<Rightarrow> Inr r
         | PollFails e \<Rightarrow> Inl (RelayError e)
         | PollInvalid \<Rightarrow> Inl (RelayError ''invalid input'')
         | Polled \<Rightarrow>
             if transport \<and> \<not> can_read then Inl (RelayError ''connection aborted'')
             else
               and_then
                 (if transport then
                    and_then (input_read l (ob_later ob) (ob_read1 ob) (ob_read2 ob) (ob_connect ob) r) (\<lambda>(more, r).
                      Inr (if more then r else r\<lparr>r_eof := True\<rparr>))
                  else Inr r)
                 (\<lambda>r. if (\<not> r_eof r \<or> \<not> queue_empty (r_output r)) \<and> writer_broken
                      then Inl (RelayError ''broken pipe'')
                      else
                        and_then
                          (if writer then
                             (case queue_write (ob_write ob) (r_output r) of
                                Inl e \<Rightarrow> Inl (RelayError e)
                              | Inr (bs, q) \<Rightarrow> Inr (r\<lparr>r_output := q, r_sent := r_sent r @ bs\<rparr>))
                           else Inr r)
                          (service_peers (ob_later ob) (map (\<lambda>i. (i, reported r0 (ob_peer ob i) i)) ids))))"

fun bridge_loop :: "limits \<Rightarrow> pass_obs list \<Rightarrow> relay \<Rightarrow> relay_error + bool \<times> relay" where
  "bridge_loop l [] r = Inr (False, r)"
| "bridge_loop l (ob # obs) r =
     and_then (before_poll l ob r) (\<lambda>(finished, r).
       if finished then Inr (True, r)
       else and_then (after_poll l ob r) (bridge_loop l obs))"

definition relay_init :: "limits \<Rightarrow> bytes \<Rightarrow> relay" where
  "relay_init l incoming =
     \<lparr>r_peers = [], r_output = queue_new (l_transport_bytes l) (l_chunks l), r_input = input_default,
      r_eof = False, r_rotation = 0, r_incoming = incoming, r_sent = [], r_streams = [], r_in = [],
      r_partial = [], r_out = []\<rparr>"

definition bridge_with_limits :: "limits \<Rightarrow> pass_obs list \<Rightarrow> bytes \<Rightarrow> relay_error + bool \<times> relay" where
  "bridge_with_limits l obs incoming =
     (if l_peers l = 0 \<or> l_peer_bytes l = 0 \<or> l_transport_bytes l \<le> HEADER \<or> l_chunks l = 0 \<or> l_deadline l = 0
      then Inl (RelayError ''invalid relay limits'')
      else bridge_loop l obs (relay_init l incoming))"

subsection \<open>Queues are exact and bounded\<close>

definition content :: "byte_queue \<Rightarrow> bytes" where
  "content q = concat (map (\<lambda>c. drop (ch_offset c) (ch_bytes c)) (q_chunks q))"

definition queue_ok :: "nat \<Rightarrow> nat \<Rightarrow> byte_queue \<Rightarrow> bool" where
  "queue_ok limit chunk_limit q \<longleftrightarrow>
     q_limit q = limit \<and> q_chunk_limit q = chunk_limit
     \<and> q_bytes q = sum_list (map (length \<circ> ch_bytes) (q_chunks q)) \<and> q_bytes q \<le> limit
     \<and> length (q_chunks q) \<le> chunk_limit
     \<and> list_all (\<lambda>c. ch_offset c < length (ch_bytes c)) (q_chunks q)"

lemma queue_new_ok [simp]: "queue_ok a b (queue_new a b)" "content (queue_new a b) = []"
  by (simp_all add: queue_ok_def queue_new_def content_def)

lemma push_ok:
  assumes "queue_ok a b q" "push now bs q = Some q'"
  shows "queue_ok a b q' \<and> content q' = content q @ bs"
  using assms by (auto simp: push_def queue_ok_def content_def room_def split: if_splits)

lemma push_room: "push now bs q = None \<longleftrightarrow> room q < length bs"
  by (simp add: push_def)

lemma write_ok:
  assumes "queue_ok a b q" "queue_write ans q = Inr (bs, q')"
  shows "queue_ok a b q' \<and> content q = bs @ content q'"
proof (cases "q_chunks q")
  case Nil
  with assms show ?thesis by (simp add: queue_write_def)
next
  case (Cons c cs)
  let ?rest = "drop (ch_offset c) (ch_bytes c)"
  show ?thesis
  proof (cases ans)
    case (Took k)
    let ?n = "min k (length ?rest)"
    have n: "?n \<noteq> 0" "bs = take ?n ?rest"
      and q': "q' = (if ch_offset c + ?n = length (ch_bytes c)
                  then q\<lparr>q_bytes := q_bytes q - length (ch_bytes c), q_chunks := cs\<rparr>
                  else q\<lparr>q_chunks := c\<lparr>ch_offset := ch_offset c + ?n\<rparr> # cs\<rparr>)"
      using assms(2) Cons Took by (auto simp: queue_write_def Let_def split: if_splits)
    have rest: "?rest = take ?n ?rest @ drop (ch_offset c + ?n) (ch_bytes c)"
      by (metis add.commute append_take_drop_id drop_drop)
    have c: "ch_offset c < length (ch_bytes c)" using assms(1) Cons by (simp add: queue_ok_def)
    show ?thesis
    proof (cases "ch_offset c + ?n = length (ch_bytes c)")
      case True
      then have "drop (ch_offset c + ?n) (ch_bytes c) = []" by simp
      with rest n have "?rest = bs" by simp
      with True q' Cons assms(1) show ?thesis by (auto simp: queue_ok_def content_def)
    next
      case False
      have "?n \<le> length (ch_bytes c) - ch_offset c" by simp
      with False c have "ch_offset c + ?n < length (ch_bytes c)" by linarith
      with False q' Cons assms(1) rest n show ?thesis by (simp add: queue_ok_def content_def)
    qed
  qed (use assms Cons in \<open>auto simp: queue_write_def\<close>)
qed

lemma empty_content: "queue_ok a b q \<Longrightarrow> queue_empty q \<longleftrightarrow> content q = []"
  by (cases "q_chunks q") (auto simp: queue_ok_def queue_empty_def content_def)

subsection \<open>The invariant\<close>

type_synonym view = "(32 word \<times> nat \<times> byte_queue) list"

definition view :: "peers \<Rightarrow> view" where
  "view ps = map (\<lambda>(i, p). (i, p_serial p, p_input p)) ps"

abbreviation serials :: "view \<Rightarrow> nat list" where
  "serials v \<equiv> map (\<lambda>(_, n, _). n) v"

text \<open>Every accepted byte of a stream was delivered or is queued for its peer, in order.\<close>

definition streams_ok :: "limits \<Rightarrow> view \<Rightarrow> stream list \<Rightarrow> (nat \<Rightarrow> bytes) \<Rightarrow> bool" where
  "streams_ok l v streams acc \<longleftrightarrow>
     distinct (map fst v) \<and> distinct (serials v) \<and> length v \<le> l_peers l
     \<and> (\<forall>(i, n, q) \<in> set v. n < length streams \<and> queue_ok (l_peer_bytes l) (l_chunks l) q
          \<and> acc n = st_delivered (streams ! n) @ content q)
     \<and> (\<forall>n. n \<notin> set (serials v) \<longrightarrow> acc n = (if n < length streams then st_delivered (streams ! n) else []))"

definition accepted :: "(nat option \<times> bytes) list \<Rightarrow> nat \<Rightarrow> bytes" where
  "accepted ps n = concat (map snd (filter (\<lambda>(s, _). s = Some n) ps))"

definition framed :: "(nat option \<times> 8 word \<times> 32 word \<times> bytes) list \<Rightarrow> nat \<Rightarrow> bytes" where
  "framed fs n = concat (map (\<lambda>(_, _, _, d). d) (filter (\<lambda>(s, _). s = Some n) fs))"

definition pieces :: "relay \<Rightarrow> (nat option \<times> bytes) list" where
  "pieces r = concat (map snd (r_in r)) @ r_partial r"

text \<open>Every frame is sent or queued whole, in order; the data frames of a stream hold what was read.\<close>

definition output_ok :: "limits \<Rightarrow> relay \<Rightarrow> bool" where
  "output_ok l r \<longleftrightarrow>
     queue_ok (l_transport_bytes l) (l_chunks l) (r_output r)
     \<and> r_sent r @ content (r_output r) = concat (map (\<lambda>(_, k, i, d). encoded k i d) (r_out r))
     \<and> (\<forall>n. framed (r_out r) n = (if n < length (r_streams r) then st_read (r_streams r ! n) else []))"

definition frame_ok :: "bytes \<times> (nat option \<times> bytes) list \<Rightarrow> bool" where
  "frame_ok f =
     (case f of (h, ps) \<Rightarrow>
        length h = HEADER \<and> frame_kind h \<in> {OPEN, DATA, CLOSE} \<and> frame_length h = length (concat (map snd ps))
        \<and> frame_length h \<le> MAX_FRAME \<and> (ps = [] \<or> frame_kind h = DATA))"

text \<open>The bytes taken from the transport are the frames that were complete, and the one in progress.\<close>

definition input_ok :: "bytes \<Rightarrow> relay \<Rightarrow> bool" where
  "input_ok whole r \<longleftrightarrow>
     (let inp = r_input r; h = in_header inp in
      whole = concat (map (\<lambda>(h, ps). h @ concat (map snd ps)) (r_in r)) @ h @ concat (map snd (r_partial r)) @ r_incoming r
      \<and> list_all frame_ok (r_in r) \<and> length h \<le> HEADER
      \<and> (case in_remaining inp of
           None \<Rightarrow> r_partial r = []
         | Some k \<Rightarrow> length h = HEADER \<and> frame_kind h \<in> {OPEN, DATA, CLOSE}
             \<and> frame_length h = length (concat (map snd (r_partial r))) + k \<and> frame_length h \<le> MAX_FRAME
             \<and> (frame_kind h = DATA \<or> r_partial r = [] \<and> k = 0)))"

definition relay_inv :: "limits \<Rightarrow> bytes \<Rightarrow> relay \<Rightarrow> bool" where
  "relay_inv l whole r \<longleftrightarrow>
     streams_ok l (view (r_peers r)) (r_streams r) (accepted (pieces r)) \<and> output_ok l r \<and> input_ok whole r"

text \<open>A step does not panic, and what it returns satisfies a predicate.\<close>

definition returns :: "('a \<Rightarrow> bool) \<Rightarrow> relay_error + 'a \<Rightarrow> bool" where
  "returns P m \<longleftrightarrow> m \<noteq> Inl Panic \<and> (\<forall>x. m = Inr x \<longrightarrow> P x)"

lemma returns_simps [simp]:
  "returns P (Inr x) \<longleftrightarrow> P x" "returns P (Inl (RelayError e))" "\<not> returns P (Inl Panic)"
  by (simp_all add: returns_def)

lemma returns_bind:
  assumes "returns P m" "\<And>x. P x \<Longrightarrow> returns Q (f x)"
  shows "returns Q (and_then m f)"
  using assms by (cases m) (auto simp: returns_def)

subsection \<open>Peers\<close>

lemma fst_view: "map fst (view ps) = map fst ps"
  by (simp add: view_def case_prod_unfold)

lemma view_member: "map_of ps i = Some p \<Longrightarrow> (i, p_serial p, p_input p) \<in> set (view ps)"
  by (force simp: view_def dest: map_of_SomeD)

lemma view_peer_set:
  assumes "map_of ps i = Some p" "distinct (map fst ps)" "p_serial p' = p_serial p" "p_input p' = p_input p"
  shows "view (peer_set i p' ps) = view ps"
proof -
  have "(j, q) \<in> set ps \<Longrightarrow> j = i \<Longrightarrow> q = p" for j q using assms by (metis map_of_is_SomeI option.inject)
  then show ?thesis
    unfolding view_def peer_set_def list.map_comp using assms(3,4)
    by (intro map_cong [OF refl]) auto
qed

definition view_set :: "32 word \<Rightarrow> byte_queue \<Rightarrow> view \<Rightarrow> view" where
  "view_set i q v = map (\<lambda>(j, n, q'). (j, n, if j = i then q else q')) v"

lemma view_peer_queue:
  assumes "map_of ps i = Some p" "distinct (map fst ps)"
  shows "view (peer_set i (p\<lparr>p_input := q\<rparr>) ps) = view_set i q (view ps)"
proof -
  have "(j, q) \<in> set ps \<Longrightarrow> j = i \<Longrightarrow> q = p" for j q using assms by (metis map_of_is_SomeI option.inject)
  then show ?thesis unfolding view_def view_set_def peer_set_def by (auto split: prod.split)
qed

lemma view_peer_remove: "view (peer_remove i ps) = filter (\<lambda>(j, _). j \<noteq> i) (view ps)"
  by (induction ps) (auto simp: view_def peer_remove_def)

lemma mset_peer_insert: "mset (peer_insert i p ps) = add_mset (i, p) (mset ps)"
  by (induction ps) auto

lemma set_view_set:
  "set (view_set i q v) = (\<lambda>(j, n, q'). (j, n, if j = i then q else q')) ` set v"
  by (simp add: view_set_def)

lemma view_set_keys [simp]: "map fst (view_set i q v) = map fst v" "serials (view_set i q v) = serials v"
  by (simp_all add: view_set_def case_prod_unfold)

lemma serial_unique: "distinct (serials v) \<Longrightarrow> (i, n, q) \<in> set v \<Longrightarrow> (j, n, q') \<in> set v \<Longrightarrow> i = j \<and> q = q'"
  by (induction v) (auto, force+)

lemma key_unique: "distinct (map fst v) \<Longrightarrow> (i, x) \<in> set v \<Longrightarrow> (i, y) \<in> set v \<Longrightarrow> x = y"
  by (metis eq_key_imp_eq_value)

text \<open>The changes that steps make to one peer's queue and stream.\<close>

lemma streams_changed:
  assumes ok: "streams_ok l v streams acc" and mem: "(i, n, q) \<in> set v"
    and q': "queue_ok (l_peer_bytes l) (l_chunks l) q'"
    and acc': "acc' n = st_delivered st @ content q'" "\<And>m. m \<noteq> n \<Longrightarrow> acc' m = acc m"
  shows "streams_ok l (view_set i q' v) (streams[n := st]) acc'"
proof -
  have d: "distinct (map fst v)" "distinct (serials v)" and n: "n < length streams"
    using ok mem by (auto simp: streams_ok_def)
  have members: "m < length streams \<and> queue_ok (l_peer_bytes l) (l_chunks l) (if j = i then q' else q2)
      \<and> acc' m = st_delivered (streams[n := st] ! m) @ content (if j = i then q' else q2)"
    if x: "(j, m, q2) \<in> set v" for j m q2
  proof (cases "j = i")
    case True
    with key_unique [OF d(1) mem, of "(m, q2)"] x have "m = n" by auto
    with True n q' acc' show ?thesis by simp
  next
    case False
    with serial_unique [OF d(2) x, of i q] mem have "m \<noteq> n" by auto
    with False x ok acc' show ?thesis by (auto simp: streams_ok_def)
  qed
  have others: "acc' m = (if m < length streams then st_delivered (streams[n := st] ! m) else [])"
    if m: "m \<notin> set (serials v)" for m
  proof -
    have "n \<in> set (serials v)" using mem by force
    with m have "m \<noteq> n" by blast
    moreover have "acc m = (if m < length streams then st_delivered (streams ! m) else [])"
      using ok m unfolding streams_ok_def by blast
    ultimately show ?thesis using acc'(2) by simp
  qed
  show ?thesis
    unfolding streams_ok_def view_set_keys length_list_update
  proof (intro conjI)
    show "length (view_set i q' v) \<le> l_peers l" using ok by (simp add: streams_ok_def view_set_def)
    show "\<forall>(j, m, q2)\<in>set (view_set i q' v). m < length streams \<and> queue_ok (l_peer_bytes l) (l_chunks l) q2
        \<and> acc' m = st_delivered (streams[n := st] ! m) @ content q2"
      using members unfolding set_view_set by fast
  qed (use d others in blast)+
qed

lemma streams_removed:
  assumes ok: "streams_ok l v streams acc" and empty: "\<And>n q. (i, n, q) \<in> set v \<Longrightarrow> content q = []"
  shows "streams_ok l (filter (\<lambda>(j, _). j \<noteq> i) v) streams acc"
proof -
  let ?v = "filter (\<lambda>(j, _). j \<noteq> i) v"
  have others: "acc m = (if m < length streams then st_delivered (streams ! m) else [])"
    if m: "m \<notin> set (serials ?v)" for m
  proof (cases "m \<in> set (serials v)")
    case True
    then obtain j q where q: "(j, m, q) \<in> set v" by auto
    with m have "j = i" by force
    with q empty ok show ?thesis unfolding streams_ok_def by fastforce
  next
    case False
    with ok show ?thesis unfolding streams_ok_def by blast
  qed
  have "distinct (map fst ?v)" "distinct (serials ?v)"
    using ok unfolding streams_ok_def by (simp_all add: distinct_map_filter)
  moreover have "length ?v \<le> l_peers l" using ok length_filter_le le_trans unfolding streams_ok_def by blast
  moreover have "\<forall>(j, m, q)\<in>set ?v. m < length streams \<and> queue_ok (l_peer_bytes l) (l_chunks l) q
      \<and> acc m = st_delivered (streams ! m) @ content q"
    using ok unfolding streams_ok_def by auto
  ultimately show ?thesis using others unfolding streams_ok_def by blast
qed

lemma streams_opened:
  assumes ok: "streams_ok l v streams acc" and room: "length v < l_peers l" and i: "i \<notin> fst ` set v"
    and w: "mset w = add_mset (i, length streams, queue_new (l_peer_bytes l) (l_chunks l)) (mset v)"
  shows "streams_ok l w (streams @ [\<lparr>st_delivered = [], st_read = []\<rparr>]) acc"
proof -
  let ?x = "(i, length streams, queue_new (l_peer_bytes l) (l_chunks l))"
  have set_w: "set w = insert ?x (set v)" and len: "length w = Suc (length v)"
    using w by (metis set_mset_add_mset_insert set_mset_mset, metis size_add_mset size_mset)
  have old: "n < length streams" if "(j, n, q) \<in> set v" for j n q
    using ok that unfolding streams_ok_def by blast
  then have fresh: "length streams \<notin> set (serials v)" by auto
  have "mset (map fst w) = mset (map fst (?x # v))" "mset (serials w) = mset (serials (?x # v))"
    using w by simp_all
  moreover have "distinct (map fst (?x # v))" "distinct (serials (?x # v))"
    using ok i fresh unfolding streams_ok_def by auto
  ultimately have d: "distinct (map fst w)" "distinct (serials w)" by (metis mset_eq_imp_distinct_iff)+
  have acc_new: "acc (length streams) = []" using ok fresh unfolding streams_ok_def by force
  have members: "\<forall>(j, m, q)\<in>set w. m < length (streams @ [\<lparr>st_delivered = [], st_read = []\<rparr>])
      \<and> queue_ok (l_peer_bytes l) (l_chunks l) q
      \<and> acc m = st_delivered ((streams @ [\<lparr>st_delivered = [], st_read = []\<rparr>]) ! m) @ content q"
    using ok acc_new unfolding set_w streams_ok_def by (auto simp: nth_append)
  moreover have "acc m = (if m < length (streams @ [\<lparr>st_delivered = [], st_read = []\<rparr>])
      then st_delivered ((streams @ [\<lparr>st_delivered = [], st_read = []\<rparr>]) ! m) else [])"
    if "m \<notin> set (serials w)" for m
  proof -
    have "m \<noteq> length streams" "m \<notin> set (serials v)" using that unfolding set_map set_w by auto
    moreover from this have "acc m = (if m < length streams then st_delivered (streams ! m) else [])"
      using ok unfolding streams_ok_def by blast
    ultimately show ?thesis by (simp add: nth_append)
  qed
  moreover have "length w \<le> l_peers l" using room len by simp
  ultimately show ?thesis using members d unfolding streams_ok_def by blast
qed

subsection \<open>Steps of the relay\<close>

lemma input_ok_updates [simp]:
  "input_ok w (r\<lparr>r_peers := a\<rparr>) = input_ok w r" "input_ok w (r\<lparr>r_output := b\<rparr>) = input_ok w r"
  "input_ok w (r\<lparr>r_out := c\<rparr>) = input_ok w r" "input_ok w (r\<lparr>r_streams := d\<rparr>) = input_ok w r"
  "input_ok w (r\<lparr>r_sent := e\<rparr>) = input_ok w r" "input_ok w (r\<lparr>r_eof := f\<rparr>) = input_ok w r"
  "input_ok w (r\<lparr>r_rotation := g\<rparr>) = input_ok w r"
  by (simp_all add: input_ok_def Let_def cong: option.case_cong)

lemma output_ok_updates [simp]:
  "output_ok l (r\<lparr>r_peers := a\<rparr>) = output_ok l r" "output_ok l (r\<lparr>r_input := b\<rparr>) = output_ok l r"
  "output_ok l (r\<lparr>r_in := c\<rparr>) = output_ok l r" "output_ok l (r\<lparr>r_partial := d\<rparr>) = output_ok l r"
  "output_ok l (r\<lparr>r_incoming := e\<rparr>) = output_ok l r" "output_ok l (r\<lparr>r_eof := f\<rparr>) = output_ok l r"
  "output_ok l (r\<lparr>r_rotation := g\<rparr>) = output_ok l r"
  by (simp_all add: output_ok_def)

lemma pieces_updates [simp]:
  "pieces (r\<lparr>r_peers := a\<rparr>) = pieces r" "pieces (r\<lparr>r_output := b\<rparr>) = pieces r" "pieces (r\<lparr>r_out := c\<rparr>) = pieces r"
  "pieces (r\<lparr>r_streams := d\<rparr>) = pieces r" "pieces (r\<lparr>r_sent := e\<rparr>) = pieces r" "pieces (r\<lparr>r_eof := f\<rparr>) = pieces r"
  "pieces (r\<lparr>r_rotation := g\<rparr>) = pieces r" "pieces (r\<lparr>r_input := h\<rparr>) = pieces r" "pieces (r\<lparr>r_incoming := i\<rparr>) = pieces r"
  by (simp_all add: pieces_def)

lemma accepted_append:
  "accepted (ps @ [(s, bs)]) n = accepted ps n @ (if s = Some n then bs else [])"
  by (simp add: accepted_def)

lemma framed_append:
  "framed (fs @ [(s, k, i, d)]) n = framed fs n @ (if s = Some n then d else [])"
  by (simp add: framed_def)

lemma pieces_reset [simp]: "pieces (reset r) = pieces r"
  by (simp add: pieces_def reset_def)

lemma length_encoded: "length (encoded k i d) = HEADER + length d"
  by (simp add: encoded_def to_be_bytes_def HEADER_def)

lemma push_output_ok:
  assumes "queue_ok (l_transport_bytes l) (l_chunks l) (r_output r)"
    and "r_sent r @ content (r_output r) = concat (map (\<lambda>(_, k, i, d). encoded k i d) (r_out r))"
    and "\<And>n. framed (r_out r) n @ (if serial = Some n then data else []) =
              (if n < length (r_streams r) then st_read (r_streams r ! n) else [])"
    and "HEADER + length data \<le> room (r_output r)"
  shows "returns (\<lambda>r'. output_ok l r' \<and> r' = r\<lparr>r_output := r_output r', r_out := r_out r'\<rparr>)
           (push_output now serial kind i data r)"
proof -
  obtain q where q: "push now (encoded kind i data) (r_output r) = Some q"
    using assms(4) push_room [of now "encoded kind i data" "r_output r"] by (auto simp: length_encoded)
  from push_ok [OF assms(1) q] show ?thesis
    using assms(2,3) by (simp add: push_output_def q output_ok_def framed_append append_assoc [symmetric] del: append_assoc)
qed

lemma push_close_ok:
  assumes "relay_inv l whole r" "HEADER \<le> room (r_output r)"
  shows "returns (\<lambda>r'. relay_inv l whole r' \<and> r' = r\<lparr>r_output := r_output r', r_out := r_out r'\<rparr>)
           (push_output now serial CLOSE i [] r)"
proof -
  have "returns (\<lambda>r'. output_ok l r' \<and> r' = r\<lparr>r_output := r_output r', r_out := r_out r'\<rparr>)
          (push_output now serial CLOSE i [] r)"
    using assms by (intro push_output_ok) (auto simp: relay_inv_def output_ok_def)
  moreover have "relay_inv l whole r'" if "output_ok l r'" "r' = r\<lparr>r_output := a, r_out := b\<rparr>" for r' a b
    using assms(1) that by (simp add: relay_inv_def)
  ultimately show ?thesis unfolding returns_def by blast
qed

lemma reset_inv:
  assumes "relay_inv l whole r" "in_remaining (r_input r) = Some 0"
  shows "relay_inv l whole (reset r)"
proof -
  have "input_ok whole (reset r)"
    using assms by (auto simp: relay_inv_def input_ok_def reset_def input_default_def frame_ok_def Let_def)
  moreover have "output_ok l (reset r)" using assms by (simp add: relay_inv_def output_ok_def reset_def)
  ultimately show ?thesis using assms by (simp add: relay_inv_def) (simp add: reset_def)
qed

text \<open>Peers may change in everything but their serial numbers and queues.\<close>

lemma same_view_inv:
  assumes "relay_inv l whole r" "view ps = view (r_peers r)"
  shows "relay_inv l whole (r\<lparr>r_peers := ps\<rparr>)"
  using assms by (simp add: relay_inv_def)

lemma inv_distinct: "relay_inv l whole r \<Longrightarrow> distinct (map fst (r_peers r))"
  by (simp add: relay_inv_def streams_ok_def fst_view [symmetric])

lemma set_flags_inv:
  assumes "relay_inv l whole r" "map_of (r_peers r) i = Some p" "p_serial p' = p_serial p" "p_input p' = p_input p"
  shows "relay_inv l whole (r\<lparr>r_peers := peer_set i p' (r_peers r)\<rparr>)"
  by (rule same_view_inv [OF assms(1) view_peer_set [OF assms(2) inv_distinct [OF assms(1)] assms(3,4)]])

lemma read_header_inv:
  assumes "relay_inv l whole r"
  shows "returns (\<lambda>(b, r'). relay_inv l whole r' \<and> (b = None \<longrightarrow> length (in_header (r_input r')) = HEADER)
           \<and> (b = Some False \<longrightarrow> r_incoming r' = [] \<and> in_header (r_input r') = [])) (read_header now a r)"
proof (cases "HEADER \<le> length (in_header (r_input r))")
  case True
  with assms show ?thesis by (simp add: read_header_def relay_inv_def input_ok_def Let_def)
next
  case short: False
  let ?h = "in_header (r_input r)"
  have rem: "in_remaining (r_input r) = None" and part: "r_partial r = []"
    using assms short by (auto simp: relay_inv_def input_ok_def Let_def split: option.splits)
  show ?thesis
  proof (cases a)
    case (Gives k)
    let ?bs = "read_bytes (HEADER - length ?h) k (r_incoming r)"
    have bs: "?bs @ drop (length ?bs) (r_incoming r) = r_incoming r"
      by (simp add: read_bytes_def min_def)
    have len: "length (?h @ ?bs) \<le> HEADER" using short by (simp add: read_bytes_def)
    have empty: "?bs = [] \<longleftrightarrow> r_incoming r = []" using short by (auto simp: read_bytes_def min_def)
    let ?r = "r\<lparr>r_incoming := drop (length ?bs) (r_incoming r),
                r_input := (r_input r)\<lparr>in_header := ?h @ ?bs,
                  in_started := (case in_started (r_input r) of None \<Rightarrow> Some now | Some t \<Rightarrow> Some t)\<rparr>\<rparr>"
    have "relay_inv l whole ?r"
      using assms bs len rem part by (simp add: relay_inv_def input_ok_def Let_def)
    with assms Gives short empty len show ?thesis
      by (auto simp: read_header_def Let_def)
  qed (use assms short in \<open>simp_all add: read_header_def Let_def\<close>)
qed

lemma inv_member:
  assumes "relay_inv l whole r" "map_of (r_peers r) i = Some p"
  shows "p_serial p < length (r_streams r)" "queue_ok (l_peer_bytes l) (l_chunks l) (p_input p)"
    "accepted (pieces r) (p_serial p) = st_delivered (r_streams r ! p_serial p) @ content (p_input p)"
  using assms view_member [OF assms(2)] unfolding relay_inv_def streams_ok_def by blast+

lemma open_peer_Some:
  "open_peer r = Some p \<Longrightarrow> map_of (r_peers r) (frame_id (in_header (r_input r))) = Some p"
  by (auto simp: open_peer_def split: option.splits if_splits)

lemma accepted_discard: "accepted (ps @ [(None, bs)]) = accepted ps"
  by (simp add: accepted_def fun_eq_iff)

text \<open>Data that arrived goes to the queue of the peer, or is discarded if the stream is not open.\<close>

lemma data_inv:
  assumes inv: "relay_inv l whole r" and rem: "in_remaining (r_input r) = Some k" "length bs \<le> k"
    and kind: "frame_kind (in_header (r_input r)) = DATA"
    and src: "r_incoming r = bs @ rest"
    and peers: "streams_ok l (view ps) (r_streams r) (accepted (pieces r @ [(s, bs)]))"
  shows "relay_inv l whole
     (r\<lparr>r_peers := ps, r_partial := r_partial r @ [(s, bs)], r_incoming := rest,
        r_input := (r_input r)\<lparr>in_remaining := Some (k - length bs)\<rparr>\<rparr>)"
proof -
  let ?r = "r\<lparr>r_peers := ps, r_partial := r_partial r @ [(s, bs)], r_incoming := rest,
        r_input := (r_input r)\<lparr>in_remaining := Some (k - length bs)\<rparr>\<rparr>"
  have "input_ok whole ?r"
    using inv rem kind src by (auto simp: relay_inv_def input_ok_def Let_def)
  moreover have "pieces ?r = pieces r @ [(s, bs)]" by (simp add: pieces_def)
  ultimately show ?thesis using inv peers by (simp add: relay_inv_def)
qed

lemma read_data_inv:
  assumes inv: "relay_inv l whole r" and rem: "in_remaining (r_input r) = Some k"
    and kind: "frame_kind (in_header (r_input r)) = DATA"
  shows "returns (relay_inv l whole) (read_data now a k r)"
proof -
  let ?i = "frame_id (in_header (r_input r))"
  let ?space = "case open_peer r of None \<Rightarrow> CHUNK | Some p \<Rightarrow> room (p_input p)"
  have zero: "k = 0 \<Longrightarrow> relay_inv l whole (reset r)" using inv rem by (intro reset_inv) simp_all
  have step: "returns (relay_inv l whole) (read_data now (Gives j) k r)" if k: "k \<noteq> 0" "?space \<noteq> 0" for j
  proof -
    let ?bs = "read_bytes (min (min k CHUNK) ?space) j (r_incoming r)"
    let ?rest = "drop (length ?bs) (r_incoming r)"
    have src: "r_incoming r = ?bs @ ?rest" by (simp add: read_bytes_def min_def)
    have len: "length ?bs \<le> k" "length ?bs \<le> ?space" by (simp_all add: read_bytes_def)
    have finish: "relay_inv l whole (if k = length ?bs then reset r' else r')"
      if "relay_inv l whole r'" "in_remaining (r_input r') = Some (k - length ?bs)" for r'
      using that reset_inv [OF that(1)] by simp
    show ?thesis
    proof (cases "open_peer r")
      case None
      have "streams_ok l (view (r_peers r)) (r_streams r) (accepted (pieces r @ [(None, ?bs)]))"
        using inv by (simp add: relay_inv_def accepted_discard)
      from data_inv [OF inv rem len(1) kind src this] None k show ?thesis
        by (auto simp: read_data_def Let_def intro!: finish reset_inv)
    next
      case (Some p)
      note p = open_peer_Some [OF Some]
      have "length ?bs \<le> room (p_input p)" using len(2) Some by simp
      then obtain q where q: "push now ?bs (p_input p) = Some q"
        using push_room [of now ?bs "p_input p"] by fastforce
      note ok = push_ok [OF inv_member(2) [OF inv p] q]
      let ?ps = "peer_set ?i (p\<lparr>p_input := q\<rparr>) (r_peers r)"
      have "streams_ok l (view_set ?i q (view (r_peers r))) ((r_streams r)[p_serial p := r_streams r ! p_serial p])
          (accepted (pieces r @ [(Some (p_serial p), ?bs)]))"
        using inv ok inv_member(3) [OF inv p]
        by (intro streams_changed [OF _ view_member [OF p]]) (auto simp: relay_inv_def accepted_append)
      then have "streams_ok l (view ?ps) (r_streams r) (accepted (pieces r @ [(Some (p_serial p), ?bs)]))"
        by (simp add: view_peer_queue [OF p inv_distinct [OF inv]])
      from data_inv [OF inv rem len(1) kind src this] Some k q show ?thesis
        by (auto simp: read_data_def Let_def intro!: finish reset_inv)
    qed
  qed
  show ?thesis
  proof (cases "k = 0 \<or> ?space = 0")
    case True
    with zero inv show ?thesis by (auto simp: read_data_def Let_def)
  next
    case False
    with step show ?thesis using inv by (cases a) (auto simp: read_data_def Let_def)
  qed
qed

lemma connect_Inr:
  "connect l now n a = Inr p \<Longrightarrow> p_serial p = n \<and> p_input p = queue_new (l_peer_bytes l) (l_chunks l)"
  by (auto simp: connect_def and_then_def split: sum.splits prod.splits)

lemma mset_view_insert:
  "mset (view (peer_insert i p ps)) = add_mset (i, p_serial p, p_input p) (mset (view ps))"
  by (simp add: view_def mset_peer_insert)

lemma length_view: "length (view ps) = length ps"
  by (simp add: view_def)

lemma opened_inv:
  assumes inv: "relay_inv l whole r" and new: "map_of (r_peers r) i = None" and room: "length (r_peers r) < l_peers l"
    and p: "p_serial p = length (r_streams r)" "p_input p = queue_new (l_peer_bytes l) (l_chunks l)"
  shows "relay_inv l whole (r\<lparr>r_peers := peer_insert i p (r_peers r),
           r_streams := r_streams r @ [\<lparr>st_delivered = [], st_read = []\<rparr>]\<rparr>)"
proof -
  have "i \<notin> fst ` set (view (r_peers r))"
    using new by (auto simp: view_def map_of_eq_None_iff image_image case_prod_unfold)
  with inv room p have *: "streams_ok l (view (peer_insert i p (r_peers r)))
      (r_streams r @ [\<lparr>st_delivered = [], st_read = []\<rparr>]) (accepted (pieces r))"
    by (intro streams_opened [of l "view (r_peers r)" _ _ i]) (auto simp: relay_inv_def mset_view_insert length_view)
  have "framed (r_out r) n = (if n < Suc (length (r_streams r))
      then st_read ((r_streams r @ [\<lparr>st_delivered = [], st_read = []\<rparr>]) ! n) else [])" for n
    using inv by (auto simp: relay_inv_def output_ok_def nth_append less_Suc_eq)
  moreover have "queue_ok (l_transport_bytes l) (l_chunks l) (r_output r)"
    "r_sent r @ content (r_output r) = concat (map (\<lambda>(_, k, i, d). encoded k i d) (r_out r))"
    using inv by (simp_all add: relay_inv_def output_ok_def)
  ultimately have "output_ok l (r\<lparr>r_peers := peer_insert i p (r_peers r), r_streams := r_streams r @ [\<lparr>st_delivered = [], st_read = []\<rparr>]\<rparr>)"
    unfolding output_ok_def by simp
  with * show ?thesis using inv by (simp add: relay_inv_def)
qed

lemma rejected_mark_inv:
  assumes "relay_inv l whole r"
  shows "relay_inv l whole (r\<lparr>r_input := (r_input r)\<lparr>in_rejected := b\<rparr>\<rparr>)"
  using assms by (simp add: relay_inv_def input_ok_def Let_def cong: option.case_cong)

lemma rejected_inv:
  assumes "relay_inv l whole r" "in_remaining (r_input r) = Some 0"
  shows "returns (relay_inv l whole)
     (if room (r_output r) < HEADER then Inr r
      else and_then (push_output now None CLOSE i [] r) (\<lambda>r. Inr (reset r)))"
proof (cases "room (r_output r) < HEADER")
  case False
  then have "HEADER \<le> room (r_output r)" by simp
  from push_close_ok [OF assms(1) this, of now None i]
  have "returns (relay_inv l whole) (and_then (push_output now None CLOSE i [] r) (\<lambda>r. Inr (reset r)))"
  proof (rule returns_bind, goal_cases)
    case (1 r')
    then have "relay_inv l whole r'" and r': "r' = r\<lparr>r_output := r_output r', r_out := r_out r'\<rparr>" by auto
    moreover have "in_remaining (r_input r') = Some 0" using assms(2) by (subst r') simp
    ultimately show ?case by (simp add: reset_inv)
  qed
  with False show ?thesis by simp
qed (use assms in simp)

lemma read_open_inv:
  assumes inv: "relay_inv l whole r" and rem: "in_remaining (r_input r) = Some 0"
  shows "returns (relay_inv l whole) (read_open l now conn r)"
proof -
  let ?i = "frame_id (in_header (r_input r))"
  let ?marked = "r\<lparr>r_input := (r_input r)\<lparr>in_rejected := True\<rparr>\<rparr>"
  have marked: "relay_inv l whole ?marked" "in_remaining (r_input ?marked) = Some 0"
    using rejected_mark_inv [OF inv] rem by simp_all
  note rejected = rejected_inv [OF inv rem] rejected_inv [OF marked]
  have opened: "relay_inv l whole (reset (r\<lparr>r_peers := peer_insert ?i p (r_peers r),
                                     r_streams := r_streams r @ [\<lparr>st_delivered = [], st_read = []\<rparr>]\<rparr>))"
    if "map_of (r_peers r) ?i = None" "length (r_peers r) < l_peers l"
      "connect l now (length (r_streams r)) conn = Inr p" for p
    using that rem connect_Inr [OF that(3)] by (intro reset_inv opened_inv inv) simp_all
  show ?thesis
  proof (cases "in_rejected (r_input r)")
    case True
    then show ?thesis using rejected(1) by (simp add: read_open_def Let_def)
  next
    case False
    then show ?thesis
      using rejected(2) opened
      by (cases "connect l now (length (r_streams r)) conn"; cases "map_of (r_peers r) ?i")
        (simp_all add: read_open_def Let_def)
  qed
qed

lemma read_close_inv:
  assumes inv: "relay_inv l whole r" and rem: "in_remaining (r_input r) = Some 0"
  shows "relay_inv l whole (read_close r)"
  unfolding read_close_def Let_def
  using inv rem by (auto intro!: reset_inv set_flags_inv split: option.split)

lemma read_frame_inv:
  assumes inv: "relay_inv l whole r" and len: "length (in_header (r_input r)) = HEADER"
  shows "returns (relay_inv l whole) (read_frame l now a conn r)"
proof -
  let ?h = "in_header (r_input r)"
  let ?k = "case in_remaining (r_input r) of None \<Rightarrow> frame_length ?h | Some n \<Rightarrow> n"
  let ?r = "r\<lparr>r_input := (r_input r)\<lparr>in_remaining := Some ?k\<rparr>\<rparr>"
  show ?thesis
  proof (cases "MAX_FRAME < ?k \<or> frame_kind ?h \<notin> {OPEN, DATA, CLOSE} \<or> (frame_kind ?h \<noteq> DATA \<and> ?k \<noteq> 0)")
    case True
    then show ?thesis by (simp add: read_frame_def Let_def)
  next
    case False
    have inv': "relay_inv l whole ?r"
      using inv len False by (auto simp: relay_inv_def input_ok_def Let_def split: option.splits)
    have rem: "in_remaining (r_input ?r) = Some ?k" by simp
    consider "frame_kind ?h = OPEN" "?k = 0" | "frame_kind ?h = CLOSE" "?k = 0" | "frame_kind ?h = DATA"
      using False by (auto simp: OPEN_def DATA_def CLOSE_def)
    then show ?thesis
    proof cases
      case 1
      with False inv' read_open_inv [OF inv'] show ?thesis by (simp add: read_frame_def Let_def)
    next
      case 2
      with False inv' read_close_inv [OF inv'] show ?thesis
        by (simp add: read_frame_def Let_def OPEN_def CLOSE_def)
    next
      case 3
      with False read_data_inv [OF inv' rem] show ?thesis
        by (simp add: read_frame_def Let_def OPEN_def CLOSE_def DATA_def)
    qed
  qed
qed

lemma input_read_inv:
  assumes "relay_inv l whole r"
  shows "returns (\<lambda>(b, r'). relay_inv l whole r' \<and> (\<not> b \<longrightarrow> r_incoming r' = [] \<and> in_header (r_input r') = []))
           (input_read l now a1 a2 conn r)"
  unfolding input_read_def
proof (rule returns_bind [OF read_header_inv [OF assms]], goal_cases)
  case (1 x)
  obtain b r1 where x: "x = (b, r1)" by (cases x)
  show ?case
  proof (cases b)
    case None
    with 1 x have r1: "relay_inv l whole r1" "length (in_header (r_input r1)) = HEADER" by auto
    have "returns (\<lambda>(b, r'). relay_inv l whole r' \<and> (\<not> b \<longrightarrow> r_incoming r' = [] \<and> in_header (r_input r') = []))
        (and_then (read_frame l now a2 conn r1) (\<lambda>r2. Inr (True, r2)))"
      by (rule returns_bind [OF read_frame_inv [OF r1]]) simp
    with None x show ?thesis by simp
  qed (use 1 x in auto)
qed

subsection \<open>A pass of the loop\<close>

lemma retry_peers_view: "retry_peers now conns ps = Inr ps' \<Longrightarrow> view ps' = view ps"
proof (induction ps arbitrary: ps')
  case (Cons x ps)
  obtain i p where x: "x = (i, p)" by (cases x)
  from Cons.prems obtain p' ps2 where p': "ps' = (i, p') # ps2" "retry_peers now conns ps = Inr ps2"
      "p_serial p' = p_serial p" "p_input p' = p_input p"
    unfolding x
    by (cases "p_retry_at p"; cases "retry_peers now conns ps"; cases "connect_state now (conns i)")
      (auto simp: and_then_def split: if_splits)
  with Cons.IH [OF p'(2)] x show ?case by (simp add: view_def)
qed simp

lemma removed_inv:
  assumes inv: "relay_inv l whole r" and p: "map_of (r_peers r) i = Some p" and empty: "queue_empty (p_input p)"
  shows "relay_inv l whole (r\<lparr>r_peers := peer_remove i (r_peers r)\<rparr>)"
proof -
  have "content q = []" if "(i, n, q) \<in> set (view (r_peers r))" for n q
  proof -
    have "distinct (map fst (view (r_peers r)))" using inv_distinct [OF inv] by (simp add: fst_view)
    from key_unique [OF this view_member [OF p] that] have "q = p_input p" by simp
    with empty_content [OF inv_member(2) [OF inv p]] empty show ?thesis by simp
  qed
  then have "streams_ok l (view (peer_remove i (r_peers r))) (r_streams r) (accepted (pieces r))"
    unfolding view_peer_remove using inv by (intro streams_removed) (auto simp: relay_inv_def)
  with inv show ?thesis by (simp add: relay_inv_def)
qed

text \<open>Only peers without queued bytes are named for retirement.\<close>

definition retirable :: "peers \<Rightarrow> 32 word list \<Rightarrow> bool" where
  "retirable ps is \<longleftrightarrow>
     distinct is \<and> (\<forall>i \<in> set is. \<exists>p. map_of ps i = Some p \<and> queue_empty (p_input p))"

lemma retirable_rest:
  assumes "retirable ps (i # is)"
  shows "retirable (peer_remove i ps) is"
proof -
  have "map_of (peer_remove i ps) j = map_of ps j" if "j \<noteq> i" for j
    using that unfolding peer_remove_def by (induction ps) auto
  with assms show ?thesis unfolding retirable_def by (metis distinct.simps(2) list.set_intros(2))
qed

lemma retired_retirable: "distinct (map fst ps) \<Longrightarrow> retirable ps (retired ps)"
  unfolding retirable_def retired_def by (auto simp: distinct_map_filter)

lemma retire_inv:
  assumes "relay_inv l whole r" "retirable (r_peers r) is"
  shows "returns (relay_inv l whole) (retire now is r)"
  using assms
proof (induction "is" arbitrary: r)
  case (Cons i "is")
  from Cons.prems(2) obtain p where p: "map_of (r_peers r) i = Some p" "queue_empty (p_input p)"
    unfolding retirable_def by auto
  note next_ok = Cons.IH [OF removed_inv]
  note rest = retirable_rest [OF Cons.prems(2)]
  show ?case
  proof (cases "p_guest_closed p \<or> room (r_output r) < HEADER")
    case True
    with p Cons.prems(1) next_ok [OF Cons.prems(1) p] rest show ?thesis by auto
  next
    case False
    then have "HEADER \<le> room (r_output r)" by simp
    from push_close_ok [OF Cons.prems(1) this, of now "Some (p_serial p)" i]
    have "returns (relay_inv l whole) (and_then (push_output now (Some (p_serial p)) CLOSE i [] r)
            (\<lambda>r. retire now is (r\<lparr>r_peers := peer_remove i (r_peers r)\<rparr>)))"
    proof (rule returns_bind, goal_cases)
      case (1 r')
      then have inv: "relay_inv l whole r'" and "r' = r\<lparr>r_output := r_output r', r_out := r_out r'\<rparr>" by auto
      then have same: "r_peers r' = r_peers r" by (metis relay.ext_inject relay.surjective relay.update_convs(2,11))
      show ?case using next_ok [OF inv, of i p] p rest by (simp add: same)
    qed
    with False p show ?thesis by simp
  qed
qed simp

lemma deliver_inv:
  assumes inv: "relay_inv l whole r" and p: "map_of (r_peers r) i = Some p"
  shows "returns (relay_inv l whole) (deliver ans i p r)"
proof (cases "queue_write ans (p_input p)")
  case (Inr x)
  obtain bs q where x: "x = (bs, q)" by (cases x)
  note ok = write_ok [OF inv_member(2) [OF inv p] Inr [unfolded x]]
  let ?st = "r_streams r ! p_serial p"
  let ?st' = "?st\<lparr>st_delivered := st_delivered ?st @ bs\<rparr>"
  let ?r = "r\<lparr>r_peers := peer_set i (p\<lparr>p_input := q\<rparr>) (r_peers r), r_streams := (r_streams r)[p_serial p := ?st']\<rparr>"
  have "streams_ok l (view_set i q (view (r_peers r))) ((r_streams r)[p_serial p := ?st']) (accepted (pieces r))"
    using inv ok inv_member(3) [OF inv p]
    by (intro streams_changed [OF _ view_member [OF p]]) (auto simp: relay_inv_def)
  moreover have "output_ok l ?r"
    using inv inv_member(1) [OF inv p] unfolding relay_inv_def output_ok_def by (simp add: nth_list_update)
  ultimately have "relay_inv l whole ?r"
    using inv by (simp add: relay_inv_def view_peer_queue [OF p inv_distinct [OF inv]])
  with Inr x show ?thesis by (simp add: deliver_def Let_def)
qed (simp add: deliver_def)

lemma collect_inv:
  assumes inv: "relay_inv l whole r" and p: "map_of (r_peers r) i = Some p" and room: "HEADER < room (r_output r)"
  shows "returns (relay_inv l whole) (collect now ans i p r)"
proof (cases ans)
  case (PeerGives bs)
  let ?data = "take (min CHUNK (room (r_output r) - HEADER)) bs"
  let ?st = "r_streams r ! p_serial p"
  let ?st' = "?st\<lparr>st_read := st_read ?st @ ?data\<rparr>"
  let ?r = "r\<lparr>r_streams := (r_streams r)[p_serial p := ?st']\<rparr>"
  show ?thesis
  proof (cases "?data = []")
    case True
    with inv p PeerGives show ?thesis by (auto simp: collect_def Let_def intro!: set_flags_inv)
  next
    case False
    have queue: "queue_ok (l_transport_bytes l) (l_chunks l) (r_output r)"
      and sent: "r_sent r @ content (r_output r) = concat (map (\<lambda>(_, k, i, d). encoded k i d) (r_out r))"
      and fr: "\<And>n. framed (r_out r) n = (if n < length (r_streams r) then st_read (r_streams r ! n) else [])"
      using inv by (simp_all add: relay_inv_def output_ok_def)
    have "framed (r_out ?r) n @ (if Some (p_serial p) = Some n then ?data else []) =
        (if n < length (r_streams ?r) then st_read (r_streams ?r ! n) else [])" for n
      using inv_member(1) [OF inv p] by (simp add: fr nth_list_update)
    moreover have "HEADER + length ?data \<le> room (r_output r)" using room by simp
    ultimately have out: "returns (\<lambda>r'. output_ok l r' \<and> r' = ?r\<lparr>r_output := r_output r', r_out := r_out r'\<rparr>)
        (push_output now (Some (p_serial p)) DATA i ?data ?r)"
      using queue sent by (intro push_output_ok) simp_all
    have "streams_ok l (view_set i (p_input p) (view (r_peers r))) ((r_streams r)[p_serial p := ?st']) (accepted (pieces r))"
      using inv inv_member(2,3) [OF inv p]
      by (intro streams_changed [OF _ view_member [OF p]]) (auto simp: relay_inv_def)
    moreover have "view_set i (p_input p) (view (r_peers r)) = view (r_peers r)"
      using view_peer_queue [OF p inv_distinct [OF inv], of "p_input p"] view_peer_set [OF p inv_distinct [OF inv]] by simp
    ultimately have streams: "streams_ok l (view (r_peers r)) (r_streams ?r) (accepted (pieces r))" by simp
    have "relay_inv l whole r'" if "output_ok l r'" "r' = ?r\<lparr>r_output := a, r_out := b\<rparr>" for r' a b
      using inv that streams by (simp add: relay_inv_def)
    with out have "returns (relay_inv l whole) (push_output now (Some (p_serial p)) DATA i ?data ?r)"
      unfolding returns_def by blast
    with False PeerGives show ?thesis by (simp add: collect_def Let_def del: take_eq_Nil)
  qed
qed (use inv in \<open>simp_all add: collect_def\<close>)

lemma service_peer_inv:
  assumes inv: "relay_inv l whole r"
  shows "returns (relay_inv l whole) (service_peer now ob i r)"
proof (cases "map_of (r_peers r) i")
  case (Some p)
  have read: "returns (relay_inv l whole)
     (case map_of (r_peers r) i of None \<Rightarrow> Inr r
      | Some p \<Rightarrow> if b p r \<and> HEADER < room (r_output r) then collect now (po_read ob) i p r else Inr r)"
    if "relay_inv l whole r" for b r
    using that collect_inv [OF that] by (auto split: option.split)
  have served: "returns (relay_inv l whole)
     (and_then (if po_out ob then deliver (po_write ob) i p r else Inr r) (\<lambda>r.
        case map_of (r_peers r) i of None \<Rightarrow> Inr r
        | Some p \<Rightarrow> if (po_in ob \<or> po_hup ob \<or> po_err ob) \<and> \<not> r_eof r \<and> \<not> p_host_eof p \<and> \<not> p_guest_closed p
                        \<and> HEADER < room (r_output r)
                     then collect now (po_read ob) i p r else Inr r))"
    using deliver_inv [OF inv Some] inv
    by (intro returns_bind [where P = "relay_inv l whole"] read [unfolded conj_assoc]) (auto split: option.split intro: collect_inv)
  show ?thesis
    using inv Some served set_flags_inv [OF inv Some, of "p\<lparr>p_connecting := False\<rparr>"]
    by (auto simp: service_peer_def split: option.split)
qed (use inv in \<open>simp add: service_peer_def\<close>)

lemma service_peers_inv:
  "relay_inv l whole r \<Longrightarrow> returns (relay_inv l whole) (service_peers now is r)"
proof (induction "is" arbitrary: r)
  case (Cons x "is")
  obtain i ob where x: "x = (i, ob)" by (cases x)
  show ?case
    unfolding x service_peers.simps
    by (rule returns_bind [OF service_peer_inv [OF Cons.prems]]) (rule Cons.IH)
qed simp

text \<open>Only reads of the transport take bytes from it, and only the loop itself notes its end.\<close>

definition same_input :: "relay \<Rightarrow> relay \<Rightarrow> bool" where
  "same_input r r' \<longleftrightarrow> r_eof r' = r_eof r \<and> r_incoming r' = r_incoming r \<and> r_input r' = r_input r"

lemma push_output_same: "push_output now s k i d r = Inr r' \<Longrightarrow> same_input r r'"
  by (auto simp: push_output_def same_input_def split: option.splits)

lemma retire_same: "retire now is r = Inr r' \<Longrightarrow> same_input r r'"
proof (induction "is" arbitrary: r)
  case (Cons i "is")
  show ?case
  proof (cases "map_of (r_peers r) i")
    case (Some p)
    from Cons.prems Cons.IH Some show ?thesis
      by (auto simp: and_then_def same_input_def dest!: push_output_same split: if_splits sum.splits)
  qed (use Cons.prems in simp)
qed (simp add: same_input_def)

lemma service_peer_same: "service_peer now ob i r = Inr r' \<Longrightarrow> same_input r r'"
  by (auto simp: service_peer_def deliver_def collect_def Let_def and_then_def same_input_def
      dest!: push_output_same split: option.splits if_splits sum.splits peer_read.splits)

lemma service_peers_same: "service_peers now is r = Inr r' \<Longrightarrow> same_input r r'"
proof (induction "is" arbitrary: r)
  case (Cons x "is")
  from Cons.prems obtain i ob r1 where "service_peer now ob i r = Inr r1" "service_peers now is r1 = Inr r'"
    by (cases x) (auto simp: and_then_def split: sum.splits)
  with Cons.IH [of r1] service_peer_same [of now ob i r r1] show ?case by (simp add: same_input_def)
qed (simp add: same_input_def)

lemma reset_eof: "r_eof (reset r) = r_eof r" by (simp add: reset_def)

lemma read_header_eof: "read_header now a r = Inr (b, r') \<Longrightarrow> r_eof r' = r_eof r"
  by (auto simp: read_header_def Let_def split: if_splits read_answer.splits)

lemma push_output_eof: "push_output now s k i d r = Inr r' \<Longrightarrow> r_eof r' = r_eof r"
  by (drule push_output_same) (simp add: same_input_def)

lemma read_open_eof: "read_open l now conn r = Inr r' \<Longrightarrow> r_eof r' = r_eof r"
  by (auto simp: read_open_def Let_def and_then_def reset_eof dest!: push_output_eof
      split: if_splits sum.splits)

lemma read_data_eof: "read_data now a k r = Inr r' \<Longrightarrow> r_eof r' = r_eof r"
  by (auto simp: read_data_def Let_def and_then_def reset_eof
      split: if_splits sum.splits option.splits read_answer.splits)

lemma input_read_eof: "input_read l now a1 a2 conn r = Inr (b, r') \<Longrightarrow> r_eof r' = r_eof r"
  by (auto simp: input_read_def read_frame_def read_close_def Let_def and_then_def reset_eof
      dest!: read_header_eof read_open_eof read_data_eof split: if_splits sum.splits option.splits)

definition pass_inv :: "limits \<Rightarrow> bytes \<Rightarrow> relay \<Rightarrow> bool" where
  "pass_inv l whole r \<longleftrightarrow>
     relay_inv l whole r \<and> (r_eof r \<longrightarrow> r_incoming r = [] \<and> in_header (r_input r) = [])"

lemma pass_inv_same: "relay_inv l whole r' \<Longrightarrow> same_input r r' \<Longrightarrow> pass_inv l whole r \<Longrightarrow> pass_inv l whole r'"
  by (simp add: pass_inv_def same_input_def)

lemma returns_and: "returns P m \<Longrightarrow> (\<And>x. m = Inr x \<Longrightarrow> Q x) \<Longrightarrow> returns (\<lambda>x. P x \<and> Q x) m"
  by (simp add: returns_def)

lemma returns_mono: "returns P m \<Longrightarrow> (\<And>x. P x \<Longrightarrow> Q x) \<Longrightarrow> returns Q m"
  by (simp add: returns_def)

lemma input_read_pass:
  assumes "relay_inv l whole r" "\<not> r_eof r"
  shows "returns (\<lambda>(b, r'). pass_inv l whole r' \<and> pass_inv l whole (if b then r' else r'\<lparr>r_eof := True\<rparr>))
           (input_read l now a1 a2 conn r)"
proof -
  have "returns (\<lambda>x. (case x of (b, r') \<Rightarrow>
          relay_inv l whole r' \<and> (\<not> b \<longrightarrow> r_incoming r' = [] \<and> in_header (r_input r') = []))
          \<and> \<not> r_eof (snd x)) (input_read l now a1 a2 conn r)"
    using assms by (intro returns_and input_read_inv) (auto dest!: input_read_eof)
  then show ?thesis
    by (rule returns_mono) (auto simp: pass_inv_def relay_inv_def)
qed

lemma before_poll_inv:
  assumes "pass_inv l whole r"
  shows "returns (\<lambda>(f, r'). pass_inv l whole r' \<and> f = drained r') (before_poll l ob r)"
proof (cases "retry_peers (ob_now ob) (ob_retry ob) (r_peers r)")
  case (Inr ps)
  let ?r = "r\<lparr>r_peers := ps\<rparr>"
  have r: "pass_inv l whole ?r"
    using assms same_view_inv [OF _ retry_peers_view [OF Inr]] by (simp add: pass_inv_def)
  have waiting: "returns (pass_inv l whole)
      (if \<not> r_eof ?r \<and> length (in_header (r_input ?r)) = HEADER \<and> readable (r_peers ?r) (r_output ?r) (r_input ?r)
       then and_then (input_read l (ob_now ob) ReadAgain (ob_waiting_read ob) (ob_waiting_connect ob) ?r) (\<lambda>(_, r). Inr r)
       else Inr ?r)"
    using r by (auto simp: pass_inv_def intro!: returns_bind [OF input_read_pass])
  have closing: "returns (\<lambda>(f, r'). pass_inv l whole r' \<and> f = drained r')
      (and_then (retire (ob_now ob) (retired (r_peers r2)) r2) (\<lambda>r. Inr (drained r, r)))"
    if r2: "pass_inv l whole r2" for r2
  proof -
    have inv: "relay_inv l whole r2" using r2 by (simp add: pass_inv_def)
    have "returns (\<lambda>r'. relay_inv l whole r' \<and> same_input r2 r') (retire (ob_now ob) (retired (r_peers r2)) r2)"
      by (intro returns_and retire_inv inv retired_retirable inv_distinct [OF inv] retire_same)
    then show ?thesis by (rule returns_bind) (simp add: pass_inv_same [OF _ _ r2])
  qed
  have "returns (\<lambda>(f, r'). pass_inv l whole r' \<and> f = drained r')
      (if timed_out l (ob_now ob) r2 then Inl (RelayError ''relay channel exceeded its queue/frame deadline'')
       else and_then (retire (ob_now ob) (retired (r_peers r2)) r2) (\<lambda>r. Inr (drained r, r)))"
    if "pass_inv l whole r2" for r2
    using closing [OF that] by simp
  from returns_bind [OF waiting this] Inr show ?thesis by (simp add: before_poll_def Let_def)
qed (simp add: before_poll_def)

lemma sent_inv:
  assumes inv: "relay_inv l whole r" and w: "queue_write ans (r_output r) = Inr (bs, q)"
  shows "relay_inv l whole (r\<lparr>r_output := q, r_sent := r_sent r @ bs\<rparr>)"
proof -
  have "queue_ok (l_transport_bytes l) (l_chunks l) (r_output r)"
    using inv by (simp add: relay_inv_def output_ok_def)
  from write_ok [OF this w] inv show ?thesis by (auto simp: relay_inv_def output_ok_def)
qed

lemma after_poll_inv:
  assumes "pass_inv l whole r0"
  shows "returns (pass_inv l whole) (after_poll l ob r0)"
proof -
  define ids where "ids = rotated_ids r0"
  define r where "r = r0\<lparr>r_rotation := (if ids = [] then r_rotation r0 else r_rotation r0 + 1)\<rparr>"
  have r: "pass_inv l whole r" and eof: "r_eof r = r_eof r0"
    using assms by (simp_all add: pass_inv_def relay_inv_def r_def)
  have reading: "returns (pass_inv l whole)
      (if ob_transport ob \<and> \<not> r_eof r0 then
         and_then (input_read l (ob_later ob) (ob_read1 ob) (ob_read2 ob) (ob_connect ob) r)
           (\<lambda>(b, r). Inr (if b then r else r\<lparr>r_eof := True\<rparr>))
       else Inr r)"
    using r eof by (auto simp: pass_inv_def intro!: returns_bind [OF input_read_pass])
  have writing: "returns (pass_inv l whole)
      (if b then (case queue_write (ob_write ob) (r_output r) of
           Inl e \<Rightarrow> Inl (RelayError e) | Inr (bs, q) \<Rightarrow> Inr (r\<lparr>r_output := q, r_sent := r_sent r @ bs\<rparr>))
       else Inr r)" if "pass_inv l whole r" for b r
    using that sent_inv [of l whole r] by (auto simp: pass_inv_def split: sum.split)
  have serving: "returns (pass_inv l whole) (service_peers (ob_later ob) is r)" if r: "pass_inv l whole r" for "is" r
  proof -
    have "returns (\<lambda>r'. relay_inv l whole r' \<and> same_input r r') (service_peers (ob_later ob) is r)"
      using r by (intro returns_and service_peers_inv service_peers_same) (simp_all add: pass_inv_def)
    then show ?thesis by (rule returns_mono) (blast intro: pass_inv_same r)
  qed
  have rest: "returns (pass_inv l whole)
      (if c then Inl (RelayError e)
       else and_then
         (if b then (case queue_write (ob_write ob) (r_output r) of
             Inl e \<Rightarrow> Inl (RelayError e) | Inr (bs, q) \<Rightarrow> Inr (r\<lparr>r_output := q, r_sent := r_sent r @ bs\<rparr>))
          else Inr r)
         (service_peers (ob_later ob) is))" if "pass_inv l whole r" for b c e "is" r
    using returns_bind [OF writing [OF that] serving] by simp
  note polled = returns_bind [OF reading rest]
  show ?thesis
    unfolding after_poll_def Let_def ids_def [symmetric] r_def [symmetric]
    using r polled by (cases "ob_poll ob") (simp_all del: split_paired_All)
qed

lemma bridge_loop_inv:
  "pass_inv l whole r \<Longrightarrow> returns (\<lambda>(f, r'). pass_inv l whole r' \<and> (f \<longrightarrow> drained r')) (bridge_loop l obs r)"
proof (induction obs arbitrary: r)
  case (Cons ob obs)
  show ?case
    unfolding bridge_loop.simps
  proof (rule returns_bind [OF before_poll_inv [OF Cons.prems]], goal_cases)
    case (1 x)
    then obtain f r' where x: "x = (f, r')" "pass_inv l whole r'" "f = drained r'" by (cases x) auto
    with returns_bind [OF after_poll_inv [OF x(2)] Cons.IH] show ?case by simp
  qed
qed simp

lemma bridge_inv:
  "returns (\<lambda>(f, r). pass_inv l incoming r \<and> (f \<longrightarrow> drained r)) (bridge_with_limits l obs incoming)"
proof -
  have "pass_inv l incoming (relay_init l incoming)"
    by (simp add: pass_inv_def relay_inv_def relay_init_def streams_ok_def output_ok_def input_ok_def view_def
        pieces_def accepted_def framed_def input_default_def Let_def)
  then show ?thesis by (simp add: bridge_with_limits_def bridge_loop_inv)
qed


subsection \<open>The end of the stream\<close>

lemma drained_streams:
  assumes "relay_inv l whole r" "drained r" "n < length (r_streams r)"
  shows "st_delivered (r_streams r ! n) = accepted (pieces r) n"
proof (cases "n \<in> set (serials (view (r_peers r)))")
  case True
  then obtain i q where q: "(i, n, q) \<in> set (view (r_peers r))" by auto
  then obtain p where "(i, p) \<in> set (r_peers r)" "q = p_input p" by (auto simp: view_def)
  with assms(2) have "queue_empty q" by (auto simp: drained_def list_all_iff)
  with assms(1) q show ?thesis unfolding relay_inv_def streams_ok_def by (fastforce simp: empty_content)
next
  case False
  with assms show ?thesis unfolding relay_inv_def streams_ok_def by simp
qed

text \<open>
  When the relay returns at the end of the transport, nothing that it accepted is lost: the
  bytes that arrived are exactly a sequence of whole frames, every stream's peer has been given
  exactly the data accepted for it, every frame has been written to the transport, and its data
  frames for each stream are exactly the bytes read from that peer.\<close>

theorem relay_drains:
  assumes "bridge_with_limits l obs incoming = Inr (True, r)"
  shows "incoming = concat (map (\<lambda>(h, ps). h @ concat (map snd ps)) (r_in r)) \<and> list_all frame_ok (r_in r)
    \<and> map st_delivered (r_streams r) = map (accepted (concat (map snd (r_in r)))) [0..<length (r_streams r)]
    \<and> r_sent r = concat (map (\<lambda>(_, k, i, d). encoded k i d) (r_out r))
    \<and> map st_read (r_streams r) = map (framed (r_out r)) [0..<length (r_streams r)]"
proof -
  have inv: "relay_inv l incoming r" and end_: "r_eof r \<Longrightarrow> r_incoming r = [] \<and> in_header (r_input r) = []"
    and dr: "drained r"
    using bridge_inv [of l incoming obs] assms by (auto simp: returns_def pass_inv_def)
  then have e: "r_incoming r = []" "in_header (r_input r) = []" by (auto simp: drained_def)
  with inv have part: "r_partial r = []"
    by (auto simp: relay_inv_def input_ok_def Let_def HEADER_def split: option.splits)
  have out: "content (r_output r) = []"
    using inv dr empty_content [of "l_transport_bytes l" "l_chunks l" "r_output r"]
    by (simp add: relay_inv_def output_ok_def drained_def)
  have pieces: "pieces r = concat (map snd (r_in r))" by (simp add: pieces_def part)
  have "map st_delivered (r_streams r) = map (accepted (concat (map snd (r_in r)))) [0..<length (r_streams r)]"
    using drained_streams [OF inv dr] by (intro nth_equalityI) (simp_all add: pieces)
  moreover have "map st_read (r_streams r) = map (framed (r_out r)) [0..<length (r_streams r)]"
    using inv by (intro nth_equalityI) (simp_all add: relay_inv_def output_ok_def)
  ultimately show ?thesis
    using inv e part out by (auto simp: relay_inv_def input_ok_def output_ok_def Let_def)
qed

subsection \<open>Sleeping until the next deadline\<close>

lemma fold_min_le: "fold min ts (t::nat) \<le> now \<longleftrightarrow> t \<le> now \<or> (\<exists>u \<in> set ts. u \<le> now)"
  by (induction ts arbitrary: t) (auto simp: min_le_iff_disj)

definition retry_due :: "instant \<Rightarrow> relay \<Rightarrow> bool" where
  "retry_due now r \<longleftrightarrow> list_ex (\<lambda>(_, p). case p_retry_at p of None \<Rightarrow> False | Some t \<Rightarrow> t \<le> now) (r_peers r)"

lemma peer_deadlines_due:
  "(\<exists>u \<in> set (peer_deadlines d p). u \<le> now) \<longleftrightarrow>
     peer_expired d now p \<or> (case p_retry_at p of None \<Rightarrow> False | Some t \<Rightarrow> t \<le> now)"
  by (auto simp: peer_deadlines_def peer_expired_def expired_def split: list.splits option.splits)

text \<open>
  The relay sleeps exactly as long as it may: the time it computes for the poll is reached
  exactly when a queue, a frame, or a connection has passed its deadline or a connection is due
  to be tried again, and if there is no such time then none of these will ever happen by waiting.\<close>

theorem relay_sleep_exact:
  "(case next_deadline l r of None \<Rightarrow> False | Some t \<Rightarrow> t \<le> now) \<longleftrightarrow> timed_out l now r \<or> retry_due now r"
proof -
  define ts where "ts = (case in_started (r_input r) of None \<Rightarrow> [] | Some t \<Rightarrow> [t + l_deadline l])
      @ (case q_chunks (r_output r) of [] \<Rightarrow> [] | c # _ \<Rightarrow> [ch_queued c + l_deadline l])
      @ concat (map (\<lambda>(_, p). peer_deadlines (l_deadline l) p) (r_peers r))"
  have "next_deadline l r = (case ts of [] \<Rightarrow> None | t # ts \<Rightarrow> Some (fold min ts t))"
    unfolding next_deadline_def Let_def ts_def [symmetric] by (rule refl)
  then have "(case next_deadline l r of None \<Rightarrow> False | Some t \<Rightarrow> t \<le> now) \<longleftrightarrow> (\<exists>u \<in> set ts. u \<le> now)"
    by (cases ts) (simp_all add: fold_min_le)
  also have "\<dots> \<longleftrightarrow> (case in_started (r_input r) of None \<Rightarrow> False | Some t \<Rightarrow> t + l_deadline l \<le> now)
      \<or> expired (l_deadline l) now (r_output r)
      \<or> (\<exists>(_, p) \<in> set (r_peers r). \<exists>u \<in> set (peer_deadlines (l_deadline l) p). u \<le> now)"
    by (auto simp: ts_def expired_def split: option.splits list.splits)
  also have "\<dots> \<longleftrightarrow> timed_out l now r \<or> retry_due now r"
    unfolding peer_deadlines_due timed_out_def retry_due_def list_ex_iff case_prod_unfold by blast
  finally show ?thesis .
qed

subsection \<open>Frames\<close>

lemma be_roundtrip: "from_be_bytes (to_be_bytes w) = w"
proof (rule bit_word_eqI, goal_cases)
  case (1 n)
  then consider "n < 8" | "8 \<le> n" "n < 16" | "16 \<le> n" "n < 24" | "24 \<le> n" "n < 32" by fastforce
  then show ?case
    by cases (auto simp: from_be_bytes_def to_be_bytes_def bit_or_iff bit_push_bit_iff bit_ucast_iff bit_drop_bit_eq)
qed

text \<open>The header of a frame reads back as what it was made from: the kind, the stream and the
  length of the data that follows, for every frame the relay makes (at most a chunk of data).\<close>

lemma frame_roundtrip:
  assumes "length data \<le> CHUNK"
  shows "frame_kind (take HEADER (encoded kind i data)) = kind \<and> frame_id (take HEADER (encoded kind i data)) = i
    \<and> frame_length (take HEADER (encoded kind i data)) = length data
    \<and> drop HEADER (encoded kind i data) = data"
proof -
  have four: "length (to_be_bytes w) = 4" for w by (simp add: to_be_bytes_def)
  let ?h = "kind # to_be_bytes i @ to_be_bytes (of_nat (length data))"
  have e: "encoded kind i data = ?h @ data" by (simp add: encoded_def)
  have "take HEADER (encoded kind i data) = ?h" "drop HEADER (encoded kind i data) = data"
    unfolding e HEADER_def by (simp_all add: four)
  moreover have "take 4 (drop 5 ?h) = to_be_bytes (of_nat (length data))"
    by (simp add: four numeral_eq_Suc)
  moreover have "unat (of_nat (length data) :: 32 word) = length data"
    using assms by (simp add: unsigned_of_nat take_bit_nat_eq_self_iff CHUNK_def)
  ultimately show ?thesis
    by (simp add: frame_kind_def frame_id_def frame_length_def four be_roundtrip)
qed

subsection \<open>A concrete run\<close>

definition quiet_peer :: peer_obs where
  "quiet_peer = \<lparr>po_in = False, po_out = False, po_err = False, po_hup = False, po_error = None,
     po_write = WriteAgain, po_read = PeerAgain\<rparr>"

definition quiet_pass :: pass_obs where
  "quiet_pass = \<lparr>ob_now = 0, ob_later = 0, ob_retry = (\<lambda>_. Connected), ob_waiting_read = ReadAgain,
     ob_waiting_connect = Connected, ob_poll = Polled, ob_transport = False, ob_read1 = Gives 20,
     ob_read2 = Gives 20, ob_connect = Connected, ob_writer_broken = False, ob_writer = False,
     ob_write = WriteAgain, ob_peer = (\<lambda>_. quiet_peer)\<rparr>"

definition demo_limits :: limits where
  "demo_limits = \<lparr>l_peers = 2, l_peer_bytes = 32, l_transport_bytes = 32, l_chunks = 4, l_deadline = 10\<rparr>"

definition demo_run :: "relay_error + bool \<times> relay" where
  "demo_run = bridge_with_limits demo_limits
     [quiet_pass\<lparr>ob_transport := True\<rparr>, quiet_pass\<lparr>ob_transport := True\<rparr>,
      quiet_pass\<lparr>ob_peer := (\<lambda>_. quiet_peer\<lparr>po_in := True, po_out := True, po_write := Took 2, po_read := PeerGives [5]\<rparr>)\<rparr>,
      quiet_pass\<lparr>ob_writer := True, ob_write := Took 20\<rparr>, quiet_pass\<lparr>ob_transport := True\<rparr>, quiet_pass]
     [1, 0, 0, 0, 1, 0, 0, 0, 0, 2, 0, 0, 0, 1, 0, 0, 0, 2, 7, 8]"

lemma demo_finishes:
  "(case demo_run of Inl _ \<Rightarrow> None
    | Inr (f, r) \<Rightarrow> Some (f, r_sent r, map st_delivered (r_streams r), map st_read (r_streams r)))
   = Some (True, [2, 0, 0, 0, 1, 0, 0, 0, 1, 5], [[7, 8]], [[5]])"
  unfolding demo_run_def demo_limits_def quiet_pass_def quiet_peer_def
  by (simp add: bridge_with_limits_def relay_init_def before_poll_def after_poll_def input_default_def queue_new_def
      HEADER_def CHUNK_def MAX_FRAME_def OPEN_def DATA_def CLOSE_def readable_def input_read_def read_header_def
      read_bytes_def read_frame_def read_open_def read_data_def read_close_def open_peer_def frame_kind_def frame_id_def
      frame_length_def from_be_bytes_def to_be_bytes_def encoded_def connect_def connect_state_def reset_def
      timed_out_def expired_def peer_expired_def retired_def queue_empty_def drained_def rotated_ids_def reported_def
      wants_read_def wants_write_def service_peer_def deliver_def collect_def queue_write_def push_output_def push_def
      room_def peer_set_def Let_def)

theorem relay_drains_witness:
  "\<exists>r. demo_run = Inr (True, r) \<and> concat (map (\<lambda>(h, ps). h @ concat (map snd ps)) (r_in r)) =
       [1, 0, 0, 0, 1, 0, 0, 0, 0, 2, 0, 0, 0, 1, 0, 0, 0, 2, 7, 8]
     \<and> map (accepted (concat (map snd (r_in r)))) [0..<length (r_streams r)] = [[7, 8]]"
proof -
  obtain r where r: "demo_run = Inr (True, r)" "map st_delivered (r_streams r) = [[7, 8]]"
    using demo_finishes by (auto split: sum.splits prod.splits)
  from relay_drains [OF r(1) [unfolded demo_run_def]] r show ?thesis by auto
qed

subsection \<open>The handshake write and the poll timeout\<close>

text \<open>The timeout in milliseconds that a poll is given; \<open>-1\<close> is no timeout.\<close>

definition poll_timeout :: "instant \<Rightarrow> instant option \<Rightarrow> int" where
  "poll_timeout now deadline =
     (case deadline of
        None \<Rightarrow> - 1
      | Some t \<Rightarrow> int (min ((t - now + 999999) div 1000000) (2 ^ 31 - 1)))"

text \<open>
  \<open>write_before\<close>, with the clock, the answer to the write and the outcome of the poll of each
  round. The result is what was written, and the outcome (\<open>None\<close>: it is still waiting).
  \<open>PollInvalid\<close> stands for a descriptor that reports hangup, error or invalid.
\<close>

fun write_rounds ::
  "instant \<Rightarrow> (instant \<times> write_answer \<times> poll_answer) list \<Rightarrow> bytes \<Rightarrow> bytes \<times> (string + unit) option" where
  "write_rounds deadline obs [] = ([], Some (Inr ()))"
| "write_rounds deadline [] (b # bs) = ([], None)"
| "write_rounds deadline ((now, ans, polled) # obs) (b # bs) =
     (if deadline \<le> now then ([], Some (Inl ''timed out''))
      else case ans of
        Took k \<Rightarrow>
          (let n = min k (length (b # bs)) in
           if n = 0 then ([], Some (Inl ''write zero''))
           else (case write_rounds deadline obs (drop n (b # bs)) of
                   (written, res) \<Rightarrow> (take n (b # bs) @ written, res)))
      | WriteAgain \<Rightarrow>
          (case polled of
             PollFails e \<Rightarrow> ([], Some (Inl e))
           | PollInvalid \<Rightarrow> ([], Some (Inl ''broken pipe''))
           | PollInterrupted \<Rightarrow> write_rounds deadline obs (b # bs)
           | Polled \<Rightarrow> write_rounds deadline obs (b # bs))
      | WriteFails e \<Rightarrow> ([], Some (Inl e)))"

definition write_before ::
  "instant \<Rightarrow> duration \<Rightarrow> (instant \<times> write_answer \<times> poll_answer) list \<Rightarrow> bytes \<Rightarrow> bytes \<times> (string + unit) option" where
  "write_before now timeout obs bs = write_rounds (now + timeout) obs bs"

lemma write_rounds_exact:
  "write_rounds deadline obs bs = (written, res) \<Longrightarrow>
     prefix written bs \<and> (res = Some (Inr ()) \<longleftrightarrow> written = bs)"
proof (induction deadline obs bs arbitrary: written res rule: write_rounds.induct)
  case (3 deadline now ans polled obs b bs)
  show ?case
  proof (cases "deadline \<le> now")
    case False
    show ?thesis
    proof (cases ans)
      case (Took k)
      let ?n = "min k (length (b # bs))"
      show ?thesis
      proof (cases "?n = 0")
        case n: False
        obtain w res' where w: "write_rounds deadline obs (drop ?n (b # bs)) = (w, res')" by fastforce
        with "3.prems" False Took n have eq: "written = take ?n (b # bs) @ w" "res = res'"
          by (auto simp: Let_def split: if_splits)
        have whole: "b # bs = take ?n (b # bs) @ drop ?n (b # bs)" by (rule append_take_drop_id [symmetric])
        from "3.IH"(1) [OF False Took refl n w]
        show ?thesis unfolding eq by (metis append_take_drop_id same_append_eq same_prefix_prefix)
      qed (use "3.prems" False Took in \<open>auto simp: Let_def split: if_splits\<close>)
    next
      case WriteAgain
      with "3.prems" "3.IH"(2,3) [OF False WriteAgain] False show ?thesis by (cases polled) auto
    qed (use "3.prems" False in auto)
  qed (use "3.prems" in auto)
qed auto

text \<open>A handshake is reported as written exactly if all of it was, and in order otherwise.\<close>

corollary write_before_exact:
  "write_before now timeout obs bs = (written, res) \<Longrightarrow>
     prefix written bs \<and> (res = Some (Inr ()) \<longleftrightarrow> written = bs)"
  unfolding write_before_def by (rule write_rounds_exact)

text \<open>The poll does not end before the deadline by rounding, and does not oversleep it by a
  millisecond, unless the timeout is too long to be given.\<close>

lemma poll_timeout_covers:
  assumes "(t - now + 999999) div 1000000 \<le> 2 ^ 31 - 1"
  shows "t \<le> now + nat (poll_timeout now (Some t)) * 1000000"
    "now \<le> t \<Longrightarrow> now + nat (poll_timeout now (Some t)) * 1000000 < t + 1000000"
  using assms unfolding poll_timeout_def by (simp_all add: min_def)

end
