(* ===== verification/Launch_Control.thy ===== *)
theory Launch_Control
  imports Session_Lifecycle Session_Check
begin

text \<open>
  \<open>src/main.rs\<close>: how the event loop takes a profile from a request to a running session and
  back. A request starts a check in a worker thread, the checked profile gets a display, a second
  worker may have to start a display server, a third one launches the session, and only then it
  is active; a stop may arrive at any point. Managed displays are created and closed beside it.
  Every message of this protocol is one handler here, applied to the maps the event loop keeps,
  together with the active sessions, managed displays and the cleanup queue of
  \<open>Session_Lifecycle\<close>. The workers are tasks in flight: a task is what was spawned, and its reply
  is a message that can arrive once. What the panel shows is not modelled.
\<close>

subsection \<open>Choosing a display\<close>

datatype display_assignment = DefaultDisplay | Dedicated string

fun dash_parts :: "string \<Rightarrow> string \<Rightarrow> string list" where
  "dash_parts acc [] = [rev acc]"
| "dash_parts acc (c # s) = (if c = CHR ''-'' then rev acc # dash_parts [] s else dash_parts (c # acc) s)"

definition display_slot_slug :: "string \<Rightarrow> string" where
  "display_slot_slug v =
     (let slug = join ''-'' (filter (\<lambda>p. p \<noteq> [])
            (dash_parts [] (map (\<lambda>c. if is_ascii_alphanumeric c then to_lower c else CHR ''-'') v)))
      in if slug = [] then ''display'' else slug)"

text \<open>The characters of UTF-8 text: the bytes that do not continue one.\<close>

definition char_count :: "string \<Rightarrow> nat" where
  "char_count s = length (filter (\<lambda>c. (of_char c :: nat) div 64 \<noteq> 2) s)"

definition normalize_managed_display_slot :: "string \<Rightarrow> string + string" where
  "normalize_managed_display_slot v =
     (let v = trim v; slot = display_slot_slug v in
      if v = [] then Inl ''display name cannot be empty''
      else if 64 < char_count v then Inl ''display name cannot be longer than 64 characters''
      else if slot \<in> {''auto'', ''default'', ''dedicated''}
      then Inl ([CHR 0x27] @ slot @ [CHR 0x27] @ '' is a display policy keyword; choose a distinct managed display name'')
      else Inr slot)"

definition choose_display_assignment :: "container_session \<Rightarrow> bool \<Rightarrow> display_assignment" where
  "choose_display_assignment s default_in_use =
     (let requested = (case cs_display s of None \<Rightarrow> ''auto'' | Some d \<Rightarrow> trim d) in
      if is_rootless (cs_presentation s) then
        (let named = (if requested \<in> {[], ''auto'', ''default'', ''dedicated''} then cs_name s else requested)
         in Dedicated (''rootless-'' @ display_slot_slug named))
      else if requested \<in> {[], ''auto''} \<and> \<not> default_in_use then DefaultDisplay
      else if requested \<in> {[], ''auto'', ''dedicated''}
      then Dedicated (''session-'' @ display_slot_slug (cs_name s))
      else if requested = ''default'' then DefaultDisplay
      else Dedicated (display_slot_slug requested))"

fun assigned_slot :: "display_assignment \<Rightarrow> string" where
  "assigned_slot DefaultDisplay = ''default''"
| "assigned_slot (Dedicated slot) = slot"

type_synonym slots = "(profile_id \<times> string) list"

definition active_display_conflict_index ::
  "profile_id \<Rightarrow> container_session list \<Rightarrow> slots \<Rightarrow> bool \<Rightarrow> profile_id option" where
  "active_display_conflict_index i sessions active_slots default_busy =
     (case find (\<lambda>s. cs_id s = i) sessions of
        None \<Rightarrow> None
      | Some requested \<Rightarrow>
          (let default_in_use = default_busy \<or> list_ex (\<lambda>(j, slot). j \<noteq> i \<and> slot = ''default'') active_slots;
               slot = assigned_slot (choose_display_assignment requested default_in_use)
           in map_option fst (find (\<lambda>(j, s). j \<noteq> i \<and> s = slot) active_slots)))"

subsection \<open>The state of the event loop\<close>

record pending_operation =
  g_generation :: nat
  g_session :: container_session
  g_launch_requested :: bool
  g_cancelled :: bool
  g_reservation :: "runtime_reservation option"

text \<open>
  Worker threads in flight: the check of a session, the start of a dedicated display, the launch
  on a display (with the report of the check), the start of a managed display.
\<close>

datatype task =
  CheckTask profile_id nat container_session
| DisplayTask profile_id nat string
| LaunchTask profile_id nat container_session check_report string
| ManagedTask string nat

text \<open>
  \<open>lc_held\<close> are the reservations of active sessions and of resources in cleanup, \<open>lc_launched\<close> the
  \<open>launched_session\<close> of each active session, \<open>lc_resumes\<close> the resume messages in the channel. The
  last four fields record the past: results of checks, launches started, operations that a stop
  cancelled, operations that became active, and processes received.
\<close>

record control =
  lc_sl :: sl
  lc_checks :: "profile_id set"
  lc_ops :: "(profile_id \<times> pending_operation) list"
  lc_validated :: "(profile_id \<times> check_report) list"
  lc_displays :: slots
  lc_launches :: slots
  lc_workers :: "(profile_id \<times> display_worker) list"
  lc_managed :: "(string \<times> nat) list"
  lc_identities :: identity_table
  lc_held :: "(profile_id \<times> runtime_reservation) list"
  lc_launched :: "profile_id \<rightharpoonup> container_session"
  lc_sequence :: nat
  lc_display_sequence :: nat
  lc_tasks :: "task list"
  lc_resumes :: "(profile_id \<times> nat) list"
  lc_checked :: "(container_session \<times> check_report) list"
  lc_stopped :: "(profile_id \<times> nat) list"
  lc_started :: "(profile_id \<times> nat) list"
  lc_received :: "nat list"

text \<open>A \<open>HashMap\<close> is a list of pairs with distinct keys; its order carries no meaning.\<close>

definition hm_remove :: "'k \<Rightarrow> ('k \<times> 'v) list \<Rightarrow> ('k \<times> 'v) list" where
  "hm_remove k m = filter (\<lambda>(j, _). j \<noteq> k) m"

definition hm_insert :: "'k \<Rightarrow> 'v \<Rightarrow> ('k \<times> 'v) list \<Rightarrow> ('k \<times> 'v) list" where
  "hm_insert k v m = (k, v) # hm_remove k m"

abbreviation hm_contains :: "'k \<Rightarrow> ('k \<times> 'v) list \<Rightarrow> bool" where
  "hm_contains k m \<equiv> map_of m k \<noteq> None"

definition operation_of :: "pending_operation \<Rightarrow> operation" where
  "operation_of p =
     \<lparr>o_generation = g_generation p, o_session_id = cs_id (g_session p),
      o_launch_requested = g_launch_requested p, o_cancelled = g_cancelled p\<rparr>"

definition is_current :: "profile_id \<Rightarrow> nat \<Rightarrow> control \<Rightarrow> bool" where
  "is_current i generation c = current_operation (map_option operation_of \<circ> map_of (lc_ops c)) i generation"

definition profile_display_pending :: "string \<Rightarrow> slots \<Rightarrow> slots \<Rightarrow> bool" where
  "profile_display_pending slot displays launches = list_ex (\<lambda>(_, s). s = slot) (displays @ launches)"

definition complete_managed_attempt :: "string \<Rightarrow> nat \<Rightarrow> (string \<times> nat) list \<Rightarrow> bool \<times> (string \<times> nat) list" where
  "complete_managed_attempt slot generation m =
     (if map_of m slot \<noteq> Some generation then (False, m) else (True, hm_remove slot m))"

definition cleanup_session_busy :: "profile_id \<Rightarrow> control \<Rightarrow> bool" where
  "cleanup_session_busy i c = (case cleanup (sl_life (lc_sl c)) of None \<Rightarrow> False | Some q \<Rightarrow> session_busy i q)"

definition cleanup_display_busy :: "string \<Rightarrow> control \<Rightarrow> bool" where
  "cleanup_display_busy slot c = (case cleanup (sl_life (lc_sl c)) of None \<Rightarrow> False | Some q \<Rightarrow> display_busy slot q)"

abbreviation actives :: "control \<Rightarrow> active_session list" where
  "actives c \<equiv> sl_active (lc_sl c)"

abbreviation is_active :: "profile_id \<Rightarrow> control \<Rightarrow> bool" where
  "is_active i c \<equiv> list_ex (\<lambda>x. s_profile x = i) (actives c)"

definition active_slots :: "control \<Rightarrow> slots" where
  "active_slots c = map (\<lambda>x. (s_profile x, s_slot x)) (actives c)"

definition slot_in_use :: "string \<Rightarrow> control \<Rightarrow> bool" where
  "slot_in_use slot c = list_ex (\<lambda>x. s_slot x = slot) (actives c)"

definition slot_managed :: "string \<Rightarrow> control \<Rightarrow> bool" where
  "slot_managed slot c = list_ex (\<lambda>d. m_slot d = slot) (sl_displays (lc_sl c))"

subsection \<open>Operations\<close>

definition reserve_runtime ::
  "pending_operation \<Rightarrow> identity_table \<Rightarrow> reserve_error + pending_operation \<times> identity_table" where
  "reserve_runtime p t =
     (case g_reservation p of
        Some _ \<Rightarrow> Inr (p, t)
      | None \<Rightarrow>
          and_then (reserve_identity (cs_id (g_session p)) (g_generation p) (cs_runtime (g_session p))
                      (container_name (g_session p)) t)
            (\<lambda>(r, t). Inr (p\<lparr>g_reservation := Some r\<rparr>, t)))"

text \<open>Removing an operation drops what it holds.\<close>

definition drop_held :: "runtime_reservation option \<Rightarrow> identity_table \<Rightarrow> identity_table" where
  "drop_held r t = (case r of None \<Rightarrow> t | Some r \<Rightarrow> drop_reservation r t)"

definition remove_operation :: "profile_id \<Rightarrow> control \<Rightarrow> control" where
  "remove_operation i c =
     (case map_of (lc_ops c) i of
        None \<Rightarrow> c
      | Some p \<Rightarrow> c\<lparr>lc_ops := hm_remove i (lc_ops c), lc_identities := drop_held (g_reservation p) (lc_identities c)\<rparr>)"

text \<open>Moving an operation out of the map keeps its reservation, in another owner.\<close>

definition move_operation :: "profile_id \<Rightarrow> control \<Rightarrow> control" where
  "move_operation i c =
     (case map_of (lc_ops c) i of
        None \<Rightarrow> c
      | Some p \<Rightarrow> c\<lparr>lc_ops := hm_remove i (lc_ops c),
                    lc_held := (case g_reservation p of None \<Rightarrow> [] | Some r \<Rightarrow> [(i, r)]) @ lc_held c\<rparr>)"

definition spawn_check :: "profile_id \<Rightarrow> nat \<Rightarrow> container_session \<Rightarrow> control \<Rightarrow> control" where
  "spawn_check i generation session c =
     c\<lparr>lc_checks := insert i (lc_checks c), lc_tasks := CheckTask i generation session # lc_tasks c\<rparr>"

definition spawn_launch :: "profile_id \<Rightarrow> nat \<Rightarrow> container_session \<Rightarrow> check_report \<Rightarrow> string \<Rightarrow> control \<Rightarrow> control" where
  "spawn_launch i generation session report slot c =
     c\<lparr>lc_launches := hm_insert i slot (lc_launches c), lc_tasks := LaunchTask i generation session report slot # lc_tasks c\<rparr>"

definition new_operation :: "container_session \<Rightarrow> bool \<Rightarrow> control \<Rightarrow> pending_operation" where
  "new_operation session launch c =
     \<lparr>g_generation = lc_sequence c, g_session = session, g_launch_requested = launch, g_cancelled = False,
      g_reservation = None\<rparr>"

text \<open>
  \<open>CheckContainerSession\<close>; \<open>sessions\<close> is what reading the configuration gives (nothing if that
  fails). \<open>None\<close>: the lease of an unsaved profile panics.
\<close>

definition check_session_message :: "container_session list \<Rightarrow> profile_id \<Rightarrow> control \<Rightarrow> control option" where
  "check_session_message sessions i c =
     (if \<not> is_saved i then None
      else if hm_contains i (lc_ops c) \<or> i \<in> lc_checks c then Some c
      else case find (\<lambda>s. cs_id s = i) sessions of
        None \<Rightarrow> Some c
      | Some session \<Rightarrow>
          Some (spawn_check i (lc_sequence c) session
            (c\<lparr>lc_ops := hm_insert i (new_operation session False c) (lc_ops c), lc_sequence := lc_sequence c + 1\<rparr>)))"

text \<open>\<open>ContainerSessionChecked\<close>.\<close>

definition recheck :: "profile_id \<Rightarrow> pending_operation \<Rightarrow> container_session \<Rightarrow> control \<Rightarrow> control" where
  "recheck i p configured c =
     (let p1 = p\<lparr>g_session := configured, g_reservation := None, g_generation := lc_sequence c\<rparr>;
          c1 = c\<lparr>lc_sequence := lc_sequence c + 1, lc_identities := drop_held (g_reservation p) (lc_identities c)\<rparr>
      in case (if g_launch_requested p then reserve_runtime p1 (lc_identities c1) else Inr (p1, lc_identities c1)) of
           Inl _ \<Rightarrow> c1\<lparr>lc_ops := hm_remove i (lc_ops c1)\<rparr>
         | Inr (p2, t) \<Rightarrow>
             spawn_check i (g_generation p2) configured
               (c1\<lparr>lc_ops := hm_insert i p2 (lc_ops c1), lc_identities := t\<rparr>))"

definition session_checked ::
  "container_session list \<Rightarrow> profile_id \<Rightarrow> nat \<Rightarrow> launch_error + check_report \<Rightarrow> control \<Rightarrow> control" where
  "session_checked sessions i generation result c =
     (if \<not> is_current i generation c then c
      else
        (let c1 = c\<lparr>lc_checks := lc_checks c - {i}\<rparr> in
         case map_of (lc_ops c1) i of
           None \<Rightarrow> c1
         | Some p \<Rightarrow>
             if g_cancelled p then remove_operation i c1
             else case find (\<lambda>s. cs_id s = i) sessions of
               None \<Rightarrow> remove_operation i c1
             | Some configured \<Rightarrow>
                 if session_to_toml configured \<noteq> session_to_toml (g_session p) then recheck i p configured c1
                 else case result of
                   Inl _ \<Rightarrow> remove_operation i c1
                 | Inr report \<Rightarrow>
                     if g_launch_requested p
                     then c1\<lparr>lc_validated := hm_insert i report (lc_validated c1), lc_resumes := (i, generation) # lc_resumes c1\<rparr>
                     else remove_operation i c1))"

subsection \<open>Starting a session\<close>

text \<open>The display of a checked session; \<open>p\<close> is its operation.\<close>

definition start_on_slot ::
  "profile_id \<Rightarrow> pending_operation \<Rightarrow> check_report \<Rightarrow> display_assignment \<Rightarrow> control \<Rightarrow> control" where
  "start_on_slot i p report assignment c =
     (case assignment of
        DefaultDisplay \<Rightarrow> spawn_launch i (g_generation p) (g_session p) report ''default'' c
      | Dedicated slot \<Rightarrow>
          if hm_contains slot (lc_managed c) then remove_operation i c
          else if slot_managed slot c then spawn_launch i (g_generation p) (g_session p) report slot c
          else c\<lparr>lc_validated := hm_insert i report (lc_validated c), lc_displays := hm_insert i slot (lc_displays c),
                 lc_tasks := DisplayTask i (g_generation p) slot # lc_tasks c\<rparr>)"

definition assign_display ::
  "container_session list \<Rightarrow> profile_id \<Rightarrow> pending_operation \<Rightarrow> check_report \<Rightarrow> control \<Rightarrow> control" where
  "assign_display sessions i p report c =
     (let profiles = (case position (\<lambda>s. cs_id s = i) sessions of
                        None \<Rightarrow> sessions | Some k \<Rightarrow> sessions[k := g_session p]);
          slots = active_slots c @ lc_displays c @ lc_launches c
      in if active_display_conflict_index i profiles slots (cleanup_display_busy ''default'' c) \<noteq> None
         then remove_operation i c
         else
           (let default_in_use = slot_in_use ''default'' c
                  \<or> profile_display_pending ''default'' (lc_displays c) (lc_launches c) \<or> cleanup_display_busy ''default'' c;
                assignment = choose_display_assignment (g_session p) default_in_use
            in if cleanup_display_busy (assigned_slot assignment) c then remove_operation i c
               else start_on_slot i p report assignment c))"

definition prepare_launch :: "container_session list \<Rightarrow> container_session \<Rightarrow> profile_id \<Rightarrow> control \<Rightarrow> control" where
  "prepare_launch sessions configured i c =
     (let (p, c1) = (case map_of (lc_ops c) i of
                       Some p \<Rightarrow> (p, c)
                     | None \<Rightarrow> (new_operation configured True c, c\<lparr>lc_sequence := lc_sequence c + 1\<rparr>))
      in case reserve_runtime p (lc_identities c1) of
           Inl _ \<Rightarrow> c1\<lparr>lc_validated := hm_remove i (lc_validated c1), lc_ops := hm_remove i (lc_ops c1)\<rparr>
         | Inr (p, t) \<Rightarrow>
             (let c2 = c1\<lparr>lc_ops := hm_insert i p (lc_ops c1), lc_identities := t,
                          lc_validated := hm_remove i (lc_validated c1)\<rparr>
              in case map_of (lc_validated c1) i of
                   None \<Rightarrow> spawn_check i (g_generation p) (g_session p) c2
                 | Some report \<Rightarrow> assign_display sessions i p report c2))"

text \<open>\<open>StartContainerSession\<close>; \<open>Some c'\<close> of \<open>join_check\<close>: the request ends there.\<close>

definition join_check :: "profile_id \<Rightarrow> control \<Rightarrow> control option" where
  "join_check i c =
     (case map_of (lc_ops c) i of
        None \<Rightarrow> None
      | Some p \<Rightarrow>
          if g_cancelled p then Some c
          else if i \<in> lc_checks c then
            (case reserve_runtime p (lc_identities c) of
               Inl _ \<Rightarrow> Some c
             | Inr (p, t) \<Rightarrow>
                 Some (c\<lparr>lc_ops := hm_insert i (p\<lparr>g_launch_requested := True\<rparr>) (lc_ops c), lc_identities := t\<rparr>))
          else None)"

definition start_session_message :: "container_session list \<Rightarrow> profile_id \<Rightarrow> control \<Rightarrow> control option" where
  "start_session_message sessions i c =
     (if \<not> is_saved i then None
      else case find (\<lambda>s. cs_id s = i) sessions of
        None \<Rightarrow> Some c
      | Some configured \<Rightarrow>
          if cleanup_session_busy i c then Some c
          else
            (let c1 = c\<lparr>lc_sl := reap_exited_container_sessions (lc_sl c)\<rparr> in
             if is_active i c1 then
               Some (if i \<in> lc_checks c1 then c1
                     else remove_operation i (c1\<lparr>lc_validated := hm_remove i (lc_validated c1)\<rparr>))
             else case join_check i c1 of
               Some c2 \<Rightarrow> Some c2
             | None \<Rightarrow>
                 if hm_contains i (lc_displays c1) \<or> hm_contains i (lc_launches c1) then Some c1
                 else Some (prepare_launch sessions configured i c1)))"

text \<open>\<open>StartContainerSessionIfCurrent\<close> and \<open>ResumeContainerSession\<close>.\<close>

definition start_if_current :: "container_session list \<Rightarrow> profile_action_target \<Rightarrow> control \<Rightarrow> control option" where
  "start_if_current sessions target c =
     (case resolve_target target sessions of
        None \<Rightarrow> Some c
      | Some _ \<Rightarrow> start_session_message sessions (pt_id target) c)"

definition resume_session :: "container_session list \<Rightarrow> profile_id \<Rightarrow> nat \<Rightarrow> control \<Rightarrow> control option" where
  "resume_session sessions i generation c =
     (if \<not> is_current i generation c
         \<or> (case map_of (lc_ops c) i of None \<Rightarrow> True | Some p \<Rightarrow> g_cancelled p) then Some c
      else start_session_message sessions i c)"

subsection \<open>Replies of the display and launch workers\<close>

text \<open>\<open>queue_launch_cleanup\<close> with the operation, which keeps its reservation; \<open>None\<close> is its panic.\<close>

definition roll_back ::
  "profile_id \<Rightarrow> string \<Rightarrow> launch_report option \<Rightarrow> display_worker option \<Rightarrow> control \<Rightarrow> control option" where
  "roll_back i slot report worker c =
     map_option (\<lambda>s. move_operation i (c\<lparr>lc_sl := s\<rparr>))
       (queue_launch_cleanup i slot report worker (map_option operation_of (map_of (lc_ops c) i)) (lc_sl c))"

definition display_started :: "profile_id \<Rightarrow> nat \<Rightarrow> string \<Rightarrow> display_worker \<Rightarrow> control \<Rightarrow> control option" where
  "display_started i generation slot d c =
     (if \<not> is_current i generation c \<or> map_of (lc_displays c) i \<noteq> Some slot
      then Some (c\<lparr>lc_sl := queue_display_cleanup d slot False (lc_sl c)\<rparr>)
      else
        (let c1 = c\<lparr>lc_displays := hm_remove i (lc_displays c)\<rparr>;
             give_up = (\<lambda>c. roll_back i slot None (Some d) (c\<lparr>lc_validated := hm_remove i (lc_validated c)\<rparr>))
         in case map_of (lc_ops c1) i of
              None \<Rightarrow> None
            | Some p \<Rightarrow>
                if g_cancelled p then give_up c1
                else if cleanup_display_busy slot c1 \<or> profile_display_pending slot (lc_displays c1) (lc_launches c1)
                        \<or> hm_contains slot (lc_managed c1) \<or> slot_managed slot c1 then give_up c1
                else
                  (let c2 = c1\<lparr>lc_sl := reap_exited_container_sessions (lc_sl c1)\<rparr> in
                   if is_active i c2 \<or> slot_in_use slot c2 then give_up c2
                   else case map_of (lc_validated c2) i of
                     None \<Rightarrow> give_up c2
                   | Some report \<Rightarrow>
                       Some (spawn_launch i generation (g_session p) report slot
                         (c2\<lparr>lc_validated := hm_remove i (lc_validated c2), lc_workers := hm_insert i d (lc_workers c2)\<rparr>)))))"

definition display_failed :: "profile_id \<Rightarrow> nat \<Rightarrow> string \<Rightarrow> control \<Rightarrow> control" where
  "display_failed i generation slot c =
     (if \<not> is_current i generation c \<or> map_of (lc_displays c) i \<noteq> Some slot then c
      else remove_operation i (c\<lparr>lc_displays := hm_remove i (lc_displays c), lc_validated := hm_remove i (lc_validated c)\<rparr>))"

text \<open>\<open>complete_container_session_launch\<close>; the audio helper starts with the session.\<close>

definition complete_container_session_launch ::
  "profile_id \<Rightarrow> pending_operation \<Rightarrow> string \<Rightarrow> display_worker option \<Rightarrow> bool \<Rightarrow> string + launch_report \<Rightarrow> control \<Rightarrow> control" where
  "complete_container_session_launch i p slot worker sound result c =
     (case result of
        Inr report \<Rightarrow>
          (let x = \<lparr>s_profile = i, s_identity = l_identity report, s_container = l_container report,
                    s_waypipe = l_waypipe report,
                    s_audio = (if sound then Some \<lparr>a_stop = False, a_joined = False\<rparr> else None),
                    s_slot = slot, s_display = worker, s_stopping = None, s_force_offered = False\<rparr>
           in c\<lparr>lc_sl := (lc_sl c)\<lparr>sl_active := actives c @ [x]\<rparr>,
                lc_held := (case g_reservation p of None \<Rightarrow> [] | Some r \<Rightarrow> [(i, r)]) @ lc_held c,
                lc_launched := (lc_launched c)(i \<mapsto> g_session p), lc_started := (i, g_generation p) # lc_started c\<rparr>)
      | Inl _ \<Rightarrow>
          (case worker of
             None \<Rightarrow> c\<lparr>lc_identities := drop_held (g_reservation p) (lc_identities c)\<rparr>
           | Some d \<Rightarrow>
               c\<lparr>lc_sl := queue_failed_launch_display_cleanup i slot d (lc_sl c),
                 lc_held := (case g_reservation p of None \<Rightarrow> [] | Some r \<Rightarrow> [(i, r)]) @ lc_held c\<rparr>))"

definition launch_finished ::
  "profile_id \<Rightarrow> nat \<Rightarrow> string \<Rightarrow> bool \<Rightarrow> string + launch_report \<Rightarrow> control \<Rightarrow> control option" where
  "launch_finished i generation slot sound result c =
     (let report = (case result of Inl _ \<Rightarrow> None | Inr r \<Rightarrow> Some r) in
      if \<not> is_current i generation c \<or> map_of (lc_launches c) i \<noteq> Some slot
      then map_option (\<lambda>s. c\<lparr>lc_sl := s\<rparr>) (queue_launch_cleanup i slot report None None (lc_sl c))
      else
        (let worker = map_of (lc_workers c) i;
             c1 = c\<lparr>lc_launches := hm_remove i (lc_launches c), lc_workers := hm_remove i (lc_workers c)\<rparr>
         in case map_of (lc_ops c1) i of
              None \<Rightarrow> None
            | Some p \<Rightarrow>
                if g_cancelled p then roll_back i slot report worker c1
                else Some (complete_container_session_launch i p slot worker sound result
                       (c1\<lparr>lc_ops := hm_remove i (lc_ops c1)\<rparr>))))"

subsection \<open>Stopping\<close>

definition stop_session_message :: "profile_id \<Rightarrow> control \<Rightarrow> control" where
  "stop_session_message i c =
     (let graceful = (\<lambda>c. c\<lparr>lc_sl := snd (request_graceful_container_stop i (lc_sl c))\<rparr>) in
      case map_of (lc_ops c) i of
        None \<Rightarrow> graceful c
      | Some p \<Rightarrow>
          (let worker_pending = i \<in> lc_checks c \<or> hm_contains i (lc_displays c) \<or> hm_contains i (lc_launches c);
               c1 = c\<lparr>lc_ops := hm_insert i (p\<lparr>g_cancelled := True\<rparr>) (lc_ops c),
                      lc_stopped := (i, g_generation p) # lc_stopped c\<rparr>;
               c2 = (if worker_pending then c1
                     else remove_operation i (c1\<lparr>lc_validated := hm_remove i (lc_validated c1)\<rparr>))
           in if is_active i c2 then graceful c2 else c2))"

text \<open>\<open>True\<close>: a stop message is sent instead.\<close>

definition force_stop_message :: "profile_id \<Rightarrow> control \<Rightarrow> bool \<times> control" where
  "force_stop_message i c =
     (if hm_contains i (lc_ops c) then (True, c)
      else (False, c\<lparr>lc_sl := snd (stop_active_container_session i (lc_sl c))\<rparr>))"

subsection \<open>Managed displays\<close>

text \<open>The search for a free name; \<open>fuel\<close> bounds the candidates that are tried.\<close>

fun first_free :: "nat \<Rightarrow> (string \<Rightarrow> bool) \<Rightarrow> nat \<Rightarrow> string option" where
  "first_free 0 taken k = None"
| "first_free (Suc fuel) taken k =
     (let candidate = ''display-'' @ decimal k in
      if taken candidate then first_free fuel taken (Suc k) else Some candidate)"

text \<open>The names in use, and the search over them; it always succeeds (\<open>next_slot_total\<close>).\<close>

definition busy_slots :: "control \<Rightarrow> string list" where
  "busy_slots c =
     (case cleanup (sl_life (lc_sl c)) of
        None \<Rightarrow> []
      | Some q \<Rightarrow> concat (map (\<lambda>k. case k of Session _ s \<Rightarrow> [s] | Display s \<Rightarrow> [s] | Abandoned \<Rightarrow> []) (keys q)))"

definition taken_slots :: "control \<Rightarrow> string list" where
  "taken_slots c =
     map m_slot (sl_displays (lc_sl c)) @ map fst (lc_managed c) @ map snd (lc_displays c @ lc_launches c)
     @ busy_slots c @ map s_slot (actives c)"

definition slot_taken :: "string \<Rightarrow> control \<Rightarrow> bool" where
  "slot_taken slot c \<longleftrightarrow>
     slot_managed slot c \<or> hm_contains slot (lc_managed c)
     \<or> profile_display_pending slot (lc_displays c) (lc_launches c) \<or> cleanup_display_busy slot c \<or> slot_in_use slot c"

definition next_managed_display_slot :: "control \<Rightarrow> string option" where
  "next_managed_display_slot c = first_free (Suc (length (taken_slots c))) (\<lambda>slot. slot_taken slot c) 1"

definition create_managed_display :: "string option \<Rightarrow> control \<Rightarrow> control" where
  "create_managed_display requested c0 =
     (let c = c0\<lparr>lc_sl := reap_exited_managed_displays (lc_sl c0)\<rparr> in
      case (case requested of Some s \<Rightarrow> Some s | None \<Rightarrow> next_managed_display_slot c) of
        None \<Rightarrow> c
      | Some slot \<Rightarrow>
          if slot_taken slot c then c
          else c\<lparr>lc_managed := hm_insert slot (lc_display_sequence c) (lc_managed c),
                 lc_display_sequence := lc_display_sequence c + 1,
                 lc_tasks := ManagedTask slot (lc_display_sequence c) # lc_tasks c\<rparr>)"

definition managed_started :: "nat \<Rightarrow> string \<Rightarrow> display_worker \<Rightarrow> control \<Rightarrow> control" where
  "managed_started generation slot d c =
     (case complete_managed_attempt slot generation (lc_managed c) of
        (False, _) \<Rightarrow> c\<lparr>lc_sl := queue_display_cleanup d slot False (lc_sl c)\<rparr>
      | (True, m) \<Rightarrow>
          (let c = c\<lparr>lc_managed := m\<rparr> in
           if cleanup_display_busy slot c \<or> profile_display_pending slot (lc_displays c) (lc_launches c)
              \<or> slot_managed slot c \<or> slot_in_use slot c
           then c\<lparr>lc_sl := queue_display_cleanup d slot False (lc_sl c)\<rparr>
           else c\<lparr>lc_sl := (lc_sl c)\<lparr>sl_displays := sl_displays (lc_sl c) @ [\<lparr>m_slot = slot, m_worker = d\<rparr>]\<rparr>\<rparr>))"

definition managed_failed :: "nat \<Rightarrow> string \<Rightarrow> control \<Rightarrow> control" where
  "managed_failed generation slot c =
     c\<lparr>lc_managed := snd (complete_managed_attempt slot generation (lc_managed c))\<rparr>"

definition close_managed_display :: "string \<Rightarrow> control \<Rightarrow> control" where
  "close_managed_display slot c =
     (if cleanup_display_busy slot c \<or> profile_display_pending slot (lc_displays c) (lc_launches c) then c
      else if slot_in_use slot c then c
      else if hm_contains slot (lc_managed c) then c\<lparr>lc_managed := hm_remove slot (lc_managed c)\<rparr>
      else case position (\<lambda>d. m_slot d = slot) (sl_displays (lc_sl c)) of
        None \<Rightarrow> c
      | Some k \<Rightarrow>
          c\<lparr>lc_sl := queue_display_cleanup (m_worker (sl_displays (lc_sl c) ! k)) slot True
               ((lc_sl c)\<lparr>sl_displays := remove_at k (sl_displays (lc_sl c))\<rparr>)\<rparr>)"

subsection \<open>Runs of the event loop\<close>

text \<open>
  Requests come from the menu, the panel and the control socket at any time, and name saved
  profiles; \<open>sessions\<close> is what the configuration says at that moment. A reply comes from a task in
  flight and consumes it. In between, processes exit and the loop reaps them, cleanups advance,
  and a finished cleanup gives back the reservation it kept; the session it belonged to is then
  no longer active. The result \<open>None\<close> is a panic.
\<close>

definition take_task :: "task \<Rightarrow> nat list \<Rightarrow> control \<Rightarrow> control" where
  "take_task t children c = c\<lparr>lc_tasks := remove1 t (lc_tasks c), lc_received := children @ lc_received c\<rparr>"

definition report_children :: "string + launch_report \<Rightarrow> nat list" where
  "report_children r =
     (case r of Inl _ \<Rightarrow> [] | Inr l \<Rightarrow> l_waypipe l # (case l_container l of None \<Rightarrow> [] | Some p \<Rightarrow> [p]))"

inductive control_step :: "control \<Rightarrow> control option \<Rightarrow> bool" where
  check: "is_saved i \<Longrightarrow> control_step c (check_session_message sessions i c)"
| start: "is_saved i \<Longrightarrow> control_step c (start_session_message sessions i c)"
| start_current: "is_saved (pt_id t) \<Longrightarrow> control_step c (start_if_current sessions t c)"
| resume: "(i, g) \<in> set (lc_resumes c) \<Longrightarrow>
    control_step c (resume_session sessions i g (c\<lparr>lc_resumes := remove1 (i, g) (lc_resumes c)\<rparr>))"
| stop: "control_step c (Some (stop_session_message i c))"
| force_stop: "control_step c (Some (snd (force_stop_message i c)))"
| create_display: "control_step c (Some (create_managed_display requested c))"
| close_display: "control_step c (Some (close_managed_display slot c))"
| checked: "CheckTask i g s \<in> set (lc_tasks c) \<Longrightarrow>
    control_step c (Some (session_checked sessions i g result
      ((take_task (CheckTask i g s) [] c)\<lparr>lc_checked := (case result of Inl _ \<Rightarrow> [] | Inr r \<Rightarrow> [(s, r)]) @ lc_checked c\<rparr>)))"
| display_ready: "DisplayTask i g slot \<in> set (lc_tasks c) \<Longrightarrow>
    control_step c (display_started i g slot d (take_task (DisplayTask i g slot) [w_child d] c))"
| display_lost: "DisplayTask i g slot \<in> set (lc_tasks c) \<Longrightarrow>
    control_step c (Some (display_failed i g slot (take_task (DisplayTask i g slot) [] c)))"
| launched: "LaunchTask i g s r slot \<in> set (lc_tasks c) \<Longrightarrow>
    control_step c (launch_finished i g slot sound result
      (take_task (LaunchTask i g s r slot) (report_children result) c))"
| managed_ready: "ManagedTask slot g \<in> set (lc_tasks c) \<Longrightarrow>
    control_step c (Some (managed_started g slot d (take_task (ManagedTask slot g) [w_child d] c)))"
| managed_lost: "ManagedTask slot g \<in> set (lc_tasks c) \<Longrightarrow>
    control_step c (Some (managed_failed g slot (take_task (ManagedTask slot g) [] c)))"
| maintenance: "control_step c
    (Some (c\<lparr>lc_sl := reap_exited_container_sessions (reap_exited_managed_displays (lc_sl c))\<rparr>))"
| cleanup_progress: "sl_active s = actives c \<Longrightarrow> sl_displays s = sl_displays (lc_sl c) \<Longrightarrow> fresh_jobs s \<Longrightarrow>
    owned_children (lc_sl c) \<subseteq> owned_children s \<Longrightarrow> control_step c (Some (c\<lparr>lc_sl := s\<rparr>))"
| released: "(i, r) \<in> set (lc_held c) \<Longrightarrow> \<not> is_active i c \<Longrightarrow>
    control_step c (Some (c\<lparr>lc_held := remove1 (i, r) (lc_held c), lc_identities := drop_reservation r (lc_identities c)\<rparr>))"

definition control_init :: "sl \<Rightarrow> control" where
  "control_init s =
     \<lparr>lc_sl = s\<lparr>sl_active := [], sl_displays := []\<rparr>, lc_checks = {}, lc_ops = [], lc_validated = [], lc_displays = [],
      lc_launches = [], lc_workers = [], lc_managed = [], lc_identities = Map.empty, lc_held = [],
      lc_launched = Map.empty, lc_sequence = 1, lc_display_sequence = 1, lc_tasks = [], lc_resumes = [],
      lc_checked = [], lc_stopped = [], lc_started = [], lc_received = []\<rparr>"

inductive reachable :: "control option \<Rightarrow> bool" where
  initial: "fresh_jobs s \<Longrightarrow> reachable (Some (control_init s))"
| step: "reachable (Some c) \<Longrightarrow> control_step c r \<Longrightarrow> reachable r"

subsection \<open>Maps and lists of the loop\<close>

lemma map_of_hm [simp]:
  "map_of (hm_remove k m) = (map_of m)(k := None)" "map_of (hm_insert k v m) = (map_of m)(k \<mapsto> v)"
proof -
  show r: "map_of (hm_remove k m) = (map_of m)(k := None)"
    unfolding hm_remove_def by (induction m) (auto simp: fun_eq_iff)
  show "map_of (hm_insert k v m) = (map_of m)(k \<mapsto> v)" by (simp add: hm_insert_def r)
qed

lemma hm_keys [simp]:
  "set (map fst (hm_remove k m)) = set (map fst m) - {k}" "set (map fst (hm_insert k v m)) = insert k (set (map fst m))"
  by (auto simp: hm_remove_def hm_insert_def)

lemma distinct_hm [simp]:
  "distinct (map fst m) \<Longrightarrow> distinct (map fst (hm_remove k m))" "distinct (map fst m) \<Longrightarrow> distinct (map fst (hm_insert k v m))"
  by (auto simp: hm_remove_def hm_insert_def distinct_map_filter)

lemma hm_remove_absent [simp]: "map_of m k = None \<Longrightarrow> hm_remove k m = m"
  unfolding hm_remove_def by (rule filter_True) (auto dest: weak_map_of_SomeI)

lemma hm_remove_mset:
  "distinct (map fst m) \<Longrightarrow> map_of m k = Some v \<Longrightarrow> mset m = add_mset (k, v) (mset (hm_remove k m))"
proof (induction m)
  case (Cons x m)
  obtain j w where x: "x = (j, w)" by (cases x)
  show ?case
  proof (cases "j = k")
    case True
    with Cons.prems x have "map_of m k = None" by (simp add: map_of_eq_None_iff)
    then have "hm_remove k m = m" by simp
    with True x Cons.prems show ?thesis by (simp add: hm_remove_def)
  next
    case False
    with Cons x show ?thesis by (simp add: hm_remove_def)
  qed
qed simp

subsection \<open>The stage of a profile\<close>

text \<open>
  A profile without an operation is mentioned nowhere. One with an operation is in exactly one
  stage, with at most one worker in flight, and that one is for the operation as it is.
\<close>

fun task_profile :: "task \<Rightarrow> profile_id option" where
  "task_profile (CheckTask i _ _) = Some i"
| "task_profile (DisplayTask i _ _) = Some i"
| "task_profile (LaunchTask i _ _ _ _) = Some i"
| "task_profile (ManagedTask _ _) = None"

definition tasks_of :: "profile_id \<Rightarrow> task list \<Rightarrow> task list" where
  "tasks_of i ts = filter (\<lambda>t. task_profile t = Some i) ts"

definition mentions :: "control \<Rightarrow> profile_id \<Rightarrow> bool \<times> check_report option \<times> string option \<times> string option \<times> bool \<times> task list" where
  "mentions c i =
     (i \<in> lc_checks c, map_of (lc_validated c) i, map_of (lc_displays c) i, map_of (lc_launches c) i,
      hm_contains i (lc_workers c), tasks_of i (lc_tasks c))"

definition stage_ok :: "(container_session \<times> check_report) list \<Rightarrow> nat \<Rightarrow> profile_id \<Rightarrow> pending_operation option
    \<Rightarrow> bool \<times> check_report option \<times> string option \<times> string option \<times> bool \<times> task list \<Rightarrow> bool" where
  "stage_ok checked n i op m =
     (case op of
        None \<Rightarrow> m = (False, None, None, None, False, [])
      | Some p \<Rightarrow>
          is_saved i \<and> cs_id (g_session p) = i \<and> g_generation p < n
          \<and> ((g_launch_requested p \<longrightarrow> g_reservation p \<noteq> None)
               \<and> m = (True, None, None, None, False, [CheckTask i (g_generation p) (g_session p)])
             \<or> (\<exists>r. (g_session p, r) \<in> set checked \<and> g_reservation p \<noteq> None \<and> g_launch_requested p
                  \<and> (\<not> g_cancelled p \<and> m = (False, Some r, None, None, False, [])
                     \<or> (\<exists>slot. m = (False, Some r, Some slot, None, False, [DisplayTask i (g_generation p) slot]))
                     \<or> (\<exists>slot b. m = (False, None, None, Some slot, b, [LaunchTask i (g_generation p) (g_session p) r slot]))))))"

definition stages :: "control \<Rightarrow> bool" where
  "stages c \<longleftrightarrow> (\<forall>i. stage_ok (lc_checked c) (lc_sequence c) i (map_of (lc_ops c) i) (mentions c i))"

definition keys_distinct :: "control \<Rightarrow> bool" where
  "keys_distinct c \<longleftrightarrow>
     distinct (map fst (lc_ops c)) \<and> distinct (map fst (lc_validated c)) \<and> distinct (map fst (lc_displays c))
     \<and> distinct (map fst (lc_launches c)) \<and> distinct (map fst (lc_workers c)) \<and> distinct (map fst (lc_managed c))"

lemma stage_mono:
  "stage_ok checked n i op m \<Longrightarrow> set checked \<subseteq> set checked' \<Longrightarrow> n \<le> n' \<Longrightarrow> stage_ok checked' n' i op m"
  unfolding stage_ok_def by (cases op) auto

text \<open>A step on one profile: the others keep what they have.\<close>

lemma stages_step:
  assumes "stages c" "set (lc_checked c) \<subseteq> set (lc_checked c')" "lc_sequence c \<le> lc_sequence c'"
    and "\<And>j. j \<noteq> i \<Longrightarrow> map_of (lc_ops c') j = map_of (lc_ops c) j \<and> mentions c' j = mentions c j"
    and "stage_ok (lc_checked c') (lc_sequence c') i (map_of (lc_ops c') i) (mentions c' i)"
  shows "stages c'"
  unfolding stages_def
proof
  fix j
  show "stage_ok (lc_checked c') (lc_sequence c') j (map_of (lc_ops c') j) (mentions c' j)"
  proof (cases "j = i")
    case False
    with assms(1) have "stage_ok (lc_checked c) (lc_sequence c) j (map_of (lc_ops c') j) (mentions c' j)"
      using assms(4) [OF False] by (simp add: stages_def)
    from stage_mono [OF this assms(2,3)] show ?thesis .
  qed (use assms(5) in simp)
qed

lemma tasks_of_Cons [simp]: "tasks_of i (t # ts) = (if task_profile t = Some i then t # tasks_of i ts else tasks_of i ts)"
  by (simp add: tasks_of_def)

lemma tasks_of_Nil [simp]: "tasks_of i [] = []"
  by (simp add: tasks_of_def)

lemma tasks_of_remove1:
  "tasks_of i (remove1 t ts) = (if task_profile t = Some i then remove1 t (tasks_of i ts) else tasks_of i ts)"
  by (induction ts) (auto simp: tasks_of_def)

lemma task_in_flight: "t \<in> set ts \<Longrightarrow> task_profile t = Some i \<Longrightarrow> t \<in> set (tasks_of i ts)"
  by (simp add: tasks_of_def)

lemma stage_of_check:
  assumes "stages c" "CheckTask i g s \<in> set (lc_tasks c)"
  obtains p where "map_of (lc_ops c) i = Some p" "is_saved i" "cs_id (g_session p) = i" "g = g_generation p" "s = g_session p"
    "g_launch_requested p \<longrightarrow> g_reservation p \<noteq> None" "mentions c i = (True, None, None, None, False, [CheckTask i g s])"
proof -
  have "CheckTask i g s \<in> set (tasks_of i (lc_tasks c))" using assms(2) by (rule task_in_flight) simp
  moreover have "stage_ok (lc_checked c) (lc_sequence c) i (map_of (lc_ops c) i) (mentions c i)"
    using assms(1) by (simp add: stages_def)
  ultimately show ?thesis
    using that by (cases "map_of (lc_ops c) i") (auto simp: stage_ok_def mentions_def)
qed

lemma stage_of_display:
  assumes "stages c" "DisplayTask i g slot \<in> set (lc_tasks c)"
  obtains p r where "map_of (lc_ops c) i = Some p" "is_saved i" "cs_id (g_session p) = i" "g = g_generation p"
    "g_reservation p \<noteq> None" "(g_session p, r) \<in> set (lc_checked c)"
    "mentions c i = (False, Some r, Some slot, None, False, [DisplayTask i g slot])"
proof -
  have "DisplayTask i g slot \<in> set (tasks_of i (lc_tasks c))" using assms(2) by (rule task_in_flight) simp
  moreover have "stage_ok (lc_checked c) (lc_sequence c) i (map_of (lc_ops c) i) (mentions c i)"
    using assms(1) by (simp add: stages_def)
  ultimately show ?thesis
    using that by (cases "map_of (lc_ops c) i") (auto simp: stage_ok_def mentions_def)
qed

lemma stage_of_launch:
  assumes "stages c" "LaunchTask i g s r slot \<in> set (lc_tasks c)"
  obtains p b where "map_of (lc_ops c) i = Some p" "is_saved i" "cs_id (g_session p) = i" "g = g_generation p" "s = g_session p"
    "g_reservation p \<noteq> None" "(s, r) \<in> set (lc_checked c)"
    "mentions c i = (False, None, None, Some slot, b, [LaunchTask i g s r slot])"
proof -
  have "LaunchTask i g s r slot \<in> set (tasks_of i (lc_tasks c))" using assms(2) by (rule task_in_flight) simp
  moreover have "stage_ok (lc_checked c) (lc_sequence c) i (map_of (lc_ops c) i) (mentions c i)"
    using assms(1) by (simp add: stages_def)
  ultimately show ?thesis
    using that by (cases "map_of (lc_ops c) i") (auto simp: stage_ok_def mentions_def)
qed

subsection \<open>Every step keeps the stages\<close>

lemma remove_operation_fields [simp]:
  "map_of (lc_ops (remove_operation i c)) = (map_of (lc_ops c))(i := None)"
  "lc_sl (remove_operation i c) = lc_sl c" "lc_checks (remove_operation i c) = lc_checks c"
  "lc_validated (remove_operation i c) = lc_validated c" "lc_displays (remove_operation i c) = lc_displays c"
  "lc_launches (remove_operation i c) = lc_launches c" "lc_workers (remove_operation i c) = lc_workers c"
  "lc_managed (remove_operation i c) = lc_managed c" "lc_held (remove_operation i c) = lc_held c"
  "lc_launched (remove_operation i c) = lc_launched c" "lc_sequence (remove_operation i c) = lc_sequence c"
  "lc_tasks (remove_operation i c) = lc_tasks c" "lc_resumes (remove_operation i c) = lc_resumes c"
  "lc_checked (remove_operation i c) = lc_checked c" "lc_stopped (remove_operation i c) = lc_stopped c"
  "lc_started (remove_operation i c) = lc_started c" "lc_received (remove_operation i c) = lc_received c"
  by (auto simp: remove_operation_def split: option.split)

lemma move_operation_fields [simp]:
  "map_of (lc_ops (move_operation i c)) = (map_of (lc_ops c))(i := None)"
  "lc_sl (move_operation i c) = lc_sl c" "lc_checks (move_operation i c) = lc_checks c"
  "lc_validated (move_operation i c) = lc_validated c" "lc_displays (move_operation i c) = lc_displays c"
  "lc_launches (move_operation i c) = lc_launches c" "lc_workers (move_operation i c) = lc_workers c"
  "lc_managed (move_operation i c) = lc_managed c" "lc_identities (move_operation i c) = lc_identities c"
  "lc_launched (move_operation i c) = lc_launched c" "lc_sequence (move_operation i c) = lc_sequence c"
  "lc_tasks (move_operation i c) = lc_tasks c" "lc_resumes (move_operation i c) = lc_resumes c"
  "lc_checked (move_operation i c) = lc_checked c" "lc_stopped (move_operation i c) = lc_stopped c"
  "lc_started (move_operation i c) = lc_started c" "lc_received (move_operation i c) = lc_received c"
  by (auto simp: move_operation_def split: option.split)

text \<open>What the stages depend on.\<close>

lemma stages_cong:
  assumes "stages c" "lc_checked c' = lc_checked c" "lc_sequence c' = lc_sequence c" "map_of (lc_ops c') = map_of (lc_ops c)"
    "\<And>i. mentions c' i = mentions c i"
  shows "stages c'"
  using assms by (simp add: stages_def)

lemma stages_sl [simp]: "stages (c\<lparr>lc_sl := s\<rparr>) = stages c" "mentions (c\<lparr>lc_sl := s\<rparr>) i = mentions c i"
  by (simp_all add: stages_def mentions_def)

lemma mentions_at: "stages c \<Longrightarrow> stage_ok (lc_checked c) (lc_sequence c) i (map_of (lc_ops c) i) (mentions c i)"
  by (simp add: stages_def)

lemma reserve_runtime_Inr:
  "reserve_runtime p t = Inr (p', t') \<Longrightarrow> \<exists>r. p' = p\<lparr>g_reservation := Some r\<rparr>"
  by (auto simp: reserve_runtime_def and_then_Inr intro: exI [of _ "the (g_reservation p)"] split: option.splits)

lemma check_stages:
  assumes "stages c" "check_session_message sessions i c = Some c'"
  shows "stages c'"
proof (cases "\<exists>session. map_of (lc_ops c) i = None \<and> find (\<lambda>s. cs_id s = i) sessions = Some session")
  case True
  then obtain session where s: "map_of (lc_ops c) i = None" "find (\<lambda>s. cs_id s = i) sessions = Some session" by blast
  have m: "mentions c i = (False, None, None, None, False, [])"
    using mentions_at [OF assms(1), of i] s by (simp add: stage_ok_def)
  have id: "cs_id session = i" "is_saved i"
    using s(2) assms(2) by (auto simp: find_Some_iff check_session_message_def split: if_splits)
  have c': "c' = spawn_check i (lc_sequence c) session
      (c\<lparr>lc_ops := hm_insert i (new_operation session False c) (lc_ops c), lc_sequence := lc_sequence c + 1\<rparr>)"
    using assms(2) s m id by (auto simp: check_session_message_def mentions_def)
  show ?thesis
    by (rule stages_step [OF assms(1), of _ i])
      (use m id in \<open>auto simp: c' spawn_check_def new_operation_def mentions_def stage_ok_def\<close>)
next
  case False
  then have "c' = c" using assms(2) by (auto simp: check_session_message_def split: if_splits option.splits)
  with assms(1) show ?thesis by simp
qed

lemma checked_stages:
  assumes c: "stages c" and t: "CheckTask i g s \<in> set (lc_tasks c)"
    and c0: "c0 = (take_task (CheckTask i g s) [] c)\<lparr>lc_checked := (case result of Inl _ \<Rightarrow> [] | Inr r \<Rightarrow> [(s, r)]) @ lc_checked c\<rparr>"
  shows "stages (session_checked sessions i g result c0)"
proof -
  obtain p where p: "map_of (lc_ops c) i = Some p" "is_saved i" "cs_id (g_session p) = i" "g = g_generation p" "s = g_session p"
      "g_launch_requested p \<longrightarrow> g_reservation p \<noteq> None"
    and m: "mentions c i = (True, None, None, None, False, [CheckTask i g s])"
    using stage_of_check [OF c t] by blast
  have gen: "g_generation p < lc_sequence c" using mentions_at [OF c, of i] p by (simp add: stage_ok_def)
  have cur: "is_current i g c0" using p by (simp add: c0 is_current_def take_task_def current_operation_def operation_of_def)
  have m0: "tasks_of i (lc_tasks c0) = []" "map_of (lc_validated c0) i = None" "map_of (lc_displays c0) i = None"
      "map_of (lc_launches c0) i = None" "map_of (lc_workers c0) i = None" "map_of (lc_ops c0) i = Some p"
    using m p by (auto simp: c0 take_task_def mentions_def tasks_of_remove1)
  have mj: "mentions c0 j = mentions c j" if "j \<noteq> i" for j
    using that by (simp add: c0 take_task_def mentions_def tasks_of_remove1)
  have f0: "lc_sequence c0 = lc_sequence c" "map_of (lc_ops c0) = map_of (lc_ops c)" by (simp_all add: c0 take_task_def)
  have sub: "set (lc_checked c) \<subseteq> set (lc_checked c0)" by (auto simp: c0)
  have res: "result = Inr r \<Longrightarrow> (g_session p, r) \<in> set (lc_checked c0)" for r using p by (simp add: c0)
  let ?c1 = "c0\<lparr>lc_checks := lc_checks c0 - {i}\<rparr>"
  let ?c' = "session_checked sessions i g result c0"
  have gone: "stages (remove_operation i ?c1)"
    by (rule stages_step [OF c, of _ i]) (use m0 mj f0 sub in \<open>auto simp: mentions_def stage_ok_def\<close>)
  have again: "stages (recheck i p configured ?c1)" if "find (\<lambda>s. cs_id s = i) sessions = Some configured" for configured
  proof -
    have id: "cs_id configured = i" using that by (auto simp: find_Some_iff)
    have spawned: "stages (spawn_check i (lc_sequence ?c1) configured (?c1\<lparr>lc_sequence := lc_sequence ?c1 + 1,
        lc_ops := hm_insert i q (lc_ops ?c1), lc_identities := t\<rparr>))"
      if "g_session q = configured" "g_generation q = lc_sequence ?c1" "g_launch_requested q \<longrightarrow> g_reservation q \<noteq> None" for q t
      by (rule stages_step [OF c, of _ i])
        (use that id p m0 mj f0 sub in \<open>auto simp: spawn_check_def mentions_def stage_ok_def\<close>)
    have dropped: "stages (?c1\<lparr>lc_sequence := lc_sequence ?c1 + 1, lc_identities := t, lc_ops := hm_remove i (lc_ops ?c1)\<rparr>)" for t
      by (rule stages_step [OF c, of _ i]) (use m0 mj f0 sub in \<open>auto simp: mentions_def stage_ok_def\<close>)
    show ?thesis
      unfolding recheck_def Let_def
      using spawned dropped by (auto split: sum.split dest!: reserve_runtime_Inr)
  qed
  have valid: "stages (?c1\<lparr>lc_validated := hm_insert i r (lc_validated ?c1), lc_resumes := (i, g) # lc_resumes ?c1\<rparr>)"
    if "result = Inr r" "g_launch_requested p" "\<not> g_cancelled p" for r
    by (rule stages_step [OF c, of _ i]) (use that p gen m0 mj f0 sub res in \<open>auto simp: mentions_def stage_ok_def\<close>)
  show ?thesis
    using cur m0 gone again valid
    by (auto simp: session_checked_def Let_def split: option.split sum.split)
qed

lemma join_stages:
  assumes c: "stages c" and j: "join_check i c = Some c'"
  shows "stages c'"
proof (cases "map_of (lc_ops c) i")
  case (Some p)
  note st = mentions_at [OF c, of i, unfolded Some]
  have "stages (c\<lparr>lc_ops := hm_insert i (p\<lparr>g_reservation := Some r, g_launch_requested := True\<rparr>) (lc_ops c), lc_identities := t\<rparr>)"
    if "i \<in> lc_checks c" for r t
    by (rule stages_step [OF c, of _ i]) (use st that in \<open>auto simp: mentions_def stage_ok_def\<close>)
  then show ?thesis
    using c j Some by (auto simp: join_check_def split: if_splits sum.splits dest!: reserve_runtime_Inr)
qed (use j in \<open>simp add: join_check_def\<close>)

lemma start_on_slot_stages:
  assumes c: "stages c0" and p: "map_of (lc_ops c) i = Some p" "is_saved i" "cs_id (g_session p) = i" "g_generation p < lc_sequence c"
      "g_reservation p \<noteq> None" "g_launch_requested p" "(g_session p, r) \<in> set (lc_checked c)"
    and m: "mentions c i = (False, None, None, None, False, [])"
    and others: "lc_checked c = lc_checked c0" "lc_sequence c0 \<le> lc_sequence c"
      "\<And>j. j \<noteq> i \<Longrightarrow> map_of (lc_ops c) j = map_of (lc_ops c0) j \<and> mentions c j = mentions c0 j"
  shows "stages (start_on_slot i p r a c)" "stages (remove_operation i c)"
proof -
  show gone: "stages (remove_operation i c)"
    by (rule stages_step [OF c, of _ i]) (use m others in \<open>auto simp: mentions_def stage_ok_def\<close>)
  have launch: "stages (spawn_launch i (g_generation p) (g_session p) r slot c)" for slot
    by (rule stages_step [OF c, of _ i]) (use p m others in \<open>auto simp: spawn_launch_def mentions_def stage_ok_def\<close>)
  have display: "stages (c\<lparr>lc_validated := hm_insert i r (lc_validated c), lc_displays := hm_insert i slot (lc_displays c),
      lc_tasks := DisplayTask i (g_generation p) slot # lc_tasks c\<rparr>)" for slot
    by (rule stages_step [OF c, of _ i]) (use p m others in \<open>auto simp: mentions_def stage_ok_def\<close>)
  show "stages (start_on_slot i p r a c)"
    using gone launch display by (cases a) (auto simp: start_on_slot_def)
qed

lemma prepare_stages:
  assumes c: "stages c" and i: "is_saved i" "cs_id configured = i" "i \<notin> lc_checks c" "map_of (lc_displays c) i = None"
      "map_of (lc_launches c) i = None"
    and live: "\<And>p. map_of (lc_ops c) i = Some p \<Longrightarrow> \<not> g_cancelled p"
  shows "stages (prepare_launch sessions configured i c)"
proof -
  note st = mentions_at [OF c, of i]
  define p where "p = (case map_of (lc_ops c) i of Some p \<Rightarrow> p | None \<Rightarrow> new_operation configured True c)"
  define c1 where "c1 = (case map_of (lc_ops c) i of Some p \<Rightarrow> c | None \<Rightarrow> c\<lparr>lc_sequence := lc_sequence c + 1\<rparr>)"
  have f1: "lc_checks c1 = lc_checks c" "lc_validated c1 = lc_validated c" "lc_displays c1 = lc_displays c"
      "lc_launches c1 = lc_launches c" "lc_workers c1 = lc_workers c" "lc_tasks c1 = lc_tasks c" "lc_ops c1 = lc_ops c"
      "lc_checked c1 = lc_checked c" "lc_sequence c \<le> lc_sequence c1" "lc_identities c1 = lc_identities c"
    by (simp_all add: c1_def split: option.split)
  have p: "cs_id (g_session p) = i" "g_generation p < lc_sequence c1" "g_launch_requested p" "\<not> g_cancelled p"
    using st i live by (auto simp: p_def c1_def stage_ok_def new_operation_def mentions_def split: option.split)
  have m: "tasks_of i (lc_tasks c) = []" "map_of (lc_workers c) i = None"
      "map_of (lc_validated c) i = Some r \<Longrightarrow> (g_session p, r) \<in> set (lc_checked c)" for r
    using st i live by (auto simp: p_def stage_ok_def mentions_def split: option.splits)
  have fail: "stages (c1\<lparr>lc_validated := hm_remove i (lc_validated c1), lc_ops := hm_remove i (lc_ops c1)\<rparr>)"
    by (rule stages_step [OF c, of _ i]) (use m i f1 in \<open>auto simp: mentions_def stage_ok_def\<close>)
  have ok: "stages (case map_of (lc_validated c1) i of None \<Rightarrow> spawn_check i (g_generation q) (g_session q) c2
       | Some report \<Rightarrow> assign_display sessions i q report c2)"
    if q: "q = p\<lparr>g_reservation := Some r\<rparr>" and c2: "c2 = c1\<lparr>lc_ops := hm_insert i q (lc_ops c1), lc_identities := t,
                        lc_validated := hm_remove i (lc_validated c1)\<rparr>" for q r t c2
  proof (cases "map_of (lc_validated c1) i")
    case None
    have "stages (spawn_check i (g_generation q) (g_session q) c2)"
      by (rule stages_step [OF c, of _ i]) (use None m i p f1 q in \<open>auto simp: c2 spawn_check_def mentions_def stage_ok_def\<close>)
    with None show ?thesis by simp
  next
    case (Some report)
    have "stages (start_on_slot i q report a c2)" "stages (remove_operation i c2)" for a
      by (rule start_on_slot_stages [OF c, where p = q and r = report]; use Some m i p f1 q in \<open>auto simp: c2 mentions_def\<close>)+
    with Some show ?thesis by (simp add: assign_display_def Let_def)
  qed
  have first: "(case map_of (lc_ops c) i of Some p \<Rightarrow> (p, c)
      | None \<Rightarrow> (new_operation configured True c, c\<lparr>lc_sequence := lc_sequence c + 1\<rparr>)) = (p, c1)"
    by (simp add: p_def c1_def split: option.split)
  show ?thesis
    unfolding prepare_launch_def first Let_def prod.case
    using fail ok by (auto split: sum.split dest!: reserve_runtime_Inr)
qed

lemma start_stages:
  assumes c: "stages c" and i: "is_saved i" and s: "start_session_message sessions i c = Some c'"
    and apart: "is_active i (c\<lparr>lc_sl := reap_exited_container_sessions (lc_sl c)\<rparr>) \<Longrightarrow> map_of (lc_displays c) i = None \<and> map_of (lc_launches c) i = None"
  shows "stages c'"
proof (cases "find (\<lambda>s. cs_id s = i) sessions = None \<or> cleanup_session_busy i c")
  case True
  with assms show ?thesis by (auto simp: start_session_message_def split: option.splits)
next
  case False
  then obtain configured where f: "find (\<lambda>s. cs_id s = i) sessions = Some configured" and b: "\<not> cleanup_session_busy i c" by auto
  let ?c1 = "c\<lparr>lc_sl := reap_exited_container_sessions (lc_sl c)\<rparr>"
  have c1: "stages ?c1" using c by simp
  note st = mentions_at [OF c1, of i]
  show ?thesis
  proof (cases "is_active i ?c1")
    case True
    have "stages (remove_operation i (?c1\<lparr>lc_validated := hm_remove i (lc_validated ?c1)\<rparr>))" if "i \<notin> lc_checks ?c1"
      by (rule stages_step [OF c1, of _ i])
        (use that st apart [OF True] in \<open>auto simp: mentions_def stage_ok_def split: option.splits\<close>)
    then show ?thesis using True f b i s c1 by (auto simp: start_session_message_def Let_def split: if_splits)
  next
    case idle: False
    show ?thesis
    proof (cases "join_check i ?c1")
      case (Some c2)
      with join_stages [OF c1 Some] f b i s idle show ?thesis by (simp add: start_session_message_def Let_def)
    next
      case None
      have "stages (prepare_launch sessions configured i ?c1)"
        if "map_of (lc_displays ?c1) i = None" "map_of (lc_launches ?c1) i = None"
      proof (rule prepare_stages [OF c1 i _ _ that])
        show "cs_id configured = i" using f by (auto simp: find_Some_iff)
        have join: "\<And>p. map_of (lc_ops ?c1) i = Some p \<Longrightarrow> \<not> g_cancelled p \<and> i \<notin> lc_checks ?c1"
          using None by (auto simp: join_check_def split: if_splits sum.splits)
        then show "\<And>p. map_of (lc_ops ?c1) i = Some p \<Longrightarrow> \<not> g_cancelled p" by blast
        show "i \<notin> lc_checks ?c1"
          using join st by (cases "map_of (lc_ops ?c1) i") (auto simp: stage_ok_def mentions_def)
      qed
      with None f b i s idle c1 show ?thesis by (auto simp: start_session_message_def Let_def split: if_splits)
    qed
  qed
qed

lemma start_total: "is_saved i \<Longrightarrow> \<exists>c'. start_session_message sessions i c = Some c'"
  by (auto simp: start_session_message_def Let_def split: option.splits)

lemma roll_back_saved:
  assumes "is_saved i"
  obtains s where "roll_back i slot report worker c = Some (move_operation i (c\<lparr>lc_sl := s\<rparr>))"
    "queue_launch_cleanup i slot report worker (map_option operation_of (map_of (lc_ops c) i)) (lc_sl c) = Some s"
  using assms that by (auto simp: roll_back_def queue_launch_cleanup_def activity_begin_def)

lemma stop_stages:
  assumes c: "stages c"
  shows "stages (stop_session_message i c)"
proof (cases "map_of (lc_ops c) i")
  case None
  with c show ?thesis by (simp add: stop_session_message_def Let_def)
next
  case (Some p)
  note st = mentions_at [OF c, of i, unfolded Some]
  let ?c1 = "c\<lparr>lc_ops := hm_insert i (p\<lparr>g_cancelled := True\<rparr>) (lc_ops c), lc_stopped := (i, g_generation p) # lc_stopped c\<rparr>"
  let ?worker = "i \<in> lc_checks c \<or> hm_contains i (lc_displays c) \<or> hm_contains i (lc_launches c)"
  have marked: "stages ?c1" if ?worker
    by (rule stages_step [OF c, of _ i]) (use st that in \<open>auto simp: mentions_def stage_ok_def\<close>)
  have gone: "stages (remove_operation i (?c1\<lparr>lc_validated := hm_remove i (lc_validated ?c1)\<rparr>))" if "\<not> ?worker"
    by (rule stages_step [OF c, of _ i]) (use st that in \<open>auto simp: mentions_def stage_ok_def\<close>)
  define c2 where "c2 = (if ?worker then ?c1 else remove_operation i (?c1\<lparr>lc_validated := hm_remove i (lc_validated ?c1)\<rparr>))"
  have "stages c2" unfolding c2_def using marked gone by simp
  moreover have "stop_session_message i c =
      (if is_active i c2 then c2\<lparr>lc_sl := snd (request_graceful_container_stop i (lc_sl c2))\<rparr> else c2)"
    unfolding stop_session_message_def Some Let_def option.case c2_def by (rule refl)
  ultimately show ?thesis by simp
qed

text \<open>Taking a reply out of flight.\<close>

lemma taken_fields [simp]:
  "lc_sl (take_task t ps c) = lc_sl c" "lc_ops (take_task t ps c) = lc_ops c" "lc_checks (take_task t ps c) = lc_checks c"
  "lc_validated (take_task t ps c) = lc_validated c" "lc_displays (take_task t ps c) = lc_displays c"
  "lc_launches (take_task t ps c) = lc_launches c" "lc_workers (take_task t ps c) = lc_workers c"
  "lc_managed (take_task t ps c) = lc_managed c" "lc_identities (take_task t ps c) = lc_identities c"
  "lc_held (take_task t ps c) = lc_held c" "lc_launched (take_task t ps c) = lc_launched c"
  "lc_sequence (take_task t ps c) = lc_sequence c" "lc_checked (take_task t ps c) = lc_checked c"
  "lc_stopped (take_task t ps c) = lc_stopped c" "lc_started (take_task t ps c) = lc_started c"
  "lc_tasks (take_task t ps c) = remove1 t (lc_tasks c)" "lc_received (take_task t ps c) = ps @ lc_received c"
  by (simp_all add: take_task_def)

lemma mentions_taken:
  "mentions (take_task t ps c) j = (case mentions c j of (a, b, d, e, f, ts) \<Rightarrow>
     (a, b, d, e, f, if task_profile t = Some j then remove1 t ts else ts))"
  by (simp add: mentions_def tasks_of_remove1)

lemma taken_current:
  "map_of (lc_ops c) i = Some p \<Longrightarrow> cs_id (g_session p) = i \<Longrightarrow> is_current i (g_generation p) (take_task t ps c)"
  by (simp add: is_current_def current_operation_def operation_of_def)

lemma display_started_cases:
  assumes c: "stages c" and t: "DisplayTask i g slot \<in> set (lc_tasks c)"
    and c0: "c0 = take_task (DisplayTask i g slot) [w_child d] c"
  obtains p r where "map_of (lc_ops c) i = Some p" "cs_id (g_session p) = i" "is_saved i" "g = g_generation p"
      "g_reservation p \<noteq> None" "(g_session p, r) \<in> set (lc_checked c)" "map_of (lc_displays c) i = Some slot"
      "mentions c i = (False, Some r, Some slot, None, False, [DisplayTask i g slot])"
      "(\<exists>s s'. (s = lc_sl c \<or> s = reap_exited_container_sessions (lc_sl c))
          \<and> queue_launch_cleanup i slot None (Some d) (Some (operation_of p)) s = Some s'
          \<and> display_started i g slot d c0 = Some (move_operation i (c0\<lparr>lc_displays := hm_remove i (lc_displays c),
               lc_validated := hm_remove i (lc_validated c), lc_sl := s'\<rparr>)))
       \<or> (\<not> g_cancelled p \<and> \<not> hm_contains slot (lc_managed c) \<and> \<not> slot_managed slot c
          \<and> display_started i g slot d c0 = Some (spawn_launch i g (g_session p) r slot
             (c0\<lparr>lc_displays := hm_remove i (lc_displays c), lc_sl := reap_exited_container_sessions (lc_sl c),
                 lc_validated := hm_remove i (lc_validated c), lc_workers := hm_insert i d (lc_workers c)\<rparr>)))"
proof -
  obtain p r where p: "map_of (lc_ops c) i = Some p" "is_saved i" "cs_id (g_session p) = i" "g = g_generation p"
      "g_reservation p \<noteq> None" "(g_session p, r) \<in> set (lc_checked c)"
    and m: "mentions c i = (False, Some r, Some slot, None, False, [DisplayTask i g slot])"
    using stage_of_display [OF c t] by blast
  have slot: "map_of (lc_displays c) i = Some slot" "map_of (lc_validated c) i = Some r" using m by (simp_all add: mentions_def)
  have cur: "is_current i g c0" using taken_current [OF p(1,3)] p(4) by (simp add: c0)
  let ?c1 = "c0\<lparr>lc_displays := hm_remove i (lc_displays c)\<rparr>"
  let ?c2 = "?c1\<lparr>lc_sl := reap_exited_container_sessions (lc_sl c)\<rparr>"
  have give_up: "\<exists>s'. queue_launch_cleanup i slot None (Some d) (Some (operation_of p)) (lc_sl e) = Some s'
      \<and> roll_back i slot None (Some d) (e\<lparr>lc_validated := hm_remove i (lc_validated e)\<rparr>)
        = Some (move_operation i (e\<lparr>lc_validated := hm_remove i (lc_validated e), lc_sl := s'\<rparr>))"
    if "lc_ops e = lc_ops c" for e
    using roll_back_saved [OF p(2), of slot None "Some d" "e\<lparr>lc_validated := hm_remove i (lc_validated e)\<rparr>"] that p(1) by auto
  have f0: "lc_displays c0 = lc_displays c" "lc_ops c0 = lc_ops c" "lc_validated c0 = lc_validated c" "lc_sl c0 = lc_sl c"
      "lc_managed c0 = lc_managed c" "lc_workers c0 = lc_workers c"
    by (simp_all add: c0)
  let ?blocked = "g_cancelled p \<or> cleanup_display_busy slot ?c1 \<or> profile_display_pending slot (lc_displays ?c1) (lc_launches ?c1)
      \<or> hm_contains slot (lc_managed c) \<or> slot_managed slot ?c1"
  consider (early) ?blocked | (late) "\<not> ?blocked" "is_active i ?c2 \<or> slot_in_use slot ?c2"
    | (go) "\<not> ?blocked" "\<not> (is_active i ?c2 \<or> slot_in_use slot ?c2)" by blast
  then have "(\<exists>s s'. (s = lc_sl c \<or> s = reap_exited_container_sessions (lc_sl c))
          \<and> queue_launch_cleanup i slot None (Some d) (Some (operation_of p)) s = Some s'
          \<and> display_started i g slot d c0 = Some (move_operation i (c0\<lparr>lc_displays := hm_remove i (lc_displays c),
               lc_validated := hm_remove i (lc_validated c), lc_sl := s'\<rparr>)))
       \<or> (\<not> g_cancelled p \<and> \<not> hm_contains slot (lc_managed c) \<and> \<not> slot_managed slot c
          \<and> display_started i g slot d c0 = Some (spawn_launch i g (g_session p) r slot
             (c0\<lparr>lc_displays := hm_remove i (lc_displays c), lc_sl := reap_exited_container_sessions (lc_sl c),
                 lc_validated := hm_remove i (lc_validated c), lc_workers := hm_insert i d (lc_workers c)\<rparr>)))"
  proof cases
    case early
    obtain s' where s': "queue_launch_cleanup i slot None (Some d) (Some (operation_of p)) (lc_sl c) = Some s'"
        "roll_back i slot None (Some d) (?c1\<lparr>lc_validated := hm_remove i (lc_validated ?c1)\<rparr>)
          = Some (move_operation i (?c1\<lparr>lc_validated := hm_remove i (lc_validated ?c1), lc_sl := s'\<rparr>))"
      using give_up [of ?c1] f0 by auto
    have "display_started i g slot d c0 = roll_back i slot None (Some d) (?c1\<lparr>lc_validated := hm_remove i (lc_validated ?c1)\<rparr>)"
      using early cur slot p f0 by (auto simp: display_started_def Let_def)
    with s' f0 show ?thesis by auto
  next
    case late
    obtain s' where s': "queue_launch_cleanup i slot None (Some d) (Some (operation_of p)) (reap_exited_container_sessions (lc_sl c)) = Some s'"
        "roll_back i slot None (Some d) (?c2\<lparr>lc_validated := hm_remove i (lc_validated ?c2)\<rparr>)
          = Some (move_operation i (?c2\<lparr>lc_validated := hm_remove i (lc_validated ?c2), lc_sl := s'\<rparr>))"
      using give_up [of ?c2] f0 by auto
    have "display_started i g slot d c0 = roll_back i slot None (Some d) (?c2\<lparr>lc_validated := hm_remove i (lc_validated ?c2)\<rparr>)"
      using late cur slot p f0 by (auto simp: display_started_def Let_def)
    with s' f0 show ?thesis by auto
  next
    case go
    then have "\<not> g_cancelled p" "\<not> hm_contains slot (lc_managed c)" "\<not> slot_managed slot c"
      by (simp_all add: slot_managed_def f0)
    moreover have "display_started i g slot d c0 = Some (spawn_launch i g (g_session p) r slot
        (?c2\<lparr>lc_validated := hm_remove i (lc_validated ?c2), lc_workers := hm_insert i d (lc_workers ?c2)\<rparr>))"
      using go cur slot p f0 by (simp add: display_started_def Let_def)
    ultimately show ?thesis by (simp add: f0)
  qed
  with that [OF p(1,3,2,4,5,6) slot(1) m] show ?thesis by blast
qed

abbreviation report_of :: "'e + 'r \<Rightarrow> 'r option" where
  "report_of result \<equiv> (case result of Inl _ \<Rightarrow> None | Inr r \<Rightarrow> Some r)"

lemma launch_finished_cases:
  assumes c: "stages c" and t: "LaunchTask i g s r slot \<in> set (lc_tasks c)"
    and c0: "c0 = take_task (LaunchTask i g s r slot) (report_children result) c"
  obtains p b where "map_of (lc_ops c) i = Some p" "cs_id (g_session p) = i" "is_saved i" "g = g_generation p"
      "g_reservation p \<noteq> None" "s = g_session p" "map_of (lc_launches c) i = Some slot" "map_of (lc_displays c) i = None"
      "mentions c i = (False, None, None, Some slot, b, [LaunchTask i g s r slot])"
      "g_cancelled p \<and> (\<exists>s'. queue_launch_cleanup i slot (report_of result) (map_of (lc_workers c) i) (Some (operation_of p)) (lc_sl c) = Some s'
          \<and> launch_finished i g slot sound result c0 = Some (move_operation i (c0\<lparr>lc_launches := hm_remove i (lc_launches c),
               lc_workers := hm_remove i (lc_workers c), lc_sl := s'\<rparr>)))
       \<or> \<not> g_cancelled p \<and> launch_finished i g slot sound result c0 =
            Some (complete_container_session_launch i p slot (map_of (lc_workers c) i) sound result
              (c0\<lparr>lc_launches := hm_remove i (lc_launches c), lc_workers := hm_remove i (lc_workers c),
                  lc_ops := hm_remove i (lc_ops c)\<rparr>))"
proof -
  obtain p b where p: "map_of (lc_ops c) i = Some p" "is_saved i" "cs_id (g_session p) = i" "g = g_generation p" "s = g_session p"
      "g_reservation p \<noteq> None" "(s, r) \<in> set (lc_checked c)"
    and m: "mentions c i = (False, None, None, Some slot, b, [LaunchTask i g s r slot])"
    using stage_of_launch [OF c t] by blast
  have slot: "map_of (lc_launches c) i = Some slot" "map_of (lc_displays c) i = None" using m by (simp_all add: mentions_def)
  have cur: "is_current i g c0" using taken_current [OF p(1,3)] p(4) by (simp add: c0)
  have f0: "lc_launches c0 = lc_launches c" "lc_ops c0 = lc_ops c" "lc_sl c0 = lc_sl c" "lc_workers c0 = lc_workers c"
    by (simp_all add: c0)
  let ?c1 = "c0\<lparr>lc_launches := hm_remove i (lc_launches c0), lc_workers := hm_remove i (lc_workers c0)\<rparr>"
  obtain s' where s': "queue_launch_cleanup i slot (report_of result) (map_of (lc_workers c) i) (Some (operation_of p)) (lc_sl c) = Some s'"
      "roll_back i slot (report_of result) (map_of (lc_workers c) i) ?c1 = Some (move_operation i (?c1\<lparr>lc_sl := s'\<rparr>))"
    using roll_back_saved [OF p(2), of slot "report_of result" "map_of (lc_workers c) i" ?c1] p(1) f0 by auto
  have fin: "launch_finished i g slot sound result c0 =
      (if g_cancelled p then roll_back i slot (report_of result) (map_of (lc_workers c) i) ?c1
       else Some (complete_container_session_launch i p slot (map_of (lc_workers c) i) sound result
              (?c1\<lparr>lc_ops := hm_remove i (lc_ops ?c1)\<rparr>)))"
    using cur slot p f0 by (simp add: launch_finished_def Let_def)
  show ?thesis
    by (rule that [OF p(1,3,2,4,6,5) slot m]) (use s' fin f0 in auto)
qed

lemma completed_fields [simp]:
  "lc_ops (complete_container_session_launch i p slot w b res c) = lc_ops c"
  "lc_checks (complete_container_session_launch i p slot w b res c) = lc_checks c"
  "lc_validated (complete_container_session_launch i p slot w b res c) = lc_validated c"
  "lc_displays (complete_container_session_launch i p slot w b res c) = lc_displays c"
  "lc_launches (complete_container_session_launch i p slot w b res c) = lc_launches c"
  "lc_workers (complete_container_session_launch i p slot w b res c) = lc_workers c"
  "lc_managed (complete_container_session_launch i p slot w b res c) = lc_managed c"
  "lc_sequence (complete_container_session_launch i p slot w b res c) = lc_sequence c"
  "lc_tasks (complete_container_session_launch i p slot w b res c) = lc_tasks c"
  "lc_checked (complete_container_session_launch i p slot w b res c) = lc_checked c"
  "lc_stopped (complete_container_session_launch i p slot w b res c) = lc_stopped c"
  "lc_received (complete_container_session_launch i p slot w b res c) = lc_received c"
  by (auto simp: complete_container_session_launch_def Let_def split: sum.split option.split)

lemma display_started_stages:
  assumes c: "stages c" and t: "DisplayTask i g slot \<in> set (lc_tasks c)"
  shows "\<exists>c'. display_started i g slot d (take_task (DisplayTask i g slot) [w_child d] c) = Some c' \<and> stages c'"
proof (rule display_started_cases [OF c t refl, of d], goal_cases)
  case (1 p r)
  note st = mentions_at [OF c, of i, unfolded 1(1,8)]
  have "stages (move_operation i ((take_task (DisplayTask i g slot) [w_child d] c)\<lparr>lc_displays := hm_remove i (lc_displays c),
      lc_validated := hm_remove i (lc_validated c), lc_sl := s\<rparr>))" for s
    by (rule stages_step [OF c, of _ i]) (use 1(8) in \<open>auto simp: mentions_def stage_ok_def tasks_of_remove1\<close>)
  moreover have "stages (spawn_launch i g (g_session p) r slot
     ((take_task (DisplayTask i g slot) [w_child d] c)\<lparr>lc_displays := hm_remove i (lc_displays c), lc_sl := s,
         lc_validated := hm_remove i (lc_validated c), lc_workers := hm_insert i d (lc_workers c)\<rparr>))" for s
    by (rule stages_step [OF c, of _ i])
      (use 1 st in \<open>auto simp: mentions_def stage_ok_def tasks_of_remove1 spawn_launch_def\<close>)
  ultimately show ?case using 1(9) by auto
qed

lemma display_failed_stages:
  assumes c: "stages c" and t: "DisplayTask i g slot \<in> set (lc_tasks c)"
  shows "stages (display_failed i g slot (take_task (DisplayTask i g slot) [] c))"
proof (rule stage_of_display [OF c t], goal_cases)
  case (1 p r)
  have "is_current i g (take_task (DisplayTask i g slot) [] c)" using taken_current [OF 1(1,3)] 1(4) by simp
  moreover have "map_of (lc_displays c) i = Some slot" using 1(7) by (simp add: mentions_def)
  moreover have "stages (remove_operation i ((take_task (DisplayTask i g slot) [] c)\<lparr>lc_displays := hm_remove i (lc_displays c),
      lc_validated := hm_remove i (lc_validated c)\<rparr>))"
    by (rule stages_step [OF c, of _ i]) (use 1(7) in \<open>auto simp: mentions_def stage_ok_def tasks_of_remove1\<close>)
  ultimately show ?case by (simp add: display_failed_def)
qed

lemma launch_finished_stages:
  assumes c: "stages c" and t: "LaunchTask i g s r slot \<in> set (lc_tasks c)"
  shows "\<exists>c'. launch_finished i g slot sound result (take_task (LaunchTask i g s r slot) (report_children result) c) = Some c' \<and> stages c'"
proof (rule launch_finished_cases [OF c t refl, of result sound], goal_cases)
  case (1 p b)
  let ?c0 = "take_task (LaunchTask i g s r slot) (report_children result) c"
  have "stages (move_operation i (?c0\<lparr>lc_launches := hm_remove i (lc_launches c), lc_workers := hm_remove i (lc_workers c), lc_sl := s'\<rparr>))" for s'
    by (rule stages_step [OF c, of _ i]) (use 1(9) in \<open>auto simp: mentions_def stage_ok_def tasks_of_remove1\<close>)
  moreover have "stages (complete_container_session_launch i p slot (map_of (lc_workers c) i) sound result
      (?c0\<lparr>lc_launches := hm_remove i (lc_launches c), lc_workers := hm_remove i (lc_workers c), lc_ops := hm_remove i (lc_ops c)\<rparr>))"
    by (rule stages_step [OF c, of _ i]) (use 1(9) in \<open>auto simp: mentions_def stage_ok_def tasks_of_remove1\<close>)
  ultimately show ?case using 1(10) by auto
qed

subsection \<open>Sessions and displays only leave\<close>

text \<open>
  What identifies an active session, and the processes that the event loop and the cleanup queue
  hold. The steps of \<open>Session_Lifecycle\<close> only remove sessions and displays, and keep the processes.
\<close>

definition core :: "active_session \<Rightarrow> active_session" where
  "core x = x\<lparr>s_audio := None, s_stopping := None, s_force_offered := False\<rparr>"

definition session_children :: "active_session \<Rightarrow> nat set" where
  "session_children x = set (bundle_children (SessionBundle x [] []))"

definition procs :: "sl \<Rightarrow> nat set" where
  "procs s = owned_children s \<union> (\<Union>x \<in> set (sl_active s). session_children x)"

definition shrinks :: "sl \<Rightarrow> sl \<Rightarrow> bool" where
  "shrinks s s' \<longleftrightarrow>
     mset (map core (sl_active s')) \<subseteq># mset (map core (sl_active s)) \<and> mset (sl_displays s') \<subseteq># mset (sl_displays s)
     \<and> (fresh_jobs s \<longrightarrow> fresh_jobs s' \<and> procs s \<subseteq> procs s')"

lemma shrinks_refl [simp]: "shrinks s s"
  by (simp add: shrinks_def)

lemma shrinks_trans: "shrinks s s' \<Longrightarrow> shrinks s' s'' \<Longrightarrow> shrinks s s''"
  unfolding shrinks_def by (blast intro: subset_mset.order_trans)

lemma session_children_core [simp]: "session_children (core x) = session_children x"
  by (simp add: session_children_def core_def)

lemma children_of_cores: "(\<Union>x \<in> set xs. session_children x) = (\<Union>x \<in> set (map core xs). session_children x)"
  by simp

lemma bundle_children_session: "set (bundle_children (SessionBundle x a b)) = session_children x"
  by (simp add: session_children_def)

lemma enqueue_shrinks:
  assumes "mset (map core (sl_active t)) \<subseteq># mset (map core (sl_active s))" "mset (sl_displays t) \<subseteq># mset (sl_displays s)"
    and "fresh_jobs s \<Longrightarrow> fresh_jobs t"
    and "fresh_jobs s \<Longrightarrow> procs s \<subseteq> procs t \<union> set (bundle_children b)"
  shows "shrinks s (enqueue_bundle k b t)"
proof -
  have same: "sl_active (enqueue_bundle k b t) = sl_active t" "sl_displays (enqueue_bundle k b t) = sl_displays t"
    by (simp_all add: enqueue_bundle_def)
  have "fresh_jobs (enqueue_bundle k b t) \<and> procs s \<subseteq> procs (enqueue_bundle k b t)" if "fresh_jobs s"
    using enqueue_bundle_owned [OF assms(3) [OF that]] assms(4) [OF that] by (auto simp: procs_def same)
  with assms(1,2) show ?thesis by (simp add: shrinks_def same)
qed

lemma enqueue_more: "shrinks s (enqueue_bundle k b s)"
  by (rule enqueue_shrinks) auto

lemma enqueue_procs: "fresh_jobs s \<Longrightarrow> procs (enqueue_bundle k b s) = procs s \<union> set (bundle_children b)"
  using enqueue_bundle_owned(2) [of s k b] by (auto simp: procs_def enqueue_bundle_def)

lemma plain_updates [simp]:
  "fresh_jobs (s\<lparr>sl_os := p\<rparr>) = fresh_jobs s" "procs (s\<lparr>sl_os := p\<rparr>) = procs s"
  "fresh_jobs (s\<lparr>sl_ui := u\<rparr>) = fresh_jobs s" "procs (s\<lparr>sl_ui := u\<rparr>) = procs s"
  "fresh_jobs (s\<lparr>sl_active := a\<rparr>) = fresh_jobs s" "fresh_jobs (s\<lparr>sl_displays := d\<rparr>) = fresh_jobs s"
  "procs (s\<lparr>sl_activities := t\<rparr>) = procs s" "owned_children (s\<lparr>sl_active := a\<rparr>) = owned_children s"
  "owned_children (s\<lparr>sl_displays := d\<rparr>) = owned_children s" "procs (s\<lparr>sl_displays := d\<rparr>) = procs s"
  by (simp_all add: fresh_jobs_def procs_def owned_children_def)

lemma clock_updates [simp]:
  "fresh_jobs (snd (sl_now s)) = fresh_jobs s" "procs (snd (sl_now s)) = procs s" "sl_displays (snd (sl_now s)) = sl_displays s"
  by (simp_all add: sl_now_def read_clock_def fresh_jobs_def open_queue_def procs_def owned_children_def)

lemma shrinks_os [simp]: "shrinks s (s\<lparr>sl_os := p\<rparr>)" and shrinks_clock [simp]: "shrinks s (snd (sl_now s))"
  by (simp_all add: shrinks_def)

lemma offer_shrinks: "shrinks s (snd (offer_force_stop x s))" "core (fst (offer_force_stop x s)) = core x"
  "sl_active (snd (offer_force_stop x s)) = sl_active s" "sl_displays (snd (offer_force_stop x s)) = sl_displays s"
  by (auto simp: offer_force_stop_def split_beta Let_def core_def shrinks_def offer_fields split: option.split)

lemma stop_active_shrinks: "shrinks s (snd (stop_active_container_session i s))"
proof (cases "position (\<lambda>x. s_profile x = i) (sl_active s)")
  case (Some p)
  note p = position_Some(1) [OF Some]
  let ?x = "sl_active s ! p" and ?s1 = "s\<lparr>sl_active := remove_at p (sl_active s)\<rparr>"
  have m: "mset (sl_active s) = add_mset ?x (mset (remove_at p (sl_active s)))" by (rule mset_remove_at [OF p])
  then have sub: "mset (map core (remove_at p (sl_active s))) \<subseteq># mset (map core (sl_active s))" by simp
  have set: "set (sl_active s) = insert ?x (set (remove_at p (sl_active s)))"
    using m by (metis set_mset_add_mset_insert set_mset_mset)
  obtain t s2 where s2: "(case s_stopping ?x of Some t \<Rightarrow> (t, ?s1) | None \<Rightarrow> sl_now ?s1) = (t, s2)"
    by (cases "case s_stopping ?x of Some t \<Rightarrow> (t, ?s1) | None \<Rightarrow> sl_now ?s1")
  have "s2 = ?s1 \<or> s2 = snd (sl_now ?s1)" using s2 by (auto split: option.splits)
  then have f: "sl_active s2 = remove_at p (sl_active s)" "sl_displays s2 = sl_displays s" "fresh_jobs s2 = fresh_jobs s" "procs s2 = procs ?s1"
    by auto
  let ?b = "SessionBundle ((?x\<lparr>s_stopping := Some t\<rparr>)\<lparr>s_audio := map_option audio_request_stop (s_audio ?x)\<rparr>) ''application'' ''force stopped''"
  have "procs s = procs ?s1 \<union> session_children ?x" unfolding procs_def by (auto simp: set)
  moreover have "session_children ?x = set (bundle_children ?b)" by (simp add: session_children_def)
  ultimately have "procs s \<subseteq> procs s2 \<union> set (bundle_children ?b)" unfolding f(4) by blast
  then have "shrinks s (enqueue_bundle (Session (s_profile ?x) (s_slot ?x)) ?b s2)"
    using sub f by (intro enqueue_shrinks) auto
  then show ?thesis
    by (simp add: stop_active_container_session_def Some Let_def s2 queue_session_cleanup_def)
qed (simp add: stop_active_container_session_def)

lemma graceful_cores: "map core (sl_active (snd (request_graceful_container_stop i s))) = map core (sl_active s)"
proof (cases "position (\<lambda>x. s_profile x = i) (sl_active s)")
  case (Some p)
  note p = position_Some(1) [OF Some]
  have "map core ((sl_active s)[p := y]) = map core (sl_active s)" if "core y = core (sl_active s ! p)" for y
    using that p by (simp add: map_update) (metis list_update_id nth_map)
  with Some show ?thesis
    by (simp add: request_graceful_container_stop_def Let_def split_beta core_def)
qed (simp add: request_graceful_container_stop_def)

lemma graceful_form:
  "snd (request_graceful_container_stop i s) = s
   \<or> (\<exists>a p. snd (request_graceful_container_stop i s) = (snd (sl_now s))\<lparr>sl_active := a, sl_os := p\<rparr>)"
  by (cases "position (\<lambda>x. s_profile x = i) (sl_active s)")
    (auto simp: request_graceful_container_stop_def Let_def split_beta)

lemma graceful_shrinks: "shrinks s (snd (request_graceful_container_stop i s))"
proof -
  let ?s = "snd (request_graceful_container_stop i s)"
  have same: "sl_displays ?s = sl_displays s" "fresh_jobs ?s = fresh_jobs s" "owned_children ?s = owned_children s"
    using graceful_form [of i s] by (auto simp: fresh_jobs_def open_queue_def owned_children_def sl_now_def read_clock_def)
  then have "procs ?s = procs s"
    unfolding procs_def children_of_cores [of "sl_active ?s"] children_of_cores [of "sl_active s"] graceful_cores by simp
  with same show ?thesis by (simp add: shrinks_def graceful_cores)
qed

lemma reap_sessions_shrinks:
  "mset (map core (fst (reap_sessions xs s))) \<subseteq># mset (map core xs)
   \<and> sl_displays (snd (reap_sessions xs s)) = sl_displays s \<and> sl_active (snd (reap_sessions xs s)) = sl_active s
   \<and> (fresh_jobs s \<longrightarrow> fresh_jobs (snd (reap_sessions xs s))
        \<and> owned_children s \<union> (\<Union>x \<in> set xs. session_children x)
            \<subseteq> owned_children (snd (reap_sessions xs s)) \<union> (\<Union>x \<in> set (fst (reap_sessions xs s)). session_children x))"
proof (induction xs arbitrary: s)
  case (Cons x xs)
  obtain r p where e: "session_exit x (sl_os s) = (r, p)" by (cases "session_exit x (sl_os s)")
  show ?case
  proof (cases r)
    case (Some y)
    obtain process st where y: "y = (process, st)" by (cases y)
    let ?s1 = "queue_session_cleanup x process st (s\<lparr>sl_os := p\<rparr>)"
    have f: "sl_active ?s1 = sl_active s" "sl_displays ?s1 = sl_displays s"
      by (simp_all add: queue_session_cleanup_def enqueue_bundle_def)
    have "fresh_jobs s \<Longrightarrow> fresh_jobs ?s1 \<and> owned_children ?s1 = owned_children s \<union> session_children x"
      using enqueue_bundle_owned [of "s\<lparr>sl_os := p\<rparr>"]
      by (simp add: queue_session_cleanup_def bundle_children_session owned_children_def session_children_def)
    with Cons.IH [of ?s1] e Some y f show ?thesis
      by (auto intro: subset_mset.order_trans)
  next
    case None
    let ?s1 = "snd (offer_force_stop x (s\<lparr>sl_os := p\<rparr>))" and ?x = "fst (offer_force_stop x (s\<lparr>sl_os := p\<rparr>))"
    have f: "sl_active ?s1 = sl_active s" "sl_displays ?s1 = sl_displays s" "core ?x = core x"
      by (simp_all add: offer_shrinks)
    have own: "owned_children ?s1 = owned_children s" "fresh_jobs ?s1 = fresh_jobs s"
      by (auto simp: offer_force_stop_def split_beta Let_def owned_children_def fresh_jobs_def open_queue_def sl_now_def
          read_clock_def split: option.split)
    have "session_children ?x = session_children x" by (metis f(3) session_children_core)
    with Cons.IH [of ?s1] e None f own show ?thesis by (auto simp: split_beta Let_def)
  qed
qed simp

lemma reap_shrinks: "shrinks s (reap_exited_container_sessions s)"
  "sl_displays (reap_exited_container_sessions s) = sl_displays s"
  using reap_sessions_shrinks [of "sl_active s" s]
  by (auto simp: reap_exited_container_sessions_def split_beta shrinks_def procs_def)

lemma enqueue_display_more: "shrinks s (enqueue_display_cleanup d slot reason failed s)"
  by (simp add: enqueue_display_cleanup_def enqueue_more)

lemma stop_all_shrinks: "shrinks s (stop_all is s)"
  unfolding stop_all_def
  by (induction "is" arbitrary: s) (auto intro: shrinks_trans stop_active_shrinks)

lemma stop_all_displays: "sl_displays (stop_all is s) = sl_displays s"
proof -
  have "sl_displays (snd (stop_active_container_session i s)) = sl_displays s" for i s
    by (auto simp: stop_active_container_session_def queue_session_cleanup_def enqueue_bundle_def Let_def split_beta
        split: option.split)
  then show ?thesis unfolding stop_all_def by (induction "is" arbitrary: s) auto
qed

definition display_child :: "managed_display \<Rightarrow> nat" where
  "display_child d = w_child (m_worker d)"

lemma reap_display_shrinks:
  "shrinks s (reap_display d reason s)" "sl_displays (reap_display d reason s) = sl_displays s"
  "fresh_jobs s \<Longrightarrow> display_child d \<in> procs (reap_display d reason s)"
proof -
  let ?t = "stop_all (map s_profile (filter (\<lambda>x. s_slot x = m_slot d) (sl_active s))) s"
  have r: "reap_display d reason s = enqueue_display_cleanup (m_worker d) (m_slot d) (Some reason) None ?t"
    by (simp add: reap_display_def Let_def)
  show "shrinks s (reap_display d reason s)"
    unfolding r by (rule shrinks_trans [OF stop_all_shrinks enqueue_display_more])
  show "sl_displays (reap_display d reason s) = sl_displays s"
    unfolding r by (simp add: enqueue_display_cleanup_def enqueue_bundle_def stop_all_displays)
  show "display_child d \<in> procs (reap_display d reason s)" if "fresh_jobs s"
  proof -
    have "fresh_jobs ?t" using stop_all_shrinks that by (simp add: shrinks_def)
    then show ?thesis unfolding r enqueue_display_cleanup_def by (simp add: enqueue_procs display_child_def)
  qed
qed

lemma reap_displays_shrinks:
  "shrinks s (snd (reap_displays ds s)) \<and> sl_displays (snd (reap_displays ds s)) = sl_displays s
   \<and> mset (fst (reap_displays ds s)) \<subseteq># mset ds
   \<and> (fresh_jobs s \<longrightarrow> display_child ` set ds \<subseteq> display_child ` set (fst (reap_displays ds s)) \<union> procs (snd (reap_displays ds s)))"
proof (induction ds arbitrary: s)
  case (Cons d ds)
  obtain r p where e: "try_wait (w_child (m_worker d)) (sl_os s) = (r, p)" by (cases "try_wait (w_child (m_worker d)) (sl_os s)")
  let ?s0 = "s\<lparr>sl_os := p\<rparr>"
  have s0: "shrinks s ?s0" by simp
  have gone: ?case if r: "reap_displays (d # ds) s = reap_displays ds (reap_display d reason ?s0)" for reason
  proof -
    let ?s1 = "reap_display d reason ?s0"
    note IH = Cons.IH [of ?s1]
    have "shrinks s ?s1" using shrinks_trans [OF s0 reap_display_shrinks(1)] .
    then have "shrinks s (snd (reap_displays ds ?s1))" using IH shrinks_trans by blast
    moreover have "display_child d \<in> procs (snd (reap_displays ds ?s1))" "fresh_jobs ?s1" if "fresh_jobs s"
      using reap_display_shrinks(1) [of ?s0 d reason] reap_display_shrinks(3) [of ?s0 d reason] IH that by (auto simp: shrinks_def)
    ultimately show ?thesis
      using IH unfolding r by (auto simp: reap_display_shrinks(2) intro: subset_mset.order_trans)
  qed
  show ?case
  proof (cases r)
    case (Inl a)
    with e show ?thesis by (intro gone [of "''monitor error: '' @ show_os_error a"]) simp
  next
    case (Inr a)
    show ?thesis
    proof (cases a)
      case None
      with Inr e have r: "reap_displays (d # ds) s = (d # fst (reap_displays ds ?s0), snd (reap_displays ds ?s0))"
        by (simp add: split_beta Let_def)
      from Cons.IH [of ?s0] shrinks_trans [OF s0] show ?thesis unfolding r by auto
    next
      case (Some b)
      with Inr e show ?thesis by (intro gone [of b]) simp
    qed
  qed
qed simp

lemma reap_managed_shrinks:
  "shrinks s (reap_exited_managed_displays s)"
  "fresh_jobs s \<Longrightarrow> display_child ` set (sl_displays s)
     \<subseteq> display_child ` set (sl_displays (reap_exited_managed_displays s)) \<union> procs (reap_exited_managed_displays s)"
  using reap_displays_shrinks [of s "sl_displays s"]
  by (auto simp: reap_exited_managed_displays_def split_beta shrinks_def)

subsection \<open>One session and one server per display\<close>

text \<open>
  The profiles that have a display, or are about to, with its slot; the slots whose display
  server was started for one session; the slots of managed displays, running or starting.
\<close>

definition holders :: "control \<Rightarrow> slots" where
  "holders c = active_slots c @ lc_displays c @ lc_launches c"

definition exclusive :: "slots \<Rightarrow> bool" where
  "exclusive xs \<longleftrightarrow> distinct (map fst xs) \<and> distinct (map snd xs)"

definition dedicated_sessions :: "sl \<Rightarrow> string set" where
  "dedicated_sessions s = set (map s_slot (filter (\<lambda>x. s_display x \<noteq> None) (sl_active s)))"

definition dedicated_slots :: "control \<Rightarrow> string set" where
  "dedicated_slots c =
     set (map snd (lc_displays c)) \<union> {slot. \<exists>i. (i, slot) \<in> set (lc_launches c) \<and> hm_contains i (lc_workers c)}
     \<union> dedicated_sessions (lc_sl c)"

definition managed_slots :: "control \<Rightarrow> string list" where
  "managed_slots c = map m_slot (sl_displays (lc_sl c)) @ map fst (lc_managed c)"

definition slots_ok :: "control \<Rightarrow> bool" where
  "slots_ok c \<longleftrightarrow>
     exclusive (holders c) \<and> distinct (managed_slots c) \<and> dedicated_slots c \<inter> set (managed_slots c) = {}
     \<and> distinct (map fst (lc_workers c))"

lemma distinct_submset:
  assumes "mset ys \<subseteq># mset xs" "distinct xs"
  shows "distinct ys"
proof -
  obtain zs where "mset xs = mset (ys @ zs)"
    using assms(1) by (metis ex_mset mset_append subset_mset.le_iff_add)
  with assms(2) have "distinct (ys @ zs)" by (metis mset_eq_imp_distinct_iff)
  then show ?thesis by simp
qed

lemma exclusive_sub: "exclusive xs \<Longrightarrow> mset ys \<subseteq># mset xs \<Longrightarrow> exclusive ys"
  unfolding exclusive_def by (metis distinct_submset image_mset_subseteq_mono mset_map)

lemma exclusive_Cons:
  "exclusive ((i, slot) # xs) \<longleftrightarrow> i \<notin> fst ` set xs \<and> slot \<notin> snd ` set xs \<and> exclusive xs"
  by (auto simp: exclusive_def)

lemma active_slots_core: "active_slots c = map (\<lambda>x. (s_profile x, s_slot x)) (map core (actives c))"
  by (simp add: active_slots_def core_def)

lemma shrunk_actives:
  assumes "shrinks (lc_sl c) s"
  shows "mset (active_slots (c\<lparr>lc_sl := s\<rparr>)) \<subseteq># mset (active_slots c)" "dedicated_sessions s \<subseteq> dedicated_sessions (lc_sl c)"
proof -
  have m: "mset (map core (sl_active s)) \<subseteq># mset (map core (actives c))" using assms by (simp add: shrinks_def)
  from image_mset_subseteq_mono [OF m, of "\<lambda>x. (s_profile x, s_slot x)"]
  show "mset (active_slots (c\<lparr>lc_sl := s\<rparr>)) \<subseteq># mset (active_slots c)" by (simp add: active_slots_core image_mset.compositionality comp_def)
  have core: "map s_slot (filter (\<lambda>x. s_display x \<noteq> None) xs) = map s_slot (filter (\<lambda>x. s_display x \<noteq> None) (map core xs))" for xs
    by (induction xs) (auto simp: core_def)
  have "set (map core (sl_active s)) \<subseteq> set (map core (actives c))" using set_mset_mono [OF m] by simp
  then have "set (map s_slot (filter (\<lambda>x. s_display x \<noteq> None) (map core (sl_active s))))
      \<subseteq> set (map s_slot (filter (\<lambda>x. s_display x \<noteq> None) (map core (actives c))))" by auto
  then show "dedicated_sessions s \<subseteq> dedicated_sessions (lc_sl c)"
    unfolding dedicated_sessions_def by (simp only: core [symmetric])
qed

lemma shrunk_profiles: "shrinks (lc_sl c) s \<Longrightarrow> is_active i (c\<lparr>lc_sl := s\<rparr>) \<Longrightarrow> is_active i c"
  using set_mset_mono [OF shrunk_actives(1)] by (fastforce simp: active_slots_def list_ex_iff)

text \<open>Fewer claims on displays.\<close>

lemma slots_fewer:
  assumes ok: "slots_ok c" and h: "mset (holders c') \<subseteq># mset (holders c)" and m: "mset (managed_slots c') \<subseteq># mset (managed_slots c)"
    and d: "dedicated_slots c' \<subseteq> dedicated_slots c" and w: "distinct (map fst (lc_workers c'))"
  shows "slots_ok c'"
proof -
  have "set (managed_slots c') \<subseteq> set (managed_slots c)" using set_mset_mono [OF m] by simp
  with ok d have "dedicated_slots c' \<inter> set (managed_slots c') = {}" unfolding slots_ok_def by blast
  moreover have "exclusive (holders c')" "distinct (managed_slots c')"
    using ok exclusive_sub [OF _ h] distinct_submset [OF m] by (auto simp: slots_ok_def)
  ultimately show ?thesis using w by (simp add: slots_ok_def)
qed

lemma slots_shrunk:
  assumes ok: "slots_ok c" and s: "shrinks (lc_sl c) s"
  shows "slots_ok (c\<lparr>lc_sl := s\<rparr>)"
proof (rule slots_fewer [OF ok])
  show "mset (holders (c\<lparr>lc_sl := s\<rparr>)) \<subseteq># mset (holders c)"
    using shrunk_actives(1) [OF s] by (simp add: holders_def subset_mset.add_right_mono)
  have "mset (map m_slot (sl_displays s)) \<subseteq># mset (map m_slot (sl_displays (lc_sl c)))"
    using s by (simp add: shrinks_def image_mset_subseteq_mono)
  then show "mset (managed_slots (c\<lparr>lc_sl := s\<rparr>)) \<subseteq># mset (managed_slots c)"
    by (simp add: managed_slots_def subset_mset.add_right_mono)
  show "dedicated_slots (c\<lparr>lc_sl := s\<rparr>) \<subseteq> dedicated_slots c"
    using shrunk_actives(2) [OF s] by (auto simp: dedicated_slots_def)
qed (use ok in \<open>simp add: slots_ok_def\<close>)

text \<open>Only these parts of the state matter here.\<close>

lemma slots_cong:
  assumes "slots_ok c" "lc_sl c' = lc_sl c" "lc_displays c' = lc_displays c" "lc_launches c' = lc_launches c"
    "lc_workers c' = lc_workers c" "lc_managed c' = lc_managed c"
  shows "slots_ok c'"
  using assms(1) unfolding slots_ok_def holders_def active_slots_def managed_slots_def dedicated_slots_def assms(2-) .

lemma hm_remove_sub: "mset (hm_remove k m) \<subseteq># mset m"
  by (simp add: hm_remove_def multiset_filter_subset mset_filter)

lemma slots_released:
  assumes ok: "slots_ok c"
  shows "slots_ok (c\<lparr>lc_displays := hm_remove i (lc_displays c)\<rparr>)"
    "slots_ok (c\<lparr>lc_launches := hm_remove i (lc_launches c), lc_workers := hm_remove j (lc_workers c)\<rparr>)"
    "slots_ok (c\<lparr>lc_managed := hm_remove slot (lc_managed c)\<rparr>)"
proof -
  have w: "distinct (map fst (lc_workers c))" using ok by (simp add: slots_ok_def)
  have mem: "x \<in> set (hm_remove k m) \<Longrightarrow> x \<in> set m" for x :: "'a \<times> 'b" and k m by (auto simp: hm_remove_def)
  have m: "mset (map f (hm_remove k m)) \<subseteq># mset (map f m)" for f :: "'a \<times> 'b \<Rightarrow> 'c" and k m
    using image_mset_subseteq_mono [OF hm_remove_sub] by simp
  show "slots_ok (c\<lparr>lc_displays := hm_remove i (lc_displays c)\<rparr>)"
    by (rule slots_fewer [OF ok])
      (use w in \<open>auto simp: holders_def active_slots_def managed_slots_def dedicated_slots_def hm_remove_sub
          subset_mset.add_left_mono subset_mset.add_right_mono image_iff dest: mem\<close>)
  show "slots_ok (c\<lparr>lc_launches := hm_remove i (lc_launches c), lc_workers := hm_remove j (lc_workers c)\<rparr>)"
    by (rule slots_fewer [OF ok])
      (use w in \<open>auto simp: holders_def active_slots_def managed_slots_def dedicated_slots_def hm_remove_sub
          subset_mset.add_left_mono split: if_splits dest: mem\<close>)
  show "slots_ok (c\<lparr>lc_managed := hm_remove slot (lc_managed c)\<rparr>)"
    by (rule slots_fewer [OF ok])
      (use w m [of fst slot] in \<open>auto simp: holders_def active_slots_def managed_slots_def dedicated_slots_def subset_mset.add_left_mono\<close>)
qed

lemma slots_claimed:
  assumes ok: "slots_ok c" and i: "i \<notin> fst ` set (holders c)" and slot: "slot \<notin> snd ` set (holders c)"
  shows "map_of (lc_workers c) i = None \<Longrightarrow> slots_ok (c\<lparr>lc_launches := (i, slot) # lc_launches c\<rparr>)"
    "slot \<notin> set (managed_slots c) \<Longrightarrow> slots_ok (c\<lparr>lc_displays := (i, slot) # lc_displays c\<rparr>)"
proof -
  have e: "exclusive ((i, slot) # holders c)" using ok i slot by (simp add: exclusive_Cons slots_ok_def)
  have h: "exclusive (holders (c\<lparr>lc_launches := (i, slot) # lc_launches c\<rparr>))"
      "exclusive (holders (c\<lparr>lc_displays := (i, slot) # lc_displays c\<rparr>))"
    by (rule exclusive_sub [OF e]; simp add: holders_def active_slots_def)+
  show "slots_ok (c\<lparr>lc_launches := (i, slot) # lc_launches c\<rparr>)" if w: "map_of (lc_workers c) i = None"
  proof -
    have "dedicated_slots (c\<lparr>lc_launches := (i, slot) # lc_launches c\<rparr>) = dedicated_slots c"
      using w by (auto simp: dedicated_slots_def)
    with ok h(1) show ?thesis by (simp add: slots_ok_def managed_slots_def)
  qed
  show "slots_ok (c\<lparr>lc_displays := (i, slot) # lc_displays c\<rparr>)" if m: "slot \<notin> set (managed_slots c)"
  proof -
    have "dedicated_slots (c\<lparr>lc_displays := (i, slot) # lc_displays c\<rparr>) = insert slot (dedicated_slots c)"
      by (auto simp: dedicated_slots_def)
    with ok h(2) m show ?thesis by (simp add: slots_ok_def managed_slots_def)
  qed
qed

lemma holder_keys: "i \<in> fst ` set (holders c) \<longleftrightarrow> is_active i c \<or> hm_contains i (lc_displays c) \<or> hm_contains i (lc_launches c)"
proof -
  have "hm_contains i m \<longleftrightarrow> i \<in> fst ` set m" for m :: slots by (simp add: map_of_eq_None_iff)
  then show ?thesis by (auto simp: holders_def active_slots_def list_ex_iff image_Un image_image)
qed

lemma holder_slots:
  "slot \<in> snd ` set (holders c) \<longleftrightarrow> slot_in_use slot c \<or> profile_display_pending slot (lc_displays c) (lc_launches c)"
proof -
  have "profile_display_pending slot d l \<longleftrightarrow> slot \<in> snd ` set (d @ l)" for d l
    by (force simp: profile_display_pending_def list_ex_iff)
  moreover have "slot_in_use slot c \<longleftrightarrow> slot \<in> s_slot ` set (actives c)"
    by (auto simp: slot_in_use_def list_ex_iff)
  ultimately show ?thesis by (auto simp: holders_def active_slots_def image_Un image_image)
qed

text \<open>The test for conflicts finds a slot that nobody holds.\<close>

lemma no_conflict:
  assumes i: "i \<notin> fst ` set (holders c)" and p: "cs_id (g_session p) = i" and k: "position (\<lambda>s. cs_id s = i) sessions = Some k"
    and none: "active_display_conflict_index i (sessions[k := g_session p]) (holders c) taken = None"
  shows "assigned_slot (choose_display_assignment (g_session p)
      (slot_in_use ''default'' c \<or> profile_display_pending ''default'' (lc_displays c) (lc_launches c) \<or> taken)) \<notin> snd ` set (holders c)"
proof -
  have "find (\<lambda>s. cs_id s = i) (sessions[k := g_session p]) = Some (g_session p)"
    using position_Some [OF k] p by (force simp: find_Some_iff)
  moreover have "list_ex (\<lambda>(j, slot). j \<noteq> i \<and> slot = ''default'') (holders c) \<longleftrightarrow>
      slot_in_use ''default'' c \<or> profile_display_pending ''default'' (lc_displays c) (lc_launches c)"
  proof -
    have "list_ex (\<lambda>(j, slot). j \<noteq> i \<and> slot = ''default'') (holders c) \<longleftrightarrow> ''default'' \<in> snd ` set (holders c)"
      using i by (force simp: list_ex_iff)
    then show ?thesis by (simp only: holder_slots)
  qed
  ultimately have *: "find (\<lambda>(j, s). j \<noteq> i \<and> s = assigned_slot (choose_display_assignment (g_session p)
      (slot_in_use ''default'' c \<or> profile_display_pending ''default'' (lc_displays c) (lc_launches c) \<or> taken))) (holders c) = None"
    using none by (simp add: active_display_conflict_index_def Let_def disj_commute disj_left_commute)
  show ?thesis
  proof
    assume "assigned_slot (choose_display_assignment (g_session p)
      (slot_in_use ''default'' c \<or> profile_display_pending ''default'' (lc_displays c) (lc_launches c) \<or> taken)) \<in> snd ` set (holders c)"
    then obtain j where j: "(j, assigned_slot (choose_display_assignment (g_session p)
      (slot_in_use ''default'' c \<or> profile_display_pending ''default'' (lc_displays c) (lc_launches c) \<or> taken))) \<in> set (holders c)" by force
    with i have "j \<noteq> i" by force
    with j * show False by (auto simp: find_None_iff)
  qed
qed

lemma slots_other_fields [simp]:
  "slots_ok (c\<lparr>lc_ops := a\<rparr>) = slots_ok c" "slots_ok (c\<lparr>lc_identities := b\<rparr>) = slots_ok c"
  "slots_ok (c\<lparr>lc_validated := d\<rparr>) = slots_ok c" "slots_ok (c\<lparr>lc_sequence := e\<rparr>) = slots_ok c"
  "slots_ok (c\<lparr>lc_tasks := f\<rparr>) = slots_ok c" "slots_ok (c\<lparr>lc_checks := g\<rparr>) = slots_ok c"
  "slots_ok (c\<lparr>lc_resumes := h\<rparr>) = slots_ok c" "slots_ok (c\<lparr>lc_stopped := j\<rparr>) = slots_ok c"
  "slots_ok (c\<lparr>lc_held := k\<rparr>) = slots_ok c" "slots_ok (c\<lparr>lc_received := l\<rparr>) = slots_ok c"
  "slots_ok (c\<lparr>lc_checked := m\<rparr>) = slots_ok c" "slots_ok (c\<lparr>lc_launched := n\<rparr>) = slots_ok c"
  "slots_ok (c\<lparr>lc_started := q\<rparr>) = slots_ok c" "slots_ok (c\<lparr>lc_display_sequence := r\<rparr>) = slots_ok c"
  by (rule iffI; erule slots_cong; simp)+

lemma slots_remove_operation [simp]: "slots_ok (remove_operation i c) = slots_ok c" "slots_ok (move_operation i c) = slots_ok c"
  by (simp_all add: remove_operation_def move_operation_def split: option.split)

lemma slots_spawn_check [simp]: "slots_ok (spawn_check i g x c) = slots_ok c"
  by (simp add: spawn_check_def)

lemma slots_taken_task [simp]: "slots_ok (take_task t ps c) = slots_ok c"
  by (simp add: take_task_def)

lemma managed_members: "slot \<in> set (managed_slots c) \<longleftrightarrow> slot_managed slot c \<or> hm_contains slot (lc_managed c)"
proof -
  have "hm_contains slot m \<longleftrightarrow> slot \<in> fst ` set m" for m :: "(string \<times> nat) list" by (simp add: map_of_eq_None_iff)
  then show ?thesis by (auto simp: managed_slots_def slot_managed_def list_ex_iff)
qed

lemma assign_slots:
  assumes ok: "slots_ok c" and i: "i \<notin> fst ` set (holders c)" and p: "cs_id (g_session p) = i"
    and f: "find (\<lambda>s. cs_id s = i) sessions = Some configured" and w: "map_of (lc_workers c) i = None"
  shows "slots_ok (assign_display sessions i p r c)"
proof -
  obtain k where k: "position (\<lambda>s. cs_id s = i) sessions = Some k"
    using f by (cases "position (\<lambda>s. cs_id s = i) sessions") (auto simp: position_None_iff find_Some_iff)
  let ?default = "slot_in_use ''default'' c \<or> profile_display_pending ''default'' (lc_displays c) (lc_launches c) \<or> cleanup_display_busy ''default'' c"
  let ?a = "choose_display_assignment (g_session p) ?default"
  show ?thesis
  proof (cases "active_display_conflict_index i (sessions[k := g_session p]) (holders c) (cleanup_display_busy ''default'' c) = None
      \<and> \<not> cleanup_display_busy (assigned_slot ?a) c")
    case True
    then have free: "assigned_slot ?a \<notin> snd ` set (holders c)" using no_conflict [OF i p k] by blast
    have none: "map_of (lc_displays c) i = None" "map_of (lc_launches c) i = None" using i by (simp_all add: holder_keys)
    have "slots_ok (start_on_slot i p r ?a c)"
    proof (cases ?a)
      case DefaultDisplay
      then show ?thesis
        using slots_claimed(1) [OF ok i free w] none by (simp add: start_on_slot_def spawn_launch_def hm_insert_def)
    next
      case (Dedicated slot)
      have "slots_ok (c\<lparr>lc_validated := v, lc_displays := (i, slot) # lc_displays c, lc_tasks := t\<rparr>)"
        if "slot \<notin> set (managed_slots c)" for v t
        by (rule slots_cong [OF slots_claimed(2) [OF ok i free]]) (use that Dedicated in simp_all)
      then show ?thesis
        using Dedicated slots_claimed(1) [OF ok i free w] none ok managed_members [of slot c]
        by (auto simp: start_on_slot_def spawn_launch_def hm_insert_def)
    qed
    with True k show ?thesis by (simp add: assign_display_def Let_def holders_def)
  next
    case False
    with ok k show ?thesis by (auto simp: assign_display_def Let_def holders_def)
  qed
qed

lemma start_slots:
  assumes ok: "slots_ok c" and st: "stages c" and s: "start_session_message sessions i c = Some c'"
  shows "slots_ok c'"
proof (cases "\<exists>configured. find (\<lambda>s. cs_id s = i) sessions = Some configured \<and> \<not> cleanup_session_busy i c \<and> is_saved i")
  case False
  with ok s show ?thesis by (auto simp: start_session_message_def split: option.splits if_splits)
next
  case True
  then obtain configured where f: "find (\<lambda>s. cs_id s = i) sessions = Some configured" "\<not> cleanup_session_busy i c" "is_saved i" by blast
  have id: "cs_id configured = i" using f(1) by (auto simp: find_Some_iff)
  let ?c1 = "c\<lparr>lc_sl := reap_exited_container_sessions (lc_sl c)\<rparr>"
  have ok1: "slots_ok ?c1" by (rule slots_shrunk [OF ok reap_shrinks(1)])
  show ?thesis
  proof (cases "is_active i ?c1 \<or> join_check i ?c1 \<noteq> None \<or> hm_contains i (lc_displays ?c1) \<or> hm_contains i (lc_launches ?c1)")
    case True
    have "slots_ok d" if "join_check i ?c1 = Some d" for d
      using that ok1 by (auto simp: join_check_def split: option.splits if_splits sum.splits)
    with True f s ok1 show ?thesis by (auto simp: start_session_message_def Let_def split: if_splits option.splits)
  next
    case False
    then have i: "i \<notin> fst ` set (holders ?c1)" by (simp only: holder_keys) blast
    then have ops: "\<And>p. map_of (lc_ops ?c1) i = Some p \<Longrightarrow> cs_id (g_session p) = i"
      using mentions_at [OF st, of i] by (auto simp: stage_ok_def)
    have w: "map_of (lc_workers c) i = None"
      using mentions_at [OF st, of i] i unfolding holder_keys
      by (cases "map_of (lc_ops c) i") (auto simp: stage_ok_def mentions_def)
    have "slots_ok (prepare_launch sessions configured i ?c1)"
    proof -
      define p where "p = (case map_of (lc_ops ?c1) i of Some p \<Rightarrow> p | None \<Rightarrow> new_operation configured True ?c1)"
      define c1 where "c1 = (case map_of (lc_ops ?c1) i of Some p \<Rightarrow> ?c1 | None \<Rightarrow> ?c1\<lparr>lc_sequence := lc_sequence ?c1 + 1\<rparr>)"
      have first: "(case map_of (lc_ops ?c1) i of Some p \<Rightarrow> (p, ?c1)
          | None \<Rightarrow> (new_operation configured True ?c1, ?c1\<lparr>lc_sequence := lc_sequence ?c1 + 1\<rparr>)) = (p, c1)"
        by (simp add: p_def c1_def split: option.split)
      have c1: "slots_ok c1" "i \<notin> fst ` set (holders c1)" "lc_workers c1 = lc_workers c"
        using ok1 i by (auto simp: c1_def holders_def active_slots_def split: option.split)
      have p: "cs_id (g_session p) = i" using ops id by (auto simp: p_def new_operation_def split: option.split)
      have "slots_ok (assign_display sessions i q r (c1\<lparr>lc_ops := a, lc_identities := t, lc_validated := v\<rparr>))"
        if "q = p\<lparr>g_reservation := x\<rparr>" for q r a t v x
        using that c1 p w by (intro assign_slots [OF _ _ _ f(1)]) (auto simp: holders_def active_slots_def)
      with c1(1) show ?thesis
        unfolding prepare_launch_def first Let_def prod.case
        by (auto split: sum.split option.split dest!: reserve_runtime_Inr)
    qed
    with False f s show ?thesis by (auto simp: start_session_message_def Let_def split: if_splits option.splits)
  qed
qed

lemma checked_slots:
  assumes "slots_ok c"
  shows "slots_ok (session_checked sessions i g result c)"
  using assms
  by (auto simp: session_checked_def recheck_def Let_def split: option.split sum.split)

lemma stop_slots:
  assumes "slots_ok c"
  shows "slots_ok (stop_session_message i c)"
  using assms slots_shrunk [OF _ graceful_shrinks]
  by (auto simp: stop_session_message_def Let_def split: option.split)

lemma enqueue_fields [simp]:
  "sl_active (enqueue_bundle k b s) = sl_active s" "sl_displays (enqueue_bundle k b s) = sl_displays s"
  by (simp_all add: enqueue_bundle_def)

lemma set_hm_remove: "set (hm_remove k m) = {x \<in> set m. fst x \<noteq> k}"
  by (auto simp: hm_remove_def)

lemma queue_display_shrinks: "shrinks s (queue_display_cleanup d slot note s)"
  by (simp add: queue_display_cleanup_def enqueue_display_more)

lemma queue_launch_shrinks:
  assumes "queue_launch_cleanup i slot report w op s = Some s'"
  shows "shrinks s s'"
proof -
  obtain t where "s' = enqueue_bundle (Session i slot) (LaunchBundle i report w op) (s\<lparr>sl_activities := t\<rparr>)"
    using assms by (auto simp: queue_launch_cleanup_def split: option.splits)
  moreover have "shrinks s (s\<lparr>sl_activities := t\<rparr>)" by (simp add: shrinks_def)
  ultimately show ?thesis using shrinks_trans enqueue_more by blast
qed

text \<open>A claim moves: the display of a profile becomes its launch, the launch its session.\<close>

lemma slots_moved:
  assumes ok: "slots_ok c" and m: "mset (holders c') = mset (holders c)"
    and d: "dedicated_slots c' \<subseteq> dedicated_slots c" and g: "managed_slots c' = managed_slots c"
    and w: "distinct (map fst (lc_workers c'))"
  shows "slots_ok c'"
  by (rule slots_fewer [OF ok]) (use m d g w in simp_all)

lemma display_started_slots:
  assumes c: "stages c" and ok: "slots_ok c" and t: "DisplayTask i g slot \<in> set (lc_tasks c)"
    and s: "display_started i g slot d (take_task (DisplayTask i g slot) [w_child d] c) = Some c'"
  shows "slots_ok c'"
proof (rule display_started_cases [OF c t refl, of d], goal_cases)
  case (1 p r)
  let ?c0 = "take_task (DisplayTask i g slot) [w_child d] c"
  have i: "map_of (lc_displays c) i = Some slot" "map_of (lc_launches c) i = None" "map_of (lc_workers c) i = None"
    using 1(8) by (simp_all add: mentions_def)
  have keys: "distinct (map fst (lc_displays c))" using ok by (simp add: slots_ok_def exclusive_def holders_def)
  from 1(9) consider (up) s1 s' where "s1 = lc_sl c \<or> s1 = reap_exited_container_sessions (lc_sl c)"
      "queue_launch_cleanup i slot None (Some d) (Some (operation_of p)) s1 = Some s'"
      "display_started i g slot d ?c0 = Some (move_operation i (?c0\<lparr>lc_displays := hm_remove i (lc_displays c),
               lc_validated := hm_remove i (lc_validated c), lc_sl := s'\<rparr>))"
    | (go) "display_started i g slot d ?c0 = Some (spawn_launch i g (g_session p) r slot
             (?c0\<lparr>lc_displays := hm_remove i (lc_displays c), lc_sl := reap_exited_container_sessions (lc_sl c),
                 lc_validated := hm_remove i (lc_validated c), lc_workers := hm_insert i d (lc_workers c)\<rparr>))" by blast
  then show ?case
  proof cases
    case up
    have "shrinks (lc_sl c) s'"
      using up(1) reap_shrinks(1) [of "lc_sl c"] queue_launch_shrinks [OF up(2)] shrinks_trans by blast
    then have "slots_ok (c\<lparr>lc_displays := hm_remove i (lc_displays c), lc_sl := s'\<rparr>)"
      by (intro slots_shrunk slots_released(1) ok) simp
    then have "slots_ok (?c0\<lparr>lc_displays := hm_remove i (lc_displays c), lc_validated := hm_remove i (lc_validated c), lc_sl := s'\<rparr>)"
      by (rule slots_cong) simp_all
    with up(3) s show ?thesis by simp
  next
    case go
    let ?c1 = "c\<lparr>lc_sl := reap_exited_container_sessions (lc_sl c)\<rparr>"
    have ok1: "slots_ok ?c1" by (rule slots_shrunk [OF ok reap_shrinks(1)])
    have "slots_ok c'"
    proof (rule slots_moved [OF ok1])
      have c': "c' = spawn_launch i g (g_session p) r slot
             (?c0\<lparr>lc_displays := hm_remove i (lc_displays c), lc_sl := reap_exited_container_sessions (lc_sl c),
                 lc_validated := hm_remove i (lc_validated c), lc_workers := hm_insert i d (lc_workers c)\<rparr>)"
        using go s by simp
      show "mset (holders c') = mset (holders ?c1)"
        using hm_remove_mset [OF keys i(1)] i(2) by (simp add: c' spawn_launch_def holders_def active_slots_def hm_insert_def)
      have "(i, slot) \<in> set (lc_displays c)" using i(1) by (rule map_of_SomeD)
      then have mem: "slot \<in> snd ` set (lc_displays c)" by force
      show "dedicated_slots c' \<subseteq> dedicated_slots ?c1"
      proof
        fix x
        assume "x \<in> dedicated_slots c'"
        then consider "x \<in> snd ` set (hm_remove i (lc_displays c))" | "x = slot"
          | j where "(j, x) \<in> set (lc_launches c)" "j \<noteq> i" "hm_contains j (lc_workers c)" | "x \<in> dedicated_sessions (lc_sl ?c1)"
          using i(2) by (auto simp: c' spawn_launch_def dedicated_slots_def hm_insert_def split: if_splits dest: map_of_SomeD weak_map_of_SomeI)
        then show "x \<in> dedicated_slots ?c1"
          by cases (use mem in \<open>auto simp: dedicated_slots_def set_hm_remove\<close>)
      qed
      show "managed_slots c' = managed_slots ?c1" by (simp add: c' spawn_launch_def managed_slots_def)
      show "distinct (map fst (lc_workers c'))" using ok by (simp add: c' spawn_launch_def slots_ok_def)
    qed
    then show ?thesis .
  qed
qed

lemma display_failed_slots:
  assumes "slots_ok c"
  shows "slots_ok (display_failed i g slot c)"
proof -
  have "slots_ok (c\<lparr>lc_displays := hm_remove i (lc_displays c), lc_validated := hm_remove i (lc_validated c)\<rparr>)"
    using slots_released(1) [OF assms, of i] by simp
  with assms show ?thesis by (simp add: display_failed_def)
qed

lemma launch_finished_slots:
  assumes c: "stages c" and ok: "slots_ok c" and t: "LaunchTask i g s r slot \<in> set (lc_tasks c)"
    and f: "launch_finished i g slot sound result (take_task (LaunchTask i g s r slot) (report_children result) c) = Some c'"
  shows "slots_ok c'"
proof (rule launch_finished_cases [OF c t refl, of result sound], goal_cases)
  case (1 p b)
  let ?c0 = "take_task (LaunchTask i g s r slot) (report_children result) c"
  note i = 1(7,8)
  have keys: "distinct (map fst (lc_launches c))" using ok by (simp add: slots_ok_def exclusive_def holders_def)
  let ?c1 = "c\<lparr>lc_launches := hm_remove i (lc_launches c), lc_workers := hm_remove i (lc_workers c)\<rparr>"
  have released: "slots_ok (?c1\<lparr>lc_sl := s'\<rparr>)" if "shrinks (lc_sl c) s'" for s'
    using that by (intro slots_shrunk slots_released(2) ok) simp
  from 1(10) show ?case
  proof (elim disjE exE conjE, goal_cases)
    case (1 s')
    have "slots_ok (?c0\<lparr>lc_launches := hm_remove i (lc_launches c), lc_workers := hm_remove i (lc_workers c), lc_sl := s'\<rparr>)"
      by (rule slots_cong [OF released [OF queue_launch_shrinks [OF 1(2)]]]) simp_all
    with 1(3) f show ?thesis by simp
  next
    case 2
    show ?thesis
    proof (cases result)
      case (Inl e)
      have "\<exists>s'. shrinks (lc_sl c) s' \<and> lc_sl c' = s'"
        using 2(2) f Inl enqueue_display_more [of "lc_sl c"]
        by (auto simp: complete_container_session_launch_def queue_failed_launch_display_cleanup_def split: option.splits)
      then obtain s' where s': "shrinks (lc_sl c) s'" "lc_sl c' = s'" by blast
      show ?thesis
        by (rule slots_cong [OF released [OF s'(1)]]) (use 2(2) f Inl s'(2) in \<open>auto\<close>)
    next
      case (Inr report)
      show ?thesis
      proof (rule slots_moved [OF ok])
        have c': "c' = complete_container_session_launch i p slot (map_of (lc_workers c) i) sound result
              (?c0\<lparr>lc_launches := hm_remove i (lc_launches c), lc_workers := hm_remove i (lc_workers c), lc_ops := hm_remove i (lc_ops c)\<rparr>)"
          using 2(2) f by simp
        show "mset (holders c') = mset (holders c)"
          using hm_remove_mset [OF keys i(1)]
          by (simp add: c' Inr complete_container_session_launch_def Let_def holders_def active_slots_def)
        have "(i, slot) \<in> set (lc_launches c)" using i(1) by (rule map_of_SomeD)
        then show "dedicated_slots c' \<subseteq> dedicated_slots c"
          by (auto simp: c' Inr complete_container_session_launch_def Let_def dedicated_slots_def dedicated_sessions_def set_hm_remove split: if_splits)
        show "managed_slots c' = managed_slots c"
          by (simp add: c' Inr complete_container_session_launch_def Let_def managed_slots_def)
        show "distinct (map fst (lc_workers c'))" using ok by (simp add: c' slots_ok_def)
      qed
    qed
  qed
qed

lemma create_slots:
  assumes "slots_ok c"
  shows "slots_ok (create_managed_display requested c)"
proof -
  let ?c1 = "c\<lparr>lc_sl := reap_exited_managed_displays (lc_sl c)\<rparr>"
  have ok: "slots_ok ?c1" by (rule slots_shrunk [OF assms reap_managed_shrinks(1)])
  have claimed: "slots_ok (?c1\<lparr>lc_managed := hm_insert slot n (lc_managed ?c1), lc_display_sequence := k, lc_tasks := t\<rparr>)"
    if free: "\<not> slot_taken slot ?c1" for slot n k t
  proof -
    have m: "slot \<notin> set (managed_slots ?c1)" and d: "slot \<notin> snd ` set (holders ?c1)"
      using free by (auto simp: slot_taken_def managed_members holder_slots)
    have "dedicated_slots ?c1 \<subseteq> snd ` set (holders ?c1)"
      by (force simp: dedicated_slots_def dedicated_sessions_def holders_def active_slots_def)
    with d have "slot \<notin> dedicated_slots ?c1" by blast
    moreover have "map_of (lc_managed ?c1) slot = None" using m by (simp add: managed_members)
    moreover have "dedicated_slots (?c1\<lparr>lc_managed := x\<rparr>) = dedicated_slots ?c1" "holders (?c1\<lparr>lc_managed := x\<rparr>) = holders ?c1" for x
      by (simp_all add: dedicated_slots_def holders_def active_slots_def)
    ultimately have "slots_ok (?c1\<lparr>lc_managed := hm_insert slot n (lc_managed ?c1)\<rparr>)"
      using ok m by (simp add: slots_ok_def managed_slots_def hm_insert_def)
    then show ?thesis by simp
  qed
  show ?thesis
    unfolding create_managed_display_def Let_def
    using ok claimed by (auto split: option.split)
qed

lemma managed_started_slots:
  assumes "slots_ok c"
  shows "slots_ok (managed_started g slot d c)"
proof -
  have queued: "slots_ok (e\<lparr>lc_sl := queue_display_cleanup d slot False (lc_sl e)\<rparr>)" if "slots_ok e" for e
    by (rule slots_shrunk [OF that queue_display_shrinks])
  let ?c1 = "c\<lparr>lc_managed := hm_remove slot (lc_managed c)\<rparr>"
  have ok: "slots_ok ?c1" by (rule slots_released(3) [OF assms])
  have opened: "slots_ok (?c1\<lparr>lc_sl := (lc_sl ?c1)\<lparr>sl_displays := sl_displays (lc_sl ?c1) @ [\<lparr>m_slot = slot, m_worker = d\<rparr>]\<rparr>\<rparr>)"
    if m: "\<not> slot_managed slot ?c1" and p: "\<not> profile_display_pending slot (lc_displays ?c1) (lc_launches ?c1)" "\<not> slot_in_use slot ?c1"
  proof -
    let ?c2 = "?c1\<lparr>lc_sl := (lc_sl ?c1)\<lparr>sl_displays := sl_displays (lc_sl ?c1) @ [\<lparr>m_slot = slot, m_worker = d\<rparr>]\<rparr>\<rparr>"
    have "mset (managed_slots ?c2) = add_mset slot (mset (managed_slots ?c1))" by (simp add: managed_slots_def)
    moreover have "slot \<notin> set (managed_slots ?c1)" using m by (simp add: managed_members)
    ultimately have "distinct (managed_slots ?c2)" "set (managed_slots ?c2) = insert slot (set (managed_slots ?c1))"
      using ok by (auto simp: slots_ok_def managed_slots_def)
    moreover have "slot \<notin> snd ` set (holders ?c1)" using p holder_slots [of slot ?c1] by simp
    moreover have "dedicated_slots ?c1 \<subseteq> snd ` set (holders ?c1)"
      by (force simp: dedicated_slots_def dedicated_sessions_def holders_def active_slots_def)
    moreover have "dedicated_slots ?c2 = dedicated_slots ?c1" "holders ?c2 = holders ?c1"
      by (simp_all add: dedicated_slots_def dedicated_sessions_def holders_def active_slots_def)
    ultimately show ?thesis using ok unfolding slots_ok_def by auto
  qed
  show ?thesis
    using queued [OF assms] queued [OF ok] opened
    by (cases "map_of (lc_managed c) slot = Some g") (simp_all add: managed_started_def complete_managed_attempt_def Let_def)
qed

lemma managed_failed_slots: "slots_ok c \<Longrightarrow> slots_ok (managed_failed g slot c)"
  using slots_released(3) by (auto simp: managed_failed_def complete_managed_attempt_def)

lemma close_slots:
  assumes "slots_ok c"
  shows "slots_ok (close_managed_display slot c)"
proof -
  have "shrinks (lc_sl c) (queue_display_cleanup (m_worker (sl_displays (lc_sl c) ! k)) slot True
      ((lc_sl c)\<lparr>sl_displays := remove_at k (sl_displays (lc_sl c))\<rparr>))"
    if "position (\<lambda>d. m_slot d = slot) (sl_displays (lc_sl c)) = Some k" for k
  proof -
    have "shrinks (lc_sl c) ((lc_sl c)\<lparr>sl_displays := remove_at k (sl_displays (lc_sl c))\<rparr>)"
      using mset_remove_at [OF position_Some(1) [OF that]] by (simp add: shrinks_def)
    then show ?thesis using shrinks_trans queue_display_shrinks by blast
  qed
  with assms slots_shrunk [OF assms] slots_released(3) [OF assms] show ?thesis
    by (auto simp: close_managed_display_def split: option.split)
qed

subsection \<open>Every step keeps stages and slots\<close>

lemma stages_managed:
  assumes "stages c" "ManagedTask slot g \<in> set (lc_tasks c)"
  shows "stages (take_task (ManagedTask slot g) ps c)"
  by (rule stages_cong [OF assms(1)]) (simp_all add: mentions_taken split_beta)

lemma stages_other_fields [simp]:
  "stages (c\<lparr>lc_managed := m\<rparr>) = stages c" "stages (c\<lparr>lc_resumes := h\<rparr>) = stages c"
  "stages (c\<lparr>lc_held := k\<rparr>) = stages c" "stages (c\<lparr>lc_identities := b\<rparr>) = stages c"
  by (simp_all add: stages_def mentions_def)

lemma managed_stages:
  "stages c \<Longrightarrow> stages (managed_started g slot d c)" "stages c \<Longrightarrow> stages (managed_failed g slot c)"
  "stages c \<Longrightarrow> stages (close_managed_display slot c)"
  by (auto simp: managed_started_def managed_failed_def complete_managed_attempt_def close_managed_display_def Let_def
      split: option.split)

lemma create_stages: "stages c \<Longrightarrow> stages (create_managed_display requested c)"
proof -
  assume c: "stages c"
  let ?c1 = "c\<lparr>lc_sl := reap_exited_managed_displays (lc_sl c)\<rparr>"
  have "stages (?c1\<lparr>lc_managed := m, lc_display_sequence := n, lc_tasks := ManagedTask slot k # lc_tasks ?c1\<rparr>)" for m n slot k
    by (rule stages_cong [OF c]) (simp_all add: mentions_def)
  with c show ?thesis unfolding create_managed_display_def Let_def by (auto split: option.split)
qed

definition control_ok :: "control \<Rightarrow> bool" where
  "control_ok c \<longleftrightarrow> stages c \<and> slots_ok c"

lemma start_ok:
  assumes "control_ok c" "is_saved i"
  shows "\<exists>c'. start_session_message sessions i c = Some c' \<and> control_ok c'"
proof -
  have c: "stages c" "slots_ok c" using assms(1) by (simp_all add: control_ok_def)
  obtain c' where c': "start_session_message sessions i c = Some c'" using start_total [OF assms(2)] by blast
  have "map_of (lc_displays c) i = None \<and> map_of (lc_launches c) i = None"
    if "is_active i (c\<lparr>lc_sl := reap_exited_container_sessions (lc_sl c)\<rparr>)"
  proof -
    have "i \<in> fst ` set (active_slots c)"
      using shrunk_profiles [OF reap_shrinks(1) that] by (force simp: list_ex_iff active_slots_def)
    then have "i \<notin> fst ` set (lc_displays c) \<and> i \<notin> fst ` set (lc_launches c)"
      using c(2) by (auto simp: slots_ok_def exclusive_def holders_def)
    then show ?thesis by (simp add: map_of_eq_None_iff)
  qed
  from start_stages [OF c(1) assms(2) c' this] start_slots [OF c(2,1) c'] c' show ?thesis by (simp add: control_ok_def)
qed

lemma check_ok:
  assumes "control_ok c" "is_saved i"
  shows "\<exists>c'. check_session_message sessions i c = Some c' \<and> control_ok c'"
proof -
  have "check_session_message sessions i c \<noteq> None"
    using assms(2) by (simp add: check_session_message_def split: option.split)
  then obtain c' where c': "check_session_message sessions i c = Some c'" by blast
  moreover have "slots_ok c'"
    using c' assms by (auto simp: check_session_message_def control_ok_def split: option.splits if_splits)
  ultimately show ?thesis using check_stages [of c sessions i c'] assms(1) by (simp add: control_ok_def)
qed

lemma control_ok_sl: "control_ok c \<Longrightarrow> shrinks (lc_sl c) s \<Longrightarrow> control_ok (c\<lparr>lc_sl := s\<rparr>)"
  using slots_shrunk by (simp add: control_ok_def)

lemma control_ok_fields [simp]:
  "control_ok (c\<lparr>lc_resumes := h\<rparr>) = control_ok c" "control_ok (c\<lparr>lc_held := k\<rparr>) = control_ok c"
  "control_ok (c\<lparr>lc_identities := b\<rparr>) = control_ok c"
  by (simp_all add: control_ok_def)

lemma stop_ok: "control_ok c \<Longrightarrow> control_ok (stop_session_message i c)"
  by (simp add: control_ok_def stop_stages stop_slots)

lemma resume_ok:
  assumes "control_ok c"
  shows "\<exists>c'. resume_session sessions i g c = Some c' \<and> control_ok c'"
proof (cases "map_of (lc_ops c) i")
  case (Some p)
  have "is_saved i" using assms mentions_at [of c i] Some by (simp add: control_ok_def stage_ok_def)
  with assms start_ok [of c i sessions] Some show ?thesis by (simp add: resume_session_def)
qed (use assms in \<open>simp add: resume_session_def\<close>)

lemma checked_ok:
  assumes "control_ok c" "CheckTask i g s \<in> set (lc_tasks c)"
  shows "control_ok (session_checked sessions i g result
    ((take_task (CheckTask i g s) [] c)\<lparr>lc_checked := (case result of Inl _ \<Rightarrow> [] | Inr r \<Rightarrow> [(s, r)]) @ lc_checked c\<rparr>))"
  using assms checked_stages [OF _ assms(2) refl] by (simp add: control_ok_def checked_slots)

lemma display_ready_ok:
  assumes "control_ok c" "DisplayTask i g slot \<in> set (lc_tasks c)"
  shows "\<exists>c'. display_started i g slot d (take_task (DisplayTask i g slot) [w_child d] c) = Some c' \<and> control_ok c'"
  using assms display_started_stages [OF _ assms(2), of d] display_started_slots [OF _ _ assms(2)]
  by (fastforce simp: control_ok_def)

lemma display_lost_ok:
  assumes "control_ok c" "DisplayTask i g slot \<in> set (lc_tasks c)"
  shows "control_ok (display_failed i g slot (take_task (DisplayTask i g slot) [] c))"
  using assms display_failed_stages [OF _ assms(2)] display_failed_slots by (simp add: control_ok_def)

lemma launched_ok:
  assumes "control_ok c" "LaunchTask i g s r slot \<in> set (lc_tasks c)"
  shows "\<exists>c'. launch_finished i g slot sound result (take_task (LaunchTask i g s r slot) (report_children result) c) = Some c' \<and> control_ok c'"
  using assms launch_finished_stages [OF _ assms(2), of sound result] launch_finished_slots [OF _ _ assms(2)]
  by (fastforce simp: control_ok_def)

lemma step_ok:
  assumes "control_step c r" "control_ok c"
  shows "\<exists>c'. r = Some c' \<and> control_ok c'"
  using assms
proof (induction rule: control_step.induct)
  case (check i c sessions)
  then show ?case using check_ok by blast
next
  case (start i c sessions)
  then show ?case using start_ok by blast
next
  case (start_current t c sessions)
  then show ?case using start_ok [of c "pt_id t" sessions] by (simp add: start_if_current_def split: option.split)
next
  case (resume i g c sessions)
  then show ?case using resume_ok [of "c\<lparr>lc_resumes := remove1 (i, g) (lc_resumes c)\<rparr>"] by simp
next
  case (stop c i)
  then show ?case by (simp add: stop_ok)
next
  case (force_stop c i)
  then show ?case using control_ok_sl [OF _ stop_active_shrinks] by (simp add: force_stop_message_def)
next
  case (create_display c requested)
  then show ?case by (simp add: control_ok_def create_stages create_slots)
next
  case (close_display c slot)
  then show ?case by (simp add: control_ok_def managed_stages close_slots)
next
  case (checked i g s c sessions result)
  then show ?case using checked_ok by blast
next
  case (display_ready i g slot c d)
  then show ?case using display_ready_ok by blast
next
  case (display_lost i g slot c)
  then show ?case using display_lost_ok by blast
next
  case (launched i g s r slot c sound result)
  then show ?case using launched_ok by blast
next
  case (managed_ready slot g c d)
  then show ?case by (simp add: control_ok_def managed_stages stages_managed managed_started_slots)
next
  case (managed_lost slot g c)
  then show ?case by (simp add: control_ok_def managed_stages stages_managed managed_failed_slots)
next
  case (maintenance c)
  then show ?case using control_ok_sl [OF _ shrinks_trans [OF reap_managed_shrinks(1) reap_shrinks(1)]] by simp
next
  case (cleanup_progress s c)
  then have "slots_ok (c\<lparr>lc_sl := s\<rparr>) = slots_ok c"
    by (simp add: slots_ok_def holders_def active_slots_def managed_slots_def dedicated_slots_def dedicated_sessions_def)
  with cleanup_progress show ?case by (simp add: control_ok_def)
next
  case (released i r c)
  then show ?case by simp
qed

lemma control_init_ok: "control_ok (control_init s)"
  by (simp add: control_init_def control_ok_def stages_def stage_ok_def mentions_def slots_ok_def holders_def active_slots_def
      exclusive_def managed_slots_def dedicated_slots_def dedicated_sessions_def)

lemma reachable_ok: "reachable r \<Longrightarrow> \<exists>c. r = Some c \<and> control_ok c"
proof (induction rule: reachable.induct)
  case (initial s)
  then show ?case by (simp add: control_init_ok)
next
  case (step c r)
  then show ?case using step_ok by fastforce
qed

subsection \<open>No process is lost\<close>

text \<open>The processes held by sessions, cleanup jobs, managed displays and launches under way.\<close>

definition all_procs :: "control \<Rightarrow> nat set" where
  "all_procs c =
     procs (lc_sl c) \<union> display_child ` set (sl_displays (lc_sl c)) \<union> (\<lambda>(_, d). w_child d) ` set (lc_workers c)"

definition procs_ok :: "control \<Rightarrow> bool" where
  "procs_ok c \<longleftrightarrow> fresh_jobs (lc_sl c) \<and> set (lc_received c) \<subseteq> all_procs c"

lemma procs_step:
  assumes "procs_ok c" "shrinks (lc_sl c) (lc_sl c')" "sl_displays (lc_sl c') = sl_displays (lc_sl c)"
    and "set (lc_workers c) \<subseteq> set (lc_workers c')" "set (lc_received c') \<subseteq> set (lc_received c) \<union> new" "new \<subseteq> all_procs c'"
  shows "procs_ok c'"
proof -
  have "fresh_jobs (lc_sl c')" "procs (lc_sl c) \<subseteq> procs (lc_sl c')" using assms(1,2) by (simp_all add: procs_ok_def shrinks_def)
  moreover from this assms(3,4) have "all_procs c \<subseteq> all_procs c'" unfolding all_procs_def by auto
  ultimately show ?thesis using assms(1,5,6) unfolding procs_ok_def by blast
qed

lemma start_sl:
  assumes "start_session_message sessions i c = Some c'"
  shows "(lc_sl c' = lc_sl c \<or> lc_sl c' = reap_exited_container_sessions (lc_sl c))
    \<and> lc_workers c' = lc_workers c \<and> lc_received c' = lc_received c"
proof -
  have slot: "lc_sl (start_on_slot i p r a d) = lc_sl d \<and> lc_workers (start_on_slot i p r a d) = lc_workers d
      \<and> lc_received (start_on_slot i p r a d) = lc_received d" for p r a d
    by (cases a) (simp_all add: start_on_slot_def spawn_launch_def)
  have assign: "lc_sl (assign_display sessions i p r d) = lc_sl d \<and> lc_workers (assign_display sessions i p r d) = lc_workers d
      \<and> lc_received (assign_display sessions i p r d) = lc_received d" for p r d
    using slot by (simp add: assign_display_def Let_def)
  have prepare: "lc_sl (prepare_launch sessions configured i d) = lc_sl d \<and> lc_workers (prepare_launch sessions configured i d) = lc_workers d
      \<and> lc_received (prepare_launch sessions configured i d) = lc_received d" for configured d
    using assign by (auto simp: prepare_launch_def spawn_check_def Let_def split_beta split: option.split sum.split)
  have join: "lc_sl e = lc_sl d \<and> lc_workers e = lc_workers d \<and> lc_received e = lc_received d" if "join_check i d = Some e" for d e
    using that by (auto simp: join_check_def split: option.splits if_splits sum.splits)
  show ?thesis
    using assms prepare join
    by (auto simp: start_session_message_def Let_def split: if_splits option.splits dest!: join)
qed

lemma start_procs:
  assumes "procs_ok c" "start_session_message sessions i c = Some c'"
  shows "procs_ok c'"
  using start_sl [OF assms(2)] reap_shrinks [of "lc_sl c"]
  by (intro procs_step [OF assms(1), where new = "{}"]) auto

lemma same_procs:
  assumes "procs_ok c" "lc_sl c' = lc_sl c" "lc_workers c' = lc_workers c" "lc_received c' = lc_received c"
  shows "procs_ok c'"
  using assms by (simp add: procs_ok_def all_procs_def)

lemma checked_fields:
  "lc_sl (session_checked sessions i g result c) = lc_sl c" "lc_workers (session_checked sessions i g result c) = lc_workers c"
  "lc_received (session_checked sessions i g result c) = lc_received c"
  by (auto simp: session_checked_def recheck_def spawn_check_def Let_def split: option.split sum.split)

lemma queue_launch_procs:
  assumes "queue_launch_cleanup i slot report w op s = Some s'" "fresh_jobs s"
  shows "set (bundle_children (LaunchBundle i report w op)) \<subseteq> procs s'" "sl_displays s' = sl_displays s"
proof -
  obtain t where s': "s' = enqueue_bundle (Session i slot) (LaunchBundle i report w op) (s\<lparr>sl_activities := t\<rparr>)"
    using assms by (auto simp: queue_launch_cleanup_def split: option.splits)
  show "set (bundle_children (LaunchBundle i report w op)) \<subseteq> procs s'"
    unfolding s' by (subst enqueue_procs) (use assms(2) in auto)
  show "sl_displays s' = sl_displays s" by (simp add: s')
qed

lemma display_started_procs:
  assumes c: "stages c" and ok: "procs_ok c" and t: "DisplayTask i g slot \<in> set (lc_tasks c)"
    and s: "display_started i g slot d (take_task (DisplayTask i g slot) [w_child d] c) = Some c'"
  shows "procs_ok c'"
proof (rule display_started_cases [OF c t refl, of d], goal_cases)
  case (1 p r)
  let ?c0 = "take_task (DisplayTask i g slot) [w_child d] c"
  have fresh: "fresh_jobs (lc_sl c)" using ok by (simp add: procs_ok_def)
  have reap: "shrinks (lc_sl c) s1 \<and> fresh_jobs s1 \<and> sl_displays s1 = sl_displays (lc_sl c)"
    if "s1 = lc_sl c \<or> s1 = reap_exited_container_sessions (lc_sl c)" for s1
    using that reap_shrinks [of "lc_sl c"] fresh by (auto simp: shrinks_def)
  have w: "map_of (lc_workers c) i = None" using 1(8) by (simp add: mentions_def)
  from 1(9) consider (up) s1 s' where "s1 = lc_sl c \<or> s1 = reap_exited_container_sessions (lc_sl c)"
      "queue_launch_cleanup i slot None (Some d) (Some (operation_of p)) s1 = Some s'"
      "display_started i g slot d ?c0 = Some (move_operation i (?c0\<lparr>lc_displays := hm_remove i (lc_displays c),
               lc_validated := hm_remove i (lc_validated c), lc_sl := s'\<rparr>))"
    | (go) "display_started i g slot d ?c0 = Some (spawn_launch i g (g_session p) r slot
             (?c0\<lparr>lc_displays := hm_remove i (lc_displays c), lc_sl := reap_exited_container_sessions (lc_sl c),
                 lc_validated := hm_remove i (lc_validated c), lc_workers := hm_insert i d (lc_workers c)\<rparr>))" by blast
  then show ?case
  proof cases
    case up
    have c': "lc_sl c' = s'" "lc_workers c' = lc_workers c" "lc_received c' = w_child d # lc_received c" using up(3) s by auto
    note q = queue_launch_procs [OF up(2)] queue_launch_shrinks [OF up(2)]
    show ?thesis
      by (rule procs_step [OF ok, where new = "{w_child d}"])
        (use c' q reap [OF up(1)] shrinks_trans in \<open>auto simp: all_procs_def\<close>)
  next
    case go
    have c': "lc_sl c' = reap_exited_container_sessions (lc_sl c)" "lc_workers c' = (i, d) # lc_workers c"
        "lc_received c' = w_child d # lc_received c"
      using go s w by (auto simp: spawn_launch_def hm_insert_def)
    show ?thesis
      by (rule procs_step [OF ok, where new = "{w_child d}"])
        (use c' reap [of "lc_sl c'"] in \<open>auto simp: all_procs_def\<close>)
  qed
qed

definition worker_children :: "display_worker option \<Rightarrow> nat set" where
  "worker_children w = (case w of None \<Rightarrow> {} | Some d \<Rightarrow> {w_child d})"

lemma workers_removed:
  assumes "distinct (map fst ws)"
  shows "(\<lambda>(_, d). w_child d) ` set ws \<subseteq> (\<lambda>(_, d). w_child d) ` set (hm_remove i ws) \<union> worker_children (map_of ws i)"
proof
  fix n
  assume "n \<in> (\<lambda>(_, d). w_child d) ` set ws"
  then obtain j d where d: "(j, d) \<in> set ws" "n = w_child d" by auto
  show "n \<in> (\<lambda>(_, d). w_child d) ` set (hm_remove i ws) \<union> worker_children (map_of ws i)"
  proof (cases "j = i")
    case True
    with d assms show ?thesis by (simp add: worker_children_def)
  next
    case False
    with d have "(j, d) \<in> set (hm_remove i ws)" by (simp add: set_hm_remove)
    with d(2) show ?thesis by force
  qed
qed

lemma launch_bundle_children:
  "set (bundle_children (LaunchBundle i (report_of result) w op)) = set (report_children result) \<union> worker_children w"
  by (auto simp: report_children_def worker_children_def split: sum.split option.split)

lemma launch_finished_procs:
  assumes c: "stages c" and slots: "slots_ok c" and ok: "procs_ok c" and t: "LaunchTask i g s r slot \<in> set (lc_tasks c)"
    and f: "launch_finished i g slot sound result (take_task (LaunchTask i g s r slot) (report_children result) c) = Some c'"
  shows "procs_ok c'"
proof (rule launch_finished_cases [OF c t refl, of result sound], goal_cases)
  case (1 p b)
  let ?c0 = "take_task (LaunchTask i g s r slot) (report_children result) c"
  let ?w = "map_of (lc_workers c) i"
  have fresh: "fresh_jobs (lc_sl c)" using ok by (simp add: procs_ok_def)
  note workers = workers_removed [of "lc_workers c" i]
  have keys: "distinct (map fst (lc_workers c))" using slots by (simp add: slots_ok_def)
  have finish: "procs_ok c'"
    if "fresh_jobs (lc_sl c')" "procs (lc_sl c) \<union> set (report_children result) \<union> worker_children ?w \<subseteq> procs (lc_sl c')"
      "sl_displays (lc_sl c') = sl_displays (lc_sl c)" "lc_workers c' = hm_remove i (lc_workers c)"
      "lc_received c' = report_children result @ lc_received c"
    using that(1,2) ok workers [OF keys] unfolding procs_ok_def all_procs_def that(3-5) set_append by blast
  from 1(10) consider (up) s' where "queue_launch_cleanup i slot (report_of result) ?w (Some (operation_of p)) (lc_sl c) = Some s'"
      "launch_finished i g slot sound result ?c0 = Some (move_operation i (?c0\<lparr>lc_launches := hm_remove i (lc_launches c),
               lc_workers := hm_remove i (lc_workers c), lc_sl := s'\<rparr>))"
    | (go) "launch_finished i g slot sound result ?c0 = Some (complete_container_session_launch i p slot ?w sound result
              (?c0\<lparr>lc_launches := hm_remove i (lc_launches c), lc_workers := hm_remove i (lc_workers c), lc_ops := hm_remove i (lc_ops c)\<rparr>))"
    by blast
  then show ?case
  proof cases
    case up
    have c': "lc_sl c' = s'" "lc_workers c' = hm_remove i (lc_workers c)" "lc_received c' = report_children result @ lc_received c"
      using up(2) f by auto
    have "shrinks (lc_sl c) s'" by (rule queue_launch_shrinks [OF up(1)])
    with queue_launch_procs [OF up(1) fresh] fresh c' show ?thesis
      unfolding launch_bundle_children by (intro finish) (auto simp: shrinks_def)
  next
    case go
    let ?c1 = "?c0\<lparr>lc_launches := hm_remove i (lc_launches c), lc_workers := hm_remove i (lc_workers c), lc_ops := hm_remove i (lc_ops c)\<rparr>"
    have c': "c' = complete_container_session_launch i p slot ?w sound result ?c1" using go f by simp
    show ?thesis
    proof (cases result)
      case (Inl e)
      show ?thesis
      proof (cases ?w)
        case None
        with Inl fresh show ?thesis
          by (intro finish) (auto simp: c' complete_container_session_launch_def report_children_def worker_children_def)
      next
        case (Some d)
        let ?s = "enqueue_display_cleanup d slot None (Some i) (lc_sl c)"
        have "shrinks (lc_sl c) ?s" by (rule enqueue_display_more)
        moreover have "w_child d \<in> procs ?s" using fresh by (simp add: enqueue_display_cleanup_def enqueue_procs)
        ultimately show ?thesis
          using Inl Some fresh
          by (intro finish) (auto simp: c' complete_container_session_launch_def report_children_def worker_children_def shrinks_def
              queue_failed_launch_display_cleanup_def enqueue_display_cleanup_def)
      qed
    next
      case (Inr report)
      show ?thesis
      proof (rule finish)
        show "procs (lc_sl c) \<union> set (report_children result) \<union> worker_children ?w \<subseteq> procs (lc_sl c')"
          by (auto simp: c' Inr complete_container_session_launch_def Let_def procs_def session_children_def report_children_def
              worker_children_def split: option.splits)
      qed (use fresh in \<open>simp_all add: c' Inr complete_container_session_launch_def Let_def\<close>)
    qed
  qed
qed

lemma procs_more:
  assumes "procs_ok c" "fresh_jobs (lc_sl c')" "procs (lc_sl c) \<subseteq> procs (lc_sl c')"
    and "display_child ` set (sl_displays (lc_sl c)) \<subseteq> display_child ` set (sl_displays (lc_sl c')) \<union> procs (lc_sl c')"
    and "lc_workers c' = lc_workers c" "set (lc_received c') \<subseteq> set (lc_received c) \<union> new" "new \<subseteq> all_procs c'"
  shows "procs_ok c'"
  using assms(1-4,6,7) unfolding procs_ok_def all_procs_def assms(5) by blast

lemma reap_managed_procs:
  assumes "procs_ok c"
  shows "procs_ok (c\<lparr>lc_sl := reap_exited_managed_displays (lc_sl c)\<rparr>)"
  using assms reap_managed_shrinks [of "lc_sl c"]
  by (intro procs_more [OF assms, where new = "{}"]) (auto simp: procs_ok_def shrinks_def)

lemma create_procs: "procs_ok c \<Longrightarrow> procs_ok (create_managed_display requested c)"
proof -
  assume "procs_ok c"
  then have "procs_ok (c\<lparr>lc_sl := reap_exited_managed_displays (lc_sl c)\<rparr>)" by (rule reap_managed_procs)
  then show ?thesis
    unfolding create_managed_display_def Let_def by (auto split: option.split elim!: same_procs)
qed

lemma queue_display_procs:
  assumes "fresh_jobs s"
  shows "procs (queue_display_cleanup d slot note s) = insert (w_child d) (procs s)" "fresh_jobs (queue_display_cleanup d slot note s)"
    "sl_displays (queue_display_cleanup d slot note s) = sl_displays s"
  using assms enqueue_bundle_owned(1) [OF assms]
  by (simp_all add: queue_display_cleanup_def enqueue_display_cleanup_def enqueue_procs)

lemma managed_started_procs:
  assumes ok: "procs_ok c"
  shows "procs_ok (managed_started g slot d (take_task t [w_child d] c))"
proof -
  have fresh: "fresh_jobs (lc_sl c)" using ok by (simp add: procs_ok_def)
  let ?c = "managed_started g slot d (take_task t [w_child d] c)"
  have w: "lc_workers ?c = lc_workers c" "lc_received ?c = w_child d # lc_received c"
    by (auto simp: managed_started_def complete_managed_attempt_def Let_def)
  have "lc_sl ?c = queue_display_cleanup d slot False (lc_sl c)
      \<or> lc_sl ?c = (lc_sl c)\<lparr>sl_displays := sl_displays (lc_sl c) @ [\<lparr>m_slot = slot, m_worker = d\<rparr>]\<rparr>"
    by (auto simp: managed_started_def complete_managed_attempt_def Let_def)
  then show ?thesis
    using fresh w by (intro procs_more [OF ok, where new = "{w_child d}"])
      (auto simp: all_procs_def display_child_def queue_display_procs)
qed

lemma close_procs:
  assumes ok: "procs_ok c"
  shows "procs_ok (close_managed_display slot c)"
proof (cases "close_managed_display slot c = c \<or> lc_sl (close_managed_display slot c) = lc_sl c")
  case True
  with ok show ?thesis by (auto elim!: same_procs simp: close_managed_display_def split: option.splits)
next
  case False
  then obtain k where k: "position (\<lambda>d. m_slot d = slot) (sl_displays (lc_sl c)) = Some k"
      "close_managed_display slot c = c\<lparr>lc_sl := queue_display_cleanup (m_worker (sl_displays (lc_sl c) ! k)) slot True
               ((lc_sl c)\<lparr>sl_displays := remove_at k (sl_displays (lc_sl c))\<rparr>)\<rparr>"
    by (auto simp: close_managed_display_def split: option.splits if_splits)
  have fresh: "fresh_jobs (lc_sl c)" using ok by (simp add: procs_ok_def)
  have "mset (sl_displays (lc_sl c)) = add_mset (sl_displays (lc_sl c) ! k) (mset (remove_at k (sl_displays (lc_sl c))))"
    by (rule mset_remove_at [OF position_Some(1) [OF k(1)]])
  then have "set (sl_displays (lc_sl c)) = insert (sl_displays (lc_sl c) ! k) (set (remove_at k (sl_displays (lc_sl c))))"
    by (metis set_mset_add_mset_insert set_mset_mset)
  then show ?thesis
    unfolding k(2) using fresh
    by (intro procs_more [OF ok, where new = "{}"]) (auto simp: queue_display_procs display_child_def)
qed

lemma shrunk_procs:
  assumes "procs_ok c" "shrinks (lc_sl c) s" "sl_displays s = sl_displays (lc_sl c)"
  shows "procs_ok (c\<lparr>lc_sl := s\<rparr>)"
  by (rule procs_step [OF assms(1), where new = "{}"]) (use assms in auto)

lemma graceful_displays: "sl_displays (snd (request_graceful_container_stop i s)) = sl_displays s"
  using graceful_form [of i s] by auto

lemma stop_active_displays: "sl_displays (snd (stop_active_container_session i s)) = sl_displays s"
  using stop_all_displays [of "[i]" s] by (simp add: stop_all_def)

lemma stop_procs:
  assumes "procs_ok c"
  shows "procs_ok (stop_session_message i c)"
proof -
  have "procs_ok (d\<lparr>lc_sl := snd (request_graceful_container_stop i (lc_sl d))\<rparr>)" if "procs_ok d" for d
    by (rule shrunk_procs [OF that graceful_shrinks graceful_displays])
  moreover have "procs_ok (remove_operation i d)" if "procs_ok d" for d by (rule same_procs [OF that]) simp_all
  moreover have "procs_ok (c\<lparr>lc_ops := a, lc_stopped := b\<rparr>)" "procs_ok (c\<lparr>lc_ops := a, lc_stopped := b, lc_validated := v\<rparr>)" for a b v
    by (rule same_procs [OF assms]; simp)+
  ultimately show ?thesis
    unfolding stop_session_message_def Let_def using assms by (auto split: option.split)
qed

lemma step_procs:
  assumes "control_step c r" "control_ok c" "procs_ok c" "r = Some c'"
  shows "procs_ok c'"
  using assms
proof (induction arbitrary: c' rule: control_step.induct)
  case (check i c sessions)
  then show ?case
    by (auto simp: check_session_message_def spawn_check_def split: option.splits if_splits elim!: same_procs)
next
  case (start i c sessions)
  then show ?case using start_procs by blast
next
  case (start_current t c sessions)
  then show ?case using start_procs by (auto simp: start_if_current_def split: option.splits)
next
  case (resume i g c sessions)
  have "procs_ok (c\<lparr>lc_resumes := remove1 (i, g) (lc_resumes c)\<rparr>)" using resume by (auto elim!: same_procs)
  with resume show ?case using start_procs by (auto simp: resume_session_def split: if_splits)
next
  case (stop c i)
  then show ?case by (auto intro: stop_procs)
next
  case (force_stop c i)
  then show ?case using shrunk_procs [OF _ stop_active_shrinks stop_active_displays] by (auto simp: force_stop_message_def)
next
  case (create_display c requested)
  then show ?case by (auto intro: create_procs)
next
  case (close_display c slot)
  then show ?case by (auto intro: close_procs)
next
  case (checked i g s c sessions result)
  have "procs_ok ((take_task (CheckTask i g s) [] c)\<lparr>lc_checked := (case result of Inl _ \<Rightarrow> [] | Inr r \<Rightarrow> [(s, r)]) @ lc_checked c\<rparr>)"
    using checked by (auto elim!: same_procs)
  with checked same_procs [OF this] checked_fields show ?case by auto
next
  case (display_ready i g slot c d)
  then show ?case using display_started_procs by (auto simp: control_ok_def)
next
  case (display_lost i g slot c)
  then show ?case by (auto simp: display_failed_def elim!: same_procs)
next
  case (launched i g s r slot c sound result)
  then show ?case using launch_finished_procs by (auto simp: control_ok_def)
next
  case (managed_ready slot g c d)
  then show ?case using managed_started_procs by auto
next
  case (managed_lost slot g c)
  then show ?case by (auto simp: managed_failed_def elim!: same_procs)
next
  case (maintenance c)
  have "procs_ok (c\<lparr>lc_sl := reap_exited_managed_displays (lc_sl c)\<rparr>)" using maintenance by (intro reap_managed_procs)
  from shrunk_procs [OF this, of "reap_exited_container_sessions (reap_exited_managed_displays (lc_sl c))"] reap_shrinks maintenance
  show ?case by auto
next
  case (cleanup_progress s c)
  have ok: "procs_ok c" using cleanup_progress by blast
  have sub: "procs (lc_sl c) \<subseteq> procs s" using cleanup_progress(1,4) by (auto simp: procs_def)
  have "procs_ok (c\<lparr>lc_sl := s\<rparr>)"
    by (rule procs_more [OF ok, where new = "{}"]) (use sub cleanup_progress(2,3) in auto)
  with cleanup_progress show ?case by simp
next
  case (released i r c)
  then show ?case by (auto elim!: same_procs)
qed

subsection \<open>A stopped launch never becomes active\<close>

definition history_ok :: "control \<Rightarrow> bool" where
  "history_ok c \<longleftrightarrow>
     (\<forall>i g. (i, g) \<in> set (lc_stopped c) \<longrightarrow> g < lc_sequence c \<and> (i, g) \<notin> set (lc_started c)
        \<and> (\<forall>p. map_of (lc_ops c) i = Some p \<longrightarrow> g_generation p = g \<longrightarrow> g_cancelled p))
     \<and> (\<forall>i g. (i, g) \<in> set (lc_started c) \<longrightarrow> g < lc_sequence c
        \<and> (\<forall>p. map_of (lc_ops c) i = Some p \<longrightarrow> g_generation p \<noteq> g))"

text \<open>An operation is new, with a new generation, or continues one, cancelled if that was.\<close>

definition continues :: "control \<Rightarrow> control \<Rightarrow> bool" where
  "continues c c' \<longleftrightarrow>
     lc_sequence c \<le> lc_sequence c'
     \<and> (\<forall>i p'. map_of (lc_ops c') i = Some p' \<longrightarrow>
          lc_sequence c \<le> g_generation p'
          \<or> (\<exists>p. map_of (lc_ops c) i = Some p \<and> g_generation p = g_generation p' \<and> (g_cancelled p \<longrightarrow> g_cancelled p')))"

lemma continues_refl [simp]: "continues c c"
  by (simp add: continues_def)

lemma continues_trans:
  assumes "continues c d" "continues d e"
  shows "continues c e"
  unfolding continues_def
proof (intro conjI allI impI)
  show "lc_sequence c \<le> lc_sequence e" using assms unfolding continues_def by (blast intro: order_trans)
  fix i q
  assume "map_of (lc_ops e) i = Some q"
  then consider "lc_sequence d \<le> g_generation q"
    | p where "map_of (lc_ops d) i = Some p" "g_generation p = g_generation q" "g_cancelled p \<longrightarrow> g_cancelled q"
    using assms(2) unfolding continues_def by blast
  then show "lc_sequence c \<le> g_generation q
      \<or> (\<exists>p. map_of (lc_ops c) i = Some p \<and> g_generation p = g_generation q \<and> (g_cancelled p \<longrightarrow> g_cancelled q))"
  proof cases
    case 1
    then show ?thesis using assms(1) unfolding continues_def by (blast intro: order_trans)
  next
    case (2 p)
    then show ?thesis using assms(1) unfolding continues_def by (metis (no_types, lifting))
  qed
qed

lemma continues_same: "lc_sequence c \<le> lc_sequence c' \<Longrightarrow> map_of (lc_ops c') = map_of (lc_ops c) \<Longrightarrow> continues c c'"
  by (auto simp: continues_def)

lemma continues_removed:
  "lc_sequence c \<le> lc_sequence c' \<Longrightarrow> map_of (lc_ops c') = (map_of (lc_ops c))(i := None) \<Longrightarrow> continues c c'"
  by (auto simp: continues_def)

lemma continues_replaced:
  assumes "lc_sequence c \<le> lc_sequence c'" "map_of (lc_ops c') = (map_of (lc_ops c))(i \<mapsto> p')"
    and "lc_sequence c \<le> g_generation p'
      \<or> (\<exists>p. map_of (lc_ops c) i = Some p \<and> g_generation p = g_generation p' \<and> (g_cancelled p \<longrightarrow> g_cancelled p'))"
  shows "continues c c'"
  using assms by (auto simp: continues_def)

lemma history_step:
  assumes "history_ok c" "lc_stopped c' = lc_stopped c" "continues c c'" "lc_started c' = lc_started c"
  shows "history_ok c'"
  unfolding history_ok_def assms(2,4)
proof (intro conjI allI impI, goal_cases)
  case (1 i g)
  then have "g < lc_sequence c" using assms(1) by (simp add: history_ok_def)
  then show ?case using assms(3) by (simp add: continues_def)
next
  case (2 i g)
  then show ?case using assms(1) by (simp add: history_ok_def)
next
  case (3 i g p')
  then have g: "g < lc_sequence c" using assms(1) by (simp add: history_ok_def)
  from assms(3) 3(2) consider "lc_sequence c \<le> g_generation p'"
    | p where "map_of (lc_ops c) i = Some p" "g_generation p = g_generation p'" "g_cancelled p \<longrightarrow> g_cancelled p'"
    unfolding continues_def by blast
  then show ?case
  proof cases
    case 1
    with g 3(3) show ?thesis by simp
  next
    case (2 p)
    with assms(1) 3 show ?thesis by (simp add: history_ok_def)
  qed
next
  case (4 i g)
  then have "g < lc_sequence c" using assms(1) by (simp add: history_ok_def)
  then show ?case using assms(3) by (simp add: continues_def)
next
  case (5 i g p')
  then have g: "g < lc_sequence c" using assms(1) by (simp add: history_ok_def)
  from assms(3) 5(2) consider "lc_sequence c \<le> g_generation p'"
    | p where "map_of (lc_ops c) i = Some p" "g_generation p = g_generation p'"
    unfolding continues_def by blast
  then show ?case
  proof cases
    case 1
    with g show ?thesis by simp
  next
    case (2 p)
    with assms(1) 5 show ?thesis by (auto simp: history_ok_def)
  qed
qed

definition quiet :: "control \<Rightarrow> control \<Rightarrow> bool" where
  "quiet c c' \<longleftrightarrow> continues c c' \<and> lc_stopped c' = lc_stopped c \<and> lc_started c' = lc_started c"

lemma quiet_history: "history_ok c \<Longrightarrow> quiet c c' \<Longrightarrow> history_ok c'"
  by (rule history_step) (auto simp: quiet_def)

lemma quiet_trans: "quiet c d \<Longrightarrow> quiet d e \<Longrightarrow> quiet c e"
  by (auto simp: quiet_def intro: continues_trans)

lemma quiet_same:
  "lc_sequence c' = lc_sequence c \<Longrightarrow> lc_ops c' = lc_ops c \<Longrightarrow> lc_stopped c' = lc_stopped c \<Longrightarrow> lc_started c' = lc_started c \<Longrightarrow> quiet c c'"
  by (simp add: quiet_def continues_same)

lemma quiet_removed: "quiet c (remove_operation i c)" "quiet c (move_operation i c)"
  by (auto simp: quiet_def intro!: continues_removed)

lemma start_on_slot_quiet: "quiet c (start_on_slot i p r a c)"
  by (cases a) (auto simp: start_on_slot_def spawn_launch_def quiet_removed intro: quiet_same)

lemma assign_quiet: "quiet c (assign_display sessions i p r c)"
  by (auto simp: assign_display_def Let_def quiet_removed start_on_slot_quiet)

lemma prepare_quiet: "quiet c (prepare_launch sessions configured i c)"
proof -
  define p where "p = (case map_of (lc_ops c) i of Some p \<Rightarrow> p | None \<Rightarrow> new_operation configured True c)"
  define c1 where "c1 = (case map_of (lc_ops c) i of Some p \<Rightarrow> c | None \<Rightarrow> c\<lparr>lc_sequence := lc_sequence c + 1\<rparr>)"
  have first: "(case map_of (lc_ops c) i of Some p \<Rightarrow> (p, c)
      | None \<Rightarrow> (new_operation configured True c, c\<lparr>lc_sequence := lc_sequence c + 1\<rparr>)) = (p, c1)"
    by (simp add: p_def c1_def split: option.split)
  have c1: "lc_sequence c \<le> lc_sequence c1" "lc_ops c1 = lc_ops c" "lc_stopped c1 = lc_stopped c" "lc_started c1 = lc_started c"
    by (simp_all add: c1_def split: option.split)
  have p: "lc_sequence c \<le> g_generation p
      \<or> (\<exists>q. map_of (lc_ops c) i = Some q \<and> g_generation q = g_generation p \<and> (g_cancelled q \<longrightarrow> g_cancelled p))"
    by (simp add: p_def new_operation_def split: option.split)
  have fail: "quiet c (c1\<lparr>lc_validated := v, lc_ops := hm_remove i (lc_ops c1)\<rparr>)" for v
    using c1 by (auto simp: quiet_def intro!: continues_removed)
  have ok: "quiet c (c1\<lparr>lc_ops := hm_insert i (p\<lparr>g_reservation := x\<rparr>) (lc_ops c1), lc_identities := t, lc_validated := v\<rparr>)" for x t v
    using c1 p by (auto simp: quiet_def intro!: continues_replaced)
  have check: "quiet d (spawn_check i g y d)" for g y d by (rule quiet_same) (simp_all add: spawn_check_def)
  show ?thesis
    unfolding prepare_launch_def first Let_def prod.case
    using fail by (auto split: sum.split option.split dest!: reserve_runtime_Inr simp del: hm_remove_absent
        intro: quiet_trans [OF ok check] quiet_trans [OF ok assign_quiet])
qed

lemma join_quiet: "join_check i c = Some c' \<Longrightarrow> quiet c c'"
  by (auto simp: join_check_def quiet_def split: option.splits if_splits sum.splits dest!: reserve_runtime_Inr
      intro!: continues_replaced)

lemma quiet_sl: "quiet c (c\<lparr>lc_sl := s\<rparr>)" "quiet c (c\<lparr>lc_validated := v\<rparr>)"
  by (simp_all add: quiet_same)

lemma start_quiet:
  assumes "start_session_message sessions i c = Some c'"
  shows "quiet c c'"
proof -
  let ?c1 = "c\<lparr>lc_sl := reap_exited_container_sessions (lc_sl c)\<rparr>"
  have "c' = c \<or> c' = ?c1 \<or> c' = remove_operation i (?c1\<lparr>lc_validated := hm_remove i (lc_validated ?c1)\<rparr>)
      \<or> join_check i ?c1 = Some c' \<or> (\<exists>configured. c' = prepare_launch sessions configured i ?c1)"
    using assms by (auto simp: start_session_message_def Let_def split: if_splits option.splits)
  moreover have "quiet c c" by (simp add: quiet_same)
  moreover have "quiet c (remove_operation i (?c1\<lparr>lc_validated := hm_remove i (lc_validated ?c1)\<rparr>))"
    by (rule quiet_trans [OF quiet_trans [OF quiet_sl(1) quiet_sl(2)] quiet_removed(1)])
  ultimately show ?thesis
    using quiet_trans [OF quiet_sl(1) join_quiet] quiet_trans [OF quiet_sl(1) prepare_quiet] quiet_sl(1) by blast
qed

lemma check_quiet: "check_session_message sessions i c = Some c' \<Longrightarrow> quiet c c'"
  by (auto simp: check_session_message_def spawn_check_def new_operation_def quiet_def split: option.splits if_splits
      intro!: continues_replaced)

lemma checked_quiet: "quiet c (session_checked sessions i g result c)"
proof -
  let ?c1 = "c\<lparr>lc_checks := lc_checks c - {i}\<rparr>"
  have c1: "quiet c ?c1" by (simp add: quiet_same)
  have gone: "quiet c (remove_operation i ?c1)" by (rule quiet_trans [OF c1 quiet_removed(1)])
  have valid: "quiet c (?c1\<lparr>lc_validated := v, lc_resumes := r\<rparr>)" for v r by (simp add: quiet_same)
  have again: "quiet c (recheck i p configured ?c1)" for p configured
  proof -
    have spawned: "quiet c (spawn_check i (lc_sequence ?c1) configured (?c1\<lparr>lc_sequence := lc_sequence ?c1 + 1,
        lc_ops := hm_insert i q (lc_ops ?c1), lc_identities := t\<rparr>))" if "g_generation q = lc_sequence ?c1" for q t
      using that by (auto simp: quiet_def spawn_check_def intro!: continues_replaced)
    have dropped: "quiet c (?c1\<lparr>lc_sequence := lc_sequence ?c1 + 1, lc_identities := t, lc_ops := hm_remove i (lc_ops ?c1)\<rparr>)" for t
      by (auto simp: quiet_def intro!: continues_removed)
    show ?thesis
      unfolding recheck_def Let_def
      using spawned dropped by (auto split: sum.split dest!: reserve_runtime_Inr)
  qed
  have "quiet c c" by (simp add: quiet_same)
  with c1 gone valid again show ?thesis
    by (simp add: session_checked_def Let_def split: option.split sum.split)
qed


lemma display_started_quiet:
  assumes c: "stages c" and t: "DisplayTask i g slot \<in> set (lc_tasks c)"
    and r: "display_started i g slot d (take_task (DisplayTask i g slot) [w_child d] c) = Some c'"
  shows "quiet c c'"
proof (rule display_started_cases [OF c t refl, of d], goal_cases)
  case (1 p r)
  have "quiet c (move_operation i ((take_task (DisplayTask i g slot) [w_child d] c)\<lparr>lc_displays := hm_remove i (lc_displays c),
      lc_validated := hm_remove i (lc_validated c), lc_sl := s\<rparr>))" for s
    by (rule quiet_trans [OF quiet_same quiet_removed(2)]) simp_all
  moreover have "quiet c (spawn_launch i g (g_session p) r slot
     ((take_task (DisplayTask i g slot) [w_child d] c)\<lparr>lc_displays := hm_remove i (lc_displays c), lc_sl := s,
         lc_validated := hm_remove i (lc_validated c), lc_workers := hm_insert i d (lc_workers c)\<rparr>))" for s
    by (rule quiet_same) (simp_all add: spawn_launch_def)
  ultimately show ?case using 1(9) r by auto
qed

lemma display_failed_quiet: "quiet c (display_failed i g slot (take_task t ps c))"
proof -
  have "quiet c (remove_operation i ((take_task t ps c)\<lparr>lc_displays := x, lc_validated := y\<rparr>))" for x y
    by (rule quiet_trans [OF quiet_same quiet_removed(1)]) simp_all
  moreover have "quiet c (take_task t ps c)" by (rule quiet_same) simp_all
  ultimately show ?thesis by (simp add: display_failed_def)
qed

lemma not_started: "history_ok c \<Longrightarrow> map_of (lc_ops c) j = Some q \<Longrightarrow> (j, g_generation q) \<notin> set (lc_started c)"
  unfolding history_ok_def by blast

lemma launch_finished_history:
  assumes c: "stages c" and h: "history_ok c" and t: "LaunchTask i g s r slot \<in> set (lc_tasks c)"
    and r: "launch_finished i g slot sound result (take_task (LaunchTask i g s r slot) (report_children result) c) = Some c'"
  shows "history_ok c'"
proof (rule launch_finished_cases [OF c t refl, of result sound], goal_cases)
  case (1 p b)
  let ?c0 = "take_task (LaunchTask i g s r slot) (report_children result) c"
  let ?c1 = "?c0\<lparr>lc_launches := hm_remove i (lc_launches c), lc_workers := hm_remove i (lc_workers c)\<rparr>"
  have undone: "quiet c (move_operation i (?c1\<lparr>lc_sl := s'\<rparr>))" for s'
    by (rule quiet_trans [OF quiet_same quiet_removed(2)]) simp_all
  have gen: "g_generation p < lc_sequence c" using mentions_at [OF c, of i] 1(1) by (simp add: stage_ok_def)
  have up: "history_ok (complete_container_session_launch i p slot w sound result (?c1\<lparr>lc_ops := hm_remove i (lc_ops c)\<rparr>))"
    if "\<not> g_cancelled p" for w
  proof -
    let ?e = "complete_container_session_launch i p slot w sound result (?c1\<lparr>lc_ops := hm_remove i (lc_ops c)\<rparr>)"
    have "lc_started ?e = lc_started c \<or> lc_started ?e = (i, g_generation p) # lc_started c"
      by (auto simp: complete_container_session_launch_def Let_def split: sum.split option.split)
    then show ?thesis
      using h that gen 1(1) not_started [OF h] by (auto simp: history_ok_def)
  qed
  from 1(10) r consider s' where "c' = move_operation i (?c1\<lparr>lc_sl := s'\<rparr>)"
    | "\<not> g_cancelled p" "c' = complete_container_session_launch i p slot (map_of (lc_workers c) i) sound result
         (?c1\<lparr>lc_ops := hm_remove i (lc_ops c)\<rparr>)"
    by auto
  then show ?case
    by cases (use quiet_history [OF h undone] up in auto)
qed

lemma stop_history:
  assumes h: "history_ok c" and c: "stages c"
  shows "history_ok (stop_session_message i c)"
proof (cases "map_of (lc_ops c) i")
  case None
  then show ?thesis by (simp add: stop_session_message_def quiet_history [OF h quiet_sl(1)])
next
  case (Some p)
  let ?c1 = "c\<lparr>lc_ops := hm_insert i (p\<lparr>g_cancelled := True\<rparr>) (lc_ops c), lc_stopped := (i, g_generation p) # lc_stopped c\<rparr>"
  have "g_generation p < lc_sequence c" using mentions_at [OF c, of i] Some by (simp add: stage_ok_def)
  moreover have "(i, g_generation p) \<notin> set (lc_started c)" using not_started [OF h Some] .
  ultimately have c1: "history_ok ?c1" using h Some by (auto simp: history_ok_def)
  have c2: "history_ok (remove_operation i (?c1\<lparr>lc_validated := v\<rparr>))" for v
    by (rule quiet_history [OF c1 quiet_trans [OF quiet_sl(2) quiet_removed(1)]])
  show ?thesis
    using Some c1 c2 quiet_history [OF c1 quiet_sl(1)] quiet_history [OF c2 quiet_sl(1)]
    by (simp add: stop_session_message_def Let_def)
qed

lemma step_history:
  assumes "control_step c r" "control_ok c" "history_ok c" "r = Some c'"
  shows "history_ok c'"
  using assms
proof (induction arbitrary: c' rule: control_step.induct)
  case (check i c sessions)
  then show ?case using quiet_history check_quiet by blast
next
  case (start i c sessions)
  then show ?case using quiet_history start_quiet by blast
next
  case (start_current t c sessions)
  then show ?case using quiet_history [OF start_current(3) start_quiet] by (auto simp: start_if_current_def split: option.splits)
next
  case (resume i g c sessions)
  have "history_ok (c\<lparr>lc_resumes := remove1 (i, g) (lc_resumes c)\<rparr>)"
    using resume(3) by (rule quiet_history) (simp add: quiet_same)
  with resume show ?case using quiet_history [OF _ start_quiet] by (auto simp: resume_session_def split: if_splits)
next
  case (stop c i)
  then show ?case by (auto simp: control_ok_def intro: stop_history)
next
  case (force_stop c i)
  then show ?case using quiet_history [OF force_stop(2) quiet_sl(1)] by (auto simp: force_stop_message_def)
next
  case (create_display c requested)
  have "quiet c (create_managed_display requested c)"
    by (rule quiet_same) (auto simp: create_managed_display_def Let_def split: option.split)
  with create_display show ?case using quiet_history by blast
next
  case (close_display c slot)
  have "quiet c (close_managed_display slot c)"
    by (rule quiet_same) (auto simp: close_managed_display_def Let_def split: option.split)
  with close_display show ?case using quiet_history by blast
next
  case (checked i g s c sessions result)
  let ?c0 = "(take_task (CheckTask i g s) [] c)\<lparr>lc_checked := (case result of Inl _ \<Rightarrow> [] | Inr r \<Rightarrow> [(s, r)]) @ lc_checked c\<rparr>"
  have "quiet c ?c0" by (rule quiet_same) simp_all
  from quiet_history [OF checked(3) quiet_trans [OF this checked_quiet]] checked(4) show ?case by auto
next
  case (display_ready i g slot c d)
  then show ?case using display_started_quiet quiet_history unfolding control_ok_def by blast
next
  case (display_lost i g slot c)
  then show ?case using display_failed_quiet quiet_history by blast
next
  case (launched i g s r slot c sound result)
  then show ?case using launch_finished_history unfolding control_ok_def by blast
next
  case (managed_ready slot g c d)
  have "quiet c (managed_started g slot d (take_task (ManagedTask slot g) [w_child d] c))"
    by (rule quiet_same) (auto simp: managed_started_def Let_def complete_managed_attempt_def)
  with managed_ready show ?case using quiet_history by blast
next
  case (managed_lost slot g c)
  have "quiet c (managed_failed g slot (take_task (ManagedTask slot g) [] c))"
    by (rule quiet_same) (auto simp: managed_failed_def)
  with managed_lost show ?case using quiet_history by blast
next
  case (maintenance c)
  then show ?case using quiet_history [OF maintenance(2) quiet_sl(1)] by blast
next
  case (cleanup_progress s c)
  then show ?case using quiet_history [OF cleanup_progress(6) quiet_sl(1)] by blast
next
  case (released i r c)
  then show ?case using quiet_history [OF released(4) quiet_same] by auto
qed

subsection \<open>A free name for a managed display\<close>

lemma first_free_None: "first_free fuel taken k = None \<Longrightarrow> j < fuel \<Longrightarrow> taken (''display-'' @ decimal (k + j))"
proof (induction fuel taken k arbitrary: j rule: first_free.induct)
  case (2 fuel taken k)
  then show ?case by (cases j) (auto simp: Let_def split: if_splits)
qed simp

lemma first_free_Some:
  "first_free fuel taken k = Some s \<Longrightarrow>
   \<exists>n \<ge> k. s = ''display-'' @ decimal n \<and> \<not> taken s \<and> list_all (\<lambda>m. taken (''display-'' @ decimal m)) [k..<n]"
proof (induction fuel taken k rule: first_free.induct)
  case (2 fuel taken k)
  show ?case
  proof (cases "taken (''display-'' @ decimal k)")
    case True
    with 2 obtain n where "n \<ge> Suc k" "s = ''display-'' @ decimal n" "\<not> taken s"
        "list_all (\<lambda>m. taken (''display-'' @ decimal m)) [Suc k..<n]"
      by (auto simp: Let_def)
    with True show ?thesis by (intro exI [of _ n]) (simp add: upt_conv_Cons)
  next
    case False
    with 2 show ?thesis by (intro exI [of _ k]) (simp add: Let_def)
  qed
qed simp

lemma first_free_total:
  assumes "\<And>s. taken s \<Longrightarrow> s \<in> set xs"
  shows "first_free (Suc (length xs)) taken k \<noteq> None"
proof
  assume none: "first_free (Suc (length xs)) taken k = None"
  let ?name = "\<lambda>j. ''display-'' @ decimal (k + j)"
  have "?name ` {..<Suc (length xs)} \<subseteq> set xs" using first_free_None [OF none] assms by auto
  then have "card (?name ` {..<Suc (length xs)}) \<le> card (set xs)" by (intro card_mono) simp_all
  moreover have "inj_on ?name {..<Suc (length xs)}" by (auto simp: inj_on_def decimal_inject)
  then have "card (?name ` {..<Suc (length xs)}) = Suc (length xs)" by (simp add: card_image)
  ultimately show False using card_length [of xs] by simp
qed

lemma taken_listed:
  assumes "slot_taken slot c"
  shows "slot \<in> set (taken_slots c)"
proof -
  have busy: "slot \<in> set (busy_slots c)" if b: "cleanup_display_busy slot c"
  proof -
    from b obtain q k where q: "cleanup (sl_life (lc_sl c)) = Some q" "k \<in> set (keys q)" "key_display slot k"
      by (auto simp: cleanup_display_busy_def display_busy_def list_ex_iff split: option.splits)
    then show ?thesis by (cases k) (auto simp: busy_slots_def intro!: bexI [of _ k])
  qed
  from assms consider "slot_managed slot c" | "hm_contains slot (lc_managed c)" | "slot_in_use slot c"
    | "profile_display_pending slot (lc_displays c) (lc_launches c)" | "cleanup_display_busy slot c"
    unfolding slot_taken_def by blast
  then show ?thesis
    by cases (use busy in \<open>auto simp: taken_slots_def slot_managed_def slot_in_use_def profile_display_pending_def
        list_ex_iff dest!: map_of_SomeD intro: rev_image_eqI\<close>)
qed

text \<open>
  A new managed display without a name gets \<open>display-n\<close> for the least \<open>n \<ge> 1\<close> that no
  managed display, running or starting, no pending launch, no cleanup and no active session uses;
  the search always ends.
\<close>

theorem next_slot_total:
  "case next_managed_display_slot c of
     None \<Rightarrow> False
   | Some slot \<Rightarrow> \<not> slot_taken slot c
       \<and> (\<exists>n \<ge> 1. slot = ''display-'' @ decimal n \<and> list_all (\<lambda>m. slot_taken (''display-'' @ decimal m) c) [1..<n])"
proof -
  obtain slot where s: "next_managed_display_slot c = Some slot"
    using first_free_total [of "\<lambda>slot. slot_taken slot c", OF taken_listed] by (auto simp: next_managed_display_slot_def simp del: first_free.simps)
  with first_free_Some [OF s [unfolded next_managed_display_slot_def]] show ?thesis by auto
qed

end
