(* ===== verification/Launch_Reservations.thy ===== *)
theory Launch_Reservations
  imports Launch_Control
begin

text \<open>
  The reservations of runtime identities along a launch: who holds one in every state of the
  event loop, that the table says exactly this, and so that no two sessions drive one container.
\<close>

subsection \<open>Who holds a reservation\<close>

definition op_res :: "pending_operation \<Rightarrow> runtime_reservation list" where
  "op_res p = (case g_reservation p of None \<Rightarrow> [] | Some r \<Rightarrow> [r])"

definition op_reservations :: "(profile_id \<times> pending_operation) list \<Rightarrow> runtime_reservation list" where
  "op_reservations m = concat (map (\<lambda>(_, p). op_res p) m)"

definition session_key :: "container_session \<Rightarrow> runtime_name" where
  "session_key s = (runtime_key (cs_runtime s), container_name s)"

text \<open>
  The table holds the reservations of the operations and those moved out of them; an operation
  reserves what its session names; an active session keeps the reservation of its launch.
\<close>

definition res_table ::
  "(profile_id \<times> pending_operation) list \<Rightarrow> identity_table \<Rightarrow> (profile_id \<times> runtime_reservation) list \<Rightarrow> bool" where
  "res_table ops t kept \<longleftrightarrow>
     distinct (map fst ops) \<and> identities_accounted t (op_reservations ops @ map snd kept)
     \<and> (\<forall>i p r. map_of ops i = Some p \<longrightarrow> g_reservation p = Some r \<longrightarrow> res_key r = session_key (g_session p))"

definition backed ::
  "profile_id set \<Rightarrow> (profile_id \<rightharpoonup> container_session) \<Rightarrow> (profile_id \<times> runtime_reservation) list \<Rightarrow> bool" where
  "backed xs launched kept \<longleftrightarrow>
     (\<forall>i \<in> xs. \<exists>r s. launched i = Some s \<and> (i, r) \<in> set kept \<and> res_key r = session_key s)"

definition active_profiles :: "sl \<Rightarrow> profile_id set" where
  "active_profiles s = s_profile ` set (sl_active s)"

definition res_ok :: "control \<Rightarrow> bool" where
  "res_ok c \<longleftrightarrow>
     res_table (lc_ops c) (lc_identities c) (lc_held c) \<and> backed (active_profiles (lc_sl c)) (lc_launched c) (lc_held c)"

lemma accounted_perm:
  assumes "mset ps = mset qs" "identities_accounted t ps"
  shows "identities_accounted t qs"
proof -
  have d: "distinct (map res_key ps)" and t: "t = map_of (map (\<lambda>p. (res_key p, res_owner p)) ps)"
    using assms(2) by (simp_all add: identities_accounted_def)
  have "mset (map res_key ps) = mset (map res_key qs)" using assms(1) by simp
  then have d': "distinct (map res_key qs)" using d mset_eq_imp_distinct_iff by blast
  have s: "set (map (\<lambda>p. (res_key p, res_owner p)) ps) = set (map (\<lambda>p. (res_key p, res_owner p)) qs)"
    using mset_eq_setD [OF assms(1)] by simp
  have "map_of (map (\<lambda>p. (res_key p, res_owner p)) ps) = map_of (map (\<lambda>p. (res_key p, res_owner p)) qs)"
    using s d d' by (intro map_of_inject_set [THEN iffD2]) (simp_all add: comp_def)
  with t d' show ?thesis by (simp add: identities_accounted_def)
qed

lemma op_reservations_insert [simp]: "op_reservations (hm_insert i p m) = op_res p @ op_reservations (hm_remove i m)"
  by (simp add: op_reservations_def hm_insert_def)

lemma op_reservations_split:
  assumes "distinct (map fst m)" "map_of m i = Some p"
  shows "mset (op_reservations m) = mset (op_res p) + mset (op_reservations (hm_remove i m))"
proof -
  have eq: "mset (op_reservations m) = (\<Sum>x \<in># mset m. mset (op_res (snd x)))" for m
    unfolding op_reservations_def by (induction m) auto
  show ?thesis using hm_remove_mset [OF assms] by (simp add: eq)
qed

lemma res_table_put:
  assumes "res_table ops t kept" and "map_of ops i = Some p"
    and "g_reservation q = g_reservation p" "g_session q = g_session p"
  shows "res_table (hm_insert i q ops) t kept"
proof -
  have "mset (op_reservations ops) = mset (op_res q @ op_reservations (hm_remove i ops))"
    using op_reservations_split [of ops i p] assms by (simp add: res_table_def op_res_def)
  then have "identities_accounted t (op_reservations (hm_insert i q ops) @ map snd kept)"
    using assms(1) by (auto simp: res_table_def intro: accounted_perm [rotated])
  with assms show ?thesis by (auto simp: res_table_def)
qed

lemma res_table_new:
  assumes "res_table ops t kept" "map_of ops i = None" "g_reservation q = None"
  shows "res_table (hm_insert i q ops) t kept"
  using assms by (auto simp: res_table_def op_res_def)

lemma res_table_removed:
  assumes "res_table ops t kept" "map_of ops i = Some p"
  shows "res_table (hm_remove i ops) (drop_held (g_reservation p) t) kept"
proof (cases "g_reservation p")
  case None
  then have "mset (op_reservations ops) = mset (op_reservations (hm_remove i ops))"
    using op_reservations_split [of ops i p] assms by (simp add: res_table_def op_res_def)
  then have "identities_accounted t (op_reservations (hm_remove i ops) @ map snd kept)"
    using assms(1) by (auto simp: res_table_def intro: accounted_perm [rotated])
  with None assms show ?thesis by (auto simp: res_table_def drop_held_def)
next
  case (Some r)
  then have m: "mset (op_reservations ops @ map snd kept) = add_mset r (mset (op_reservations (hm_remove i ops) @ map snd kept))"
    using op_reservations_split [of ops i p] assms by (simp add: res_table_def op_res_def)
  then have r: "r \<in> set (op_reservations ops @ map snd kept)" by (metis set_mset_mset union_single_eq_member)
  have a: "identities_accounted t (op_reservations ops @ map snd kept)" using assms(1) by (simp add: res_table_def)
  have "identities_accounted (drop_reservation r t) (op_reservations (hm_remove i ops) @ map snd kept)"
    by (rule accounted_perm [OF _ identity_ledger.release_accounted [OF a r]]) (simp add: m del: mset_append)
  with Some assms show ?thesis by (auto simp: res_table_def drop_held_def)
qed

lemma res_table_moved:
  assumes "res_table ops t kept" "map_of ops i = Some p"
  shows "res_table (hm_remove i ops) t ((case g_reservation p of None \<Rightarrow> [] | Some r \<Rightarrow> [(i, r)]) @ kept)"
proof -
  have "mset (op_reservations ops @ map snd kept)
      = mset (op_reservations (hm_remove i ops) @ map snd ((case g_reservation p of None \<Rightarrow> [] | Some r \<Rightarrow> [(i, r)]) @ kept))"
    using op_reservations_split [of ops i p] assms by (auto simp: res_table_def op_res_def split: option.split)
  then have "identities_accounted t (op_reservations (hm_remove i ops) @ map snd ((case g_reservation p of None \<Rightarrow> [] | Some r \<Rightarrow> [(i, r)]) @ kept))"
    using assms(1) by (auto simp: res_table_def intro: accounted_perm [rotated])
  with assms show ?thesis by (auto simp: res_table_def)
qed

text \<open>A reservation that succeeds is new in the table; one that fails leaves no trace.\<close>

lemma res_table_reserved:
  assumes t: "res_table ops t kept" and r: "reserve_runtime p t = Inr (q, t')"
    and p: "map_of ops i = Some p \<or> map_of ops i = None \<and> g_reservation p = None"
    and q': "g_reservation q' = g_reservation q" "g_session q' = g_session q"
  shows "res_table (hm_insert i q' ops) t' kept"
proof (cases "g_reservation p")
  case (Some x)
  with r p q' t show ?thesis by (auto simp: reserve_runtime_def intro: res_table_put)
next
  case None
  from None r obtain x where x: "reserve_identity (cs_id (g_session p)) (g_generation p) (cs_runtime (g_session p))
      (container_name (g_session p)) t = Inr (x, t')" "q = p\<lparr>g_reservation := Some x\<rparr>"
    by (auto simp: reserve_runtime_def and_then_Inr)
  have rest: "res_table (hm_remove i ops) t kept"
    using p res_table_removed [OF t, of i p] t None by (auto simp: drop_held_def)
  then have a: "identities_accounted t (op_reservations (hm_remove i ops) @ map snd kept)" by (simp add: res_table_def)
  have "identity_reserve (cs_id (g_session p), g_generation p, cs_runtime (g_session p), container_name (g_session p)) t = (Some x, t')"
    using x by (simp add: identity_reserve_def)
  from identity_ledger.reserve_accounted [OF a this]
  have "identities_accounted t' (op_reservations (hm_insert i q' ops) @ map snd kept)"
    using x(2) q' by (simp add: op_res_def)
  moreover have "res_key x = session_key (g_session p)"
    using x(1) by (auto simp: reserve_identity_def Let_def session_key_def split: if_splits)
  ultimately show ?thesis
    using t x(2) q' by (auto simp: res_table_def)
qed

lemma reserve_fails: "reserve_runtime p t = Inl e \<Longrightarrow> g_reservation p = None"
  by (auto simp: reserve_runtime_def split: option.splits)


subsection \<open>The handlers keep the account\<close>

lemma backed_fewer: "backed xs l kept \<Longrightarrow> ys \<subseteq> xs \<Longrightarrow> set kept \<subseteq> set kept' \<Longrightarrow> backed ys l kept'"
  unfolding backed_def by blast

lemma shrunk_active_profiles: "shrinks s s' \<Longrightarrow> active_profiles s' \<subseteq> active_profiles s"
proof -
  assume "shrinks s s'"
  then have "mset (map core (sl_active s')) \<subseteq># mset (map core (sl_active s))" by (simp add: shrinks_def)
  from set_mset_mono [OF this] have "core ` set (sl_active s') \<subseteq> core ` set (sl_active s)" by simp
  then have "s_profile ` core ` set (sl_active s') \<subseteq> s_profile ` core ` set (sl_active s)" by (rule image_mono)
  then show ?thesis by (simp add: active_profiles_def image_image core_def)
qed

lemma res_ok_same:
  assumes "res_ok c" "lc_ops c' = lc_ops c" "lc_identities c' = lc_identities c" "lc_held c' = lc_held c"
    "lc_launched c' = lc_launched c" "active_profiles (lc_sl c') \<subseteq> active_profiles (lc_sl c)"
  shows "res_ok c'"
  using assms by (auto simp: res_ok_def intro: backed_fewer)

lemma res_removed [intro]: "res_ok c \<Longrightarrow> res_ok (remove_operation i c)"
  by (auto simp: res_ok_def remove_operation_def split: option.split intro: res_table_removed)

lemma res_moved [intro]:
  assumes "res_ok c"
  shows "res_ok (move_operation i c)"
proof (cases "map_of (lc_ops c) i")
  case (Some p)
  then show ?thesis
    using assms res_table_moved [of "lc_ops c" "lc_identities c" "lc_held c" i p]
    by (auto simp: res_ok_def move_operation_def elim!: backed_fewer)
qed (use assms in \<open>simp add: move_operation_def\<close>)

lemma res_reserved:
  assumes "res_ok c" "reserve_runtime p (lc_identities c) = Inr (q, t)"
    and "map_of (lc_ops c) i = Some p \<or> map_of (lc_ops c) i = None \<and> g_reservation p = None"
    and "g_reservation q' = g_reservation q" "g_session q' = g_session q"
    and "lc_ops c' = hm_insert i q' (lc_ops c)" "lc_identities c' = t" "lc_held c' = lc_held c" "lc_launched c' = lc_launched c"
      "lc_sl c' = lc_sl c"
  shows "res_ok c'"
  using assms res_table_reserved [OF _ assms(2-5)] by (simp add: res_ok_def)

lemma start_on_slot_res: "res_ok c \<Longrightarrow> res_ok (start_on_slot i p r a c)"
  by (cases a) (auto simp: start_on_slot_def spawn_launch_def intro: res_ok_same)

lemma assign_res: "res_ok c \<Longrightarrow> res_ok (assign_display sessions i p r c)"
  by (auto simp: assign_display_def Let_def intro: start_on_slot_res)

lemma prepare_res:
  assumes ok: "res_ok c"
  shows "res_ok (prepare_launch sessions configured i c)"
proof -
  define p where "p = (case map_of (lc_ops c) i of Some p \<Rightarrow> p | None \<Rightarrow> new_operation configured True c)"
  define c1 where "c1 = (case map_of (lc_ops c) i of Some p \<Rightarrow> c | None \<Rightarrow> c\<lparr>lc_sequence := lc_sequence c + 1\<rparr>)"
  have first: "(case map_of (lc_ops c) i of Some p \<Rightarrow> (p, c)
      | None \<Rightarrow> (new_operation configured True c, c\<lparr>lc_sequence := lc_sequence c + 1\<rparr>)) = (p, c1)"
    by (simp add: p_def c1_def split: option.split)
  have c1: "res_ok c1" using ok by (auto simp: c1_def split: option.split elim: res_ok_same)
  have p: "map_of (lc_ops c1) i = Some p \<or> map_of (lc_ops c1) i = None \<and> g_reservation p = None"
    by (simp add: p_def c1_def new_operation_def split: option.split)
  show ?thesis
  proof (cases "reserve_runtime p (lc_identities c1)")
    case (Inl e)
    have none: "g_reservation p = None" by (rule reserve_fails [OF Inl])
    then have "res_table (hm_remove i (lc_ops c1)) (lc_identities c1) (lc_held c1)"
      using p c1 res_table_removed [of "lc_ops c1" "lc_identities c1" "lc_held c1" i p] by (auto simp: res_ok_def drop_held_def)
    then have "res_ok (c1\<lparr>lc_validated := v, lc_ops := hm_remove i (lc_ops c1)\<rparr>)" for v
      using c1 by (simp add: res_ok_def)
    then show ?thesis unfolding prepare_launch_def first Let_def prod.case by (simp add: Inl)
  next
    case (Inr qt)
    then obtain q t where qt: "qt = (q, t)" by (cases qt)
    let ?c2 = "c1\<lparr>lc_ops := hm_insert i q (lc_ops c1), lc_identities := t, lc_validated := hm_remove i (lc_validated c1)\<rparr>"
    have c2: "res_ok ?c2" by (rule res_reserved [OF c1 _ p, of q t q]) (use Inr qt in simp_all)
    have check: "res_ok (spawn_check i g s ?c2)" for g s by (rule res_ok_same [OF c2]) (simp_all add: spawn_check_def)
    have shape: "prepare_launch sessions configured i c =
        (case map_of (lc_validated c1) i of None \<Rightarrow> spawn_check i (g_generation q) (g_session q) ?c2
         | Some report \<Rightarrow> assign_display sessions i q report ?c2)"
      unfolding prepare_launch_def first Let_def prod.case by (simp add: Inr qt del: hm_remove_absent)
    show ?thesis
      unfolding shape using check assign_res [OF c2] by (auto split: option.split simp del: hm_remove_absent)
  qed
qed

lemma join_res: "join_check i c = Some c' \<Longrightarrow> res_ok c \<Longrightarrow> res_ok c'"
  by (auto simp: join_check_def split: option.splits if_splits sum.splits
      intro: res_reserved [where q' = "q\<lparr>g_launch_requested := True\<rparr>" and q = q for q])

lemma res_ok_sl: "res_ok c \<Longrightarrow> shrinks (lc_sl c) s \<Longrightarrow> res_ok (c\<lparr>lc_sl := s\<rparr>)"
  by (erule res_ok_same) (simp_all add: shrunk_active_profiles)

lemma start_res:
  assumes "start_session_message sessions i c = Some c'" "res_ok c"
  shows "res_ok c'"
proof -
  let ?c1 = "c\<lparr>lc_sl := reap_exited_container_sessions (lc_sl c)\<rparr>"
  have c1: "res_ok ?c1" using res_ok_sl [OF assms(2) reap_shrinks(1)] .
  have "c' = c \<or> c' = ?c1 \<or> c' = remove_operation i (?c1\<lparr>lc_validated := hm_remove i (lc_validated ?c1)\<rparr>)
      \<or> join_check i ?c1 = Some c' \<or> (\<exists>configured. c' = prepare_launch sessions configured i ?c1)"
    using assms by (auto simp: start_session_message_def Let_def split: if_splits option.splits)
  moreover have "res_ok (?c1\<lparr>lc_validated := hm_remove i (lc_validated ?c1)\<rparr>)" by (rule res_ok_same [OF c1]) simp_all
  ultimately show ?thesis
    using join_res [OF _ c1] prepare_res [OF c1] c1 assms(2) by blast
qed

lemma check_res: "check_session_message sessions i c = Some c' \<Longrightarrow> res_ok c \<Longrightarrow> res_ok c'"
  by (auto simp: check_session_message_def spawn_check_def new_operation_def res_ok_def split: option.splits if_splits
      intro!: res_table_new)

lemma checked_res:
  assumes ok: "res_ok c"
  shows "res_ok (session_checked sessions i g result c)"
proof -
  let ?c1 = "c\<lparr>lc_checks := lc_checks c - {i}\<rparr>"
  have c1: "res_ok ?c1" by (rule res_ok_same [OF ok]) simp_all
  have again: "res_ok (recheck i p configured ?c1)" if p: "map_of (lc_ops c) i = Some p" for p configured
  proof -
    let ?t = "drop_held (g_reservation p) (lc_identities c)"
    let ?p1 = "p\<lparr>g_session := configured, g_reservation := None, g_generation := lc_sequence c\<rparr>"
    have gone: "res_table (hm_remove i (lc_ops c)) ?t (lc_held c)"
      using ok res_table_removed [OF _ p] by (simp add: res_ok_def)
    have same: "hm_insert i q (hm_remove i m) = hm_insert i q m" for q :: pending_operation and m
      by (simp add: hm_insert_def)
    have fresh: "map_of (hm_remove i (lc_ops c)) i = None" by simp
    have reserved: "res_table (hm_insert i q (lc_ops c)) t (lc_held c)"
      if "reserve_runtime ?p1 ?t = Inr (q, t)" for q t
      using res_table_reserved [OF gone that, of i q] fresh by (simp add: same)
    have plain: "res_table (hm_insert i ?p1 (lc_ops c)) ?t (lc_held c)"
      using res_table_new [OF gone fresh, of ?p1] by (simp add: same)
    show ?thesis
      using ok gone reserved plain
      by (auto simp: recheck_def spawn_check_def Let_def res_ok_def split: sum.split)
  qed
  have "res_ok (?c1\<lparr>lc_validated := v, lc_resumes := r\<rparr>)" for v r by (rule res_ok_same [OF ok]) simp_all
  with ok c1 again res_removed [OF c1] show ?thesis
    by (simp add: session_checked_def Let_def split: option.split sum.split)
qed

lemma display_started_res:
  assumes c: "stages c" and ok: "res_ok c" and t: "DisplayTask i g slot \<in> set (lc_tasks c)"
    and r: "display_started i g slot d (take_task (DisplayTask i g slot) [w_child d] c) = Some c'"
  shows "res_ok c'"
proof (rule display_started_cases [OF c t refl, of d], goal_cases)
  case (1 p r)
  let ?c0 = "take_task (DisplayTask i g slot) [w_child d] c"
  have undone: "res_ok (move_operation i (?c0\<lparr>lc_displays := x, lc_validated := y, lc_sl := s'\<rparr>))"
    if "s = lc_sl c \<or> s = reap_exited_container_sessions (lc_sl c)"
      "queue_launch_cleanup i slot None (Some d) (Some (operation_of p)) s = Some s'" for s s' x y
  proof -
    have "active_profiles s' \<subseteq> active_profiles (lc_sl c)"
      using shrunk_active_profiles [OF queue_launch_shrinks(1) [OF that(2)]]
        shrunk_active_profiles [OF reap_shrinks(1), of "lc_sl c"] that(1) by blast
    then show ?thesis by (intro res_moved, intro res_ok_same [OF ok]) simp_all
  qed
  have go: "res_ok (spawn_launch i g (g_session p) r slot
      (?c0\<lparr>lc_displays := x, lc_sl := reap_exited_container_sessions (lc_sl c), lc_validated := y, lc_workers := w\<rparr>))" for x y w
    by (rule res_ok_same [OF ok]) (simp_all add: spawn_launch_def shrunk_active_profiles [OF reap_shrinks(1)])
  from 1(9) r undone go show ?case by (elim disjE exE conjE) (simp_all, blast+)
qed

lemma launch_finished_res:
  assumes c: "stages c" and ok: "res_ok c" and t: "LaunchTask i g s r slot \<in> set (lc_tasks c)"
    and r: "launch_finished i g slot sound result (take_task (LaunchTask i g s r slot) (report_children result) c) = Some c'"
  shows "res_ok c'"
proof (rule launch_finished_cases [OF c t refl, of result sound], goal_cases)
  case (1 p b)
  let ?c1 = "(take_task (LaunchTask i g s r slot) (report_children result) c)\<lparr>lc_launches := hm_remove i (lc_launches c),
      lc_workers := hm_remove i (lc_workers c)\<rparr>"
  obtain x where x: "g_reservation p = Some x" "res_key x = session_key (g_session p)"
    using 1(1,5) ok by (auto simp: res_ok_def res_table_def)
  have undone: "res_ok (move_operation i (?c1\<lparr>lc_sl := s'\<rparr>))"
    if "queue_launch_cleanup i slot (report_of result) w op (lc_sl c) = Some s'" for w op s'
    by (rule res_moved, rule res_ok_same [OF ok]) (simp_all add: shrunk_active_profiles [OF queue_launch_shrinks(1) [OF that]])
  have moved: "res_table (hm_remove i (lc_ops c)) (lc_identities c) ((i, x) # lc_held c)"
    using res_table_moved [of _ _ _ i p] 1(1) ok x by (fastforce simp: res_ok_def)
  have kept: "backed (active_profiles (lc_sl c)) (lc_launched c) (lc_held c)" using ok by (simp add: res_ok_def)
  have started: "backed (insert i (active_profiles (lc_sl c))) ((lc_launched c)(i \<mapsto> g_session p)) ((i, x) # lc_held c)"
    using kept x by (auto simp: backed_def)
  have failed: "backed (active_profiles (queue_failed_launch_display_cleanup i slot d (lc_sl c))) (lc_launched c) ((i, x) # lc_held c)" for d
    by (rule backed_fewer [OF kept])
      (auto simp: queue_failed_launch_display_cleanup_def dest: shrunk_active_profiles [OF enqueue_display_more, THEN subsetD])
  have "res_ok (complete_container_session_launch i p slot w sound result (?c1\<lparr>lc_ops := hm_remove i (lc_ops c)\<rparr>))" for w
    using moved started failed kept res_table_removed [of "lc_ops c" "lc_identities c" "lc_held c", OF _ 1(1)] ok x
    by (auto simp: complete_container_session_launch_def Let_def res_ok_def active_profiles_def split: sum.split option.split)
  with undone 1(10) r show ?case by auto
qed

lemma stop_res:
  assumes ok: "res_ok c"
  shows "res_ok (stop_session_message i c)"
proof -
  have g: "res_ok (d\<lparr>lc_sl := snd (request_graceful_container_stop i (lc_sl d))\<rparr>)" if "res_ok d" for d
    by (rule res_ok_sl [OF that graceful_shrinks])
  show ?thesis
  proof (cases "map_of (lc_ops c) i")
    case None
    then show ?thesis using g [OF ok] by (simp add: stop_session_message_def)
  next
    case (Some p)
    let ?c1 = "c\<lparr>lc_ops := hm_insert i (p\<lparr>g_cancelled := True\<rparr>) (lc_ops c), lc_stopped := (i, g_generation p) # lc_stopped c\<rparr>"
    have c1: "res_ok ?c1" using ok res_table_put [OF _ Some, of _ _ "p\<lparr>g_cancelled := True\<rparr>"] by (simp add: res_ok_def)
    have c2: "res_ok (remove_operation i (?c1\<lparr>lc_validated := v\<rparr>))" for v
      by (rule res_removed, rule res_ok_same [OF c1]) simp_all
    show ?thesis
      using Some c1 c2 g [OF c1] g [OF c2] by (simp add: stop_session_message_def Let_def)
  qed
qed

lemma queued_display_profiles:
  "active_profiles (queue_display_cleanup d slot why (s\<lparr>sl_displays := x\<rparr>)) \<subseteq> active_profiles s"
  using shrunk_active_profiles [OF queue_display_shrinks, of d slot why "s\<lparr>sl_displays := x\<rparr>"] by (simp add: active_profiles_def)

lemma step_res:
  assumes "control_step c r" "control_ok c" "res_ok c" "r = Some c'"
  shows "res_ok c'"
  using assms
proof (induction arbitrary: c' rule: control_step.induct)
  case (check i c sessions)
  then show ?case using check_res by blast
next
  case (start i c sessions)
  then show ?case using start_res by blast
next
  case (start_current t c sessions)
  then show ?case using start_res by (auto simp: start_if_current_def split: option.splits)
next
  case (resume i g c sessions)
  have "res_ok (c\<lparr>lc_resumes := remove1 (i, g) (lc_resumes c)\<rparr>)" by (rule res_ok_same [OF resume(3)]) simp_all
  with resume show ?case using start_res by (auto simp: resume_session_def split: if_splits)
next
  case (stop c i)
  then show ?case using stop_res by blast
next
  case (force_stop c i)
  then show ?case using res_ok_sl [OF force_stop(2) stop_active_shrinks] by (auto simp: force_stop_message_def)
next
  case (create_display c requested)
  have "res_ok (create_managed_display requested c)"
    by (rule res_ok_same [OF create_display(2)])
      (auto simp: create_managed_display_def Let_def split: option.split dest: shrunk_active_profiles [OF reap_managed_shrinks(1), THEN subsetD])
  with create_display show ?case by blast
next
  case (close_display c slot)
  have "res_ok (close_managed_display slot c)"
    by (rule res_ok_same [OF close_display(2)])
      (auto simp: close_managed_display_def Let_def split: option.split dest!: queued_display_profiles [THEN subsetD])
  with close_display show ?case by blast
next
  case (checked i g s c sessions result)
  let ?c0 = "(take_task (CheckTask i g s) [] c)\<lparr>lc_checked := (case result of Inl _ \<Rightarrow> [] | Inr r \<Rightarrow> [(s, r)]) @ lc_checked c\<rparr>"
  have "res_ok ?c0" by (rule res_ok_same [OF checked(3)]) simp_all
  then show ?case using checked_res checked(4) by blast
next
  case (display_ready i g slot c d)
  then show ?case using display_started_res unfolding control_ok_def by blast
next
  case (display_lost i g slot c)
  let ?c0 = "take_task (DisplayTask i g slot) [] c"
  have "res_ok ?c0" by (rule res_ok_same [OF display_lost(3)]) simp_all
  moreover have "res_ok (?c0\<lparr>lc_displays := x, lc_validated := y\<rparr>)" for x y by (rule res_ok_same [OF display_lost(3)]) simp_all
  ultimately have "res_ok (display_failed i g slot ?c0)" by (auto simp: display_failed_def)
  then show ?case using display_lost(4) by blast
next
  case (launched i g s r slot c sound result)
  then show ?case using launch_finished_res unfolding control_ok_def by blast
next
  case (managed_ready slot g c d)
  have "res_ok (managed_started g slot d (take_task (ManagedTask slot g) [w_child d] c))"
    by (rule res_ok_same [OF managed_ready(3)])
      (auto simp: managed_started_def Let_def complete_managed_attempt_def active_profiles_def [of "_\<lparr>sl_displays := _\<rparr>"]
        active_profiles_def [of "lc_sl c"] dest!: shrunk_active_profiles [OF queue_display_shrinks, THEN subsetD])
  with managed_ready show ?case by blast
next
  case (managed_lost slot g c)
  have "res_ok (managed_failed g slot (take_task (ManagedTask slot g) [] c))"
    by (rule res_ok_same [OF managed_lost(3)]) (auto simp: managed_failed_def)
  with managed_lost show ?case by blast
next
  case (maintenance c)
  then show ?case using res_ok_sl [OF maintenance(2) shrinks_trans [OF reap_managed_shrinks(1) reap_shrinks(1)]] by blast
next
  case (cleanup_progress s c)
  have "res_ok (c\<lparr>lc_sl := s\<rparr>)" by (rule res_ok_same [OF cleanup_progress(6)]) (use cleanup_progress(1) in \<open>simp_all add: active_profiles_def\<close>)
  then show ?case using cleanup_progress(7) by blast
next
  case (released i r c)
  have a: "identities_accounted (lc_identities c) (op_reservations (lc_ops c) @ map snd (lc_held c))"
    using released(4) by (simp add: res_ok_def res_table_def)
  have "r \<in> set (op_reservations (lc_ops c) @ map snd (lc_held c))" using released(1) by force
  moreover have held: "{#r#} \<subseteq># image_mset snd (mset (lc_held c))" using released(1) by force
  ultimately have dropped: "identities_accounted (drop_reservation r (lc_identities c)) (remove1 r (op_reservations (lc_ops c) @ map snd (lc_held c)))"
    using identity_ledger.release_accounted [OF a] by blast
  have "image_mset snd (mset (lc_held c) - {#(i, r)#}) = image_mset snd (mset (lc_held c)) - {#r#}"
    using released(1) by (subst image_mset_Diff) auto
  then have "identities_accounted (drop_reservation r (lc_identities c)) (op_reservations (lc_ops c) @ map snd (remove1 (i, r) (lc_held c)))"
    by (intro accounted_perm [OF _ dropped]) (simp add: multiset_diff_union_assoc [OF held])
  moreover have "backed (active_profiles (lc_sl c)) (lc_launched c) (remove1 (i, r) (lc_held c))"
    using released(2,4) by (fastforce simp: res_ok_def backed_def active_profiles_def list_ex_iff in_set_remove1)
  ultimately show ?case using released by (auto simp: res_ok_def res_table_def)
qed

subsection \<open>Every state of the event loop\<close>

definition loop_ok :: "control \<Rightarrow> bool" where
  "loop_ok c \<longleftrightarrow> control_ok c \<and> procs_ok c \<and> history_ok c \<and> res_ok c"

lemma init_loop_ok: "fresh_jobs s \<Longrightarrow> loop_ok (control_init s)"
  using control_init_ok [of s]
  by (simp add: loop_ok_def procs_ok_def history_ok_def res_ok_def res_table_def backed_def identities_accounted_def
      op_reservations_def active_profiles_def control_init_def fresh_jobs_def open_queue_def)

lemma reachable_loop_ok: "reachable r \<Longrightarrow> \<exists>c. r = Some c \<and> loop_ok c"
proof (induction rule: reachable.induct)
  case (initial s)
  then show ?case by (simp add: init_loop_ok)
next
  case (step c r)
  then have c: "control_ok c" "procs_ok c" "history_ok c" "res_ok c" by (simp_all add: loop_ok_def)
  obtain c' where "r = Some c'" "control_ok c'" using step_ok [OF step(2) c(1)] by blast
  with c step_procs [OF step(2)] step_history [OF step(2)] step_res [OF step(2)] show ?case by (simp add: loop_ok_def)
qed

text \<open>A launch in flight is the launch of the operation as it is, with what its check reported.\<close>

lemma launch_in_flight:
  assumes "stages c" "LaunchTask i g s r slot \<in> set (lc_tasks c)"
  shows "(s, r) \<in> set (lc_checked c) \<and> (\<exists>p. map_of (lc_ops c) i = Some p \<and> g_generation p = g \<and> g_session p = s
    \<and> g_reservation p \<noteq> None)"
  by (rule stage_of_launch [OF assms]) auto

lemma one_worker: "stages c \<Longrightarrow> length (tasks_of i (lc_tasks c)) \<le> 1"
  using mentions_at [of c i] by (auto simp: stage_ok_def mentions_def split: option.splits)

text \<open>The container each active session, and each launch in flight, drives.\<close>

definition drivers :: "control \<Rightarrow> (profile_id \<times> runtime_name) set" where
  "drivers c =
     {(i, session_key s) | i s. i \<in> active_profiles (lc_sl c) \<and> lc_launched c i = Some s}
     \<union> {(i, session_key s) | i g s r slot. LaunchTask i g s r slot \<in> set (lc_tasks c)}"

definition tagged :: "control \<Rightarrow> (profile_id \<times> runtime_reservation) list" where
  "tagged c = concat (map (\<lambda>(i, p). map (Pair i) (op_res p)) (lc_ops c)) @ lc_held c"

lemma tagged_reservations: "map snd (tagged c) = op_reservations (lc_ops c) @ map snd (lc_held c)"
  by (simp add: tagged_def op_reservations_def map_concat comp_def case_prod_unfold)

lemma drivers_tagged:
  assumes "stages c" "res_ok c" "(i, k) \<in> drivers c"
  obtains r where "(i, r) \<in> set (tagged c)" "res_key r = k"
proof -
  consider s where "i \<in> active_profiles (lc_sl c)" "lc_launched c i = Some s" "k = session_key s"
    | g s r slot where "LaunchTask i g s r slot \<in> set (lc_tasks c)" "k = session_key s"
    using assms(3) by (auto simp: drivers_def)
  then show ?thesis
  proof cases
    case (1 s)
    then show ?thesis using assms(2) that by (fastforce simp: res_ok_def backed_def tagged_def)
  next
    case (2 g s r slot)
    obtain p x where p: "map_of (lc_ops c) i = Some p" "g_session p = s" "g_reservation p = Some x"
      using launch_in_flight [OF assms(1) 2(1)] by blast
    then have "res_key x = k" using assms(2) 2(2) by (auto simp: res_ok_def res_table_def)
    moreover have "(i, x) \<in> set (tagged c)" using map_of_SomeD [OF p(1)] p(3) by (force simp: tagged_def op_res_def)
    ultimately show ?thesis using that by blast
  qed
qed

lemma drivers_exclusive:
  assumes "stages c" "res_ok c"
  shows "single_valued ((drivers c)\<inverse>)"
proof (rule single_valuedI, clarsimp)
  fix i j k
  assume "(i, k) \<in> drivers c" "(j, k) \<in> drivers c"
  then obtain r q where r: "(i, r) \<in> set (tagged c)" "res_key r = k" and q: "(j, q) \<in> set (tagged c)" "res_key q = k"
    using drivers_tagged [OF assms] by metis
  have "distinct (map res_key (map snd (tagged c)))"
    using assms(2) by (simp only: tagged_reservations) (simp add: res_ok_def res_table_def identities_accounted_def)
  then have "inj_on (res_key \<circ> snd) (set (tagged c))" by (simp add: distinct_map comp_def)
  from inj_onD [OF this _ r(1) q(1)] r(2) q(2) show "i = j" by simp
qed

lemma active_launched: "res_ok c \<Longrightarrow> active_profiles (lc_sl c) \<subseteq> dom (lc_launched c)"
  by (auto simp: res_ok_def backed_def)

subsection \<open>A run\<close>

text \<open>One profile is started, checked, launched on the default display, and becomes active.\<close>

definition run_profile :: container_session where
  "run_profile =
     \<lparr>cs_id = ProfileId (replicate 16 7), cs_name = ''demo'', cs_image = ''img'', cs_runtime = ''docker'', cs_display = None,
      cs_presentation = None, cs_profile = None, cs_app = None, cs_command = Some ''foot'', cs_socket = None,
      cs_container_socket = None, cs_waypipe_path = None, cs_waypipe_compress = None, cs_waypipe_threads = None,
      cs_audio = False, cs_runtime_args = [], cs_mounts = [], cs_env = []\<rparr>"

definition run_report :: check_report where
  "run_report =
     \<lparr>ck_runtime = ''docker'', ck_image = ''img'', ck_command = ''foot'', ck_waypipe = ''waypipe'', ck_waypipe_version = ''0.9'',
      ck_runtime_binary = ''docker'', ck_container_name = ''cocoa-way-demo'', ck_running = False, ck_warnings = []\<rparr>"

definition run_checking :: control where
  "run_checking =
     (control_init sample_sl)\<lparr>lc_checks := {cs_id run_profile},
       lc_ops := [(cs_id run_profile, \<lparr>g_generation = 1, g_session = run_profile, g_launch_requested = True, g_cancelled = False,
          g_reservation = Some \<lparr>res_key = (''docker'', ''cocoa-way-demo''), res_owner = (cs_id run_profile, 1)\<rparr>\<rparr>)],
       lc_identities := [(''docker'', ''cocoa-way-demo'') \<mapsto> (cs_id run_profile, 1)], lc_sequence := 2,
       lc_tasks := [CheckTask (cs_id run_profile) 1 run_profile]\<rparr>"

lemma run_saved: "is_saved (cs_id run_profile)"
  by (simp add: is_saved_def run_profile_def UNSAVED_def)

lemma run_key: "runtime_key (cs_runtime run_profile) = ''docker''" "container_name run_profile = ''cocoa-way-demo''"
  by code_simp+

lemma run_start: "start_session_message [run_profile] (cs_id run_profile) (control_init sample_sl) = Some run_checking"
  using run_saved
  by (simp add: start_session_message_def control_init_def sample_sl_def cleanup_session_busy_def life_init_def session_busy_def keys_def
      cleanup_queue_new_def reap_exited_container_sessions_def join_check_def prepare_launch_def new_operation_def reserve_runtime_def
      reserve_identity_def Let_def run_key and_then_def spawn_check_def run_checking_def hm_insert_def hm_remove_def)

definition run_validated :: control where
  "run_validated = run_checking\<lparr>lc_checks := {}, lc_tasks := [], lc_checked := [(run_profile, run_report)],
     lc_validated := [(cs_id run_profile, run_report)], lc_resumes := [(cs_id run_profile, 1)]\<rparr>"

lemma run_check:
  "session_checked [run_profile] (cs_id run_profile) 1 (Inr run_report)
     ((take_task (CheckTask (cs_id run_profile) 1 run_profile) [] run_checking)\<lparr>lc_checked := [(run_profile, run_report)]\<rparr>)
   = run_validated"
  by (simp add: session_checked_def take_task_def run_checking_def run_validated_def is_current_def current_operation_def
      operation_of_def control_init_def Let_def hm_insert_def hm_remove_def)

definition run_launching :: control where
  "run_launching = run_validated\<lparr>lc_validated := [], lc_resumes := [],
     lc_launches := [(cs_id run_profile, ''default'')],
     lc_tasks := [LaunchTask (cs_id run_profile) 1 run_profile run_report ''default'']\<rparr>"

lemma run_default: "choose_display_assignment run_profile False = DefaultDisplay"
  by code_simp

lemma run_resume:
  "resume_session [run_profile] (cs_id run_profile) 1 (run_validated\<lparr>lc_resumes := []\<rparr>) = Some run_launching"
  using run_saved
  by (simp add: resume_session_def start_session_message_def run_launching_def run_validated_def run_checking_def control_init_def
      sample_sl_def cleanup_session_busy_def life_init_def session_busy_def keys_def is_current_def current_operation_def operation_of_def
      cleanup_queue_new_def reap_exited_container_sessions_def join_check_def prepare_launch_def reserve_runtime_def Let_def
      assign_display_def active_display_conflict_index_def active_slots_def cleanup_display_busy_def display_busy_def
      slot_in_use_def profile_display_pending_def run_default start_on_slot_def spawn_launch_def hm_insert_def hm_remove_def)

definition run_active :: control where
  "run_active = the (launch_finished (cs_id run_profile) 1 ''default'' False
     (Inr \<lparr>l_identity = sample_identity, l_container = Some 4, l_waypipe = 9\<rparr>)
     (take_task (LaunchTask (cs_id run_profile) 1 run_profile run_report ''default'') [9, 4] run_launching))"

lemma run_launched:
  "launch_finished (cs_id run_profile) 1 ''default'' False
     (Inr \<lparr>l_identity = sample_identity, l_container = Some 4, l_waypipe = 9\<rparr>)
     (take_task (LaunchTask (cs_id run_profile) 1 run_profile run_report ''default'') [9, 4] run_launching) = Some run_active"
  "active_profiles (lc_sl run_active) = {cs_id run_profile}" "lc_received run_active = [9, 4]"
  "lc_started run_active = [(cs_id run_profile, 1)]"
  "holders run_active = [(cs_id run_profile, ''default'')]"
  by (simp_all add: run_active_def launch_finished_def take_task_def run_launching_def run_validated_def run_checking_def is_current_def
      current_operation_def operation_of_def control_init_def sample_sl_def Let_def complete_container_session_launch_def
      active_profiles_def holders_def active_slots_def hm_remove_def)

lemma run_reachable: "reachable (Some run_launching)" "reachable (Some run_active)"
proof -
  have "fresh_jobs sample_sl" by (simp add: sample_sl_def fresh_jobs_def open_queue_def life_init_def)
  then have 0: "reachable (Some (control_init sample_sl))" by (rule reachable.initial)
  have 1: "reachable (Some run_checking)"
    using reachable.step [OF 0 control_step.start [OF run_saved, of _ "[run_profile]"]] by (simp only: run_start)
  have "CheckTask (cs_id run_profile) 1 run_profile \<in> set (lc_tasks run_checking)" by (simp add: run_checking_def)
  from reachable.step [OF 1 control_step.checked [OF this, of "[run_profile]" "Inr run_report"]]
  have 2: "reachable (Some run_validated)" using run_check by (simp add: run_checking_def control_init_def)
  have "(cs_id run_profile, 1) \<in> set (lc_resumes run_validated)" by (simp add: run_validated_def)
  from reachable.step [OF 2 control_step.resume [OF this, of "[run_profile]"]]
  show 3: "reachable (Some run_launching)" using run_resume by (simp add: run_validated_def)
  have "LaunchTask (cs_id run_profile) 1 run_profile run_report ''default'' \<in> set (lc_tasks run_launching)" by (simp add: run_launching_def)
  from reachable.step [OF 3 control_step.launched [OF this, of False "Inr \<lparr>l_identity = sample_identity, l_container = Some 4, l_waypipe = 9\<rparr>"]]
  show "reachable (Some run_active)" using run_launched(1) by (simp add: report_children_def)
qed

subsection \<open>The properties\<close>

text \<open>
  C11: in every run of the event loop, whatever requests, replies, exits and cleanups come in
  whatever order, no handler panics, a profile holds at most one display, running, launching or
  waiting for its server, two profiles never share one, every managed slot is used once, and a
  slot whose server belongs to one session is not also managed.
\<close>

theorem displays_exclusive:
  assumes "reachable r"
  shows "\<exists>c. r = Some c \<and> distinct (map fst (holders c)) \<and> distinct (map snd (holders c))
    \<and> distinct (managed_slots c) \<and> dedicated_slots c \<inter> set (managed_slots c) = {}"
  using reachable_loop_ok [OF assms] by (auto simp: loop_ok_def control_ok_def slots_ok_def exclusive_def)

theorem displays_exclusive_witness:
  "holders run_active = [(cs_id run_profile, ''default'')] \<and> dedicated_slots run_active \<inter> set (managed_slots run_active) = {}"
  using displays_exclusive [OF run_reachable(2)] run_launched(5) by auto

text \<open>
  a container is launched only for the current operation of its profile, which holds a
  reservation, and with a report that a check of exactly this session gave; a profile never has
  two workers in flight.
\<close>

theorem launches_only_checked:
  assumes "reachable r"
  shows "\<exists>c. r = Some c \<and> (\<forall>i. length (tasks_of i (lc_tasks c)) \<le> 1)
    \<and> (\<forall>i g s report slot. LaunchTask i g s report slot \<in> set (lc_tasks c) \<longrightarrow>
          (s, report) \<in> set (lc_checked c) \<and> (\<exists>p. map_of (lc_ops c) i = Some p \<and> g_generation p = g \<and> g_session p = s
            \<and> g_reservation p \<noteq> None))"
  using reachable_loop_ok [OF assms] launch_in_flight one_worker unfolding loop_ok_def control_ok_def by blast

theorem launches_only_checked_witness: "(run_profile, run_report) \<in> set (lc_checked run_launching)"
proof -
  have "LaunchTask (cs_id run_profile) 1 run_profile run_report ''default'' \<in> set (lc_tasks run_launching)"
    by (simp add: run_launching_def)
  with launches_only_checked [OF run_reachable(1)] show ?thesis by blast
qed

text \<open>
  C12: a launch that was stopped never becomes an active session, however its check, its display
  and its launch worker answer afterwards.
\<close>

theorem stopped_launch_stays_down:
  assumes "reachable r"
  shows "\<exists>c. r = Some c \<and> set (lc_stopped c) \<inter> set (lc_started c) = {}"
  using reachable_loop_ok [OF assms] by (fastforce simp: loop_ok_def history_ok_def)

theorem stopped_launch_stays_down_witness:
  "(cs_id run_profile, 1) \<in> set (lc_stopped (stop_session_message (cs_id run_profile) run_launching))
   \<and> (cs_id run_profile, 1) \<notin> set (lc_started (stop_session_message (cs_id run_profile) run_launching))"
proof -
  let ?c = "stop_session_message (cs_id run_profile) run_launching"
  have "(cs_id run_profile, 1) \<in> set (lc_stopped ?c)"
    by (simp add: stop_session_message_def run_launching_def run_validated_def run_checking_def control_init_def)
  moreover have "set (lc_stopped ?c) \<inter> set (lc_started ?c) = {}"
    using stopped_launch_stays_down [OF reachable.step [OF run_reachable(1) control_step.stop]] by blast
  ultimately show ?thesis by blast
qed

text \<open>
  C14: every process a worker handed to the event loop, a display server, a container client or
  its proxy, is owned by an active session, a managed display, a launch under way or a cleanup
  job: late, cancelled and failed launches leave none behind.
\<close>

theorem launch_processes_kept:
  assumes "reachable r"
  shows "\<exists>c. r = Some c \<and> set (lc_received c) \<subseteq> all_procs c"
  using reachable_loop_ok [OF assms] by (auto simp: loop_ok_def procs_ok_def)

theorem launch_processes_kept_witness: "9 \<in> all_procs run_active \<and> 4 \<in> all_procs run_active"
  using launch_processes_kept [OF run_reachable(2)] run_launched(3) by auto

text \<open>
  C13: two profiles never drive one container: the runtime and the container name of the active
  sessions and of the launches in flight are pairwise different, even when profiles are edited
  while they run.
\<close>

theorem containers_exclusive:
  assumes "reachable r"
  shows "\<exists>c. r = Some c \<and> active_profiles (lc_sl c) \<subseteq> dom (lc_launched c) \<and> single_valued ((drivers c)\<inverse>)"
  using reachable_loop_ok [OF assms] drivers_exclusive active_launched unfolding loop_ok_def control_ok_def by blast

theorem containers_exclusive_witness:
  "active_profiles (lc_sl run_active) = {cs_id run_profile} \<and> single_valued ((drivers run_active)\<inverse>)"
  using containers_exclusive [OF run_reachable(2)] run_launched(2) by auto

end
