(* ===== verification/Control_Socket.thy ===== *)
theory Control_Socket
  imports Launch_Reservations Redaction Clipboard_Image "HOL-Library.Sublist"
begin

text \<open>
  The local control socket: framed requests and responses under deadlines (\<open>control_client.rs\<close>,
  \<open>control_protocol.rs\<close>), the server with its handlers, and the commands it queues for the event
  loop (\<open>control_api.rs\<close>). serde_json, the snapshots of other parts and the contents of the
  configuration are arguments.
\<close>

subsection \<open>Input and output before a deadline\<close>

definition MAX_REQUEST_BYTES :: nat where
  "MAX_REQUEST_BYTES = 64 * 1024"

definition MAX_RESPONSE_BYTES :: nat where
  "MAX_RESPONSE_BYTES = 4 * 1024 * 1024"

definition REQUEST_TIMEOUT :: duration where
  "REQUEST_TIMEOUT = from_secs 35"

definition WRITE_TIMEOUT :: duration where
  "WRITE_TIMEOUT = from_secs 2"

abbreviation timed_out_error :: string where
  "timed_out_error \<equiv> ''control I/O deadline exceeded''"

text \<open>
  One poll of \<open>wait_ready\<close>: the clock before it, and its outcome (ready, with the clock after it).
  \<open>None\<close>: it is still waiting.
\<close>

datatype socket_poll = SocketReady instant | SocketExpired | SocketSignal | SocketError string

definition poll_millis :: "duration \<Rightarrow> nat" where
  "poll_millis remaining = min (remaining div 1000000 + 1) (2 ^ 31 - 1)"

fun wait_ready :: "instant \<Rightarrow> (instant \<times> socket_poll) list \<Rightarrow> (string + unit) option" where
  "wait_ready until [] = None"
| "wait_ready until ((now, p) # polls) =
     (if until < now then Some (Inl timed_out_error)
      else case p of
        SocketReady t \<Rightarrow> Some (if until \<le> t then Inl timed_out_error else Inr ())
      | SocketExpired \<Rightarrow> Some (Inl timed_out_error)
      | SocketSignal \<Rightarrow> wait_ready until polls
      | SocketError e \<Rightarrow> Some (Inl e))"

text \<open>
  A round of a read: the polls before it and what it answers; at most the 8192 bytes of the
  buffer are read. The result of \<open>read_frame_before\<close> comes with all bytes taken from the stream.
\<close>

datatype read_outcome = ReadBytes bytes | ReadRetry | ReadError string

type_synonym read_round = "(instant \<times> socket_poll) list \<times> read_outcome"

abbreviation newline :: "8 word" where
  "newline \<equiv> 10"

fun read_frame_loop :: "nat \<Rightarrow> instant \<Rightarrow> read_round list \<Rightarrow> bytes \<Rightarrow> (string + bytes) option" where
  "read_frame_loop limit until [] frame = None"
| "read_frame_loop limit until ((polls, answer) # rounds) frame =
     (case wait_ready until polls of
        None \<Rightarrow> None
      | Some (Inl e) \<Rightarrow> Some (Inl e)
      | Some (Inr _) \<Rightarrow>
          (case answer of
             ReadError e \<Rightarrow> Some (Inl e)
           | ReadRetry \<Rightarrow> read_frame_loop limit until rounds frame
           | ReadBytes bs \<Rightarrow>
               (let buffer = take 8192 bs;
                    end_at = (case position (\<lambda>b. b = newline) buffer of None \<Rightarrow> length buffer | Some k \<Rightarrow> k)
                in if buffer = [] then Some (if frame = [] then Inl ''empty control frame'' else Inr frame)
                   else if limit - length frame < end_at then Some (Inl ''control frame exceeds byte limit'')
                   else if newline \<in> set buffer then Some (Inr (frame @ take end_at buffer))
                   else read_frame_loop limit until rounds (frame @ take end_at buffer))))"

definition read_frame_before :: "nat \<Rightarrow> instant \<Rightarrow> read_round list \<Rightarrow> (string + bytes) option" where
  "read_frame_before limit until rounds = read_frame_loop limit until rounds []"

text \<open>What the kernel delivers in these rounds; an end of file delivers nothing more.\<close>

fun delivered :: "read_round list \<Rightarrow> bytes" where
  "delivered [] = []"
| "delivered ((_, ReadBytes bs) # rounds) = (if bs = [] then [] else take 8192 bs @ delivered rounds)"
| "delivered (_ # rounds) = delivered rounds"

datatype write_outcome = WroteBytes nat | WriteRetry | WriteError string

type_synonym write_round = "(instant \<times> socket_poll) list \<times> write_outcome"

fun write_frame_loop :: "instant \<Rightarrow> write_round list \<Rightarrow> bytes \<Rightarrow> bytes \<times> (string + unit) option" where
  "write_frame_loop until rounds [] = ([], Some (Inr ()))"
| "write_frame_loop until [] (b # bs) = ([], None)"
| "write_frame_loop until ((polls, answer) # rounds) (b # bs) =
     (case wait_ready until polls of
        None \<Rightarrow> ([], None)
      | Some (Inl e) \<Rightarrow> ([], Some (Inl e))
      | Some (Inr _) \<Rightarrow>
          (case answer of
             WriteError e \<Rightarrow> ([], Some (Inl e))
           | WriteRetry \<Rightarrow> write_frame_loop until rounds (b # bs)
           | WroteBytes k \<Rightarrow>
               (let n = min k (length (b # bs)) in
                if n = 0 then ([], Some (Inl ''closed control socket''))
                else (case write_frame_loop until rounds (drop n (b # bs)) of
                        (written, r) \<Rightarrow> (take n (b # bs) @ written, r)))))"

text \<open>The address of the socket, and the calls that connect to it, in their order.\<close>

definition socket_path_valid :: "nat \<Rightarrow> bytes \<Rightarrow> bool" where
  "socket_path_valid sun_path_len path \<longleftrightarrow> path \<noteq> [] \<and> length path < sun_path_len \<and> 0 \<notin> set path"

datatype connect_answer = Connected | InProgress | ConnectError string

record connect_calls =
  cn_prepare :: "string + unit"
  cn_connect :: connect_answer
  cn_polls :: "(instant \<times> socket_poll) list"
  cn_take_error :: "string + string option"
  cn_now :: instant

definition connect_before :: "nat \<Rightarrow> bytes \<Rightarrow> instant \<Rightarrow> connect_calls \<Rightarrow> (string + unit) option" where
  "connect_before sun_path_len path until k =
     (if \<not> socket_path_valid sun_path_len path then Some (Inl ''invalid Unix socket path'')
      else case cn_prepare k of
        Inl e \<Rightarrow> Some (Inl e)
      | Inr _ \<Rightarrow>
          (let ready = (if until \<le> cn_now k then Inl timed_out_error else Inr ()) in
           case cn_connect k of
             ConnectError e \<Rightarrow> Some (Inl e)
           | Connected \<Rightarrow> Some ready
           | InProgress \<Rightarrow>
               (case wait_ready until (cn_polls k) of
                  None \<Rightarrow> None
                | Some (Inl e) \<Rightarrow> Some (Inl e)
                | Some (Inr _) \<Rightarrow>
                    (case cn_take_error k of
                       Inl e \<Rightarrow> Some (Inl e)
                     | Inr (Some e) \<Rightarrow> Some (Inl e)
                     | Inr None \<Rightarrow> Some ready))))"

subsection \<open>The protocol\<close>

record control_request =
  rq_command :: string
  rq_session :: "string option"
  rq_limit :: nat

record control_response =
  rs_protocol :: nat
  rs_ok :: bool
  rs_command :: string
  rs_data :: json
  rs_error :: "string option"

definition response_success :: "string \<Rightarrow> json \<Rightarrow> control_response" where
  "response_success command data =
     \<lparr>rs_protocol = 1, rs_ok = True, rs_command = command, rs_data = data, rs_error = None\<rparr>"

definition response_failure :: "string \<Rightarrow> string \<Rightarrow> control_response" where
  "response_failure command e =
     \<lparr>rs_protocol = 1, rs_ok = False, rs_command = command, rs_data = JNull, rs_error = Some e\<rparr>"


subsection \<open>Handlers\<close>

definition MAX_ACTIVE_HANDLERS :: nat where
  "MAX_ACTIVE_HANDLERS = 8"

definition READ_TIMEOUT :: duration where
  "READ_TIMEOUT = from_secs 2"

definition TOTAL_TIMEOUT :: duration where
  "TOTAL_TIMEOUT = from_secs 30"

definition QUEUE_TIMEOUT :: duration where
  "QUEUE_TIMEOUT = from_millis 100"

text \<open>The count of handlers; a permit counts one until it is dropped.\<close>

definition permit_acquire :: "nat \<Rightarrow> nat option" where
  "permit_acquire n = (if n < MAX_ACTIVE_HANDLERS then Some (n + 1) else None)"

definition permit_drop :: "nat \<Rightarrow> nat" where
  "permit_drop n = n - 1"

text \<open>
  The thread owns the permit; when it cannot be spawned (\<open>spawned = Inl e\<close>) the permit is dropped.
  The handler gets its deadline.
\<close>

definition spawn_connection :: "instant \<Rightarrow> string + unit \<Rightarrow> nat \<Rightarrow> (string + instant) \<times> nat" where
  "spawn_connection now spawned n =
     (case permit_acquire n of
        None \<Rightarrow> (Inl ''control server is busy'', n)
      | Some m \<Rightarrow>
          (case spawned of
             Inl e \<Rightarrow> (Inl e, permit_drop m)
           | Inr _ \<Rightarrow> (Inr (now + TOTAL_TIMEOUT), m)))"

definition collection_deadline :: "instant \<Rightarrow> instant \<Rightarrow> instant" where
  "collection_deadline until now = until - min WRITE_TIMEOUT ((until - now) div 4)"

subsection \<open>Selecting a session\<close>

definition parse_usize :: "string \<Rightarrow> nat option" where
  "parse_usize s =
     (let digits = (case s of c # rest \<Rightarrow> if c = CHR ''+'' then rest else s | [] \<Rightarrow> []);
          n = foldl (\<lambda>n c. 10 * n + (of_char c - 48)) 0 digits
      in if digits = [] \<or> \<not> list_all is_ascii_digit digits \<or> 2 ^ 64 \<le> n then None else Some n)"

definition enumerate_find :: "('a \<Rightarrow> bool) \<Rightarrow> 'a list \<Rightarrow> (nat \<times> 'a) option" where
  "enumerate_find p xs = map_option (\<lambda>k. (k, xs ! k)) (position p xs)"

definition selected :: "string option \<Rightarrow> string option" where
  "selected selector =
     (case selector of None \<Rightarrow> None | Some s \<Rightarrow> if trim s = [] then None else Some (trim s))"

definition quoted :: "string \<Rightarrow> string" where
  "quoted s = [CHR 0x27] @ s @ [CHR 0x27]"

definition resolve_session_in :: "string option \<Rightarrow> container_session list \<Rightarrow> string + nat \<times> container_session" where
  "resolve_session_in selector sessions =
     (case selected selector of
        None \<Rightarrow> Inl ''a profile ID, session index or exact name is required''
      | Some s \<Rightarrow>
          (case profile_id_from_str s of
             Inr i \<Rightarrow> ok_or (''profile '' @ quoted (profile_id_fmt i) @ '' was not found'') (enumerate_find (\<lambda>x. cs_id x = i) sessions)
           | Inl _ \<Rightarrow>
               if 1 < length (filter (\<lambda>x. eq_ignore_ascii_case (cs_name x) s) sessions)
               then Inl ''session name is ambiguous; use its persistent profile ID''
               else case enumerate_find (\<lambda>x. eq_ignore_ascii_case (cs_name x) s) sessions of
                 Some r \<Rightarrow> Inr r
               | None \<Rightarrow>
                   (case parse_usize s of
                      Some k \<Rightarrow> if k < length sessions then Inr (k, sessions ! k)
                                else Inl (''session '' @ quoted s @ '' was not found'')
                    | None \<Rightarrow> Inl (''session '' @ quoted s @ '' was not found''))))"

text \<open>\<open>config\<close> is what \<open>inspect_sessions\<close> reads.\<close>

definition resolve_session :: "string + container_session list \<Rightarrow> string option \<Rightarrow> string + nat \<times> container_session" where
  "resolve_session config selector =
     (case config of
        Inl e \<Rightarrow> Inl (''Cannot read application configuration: '' @ e)
      | Inr sessions \<Rightarrow>
          and_then (resolve_session_in selector sessions)
            (\<lambda>(k, s). if \<not> is_saved (cs_id s)
               then Inl ''This legacy profile needs a persistent ID. Save it in Cocoa-Way before launching or checking it.''
               else Inr (k, s)))"

definition stop_profile_id :: "string option \<Rightarrow> (string option \<Rightarrow> string + nat \<times> container_session) \<Rightarrow> string + profile_id" where
  "stop_profile_id selector resolve =
     (case Option.bind selector (\<lambda>s. case profile_id_from_str (trim s) of Inr i \<Rightarrow> Some i | Inl _ \<Rightarrow> None) of
        Some i \<Rightarrow> Inr i
      | None \<Rightarrow> map_sum id (\<lambda>(_, s). cs_id s) (resolve selector))"

subsection \<open>Commands for the event loop\<close>

datatype panel_page = Applications | Displays | Diagnostics

datatype control_message =
    StopContainerSession profile_id
  | StartContainerSessionIfCurrent profile_action_target
  | CheckContainerSession profile_id
  | CreateManagedDisplay "string option"
  | CloseManagedDisplay string
  | OpenPanel panel_page

text \<open>
  The sender as one handler sees it: the deadline of its request, the clock when it queues a
  message, and what the passes of the admission find (\<open>Event_Loop\<close>).
\<close>

record queue_view =
  q_budget :: "instant option"
  q_now :: instant
  q_passes :: "(duration \<times> duration \<times> control_message channel) list"

type_synonym queued = "(string + unit) option \<times> control_message channel option"

definition queue_timeout :: "queue_view \<Rightarrow> string + duration" where
  "queue_timeout q =
     (case q_budget q of
        None \<Rightarrow> Inr QUEUE_TIMEOUT
      | Some until \<Rightarrow>
          if until \<le> q_now q then Inl ''control request deadline exceeded''
          else Inr (min (until - q_now q) QUEUE_TIMEOUT))"

fun queue_error :: "control_message send_timeout_error \<Rightarrow> string" where
  "queue_error (Timeout _) = ''event loop queue admission timed out; command was not accepted''"
| "queue_error (Disconnected _) = ''event loop is unavailable; command was not accepted''"

definition queue_message :: "queue_view \<Rightarrow> control_message \<Rightarrow> queued" where
  "queue_message q m =
     (case queue_timeout q of
        Inl e \<Rightarrow> (Some (Inl e), None)
      | Inr timeout \<Rightarrow>
          (case send_timeout m timeout (q_passes q) of
             (r, c) \<Rightarrow> (map_option (map_sum queue_error id) r, c)))"

text \<open>A command fails or answers at once, or queues one message and reports how that went.\<close>

datatype plan =
    Fail string
  | Answer json
  | Queue control_message json

text \<open>
  What the commands read: the configuration, the snapshots of the read-only commands, the log
  lines of a session. \<open>None\<close> below is \<open>unreachable!\<close>.
\<close>

record control_env =
  e_config :: "string + container_session list"
  e_snapshot :: "string \<Rightarrow> control_request \<Rightarrow> json"
  e_logs :: "profile_id \<Rightarrow> nat \<Rightarrow> json"

definition session_command_message :: "string \<Rightarrow> container_session \<Rightarrow> control_message option" where
  "session_command_message command s =
     (if command = ''launch'' \<or> command = ''start'' then Some (StartContainerSessionIfCurrent (capture_target s))
      else if command = ''stop'' then Some (StopContainerSession (cs_id s))
      else if command = ''check'' then Some (CheckContainerSession (cs_id s))
      else None)"

definition accepted :: "(string \<times> json) list \<Rightarrow> json" where
  "accepted xs = JObject ((''accepted'', JBool True) # xs)"

definition queue_session_command :: "control_env \<Rightarrow> string \<Rightarrow> string option \<Rightarrow> plan option" where
  "queue_session_command v command selector =
     (if command = ''stop'' then
        Some (case stop_profile_id selector (resolve_session (e_config v)) of
           Inl e \<Rightarrow> Fail e
         | Inr i \<Rightarrow> Queue (StopContainerSession i)
             (accepted [(''id'', JString (profile_id_fmt i)),
                (''note'', JString ''Stop was queued by persistent ID; configuration is not required to release an owned instance.'')]))
      else case resolve_session (e_config v) selector of
        Inl e \<Rightarrow> Some (Fail e)
      | Inr (k, s) \<Rightarrow>
          map_option (\<lambda>m. Queue m
             (accepted [(''id'', JString (profile_id_fmt (cs_id s))), (''index'', JNumber (decimal k)), (''name'', JString (cs_name s)),
                (''note'', JString ''The command was queued on Cocoa-Way's compositor event loop.'')]))
            (session_command_message command s))"

definition queue_panel_command :: "string option \<Rightarrow> plan" where
  "queue_panel_command selector =
     (let page = (case selector of None \<Rightarrow> ''applications'' | Some p \<Rightarrow> p);
          open_page = (\<lambda>target. Queue (OpenPanel target)
             (accepted [(''page'', JString page), (''note'', JString ''Panel opening was queued; no application or container is started.'')]))
      in if page = ''applications'' then open_page Applications
         else if page = ''displays'' then open_page Displays
         else if page = ''diagnostics'' then open_page Diagnostics
         else Fail ''page must be applications, displays, or diagnostics'')"

definition display_reply :: "string option \<Rightarrow> string \<Rightarrow> json" where
  "display_reply slot remark =
     accepted [(''slot'', case slot of None \<Rightarrow> JNull | Some s \<Rightarrow> JString s), (''automatic'', JBool (slot = None)), (''note'', JString remark)]"

definition queue_display_command :: "string \<Rightarrow> string option \<Rightarrow> plan option" where
  "queue_display_command command selector =
     (case (case selected selector of None \<Rightarrow> Inr None | Some s \<Rightarrow> map_sum id Some (normalize_managed_display_slot s)) of
        Inl e \<Rightarrow> Some (Fail e)
      | Inr requested \<Rightarrow>
          if command = ''display-create'' then
            Some (Queue (CreateManagedDisplay requested)
              (display_reply requested ''Display creation was queued on Cocoa-Way's compositor event loop.''))
          else if command = ''display-close'' then
            Some (case requested of
               None \<Rightarrow> Fail ''a managed display name is required''
             | Some slot \<Rightarrow> Queue (CloseManagedDisplay slot)
                 (display_reply requested ''Display closure was queued on Cocoa-Way's compositor event loop.''))
          else None)"

definition clamp_limit :: "nat \<Rightarrow> nat" where
  "clamp_limit n = max 1 (min n 1000)"

definition snapshot_commands :: "string list" where
  "snapshot_commands =
     [''status'', ''applications'', ''sessions'', ''running'', ''displays'', ''debug-snapshot'', ''performance'', ''clipboard'',
      ''images'', ''volumes'', ''runtimes'', ''tasks'', ''environment'', ''features'', ''diagnostics'']"

definition unsupported :: string where
  "unsupported = ''unsupported command; use status, applications, running, displays, debug-snapshot, performance, clipboard, images, volumes, runtimes, tasks, environment, features, diagnostics, logs, check, launch, stop, display-create, display-close, or open-panel''"

definition command_plan :: "control_env \<Rightarrow> string \<Rightarrow> control_request \<Rightarrow> plan option" where
  "command_plan v command rq =
     (if command \<in> set snapshot_commands then Some (Answer (e_snapshot v command rq))
      else if command = ''logs'' then
        Some (case resolve_session (e_config v) (rq_session rq) of
           Inl e \<Rightarrow> Fail e
         | Inr (k, s) \<Rightarrow> Answer (JObject [(''id'', JString (profile_id_fmt (cs_id s))), (''index'', JNumber (decimal k)),
             (''name'', JString (cs_name s)), (''lines'', e_logs v (cs_id s) (clamp_limit (rq_limit rq)))]))
      else if command \<in> {''launch'', ''start'', ''stop'', ''check''} then queue_session_command v command (rq_session rq)
      else if command \<in> {''display-create'', ''display-close''} then queue_display_command command (rq_session rq)
      else if command = ''open-panel'' then Some (queue_panel_command (rq_session rq))
      else Some (Fail unsupported))"

text \<open>The reply (none yet: the sender still waits for admission), and the channel after it.\<close>

definition run_plan :: "queue_view \<Rightarrow> string \<Rightarrow> plan \<Rightarrow> control_response option \<times> control_message channel option" where
  "run_plan q command p =
     (case p of
        Fail e \<Rightarrow> (Some (response_failure command e), None)
      | Answer d \<Rightarrow> (Some (response_success command d), None)
      | Queue m d \<Rightarrow>
          (case queue_message q m of
             (r, c) \<Rightarrow> (map_option (\<lambda>r. case r of Inl e \<Rightarrow> response_failure command e | Inr _ \<Rightarrow> response_success command d) r, c)))"

definition dispatch ::
  "control_env \<Rightarrow> queue_view \<Rightarrow> control_request \<Rightarrow> (control_response option \<times> control_message channel option) option" where
  "dispatch v q rq =
     (let command = to_ascii_lowercase (trim (rq_command rq))
      in map_option (run_plan q command) (command_plan v command rq))"

subsection \<open>A connection\<close>

text \<open>
  What a handler observes: the clock at its five readings, and the rounds of its reads and writes.
  \<open>decode\<close> and \<open>encode\<close> are serde_json.
\<close>

record connection =
  h_started :: instant
  h_reading :: instant
  h_rounds :: "read_round list"
  h_checked :: instant
  h_writing :: instant
  h_writes :: "write_round list"

definition response_frame :: "(control_response \<Rightarrow> bytes option) \<Rightarrow> control_response \<Rightarrow> bytes option" where
  "response_frame encode response =
     map_option (\<lambda>e. (if MAX_RESPONSE_BYTES < length e
          then (case encode (response_failure (rs_command response) ''control response exceeds the 4 MiB frame limit'') of
                  None \<Rightarrow> [] | Some e' \<Rightarrow> e')
          else e) @ [newline])
       (encode response)"

text \<open>\<open>None\<close>: the request is still being read.\<close>

definition read_request ::
  "(bytes \<Rightarrow> string + control_request) \<Rightarrow> instant \<Rightarrow> connection \<Rightarrow> (string + control_request) option" where
  "read_request decode collection k =
     map_option (\<lambda>r. and_then (map_sum (\<lambda>e. ''failed to read control request: '' @ e) id r)
         (\<lambda>line. map_sum (\<lambda>e. ''invalid control request: '' @ e) id (decode line)))
       (read_frame_before MAX_REQUEST_BYTES (min collection (h_reading k + READ_TIMEOUT)) (h_rounds k))"

definition request_response ::
  "(control_request \<Rightarrow> (control_response option \<times> 'c option) option) \<Rightarrow> instant \<Rightarrow> connection \<Rightarrow> string + control_request
    \<Rightarrow> (control_response option \<times> 'c option) option" where
  "request_response respond collection k rq =
     (case rq of
        Inl e \<Rightarrow> Some (Some (response_failure ''invalid'' e), None)
      | Inr r \<Rightarrow>
          if h_checked k < collection then respond r
          else Some (Some (response_failure ''invalid'' ''control request deadline exceeded''), None))"

text \<open>The bytes written, whether all were, and the channel; the inner \<open>None\<close>: no reply is written yet.\<close>

definition handle_connection ::
  "(bytes \<Rightarrow> string + control_request) \<Rightarrow> (control_response \<Rightarrow> bytes option) \<Rightarrow> control_env \<Rightarrow> queue_view \<Rightarrow> instant \<Rightarrow> connection
    \<Rightarrow> ((bytes \<times> (string + unit) option) option \<times> control_message channel option) option" where
  "handle_connection decode encode v q until k =
     (let collection = collection_deadline until (h_started k) in
      case read_request decode collection k of
        None \<Rightarrow> Some (None, None)
      | Some rq \<Rightarrow>
          map_option (\<lambda>(response, c).
              (Option.bind response (\<lambda>response. map_option (write_frame_loop (min until (h_writing k + WRITE_TIMEOUT)) (h_writes k))
                 (response_frame encode response)), c))
            (request_response (dispatch v (q\<lparr>q_budget := Some collection\<rparr>)) collection k rq))"

subsection \<open>Starting the server, and the client\<close>

datatype connect_kind = Accepted | Refused_or_missing | Other_error string

text \<open>The answers of the file system and the kernel, and the changes that were made.\<close>

record server_start =
  st_parent :: bool
  st_create :: "string + unit"
  st_metadata :: "string + nat"
  st_euid :: nat
  st_secure_dir :: "string + unit"
  st_exists :: bool
  st_connect :: connect_kind
  st_remove :: "string + unit"
  st_bind :: "string + unit"
  st_secure :: "string + unit"
  st_spawn :: "string + unit"

datatype start_effect = DirSecured | SocketRemoved | SocketBound | SocketSecured | ServerSpawned

definition fallible :: "string \<Rightarrow> start_effect \<Rightarrow> string + unit \<Rightarrow> start_effect list \<times> (string + unit)" where
  "fallible what eff r = (case r of Inl e \<Rightarrow> ([], Inl (what @ e)) | Inr _ \<Rightarrow> ([eff], Inr ()))"

definition after :: "start_effect list \<times> (string + unit) \<Rightarrow> start_effect list \<times> (string + unit) \<Rightarrow> start_effect list \<times> (string + unit)" where
  "after a b = (case a of (xs, Inl e) \<Rightarrow> (xs, Inl e) | (xs, Inr _) \<Rightarrow> (case b of (ys, r) \<Rightarrow> (xs @ ys, r)))"

definition replace_stale :: "string \<Rightarrow> server_start \<Rightarrow> start_effect list \<times> (string + unit)" where
  "replace_stale path k =
     (if \<not> st_exists k then ([], Inr ())
      else case st_connect k of
        Accepted \<Rightarrow> ([], Inl (''another Cocoa-Way control server is active at '' @ path))
      | Other_error e \<Rightarrow> ([], Inl (''cannot safely replace control socket '' @ path @ '': '' @ e))
      | Refused_or_missing \<Rightarrow> fallible ''failed to replace stale control socket: '' SocketRemoved (st_remove k))"

definition start_at :: "string \<Rightarrow> server_start \<Rightarrow> start_effect list \<times> (string + unit)" where
  "start_at path k =
     (if \<not> st_parent k then ([], Inl ''control socket path has no parent directory'')
      else case st_create k of
        Inl e \<Rightarrow> ([], Inl (''failed to create control socket directory: '' @ e))
      | Inr _ \<Rightarrow>
          (case st_metadata k of
             Inl e \<Rightarrow> ([], Inl (''failed to inspect control socket directory: '' @ e))
           | Inr uid \<Rightarrow>
               after (if uid = st_euid k then fallible ''failed to secure control socket directory: '' DirSecured (st_secure_dir k) else ([], Inr ()))
                 (after (replace_stale path k)
                   (after (fallible ''failed to bind control socket: '' SocketBound (st_bind k))
                     (after (fallible ''failed to secure control socket: '' SocketSecured (st_secure k))
                        (fallible ''failed to start control socket thread: '' ServerSpawned (st_spawn k)))))))"

text \<open>The client: the clock at its three readings and its calls; \<open>None\<close>: it is still waiting.\<close>

record client_calls =
  k_started :: instant
  k_connecting :: instant
  k_connect :: connect_calls
  k_writing :: instant
  k_writes :: "write_round list"
  k_rounds :: "read_round list"

definition send_request_with_timeout ::
  "(control_request \<Rightarrow> string + bytes) \<Rightarrow> (bytes \<Rightarrow> string + control_response) \<Rightarrow> nat \<Rightarrow> bytes \<Rightarrow> string \<Rightarrow> control_request \<Rightarrow> duration \<Rightarrow> client_calls
    \<Rightarrow> bytes \<times> (string + control_response) option" where
  "send_request_with_timeout encode decode sun_path_len socket shown rq timeout k =
     (let until = k_started k + timeout in
      case encode rq of
        Inl e \<Rightarrow> ([], Some (Inl (''failed to encode request: '' @ e)))
      | Inr encoded \<Rightarrow>
          if MAX_REQUEST_BYTES < length encoded then ([], Some (Inl ''control request exceeds the 64 KiB frame limit''))
          else case connect_before sun_path_len socket (min until (k_connecting k + WRITE_TIMEOUT)) (k_connect k) of
            None \<Rightarrow> ([], None)
          | Some (Inl e) \<Rightarrow> ([], Some (Inl (''cannot connect to Cocoa-Way at '' @ shown @ '': '' @ e @ ''. Start Cocoa-Way first.'')))
          | Some (Inr _) \<Rightarrow>
              (case write_frame_loop (min until (k_writing k + WRITE_TIMEOUT)) (k_writes k) (encoded @ [newline]) of
                 (sent, None) \<Rightarrow> (sent, None)
               | (sent, Some (Inl e)) \<Rightarrow> (sent, Some (Inl (''failed to send request: '' @ e)))
               | (sent, Some (Inr _)) \<Rightarrow>
                   (sent, map_option (\<lambda>r. and_then (map_sum (\<lambda>e. ''failed to read response: '' @ e) id r)
                        (\<lambda>bs. map_sum (\<lambda>e. ''invalid server response: '' @ e) id (decode bs)))
                      (read_frame_before MAX_RESPONSE_BYTES until (k_rounds k)))))"

subsection \<open>Inventories of the runtimes\<close>

text \<open>Indexing a JSON value: a missing key, or a value that is no object, gives null.\<close>

fun json_field :: "string \<Rightarrow> json \<Rightarrow> json" where
  "json_field key (JObject xs) = (case map_of xs key of None \<Rightarrow> JNull | Some v \<Rightarrow> v)"
| "json_field key _ = JNull"

fun json_strings :: "json list \<Rightarrow> string list" where
  "json_strings [] = []"
| "json_strings (JString s # xs) = s # json_strings xs"
| "json_strings (_ # xs) = json_strings xs"

definition orbstack_running :: "json \<Rightarrow> bool" where
  "orbstack_running probe =
     (json_field ''success'' (json_field ''result'' probe) = JBool True
      \<and> (case json_field ''stdout'' (json_field ''result'' probe) of
            JArray xs \<Rightarrow> eq_ignore_ascii_case (trim (join [CHR 0x0A] (json_strings xs))) ''running''
          | _ \<Rightarrow> False))"

text \<open>The listing is run only when the first component says so.\<close>

definition orbstack_machines_snapshot :: "json \<Rightarrow> json \<Rightarrow> bool \<times> json" where
  "orbstack_machines_snapshot probe machines =
     (if orbstack_running probe then (True, machines)
      else (False, JObject [(''available'', json_field ''available'' probe), (''success'', JBool False), (''skipped'', JBool True),
        (''reason'', JString ''OrbStack is stopped or its running state is unconfirmed; machine listing was skipped to avoid starting it.'')]))"

fun redact_value_in_place :: "string option \<Rightarrow> string option \<Rightarrow> json \<Rightarrow> json" where
  "redact_value_in_place home user (JString s) =
     (let s = (case home of None \<Rightarrow> s | Some h \<Rightarrow> replace_all h ''~'' s)
      in JString (case user of None \<Rightarrow> s | Some u \<Rightarrow> replace_all u ''<user>'' s))"
| "redact_value_in_place home user (JArray xs) = JArray (map (redact_value_in_place home user) xs)"
| "redact_value_in_place home user (JObject xs) = JObject (map (\<lambda>(k, v). (k, redact_value_in_place home user v)) xs)"
| "redact_value_in_place home user v = v"

definition probe_timeout :: "instant option \<Rightarrow> instant \<Rightarrow> duration \<Rightarrow> string + duration" where
  "probe_timeout budget now timeout =
     (case budget of
        None \<Rightarrow> Inr timeout
      | Some until \<Rightarrow> if until \<le> now then Inl ''control request deadline exceeded'' else Inr (min (until - now) timeout))"

subsection \<open>Frames\<close>

lemma wait_ready_ends: "(now, p) \<in> set polls \<Longrightarrow> until < now \<Longrightarrow> wait_ready until polls \<noteq> None"
  by (induction until polls rule: wait_ready.induct) (auto split: socket_poll.split)

lemma wait_ready_in_time: "wait_ready until polls = Some (Inr ()) \<Longrightarrow> \<exists>now t. (now, SocketReady t) \<in> set polls \<and> t < until"
  by (induction until polls rule: wait_ready.induct) (auto simp: not_le split: socket_poll.splits if_splits)

lemma poll_sleeps_long_enough: "remaining div 1000000 < 2 ^ 31 - 1 \<Longrightarrow> remaining < from_millis (poll_millis remaining)"
  unfolding poll_millis_def by (simp add: min_def)

lemma position_length:
  "(case position (\<lambda>b. b = x) xs of None \<Rightarrow> length xs | Some k \<Rightarrow> k) = length (takeWhile (\<lambda>b. b \<noteq> x) xs)"
  by (induction xs) (auto split: option.splits)

lemma takeWhile_absent: "x \<in> set xs \<Longrightarrow> takeWhile (\<lambda>b. b \<noteq> x) (xs @ ys) = takeWhile (\<lambda>b. b \<noteq> x) xs"
  by (induction xs) auto

lemma takeWhile_through: "x \<notin> set xs \<Longrightarrow> takeWhile (\<lambda>b. b \<noteq> x) xs = xs \<and> takeWhile (\<lambda>b. b \<noteq> x) (xs @ ys) = xs @ takeWhile (\<lambda>b. b \<noteq> x) ys"
  by (induction xs) auto

abbreviation line :: "bytes \<Rightarrow> bytes" where
  "line bs \<equiv> takeWhile (\<lambda>b. b \<noteq> newline) bs"

lemma read_frame_loop_exact:
  assumes "read_frame_loop limit until rounds frame = Some (Inr f)" "length frame \<le> limit"
  shows "f = frame @ line (delivered rounds) \<and> length f \<le> limit"
  using assms
proof (induction rounds arbitrary: frame)
  case (Cons round rounds)
  obtain polls answer where round: "round = (polls, answer)" by (cases round)
  note prems = Cons.prems [unfolded round]
  from prems(1) have w: "wait_ready until polls = Some (Inr ())" by (auto split: option.splits sum.splits)
  show ?case
  proof (cases answer)
    case (ReadBytes bs)
    define b where "b = take 8192 bs"
    let ?n = "case position (\<lambda>b. b = newline) b of None \<Rightarrow> length b | Some k \<Rightarrow> k"
    have n: "take (length (line b)) b = line b" "?n = length (line b)"
      by (rule takeWhile_eq_take [symmetric], rule position_length)
    show ?thesis
    proof (cases "bs = []")
      case True
      with prems w ReadBytes round show ?thesis by (auto simp: b_def split: if_splits)
    next
      case False
      then have b: "b \<noteq> []" by (simp add: b_def)
      note step = prems(1) [simplified w ReadBytes read_frame_loop.simps option.case sum.case read_outcome.case Let_def, folded b_def]
      with b have fits: "length (line b) \<le> limit - length frame"
        by (auto simp: n(2) split: if_splits)
      show ?thesis
      proof (cases "newline \<in> set b")
        case True
        with step b fits have "f = frame @ line b" by (simp add: n not_less)
        then show ?thesis using True False fits prems(2) ReadBytes round by (simp add: takeWhile_absent b_def [symmetric])
      next
        case nl: False
        have l: "line b = b" using takeWhile_through [OF nl] by blast
        have "read_frame_loop limit until rounds (frame @ line b) = Some (Inr f)"
          using step b fits nl by (simp add: n not_less)
        then have rec: "read_frame_loop limit until rounds (frame @ b) = Some (Inr f)" unfolding l .
        have len: "length (frame @ b) \<le> limit" using fits l prems(2) by simp
        have "f = (frame @ b) @ line (delivered rounds) \<and> length f \<le> limit"
          by (rule Cons.IH [OF rec len])
        then show ?thesis using ReadBytes round False takeWhile_through [OF nl] by (auto simp: b_def [symmetric])
      qed
    qed
  qed (use prems Cons.IH w round in auto)
qed simp

lemma write_frame_exact:
  "write_frame_loop until rounds bs = (written, r) \<Longrightarrow> prefix written bs \<and> (r = Some (Inr ()) \<longleftrightarrow> written = bs)"
proof (induction rounds arbitrary: bs written r)
  case Nil
  then show ?case by (cases bs) auto
next
  case (Cons round rounds)
  obtain polls answer where round: "round = (polls, answer)" by (cases round)
  show ?case
  proof (cases "\<exists>k. bs \<noteq> [] \<and> wait_ready until polls = Some (Inr ()) \<and> answer = WroteBytes k \<and> k \<noteq> 0")
    case True
    then obtain k where k: "wait_ready until polls = Some (Inr ())" "answer = WroteBytes k" "k \<noteq> 0" and "bs \<noteq> []" by blast
    then obtain b cs where bs: "bs = b # cs" by (cases bs) auto
    define n where "n = min k (Suc (length cs))"
    have n: "n \<noteq> 0" using k(3) by (simp add: n_def)
    obtain w r' where w: "write_frame_loop until rounds (drop n bs) = (w, r')" by fastforce
    have eq: "written = take n bs @ w" "r = r'"
      using Cons.prems k n w by (auto simp: round bs Let_def n_def [symmetric] split: if_splits)
    from Cons.IH [OF w] show ?thesis unfolding eq by (metis append_take_drop_id same_append_eq same_prefix_prefix)
  next
    case False
    with Cons round show ?thesis
      by (cases bs) (auto simp: Let_def split: option.splits sum.splits write_outcome.splits if_splits)
  qed
qed

text \<open>
  A frame is exactly the line the peer sent, up to its limit, however the kernel splits the bytes
  and however often it interrupts the calls.
\<close>

lemma read_frame_exact:
  "read_frame_before limit until rounds = Some (Inr f) \<Longrightarrow> f = line (delivered rounds) \<and> length f \<le> limit"
  unfolding read_frame_before_def by (drule read_frame_loop_exact) auto

text \<open>Reading ends once a wait fails, and a wait fails once the clock has passed the deadline.\<close>

lemma read_frame_ends:
  assumes "\<And>polls answer. (polls, answer) \<in> set rounds \<Longrightarrow> wait_ready until polls \<noteq> None"
    and "(polls, answer) \<in> set rounds" "wait_ready until polls = Some (Inl e)"
  shows "read_frame_loop limit until rounds frame \<noteq> None"
  using assms
proof (induction rounds arbitrary: frame)
  case (Cons round rounds)
  obtain ps a where r: "round = (ps, a)" by (cases round)
  show ?case
  proof (cases "wait_ready until ps = Some (Inr ())")
    case True
    then have "(polls, answer) \<in> set rounds" using Cons.prems r by auto
    from Cons.IH [OF _ this Cons.prems(3)] Cons.prems(1)
    have "read_frame_loop limit until rounds frame \<noteq> None" for frame by (metis list.set_intros(2))
    with r True show ?thesis by (simp add: Let_def split: read_outcome.split)
  next
    case False
    then show ?thesis using Cons.prems(1) [of ps a] r by (auto split: option.split sum.split)
  qed
qed simp

subsection \<open>Selecting a session\<close>

lemma enumerate_find_Some:
  "enumerate_find p xs = Some (k, x) \<Longrightarrow> k < length xs \<and> xs ! k = x \<and> p x \<and> (\<forall>j < k. \<not> p (xs ! j))"
  by (auto simp: enumerate_find_def dest: position_Some)

lemma resolve_saved: "resolve_session config selector = Inr (k, s) \<Longrightarrow> is_saved (cs_id s)"
  by (auto simp: resolve_session_def and_then_Inr split: sum.splits if_splits)

lemma parsed_saved: "profile_id_from_str s = Inr i \<Longrightarrow> is_saved i"
  by (auto simp: profile_id_from_str_def Let_def split: if_splits option.splits)

lemma stop_id_saved: "stop_profile_id selector (resolve_session config) = Inr i \<Longrightarrow> is_saved i"
  by (auto simp: stop_profile_id_def map_sum_Inr dest: parsed_saved resolve_saved split: option.splits sum.splits bind_splits)

text \<open>
  a selector names a profile in exactly one way: by its identity, or else by a name that no
  other profile has, whatever the case of its letters, or else, when no profile has that name, by
  its index; the profile answered is the one at the index answered.
\<close>

theorem selector_unambiguous:
  assumes "resolve_session_in selector sessions = Inr (k, s)"
  shows "k < length sessions \<and> sessions ! k = s \<and>
    (\<exists>name. selected selector = Some name \<and>
       (profile_id_from_str name = Inr (cs_id s)
        \<or> (\<not> is_ok (profile_id_from_str name) \<and> filter (\<lambda>x. eq_ignore_ascii_case (cs_name x) name) sessions = [s])
        \<or> (\<not> is_ok (profile_id_from_str name) \<and> filter (\<lambda>x. eq_ignore_ascii_case (cs_name x) name) sessions = []
           \<and> parse_usize name = Some k)))"
proof -
  obtain name where name: "selected selector = Some name"
    using assms by (auto simp: resolve_session_in_def split: option.splits)
  let ?p = "\<lambda>x. eq_ignore_ascii_case (cs_name x) name"
  show ?thesis
  proof (cases "profile_id_from_str name")
    case (Inr i)
    then show ?thesis using assms name by (auto simp: resolve_session_in_def dest!: enumerate_find_Some)
  next
    case (Inl e)
    show ?thesis
    proof (cases "enumerate_find ?p sessions")
      case (Some ks)
      then have r: "ks = (k, s)" "length (filter ?p sessions) \<le> 1"
        using assms name Inl by (auto simp: resolve_session_in_def split: if_splits)
      with Some have s: "k < length sessions" "sessions ! k = s" "?p s" by (auto dest!: enumerate_find_Some)
      then have "s \<in> set (filter ?p sessions)" by auto
      with r(2) have "filter ?p sessions = [s]" by (cases "filter ?p sessions") (auto simp: le_Suc_eq)
      with s name Inl show ?thesis by auto
    next
      case None
      then have "filter ?p sessions = []"
        by (auto simp: enumerate_find_def position_None_iff filter_empty_conv)
      with None show ?thesis using assms name Inl by (auto simp: resolve_session_in_def split: if_splits option.splits)
    qed
  qed
qed

theorem selector_unambiguous_witness:
  "resolve_session_in (Some '' Demo '') [run_profile] = Inr (0, run_profile) \<and> (\<exists>name. selected (Some '' Demo '') = Some name)"
proof -
  have r: "resolve_session_in (Some '' Demo '') [run_profile] = Inr (0, run_profile)" by code_simp
  from selector_unambiguous [OF r] r show ?thesis by blast
qed

subsection \<open>What is accepted is queued\<close>

definition queued_once :: "control_message \<Rightarrow> queue_view \<Rightarrow> control_message channel option \<Rightarrow> bool" where
  "queued_once m q c \<longleftrightarrow>
     (\<exists>e e' c0 c'. (e, e', c0) \<in> set (q_passes q) \<and> c = Some c' \<and> queue c' = queue c0 @ [m] \<and> messages c' = messages c0 + 1)"

definition not_queued :: "queue_view \<Rightarrow> control_message channel option \<Rightarrow> bool" where
  "not_queued q c \<longleftrightarrow>
     c = None \<or> (\<exists>e e' c0 c'. (e, e', c0) \<in> set (q_passes q) \<and> c = Some c' \<and> queue c' = queue c0 \<and> messages c' = messages c0)"

lemma queued_onceI:
  "(e, e', c0) \<in> set (q_passes q) \<Longrightarrow> queue d = queue c0 @ [m] \<Longrightarrow> messages d = messages c0 + 1 \<Longrightarrow> queued_once m q (Some d)"
  unfolding queued_once_def by blast

lemma not_queuedI:
  "(e, e', c0) \<in> set (q_passes q) \<Longrightarrow> queue d = queue c0 \<Longrightarrow> messages d = messages c0 \<Longrightarrow> not_queued q (Some d)"
  unfolding not_queued_def by blast

lemma send_reserved_counted:
  "send_reserved m (count_message c) = (r, c') \<Longrightarrow>
     (r = Inr () \<and> (\<exists>d. c' = Some d \<and> queue d = queue c @ [m] \<and> messages d = messages c + 1))
   \<or> (r = Inl m \<and> (\<exists>d. c' = Some d \<and> queue d = queue c \<and> messages d = messages c))"
  by (auto simp: send_reserved_def push_message_def notify_once_def message_received_def count_message_def split: if_splits)

lemma queue_message_exact:
  assumes "queue_message q m = (Some r, c)"
  shows "if is_ok r then queued_once m q c \<and> (case q_budget q of None \<Rightarrow> True | Some until \<Rightarrow> q_now q < until)
         else not_queued q c"
proof (cases "queue_timeout q")
  case (Inl e)
  with assms show ?thesis by (auto simp: queue_message_def not_queued_def)
next
  case (Inr t)
  have in_time: "case q_budget q of None \<Rightarrow> True | Some until \<Rightarrow> q_now q < until"
    using Inr by (auto simp: queue_timeout_def split: option.splits if_splits)
  obtain a c0 where a: "send_admitted m (Some t) (q_passes q) = (a, c0)" by fastforce
  from send_admitted_lossless [OF a] consider (waiting) "a = Waiting" "c0 = None"
    | (admitted) e e' d where "(e, e', d) \<in> set (q_passes q)" "a = admission.Admitted" "c0 = Some (count_message d)"
    | (refused) e e' d err where "(e, e', d) \<in> set (q_passes q)" "a = admission.Refused err" "c0 = Some d"
    by blast
  then show ?thesis
  proof cases
    case waiting
    with assms Inr a show ?thesis by (simp add: queue_message_def send_timeout_def finish_admitted_def)
  next
    case admitted
    obtain s c1 where s: "send_reserved m (count_message d) = (s, c1)" by fastforce
    from send_reserved_counted [OF s] assms Inr a admitted s in_time show ?thesis
      by (auto simp: queue_message_def send_timeout_def finish_admitted_def intro!: queued_onceI [OF admitted(1)] not_queuedI [OF admitted(1)])
  next
    case refused
    with assms Inr a show ?thesis
      by (auto simp: queue_message_def send_timeout_def finish_admitted_def intro!: not_queuedI [OF refused(1)])
  qed
qed


subsection \<open>Commands in the event loop\<close>

definition handle_control_message :: "control_message \<Rightarrow> container_session list \<Rightarrow> control \<Rightarrow> control option" where
  "handle_control_message m sessions c =
     (case m of
        StopContainerSession i \<Rightarrow> Some (stop_session_message i c)
      | StartContainerSessionIfCurrent t \<Rightarrow> start_if_current sessions t c
      | CheckContainerSession i \<Rightarrow> check_session_message sessions i c
      | CreateManagedDisplay slot \<Rightarrow> Some (create_managed_display slot c)
      | CloseManagedDisplay slot \<Rightarrow> Some (close_managed_display slot c)
      | OpenPanel _ \<Rightarrow> Some c)"

fun names_saved :: "control_message \<Rightarrow> bool" where
  "names_saved (StartContainerSessionIfCurrent t) = is_saved (pt_id t)"
| "names_saved (CheckContainerSession i) = is_saved i"
| "names_saved (StopContainerSession i) = is_saved i"
| "names_saved _ = True"

lemma session_commands_saved: "queue_session_command v command selector = Some (Queue m d) \<Longrightarrow> names_saved m"
  by (auto simp: queue_session_command_def session_command_message_def capture_target_def dest!: resolve_saved stop_id_saved
      split: if_splits sum.splits)

lemma display_commands_saved: "queue_display_command command selector = Some (Queue m d) \<Longrightarrow> names_saved m"
  by (auto simp: queue_display_command_def split: if_splits sum.splits option.splits)

lemma panel_commands_saved: "queue_panel_command selector = Queue m d \<Longrightarrow> names_saved m"
  by (auto simp: queue_panel_command_def Let_def split: if_splits)

lemma planned_messages_saved:
  assumes "command_plan v command rq = Some (Queue m d)"
  shows "names_saved m"
proof -
  from assms consider "queue_session_command v command (rq_session rq) = Some (Queue m d)"
    | "queue_display_command command (rq_session rq) = Some (Queue m d)" | "queue_panel_command (rq_session rq) = Queue m d"
    unfolding command_plan_def by (simp split: if_split_asm sum.splits prod.splits)
  then show ?thesis by cases (fact session_commands_saved display_commands_saved panel_commands_saved)+
qed

text \<open>
  C15: whatever a client of the socket sends, in whatever state the event loop is and whatever the
  configuration says by then, the message it queued is handled without a panic and every invariant
  of sessions, displays, reservations and processes is kept.
\<close>

theorem control_commands_safe:
  assumes "reachable (Some c)"
    and "command_plan v (to_ascii_lowercase (trim (rq_command rq))) rq = Some (Queue m d)"
  shows "\<exists>c'. handle_control_message m sessions c = Some c' \<and> reachable (Some c') \<and> loop_ok c'"
proof -
  have "reachable (handle_control_message m sessions c)"
    using assms(1) planned_messages_saved [OF assms(2)]
    by (cases m) (auto simp: handle_control_message_def intro: reachable.step control_step.intros)
  with reachable_loop_ok [OF this] show ?thesis by auto
qed

theorem control_commands_safe_witness:
  "\<exists>c'. handle_control_message (CheckContainerSession (cs_id run_profile)) [] run_active = Some c' \<and> loop_ok c'"
proof -
  let ?v = "\<lparr>e_config = Inr [run_profile], e_snapshot = (\<lambda>_ _. JNull), e_logs = (\<lambda>_ _. JNull)\<rparr>"
  let ?rq = "\<lparr>rq_command = ''CHECK'', rq_session = Some ''demo'', rq_limit = 100\<rparr>"
  have "(case command_plan ?v (to_ascii_lowercase (trim (rq_command ?rq))) ?rq of
      Some (Queue m d) \<Rightarrow> m = CheckContainerSession (cs_id run_profile) | _ \<Rightarrow> False)"
    by code_simp
  then obtain d where "command_plan ?v (to_ascii_lowercase (trim (rq_command ?rq))) ?rq
      = Some (Queue (CheckContainerSession (cs_id run_profile)) d)" by (auto split: option.splits plan.splits)
  from control_commands_safe [OF run_reachable(2) this] show ?thesis by blast
qed

subsection \<open>Handlers and deadlines\<close>

definition permit_reserve :: "unit \<Rightarrow> nat \<Rightarrow> unit option \<times> nat" where
  "permit_reserve _ n = (case permit_acquire n of None \<Rightarrow> (None, n) | Some m \<Rightarrow> (Some (), m))"

definition permits_accounted :: "nat \<Rightarrow> unit list \<Rightarrow> bool" where
  "permits_accounted n ps \<longleftrightarrow> n = length ps \<and> n \<le> MAX_ACTIVE_HANDLERS"

interpretation permit_ledger: admission_ledger permit_reserve "\<lambda>_. permit_drop" permits_accounted
  by unfold_locales
    (auto simp: permit_reserve_def permits_accounted_def permit_acquire_def permit_drop_def length_remove1
      split: option.splits if_splits)

text \<open>
  Whatever connections come and whichever handlers end, fail to start or hang, the count of
  handlers is the number of permits held, and at most eight requests are handled at once.
\<close>

lemma handlers_bounded:
  "case ledger_run permit_reserve (\<lambda>_. permit_drop) ops (0, []) of (n, ps) \<Rightarrow> n = length ps \<and> n \<le> 8"
  using permit_ledger.run_accounted [of "(0, [])" ops]
  by (simp add: permits_accounted_def MAX_ACTIVE_HANDLERS_def split_beta)

lemma spawn_failure_releases:
  "fst (spawn_connection now spawned n) = Inl e \<Longrightarrow> snd (spawn_connection now spawned n) = n"
  by (auto simp: spawn_connection_def permit_acquire_def permit_drop_def split: option.splits sum.splits if_splits)

text \<open>The time left for a reply: two seconds, or a quarter of what remains.\<close>

lemma collection_leaves_time:
  assumes "now \<le> until"
  shows "now \<le> collection_deadline until now" "collection_deadline until now + min WRITE_TIMEOUT ((until - now) div 4) = until"
  using assms by (auto simp: collection_deadline_def min_def)

subsection \<open>Requests arrive as they were sent\<close>

lemma line_of_prefix: "prefix xs (enc @ [newline]) \<Longrightarrow> newline \<notin> set enc \<Longrightarrow> newline \<in> set xs \<Longrightarrow> xs = enc @ [newline]"
  by (auto simp: prefix_append prefix_Cons dest: set_mono_prefix)

lemma sent_prefix:
  assumes "send_request_with_timeout encode decode len socket shown rq timeout k = (sent, r)" "encode rq = Inr enc"
  shows "prefix sent (enc @ [newline])"
  using assms
  by (auto simp: send_request_with_timeout_def Let_def simp del: prefix_snoc
      split: if_splits option.splits sum.splits prod.splits dest!: write_frame_exact)


definition demo_request :: control_request where
  "demo_request = \<lparr>rq_command = ''status'', rq_session = None, rq_limit = 100\<rparr>"


subsection \<open>A running server is never replaced\<close>

lemma after_member: "eff \<in> set (fst (after a b)) \<Longrightarrow> eff \<in> set (fst a) \<or> eff \<in> set (fst b)"
  by (cases a; cases b) (auto simp: after_def split: sum.splits)

lemma fallible_member: "eff \<in> set (fst (fallible what e r)) \<Longrightarrow> eff = e"
  by (auto simp: fallible_def split: sum.splits)

lemma after_ok: "snd (after a b) = Inr () \<longleftrightarrow> snd a = Inr () \<and> snd b = Inr ()"
  by (cases a; cases b) (auto simp: after_def split: sum.splits)

text \<open>A socket is removed only when nobody listens on it, and a server that started secured its own.\<close>

lemma live_server_kept:
  "SocketRemoved \<in> set (fst (start_at path k)) \<Longrightarrow> st_exists k \<and> st_connect k = Refused_or_missing"
  by (auto simp: start_at_def replace_stale_def split: if_splits sum.splits connect_kind.splits dest!: after_member fallible_member)

lemma started_secured: "snd (start_at path k) = Inr () \<Longrightarrow> st_secure k = Inr () \<and> (st_exists k \<longrightarrow> st_connect k = Refused_or_missing)"
  by (auto simp: start_at_def replace_stale_def fallible_def after_ok split: if_splits sum.splits connect_kind.splits)

end
