(* ===== verification/Mcp_Server.thy ===== *)
theory Mcp_Server
  imports Control_Socket Clipboard_Pipes Runtime_Paths
begin

text \<open>
  The MCP server (\<open>bin/cocoa-way-mcp.rs\<close>): a client of the control socket that offers its queries,
  and with \<open>--allow-control\<close> some of its commands, to a program that speaks JSON-RPC on standard
  input and output. serde_json and the answers of the socket are arguments; the texts that only
  describe a tool are left out.
\<close>

subsection \<open>Arguments and frames\<close>

record mcp_options =
  mo_socket :: string
  mo_control :: bool

abbreviation mcp_usage :: string where
  "mcp_usage \<equiv> ''usage: cocoa-way-mcp [--socket PATH] [--allow-control] (read-only by default)''"

fun parse_options :: "string list \<Rightarrow> string option \<Rightarrow> bool \<Rightarrow> string + string option \<times> bool" where
  "parse_options [] socket control = Inr (socket, control)"
| "parse_options (a # as) socket control =
     (if a = ''--socket'' \<and> socket = None then
        (case as of
           [] \<Rightarrow> Inl mcp_usage
         | p # as' \<Rightarrow> if p = [] \<or> starts_with p ''--'' then Inl mcp_usage else parse_options as' (Some p) control)
      else if a = ''--allow-control'' \<and> \<not> control then parse_options as socket True
      else Inl mcp_usage)"

definition parse_arguments :: "string \<Rightarrow> string list \<Rightarrow> string + mcp_options" where
  "parse_arguments default_path as =
     and_then (parse_options as None False)
       (\<lambda>(socket, control). Inr \<lparr>mo_socket = (case socket of None \<Rightarrow> default_path | Some p \<Rightarrow> p), mo_control = control\<rparr>)"

definition MAX_MCP_FRAME_BYTES :: nat where
  "MAX_MCP_FRAME_BYTES = 64 * 1024"

text \<open>The frame (\<open>None\<close> at the end of the input), and what is left of the input.\<close>

definition mcp_raw_frame :: "bytes \<Rightarrow> bytes" where
  "mcp_raw_frame input =
     (let window = take (MAX_MCP_FRAME_BYTES + 2) input
      in case position (\<lambda>b. b = newline) window of None \<Rightarrow> window | Some k \<Rightarrow> take (Suc k) window)"

definition read_mcp_frame :: "bytes \<Rightarrow> (string + string option) \<times> bytes" where
  "read_mcp_frame input =
     (let raw = mcp_raw_frame input;
          frame = (if raw \<noteq> [] \<and> last raw = newline then butlast raw else raw)
      in (if raw = [] then Inr None
          else if MAX_MCP_FRAME_BYTES < length frame then Inl ''MCP frame exceeds 64 KiB''
          else if utf8_valid frame then Inr (Some (text_of_bytes frame))
          else Inl ''invalid utf-8'',
          drop (length raw) input))"

subsection \<open>JSON values\<close>

fun json_str :: "json \<Rightarrow> string option" where
  "json_str (JString s) = Some s"
| "json_str _ = None"

text \<open>\<open>as_u64\<close>: only an integer literal without a sign, within 64 bits.\<close>

fun json_u64 :: "json \<Rightarrow> nat option" where
  "json_u64 (JNumber s) =
     (let n = foldl (\<lambda>n c. 10 * n + (of_char c - 48)) 0 s
      in if s = [] \<or> \<not> list_all is_ascii_digit s \<or> 2 ^ 64 \<le> n then None else Some n)"
| "json_u64 _ = None"

fun json_object :: "json \<Rightarrow> (string \<times> json) list option" where
  "json_object (JObject xs) = Some xs"
| "json_object _ = None"

fun json_get :: "string \<Rightarrow> json \<Rightarrow> json option" where
  "json_get key (JObject xs) = map_of xs key"
| "json_get key _ = None"

definition json_get_str :: "string \<Rightarrow> json \<Rightarrow> string option" where
  "json_get_str key v = Option.bind (json_get key v) json_str"

definition json_put :: "string \<Rightarrow> json \<Rightarrow> (string \<times> json) list \<Rightarrow> (string \<times> json) list" where
  "json_put key v xs =
     (if map_of xs key = None then xs @ [(key, v)] else map (\<lambda>(k, w). (k, if k = key then v else w)) xs)"

subsection \<open>The catalog of tools\<close>

record tool =
  t_name :: string
  t_schema :: json
  t_read_only :: bool
  t_destructive :: bool

definition read_only_tool :: "string \<Rightarrow> json \<Rightarrow> tool" where
  "read_only_tool name schema = \<lparr>t_name = name, t_schema = schema, t_read_only = True, t_destructive = False\<rparr>"

definition action_tool :: "string \<Rightarrow> json \<Rightarrow> tool" where
  "action_tool name schema =
     \<lparr>t_name = name, t_schema = schema, t_read_only = False,
      t_destructive = name \<in> {''cocoa_way_stop'', ''cocoa_way_display_close''}\<rparr>"

definition object_schema :: "(string \<times> json) list \<Rightarrow> string list \<Rightarrow> json" where
  "object_schema properties required =
     JObject ([(''type'', JString ''object''), (''properties'', JObject properties)]
       @ (if required = [] then [] else [(''required'', JArray (map JString required))])
       @ [(''additionalProperties'', JBool False)])"

definition empty_schema :: json where
  "empty_schema = JObject [(''type'', JString ''object''), (''additionalProperties'', JBool False)]"

definition of_type :: "string \<Rightarrow> (string \<times> json) list \<Rightarrow> json" where
  "of_type ty xs = JObject ((''type'', JString ty) # xs)"

definition limit_property :: json where
  "limit_property = of_type ''integer'' [(''minimum'', JNumber ''1''), (''maximum'', JNumber ''1000''), (''default'', JNumber ''100'')]"

definition diagnostics_schema :: json where
  "diagnostics_schema = object_schema [(''session'', of_type ''string'' []), (''limit'', limit_property)] []"

definition one_of :: "string list \<Rightarrow> (string \<times> json)" where
  "one_of xs = (''enum'', JArray (map JString xs))"

abbreviation non_empty_text :: "string \<times> json" where
  "non_empty_text \<equiv> (''minLength'', JNumber ''1'')"

definition PROFILE_PATTERN :: string where
  "PROFILE_PATTERN = ''^[0-9a-f]{32}$''"

definition DISPLAY_PATTERN :: string where
  "DISPLAY_PATTERN = ''^[a-z0-9]+(-[a-z0-9]+)*$''"

definition control_tools :: "tool list" where
  "control_tools =
     [action_tool ''cocoa_way_open_panel''
        (object_schema [(''page'', of_type ''string'' [one_of [''applications'', ''displays'', ''diagnostics''], (''default'', JString ''applications'')])] [])]
     @ map (\<lambda>name. action_tool name
          (object_schema [(''profile_id'', of_type ''string'' [(''minLength'', JNumber ''32''), (''maxLength'', JNumber ''32''),
              (''pattern'', JString PROFILE_PATTERN)])] [''profile_id'']))
        [''cocoa_way_check'', ''cocoa_way_launch'', ''cocoa_way_stop'']
     @ map (\<lambda>(name, required). action_tool name
          (object_schema [(''name'', of_type ''string'' [non_empty_text, (''maxLength'', JNumber ''64''), (''pattern'', JString DISPLAY_PATTERN)])]
             (if required then [''name''] else [])))
        [(''cocoa_way_display_create'', False), (''cocoa_way_display_close'', True)]"

definition query_tools :: "tool list" where
  "query_tools =
     map (\<lambda>(name, schema). read_only_tool name schema)
       [(''cocoa_way_debug_snapshot'', empty_schema), (''cocoa_way_performance'', empty_schema), (''cocoa_way_clipboard'', empty_schema),
        (''cocoa_way_onboarding'', object_schema [(''goal'', of_type ''string''
            [one_of [''overview'', ''apple-container'', ''remote-ssh'', ''local-socket''], (''default'', JString ''overview'')])] []),
        (''cocoa_way_image_sources'', empty_schema),
        (''cocoa_way_application_template'', object_schema
            [(''name'', of_type ''string'' [non_empty_text, (''default'', JString ''Linux Application'')]),
             (''image'', of_type ''string'' [non_empty_text]), (''command'', of_type ''string'' [non_empty_text]),
             (''presentation'', of_type ''string'' [one_of [''desktop'', ''rootless''], (''default'', JString ''rootless'')]),
             (''display'', of_type ''string'' [(''default'', JString ''auto'')]), (''audio'', of_type ''boolean'' [(''default'', JBool True)])]
            [''image'', ''command'']),
        (''cocoa_way_connection_template'', object_schema
            [(''name'', of_type ''string'' [non_empty_text, (''default'', JString ''Linux Machine'')]),
             (''type'', of_type ''string'' [one_of [''ssh'', ''local''], (''default'', JString ''ssh'')]),
             (''host'', of_type ''string'' []), (''user'', of_type ''string'' []),
             (''port'', of_type ''integer'' [(''minimum'', JNumber ''1''), (''maximum'', JNumber ''65535''), (''default'', JNumber ''22'')]),
             (''identity'', of_type ''string'' []), (''socket'', of_type ''string'' []),
             (''command'', of_type ''string'' [non_empty_text, (''default'', JString ''foot'')]),
             (''display'', of_type ''string'' [(''default'', JString ''default'')]),
             (''compression'', of_type ''string'' [one_of [''none'', ''lz4'', ''zstd''], (''default'', JString ''zstd'')])] []),
        (''cocoa_way_status'', empty_schema), (''cocoa_way_applications'', empty_schema), (''cocoa_way_sessions'', empty_schema),
        (''cocoa_way_running'', empty_schema), (''cocoa_way_displays'', empty_schema), (''cocoa_way_images'', empty_schema),
        (''cocoa_way_volumes'', empty_schema), (''cocoa_way_runtimes'', empty_schema), (''cocoa_way_tasks'', diagnostics_schema),
        (''cocoa_way_environment'', empty_schema), (''cocoa_way_features'', empty_schema), (''cocoa_way_diagnostics'', diagnostics_schema),
        (''cocoa_way_issue_draft'', object_schema
            [(''summary'', of_type ''string'' [non_empty_text]), (''session'', of_type ''string'' []),
             (''steps'', of_type ''array'' [(''items'', of_type ''string'' [])]), (''expected'', of_type ''string'' []),
             (''actual'', of_type ''string'' []), (''limit'', limit_property)] [''summary'']),
        (''cocoa_way_logs'', object_schema [(''session'', of_type ''string'' []), (''limit'', limit_property)] [''session''])]"

text \<open>Bounds for every text and every list of a schema.\<close>

fun bound_schema :: "json \<Rightarrow> json" and bound_entries :: "bool \<Rightarrow> (string \<times> json) list \<Rightarrow> (string \<times> json) list"
  and bound_properties :: "json \<Rightarrow> json" and bound_all :: "(string \<times> json) list \<Rightarrow> (string \<times> json) list" where
  "bound_schema (JObject xs) =
     (let ty = map_of xs ''type'';
          xs = bound_entries (ty = Some (JString ''array'')) xs;
          xs = (if ty = Some (JString ''string'') \<and> map_of xs ''maxLength'' = None then json_put ''maxLength'' (JNumber ''4096'') xs else xs)
      in JObject (if ty = Some (JString ''array'') then json_put ''maxItems'' (JNumber ''32'') xs else xs))"
| "bound_schema v = v"
| "bound_entries arr [] = []"
| "bound_entries arr ((k, v) # xs) =
     (k, if k = ''items'' \<and> arr then bound_schema v else if k = ''properties'' then bound_properties v else v) # bound_entries arr xs"
| "bound_properties (JObject xs) = JObject (bound_all xs)"
| "bound_properties v = v"
| "bound_all [] = []"
| "bound_all ((k, v) # xs) = (k, bound_schema v) # bound_all xs"

definition tools :: "bool \<Rightarrow> tool list" where
  "tools allow_control =
     map (\<lambda>t. t\<lparr>t_schema := bound_schema (t_schema t)\<rparr>) (query_tools @ (if allow_control then control_tools else []))"


subsection \<open>Validating arguments\<close>

definition invalid_argument :: "string \<Rightarrow> string" where
  "invalid_argument arg = ''invalid '' @ arg @ '': arguments must match the tool input schema''"

definition is_profile_text :: "string \<Rightarrow> bool" where
  "is_profile_text s = list_all is_lower_hex s"

definition is_slot_char :: "char \<Rightarrow> bool" where
  "is_slot_char c \<longleftrightarrow> is_ascii_digit c \<or> (97 \<le> (of_char c :: nat) \<and> (of_char c :: nat) \<le> 122)"

definition is_display_text :: "string \<Rightarrow> bool" where
  "is_display_text s \<longleftrightarrow>
     s \<notin> {''auto'', ''default'', ''dedicated''}
     \<and> list_all (\<lambda>p. p \<noteq> [] \<and> list_all is_slot_char p) (dash_parts [] s)"

definition bound_of :: "string \<Rightarrow> nat \<Rightarrow> json \<Rightarrow> nat" where
  "bound_of key n schema = (case json_u64 (json_field key schema) of None \<Rightarrow> n | Some k \<Rightarrow> k)"

definition valid_text :: "json \<Rightarrow> string \<Rightarrow> bool" where
  "valid_text schema s \<longleftrightarrow>
     CHR 0x00 \<notin> set s \<and> bound_of ''minLength'' 0 schema \<le> char_count s \<and> char_count s \<le> bound_of ''maxLength'' 4096 schema
     \<and> (json_str (json_field ''pattern'' schema) = Some PROFILE_PATTERN \<longrightarrow> is_profile_text s)
     \<and> (json_str (json_field ''pattern'' schema) = Some DISPLAY_PATTERN \<longrightarrow> is_display_text s)"

text \<open>The checks of one value, without its parts; the parts of lists and objects follow.\<close>

definition valid_scalar :: "json \<Rightarrow> json \<Rightarrow> bool" where
  "valid_scalar v schema \<longleftrightarrow>
     (case json_str (json_field ''type'' schema) of
        None \<Rightarrow> False
      | Some ty \<Rightarrow>
          if ty = ''object'' then json_object v \<noteq> None
          else if ty = ''string'' then (case json_str v of None \<Rightarrow> False | Some s \<Rightarrow> valid_text schema s)
          else if ty = ''integer'' then
            (case json_u64 v of None \<Rightarrow> False
             | Some n \<Rightarrow> bound_of ''minimum'' 0 schema \<le> n \<and> n \<le> bound_of ''maximum'' (2 ^ 64 - 1) schema)
          else if ty = ''boolean'' then (case v of JBool _ \<Rightarrow> True | _ \<Rightarrow> False)
          else if ty = ''array'' then (case v of JArray xs \<Rightarrow> length xs \<le> bound_of ''maxItems'' 32 schema | _ \<Rightarrow> False)
          else False)"

definition missing_key :: "(string \<times> json) list \<Rightarrow> json \<Rightarrow> string option" where
  "missing_key xs schema =
     (case json_field ''required'' schema of
        JArray ks \<Rightarrow> find (\<lambda>k. map_of xs k = None) (json_strings ks)
      | _ \<Rightarrow> None)"

definition check_choice :: "json \<Rightarrow> json \<Rightarrow> string \<Rightarrow> string + unit" where
  "check_choice v schema arg =
     (case json_field ''enum'' schema of
        JArray xs \<Rightarrow> if v \<in> set xs then Inr () else Inl (invalid_argument arg)
      | _ \<Rightarrow> Inr ())"

fun validate_arguments :: "json \<Rightarrow> json \<Rightarrow> string \<Rightarrow> string + unit"
  and validate_fields :: "(string \<times> json) list \<Rightarrow> json \<Rightarrow> string \<Rightarrow> string + unit"
  and validate_items :: "json list \<Rightarrow> json \<Rightarrow> string \<Rightarrow> string + unit" where
  "validate_arguments (JObject xs) schema arg =
     (if \<not> valid_scalar (JObject xs) schema then Inl (invalid_argument arg)
      else case missing_key xs schema of
        Some k \<Rightarrow> Inl (arg @ ''.'' @ k @ '' is required'')
      | None \<Rightarrow> and_then (validate_fields xs (json_field ''properties'' schema) arg) (\<lambda>_. check_choice (JObject xs) schema arg))"
| "validate_arguments (JArray vs) schema arg =
     (if \<not> valid_scalar (JArray vs) schema then Inl (invalid_argument arg)
      else and_then (validate_items vs (json_field ''items'' schema) arg) (\<lambda>_. check_choice (JArray vs) schema arg))"
| "validate_arguments v schema arg =
     (if \<not> valid_scalar v schema then Inl (invalid_argument arg) else check_choice v schema arg)"
| "validate_fields [] properties arg = Inr ()"
| "validate_fields ((k, v) # xs) properties arg =
     (case json_get k properties of
        None \<Rightarrow> Inl (''unknown argument: '' @ arg @ ''.'' @ k)
      | Some schema \<Rightarrow> and_then (validate_arguments v schema k) (\<lambda>_. validate_fields xs properties arg))"
| "validate_items [] schema arg = Inr ()"
| "validate_items (v # vs) schema arg = and_then (validate_arguments v schema arg) (\<lambda>_. validate_items vs schema arg)"

subsection \<open>Calling a tool\<close>

text \<open>
  What the server uses: the socket (its answer to a request, given the requests sent before), the
  parser and the printers of serde_json (for a value, for its compact length, for a text), whether
  a response can be written (given those written before), the version, and the title and the
  description of a tool.
\<close>

record mcp_env =
  m_send :: "control_request list \<Rightarrow> control_request \<Rightarrow> string + control_response"
  m_parse :: "string \<Rightarrow> string + json"
  m_pretty :: "json \<Rightarrow> string"
  m_length :: "json \<Rightarrow> nat"
  m_quote :: "string \<Rightarrow> string"
  m_write :: "json list \<Rightarrow> json \<Rightarrow> bool"
  m_version :: string
  m_texts :: "string \<Rightarrow> string \<times> string"

definition tool_limit :: "json \<Rightarrow> nat" where
  "tool_limit v = (case Option.bind (json_get ''limit'' v) json_u64 of None \<Rightarrow> 100 | Some n \<Rightarrow> n)"

definition optional_text :: "json \<Rightarrow> string \<Rightarrow> string option" where
  "optional_text v key = selected (json_get_str key v)"

definition required_text :: "json \<Rightarrow> string \<Rightarrow> string + string" where
  "required_text v key = ok_or (key @ '' is required'') (optional_text v key)"

definition text_or :: "string \<Rightarrow> string option \<Rightarrow> string" where
  "text_or d x = (case x of None \<Rightarrow> d | Some s \<Rightarrow> s)"

definition content_result :: "string \<Rightarrow> json \<Rightarrow> bool \<Rightarrow> json" where
  "content_result text structured failed =
     JObject [(''content'', JArray [JObject [(''type'', JString ''text''), (''text'', JString text)]]),
       (''structuredContent'', structured), (''isError'', JBool failed)]"

definition guided_result :: "mcp_env \<Rightarrow> json \<Rightarrow> json" where
  "guided_result v structured = content_result (m_pretty v structured) structured False"

definition response_value :: "control_response \<Rightarrow> json" where
  "response_value r =
     JObject ([(''protocol'', JNumber (decimal (rs_protocol r))), (''ok'', JBool (rs_ok r)), (''command'', JString (rs_command r)),
        (''data'', rs_data r)] @ (case rs_error r of None \<Rightarrow> [] | Some e \<Rightarrow> [(''error'', JString e)]))"

text \<open>A step of a call: the requests it sends after those sent before, and its result.\<close>

type_synonym 'a step = "control_request list \<times> (string + 'a)"

definition then_step :: "'a step \<Rightarrow> ('a \<Rightarrow> control_request list \<Rightarrow> 'b step) \<Rightarrow> 'b step" where
  "then_step m f = (case m of (sent, Inl e) \<Rightarrow> (sent, Inl e) | (sent, Inr x) \<Rightarrow> f x sent)"

definition send_control_tool :: "mcp_env \<Rightarrow> control_request \<Rightarrow> control_request list \<Rightarrow> json step" where
  "send_control_tool v rq sent =
     (sent @ [rq],
      Inr (case m_send v sent rq of
             Inr r \<Rightarrow> content_result (m_pretty v (response_value r)) (response_value r) (\<not> rs_ok r)
           | Inl e \<Rightarrow> content_result e (JObject [(''error'', JString e)]) True))"

definition control_data :: "mcp_env \<Rightarrow> string \<Rightarrow> control_request list \<Rightarrow> json step" where
  "control_data v command sent =
     (let rq = \<lparr>rq_command = command, rq_session = None, rq_limit = 100\<rparr>
      in (sent @ [rq],
          case m_send v sent rq of
            Inl e \<Rightarrow> Inl (''failed to query Cocoa-Way '' @ command @ '': '' @ e)
          | Inr r \<Rightarrow> if rs_ok r then Inr (rs_data r) else Inl (text_or (''Cocoa-Way '' @ command @ '' query failed'') (rs_error r))))"

definition onboarding_steps :: "string \<Rightarrow> json" where
  "onboarding_steps goal =
     (if goal = ''apple-container'' then JArray
        [JString ''Confirm Apple's separate Container runtime is installed. If it is missing, install the latest official release from https://github.com/apple/container/releases/latest, then start it from Container > Apple Container.'',
         JString ''Call cocoa_way_image_sources and choose a trusted GUI-ready image path.'',
         JString ''Call cocoa_way_application_template with the image and application command.'',
         JString ''Review CPU, memory, shared memory, platform, and Rosetta in Applications > More... > Resources & Platform...; changes apply to the next launch, not a running VM.'',
         JString ''After a runtime update, allow Apple Container to finish kernel/init-image downloads. A bootstrap timeout is not proof that the application image lacks GUI tools; retry Check after the runtime is ready.'',
         JString ''Review the generated profile in Applications > New Application, run Check, then launch explicitly.'']
      else if goal \<in> {''remote-ssh'', ''local-socket''} then JArray
        [JString ''Create a managed Display when the default display is already occupied.'',
         JString ''Call cocoa_way_connection_template and review the generated saved connection.'',
         JString ''Save it through Connections > Connect to Machine, or run the generated run_waypipe.sh command explicitly.'']
      else JArray
        [JString ''Use Apple Container applications for managed local GUI workloads.'',
         JString ''Use saved Connections or run_waypipe.sh for SSH, OrbStack, Docker, and existing local sockets.'',
         JString ''Use cocoa_way_diagnostics before reporting a failure; destructive operations are never exposed by MCP.''])"

definition onboarding :: "mcp_env \<Rightarrow> json \<Rightarrow> control_request list \<Rightarrow> json step" where
  "onboarding v arguments sent =
     (let goal = text_or ''overview'' (json_get_str ''goal'' arguments) in
      then_step (control_data v ''environment'' sent) (\<lambda>environment sent.
      then_step (control_data v ''features'' sent) (\<lambda>features sent.
      then_step (control_data v ''applications'' sent) (\<lambda>applications sent.
        (sent, Inr (guided_result v (JObject [(''goal'', JString goal), (''environment'', environment), (''features'', features),
           (''applications'', applications), (''next_steps'', onboarding_steps goal),
           (''safety'', JString ''Generated setup is read-only. Review it in Cocoa-Way before launching anything.'')])))))))"

definition image_sources :: "mcp_env \<Rightarrow> control_request list \<Rightarrow> json step" where
  "image_sources v sent =
     then_step (control_data v ''images'' sent) (\<lambda>local sent.
       (sent, Inr (guided_result v (JObject [(''local_images'', local),
         (''sources'', JArray
           [JObject [(''kind'', JString ''oci-registry''),
            (''action'', JString ''Images > Pull from Source...''),
            (''example'', JString ''registry.fedoraproject.org/fedora:<release>''),
            (''note'', JString ''Pull only a registry and tag you trust. A base image is not GUI-ready until it contains Waypipe and the requested application.'')],
            JObject [(''kind'', JString ''oci-archive''),
            (''action'', JString ''Images > Import OCI Archive...''),
            (''note'', JString ''Import an OCI archive produced by another trusted runtime.'')],
            JObject [(''kind'', JString ''bundled-gui-image''),
            (''action'', JString ''Images > Build Example''),
            (''note'', JString ''Build Cocoa-Way's example image locally when a ready-to-test Waypipe, clipboard, audio, and GUI stack is needed.'')]]),
         (''next_step'', JString ''After the image exists locally, call cocoa_way_application_template, create the profile in the GUI, and run Check before Launch.'')]))))"

definition toml_line :: "string \<Rightarrow> string \<Rightarrow> string" where
  "toml_line key v = key @ '' = '' @ v @ [CHR 0x0A]"

definition application_template :: "mcp_env \<Rightarrow> json \<Rightarrow> string + json" where
  "application_template v arguments =
     and_then (required_text arguments ''image'') (\<lambda>image.
     and_then (required_text arguments ''command'') (\<lambda>command.
       (let name = text_or ''Linux Application'' (optional_text arguments ''name'');
            presentation = text_or ''rootless'' (optional_text arguments ''presentation'');
            display = text_or ''auto'' (optional_text arguments ''display'');
            audio = (case json_get ''audio'' arguments of Some (JBool b) \<Rightarrow> b | _ \<Rightarrow> True);
            profile = (if presentation = ''desktop'' then ''desktop'' else ''single-app'')
        in if presentation \<notin> {''desktop'', ''rootless''} then Inl ''presentation must be desktop or rootless''
           else Inr (guided_result v (JObject
             [(''profile'', JString (''[[session]]'' @ [CHR 0x0A] @ toml_line ''name'' (m_quote v name)
                 @ toml_line ''runtime'' (CHR 0x22 # ''container'' @ [CHR 0x22]) @ toml_line ''image'' (m_quote v image)
                 @ toml_line ''display'' (m_quote v display) @ toml_line ''presentation'' (m_quote v presentation)
                 @ toml_line ''profile'' (m_quote v profile) @ toml_line ''command'' (m_quote v command)
                 @ toml_line ''audio'' (if audio then ''true'' else ''false''))),
              (''fields'', JObject [(''name'', JString name), (''runtime'', JString ''container''), (''image'', JString image),
                 (''command'', JString command), (''presentation'', JString presentation), (''display'', JString display),
                 (''audio'', JBool audio)]),
              (''steps'', JArray
                [JString ''Confirm the image is local in Images; pull, load, or build it if needed.'',
                 JString ''Open Applications > New Application and enter these fields, or append the reviewed block to container-sessions.toml.'',
                 JString ''Review next-launch limits in Applications > More... > Resources & Platform... when needed.'',
                 JString ''Run Check. Resolve missing Waypipe or application tools in the image; audio is optional. For kernel/init-image download failures, finish runtime setup and retry rather than rebuilding the application image.'',
                 JString ''Launch explicitly from Cocoa-Way after Check reports Ready.'']),
              (''note'', JString ''Use desktop for nested compositors such as niri or Hyprland; use rootless for regular xdg-shell applications such as Foot or Firefox.'')])))))"

definition shell_quote :: "string \<Rightarrow> string" where
  "shell_quote v = [CHR 0x27] @ concat (map quote_char v) @ [CHR 0x27]"

text \<open>The lines of the connection that its kind adds, and the command for the shell.\<close>

definition ssh_command :: "mcp_env \<Rightarrow> json \<Rightarrow> string \<Rightarrow> string \<Rightarrow> string \<Rightarrow> string + string list \<times> string" where
  "ssh_command v arguments compression display command =
     and_then (required_text arguments ''host'') (\<lambda>host_name.
       (let user = optional_text arguments ''user'';
            target = (case user of None \<Rightarrow> host_name | Some u \<Rightarrow> u @ ''@'' @ host_name);
            port = (case Option.bind (json_get ''port'' arguments) json_u64 of None \<Rightarrow> 22 | Some n \<Rightarrow> n);
            identity = optional_text arguments ''identity''
        in if port < 1 \<or> 65535 < port then Inl ''port must be between 1 and 65535''
           else Inr
             ([''host = '' @ m_quote v host_name]
                @ (case user of None \<Rightarrow> [] | Some u \<Rightarrow> [''user = '' @ m_quote v u])
                @ [''port = '' @ decimal port]
                @ (case identity of None \<Rightarrow> [] | Some i \<Rightarrow> [''identity = '' @ m_quote v i]),
              ''COCOA_WAY_COMPRESS='' @ shell_quote compression @ '' ./run_waypipe.sh --display '' @ shell_quote display
                @ '' ssh -p '' @ decimal port
                @ (case identity of None \<Rightarrow> [] | Some i \<Rightarrow> '' -i '' @ shell_quote i)
                @ '' '' @ shell_quote target @ '' '' @ shell_quote command)))"

definition local_command :: "mcp_env \<Rightarrow> json \<Rightarrow> string \<Rightarrow> string + string list \<times> string" where
  "local_command v arguments display =
     and_then (required_text arguments ''socket'') (\<lambda>socket.
       Inr ([''socket = '' @ m_quote v socket],
            ''./run_waypipe.sh --display '' @ shell_quote display @ '' --socket '' @ shell_quote socket @ '' client''))"

definition connection_template :: "mcp_env \<Rightarrow> json \<Rightarrow> string + json" where
  "connection_template v arguments =
     (let kind = text_or ''ssh'' (optional_text arguments ''type'');
          name = text_or ''Linux Machine'' (optional_text arguments ''name'');
          command = text_or ''foot'' (optional_text arguments ''command'');
          display = text_or ''default'' (optional_text arguments ''display'');
          compression = text_or ''zstd'' (optional_text arguments ''compression'')
      in if kind \<notin> {''ssh'', ''local''} then Inl ''connection type must be ssh or local''
         else and_then (if kind = ''ssh'' then ssh_command v arguments compression display command else local_command v arguments display)
           (\<lambda>(own, run_command). Inr (guided_result v (JObject
             [(''connection'', JString (join [CHR 0x0A]
                  ([''[[connection]]'', ''name = '' @ m_quote v name, ''type = '' @ m_quote v kind] @ own
                   @ [''app = '' @ m_quote v command, ''display = '' @ m_quote v display, ''compression = '' @ m_quote v compression])
                  @ [CHR 0x0A])),
              (''run_waypipe'', JString run_command),
              (''transport_note'', JString
                 (if kind = ''local'' then ''Local client mode only attaches to the socket; app and compression must be configured on its existing Waypipe server.''
                  else ''The shell command preserves the saved SSH identity and compression settings.'')),
              (''steps'', JArray
                [JString ''Start Cocoa-Way and create the requested managed Display if it is not default.'',
                 JString ''Review and save this entry in Connections > Connect to Machine; passwords are intentionally never stored.'',
                 JString ''Connect explicitly from the Connections menu, or run the generated command from the repository.''])]))))"

definition issue_field :: "json \<Rightarrow> string \<Rightarrow> string \<Rightarrow> string" where
  "issue_field arguments name fallback = text_or fallback (optional_text arguments name)"

definition issue_steps :: "json \<Rightarrow> string" where
  "issue_steps arguments =
     (let values = (case json_get ''steps'' arguments of
            Some (JArray xs) \<Rightarrow> filter (\<lambda>s. s \<noteq> []) (map trim (json_strings xs))
          | _ \<Rightarrow> []);
          steps = join [CHR 0x0A] (map (\<lambda>(k, s). decimal (k + 1) @ ''. '' @ s) (enumerate 0 values))
      in if steps = [] then ''1. Add the exact reproduction steps before submitting.'' else steps)"

definition heading :: "string \<Rightarrow> string \<Rightarrow> string" where
  "heading title s = ''## '' @ title @ [CHR 0x0A, CHR 0x0A] @ s @ [CHR 0x0A, CHR 0x0A]"

definition issue_draft :: "mcp_env \<Rightarrow> json \<Rightarrow> control_request list \<Rightarrow> json step" where
  "issue_draft v arguments sent =
     (case optional_text arguments ''summary'' of
        None \<Rightarrow> (sent, Inl ''cocoa_way_issue_draft requires a non-empty summary'')
      | Some summary \<Rightarrow>
          (let rq = \<lparr>rq_command = ''diagnostics'', rq_session = json_get_str ''session'' arguments, rq_limit = tool_limit arguments\<rparr> in
           case m_send v sent rq of
             Inl e \<Rightarrow> (sent @ [rq], Inl (''failed to collect Cocoa-Way diagnostics: '' @ e))
           | Inr r \<Rightarrow>
               if \<not> rs_ok r then send_control_tool v rq (sent @ [rq])
               else (let markdown = heading ''Summary'' summary @ heading ''Steps to reproduce'' (issue_steps arguments)
                       @ heading ''Expected behavior'' (issue_field arguments ''expected'' ''Describe the expected result.'')
                       @ heading ''Actual behavior'' (issue_field arguments ''actual'' ''Describe the actual result.'')
                       @ heading ''Diagnostics'' (''```json'' @ [CHR 0x0A] @ m_pretty v (rs_data r) @ [CHR 0x0A] @ ''```'')
                       @ ''> Generated locally. Review for private data and remove irrelevant logs before submitting.''
                     in (sent @ [rq], Inr (content_result markdown
                          (JObject [(''markdown'', JString markdown), (''diagnostics'', rs_data r)]) False)))))"

text \<open>The request of a tool that passes its arguments on.\<close>

definition plain_queries :: "(string \<times> string) list" where
  "plain_queries =
     [(''cocoa_way_debug_snapshot'', ''debug-snapshot''), (''cocoa_way_performance'', ''performance''), (''cocoa_way_clipboard'', ''clipboard''),
      (''cocoa_way_applications'', ''applications''), (''cocoa_way_sessions'', ''applications''), (''cocoa_way_running'', ''running''),
      (''cocoa_way_displays'', ''displays''), (''cocoa_way_images'', ''images''), (''cocoa_way_volumes'', ''volumes''),
      (''cocoa_way_runtimes'', ''runtimes''), (''cocoa_way_environment'', ''environment''), (''cocoa_way_features'', ''features'')]"

definition tool_request :: "string \<Rightarrow> json \<Rightarrow> string + control_request" where
  "tool_request name arguments =
     (case map_of plain_queries name of
        Some command \<Rightarrow> Inr \<lparr>rq_command = command, rq_session = None, rq_limit = 100\<rparr>
      | None \<Rightarrow>
      if name = ''cocoa_way_status'' then Inr \<lparr>rq_command = ''status'', rq_session = None, rq_limit = 10\<rparr>
      else if name = ''cocoa_way_open_panel'' then
        Inr \<lparr>rq_command = ''open-panel'', rq_session = Some (text_or ''applications'' (json_get_str ''page'' arguments)), rq_limit = 100\<rparr>
      else if name \<in> {''cocoa_way_check'', ''cocoa_way_launch'', ''cocoa_way_stop''} then
        (case json_str (json_field ''profile_id'' arguments) of
           None \<Rightarrow> Inl ''profile_id is required''
         | Some i \<Rightarrow> Inr \<lparr>rq_command = (if name = ''cocoa_way_check'' then ''check'' else if name = ''cocoa_way_launch'' then ''launch'' else ''stop''),
             rq_session = Some i, rq_limit = 100\<rparr>)
      else if name \<in> {''cocoa_way_display_create'', ''cocoa_way_display_close''} then
        Inr \<lparr>rq_command = (if name = ''cocoa_way_display_create'' then ''display-create'' else ''display-close''),
          rq_session = json_get_str ''name'' arguments, rq_limit = 100\<rparr>
      else if name = ''cocoa_way_tasks'' then Inr \<lparr>rq_command = ''tasks'', rq_session = None, rq_limit = tool_limit arguments\<rparr>
      else if name = ''cocoa_way_diagnostics'' then
        Inr \<lparr>rq_command = ''diagnostics'', rq_session = json_get_str ''session'' arguments, rq_limit = tool_limit arguments\<rparr>
      else if name = ''cocoa_way_logs'' then
        (case json_get_str ''session'' arguments of
           None \<Rightarrow> Inl ''cocoa_way_logs requires a string session argument''
         | Some s \<Rightarrow> Inr \<lparr>rq_command = ''logs'', rq_session = Some s, rq_limit = tool_limit arguments\<rparr>)
      else Inl (''Unknown tool: '' @ name))"

definition run_tool :: "mcp_env \<Rightarrow> string \<Rightarrow> json \<Rightarrow> control_request list \<Rightarrow> json step" where
  "run_tool v name arguments sent =
     (if name = ''cocoa_way_issue_draft'' then issue_draft v arguments sent
      else if name = ''cocoa_way_onboarding'' then onboarding v arguments sent
      else if name = ''cocoa_way_image_sources'' then image_sources v sent
      else if name = ''cocoa_way_application_template'' then (sent, application_template v arguments)
      else if name = ''cocoa_way_connection_template'' then (sent, connection_template v arguments)
      else case tool_request name arguments of
        Inl e \<Rightarrow> (sent, Inl e)
      | Inr rq \<Rightarrow> send_control_tool v rq sent)"

definition call_tool :: "mcp_env \<Rightarrow> bool \<Rightarrow> json \<Rightarrow> control_request list \<Rightarrow> json step" where
  "call_tool v allow_control params sent =
     (case json_object params of
        None \<Rightarrow> (sent, Inl ''tools/call params must be an object'')
      | Some xs \<Rightarrow>
          if \<not> list_all (\<lambda>(k, _). k \<in> {''name'', ''arguments'', ''_meta''}) xs then (sent, Inl ''unknown tools/call parameter'')
          else if (case map_of xs ''_meta'' of None \<Rightarrow> False | Some m \<Rightarrow> json_object m = None)
          then (sent, Inl ''tools/call _meta must be an object'')
          else case json_get_str ''name'' params of
            None \<Rightarrow> (sent, Inl ''tools/call requires a tool name'')
          | Some name \<Rightarrow>
              (let arguments = (case json_get ''arguments'' params of None \<Rightarrow> JObject [] | Some a \<Rightarrow> a) in
               case find (\<lambda>t. t_name t = name) (tools allow_control) of
                 None \<Rightarrow> (sent, Inl (''Unknown or disabled tool: '' @ name @ ''; controls require --allow-control''))
               | Some t \<Rightarrow>
                   if 16 * 1024 < m_length v arguments then (sent, Inl ''tool arguments exceed the 16 KiB limit'')
                   else case validate_arguments arguments (t_schema t) ''arguments'' of
                     Inl e \<Rightarrow> (sent, Inl e)
                   | Inr _ \<Rightarrow> run_tool v name arguments sent))"

subsection \<open>Messages\<close>

definition LATEST_PROTOCOL :: string where
  "LATEST_PROTOCOL = ''2025-11-25''"

definition SUPPORTED_PROTOCOLS :: "string list" where
  "SUPPORTED_PROTOCOLS = [''2025-11-25'', ''2025-06-18'', ''2025-03-26'', ''2024-11-05'']"

definition json_rpc_success :: "json \<Rightarrow> json \<Rightarrow> json" where
  "json_rpc_success i r = JObject [(''jsonrpc'', JString ''2.0''), (''id'', i), (''result'', r)]"

definition json_rpc_error :: "json \<Rightarrow> string \<Rightarrow> string \<Rightarrow> json" where
  "json_rpc_error i code message =
     JObject [(''jsonrpc'', JString ''2.0''), (''id'', i),
       (''error'', JObject [(''code'', JNumber code), (''message'', JString message)])]"

definition initialize_result :: "mcp_env \<Rightarrow> json \<Rightarrow> bool \<Rightarrow> json" where
  "initialize_result v params allow_control =
     (let requested = text_or LATEST_PROTOCOL (json_get_str ''protocolVersion'' params);
          protocol = (if requested \<in> set SUPPORTED_PROTOCOLS then requested else LATEST_PROTOCOL)
      in JObject
        [(''protocolVersion'', JString protocol),
         (''capabilities'', JObject [(''tools'', JObject [])]),
         (''serverInfo'', JObject [(''name'', JString ''cocoa-way-mcp''), (''title'', JString ''Cocoa-Way Local Control''),
            (''version'', JString (m_version v)),
            (''description'', JString ''Local diagnostics and guided setup, with explicitly opt-in bounded application/display controls.'')]),
         (''instructions'', JString (if allow_control
            then ''Local control was explicitly enabled with --allow-control. Read-only diagnostics and templates remain available. Only the listed panel, profile check/launch/stop, and managed display controls are permitted. Profile actions require persistent 32-lowercase-hex IDs, never names, indices, commands, or config writes. Queue acceptance is not completion or success; inspect status, tasks, running, and displays afterward. No container/image/volume delete, shell execution, or file/network settings APIs are exposed.''
            else ''This server is local and read-only. Use diagnostics and template tools without saving or launching anything. Mutating tools are neither listed nor callable. Only an explicit server restart with --allow-control enables bounded panel/profile/display controls; tool arguments cannot enable control. Review generated setup in Cocoa-Way. No container/image/volume delete, shell execution, or file/network settings APIs are exposed.''))])"

definition tool_value :: "mcp_env \<Rightarrow> tool \<Rightarrow> json" where
  "tool_value v t =
     JObject [(''name'', JString (t_name t)), (''title'', JString (fst (m_texts v (t_name t)))),
       (''description'', JString (snd (m_texts v (t_name t)))), (''inputSchema'', t_schema t),
       (''annotations'', JObject [(''readOnlyHint'', JBool (t_read_only t)), (''destructiveHint'', JBool (t_destructive t)),
          (''idempotentHint'', JBool (t_read_only t)), (''openWorldHint'', JBool (\<not> t_read_only t))])]"

text \<open>What the server keeps: whether it was initialized, the requests it sent, the responses it wrote.\<close>

record mcp_state =
  mc_initialized :: bool
  mc_sent :: "control_request list"
  mc_written :: "json list"

definition call_response :: "mcp_env \<Rightarrow> bool \<Rightarrow> json \<Rightarrow> json \<Rightarrow> mcp_state \<Rightarrow> json \<times> mcp_state" where
  "call_response v allow_control i params s =
     (case call_tool v allow_control params (mc_sent s) of
        (sent, Inr r) \<Rightarrow> (json_rpc_success i r, s\<lparr>mc_sent := sent\<rparr>)
      | (sent, Inl e) \<Rightarrow> (json_rpc_error i ''-32602'' e, s\<lparr>mc_sent := sent\<rparr>))"

definition handle_method :: "mcp_env \<Rightarrow> bool \<Rightarrow> string \<Rightarrow> json \<Rightarrow> json \<Rightarrow> mcp_state \<Rightarrow> json \<times> mcp_state" where
  "handle_method v allow_control method i params s =
     (if method = ''initialize'' then (json_rpc_success i (initialize_result v params allow_control), s)
      else if method = ''ping'' then (json_rpc_success i (JObject []), s)
      else if method = ''tools/list'' \<and> mc_initialized s then
        (json_rpc_success i (JObject [(''tools'', JArray (map (tool_value v) (tools allow_control)))]), s)
      else if method = ''tools/call'' \<and> mc_initialized s then call_response v allow_control i params s
      else if method \<in> {''tools/list'', ''tools/call''} then (json_rpc_error i ''-32002'' ''Server is not initialized'', s)
      else (json_rpc_error i ''-32601'' ''Method not found'', s))"

definition handle_message :: "mcp_env \<Rightarrow> bool \<Rightarrow> json \<Rightarrow> mcp_state \<Rightarrow> json option \<times> mcp_state" where
  "handle_message v allow_control message s =
     (case json_object message of
        None \<Rightarrow> (Some (json_rpc_error JNull ''-32600'' ''Invalid Request''), s)
      | Some xs \<Rightarrow>
          if json_get_str ''jsonrpc'' message \<noteq> Some ''2.0''
          then (Some (json_rpc_error (json_field ''id'' message) ''-32600'' ''Invalid Request''), s)
          else case json_get_str ''method'' message of
            None \<Rightarrow> (None, s)
          | Some method \<Rightarrow>
              (let params = (case map_of xs ''params'' of None \<Rightarrow> JObject [] | Some p \<Rightarrow> p) in
               case map_of xs ''id'' of
                 None \<Rightarrow> (None, if method = ''notifications/initialized'' then s\<lparr>mc_initialized := True\<rparr> else s)
               | Some i \<Rightarrow>
                   if i = JNull then (Some (json_rpc_error i ''-32600'' ''Request id must not be null''), s)
                   else (case handle_method v allow_control method i params s of (r, s') \<Rightarrow> (Some r, s'))))"

subsection \<open>The server\<close>

definition handle_line :: "mcp_env \<Rightarrow> bool \<Rightarrow> string \<Rightarrow> mcp_state \<Rightarrow> json option \<times> mcp_state" where
  "handle_line v allow_control msg s =
     (if trim msg = [] then (None, s)
      else case m_parse v msg of
        Inr message \<Rightarrow> handle_message v allow_control message s
      | Inl e \<Rightarrow> (Some (json_rpc_error JNull ''-32700'' (''Parse error: '' @ e)), s))"

lemma mcp_raw_frame_nonempty: "input \<noteq> [] \<Longrightarrow> mcp_raw_frame input \<noteq> []"
  by (cases input) (auto simp: mcp_raw_frame_def MAX_MCP_FRAME_BYTES_def Let_def split: option.split)

lemma read_mcp_frame_shrinks: "read_mcp_frame input = (Inr (Some msg), rest) \<Longrightarrow> length rest < length input"
proof -
  assume r: "read_mcp_frame input = (Inr (Some msg), rest)"
  then have "mcp_raw_frame input \<noteq> []" "rest = drop (length (mcp_raw_frame input)) input"
    by (auto simp: read_mcp_frame_def Let_def split: if_splits)
  moreover have "input \<noteq> []" using \<open>mcp_raw_frame input \<noteq> []\<close> by (auto simp: mcp_raw_frame_def Let_def)
  ultimately show ?thesis by simp
qed

text \<open>The loop over all bytes of the standard input; it ends with them, or at an error.\<close>

function mcp_serve :: "mcp_env \<Rightarrow> bool \<Rightarrow> bytes \<Rightarrow> mcp_state \<Rightarrow> mcp_state" where
  "mcp_serve v allow_control input s =
     (case read_mcp_frame input of
        (Inr (Some msg), rest) \<Rightarrow>
          (case handle_line v allow_control msg s of
             (None, s') \<Rightarrow> mcp_serve v allow_control rest s'
           | (Some r, s') \<Rightarrow>
               if m_write v (mc_written s') r
               then mcp_serve v allow_control rest (s'\<lparr>mc_written := mc_written s' @ [r]\<rparr>)
               else s')
      | _ \<Rightarrow> s)"
  by pat_completeness auto
termination
  by (relation "measure (\<lambda>(v, c, input, s). length input)") (auto dest!: read_mcp_frame_shrinks [OF sym])

declare mcp_serve.simps [simp del]

definition mcp_main :: "mcp_env \<Rightarrow> string \<Rightarrow> string list \<Rightarrow> bytes \<Rightarrow> string + mcp_state" where
  "mcp_main v default_path as input =
     map_sum id (\<lambda>opts. mcp_serve v (mo_control opts) input \<lparr>mc_initialized = False, mc_sent = [], mc_written = []\<rparr>)
       (parse_arguments default_path as)"

subsection \<open>Validated arguments\<close>

lemma validated_field:
  "validate_fields xs ps arg = Inr () \<Longrightarrow> map_of xs k = Some w \<Longrightarrow>
     \<exists>p. json_get k ps = Some p \<and> validate_arguments w p k = Inr ()"
  by (induction xs) (auto simp: and_then_def split: option.splits sum.splits if_splits)

lemma validated_argument:
  assumes "validate_arguments a schema arg = Inr ()" "json_get k a = Some w"
    and "json_get k (json_field ''properties'' schema) = Some p"
  shows "validate_arguments w p k = Inr ()"
proof -
  obtain xs where a: "a = JObject xs" "map_of xs k = Some w" using assms(2) by (cases a) auto
  then have "validate_fields xs (json_field ''properties'' schema) arg = Inr ()"
    using assms(1) by (auto simp: and_then_def split: if_splits option.splits sum.splits)
  from validated_field [OF this a(2)] assms(3) show ?thesis by auto
qed

lemma validated_text:
  assumes "validate_arguments w p k = Inr ()" "json_field ''type'' p = JString ''string''"
  obtains t where "w = JString t" "valid_text p t" "check_choice w p k = Inr ()"
proof (cases w)
  case (JString t)
  with assms that show thesis by (auto simp: valid_scalar_def split: if_splits)
qed (use assms in \<open>auto simp: valid_scalar_def split: if_splits option.splits\<close>)

lemma dash_parts_some: "dash_parts acc s \<noteq> []"
  by (induction s arbitrary: acc) auto

lemma join_dash_parts: "join ''-'' (dash_parts acc s) = rev acc @ s"
proof (induction s arbitrary: acc)
  case (Cons c s)
  obtain p ps where p: "dash_parts [] s = p # ps" using dash_parts_some [of "[]" s] by (cases "dash_parts [] s") auto
  with Cons [of "[]"] have "join ''-'' (p # ps) = s" by simp
  with Cons p show ?case by simp
qed simp

lemma set_join: "set (join sep xs) \<subseteq> set sep \<union> \<Union> (set ` set xs)"
  by (induction sep xs rule: join.induct) auto

lemma slot_char_plain:
  "is_slot_char c \<Longrightarrow> \<not> is_space c \<and> is_ascii_alphanumeric c \<and> to_lower c = c \<and> (of_char c :: nat) < 128"
  by (auto simp: is_slot_char_def is_space_def is_ascii_digit_def is_ascii_alphabetic_def to_lower_def Let_def)

lemma dropWhile_none: "list_all (\<lambda>c. \<not> P c) s \<Longrightarrow> dropWhile P s = s"
  by (cases s) auto

lemma trim_plain: "list_all (\<lambda>c. \<not> is_space c) s \<Longrightarrow> trim s = s"
  by (simp add: trim_def dropWhile_none)

lemma display_text_chars:
  assumes "is_display_text s" shows "list_all (\<lambda>c. c = CHR ''-'' \<or> is_slot_char c) s"
proof -
  have "list_all (\<lambda>p. p \<noteq> [] \<and> list_all is_slot_char p) (dash_parts [] s)"
    using assms by (simp add: is_display_text_def)
  then have "set (join ''-'' (dash_parts [] s)) \<subseteq> {c. c = CHR ''-'' \<or> is_slot_char c}"
    using set_join [of "''-''" "dash_parts [] s"] by (fastforce simp: list_all_iff)
  then show ?thesis by (auto simp: join_dash_parts list_all_iff)
qed

lemma char_count_ascii: "list_all (\<lambda>c. (of_char c :: nat) < 128) s \<Longrightarrow> char_count s = length s"
  by (induction s) (auto simp: char_count_def)

lemma char_count_le: "char_count s \<le> length s"
  by (simp add: char_count_def)

lemma slot_image: "c = CHR ''-'' \<or> is_slot_char c \<Longrightarrow> (if is_ascii_alphanumeric c then to_lower c else CHR ''-'') = c"
  using slot_char_plain [of c] by (auto simp: to_lower_def)

lemma dash_not_space: "\<not> is_space (CHR ''-'')"
  by (simp add: is_space_def)

lemma display_text_canonical:
  assumes "is_display_text s" "1 \<le> char_count s" "char_count s \<le> 64"
  shows "normalize_managed_display_slot s = Inr s \<and> selected (Some s) = Some s"
proof -
  have c: "list_all (\<lambda>c. c = CHR ''-'' \<or> is_slot_char c) s" by (rule display_text_chars [OF assms(1)])
  then have "list_all (\<lambda>c. \<not> is_space c) s" by (rule list.pred_mono_strong) (use dash_not_space slot_char_plain in blast)
  then have t: "trim s = s" by (rule trim_plain)
  have ne: "s \<noteq> []" using assms(2) by (auto simp: char_count_def)
  have m: "map (\<lambda>c. if is_ascii_alphanumeric c then to_lower c else CHR ''-'') s = s"
  proof (rule map_idI)
    fix c assume "c \<in> set s"
    with c have "c = CHR ''-'' \<or> is_slot_char c" by (simp add: list_all_iff)
    then show "(if is_ascii_alphanumeric c then to_lower c else CHR ''-'') = c" by (rule slot_image)
  qed
  have "filter (\<lambda>p. p \<noteq> []) (dash_parts [] s) = dash_parts [] s"
    using assms(1) unfolding is_display_text_def by (intro filter_True) (simp add: list_all_iff)
  with m ne have "display_slot_slug s = s" by (simp add: display_slot_slug_def join_dash_parts)
  with t ne assms(1,3) show ?thesis
    unfolding normalize_managed_display_slot_def selected_def is_display_text_def by (simp add: Let_def)
qed

abbreviation zero_text :: string where
  "zero_text \<equiv> replicate 32 (CHR ''0'')"

lemma lower_hex_plain: "is_lower_hex c \<Longrightarrow> \<not> is_space c \<and> (of_char c :: nat) < 128"
  by (auto simp: is_lower_hex_def is_space_def Let_def)

lemma show_zero: "show_byte 0 = ''00''"
  by code_simp

lemma show_zeros: "concat (map show_byte (replicate n 0)) = replicate (2 * n) (CHR ''0'')"
  by (induction n) (simp_all add: show_zero)

lemma hex_text_named:
  assumes "list_all is_lower_hex s" "length s = 32"
  shows "trim s = s" "s = zero_text \<or> (\<exists>i. profile_id_from_str s = Inr i \<and> s = profile_id_fmt i)"
proof -
  show "trim s = s" using assms(1) by (intro trim_plain) (auto simp: list_all_iff lower_hex_plain)
  obtain bs where bs: "parse_bytes s = Some bs" "length bs = 16" using parse_bytes_lower [OF assms(1)] assms(2) by auto
  have sh: "concat (map show_byte bs) = s" using show_parse_bytes [OF assms(1) _ bs(1)] assms(2) by simp
  show "s = zero_text \<or> (\<exists>i. profile_id_from_str s = Inr i \<and> s = profile_id_fmt i)"
  proof (cases "bs = replicate 16 0")
    case True
    with sh show_zeros [of 16] show ?thesis by simp
  next
    case False
    with bs assms sh show ?thesis
      by (simp add: profile_id_from_str_def is_saved_def UNSAVED_def profile_id_fmt_def)
  qed
qed

subsection \<open>What a tool may ask for\<close>

definition query_request :: "control_request \<Rightarrow> bool" where
  "query_request rq \<longleftrightarrow> rq_command rq \<in> set (''logs'' # snapshot_commands)"

definition action_request :: "control_request \<Rightarrow> bool" where
  "action_request rq \<longleftrightarrow>
     (if rq_command rq \<in> {''check'', ''launch'', ''stop''}
      then (case rq_session rq of None \<Rightarrow> False | Some s \<Rightarrow> list_all is_lower_hex s \<and> length s = 32)
      else if rq_command rq \<in> {''display-create'', ''display-close''}
      then (case rq_session rq of
              None \<Rightarrow> rq_command rq = ''display-create''
            | Some s \<Rightarrow> normalize_managed_display_slot s = Inr s \<and> selected (Some s) = Some s)
      else rq_command rq = ''open-panel'')"

lemma control_data_requests:
  "control_data v command sent = (sent', r) \<Longrightarrow> command \<in> set snapshot_commands \<Longrightarrow>
     \<exists>new. sent' = sent @ new \<and> list_all query_request new"
  by (auto simp: control_data_def query_request_def Let_def)

lemma then_step_requests:
  assumes "then_step m f = (sent', r)"
    and "\<And>s x. m = (s, x) \<Longrightarrow> \<exists>new. s = sent @ new \<and> list_all p new"
    and "\<And>x s sent' r. f x s = (sent', r) \<Longrightarrow> \<exists>new. sent' = s @ new \<and> list_all p new"
  shows "\<exists>new. sent' = sent @ new \<and> list_all p new"
proof -
  obtain s x where m: "m = (s, x)" by (cases m) auto
  with assms(2) obtain a where a: "s = sent @ a" "list_all p a" by blast
  show ?thesis
  proof (cases x)
    case Inl
    with m a assms(1) show ?thesis by (auto simp: then_step_def)
  next
    case (Inr y)
    with m assms(1) have "f y s = (sent', r)" by (simp add: then_step_def)
    with assms(3) obtain b where "sent' = s @ b" "list_all p b" by blast
    with a show ?thesis by auto
  qed
qed

lemma onboarding_requests:
  "onboarding v arguments sent = (sent', r) \<Longrightarrow> \<exists>new. sent' = sent @ new \<and> list_all query_request new"
  unfolding onboarding_def Let_def
  by (erule then_step_requests, erule control_data_requests, simp add: snapshot_commands_def)+ auto

lemma image_sources_requests:
  "image_sources v sent = (sent', r) \<Longrightarrow> \<exists>new. sent' = sent @ new \<and> list_all query_request new"
  unfolding image_sources_def
  by (erule then_step_requests, erule control_data_requests, simp add: snapshot_commands_def) auto

lemma send_control_tool_requests: "send_control_tool v rq sent = (sent', r) \<Longrightarrow> sent' = sent @ [rq]"
  by (simp add: send_control_tool_def)

lemma issue_draft_requests:
  "issue_draft v arguments sent = (sent', r) \<Longrightarrow> \<exists>new. sent' = sent @ new \<and> list_all query_request new"
  by (auto simp: issue_draft_def query_request_def snapshot_commands_def Let_def dest!: send_control_tool_requests
      split: option.splits sum.splits if_splits)

definition control_names :: "string set" where
  "control_names = {''cocoa_way_open_panel'', ''cocoa_way_check'', ''cocoa_way_launch'', ''cocoa_way_stop'',
     ''cocoa_way_display_create'', ''cocoa_way_display_close''}"

lemma plain_query: "map_of plain_queries name = Some c \<Longrightarrow> c \<in> set snapshot_commands"
proof -
  assume "map_of plain_queries name = Some c"
  then have "c \<in> snd ` set plain_queries" by (force dest: map_of_SomeD)
  moreover have "list_all (\<lambda>c. c \<in> set snapshot_commands) (map snd plain_queries)"
    by (simp add: plain_queries_def snapshot_commands_def)
  ultimately show ?thesis by (auto simp: list_all_iff)
qed

lemma control_not_plain: "name \<in> control_names \<Longrightarrow> map_of plain_queries name = None"
  unfolding control_names_def plain_queries_def by (elim insertE emptyE; simp)

lemma tool_request_query:
  assumes "tool_request name arguments = Inr rq" "name \<notin> control_names"
  shows "query_request rq"
proof (cases "map_of plain_queries name")
  case (Some c)
  with assms have "rq_command rq = c" by (auto simp: tool_request_def)
  with Some plain_query show ?thesis by (simp add: query_request_def)
next
  case None
  with assms have "rq_command rq \<in> {''status'', ''tasks'', ''diagnostics'', ''logs''}"
    unfolding tool_request_def control_names_def by (simp split: if_split_asm option.splits) auto
  then show ?thesis by (auto simp: query_request_def snapshot_commands_def)
qed

lemma run_tool_queries:
  assumes "run_tool v name arguments sent = (sent', r)" "name \<notin> control_names"
  shows "\<exists>new. sent' = sent @ new \<and> list_all query_request new"
  using assms unfolding run_tool_def
  by (auto dest: issue_draft_requests onboarding_requests image_sources_requests tool_request_query
      dest!: send_control_tool_requests split: if_splits sum.splits)

lemma query_tools_named: "t \<in> set query_tools \<Longrightarrow> t_name t \<notin> control_names"
  unfolding query_tools_def read_only_tool_def control_names_def by auto

lemma control_tools_named: "map t_name control_tools =
    [''cocoa_way_open_panel'', ''cocoa_way_check'', ''cocoa_way_launch'', ''cocoa_way_stop'', ''cocoa_way_display_create'', ''cocoa_way_display_close'']"
  by (simp add: control_tools_def action_tool_def)

lemma tools_control:
  assumes "find (\<lambda>t. t_name t = name) (tools allow_control) = Some t" "name \<in> control_names"
  shows "allow_control \<and> (\<exists>u \<in> set control_tools. t_name u = name \<and> t_schema t = bound_schema (t_schema u))"
proof -
  from assms(1) have "t \<in> set (tools allow_control)" "t_name t = name"
    by (auto simp: find_Some_iff intro: nth_mem)
  with assms(2) query_tools_named show ?thesis
    by (auto simp: tools_def split: if_splits)
qed

definition profile_property :: json where
  "profile_property = of_type ''string'' [(''minLength'', JNumber ''32''), (''maxLength'', JNumber ''32''), (''pattern'', JString PROFILE_PATTERN)]"

definition display_property :: json where
  "display_property = of_type ''string'' [non_empty_text, (''maxLength'', JNumber ''64''), (''pattern'', JString DISPLAY_PATTERN)]"

lemma profile_tool_schema:
  assumes "u \<in> set control_tools" "t_name u \<in> {''cocoa_way_check'', ''cocoa_way_launch'', ''cocoa_way_stop''}"
  shows "json_get ''profile_id'' (json_field ''properties'' (bound_schema (t_schema u))) = Some profile_property"
proof -
  from assms have "t_schema u = object_schema [(''profile_id'', profile_property)] [''profile_id'']"
    by (auto simp: control_tools_def action_tool_def profile_property_def)
  then show ?thesis by (simp add: object_schema_def profile_property_def of_type_def Let_def)
qed

lemma display_tool_schema:
  assumes "u \<in> set control_tools" "t_name u \<in> {''cocoa_way_display_create'', ''cocoa_way_display_close''}"
  shows "json_get ''name'' (json_field ''properties'' (bound_schema (t_schema u))) = Some display_property"
    and "t_name u = ''cocoa_way_display_close'' \<Longrightarrow> json_field ''required'' (bound_schema (t_schema u)) = JArray [JString ''name'']"
    and "json_field ''type'' (bound_schema (t_schema u)) = JString ''object''"
proof -
  from assms have s: "t_schema u = object_schema [(''name'', display_property)] (if t_name u = ''cocoa_way_display_close'' then [''name''] else [])"
    by (auto simp: control_tools_def action_tool_def display_property_def)
  then show "json_get ''name'' (json_field ''properties'' (bound_schema (t_schema u))) = Some display_property"
    by (simp add: object_schema_def display_property_def of_type_def Let_def)
  show "t_name u = ''cocoa_way_display_close'' \<Longrightarrow> json_field ''required'' (bound_schema (t_schema u)) = JArray [JString ''name'']"
    using s by (simp add: object_schema_def display_property_def of_type_def Let_def)
  show "json_field ''type'' (bound_schema (t_schema u)) = JString ''object''"
    using s by (simp add: object_schema_def display_property_def of_type_def Let_def)
qed

lemma required_present:
  assumes "validate_arguments a schema arg = Inr ()" "json_field ''required'' schema = JArray [JString k]" "json_object a \<noteq> None"
  shows "json_get k a \<noteq> None"
  using assms by (cases a) (auto simp: missing_key_def split: if_splits option.splits)

lemma profile_text_validated:
  assumes "validate_arguments w profile_property k = Inr ()"
  shows "\<exists>s. w = JString s \<and> list_all is_lower_hex s \<and> length s = 32"
proof -
  have "json_field ''type'' profile_property = JString ''string''" by (simp add: profile_property_def of_type_def)
  with assms obtain s where s: "w = JString s" "valid_text profile_property s" by (rule validated_text)
  then have hex: "list_all is_lower_hex s" and n: "char_count s = 32"
    by (simp_all add: valid_text_def bound_of_def profile_property_def of_type_def is_profile_text_def is_ascii_digit_def Let_def)
  have "list_all (\<lambda>c. (of_char c :: nat) < 128) s" using hex by (rule list.pred_mono_strong) (simp add: lower_hex_plain)
  with n have "length s = 32" by (simp add: char_count_ascii)
  with s hex show ?thesis by simp
qed

lemma display_text_validated:
  assumes "validate_arguments w display_property k = Inr ()"
  shows "\<exists>s. w = JString s \<and> normalize_managed_display_slot s = Inr s \<and> selected (Some s) = Some s"
proof -
  have "json_field ''type'' display_property = JString ''string''" by (simp add: display_property_def of_type_def)
  with assms obtain s where s: "w = JString s" "valid_text display_property s" by (rule validated_text)
  then have "is_display_text s" "1 \<le> char_count s" "char_count s \<le> 64"
    by (simp_all add: valid_text_def bound_of_def display_property_def of_type_def is_ascii_digit_def PROFILE_PATTERN_def DISPLAY_PATTERN_def Let_def)
  with s display_text_canonical show ?thesis by blast
qed

lemma run_tool_control:
  "name \<in> control_names \<Longrightarrow> run_tool v name arguments sent =
     (case tool_request name arguments of Inl e \<Rightarrow> (sent, Inl e) | Inr rq \<Rightarrow> send_control_tool v rq sent)"
  by (auto simp: run_tool_def control_names_def)

lemma profile_request:
  assumes "name \<in> {''cocoa_way_check'', ''cocoa_way_launch'', ''cocoa_way_stop''}" "tool_request name arguments = Inr rq"
  shows "rq_command rq \<in> {''check'', ''launch'', ''stop''} \<and> (\<exists>s. json_get ''profile_id'' arguments = Some (JString s) \<and> rq_session rq = Some s)"
proof -
  have "map_of plain_queries name = None" using assms(1) control_not_plain by (auto simp: control_names_def)
  with assms obtain s where s: "json_str (json_field ''profile_id'' arguments) = Some s" "rq_session rq = Some s"
    "rq_command rq \<in> {''check'', ''launch'', ''stop''}"
    by (elim insertE emptyE) (auto simp: tool_request_def split: option.splits)
  from s(1) have "json_get ''profile_id'' arguments = Some (JString s)"
    by (cases arguments) (auto split: option.splits elim: json_str.elims)
  with s show ?thesis by blast
qed

lemma display_request:
  assumes "name \<in> {''cocoa_way_display_create'', ''cocoa_way_display_close''}" "tool_request name arguments = Inr rq"
  shows "rq_command rq = (if name = ''cocoa_way_display_create'' then ''display-create'' else ''display-close'')
    \<and> rq_session rq = json_get_str ''name'' arguments"
proof -
  have "map_of plain_queries name = None" using assms(1) control_not_plain by (auto simp: control_names_def)
  with assms show ?thesis by (elim insertE emptyE) (auto simp: tool_request_def)
qed

lemma panel_request:
  "tool_request ''cocoa_way_open_panel'' arguments = Inr rq \<Longrightarrow> rq_command rq = ''open-panel''"
  using control_not_plain [of "''cocoa_way_open_panel''"] by (auto simp: tool_request_def control_names_def)

lemma control_request_validated:
  assumes u: "u \<in> set control_tools" "t_name u = name"
    and valid: "validate_arguments arguments (bound_schema (t_schema u)) ''arguments'' = Inr ()"
    and rq: "tool_request name arguments = Inr rq"
  shows "action_request rq"
proof -
  have "t_name u \<in> set (map t_name control_tools)" using u(1) by (simp only: set_map image_eqI)
  with u(2) have "name \<in> set (map t_name control_tools)" by simp
  then have "name = ''cocoa_way_open_panel'' \<or> (name = ''cocoa_way_check'' \<or> name = ''cocoa_way_launch'' \<or> name = ''cocoa_way_stop'')
      \<or> (name = ''cocoa_way_display_create'' \<or> name = ''cocoa_way_display_close'')"
    by (simp add: control_tools_named)
  then consider (panel) "name = ''cocoa_way_open_panel''"
    | (is_profile) "name = ''cocoa_way_check'' \<or> name = ''cocoa_way_launch'' \<or> name = ''cocoa_way_stop''"
    | (is_display) "name = ''cocoa_way_display_create'' \<or> name = ''cocoa_way_display_close''"
    by argo
  then show ?thesis
  proof cases
    case panel
    with rq panel_request show ?thesis by (simp add: action_request_def)
  next
    case is_profile
    then have profile: "name \<in> {''cocoa_way_check'', ''cocoa_way_launch'', ''cocoa_way_stop''}" by simp
    from profile_request [OF profile rq] obtain s where s: "rq_command rq \<in> {''check'', ''launch'', ''stop''}"
      "json_get ''profile_id'' arguments = Some (JString s)" "rq_session rq = Some s" by blast
    from u profile have "t_name u \<in> {''cocoa_way_check'', ''cocoa_way_launch'', ''cocoa_way_stop''}" by simp
    from validated_argument [OF valid s(2) profile_tool_schema [OF u(1) this]]
    have "list_all is_lower_hex s \<and> length s = 32" using profile_text_validated by blast
    with s show ?thesis by (simp add: action_request_def)
  next
    case is_display
    then have display: "name \<in> {''cocoa_way_display_create'', ''cocoa_way_display_close''}" by simp
    from u display have named: "t_name u \<in> {''cocoa_way_display_create'', ''cocoa_way_display_close''}" by simp
    note schema = display_tool_schema [OF u(1) named]
    note r = display_request [OF display rq]
    show ?thesis
    proof (cases "json_get ''name'' arguments")
      case None
      have "name \<noteq> ''cocoa_way_display_close''"
      proof
        assume "name = ''cocoa_way_display_close''"
        with schema(2) u have "json_field ''required'' (bound_schema (t_schema u)) = JArray [JString ''name'']" by simp
        from required_present [OF valid this] have "json_object arguments = None" using None by blast
        then have "\<not> valid_scalar arguments (bound_schema (t_schema u))" if "json_field ''type'' (bound_schema (t_schema u)) = JString ''object''"
          using that by (simp add: valid_scalar_def)
        moreover have "json_field ''type'' (bound_schema (t_schema u)) = JString ''object''"
          by (rule display_tool_schema(3) [OF u(1) named])
        ultimately show False using valid by (cases arguments) (auto split: if_splits)
      qed
      with None r display show ?thesis by (auto simp: action_request_def json_get_str_def)
    next
      case (Some w)
      from validated_argument [OF valid this schema(1)] obtain s where
        s: "w = JString s" "normalize_managed_display_slot s = Inr s" "selected (Some s) = Some s"
        using display_text_validated by blast
      with Some r show ?thesis by (simp add: action_request_def json_get_str_def)
    qed
  qed
qed

definition permitted_request :: "bool \<Rightarrow> control_request \<Rightarrow> bool" where
  "permitted_request allow_control rq \<longleftrightarrow> query_request rq \<or> (allow_control \<and> action_request rq)"

lemma call_tool_requests:
  assumes "call_tool v allow_control params sent = (sent', r)"
  shows "\<exists>new. sent' = sent @ new \<and> list_all (permitted_request allow_control) new"
proof (cases "sent' = sent")
  case False
  obtain name arguments t where t: "find (\<lambda>t. t_name t = name) (tools allow_control) = Some t"
    and valid: "validate_arguments arguments (t_schema t) ''arguments'' = Inr ()"
    and run: "run_tool v name arguments sent = (sent', r)"
    using assms False unfolding call_tool_def Let_def
    by (auto simp del: validate_arguments.simps split: option.splits if_split_asm sum.splits)
  show ?thesis
  proof (cases "name \<in> control_names")
    case False
    from run_tool_queries [OF run False] obtain new where "sent' = sent @ new" "list_all query_request new" by blast
    then show ?thesis by (auto simp: list_all_iff permitted_request_def)
  next
    case True
    from tools_control [OF t True] obtain u where u: "allow_control" "u \<in> set control_tools" "t_name u = name"
      "t_schema t = bound_schema (t_schema u)" by blast
    from run run_tool_control [OF True] \<open>sent' \<noteq> sent\<close> obtain rq where rq: "tool_request name arguments = Inr rq"
      "send_control_tool v rq sent = (sent', r)" by (auto split: sum.splits)
    have "action_request rq" using control_request_validated [OF u(2,3) _ rq(1)] valid u(4) by simp
    with u(1) send_control_tool_requests [OF rq(2)] show ?thesis by (simp add: permitted_request_def)
  qed
qed simp

subsection \<open>What the server sends\<close>

definition mcp_ok :: "bool \<Rightarrow> mcp_state \<Rightarrow> bool" where
  "mcp_ok allow_control s \<longleftrightarrow>
     list_all (permitted_request allow_control) (mc_sent s) \<and> (mc_sent s \<noteq> [] \<longrightarrow> mc_initialized s)"

lemma call_response_ok:
  "mcp_ok c s \<Longrightarrow> mc_initialized s \<Longrightarrow> mcp_ok c (snd (call_response v c i params s))"
  using call_tool_requests [of v c params "mc_sent s"]
  by (fastforce simp: mcp_ok_def call_response_def split: prod.split sum.split)

lemma handle_method_ok: "mcp_ok c s \<Longrightarrow> mcp_ok c (snd (handle_method v c m i params s))"
  by (simp add: handle_method_def call_response_ok)

lemma handle_message_ok: "mcp_ok c s \<Longrightarrow> mcp_ok c (snd (handle_message v c m s))"
proof -
  assume ok: "mcp_ok c s"
  then have "mcp_ok c (s\<lparr>mc_initialized := True\<rparr>)" by (simp add: mcp_ok_def)
  with ok handle_method_ok [OF ok, of v] show ?thesis
    by (auto simp: handle_message_def Let_def split: option.split prod.split) (metis snd_conv)+
qed

lemma handle_line_ok: "mcp_ok c s \<Longrightarrow> mcp_ok c (snd (handle_line v c t s))"
  by (simp add: handle_line_def handle_message_ok split: sum.split)

lemma mcp_serve_ok: "mcp_ok c s \<Longrightarrow> mcp_ok c (mcp_serve v c input s)"
proof (induction v c input s rule: mcp_serve.induct)
  case (1 v c input s)
  show ?case
  proof (cases "read_mcp_frame input")
    case (Pair a rest)
    show ?thesis
    proof (cases "\<exists>t. a = Inr (Some t)")
      case False
      with Pair 1 show ?thesis by (subst mcp_serve.simps) (auto split: sum.split option.split)
    next
      case True
      then obtain t where t: "a = Inr (Some t)" ..
      obtain r s' where h: "handle_line v c t s = (r, s')" by (cases "handle_line v c t s")
      from handle_line_ok [OF 1(3), of v t] h have ok: "mcp_ok c s'" by simp
      then have "mcp_ok c (s'\<lparr>mc_written := w\<rparr>)" for w by (simp add: mcp_ok_def)
      with 1 Pair t h ok show ?thesis
        by (subst mcp_serve.simps) (auto split: option.split)
    qed
  qed
qed

lemma parse_options_control:
  "parse_options as socket control = Inr (p, True) \<Longrightarrow> control \<or> ''--allow-control'' \<in> set as"
proof (induction as socket control rule: parse_options.induct)
  case (2 a as socket control)
  then show ?case by (auto split: if_splits list.splits)
qed simp

lemma mcp_main_ok:
  assumes "mcp_main v p as input = Inr s"
  shows "mcp_ok (''--allow-control'' \<in> set as) s"
proof -
  from assms obtain opts where o: "parse_arguments p as = Inr opts"
    "s = mcp_serve v (mo_control opts) input \<lparr>mc_initialized = False, mc_sent = [], mc_written = []\<rparr>"
    by (auto simp: mcp_main_def map_sum_def split: sum.splits)
  then have "mcp_ok (mo_control opts) s" using mcp_serve_ok [of "mo_control opts"] by (simp add: mcp_ok_def)
  moreover have "mo_control opts \<Longrightarrow> ''--allow-control'' \<in> set as"
    using o(1) parse_options_control [of as None False]
    by (cases "parse_options as None False") (auto simp: parse_arguments_def)
  ultimately show ?thesis by (auto simp: mcp_ok_def list_all_iff permitted_request_def)
qed

subsection \<open>What the event loop gets\<close>

text \<open>The message names what the selector of the request spells out.\<close>

fun named_by :: "string option \<Rightarrow> control_message \<Rightarrow> bool" where
  "named_by sel (StopContainerSession i) \<longleftrightarrow> sel = Some (profile_id_fmt i) \<or> sel = Some zero_text"
| "named_by sel (CheckContainerSession i) \<longleftrightarrow> sel = Some (profile_id_fmt i) \<or> sel = Some zero_text"
| "named_by sel (StartContainerSessionIfCurrent t) \<longleftrightarrow> sel = Some (profile_id_fmt (pt_id t)) \<or> sel = Some zero_text"
| "named_by sel (CreateManagedDisplay d) \<longleftrightarrow> sel = d"
| "named_by sel (CloseManagedDisplay d) \<longleftrightarrow> sel = Some d"
| "named_by sel (OpenPanel page) \<longleftrightarrow>
     text_or ''applications'' sel = (case page of Applications \<Rightarrow> ''applications'' | Displays \<Rightarrow> ''displays'' | Diagnostics \<Rightarrow> ''diagnostics'')"

lemma known_commands: "permitted_request a rq \<Longrightarrow> rq_command rq \<in>
   set (''logs'' # snapshot_commands @ [''check'', ''launch'', ''stop'', ''display-create'', ''display-close'', ''open-panel''])"
  by (auto simp: permitted_request_def query_request_def action_request_def split: if_splits)

lemma known_commands_plain:
  "list_all (\<lambda>c. to_ascii_lowercase (trim c) = c)
     (''logs'' # snapshot_commands @ [''check'', ''launch'', ''stop'', ''display-create'', ''display-close'', ''open-panel''])"
  by code_simp

lemma permitted_command: "permitted_request a rq \<Longrightarrow> to_ascii_lowercase (trim (rq_command rq)) = rq_command rq"
  using known_commands known_commands_plain unfolding list_all_iff by blast

lemma query_answered: "query_request rq \<Longrightarrow> command_plan e (rq_command rq) rq \<noteq> Some (Queue m d)"
  by (auto simp: query_request_def command_plan_def split: sum.splits prod.splits)

lemma resolve_given:
  assumes "resolve_session config (Some s) = Inr (k, x)" "list_all is_lower_hex s" "length s = 32"
  shows "s = profile_id_fmt (cs_id x) \<or> s = zero_text"
proof -
  note named = hex_text_named [OF assms(2,3)]
  obtain sessions where r: "resolve_session_in (Some s) sessions = Inr (k, x)"
    using assms(1) by (auto simp: resolve_session_def and_then_def split: sum.splits if_splits)
  show ?thesis
  proof (cases "s = zero_text")
    case False
    with named(2) obtain i where i: "profile_id_from_str s = Inr i" "s = profile_id_fmt i" by blast
    moreover have "s \<noteq> []" using assms(3) by auto
    ultimately have "enumerate_find (\<lambda>x. cs_id x = i) sessions = Some (k, x)"
      using r named(1) by (auto simp: resolve_session_in_def selected_def ok_or_def split: option.splits)
    then have "cs_id x = i" by (auto dest!: enumerate_find_Some)
    with i show ?thesis by simp
  qed simp
qed

lemma stop_given:
  assumes "stop_profile_id (Some s) (resolve_session config) = Inr i" "list_all is_lower_hex s" "length s = 32"
  shows "s = profile_id_fmt i \<or> s = zero_text"
proof (cases "s = zero_text")
  case False
  with hex_text_named [OF assms(2,3)] obtain j where "trim s = s" "profile_id_from_str s = Inr j" "s = profile_id_fmt j" by blast
  with assms(1) show ?thesis by (simp add: stop_profile_id_def)
qed simp

lemma action_named:
  assumes "action_request rq" "command_plan e (rq_command rq) rq = Some (Queue m d)"
  shows "named_by (rq_session rq) m"
proof (cases "rq_command rq \<in> {''check'', ''launch'', ''stop''}")
  case True
  with assms(1) obtain s where s: "rq_session rq = Some s" "list_all is_lower_hex s" "length s = 32"
    by (auto simp: action_request_def split: option.splits)
  have q: "queue_session_command e (rq_command rq) (Some s) = Some (Queue m d)"
    using True assms(2) s(1) by (auto simp: command_plan_def snapshot_commands_def)
  show ?thesis
    using q s(1) resolve_given [OF _ s(2,3)] stop_given [OF _ s(2,3)]
    by (fastforce simp: queue_session_command_def session_command_message_def capture_target_def split: if_splits sum.splits)
next
  case False
  show ?thesis
  proof (cases "rq_command rq \<in> {''display-create'', ''display-close''}")
    case True
    then have "queue_display_command (rq_command rq) (rq_session rq) = Some (Queue m d)"
      using assms(2) by (auto simp: command_plan_def snapshot_commands_def)
    with True assms(1) show ?thesis
      by (auto simp: queue_display_command_def action_request_def selected_def split: option.splits if_splits sum.splits)
  next
    case other: False
    with False assms(1) have "rq_command rq = ''open-panel''" by (auto simp: action_request_def)
    with assms show ?thesis
      by (auto simp: command_plan_def snapshot_commands_def queue_panel_command_def action_request_def text_or_def Let_def split: if_splits option.splits)
  qed
qed


lemma hex_text_valid:
  assumes "list_all is_lower_hex i" "length i = 32"
  shows "validate_arguments (JString i) profile_property ''profile_id'' = Inr ()"
proof -
  have "char_count i = 32" using assms char_count_ascii [of i] lower_hex_plain by (simp add: list_all_iff)
  moreover have "CHR 0x00 \<notin> set i" using assms(1) by (auto simp: list_all_iff is_lower_hex_def)
  ultimately have "valid_text profile_property i" using assms(1)
    by (simp add: valid_text_def bound_of_def profile_property_def of_type_def is_profile_text_def PROFILE_PATTERN_def DISPLAY_PATTERN_def
        is_ascii_digit_def Let_def)
  then show ?thesis by (simp add: valid_scalar_def check_choice_def profile_property_def of_type_def)
qed

text \<open>
  The all-zero text passes the validation of the profile tools although it is no identity, and
  the socket takes it for the index of the first configured profile.
\<close>

lemma index_selected:
  assumes "selected (Some s) = Some s" "profile_id_from_str s = Inl err" "parse_usize s = Some 0"
    and "\<not> list_ex (\<lambda>x. eq_ignore_ascii_case (cs_name x) s) sessions" "sessions \<noteq> []"
  shows "resolve_session_in (Some s) sessions = Inr (0, hd sessions)"
proof -
  have "filter (\<lambda>x. eq_ignore_ascii_case (cs_name x) s) sessions = []"
    using assms(4) by (auto simp: list_ex_iff filter_empty_conv)
  moreover have "position (\<lambda>x. eq_ignore_ascii_case (cs_name x) s) sessions = None"
    using assms(4) by (auto simp: list_ex_iff position_None_iff list_all_iff)
  ultimately show ?thesis
    using assms by (simp add: resolve_session_in_def enumerate_find_def hd_conv_nth)
qed

lemma zero_hex: "list_all is_lower_hex zero_text" "list_all is_ascii_digit zero_text" "CHR 0x00 \<notin> set zero_text"
  by (simp_all add: list_all_iff is_lower_hex_def is_ascii_digit_def)

lemma zero_number: "foldl (\<lambda>n c. 10 * n + (of_char c - 48)) (0 :: nat) (replicate k (CHR ''0'')) = 0"
  by (induction k) simp_all

lemma zero_facts:
  "selected (Some zero_text) = Some zero_text" "profile_id_from_str zero_text = Inl AllZeroReserved" "parse_usize zero_text = Some 0"
proof -
  show "selected (Some zero_text) = Some zero_text"
    using hex_text_named(1) [OF zero_hex(1)] by (simp add: selected_def)
  have "parse_bytes zero_text = Some (replicate 16 0)"
    using parse_bytes_show [of "replicate 16 0"] show_zeros [of 16] by simp
  with zero_hex(1) show "profile_id_from_str zero_text = Inl AllZeroReserved"
    by (simp add: profile_id_from_str_def is_saved_def UNSAVED_def)
  have "zero_text = CHR ''0'' # replicate 31 (CHR ''0'')" by (simp add: numeral_eq_Suc)
  then have "(case zero_text of c # rest \<Rightarrow> if c = CHR ''+'' then rest else zero_text | [] \<Rightarrow> []) = zero_text" by simp
  with zero_hex(2) zero_number [of 32] show "parse_usize zero_text = Some 0"
    unfolding parse_usize_def Let_def by simp
qed

text \<open>
  C22: the all-zero text passes the validation of the profile tools although it is no identity,
  and the control socket then takes it for the index of the first configured profile, unless some
  profile has it as its name.
\<close>

theorem zero_text_selects_first:
  "validate_arguments (JString zero_text) profile_property ''profile_id'' = Inr ()
   \<and> profile_id_from_str zero_text = Inl AllZeroReserved
   \<and> (sessions = [] \<or> list_ex (\<lambda>x. eq_ignore_ascii_case (cs_name x) zero_text) sessions
      \<or> resolve_session_in (Some zero_text) sessions = Inr (0, hd sessions))"
proof (intro conjI)
  show "validate_arguments (JString zero_text) profile_property ''profile_id'' = Inr ()"
    by (rule hex_text_valid) (simp_all add: zero_hex)
  show "sessions = [] \<or> list_ex (\<lambda>x. eq_ignore_ascii_case (cs_name x) zero_text) sessions
      \<or> resolve_session_in (Some zero_text) sessions = Inr (0, hd sessions)"
    using index_selected [OF zero_facts] by blast
qed (fact zero_facts(2))

text \<open>The tools do work: with the option a launch is sent for every identity, without it none is.\<close>

abbreviation launch_arguments :: "string \<Rightarrow> json" where
  "launch_arguments i \<equiv> JObject [(''profile_id'', JString i)]"

abbreviation launch_call :: "string \<Rightarrow> json" where
  "launch_call i \<equiv> JObject [(''name'', JString ''cocoa_way_launch''), (''arguments'', launch_arguments i)]"

lemma launch_tool: "map_option t_schema (find (\<lambda>t. t_name t = ''cocoa_way_launch'') (tools allow_control)) =
   (if allow_control then Some (bound_schema (object_schema [(''profile_id'', profile_property)] [''profile_id''])) else None)"
  by (simp add: tools_def query_tools_def control_tools_def read_only_tool_def action_tool_def profile_property_def)

lemma launch_valid:
  assumes "list_all is_lower_hex i" "length i = 32"
  shows "validate_arguments (launch_arguments i) (bound_schema (object_schema [(''profile_id'', profile_property)] [''profile_id''])) ''arguments'' = Inr ()"
  using hex_text_valid [OF assms]
  by (simp add: object_schema_def profile_property_def of_type_def valid_scalar_def missing_key_def check_choice_def Let_def and_then_def)

lemma launch_sent:
  assumes "list_all is_lower_hex i" "length i = 32" "m_length v (launch_arguments i) \<le> 16 * 1024"
  shows "fst (call_tool v allow_control (launch_call i) sent) =
    sent @ (if allow_control then [\<lparr>rq_command = ''launch'', rq_session = Some i, rq_limit = 100\<rparr>] else [])"
proof (cases allow_control)
  case True
  with launch_tool [of True] obtain t where t: "find (\<lambda>t. t_name t = ''cocoa_way_launch'') (tools True) = Some t"
    "t_schema t = bound_schema (object_schema [(''profile_id'', profile_property)] [''profile_id''])" by auto
  have "tool_request ''cocoa_way_launch'' (launch_arguments i) = Inr \<lparr>rq_command = ''launch'', rq_session = Some i, rq_limit = 100\<rparr>"
    using control_not_plain [of "''cocoa_way_launch''"] by (simp add: tool_request_def control_names_def)
  with True t assms(3) launch_valid [OF assms(1,2)] show ?thesis
    by (simp add: call_tool_def json_get_str_def run_tool_def send_control_tool_def Let_def del: validate_arguments.simps)
next
  case False
  with launch_tool [of False] show ?thesis by (simp add: call_tool_def json_get_str_def Let_def)
qed
subsection \<open>The generated command\<close>

lemma shell_quote_single: "shell_quote v = shell_single_quote v"
  by (simp add: shell_quote_def shell_single_quote_def)

lemma read_quoted_on: "shell_read False (Some w) (shell_single_quote v @ r) = shell_read False (Some (w @ v)) r"
  by (simp add: shell_single_quote_def read_quoted)

lemma decimal_plain: "decimal n \<noteq> []" "list_all plain_char (decimal n)"
proof -
  show "decimal n \<noteq> []" by (subst decimal.simps) simp
  show "list_all plain_char (decimal n)" using decimal_digits [of _ n] by (auto simp: list_all_iff plain_char_def)
qed

lemma fixed_words_plain:
  "list_all plain_char ''COCOA_WAY_COMPRESS=''" "list_all plain_char ''./run_waypipe.sh''" "list_all plain_char ''--display''"
  "list_all plain_char ''ssh''" "list_all plain_char ''-p''" "list_all plain_char ''-i''" "list_all plain_char ''--socket''"
  "list_all plain_char ''client''"
  by (simp_all add: plain_char_def is_ascii_alphabetic_def)

lemma read_last: "shell_read False None (shell_single_quote v) = Some [v]"
  using read_single_quoted [of v "[]"] by simp

lemmas read_words = read_last read_word read_single_quoted read_quoted_on read_blank fixed_words_plain decimal_plain

lemma shell_tail:
  "shell_read False (Some w) (CHR 0x20 # shell_single_quote target @ CHR 0x20 # shell_single_quote command) = Some [w, target, command]"
  by (simp only: read_words option.map)

lemma ssh_command_words:
  assumes "ssh_command v arguments compression display command = Inr (own, c)"
  shows "shell_words c = Some
    ([''COCOA_WAY_COMPRESS='' @ compression, ''./run_waypipe.sh'', ''--display'', display, ''ssh'', ''-p'',
      decimal (case Option.bind (json_get ''port'' arguments) json_u64 of None \<Rightarrow> 22 | Some n \<Rightarrow> n)]
     @ (case optional_text arguments ''identity'' of None \<Rightarrow> [] | Some i \<Rightarrow> [''-i'', i])
     @ [(case optional_text arguments ''user'' of None \<Rightarrow> [] | Some u \<Rightarrow> u @ ''@'') @ text_or [] (optional_text arguments ''host''), command])"
proof -
  define port where "port = (case Option.bind (json_get ''port'' arguments) json_u64 of None \<Rightarrow> 22 | Some n \<Rightarrow> n)"
  define target where "target = (case optional_text arguments ''user'' of None \<Rightarrow> [] | Some u \<Rightarrow> u @ ''@'') @ text_or [] (optional_text arguments ''host'')"
  define rest where "rest = (case optional_text arguments ''identity'' of None \<Rightarrow> [] | Some i \<Rightarrow> CHR 0x20 # ''-i'' @ CHR 0x20 # shell_single_quote i)
    @ CHR 0x20 # shell_single_quote target @ CHR 0x20 # shell_single_quote command"
  have "c = ''COCOA_WAY_COMPRESS='' @ shell_single_quote compression @ CHR 0x20 # ''./run_waypipe.sh'' @ CHR 0x20 # ''--display''
      @ CHR 0x20 # shell_single_quote display @ CHR 0x20 # ''ssh'' @ CHR 0x20 # ''-p'' @ CHR 0x20 # decimal port @ rest"
    using assms by (auto simp: ssh_command_def required_text_def ok_or_def and_then_def port_def target_def rest_def shell_quote_single
        text_or_def Let_def split: option.splits sum.splits if_splits)
  moreover have "shell_read False (Some w) rest = Some (w # (case optional_text arguments ''identity'' of None \<Rightarrow> [] | Some i \<Rightarrow> [''-i'', i]) @ [target, command])" for w
  proof (cases "optional_text arguments ''identity''")
    case None
    then show ?thesis using shell_tail [of w target command] by (simp add: rest_def)
  next
    case (Some i)
    have "shell_read False (Some w) (CHR 0x20 # ''-i'' @ CHR 0x20 # shell_single_quote i @ CHR 0x20 # shell_single_quote target @ CHR 0x20 # shell_single_quote command)
        = Some [w, ''-i'', i, target, command]"
      by (simp only: read_words list.distinct not_Cons_self option.map not_False_eq_True)
    with Some show ?thesis by (simp add: rest_def)
  qed
  ultimately show ?thesis
    unfolding shell_words_def port_def [symmetric] target_def [symmetric]
    by (simp only: read_words list.distinct not_Cons_self option.map not_False_eq_True) simp
qed

lemma local_command_words:
  assumes "local_command v arguments display = Inr (own, c)"
  shows "shell_words c = Some [''./run_waypipe.sh'', ''--display'', display, ''--socket'', text_or [] (optional_text arguments ''socket''), ''client'']"
proof -
  define socket where "socket = text_or [] (optional_text arguments ''socket'')"
  have "c = ''./run_waypipe.sh'' @ CHR 0x20 # ''--display'' @ CHR 0x20 # shell_single_quote display @ CHR 0x20 # ''--socket''
      @ CHR 0x20 # shell_single_quote socket @ CHR 0x20 # ''client'' @ []"
    using assms by (auto simp: local_command_def required_text_def ok_or_def and_then_def socket_def shell_quote_single text_or_def
        split: option.splits)
  then show ?thesis
    unfolding shell_words_def socket_def [symmetric]
    by (simp only: read_words list.distinct not_Cons_self option.map option.case shell_read.simps(3) not_False_eq_True)
qed

text \<open>
  C23: the shell reads the command generated for a connection as the wrapper with exactly the
  display, the port, the identity, the target and the application of the arguments as one word
  each, whatever characters they hold.
\<close>

theorem connection_command_exact:
  "case connection_template v arguments of
     Inl _ \<Rightarrow> True
   | Inr r \<Rightarrow>
       (let given = optional_text arguments; kind = text_or ''ssh'' (given ''type'');
            command = text_or ''foot'' (given ''command''); display = text_or ''default'' (given ''display'');
            compression = text_or ''zstd'' (given ''compression'')
        in case json_field ''run_waypipe'' (json_field ''structuredContent'' r) of
          JString c \<Rightarrow> shell_words c = Some
             (if kind = ''ssh'' then
                [''COCOA_WAY_COMPRESS='' @ compression, ''./run_waypipe.sh'', ''--display'', display, ''ssh'', ''-p'',
                 decimal (case Option.bind (json_get ''port'' arguments) json_u64 of None \<Rightarrow> 22 | Some n \<Rightarrow> n)]
                @ (case given ''identity'' of None \<Rightarrow> [] | Some i \<Rightarrow> [''-i'', i])
                @ [(case given ''user'' of None \<Rightarrow> [] | Some u \<Rightarrow> u @ ''@'') @ text_or [] (given ''host''), command]
              else [''./run_waypipe.sh'', ''--display'', display, ''--socket'', text_or [] (given ''socket''), ''client''])
        | _ \<Rightarrow> False)"
proof (cases "connection_template v arguments")
  case (Inr r)
  then obtain own c where
    c: "(if text_or ''ssh'' (optional_text arguments ''type'') = ''ssh''
         then ssh_command v arguments (text_or ''zstd'' (optional_text arguments ''compression''))
                (text_or ''default'' (optional_text arguments ''display'')) (text_or ''foot'' (optional_text arguments ''command''))
         else local_command v arguments (text_or ''default'' (optional_text arguments ''display''))) = Inr (own, c)"
    and "json_field ''run_waypipe'' (json_field ''structuredContent'' r) = JString c"
    unfolding connection_template_def Let_def guided_result_def content_result_def
    by (auto simp: and_then_def split: sum.splits if_split_asm prod.splits)
  with Inr show ?thesis
    by (simp add: Let_def ssh_command_words local_command_words split: if_splits)
qed simp

end
