(* ===== verification/Scene_Tree.thy ===== *)
theory Scene_Tree
  imports Prelude Complex_Main "HOL-Library.Multiset"
begin

text \<open>
  The scene of the compositor: trees of surfaces, where each surface lies, in which order they are
  drawn and which one is under the pointer (\<open>presentation.rs\<close>, \<open>render_geometry.rs\<close>, and the
  traversal of surface trees in \<open>vendor/smithay\<close>). Lengths on the output are real numbers: the
  rounding of 64-bit floating point is left out. Positions on the desktop are 32-bit integers.
\<close>

subsection \<open>Points\<close>

type_synonym sid = nat
type_synonym point = "int \<times> int"

definition in_i32 :: "int \<Rightarrow> bool" where
  "in_i32 z \<longleftrightarrow> - (2 ^ 31) \<le> z \<and> z < 2 ^ 31"

definition wrap_i32 :: "int \<Rightarrow> int" where
  "wrap_i32 z = (z + 2 ^ 31) mod 2 ^ 32 - 2 ^ 31"

definition saturate_i32 :: "int \<Rightarrow> int" where
  "saturate_i32 z = max (- (2 ^ 31)) (min (2 ^ 31 - 1) z)"

definition checked_location_sum :: "point \<Rightarrow> point \<Rightarrow> point option" where
  "checked_location_sum l r =
     (if in_i32 (fst l + fst r) \<and> in_i32 (snd l + snd r) then Some (fst l + fst r, snd l + snd r) else None)"

text \<open>The sum that drawing uses wraps in a release build.\<close>

definition location_sum :: "point \<Rightarrow> point \<Rightarrow> point" where
  "location_sum l r = (wrap_i32 (fst l + fst r), wrap_i32 (snd l + snd r))"

lemma wrap_in: "in_i32 z \<Longrightarrow> wrap_i32 z = z"
  by (simp add: in_i32_def wrap_i32_def)

lemma checked_sum: "checked_location_sum l r = Some p \<Longrightarrow> location_sum l r = p"
  by (auto simp: checked_location_sum_def location_sum_def wrap_in split: if_splits)

subsection \<open>Regions and the size of a surface\<close>

datatype region_kind = RegionAdd | RegionSubtract

type_synonym region = "(region_kind \<times> int \<times> int \<times> int \<times> int) list"

definition rect_contains :: "int \<times> int \<times> int \<times> int \<Rightarrow> point \<Rightarrow> bool" where
  "rect_contains r p =
     (case r of (x, y, w, h) \<Rightarrow> x \<le> fst p \<and> fst p < saturate_i32 (x + w) \<and> y \<le> snd p \<and> snd p < saturate_i32 (y + h))"

definition region_contains :: "region \<Rightarrow> point \<Rightarrow> bool" where
  "region_contains rects p = fold (\<lambda>(kind, r) b. if rect_contains r p then kind = RegionAdd else b) rects False"

datatype transform = Normal | Rot90 | Rot180 | Rot270 | Flipped | Flipped90 | Flipped180 | Flipped270

definition transform_size :: "transform \<Rightarrow> real \<times> real \<Rightarrow> real \<times> real" where
  "transform_size tr s = (if tr \<in> {Rot90, Rot270, Flipped90, Flipped270} then (snd s, fst s) else s)"

record surface_mapping =
  sm_scale :: int
  sm_transform :: transform
  sm_source :: "(real \<times> real \<times> real \<times> real) option"
  sm_destination :: "point option"

definition mapping_source :: "surface_mapping \<Rightarrow> int \<times> int \<Rightarrow> ((real \<times> real \<times> real \<times> real) \<times> real \<times> real) option" where
  "mapping_source m b =
     (if fst b \<le> 0 \<or> snd b \<le> 0 then None
      else
        (let scale = real_of_int (max 1 (sm_scale m));
             turned = transform_size (sm_transform m) (real_of_int (fst b), real_of_int (snd b));
             area = (fst turned / scale, snd turned / scale);
             src = (case sm_source m of None \<Rightarrow> (0, 0, fst area, snd area) | Some r \<Rightarrow> r)
         in case src of (x, y, w, h) \<Rightarrow>
              if x < 0 \<or> y < 0 \<or> w \<le> 0 \<or> h \<le> 0 \<or> fst area < x + w \<or> snd area < y + h
                 \<or> (sm_destination m = None \<and> sm_source m \<noteq> None \<and> (frac w \<noteq> 0 \<or> frac h \<noteq> 0))
              then None else Some (src, area)))"

definition logical_size :: "surface_mapping \<Rightarrow> int \<times> int \<Rightarrow> (real \<times> real) option" where
  "logical_size m b =
     (case mapping_source m b of
        None \<Rightarrow> None
      | Some ((_, _, w, h), _) \<Rightarrow>
          (let s = (case sm_destination m of None \<Rightarrow> (w, h) | Some d \<Rightarrow> (real_of_int (fst d), real_of_int (snd d)))
           in if 0 < fst s \<and> 0 < snd s then Some s else None))"

definition surface_logical_size :: "int \<times> int \<Rightarrow> surface_mapping \<Rightarrow> real \<times> real" where
  "surface_logical_size b m = (case logical_size m b of None \<Rightarrow> (0, 0) | Some s \<Rightarrow> s)"

subsection \<open>Surfaces and trees of surfaces\<close>

datatype assignment = NewBuffer nat | RemovedBuffer

datatype damage = BufferDamage "int \<times> int \<times> int \<times> int" | SurfaceDamage "int \<times> int \<times> int \<times> int"

record surface =
  su_offset :: point
  su_mapping :: surface_mapping
  su_input :: "region option"
  su_buffer :: "assignment option"
  su_damage :: "damage list"

text \<open>
  The children of a surface from the farthest to the nearest; \<open>None\<close> is the place of the surface
  itself among them.
\<close>

datatype tree = Tree (tree_root: sid) "tree option list"

datatype 't traversal = DoChildren 't | SkipChildren | BreakTraversal

lemma size_list_rev: "size_list f (rev xs) = size_list f xs"
  by (induction xs) auto

text \<open>\<open>with_surface_tree_upward\<close> and \<open>with_surface_tree_downward\<close>: a filter, what is done, and whether to go on.\<close>

function map_tree :: "(sid \<Rightarrow> 't \<Rightarrow> 's \<Rightarrow> 't traversal) \<Rightarrow> (sid \<Rightarrow> 't \<Rightarrow> 's \<Rightarrow> 's) \<Rightarrow> (sid \<Rightarrow> 't \<Rightarrow> 's \<Rightarrow> bool) \<Rightarrow> bool
    \<Rightarrow> tree \<Rightarrow> 't \<Rightarrow> 's \<Rightarrow> bool \<times> 's"
  and map_children :: "(sid \<Rightarrow> 't \<Rightarrow> 's \<Rightarrow> 't traversal) \<Rightarrow> (sid \<Rightarrow> 't \<Rightarrow> 's \<Rightarrow> 's) \<Rightarrow> (sid \<Rightarrow> 't \<Rightarrow> 's \<Rightarrow> bool) \<Rightarrow> bool
    \<Rightarrow> sid \<Rightarrow> tree option list \<Rightarrow> 't \<Rightarrow> 't \<Rightarrow> 's \<Rightarrow> bool \<times> 's" where
  "map_tree filt proc post down (Tree i cs) t s =
     (case filt i t s of
        DoChildren t' \<Rightarrow>
          (case map_children filt proc post down i (if down then rev cs else cs) t t' s of
             (False, s') \<Rightarrow> (False, s')
           | (True, s') \<Rightarrow> (post i t s', s'))
      | SkipChildren \<Rightarrow> (True, proc i t s)
      | BreakTraversal \<Rightarrow> (False, s))"
| "map_children filt proc post down i [] t t' s = (True, s)"
| "map_children filt proc post down i (None # cs) t t' s = map_children filt proc post down i cs t t' (proc i t s)"
| "map_children filt proc post down i (Some c # cs) t t' s =
     (case map_tree filt proc post down c t' s of
        (False, s') \<Rightarrow> (False, s')
      | (True, s') \<Rightarrow> map_children filt proc post down i cs t t' s')"
  by pat_completeness auto
termination
  by (relation "measure (\<lambda>x. case x of Inl (_, _, _, _, tr, _, _) \<Rightarrow> size tr
                                     | Inr (_, _, _, _, _, cs, _, _, _) \<Rightarrow> size_list (size_option size) cs)")
     (auto simp: size_list_rev)

declare map_tree.simps [simp del]

text \<open>What an upward traversal visits, when it descends everywhere with \<open>down\<close> for the value of a child.\<close>

fun flat :: "(sid \<Rightarrow> 't \<Rightarrow> 't) \<Rightarrow> tree \<Rightarrow> 't \<Rightarrow> (sid \<times> 't) list"
  and flat_children :: "(sid \<Rightarrow> 't \<Rightarrow> 't) \<Rightarrow> sid \<Rightarrow> tree option list \<Rightarrow> 't \<Rightarrow> 't \<Rightarrow> (sid \<times> 't) list" where
  "flat g (Tree i cs) t = flat_children g i cs t (g i t)"
| "flat_children g i [] t t' = []"
| "flat_children g i (None # cs) t t' = (i, t) # flat_children g i cs t t'"
| "flat_children g i (Some c # cs) t t' = flat g c t' @ flat_children g i cs t t'"

lemma map_tree_upward:
  assumes "\<And>i t s. I s \<Longrightarrow> filt i t s = DoChildren (g i t)" and "\<And>i t s. I s \<Longrightarrow> I (proc i t s)"
  shows "I s \<Longrightarrow> I (fold (\<lambda>(i, t). proc i t) (flat g tr t) s) \<and>
      map_tree filt proc (\<lambda>i t s. True) False tr t s = (True, fold (\<lambda>(i, t). proc i t) (flat g tr t) s)"
    and "I s \<Longrightarrow> I (fold (\<lambda>(i, t). proc i t) (flat_children g i cs t t') s) \<and>
      map_children filt proc (\<lambda>i t s. True) False i cs t t' s = (True, fold (\<lambda>(i, t). proc i t) (flat_children g i cs t t') s)"
  using assms
proof (induction g tr t and g i cs t t' arbitrary: s and s rule: flat_flat_children.induct)
  case (1 g i cs t)
  from 1(1) [OF 1(2-4)] 1(2,3) show ?case by (simp add: map_tree.simps)
next
  case (4 g i c cs t t')
  from 4(1) [OF 4(3-5)] 4(2) [OF _ 4(4,5)] show ?case by simp
qed simp_all

text \<open>A downward traversal that stops at the first hit finds the last of them.\<close>

lemma map_children_append:
  "map_children filt proc post down i (xs @ ys) t t' s =
     (case map_children filt proc post down i xs t t' s of
        (False, s') \<Rightarrow> (False, s') | (True, s') \<Rightarrow> map_children filt proc post down i ys t t' s')"
proof (induction xs arbitrary: s)
  case (Cons x xs)
  then show ?case by (cases x) (auto simp: map_tree.simps split: prod.split bool.split)
qed (simp add: map_tree.simps)

text \<open>Every position that is computed on the way down fits.\<close>

fun tree_fits :: "(sid \<Rightarrow> 't \<Rightarrow> 't option) \<Rightarrow> tree \<Rightarrow> 't \<Rightarrow> bool"
  and children_fit :: "(sid \<Rightarrow> 't \<Rightarrow> 't option) \<Rightarrow> tree option list \<Rightarrow> 't \<Rightarrow> bool" where
  "tree_fits g (Tree i cs) t = (case g i t of None \<Rightarrow> False | Some t' \<Rightarrow> children_fit g cs t')"
| "children_fit g [] t = True"
| "children_fit g (None # cs) t = children_fit g cs t"
| "children_fit g (Some c # cs) t = (tree_fits g c t \<and> children_fit g cs t)"

definition hit_filter :: "(sid \<Rightarrow> 't \<Rightarrow> 't option) \<Rightarrow> sid \<Rightarrow> 't \<Rightarrow> 'h option \<Rightarrow> 't traversal" where
  "hit_filter g i t s = (if s \<noteq> None then BreakTraversal else case g i t of Some t' \<Rightarrow> DoChildren t' | None \<Rightarrow> SkipChildren)"

definition hit_process :: "(sid \<Rightarrow> 't \<Rightarrow> 'h option) \<Rightarrow> sid \<Rightarrow> 't \<Rightarrow> 'h option \<Rightarrow> 'h option" where
  "hit_process test i t s = (if s \<noteq> None then s else test i t)"

lemma hit_process_simps: "hit_process test i t None = test i t" "hit_process test i t (Some y) = Some y"
  by (simp_all add: hit_process_def)

lemma map_tree_done: "s \<noteq> None \<Longrightarrow> map_tree (hit_filter g) p q down tr t s = (False, s)"
  by (cases tr) (simp add: map_tree.simps hit_filter_def)

lemma map_tree_hit:
  fixes test :: "sid \<Rightarrow> 't \<Rightarrow> 'h option"
  shows "tree_fits g tr t \<Longrightarrow>
      map_tree (hit_filter g) (hit_process test) (\<lambda>i t s. s = None) True tr t None = 
        (find_map (\<lambda>(i, t). test i t) (rev (flat (\<lambda>i t. the (g i t)) tr t)) = None,
         find_map (\<lambda>(i, t). test i t) (rev (flat (\<lambda>i t. the (g i t)) tr t)))"
    and "children_fit g cs t' \<Longrightarrow>
      (\<exists>b. map_children (hit_filter g) (hit_process test) (\<lambda>i t s. s = None) True i (rev cs) t t' None
         = (b, find_map (\<lambda>(i, t). test i t) (rev (flat_children (\<lambda>i t. the (g i t)) i cs t t')))
        \<and> (b \<or> find_map (\<lambda>(i, t). test i t) (rev (flat_children (\<lambda>i t. the (g i t)) i cs t t')) \<noteq> None))"
proof (induction g tr t and g cs t' arbitrary: and i t rule: tree_fits_children_fit.induct)
  case (1 g i cs t)
  then obtain t' where t': "g i t = Some t'" "children_fit g cs t'" by (auto split: option.splits)
  from 1(1) [OF t', of i t] show ?case
    using t'(1) by (auto simp: map_tree.simps hit_filter_def split: bool.split)
next
  case (2 g t)
  show ?case by (rule exI [of _ True]) (simp add: map_tree.simps)
next
  case (3 g cs t')
  then obtain b where "map_children (hit_filter g) (hit_process test) (\<lambda>i t s. s = None) True i (rev cs) t t' None
      = (b, find_map (\<lambda>(i, t). test i t) (rev (flat_children (\<lambda>i t. the (g i t)) i cs t t')))"
    "b \<or> find_map (\<lambda>(i, t). test i t) (rev (flat_children (\<lambda>i t. the (g i t)) i cs t t')) \<noteq> None" by fastforce
  then show ?case
    by (cases b; cases "find_map (\<lambda>(i, t). test i t) (rev (flat_children (\<lambda>i t. the (g i t)) i cs t t'))")
       (auto simp: map_children_append find_map_append hit_process_simps split: option.split)
next
  case (4 g c cs t')
  then obtain b where "map_children (hit_filter g) (hit_process test) (\<lambda>i t s. s = None) True i (rev cs) t t' None
      = (b, find_map (\<lambda>(i, t). test i t) (rev (flat_children (\<lambda>i t. the (g i t)) i cs t t')))"
    "b \<or> find_map (\<lambda>(i, t). test i t) (rev (flat_children (\<lambda>i t. the (g i t)) i cs t t')) \<noteq> None" by fastforce
  with 4 show ?case
    by (cases b; cases "find_map (\<lambda>(i, t). test i t) (rev (flat_children (\<lambda>i t. the (g i t)) i cs t t'))")
       (auto simp: map_children_append find_map_append map_tree_done split: option.split bool.split)
qed

subsection \<open>The scene\<close>

text \<open>
  Toplevels and popups with the trees of their surfaces; what smithay knows of the surfaces (those
  that are alive, the parents of subsurfaces). A tile is a toplevel with its position.
\<close>

record toplevel =
  tl_tree :: tree
  tl_alive :: bool
  tl_geometry :: "point option"

record popup =
  pp_tree :: tree
  pp_alive :: bool
  pp_parent :: "sid option"
  pp_location :: point

abbreviation tl_surface :: "toplevel \<Rightarrow> sid" where "tl_surface t \<equiv> tree_root (tl_tree t)"
abbreviation pp_surface :: "popup \<Rightarrow> sid" where "pp_surface p \<equiv> tree_root (pp_tree p)"

record scene =
  sc_surface :: "sid \<Rightarrow> surface"
  sc_alive :: "sid list"
  sc_parent :: "sid \<Rightarrow> sid option"
  sc_popups :: "popup list"
  sc_tiles :: "(toplevel \<times> point) list"

lemma filter_shorter: "length (filter (\<lambda>s. s \<notin> set (p # visited)) xs) \<le> length (filter (\<lambda>s. s \<notin> set visited) xs)"
  by (induction xs) auto

lemma visited_shrinks:
  "p \<in> set xs \<Longrightarrow> p \<notin> set visited \<Longrightarrow>
     length (filter (\<lambda>s. s \<notin> set (p # visited)) xs) < length (filter (\<lambda>s. s \<notin> set visited) xs)"
proof (induction xs)
  case (Cons x xs)
  then show ?case using filter_shorter [of p visited xs] by (cases "x = p") auto
qed simp

text \<open>Up from the parent of a popup, through subsurfaces and popups, to the owner; a cycle or a dead surface ends it.\<close>

function popup_chain :: "scene \<Rightarrow> sid \<Rightarrow> point \<Rightarrow> sid list \<Rightarrow> (sid \<times> point) option" where
  "popup_chain sc parent location visited =
     (if parent \<notin> set (sc_alive sc) \<or> parent \<in> set visited then None
      else case sc_parent sc parent of
        Some up \<Rightarrow>
          (case checked_location_sum location (su_offset (sc_surface sc parent)) of
             None \<Rightarrow> None
           | Some l \<Rightarrow> popup_chain sc up l (parent # visited))
      | None \<Rightarrow>
          (case find (\<lambda>p. pp_surface p = parent) (sc_popups sc) of
             None \<Rightarrow> Some (parent, location)
           | Some p \<Rightarrow>
               (case checked_location_sum location (pp_location p) of
                  None \<Rightarrow> None
                | Some l \<Rightarrow> (case pp_parent p of None \<Rightarrow> None | Some up \<Rightarrow> popup_chain sc up l (parent # visited)))))"
  by pat_completeness auto

termination
  by (relation "measure (\<lambda>(sc, parent, location, visited). length (filter (\<lambda>s. s \<notin> set visited) (sc_alive sc)))")
     (auto simp del: set_simps intro!: visited_shrinks)

declare popup_chain.simps [simp del]

definition popup_root_and_location :: "scene \<Rightarrow> popup \<Rightarrow> (sid \<times> point) option" where
  "popup_root_and_location sc p =
     (if \<not> pp_alive p then None
      else case pp_parent p of None \<Rightarrow> None | Some parent \<Rightarrow> popup_chain sc parent (pp_location p) [pp_surface p])"

subsection \<open>The surface under the pointer\<close>

definition offset_of :: "scene \<Rightarrow> sid \<Rightarrow> point \<Rightarrow> point option" where
  "offset_of sc i location = checked_location_sum location (su_offset (sc_surface sc i))"

text \<open>Whether the point lies in the surface at a location, within its size and its input region.\<close>

definition accepts_point :: "scene \<Rightarrow> (sid \<Rightarrow> (int \<times> int) option) \<Rightarrow> real \<times> real \<Rightarrow> sid \<Rightarrow> point \<Rightarrow> bool" where
  "accepts_point sc buffer_size p i location \<longleftrightarrow>
     (i \<in> set (sc_alive sc) \<and>
      (case buffer_size i of
         None \<Rightarrow> False
       | Some b \<Rightarrow>
           (let s = surface_logical_size b (su_mapping (sc_surface sc i));
                local = (fst p - real_of_int (fst location), snd p - real_of_int (snd location))
            in 0 \<le> fst local \<and> 0 \<le> snd local \<and> fst local < fst s \<and> snd local < snd s
               \<and> (case su_input (sc_surface sc i) of
                     None \<Rightarrow> True | Some region \<Rightarrow> region_contains region (\<lfloor>fst local\<rfloor>, \<lfloor>snd local\<rfloor>)))))"

definition surface_test :: "scene \<Rightarrow> (sid \<Rightarrow> (int \<times> int) option) \<Rightarrow> real \<times> real \<Rightarrow> sid \<Rightarrow> point \<Rightarrow> (sid \<times> point) option" where
  "surface_test sc buffer_size p i location =
     (case offset_of sc i location of
        None \<Rightarrow> None
      | Some l \<Rightarrow> if accepts_point sc buffer_size p i l then Some (i, l) else None)"

definition surface_tree_hit ::
  "scene \<Rightarrow> (sid \<Rightarrow> (int \<times> int) option) \<Rightarrow> tree \<Rightarrow> point \<Rightarrow> real \<times> real \<Rightarrow> (sid \<times> point) option" where
  "surface_tree_hit sc buffer_size tr origin p =
     snd (map_tree (hit_filter (offset_of sc)) (hit_process (surface_test sc buffer_size p)) (\<lambda>i t s. s = None) True tr origin None)"

definition popup_hit ::
  "scene \<Rightarrow> (sid \<Rightarrow> (int \<times> int) option) \<Rightarrow> sid \<Rightarrow> point \<Rightarrow> real \<times> real \<Rightarrow> popup \<Rightarrow> (sid \<times> point) option" where
  "popup_hit sc buffer_size owner origin p pop =
     (case popup_root_and_location sc pop of
        None \<Rightarrow> None
      | Some (popup_root, l) \<Rightarrow>
          if popup_root \<noteq> owner then None
          else (case checked_location_sum origin l of
                  None \<Rightarrow> None | Some o' \<Rightarrow> surface_tree_hit sc buffer_size (pp_tree pop) o' p))"

definition toplevel_surface_under ::
  "scene \<Rightarrow> (sid \<Rightarrow> (int \<times> int) option) \<Rightarrow> toplevel \<Rightarrow> point \<Rightarrow> real \<times> real \<Rightarrow> (sid \<times> point) option" where
  "toplevel_surface_under sc buffer_size t origin p =
     (if \<not> tl_alive t then None
      else case find_map (popup_hit sc buffer_size (tl_surface t) origin p) (rev (sc_popups sc)) of
        Some h \<Rightarrow> Some h
      | None \<Rightarrow>
          (case (case tl_geometry t of None \<Rightarrow> Some origin | Some g \<Rightarrow> checked_location_sum origin (- fst g, - snd g)) of
             None \<Rightarrow> None
           | Some o' \<Rightarrow> surface_tree_hit sc buffer_size (tl_tree t) o' p))"

definition desktop_surface_under ::
  "scene \<Rightarrow> (sid \<Rightarrow> (int \<times> int) option) \<Rightarrow> real \<times> real \<Rightarrow> (sid \<times> point) option" where
  "desktop_surface_under sc buffer_size p =
     find_map (\<lambda>(t, place). toplevel_surface_under sc buffer_size t place p) (rev (sc_tiles sc))"

subsection \<open>Drawing\<close>

text \<open>
  Drawing a tree takes the buffer of every surface on its way. The answers of the renderer: what
  becomes of a new buffer (after what was drawn before), and whether there is a texture to draw.
\<close>

datatype pixel_result = Drawn | Deferred | Rejected

record renderer =
  r_upload :: "(sid \<times> point) list \<Rightarrow> sid \<Rightarrow> nat \<Rightarrow> pixel_result"
  r_cached :: "sid \<Rightarrow> bool"

record drawing =
  dr_surface :: "sid \<Rightarrow> surface"
  dr_visits :: "(sid \<times> point) list"
  dr_rendered :: nat
  dr_released :: "nat list"
  dr_evicted :: "sid list"
  dr_discarded :: bool

definition finish_buffer_upload :: "renderer \<Rightarrow> sid \<Rightarrow> nat \<Rightarrow> damage list \<Rightarrow> pixel_result \<Rightarrow> drawing \<Rightarrow> drawing" where
  "finish_buffer_upload r i b damage outcome d =
     (case outcome of
        Deferred \<Rightarrow> d\<lparr>dr_surface := (dr_surface d)(i := (dr_surface d i)\<lparr>su_buffer := Some (NewBuffer b), su_damage := damage\<rparr>)\<rparr>
      | Drawn \<Rightarrow> d\<lparr>dr_released := dr_released d @ [b], dr_rendered := dr_rendered d + 1\<rparr>
      | Rejected \<Rightarrow> d\<lparr>dr_discarded := True, dr_rendered := dr_rendered d + (if r_cached r i then 1 else 0),
                       dr_released := dr_released d @ [b]\<rparr>)"

definition draw_surface :: "renderer \<Rightarrow> sid \<Rightarrow> point \<Rightarrow> drawing \<Rightarrow> drawing" where
  "draw_surface r i location d =
     (let su = dr_surface d i;
          l = location_sum location (su_offset su);
          taken = d\<lparr>dr_surface := (dr_surface d)(i := su\<lparr>su_buffer := None, su_damage := []\<rparr>), dr_visits := dr_visits d @ [(i, l)]\<rparr>
      in case su_buffer su of
           Some (NewBuffer b) \<Rightarrow> finish_buffer_upload r i b (su_damage su) (r_upload r (dr_visits d) i b) taken
         | Some RemovedBuffer \<Rightarrow> taken\<lparr>dr_evicted := dr_evicted d @ [i]\<rparr>
         | None \<Rightarrow> if r_cached r i then taken\<lparr>dr_rendered := dr_rendered d + 1\<rparr> else taken)"

definition render_surface_tree :: "renderer \<Rightarrow> tree \<Rightarrow> point \<Rightarrow> drawing \<Rightarrow> drawing" where
  "render_surface_tree r tr origin d =
     snd (map_tree (\<lambda>i t d. DoChildren (location_sum t (su_offset (dr_surface d i)))) (draw_surface r) (\<lambda>i t d. True) False tr origin d)"

definition render_toplevel_tree :: "renderer \<Rightarrow> toplevel \<Rightarrow> point \<Rightarrow> drawing \<Rightarrow> drawing" where
  "render_toplevel_tree r t origin =
     render_surface_tree r (tl_tree t)
       (case tl_geometry t of None \<Rightarrow> origin | Some g \<Rightarrow> location_sum origin (- fst g, - snd g))"

definition render_toplevel_popups :: "renderer \<Rightarrow> scene \<Rightarrow> sid \<Rightarrow> point \<Rightarrow> drawing \<Rightarrow> drawing" where
  "render_toplevel_popups r sc owner origin d =
     fold (\<lambda>pop d. case popup_root_and_location sc pop of
             None \<Rightarrow> d
           | Some (popup_root, l) \<Rightarrow>
               if popup_root \<noteq> owner then d else render_surface_tree r (pp_tree pop) (location_sum origin l) d)
       (sc_popups sc) d"

definition render_desktop :: "renderer \<Rightarrow> scene \<Rightarrow> drawing" where
  "render_desktop r sc =
     fold (\<lambda>(t, place) d. render_toplevel_popups r sc (tl_surface t) place (render_toplevel_tree r t place d))
       (sc_tiles sc)
       \<lparr>dr_surface = sc_surface sc, dr_visits = [], dr_rendered = 0, dr_released = [], dr_evicted = [], dr_discarded = False\<rparr>"

text \<open>A commit of the tree awaits its upload.\<close>

definition surface_tree_has_pending_buffer_uploads :: "(sid \<Rightarrow> surface) \<Rightarrow> sid list \<Rightarrow> tree \<Rightarrow> bool" where
  "surface_tree_has_pending_buffer_uploads su alive tr =
     snd (map_tree (\<lambda>i t s. if s then BreakTraversal else DoChildren ())
            (\<lambda>i t s. s \<or> (i \<in> set alive \<and> (case su_buffer (su i) of Some (NewBuffer _) \<Rightarrow> True | _ \<Rightarrow> False))) (\<lambda>i t s. \<not> s) True tr () False)"

subsection \<open>The order of drawing\<close>

definition offset_sum :: "scene \<Rightarrow> sid \<Rightarrow> point \<Rightarrow> point" where
  "offset_sum sc i location = location_sum location (su_offset (sc_surface sc i))"

definition tree_order :: "scene \<Rightarrow> tree \<Rightarrow> point \<Rightarrow> (sid \<times> point) list" where
  "tree_order sc tr origin = map (\<lambda>(i, t). (i, offset_sum sc i t)) (flat (offset_sum sc) tr origin)"

definition popup_order :: "scene \<Rightarrow> sid \<Rightarrow> point \<Rightarrow> popup \<Rightarrow> (sid \<times> point) list" where
  "popup_order sc owner origin pop =
     (case popup_root_and_location sc pop of
        None \<Rightarrow> []
      | Some (popup_root, l) \<Rightarrow> if popup_root \<noteq> owner then [] else tree_order sc (pp_tree pop) (location_sum origin l))"

definition tile_order :: "scene \<Rightarrow> toplevel \<times> point \<Rightarrow> (sid \<times> point) list" where
  "tile_order sc = (\<lambda>(t, place).
     tree_order sc (tl_tree t) (case tl_geometry t of None \<Rightarrow> place | Some g \<Rightarrow> location_sum place (- fst g, - snd g))
     @ concat (map (popup_order sc (tl_surface t) place) (sc_popups sc)))"

definition same_offsets :: "scene \<Rightarrow> drawing \<Rightarrow> bool" where
  "same_offsets sc d \<longleftrightarrow> (\<forall>i. su_offset (dr_surface d i) = su_offset (sc_surface sc i))"

lemma draw_surface_offsets: "same_offsets sc d \<Longrightarrow> same_offsets sc (draw_surface r i t d)"
  by (auto simp: same_offsets_def draw_surface_def finish_buffer_upload_def Let_def split: option.splits assignment.splits pixel_result.splits)

lemma draw_surface_visits: "same_offsets sc d \<Longrightarrow> dr_visits (draw_surface r i t d) = dr_visits d @ [(i, offset_sum sc i t)]"
  by (auto simp: same_offsets_def offset_sum_def draw_surface_def finish_buffer_upload_def Let_def split: option.splits assignment.splits pixel_result.splits)

lemma draw_fold:
  "same_offsets sc d \<Longrightarrow> dr_visits (fold (\<lambda>(i, t). draw_surface r i t) xs d) = dr_visits d @ map (\<lambda>(i, t). (i, offset_sum sc i t)) xs"
  by (induction xs arbitrary: d) (auto simp: draw_surface_offsets draw_surface_visits)

lemma render_surface_tree_fold:
  assumes "same_offsets sc d"
  shows "render_surface_tree r tr origin d = fold (\<lambda>(i, t). draw_surface r i t) (flat (offset_sum sc) tr origin) d"
    and "same_offsets sc (render_surface_tree r tr origin d)"
proof -
  have "same_offsets sc (fold (\<lambda>(i, t). draw_surface r i t) (flat (offset_sum sc) tr origin) d) \<and>
      map_tree (\<lambda>i t d. DoChildren (location_sum t (su_offset (dr_surface d i)))) (draw_surface r) (\<lambda>i t d. True) False tr origin d
      = (True, fold (\<lambda>(i, t). draw_surface r i t) (flat (offset_sum sc) tr origin) d)"
    by (rule map_tree_upward(1) [where I = "same_offsets sc", OF _ _ assms])
       (simp_all add: draw_surface_offsets, simp add: same_offsets_def offset_sum_def)
  then show "render_surface_tree r tr origin d = fold (\<lambda>(i, t). draw_surface r i t) (flat (offset_sum sc) tr origin) d"
    and "same_offsets sc (render_surface_tree r tr origin d)" by (simp_all add: render_surface_tree_def)
qed

lemma render_surface_tree_visits:
  "same_offsets sc d \<Longrightarrow> dr_visits (render_surface_tree r tr origin d) = dr_visits d @ tree_order sc tr origin"
  by (simp add: render_surface_tree_fold(1) draw_fold tree_order_def)

lemma render_toplevel_popups_visits:
  assumes "same_offsets sc d"
  shows "same_offsets sc (render_toplevel_popups r sc owner origin d) \<and>
    dr_visits (render_toplevel_popups r sc owner origin d) = dr_visits d @ concat (map (popup_order sc owner origin) (sc_popups sc))"
proof -
  have "same_offsets sc d \<Longrightarrow> same_offsets sc (fold f ps d) \<and> dr_visits (fold f ps d) = dr_visits d @ concat (map (popup_order sc owner origin) ps)"
    if f: "f = (\<lambda>pop d. case popup_root_and_location sc pop of None \<Rightarrow> d | Some (popup_root, l) \<Rightarrow>
               if popup_root \<noteq> owner then d else render_surface_tree r (pp_tree pop) (location_sum origin l) d)" for f d ps
    unfolding f
    by (induction ps arbitrary: d)
       (auto simp: popup_order_def render_surface_tree_visits render_surface_tree_fold(2) split: option.split)
  from this [OF refl assms] show ?thesis by (simp add: render_toplevel_popups_def)
qed

lemma render_desktop_visits: "dr_visits (render_desktop r sc) = concat (map (tile_order sc) (sc_tiles sc))"
proof -
  define f where "f = (\<lambda>(t, place) d. render_toplevel_popups r sc (tl_surface t) place (render_toplevel_tree r t place d))"
  have "same_offsets sc d \<Longrightarrow> same_offsets sc (fold f ts d) \<and> dr_visits (fold f ts d) = dr_visits d @ concat (map (tile_order sc) ts)" for d ts
  proof (induction ts arbitrary: d)
    case (Cons t ts)
    obtain t' place where t: "t = (t', place)" by (cases t)
    have "same_offsets sc (f t d) \<and> dr_visits (f t d) = dr_visits d @ tile_order sc t"
      using Cons(2) by (simp add: t f_def render_toplevel_tree_def render_toplevel_popups_visits render_surface_tree_visits
          render_surface_tree_fold(2) tile_order_def)
    with Cons(1) show ?case by simp
  qed simp
  from this [of "\<lparr>dr_surface = sc_surface sc, dr_visits = [], dr_rendered = 0, dr_released = [], dr_evicted = [], dr_discarded = False\<rparr>" "sc_tiles sc"]
  show ?thesis by (simp add: render_desktop_def f_def same_offsets_def)
qed

subsection \<open>The pointer finds what is drawn last\<close>

lemma flat_fits:
  "tree_fits (offset_of sc) tr t \<Longrightarrow>
     flat (\<lambda>i t. the (offset_of sc i t)) tr t = flat (offset_sum sc) tr t
     \<and> list_all (\<lambda>(i, t). offset_of sc i t = Some (offset_sum sc i t)) (flat (offset_sum sc) tr t)"
  "children_fit (offset_of sc) cs t' \<Longrightarrow> offset_of sc i t = Some (offset_sum sc i t) \<Longrightarrow>
     flat_children (\<lambda>i t. the (offset_of sc i t)) i cs t t' = flat_children (offset_sum sc) i cs t t'
     \<and> list_all (\<lambda>(i, t). offset_of sc i t = Some (offset_sum sc i t)) (flat_children (offset_sum sc) i cs t t')"
proof (induction "offset_sum sc" tr t and "offset_sum sc" i cs t t' rule: flat_flat_children.induct)
  case (1 i cs t)
  then obtain t' where t': "offset_of sc i t = Some t'" "children_fit (offset_of sc) cs t'" by (auto split: option.splits)
  then have "t' = offset_sum sc i t" by (auto simp: offset_of_def offset_sum_def dest: checked_sum)
  with 1(1) t' show ?case by simp
qed auto

lemma find_map_test:
  "list_all (\<lambda>(i, t). offset_of sc i t = Some (offset_sum sc i t)) xs \<Longrightarrow>
     find_map (\<lambda>(i, t). surface_test sc b p i t) xs = find (\<lambda>(i, l). accepts_point sc b p i l) (map (\<lambda>(i, t). (i, offset_sum sc i t)) xs)"
  by (induction xs) (auto simp: surface_test_def)

lemma surface_tree_hit_order:
  assumes "tree_fits (offset_of sc) tr origin"
  shows "surface_tree_hit sc b tr origin p = find (\<lambda>(i, l). accepts_point sc b p i l) (rev (tree_order sc tr origin))"
proof -
  note fits = flat_fits(1) [OF assms]
  then have "list_all (\<lambda>(i, t). offset_of sc i t = Some (offset_sum sc i t)) (rev (flat (offset_sum sc) tr origin))"
    by (simp add: list_all_iff)
  from find_map_test [OF this] map_tree_hit(1) [OF assms, of "surface_test sc b p"] fits show ?thesis
    by (simp add: surface_tree_hit_def tree_order_def rev_map)
qed

text \<open>No position of the scene leaves the 32 bits, and its tiles are alive.\<close>

definition popup_fits :: "scene \<Rightarrow> sid \<Rightarrow> point \<Rightarrow> popup \<Rightarrow> bool" where
  "popup_fits sc owner origin pop =
     (case popup_root_and_location sc pop of
        None \<Rightarrow> True
      | Some (popup_root, l) \<Rightarrow>
          if popup_root \<noteq> owner then True
          else (case checked_location_sum origin l of None \<Rightarrow> False | Some o' \<Rightarrow> tree_fits (offset_of sc) (pp_tree pop) o'))"

definition tile_fits :: "scene \<Rightarrow> toplevel \<times> point \<Rightarrow> bool" where
  "tile_fits sc = (\<lambda>(t, place).
     tl_alive t
     \<and> (case (case tl_geometry t of None \<Rightarrow> Some place | Some g \<Rightarrow> checked_location_sum place (- fst g, - snd g)) of
          None \<Rightarrow> False | Some o' \<Rightarrow> tree_fits (offset_of sc) (tl_tree t) o')
     \<and> list_all (popup_fits sc (tl_surface t) place) (sc_popups sc))"

definition scene_fits :: "scene \<Rightarrow> bool" where
  "scene_fits sc \<longleftrightarrow> list_all (tile_fits sc) (sc_tiles sc)"

lemma find_append: "find P (xs @ ys) = (case find P xs of None \<Rightarrow> find P ys | Some x \<Rightarrow> Some x)"
  by (induction xs) auto

lemma popup_hit_order:
  "popup_fits sc owner origin pop \<Longrightarrow>
     popup_hit sc b owner origin p pop = find (\<lambda>(i, l). accepts_point sc b p i l) (rev (popup_order sc owner origin pop))"
  using checked_sum [of origin "snd (the (popup_root_and_location sc pop))"]
  by (auto simp: popup_fits_def popup_hit_def popup_order_def surface_tree_hit_order split: option.splits)

lemma popups_hit_order:
  "list_all (popup_fits sc owner origin) ps \<Longrightarrow>
     find_map (popup_hit sc b owner origin p) (rev ps)
     = find (\<lambda>(i, l). accepts_point sc b p i l) (rev (concat (map (popup_order sc owner origin) ps)))"
  by (induction ps) (auto simp: find_map_append find_append popup_hit_order split: option.split)

lemma toplevel_hit_order:
  assumes "tile_fits sc (t, place)"
  shows "toplevel_surface_under sc b t place p = find (\<lambda>(i, l). accepts_point sc b p i l) (rev (tile_order sc (t, place)))"
proof -
  obtain o' where o': "(case tl_geometry t of None \<Rightarrow> Some place | Some g \<Rightarrow> checked_location_sum place (- fst g, - snd g)) = Some o'"
    "tree_fits (offset_of sc) (tl_tree t) o'" "tl_alive t" "list_all (popup_fits sc (tl_surface t) place) (sc_popups sc)"
    using assms by (auto simp: tile_fits_def split: option.splits)
  then have "(case tl_geometry t of None \<Rightarrow> place | Some g \<Rightarrow> location_sum place (- fst g, - snd g)) = o'"
    by (auto dest: checked_sum split: option.splits)
  with o' show ?thesis
    by (simp add: toplevel_surface_under_def tile_order_def find_append popups_hit_order surface_tree_hit_order split: option.split)
qed

lemma desktop_hit_order:
  "list_all (tile_fits sc) ts \<Longrightarrow>
     find_map (\<lambda>(t, place). toplevel_surface_under sc b t place p) (rev ts)
     = find (\<lambda>(i, l). accepts_point sc b p i l) (rev (concat (map (tile_order sc) ts)))"
  by (induction ts) (auto simp: find_map_append find_append toplevel_hit_order split: option.split)

text \<open>
  C4: the surface under the pointer is the one drawn last among those that accept the point where
  they are drawn, over all tiles, popups and subsurfaces of the desktop, as long as every position
  fits into 32 bits; the pointer gets the origin at which that surface was drawn.
\<close>

theorem pointer_finds_last_drawn:
  assumes "scene_fits sc"
  shows "desktop_surface_under sc buffer_size p =
    find (\<lambda>(i, l). accepts_point sc buffer_size p i l) (rev (dr_visits (render_desktop r sc)))"
  using desktop_hit_order [of sc "sc_tiles sc"] assms
  by (simp add: desktop_surface_under_def render_desktop_visits scene_fits_def)

text \<open>Two tiles with a popup over the first one; the pointer is over all three.\<close>

definition plain_surface :: "point \<Rightarrow> surface" where
  "plain_surface l = \<lparr>su_offset = l, su_mapping = \<lparr>sm_scale = 1, sm_transform = Normal, sm_source = None, sm_destination = None\<rparr>,
     su_input = None, su_buffer = None, su_damage = []\<rparr>"

definition sample_scene :: scene where
  "sample_scene = \<lparr>sc_surface = (\<lambda>i. plain_surface (if i = 1 then (10, 10) else (0, 0))), sc_alive = [0, 1, 2, 3],
     sc_parent = (\<lambda>i. if i = 1 then Some 0 else None),
     sc_popups = [\<lparr>pp_tree = Tree 3 [None], pp_alive = True, pp_parent = Some 1, pp_location = (5, 5)\<rparr>],
     sc_tiles = [(\<lparr>tl_tree = Tree 0 [None, Some (Tree 1 [None])], tl_alive = True, tl_geometry = Some (2, 2)\<rparr>, (0, 0)),
                 (\<lparr>tl_tree = Tree 2 [None], tl_alive = True, tl_geometry = None\<rparr>, (100, 0))]\<rparr>"

lemma sample_scene_fits: "scene_fits sample_scene"
  by (simp add: scene_fits_def sample_scene_def tile_fits_def popup_fits_def popup_root_and_location_def popup_chain.simps
      offset_of_def checked_location_sum_def in_i32_def plain_surface_def)

theorem pointer_finds_last_drawn_witness:
  "scene_fits sample_scene
   \<and> desktop_surface_under sample_scene (\<lambda>i. Some (50, 50)) (20, 20)
     = find (\<lambda>(i, l). accepts_point sample_scene (\<lambda>i. Some (50, 50)) (20, 20) i l)
         (rev (dr_visits (render_desktop \<lparr>r_upload = \<lambda>_ _ _. Drawn, r_cached = \<lambda>_. True\<rparr> sample_scene)))
   \<and> desktop_surface_under sample_scene (\<lambda>i. Some (50, 50)) (20, 20) = Some (3, (15, 15))"
proof -
  note found = pointer_finds_last_drawn [OF sample_scene_fits, of "\<lambda>i. Some (50, 50)" "(20, 20)" "\<lparr>r_upload = \<lambda>_ _ _. Drawn, r_cached = \<lambda>_. True\<rparr>"]
  have "desktop_surface_under sample_scene (\<lambda>i. Some (50, 50)) (20, 20) = Some (3, (15, 15))"
    unfolding found render_desktop_visits
    by (simp add: sample_scene_def tile_order_def tree_order_def popup_order_def popup_root_and_location_def popup_chain.simps
        offset_sum_def location_sum_def checked_location_sum_def in_i32_def wrap_i32_def plain_surface_def accepts_point_def
        surface_logical_size_def logical_size_def mapping_source_def transform_size_def Let_def)
  with found sample_scene_fits show ?thesis by simp
qed

subsection \<open>Buffers\<close>

definition new_buffer :: "surface \<Rightarrow> nat multiset" where
  "new_buffer su = (case su_buffer su of Some (NewBuffer b) \<Rightarrow> {#b#} | _ \<Rightarrow> {#})"

definition pending_buffers :: "(sid \<Rightarrow> surface) \<Rightarrow> sid list \<Rightarrow> nat multiset" where
  "pending_buffers su vs = sum_list (map (\<lambda>i. new_buffer (su i)) vs)"

definition uploads_ok :: "(sid \<Rightarrow> surface) \<Rightarrow> sid list \<Rightarrow> drawing \<Rightarrow> bool" where
  "uploads_ok su vs d \<longleftrightarrow>
     mset (dr_released d) + pending_buffers (dr_surface d) vs = pending_buffers su vs
     \<and> (\<forall>i. dr_surface d i = su i \<or> (i \<in> fst ` set (dr_visits d) \<and> su_buffer (dr_surface d i) = None \<and> su_damage (dr_surface d i) = []))"

lemma pending_other: "i \<notin> set vs \<Longrightarrow> pending_buffers (su(i := x)) vs = pending_buffers su vs"
  unfolding pending_buffers_def by (induction vs) auto

lemma pending_taken:
  "i \<in> set vs \<Longrightarrow> distinct vs \<Longrightarrow> su_buffer x = None \<Longrightarrow> pending_buffers su vs = pending_buffers (su(i := x)) vs + new_buffer (su i)"
proof (induction vs)
  case (Cons j vs)
  then show ?case
    using pending_other [of i vs su x] by (cases "i = j") (auto simp: pending_buffers_def new_buffer_def)
qed simp

lemma draw_surface_uploads:
  assumes ok: "uploads_ok su vs d" and vs: "i \<in> set vs" "distinct vs"
  shows "uploads_ok su vs (draw_surface r i t d)"
proof -
  let ?x = "(dr_surface d i)\<lparr>su_buffer := None, su_damage := []\<rparr>"
  have taken: "pending_buffers (dr_surface d) vs = pending_buffers ((dr_surface d)(i := ?x)) vs + new_buffer (dr_surface d i)"
    by (rule pending_taken [OF vs]) simp
  have old: "dr_surface d j = su j \<or> (j \<in> fst ` set (dr_visits d) \<and> su_buffer (dr_surface d j) = None \<and> su_damage (dr_surface d j) = [])" for j
    using ok by (simp add: uploads_ok_def)
  show ?thesis
  proof (cases "su_buffer (dr_surface d i)")
    case None
    with ok taken old show ?thesis
      by (auto simp: uploads_ok_def draw_surface_def new_buffer_def Let_def)
  next
    case (Some a)
    show ?thesis
    proof (cases a)
      case RemovedBuffer
      with Some ok taken old show ?thesis by (auto simp: uploads_ok_def draw_surface_def new_buffer_def Let_def)
    next
      case (NewBuffer b)
      have same: "(dr_surface d i)\<lparr>su_buffer := Some (NewBuffer b)\<rparr> = dr_surface d i"
        using Some NewBuffer by (cases "dr_surface d i") simp
      show ?thesis
        using Some NewBuffer ok taken old
        by (cases "r_upload r (dr_visits d) i b")
           (auto simp: uploads_ok_def draw_surface_def finish_buffer_upload_def new_buffer_def same Let_def)
    qed
  qed
qed

lemma fold_uploads:
  "uploads_ok su vs d \<Longrightarrow> distinct vs \<Longrightarrow> fst ` set xs \<subseteq> set vs \<Longrightarrow> uploads_ok su vs (fold (\<lambda>(i, t). draw_surface r i t) xs d)"
  by (induction xs arbitrary: d) (auto simp: draw_surface_uploads)

lemma tree_uploads:
  assumes "same_offsets sc d" "uploads_ok su vs d" "distinct vs" "fst ` set (tree_order sc tr origin) \<subseteq> set vs"
  shows "uploads_ok su vs (render_surface_tree r tr origin d)"
  unfolding render_surface_tree_fold(1) [OF assms(1)]
  by (rule fold_uploads [OF assms(2,3)]) (use assms(4) in \<open>force simp: tree_order_def\<close>)

lemma popups_uploads:
  assumes "same_offsets sc d" "uploads_ok su vs d" "distinct vs"
    and "fst ` set (concat (map (popup_order sc owner origin) (sc_popups sc))) \<subseteq> set vs"
  shows "uploads_ok su vs (render_toplevel_popups r sc owner origin d)"
proof -
  define f where "f = (\<lambda>pop d. case popup_root_and_location sc pop of None \<Rightarrow> d | Some (popup_root, l) \<Rightarrow>
               if popup_root \<noteq> owner then d else render_surface_tree r (pp_tree pop) (location_sum origin l) d)"
  have "uploads_ok su vs (fold f ps d)" if "same_offsets sc d" "uploads_ok su vs d"
    "fst ` set (concat (map (popup_order sc owner origin) ps)) \<subseteq> set vs" for ps d
    using that
  proof (induction ps arbitrary: d)
    case (Cons p ps)
    have sub: "fst ` set (popup_order sc owner origin p) \<subseteq> set vs"
      and rest: "fst ` set (concat (map (popup_order sc owner origin) ps)) \<subseteq> set vs" using Cons(4) by auto
    have "uploads_ok su vs (f p d) \<and> same_offsets sc (f p d)"
    proof (cases "\<exists>l. popup_root_and_location sc p = Some (owner, l)")
      case True
      then obtain l where l: "popup_root_and_location sc p = Some (owner, l)" ..
      with sub have "fst ` set (tree_order sc (pp_tree p) (location_sum origin l)) \<subseteq> set vs" by (simp add: popup_order_def)
      from tree_uploads [OF Cons(2,3) assms(3) this] l show ?thesis
        using render_surface_tree_fold(2) [OF Cons(2)] by (simp add: f_def)
    next
      case False
      with Cons(2,3) show ?thesis by (auto simp: f_def split: option.split)
    qed
    with Cons(1) rest show ?case by simp
  qed simp
  with assms show ?thesis by (simp add: render_toplevel_popups_def f_def)
qed

lemma desktop_uploads:
  assumes "distinct vs" "fst ` set (dr_visits (render_desktop r sc)) \<subseteq> set vs"
  shows "uploads_ok (sc_surface sc) vs (render_desktop r sc)"
proof -
  define f where "f = (\<lambda>(t, place) d. render_toplevel_popups r sc (tl_surface t) place (render_toplevel_tree r t place d))"
  have "uploads_ok su vs (fold f ts d)" if "same_offsets sc d" "uploads_ok su vs d" "fst ` set (concat (map (tile_order sc) ts)) \<subseteq> set vs" for su ts d
    using that
  proof (induction ts arbitrary: d)
    case (Cons t ts)
    obtain t' place where t: "t = (t', place)" by (cases t)
    have "fst ` set (tile_order sc t) \<subseteq> set vs" and rest: "fst ` set (concat (map (tile_order sc) ts)) \<subseteq> set vs" using Cons(4) by auto
    then have sub: "fst ` set (concat (map (popup_order sc (tl_surface t') place) (sc_popups sc))) \<subseteq> set vs"
      "fst ` set (tree_order sc (tl_tree t') (case tl_geometry t' of None \<Rightarrow> place | Some g \<Rightarrow> location_sum place (- fst g, - snd g))) \<subseteq> set vs"
      unfolding t tile_order_def prod.case set_append image_Un by blast+
    have tree: "same_offsets sc (render_toplevel_tree r t' place d)" "uploads_ok su vs (render_toplevel_tree r t' place d)"
      unfolding render_toplevel_tree_def using Cons(2,3) assms(1) sub(2)
      by (auto intro!: render_surface_tree_fold(2) tree_uploads simp del: set_simps)
    have "uploads_ok su vs (f t d)" unfolding t f_def prod.case by (rule popups_uploads [OF tree assms(1) sub(1)])
    moreover have "same_offsets sc (f t d)" unfolding t f_def prod.case using tree by (simp add: render_toplevel_popups_visits)
    ultimately show ?case using Cons(1) rest by simp
  qed simp
  from this [of "\<lparr>dr_surface = sc_surface sc, dr_visits = [], dr_rendered = 0, dr_released = [], dr_evicted = [], dr_discarded = False\<rparr>" "sc_surface sc" "sc_tiles sc"]
  show ?thesis using assms(2)
    by (simp add: render_desktop_visits) (simp add: render_desktop_def f_def same_offsets_def uploads_ok_def)
qed

text \<open>
  C5: in a drawing of the desktop every buffer that a client committed to a drawn surface is either
  released, once, or still attached to its surface with the original damage, to be uploaded by a
  later drawing; no other part of a surface changes but what was taken.
\<close>

theorem buffers_released_once:
  "let d = render_desktop r sc; vs = remdups (map fst (dr_visits d))
   in mset (dr_released d) + pending_buffers (dr_surface d) vs = pending_buffers (sc_surface sc) vs
      \<and> (\<forall>i. dr_surface d i = sc_surface sc i
            \<or> (i \<in> fst ` set (dr_visits d) \<and> su_buffer (dr_surface d i) = None \<and> su_damage (dr_surface d i) = []))"
  using desktop_uploads [of "remdups (map fst (dr_visits (render_desktop r sc)))" r sc]
  by (simp add: uploads_ok_def Let_def)

end
