(* ===== verification/Scene_State.thy ===== *)
theory Scene_State
  imports Scene_Tree "HOL-Library.Signed_Division"
begin

text \<open>
  The windows of the Wayland clients: the row of tiles (\<open>layout.rs\<close>), the handlers that add and
  remove toplevels, popups and surfaces, commits with their frame callbacks, and the end of a frame
  of the desktop (\<open>state.rs\<close>, \<open>main.rs\<close>). What smithay knows of the surfaces is an argument of
  every handler; latency traces, the seat's own protocol and the gestures are left out.
\<close>

subsection \<open>Tiles\<close>

record tile =
  ti_surface :: sid
  ti_position :: point
  ti_size :: "int \<times> int"
  ti_focused :: bool

text \<open>\<open>la_requests\<close>: the sizes that the clients were asked to take, in order.\<close>

record layout =
  la_tiles :: "tile list"
  la_focused :: "nat option"
  la_view :: "int \<times> int"
  la_gap :: int
  la_padding :: int
  la_requests :: "(sid \<times> int \<times> int) list"

definition MAX_LOGICAL_OUTPUT_DIMENSION :: int where
  "MAX_LOGICAL_OUTPUT_DIMENSION = 16384"

text \<open>On integers, which the callers pass.\<close>

definition sanitize_logical_size :: "int \<Rightarrow> int \<Rightarrow> int \<times> int" where
  "sanitize_logical_size w h =
     (max 1 (min MAX_LOGICAL_OUTPUT_DIMENSION w), max 1 (min MAX_LOGICAL_OUTPUT_DIMENSION h))"

definition layout_new :: "int \<Rightarrow> int \<Rightarrow> layout" where
  "layout_new w h = \<lparr>la_tiles = [], la_focused = None, la_view = sanitize_logical_size w h, la_gap = 0, la_padding = 0, la_requests = []\<rparr>"

definition calculate_tile_size :: "layout \<Rightarrow> nat \<Rightarrow> int \<times> int" where
  "calculate_tile_size l n =
     (if n = 0 then la_view l
      else
        (let w = fst (la_view l) - la_padding l * 2; h = snd (la_view l) - la_padding l * 2
         in (max 100 ((w - la_gap l * (int n - 1)) sdiv int n), max 100 h)))"

fun place_tiles :: "int \<Rightarrow> int \<Rightarrow> int \<times> int \<Rightarrow> nat option \<Rightarrow> int \<Rightarrow> nat \<Rightarrow> tile list \<Rightarrow> tile list" where
  "place_tiles gap padding s focused x i [] = []"
| "place_tiles gap padding s focused x i (t # ts) =
     t\<lparr>ti_position := (x, padding), ti_size := s, ti_focused := (focused = Some i)\<rparr>
     # place_tiles gap padding s focused (x + (fst s + gap)) (Suc i) ts"

definition relayout :: "layout \<Rightarrow> layout" where
  "relayout l =
     (if la_tiles l = [] then l
      else
        (let s = calculate_tile_size l (length (la_tiles l));
             ts = place_tiles (la_gap l) (la_padding l) s (la_focused l) (la_padding l) 0 (la_tiles l)
         in l\<lparr>la_tiles := ts, la_requests := la_requests l @ map (\<lambda>t. (ti_surface t, ti_size t)) ts\<rparr>))"

definition set_view_size :: "int \<Rightarrow> int \<Rightarrow> layout \<Rightarrow> layout" where
  "set_view_size w h l = relayout (l\<lparr>la_view := sanitize_logical_size w h\<rparr>)"

definition add_tile :: "sid \<Rightarrow> layout \<Rightarrow> layout" where
  "add_tile i l =
     (let t = \<lparr>ti_surface = i, ti_position = (la_padding l, la_padding l), ti_size = calculate_tile_size l (length (la_tiles l) + 1), ti_focused = False\<rparr>;
          ts = la_tiles l @ [t]
      in relayout (l\<lparr>la_tiles := ts, la_focused := Some (length ts - 1)\<rparr>))"

definition remove_tile :: "sid \<Rightarrow> layout \<Rightarrow> layout" where
  "remove_tile i l =
     (case position (\<lambda>t. ti_surface t = i) (la_tiles l) of
        None \<Rightarrow> l
      | Some k \<Rightarrow>
          (let ts = remove_at k (la_tiles l);
               focused = (case la_focused l of
                   None \<Rightarrow> None
                 | Some f \<Rightarrow> if length ts \<le> f then (if ts = [] then None else Some (length ts - 1)) else Some f)
           in relayout (l\<lparr>la_tiles := ts, la_focused := focused\<rparr>)))"

definition tile_for_surface :: "sid \<Rightarrow> layout \<Rightarrow> tile option" where
  "tile_for_surface i l = find (\<lambda>t. ti_surface t = i) (la_tiles l)"

definition move_tile :: "sid \<Rightarrow> point \<Rightarrow> layout \<Rightarrow> layout" where
  "move_tile i p l =
     (case position (\<lambda>t. ti_surface t = i) (la_tiles l) of
        None \<Rightarrow> l
      | Some k \<Rightarrow> l\<lparr>la_tiles := (la_tiles l)[k := (la_tiles l ! k)\<lparr>ti_position := p\<rparr>]\<rparr>)"

subsection \<open>The state of the windows\<close>

text \<open>A role object of a surface: a surface gets a new one when its client recreates the window.\<close>

record toplevel_handle =
  th_surface :: sid
  th_role :: nat

record popup_handle =
  ph_surface :: sid
  ph_role :: nat
  ph_parent :: "sid option"

record pending_callback =
  pc_root :: "sid option"
  pc_source :: sid
  pc_callback :: nat

datatype window_message =
    RootlessToplevelCreated sid
  | RootlessToplevelDestroyed sid
  | DesktopToplevelCreated
  | SurfaceDestroyed sid
  | RootlessBeginMove sid

record windows =
  wn_rootless :: bool
  wn_output :: "int \<times> int"
  wn_toplevels :: "toplevel_handle list"
  wn_popups :: "popup_handle list"
  wn_layout :: layout
  wn_callbacks :: "pending_callback list"
  wn_cursor_callbacks :: "nat list"
  wn_dirty :: "sid list"
  wn_drag :: "sid option"
  wn_drag_request :: "sid option"
  wn_buffers :: "sid \<rightharpoonup> int \<times> int"
  wn_focus :: "sid option"
  wn_pointer :: "sid option"
  wn_keyboard :: "sid option"
  wn_redraw :: bool
  wn_configured :: "(sid \<times> int \<times> int) list"
  wn_commits :: nat
  wn_sent :: "window_message list"
  wn_popups_done :: "nat list"
  wn_done :: "nat list"

text \<open>
  What smithay knows when a handler runs: the parents of subsurfaces, the subsurfaces of a surface
  below and above it, the live surfaces and popups, and what the surfaces committed (their frame
  callbacks, and a buffer assignment with the size of a readable buffer).
\<close>

record smithay =
  en_parent :: "sid \<Rightarrow> sid option"
  en_below :: "sid \<Rightarrow> tree list"
  en_above :: "sid \<Rightarrow> tree list"
  en_alive :: "sid \<Rightarrow> bool"
  en_popup_alive :: "nat \<Rightarrow> bool"
  en_callbacks :: "sid \<Rightarrow> nat list"
  en_buffer :: "sid \<Rightarrow> (int \<times> int) option option"

definition MAX_SURFACE_ANCESTORS :: nat where
  "MAX_SURFACE_ANCESTORS = 128"

text \<open>From the first surface up; at most so many steps, and never twice through one surface.\<close>

fun bounded_parent_chain :: "nat \<Rightarrow> (sid \<Rightarrow> sid option) \<Rightarrow> sid list \<Rightarrow> sid \<Rightarrow> sid list option" where
  "bounded_parent_chain 0 parent chain i = None"
| "bounded_parent_chain (Suc n) parent chain i =
     (if i \<in> set chain then None
      else case parent i of
        None \<Rightarrow> Some (chain @ [i])
      | Some up \<Rightarrow> bounded_parent_chain n parent (chain @ [i]) up)"

definition surface_ancestor_chain :: "smithay \<Rightarrow> windows \<Rightarrow> sid \<Rightarrow> sid list option" where
  "surface_ancestor_chain v w =
     bounded_parent_chain MAX_SURFACE_ANCESTORS
       (\<lambda>i. case en_parent v i of
              Some up \<Rightarrow> Some up
            | None \<Rightarrow> Option.bind (find (\<lambda>p. ph_surface p = i) (wn_popups w)) ph_parent) []"

definition root_toplevel_id_for_surface :: "smithay \<Rightarrow> windows \<Rightarrow> sid \<Rightarrow> sid option" where
  "root_toplevel_id_for_surface v w i =
     (case surface_ancestor_chain v w i of
        None \<Rightarrow> None
      | Some chain \<Rightarrow> map_option th_surface (find (\<lambda>t. th_surface t = last chain) (wn_toplevels w)))"

definition en_tree :: "smithay \<Rightarrow> sid \<Rightarrow> tree" where
  "en_tree v i = Tree i (map Some (en_below v i) @ None # map Some (en_above v i))"

text \<open>The surfaces of a tree in the order of a downward traversal.\<close>

definition tree_surfaces :: "tree \<Rightarrow> sid list" where
  "tree_surfaces tr = snd (map_tree (\<lambda>i t s. DoChildren ()) (\<lambda>i t s. s @ [i]) (\<lambda>i t s. True) True tr () [])"

subsection \<open>Removing a window, a popup or a surface\<close>

definition forget :: "(sid \<Rightarrow> bool) \<Rightarrow> sid option \<Rightarrow> sid option" where
  "forget gone x = (case x of None \<Rightarrow> None | Some i \<Rightarrow> if gone i then None else Some i)"

text \<open>The surface and the popups that hang below it, and all surfaces of their trees.\<close>

definition scene_roots :: "smithay \<Rightarrow> windows \<Rightarrow> sid \<Rightarrow> sid list" where
  "scene_roots v w i =
     i # map ph_surface
           (filter (\<lambda>p. ph_surface p \<noteq> i \<and> (case surface_ancestor_chain v w (ph_surface p) of None \<Rightarrow> False | Some chain \<Rightarrow> i \<in> set chain))
             (wn_popups w))"

definition retired_surfaces :: "smithay \<Rightarrow> windows \<Rightarrow> sid \<Rightarrow> sid list" where
  "retired_surfaces v w i = concat (map (\<lambda>r. tree_surfaces (en_tree v r)) (scene_roots v w i))"

text \<open>Without a pointer focus nothing is dragged.\<close>

definition clear_pointer_focus :: "windows \<Rightarrow> windows" where
  "clear_pointer_focus w = w\<lparr>wn_pointer := None, wn_focus := None, wn_drag := None, wn_drag_request := None\<rparr>"

definition unmap_surfaces :: "smithay \<Rightarrow> (sid \<Rightarrow> bool) \<Rightarrow> sid \<Rightarrow> bool \<Rightarrow> windows \<Rightarrow> windows" where
  "unmap_surfaces v gone i was_toplevel w =
     w\<lparr>wn_buffers := (\<lambda>s. if gone s then None else wn_buffers w s),
       wn_layout := remove_tile i (wn_layout w),
       wn_toplevels := filter (\<lambda>t. th_surface t \<noteq> i) (wn_toplevels w),
       wn_popups_done := wn_popups_done w @ map ph_role
         (filter (\<lambda>p. ph_surface p \<noteq> i \<and> gone (ph_surface p) \<and> en_popup_alive v (ph_role p)) (wn_popups w)),
       wn_popups := filter (\<lambda>p. \<not> gone (ph_surface p)) (wn_popups w),
       wn_callbacks := filter (\<lambda>c. \<not> gone (pc_source c) \<and> \<not> (was_toplevel \<and> pc_root c = Some i)) (wn_callbacks w),
       wn_dirty := (if was_toplevel then filter (\<lambda>s. s \<noteq> i) (wn_dirty w) else wn_dirty w),
       wn_drag := forget gone (wn_drag w),
       wn_drag_request := forget gone (wn_drag_request w),
       wn_focus := forget gone (wn_focus w)\<rparr>"

definition clear_seat_focus :: "(sid \<Rightarrow> bool) \<Rightarrow> windows \<Rightarrow> windows" where
  "clear_seat_focus gone w =
     (let w' = (case wn_pointer w of Some s \<Rightarrow> if gone s then clear_pointer_focus w else w | None \<Rightarrow> w)
      in w'\<lparr>wn_keyboard := forget gone (wn_keyboard w')\<rparr>)"

definition mark_removed :: "sid \<Rightarrow> bool \<Rightarrow> sid option \<Rightarrow> windows \<Rightarrow> windows" where
  "mark_removed i was_toplevel affected w =
     (if wn_rootless w then
        (let dirty = (case affected of Some r \<Rightarrow> if was_toplevel then wn_dirty w else List.insert r (wn_dirty w) | None \<Rightarrow> wn_dirty w)
         in w\<lparr>wn_dirty := dirty, wn_redraw := (dirty \<noteq> []),
              wn_sent := wn_sent w @ (if was_toplevel then [RootlessToplevelDestroyed i] else [])\<rparr>)
      else w\<lparr>wn_redraw := True\<rparr>)"

definition remove_surface_from_scene :: "smithay \<Rightarrow> sid \<Rightarrow> bool \<Rightarrow> windows \<Rightarrow> windows" where
  "remove_surface_from_scene v i was_toplevel w =
     (let gone = (\<lambda>s. s \<in> set (retired_surfaces v w i))
      in mark_removed i was_toplevel (root_toplevel_id_for_surface v w i)
           (clear_seat_focus gone (unmap_surfaces v gone i was_toplevel w)))"

text \<open>A late callback for an old role must not unmap its replacement.\<close>

definition toplevel_destroyed :: "smithay \<Rightarrow> toplevel_handle \<Rightarrow> windows \<Rightarrow> windows" where
  "toplevel_destroyed v t w =
     (if \<exists>k \<in> set (wn_toplevels w). th_role k = th_role t then remove_surface_from_scene v (th_surface t) True w else w)"

definition popup_destroyed :: "smithay \<Rightarrow> popup_handle \<Rightarrow> windows \<Rightarrow> windows" where
  "popup_destroyed v p w =
     (if \<exists>k \<in> set (wn_popups w). ph_role k = ph_role p then remove_surface_from_scene v (ph_surface p) False w else w)"

text \<open>The destruction of a surface; the surface of the cursor has only callbacks.\<close>

definition destroyed :: "smithay \<Rightarrow> bool \<Rightarrow> sid \<Rightarrow> windows \<Rightarrow> windows" where
  "destroyed v is_cursor i w =
     (if is_cursor then w\<lparr>wn_callbacks := filter (\<lambda>c. pc_source c \<noteq> i) (wn_callbacks w)\<rparr>
      else
        (let w' = remove_surface_from_scene v i (\<exists>t \<in> set (wn_toplevels w). th_surface t = i) w
         in w'\<lparr>wn_sent := wn_sent w' @ [SurfaceDestroyed i]\<rparr>))"

subsection \<open>New windows and popups\<close>

definition map_toplevel :: "toplevel_handle \<Rightarrow> windows \<Rightarrow> windows" where
  "map_toplevel t w =
     (let w' = w\<lparr>wn_toplevels := wn_toplevels w @ [t], wn_redraw := True\<rparr>
      in if wn_rootless w
         then w'\<lparr>wn_dirty := List.insert (th_surface t) (wn_dirty w), wn_sent := wn_sent w @ [RootlessToplevelCreated (th_surface t)]\<rparr>
         else w'\<lparr>wn_layout := add_tile (th_surface t) (wn_layout w), wn_sent := wn_sent w @ [DesktopToplevelCreated]\<rparr>)"

definition new_toplevel :: "smithay \<Rightarrow> toplevel_handle \<Rightarrow> windows \<Rightarrow> windows" where
  "new_toplevel v t w =
     (let w' = (if \<exists>k \<in> set (wn_toplevels w). th_role k = th_role t then w
                else map_toplevel t
                       (case find (\<lambda>k. th_surface k = th_surface t) (wn_toplevels w) of
                          None \<Rightarrow> w | Some previous \<Rightarrow> toplevel_destroyed v previous w))
      in w'\<lparr>wn_configured := wn_configured w' @ [(th_surface t, if wn_rootless w then (960, 720) else wn_output w)]\<rparr>)"

definition new_popup :: "smithay \<Rightarrow> bool \<Rightarrow> popup_handle \<Rightarrow> windows \<Rightarrow> windows" where
  "new_popup v configured p w =
     (if \<exists>k \<in> set (wn_popups w). ph_role k = ph_role p then w
      else
        (let w' = (case find (\<lambda>k. ph_surface k = ph_surface p) (wn_popups w) of
                     None \<Rightarrow> w | Some previous \<Rightarrow> popup_destroyed v previous w)
         in if \<not> configured then w'
            else
              (let owner = root_toplevel_id_for_surface v w' (case ph_parent p of Some up \<Rightarrow> up | None \<Rightarrow> ph_surface p)
               in w'\<lparr>wn_popups := wn_popups w' @ [p], wn_redraw := True,
                    wn_dirty := (case owner of Some r \<Rightarrow> if wn_rootless w' then List.insert r (wn_dirty w') else wn_dirty w'
                                             | None \<Rightarrow> wn_dirty w')\<rparr>)))"

subsection \<open>Commits and frames\<close>

definition committed_callbacks :: "smithay \<Rightarrow> sid option \<Rightarrow> sid \<Rightarrow> pending_callback list" where
  "committed_callbacks v owner i =
     concat (map (\<lambda>s. map (\<lambda>c. \<lparr>pc_root = owner, pc_source = s, pc_callback = c\<rparr>) (en_callbacks v s)) (tree_surfaces (en_tree v i)))"

definition committed_buffers :: "smithay \<Rightarrow> sid \<Rightarrow> (sid \<rightharpoonup> int \<times> int) \<Rightarrow> (sid \<rightharpoonup> int \<times> int)" where
  "committed_buffers v i buffers =
     fold (\<lambda>s b. case en_buffer v s of None \<Rightarrow> b | Some dims \<Rightarrow> (\<lambda>t. if t = s then dims else b t)) (tree_surfaces (en_tree v i)) buffers"

text \<open>The cursor keeps the callbacks of its surface.\<close>

definition commit :: "smithay \<Rightarrow> nat list option \<Rightarrow> sid \<Rightarrow> windows \<Rightarrow> windows" where
  "commit v cursor i w =
     (case cursor of
        Some cbs \<Rightarrow> w\<lparr>wn_cursor_callbacks := wn_cursor_callbacks w @ cbs, wn_commits := wn_commits w + 1\<rparr>
      | None \<Rightarrow>
          (let owner = root_toplevel_id_for_surface v w i;
               w' = w\<lparr>wn_buffers := committed_buffers v i (wn_buffers w),
                      wn_callbacks := wn_callbacks w @ committed_callbacks v owner i, wn_commits := wn_commits w + 1\<rparr>
           in if wn_rootless w
              then (case owner of None \<Rightarrow> w' | Some r \<Rightarrow> w'\<lparr>wn_dirty := List.insert r (wn_dirty w), wn_redraw := True\<rparr>)
              else w'\<lparr>wn_redraw := True\<rparr>))"

text \<open>The owner of a callback: the one of its commit, or the one its surface has by now.\<close>

definition callback_root :: "smithay \<Rightarrow> windows \<Rightarrow> pending_callback \<Rightarrow> sid option" where
  "callback_root v w c =
     (case pc_root c of
        Some r \<Rightarrow> Some r
      | None \<Rightarrow> if en_alive v (pc_source c) then root_toplevel_id_for_surface v w (pc_source c) else None)"

definition take_frame_callbacks_for :: "smithay \<Rightarrow> sid option \<Rightarrow> windows \<Rightarrow> pending_callback list \<times> windows" where
  "take_frame_callbacks_for v owner w =
     (case owner of
        None \<Rightarrow> (wn_callbacks w, w\<lparr>wn_callbacks := []\<rparr>)
      | Some r \<Rightarrow>
          (case partition (\<lambda>c. callback_root v w c = Some r) (wn_callbacks w) of
             (selected, remaining) \<Rightarrow> (selected, w\<lparr>wn_callbacks := remaining\<rparr>)))"

definition send_frame_callbacks_for :: "smithay \<Rightarrow> sid option \<Rightarrow> windows \<Rightarrow> windows" where
  "send_frame_callbacks_for v owner w =
     (case take_frame_callbacks_for v owner w of
        (selected, w') \<Rightarrow> w'\<lparr>wn_done := wn_done w' @ map pc_callback selected\<rparr>)"

text \<open>A surface that becomes the cursor keeps the callbacks of its earlier commits.\<close>

definition cursor_image :: "sid \<Rightarrow> windows \<Rightarrow> windows" where
  "cursor_image i w =
     (case partition (\<lambda>c. pc_source c = i) (wn_callbacks w) of
        (taken, kept) \<Rightarrow> w\<lparr>wn_callbacks := kept, wn_cursor_callbacks := wn_cursor_callbacks w @ map pc_callback taken\<rparr>)"

definition send_cursor_callbacks :: "windows \<Rightarrow> windows" where
  "send_cursor_callbacks w = w\<lparr>wn_cursor_callbacks := [], wn_done := wn_done w @ wn_cursor_callbacks w\<rparr>"

text \<open>
  A redraw of the desktop: windows without a surface are dropped, the row follows the size of the
  window, the tiles are drawn (\<open>Scene_Tree\<close>), and the callbacks follow the submitted frame. The
  answers: a new size of the view, which toplevels still wait for an upload after the drawing, and
  whether the frame was submitted.
\<close>

definition retain_alive :: "smithay \<Rightarrow> windows \<Rightarrow> windows" where
  "retain_alive v w =
     w\<lparr>wn_toplevels := filter (\<lambda>t. en_alive v (th_surface t)) (wn_toplevels w),
       wn_layout := (wn_layout w)\<lparr>la_tiles := filter (\<lambda>t. en_alive v (ti_surface t)) (la_tiles (wn_layout w))\<rparr>\<rparr>"

definition prepare_desktop :: "smithay \<Rightarrow> (int \<times> int) option \<Rightarrow> windows \<Rightarrow> windows" where
  "prepare_desktop v resized w =
     (let w1 = retain_alive v w;
          w2 = (case resized of None \<Rightarrow> w1 | Some (x, y) \<Rightarrow> w1\<lparr>wn_layout := set_view_size x y (wn_layout w1)\<rparr>)
      in w2\<lparr>wn_popups := filter (\<lambda>p. en_alive v (ph_surface p)) (wn_popups w2)\<rparr>)"

definition completed_roots :: "(sid \<Rightarrow> bool) \<Rightarrow> windows \<Rightarrow> sid list" where
  "completed_roots pending w = map ti_surface (filter (\<lambda>t. \<not> pending (ti_surface t)) (la_tiles (wn_layout w)))"

definition finish_desktop :: "smithay \<Rightarrow> (sid \<Rightarrow> bool) \<Rightarrow> bool \<Rightarrow> windows \<Rightarrow> windows" where
  "finish_desktop v pending submitted w =
     (let deferred = (\<exists>t \<in> set (la_tiles (wn_layout w)). pending (ti_surface t));
          w' = w\<lparr>wn_redraw := (deferred \<or> \<not> submitted)\<rparr>
      in if deferred \<and> submitted then fold (\<lambda>r. send_frame_callbacks_for v (Some r)) (completed_roots pending w) w'
         else if submitted then send_frame_callbacks_for v None w'
         else w')"

definition desktop_frame :: "smithay \<Rightarrow> (int \<times> int) option \<Rightarrow> (sid \<Rightarrow> bool) \<Rightarrow> bool \<Rightarrow> windows \<Rightarrow> windows" where
  "desktop_frame v resized pending submitted w = finish_desktop v pending submitted (prepare_desktop v resized w)"

definition rootless_frame :: "smithay \<Rightarrow> sid \<Rightarrow> bool \<Rightarrow> windows \<Rightarrow> windows" where
  "rootless_frame v i submitted w =
     (if submitted then
        (let dirty = filter (\<lambda>s. s \<noteq> i) (wn_dirty w)
         in send_frame_callbacks_for v (Some i) (w\<lparr>wn_dirty := dirty, wn_redraw := (dirty \<noteq> [])\<rparr>))
      else w\<lparr>wn_dirty := List.insert i (wn_dirty w), wn_redraw := True\<rparr>)"

subsection \<open>Dragging a tile\<close>

definition move_request :: "bool \<Rightarrow> sid \<Rightarrow> windows \<Rightarrow> windows" where
  "move_request freezes_absolute i w =
     (if freezes_absolute then w
      else if wn_rootless w then w\<lparr>wn_sent := wn_sent w @ [RootlessBeginMove i]\<rparr>
      else w\<lparr>wn_drag_request := Some i\<rparr>)"

definition start_drag :: "windows \<Rightarrow> windows" where
  "start_drag w =
     (case wn_drag_request w of None \<Rightarrow> w | Some i \<Rightarrow> w\<lparr>wn_drag_request := None, wn_drag := Some i\<rparr>)"

definition drag_to :: "point \<Rightarrow> windows \<Rightarrow> windows" where
  "drag_to p w =
     (case wn_drag w of None \<Rightarrow> w | Some i \<Rightarrow> w\<lparr>wn_layout := move_tile i p (wn_layout w), wn_redraw := True\<rparr>)"

text \<open>Motion of the pointer over the desktop; the focus is the surface under it.\<close>

definition pointer_moved :: "point \<Rightarrow> sid option \<Rightarrow> windows \<Rightarrow> windows" where
  "pointer_moved p hit w = (drag_to p (start_drag w))\<lparr>wn_pointer := hit, wn_focus := hit\<rparr>"

definition left_button :: "bool \<Rightarrow> bool \<Rightarrow> windows \<Rightarrow> windows" where
  "left_button pressed freezes_absolute w =
     (if \<not> pressed then w\<lparr>wn_drag := None, wn_redraw := True\<rparr>
      else
        (let w1 = w\<lparr>wn_keyboard := wn_pointer w, wn_redraw := (wn_redraw w \<or> (\<exists>t \<in> set (wn_toplevels w). wn_pointer w = Some (th_surface t)))\<rparr>
         in if freezes_absolute then w1
            else case wn_drag_request w1 of None \<Rightarrow> w1 | Some _ \<Rightarrow> (start_drag w1)\<lparr>wn_redraw := True\<rparr>))"

subsection \<open>Events\<close>

datatype window_event =
    ToplevelCreated smithay toplevel_handle
  | PopupCreated smithay bool popup_handle
  | ToplevelGone smithay toplevel_handle
  | PopupGone smithay popup_handle
  | SurfaceGone smithay bool sid
  | Committed smithay "nat list option" sid
  | CursorAssigned sid
  | MoveRequested bool sid
  | PointerMoved point "sid option"
  | LeftButton bool bool
  | DesktopFrame smithay "(int \<times> int) option" "sid \<Rightarrow> bool" bool
  | RootlessFrame smithay sid bool
  | CursorFrame

text \<open>The desktop has one window, which a rootless session has not.\<close>

definition window_step :: "window_event \<Rightarrow> windows \<Rightarrow> windows" where
  "window_step e w =
     (case e of
        ToplevelCreated v t \<Rightarrow> new_toplevel v t w
      | PopupCreated v configured p \<Rightarrow> new_popup v configured p w
      | ToplevelGone v t \<Rightarrow> toplevel_destroyed v t w
      | PopupGone v p \<Rightarrow> popup_destroyed v p w
      | SurfaceGone v is_cursor i \<Rightarrow> destroyed v is_cursor i w
      | Committed v cursor i \<Rightarrow> commit v cursor i w
      | CursorAssigned i \<Rightarrow> cursor_image i w
      | MoveRequested freezes i \<Rightarrow> move_request freezes i w
      | PointerMoved p hit \<Rightarrow> if wn_rootless w then w else pointer_moved p hit w
      | LeftButton pressed freezes \<Rightarrow> if wn_rootless w then w else left_button pressed freezes w
      | DesktopFrame v resized pending submitted \<Rightarrow> if wn_rootless w then w else desktop_frame v resized pending submitted w
      | RootlessFrame v i submitted \<Rightarrow> if wn_rootless w then rootless_frame v i submitted w else w
      | CursorFrame \<Rightarrow> send_cursor_callbacks w)"

definition windows_new :: "bool \<Rightarrow> int \<times> int \<Rightarrow> windows" where
  "windows_new rootless dims =
     \<lparr>wn_rootless = rootless, wn_output = dims, wn_toplevels = [], wn_popups = [], wn_layout = layout_new (fst dims) (snd dims),
      wn_callbacks = [], wn_cursor_callbacks = [], wn_dirty = [], wn_drag = None, wn_drag_request = None, wn_buffers = Map.empty,
      wn_focus = None, wn_pointer = None, wn_keyboard = None, wn_redraw = True, wn_configured = [], wn_commits = 0, wn_sent = [],
      wn_popups_done = [], wn_done = []\<rparr>"

subsection \<open>The row of tiles\<close>

abbreviation tile_surfaces :: "layout \<Rightarrow> sid list" where
  "tile_surfaces l \<equiv> map ti_surface (la_tiles l)"

lemma place_tiles_surfaces [simp]: "map ti_surface (place_tiles g p s f x i ts) = map ti_surface ts"
  by (induction ts arbitrary: x i) auto

lemma relayout_surfaces [simp]: "tile_surfaces (relayout l) = tile_surfaces l"
  by (simp add: relayout_def Let_def)

lemma set_view_size_surfaces [simp]: "tile_surfaces (set_view_size w h l) = tile_surfaces l"
  by (simp add: set_view_size_def)

lemma add_tile_surfaces [simp]: "tile_surfaces (add_tile i l) = tile_surfaces l @ [i]"
  by (simp add: add_tile_def Let_def)

lemma move_tile_surfaces [simp]: "tile_surfaces (move_tile i p l) = tile_surfaces l"
  by (auto simp: move_tile_def map_update dest: position_Some split: option.split) (metis list_update_id map_update)

lemma no_tiles [simp]:
  "la_tiles (move_tile i p l) = [] \<longleftrightarrow> la_tiles l = []" "la_tiles (set_view_size a b l) = [] \<longleftrightarrow> la_tiles l = []"
  by (metis move_tile_surfaces map_is_Nil_conv) (metis set_view_size_surfaces map_is_Nil_conv)

lemma remove_at_Suc [simp]: "remove_at (Suc k) (x # xs) = x # remove_at k xs" "remove_at 0 (x # xs) = xs"
  by (simp_all add: remove_at_def)

lemma remove_position:
  "position (\<lambda>t. f t = i) xs = Some k \<Longrightarrow> distinct (map f xs) \<Longrightarrow> map f (remove_at k xs) = filter (\<lambda>s. s \<noteq> i) (map f xs)"
proof (induction xs arbitrary: k)
  case (Cons x xs)
  show ?case
  proof (cases "f x = i")
    case True
    with Cons.prems show ?thesis by (auto intro!: filter_True [symmetric])
  next
    case False
    with Cons show ?thesis by auto
  qed
qed simp

lemma remove_tile_surfaces:
  "distinct (tile_surfaces l) \<Longrightarrow> tile_surfaces (remove_tile i l) = filter (\<lambda>s. s \<noteq> i) (tile_surfaces l)"
  by (auto simp: remove_tile_def Let_def remove_position position_None_iff intro!: filter_True [symmetric] split: option.split)

definition layout_ok :: "layout \<Rightarrow> bool" where
  "layout_ok l \<longleftrightarrow> la_gap l = 0 \<and> la_padding l = 0 \<and> 1 \<le> fst (la_view l) \<and> fst (la_view l) \<le> 16384
     \<and> 1 \<le> snd (la_view l) \<and> snd (la_view l) \<le> 16384"

lemma layout_ok_steps [simp]:
  "layout_ok (relayout l) = layout_ok l" "layout_ok (l\<lparr>la_tiles := ts\<rparr>) = layout_ok l" "layout_ok (l\<lparr>la_focused := f\<rparr>) = layout_ok l"
  "layout_ok l \<Longrightarrow> layout_ok (set_view_size a b l)" "layout_ok l \<Longrightarrow> layout_ok (remove_tile i l)" "layout_ok l \<Longrightarrow> layout_ok (add_tile i l)"
  "layout_ok l \<Longrightarrow> layout_ok (move_tile i p l)" "layout_ok (layout_new a b)"
  by (simp_all add: layout_ok_def relayout_def Let_def set_view_size_def sanitize_logical_size_def MAX_LOGICAL_OUTPUT_DIMENSION_def
      remove_tile_def add_tile_def move_tile_def layout_new_def split: option.split)

subsection \<open>Every window has its tile\<close>

definition windows_ok :: "windows \<Rightarrow> bool" where
  "windows_ok w \<longleftrightarrow>
     distinct (map th_surface (wn_toplevels w)) \<and> distinct (map ph_surface (wn_popups w))
     \<and> layout_ok (wn_layout w)
     \<and> tile_surfaces (wn_layout w) = (if wn_rootless w then [] else map th_surface (wn_toplevels w))"

lemma seat_fields [simp]:
  "wn_toplevels (clear_seat_focus g w) = wn_toplevels w" "wn_popups (clear_seat_focus g w) = wn_popups w"
  "wn_layout (clear_seat_focus g w) = wn_layout w" "wn_rootless (clear_seat_focus g w) = wn_rootless w"
  "wn_callbacks (clear_seat_focus g w) = wn_callbacks w" "wn_cursor_callbacks (clear_seat_focus g w) = wn_cursor_callbacks w"
  "wn_done (clear_seat_focus g w) = wn_done w" "wn_dirty (clear_seat_focus g w) = wn_dirty w"
  "wn_buffers (clear_seat_focus g w) = wn_buffers w" "wn_popups_done (clear_seat_focus g w) = wn_popups_done w"
  by (simp_all add: clear_seat_focus_def clear_pointer_focus_def Let_def split: option.split)

lemma mark_fields [simp]:
  "wn_toplevels (mark_removed i b a w) = wn_toplevels w" "wn_popups (mark_removed i b a w) = wn_popups w"
  "wn_layout (mark_removed i b a w) = wn_layout w" "wn_rootless (mark_removed i b a w) = wn_rootless w"
  "wn_callbacks (mark_removed i b a w) = wn_callbacks w" "wn_cursor_callbacks (mark_removed i b a w) = wn_cursor_callbacks w"
  "wn_done (mark_removed i b a w) = wn_done w" "wn_buffers (mark_removed i b a w) = wn_buffers w"
  "wn_popups_done (mark_removed i b a w) = wn_popups_done w" "wn_drag (mark_removed i b a w) = wn_drag w"
  "wn_drag_request (mark_removed i b a w) = wn_drag_request w" "wn_focus (mark_removed i b a w) = wn_focus w"
  "wn_pointer (mark_removed i b a w) = wn_pointer w" "wn_keyboard (mark_removed i b a w) = wn_keyboard w"
  by (simp_all add: mark_removed_def Let_def split: option.split)

lemma removed_fields:
  "wn_toplevels (remove_surface_from_scene v i b w) = filter (\<lambda>t. th_surface t \<noteq> i) (wn_toplevels w)"
  "wn_popups (remove_surface_from_scene v i b w) = filter (\<lambda>p. ph_surface p \<notin> set (retired_surfaces v w i)) (wn_popups w)"
  "wn_layout (remove_surface_from_scene v i b w) = remove_tile i (wn_layout w)"
  "wn_rootless (remove_surface_from_scene v i b w) = wn_rootless w"
  "wn_callbacks (remove_surface_from_scene v i b w) =
     filter (\<lambda>c. pc_source c \<notin> set (retired_surfaces v w i) \<and> \<not> (b \<and> pc_root c = Some i)) (wn_callbacks w)"
  "wn_cursor_callbacks (remove_surface_from_scene v i b w) = wn_cursor_callbacks w"
  "wn_done (remove_surface_from_scene v i b w) = wn_done w"
  by (simp_all add: remove_surface_from_scene_def Let_def unmap_surfaces_def)

lemma send_fields [simp]:
  "wn_toplevels (send_frame_callbacks_for v x w) = wn_toplevels w" "wn_popups (send_frame_callbacks_for v x w) = wn_popups w"
  "wn_layout (send_frame_callbacks_for v x w) = wn_layout w" "wn_rootless (send_frame_callbacks_for v x w) = wn_rootless w"
  "wn_cursor_callbacks (send_frame_callbacks_for v x w) = wn_cursor_callbacks w"
  "wn_redraw (send_frame_callbacks_for v x w) = wn_redraw w"
  by (simp_all add: send_frame_callbacks_for_def take_frame_callbacks_for_def split: option.split)

lemma send_all_fields [simp]:
  "wn_toplevels (fold (\<lambda>r. send_frame_callbacks_for v (Some r)) rs w) = wn_toplevels w"
  "wn_popups (fold (\<lambda>r. send_frame_callbacks_for v (Some r)) rs w) = wn_popups w"
  "wn_layout (fold (\<lambda>r. send_frame_callbacks_for v (Some r)) rs w) = wn_layout w"
  "wn_rootless (fold (\<lambda>r. send_frame_callbacks_for v (Some r)) rs w) = wn_rootless w"
  "wn_cursor_callbacks (fold (\<lambda>r. send_frame_callbacks_for v (Some r)) rs w) = wn_cursor_callbacks w"
  "wn_redraw (fold (\<lambda>r. send_frame_callbacks_for v (Some r)) rs w) = wn_redraw w"
  by (induction rs arbitrary: w) auto

lemma finish_fields [simp]:
  "wn_toplevels (finish_desktop v p s w) = wn_toplevels w" "wn_popups (finish_desktop v p s w) = wn_popups w"
  "wn_layout (finish_desktop v p s w) = wn_layout w" "wn_rootless (finish_desktop v p s w) = wn_rootless w"
  "wn_cursor_callbacks (finish_desktop v p s w) = wn_cursor_callbacks w"
  by (simp_all add: finish_desktop_def Let_def)

lemma windows_ok_other [simp]:
  "windows_ok (w\<lparr>wn_configured := a\<rparr>) = windows_ok w" "windows_ok (w\<lparr>wn_sent := d\<rparr>) = windows_ok w" "windows_ok (w\<lparr>wn_callbacks := e\<rparr>) = windows_ok w"
  "windows_ok (w\<lparr>wn_popups := ps, wn_redraw := b, wn_dirty := c\<rparr>) = windows_ok (w\<lparr>wn_popups := ps\<rparr>)"
  by (simp_all add: windows_ok_def)

lemma removed_ok: "windows_ok w \<Longrightarrow> windows_ok (remove_surface_from_scene v i b w)"
  by (auto simp: windows_ok_def removed_fields remove_tile_surfaces distinct_map_filter filter_map comp_def)

abbreviation collect_tree :: "tree \<Rightarrow> sid list \<Rightarrow> bool \<times> sid list" where
  "collect_tree tr s \<equiv> map_tree (\<lambda>i t s. DoChildren ()) (\<lambda>i t s. s @ [i]) (\<lambda>i t s. True) True tr () s"

abbreviation collect_children :: "sid \<Rightarrow> tree option list \<Rightarrow> sid list \<Rightarrow> bool \<times> sid list" where
  "collect_children i cs s \<equiv> map_children (\<lambda>i t s. DoChildren ()) (\<lambda>i t s. s @ [i]) (\<lambda>i t s. True) True i cs () () s"

lemma collect_children_mono:
  assumes "\<And>c s. Some c \<in> set cs \<Longrightarrow> \<exists>ys. collect_tree c s = (True, s @ ys)"
  shows "\<exists>ys. collect_children i cs s = (True, s @ ys) \<and> (None \<in> set cs \<longrightarrow> i \<in> set ys)"
  using assms
proof (induction cs arbitrary: s)
  case (Cons x cs)
  show ?case
  proof (cases x)
    case None
    from Cons.IH [OF Cons.prems, of "s @ [i]"] obtain ys where "collect_children i cs (s @ [i]) = (True, (s @ [i]) @ ys)" by auto
    with None show ?thesis by (simp add: map_tree.simps)
  next
    case (Some c)
    with Cons.prems obtain ys where "collect_tree c s = (True, s @ ys)" by force
    moreover from Cons.IH [OF Cons.prems, of "s @ ys"] obtain zs
      where "collect_children i cs (s @ ys) = (True, (s @ ys) @ zs)" "None \<in> set cs \<longrightarrow> i \<in> set zs" by auto
    ultimately show ?thesis using Some by (auto simp: map_tree.simps)
  qed
qed (simp add: map_tree.simps)

lemma collect_tree_mono: "\<exists>ys. collect_tree tr s = (True, s @ ys)"
proof (induction tr arbitrary: s)
  case (Tree i cs)
  then have "\<exists>ys. collect_children i (rev cs) s = (True, s @ ys) \<and> (None \<in> set (rev cs) \<longrightarrow> i \<in> set ys)"
    by (intro collect_children_mono) force
  then show ?case by (auto simp: map_tree.simps)
qed

lemma tree_has_surface: "i \<in> set (tree_surfaces (en_tree v i))"
proof -
  obtain ys where "collect_children i (rev (map Some (en_below v i) @ None # map Some (en_above v i))) [] = (True, ys)" "i \<in> set ys"
    using collect_children_mono [where cs = "rev (map Some (en_below v i) @ None # map Some (en_above v i))" and i = i and s = "[]", OF collect_tree_mono]
    by auto
  then show ?thesis by (simp add: tree_surfaces_def en_tree_def map_tree.simps)
qed

lemma surface_retires: "i \<in> set (retired_surfaces v w i)"
  using tree_has_surface [of i v] by (simp add: retired_surfaces_def scene_roots_def)

lemma map_toplevel_ok:
  "windows_ok w \<Longrightarrow> th_surface t \<notin> th_surface ` set (wn_toplevels w) \<Longrightarrow> windows_ok (map_toplevel t w)"
  by (auto simp: windows_ok_def map_toplevel_def Let_def)

lemma new_toplevel_ok: "windows_ok w \<Longrightarrow> windows_ok (new_toplevel v t w)"
proof -
  assume ok: "windows_ok w"
  let ?w = "case find (\<lambda>k. th_surface k = th_surface t) (wn_toplevels w) of None \<Rightarrow> w | Some previous \<Rightarrow> toplevel_destroyed v previous w"
  have "windows_ok ?w \<and> th_surface t \<notin> th_surface ` set (wn_toplevels ?w)"
  proof (cases "find (\<lambda>k. th_surface k = th_surface t) (wn_toplevels w)")
    case None
    with None [unfolded find_None_iff] ok show ?thesis by (simp only: None option.case) auto
  next
    case (Some k)
    then have "k \<in> set (wn_toplevels w)" "th_surface k = th_surface t" by (auto simp: find_Some_iff in_set_conv_nth)
    with Some ok show ?thesis by (auto simp: toplevel_destroyed_def removed_ok removed_fields)
  qed
  then have "windows_ok (map_toplevel t ?w)" by (simp add: map_toplevel_ok)
  with ok show ?thesis unfolding new_toplevel_def Let_def by simp
qed

lemma new_popup_ok: "windows_ok w \<Longrightarrow> windows_ok (new_popup v c p w)"
proof -
  assume ok: "windows_ok w"
  let ?w = "case find (\<lambda>k. ph_surface k = ph_surface p) (wn_popups w) of None \<Rightarrow> w | Some previous \<Rightarrow> popup_destroyed v previous w"
  have "windows_ok ?w \<and> ph_surface p \<notin> ph_surface ` set (wn_popups ?w)"
  proof (cases "find (\<lambda>k. ph_surface k = ph_surface p) (wn_popups w)")
    case None
    with None [unfolded find_None_iff] ok show ?thesis by (simp only: None option.case) auto
  next
    case (Some k)
    then have "k \<in> set (wn_popups w)" "ph_surface k = ph_surface p" by (auto simp: find_Some_iff in_set_conv_nth)
    with Some ok surface_retires [of "ph_surface p" v w] show ?thesis by (auto simp: popup_destroyed_def removed_ok removed_fields)
  qed
  with ok show ?thesis unfolding new_popup_def Let_def by (auto simp: windows_ok_def)
qed

lemma filter_tile_surfaces: "map ti_surface (filter (\<lambda>t. P (ti_surface t)) ts) = filter P (map ti_surface ts)"
  by (simp add: filter_map comp_def)

lemma desktop_frame_ok: "windows_ok w \<Longrightarrow> windows_ok (desktop_frame v r p s w)"
  by (auto simp: desktop_frame_def windows_ok_def prepare_desktop_def Let_def retain_alive_def distinct_map_filter
      filter_tile_surfaces set_view_size_surfaces [unfolded relayout_surfaces] filter_map comp_def split: option.split)

lemma drag_fields [simp]:
  "wn_toplevels (start_drag w) = wn_toplevels w" "wn_popups (start_drag w) = wn_popups w" "wn_layout (start_drag w) = wn_layout w"
  "wn_rootless (start_drag w) = wn_rootless w" "wn_callbacks (start_drag w) = wn_callbacks w" "wn_done (start_drag w) = wn_done w"
  "wn_cursor_callbacks (start_drag w) = wn_cursor_callbacks w"
  "wn_toplevels (drag_to p w) = wn_toplevels w" "wn_popups (drag_to p w) = wn_popups w"
  "tile_surfaces (wn_layout (drag_to p w)) = tile_surfaces (wn_layout w)"
  "la_tiles (wn_layout (drag_to p w)) = [] \<longleftrightarrow> la_tiles (wn_layout w) = []"
  "layout_ok (wn_layout w) \<Longrightarrow> layout_ok (wn_layout (drag_to p w))"
  "wn_rootless (drag_to p w) = wn_rootless w" "wn_callbacks (drag_to p w) = wn_callbacks w" "wn_done (drag_to p w) = wn_done w"
  "wn_cursor_callbacks (drag_to p w) = wn_cursor_callbacks w"
  by (simp_all add: start_drag_def drag_to_def split: option.split)

lemma simple_steps_ok:
  assumes "windows_ok w"
  shows "windows_ok (commit v c i w)" "windows_ok (cursor_image i w)" "windows_ok (move_request f i w)" "windows_ok (pointer_moved q h w)"
    "windows_ok (left_button a f w)" "windows_ok (rootless_frame v i b w)" "windows_ok (send_cursor_callbacks w)"
  using assms
  by (auto simp: windows_ok_def commit_def cursor_image_def move_request_def pointer_moved_def left_button_def rootless_frame_def
      send_cursor_callbacks_def Let_def split: option.split)

lemma destroyed_ok: "windows_ok w \<Longrightarrow> windows_ok (destroyed v b i w)"
  by (simp add: destroyed_def Let_def removed_ok)

lemma window_step_ok: "windows_ok w \<Longrightarrow> windows_ok (window_step e w)"
  by (cases e) (simp_all add: window_step_def simple_steps_ok destroyed_ok new_toplevel_ok new_popup_ok desktop_frame_ok removed_ok toplevel_destroyed_def popup_destroyed_def)

interpretation wn: invariant_component window_step "windows_new rootless dims" windows_ok for rootless dims
  by unfold_locales (simp add: windows_ok_def windows_new_def, simp add: layout_new_def, rule window_step_ok)

text \<open>
  C8: whatever the clients and the user do, every known window and popup has its own surface, the
  desktop shows exactly the known windows, one tile each in the order of their creation, a rootless
  session shows none, and the row keeps a view of positive and bounded size.
\<close>

theorem windows_have_tiles:
  "let w = run_events window_step es (windows_new rootless dims)
   in distinct (map th_surface (wn_toplevels w)) \<and> distinct (map ph_surface (wn_popups w))
      \<and> map ti_surface (la_tiles (wn_layout w)) = (if wn_rootless w then [] else map th_surface (wn_toplevels w))
      \<and> 1 \<le> fst (la_view (wn_layout w)) \<and> fst (la_view (wn_layout w)) \<le> 16384
      \<and> 1 \<le> snd (la_view (wn_layout w)) \<and> snd (la_view (wn_layout w)) \<le> 16384"
  using wn.inv_run [of es rootless dims] by (simp add: windows_ok_def layout_ok_def Let_def)

lemma place_tiles_row:
  "map (\<lambda>t. (ti_position t, ti_size t)) (place_tiles 0 0 s f x i ts) = map (\<lambda>k. ((x + int k * fst s, 0), s)) [0..<length ts]"
proof (induction ts arbitrary: x i)
  case (Cons t ts)
  have "map (\<lambda>k. ((x + int k * fst s, 0 :: int), s)) [0..<Suc n] = ((x, 0), s) # map (\<lambda>k. ((x + fst s + int k * fst s, 0), s)) [0..<n]" for n
    by (simp only: upt_conv_Cons [OF zero_less_Suc] map_Suc_upt [symmetric] list.map map_map comp_def) (simp add: algebra_simps)
  with Cons show ?case by simp
qed simp

lemma place_tiles_size: "t \<in> set (place_tiles g p s f x i ts) \<Longrightarrow> ti_size t = s"
  by (induction ts arbitrary: x i) auto

lemma tile_width:
  assumes "0 < n" and "1 \<le> W"
  shows "let w = max 100 (W sdiv int n) in if 100 * int n \<le> W then int n * w \<le> W \<and> W < int n * w + int n else w = 100"
proof -
  have q: "W sdiv int n = W div int n" using assms by (simp add: signed_divide_int_def)
  show ?thesis
  proof (cases "100 * int n \<le> W")
    case True
    with assms zdiv_mono1 [of "100 * int n" W "int n"] have "100 \<le> W div int n" by simp
    moreover have "int n * (W div int n) \<le> W" "W < int n * (W div int n) + int n"
      using assms(1) mult_div_mod_eq [of "int n" W] pos_mod_bound [of "int n" W] pos_mod_sign [of "int n" W] by linarith+
    ultimately show ?thesis using True q by (simp add: Let_def max_def)
  next
    case False
    have "W div int n < 100"
    proof (rule ccontr)
      assume "\<not> W div int n < 100"
      with mult_left_mono [of 100 "W div int n" "int n"] have "int n * 100 \<le> int n * (W div int n)" by simp
      with False assms(1) pos_mod_sign [of "int n" W] mult_div_mod_eq [of "int n" W] show False by linarith
    qed
    with False q show ?thesis by (simp add: Let_def max_def)
  qed
qed

lemma relayout_row:
  assumes "layout_ok old"
  shows "let l = relayout old; n = length (la_tiles l); W = fst (la_view l); w = max 100 (W sdiv int n); h = max 100 (snd (la_view l))
   in map (\<lambda>t. (ti_position t, ti_size t)) (la_tiles l) = map (\<lambda>k. ((int k * w, 0), w, h)) [0..<n]
      \<and> la_requests l = la_requests old @ map (\<lambda>t. (ti_surface t, w, h)) (la_tiles l)
      \<and> (if n = 0 then True else if 100 * int n \<le> W then int n * w \<le> W \<and> W < int n * w + int n else w = 100)"
proof (cases "la_tiles old = []")
  case True
  then show ?thesis by (simp add: relayout_def Let_def)
next
  case False
  let ?n = "length (la_tiles old)" and ?s = "calculate_tile_size old (length (la_tiles old))"
  let ?ts = "place_tiles 0 0 ?s (la_focused old) 0 0 (la_tiles old)"
  have size: "?s = (max 100 (fst (la_view old) sdiv int ?n), max 100 (snd (la_view old)))"
    using assms False by (simp add: calculate_tile_size_def layout_ok_def)
  have len: "length ?ts = ?n" by (metis length_map place_tiles_surfaces)
  have l: "la_tiles (relayout old) = ?ts" "la_view (relayout old) = la_view old"
    "la_requests (relayout old) = la_requests old @ map (\<lambda>t. (ti_surface t, ti_size t)) ?ts"
    using assms False by (simp_all add: relayout_def Let_def layout_ok_def)
  have row: "map (\<lambda>t. (ti_position t, ti_size t)) ?ts = map (\<lambda>k. ((int k * fst ?s, 0), ?s)) [0..<?n]"
    by (simp add: place_tiles_row)
  have same: "map (\<lambda>t. (ti_surface t, ti_size t)) ?ts = map (\<lambda>t. (ti_surface t, ?s)) ?ts"
    by (rule map_cong) (auto dest: place_tiles_size)
  have ts: "la_tiles old \<noteq> []" "0 < ?n" using False by auto
  show ?thesis
    unfolding Let_def l len row same
    using tile_width [OF ts(2), of "fst (la_view old)"] assms ts by (simp add: size layout_ok_def Let_def)
qed

text \<open>
  a layout of the desktop puts the tiles side by side from the left edge, all of one size that
  their clients are asked to take; while a hundred points are left for each, the row lies within
  the view and leaves less than a point per tile uncovered.
\<close>

theorem tiles_fill_row:
  "let old = wn_layout (run_events window_step es (windows_new rootless dims)); l = set_view_size a b old;
       n = length (la_tiles l); W = fst (la_view l); w = max 100 (W sdiv int n); h = max 100 (snd (la_view l))
   in map (\<lambda>t. (ti_position t, ti_size t)) (la_tiles l) = map (\<lambda>k. ((int k * w, 0), w, h)) [0..<n]
      \<and> la_requests l = la_requests old @ map (\<lambda>t. (ti_surface t, w, h)) (la_tiles l)
      \<and> (if n = 0 then True else if 100 * int n \<le> W then int n * w \<le> W \<and> W < int n * w + int n else w = 100)"
proof -
  let ?old = "wn_layout (run_events window_step es (windows_new rootless dims))"
  have "layout_ok (?old\<lparr>la_view := sanitize_logical_size a b\<rparr>)"
    using wn.inv_run [of es rootless dims]
    by (simp add: windows_ok_def layout_ok_def sanitize_logical_size_def MAX_LOGICAL_OUTPUT_DIMENSION_def)
  from relayout_row [OF this] show ?thesis by (simp add: set_view_size_def)
qed

subsection \<open>A removed window leaves nothing behind\<close>

text \<open>A chain of parents from a surface up to one without a parent.\<close>

fun upward :: "(sid \<Rightarrow> sid option) \<Rightarrow> sid list \<Rightarrow> bool" where
  "upward par [] = False"
| "upward par [x] = (par x = None)"
| "upward par (x # y # xs) = (par x = Some y \<and> upward par (y # xs))"

lemma upward_nonempty: "upward par xs \<Longrightarrow> xs \<noteq> []"
  by auto

lemma upward_Cons: "upward par (x # xs) = (if xs = [] then par x = None else par x = Some (hd xs) \<and> upward par xs)"
  by (cases xs) auto

lemma bounded_parent_chain_iff:
  "bounded_parent_chain n par acc i = Some ch \<longleftrightarrow>
     (\<exists>xs. ch = acc @ xs \<and> upward par xs \<and> hd xs = i \<and> distinct xs \<and> set xs \<inter> set acc = {} \<and> length xs \<le> n)"
proof (induction n par acc i arbitrary: ch rule: bounded_parent_chain.induct)
  case (1 par acc i)
  then show ?case by auto
next
  case (2 n par acc i)
  have first: "hd xs \<in> set xs" if "upward par xs" for xs
    using upward_nonempty [OF that] by simp
  have only: "upward par xs \<and> hd xs = i \<longleftrightarrow> xs = [i]" if "par i = None" for xs
    using that by (cases xs) (auto simp: upward_Cons)
  show ?case
  proof (cases "i \<in> set acc \<or> par i = None")
    case True
    show ?thesis
    proof (cases "i \<in> set acc")
      case True
      then show ?thesis using first by fastforce
    next
      case False
      with True have none: "par i = None" by simp
      have "(\<exists>xs. ch = acc @ xs \<and> upward par xs \<and> hd xs = i \<and> distinct xs \<and> set xs \<inter> set acc = {} \<and> length xs \<le> Suc n)
          = (\<exists>xs. ch = acc @ xs \<and> xs = [i])"
        using only [OF none] False none by auto
      with False none show ?thesis by auto
    qed
  next
    case False
    then obtain up where up: "par i = Some up" "i \<notin> set acc" by auto
    have "(\<exists>xs. ch = (acc @ [i]) @ xs \<and> upward par xs \<and> hd xs = up \<and> distinct xs \<and> set xs \<inter> set (acc @ [i]) = {} \<and> length xs \<le> n)
        = (\<exists>xs. ch = acc @ xs \<and> upward par xs \<and> hd xs = i \<and> distinct xs \<and> set xs \<inter> set acc = {} \<and> length xs \<le> Suc n)"
      (is "?l = ?r")
    proof
      assume ?l
      then obtain xs where "ch = (acc @ [i]) @ xs" "upward par xs" "hd xs = up" "distinct xs" "set xs \<inter> set (acc @ [i]) = {}" "length xs \<le> n" by blast
      with up show ?r by (intro exI [of _ "i # xs"]) (auto simp: upward_Cons)
    next
      assume ?r
      then obtain xs where xs: "ch = acc @ xs" "upward par xs" "hd xs = i" "distinct xs" "set xs \<inter> set acc = {}" "length xs \<le> Suc n" by blast
      then obtain ys where "xs = i # ys" using upward_nonempty by (metis list.exhaust_sel)
      with xs up show ?l by (intro exI [of _ ys]) (auto simp: upward_Cons split: if_splits)
    qed
    with 2 [OF up(2,1)] up show ?thesis by simp
  qed
qed

lemma upward_suffix: "upward par (xs @ ys) \<Longrightarrow> ys \<noteq> [] \<Longrightarrow> upward par ys"
  by (induction xs) (auto simp: upward_Cons split: if_splits)

lemma upward_cong: "upward par xs \<Longrightarrow> (\<And>x. x \<in> set xs \<Longrightarrow> par' x = par x) \<Longrightarrow> upward par' xs"
  by (induction par xs rule: upward.induct) auto

definition parent_of :: "smithay \<Rightarrow> windows \<Rightarrow> sid \<Rightarrow> sid option" where
  "parent_of v w i = (case en_parent v i of Some up \<Rightarrow> Some up | None \<Rightarrow> Option.bind (find (\<lambda>p. ph_surface p = i) (wn_popups w)) ph_parent)"

lemma ancestor_chain_iff:
  "surface_ancestor_chain v w i = Some ch \<longleftrightarrow> upward (parent_of v w) ch \<and> hd ch = i \<and> distinct ch \<and> length ch \<le> 128"
  by (auto simp: surface_ancestor_chain_def bounded_parent_chain_iff MAX_SURFACE_ANCESTORS_def parent_of_def [abs_def])

text \<open>A surface on the way up has the rest of the way for its chain.\<close>

lemma ancestor_chain_suffix:
  assumes "surface_ancestor_chain v w i = Some ch" and "r \<in> set ch"
  shows "\<exists>rest. surface_ancestor_chain v w r = Some rest \<and> set rest \<subseteq> set ch"
proof -
  from assms(2) obtain xs ys where ch: "ch = xs @ r # ys" by (meson split_list)
  with assms(1) upward_suffix [of "parent_of v w" xs "r # ys"] show ?thesis
    by (intro exI [of _ "r # ys"]) (auto simp: ancestor_chain_iff)
qed

text \<open>What smithay guarantees: a surface in the tree of another one has a parent.\<close>

definition subsurfaces_have_parents :: "smithay \<Rightarrow> bool" where
  "subsurfaces_have_parents v \<longleftrightarrow> (\<forall>r s. s \<in> set (tree_surfaces (en_tree v r)) \<and> s \<noteq> r \<longrightarrow> en_parent v s \<noteq> None)"

lemma kept_popup_chain:
  assumes parents: "subsurfaces_have_parents v"
    and p: "p \<in> set (wn_popups w)" "ph_surface p \<notin> set (retired_surfaces v w i)"
    and chain: "surface_ancestor_chain v w (ph_surface p) = Some ch"
    and popups: "wn_popups w' = filter (\<lambda>p. ph_surface p \<notin> set (retired_surfaces v w i)) (wn_popups w)"
  shows "i \<notin> set ch" and "surface_ancestor_chain v w' (ph_surface p) = Some ch"
proof -
  have "ph_surface p \<noteq> i" using p(2) surface_retires by auto
  show i: "i \<notin> set ch"
  proof
    assume "i \<in> set ch"
    with p(1) chain \<open>ph_surface p \<noteq> i\<close> have "ph_surface p \<in> set (scene_roots v w i)"
      by (auto simp: scene_roots_def)
    with p(2) tree_has_surface [of "ph_surface p" v] show False by (auto simp: retired_surfaces_def)
  qed
  have "parent_of v w' s = parent_of v w s" if "s \<in> set ch" for s
  proof (cases "en_parent v s = None \<and> s \<in> set (retired_surfaces v w i)")
    case False
    have "find (\<lambda>p. ph_surface p = s) (filter (\<lambda>p. ph_surface p \<notin> g) ps) = find (\<lambda>p. ph_surface p = s) ps" if "s \<notin> g" for g and ps :: "popup_handle list"
      using that by (induction ps) auto
    with False popups show ?thesis by (auto simp: parent_of_def split: option.split)
  next
    case True
    then obtain r where r: "r \<in> set (scene_roots v w i)" "s \<in> set (tree_surfaces (en_tree v r))" by (auto simp: retired_surfaces_def)
    with True parents have "s = r" unfolding subsurfaces_have_parents_def by blast
    with i that r(1) obtain rest where "surface_ancestor_chain v w s = Some rest" "i \<in> set rest"
      by (auto simp: scene_roots_def split: option.splits)
    with ancestor_chain_suffix [OF chain that] i show ?thesis by auto
  qed
  then have "upward (parent_of v w') ch" using chain upward_cong unfolding ancestor_chain_iff by blast
  with chain show "surface_ancestor_chain v w' (ph_surface p) = Some ch" by (simp add: ancestor_chain_iff)
qed

lemma removed_references:
  "wn_drag (remove_surface_from_scene v i b w) \<notin> Some ` set (retired_surfaces v w i)"
  "wn_drag_request (remove_surface_from_scene v i b w) \<notin> Some ` set (retired_surfaces v w i)"
  "wn_focus (remove_surface_from_scene v i b w) \<notin> Some ` set (retired_surfaces v w i)"
  "wn_pointer (remove_surface_from_scene v i b w) \<notin> Some ` set (retired_surfaces v w i)"
  "wn_keyboard (remove_surface_from_scene v i b w) \<notin> Some ` set (retired_surfaces v w i)"
  "dom (wn_buffers (remove_surface_from_scene v i b w)) \<inter> set (retired_surfaces v w i) = {}"
  by (auto simp: remove_surface_from_scene_def Let_def clear_seat_focus_def clear_pointer_focus_def unmap_surfaces_def forget_def
      dom_def split: option.splits if_splits)

lemma removed_dirty: "i \<notin> set (wn_dirty (remove_surface_from_scene v i True w))"
  by (auto simp: remove_surface_from_scene_def Let_def mark_removed_def unmap_surfaces_def split: option.splits)

text \<open>
  C6: after the removal of a window, a popup or a surface nothing of the compositor refers to it,
  to the popups below it or to a surface of their trees: no tile, popup, pending callback, known
  buffer, dirty window, drag or focus of the seat; and every popup that stays hangs on the same
  chain of ancestors as before, which the removed surface is not part of.
\<close>

theorem removal_leaves_nothing:
  assumes "subsurfaces_have_parents v"
  shows "let w = run_events window_step es (windows_new rootless dims);
             w' = remove_surface_from_scene v i was_toplevel w; gone = set (retired_surfaces v w i)
         in i \<in> gone \<and> i \<notin> th_surface ` set (wn_toplevels w') \<and> i \<notin> ti_surface ` set (la_tiles (wn_layout w'))
            \<and> ph_surface ` set (wn_popups w') \<inter> gone = {} \<and> pc_source ` set (wn_callbacks w') \<inter> gone = {}
            \<and> dom (wn_buffers w') \<inter> gone = {}
            \<and> {wn_drag w', wn_drag_request w', wn_focus w', wn_pointer w', wn_keyboard w'} \<inter> Some ` gone = {}
            \<and> (if was_toplevel then i \<notin> set (wn_dirty w') \<and> Some i \<notin> pc_root ` set (wn_callbacks w') else True)
            \<and> (\<forall>p \<in> set (wn_popups w').
                 case surface_ancestor_chain v w (ph_surface p) of
                   None \<Rightarrow> True
                 | Some chain \<Rightarrow> i \<notin> set chain \<and> surface_ancestor_chain v w' (ph_surface p) = Some chain)"
proof -
  define w where "w = run_events window_step es (windows_new rootless dims)"
  have "windows_ok w" using wn.inv_run [of es rootless dims] by (simp add: w_def)
  then have tiles: "i \<notin> ti_surface ` set (la_tiles (wn_layout (remove_surface_from_scene v i was_toplevel w)))"
    using arg_cong [OF remove_tile_surfaces, of "wn_layout w" set i] by (auto simp: windows_ok_def removed_fields split: if_splits)
  have popups: "wn_popups (remove_surface_from_scene v i was_toplevel w) = filter (\<lambda>p. ph_surface p \<notin> set (retired_surfaces v w i)) (wn_popups w)"
    by (simp add: removed_fields)
  show ?thesis
    unfolding Let_def w_def [symmetric]
    using tiles surface_retires [of i v w] removed_references [of v i was_toplevel w] removed_dirty [of i v w] kept_popup_chain [OF assms _ _ _ popups]
    by (intro conjI) (auto simp: removed_fields split: option.split)
qed

text \<open>A window with a subsurface, a popup on the subsurface, a popup on that popup, and another window with a popup.\<close>

definition sample_smithay :: smithay where
  "sample_smithay = \<lparr>en_parent = (\<lambda>i. if i = 1 then Some 0 else None), en_below = (\<lambda>i. []),
     en_above = (\<lambda>i. if i = 0 then [Tree 1 [None]] else []), en_alive = (\<lambda>i. True), en_popup_alive = (\<lambda>r. True),
     en_callbacks = (\<lambda>i. [i]), en_buffer = (\<lambda>i. None)\<rparr>"

definition sample_events :: "window_event list" where
  "sample_events =
     [ToplevelCreated sample_smithay \<lparr>th_surface = 0, th_role = 0\<rparr>, ToplevelCreated sample_smithay \<lparr>th_surface = 4, th_role = 1\<rparr>,
      PopupCreated sample_smithay True \<lparr>ph_surface = 2, ph_role = 2, ph_parent = Some 1\<rparr>,
      PopupCreated sample_smithay True \<lparr>ph_surface = 3, ph_role = 3, ph_parent = Some 2\<rparr>,
      PopupCreated sample_smithay True \<lparr>ph_surface = 5, ph_role = 4, ph_parent = Some 4\<rparr>,
      PointerMoved (7, 7) (Some 3), LeftButton True False]"

lemma sample_tree: "tree_surfaces (en_tree sample_smithay r) = (if r = 0 then [1, 0] else [r])"
  by (simp add: tree_surfaces_def en_tree_def sample_smithay_def map_tree.simps)

lemma sample_parents: "subsurfaces_have_parents sample_smithay"
  unfolding subsurfaces_have_parents_def sample_tree by (auto simp: sample_smithay_def)

theorem removal_leaves_nothing_witness:
  "subsurfaces_have_parents sample_smithay
   \<and> (let w = run_events window_step sample_events (windows_new False (800, 600)); w' = remove_surface_from_scene sample_smithay 0 True w
      in ph_surface ` set (wn_popups w') \<inter> set (retired_surfaces sample_smithay w 0) = {}
         \<and> wn_pointer w = Some 3 \<and> wn_pointer w' = None \<and> wn_keyboard w' = None
         \<and> map ph_surface (wn_popups w) = [2, 3, 5] \<and> map ph_surface (wn_popups w') = [5] \<and> wn_popups_done w' = [2, 3]
         \<and> map ti_surface (la_tiles (wn_layout w)) = [0, 4] \<and> map ti_surface (la_tiles (wn_layout w')) = [4])"
proof -
  note gone = removal_leaves_nothing [OF sample_parents, of sample_events False "(800, 600)" 0 True]
  have "let w = run_events window_step sample_events (windows_new False (800, 600)); w' = remove_surface_from_scene sample_smithay 0 True w
      in wn_pointer w = Some 3 \<and> wn_pointer w' = None \<and> wn_keyboard w' = None
         \<and> map ph_surface (wn_popups w) = [2, 3, 5] \<and> map ph_surface (wn_popups w') = [5] \<and> wn_popups_done w' = [2, 3]
         \<and> map ti_surface (la_tiles (wn_layout w)) = [0, 4] \<and> map ti_surface (la_tiles (wn_layout w')) = [4]"
    by code_simp
  with gone sample_parents show ?thesis by (simp add: Let_def)
qed

subsection \<open>Frame callbacks\<close>

text \<open>The callbacks that clients hand over with an event, and those the compositor was handed and has not dropped.\<close>

definition delivered :: "window_event \<Rightarrow> nat list" where
  "delivered e =
     (case e of
        Committed v None i \<Rightarrow> concat (map (en_callbacks v) (tree_surfaces (en_tree v i)))
      | Committed v (Some cbs) i \<Rightarrow> cbs
      | _ \<Rightarrow> [])"

definition owed :: "windows \<Rightarrow> nat multiset" where
  "owed w = mset (map pc_callback (wn_callbacks w)) + mset (wn_cursor_callbacks w) + mset (wn_done w)"

definition removes :: "window_event \<Rightarrow> bool" where
  "removes e = (case e of ToplevelCreated _ _ \<Rightarrow> True | PopupCreated _ _ _ \<Rightarrow> True | ToplevelGone _ _ \<Rightarrow> True | PopupGone _ _ \<Rightarrow> True
     | SurfaceGone _ _ _ \<Rightarrow> True | _ \<Rightarrow> False)"

lemma owed_cong: "wn_callbacks w' = wn_callbacks w \<Longrightarrow> wn_cursor_callbacks w' = wn_cursor_callbacks w \<Longrightarrow> wn_done w' = wn_done w \<Longrightarrow> owed w' = owed w"
  by (simp add: owed_def)

lemma mset_map_partition: "mset (map f (filter P xs)) + mset (map f (filter (\<lambda>x. \<not> P x) xs)) = mset (map f xs)"
  by (induction xs) auto

lemma owed_send: "owed (send_frame_callbacks_for v x w) = owed w"
proof (cases x)
  case None
  then show ?thesis by (simp add: send_frame_callbacks_for_def take_frame_callbacks_for_def owed_def ac_simps)
next
  case (Some r)
  then show ?thesis
    using mset_map_partition [of pc_callback "\<lambda>c. callback_root v w c = Some r" "wn_callbacks w"]
    by (simp add: send_frame_callbacks_for_def take_frame_callbacks_for_def owed_def comp_def ac_simps)
qed

lemma owed_send_all: "owed (fold (\<lambda>r. send_frame_callbacks_for v (Some r)) rs w) = owed w"
  by (induction rs arbitrary: w) (auto simp: owed_send)

lemma owed_filter: "mset (map f (filter P xs)) \<subseteq># mset (map f xs)"
  by (induction xs) (auto simp: subset_mset.add_mono intro: subset_mset.order_trans)

lemma owed_removed: "owed (remove_surface_from_scene v i b w) \<subseteq># owed w"
  using owed_filter [of pc_callback _ "wn_callbacks w"] by (simp add: owed_def removed_fields)

lemma owed_unmapped: "owed (toplevel_destroyed v t w) \<subseteq># owed w" "owed (popup_destroyed v p w) \<subseteq># owed w"
  by (simp_all add: toplevel_destroyed_def popup_destroyed_def owed_removed)

lemma owed_mapped: "owed (map_toplevel t w) = owed w"
  by (simp add: map_toplevel_def Let_def owed_def)

lemma owed_new_toplevel: "owed (new_toplevel v t w) \<subseteq># owed w"
proof -
  have "owed (w'\<lparr>wn_configured := x\<rparr>) = owed w'" for w' x by (simp add: owed_def)
  then show ?thesis
    by (auto simp: new_toplevel_def Let_def owed_mapped owed_unmapped split: option.split)
qed

lemma owed_new_popup: "owed (new_popup v c p w) \<subseteq># owed w"
proof -
  have "owed (w'\<lparr>wn_popups := x, wn_redraw := y, wn_dirty := z\<rparr>) = owed w'" for w' x y z by (simp add: owed_def)
  then show ?thesis
    by (auto simp: new_popup_def Let_def owed_unmapped split: option.split)
qed

lemma owed_destroyed: "owed (destroyed v b i w) \<subseteq># owed w"
proof -
  have "owed (w'\<lparr>wn_sent := x\<rparr>) = owed w'" for w' x by (simp add: owed_def)
  then show ?thesis
    using owed_filter [of pc_callback _ "wn_callbacks w"] by (auto simp: destroyed_def Let_def owed_removed) (simp add: owed_def)
qed

lemma pc_committed: "map pc_callback (committed_callbacks v r i) = concat (map (en_callbacks v) (tree_surfaces (en_tree v i)))"
  by (simp add: committed_callbacks_def map_concat comp_def)

lemma pc_committed_mset:
  "image_mset pc_callback (mset (committed_callbacks v r i)) = mset (concat (map (en_callbacks v) (tree_surfaces (en_tree v i))))"
  using arg_cong [OF pc_committed, of mset v r i] by simp

lemma owed_commit: "owed (commit v c i w) = owed w + mset (delivered (Committed v c i))"
  by (auto simp: commit_def Let_def owed_def delivered_def pc_committed_mset simp del: mset_concat simp: ac_simps split: option.split)

lemma owed_frame: "owed (desktop_frame v r p s w) = owed w"
proof -
  have "owed (prepare_desktop v r w) = owed w"
    by (simp add: owed_def prepare_desktop_def retain_alive_def Let_def split: option.split)
  moreover have "owed (w'\<lparr>wn_redraw := x\<rparr>) = owed w'" for w' x by (simp add: owed_def)
  ultimately show ?thesis by (simp add: desktop_frame_def finish_desktop_def Let_def owed_send owed_send_all)
qed

lemma owed_cursor: "owed (cursor_image i w) = owed w"
  using mset_map_partition [of pc_callback "\<lambda>c. pc_source c = i" "wn_callbacks w"]
  by (simp add: cursor_image_def owed_def comp_def ac_simps)

lemma owed_rootless: "owed (rootless_frame v i b w) = owed w"
proof -
  have "owed (w'\<lparr>wn_dirty := x, wn_redraw := y\<rparr>) = owed w'" for w' x y by (simp add: owed_def)
  then show ?thesis by (simp add: rootless_frame_def Let_def owed_send)
qed

lemma owed_kept: "\<not> removes e \<Longrightarrow> owed (window_step e w) = owed w + mset (delivered e)"
proof (cases e)
  case (PointerMoved p hit)
  then show ?thesis by (auto simp: window_step_def delivered_def pointer_moved_def intro!: owed_cong)
next
  case (LeftButton pressed freezes)
  then show ?thesis by (auto simp: window_step_def delivered_def left_button_def Let_def intro!: owed_cong split: option.split)
next
  case (MoveRequested freezes i)
  then show ?thesis by (auto simp: window_step_def delivered_def move_request_def intro!: owed_cong)
next
  case CursorFrame
  then show ?thesis by (simp add: window_step_def delivered_def send_cursor_callbacks_def owed_def ac_simps)
qed (auto simp: removes_def window_step_def owed_commit owed_frame owed_cursor owed_rootless delivered_def)

lemma owed_step: "owed (window_step e w) \<subseteq># owed w + mset (delivered e)"
proof (cases "removes e")
  case True
  then show ?thesis
    by (cases e) (auto simp: removes_def window_step_def delivered_def owed_unmapped owed_new_toplevel owed_new_popup owed_destroyed)
qed (simp add: owed_kept)

lemma owed_run: "owed (run_events window_step es w) \<subseteq># owed w + mset (concat (map delivered es))"
proof (induction es arbitrary: w)
  case (Cons e es)
  from Cons [of "window_step e w"] owed_step [of e w] show ?case
    by (simp add: run_events_def) (metis (no_types, lifting) add.assoc subset_mset.add_right_mono subset_mset.order_trans)
qed (simp add: run_events_def)

text \<open>
  a frame callback that a client hands over is answered at most once and never invented: at
  any time the waiting and the answered callbacks are among the delivered ones, each as often; and
  only the removal of a window, a popup or a surface can drop one.
\<close>

theorem callbacks_at_most_once:
  "let w = run_events window_step es (windows_new rootless dims); w' = window_step e w
   in owed w \<subseteq># mset (concat (map delivered es))
      \<and> (if removes e then owed w' \<subseteq># owed w else owed w' = owed w + mset (delivered e))"
proof -
  have "owed (windows_new rootless dims) = {#}" by (simp add: owed_def windows_new_def)
  moreover have "delivered e = []" if "removes e" using that by (auto simp: removes_def delivered_def split: window_event.splits)
  ultimately show ?thesis
    using owed_run [of es "windows_new rootless dims"] owed_kept [of e] owed_step [of e "run_events window_step es (windows_new rootless dims)"]
    by (auto simp: Let_def)
qed

text \<open>The callbacks that a submitted frame answers: those of the completed windows, or all when nothing waits for an upload.\<close>

definition frame_answers :: "smithay \<Rightarrow> (sid \<Rightarrow> bool) \<Rightarrow> windows \<Rightarrow> pending_callback \<Rightarrow> bool" where
  "frame_answers v pending w c \<longleftrightarrow>
     (\<forall>i \<in> set (tile_surfaces (wn_layout w)). \<not> pending i)
     \<or> (\<exists>i \<in> set (tile_surfaces (wn_layout w)). \<not> pending i \<and> callback_root v w c = Some i)"

lemma callback_root_cong:
  "wn_toplevels w' = wn_toplevels w \<Longrightarrow> wn_popups w' = wn_popups w \<Longrightarrow> callback_root v w' = callback_root v w"
proof -
  assume same: "wn_toplevels w' = wn_toplevels w" "wn_popups w' = wn_popups w"
  then have "surface_ancestor_chain v w' = surface_ancestor_chain v w" by (simp only: surface_ancestor_chain_def [abs_def])
  with same show ?thesis by (simp only: callback_root_def [abs_def] root_toplevel_id_for_surface_def)
qed

lemma send_callbacks:
  "wn_callbacks (send_frame_callbacks_for v (Some r) w) = filter (\<lambda>c. callback_root v w c \<noteq> Some r) (wn_callbacks w)"
  "wn_done (send_frame_callbacks_for v (Some r) w) = wn_done w @ map pc_callback (filter (\<lambda>c. callback_root v w c = Some r) (wn_callbacks w))"
  "callback_root v (send_frame_callbacks_for v x w) = callback_root v w"
  by (simp_all add: send_frame_callbacks_for_def take_frame_callbacks_for_def comp_def)
     (rule callback_root_cong; simp add: send_frame_callbacks_for_def take_frame_callbacks_for_def split: option.split)

lemma send_all_callbacks:
  "wn_callbacks (fold (\<lambda>r. send_frame_callbacks_for v (Some r)) rs w) = filter (\<lambda>c. callback_root v w c \<notin> Some ` set rs) (wn_callbacks w)"
  by (induction rs arbitrary: w) (auto simp: send_callbacks conj_commute intro!: filter_cong)

lemma multiset_rest: "a + k = x \<Longrightarrow> k + c + d' = x + c + d \<Longrightarrow> d' = d + (a :: 'a multiset)"
  by (auto simp: ac_simps)

lemma finish_callbacks:
  "wn_callbacks (finish_desktop v pending submitted w) =
     (if submitted then filter (\<lambda>c. \<not> frame_answers v pending w c) (wn_callbacks w) else wn_callbacks w)"
proof -
  have redraw: "callback_root v (w\<lparr>wn_redraw := b\<rparr>) = callback_root v w" for b by (rule callback_root_cong) simp_all
  have roots: "set (completed_roots pending w) = {i \<in> set (tile_surfaces (wn_layout w)). \<not> pending i}"
    by (auto simp: completed_roots_def)
  show ?thesis
  proof (cases "\<exists>t \<in> set (la_tiles (wn_layout w)). pending (ti_surface t)")
    case True
    then have "(\<not> frame_answers v pending w c) = (callback_root v w c \<notin> Some ` set (completed_roots pending w))" for c
      by (auto simp: frame_answers_def roots)
    with True show ?thesis by (simp add: finish_desktop_def Let_def send_all_callbacks redraw)
  next
    case False
    then have "frame_answers v pending w c" for c by (auto simp: frame_answers_def)
    with False show ?thesis by (simp add: finish_desktop_def Let_def send_frame_callbacks_for_def take_frame_callbacks_for_def)
  qed
qed


end
