(* ===== verification/Host_Proxy.thy ===== *)
theory Host_Proxy
  imports Session_Profile "HOL-Library.Word"
begin

text \<open>
  The bridge that lets the containers of Apple's runtime use a proxy on the loopback interface of
  the host (\<open>network.rs\<close>): the network of the containers, the proxy named by the environment, and
  the loop that accepts connections. IPv4 addresses are 32-bit words. The resolution of host names,
  the output of \<open>container network list\<close> and the results of system calls are arguments.
\<close>

unbundle bit_operations_syntax

subsection \<open>Addresses and networks\<close>

type_synonym ipv4 = "32 word"

datatype ip_addr = V4 ipv4 | V6 "128 word"

type_synonym socket_addr = "ip_addr \<times> nat"

definition is_loopback :: "ip_addr \<Rightarrow> bool" where
  "is_loopback a = (case a of V4 w \<Rightarrow> drop_bit 24 w = 127 | V6 w \<Rightarrow> w = 1)"

text \<open>\<open>str::split\<close>, \<open>str::split_once\<close> and \<open>str::rsplit_once\<close> at a character.\<close>

fun split_at_char :: "char \<Rightarrow> string \<Rightarrow> string \<Rightarrow> string list" where
  "split_at_char q acc [] = [rev acc]"
| "split_at_char q acc (c # s) = (if c = q then rev acc # split_at_char q [] s else split_at_char q (c # acc) s)"

fun split_once :: "string \<Rightarrow> string \<Rightarrow> (string \<times> string) option" where
  "split_once p [] = (if p = [] then Some ([], []) else None)"
| "split_once p (c # s) =
     (case strip_prefix p (c # s) of
        Some rest \<Rightarrow> Some ([], rest)
      | None \<Rightarrow> map_option (\<lambda>(a, b). (c # a, b)) (split_once p s))"

definition rsplit_once :: "char \<Rightarrow> string \<Rightarrow> (string \<times> string) option" where
  "rsplit_once q s = map_option (\<lambda>(a, b). (rev b, rev a)) (split_once [q] (rev s))"

definition digits_value :: "string \<Rightarrow> nat" where
  "digits_value = foldl (\<lambda>n c. 10 * n + (of_char c - 48)) 0"

text \<open>\<open>str::parse\<close> for an unsigned type with the given number of values.\<close>

definition parse_unsigned :: "nat \<Rightarrow> string \<Rightarrow> nat option" where
  "parse_unsigned lim s =
     (let digits = (case s of c # rest \<Rightarrow> if c = CHR ''+'' then rest else s | [] \<Rightarrow> [])
      in if digits = [] \<or> \<not> list_all is_ascii_digit digits \<or> lim \<le> digits_value digits then None else Some (digits_value digits))"

text \<open>\<open>Ipv4Addr::from_str\<close>: four octets without leading zeros.\<close>

definition parse_octet :: "string \<Rightarrow> nat option" where
  "parse_octet s =
     (if s = [] \<or> \<not> list_all is_ascii_digit s \<or> 3 < length s \<or> (1 < length s \<and> hd s = CHR ''0'') \<or> 255 < digits_value s
      then None else Some (digits_value s))"

definition octets :: "nat \<Rightarrow> nat \<Rightarrow> nat \<Rightarrow> nat \<Rightarrow> ipv4" where
  "octets a b c d = of_nat (a * 2 ^ 24 + b * 2 ^ 16 + c * 2 ^ 8 + d)"

definition parse_ipv4 :: "string \<Rightarrow> ipv4 option" where
  "parse_ipv4 s =
     (case map parse_octet (split_at_char (CHR ''.'') [] s) of
        [Some a, Some b, Some c, Some d] \<Rightarrow> Some (octets a b c d)
      | _ \<Rightarrow> None)"

definition show_ipv4 :: "ipv4 \<Rightarrow> string" where
  "show_ipv4 w =
     join ''.'' (map (\<lambda>k. decimal (unat (drop_bit k w AND 255))) [24, 16, 8, 0])"

record subnet =
  sn_network :: ipv4
  sn_mask :: ipv4

definition prefix_mask :: "nat \<Rightarrow> ipv4" where
  "prefix_mask p = (if p = 0 then 0 else push_bit (32 - p) (- 1))"

definition subnet_parse :: "string \<Rightarrow> subnet option" where
  "subnet_parse s =
     (case split_once ''/'' s of
        None \<Rightarrow> None
      | Some (address, prefix) \<Rightarrow>
          (case parse_ipv4 address of
             None \<Rightarrow> None
           | Some a \<Rightarrow>
               (case parse_unsigned (2 ^ 32) prefix of
                  None \<Rightarrow> None
                | Some p \<Rightarrow>
                    if 30 < p then None
                    else Some \<lparr>sn_network = a AND prefix_mask p, sn_mask = prefix_mask p\<rparr>)))"

definition gateway :: "subnet \<Rightarrow> ipv4" where
  "gateway n = sn_network n + 1"

definition subnet_contains :: "subnet \<Rightarrow> ipv4 \<Rightarrow> bool" where
  "subnet_contains n a \<longleftrightarrow> a AND sn_mask n = sn_network n"

text \<open>The network of the first parsable word in the lines of the default network.\<close>

definition apple_default_subnet :: "string + string \<times> bool \<times> string \<Rightarrow> string + subnet" where
  "apple_default_subnet output =
     (case output of
        Inl e \<Rightarrow> Inl e
      | Inr (code, succeeded, out) \<Rightarrow>
          if \<not> succeeded then Inl (''`container network list` exited with '' @ code)
          else ok_or ''Apple Container's default IPv4 subnet was not found''
                 (find_map subnet_parse
                   (concat (map split_whitespace
                     (filter (\<lambda>l. (case split_whitespace l of w # _ \<Rightarrow> w = ''default'' | [] \<Rightarrow> False)) (lines out))))))"

subsection \<open>The proxy of the host\<close>

definition PROXY_ENV_KEYS :: "string list" where
  "PROXY_ENV_KEYS = [''HTTPS_PROXY'', ''HTTP_PROXY'', ''ALL_PROXY'', ''https_proxy'', ''http_proxy'', ''all_proxy'']"

definition has_proxy_environment :: "string list \<Rightarrow> bool" where
  "has_proxy_environment environment \<longleftrightarrow>
     list_ex (\<lambda>entry. case split_once ''='' entry of
         None \<Rightarrow> False | Some (key, v) \<Rightarrow> List.member PROXY_ENV_KEYS key \<and> trim v \<noteq> []) environment"

record proxy_target =
  px_scheme :: string
  px_credentials :: "string option"
  px_target :: socket_addr

definition host_and_port :: "string \<Rightarrow> (string \<times> string) option" where
  "host_and_port s = (case strip_prefix ''['' s of Some inner \<Rightarrow> split_once '']:'' inner | None \<Rightarrow> rsplit_once (CHR '':'') s)"

text \<open>\<open>resolve\<close> stands for the resolution of a name and port.\<close>

definition parse_loopback_proxy :: "(string \<Rightarrow> nat \<Rightarrow> socket_addr list option) \<Rightarrow> string \<Rightarrow> proxy_target option" where
  "parse_loopback_proxy resolve v =
     (case split_once ''://'' (trim v) of
        None \<Rightarrow> None
      | Some (scheme, remainder) \<Rightarrow>
          (let authority = hd (split_at_char (CHR ''/'') [] remainder);
               (credentials, hp) = (case rsplit_once (CHR ''@'') authority of
                   Some (c, rest) \<Rightarrow> (Some c, rest) | None \<Rightarrow> (None, authority))
           in case host_and_port hp of
                None \<Rightarrow> None
              | Some (name, port) \<Rightarrow>
                  (case parse_unsigned (2 ^ 16) port of
                     None \<Rightarrow> None
                   | Some n \<Rightarrow>
                       (case resolve name n of
                          None \<Rightarrow> None
                        | Some addresses \<Rightarrow>
                            map_option (\<lambda>a. \<lparr>px_scheme = scheme, px_credentials = credentials, px_target = a\<rparr>)
                              (find (\<lambda>a. is_loopback (fst a)) addresses)))))"

definition loopback_proxy_from_environment ::
  "(string \<Rightarrow> nat \<Rightarrow> socket_addr list option) \<Rightarrow> (string \<Rightarrow> string option) \<Rightarrow> proxy_target option" where
  "loopback_proxy_from_environment resolve var =
     find_map (\<lambda>key. case var key of
         None \<Rightarrow> None | Some v \<Rightarrow> if trim v = [] then None else parse_loopback_proxy resolve v) PROXY_ENV_KEYS"

subsection \<open>The bridge\<close>

text \<open>
  Ten attempts to bind the gateway address, then any address; the attempts answer with a port or an
  error.
\<close>

fun bind_gateway :: "nat \<Rightarrow> (string + nat) list \<Rightarrow> string option \<Rightarrow> string option + nat" where
  "bind_gateway 0 answers failed = Inl failed"
| "bind_gateway (Suc n) [] failed = Inl failed"
| "bind_gateway (Suc n) (Inr port # answers) failed = Inr port"
| "bind_gateway (Suc n) (Inl e # answers) failed = bind_gateway n answers (Some e)"

definition bind_apple_listener :: "ipv4 \<Rightarrow> (string + nat) list \<Rightarrow> string + nat \<Rightarrow> string + ipv4 \<times> nat" where
  "bind_apple_listener gw answers unspecified =
     (case bind_gateway 10 answers None of
        Inr port \<Rightarrow> Inr (gw, port)
      | Inl failed \<Rightarrow>
          (case unspecified of
             Inr port \<Rightarrow> Inr (0, port)
           | Inl e \<Rightarrow> Inl (''could not bind the Apple Container proxy bridge on '' @ show_ipv4 gw @ '' (''
               @ (case failed of None \<Rightarrow> ''unknown error'' | Some f \<Rightarrow> f) @ '') or a source-filtered fallback ('' @ e @ '')'')))"

record bridge =
  br_url :: string
  br_bound :: "ipv4 \<times> nat"
  br_subnet :: subnet
  br_target :: socket_addr

text \<open>What the operating system answers while the bridge starts.\<close>

record host_answers =
  ho_resolve :: "string \<Rightarrow> nat \<Rightarrow> socket_addr list option"
  ho_var :: "string \<Rightarrow> string option"
  ho_networks :: "string + string \<times> bool \<times> string"
  ho_binds :: "(string + nat) list"
  ho_unspecified :: "string + nat"
  ho_setup :: "string + unit"

definition host_proxy_start :: "host_answers \<Rightarrow> string + bridge option" where
  "host_proxy_start h =
     (case loopback_proxy_from_environment (ho_resolve h) (ho_var h) of
        None \<Rightarrow> Inr None
      | Some proxy \<Rightarrow>
          and_then (apple_default_subnet (ho_networks h)) (\<lambda>n.
          and_then (bind_apple_listener (gateway n) (ho_binds h) (ho_unspecified h)) (\<lambda>bound.
          and_then (ho_setup h) (\<lambda>_.
            Inr (Some \<lparr>br_url = px_scheme proxy @ ''://'' @ (case px_credentials proxy of None \<Rightarrow> [] | Some c \<Rightarrow> c @ ''@'')
                              @ show_ipv4 (gateway n) @ '':'' @ decimal (snd bound),
                       br_bound = bound, br_subnet = n, br_target = px_target proxy\<rparr>)))))"

definition container_environment :: "bridge \<Rightarrow> string list" where
  "container_environment b = map (\<lambda>key. key @ ''='' @ br_url b) [''HTTP_PROXY'', ''HTTPS_PROXY'', ''http_proxy'', ''https_proxy'']"

text \<open>The environment of the containers, unless the user configured a proxy in it.\<close>

definition relay_environment :: "string list \<Rightarrow> host_answers \<Rightarrow> string list \<times> bridge option" where
  "relay_environment environment h =
     (if has_proxy_environment environment then (environment, None)
      else case host_proxy_start h of
        Inr (Some b) \<Rightarrow> (environment @ container_environment b, Some b)
      | _ \<Rightarrow> (environment, None))"

subsection \<open>Accepting connections\<close>

text \<open>
  What a pass of the loop observes: the stop flag, and what \<open>accept\<close> returned (the peer and whether
  its stream could be set up and its thread started). What it does: forward the peer to the target, shut it down, or
  drop it.
\<close>

datatype accept_result = Accepted socket_addr bool bool | WouldBlock | AcceptFailed string

datatype bridge_action = Forward socket_addr socket_addr | ShutDown socket_addr | DropStream socket_addr | Sleep | Report string

fun accept_connections :: "bridge \<Rightarrow> (bool \<times> accept_result) list \<Rightarrow> bridge_action list" where
  "accept_connections b [] = []"
| "accept_connections b ((stop, result) # rest) =
     (if stop then []
      else case result of
        Accepted peer ready started \<Rightarrow>
          (if \<not> (case fst peer of V4 a \<Rightarrow> subnet_contains (br_subnet b) a | V6 _ \<Rightarrow> False)
           then ShutDown peer # accept_connections b rest
           else if \<not> ready then DropStream peer # accept_connections b rest
           else (if started then Forward peer (br_target b) else DropStream peer) # accept_connections b rest)
      | WouldBlock \<Rightarrow> Sleep # accept_connections b rest
      | AcceptFailed e \<Rightarrow> [Report (''cocoa-way proxy bridge stopped: '' @ e)])"

subsection \<open>The network of the containers\<close>

lemma prefix_mask_is: "p \<le> 32 \<Longrightarrow> prefix_mask p = NOT (mask (32 - p))"
  by (cases "p = 0") (simp_all add: prefix_mask_def push_bit_minus_one_eq_not_mask, simp add: bit_eq_iff bit_simps)

lemma and_mask_is: "a AND NOT (mask k) = push_bit k (drop_bit k a)" for a :: ipv4
  by (rule bit_eqI) (auto simp: bit_simps)

lemma subnet_parse_Some:
  assumes "subnet_parse s = Some n"
  shows "\<exists>k a. 2 \<le> k \<and> k \<le> 32 \<and> sn_network n = push_bit k (drop_bit k a) \<and> sn_mask n = NOT (mask k)"
proof -
  have "\<exists>a p. p \<le> 30 \<and> n = \<lparr>sn_network = a AND prefix_mask p, sn_mask = prefix_mask p\<rparr>"
    using assms by (auto simp: subnet_parse_def simp del: subnet.equality split: option.splits if_splits) (metis not_le)
  then obtain a p where "p \<le> 30" "n = \<lparr>sn_network = a AND prefix_mask p, sn_mask = prefix_mask p\<rparr>" by blast
  then show ?thesis by (intro exI [of _ "32 - p"] exI [of _ a]) (simp_all add: prefix_mask_is and_mask_is)
qed

lemma drop_push_drop: "drop_bit k (push_bit k (drop_bit k a)) = drop_bit k a" for a :: ipv4
  by (rule bit_eqI) (auto simp: bit_simps dest: bit_imp_le_length)

lemma push_drop_eq: "push_bit k (drop_bit k a) = push_bit k (drop_bit k b) \<longleftrightarrow> drop_bit k a = drop_bit k b" for a b :: ipv4
  by (metis drop_push_drop)

lemma drop_one: "drop_bit k (push_bit k x + 1) = drop_bit k (push_bit k x)" if "0 < k" for x :: ipv4
proof -
  have "push_bit k x + 1 = push_bit k x OR 1" using that by (intro disjunctive_add) (auto simp: bit_simps)
  moreover have "drop_bit k (1 :: ipv4) = 0" using that by (cases k) simp_all
  ultimately show ?thesis by (simp add: drop_bit_or)
qed

lemma unat_push_one:
  fixes x :: ipv4
  assumes "0 < k"
  shows "unat (push_bit k x + 1) = unat (push_bit k x) + 1"
proof -
  have "push_bit k x \<noteq> - 1"
  proof
    assume "push_bit k x = - 1"
    then have "bit (push_bit k x) 0 = bit (- 1 :: ipv4) 0" by simp
    with assms show False by (simp add: bit_push_bit_iff)
  qed
  then have "1 + push_bit k x \<noteq> 0" by (metis add_eq_0_iff)
  from unatSuc [OF this] show ?thesis by (simp add: add.commute)
qed

text \<open>
  the network that a word of the runtime's output names is exactly the addresses that agree
  with its base in the leading bits, at least four of them; the gateway is the address after the
  base, computed without wrapping around, lies in the network and is neither its base nor its
  last address.
\<close>

theorem container_network_exact:
  "case subnet_parse s of
     None \<Rightarrow> True
   | Some n \<Rightarrow>
       \<exists>k. 2 \<le> k \<and> k \<le> 32 \<and> subnet_contains n = (\<lambda>a. drop_bit k a = drop_bit k (sn_network n))
         \<and> subnet_contains n (gateway n) \<and> unat (gateway n) = unat (sn_network n) + 1
         \<and> gateway n \<noteq> sn_network n \<and> gateway n \<noteq> sn_network n OR mask k"
proof (cases "subnet_parse s")
  case (Some n)
  then obtain k a where k: "2 \<le> k" "k \<le> 32" and n: "sn_network n = push_bit k (drop_bit k a)" "sn_mask n = NOT (mask k)"
    using subnet_parse_Some by blast
  have contained: "subnet_contains n = (\<lambda>b. drop_bit k b = drop_bit k (sn_network n))"
    by (rule ext) (simp add: subnet_contains_def n and_mask_is push_drop_eq drop_push_drop)
  have gw: "drop_bit k (gateway n) = drop_bit k (sn_network n)" "unat (gateway n) = unat (sn_network n) + 1"
    using k by (simp_all add: gateway_def n drop_one unat_push_one)
  have "gateway n = push_bit k (drop_bit k a) OR 1"
    unfolding gateway_def n using k by (intro disjunctive_add) (auto simp: bit_simps)
  then have "\<not> bit (gateway n) 1" "bit (sn_network n OR mask k) 1"
    using k by (auto simp: n bit_simps)
  then have "gateway n \<noteq> sn_network n OR mask k" by metis
  with contained gw k show ?thesis unfolding Some option.case
    by (intro exI [of _ k]) auto
qed simp

subsection \<open>Whom the bridge serves\<close>

definition serves_containers :: "bridge \<Rightarrow> bridge_action \<Rightarrow> bool" where
  "serves_containers b act =
     (case act of
        Forward peer target \<Rightarrow> target = br_target b \<and> (case fst peer of V4 a \<Rightarrow> subnet_contains (br_subnet b) a | V6 _ \<Rightarrow> False)
      | _ \<Rightarrow> True)"

lemma accept_serves: "list_all (serves_containers b) (accept_connections b obs)"
  by (induction b obs rule: accept_connections.induct)
     (auto simp: serves_containers_def split: accept_result.splits ip_addr.splits)

lemma find_loopback: "find (\<lambda>a. is_loopback (fst a)) xs = Some a \<Longrightarrow> is_loopback (fst a)"
  by (auto simp: find_Some_iff)

lemma proxy_target_loopback: "parse_loopback_proxy resolve v = Some p \<Longrightarrow> is_loopback (fst (px_target p))"
  by (auto simp: parse_loopback_proxy_def Let_def dest!: find_loopback split: option.splits prod.splits)

lemma find_map_from: "find_map f xs = Some y \<Longrightarrow> \<exists>x. f x = Some y"
  by (induction xs) (auto split: option.splits)

lemma environment_target_loopback:
  "loopback_proxy_from_environment resolve var = Some p \<Longrightarrow> is_loopback (fst (px_target p))"
  by (auto simp: loopback_proxy_from_environment_def dest!: find_map_from split: option.splits if_splits intro: proxy_target_loopback)

lemma default_subnet_parsed: "apple_default_subnet out = Inr n \<Longrightarrow> \<exists>s. subnet_parse s = Some n"
  by (auto simp: apple_default_subnet_def ok_or_def dest: find_map_from split: sum.splits if_splits option.splits)

lemma bound_where: "bind_apple_listener g answers u = Inr bound \<Longrightarrow> fst bound = g \<or> fst bound = 0"
  by (auto simp: bind_apple_listener_def split: sum.splits)

lemma and_then_Inr_cases: "and_then x f = Inr z \<longleftrightarrow> (\<exists>y. x = Inr y \<and> f y = Inr z)"
  by (cases x) (auto simp: and_then_def)


end
