(* ===== verification/Connections.thy ===== *)
theory Connections
  imports Runtime_Paths "HOL-Library.Char_ord" "HOL-Library.List_Lexorder"
begin

text \<open>
  Saved connections and the displays they may use (\<open>connections.rs\<close>, with the removal of stale
  display directories in \<open>main.rs\<close>): the file of connections, the command of a connection, and the
  checks on a display directory before its socket is used. The TOML library, the file system and
  the results of system calls are arguments.
\<close>

subsection \<open>Saved connections\<close>

record connection =
  cn_name :: string
  cn_type :: string
  cn_host :: "string option"
  cn_user :: "string option"
  cn_port :: "nat option"
  cn_identity :: "string option"
  cn_socket :: "string option"
  cn_app :: "string option"
  cn_display :: "string option"
  cn_compression :: "string option"
  cn_password :: "string option"
  cn_waypipe :: "string option"

record connections_config =
  cf_waypipe :: "string option"
  cf_connections :: "connection list"

text \<open>The serializer never sees a password.\<close>

definition without_password :: "connection \<Rightarrow> connection" where
  "without_password c = c\<lparr>cn_password := None\<rparr>"

definition serialized :: "connections_config \<Rightarrow> connections_config" where
  "serialized cfg = cfg\<lparr>cf_connections := map without_password (cf_connections cfg)\<rparr>"

record toml =
  tm_parse :: "string \<Rightarrow> string + connections_config"
  tm_print :: "connections_config \<Rightarrow> string + string"

text \<open>The file and its temporary sibling; the errors that system calls return.\<close>

record connection_files =
  fl_content :: "string option"
  fl_mode :: nat
  fl_temporary :: "string option"

record file_errors =
  er_read :: "string option"
  er_mkdir :: "string option"
  er_create :: "string option"
  er_header :: "string option"
  er_body :: "string option"
  er_sync :: "string option"
  er_rename :: "string option"
  er_mode :: "string option"
  er_remove :: "string option"

datatype read_outcome = Content string | NotFound | ReadError string

definition read_file :: "file_errors \<Rightarrow> connection_files \<Rightarrow> read_outcome" where
  "read_file er fl =
     (case fl_content fl of
        None \<Rightarrow> NotFound
      | Some t \<Rightarrow> (case er_read er of None \<Rightarrow> Content t | Some e \<Rightarrow> ReadError e))"

definition EXAMPLE :: string where
  \<open>EXAMPLE = concat (map (\<lambda>l. l @ [CHR 0x0A])
    [''# cocoa-way connections'',
     ''# Each [[connection]] block defines a remote machine to connect to via waypipe.'',
     ''# Optional: set this if waypipe is installed somewhere cocoa-way cannot discover.'',
     ''# waypipe_path = "/opt/homebrew/bin/waypipe"'',
     '''',
     ''# --- Local VM example (Unix socket) ---'',
     ''# [[connection]]'',
     ''# name = "Linux VM"'',
     ''# type = "local"'',
     ''# socket = "/tmp/waypipe-vm.sock"'',
     ''# app = "weston-terminal"'',
     ''# display = "default"'',
     '''',
     ''# --- Remote SSH example ---'',
     ''# [[connection]]'',
     ''# name = "Home Server"'',
     ''# type = "ssh"'',
     ''# host = "192.168.1.100"'',
     ''# user = "jiaxi"'',
     ''# app = "weston-terminal"'',
     ''# port = 22'',
     ''# identity = "~/.ssh/id_rsa"'',
     ''# display = "display-1"'',
     ''# compression = "zstd"''])\<close>

definition inherit_waypipe :: "connections_config \<Rightarrow> connection list" where
  "inherit_waypipe cfg =
     map (\<lambda>c. if cn_waypipe c = None then c\<lparr>cn_waypipe := cf_waypipe cfg\<rparr> else c) (cf_connections cfg)"

text \<open>Only a missing file is created, with an example; a file that cannot be read or parsed is kept.\<close>

definition load_connections :: "toml \<Rightarrow> file_errors \<Rightarrow> connection_files \<Rightarrow> connection list \<times> connection_files" where
  "load_connections tm er fl =
     (case read_file er fl of
        NotFound \<Rightarrow> ([], if er_create er = None then fl\<lparr>fl_content := Some EXAMPLE\<rparr> else fl)
      | ReadError e \<Rightarrow> ([], fl)
      | Content t \<Rightarrow> (case tm_parse tm t of Inl e \<Rightarrow> ([], fl) | Inr cfg \<Rightarrow> (inherit_waypipe cfg, fl)))"

definition HEADER :: string where
  "HEADER = ''# Cocoa-Way saved connections. Passwords are never stored.'' @ [CHR 0x0A]"

text \<open>Create, write, sync, rename, restrict; the first error ends it, with the temporary file as it is by then.\<close>

definition replace_file :: "file_errors \<Rightarrow> string \<Rightarrow> connection_files \<Rightarrow> (string + unit) \<times> connection_files" where
  "replace_file er t fl =
     (case er_create er of Some e \<Rightarrow> (Inl e, fl) | None \<Rightarrow>
      case er_header er of Some e \<Rightarrow> (Inl e, fl\<lparr>fl_temporary := Some []\<rparr>) | None \<Rightarrow>
      case er_body er of Some e \<Rightarrow> (Inl e, fl\<lparr>fl_temporary := Some HEADER\<rparr>) | None \<Rightarrow>
      case er_sync er of Some e \<Rightarrow> (Inl e, fl\<lparr>fl_temporary := Some (HEADER @ t)\<rparr>) | None \<Rightarrow>
      case er_rename er of Some e \<Rightarrow> (Inl e, fl\<lparr>fl_temporary := Some (HEADER @ t)\<rparr>) | None \<Rightarrow>
      case er_mode er of Some e \<Rightarrow> (Inl e, fl\<lparr>fl_content := Some (HEADER @ t), fl_temporary := None, fl_mode := 384\<rparr>) | None \<Rightarrow>
        (Inr (), fl\<lparr>fl_content := Some (HEADER @ t), fl_temporary := None, fl_mode := 384\<rparr>))"

definition stored_connection :: "connections_config \<Rightarrow> connection \<Rightarrow> connection" where
  "stored_connection cfg c =
     (let s = (without_password c)\<lparr>cn_name := trim (cn_name c)\<rparr>
      in if cn_waypipe s = cf_waypipe cfg then s\<lparr>cn_waypipe := None\<rparr> else s)"

text \<open>Updated by name.\<close>

definition put_connection :: "connection \<Rightarrow> connection list \<Rightarrow> nat \<times> connection list" where
  "put_connection s cs =
     (case position (\<lambda>c. cn_name c = cn_name s) cs of
        Some k \<Rightarrow> (k, cs[k := s])
      | None \<Rightarrow> (length cs, cs @ [s]))"

definition blank :: "string option \<Rightarrow> bool" where
  "blank x = (case x of None \<Rightarrow> True | Some s \<Rightarrow> trim s = [])"

definition read_config :: "toml \<Rightarrow> file_errors \<Rightarrow> connection_files \<Rightarrow> string + connections_config" where
  "read_config tm er fl =
     (case read_file er fl of
        NotFound \<Rightarrow> Inr \<lparr>cf_waypipe = None, cf_connections = []\<rparr>
      | ReadError e \<Rightarrow> Inl (''failed to read: '' @ e)
      | Content t \<Rightarrow> (case tm_parse tm t of Inl e \<Rightarrow> Inl (''failed to parse: '' @ e) | Inr cfg \<Rightarrow> Inr cfg))"

definition save_connection_at :: "toml \<Rightarrow> file_errors \<Rightarrow> connection \<Rightarrow> connection_files \<Rightarrow> (string + nat) \<times> connection_files" where
  "save_connection_at tm er c fl =
     (if trim (cn_name c) = [] then (Inl ''a saved connection requires a name'', fl)
      else if cn_type c = ''ssh'' \<and> blank (cn_host c) then (Inl ''an SSH connection requires a host'', fl)
      else case read_config tm er fl of
        Inl e \<Rightarrow> (Inl e, fl)
      | Inr cfg \<Rightarrow>
          (case put_connection (stored_connection cfg c) (cf_connections cfg) of (k, cs) \<Rightarrow>
           case tm_print tm (serialized (cfg\<lparr>cf_connections := cs\<rparr>)) of
             Inl e \<Rightarrow> (Inl (''failed to serialize connection config: '' @ e), fl)
           | Inr t \<Rightarrow>
               (case er_mkdir er of
                  Some e \<Rightarrow> (Inl (''failed to create: '' @ e), fl)
                | None \<Rightarrow>
                    (case replace_file er t fl of
                       (Inr _, fl') \<Rightarrow> (Inr k, fl')
                     | (Inl e, fl') \<Rightarrow> (Inl (''failed to save: '' @ e), if er_remove er = None then fl'\<lparr>fl_temporary := None\<rparr> else fl')))))"

subsection \<open>Display directories\<close>

text \<open>\<open>stat\<close> results; a mode has the nine permission bits and the sticky bit.\<close>

datatype file_kind = Directory | Regular | Symlink | Socket | OtherKind

record meta =
  mt_kind :: file_kind
  mt_uid :: nat
  mt_mode :: nat
  mt_dev :: nat
  mt_ino :: nat
  mt_links :: nat
  mt_len :: nat

type_synonym path = "bool \<times> string list"

text \<open>
  What the file system answers at one time: by path (\<open>lstat\<close>, the canonical path, opening a directory
  without following a link) and below an open directory, which is known by its device and inode.
\<close>

datatype kill_result = Delivered | NoProcess | Denied

record view =
  vw_lstat :: "path \<Rightarrow> meta option"
  vw_canonical :: "path \<Rightarrow> string list option"
  vw_open_directory :: "path \<Rightarrow> meta option"
  vw_open_child :: "nat \<times> nat \<Rightarrow> string \<Rightarrow> (meta \<times> string) option"
  vw_stat_child :: "nat \<times> nat \<Rightarrow> string \<Rightarrow> meta option"
  vw_entries :: "nat \<times> nat \<Rightarrow> string list option"
  vw_is_utf8 :: "string \<Rightarrow> bool"
  vw_kill :: "int \<Rightarrow> kill_result"

definition others_write :: "meta \<Rightarrow> bool" where
  "others_write m \<longleftrightarrow> mt_mode m AND 18 \<noteq> 0"

definition sticky :: "meta \<Rightarrow> bool" where
  "sticky m \<longleftrightarrow> mt_mode m AND 512 \<noteq> 0"

definition trusted_metadata :: "nat \<Rightarrow> bool \<Rightarrow> meta \<Rightarrow> bool" where
  "trusted_metadata me directory m \<longleftrightarrow> mt_uid m = me \<and> mt_mode m AND (if directory then 63 else 18) = 0"

definition trusted_ancestor :: "nat \<Rightarrow> meta \<Rightarrow> bool" where
  "trusted_ancestor me m \<longleftrightarrow>
     mt_kind m = Directory \<and> (mt_uid m = 0 \<or> mt_uid m = me) \<and> (\<not> others_write m \<or> (mt_uid m = 0 \<and> sticky m))"

text \<open>On the path as given a link may be followed that belongs to the system.\<close>

definition trusted_alias :: "nat \<Rightarrow> meta \<Rightarrow> bool" where
  "trusted_alias me m \<longleftrightarrow> (if mt_kind m = Symlink then mt_uid m = 0 else trusted_ancestor me m)"

definition parent_path :: "path \<Rightarrow> path" where
  "parent_path p =
     (if snd p = [] \<or> (\<not> fst p \<and> butlast (snd p) = []) then (False, [''.'']) else (fst p, butlast (snd p)))"

text \<open>A path and those above it, without the empty one.\<close>

definition ancestors :: "path \<Rightarrow> path list" where
  "ancestors p = filter (\<lambda>a. fst a \<or> snd a \<noteq> []) (map (\<lambda>n. (fst p, take n (snd p))) (rev [0..<Suc (length (snd p))]))"

definition all_metadata :: "(path \<Rightarrow> meta option) \<Rightarrow> (meta \<Rightarrow> bool) \<Rightarrow> path list \<Rightarrow> bool" where
  "all_metadata lstat ok ps = list_all (\<lambda>p. case lstat p of None \<Rightarrow> False | Some m \<Rightarrow> ok m) ps"

text \<open>\<open>TrustedDisplayDirectory::open\<close> keeps the directory open; its metadata stand for it.\<close>

definition open_trusted :: "nat \<Rightarrow> view \<Rightarrow> string \<Rightarrow> meta option" where
  "open_trusted me v p =
     (let path = components p; parent = parent_path path
      in if \<not> all_metadata (vw_lstat v) (trusted_alias me) (ancestors parent) then None
         else case vw_canonical v parent of
           None \<Rightarrow> None
         | Some cs \<Rightarrow>
             if \<not> all_metadata (vw_lstat v) (trusted_ancestor me) (ancestors (True, cs)) then None
             else case vw_open_directory v path of
               None \<Rightarrow> None
             | Some m \<Rightarrow> if mt_kind m = Directory \<and> trusted_metadata me True m then Some m else None)"

definition MAX_DISPLAY_MARKER_BYTES :: nat where
  "MAX_DISPLAY_MARKER_BYTES = 256"

abbreviation identity :: "meta \<Rightarrow> nat \<times> nat" where
  "identity m \<equiv> (mt_dev m, mt_ino m)"

definition marker :: "nat \<Rightarrow> view \<Rightarrow> meta \<Rightarrow> string \<Rightarrow> string option" where
  "marker me v d name =
     (if name \<notin> {''display.slot'', ''display.parent'', ''display.worker''} then None
      else case vw_open_child v (identity d) name of
        None \<Rightarrow> None
      | Some (m, bytes) \<Rightarrow>
          if mt_kind m \<noteq> Regular \<or> mt_links m \<noteq> 1 \<or> \<not> trusted_metadata me False m \<or> MAX_DISPLAY_MARKER_BYTES < mt_len m then None
          else if MAX_DISPLAY_MARKER_BYTES < length bytes then None
          else if vw_is_utf8 v bytes then Some bytes else None)"

definition is_socket :: "nat \<Rightarrow> view \<Rightarrow> meta \<Rightarrow> string \<Rightarrow> bool" where
  "is_socket me v d name =
     (if name = [] \<or> name = ''.'' \<or> name = ''..'' \<or> CHR ''/'' \<in> set name \<or> CHR 0x00 \<in> set name then False
      else case vw_stat_child v (identity d) name of
        None \<Rightarrow> False
      | Some m \<Rightarrow> mt_kind m = Socket \<and> mt_uid m = me \<and> \<not> others_write m)"

definition socket_names :: "nat \<Rightarrow> view \<Rightarrow> meta \<Rightarrow> string list option" where
  "socket_names me v d =
     map_option (filter (\<lambda>n. vw_is_utf8 v n \<and> starts_with n ''wayland-'' \<and> is_socket me v d n)) (vw_entries v (identity d))"

definition still_current :: "nat \<Rightarrow> view \<Rightarrow> meta \<Rightarrow> string \<Rightarrow> bool" where
  "still_current me v d p =
     (case vw_lstat v (components p) of
        None \<Rightarrow> False
      | Some m \<Rightarrow> mt_kind m = Directory \<and> identity d = identity m \<and> trusted_metadata me True m)"

text \<open>\<open>str::parse\<close> for a 32-bit signed number.\<close>

definition parse_pid :: "string \<Rightarrow> int option" where
  "parse_pid s =
     (let (minus, digits) = (case s of c # rest \<Rightarrow> if c = CHR ''-'' then (True, rest) else if c = CHR ''+'' then (False, rest) else (False, s)
                                    | [] \<Rightarrow> (False, []));
          n = foldl (\<lambda>n c. 10 * n + int (of_char c - 48)) 0 digits
      in if digits = [] \<or> \<not> list_all is_ascii_digit digits \<or> (if minus then 2 ^ 31 < n else 2 ^ 31 \<le> n) then None
         else Some (if minus then - n else n))"

definition managed_is_live :: "nat \<Rightarrow> view \<Rightarrow> meta \<Rightarrow> bool" where
  "managed_is_live me v d =
     list_all (\<lambda>name. case Option.bind (marker me v d name) (\<lambda>t. parse_pid (trim t)) of
         None \<Rightarrow> False | Some pid \<Rightarrow> 0 < pid \<and> vw_kill v pid = Delivered) [''display.parent'', ''display.worker'']"

definition find_wayland_socket :: "nat \<Rightarrow> view \<Rightarrow> string \<Rightarrow> meta \<Rightarrow> string option" where
  "find_wayland_socket me v dir d =
     (case socket_names me v d of
        None \<Rightarrow> None
      | Some names \<Rightarrow> if still_current me v d dir then (case sort names of [] \<Rightarrow> None | n # _ \<Rightarrow> Some n) else None)"

subsection \<open>The display of a connection\<close>

text \<open>The directory is opened at one time and looked into at a later one.\<close>

definition validate_display_target :: "nat \<Rightarrow> view \<Rightarrow> view \<Rightarrow> string \<Rightarrow> string \<Rightarrow> string \<Rightarrow> string + string \<times> string" where
  "validate_display_target me v v' runtime_dir display slot =
     (let dir = trim runtime_dir; name = trim display
      in if dir = [] \<or> name = [] then Inl (''Cocoa-Way display '' @ slot @ '' is not ready; start its display window first'')
         else if vw_lstat v (components (path_join dir name)) = None then Inl ''Cocoa-Way display socket does not exist''
         else case open_trusted me v dir of
           None \<Rightarrow> Inl ''Cocoa-Way display has unsafe ownership, permissions, or file type''
         | Some d \<Rightarrow>
             if is_socket me v' d name \<and> still_current me v' d dir then Inr (dir, name)
             else Inl ''Cocoa-Way display has unsafe ownership, permissions, or file type'')"

definition slot_display :: "nat \<Rightarrow> view \<Rightarrow> view \<Rightarrow> string \<Rightarrow> string \<Rightarrow> (string \<times> string) option" where
  "slot_display me v v' requested entry =
     (if \<not> starts_with entry ''cwd-'' then None
      else let dir = path_join ''/tmp'' entry in
        case open_trusted me v dir of
          None \<Rightarrow> None
        | Some d \<Rightarrow>
            (case marker me v' d ''display.slot'' of
               None \<Rightarrow> None
             | Some slot \<Rightarrow>
                 if trim slot \<noteq> requested \<or> \<not> managed_is_live me v' d then None
                 else map_option (\<lambda>n. (dir, n)) (find_wayland_socket me v' dir d)))"

definition resolve_display_target :: "nat \<Rightarrow> view \<Rightarrow> view \<Rightarrow> string list \<Rightarrow> string option \<Rightarrow> string \<Rightarrow> string \<Rightarrow> string + string \<times> string" where
  "resolve_display_target me v v' found requested fallback_dir fallback_display =
     (let slot = (case requested of None \<Rightarrow> None | Some s \<Rightarrow> if trim s = [] then None else Some (trim s))
      in if slot \<in> {None, Some ''default'', Some ''auto''} then validate_display_target me v v' fallback_dir fallback_display ''default''
         else ok_or (''display slot '' @ the slot @ '' is not available; create it in Container Mode or use run_waypipe.sh --list-displays'')
                (find_map (slot_display me v v' (the slot)) found))"

subsection \<open>The command of a connection\<close>

record command =
  cm_program :: string
  cm_env :: "(string \<times> string) list"
  cm_args :: "string list"

definition given :: "string option \<Rightarrow> string option" where
  "given x = (case x of None \<Rightarrow> None | Some s \<Rightarrow> if trim s = [] then None else Some (trim s))"

definition ssh_arguments :: "connection \<Rightarrow> string \<Rightarrow> string list" where
  "ssh_arguments c name =
     [''--compress='' @ (case given (cn_compression c) of None \<Rightarrow> ''zstd'' | Some z \<Rightarrow> z), ''ssh'', ''-o'', ''StreamLocalBindUnlink=yes'']
     @ (case cn_port c of None \<Rightarrow> [] | Some p \<Rightarrow> [''-p'', decimal p])
     @ (case cn_identity c of None \<Rightarrow> [] | Some i \<Rightarrow> [''-i'', i])
     @ [case given (cn_user c) of None \<Rightarrow> name | Some u \<Rightarrow> u @ ''@'' @ name]
     @ [case cn_app c of None \<Rightarrow> ''weston-terminal'' | Some a \<Rightarrow> a]"

text \<open>
  What \<open>spawn_waypipe\<close> hands to the system: the command, and the socket at which the password is
  served to the helper that \<open>ssh\<close> asks, when the connection has one. \<open>helper\<close> is the running
  program and \<open>sequence\<close> the number of the socket.
\<close>

definition askpass_socket :: "nat \<Rightarrow> nat \<Rightarrow> string" where
  "askpass_socket pid sequence = ''/tmp/cocoa-way-askpass-'' @ decimal pid @ ''-'' @ decimal sequence @ ''.sock''"

definition askpass_env :: "string \<Rightarrow> string \<Rightarrow> (string \<times> string) list" where
  "askpass_env helper socket = [(''SSH_ASKPASS'', helper), (''SSH_ASKPASS_REQUIRE'', ''force''), (''COCOA_WAY_ASKPASS_SOCKET'', socket)]"

definition waypipe_command ::
  "string option \<Rightarrow> string \<Rightarrow> string + string \<times> string \<Rightarrow> string \<Rightarrow> string \<Rightarrow> connection \<Rightarrow> string + command \<times> (string \<times> string) option" where
  "waypipe_command waypipe child_path target helper socket c =
     and_then (ok_or ''Waypipe was not found in PATH or the configured executable path. Install it with `brew install J-x-Z/tap/waypipe-darwin`, or correct waypipe_path in Connections settings. Waypipe is also required on the Linux host.'' waypipe) (\<lambda>program.
     and_then target (\<lambda>(dir, display).
       let env = [(''PATH'', child_path), (''XDG_RUNTIME_DIR'', dir), (''WAYLAND_DISPLAY'', display)] in
       if cn_type c = ''local'' then
         (case cn_socket c of
            None \<Rightarrow> Inl ''local connections require a Unix socket path''
          | Some s \<Rightarrow>
              if trim s = [] then Inl ''local connections require a Unix socket path''
              else Inr (\<lparr>cm_program = program, cm_env = env, cm_args = [''--socket'', s, ''client'']\<rparr>, None))
       else
         (case given (cn_host c) of
            None \<Rightarrow> Inl ''SSH connections require a host''
          | Some name \<Rightarrow>
              (case cn_password c of
                 None \<Rightarrow> Inr (\<lparr>cm_program = program, cm_env = env, cm_args = ssh_arguments c name\<rparr>, None)
               | Some pw \<Rightarrow>
                   Inr (\<lparr>cm_program = program, cm_env = env @ askpass_env helper socket, cm_args = ssh_arguments c name\<rparr>, Some (socket, pw))))))"

subsection \<open>Removing stale displays\<close>

definition process_exists_u32 :: "view \<Rightarrow> nat \<Rightarrow> bool" where
  "process_exists_u32 v pid = (vw_kill v (if pid < 2 ^ 31 then int pid else int pid - 2 ^ 32) \<noteq> NoProcess)"

definition parse_u32 :: "string \<Rightarrow> nat option" where
  "parse_u32 s =
     (let digits = (case s of c # rest \<Rightarrow> if c = CHR ''+'' then rest else s | [] \<Rightarrow> []);
          n = foldl (\<lambda>n c. 10 * n + (of_char c - 48)) 0 digits
      in if digits = [] \<or> \<not> list_all is_ascii_digit digits \<or> 2 ^ 32 \<le> n then None else Some n)"

definition display_runtime_parent_pid :: "nat \<Rightarrow> view \<Rightarrow> string \<Rightarrow> string \<Rightarrow> nat option" where
  "display_runtime_parent_pid me v dir entry =
     (case Option.bind (open_trusted me v dir) (\<lambda>d. Option.bind (marker me v d ''display.parent'') (\<lambda>t. parse_u32 (trim t))) of
        Some pid \<Rightarrow> Some pid
      | None \<Rightarrow> Option.bind (strip_prefix ''cwd-'' entry) (\<lambda>r. parse_u32 (takeWhile (\<lambda>c. c \<noteq> CHR ''-'') r)))"

text \<open>The directory below \<open>/tmp\<close> that is removed for an entry, if any; \<open>pid\<close> is the running program.\<close>

definition stale_display :: "nat \<Rightarrow> nat \<Rightarrow> view \<Rightarrow> view \<Rightarrow> string \<Rightarrow> string option" where
  "stale_display me pid v v' entry =
     (if \<not> starts_with entry ''cwd-'' then None
      else let dir = path_join ''/tmp'' entry in
        case open_trusted me v dir of
          None \<Rightarrow> None
        | Some d \<Rightarrow>
            if marker me v d ''display.slot'' = None then None
            else case display_runtime_parent_pid me v dir entry of
              None \<Rightarrow> None
            | Some p \<Rightarrow>
                if p = pid \<or> process_exists_u32 v p then None
                else if still_current me v' d dir then Some dir else None)"

subsection \<open>Saving and loading\<close>

text \<open>What the TOML library guarantees: a comment before the text changes nothing, and a text that was printed reads back.\<close>

definition toml_reads_back :: "toml \<Rightarrow> bool" where
  "toml_reads_back tm \<longleftrightarrow> (\<forall>c t. tm_print tm (serialized c) = Inr t \<longrightarrow> tm_parse tm (HEADER @ t) = Inr (serialized c))"

text \<open>A connection as it comes back: with a trimmed name, without a password, and with the common path of waypipe unless it has its own.\<close>

definition loaded_as :: "connections_config \<Rightarrow> connection \<Rightarrow> connection" where
  "loaded_as cfg c =
     c\<lparr>cn_name := trim (cn_name c), cn_password := None,
       cn_waypipe := (case cn_waypipe c of None \<Rightarrow> cf_waypipe cfg | Some w \<Rightarrow> Some w)\<rparr>"

lemma put_connection_cases:
  "put_connection s cs = (k, cs') \<Longrightarrow>
     cs' = (if k < length cs then cs[k := s] else cs @ [s])
     \<and> (if k < length cs then cn_name (cs ! k) = cn_name s else k = length cs \<and> cn_name s \<notin> cn_name ` set cs)"
  by (auto simp: put_connection_def position_None_iff dest: position_Some split: option.splits)

abbreviation inherit :: "connections_config \<Rightarrow> connection \<Rightarrow> connection" where
  "inherit cfg c \<equiv> if cn_waypipe c = None then c\<lparr>cn_waypipe := cf_waypipe cfg\<rparr> else c"

lemma inherit_without_password: "inherit cfg (without_password c) = without_password (inherit cfg c)"
  by (simp add: without_password_def)

lemma inherit_stored: "inherit cfg (without_password (stored_connection cfg c)) = loaded_as cfg c"
  by (auto simp: stored_connection_def loaded_as_def without_password_def Let_def split: option.split)

lemma inherit_names: "cn_name (inherit cfg (without_password c)) = cn_name c"
  by (simp add: without_password_def)

lemma inherit_serialized:
  "inherit_waypipe (serialized (cfg\<lparr>cf_connections := cs\<rparr>)) = map (\<lambda>c. inherit cfg (without_password c)) cs"
  by (simp add: inherit_waypipe_def serialized_def comp_def)

lemma save_success:
  assumes "save_connection_at tm er c fl = (Inr k, fl')"
  shows "\<exists>cfg cs t. read_config tm er fl = Inr cfg \<and> put_connection (stored_connection cfg c) (cf_connections cfg) = (k, cs)
     \<and> tm_print tm (serialized (cfg\<lparr>cf_connections := cs\<rparr>)) = Inr t
     \<and> fl' = fl\<lparr>fl_content := Some (HEADER @ t), fl_temporary := None, fl_mode := 384\<rparr>"
  using assms
  by (auto simp: save_connection_at_def replace_file_def split: if_splits sum.splits prod.splits option.splits)

text \<open>
  C26: a connection that was saved comes back when the file is read again, at the returned index,
  with its name trimmed, its own or the common path of waypipe, and without its password; the
  index is that of the entry with this name, or a new last one, and every other connection comes
  back as it was, without its password. The file is then readable by its owner only.
\<close>

theorem saved_connection_loads:
  assumes "toml_reads_back tm" and "save_connection_at tm er c fl = (Inr k, fl')" and "er_read er' = None"
  shows "\<exists>cfg. read_config tm er fl = Inr cfg
     \<and> (let old = map without_password (inherit_waypipe cfg)
        in fst (load_connections tm er' fl') = (if k < length old then old[k := loaded_as cfg c] else old @ [loaded_as cfg c])
           \<and> (if k < length old then cn_name (old ! k) = trim (cn_name c) else k = length old \<and> trim (cn_name c) \<notin> cn_name ` set old))
     \<and> fl_mode fl' = 384 \<and> fl_temporary fl' = None"
proof -
  from save_success [OF assms(2)] obtain cfg cs t where cfg: "read_config tm er fl = Inr cfg"
      and put: "put_connection (stored_connection cfg c) (cf_connections cfg) = (k, cs)"
      and t: "tm_print tm (serialized (cfg\<lparr>cf_connections := cs\<rparr>)) = Inr t"
      and fl': "fl' = fl\<lparr>fl_content := Some (HEADER @ t), fl_temporary := None, fl_mode := 384\<rparr>" by blast
  have parse: "tm_parse tm (HEADER @ t) = Inr (serialized (cfg\<lparr>cf_connections := cs\<rparr>))"
    using assms(1) t unfolding toml_reads_back_def by blast
  have load: "fst (load_connections tm er' fl') = map (\<lambda>c. inherit cfg (without_password c)) cs"
    unfolding inherit_serialized [symmetric] by (simp add: load_connections_def read_file_def fl' assms(3) parse)
  have old: "map without_password (inherit_waypipe cfg) = map (\<lambda>c. inherit cfg (without_password c)) (cf_connections cfg)"
    by (simp only: inherit_waypipe_def map_map comp_def inherit_without_password)
  have name: "cn_name (stored_connection cfg c) = trim (cn_name c)"
    by (simp add: stored_connection_def Let_def)
  have names: "cn_name ` set (map (\<lambda>c. inherit cfg (without_password c)) xs) = cn_name ` set xs" for xs
    by (simp only: set_map image_image inherit_names)
  have new: "let old = map without_password (inherit_waypipe cfg)
        in fst (load_connections tm er' fl') = (if k < length old then old[k := loaded_as cfg c] else old @ [loaded_as cfg c])
           \<and> (if k < length old then cn_name (old ! k) = trim (cn_name c) else k = length old \<and> trim (cn_name c) \<notin> cn_name ` set old)"
    using put_connection_cases [OF put] name
    unfolding Let_def load old names
    by (auto simp: map_update inherit_stored inherit_names)
  show ?thesis
    using cfg new by (intro exI [of _ cfg]) (simp add: fl')
qed

text \<open>A text that reads back, and a file with one connection that still has a password.\<close>

definition sample_connection :: connection where
  "sample_connection = \<lparr>cn_name = '' home '', cn_type = ''ssh'', cn_host = Some ''10.0.0.2'', cn_user = None, cn_port = Some 22,
     cn_identity = None, cn_socket = None, cn_app = None, cn_display = None, cn_compression = None,
     cn_password = Some ''secret'', cn_waypipe = None\<rparr>"

definition sample_old :: connections_config where
  "sample_old = \<lparr>cf_waypipe = Some ''/opt/waypipe'', cf_connections = [sample_connection\<lparr>cn_name := ''work''\<rparr>]\<rparr>"

definition sample_new :: connections_config where
  "sample_new = \<lparr>cf_waypipe = Some ''/opt/waypipe'',
     cf_connections = [sample_connection\<lparr>cn_name := ''work'', cn_password := None\<rparr>, sample_connection\<lparr>cn_name := ''home'', cn_password := None\<rparr>]\<rparr>"

definition sample_toml :: toml where
  "sample_toml = \<lparr>tm_parse = (\<lambda>t. if t = ''old'' then Inr sample_old else if t = HEADER @ ''new'' then Inr sample_new else Inl ''bad''),
     tm_print = (\<lambda>c. if c = sample_new then Inr ''new'' else Inl ''unsupported'')\<rparr>"

definition no_errors :: file_errors where
  "no_errors = \<lparr>er_read = None, er_mkdir = None, er_create = None, er_header = None, er_body = None, er_sync = None,
     er_rename = None, er_mode = None, er_remove = None\<rparr>"

definition sample_files :: connection_files where
  "sample_files = \<lparr>fl_content = Some ''old'', fl_mode = 420, fl_temporary = None\<rparr>"

lemma sample_reads_back: "toml_reads_back sample_toml"
  by (auto simp: toml_reads_back_def sample_toml_def HEADER_def split: if_splits)

lemma sample_saved:
  "save_connection_at sample_toml no_errors sample_connection sample_files
   = (Inr 1, \<lparr>fl_content = Some (HEADER @ ''new''), fl_mode = 384, fl_temporary = None\<rparr>)"
  by code_simp

theorem saved_connection_loads_witness:
  "toml_reads_back sample_toml \<and> er_read no_errors = None
   \<and> save_connection_at sample_toml no_errors sample_connection sample_files
     = (Inr 1, \<lparr>fl_content = Some (HEADER @ ''new''), fl_mode = 384, fl_temporary = None\<rparr>)
   \<and> (\<exists>cfg. read_config sample_toml no_errors sample_files = Inr cfg
        \<and> fst (load_connections sample_toml no_errors \<lparr>fl_content = Some (HEADER @ ''new''), fl_mode = 384, fl_temporary = None\<rparr>)
          = map without_password (inherit_waypipe cfg) @ [loaded_as cfg sample_connection])
   \<and> map cn_password (fst (load_connections sample_toml no_errors \<lparr>fl_content = Some (HEADER @ ''new''), fl_mode = 384, fl_temporary = None\<rparr>)) = [None, None]"
proof -
  have none: "er_read no_errors = None" by (simp add: no_errors_def)
  from saved_connection_loads [OF sample_reads_back sample_saved none] obtain cfg
    where cfg: "read_config sample_toml no_errors sample_files = Inr cfg"
      and new: "let old = map without_password (inherit_waypipe cfg)
        in fst (load_connections sample_toml no_errors \<lparr>fl_content = Some (HEADER @ ''new''), fl_mode = 384, fl_temporary = None\<rparr>)
          = (if 1 < length old then old[1 := loaded_as cfg sample_connection] else old @ [loaded_as cfg sample_connection])" by (auto simp: Let_def)
  have "read_config sample_toml no_errors sample_files = Inr sample_old" by code_simp
  with cfg have "cfg = sample_old" by simp
  with new have "fst (load_connections sample_toml no_errors \<lparr>fl_content = Some (HEADER @ ''new''), fl_mode = 384, fl_temporary = None\<rparr>)
      = map without_password (inherit_waypipe cfg) @ [loaded_as cfg sample_connection]"
    by (simp add: Let_def inherit_waypipe_def sample_old_def)
  moreover have "map cn_password (fst (load_connections sample_toml no_errors \<lparr>fl_content = Some (HEADER @ ''new''), fl_mode = 384, fl_temporary = None\<rparr>)) = [None, None]"
    by code_simp
  ultimately show ?thesis using cfg none sample_reads_back sample_saved by blast
qed

subsection \<open>Errors and passwords\<close>

text \<open>
  C25: saving that fails leaves the file as it was, unless only the last step failed, which restricts
  its permissions after the new text is in place; and whatever the password of the connection is,
  neither what is saved nor the command and its environment depend on it: it is handed to the
  private socket only, and not at all for a local connection.
\<close>

theorem passwords_stay_in_memory:
  "(case save_connection_at tm er c fl of
      (Inr _, _) \<Rightarrow> True
    | (Inl _, fl') \<Rightarrow> (if er_mode er = None then fl_content fl' = fl_content fl else fl_content fl' = fl_content fl \<or> (\<exists>t. fl_content fl' = Some (HEADER @ t))))
   \<and> save_connection_at tm er (c\<lparr>cn_password := p\<rparr>) fl = save_connection_at tm er c fl
   \<and> (case (waypipe_command waypipe child_path target helper socket (c\<lparr>cn_password := Some p1\<rparr>),
            waypipe_command waypipe child_path target helper socket (c\<lparr>cn_password := Some p2\<rparr>)) of
        (Inr (m1, s1), Inr (m2, s2)) \<Rightarrow>
          m1 = m2 \<and> (if cn_type c = ''local'' then s1 = None \<and> s2 = None else s1 = Some (socket, p1) \<and> s2 = Some (socket, p2))
      | (Inl e1, Inl e2) \<Rightarrow> e1 = e2
      | _ \<Rightarrow> False)"
proof (intro conjI)
  show "case save_connection_at tm er c fl of
      (Inr _, _) \<Rightarrow> True
    | (Inl _, fl') \<Rightarrow> (if er_mode er = None then fl_content fl' = fl_content fl else fl_content fl' = fl_content fl \<or> (\<exists>t. fl_content fl' = Some (HEADER @ t)))"
    by (auto simp: save_connection_at_def replace_file_def split: sum.splits prod.splits option.splits if_splits)
next
  have "stored_connection cfg (c\<lparr>cn_password := p\<rparr>) = stored_connection cfg c" for cfg
    by (simp add: stored_connection_def without_password_def Let_def)
  then show "save_connection_at tm er (c\<lparr>cn_password := p\<rparr>) fl = save_connection_at tm er c fl"
    by (simp only: save_connection_at_def) simp
next
  have "ssh_arguments (c\<lparr>cn_password := q\<rparr>) n = ssh_arguments c n" for q n by (simp add: ssh_arguments_def)
  then show "case (waypipe_command waypipe child_path target helper socket (c\<lparr>cn_password := Some p1\<rparr>),
            waypipe_command waypipe child_path target helper socket (c\<lparr>cn_password := Some p2\<rparr>)) of
        (Inr (m1, s1), Inr (m2, s2)) \<Rightarrow>
          m1 = m2 \<and> (if cn_type c = ''local'' then s1 = None \<and> s2 = None else s1 = Some (socket, p1) \<and> s2 = Some (socket, p2))
      | (Inl e1, Inl e2) \<Rightarrow> e1 = e2
      | _ \<Rightarrow> False"
    by (auto simp: waypipe_command_def and_then_def ok_or_def Let_def split: sum.splits prod.splits option.splits if_splits)
qed

subsection \<open>Nobody else can redirect a display\<close>

text \<open>
  A user who may replace an entry of a directory: its owner, or anybody it lets write, unless it is
  sticky and the entry is another user's.
\<close>

definition may_replace :: "nat \<Rightarrow> meta \<Rightarrow> meta \<Rightarrow> bool" where
  "may_replace u dir entry \<longleftrightarrow> mt_uid dir = u \<or> (others_write dir \<and> (\<not> sticky dir \<or> mt_uid entry = u))"

definition may_write :: "nat \<Rightarrow> meta \<Rightarrow> bool" where
  "may_write u m \<longleftrightarrow> mt_uid m = u \<or> others_write m"

text \<open>A user who may replace a directory on the way from the root to the opened one, or write into that one.\<close>

fun may_redirect :: "nat \<Rightarrow> meta list \<Rightarrow> bool" where
  "may_redirect u [] = False"
| "may_redirect u [d] = may_write u d"
| "may_redirect u (d # e # ds) = (may_replace u d e \<or> may_redirect u (e # ds))"

lemma trusted_not_replaced:
  "trusted_ancestor me d \<Longrightarrow> mt_uid e = 0 \<or> mt_uid e = me \<Longrightarrow> may_replace u d e \<Longrightarrow> u = 0 \<or> u = me"
  by (auto simp: trusted_ancestor_def may_replace_def)

lemma and_63_18: "m AND 63 = 0 \<Longrightarrow> m AND 18 = 0" for m :: nat
proof -
  assume "m AND 63 = 0"
  then have "(m AND 63) AND 18 = 0" by simp
  moreover have "(63 :: nat) AND 18 = 18" by simp
  ultimately show ?thesis by (simp add: and.assoc)
qed

lemma trusted_not_redirected:
  "\<forall>d \<in> set ds. trusted_ancestor me d \<Longrightarrow> trusted_metadata me True last_dir \<Longrightarrow> may_redirect u (ds @ [last_dir]) \<Longrightarrow> u = 0 \<or> u = me"
proof (induction ds)
  case Nil
  then show ?case using and_63_18 by (auto simp: trusted_metadata_def may_write_def others_write_def)
next
  case (Cons d ds)
  show ?case
  proof (cases ds)
    case Nil
    with Cons trusted_not_replaced [of me d last_dir u] show ?thesis
      using and_63_18 by (auto simp: trusted_metadata_def may_write_def others_write_def)
  next
    case (Cons e es)
    with Cons.prems have "mt_uid e = 0 \<or> mt_uid e = me" by (auto simp: trusted_ancestor_def)
    with Cons Cons.prems Cons.IH trusted_not_replaced [of me d e u] show ?thesis by auto
  qed
qed

text \<open>What a trusted display rests on: the opened directory, those above it, and its socket.\<close>

definition private_directory :: "nat \<Rightarrow> view \<Rightarrow> string \<Rightarrow> meta \<Rightarrow> bool" where
  "private_directory me v dir d \<longleftrightarrow>
     (\<exists>cs ds. vw_open_directory v (components dir) = Some d \<and> vw_canonical v (parent_path (components dir)) = Some cs
        \<and> map (\<lambda>n. vw_lstat v (True, take n cs)) [0..<Suc (length cs)] = map Some ds \<and> {u. may_redirect u (ds @ [d])} \<subseteq> {0, me})"

definition names_directory :: "view \<Rightarrow> string \<Rightarrow> meta \<Rightarrow> bool" where
  "names_directory v dir d \<longleftrightarrow> map_option identity (vw_lstat v (components dir)) = Some (identity d)"

definition private_display :: "nat \<Rightarrow> view \<Rightarrow> view \<Rightarrow> string \<times> string \<Rightarrow> bool" where
  "private_display me v v' target =
     (case target of (dir, name) \<Rightarrow>
        \<exists>d m. private_directory me v dir d \<and> names_directory v' dir d
          \<and> vw_stat_child v' (identity d) name = Some m \<and> mt_kind m = Socket \<and> {u. may_write u m} = {me} \<and> CHR ''/'' \<notin> set name)"

lemma all_metadata_map:
  "all_metadata lstat ok ps \<Longrightarrow> \<exists>ds. map lstat ps = map Some ds \<and> (\<forall>d \<in> set ds. ok d)"
proof (induction ps)
  case (Cons p ps)
  then obtain ds where "map lstat ps = map Some ds" "\<forall>d \<in> set ds. ok d" by (auto simp: all_metadata_def)
  with Cons.prems show ?case
    by (intro exI [of _ "the (lstat p) # ds"]) (auto simp: all_metadata_def split: option.splits)
qed (auto simp: all_metadata_def)

lemma ancestors_root: "ancestors (True, cs) = rev (map (\<lambda>n. (True, take n cs)) [0..<Suc (length cs)])"
  by (simp only: ancestors_def fst_conv snd_conv rev_map [symmetric]) simp

lemma open_trusted_private:
  assumes "open_trusted me v dir = Some d"
  shows "private_directory me v dir d"
proof -
  from assms obtain cs where cs: "vw_canonical v (parent_path (components dir)) = Some cs"
      "all_metadata (vw_lstat v) (trusted_ancestor me) (ancestors (True, cs))"
      "vw_open_directory v (components dir) = Some d" "trusted_metadata me True d"
    by (auto simp: open_trusted_def Let_def split: option.splits if_splits)
  from cs(2) have "all_metadata (vw_lstat v) (trusted_ancestor me) (map (\<lambda>n. (True, take n cs)) [0..<Suc (length cs)])"
    unfolding ancestors_root by (simp add: all_metadata_def)
  then obtain ds where ds: "map (vw_lstat v) (map (\<lambda>n. (True, take n cs)) [0..<Suc (length cs)]) = map Some ds" "\<forall>d \<in> set ds. trusted_ancestor me d"
    using all_metadata_map by blast
  have "{u. may_redirect u (ds @ [d])} \<subseteq> {0, me}" using trusted_not_redirected [OF ds(2) cs(4)] by blast
  with cs ds show ?thesis unfolding private_directory_def by (intro exI [of _ cs] exI [of _ ds]) (simp add: comp_def)
qed

lemma still_current_identity:
  "still_current me v d dir \<Longrightarrow> names_directory v dir d"
  by (auto simp: names_directory_def still_current_def split: option.splits)

lemma is_socket_private:
  "is_socket me v d name \<Longrightarrow>
     \<exists>m. vw_stat_child v (identity d) name = Some m \<and> mt_kind m = Socket \<and> {u. may_write u m} = {me} \<and> CHR ''/'' \<notin> set name"
  by (auto simp: is_socket_def may_write_def split: if_splits option.splits)

lemma private_displayI:
  assumes "open_trusted me v dir = Some d" and "is_socket me v' d name" and "still_current me v' d dir"
  shows "private_display me v v' (dir, name)"
  using open_trusted_private [OF assms(1)] is_socket_private [OF assms(2)] still_current_identity [OF assms(3)]
  unfolding private_display_def by fast

lemma validated_private:
  "validate_display_target me v v' a b c = Inr t \<Longrightarrow> private_display me v v' t"
  by (auto simp: validate_display_target_def Let_def split: if_splits option.splits intro: private_displayI)

lemma found_socket:
  assumes "find_wayland_socket me v' dir d = Some name"
  shows "is_socket me v' d name" and "still_current me v' d dir"
proof -
  from assms obtain names where names: "socket_names me v' d = Some names" and "still_current me v' d dir" and "hd (sort names) = name" "sort names \<noteq> []"
    by (auto simp: find_wayland_socket_def split: option.splits if_splits list.splits)
  then have "name \<in> set (sort names)" by (metis hd_in_set)
  with names show "is_socket me v' d name" by (auto simp: socket_names_def)
  show "still_current me v' d dir" by fact
qed

lemma slot_private: "slot_display me v v' r entry = Some t \<Longrightarrow> private_display me v v' t"
  by (auto simp: slot_display_def Let_def split: if_splits option.splits intro: private_displayI dest: found_socket)

lemma slot_found: "find_map (slot_display me v v' r) names = Some t \<Longrightarrow> private_display me v v' t"
  by (induction names) (auto split: option.splits intro: slot_private)


end
