(* ===== verification/Session_Board.thy ===== *)
theory Session_Board
  imports Session_Launch Action_Targets Redaction
begin

text \<open>
  What the program says of its operations: the tasks with their steps, the state of every profile,
  the activity and the logs, the running sessions and the managed displays
  (\<open>container_mode.rs\<close>, \<open>application_model.rs\<close>). The panel and the control socket read it. The redrawing of the panel
  and the tasks of images, volumes and containers are left out.
\<close>

subsection \<open>Statuses\<close>

datatype profile_status = ProfileReady | ProfileInvalid | ProfileBlocked

datatype instance_status = InstanceStarting | InstanceRunning | InstanceStopping | InstanceExited | InstanceFailed

datatype display_status = DisplayFree | DisplayAllocating | DisplayAttached | DisplayClosing | DisplayFailed

datatype task_status = TaskQueued | TaskRunning | TaskCompleted | TaskFailed | TaskCancelled

datatype step_status = StepPending | StepRunning | StepCompleted | StepFailed

datatype launch_step =
  ValidateProfile | CheckRuntime | CheckImage | CreateContainer | AllocateDisplay | StartWaypipeStep | StartCommand | MarkRunning

definition instance_active :: "instance_status \<Rightarrow> bool" where
  "instance_active s \<longleftrightarrow> s \<in> {InstanceStarting, InstanceRunning, InstanceStopping}"

definition task_active :: "task_status \<Rightarrow> bool" where
  "task_active s \<longleftrightarrow> s \<in> {TaskQueued, TaskRunning}"

definition profile_status_label :: "profile_status \<Rightarrow> string" where
  "profile_status_label s = (case s of ProfileReady \<Rightarrow> ''Ready'' | ProfileInvalid \<Rightarrow> ''Invalid profile'' | ProfileBlocked \<Rightarrow> ''Blocked'')"

definition instance_label :: "instance_status \<Rightarrow> string" where
  "instance_label s =
     (case s of InstanceStarting \<Rightarrow> ''Starting'' | InstanceRunning \<Rightarrow> ''Running'' | InstanceStopping \<Rightarrow> ''Stopping''
      | InstanceExited \<Rightarrow> ''Exited'' | InstanceFailed \<Rightarrow> ''Failed'')"

definition step_label :: "launch_step \<Rightarrow> string" where
  "step_label s =
     (case s of ValidateProfile \<Rightarrow> ''Validate profile'' | CheckRuntime \<Rightarrow> ''Check runtime'' | CheckImage \<Rightarrow> ''Check image''
      | CreateContainer \<Rightarrow> ''Create container'' | AllocateDisplay \<Rightarrow> ''Allocate display'' | StartWaypipeStep \<Rightarrow> ''Start Waypipe''
      | StartCommand \<Rightarrow> ''Start application'' | MarkRunning \<Rightarrow> ''Mark instance running'')"

definition LAUNCH_STEPS :: "launch_step list" where
  "LAUNCH_STEPS = [ValidateProfile, CheckRuntime, CheckImage, CreateContainer, AllocateDisplay, StartWaypipeStep, StartCommand, MarkRunning]"

record task_step =
  ts_name :: string
  ts_status :: step_status
  ts_detail :: "string option"

record operation_task =
  tk_id :: nat
  tk_key :: string
  tk_operation :: string
  tk_subject :: string
  tk_status :: task_status
  tk_steps :: "task_step list"
  tk_detail :: "string option"
  tk_created :: nat
  tk_updated :: nat

subsection \<open>Tasks\<close>

text \<open>The last entries of a list that keeps at most so many.\<close>

definition keep_newest :: "nat \<Rightarrow> 'a list \<Rightarrow> 'a list" where
  "keep_newest n xs = drop (length xs - n) xs"

definition new_task :: "nat \<Rightarrow> nat \<Rightarrow> string \<Rightarrow> string \<Rightarrow> string \<Rightarrow> string list \<Rightarrow> operation_task" where
  "new_task now i key operation subject steps =
     \<lparr>tk_id = i, tk_key = key, tk_operation = operation, tk_subject = subject, tk_status = TaskQueued,
      tk_steps = map (\<lambda>n. \<lparr>ts_name = n, ts_status = StepPending, ts_detail = None\<rparr>) steps,
      tk_detail = None, tk_created = now, tk_updated = now\<rparr>"

text \<open>A new task replaces an unfinished one of its key.\<close>

definition start_task :: "operation_task \<Rightarrow> operation_task list \<Rightarrow> operation_task list" where
  "start_task t ts = keep_newest 100 (filter (\<lambda>x. tk_key x \<noteq> tk_key t \<or> \<not> task_active (tk_status x)) ts @ [t])"

text \<open>\<open>iter_mut().rev().find(..)\<close>: the newest task of a key changes.\<close>

fun update_latest :: "string \<Rightarrow> (operation_task \<Rightarrow> operation_task) \<Rightarrow> operation_task list \<Rightarrow> operation_task list" where
  "update_latest k f [] = []"
| "update_latest k f (t # ts) =
     (if \<exists>x \<in> set ts. tk_key x = k then t # update_latest k f ts
      else if tk_key t = k then f t # ts else t # ts)"

definition latest_operation_task :: "string \<Rightarrow> operation_task list \<Rightarrow> operation_task option" where
  "latest_operation_task k ts = find (\<lambda>t. tk_key t = k) (rev ts)"

definition task_is_active :: "string \<Rightarrow> operation_task list \<Rightarrow> bool" where
  "task_is_active k ts = (case latest_operation_task k ts of None \<Rightarrow> False | Some t \<Rightarrow> task_active (tk_status t))"

definition complete_before :: "nat \<Rightarrow> task_step list \<Rightarrow> task_step list" where
  "complete_before k steps =
     map (\<lambda>s. if ts_status s \<in> {StepPending, StepRunning} then s\<lparr>ts_status := StepCompleted\<rparr> else s) (take k steps) @ drop k steps"

definition update_step :: "string \<Rightarrow> step_status \<Rightarrow> string option \<Rightarrow> task_step list \<Rightarrow> task_step list" where
  "update_step step st detail steps =
     (case position (\<lambda>s. ts_name s = step) steps of
        None \<Rightarrow> steps
      | Some k \<Rightarrow>
          (let before = (if st = StepRunning then complete_before k steps else steps)
           in before[k := (before ! k)\<lparr>ts_status := st, ts_detail := detail\<rparr>]))"

definition update_operation_task_step :: "nat \<Rightarrow> string \<Rightarrow> string \<Rightarrow> step_status \<Rightarrow> string option \<Rightarrow> operation_task list \<Rightarrow> operation_task list" where
  "update_operation_task_step now key step st detail =
     update_latest key (\<lambda>t. t\<lparr>tk_status := (if st = StepFailed then TaskFailed else TaskRunning),
       tk_steps := update_step step st detail (tk_steps t), tk_detail := detail, tk_updated := now\<rparr>)"

fun fail_running :: "task_step list \<Rightarrow> task_step list" where
  "fail_running [] = []"
| "fail_running (s # ss) = (if ts_status s = StepRunning then s\<lparr>ts_status := StepFailed\<rparr> # ss else s # fail_running ss)"

definition finish_steps :: "task_status \<Rightarrow> task_step list \<Rightarrow> task_step list" where
  "finish_steps st steps =
     (if st = TaskCompleted then map (\<lambda>s. if ts_status s = StepFailed then s else s\<lparr>ts_status := StepCompleted\<rparr>) steps
      else if st = TaskFailed then fail_running steps else steps)"

definition finish_operation_task :: "nat \<Rightarrow> string \<Rightarrow> task_status \<Rightarrow> string \<Rightarrow> operation_task list \<Rightarrow> operation_task list" where
  "finish_operation_task now key st detail =
     update_latest key (\<lambda>t. t\<lparr>tk_status := st, tk_detail := Some detail, tk_updated := now, tk_steps := finish_steps st (tk_steps t)\<rparr>)"

definition control_operation_tasks :: "nat \<Rightarrow> operation_task list \<Rightarrow> operation_task list" where
  "control_operation_tasks n ts = drop (length ts - n) ts"

definition active_task_count :: "operation_task list \<Rightarrow> nat" where
  "active_task_count ts = length (filter (\<lambda>t. task_active (tk_status t)) ts)"

definition launch_task_key :: "profile_id \<Rightarrow> string" where
  "launch_task_key i = ''launch-profile-'' @ profile_id_fmt i"

definition stop_task_key :: "profile_id \<Rightarrow> string" where
  "stop_task_key i = ''stop-profile-'' @ profile_id_fmt i"

subsection \<open>The board\<close>

record health_check =
  hc_detail :: string
  hc_waypipe_version :: string
  hc_warnings :: "string list"

record session_state =
  se_profile :: profile_status
  se_instance :: "instance_status option"
  se_detail :: string
  se_failed_step :: "launch_step option"
  se_force_stop :: bool
  se_health :: "health_check option"

record active_snapshot =
  as_instance :: nat
  as_profile :: profile_id
  as_started :: nat
  as_container_pid :: "nat option"
  as_waypipe_pid :: nat
  as_slot :: string
  as_display_pid :: "nat option"
  as_runtime_dir :: "string option"

record display_snapshot =
  md_slot :: string
  md_runtime_dir :: string
  md_display :: string
  md_pid :: nat

record board =
  bd_tasks :: "operation_task list"
  bd_next :: nat
  bd_states :: "(profile_id \<times> session_state) list"
  bd_activity :: "string list"
  bd_logs :: "(profile_id \<times> string list) list"
  bd_active :: "active_snapshot list"
  bd_displays :: "display_snapshot list"
  bd_pending :: "string list"
  bd_closing :: "string list"
  bd_display_error :: "string option"
  bd_requested :: "profile_id list"
  bd_stoppable :: "profile_id stoppable_profile list"
  bd_selected :: "profile_id option"
  bd_view :: "profile_id list"
  bd_sent :: "profile_id list"

text \<open>
  What an operation reads beside the board: the clock, the saved profiles (none when they cannot
  be loaded) and the JSON library of the redactor.
\<close>

record board_env =
  be_now_ms :: nat
  be_sessions :: "container_session list"
  be_parse :: json_parser
  be_print :: "json \<Rightarrow> string"

definition saved_profile :: "board_env \<Rightarrow> profile_id \<Rightarrow> container_session option" where
  "saved_profile e i = find (\<lambda>s. cs_id s = i) (be_sessions e)"

definition name_or :: "string \<Rightarrow> board_env \<Rightarrow> profile_id \<Rightarrow> string" where
  "name_or d e i = (case saved_profile e i of None \<Rightarrow> d | Some s \<Rightarrow> cs_name s)"

definition redact_secrets :: "board_env \<Rightarrow> string list \<Rightarrow> bool \<Rightarrow> string \<Rightarrow> string \<times> bool" where
  "redact_secrets e secrets pem t =
     (case redactor (be_parse e) (be_print e) (Suc (length t)) (with_secrets secrets) pem t of
        None \<Rightarrow> ([], pem) | Some r \<Rightarrow> r)"

definition redact_text :: "board_env \<Rightarrow> string \<Rightarrow> string" where
  "redact_text e t = fst (redact_secrets e [] False t)"

definition env_value :: "string \<Rightarrow> string option" where
  "env_value entry = map_option (\<lambda>k. drop (Suc k) entry) (position (\<lambda>c. c = CHR ''='') entry)"

definition profile_secrets :: "container_session \<Rightarrow> string list" where
  "profile_secrets s = List.map_filter env_value (cs_env s)"

definition push_activity :: "board_env \<Rightarrow> string \<Rightarrow> board \<Rightarrow> board" where
  "push_activity e msg b =
     b\<lparr>bd_activity := keep_newest 50 (bd_activity b @ [''['' @ decimal (be_now_ms e div 1000) @ ''] '' @ redact_text e msg])\<rparr>"

definition profile_at :: "nat \<Rightarrow> board \<Rightarrow> profile_id option" where
  "profile_at k b = (if k < length (bd_view b) then Some (bd_view b ! k) else None)"

subsection \<open>Texts\<close>

definition quote :: "string \<Rightarrow> string" where
  "quote s = [CHR 0x27] @ s @ [CHR 0x27]"

definition launch_error_text :: "launch_error \<Rightarrow> string" where
  "launch_error_text error =
     (case error of
        InvalidSession s hint \<Rightarrow> ''Invalid container session '' @ quote s @ ''. '' @ hint
      | MissingCommand c hint \<Rightarrow> ''Required command '' @ quote c @ '' is unavailable. '' @ hint
      | InvalidSocketPath p \<Rightarrow>
          ''Invalid host socket path '' @ quote p @ ''. Keep the base path below ''
            @ decimal (UNIX_SOCKET_PATH_BYTES - WAYPIPE_CLIENT_SUFFIX_RESERVE)
            @ '' bytes so waypipe can create its derived client sockets on macOS.''
      | CreateSocketDir d source \<Rightarrow> ''Failed to create socket directory '' @ quote d @ '': '' @ source
      | StartContainer s source \<Rightarrow> ''Failed to start container session '' @ quote s @ '': '' @ source
      | RuntimeNotReady r hint \<Rightarrow> r @ '' is not ready. '' @ hint
      | ImageUnavailable r img hint \<Rightarrow> r @ '' image '' @ quote img @ '' is not available locally. '' @ hint
      | ImageNotGuiReady r img hint \<Rightarrow> r @ '' image '' @ quote img @ '' is not GUI-ready. '' @ hint
      | ContainerAlreadyRunning r name hint \<Rightarrow> r @ '' session container '' @ quote name @ '' is already running. '' @ hint
      | UnsupportedDisplay d hint \<Rightarrow> ''Display '' @ quote d @ '' is not available. '' @ hint
      | SocketTimeout p \<Rightarrow>
          ''Timed out waiting for the Waypipe client socket at '' @ quote p
            @ ''. Check Waypipe stderr, the selected display, and socket directory permissions, then retry.''
      | StartWaypipe source \<Rightarrow>
          ''Failed to start waypipe client: '' @ source
            @ ''. Check waypipe_path, executable permissions, and the binary'' @ [CHR 0x27]
            @ ''s macOS compatibility; reinstall Waypipe if necessary.''
      | ProcessExited prog st hint \<Rightarrow> prog @ '' exited before startup completed ('' @ st @ ''). '' @ hint)"

subsection \<open>The states of the profiles\<close>

definition state_from_legacy_label :: "string \<Rightarrow> profile_status \<times> instance_status option" where
  "state_from_legacy_label label =
     (if label \<in> {''Starting'', ''Checking''} then (ProfileReady, Some InstanceStarting)
      else if label = ''Running'' then (ProfileReady, Some InstanceRunning)
      else if label = ''Stopping'' then (ProfileReady, Some InstanceStopping)
      else if label \<in> {''Stopped'', ''Exited''} then (ProfileReady, Some InstanceExited)
      else if label = ''Blocked'' then (ProfileBlocked, None)
      else if label \<in> {''Error'', ''Failed''} then (ProfileInvalid, Some InstanceFailed)
      else (ProfileReady, None))"

definition session_state_label :: "session_state \<Rightarrow> string" where
  "session_state_label s = (case se_instance s of None \<Rightarrow> profile_status_label (se_profile s) | Some x \<Rightarrow> instance_label x)"

text \<open>The first entry of a key changes.\<close>

fun change_entry :: "'k \<Rightarrow> ('v \<Rightarrow> 'v) \<Rightarrow> ('k \<times> 'v) list \<Rightarrow> ('k \<times> 'v) list" where
  "change_entry k f [] = []"
| "change_entry k f (x # xs) = (if fst x = k then (k, f (snd x)) # xs else x # change_entry k f xs)"

definition relabel :: "string \<Rightarrow> string \<Rightarrow> session_state \<Rightarrow> session_state" where
  "relabel label detail s =
     (let (p, inst) = state_from_legacy_label label
      in s\<lparr>se_profile := p, se_instance := inst, se_detail := detail,
           se_health := (if label = ''Checking'' then None else se_health s),
           se_force_stop := (if inst \<noteq> Some InstanceStopping then False else se_force_stop s)\<rparr>)"

definition set_session_state :: "profile_id \<Rightarrow> string \<Rightarrow> string \<Rightarrow> board \<Rightarrow> board" where
  "set_session_state i label detail b =
     (let (p, inst) = state_from_legacy_label label
      in b\<lparr>bd_states := (if i \<in> fst ` set (bd_states b) then change_entry i (relabel label detail) (bd_states b)
             else bd_states b @ [(i, \<lparr>se_profile = p, se_instance = inst, se_detail = detail, se_failed_step = None, se_force_stop = False, se_health = None\<rparr>)])\<rparr>)"

definition session_state_of :: "profile_id \<Rightarrow> board \<Rightarrow> session_state option" where
  "session_state_of i b = map_of (bd_states b) i"

text \<open>A state changes only where the profile has one; a position that the view does not have changes nothing.\<close>

definition change_state :: "profile_id \<Rightarrow> (session_state \<Rightarrow> session_state) \<Rightarrow> board \<Rightarrow> board" where
  "change_state i f b = b\<lparr>bd_states := change_entry i f (bd_states b)\<rparr>"

definition set_state_at :: "nat \<Rightarrow> string \<Rightarrow> string \<Rightarrow> board \<Rightarrow> board" where
  "set_state_at k label detail b =
     (case profile_at k b of None \<Rightarrow> b | Some i \<Rightarrow> set_session_state i label detail b)"

definition control_session_state :: "profile_id \<Rightarrow> board \<Rightarrow> (string \<times> string) option" where
  "control_session_state i b = map_option (\<lambda>s. (session_state_label s, se_detail s)) (session_state_of i b)"

definition invalidate_profile_validation :: "profile_id \<Rightarrow> board \<Rightarrow> board" where
  "invalidate_profile_validation i b =
     b\<lparr>bd_states := filter (\<lambda>x. fst x \<noteq> i) (bd_states b), bd_requested := filter (\<lambda>j. j \<noteq> i) (bd_requested b)\<rparr>"

fun schedule_from :: "nat \<Rightarrow> container_session list \<Rightarrow> board \<Rightarrow> board" where
  "schedule_from k [] b = b"
| "schedule_from k (s # ss) b =
     schedule_from (Suc k) ss
       (if \<not> Option.is_none (Option.bind (profile_at k b) (\<lambda>i. session_state_of i b)) \<or> cs_id s \<in> set (bd_requested b) then b
        else b\<lparr>bd_requested := bd_requested b @ [cs_id s],
               bd_sent := bd_sent b @ (case profile_at k b of None \<Rightarrow> [] | Some i \<Rightarrow> [i])\<rparr>)"

definition panel_drawn :: "board_env \<Rightarrow> board \<Rightarrow> board" where
  "panel_drawn e b = schedule_from 0 (be_sessions e) (b\<lparr>bd_view := map cs_id (be_sessions e)\<rparr>)"

subsection \<open>The log of a session\<close>

definition esc :: char where "esc = CHR 0x1B"

text \<open>
  \<open>strip_ansi_sequences\<close>: a control sequence ends with a byte from \<open>@\<close> to \<open>~\<close>; where the escape
  character was lost, a bracket with digits and a final \<open>m\<close> goes too.
\<close>

definition final_byte :: "char \<Rightarrow> bool" where
  "final_byte c \<longleftrightarrow> (let n = of_char c :: nat in 64 \<le> n \<and> n \<le> 126)"

definition code_char :: "char \<Rightarrow> bool" where
  "code_char c \<longleftrightarrow> c = CHR '';'' \<or> (let n = of_char c :: nat in 48 \<le> n \<and> n \<le> 57)"

function strip_ansi_sequences :: "string \<Rightarrow> string" where
  "strip_ansi_sequences [] = []"
| "strip_ansi_sequences (c # s) =
     (if c = esc
      then strip_ansi_sequences
             (case s of [] \<Rightarrow> []
              | d # r \<Rightarrow> if d = CHR ''['' then drop 1 (dropWhile (\<lambda>x. \<not> final_byte x) r) else s)
      else if c = CHR ''[''
      then (let code = takeWhile code_char s; r = dropWhile code_char s
            in if code \<noteq> [] \<and> r \<noteq> [] \<and> hd r = CHR ''m'' then strip_ansi_sequences (tl r)
               else CHR ''['' # code @ strip_ansi_sequences r)
      else c # strip_ansi_sequences s)"
  by pat_completeness auto
termination
  by (relation "measure length")
    (auto split: list.splits intro: le_less_trans [OF length_dropWhile_le]
      simp: less_Suc_eq_le le_trans [OF diff_le_self] le_trans [OF diff_le_self length_dropWhile_le] length_dropWhile_le le_SucI)

declare strip_ansi_sequences.simps [simp del]

definition is_niri_locale_warning :: "string \<Rightarrow> bool" where
  "is_niri_locale_warning line \<longleftrightarrow>
     contains line ''niri::dbus'' \<and> contains line ''locale1 watcher'' \<and> contains line ''No such file or directory''"

definition join_words :: "string list \<Rightarrow> string" where
  "join_words ws = (case ws of [] \<Rightarrow> [] | w # r \<Rightarrow> w @ concat (map (\<lambda>x. '' '' @ x) r))"

definition clean_session_log_line :: "board_env \<Rightarrow> string \<Rightarrow> string" where
  "clean_session_log_line e line =
     (let collapsed = join_words (split_whitespace (redact_text e (strip_ansi_sequences line)))
      in if is_niri_locale_warning collapsed
         then ''niri: locale1 watcher is unavailable in this container; this is non-fatal when the desktop is running.''
         else collapsed)"

definition push_session_log :: "board_env \<Rightarrow> profile_id \<Rightarrow> string \<Rightarrow> string \<Rightarrow> board \<Rightarrow> board" where
  "push_session_log e i source line b =
     (let formatted = ''['' @ source @ ''] '' @ clean_session_log_line e line
      in b\<lparr>bd_logs := (if i \<in> fst ` set (bd_logs b)
             then change_entry i (\<lambda>ls. keep_newest 200 (ls @ [formatted])) (bd_logs b)
             else bd_logs b @ [(i, [formatted])])\<rparr>)"

definition clear_session_logs :: "profile_id \<Rightarrow> board \<Rightarrow> board" where
  "clear_session_logs i b = b\<lparr>bd_logs := change_entry i (\<lambda>_. []) (bd_logs b)\<rparr>"

definition session_logs :: "profile_id \<Rightarrow> board \<Rightarrow> string list" where
  "session_logs i b = (case map_of (bd_logs b) i of None \<Rightarrow> [] | Some ls \<Rightarrow> ls)"

text \<open>One redactor reads the lines, so a private key that spans lines stays hidden.\<close>

fun redact_logs :: "board_env \<Rightarrow> string list \<Rightarrow> bool \<Rightarrow> string list \<Rightarrow> string list" where
  "redact_logs e secrets pem [] = []"
| "redact_logs e secrets pem (l # ls) =
     (let (t, pem') = redact_secrets e secrets pem l in t # redact_logs e secrets pem' ls)"

definition control_session_logs :: "board_env \<Rightarrow> profile_id \<Rightarrow> nat \<Rightarrow> board \<Rightarrow> string list" where
  "control_session_logs e i n b =
     (let logs = session_logs i b
      in redact_logs e (case saved_profile e i of None \<Rightarrow> [] | Some s \<Rightarrow> profile_secrets s) False (drop (length logs - n) logs))"

definition control_activity_snapshot :: "nat \<Rightarrow> board \<Rightarrow> string list" where
  "control_activity_snapshot n b = drop (length (bd_activity b) - n) (bd_activity b)"

subsection \<open>Starting and ending tasks\<close>

text \<open>The counter of tasks has 64 bits in the source; here it does not wrap.\<close>

definition start_operation_task :: "board_env \<Rightarrow> string \<Rightarrow> string \<Rightarrow> string \<Rightarrow> string list \<Rightarrow> board \<Rightarrow> board" where
  "start_operation_task e key operation subject steps b =
     b\<lparr>bd_tasks := start_task (new_task (be_now_ms e) (bd_next b) key operation subject steps) (bd_tasks b),
       bd_next := Suc (bd_next b)\<rparr>"

definition step_task :: "board_env \<Rightarrow> string \<Rightarrow> string \<Rightarrow> step_status \<Rightarrow> string option \<Rightarrow> board \<Rightarrow> board" where
  "step_task e key step st detail b =
     b\<lparr>bd_tasks := update_operation_task_step (be_now_ms e) key step st detail (bd_tasks b)\<rparr>"

definition finish_task :: "board_env \<Rightarrow> string \<Rightarrow> task_status \<Rightarrow> string \<Rightarrow> board \<Rightarrow> board" where
  "finish_task e key st detail b = b\<lparr>bd_tasks := finish_operation_task (be_now_ms e) key st detail (bd_tasks b)\<rparr>"

definition start_launch_task :: "board_env \<Rightarrow> profile_id \<Rightarrow> string \<Rightarrow> board \<Rightarrow> board" where
  "start_launch_task e i name = start_operation_task e (launch_task_key i) ''Launch application'' name (map step_label LAUNCH_STEPS)"

definition ensure_launch_task :: "board_env \<Rightarrow> profile_id \<Rightarrow> string \<Rightarrow> board \<Rightarrow> board" where
  "ensure_launch_task e i name b = (if task_is_active (launch_task_key i) (bd_tasks b) then b else start_launch_task e i name b)"

definition STOP_STEPS :: "string list" where
  "STOP_STEPS =
     [''Ask application to exit'', ''Stop application process'', ''Stop Waypipe worker'', ''Release display'',
      ''Stop container'', ''Mark instance exited'']"

definition ensure_stop_task :: "board_env \<Rightarrow> profile_id \<Rightarrow> string \<Rightarrow> board \<Rightarrow> board" where
  "ensure_stop_task e i name b =
     (if task_is_active (stop_task_key i) (bd_tasks b) then b
      else start_operation_task e (stop_task_key i) ''Stop application'' name STOP_STEPS b)"

definition panel_runtime_label :: "string \<Rightarrow> string" where
  "panel_runtime_label r =
     (let n = to_ascii_lowercase (trim r)
      in if n = ''docker'' then ''Docker'' else if n \<in> {''orb'', ''orbstack''} then ''OrbStack'' else ''Apple Container'')"

definition session_display_command :: "board_env \<Rightarrow> container_session \<Rightarrow> string" where
  "session_display_command e s =
     (case cs_command s of
        Some c \<Rightarrow> fst (redact_secrets e (profile_secrets s) False c)
      | None \<Rightarrow> session_command s)"

definition remember_launch_request :: "board_env \<Rightarrow> nat \<Rightarrow> board \<Rightarrow> board" where
  "remember_launch_request e k b =
     (case (profile_at k b, Option.bind (profile_at k b) (saved_profile e)) of
        (Some i, Some s) \<Rightarrow>
          push_activity e
            (''Launch requested: '' @ cs_name s @ '' via '' @ panel_runtime_label (cs_runtime s) @ '' ('' @ session_display_command e s @ '')'')
            (set_session_state i ''Starting''
              (''Launching '' @ cs_name s @ '' through '' @ panel_runtime_label (cs_runtime s) @ '' with command: '' @ session_display_command e s)
              (start_launch_task e i (cs_name s) (clear_session_logs i b)))
      | _ \<Rightarrow> push_activity e (''Launch requested for missing application profile #'' @ decimal (Suc k)) b)"

definition remember_stop_request :: "board_env \<Rightarrow> profile_id \<Rightarrow> board \<Rightarrow> board" where
  "remember_stop_request e i b =
     (case resolve_owned_stop i (bd_stoppable b) of
        None \<Rightarrow> b
      | Some p \<Rightarrow>
          push_activity e (''Stop requested: '' @ sp_name p)
            (set_session_state i ''Stopping'' (''Stopping '' @ sp_name p @ ''.'') (ensure_stop_task e i (sp_name p) b)))"

definition check_requested :: "board_env \<Rightarrow> nat \<Rightarrow> board \<Rightarrow> board" where
  "check_requested e k b =
     (let b1 = push_activity e (''Check requested for session #'' @ decimal (Suc k))
                 (set_state_at k ''Checking'' ''Running launch preflight checks.'' (b\<lparr>bd_selected := profile_at k b\<rparr>))
      in b1\<lparr>bd_sent := bd_sent b1 @ (case profile_at k b of None \<Rightarrow> [] | Some i \<Rightarrow> [i])\<rparr>)"

subsection \<open>A launch\<close>

definition record_launch_progress :: "board_env \<Rightarrow> profile_id \<Rightarrow> launch_step \<Rightarrow> string \<Rightarrow> board \<Rightarrow> board" where
  "record_launch_progress e i step detail b =
     push_activity e (name_or ''Application'' e i @ '': '' @ detail)
       (change_state i (\<lambda>s. s\<lparr>se_profile := ProfileReady, se_instance := Some InstanceStarting, se_detail := detail,
                              se_failed_step := None, se_force_stop := False\<rparr>)
         (step_task e (launch_task_key i) (step_label step) StepRunning (Some detail) b))"

definition record_launch_cancelling :: "board_env \<Rightarrow> profile_id \<Rightarrow> string \<Rightarrow> board \<Rightarrow> board" where
  "record_launch_cancelling e i detail b =
     push_activity e detail
       (set_session_state i ''Stopping'' detail
         (b\<lparr>bd_tasks := update_latest (launch_task_key i)
               (\<lambda>t. t\<lparr>tk_status := TaskRunning, tk_detail := Some detail, tk_updated := be_now_ms e\<rparr>) (bd_tasks b)\<rparr>))"

definition record_launch_cancelled :: "board_env \<Rightarrow> profile_id \<Rightarrow> string \<Rightarrow> board \<Rightarrow> board" where
  "record_launch_cancelled e i detail b =
     (let b1 = finish_task e (launch_task_key i) TaskCancelled detail b;
          b2 = (if task_is_active (stop_task_key i) (bd_tasks b1) then finish_task e (stop_task_key i) TaskCompleted detail b1 else b1)
      in push_activity e detail (set_session_state i ''Stopped'' detail b2))"

definition record_launch_success :: "board_env \<Rightarrow> profile_id \<Rightarrow> launch_report \<Rightarrow> board \<Rightarrow> board" where
  "record_launch_success e i r b =
     (let name = name_or ''Unknown application'' e i;
          detail = name
            @ '' transport processes started; application window readiness is not inferred from process startup. Runtime: ''
            @ lr_runtime r @ ''; container: '' @ lr_container_name r @ ''; command: '' @ lr_command r @ ''; host socket: ''
            @ lr_host_socket r @ ''; container socket: '' @ lr_container_socket r @ ''; waypipe pid: ''
            @ decimal (lr_waypipe_child r)
      in push_activity e (''Started: '' @ detail)
           (finish_task e (launch_task_key i) TaskCompleted
             (name @ '' transport processes started; inspect the display and logs to verify the application'')
             (set_session_state i ''Running'' detail b)))"

definition record_launch_already_running :: "board_env \<Rightarrow> profile_id \<Rightarrow> board \<Rightarrow> board" where
  "record_launch_already_running e i b =
     (let detail = (case saved_profile e i of
                      None \<Rightarrow> ''Session #'' @ profile_id_fmt i @ '' is already running.''
                    | Some s \<Rightarrow> cs_name s @ '' is already running. Stop it before launching again.'')
      in push_activity e (''Launch ignored: '' @ detail)
           (finish_task e (launch_task_key i) TaskCompleted detail (set_session_state i ''Running'' detail b)))"

definition record_launch_blocked :: "board_env \<Rightarrow> profile_id \<Rightarrow> string \<Rightarrow> board \<Rightarrow> board" where
  "record_launch_blocked e i detail b =
     push_activity e (''Launch blocked: '' @ detail)
       (finish_task e (launch_task_key i) TaskFailed detail
         (set_session_state i ''Blocked'' detail (b\<lparr>bd_selected := Some i\<rparr>)))"

definition is_container_already_running :: "launch_error \<Rightarrow> bool" where
  "is_container_already_running error = (case error of ContainerAlreadyRunning _ _ _ \<Rightarrow> True | _ \<Rightarrow> False)"

definition check_failure_profile_status :: "launch_error \<Rightarrow> profile_status" where
  "check_failure_profile_status error =
     (case error of
        UnsupportedDisplay _ _ \<Rightarrow> ProfileBlocked
      | RuntimeNotReady _ _ \<Rightarrow> ProfileBlocked
      | ContainerAlreadyRunning _ _ _ \<Rightarrow> ProfileBlocked
      | _ \<Rightarrow> ProfileInvalid)"

definition failure_label :: "launch_error \<Rightarrow> string" where
  "failure_label error =
     (if is_container_already_running error then ''Running''
      else if check_failure_profile_status error = ProfileBlocked then ''Blocked'' else ''Error'')"

definition record_launch_failure :: "board_env \<Rightarrow> profile_id \<Rightarrow> launch_error \<Rightarrow> board \<Rightarrow> board" where
  "record_launch_failure e i error b =
     (let detail = name_or ''Unknown application'' e i @ '' failed to start: '' @ launch_error_text error
      in push_activity e detail
           (finish_task e (launch_task_key i) TaskFailed detail
             (change_state i (\<lambda>s. s\<lparr>se_instance := Some InstanceFailed\<rparr>)
               (set_session_state i (failure_label error) detail (b\<lparr>bd_selected := Some i\<rparr>)))))"

subsection \<open>A check\<close>

definition nl :: string where "nl = [CHR 0x0A]"

definition check_report_detail :: "string \<Rightarrow> string \<Rightarrow> check_report \<Rightarrow> string" where
  "check_report_detail name st r =
     name @ '' is '' @ st @ ''.'' @ nl @ ''Runtime: '' @ ck_runtime r @ nl @ ''Container: '' @ ck_container_name r @ nl
       @ ''Image: '' @ ck_image r @ nl @ ''Command: '' @ ck_command r @ nl @ ''Waypipe: '' @ ck_waypipe r @ nl
       @ ''Waypipe version: '' @ ck_waypipe_version r @ nl @ ''Runtime binary: '' @ ck_runtime_binary r
       @ concat (map (\<lambda>w. nl @ ''Warning: '' @ w) (ck_warnings r))"

definition checked_instance_status :: "bool \<Rightarrow> bool \<Rightarrow> instance_status option" where
  "checked_instance_status runtime_running tracked = (if runtime_running \<and> tracked then Some InstanceRunning else None)"

definition active_session_of :: "profile_id \<Rightarrow> board \<Rightarrow> active_snapshot option" where
  "active_session_of i b = find (\<lambda>a. as_profile a = i) (bd_active b)"

definition check_asked :: "profile_id \<Rightarrow> board \<Rightarrow> board" where
  "check_asked i b = b\<lparr>bd_requested := filter (\<lambda>j. j \<noteq> i) (bd_requested b)\<rparr>"

definition record_check_success :: "board_env \<Rightarrow> profile_id \<Rightarrow> check_report \<Rightarrow> board \<Rightarrow> board" where
  "record_check_success e i r b =
     (let name = name_or ''Unknown application'' e i;
          inst = checked_instance_status (ck_running r) (active_session_of i b \<noteq> None);
          st = (if inst = Some InstanceRunning then ''running and tracked by this Cocoa-Way process''
                else if ck_running r then ''ready; an untracked instance from an earlier run will be replaced on launch''
                else ''ready'');
          detail = check_report_detail name st r
      in push_activity e (''Profile validated: '' @ detail)
           (check_asked i
             (change_state i (\<lambda>s. s\<lparr>se_failed_step := None,
                 se_health := Some \<lparr>hc_detail = detail, hc_waypipe_version = ck_waypipe_version r, hc_warnings = ck_warnings r\<rparr>\<rparr>)
               (set_session_state i (case inst of None \<Rightarrow> ''Ready'' | Some x \<Rightarrow> instance_label x) detail b))))"

definition record_check_failure :: "board_env \<Rightarrow> profile_id \<Rightarrow> launch_error \<Rightarrow> board \<Rightarrow> board" where
  "record_check_failure e i error b =
     (let detail = name_or ''Unknown application'' e i @ '' check failed: '' @ launch_error_text error
      in push_activity e detail
           (check_asked i
             (change_state i (\<lambda>s. s\<lparr>se_profile := check_failure_profile_status error, se_instance := None,
                 se_failed_step := Some ValidateProfile, se_health := None\<rparr>)
               (set_session_state i (failure_label error) detail b))))"

subsection \<open>A stop, a terminal, an exit\<close>

definition record_force_stop_available :: "board_env \<Rightarrow> profile_id \<Rightarrow> board \<Rightarrow> board" where
  "record_force_stop_available e i b =
     push_activity e (''Application #'' @ profile_id_fmt i @ '' did not exit gracefully; Force Stop is available'')
       (change_state i (\<lambda>s. s\<lparr>se_force_stop := True,
           se_detail := ''The application did not exit before the timeout. Force Stop is now available.''\<rparr>) b)"

definition record_stop_progress :: "board_env \<Rightarrow> profile_id \<Rightarrow> string \<Rightarrow> string \<Rightarrow> board \<Rightarrow> board" where
  "record_stop_progress e i step detail b =
     push_activity e detail (step_task e (stop_task_key i) step StepRunning (Some detail) b)"

definition record_stop_success :: "board_env \<Rightarrow> profile_id \<Rightarrow> board \<Rightarrow> board" where
  "record_stop_success e i b =
     (let detail = name_or ''Unknown application'' e i @ '' stopped.''
      in push_activity e detail
           (finish_task e (stop_task_key i) TaskCompleted detail (set_session_state i ''Stopped'' detail b)))"

definition record_stop_failure :: "board_env \<Rightarrow> profile_id \<Rightarrow> string \<Rightarrow> board \<Rightarrow> board" where
  "record_stop_failure e i error b =
     (let detail = name_or ''Unknown application'' e i @ '' stop failed: '' @ error
      in push_activity e detail
           (finish_task e (stop_task_key i) TaskFailed detail (set_session_state i ''Error'' detail b)))"

definition record_terminal_opened :: "board_env \<Rightarrow> profile_id \<Rightarrow> board \<Rightarrow> board" where
  "record_terminal_opened e i = push_activity e (''Terminal opened for '' @ name_or ''Unknown application'' e i @ ''.'')"

definition record_terminal_open_failed :: "board_env \<Rightarrow> profile_id \<Rightarrow> string \<Rightarrow> board \<Rightarrow> board" where
  "record_terminal_open_failed e i error b =
     (let detail = ''Terminal failed for '' @ name_or ''Unknown application'' e i @ '': '' @ error
      in set_session_state i ''Error'' detail (push_activity e detail b))"

definition record_process_exit :: "board_env \<Rightarrow> profile_id \<Rightarrow> string \<Rightarrow> string \<Rightarrow> board \<Rightarrow> board" where
  "record_process_exit e i process st b =
     (let detail = name_or ''Unknown application'' e i @ '' exited because '' @ process @ '' ended with '' @ st @ ''.''
      in push_activity e detail
           (finish_task e (stop_task_key i) TaskCompleted detail (set_session_state i ''Exited'' detail b)))"

definition record_session_log :: "board_env \<Rightarrow> profile_id \<Rightarrow> string \<Rightarrow> string \<Rightarrow> board \<Rightarrow> board" where
  "record_session_log e i source line b =
     push_activity e (source @ '': '' @ clean_session_log_line e line) (push_session_log e i source line b)"

subsection \<open>Sessions that may be stopped, running sessions, displays\<close>

text \<open>\<open>dedup_by_key\<close> keeps the first of consecutive elements with one key.\<close>

fun dedup_by_key :: "('a \<Rightarrow> 'k) \<Rightarrow> 'a list \<Rightarrow> 'a list" where
  "dedup_by_key key [] = []"
| "dedup_by_key key [x] = [x]"
| "dedup_by_key key (x # y # r) = (if key x = key y then dedup_by_key key (x # r) else x # dedup_by_key key (y # r))"

definition record_stoppable_profiles :: "profile_id stoppable_profile list \<Rightarrow> board \<Rightarrow> board" where
  "record_stoppable_profiles ps b = b\<lparr>bd_stoppable := dedup_by_key sp_id (sort_key sp_id ps)\<rparr>"

definition control_stoppable_profiles :: "board \<Rightarrow> (profile_id \<times> string) list" where
  "control_stoppable_profiles b = map (\<lambda>p. (sp_id p, sp_name p)) (bd_stoppable b)"

definition record_active_container_sessions :: "active_snapshot list \<Rightarrow> board \<Rightarrow> board" where
  "record_active_container_sessions xs b = b\<lparr>bd_active := xs\<rparr>"

definition record_managed_display_starting :: "board_env \<Rightarrow> string \<Rightarrow> board \<Rightarrow> board" where
  "record_managed_display_starting e slot b =
     push_activity e (''Creating managed display: '' @ slot)
       (b\<lparr>bd_pending := (if slot \<in> set (bd_pending b) then bd_pending b else bd_pending b @ [slot]),
          bd_display_error := None\<rparr>)"

definition record_managed_displays :: "display_snapshot list \<Rightarrow> board \<Rightarrow> board" where
  "record_managed_displays ds b =
     (if bd_displays b = ds then b
      else b\<lparr>bd_displays := ds, bd_pending := filter (\<lambda>s. s \<notin> md_slot ` set ds) (bd_pending b),
             bd_closing := filter (\<lambda>s. s \<in> md_slot ` set ds) (bd_closing b)\<rparr>)"

definition slot_left :: "string \<Rightarrow> board \<Rightarrow> board" where
  "slot_left slot b =
     b\<lparr>bd_pending := filter (\<lambda>s. s \<noteq> slot) (bd_pending b), bd_closing := filter (\<lambda>s. s \<noteq> slot) (bd_closing b)\<rparr>"

definition record_managed_display_failure :: "board_env \<Rightarrow> string \<Rightarrow> string \<Rightarrow> board \<Rightarrow> board" where
  "record_managed_display_failure e slot error b =
     (let msg = ''Managed display '' @ quote slot @ '': '' @ error
      in push_activity e msg ((slot_left slot b)\<lparr>bd_display_error := Some msg\<rparr>))"

definition record_managed_display_exit :: "board_env \<Rightarrow> string \<Rightarrow> string \<Rightarrow> board \<Rightarrow> board" where
  "record_managed_display_exit e slot reason b =
     push_activity e (''Managed display '' @ quote slot @ '' closed: '' @ reason) (slot_left slot b)"

definition ask_close_display :: "display_snapshot \<Rightarrow> board \<Rightarrow> board" where
  "ask_close_display d b = b\<lparr>bd_closing := bd_closing b @ [md_slot d]\<rparr>"

record display_row =
  dr_slot :: string
  dr_status :: display_status
  dr_runtime_dir :: "string option"
  dr_display :: "string option"
  dr_pid :: "nat option"
  dr_attachments :: nat

definition control_managed_displays :: "board \<Rightarrow> display_row list" where
  "control_managed_displays b =
     map (\<lambda>s. \<lparr>dr_slot = s, dr_status = DisplayAllocating, dr_runtime_dir = None, dr_display = None, dr_pid = None,
               dr_attachments = 0\<rparr>) (bd_pending b)
     @ map (\<lambda>d. (let n = length (filter (\<lambda>a. as_slot a = md_slot d) (bd_active b))
                 in \<lparr>dr_slot = md_slot d,
                     dr_status = (if md_slot d \<in> set (bd_closing b) then DisplayClosing
                                  else if 0 < n then DisplayAttached else DisplayFree),
                     dr_runtime_dir = Some (md_runtime_dir d), dr_display = Some (md_display d), dr_pid = Some (md_pid d),
                     dr_attachments = n\<rparr>)) (bd_displays b)"

subsection \<open>The events of the board\<close>

datatype board_event =
  PanelDrawn
| LaunchRequested nat
| CheckRequested nat
| StopRequested profile_id
| EnsureLaunch profile_id string
| EnsureStop profile_id string
| LaunchProgress profile_id launch_step string
| LaunchCancelling profile_id string
| LaunchCancelled profile_id string
| LaunchSucceeded profile_id launch_report
| LaunchAlreadyRunning profile_id
| LaunchBlocked profile_id string
| LaunchFailed profile_id launch_error
| CheckSucceeded profile_id check_report
| CheckFailed profile_id launch_error
| ForceStopAvailable profile_id
| StopProgress profile_id string string
| StopSucceeded profile_id
| StopFailed profile_id string
| TerminalOpened profile_id
| TerminalFailed profile_id string
| ProcessEnded profile_id string string
| LogLine profile_id string string
| ValidationInvalidated profile_id
| StoppableKnown "profile_id stoppable_profile list"
| ActiveKnown "active_snapshot list"
| DisplayStarting string
| DisplaysKnown "display_snapshot list"
| DisplayCloseAsked display_snapshot
| DisplayBroken string string
| DisplayExited string string

fun board_step :: "board_env \<times> board_event \<Rightarrow> board \<Rightarrow> board" where
  "board_step (e, PanelDrawn) = panel_drawn e"
| "board_step (e, LaunchRequested k) = remember_launch_request e k"
| "board_step (e, CheckRequested k) = check_requested e k"
| "board_step (e, StopRequested i) = remember_stop_request e i"
| "board_step (e, EnsureLaunch i n) = ensure_launch_task e i n"
| "board_step (e, EnsureStop i n) = ensure_stop_task e i n"
| "board_step (e, LaunchProgress i s d) = record_launch_progress e i s d"
| "board_step (e, LaunchCancelling i d) = record_launch_cancelling e i d"
| "board_step (e, LaunchCancelled i d) = record_launch_cancelled e i d"
| "board_step (e, LaunchSucceeded i r) = record_launch_success e i r"
| "board_step (e, LaunchAlreadyRunning i) = record_launch_already_running e i"
| "board_step (e, LaunchBlocked i d) = record_launch_blocked e i d"
| "board_step (e, LaunchFailed i x) = record_launch_failure e i x"
| "board_step (e, CheckSucceeded i r) = record_check_success e i r"
| "board_step (e, CheckFailed i x) = record_check_failure e i x"
| "board_step (e, ForceStopAvailable i) = record_force_stop_available e i"
| "board_step (e, StopProgress i s d) = record_stop_progress e i s d"
| "board_step (e, StopSucceeded i) = record_stop_success e i"
| "board_step (e, StopFailed i d) = record_stop_failure e i d"
| "board_step (e, TerminalOpened i) = record_terminal_opened e i"
| "board_step (e, TerminalFailed i d) = record_terminal_open_failed e i d"
| "board_step (e, ProcessEnded i p d) = record_process_exit e i p d"
| "board_step (e, LogLine i s l) = record_session_log e i s l"
| "board_step (e, ValidationInvalidated i) = invalidate_profile_validation i"
| "board_step (e, StoppableKnown ps) = record_stoppable_profiles ps"
| "board_step (e, ActiveKnown xs) = record_active_container_sessions xs"
| "board_step (e, DisplayStarting s) = record_managed_display_starting e s"
| "board_step (e, DisplaysKnown ds) = record_managed_displays ds"
| "board_step (e, DisplayCloseAsked d) = ask_close_display d"
| "board_step (e, DisplayBroken s x) = record_managed_display_failure e s x"
| "board_step (e, DisplayExited s x) = record_managed_display_exit e s x"

definition board_new :: board where
  "board_new = \<lparr>bd_tasks = [], bd_next = 1, bd_states = [], bd_activity = [], bd_logs = [], bd_active = [], bd_displays = [],
     bd_pending = [], bd_closing = [], bd_display_error = None, bd_requested = [], bd_stoppable = [], bd_selected = None,
     bd_view = [], bd_sent = []\<rparr>"

subsection \<open>The invariant\<close>

text \<open>
  Tasks have growing identities, and an unfinished one is the newest of its key; a completed task
  has no open step.
\<close>

definition task_order :: "operation_task \<Rightarrow> operation_task \<Rightarrow> bool" where
  "task_order x y \<longleftrightarrow> tk_id x < tk_id y \<and> \<not> (tk_key x = tk_key y \<and> task_active (tk_status x))"

definition step_open :: "task_step \<Rightarrow> bool" where
  "step_open s \<longleftrightarrow> ts_status s \<in> {StepPending, StepRunning}"

definition task_settled :: "operation_task \<Rightarrow> bool" where
  "task_settled t \<longleftrightarrow> \<not> (tk_status t = TaskCompleted \<and> list_ex step_open (tk_steps t))"

definition tasks_ok :: "nat \<Rightarrow> operation_task list \<Rightarrow> bool" where
  "tasks_ok n ts \<longleftrightarrow> sorted_wrt task_order ts \<and> list_all (\<lambda>t. tk_id t < n) ts \<and> length ts \<le> 100 \<and> list_all task_settled ts"

definition board_ok :: "board \<Rightarrow> bool" where
  "board_ok b \<longleftrightarrow>
     tasks_ok (bd_next b) (bd_tasks b) \<and> length (bd_activity b) \<le> 50 \<and> distinct (map fst (bd_states b))
     \<and> distinct (map fst (bd_logs b)) \<and> list_all (\<lambda>x. length (snd x) \<le> 200) (bd_logs b)
     \<and> distinct (bd_requested b) \<and> sorted_wrt (<) (map sp_id (bd_stoppable b))"

lemma task_order_fun:
  "task_order = (\<lambda>x y. tk_id x < tk_id y \<and> \<not> (tk_key x = tk_key y \<and> task_active (tk_status x)))"
  by (simp add: fun_eq_iff task_order_def)

lemma length_keep_newest: "length (keep_newest n xs) \<le> n"
  by (simp add: keep_newest_def)

lemma keep_newest_small: "length xs \<le> n \<Longrightarrow> keep_newest n xs = xs"
  by (simp add: keep_newest_def)

lemma sorted_keep_newest: "sorted_wrt P xs \<Longrightarrow> sorted_wrt P (keep_newest n xs)"
  by (simp add: keep_newest_def sorted_wrt_drop)

lemma list_all_keep_newest: "list_all P xs \<Longrightarrow> list_all P (keep_newest n xs)"
  by (auto simp: keep_newest_def list_all_iff dest: in_set_dropD)

lemma map_fst_change_entry [simp]: "map fst (change_entry k f xs) = map fst xs"
  by (induction xs) auto

lemma fst_change_entry [simp]: "fst ` set (change_entry k f xs) = fst ` set xs"
  by (metis list.set_map map_fst_change_entry)

lemma list_all_change_entry:
  "list_all (\<lambda>x. P (snd x)) xs \<Longrightarrow> (\<And>v. P v \<Longrightarrow> P (f v)) \<Longrightarrow> list_all (\<lambda>x. P (snd x)) (change_entry k f xs)"
  by (induction xs) auto

lemma map_of_change_entry: "map_of (change_entry k f xs) j = (if j = k then map_option f (map_of xs k) else map_of xs j)"
  by (induction xs) auto

text \<open>The newest task of a key changes, so what orders it after the older ones stays.\<close>

lemma update_latest_old:
  assumes "\<And>t. tk_id (f t) = tk_id t \<and> tk_key (f t) = tk_key t" and "y \<in> set (update_latest k f ts)"
  shows "\<exists>x \<in> set ts. tk_id y = tk_id x \<and> tk_key y = tk_key x"
  using assms(2) by (induction ts) (auto simp: assms(1) split: if_splits)

lemma length_update_latest [simp]: "length (update_latest k f ts) = length ts"
  by (induction ts) auto

lemma update_latest_ok:
  assumes f: "\<And>t. tk_id (f t) = tk_id t \<and> tk_key (f t) = tk_key t" "\<And>t. task_settled t \<Longrightarrow> task_settled (f t)"
    and ok: "tasks_ok n ts"
  shows "tasks_ok n (update_latest k f ts)"
proof -
  have "sorted_wrt task_order ts \<Longrightarrow> sorted_wrt task_order (update_latest k f ts)"
  proof (induction ts)
    case (Cons t ts)
    then show ?case
      using f(1) update_latest_old [OF f(1), where k = k and ts = ts]
      by (auto simp: task_order_def) metis+
  qed simp
  moreover have "list_all (\<lambda>t. tk_id t < n) ts \<Longrightarrow> list_all (\<lambda>t. tk_id t < n) (update_latest k f ts)"
    by (induction ts) (auto simp: f(1))
  moreover have "list_all task_settled ts \<Longrightarrow> list_all task_settled (update_latest k f ts)"
    by (induction ts) (auto simp: f(2))
  ultimately show ?thesis using ok by (simp add: tasks_ok_def)
qed

lemma start_task_ok:
  assumes "tasks_ok n ts" "tk_id t = n" "task_settled t"
  shows "tasks_ok (Suc n) (start_task t ts)"
proof -
  let ?old = "filter (\<lambda>x. tk_key x \<noteq> tk_key t \<or> \<not> task_active (tk_status x)) ts"
  have "sorted_wrt task_order (?old @ [t])"
    using assms(1,2) by (auto simp: tasks_ok_def sorted_wrt_append task_order_def list_all_iff intro!: sorted_wrt_filter)
  moreover have "list_all (\<lambda>x. tk_id x < Suc n) (?old @ [t])" "list_all task_settled (?old @ [t])"
    using assms by (auto simp: tasks_ok_def list_all_iff)
  ultimately show ?thesis
    by (simp add: tasks_ok_def start_task_def length_keep_newest sorted_keep_newest list_all_keep_newest)
qed

lemma new_task_settled: "task_settled (new_task now i key operation subject steps)"
  by (simp add: task_settled_def new_task_def)

lemma finish_steps_completed: "\<not> list_ex step_open (finish_steps TaskCompleted steps)"
  by (auto simp: finish_steps_def list_ex_iff step_open_def)

lemma finish_ok: "tasks_ok n ts \<Longrightarrow> tasks_ok n (finish_operation_task now key st detail ts)"
  unfolding finish_operation_task_def
  by (rule update_latest_ok) (auto simp: task_settled_def finish_steps_completed)

lemma progress_ok: "tasks_ok n ts \<Longrightarrow> tasks_ok n (update_operation_task_step now key step st detail ts)"
  unfolding update_operation_task_step_def
  by (rule update_latest_ok) (auto simp: task_settled_def)

lemma dedup_strict:
  fixes key :: "'a \<Rightarrow> 'k::linorder"
  shows "sorted (map key xs) \<Longrightarrow>
    sorted_wrt (<) (map key (dedup_by_key key xs)) \<and> set (map key (dedup_by_key key xs)) = set (map key xs)"
  by (induction key xs rule: dedup_by_key.induct) (auto simp: less_le)

subsection \<open>Every operation keeps it\<close>

lemma push_activity_ok: "board_ok b \<Longrightarrow> board_ok (push_activity e msg b)"
  by (simp add: board_ok_def push_activity_def length_keep_newest)

lemma set_session_state_ok: "board_ok b \<Longrightarrow> board_ok (set_session_state i label detail b)"
  by (auto simp: board_ok_def set_session_state_def Let_def split: prod.splits)

lemma change_state_ok: "board_ok b \<Longrightarrow> board_ok (change_state i f b)"
  by (simp add: board_ok_def change_state_def)

lemma start_operation_task_ok: "board_ok b \<Longrightarrow> board_ok (start_operation_task e key operation subject steps b)"
  by (simp add: board_ok_def start_operation_task_def start_task_ok new_task_settled) (simp add: start_task_ok new_task_def new_task_settled [unfolded new_task_def])

lemma finish_task_ok: "board_ok b \<Longrightarrow> board_ok (finish_task e key st detail b)"
  by (simp add: board_ok_def finish_task_def finish_ok)

lemma step_task_ok: "board_ok b \<Longrightarrow> board_ok (step_task e key step st detail b)"
  by (simp add: board_ok_def step_task_def progress_ok)

lemma clear_session_logs_ok: "board_ok b \<Longrightarrow> board_ok (clear_session_logs i b)"
  by (simp add: board_ok_def clear_session_logs_def list_all_change_entry [where P = "\<lambda>ls. length ls \<le> 200"])

lemma push_session_log_ok: "board_ok b \<Longrightarrow> board_ok (push_session_log e i source line b)"
  by (simp add: board_ok_def push_session_log_def Let_def list_all_change_entry [where P = "\<lambda>ls. length ls \<le> 200"] length_keep_newest)

lemma check_asked_ok: "board_ok b \<Longrightarrow> board_ok (check_asked i b)"
  by (simp add: board_ok_def check_asked_def)

lemma board_fields_ok:
  "board_ok (b\<lparr>bd_selected := x\<rparr>) = board_ok b" "board_ok (b\<lparr>bd_sent := s\<rparr>) = board_ok b"
  "board_ok (b\<lparr>bd_view := v\<rparr>) = board_ok b" "board_ok (b\<lparr>bd_active := a\<rparr>) = board_ok b"
  "board_ok (b\<lparr>bd_closing := c\<rparr>) = board_ok b" "board_ok (b\<lparr>bd_display_error := m\<rparr>) = board_ok b"
  "board_ok (b\<lparr>bd_pending := p\<rparr>) = board_ok b" "board_ok (b\<lparr>bd_displays := d\<rparr>) = board_ok b"
  by (simp_all add: board_ok_def)

lemma schedule_ok: "board_ok b \<Longrightarrow> board_ok (schedule_from k ss b)"
  by (induction k ss b rule: schedule_from.induct) (auto simp: board_ok_def)

lemma stoppable_ok: "board_ok b \<Longrightarrow> board_ok (record_stoppable_profiles ps b)"
  using dedup_strict [of sp_id "sort_key sp_id ps"] by (simp add: board_ok_def record_stoppable_profiles_def)

lemmas part_ok =
  push_activity_ok set_session_state_ok change_state_ok start_operation_task_ok finish_task_ok step_task_ok
  clear_session_logs_ok push_session_log_ok check_asked_ok board_fields_ok schedule_ok stoppable_ok

lemma displays_ok:
  "board_ok b \<Longrightarrow> board_ok (slot_left slot b)" "board_ok b \<Longrightarrow> board_ok (record_managed_displays ds b)"
  "board_ok b \<Longrightarrow> board_ok (invalidate_profile_validation i b)"
  by (auto simp: board_ok_def slot_left_def record_managed_displays_def invalidate_profile_validation_def
      distinct_map_filter)

lemma cancelling_ok: "board_ok b \<Longrightarrow> board_ok (record_launch_cancelling e i detail b)"
proof -
  assume "board_ok b"
  then have "board_ok (b\<lparr>bd_tasks := update_latest (launch_task_key i)
      (\<lambda>t. t\<lparr>tk_status := TaskRunning, tk_detail := Some detail, tk_updated := be_now_ms e\<rparr>) (bd_tasks b)\<rparr>)"
    by (auto simp: board_ok_def task_settled_def intro!: update_latest_ok)
  then show ?thesis by (simp add: record_launch_cancelling_def part_ok)
qed

lemma board_step_ok: "board_ok b \<Longrightarrow> board_ok (board_step x b)"
  by (cases x rule: board_step.cases)
    (simp_all add: part_ok displays_ok cancelling_ok panel_drawn_def remember_launch_request_def check_requested_def
      set_state_at_def remember_stop_request_def ensure_launch_task_def start_launch_task_def ensure_stop_task_def
      record_launch_progress_def record_launch_cancelled_def record_launch_success_def record_launch_already_running_def
      record_launch_blocked_def record_launch_failure_def record_check_success_def record_check_failure_def
      record_force_stop_available_def record_stop_progress_def record_stop_success_def record_stop_failure_def
      record_terminal_opened_def record_terminal_open_failed_def record_process_exit_def record_session_log_def
      record_active_container_sessions_def record_managed_display_starting_def record_managed_display_failure_def
      record_managed_display_exit_def ask_close_display_def Let_def split: option.split)

interpretation status_board: invariant_component board_step board_new board_ok
  by unfold_locales (simp_all add: board_step_ok, simp add: board_ok_def board_new_def tasks_ok_def)

subsection \<open>Ended operations\<close>

text \<open>The profile whose operation an event ends, and the tasks that end with it.\<close>

fun ended :: "board_event \<Rightarrow> (profile_id \<times> string list) option" where
  "ended (LaunchCancelled i d) = Some (i, [launch_task_key i, stop_task_key i])"
| "ended (LaunchSucceeded i r) = Some (i, [launch_task_key i])"
| "ended (LaunchAlreadyRunning i) = Some (i, [launch_task_key i])"
| "ended (LaunchBlocked i d) = Some (i, [launch_task_key i])"
| "ended (LaunchFailed i x) = Some (i, [launch_task_key i])"
| "ended (StopSucceeded i) = Some (i, [stop_task_key i])"
| "ended (StopFailed i d) = Some (i, [stop_task_key i])"
| "ended (ProcessEnded i p d) = Some (i, [stop_task_key i])"
| "ended _ = None"

definition no_active :: "string \<Rightarrow> operation_task list \<Rightarrow> bool" where
  "no_active k ts = list_all (\<lambda>t. \<not> (tk_key t = k \<and> task_active (tk_status t))) ts"

lemma update_latest_ends:
  assumes "sorted_wrt task_order ts" "\<And>t. \<not> task_active (tk_status (f t))"
  shows "no_active k (update_latest k f ts)"
  using assms(1)
  by (induction ts) (auto simp: no_active_def task_order_def list_all_iff assms(2))

lemma update_latest_other:
  assumes "\<And>t. tk_key (f t) = tk_key t" "no_active k ts" "k \<noteq> k'"
  shows "no_active k (update_latest k' f ts)"
  using assms(2,3) by (induction ts) (auto simp: no_active_def assms(1))

lemma finish_ends:
  "board_ok b \<Longrightarrow> \<not> task_active st \<Longrightarrow> no_active k (bd_tasks (finish_task e k st detail b))"
  by (auto simp: finish_task_def finish_operation_task_def board_ok_def tasks_ok_def intro!: update_latest_ends)

lemma finish_keeps_ended:
  "no_active k (bd_tasks b) \<Longrightarrow> k \<noteq> k' \<Longrightarrow> no_active k (bd_tasks (finish_task e k' st detail b))"
  by (auto simp: finish_task_def finish_operation_task_def intro!: update_latest_other)

lemma find_found: "find P xs = Some y \<Longrightarrow> y \<in> set xs \<and> P y"
  by (induction xs) (auto split: if_splits)

lemma find_snoc: "find P (xs @ [x]) = (case find P xs of None \<Rightarrow> if P x then Some x else None | Some y \<Rightarrow> Some y)"
  by (induction xs) auto

lemma no_latest_active:
  assumes "sorted_wrt task_order ts" "\<not> task_is_active k ts"
  shows "no_active k ts"
  using assms
proof (induction ts)
  case (Cons t ts)
  show ?case
  proof (cases "find (\<lambda>t. tk_key t = k) (rev ts)")
    case None
    then have "\<forall>x \<in> set ts. tk_key x \<noteq> k" by (auto simp: find_None_iff)
    with None show ?thesis using Cons.prems(2)
      by (auto simp: no_active_def task_is_active_def latest_operation_task_def find_snoc list_all_iff)
  next
    case (Some y)
    then have "y \<in> set ts" "tk_key y = k" using find_found [OF Some] by simp_all
    moreover have "\<not> task_is_active k ts"
      using Cons.prems Some by (auto simp: task_is_active_def latest_operation_task_def find_snoc)
    moreover have "\<not> (tk_key t = k \<and> task_active (tk_status t))"
      using Cons.prems(1) calculation(1,2) unfolding sorted_wrt.simps task_order_def by metis
    ultimately show ?thesis using Cons.IH Cons.prems(1) by (simp add: no_active_def)
  qed
qed (simp add: no_active_def)

lemma keys_differ: "launch_task_key i \<noteq> stop_task_key j"
  by (simp add: launch_task_key_def stop_task_key_def)

lemma task_fields [simp]:
  "bd_tasks (push_activity e m b) = bd_tasks b" "bd_states (push_activity e m b) = bd_states b"
  "bd_logs (push_activity e m b) = bd_logs b"
  "bd_tasks (set_session_state i l d b) = bd_tasks b" "bd_logs (set_session_state i l d b) = bd_logs b"
  "bd_tasks (change_state i f b) = bd_tasks b" "bd_logs (change_state i f b) = bd_logs b"
  "bd_states (finish_task e k st d b) = bd_states b" "bd_logs (finish_task e k st d b) = bd_logs b"
  "bd_states (step_task e k s st' o' b) = bd_states b" "bd_logs (step_task e k s st' o' b) = bd_logs b"
  "bd_states (start_operation_task e k op sj ss b) = bd_states b" "bd_logs (start_operation_task e k op sj ss b) = bd_logs b"
  "bd_tasks (clear_session_logs i b) = bd_tasks b" "bd_states (clear_session_logs i b) = bd_states b"
  "bd_tasks (push_session_log e i sc l b) = bd_tasks b" "bd_states (push_session_log e i sc l b) = bd_states b"
  "bd_tasks (check_asked i b) = bd_tasks b" "bd_states (check_asked i b) = bd_states b" "bd_logs (check_asked i b) = bd_logs b"
  "bd_tasks (slot_left s b) = bd_tasks b" "bd_states (slot_left s b) = bd_states b" "bd_logs (slot_left s b) = bd_logs b"
  by (simp_all add: push_activity_def set_session_state_def change_state_def finish_task_def step_task_def start_operation_task_def
      clear_session_logs_def push_session_log_def check_asked_def slot_left_def Let_def split: prod.split)

lemma states_after_set:
  "session_state_of j (set_session_state i label detail b) =
     (if j \<noteq> i then session_state_of j b
      else case session_state_of i b of
        Some s \<Rightarrow> Some (relabel label detail s)
      | None \<Rightarrow> Some (relabel label detail
          \<lparr>se_profile = ProfileReady, se_instance = None, se_detail = [], se_failed_step = None, se_force_stop = False, se_health = None\<rparr>))"
proof (cases "map_of (bd_states b) i")
  case None
  then have "i \<notin> fst ` set (bd_states b)" by (simp add: map_of_eq_None_iff)
  then show ?thesis using None
    by (auto simp: session_state_of_def set_session_state_def relabel_def Let_def map_add_def split: prod.splits option.splits)
next
  case (Some s)
  then have "i \<in> fst ` set (bd_states b)" by (metis map_of_eq_None_iff option.distinct(1))
  then show ?thesis using Some
    by (auto simp: session_state_of_def set_session_state_def map_of_change_entry Let_def split: prod.splits)
qed

lemma states_after_change:
  "session_state_of j (change_state i f b) = (if j = i then map_option f (session_state_of i b) else session_state_of j b)"
  by (simp add: session_state_of_def change_state_def map_of_change_entry)

lemma state_reading [simp]:
  "session_state_of i (push_activity e m b) = session_state_of i b" "session_state_of i (finish_task e k st d b) = session_state_of i b"
  by (simp_all add: session_state_of_def)

definition at_rest :: "session_state option \<Rightarrow> bool" where
  "at_rest s = (case s of None \<Rightarrow> False
     | Some s \<Rightarrow> se_instance s \<notin> {Some InstanceStarting, Some InstanceStopping} \<and> \<not> se_force_stop s)"

lemma ended_profile_rests:
  "ended x = Some (i, ks) \<Longrightarrow> at_rest (session_state_of i (board_step (e, x) b))"
  by (cases x)
    (auto simp: record_launch_cancelled_def record_launch_success_def record_launch_already_running_def record_launch_blocked_def
      record_launch_failure_def record_stop_success_def record_stop_failure_def record_process_exit_def failure_label_def
      states_after_set states_after_change at_rest_def relabel_def state_from_legacy_label_def Let_def split: option.splits)

lemma launch_cancelled_ends:
  assumes "board_ok b" "k \<in> {launch_task_key i, stop_task_key i}"
  shows "no_active k (bd_tasks (record_launch_cancelled e i d b))"
proof -
  let ?b1 = "finish_task e (launch_task_key i) TaskCancelled d b"
  have ok: "board_ok ?b1" using assms(1) by (rule finish_task_ok)
  have launch: "no_active (launch_task_key i) (bd_tasks ?b1)"
    by (rule finish_ends [OF assms(1)]) (simp add: task_active_def)
  show ?thesis
  proof (cases "task_is_active (stop_task_key i) (bd_tasks ?b1)")
    case True
    have "no_active (stop_task_key i) (bd_tasks (finish_task e (stop_task_key i) TaskCompleted d ?b1))"
      by (rule finish_ends [OF ok]) (simp add: task_active_def)
    with True assms(2) show ?thesis
      by (auto simp: record_launch_cancelled_def intro: finish_keeps_ended [OF launch keys_differ])
  next
    case False
    then have "no_active (stop_task_key i) (bd_tasks ?b1)"
      using ok by (auto simp: board_ok_def tasks_ok_def intro: no_latest_active)
    with False assms(2) launch show ?thesis by (auto simp: record_launch_cancelled_def)
  qed
qed

lemma ended_tasks_end:
  assumes "board_ok b" "ended x = Some (i, ks)" "k \<in> set ks"
  shows "no_active k (bd_tasks (board_step (e, x) b))"
proof (cases "\<exists>d. x = LaunchCancelled i d")
  case True
  then show ?thesis using assms launch_cancelled_ends [OF assms(1)] by auto
next
  case False
  have *: "\<not> task_active st \<Longrightarrow> no_active k (bd_tasks (finish_task e k st d (set_session_state i l d' b)))"
    "\<not> task_active st \<Longrightarrow> no_active k (bd_tasks (finish_task e k st d (set_session_state i l d' (b\<lparr>bd_selected := y\<rparr>))))"
    "\<not> task_active st \<Longrightarrow> no_active k (bd_tasks (finish_task e k st d (change_state i f (set_session_state i l d' (b\<lparr>bd_selected := y\<rparr>)))))"
    for st d l d' k y f
    using assms(1) by (simp_all add: finish_ends part_ok)
  show ?thesis using False assms(2,3)
    by (cases x)
      (auto simp: record_launch_success_def record_launch_already_running_def record_launch_blocked_def
        record_launch_failure_def record_stop_success_def record_stop_failure_def record_process_exit_def Let_def task_active_def
        intro!: *)
qed

text \<open>
  C17: an event that ends a launch or a stop leaves no unfinished task of that launch or stop behind, and the
  profile recorded as neither starting nor stopping, with no forced stop on offer.
\<close>

theorem ended_operations_settle:
  "let b = run_events board_step (es @ [(e, x)]) board_new
   in case ended x of
        None \<Rightarrow> True
      | Some (i, ks) \<Rightarrow>
          filter (\<lambda>t. tk_key t \<in> set ks \<and> task_active (tk_status t)) (bd_tasks b) = []
          \<and> (case session_state_of i b of
               None \<Rightarrow> False
             | Some s \<Rightarrow> se_instance s \<notin> {Some InstanceStarting, Some InstanceStopping} \<and> \<not> se_force_stop s)"
proof (cases "ended x")
  case (Some r)
  then obtain i ks where x: "ended x = Some (i, ks)" by (cases r) simp
  let ?b = "run_events board_step es board_new"
  have "filter (\<lambda>t. tk_key t \<in> set ks \<and> task_active (tk_status t)) (bd_tasks (board_step (e, x) ?b)) = []"
    using ended_tasks_end [OF status_board.inv_run x] by (auto simp: filter_empty_conv no_active_def list_all_iff)
  moreover note ended_profile_rests [OF x, unfolded at_rest_def, of e ?b]
  ultimately show ?thesis by (simp add: x run_events_append Let_def del: board_step.simps)
qed simp

text \<open>
  C18: however long the program runs, at most a hundred tasks, fifty activities and two hundred log lines a profile
  are kept; each profile has one state and one log and no validation is asked for twice before it is answered or the profile changes; tasks are numbered in order, at most
  one of a key is unfinished, and it is the newest; a completed task has no open step.
\<close>

theorem board_bounded:
  "let b = run_events board_step es board_new
   in length (bd_tasks b) \<le> 100 \<and> length (bd_activity b) \<le> 50 \<and> list_all (\<lambda>x. length (snd x) \<le> 200) (bd_logs b)
      \<and> distinct (map fst (bd_states b)) \<and> distinct (map fst (bd_logs b)) \<and> distinct (bd_requested b)
      \<and> sorted_wrt (<) (map sp_id (bd_stoppable b))
      \<and> sorted_wrt (\<lambda>x y. tk_id x < tk_id y \<and> \<not> (tk_key x = tk_key y \<and> task_active (tk_status x))) (bd_tasks b)
      \<and> filter (\<lambda>t. tk_status t = TaskCompleted \<and> list_ex step_open (tk_steps t)) (bd_tasks b) = []"
proof -
  let ?b = "run_events board_step es board_new"
  have ok: "board_ok ?b" by (rule status_board.inv_run)
  then have "filter (\<lambda>t. tk_status t = TaskCompleted \<and> list_ex step_open (tk_steps t)) (bd_tasks ?b) = []"
    by (auto simp: board_ok_def tasks_ok_def filter_empty_conv list_all_iff task_settled_def)
  moreover have "sorted_wrt (\<lambda>x y. tk_id x < tk_id y \<and> \<not> (tk_key x = tk_key y \<and> task_active (tk_status x))) (bd_tasks ?b)"
    using ok by (simp only: board_ok_def tasks_ok_def task_order_fun)
  ultimately show ?thesis using ok by (simp add: Let_def board_ok_def tasks_ok_def)
qed

subsection \<open>Profiles apart\<close>

text \<open>The profile an event is about; one that names a position is about the profile there, if any.\<close>

fun about :: "board \<Rightarrow> board_event \<Rightarrow> profile_id option" where
  "about b (LaunchRequested k) = profile_at k b"
| "about b (CheckRequested k) = profile_at k b"
| "about b (StopRequested i) = Some i"
| "about b (EnsureLaunch i n) = Some i"
| "about b (EnsureStop i n) = Some i"
| "about b (LaunchProgress i s d) = Some i"
| "about b (LaunchCancelling i d) = Some i"
| "about b (LaunchCancelled i d) = Some i"
| "about b (LaunchSucceeded i r) = Some i"
| "about b (LaunchAlreadyRunning i) = Some i"
| "about b (LaunchBlocked i d) = Some i"
| "about b (LaunchFailed i x) = Some i"
| "about b (CheckSucceeded i r) = Some i"
| "about b (CheckFailed i x) = Some i"
| "about b (ForceStopAvailable i) = Some i"
| "about b (StopProgress i s d) = Some i"
| "about b (StopSucceeded i) = Some i"
| "about b (StopFailed i d) = Some i"
| "about b (TerminalOpened i) = Some i"
| "about b (TerminalFailed i d) = Some i"
| "about b (ProcessEnded i p d) = Some i"
| "about b (LogLine i s l) = Some i"
| "about b (ValidationInvalidated i) = Some i"
| "about b _ = None"

definition own_tasks :: "profile_id \<Rightarrow> board \<Rightarrow> operation_task list" where
  "own_tasks j b = filter (\<lambda>t. tk_key t \<in> {launch_task_key j, stop_task_key j}) (bd_tasks b)"

definition apart :: "profile_id \<Rightarrow> board \<Rightarrow> board \<Rightarrow> bool" where
  "apart j b b' \<longleftrightarrow> session_state_of j b' = session_state_of j b \<and> session_logs j b' = session_logs j b
     \<and> (\<exists>n. own_tasks j b' = drop n (own_tasks j b))"

lemma fmt_inject: "profile_id_fmt i = profile_id_fmt j \<longleftrightarrow> i = j"
proof
  assume "profile_id_fmt i = profile_id_fmt j"
  then have "parse_bytes (profile_id_fmt i) = parse_bytes (profile_id_fmt j)" by simp
  then show "i = j" by (cases i; cases j) (simp add: profile_id_fmt_def parse_bytes_show)
qed simp

lemma key_inject: "launch_task_key i = launch_task_key j \<longleftrightarrow> i = j" "stop_task_key i = stop_task_key j \<longleftrightarrow> i = j"
  by (simp_all add: launch_task_key_def stop_task_key_def fmt_inject)

lemma map_of_filter_key: "j \<noteq> i \<Longrightarrow> map_of (filter (\<lambda>x. fst x \<noteq> i) xs) j = map_of xs j"
  by (induction xs) auto

lemma apart_refl: "apart j b b"
  by (auto simp: apart_def intro: exI [of _ 0])

lemma apart_same:
  "bd_states b = bd_states c \<Longrightarrow> bd_logs b = bd_logs c \<Longrightarrow> bd_tasks b = bd_tasks c \<Longrightarrow> apart j b0 b = apart j b0 c"
  by (simp add: apart_def session_state_of_def session_logs_def own_tasks_def)

lemma filter_update_latest:
  "(\<And>t. tk_key (f t) = tk_key t) \<Longrightarrow> k \<notin> K \<Longrightarrow>
   filter (\<lambda>t. tk_key t \<in> K) (update_latest k f ts) = filter (\<lambda>t. tk_key t \<in> K) ts"
  by (induction ts) auto

lemma filter_start_task:
  assumes "tk_key t \<notin> K"
  shows "\<exists>n. filter (\<lambda>t. tk_key t \<in> K) (start_task t ts) = drop n (filter (\<lambda>t. tk_key t \<in> K) ts)"
proof -
  have suffix: "\<exists>n. filter P (drop m xs) = drop n (filter P xs)" for P :: "operation_task \<Rightarrow> bool" and m xs
  proof -
    have "filter P xs = filter P (take m xs) @ filter P (drop m xs)"
      by (metis append_take_drop_id filter_append)
    then show ?thesis by (metis append_eq_conv_conj)
  qed
  let ?ys = "filter (\<lambda>x. tk_key x \<noteq> tk_key t \<or> \<not> task_active (tk_status x)) ts @ [t]"
  have "filter (\<lambda>t. tk_key t \<in> K) ?ys = filter (\<lambda>t. tk_key t \<in> K) ts"
    using assms by (auto intro!: filter_cong)
  moreover obtain n where "filter (\<lambda>t. tk_key t \<in> K) (drop (length ?ys - 100) ?ys) = drop n (filter (\<lambda>t. tk_key t \<in> K) ?ys)"
    using suffix by blast
  ultimately show ?thesis by (auto simp: start_task_def keep_newest_def)
qed

text \<open>A part of an operation that is about another profile keeps a board apart from the first one.\<close>

lemma apart_update:
  assumes "apart j b0 b" "k \<notin> {launch_task_key j, stop_task_key j}" "\<And>t. tk_key (f t) = tk_key t"
  shows "apart j b0 (b\<lparr>bd_tasks := update_latest k f (bd_tasks b)\<rparr>)"
  using assms(1) filter_update_latest [OF assms(3,2), of "bd_tasks b"]
  by (simp add: apart_def session_state_of_def session_logs_def own_tasks_def)

lemma apart_start:
  assumes "apart j b0 b" "k \<notin> {launch_task_key j, stop_task_key j}"
  shows "apart j b0 (start_operation_task e k op sj ss b)"
proof -
  obtain n where "own_tasks j (start_operation_task e k op sj ss b) = drop n (own_tasks j b)"
    using filter_start_task [of "new_task (be_now_ms e) (bd_next b) k op sj ss" "{launch_task_key j, stop_task_key j}" "bd_tasks b"] assms(2)
    by (auto simp: own_tasks_def start_operation_task_def new_task_def)
  moreover obtain m where "own_tasks j b = drop m (own_tasks j b0)" using assms(1) by (auto simp: apart_def)
  ultimately have "own_tasks j (start_operation_task e k op sj ss b) = drop (n + m) (own_tasks j b0)" by simp
  with assms(1) show ?thesis by (auto simp: apart_def session_state_of_def session_logs_def)
qed

lemma apart_parts:
  "apart j b0 (push_activity e m b) = apart j b0 b"
  "apart j b0 (check_asked i b) = apart j b0 b"
  "apart j b0 (slot_left s b) = apart j b0 b"
  "apart j b0 (b\<lparr>bd_selected := x\<rparr>) = apart j b0 b"
  "apart j b0 (b\<lparr>bd_sent := se\<rparr>) = apart j b0 b"
  "apart j b0 (b\<lparr>bd_view := v\<rparr>) = apart j b0 b"
  "apart j b0 (b\<lparr>bd_active := a\<rparr>) = apart j b0 b"
  "apart j b0 (b\<lparr>bd_closing := cl\<rparr>) = apart j b0 b"
  "apart j b0 (b\<lparr>bd_pending := p\<rparr>) = apart j b0 b"
  "apart j b0 (b\<lparr>bd_display_error := de\<rparr>) = apart j b0 b"
  "apart j b0 (record_stoppable_profiles ps b) = apart j b0 b"
  "apart j b0 (record_managed_displays ds b) = apart j b0 b"
  by (rule apart_same; simp add: record_stoppable_profiles_def record_managed_displays_def)+

lemma apart_schedule: "apart j b0 (schedule_from k ss b) = apart j b0 b"
  by (rule apart_same; induction k ss b rule: schedule_from.induct; simp)

lemma apart_profile:
  assumes "apart j b0 b" "j \<noteq> i"
  shows "apart j b0 (set_session_state i l d b)" "apart j b0 (change_state i f b)"
    "apart j b0 (clear_session_logs i b)" "apart j b0 (push_session_log e i sc line b)"
    "apart j b0 (invalidate_profile_validation i b)"
    "apart j b0 (finish_task e (launch_task_key i) st t b)" "apart j b0 (finish_task e (stop_task_key i) st t b)"
    "apart j b0 (step_task e (launch_task_key i) sp ss o' b)" "apart j b0 (step_task e (stop_task_key i) sp ss o' b)"
    "apart j b0 (start_operation_task e (launch_task_key i) op sj ns b)"
    "apart j b0 (start_operation_task e (stop_task_key i) op sj ns b)"
    "apart j b0 (b\<lparr>bd_tasks := update_latest (launch_task_key i)
       (\<lambda>t. t\<lparr>tk_status := ts, tk_detail := td, tk_updated := tu\<rparr>) (bd_tasks b)\<rparr>)"
proof -
  have k: "launch_task_key i \<notin> {launch_task_key j, stop_task_key j}" "stop_task_key i \<notin> {launch_task_key j, stop_task_key j}"
    using assms(2) keys_differ [of i j] keys_differ [of j i] by (auto simp: key_inject)
  show "apart j b0 (set_session_state i l d b)"
    using assms by (simp add: apart_def states_after_set session_logs_def own_tasks_def)
  show "apart j b0 (change_state i f b)"
    using assms by (simp add: apart_def states_after_change session_logs_def own_tasks_def)
  show "apart j b0 (clear_session_logs i b)"
    using assms by (simp add: apart_def session_state_of_def session_logs_def own_tasks_def) (simp add: clear_session_logs_def map_of_change_entry)
  show "apart j b0 (push_session_log e i sc line b)"
    using assms by (simp add: apart_def session_state_of_def session_logs_def own_tasks_def)
      (auto simp: push_session_log_def map_of_change_entry map_add_def Let_def split: option.split)
  show "apart j b0 (invalidate_profile_validation i b)"
    using assms by (simp add: apart_def session_state_of_def session_logs_def own_tasks_def invalidate_profile_validation_def map_of_filter_key)
  show "apart j b0 (finish_task e (launch_task_key i) st t b)" "apart j b0 (finish_task e (stop_task_key i) st t b)"
    unfolding finish_task_def finish_operation_task_def by (rule apart_update [OF assms(1)]; use k in simp)+
  show "apart j b0 (step_task e (launch_task_key i) sp ss o' b)" "apart j b0 (step_task e (stop_task_key i) sp ss o' b)"
    unfolding step_task_def update_operation_task_step_def by (rule apart_update [OF assms(1)]; use k in simp)+
  show "apart j b0 (start_operation_task e (launch_task_key i) op sj ns b)"
    "apart j b0 (start_operation_task e (stop_task_key i) op sj ns b)"
    by (rule apart_start [OF assms(1)]; use k in simp)+
  show "apart j b0 (b\<lparr>bd_tasks := update_latest (launch_task_key i)
       (\<lambda>t. t\<lparr>tk_status := ts, tk_detail := td, tk_updated := tu\<rparr>) (bd_tasks b)\<rparr>)"
    by (rule apart_update [OF assms(1)]; use k in simp)
qed

lemma profile_at_selected [simp]: "profile_at k (b\<lparr>bd_selected := x\<rparr>) = profile_at k b"
  by (simp add: profile_at_def)

lemma step_apart:
  assumes "about b x \<noteq> Some j"
  shows "apart j b (board_step (e, x) b)"
proof (cases "about b x")
  case None
  then show ?thesis
    by (cases x)
      (auto simp: apart_parts apart_schedule apart_refl panel_drawn_def remember_launch_request_def check_requested_def set_state_at_def
        record_active_container_sessions_def record_managed_display_starting_def record_managed_display_failure_def
        record_managed_display_exit_def ask_close_display_def Let_def split: option.split)
next
  case (Some i)
  with assms have ij: "j \<noteq> i" by simp
  note p = apart_profile [OF _ ij] apart_parts apart_refl
  show ?thesis
    using Some
    by (cases x)
      (auto simp: p remember_launch_request_def check_requested_def set_state_at_def
        remember_stop_request_def ensure_launch_task_def start_launch_task_def ensure_stop_task_def
        record_launch_progress_def record_launch_cancelling_def record_launch_cancelled_def record_launch_success_def
        record_launch_already_running_def record_launch_blocked_def record_launch_failure_def record_check_success_def
        record_check_failure_def record_force_stop_available_def record_stop_progress_def record_stop_success_def
        record_stop_failure_def record_terminal_opened_def record_terminal_open_failed_def record_process_exit_def
        record_session_log_def Let_def split: option.split)
qed

text \<open>
  C19: what is recorded of one profile leaves the state and the log of every other one as they are, and of the
  tasks that launch or stop the other one drops at most the oldest, changing none.
\<close>

theorem profiles_apart:
  "let b' = board_step (e, x) b
   in if about b x = Some j then True
      else session_state_of j b' = session_state_of j b \<and> session_logs j b' = session_logs j b
           \<and> (\<exists>n. filter (\<lambda>t. tk_key t \<in> {launch_task_key j, stop_task_key j}) (bd_tasks b')
                = drop n (filter (\<lambda>t. tk_key t \<in> {launch_task_key j, stop_task_key j}) (bd_tasks b)))"
proof (cases "about b x = Some j")
  case False
  from step_apart [OF this, of e] show ?thesis
    by (simp only: Let_def apart_def own_tasks_def False if_False simp_thms)
qed (simp only: Let_def if_True simp_thms)

text \<open>Nothing of a control sequence's start is left in a line of the log.\<close>

lemma esc_stripped: "esc \<notin> set (strip_ansi_sequences s)"
proof (induction s rule: strip_ansi_sequences.induct)
  case (2 c s)
  have "esc \<notin> set (takeWhile code_char s)"
    by (auto simp: esc_def code_char_def dest!: set_takeWhileD)
  moreover have "esc \<noteq> CHR ''[''" by (simp add: esc_def)
  ultimately show ?case using 2 by (subst strip_ansi_sequences.simps) (auto simp: Let_def)
qed (simp add: strip_ansi_sequences.simps)

end
